(* ===== verification/Prelude.thy ===== *)
theory Prelude
  imports Complex_Main "HOL-Library.Multiset" "HOL-Library.List_Lexorder"
    "HOL-Library.Char_ord" "HOL-Library.Product_Lexorder" "HOL-Library.AList"
    "HOL-Library.Word"
begin

text \<open>
  What the component theories share: the Go vocabulary of the model (strings, decimals, times,
  64-bit integers, sorting with a comparison function, maps of slices) and the generic facts
  about it.

  \<^item> A Go string is a HOL \<open>string\<close>; \<open>List_Lexorder\<close> over \<open>Char_ord\<close> is Go's bytewise order.
  \<^item> A \<open>decimal.Decimal\<close> is the rational number it denotes. The package keeps addition,
    subtraction, multiplication, negation and comparison exact, which is all the model uses
    of it; its rounding division is a parameter wherever the code divides.
  \<^item> A \<open>time.Time\<close> is the number of nanoseconds since the Unix epoch, in UTC.
  \<^item> An \<open>int64\<close> is a \<open>64 word\<close>, compared through \<open>sint\<close>.
  \<^item> \<open>sort.Slice\<close> and \<open>sort.SliceStable\<close> are \<open>go_sort\<close>, an insertion sort by the
    comparison function the caller passes.
  \<^item> A Go map from keys to slices that is filled by appending is an association list with
    \<open>mm_get\<close> (the empty slice for a missing key) and \<open>mm_append\<close>.
\<close>

type_synonym decimal = rat
type_synonym time = int
type_synonym int64 = "64 word"

named_theorems go_sort_key \<open>comparison functions of the code written as keys\<close>

subsection \<open>Sorting with a comparison function\<close>

fun go_insert :: "('a \<Rightarrow> 'a \<Rightarrow> bool) \<Rightarrow> 'a \<Rightarrow> 'a list \<Rightarrow> 'a list" where
  "go_insert lt x [] = [x]"
| "go_insert lt x (y # ys) = (if lt y x then y # go_insert lt x ys else x # y # ys)"

definition go_sort :: "('a \<Rightarrow> 'a \<Rightarrow> bool) \<Rightarrow> 'a list \<Rightarrow> 'a list" where
  "go_sort lt xs = foldr (go_insert lt) xs []"

lemma go_sort_simps [simp]:
  "go_sort lt [] = []"
  "go_sort lt (x # xs) = go_insert lt x (go_sort lt xs)"
  by (simp_all add: go_sort_def)

lemma mset_go_insert [simp]: "mset (go_insert lt x xs) = add_mset x (mset xs)"
  by (induction xs) auto

lemma mset_go_sort [simp]: "mset (go_sort lt xs) = mset xs"
  by (induction xs) auto

lemma set_go_sort [simp]: "set (go_sort lt xs) = set xs"
  by (metis mset_go_sort set_mset_mset)

lemma length_go_sort [simp]: "length (go_sort lt xs) = length xs"
  by (metis mset_go_sort size_mset)

lemma distinct_go_sort [simp]: "distinct (go_sort lt xs) = distinct xs"
  by (metis mset_eq_imp_distinct_iff mset_go_sort)

lemma go_insert_key:
  assumes "\<And>a b. a \<in> insert x (set ys) \<Longrightarrow> b \<in> insert x (set ys) \<Longrightarrow> lt a b \<longleftrightarrow> key a < key b"
  shows "go_insert lt x ys = insort_key key x ys"
  using assms by (induction ys) (auto simp: not_less)

lemma go_sort_by_key:
  fixes key :: "'a \<Rightarrow> 'k::linorder"
  assumes "\<And>a b. a \<in> set xs \<Longrightarrow> b \<in> set xs \<Longrightarrow> lt a b \<longleftrightarrow> key a < key b"
  shows "go_sort lt xs = sort_key key xs"
  using assms
proof (induction xs)
  case (Cons x xs)
  then have "go_sort lt xs = sort_key key xs" by simp
  moreover have "go_insert lt x (sort_key key xs) = insort_key key x (sort_key key xs)"
    by (rule go_insert_key) (use Cons.prems in auto)
  ultimately show ?case by simp
qed simp

lemma sort_key_perm:
  assumes "mset xs = mset ys" and "inj_on key (set xs)"
  shows "sort_key key xs = sort_key key ys"
  using assms by (metis mset_sort set_mset_mset sort_key_inj_key_eq sorted_sort_key)

text \<open>A slice sorted by a strict total order does not depend on the order it was built in.\<close>

lemma go_sort_perm:
  fixes key :: "'a \<Rightarrow> 'k::linorder"
  assumes perm: "mset xs = mset ys"
    and key: "\<And>a b. a \<in> set xs \<Longrightarrow> b \<in> set xs \<Longrightarrow> lt a b \<longleftrightarrow> key a < key b"
    and inj: "inj_on key (set xs)"
  shows "go_sort lt xs = go_sort lt ys"
proof -
  from perm have set: "set xs = set ys" by (rule mset_eq_setD)
  have "go_sort lt xs = sort_key key xs" by (rule go_sort_by_key) (rule key)
  moreover have "go_sort lt ys = sort_key key ys"
    by (rule go_sort_by_key) (simp add: key set)
  ultimately show ?thesis using sort_key_perm [OF perm inj] by simp
qed

lemma go_sort_sorted:
  fixes key :: "'a \<Rightarrow> 'k::linorder"
  assumes "\<And>a b. a \<in> set xs \<Longrightarrow> b \<in> set xs \<Longrightarrow> lt a b \<longleftrightarrow> key a < key b"
  shows "sorted (map key (go_sort lt xs))"
  by (simp add: go_sort_by_key [OF assms])

subsection \<open>Go maps of slices\<close>

definition mm_get :: "('k \<times> 'v list) list \<Rightarrow> 'k \<Rightarrow> 'v list" where
  "mm_get m k = (case map_of m k of None \<Rightarrow> [] | Some vs \<Rightarrow> vs)"

definition mm_append :: "'k \<Rightarrow> 'v \<Rightarrow> ('k \<times> 'v list) list \<Rightarrow> ('k \<times> 'v list) list" where
  "mm_append k v m = AList.update k (mm_get m k @ [v]) m"

text \<open>The map a loop builds by appending the second component under the first.\<close>

definition mm_build :: "('k \<times> 'v) list \<Rightarrow> ('k \<times> 'v list) list" where
  "mm_build kvs = fold (\<lambda>(k, v). mm_append k v) kvs []"

lemma mm_get_append: "mm_get (mm_append k v m) = (mm_get m)(k := mm_get m k @ [v])"
  by (rule ext) (simp add: mm_append_def mm_get_def update_conv')

lemma keys_mm_append: "fst ` set (mm_append k v m) = insert k (fst ` set m)"
  by (simp add: mm_append_def dom_update)

lemma distinct_mm_append: "distinct (map fst m) \<Longrightarrow> distinct (map fst (mm_append k v m))"
  by (simp add: mm_append_def distinct_update)

lemma mm_fold:
  "mm_get (fold (\<lambda>(k, v). mm_append k v) kvs m) k = mm_get m k @ map snd (filter (\<lambda>kv. fst kv = k) kvs)
   \<and> fst ` set (fold (\<lambda>(k, v). mm_append k v) kvs m) = fst ` set m \<union> fst ` set kvs
   \<and> (distinct (map fst m) \<longrightarrow> distinct (map fst (fold (\<lambda>(k, v). mm_append k v) kvs m)))"
proof (induction kvs arbitrary: m)
  case (Cons kv kvs)
  obtain a b where "kv = (a, b)" by fastforce
  then show ?case using Cons.IH [of "mm_append a b m"]
    by (simp add: mm_get_append keys_mm_append distinct_mm_append)
qed simp

lemma mm_get_build: "mm_get (mm_build kvs) k = map snd (filter (\<lambda>kv. fst kv = k) kvs)"
  using mm_fold [of kvs "[]" k] by (simp add: mm_build_def mm_get_def)

lemma keys_mm_build: "set (map fst (mm_build kvs)) = fst ` set kvs"
  using mm_fold [of kvs "[]"] by (simp add: mm_build_def)

lemma distinct_mm_build: "distinct (map fst (mm_build kvs))"
  using mm_fold [of kvs "[]"] by (simp add: mm_build_def)

text \<open>Neither the keys nor the multiset under a key depends on the order of the loop.\<close>

lemma mm_keys_perm:
  assumes "mset kvs = mset kvs'"
  shows "mset (map fst (mm_build kvs)) = mset (map fst (mm_build kvs'))"
proof -
  have "set (map fst (mm_build kvs)) = set (map fst (mm_build kvs'))"
    using mset_eq_setD [OF assms] by (simp only: keys_mm_build)
  then show ?thesis using set_eq_iff_mset_eq_distinct distinct_mm_build by blast
qed

lemma mm_get_perm: "mset kvs = mset kvs' \<Longrightarrow> mset (mm_get (mm_build kvs) k) = mset (mm_get (mm_build kvs') k)"
  by (simp add: mm_get_build)

lemma mset_concat_map_perm:
  "mset xs = mset ys \<Longrightarrow> mset (concat (map f xs)) = mset (concat (map f ys))"
  by (simp add: mset_concat flip: sum_mset_sum_list)

subsection \<open>Keeping the first of every repeat\<close>

text \<open>The loop with a \<open>seen\<close> map that the code writes wherever it drops repeats.\<close>

fun first_by :: "('a \<Rightarrow> 'k) \<Rightarrow> 'k set \<Rightarrow> 'a list \<Rightarrow> 'a list" where
  "first_by f seen [] = []"
| "first_by f seen (x # xs) =
     (if f x \<in> seen then first_by f seen xs else x # first_by f (insert (f x) seen) xs)"

lemma set_first_by: "set (first_by f seen xs) \<subseteq> {x \<in> set xs. f x \<notin> seen}"
  by (induction xs arbitrary: seen) (auto split: if_splits)

lemma keys_first_by: "f ` set (first_by f seen xs) = f ` set xs - seen"
  by (induction xs arbitrary: seen) (auto split: if_splits)

lemma distinct_first_by: "distinct (map f (first_by f seen xs))"
proof (induction xs arbitrary: seen)
  case (Cons x xs)
  have "f x \<notin> f ` set (first_by f (insert (f x) seen) xs)" by (simp add: keys_first_by)
  with Cons show ?case by simp
qed simp

lemma set_first_by_inj: "inj_on f (set xs) \<Longrightarrow> set (first_by f {} xs) = set xs"
proof -
  assume inj: "inj_on f (set xs)"
  have sub: "set (first_by f {} xs) \<subseteq> set xs" using set_first_by [of f "{}" xs] by blast
  have "f ` set (first_by f {} xs) = f ` set xs" by (simp add: keys_first_by)
  with inj sub show ?thesis by (simp add: inj_on_image_eq_iff)
qed

end
