(* ===== verification/TxType.thy ===== *)
theory TxType
  imports Prelude
begin

text \<open>
  The transaction type hierarchy of \<open>src/server/txtype/txtype.go\<close> over the enum of
  \<open>src/proto/type/v1/type.proto\<close>: the parent map, the subtree predicates \<open>MustBe\<close> and
  \<open>MayBe\<close>, the common ancestor \<open>Resolve\<close> and the antichain test. \<open>Resolve_loop\<close> is the
  loop of the code, which climbs until the candidate covers the next member and has no other
  way out; \<open>Resolve\<close> is the same loop cut off after four steps, more than the tree is deep.
  The two agree wherever the loop ends.
\<close>

datatype TxType =
    TX_TYPE_UNSPECIFIED
  | TRADE | TRADE_ASSET | TRADE_CASH
  | INCOME | DIVIDEND | INTEREST | RETURN_OF_CAPITAL
  | EXPENSE | TRANSACTION_COST | HOLDING_COST | FINANCING_COST
  | TRANSFER | TRANSFER_INTERNAL | TRANSFER_EXTERNAL
  | AMBIGUOUS

fun Parent :: "TxType \<Rightarrow> TxType" where
  "Parent TRADE = AMBIGUOUS"
| "Parent TRADE_ASSET = TRADE"
| "Parent TRADE_CASH = TRADE"
| "Parent INCOME = AMBIGUOUS"
| "Parent DIVIDEND = INCOME"
| "Parent INTEREST = INCOME"
| "Parent RETURN_OF_CAPITAL = INCOME"
| "Parent EXPENSE = AMBIGUOUS"
| "Parent TRANSACTION_COST = EXPENSE"
| "Parent HOLDING_COST = EXPENSE"
| "Parent FINANCING_COST = EXPENSE"
| "Parent TRANSFER = AMBIGUOUS"
| "Parent TRANSFER_INTERNAL = TRANSFER"
| "Parent TRANSFER_EXTERNAL = TRANSFER"
| "Parent AMBIGUOUS = TX_TYPE_UNSPECIFIED"
| "Parent TX_TYPE_UNSPECIFIED = TX_TYPE_UNSPECIFIED"

text \<open>How many steps of \<open>Parent\<close> lead off the top of the tree.\<close>

fun depth :: "TxType \<Rightarrow> nat" where
  "depth TX_TYPE_UNSPECIFIED = 0"
| "depth AMBIGUOUS = 1"
| "depth t = (if t \<in> {TRADE, INCOME, EXPENSE, TRANSFER} then 2 else 3)"

lemma depth_Parent: "t \<noteq> TX_TYPE_UNSPECIFIED \<Longrightarrow> depth (Parent t) < depth t"
  by (cases t) simp_all

lemma depth_le: "depth t \<le> 3"
  by (cases t) simp_all

function under :: "TxType \<Rightarrow> TxType \<Rightarrow> bool" where
  "under t x = (if t = TX_TYPE_UNSPECIFIED then False
                else if t = x then True
                else under (Parent t) x)"
  by pat_completeness auto
termination
  by (relation "measure (\<lambda>(t, x). depth t)") (auto simp: depth_Parent)

declare under.simps [simp del]

definition MustBe :: "TxType list \<Rightarrow> TxType list \<Rightarrow> bool" where
  "MustBe ds xs \<longleftrightarrow> ds \<noteq> [] \<and> list_all (\<lambda>t. list_ex (\<lambda>x. under t x) xs) ds"

definition MayBe :: "TxType list \<Rightarrow> TxType list \<Rightarrow> bool" where
  "MayBe ds xs \<longleftrightarrow> list_ex (\<lambda>t. list_ex (\<lambda>x. under t x \<or> under x t) xs) ds"

definition ResolvedMustBe :: "TxType \<Rightarrow> TxType list \<Rightarrow> bool" where
  "ResolvedMustBe t xs = MustBe [t] xs"

definition ResolvedMayBe :: "TxType \<Rightarrow> TxType list \<Rightarrow> bool" where
  "ResolvedMayBe t xs = MayBe [t] xs"

text \<open>The inner loop of \<open>Resolve\<close>, as written: no bound but the test itself.\<close>

partial_function (option) climb_loop :: "TxType \<Rightarrow> TxType \<Rightarrow> TxType option" where
  "climb_loop t anc = (if under t anc then Some anc else climb_loop t (Parent anc))"

fun Resolve_loop_from :: "TxType \<Rightarrow> TxType list \<Rightarrow> TxType option" where
  "Resolve_loop_from anc [] = Some anc"
| "Resolve_loop_from anc (t # ts) =
     (case climb_loop t anc of None \<Rightarrow> None | Some anc' \<Rightarrow> Resolve_loop_from anc' ts)"

definition Resolve_loop :: "TxType list \<Rightarrow> TxType option" where
  "Resolve_loop ds =
     (case ds of [] \<Rightarrow> Some TX_TYPE_UNSPECIFIED | t # ts \<Rightarrow> Resolve_loop_from t ts)"

fun climb :: "nat \<Rightarrow> TxType \<Rightarrow> TxType \<Rightarrow> TxType" where
  "climb 0 t anc = anc"
| "climb (Suc n) t anc = (if under t anc then anc else climb n t (Parent anc))"

definition Resolve :: "TxType list \<Rightarrow> TxType" where
  "Resolve ds =
     (case ds of [] \<Rightarrow> TX_TYPE_UNSPECIFIED | t # ts \<Rightarrow> fold (climb 4) ts t)"

definition Antichain :: "TxType list \<Rightarrow> bool" where
  "Antichain ds \<longleftrightarrow>
     list_all (\<lambda>(i, a). list_all (\<lambda>(j, b). \<not> (i \<noteq> j \<and> under b a)) (enumerate 0 ds))
       (enumerate 0 ds)"

subsection \<open>The subtree order\<close>

lemma under_code [simp]:
  "under TX_TYPE_UNSPECIFIED x = False"
  "under AMBIGUOUS x = (x = AMBIGUOUS)"
  "under TRADE x = (x \<in> {TRADE, AMBIGUOUS})"
  "under TRADE_ASSET x = (x \<in> {TRADE_ASSET, TRADE, AMBIGUOUS})"
  "under TRADE_CASH x = (x \<in> {TRADE_CASH, TRADE, AMBIGUOUS})"
  "under INCOME x = (x \<in> {INCOME, AMBIGUOUS})"
  "under DIVIDEND x = (x \<in> {DIVIDEND, INCOME, AMBIGUOUS})"
  "under INTEREST x = (x \<in> {INTEREST, INCOME, AMBIGUOUS})"
  "under RETURN_OF_CAPITAL x = (x \<in> {RETURN_OF_CAPITAL, INCOME, AMBIGUOUS})"
  "under EXPENSE x = (x \<in> {EXPENSE, AMBIGUOUS})"
  "under TRANSACTION_COST x = (x \<in> {TRANSACTION_COST, EXPENSE, AMBIGUOUS})"
  "under HOLDING_COST x = (x \<in> {HOLDING_COST, EXPENSE, AMBIGUOUS})"
  "under FINANCING_COST x = (x \<in> {FINANCING_COST, EXPENSE, AMBIGUOUS})"
  "under TRANSFER x = (x \<in> {TRANSFER, AMBIGUOUS})"
  "under TRANSFER_INTERNAL x = (x \<in> {TRANSFER_INTERNAL, TRANSFER, AMBIGUOUS})"
  "under TRANSFER_EXTERNAL x = (x \<in> {TRANSFER_EXTERNAL, TRANSFER, AMBIGUOUS})"
  by (auto simp: under.simps)

lemma under_refl [simp]: "under t t \<longleftrightarrow> t \<noteq> TX_TYPE_UNSPECIFIED"
  by (cases t) simp_all

lemma not_under_unspecified [simp]: "\<not> under t TX_TYPE_UNSPECIFIED"
  by (cases t) simp_all

lemma under_trans: "under a b \<Longrightarrow> under b c \<Longrightarrow> under a c"
  by (cases a; cases b) auto

lemma under_antisym: "under a b \<Longrightarrow> under b a \<Longrightarrow> a = b"
  by (cases a; cases b) auto

lemma under_AMBIGUOUS [simp]: "under t AMBIGUOUS \<longleftrightarrow> t \<noteq> TX_TYPE_UNSPECIFIED"
  by (cases t) simp_all

lemma under_specified: "under a b \<Longrightarrow> a \<noteq> TX_TYPE_UNSPECIFIED \<and> b \<noteq> TX_TYPE_UNSPECIFIED"
  by auto

lemma under_Parent: "under a b \<Longrightarrow> a \<noteq> b \<Longrightarrow> under (Parent a) b"
  by (cases a) auto

text \<open>Two nodes above one node are comparable: the hierarchy is a tree.\<close>

lemma under_tree: "under a b \<Longrightarrow> under a c \<Longrightarrow> under b c \<or> under c b"
  by (cases a) auto

lemma MustBe_MayBe: "MustBe ts xs \<Longrightarrow> MayBe ts xs"
  by (cases ts) (auto simp: MustBe_def MayBe_def list_ex_iff)

subsection \<open>Resolve is the nearest common ancestor\<close>

abbreviation specified :: "TxType list \<Rightarrow> bool" where
  "specified ds \<equiv> TX_TYPE_UNSPECIFIED \<notin> set ds"

lemma climb_loop_returns_under: "climb_loop t anc = Some r \<Longrightarrow> under t r \<and> anc \<noteq> TX_TYPE_UNSPECIFIED"
proof (rule climb_loop.raw_induct [where P = "\<lambda>t anc r. under t r \<and> anc \<noteq> TX_TYPE_UNSPECIFIED"])
  fix f t anc r
  assume IH: "\<And>t anc r. f t anc = Some r \<Longrightarrow> under t r \<and> anc \<noteq> TX_TYPE_UNSPECIFIED"
    and eq: "(if under t anc then Some anc else f t (Parent anc)) = Some r"
  show "under t r \<and> anc \<noteq> TX_TYPE_UNSPECIFIED"
  proof (cases "under t anc")
    case True
    with eq show ?thesis by (auto dest: under_specified)
  next
    case False
    with eq have "f t (Parent anc) = Some r" by simp
    from IH [OF this] show ?thesis by auto
  qed
qed

lemma climb_loop_enough_fuel:
  assumes "t \<noteq> TX_TYPE_UNSPECIFIED" "anc \<noteq> TX_TYPE_UNSPECIFIED" "depth anc \<le> n"
  shows "climb_loop t anc = Some (climb n t anc)"
  using assms(2,3)
proof (induction n arbitrary: anc)
  case 0
  then show ?case by (cases anc) simp_all
next
  case (Suc n)
  show ?case
  proof (cases "under t anc")
    case True
    then show ?thesis by (simp add: climb_loop.simps)
  next
    case False
    with assms(1) have "Parent anc \<noteq> TX_TYPE_UNSPECIFIED" using Suc.prems(1) by (cases anc) auto
    with Suc False show ?thesis
      using depth_Parent [OF Suc.prems(1)] by (subst climb_loop.simps) simp
  qed
qed

lemma climb_loop_climb:
  assumes "t \<noteq> TX_TYPE_UNSPECIFIED" "anc \<noteq> TX_TYPE_UNSPECIFIED"
  shows "climb_loop t anc = Some (climb 4 t anc)"
  using assms depth_le [of anc] by (intro climb_loop_enough_fuel) auto

lemma climb_lub:
  assumes "t \<noteq> TX_TYPE_UNSPECIFIED" "anc \<noteq> TX_TYPE_UNSPECIFIED"
  shows "under t (climb 4 t anc)" "under anc (climb 4 t anc)"
    and "under t c \<Longrightarrow> under anc c \<Longrightarrow> under (climb 4 t anc) c"
  using assms by (cases anc; auto simp: eval_nat_numeral)+

lemma fold_climb_upper:
  assumes "anc \<noteq> TX_TYPE_UNSPECIFIED" "specified ts" "t \<in> set (anc # ts)"
  shows "under t (fold (climb 4) ts anc)"
  using assms
proof (induction ts arbitrary: anc t)
  case (Cons u ts)
  let ?a = "climb 4 u anc"
  have lub: "under u ?a" "under anc ?a" using Cons.prems by (auto intro: climb_lub)
  then have a: "?a \<noteq> TX_TYPE_UNSPECIFIED" by auto
  with Cons.prems(2) have IH: "\<And>t. t \<in> set (?a # ts) \<Longrightarrow> under t (fold (climb 4) ts ?a)"
    by (intro Cons.IH) auto
  show ?case using Cons.prems(3) IH [of ?a] IH [of t] lub by (auto intro: under_trans)
qed auto

lemma fold_climb_least:
  assumes "anc \<noteq> TX_TYPE_UNSPECIFIED" "specified ts" "\<And>t. t \<in> set (anc # ts) \<Longrightarrow> under t c"
  shows "under (fold (climb 4) ts anc) c"
  using assms
proof (induction ts arbitrary: anc)
  case (Cons u ts)
  have "under (climb 4 u anc) c" using Cons.prems by (auto intro: climb_lub)
  with Cons.prems show ?case by (auto intro!: Cons.IH dest: under_specified)
qed auto

lemma Resolve_loop_from_fold:
  assumes "anc \<noteq> TX_TYPE_UNSPECIFIED" "specified ts"
  shows "Resolve_loop_from anc ts = Some (fold (climb 4) ts anc)"
  using assms
proof (induction ts arbitrary: anc)
  case (Cons u ts)
  have "climb 4 u anc \<noteq> TX_TYPE_UNSPECIFIED"
    using climb_lub(2) [of u anc] Cons.prems under_specified by auto
  with Cons show ?case by (auto simp: climb_loop_climb)
qed auto

lemma Resolve_upper:
  assumes "specified ds" "t \<in> set ds"
  shows "under t (Resolve ds)"
  using assms fold_climb_upper by (cases ds) (auto simp: Resolve_def)

lemma Resolve_least:
  assumes "specified ds" "ds \<noteq> []" "\<And>t. t \<in> set ds \<Longrightarrow> under t c"
  shows "under (Resolve ds) c"
  using assms fold_climb_least by (cases ds) (auto simp: Resolve_def)

lemma Resolve_loop_Resolve:
  assumes "specified ds"
  shows "Resolve_loop ds = Some (Resolve ds)"
  using assms Resolve_loop_from_fold by (cases ds) (auto simp: Resolve_def Resolve_loop_def)

lemma MayBe_Resolve:
  assumes "specified ds" "ds \<noteq> []"
  shows "MayBe ds [Resolve ds]"
proof -
  obtain t where "t \<in> set ds" using assms(2) by (cases ds) auto
  then show ?thesis using Resolve_upper [OF assms(1)] by (auto simp: MayBe_def list_ex_iff)
qed

text \<open>
  C34. On a declared set that names no unspecified type the loop of \<open>Resolve\<close> returns, and
  what it returns is the nearest common ancestor: every member lies under it, and it lies
  under every node all members lie under.
\<close>

theorem Resolve_is_nearest_common_ancestor:
  assumes "TX_TYPE_UNSPECIFIED \<notin> set ds" and "ds \<noteq> []"
  shows "\<exists>r. Resolve_loop ds = Some r \<and> r = Resolve ds \<and> (\<forall>t\<in>set ds. under t r)
           \<and> (\<forall>c. (\<forall>t\<in>set ds. under t c) \<longrightarrow> under r c)"
  using assms by (auto simp: Resolve_loop_Resolve Resolve_upper intro: Resolve_least)

theorem Resolve_is_nearest_common_ancestor_witness:
  "Resolve_loop [DIVIDEND, INTEREST] = Some INCOME \<and> under DIVIDEND INCOME \<and> under INTEREST INCOME"
proof -
  have r: "Resolve [DIVIDEND, INTEREST] = INCOME"
    by (simp add: Resolve_def eval_nat_numeral)
  show ?thesis
    using Resolve_is_nearest_common_ancestor [of "[DIVIDEND, INTEREST]"] by (auto simp: r)
qed

lemma Resolve_loop_from_unspecified:
  "TX_TYPE_UNSPECIFIED \<in> set (anc # ts) \<Longrightarrow> ts \<noteq> [] \<Longrightarrow> Resolve_loop_from anc ts = None"
proof (induction ts arbitrary: anc)
  case (Cons t ts)
  show ?case
  proof (cases "climb_loop t anc")
    case (Some a)
    with climb_loop_returns_under have "under t a" "anc \<noteq> TX_TYPE_UNSPECIFIED" by blast+
    with Cons.prems have "TX_TYPE_UNSPECIFIED \<in> set (a # ts)" "ts \<noteq> []" by auto
    with Cons.IH Some show ?thesis by simp
  qed simp
qed simp

text \<open>
  The loop has no exit for an unspecified type: a set of two or more that holds
  \<open>TX_TYPE_UNSPECIFIED\<close> anywhere makes it run forever. Ingestion rejects such a set before
  it reaches the hierarchy.
\<close>

theorem Resolve_diverges_on_unspecified:
  assumes "TX_TYPE_UNSPECIFIED \<in> set ds" and "2 \<le> length ds"
  shows "Resolve_loop ds = None"
  using assms by (cases ds) (auto simp: Resolve_loop_def intro!: Resolve_loop_from_unspecified)

theorem Resolve_diverges_on_unspecified_witness:
  "Resolve_loop [TRADE_CASH, TX_TYPE_UNSPECIFIED] = None"
  using Resolve_diverges_on_unspecified [of "[TRADE_CASH, TX_TYPE_UNSPECIFIED]"] by simp

end
