(* ===== verification/Vocab.thy ===== *)
theory Vocab
  imports TxType
begin

text \<open>
  The controlled vocabularies of \<open>src/server/db/db.go\<close>: the enums of
  \<open>src/proto/type/v1/type.proto\<close> with the spellings the columns store, and the correlation
  record whose scope and match hold those spellings. A generated name table
  (\<open>TxType_name\<close>, \<open>TxType_value\<close>, ...) is the list of the enum's values with their names;
  an enum number the build does not know is outside the model.
\<close>

subsection \<open>Enum name tables\<close>

datatype Broker = BROKER_UNSPECIFIED | IBKR | SCHB | FIDELITY

datatype AccountType =
    ACCOUNT_TYPE_UNSPECIFIED | ACCOUNT_TYPE_USER | ACCOUNT_TYPE_EQUITY | ACCOUNT_TYPE_INCOME
  | ACCOUNT_TYPE_EXPENSE | ACCOUNT_TYPE_IMBALANCE | ACCOUNT_TYPE_TRANSFER_CLEARING
  | ACCOUNT_TYPE_SOURCE_ROUNDING

datatype Scope = SCOPE_UNSPECIFIED | SCOPE_FILE | SCOPE_ACCOUNT | SCOPE_BROKER

datatype Match =
  MATCH_UNSPECIFIED | MATCH_EXACT | MATCH_ORDINAL | MATCH_ACCOUNT | MATCH_ATTACHES

datatype AssetClass =
    ASSET_CLASS_UNSPECIFIED | STOCK | ETF | FIXED_INCOME | MUTUAL_FUND | OPTION | FUTURE
  | CASH | FX | UNKNOWN

datatype PluginCategory =
    PLUGIN_CATEGORY_UNSPECIFIED | IDENTIFIER | CANDIDATE | PRICE | INFLATION | CORPORATE_EVENT

definition Broker_name :: "(Broker \<times> string) list" where
  "Broker_name = [(BROKER_UNSPECIFIED, ''BROKER_UNSPECIFIED''), (IBKR, ''IBKR''),
     (SCHB, ''SCHB''), (FIDELITY, ''FIDELITY'')]"

definition TxType_name :: "(TxType \<times> string) list" where
  "TxType_name = [(TX_TYPE_UNSPECIFIED, ''TX_TYPE_UNSPECIFIED''), (TRADE, ''TRADE''),
     (TRADE_ASSET, ''TRADE_ASSET''), (TRADE_CASH, ''TRADE_CASH''), (INCOME, ''INCOME''),
     (DIVIDEND, ''DIVIDEND''), (INTEREST, ''INTEREST''),
     (RETURN_OF_CAPITAL, ''RETURN_OF_CAPITAL''), (EXPENSE, ''EXPENSE''),
     (TRANSACTION_COST, ''TRANSACTION_COST''), (HOLDING_COST, ''HOLDING_COST''),
     (FINANCING_COST, ''FINANCING_COST''), (TRANSFER, ''TRANSFER''),
     (TRANSFER_INTERNAL, ''TRANSFER_INTERNAL''), (TRANSFER_EXTERNAL, ''TRANSFER_EXTERNAL''),
     (AMBIGUOUS, ''AMBIGUOUS'')]"

definition AccountType_name :: "(AccountType \<times> string) list" where
  "AccountType_name = [(ACCOUNT_TYPE_UNSPECIFIED, ''ACCOUNT_TYPE_UNSPECIFIED''),
     (ACCOUNT_TYPE_USER, ''ACCOUNT_TYPE_USER''), (ACCOUNT_TYPE_EQUITY, ''ACCOUNT_TYPE_EQUITY''),
     (ACCOUNT_TYPE_INCOME, ''ACCOUNT_TYPE_INCOME''),
     (ACCOUNT_TYPE_EXPENSE, ''ACCOUNT_TYPE_EXPENSE''),
     (ACCOUNT_TYPE_IMBALANCE, ''ACCOUNT_TYPE_IMBALANCE''),
     (ACCOUNT_TYPE_TRANSFER_CLEARING, ''ACCOUNT_TYPE_TRANSFER_CLEARING''),
     (ACCOUNT_TYPE_SOURCE_ROUNDING, ''ACCOUNT_TYPE_SOURCE_ROUNDING'')]"

definition Scope_name :: "(Scope \<times> string) list" where
  "Scope_name = [(SCOPE_UNSPECIFIED, ''SCOPE_UNSPECIFIED''), (SCOPE_FILE, ''SCOPE_FILE''),
     (SCOPE_ACCOUNT, ''SCOPE_ACCOUNT''), (SCOPE_BROKER, ''SCOPE_BROKER'')]"

definition Match_name :: "(Match \<times> string) list" where
  "Match_name = [(MATCH_UNSPECIFIED, ''MATCH_UNSPECIFIED''), (MATCH_EXACT, ''MATCH_EXACT''),
     (MATCH_ORDINAL, ''MATCH_ORDINAL''), (MATCH_ACCOUNT, ''MATCH_ACCOUNT''),
     (MATCH_ATTACHES, ''MATCH_ATTACHES'')]"

definition AssetClass_name :: "(AssetClass \<times> string) list" where
  "AssetClass_name = [(ASSET_CLASS_UNSPECIFIED, ''ASSET_CLASS_UNSPECIFIED''), (STOCK, ''STOCK''),
     (ETF, ''ETF''), (FIXED_INCOME, ''FIXED_INCOME''), (MUTUAL_FUND, ''MUTUAL_FUND''),
     (OPTION, ''OPTION''), (FUTURE, ''FUTURE''), (CASH, ''CASH''), (FX, ''FX''),
     (UNKNOWN, ''UNKNOWN'')]"

text \<open>\<open>E_name[v]\<close>, \<open>v.String()\<close> and \<open>E_value[s]\<close> of a generated enum.\<close>

definition enum_String :: "('e \<times> string) list \<Rightarrow> 'e \<Rightarrow> string" where
  "enum_String tbl v = (case map_of tbl v of Some s \<Rightarrow> s | None \<Rightarrow> '''')"

definition enum_value :: "('e \<times> string) list \<Rightarrow> string \<Rightarrow> 'e option" where
  "enum_value tbl s = map_of (map (\<lambda>(v, n). (n, v)) tbl) s"

text \<open>\<open>strings.TrimPrefix\<close>.\<close>

definition TrimPrefix :: "string \<Rightarrow> string \<Rightarrow> string" where
  "TrimPrefix s pre = (if take (length pre) s = pre then drop (length pre) s else s)"

subsection \<open>Conversions between enums and their stored spellings\<close>

definition AssetClassToStr :: "AssetClass \<Rightarrow> string" where
  "AssetClassToStr ac =
     (if ac = ASSET_CLASS_UNSPECIFIED then '''' else enum_String AssetClass_name ac)"

definition StrToAssetClass :: "string \<Rightarrow> AssetClass" where
  "StrToAssetClass s =
     (case enum_value AssetClass_name s of None \<Rightarrow> ASSET_CLASS_UNSPECIFIED | Some v \<Rightarrow> v)"

definition BrokerToStr :: "Broker \<Rightarrow> string" where
  "BrokerToStr b = (case map_of Broker_name b of
       None \<Rightarrow> ''''
     | Some _ \<Rightarrow> if b = BROKER_UNSPECIFIED then '''' else enum_String Broker_name b)"

definition StrToBroker :: "string \<Rightarrow> Broker" where
  "StrToBroker s = (case enum_value Broker_name s of None \<Rightarrow> BROKER_UNSPECIFIED | Some v \<Rightarrow> v)"

definition TxTypeToStr :: "TxType \<Rightarrow> string + string" where
  "TxTypeToStr t =
     (if t = TX_TYPE_UNSPECIFIED then Inl ''tx type unspecified''
      else let s = enum_String TxType_name t in
        if s = ''TX_TYPE_UNSPECIFIED'' then Inl ''tx type unspecified'' else Inr s)"

definition StrToTxType :: "string \<Rightarrow> TxType" where
  "StrToTxType s = (case enum_value TxType_name s of None \<Rightarrow> TX_TYPE_UNSPECIFIED | Some v \<Rightarrow> v)"

fun TxTypesToStrs_loop :: "TxType list \<Rightarrow> string + string list" where
  "TxTypesToStrs_loop [] = Inr []"
| "TxTypesToStrs_loop (t # ts) = (case TxTypeToStr t of
       Inl e \<Rightarrow> Inl e
     | Inr s \<Rightarrow> (case TxTypesToStrs_loop ts of Inl e \<Rightarrow> Inl e | Inr ss \<Rightarrow> Inr (s # ss)))"

definition TxTypesToStrs :: "TxType list \<Rightarrow> string + string list" where
  "TxTypesToStrs ts = (if ts = [] then Inl ''broker tx type set empty'' else TxTypesToStrs_loop ts)"

definition StrsToTxTypes :: "string list \<Rightarrow> TxType list" where
  "StrsToTxTypes strs = map StrToTxType strs"

definition accountTypePrefix :: string where "accountTypePrefix = ''ACCOUNT_TYPE_''"

definition AccountTypeToStr :: "AccountType \<Rightarrow> string + string" where
  "AccountTypeToStr a =
     (if a = ACCOUNT_TYPE_UNSPECIFIED then Inr ''USER''
      else case map_of AccountType_name a of
          None \<Rightarrow> Inl ''unknown account type''
        | Some s \<Rightarrow> Inr (TrimPrefix s accountTypePrefix))"

definition StrToAccountType :: "string \<Rightarrow> AccountType" where
  "StrToAccountType s = (case enum_value AccountType_name (accountTypePrefix @ s) of
       None \<Rightarrow> ACCOUNT_TYPE_UNSPECIFIED | Some v \<Rightarrow> v)"

definition scopePrefix :: string where "scopePrefix = ''SCOPE_''"
definition matchPrefix :: string where "matchPrefix = ''MATCH_''"

definition ScopeToStr :: "Scope \<Rightarrow> string + string" where
  "ScopeToStr s = (case map_of Scope_name s of
       None \<Rightarrow> Inl ''unknown correlation scope''
     | Some nm \<Rightarrow> if s = SCOPE_UNSPECIFIED then Inl ''unknown correlation scope''
                 else Inr (TrimPrefix nm scopePrefix))"

definition StrToScope :: "string \<Rightarrow> Scope" where
  "StrToScope s = (case enum_value Scope_name (scopePrefix @ s) of
       None \<Rightarrow> SCOPE_UNSPECIFIED | Some v \<Rightarrow> v)"

definition MatchToStr :: "Match \<Rightarrow> string + string" where
  "MatchToStr m = (case map_of Match_name m of
       None \<Rightarrow> Inl ''unknown correlation match''
     | Some nm \<Rightarrow> if m = MATCH_UNSPECIFIED then Inl ''unknown correlation match''
                 else Inr (TrimPrefix nm matchPrefix))"

definition StrToMatch :: "string \<Rightarrow> Match" where
  "StrToMatch s = (case enum_value Match_name (matchPrefix @ s) of
       None \<Rightarrow> MATCH_UNSPECIFIED | Some v \<Rightarrow> v)"

fun PluginCategoryToStr :: "PluginCategory \<Rightarrow> string" where
  "PluginCategoryToStr IDENTIFIER = ''identifier''"
| "PluginCategoryToStr CANDIDATE = ''candidate''"
| "PluginCategoryToStr PRICE = ''price''"
| "PluginCategoryToStr INFLATION = ''inflation''"
| "PluginCategoryToStr CORPORATE_EVENT = ''corporate_event''"
| "PluginCategoryToStr PLUGIN_CATEGORY_UNSPECIFIED = ''''"

definition StrToPluginCategory :: "string \<Rightarrow> PluginCategory" where
  "StrToPluginCategory s =
     (if s = ''identifier'' then IDENTIFIER
      else if s = ''candidate'' then CANDIDATE
      else if s = ''price'' then PRICE
      else if s = ''inflation'' then INFLATION
      else if s = ''corporate_event'' then CORPORATE_EVENT
      else PLUGIN_CATEGORY_UNSPECIFIED)"

subsection \<open>Asset classes and currency codes\<close>

definition assetClassEquivalents :: "(string \<times> string) list" where
  "assetClassEquivalents = [(''STOCK'', ''ETF''), (''ETF'', ''STOCK''),
     (''MUTUAL_FUND'', ''ETF''), (''ETF'', ''MUTUAL_FUND'')]"

definition IsAssetClassCompatible :: "string \<Rightarrow> string \<Rightarrow> bool" where
  "IsAssetClassCompatible implied resolved =
     (if resolved = '''' \<or> resolved = ''UNKNOWN'' then True
      else if implied = ''UNKNOWN'' then resolved \<noteq> ''CASH''
      else if implied = resolved then True
      else (implied, resolved) \<in> set assetClassEquivalents)"

definition upper_letter :: "char \<Rightarrow> bool" where
  "upper_letter c \<longleftrightarrow> CHR ''A'' \<le> c \<and> c \<le> CHR ''Z''"

definition ValidCurrencyCode :: "string \<Rightarrow> bool" where
  "ValidCurrencyCode s \<longleftrightarrow> length s = 3 \<and> list_all upper_letter s"

subsection \<open>Correlations\<close>

record Correlation =
  c_Label :: string
  c_Token :: string
  c_Ordinal :: "int64 option"
  c_Scope :: string
  c_Match :: "string list"
  c_OrdinalSpan :: "int64 option"
  c_JobID :: string

definition MatchExact :: string where "MatchExact = ''EXACT''"
definition MatchOrdinal :: string where "MatchOrdinal = ''ORDINAL''"
definition MatchAccount :: string where "MatchAccount = ''ACCOUNT''"
definition MatchAttaches :: string where "MatchAttaches = ''ATTACHES''"
definition ScopeFile :: string where "ScopeFile = ''FILE''"
definition ScopeAccount :: string where "ScopeAccount = ''ACCOUNT''"
definition ScopeBroker :: string where "ScopeBroker = ''BROKER''"

definition Declares :: "Correlation \<Rightarrow> string \<Rightarrow> bool" where
  "Declares c m \<longleftrightarrow> m \<in> set (c_Match c)"

subsection \<open>Round trips\<close>

lemmas name_tables = Broker_name_def TxType_name_def AccountType_name_def Scope_name_def
  Match_name_def AssetClass_name_def accountTypePrefix_def scopePrefix_def matchPrefix_def

lemmas enum_defs = enum_String_def enum_value_def TrimPrefix_def

lemma TxTypeToStr_table:
  "\<forall>t \<in> set (map fst TxType_name). case TxTypeToStr t of
     Inr s \<Rightarrow> StrToTxType s = t | Inl e \<Rightarrow> t = TX_TYPE_UNSPECIFIED"
  by code_simp

lemma TxType_name_all: "t \<in> set (map fst TxType_name)"
  by (cases t) (simp_all add: TxType_name_def)

lemma StrToTxType_TxTypeToStr: "TxTypeToStr t = Inr s \<Longrightarrow> StrToTxType s = t"
  using TxTypeToStr_table TxType_name_all [of t] by fastforce

lemma TxTypeToStr_Inl: "TxTypeToStr t = Inl e \<Longrightarrow> t = TX_TYPE_UNSPECIFIED"
  using TxTypeToStr_table TxType_name_all [of t] by fastforce

lemma TxTypeToStr_inj:
  "TxTypeToStr t = Inr s \<Longrightarrow> TxTypeToStr t' = Inr s \<Longrightarrow> t = t'"
  by (metis StrToTxType_TxTypeToStr)

lemma TxTypesToStrs_loop_Inr:
  "TxTypesToStrs_loop ts = Inr ss \<Longrightarrow> StrsToTxTypes ss = ts \<and> specified ts"
proof (induction ts arbitrary: ss)
  case (Cons t ts)
  then obtain s ss' where "TxTypeToStr t = Inr s" "TxTypesToStrs_loop ts = Inr ss'" "ss = s # ss'"
    by (auto split: sum.splits)
  with Cons.IH show ?case
    by (auto simp: StrsToTxTypes_def StrToTxType_TxTypeToStr TxTypeToStr_def)
qed (simp add: StrsToTxTypes_def)

lemma TxTypesToStrs_loop_Inl:
  "TxTypesToStrs_loop ts = Inl e \<Longrightarrow> TX_TYPE_UNSPECIFIED \<in> set ts"
  by (induction ts) (auto split: sum.splits dest: TxTypeToStr_Inl)

text \<open>
  A declared type set is stored exactly when it is non-empty and names no unspecified
  type, and reading the stored spellings back gives the same set in the same order.
\<close>

theorem TxTypesToStrs_roundtrip:
  "case TxTypesToStrs ts of
     Inr ss \<Rightarrow> StrsToTxTypes ss = ts \<and> ts \<noteq> [] \<and> TX_TYPE_UNSPECIFIED \<notin> set ts
   | Inl e \<Rightarrow> ts = [] \<or> TX_TYPE_UNSPECIFIED \<in> set ts"
  using TxTypesToStrs_loop_Inr [of ts] TxTypesToStrs_loop_Inl [of ts]
  by (auto simp: TxTypesToStrs_def split: sum.splits)

lemma Broker_roundtrip: "StrToBroker (BrokerToStr b) = b"
  by (cases b) (simp_all add: StrToBroker_def BrokerToStr_def name_tables enum_defs)

lemma AssetClass_roundtrip: "StrToAssetClass (AssetClassToStr ac) = ac"
  by (cases ac) (simp_all add: StrToAssetClass_def AssetClassToStr_def name_tables enum_defs)

lemma PluginCategory_roundtrip: "StrToPluginCategory (PluginCategoryToStr pc) = pc"
  by (cases pc) (simp_all add: StrToPluginCategory_def)

lemma Scope_roundtrip:
  "case ScopeToStr sc of Inr s \<Rightarrow> StrToScope s = sc | Inl e \<Rightarrow> sc = SCOPE_UNSPECIFIED"
  by (cases sc) (simp_all add: ScopeToStr_def StrToScope_def name_tables enum_defs)

lemma Match_roundtrip:
  "case MatchToStr m of Inr s \<Rightarrow> StrToMatch s = m | Inl e \<Rightarrow> m = MATCH_UNSPECIFIED"
  by (cases m) (simp_all add: MatchToStr_def StrToMatch_def name_tables enum_defs)

lemma AccountType_roundtrip:
  "case AccountTypeToStr a of
     Inr s \<Rightarrow> StrToAccountType s = (if a = ACCOUNT_TYPE_UNSPECIFIED then ACCOUNT_TYPE_USER else a)
   | Inl e \<Rightarrow> False"
  by (cases a) (simp_all add: AccountTypeToStr_def StrToAccountType_def name_tables enum_defs)

text \<open>
  Every other vocabulary reads back what it writes: a broker, an asset class, a plugin
  category, a scope, a match and an account type survive their stored spelling, an
  unspecified scope or match has none, and an unspecified account type is stored as a user's.
\<close>

theorem vocabularies_roundtrip:
  "StrToBroker (BrokerToStr b) = b
   \<and> StrToAssetClass (AssetClassToStr ac) = ac
   \<and> StrToPluginCategory (PluginCategoryToStr pc) = pc
   \<and> (case ScopeToStr sc of Inr s \<Rightarrow> StrToScope s = sc | Inl e \<Rightarrow> sc = SCOPE_UNSPECIFIED)
   \<and> (case MatchToStr m of Inr s \<Rightarrow> StrToMatch s = m | Inl e \<Rightarrow> m = MATCH_UNSPECIFIED)
   \<and> (case AccountTypeToStr a of
        Inr s \<Rightarrow> StrToAccountType s
          = (if a = ACCOUNT_TYPE_UNSPECIFIED then ACCOUNT_TYPE_USER else a)
      | Inl e \<Rightarrow> False)"
  by (intro conjI Broker_roundtrip AssetClass_roundtrip PluginCategory_roundtrip
      Scope_roundtrip Match_roundtrip AccountType_roundtrip)

end
