(* ===== verification/Residual.thy ===== *)
theory Residual
  imports Vocab
begin

text \<open>
  The residual classification of \<open>src/server/residual/residual.go\<close>: which account type the
  posting that balances a group takes. Named after the Go functions, with the package name in
  front where the bare name is taken (\<open>residual_Type\<close>).
\<close>

definition CurrencyPrefix :: string where "CurrencyPrefix = ''cur:''"
definition InstrumentPrefix :: string where "InstrumentPrefix = ''inst:''"
definition DescriptionPrefix :: string where "DescriptionPrefix = ''desc:''"

definition HasPrefix :: "string \<Rightarrow> string \<Rightarrow> bool" where
  "HasPrefix s pre \<longleftrightarrow> take (length pre) s = pre"

text \<open>\<open>strings.CutPrefix\<close>: the rest and whether the prefix was there.\<close>

definition CutPrefix :: "string \<Rightarrow> string \<Rightarrow> string \<times> bool" where
  "CutPrefix s pre = (if HasPrefix s pre then (drop (length pre) s, True) else (s, False))"

definition moneyTolerance :: decimal where "moneyTolerance = 5 / 1000"
definition commodityTolerance :: decimal where "commodityTolerance = 1 / 10 ^ 6"

definition PriceScaleFloor :: nat where "PriceScaleFloor = 2"

definition Tolerance :: "string \<Rightarrow> decimal \<Rightarrow> decimal" where
  "Tolerance commodity priceRounding =
     (if \<not> HasPrefix commodity CurrencyPrefix then commodityTolerance
      else if priceRounding < 0 then moneyTolerance
      else moneyTolerance + priceRounding)"

fun family :: "TxType list \<Rightarrow> AccountType" where
  "family [] = ACCOUNT_TYPE_IMBALANCE"
| "family (t # ts) =
     (if ResolvedMustBe t [TRANSFER] then ACCOUNT_TYPE_TRANSFER_CLEARING else family ts)"

definition residual_Type :: "string \<Rightarrow> decimal \<Rightarrow> decimal \<Rightarrow> TxType list \<Rightarrow> AccountType" where
  "residual_Type commodity amount priceRounding resolved =
     (if \<bar>amount\<bar> < Tolerance commodity priceRounding then ACCOUNT_TYPE_SOURCE_ROUNDING
      else family resolved)"

definition Boundary :: "TxType \<Rightarrow> AccountType \<times> bool" where
  "Boundary resolved =
     (if ResolvedMustBe resolved [INCOME] then (ACCOUNT_TYPE_INCOME, True)
      else if ResolvedMustBe resolved [EXPENSE] then (ACCOUNT_TYPE_EXPENSE, True)
      else (ACCOUNT_TYPE_UNSPECIFIED, False))"

definition SplitType :: "TxType list \<Rightarrow> AccountType" where
  "SplitType resolved = family resolved"

definition CurrencyOf :: "string \<Rightarrow> string \<times> bool" where
  "CurrencyOf commodity = CutPrefix commodity CurrencyPrefix"

definition InstrumentOf :: "string \<Rightarrow> string \<times> bool" where
  "InstrumentOf commodity = CutPrefix commodity InstrumentPrefix"

subsection \<open>The family rule\<close>

lemma family_iff:
  "family ts = ACCOUNT_TYPE_TRANSFER_CLEARING \<longleftrightarrow> (\<exists>t \<in> set ts. under t TRANSFER)"
  by (induction ts) (auto simp: ResolvedMustBe_def MustBe_def)

lemma family_cases: "family ts \<in> {ACCOUNT_TYPE_TRANSFER_CLEARING, ACCOUNT_TYPE_IMBALANCE}"
  by (induction ts) auto

lemma family_set: "set ts = set ts' \<Longrightarrow> family ts = family ts'"
  using family_iff family_cases by (metis insert_iff singletonD)

lemma ResolvedMustBe_Resolve:
  assumes "specified ds" "ds \<noteq> []"
  shows "ResolvedMustBe (Resolve ds) [x] \<longleftrightarrow> MustBe ds [x]"
proof
  assume "ResolvedMustBe (Resolve ds) [x]"
  then show "MustBe ds [x]"
    using Resolve_upper [OF assms(1)] assms(2) under_trans
    by (fastforce simp: ResolvedMustBe_def MustBe_def list_all_iff)
next
  assume "MustBe ds [x]"
  then show "ResolvedMustBe (Resolve ds) [x]"
    using Resolve_least [OF assms] by (auto simp: ResolvedMustBe_def MustBe_def list_all_iff)
qed

text \<open>
  The boundary leg is decided by every reading of the declared set: a posting resolved
  to the common ancestor of its set gets an income (expense) leg exactly when every type the
  source declared is income (expense), and none when the set left the question open.
\<close>

theorem Boundary_iff_every_reading:
  assumes "TX_TYPE_UNSPECIFIED \<notin> set ds" and "ds \<noteq> []"
  shows "(Boundary (Resolve ds) = (ACCOUNT_TYPE_INCOME, True)) = (\<forall>t \<in> set ds. under t INCOME)
    \<and> (Boundary (Resolve ds) = (ACCOUNT_TYPE_EXPENSE, True)) = (\<forall>t \<in> set ds. under t EXPENSE)
    \<and> snd (Boundary (Resolve ds)) = (MustBe ds [INCOME] \<or> MustBe ds [EXPENSE])"
proof -
  obtain t where t: "t \<in> set ds" using assms(2) by (cases ds) auto
  have "\<not> (under t INCOME \<and> under t EXPENSE)" by (cases t) auto
  with t have excl: "\<not> (MustBe ds [INCOME] \<and> MustBe ds [EXPENSE])"
    by (auto simp: MustBe_def list_all_iff)
  have must: "MustBe ds [x] \<longleftrightarrow> (\<forall>t \<in> set ds. under t x)" for x
    using assms(2) by (simp add: MustBe_def list_all_iff)
  show ?thesis
    using excl by (auto simp: Boundary_def ResolvedMustBe_Resolve [OF assms] must)
qed

theorem Boundary_iff_every_reading_witness:
  "Boundary (Resolve [DIVIDEND, INTEREST]) = (ACCOUNT_TYPE_INCOME, True)
   \<and> snd (Boundary (Resolve [DIVIDEND, TRANSFER])) = False"
  using Boundary_iff_every_reading [of "[DIVIDEND, INTEREST]"]
    Boundary_iff_every_reading [of "[DIVIDEND, TRANSFER]"]
  by (auto simp: MustBe_def)

text \<open>
  Where a residual goes does not depend on the order the group's postings are read in,
  a larger price rounding only ever turns a residual into source rounding and never back, and
  a residual an upload does not call rounding goes where the same group cut by a replace
  would send it.
\<close>

theorem residual_Type_coherent:
  assumes "set resolved = set resolved'" and "pr \<le> pr'"
  shows "residual_Type c amt pr resolved = residual_Type c amt pr resolved'
    \<and> (residual_Type c amt pr resolved = ACCOUNT_TYPE_SOURCE_ROUNDING \<longrightarrow>
        residual_Type c amt pr' resolved' = ACCOUNT_TYPE_SOURCE_ROUNDING)
    \<and> residual_Type c amt pr resolved \<in> {ACCOUNT_TYPE_SOURCE_ROUNDING, SplitType resolved'}"
proof -
  have "Tolerance c pr \<le> Tolerance c pr'" using assms(2) by (auto simp: Tolerance_def)
  moreover have "family resolved = family resolved'" using assms(1) by (rule family_set)
  moreover have "family resolved' \<noteq> ACCOUNT_TYPE_SOURCE_ROUNDING"
    using family_cases [of resolved'] by auto
  ultimately show ?thesis by (auto simp: residual_Type_def SplitType_def)
qed

theorem residual_Type_coherent_witness:
  "residual_Type ''cur:USD'' (1/1000) 0 [TRADE_CASH, TRANSFER] = ACCOUNT_TYPE_SOURCE_ROUNDING
   \<and> residual_Type ''cur:USD'' (1/1000) 1 [TRANSFER, TRADE_CASH] = ACCOUNT_TYPE_SOURCE_ROUNDING"
proof -
  have r: "residual_Type ''cur:USD'' (1/1000) 0 [TRADE_CASH, TRANSFER] = ACCOUNT_TYPE_SOURCE_ROUNDING"
    by (simp add: residual_Type_def Tolerance_def HasPrefix_def CurrencyPrefix_def moneyTolerance_def)
  then show ?thesis
    using residual_Type_coherent [of "[TRADE_CASH, TRANSFER]" "[TRANSFER, TRADE_CASH]" 0 1 "''cur:USD''" "1/1000"]
    by auto
qed

end
