(* ===== verification/Go_Text.thy ===== *)
theory Go_Text
  imports Prelude
begin

text \<open>
  The functions of Go's \<open>strings\<close>, \<open>strconv\<close> and \<open>fmt\<close> packages the modelled code calls, on
  ASCII text: a byte outside ASCII has no case and is no space, and compares as it is.
\<close>

definition fold_char :: "char \<Rightarrow> nat" where
  "fold_char c = (let n = of_char c in if 65 \<le> n \<and> n \<le> 90 then n + 32 else n)"

definition EqualFold :: "string \<Rightarrow> string \<Rightarrow> bool" where
  "EqualFold s t \<longleftrightarrow> map fold_char s = map fold_char t"

definition is_space :: "char \<Rightarrow> bool" where
  "is_space c \<longleftrightarrow> (of_char c :: nat) \<in> {9, 10, 11, 12, 13, 32}"

definition TrimSpace :: "string \<Rightarrow> string" where
  "TrimSpace s = rev (dropWhile is_space (rev (dropWhile is_space s)))"

definition upper_char :: "char \<Rightarrow> char" where
  "upper_char c = (let n = of_char c :: nat in if 97 \<le> n \<and> n \<le> 122 then char_of (n - 32) else c)"

definition ToUpper :: "string \<Rightarrow> string" where
  "ToUpper s = map upper_char s"

text \<open>\<open>%q\<close> of a string that needs no escapes.\<close>

definition quoted :: "string \<Rightarrow> string" where
  "quoted s = [CHR 0x22] @ s @ [CHR 0x22]"

text \<open>\<open>%d\<close> of a count.\<close>

fun show_nat :: "nat \<Rightarrow> string" where
  "show_nat n = (if n < 10 then [char_of (48 + n)] else show_nat (n div 10) @ [char_of (48 + n mod 10)])"

definition is_digit :: "char \<Rightarrow> bool" where
  "is_digit c \<longleftrightarrow> 48 \<le> (of_char c :: nat) \<and> (of_char c :: nat) \<le> 57"

definition is_upper :: "char \<Rightarrow> bool" where
  "is_upper c \<longleftrightarrow> 65 \<le> (of_char c :: nat) \<and> (of_char c :: nat) \<le> 90"

definition digit_value :: "string \<Rightarrow> nat" where
  "digit_value s = foldl (\<lambda>n c. 10 * n + (of_char c - 48)) 0 s"

text \<open>\<open>strconv.Atoi\<close>: an optional sign and digits, within the range of an \<open>int\<close>.\<close>

definition Atoi :: "string \<Rightarrow> int option" where
  "Atoi s =
     (let neg = (s \<noteq> [] \<and> hd s = CHR ''-''); ds = (if s \<noteq> [] \<and> hd s \<in> {CHR ''-'', CHR ''+''} then tl s else s);
          n = int (digit_value ds); v = (if neg then - n else n) in
      if ds = [] \<or> \<not> list_all is_digit ds then None
      else if v < - (2 ^ 63) \<or> 2 ^ 63 \<le> v then None
      else Some v)"

text \<open>\<open>%0wd\<close>.\<close>

definition zero_padded :: "nat \<Rightarrow> int \<Rightarrow> string" where
  "zero_padded w n =
     (let sign = (if n < 0 then ''-'' else ''''); ds = show_nat (nat \<bar>n\<bar>) in
      sign @ replicate (w - length sign - length ds) CHR ''0'' @ ds)"

subsection \<open>Facts\<close>

lemma dropWhile_idem_last: "xs = [] \<or> \<not> P (hd xs) \<Longrightarrow> dropWhile P xs = xs"
  by (cases xs) auto

lemma TrimSpace_id: "s = [] \<or> \<not> is_space (hd s) \<and> \<not> is_space (last s) \<Longrightarrow> TrimSpace s = s"
  by (cases "s = []") (simp_all add: TrimSpace_def dropWhile_idem_last hd_rev)

lemma TrimSpace_ends:
  assumes "TrimSpace s \<noteq> []"
  shows "\<not> is_space (hd (TrimSpace s))" "\<not> is_space (last (TrimSpace s))"
proof -
  let ?d = "dropWhile is_space s"
  let ?t = "dropWhile is_space (rev ?d)"
  show "\<not> is_space (last (TrimSpace s))"
    using assms hd_dropWhile [of is_space "rev ?d"] by (simp add: TrimSpace_def last_rev)
  have "rev ?d = takeWhile is_space (rev ?d) @ ?t" by simp
  then have "?d = rev ?t @ rev (takeWhile is_space (rev ?d))" by (metis rev_append rev_rev_ident)
  then have "hd ?d = hd (rev ?t)" using assms by (metis TrimSpace_def hd_append2)
  moreover have "?d \<noteq> []" using assms unfolding TrimSpace_def by (metis dropWhile.simps(1) rev.simps(1))
  ultimately show "\<not> is_space (hd (TrimSpace s))" using hd_dropWhile [of is_space s] by (simp add: TrimSpace_def)
qed

lemma TrimSpace_idem [simp]: "TrimSpace (TrimSpace s) = TrimSpace s"
  using TrimSpace_ends [of s] by (intro TrimSpace_id) auto

declare show_nat.simps [simp del]

lemma digit_value_simps [simp]:
  "digit_value [] = 0" "digit_value (xs @ [c]) = 10 * digit_value xs + (of_char c - 48)"
  by (simp_all add: digit_value_def)

lemma show_nat_facts:
  "digit_value (show_nat n) = n \<and> list_all is_digit (show_nat n) \<and> show_nat n \<noteq> []"
proof (induction n rule: show_nat.induct)
  case (1 n)
  show ?case
  proof (cases "n < 10")
    case True
    then show ?thesis using digit_value_simps(2) [of "[]"] by (simp add: show_nat.simps [of n] is_digit_def)
  next
    case False
    then show ?thesis using 1 by (simp add: show_nat.simps [of n] is_digit_def)
  qed
qed

lemma length_show_nat: "n < 10 ^ w \<Longrightarrow> 0 < w \<Longrightarrow> length (show_nat n) \<le> w"
proof (induction n arbitrary: w rule: show_nat.induct)
  case (1 n)
  show ?case
  proof (cases "n < 10")
    case True
    then show ?thesis using 1(3) by (simp add: show_nat.simps [of n])
  next
    case False
    then have "w \<noteq> 1" using 1(2) by auto
    then obtain v where v: "w = Suc v" "0 < v" using 1(3) by (cases w) auto
    then have "n div 10 < 10 ^ v" using 1(2) by (simp add: less_mult_imp_div_less mult.commute)
    from 1(1) [OF False this v(2)] show ?thesis using False v by (simp add: show_nat.simps [of n])
  qed
qed

lemma digit_value_zeros: "digit_value (replicate k CHR ''0'' @ s) = digit_value s"
proof -
  have "foldl (\<lambda>n c. 10 * n + (of_char c - 48)) 0 (replicate k CHR ''0'') = (0 :: nat)" by (induction k) simp_all
  then show ?thesis by (simp add: digit_value_def)
qed

text \<open>A number that fits its width is printed at that width, in digits that read back as it.\<close>

lemma zero_padded_facts:
  assumes "0 \<le> n" "n < 10 ^ w" "0 < w"
  shows "length (zero_padded w n) = w" "list_all is_digit (zero_padded w n)" "digit_value (zero_padded w n) = nat n"
proof -
  have "nat n < 10 ^ w" using assms(1,2) by (simp add: nat_less_iff)
  then have "length (show_nat (nat n)) \<le> w" using length_show_nat assms(3) by blast
  then show "length (zero_padded w n) = w" using assms(1) by (simp add: zero_padded_def Let_def)
  have "is_digit CHR ''0''" by (simp add: is_digit_def)
  then show "list_all is_digit (zero_padded w n)"
    using show_nat_facts [of "nat n"] assms(1) by (auto simp: zero_padded_def list_all_iff Let_def)
  show "digit_value (zero_padded w n) = nat n"
    using show_nat_facts [of "nat n"] assms(1) by (simp add: zero_padded_def digit_value_zeros Let_def)
qed

lemma Atoi_digits:
  assumes "list_all is_digit s" "s \<noteq> []" "digit_value s < 2 ^ 63"
  shows "Atoi s = Some (int (digit_value s))"
proof -
  have "is_digit (hd s)" using assms(1,2) by (cases s) auto
  then have "hd s \<noteq> CHR ''-''" "hd s \<noteq> CHR ''+''" by (auto simp: is_digit_def)
  moreover have "int (digit_value s) < 2 ^ 63" using assms(3) by simp
  ultimately show ?thesis using assms by (simp add: Atoi_def Let_def)
qed

lemma upper_char_idem [simp]: "upper_char (upper_char c) = upper_char c"
proof (cases "97 \<le> (of_char c :: nat) \<and> (of_char c :: nat) \<le> 122")
  case True
  let ?d = "char_of ((of_char c :: nat) - 32) :: char"
  have u: "upper_char c = ?d" using True by (simp add: upper_char_def)
  have "(of_char c :: nat) - 32 < 256" using True by linarith
  then have "(of_char ?d :: nat) = of_char c - 32" by simp
  then have "upper_char ?d = ?d" using True unfolding upper_char_def Let_def by (simp only:) auto
  then show ?thesis using u by simp
qed (auto simp: upper_char_def Let_def)

lemma ToUpper_idem [simp]: "ToUpper (ToUpper s) = ToUpper s"
  by (simp add: ToUpper_def)

lemma ToUpper_id: "list_all (\<lambda>c. is_upper c \<or> is_digit c) s \<Longrightarrow> ToUpper s = s"
  by (induction s) (auto simp: ToUpper_def upper_char_def is_upper_def is_digit_def Let_def)

lemma not_space: "is_upper c \<or> is_digit c \<Longrightarrow> \<not> is_space c"
  by (auto simp: is_upper_def is_digit_def is_space_def)

lemma TrimSpace_word: "list_all (\<lambda>c. is_upper c \<or> is_digit c) s \<Longrightarrow> TrimSpace s = s"
  by (rule TrimSpace_id) (metis hd_in_set last_in_set list_all_iff not_space)

end
