(* ===== verification/Balance.thy ===== *)
theory Balance
  imports Residual Go_Text
begin

text \<open>
  Postings as they arrive (\<open>Tx\<close> of \<open>src/proto/api/v1/api.proto\<close>), the checks of
  \<open>src/server/service/ingestion/validate.go\<close> and the weight rule of
  \<open>src/server/service/ingestion/balance.go\<close>.

  A timestamp is \<open>None\<close> when the message field is absent or invalid: the code never tells the
  two apart. \<open>decimal.NewFromString\<close> is the parameter \<open>pd\<close>, \<open>None\<close> for text it rejects. The
  slices the code indexes in parallel are lists of one length; where one is shorter the code
  panics, which is the value \<open>None\<close>.
\<close>

subsection \<open>Data\<close>

record wire_Correlation =
  w_Label :: string
  w_Token :: string
  w_Ordinal :: "int64 option"
  w_Scope :: Scope
  w_Match :: "Match list"
  w_OrdinalSpan :: "int64 option"

record Tx =
  x_OrderDate :: "time option"
  x_TradeDate :: "time option"
  x_Account :: string
  x_AccountType :: AccountType
  x_InstrumentDescription :: string
  x_AssetClassHint :: AssetClass
  x_BrokerTxType :: "TxType list"
  x_Quantity :: string
  x_UnitPrice :: "string option"
  x_TradingCurrency :: string
  x_SettlementCurrency :: string
  x_SettlementAmount :: "string option"
  x_Correlations :: "wire_Correlation list"
  x_ResolvedTxType :: TxType
  x_SyntheticPurpose :: string
  x_GroupId :: string

record ValidationError =
  ve_RowIndex :: int
  ve_Field :: string
  ve_Message :: string

text \<open>The fields of a stored instrument that balancing and validation read.\<close>

record InstrumentRow =
  ir_ID :: string
  ir_AssetClass :: "string option"
  ir_Currency :: "string option"
  ir_ContractMultiplier :: decimal

record balanceInstrument =
  bi_isCurrency :: bool
  bi_currency :: string
  bi_contractSize :: decimal

record commodity =
  cm_currency :: string
  cm_instrumentID :: string
  cm_description :: string

record Weight =
  wt_Amount :: decimal
  wt_Commodity :: string

subsection \<open>Validation\<close>

abbreviation verr :: "int \<Rightarrow> string \<Rightarrow> string \<Rightarrow> ValidationError" where
  "verr i f m \<equiv> \<lparr>ve_RowIndex = i, ve_Field = f, ve_Message = m\<rparr>"

definition validateSettlementAmount :: "Tx \<Rightarrow> int \<Rightarrow> ValidationError list" where
  "validateSettlementAmount tx rowIndex =
     (if x_SettlementAmount tx = None then []
      else if MayBe (x_BrokerTxType tx) [TRADE_ASSET] then []
      else [verr rowIndex ''settlement_amount'' ''not carried on a money posting, whose quantity is already the amount''])"

fun validate_members :: "TxType set \<Rightarrow> TxType list \<Rightarrow> int \<Rightarrow> ValidationError list" where
  "validate_members seen [] rowIndex = []"
| "validate_members seen (t # ts) rowIndex =
     (if t = TX_TYPE_UNSPECIFIED then [verr rowIndex ''broker_tx_type'' ''member unspecified'']
      else if t = AMBIGUOUS then [verr rowIndex ''broker_tx_type'' ''AMBIGUOUS cannot be declared'']
      else if t \<in> seen then [verr rowIndex ''broker_tx_type'' (''duplicate member '' @ enum_String TxType_name t)]
      else [])
     @ validate_members (insert t seen) ts rowIndex"

definition validateBrokerTxType :: "TxType list \<Rightarrow> int \<Rightarrow> ValidationError list" where
  "validateBrokerTxType ts rowIndex =
     (if ts = [] then [verr rowIndex ''broker_tx_type'' ''required'']
      else let errs = validate_members {} ts rowIndex in
        if errs = [] \<and> \<not> Antichain ts
        then [verr rowIndex ''broker_tx_type'' ''a member is an ancestor of another; state the ancestor alone'']
        else errs)"

definition ValidateTx :: "Tx option \<Rightarrow> int \<Rightarrow> ValidationError list" where
  "ValidateTx txp rowIndex = (case txp of
       None \<Rightarrow> [verr rowIndex ''tx'' ''transaction is required'']
     | Some tx \<Rightarrow>
         (if x_OrderDate tx = None then [verr rowIndex ''order_date'' ''required''] else [])
         @ (if x_TradeDate tx = None then [verr rowIndex ''trade_date'' ''required''] else [])
         @ (if x_InstrumentDescription tx = '''' then [verr rowIndex ''instrument_description'' ''required''] else [])
         @ validateBrokerTxType (x_BrokerTxType tx) rowIndex
         @ validateSettlementAmount tx rowIndex
         @ (if x_SyntheticPurpose tx \<noteq> ''''
            then [verr rowIndex ''synthetic_purpose'' ''server-derived; not accepted on a posting a source supplied'']
            else [])
         @ (if x_GroupId tx \<noteq> ''''
            then [verr rowIndex ''group_id'' ''server-derived; not accepted on a posting a source supplied'']
            else []))"

definition ValidateTxs :: "Tx option list \<Rightarrow> ValidationError list" where
  "ValidateTxs txs = concat (map (\<lambda>(i, tx). ValidateTx tx (int i)) (enumerate 0 txs))"

definition ValidateBroker :: "Broker \<Rightarrow> ValidationError option" where
  "ValidateBroker b =
     (if b = BROKER_UNSPECIFIED then Some (verr (- 1) ''broker'' ''required'')
      else if b \<noteq> IBKR \<and> b \<noteq> SCHB \<and> b \<noteq> FIDELITY then Some (verr (- 1) ''broker'' ''unknown broker'')
      else None)"

definition ValidateSource :: "string \<Rightarrow> ValidationError option" where
  "ValidateSource src = (if src = '''' then Some (verr (- 1) ''source'' ''required'') else None)"

definition ValidateBulkRequest :: "time option \<Rightarrow> time option \<Rightarrow> ValidationError list" where
  "ValidateBulkRequest periodFrom periodBefore =
     (if periodFrom = None then [verr (- 1) ''period_from'' ''required''] else [])
     @ (if periodBefore = None then [verr (- 1) ''period_before'' ''required''] else [])"

text \<open>
  \<open>ListInstrumentsByIDs\<close> is the store's; its answer or error is the argument \<open>listed\<close>. The rows
  come back in a map keyed by id, a later row of one id replacing an earlier one.
\<close>

definition instrumentsByID ::
    "(string list \<Rightarrow> string + InstrumentRow option list) \<Rightarrow> string list \<Rightarrow> string + (string \<times> InstrumentRow) list" where
  "instrumentsByID listed instrumentIDs =
     (let ids = first_by (\<lambda>i. i) {} (filter (\<lambda>i. i \<noteq> '''') instrumentIDs) in
      if ids = [] then Inr []
      else case listed ids of
          Inl err \<Rightarrow> Inl (''list instruments: '' @ err)
        | Inr rows \<Rightarrow> Inr (fold (\<lambda>ro m. case ro of None \<Rightarrow> m | Some r \<Rightarrow> AList.update (ir_ID r) r m) rows []))"

definition class_of :: "(string \<times> InstrumentRow) list \<Rightarrow> string \<Rightarrow> string" where
  "class_of byID i = (case map_of byID i of
       None \<Rightarrow> '''' | Some r \<Rightarrow> (case ir_AssetClass r of None \<Rightarrow> '''' | Some c \<Rightarrow> c))"

fun validateAssetClasses ::
    "Tx list \<Rightarrow> int list \<Rightarrow> string list \<Rightarrow> (string \<times> InstrumentRow) list \<Rightarrow> ValidationError list option" where
  "validateAssetClasses [] idx ids byID = Some []"
| "validateAssetClasses (tx # txs) idx [] byID = None"
| "validateAssetClasses (tx # txs) idx (i # ids) byID =
     (let rest = (\<lambda>es. map_option ((@) es) (validateAssetClasses txs (tl idx) ids byID));
          resolved = class_of byID i; implied = AssetClassToStr (x_AssetClassHint tx) in
      if i = '''' then rest []
      else if x_AssetClassHint tx = ASSET_CLASS_UNSPECIFIED then rest []
      else if IsAssetClassCompatible implied resolved then rest []
      else if idx = [] then None
      else rest [verr (hd idx) ''asset_class_hint''
        (''stated asset class '' @ implied @ '' but resolved instrument has asset class '' @ resolved)])"

subsection \<open>Weighing a posting\<close>

definition optionContractSize :: decimal where "optionContractSize = 100"

definition parseOptDec :: "(string \<Rightarrow> decimal option) \<Rightarrow> string option \<Rightarrow> decimal option option" where
  "parseOptDec pd s = (case s of
       None \<Rightarrow> Some None
     | Some t \<Rightarrow> if t = '''' then Some None else map_option Some (pd t))"

definition commodity_key :: "commodity \<Rightarrow> string" where
  "commodity_key c =
     (if cm_currency c \<noteq> '''' then CurrencyPrefix @ cm_currency c
      else if cm_instrumentID c \<noteq> '''' then InstrumentPrefix @ cm_instrumentID c
      else DescriptionPrefix @ cm_description c)"

definition settleCurrency :: "Tx \<Rightarrow> string" where
  "settleCurrency tx =
     (let c = ToUpper (TrimSpace (x_SettlementCurrency tx)) in
      if c \<noteq> '''' then c else ToUpper (TrimSpace (x_TradingCurrency tx)))"

definition ownCommodity :: "Tx \<Rightarrow> string \<Rightarrow> balanceInstrument \<Rightarrow> commodity" where
  "ownCommodity tx instID inst =
     (if bi_isCurrency inst \<and> bi_currency inst \<noteq> ''''
      then \<lparr>cm_currency = ToUpper (bi_currency inst), cm_instrumentID = '''', cm_description = ''''\<rparr>
      else if instID \<noteq> '''' then \<lparr>cm_currency = '''', cm_instrumentID = instID, cm_description = ''''\<rparr>
      else \<lparr>cm_currency = '''', cm_instrumentID = '''', cm_description = x_InstrumentDescription tx\<rparr>)"

definition convert_weight :: "decimal \<Rightarrow> decimal \<Rightarrow> string \<Rightarrow> balanceInstrument \<Rightarrow> decimal \<times> commodity" where
  "convert_weight qty price settle inst =
     (let sz = (if \<not> bi_contractSize inst > 0 then 1 else bi_contractSize inst) in
      (qty * price * sz, \<lparr>cm_currency = settle, cm_instrumentID = '''', cm_description = ''''\<rparr>))"

definition weightOf ::
    "Tx \<Rightarrow> TxType list \<Rightarrow> decimal \<Rightarrow> decimal option \<Rightarrow> string \<Rightarrow> balanceInstrument \<Rightarrow> decimal \<times> commodity" where
  "weightOf tx types qty price instID inst =
     (let own = ownCommodity tx instID inst; settle = settleCurrency tx in
      case price of
        None \<Rightarrow> (qty, own)
      | Some p \<Rightarrow>
          if settle = '''' then (qty, own)
          else if cm_currency own \<noteq> '''' \<and> cm_currency own = settle then (qty, own)
          else if MustBe types [TRADE_ASSET] then convert_weight qty p settle inst
          else if cm_currency own \<noteq> '''' \<and> cm_currency own \<noteq> settle then convert_weight qty p settle inst
          else (qty, own))"

definition weighPosting ::
    "(string \<Rightarrow> decimal option) \<Rightarrow> Tx \<Rightarrow> string \<Rightarrow> balanceInstrument \<Rightarrow> decimal \<times> commodity \<times> bool" where
  "weighPosting pd tx instID inst = (case pd (x_Quantity tx) of
       None \<Rightarrow> (0, ownCommodity tx instID inst, False)
     | Some qty \<Rightarrow> (case parseOptDec pd (x_UnitPrice tx) of
           None \<Rightarrow> (0, ownCommodity tx instID inst, False)
         | Some price \<Rightarrow> (let (amount, c) = weightOf tx (x_BrokerTxType tx) qty price instID inst in (amount, c, True))))"

text \<open>A Go map of instruments, the zero value for a missing key.\<close>

definition inst_get :: "(string \<times> balanceInstrument) list \<Rightarrow> string \<Rightarrow> balanceInstrument" where
  "inst_get m i = (case map_of m i of
       None \<Rightarrow> \<lparr>bi_isCurrency = False, bi_currency = '''', bi_contractSize = 0\<rparr> | Some b \<Rightarrow> b)"

fun first_divergent ::
    "(TxType list \<Rightarrow> decimal \<times> commodity) \<Rightarrow> decimal \<times> commodity \<Rightarrow> TxType list \<Rightarrow> TxType option" where
  "first_divergent weigh fst0 [] = None"
| "first_divergent weigh fst0 (t # ts) =
     (let (amount, c) = weigh [t] in
      if amount = fst fst0 \<and> commodity_key c = commodity_key (snd fst0) then first_divergent weigh fst0 ts else Some t)"

definition neutrality_error ::
    "(string \<Rightarrow> decimal option) \<Rightarrow> Tx \<Rightarrow> string \<Rightarrow> balanceInstrument \<Rightarrow> TxType option" where
  "neutrality_error pd t instID inst =
     (if length (x_BrokerTxType t) < 2 then None
      else case pd (x_Quantity t) of
          None \<Rightarrow> None
        | Some qty \<Rightarrow> (case parseOptDec pd (x_UnitPrice t) of
              None \<Rightarrow> None
            | Some price \<Rightarrow> (let weigh = (\<lambda>ts. weightOf t ts qty price instID inst) in
                first_divergent weigh (weigh [hd (x_BrokerTxType t)]) (tl (x_BrokerTxType t)))))"

fun validateWeightNeutrality ::
    "(string \<Rightarrow> decimal option) \<Rightarrow> Tx list \<Rightarrow> int list \<Rightarrow> string list \<Rightarrow> (string \<times> balanceInstrument) list
     \<Rightarrow> ValidationError list option" where
  "validateWeightNeutrality pd [] idx ids insts = Some []"
| "validateWeightNeutrality pd (t # txs) idx ids insts =
     (if length (x_BrokerTxType t) \<ge> 2 \<and> pd (x_Quantity t) \<noteq> None
         \<and> parseOptDec pd (x_UnitPrice t) \<noteq> None \<and> ids = [] then None
      else case neutrality_error pd t (hd ids) (inst_get insts (hd ids)) of
          None \<Rightarrow> validateWeightNeutrality pd txs (tl idx) (tl ids) insts
        | Some candidate \<Rightarrow>
            if idx = [] then None
            else map_option ((#) (verr (hd idx) ''broker_tx_type''
                (''candidates '' @ enum_String TxType_name (hd (x_BrokerTxType t)) @ '' and '' @
                 enum_String TxType_name candidate @
                 '' weigh the posting differently; a priced row must declare which it is'')))
              (validateWeightNeutrality pd txs (tl idx) (tl ids) insts))"

definition weights ::
    "(string \<Rightarrow> decimal option) \<Rightarrow> Tx list \<Rightarrow> string list \<Rightarrow> (string \<times> balanceInstrument) list \<Rightarrow> Weight list option" where
  "weights pd txs instrumentIDs insts =
     (if length instrumentIDs < length txs then None
      else Some (map (\<lambda>(t, i). let (amount, c, ok) = weighPosting pd t i (inst_get insts i)
                       in \<lparr>wt_Amount = amount, wt_Commodity = commodity_key c\<rparr>) (zip txs instrumentIDs)))"

definition balance_inst :: "InstrumentRow \<Rightarrow> balanceInstrument" where
  "balance_inst r =
     \<lparr>bi_isCurrency = (ir_AssetClass r = Some ''CASH''),
      bi_currency = (if ir_AssetClass r = Some ''CASH''
        then (case ir_Currency r of None \<Rightarrow> '''' | Some c \<Rightarrow> ToUpper c) else ''''),
      bi_contractSize = (if ir_AssetClass r = Some ''OPTION''
        then optionContractSize * (if \<not> ir_ContractMultiplier r > 0 then 1 else ir_ContractMultiplier r) else 1)\<rparr>"

definition balanceInstruments :: "(string \<times> InstrumentRow) list \<Rightarrow> (string \<times> balanceInstrument) list" where
  "balanceInstruments byID = map (\<lambda>(i, r). (i, balance_inst r)) byID"

subsection \<open>What validation accepts\<close>

definition acceptable :: "Tx \<Rightarrow> bool" where
  "acceptable tx \<longleftrightarrow> x_OrderDate tx \<noteq> None \<and> x_TradeDate tx \<noteq> None \<and> x_InstrumentDescription tx \<noteq> ''''
     \<and> x_BrokerTxType tx \<noteq> [] \<and> distinct (x_BrokerTxType tx)
     \<and> TX_TYPE_UNSPECIFIED \<notin> set (x_BrokerTxType tx) \<and> AMBIGUOUS \<notin> set (x_BrokerTxType tx)
     \<and> Antichain (x_BrokerTxType tx)
     \<and> (x_SettlementAmount tx = None \<or> MayBe (x_BrokerTxType tx) [TRADE_ASSET])
     \<and> x_SyntheticPurpose tx = '''' \<and> x_GroupId tx = ''''"

lemma validate_members_Nil:
  "validate_members seen ts i = [] \<longleftrightarrow>
     distinct ts \<and> TX_TYPE_UNSPECIFIED \<notin> set ts \<and> AMBIGUOUS \<notin> set ts \<and> set ts \<inter> seen = {}"
  by (induction ts arbitrary: seen) auto

lemma validateBrokerTxType_Nil:
  "validateBrokerTxType ts i = [] \<longleftrightarrow> ts \<noteq> [] \<and> distinct ts \<and> TX_TYPE_UNSPECIFIED \<notin> set ts
     \<and> AMBIGUOUS \<notin> set ts \<and> Antichain ts"
  using validate_members_Nil [of "{}" ts i] by (auto simp: validateBrokerTxType_def Let_def)

lemma ValidateTx_Nil: "ValidateTx txp i = [] \<longleftrightarrow> (\<exists>tx. txp = Some tx \<and> acceptable tx)"
proof (cases txp)
  case (Some tx)
  have "validateSettlementAmount tx i = [] \<longleftrightarrow> x_SettlementAmount tx = None \<or> MayBe (x_BrokerTxType tx) [TRADE_ASSET]"
    by (simp add: validateSettlementAmount_def)
  with Some show ?thesis by (simp add: ValidateTx_def acceptable_def validateBrokerTxType_Nil conj_ac)
qed (simp add: ValidateTx_def)

lemma ValidateTxs_Nil: "ValidateTxs txs = [] \<longleftrightarrow> (\<forall>txp \<in> set txs. \<exists>tx. txp = Some tx \<and> acceptable tx)"
proof -
  have "ValidateTxs txs = [] \<longleftrightarrow> (\<forall>p \<in> set (enumerate 0 txs). \<exists>tx. snd p = Some tx \<and> acceptable tx)"
    by (simp add: ValidateTxs_def ValidateTx_Nil split_beta)
  also have "\<dots> \<longleftrightarrow> (\<forall>txp \<in> snd ` set (enumerate 0 txs). \<exists>tx. txp = Some tx \<and> acceptable tx)" by simp
  also have "snd ` set (enumerate 0 txs) = set txs" by (metis list.set_map map_snd_enumerate)
  finally show ?thesis .
qed

text \<open>
  Validation accepts exactly the well-formed batches, and what it accepts can be resolved: a
  batch has no validation error if and only if every posting is there with both dates, a
  description, a declared set that is a non-empty antichain of distinct, specified and
  unambiguous types, no settlement amount unless it may be a trade's asset leg, and nothing only
  the server may state; and on every declared set of such a batch the loop of \<open>Resolve\<close> returns.
\<close>

theorem ValidateTxs_accepts_resolvable:
  "(ValidateTxs txs = [] \<longleftrightarrow> (\<forall>txp \<in> set txs. \<exists>tx. txp = Some tx \<and> acceptable tx))
   \<and> (ValidateTxs txs = [] \<longrightarrow>
        (\<forall>tx. Some tx \<in> set txs \<longrightarrow> Resolve_loop (x_BrokerTxType tx) = Some (Resolve (x_BrokerTxType tx))))"
proof (intro conjI impI allI)
  show "ValidateTxs txs = [] \<longleftrightarrow> (\<forall>txp \<in> set txs. \<exists>tx. txp = Some tx \<and> acceptable tx)" by (rule ValidateTxs_Nil)
  fix tx assume "ValidateTxs txs = []" "Some tx \<in> set txs"
  then have "acceptable tx" by (fastforce simp: ValidateTxs_Nil)
  then have "specified (x_BrokerTxType tx)" by (simp add: acceptable_def)
  then show "Resolve_loop (x_BrokerTxType tx) = Some (Resolve (x_BrokerTxType tx))" by (rule Resolve_loop_Resolve)
qed

definition plain_tx :: "TxType list \<Rightarrow> string \<Rightarrow> string option \<Rightarrow> string \<Rightarrow> Tx" where
  "plain_tx types qty price settle =
     \<lparr>x_OrderDate = Some 0, x_TradeDate = Some 0, x_Account = ''isa'', x_AccountType = ACCOUNT_TYPE_USER,
      x_InstrumentDescription = ''ACME'', x_AssetClassHint = ASSET_CLASS_UNSPECIFIED, x_BrokerTxType = types,
      x_Quantity = qty, x_UnitPrice = price, x_TradingCurrency = '''', x_SettlementCurrency = settle,
      x_SettlementAmount = None, x_Correlations = [], x_ResolvedTxType = TX_TYPE_UNSPECIFIED,
      x_SyntheticPurpose = '''', x_GroupId = ''''\<rparr>"

theorem ValidateTxs_accepts_resolvable_witness:
  "Resolve_loop [DIVIDEND, INTEREST] = Some (Resolve [DIVIDEND, INTEREST])
   \<and> acceptable (plain_tx [DIVIDEND, INTEREST] ''1'' None ''usd'')"
proof -
  let ?tx = "plain_tx [DIVIDEND, INTEREST] ''1'' None ''usd''"
  have ok: "acceptable ?tx" by code_simp
  have none: "ValidateTxs [Some ?tx] = []" using ok by (simp add: ValidateTxs_Nil)
  from ValidateTxs_accepts_resolvable [of "[Some ?tx]"] none
  have "Resolve_loop (x_BrokerTxType ?tx) = Some (Resolve (x_BrokerTxType ?tx))" by simp
  with ok show ?thesis by (simp add: plain_tx_def)
qed

subsection \<open>What a weight is\<close>

lemma weightOf_cong: "(MustBe ts [TRADE_ASSET] \<longleftrightarrow> MustBe ts' [TRADE_ASSET]) \<Longrightarrow>
    weightOf tx ts qty price i inst = weightOf tx ts' qty price i inst"
  by (cases price) (simp_all add: weightOf_def Let_def)

lemma MustBe_singletons: "MustBe ts xs \<longleftrightarrow> ts \<noteq> [] \<and> (\<forall>t \<in> set ts. MustBe [t] xs)"
  by (auto simp: MustBe_def list_all_iff)

lemma first_divergent_None:
  "first_divergent weigh w ts = None \<longleftrightarrow>
     (\<forall>t \<in> set ts. fst (weigh [t]) = fst w \<and> commodity_key (snd (weigh [t])) = commodity_key (snd w))"
  by (induction ts) (auto simp: split_beta)

abbreviation same_weight :: "decimal \<times> commodity \<Rightarrow> decimal \<times> commodity \<Rightarrow> bool" where
  "same_weight w v \<equiv> fst w = fst v \<and> commodity_key (snd w) = commodity_key (snd v)"

lemma neutrality_error_None:
  assumes "neutrality_error pd t i inst = None" "pd (x_Quantity t) = Some qty"
    and "parseOptDec pd (x_UnitPrice t) = Some price" "c \<in> set (x_BrokerTxType t)"
  shows "same_weight (weightOf t [c] qty price i inst) (weightOf t (x_BrokerTxType t) qty price i inst)"
proof (cases "length (x_BrokerTxType t) < 2")
  case True
  then have "x_BrokerTxType t = [c]" using assms(4) by (cases "x_BrokerTxType t") (auto simp: less_Suc_eq)
  then show ?thesis by simp
next
  case False
  let ?w = "\<lambda>ts. weightOf t ts qty price i inst"
  obtain d ds where ts: "x_BrokerTxType t = d # ds" using assms(4) by (cases "x_BrokerTxType t") auto
  have same: "same_weight (?w [e]) (?w [d])" if "e \<in> set (x_BrokerTxType t)" for e
    using that assms(1-3) False ts by (auto simp: neutrality_error_def Let_def first_divergent_None)
  obtain e where e: "e \<in> set (x_BrokerTxType t)" "MustBe [e] [TRADE_ASSET] \<longleftrightarrow> MustBe (x_BrokerTxType t) [TRADE_ASSET]"
    using MustBe_singletons [of "x_BrokerTxType t" "[TRADE_ASSET]"] assms(4) by (metis empty_iff empty_set)
  have "?w [e] = ?w (x_BrokerTxType t)" by (rule weightOf_cong [OF e(2)])
  then show ?thesis using same [OF e(1)] same [OF assms(4)] by simp
qed

lemma validateWeightNeutrality_Nil:
  "validateWeightNeutrality pd txs idx ids insts = Some [] \<Longrightarrow> length ids = length txs \<Longrightarrow> k < length txs \<Longrightarrow>
     neutrality_error pd (txs ! k) (ids ! k) (inst_get insts (ids ! k)) = None"
proof (induction txs arbitrary: idx ids k)
  case (Cons t txs)
  then obtain i ids' where ids: "ids = i # ids'" by (cases ids) auto
  have none: "neutrality_error pd t i (inst_get insts i) = None"
    using Cons.prems(1) ids by (auto split: option.splits if_splits)
  then have "validateWeightNeutrality pd txs (tl idx) ids' insts = Some []"
    using Cons.prems(1) ids by (auto split: if_splits)
  with Cons.IH [of "tl idx" ids' "k - 1"] none Cons.prems(2,3) ids show ?case by (cases k) auto
qed simp

text \<open>
  A stored weight never depends on which candidate a declared set turns out to be: when the
  neutrality check passes a batch, every candidate of every posting weighs it to the amount and
  in the commodity that \<open>weights\<close> stores for it.
\<close>

theorem weights_neutral:
  assumes "validateWeightNeutrality pd txs idx ids insts = Some []" and "length ids = length txs"
    and "weights pd txs ids insts = Some ws" and "k < length txs" and "c \<in> set (x_BrokerTxType (txs ! k))"
    and "pd (x_Quantity (txs ! k)) = Some qty" and "parseOptDec pd (x_UnitPrice (txs ! k)) = Some price"
  shows "ws ! k = (let (amount, cm) = weightOf (txs ! k) [c] qty price (ids ! k) (inst_get insts (ids ! k))
           in \<lparr>wt_Amount = amount, wt_Commodity = commodity_key cm\<rparr>)"
proof -
  let ?w = "\<lambda>ts. weightOf (txs ! k) ts qty price (ids ! k) (inst_get insts (ids ! k))"
  have "neutrality_error pd (txs ! k) (ids ! k) (inst_get insts (ids ! k)) = None"
    by (rule validateWeightNeutrality_Nil [OF assms(1,2,4)])
  from neutrality_error_None [OF this assms(6,7,5)]
  have "same_weight (?w [c]) (?w (x_BrokerTxType (txs ! k)))" .
  moreover have "ws ! k = \<lparr>wt_Amount = fst (?w (x_BrokerTxType (txs ! k))),
      wt_Commodity = commodity_key (snd (?w (x_BrokerTxType (txs ! k))))\<rparr>"
    using assms(2-4,6,7) by (auto simp: weights_def weighPosting_def split_beta)
  ultimately show ?thesis by (simp add: split_beta)
qed

abbreviation sample_parse :: "string \<Rightarrow> decimal option" where
  "sample_parse \<equiv> map_of [(''10'', 10), (''185.5'', 1855 / 10), (''-1855'', - 1855)]"

theorem weights_neutral_witness:
  "\<lparr>wt_Amount = 10, wt_Commodity = ''inst:i1''\<rparr>
     = (let (amount, cm) = weightOf (plain_tx [DIVIDEND, TRANSFER] ''10'' (Some ''185.5'') ''usd'') [TRANSFER] 10
          (Some (1855 / 10)) ''i1'' (inst_get [] ''i1'')
        in \<lparr>wt_Amount = amount, wt_Commodity = commodity_key cm\<rparr>)"
proof -
  let ?t = "plain_tx [DIVIDEND, TRANSFER] ''10'' (Some ''185.5'') ''usd''"
  have v: "validateWeightNeutrality sample_parse [?t] [0] [''i1''] [] = Some []" by code_simp
  have w: "weights sample_parse [?t] [''i1''] [] = Some [\<lparr>wt_Amount = 10, wt_Commodity = ''inst:i1''\<rparr>]" by code_simp
  have "[\<lparr>wt_Amount = 10, wt_Commodity = ''inst:i1''\<rparr>] ! 0
    = (let (amount, cm) = weightOf ([?t] ! 0) [TRANSFER] 10 (Some (1855 / 10)) ([''i1''] ! 0) (inst_get [] ([''i1''] ! 0))
       in \<lparr>wt_Amount = amount, wt_Commodity = commodity_key cm\<rparr>)"
    by (rule weights_neutral [OF v _ w]) (simp_all add: plain_tx_def parseOptDec_def)
  then show ?thesis by simp
qed

text \<open>
  The two legs of a trade cancel: the asset leg, priced and settling in a currency it is not
  itself in, weighs at its consideration, contract size included, and the cash leg that pays
  exactly that consideration weighs the opposite amount in the same commodity, whatever type the
  source declared it as and whether or not it states a price.
\<close>

theorem trade_legs_cancel:
  assumes "MustBe types [TRADE_ASSET]" and "settleCurrency asset = cur" and "cur \<noteq> ''''"
    and "cm_currency (ownCommodity asset i inst) \<noteq> cur"
    and "bi_isCurrency cinst" and "bi_currency cinst \<noteq> ''''" and "ToUpper (bi_currency cinst) = cur"
    and "settleCurrency cash \<in> {'''', cur}"
  shows "let (a, ca) = weightOf asset types qty (Some p) i inst;
             (b, cb) = weightOf cash types' (- (qty * p * (if bi_contractSize inst > 0 then bi_contractSize inst else 1))) cp j cinst
         in a + b = 0 \<and> commodity_key ca = commodity_key cb \<and> ca = cb"
proof -
  let ?size = "if bi_contractSize inst > 0 then bi_contractSize inst else 1"
  let ?money = "\<lparr>cm_currency = cur, cm_instrumentID = '''', cm_description = ''''\<rparr>"
  have "weightOf asset types qty (Some p) i inst = (qty * p * ?size, ?money)"
    using assms(1-4) by (simp add: weightOf_def convert_weight_def)
  moreover have "ownCommodity cash j cinst = ?money" using assms(5-7) by (simp add: ownCommodity_def)
  then have "weightOf cash types' n cp j cinst = (n, ?money)" for n
    using assms(8) by (cases cp) (auto simp: weightOf_def Let_def)
  ultimately show ?thesis by simp
qed

theorem trade_legs_cancel_witness:
  "let (a, ca) = weightOf (plain_tx [TRADE_ASSET] ''2'' (Some ''3'') ''usd'') [TRADE_ASSET] 2 (Some 3) ''i1''
         \<lparr>bi_isCurrency = False, bi_currency = '''', bi_contractSize = 100\<rparr>;
       (b, cb) = weightOf (plain_tx [TRADE_CASH] ''-600'' None ''usd'') [TRADE_CASH] (- 600) None ''c1''
         \<lparr>bi_isCurrency = True, bi_currency = ''usd'', bi_contractSize = 1\<rparr>
   in a + b = 0 \<and> commodity_key ca = commodity_key cb \<and> ca = cb"
proof -
  let ?a = "plain_tx [TRADE_ASSET] ''2'' (Some ''3'') ''usd''" and ?c = "plain_tx [TRADE_CASH] ''-600'' None ''usd''"
  let ?i = "\<lparr>bi_isCurrency = False, bi_currency = '''', bi_contractSize = 100\<rparr>"
  let ?j = "\<lparr>bi_isCurrency = True, bi_currency = ''usd'', bi_contractSize = 1\<rparr>"
  have "MustBe [TRADE_ASSET] [TRADE_ASSET]" "settleCurrency ?a = ''USD''" "settleCurrency ?c \<in> {'''', ''USD''}"
    "cm_currency (ownCommodity ?a ''i1'' ?i) \<noteq> ''USD''" "ToUpper (bi_currency ?j) = ''USD''" by code_simp+
  then show ?thesis
    using trade_legs_cancel [of "[TRADE_ASSET]" ?a "''USD''" "''i1''" ?i ?j ?c 2 3 "[TRADE_CASH]" None "''c1''"] by simp
qed

end
