(* ===== verification/Grouping_State.thy ===== *)
theory Grouping_State
  imports Vocab
begin

text \<open>
  The partition under construction of \<open>src/server/grouping/grouping.go\<close>: the postings the
  engine reads, and \<open>State\<close> with \<open>find\<close>, \<open>union\<close>, \<open>Taken\<close>, \<open>Group\<close>, \<open>Claim\<close>,
  \<open>Attach\<close>.

  \<open>find_loop\<close> is the loop of the code with its path compression, as a partial function;
  \<open>find\<close> is the same loop given one step per stored entry, which \<open>find_loop_find\<close> proves
  is always enough. What a rule can observe of the state is \<open>abs_state\<close>: the group name of
  every posting, the roles taken and what they resolved to. The operations are proved to
  implement \<open>a_claim\<close> and \<open>a_attach\<close> on it, and the locale \<open>partition_store\<close> is the
  contract the rules rely on.
\<close>

subsection \<open>Data\<close>

record GroupingPosting =
  p_ID :: string
  p_UserID :: string
  p_Broker :: Broker
  p_Account :: string
  p_OrderDate :: time
  p_InstrumentID :: string
  p_Quantity :: decimal
  p_UnitPrice :: "decimal option"
  p_SettlementAmount :: "decimal option"
  p_Declared :: "TxType list"
  p_JobID :: string
  p_GroupID :: string
  p_Resolved :: string
  p_Correlations :: "Correlation list"

record Opts =
  o_Money :: decimal
  o_ConsiderationBand :: decimal

definition DefaultOpts :: Opts where
  "DefaultOpts = \<lparr>o_Money = 5 / 1000, o_ConsiderationBand = 75 / 10000\<rparr>"

record Member =
  m_ID :: string
  m_Resolved :: TxType

record Group =
  g_Members :: "Member list"

record State =
  s_parent :: "(string \<times> string) list"
  s_resolved :: "string \<rightharpoonup> TxType"
  s_claimed :: "string \<Rightarrow> bool"

subsection \<open>The operations\<close>

text \<open>Reading a Go map of strings: the empty string for a missing key.\<close>

definition pget :: "(string \<times> string) list \<Rightarrow> string \<Rightarrow> string" where
  "pget m i = (case map_of m i of None \<Rightarrow> '''' | Some v \<Rightarrow> v)"

definition newState :: "GroupingPosting list \<Rightarrow> State" where
  "newState ps = \<lparr>s_parent = fold (\<lambda>p m. AList.update (p_ID p) (p_ID p) m) ps [],
     s_resolved = Map.empty, s_claimed = (\<lambda>_. False)\<rparr>"

partial_function (option) find_loop ::
    "(string \<times> string) list \<Rightarrow> string \<Rightarrow> ((string \<times> string) list \<times> string) option" where
  "find_loop m i =
     (if pget m i \<noteq> i
      then (let m' = AList.update i (pget m (pget m i)) m in find_loop m' (pget m' i))
      else Some (m, i))"

fun find_steps :: "nat \<Rightarrow> (string \<times> string) list \<Rightarrow> string \<Rightarrow> (string \<times> string) list \<times> string" where
  "find_steps 0 m i = (m, i)"
| "find_steps (Suc n) m i =
     (if pget m i \<noteq> i
      then (let m' = AList.update i (pget m (pget m i)) m in find_steps n m' (pget m' i))
      else (m, i))"

definition find :: "State \<Rightarrow> string \<Rightarrow> State \<times> string" where
  "find s i = (let (m, r) = find_steps (length (s_parent s)) (s_parent s) i
                in (s\<lparr>s_parent := m\<rparr>, r))"

definition union :: "State \<Rightarrow> string \<Rightarrow> string \<Rightarrow> State" where
  "union s a b =
     (let (s1, ra) = find s a; (s2, rb) = find s1 b in
      if ra = rb then s2
      else let (ra', rb') = (if rb < ra then (rb, ra) else (ra, rb))
           in s2\<lparr>s_parent := AList.update rb' ra' (s_parent s2)\<rparr>)"

definition Taken :: "State \<Rightarrow> string \<Rightarrow> bool" where
  "Taken s i = s_claimed s i"

definition known :: "State \<Rightarrow> string \<Rightarrow> bool" where
  "known s i \<longleftrightarrow> map_of (s_parent s) i \<noteq> None"

definition Group_of :: "State \<Rightarrow> string \<Rightarrow> State \<times> string" where
  "Group_of s i = (if \<not> known s i then (s, '''') else find s i)"

text \<open>The loop body \<open>Claim\<close> and \<open>Attach\<close> share: take the posting, resolve it, join it.\<close>

definition take_member :: "string \<Rightarrow> Member \<Rightarrow> State \<Rightarrow> State" where
  "take_member anchor m s =
     union (s\<lparr>s_claimed := (s_claimed s)(m_ID m := True),
              s_resolved := (s_resolved s)(m_ID m \<mapsto> m_Resolved m)\<rparr>) anchor (m_ID m)"

definition Claim :: "State \<Rightarrow> Member list \<Rightarrow> State \<times> bool" where
  "Claim s ms =
     (if length ms < 2 then (s, False)
      else if list_ex (\<lambda>m. \<not> known s (m_ID m) \<or> s_claimed s (m_ID m)) ms then (s, False)
      else (fold (take_member (m_ID (hd ms))) ms s, True))"

definition Attach :: "State \<Rightarrow> string \<Rightarrow> Member list \<Rightarrow> State \<times> bool" where
  "Attach s anchorID ms =
     (if ms = [] then (s, False)
      else if \<not> known s anchorID then (s, False)
      else if list_ex (\<lambda>m. \<not> known s (m_ID m) \<or> m_ID m = anchorID \<or> s_claimed s (m_ID m)) ms
           then (s, False)
      else (fold (take_member anchorID) ms s, True))"

subsection \<open>Following parents\<close>

text \<open>The representative of an id under a parent function, and what path halving does to it.\<close>

inductive root_of :: "(string \<Rightarrow> string) \<Rightarrow> string \<Rightarrow> string \<Rightarrow> bool" for f where
  here: "f r = r \<Longrightarrow> root_of f r r"
| up: "f x \<noteq> x \<Longrightarrow> root_of f (f x) r \<Longrightarrow> root_of f x r"

inductive_simps root_of_iff: "root_of f x r"

lemma root_of_fixed: "root_of f x r \<Longrightarrow> f r = r"
  by (induction rule: root_of.induct) auto

lemma root_of_unique: "root_of f x r \<Longrightarrow> root_of f x r' \<Longrightarrow> r = r'"
proof (induction rule: root_of.induct)
  case (here r)
  from here.prems show ?case by cases (use here.hyps in auto)
next
  case (up x r)
  from up.prems show ?case by cases (use up in auto)
qed

text \<open>A descending parent function on a finite set: every id has a representative.\<close>

definition descending :: "string set \<Rightarrow> (string \<Rightarrow> string) \<Rightarrow> bool" where
  "descending D f \<longleftrightarrow> finite D \<and> (\<forall>x \<in> D. f x \<in> D \<and> f x \<le> x)"

definition rank :: "string set \<Rightarrow> string \<Rightarrow> nat" where
  "rank D x = card {y \<in> D. y < x}"

lemma rank_less: "finite D \<Longrightarrow> y \<in> D \<Longrightarrow> y < x \<Longrightarrow> rank D y < rank D x"
  unfolding rank_def by (rule psubset_card_mono) auto

lemma rank_bound: "finite D \<Longrightarrow> x \<in> D \<Longrightarrow> rank D x < card D"
  unfolding rank_def by (rule psubset_card_mono) auto

lemma descending_step:
  assumes "descending D f" "x \<in> D" "f x \<noteq> x"
  shows "f x \<in> D" "f x < x" "f (f x) \<in> D" "f (f x) < x"
proof -
  show 1: "f x \<in> D" "f x < x" using assms by (auto simp: descending_def order_less_le)
  show "f (f x) \<in> D" using assms(1) 1(1) by (simp add: descending_def)
  have "f (f x) \<le> f x" using assms(1) 1(1) by (simp add: descending_def)
  with 1(2) show "f (f x) < x" by simp
qed

lemma root_of_exists:
  assumes "descending D f" "x \<in> D"
  shows "\<exists>r \<in> D. root_of f x r \<and> r \<le> x"
  using assms(2)
proof (induction "rank D x" arbitrary: x rule: less_induct)
  case less
  show ?case
  proof (cases "f x = x")
    case True
    with less.prems show ?thesis by (auto intro: root_of.here)
  next
    case False
    note st = descending_step [OF assms(1) less.prems False]
    have "rank D (f x) < rank D x"
      using st assms(1) by (auto intro: rank_less simp: descending_def)
    then obtain r where "r \<in> D" "root_of f (f x) r" "r \<le> f x" using less.hyps st(1) by blast
    with False st(2) show ?thesis by (auto intro: root_of.up)
  qed
qed

lemma root_of_in: "descending D f \<Longrightarrow> x \<in> D \<Longrightarrow> root_of f x r \<Longrightarrow> r \<in> D \<and> r \<le> x"
  using root_of_exists root_of_unique by blast

lemma halve_descending:
  assumes "descending D f" "x \<in> D"
  shows "descending D (f(x := f (f x)))"
proof -
  have "f x \<in> D" "f x \<le> x" "f (f x) \<in> D" "f (f x) \<le> f x"
    using assms by (simp_all add: descending_def)
  then show ?thesis using assms(1) by (auto simp: descending_def)
qed

lemma halve_root_of:
  assumes "descending D f" "x \<in> D" "root_of f y r"
  shows "root_of (f(x := f (f x))) y r"
  using assms(3)
proof (induction rule: root_of.induct)
  case (here r)
  then show ?case by (intro root_of.here) auto
next
  case (up y r)
  let ?g = "f(x := f (f x))"
  show ?case
  proof (cases "y = x")
    case False
    show ?thesis by (rule root_of.up) (use up False in simp_all)
  next
    case True
    have ne: "f (f x) \<noteq> x" "f x \<noteq> x"
      using descending_step [OF assms(1,2)] up.hyps(1) True by auto
    have "root_of ?g (f x) r" using up.IH True by (simp add: fun_upd_def)
    then have "root_of ?g (f (f x)) r" by cases (use ne(2) in \<open>simp_all add: root_of.here\<close>)
    with ne(1) show ?thesis unfolding True by (intro root_of.up [of ?g x]) simp_all
  qed
qed

lemma halve_root_of_iff:
  assumes "descending D f" "x \<in> D" "y \<in> D"
  shows "root_of (f(x := f (f x))) y r \<longleftrightarrow> root_of f y r"
proof
  obtain r' where r': "root_of f y r'" using root_of_exists [OF assms(1,3)] by blast
  assume "root_of (f(x := f (f x))) y r"
  with halve_root_of [OF assms(1,2) r'] have "r = r'" by (blast intro: root_of_unique)
  with r' show "root_of f y r" by simp
qed (rule halve_root_of [OF assms(1,2)])

text \<open>Pointing one representative at another merges their two groups and no other.\<close>

lemma link_descending:
  assumes "descending D f" "ra \<in> D" "rb \<in> D" "ra < rb"
  shows "descending D (f(rb := ra))"
  using assms unfolding descending_def by auto

lemma link_root_of:
  assumes "descending D f" "f ra = ra" "f rb = rb" "ra < rb" "root_of f y r"
  shows "root_of (f(rb := ra)) y (if r = rb then ra else r)"
  using assms(5)
proof (induction rule: root_of.induct)
  case (here r)
  show ?case
  proof (cases "r = rb")
    case True
    have "root_of (f(rb := ra)) ra ra" using assms(2,4) by (intro root_of.here) simp
    then have "root_of (f(rb := ra)) rb ra" using assms(4) by (simp add: root_of.up)
    with True show ?thesis by (simp add: fun_upd_def)
  next
    case False
    with here show ?thesis by (simp add: root_of.here)
  qed
next
  case (up y r)
  have "y \<noteq> rb" using up.hyps(1) assms(3) by auto
  show ?case by (rule root_of.up) (use up \<open>y \<noteq> rb\<close> in simp_all)
qed

subsection \<open>The parent map\<close>

abbreviation keys :: "(string \<times> string) list \<Rightarrow> string set" where
  "keys m \<equiv> fst ` set m"

definition valid_parent :: "(string \<times> string) list \<Rightarrow> bool" where
  "valid_parent m \<longleftrightarrow> distinct (map fst m) \<and> descending (keys m) (pget m)"

lemma map_of_None_iff_keys: "map_of m i = None \<longleftrightarrow> i \<notin> keys m"
  by (rule map_of_eq_None_iff)

lemma pget_update: "pget (AList.update k v m) = (pget m)(k := v)"
  by (rule ext) (simp add: pget_def update_conv')

lemma keys_update: "keys (AList.update k v m) = insert k (keys m)"
  by (auto simp: dom_update)

lemma valid_parent_update:
  assumes "valid_parent m" "k \<in> keys m" "descending (keys m) ((pget m)(k := v))"
  shows "valid_parent (AList.update k v m)" "keys (AList.update k v m) = keys m"
  using assms by (auto simp: valid_parent_def pget_update keys_update insert_absorb distinct_update)

definition same_roots :: "(string \<times> string) list \<Rightarrow> (string \<times> string) list \<Rightarrow> bool" where
  "same_roots m m' \<longleftrightarrow> keys m' = keys m
     \<and> (\<forall>y \<in> keys m. \<forall>r. root_of (pget m') y r \<longleftrightarrow> root_of (pget m) y r)"

lemma find_steps_correct:
  assumes "valid_parent m" "i \<in> keys m" "rank (keys m) i < n" "find_steps n m i = (m', r)"
  shows "find_loop m i = Some (m', r) \<and> valid_parent m' \<and> same_roots m m' \<and> root_of (pget m) i r"
  using assms
proof (induction n arbitrary: m i)
  case (Suc n)
  show ?case
  proof (cases "pget m i = i")
    case True
    with Suc.prems show ?thesis
      by (simp add: find_loop.simps same_roots_def root_of.here)
  next
    case False
    let ?f = "pget m" and ?j = "pget m (pget m i)"
    let ?m = "AList.update i ?j m"
    have desc: "descending (keys m) ?f" using Suc.prems(1) by (simp add: valid_parent_def)
    note st = descending_step [OF desc Suc.prems(2) False]
    have upd: "valid_parent ?m" "keys ?m = keys m"
      using valid_parent_update [OF Suc.prems(1,2) halve_descending [OF desc Suc.prems(2)]]
      by simp_all
    have j: "pget ?m i = ?j" by (simp add: pget_update)
    have "rank (keys m) ?j < rank (keys m) i"
      using st(3,4) by (intro rank_less) auto
    then have less: "rank (keys ?m) ?j < n" using Suc.prems(3) upd(2) by simp
    have find: "find_steps n ?m ?j = (m', r)" using Suc.prems(4) False by (simp add: j Let_def)
    have IH: "find_loop ?m ?j = Some (m', r) \<and> valid_parent m' \<and> same_roots ?m m' \<and> root_of (pget ?m) ?j r"
      by (rule Suc.IH [OF upd(1) _ less find]) (use st(3) upd(2) in simp)
    have iff: "root_of (pget ?m) y q \<longleftrightarrow> root_of ?f y q" if "y \<in> keys m" for y q
      using halve_root_of_iff [OF desc Suc.prems(2) that] by (simp add: pget_update)
    have "root_of (pget ?m) i r" by (rule root_of.up) (use IH st(4) in \<open>simp_all add: j\<close>)
    with IH iff upd(2) Suc.prems(2) False show ?thesis
      by (subst find_loop.simps) (simp add: j Let_def same_roots_def)
  qed
qed simp

lemma valid_parent_length: "valid_parent m \<Longrightarrow> card (keys m) = length m"
  by (metis distinct_card length_map list.set_map valid_parent_def)

lemma find_loop_find:
  assumes "valid_parent (s_parent s)" "known s i" "find s i = (s', r)"
  shows "find_loop (s_parent s) i = Some (s_parent s', r)" "valid_parent (s_parent s')"
    "same_roots (s_parent s) (s_parent s')" "root_of (pget (s_parent s)) i r"
    "s_claimed s' = s_claimed s" "s_resolved s' = s_resolved s"
proof -
  let ?m = "s_parent s"
  obtain m' where f: "find_steps (length ?m) ?m i = (m', r)" "s' = s\<lparr>s_parent := m'\<rparr>"
    using assms(3) by (auto simp: find_def split: prod.splits)
  have i: "i \<in> keys ?m" using assms(2) by (simp add: known_def map_of_None_iff_keys)
  have "rank (keys ?m) i < length ?m"
    using rank_bound [OF _ i] valid_parent_length [OF assms(1)] by simp
  from find_steps_correct [OF assms(1) i this f(1)] f(2)
  show "find_loop ?m i = Some (s_parent s', r)" "valid_parent (s_parent s')"
    "same_roots ?m (s_parent s')" "root_of (pget ?m) i r"
    "s_claimed s' = s_claimed s" "s_resolved s' = s_resolved s"
    by simp_all
qed

subsection \<open>What a rule can observe, and the specification of the operations\<close>

record APart =
  a_rep :: "string \<rightharpoonup> string"
  a_resolved :: "string \<rightharpoonup> TxType"
  a_claimed :: "string \<Rightarrow> bool"

definition abs_state :: "State \<Rightarrow> APart" where
  "abs_state s = \<lparr>a_rep = (\<lambda>i. if known s i then Some (snd (find s i)) else None),
     a_resolved = s_resolved s, a_claimed = s_claimed s\<rparr>"

definition valid :: "State \<Rightarrow> bool" where
  "valid s \<longleftrightarrow> valid_parent (s_parent s)"

text \<open>Joining the groups of two postings: the lower of the two names stays.\<close>

definition merge_rep :: "(string \<rightharpoonup> string) \<Rightarrow> string \<Rightarrow> string \<Rightarrow> (string \<rightharpoonup> string)" where
  "merge_rep R a b = (\<lambda>x. case R x of None \<Rightarrow> None | Some r \<Rightarrow>
     Some (if R a = Some r \<or> R b = Some r then min (the (R a)) (the (R b)) else r))"

definition a_take :: "string \<Rightarrow> Member \<Rightarrow> APart \<Rightarrow> APart" where
  "a_take anchor m P = \<lparr>a_rep = merge_rep (a_rep P) anchor (m_ID m),
     a_resolved = (a_resolved P)(m_ID m \<mapsto> m_Resolved m),
     a_claimed = (a_claimed P)(m_ID m := True)\<rparr>"

definition a_claim :: "APart \<Rightarrow> Member list \<Rightarrow> APart \<times> bool" where
  "a_claim P ms =
     (if length ms < 2 \<or> (\<exists>m \<in> set ms. a_rep P (m_ID m) = None \<or> a_claimed P (m_ID m))
      then (P, False) else (fold (a_take (m_ID (hd ms))) ms P, True))"

definition a_attach :: "APart \<Rightarrow> string \<Rightarrow> Member list \<Rightarrow> APart \<times> bool" where
  "a_attach P anchor ms =
     (if ms = [] \<or> a_rep P anchor = None
         \<or> (\<exists>m \<in> set ms. a_rep P (m_ID m) = None \<or> m_ID m = anchor \<or> a_claimed P (m_ID m))
      then (P, False) else (fold (a_take anchor) ms P, True))"

definition a_group :: "APart \<Rightarrow> string \<Rightarrow> string" where
  "a_group P i = (case a_rep P i of None \<Rightarrow> '''' | Some r \<Rightarrow> r)"

lemma abs_state_simps [simp]:
  "a_resolved (abs_state s) = s_resolved s" "a_claimed (abs_state s) = s_claimed s"
  by (simp_all add: abs_state_def)

lemma a_rep_None [simp]: "a_rep (abs_state s) i = None \<longleftrightarrow> \<not> known s i"
  by (simp add: abs_state_def)

lemma a_rep_unknown [simp]: "\<not> known s i \<Longrightarrow> a_rep (abs_state s) i = None"
  by simp

lemma a_rep_Some:
  assumes "valid s"
  shows "a_rep (abs_state s) i = Some r \<longleftrightarrow> known s i \<and> root_of (pget (s_parent s)) i r"
proof (cases "known s i")
  case True
  obtain s' q where f: "find s i = (s', q)" by fastforce
  from find_loop_find(4) [OF _ True f] assms have "root_of (pget (s_parent s)) i q"
    by (simp add: valid_def)
  with True f show ?thesis by (auto simp: abs_state_def dest: root_of_unique)
qed (simp add: abs_state_def)

lemma abs_state_eqI:
  assumes "valid s" "valid s'" "same_roots (s_parent s) (s_parent s')"
    "s_claimed s' = s_claimed s" "s_resolved s' = s_resolved s"
  shows "abs_state s' = abs_state s"
proof -
  have known: "known s' i = known s i" for i
    using assms(3) by (simp add: known_def map_of_None_iff_keys same_roots_def)
  have iff: "a_rep (abs_state s') i = Some r \<longleftrightarrow> a_rep (abs_state s) i = Some r" for i r
  proof (cases "known s i")
    case True
    then have "i \<in> keys (s_parent s)" by (simp add: known_def map_of_None_iff_keys)
    with assms(3) show ?thesis
      by (auto simp: a_rep_Some [OF assms(1)] a_rep_Some [OF assms(2)] known same_roots_def)
  qed (use known in \<open>simp add: abs_state_def\<close>)
  have "a_rep (abs_state s') = a_rep (abs_state s)"
  proof
    fix i
    show "a_rep (abs_state s') i = a_rep (abs_state s) i"
      using iff [of i] by (cases "a_rep (abs_state s) i") (auto simp del: a_rep_None)
  qed
  with assms(4,5) show ?thesis by (simp add: abs_state_def)
qed

lemma find_abs:
  assumes "valid s" "known s i" "find s i = (s', r)"
  shows "valid s'" "abs_state s' = abs_state s" "a_rep (abs_state s) i = Some r"
proof -
  note f = find_loop_find [OF assms(1) [unfolded valid_def] assms(2,3)]
  show v: "valid s'" using f(2) by (simp add: valid_def)
  show "abs_state s' = abs_state s" using f(3,5,6) by (intro abs_state_eqI assms(1) v)
  show "a_rep (abs_state s) i = Some r" using f(4) assms(1,2) by (simp add: a_rep_Some)
qed

lemma abs_known: "abs_state s' = abs_state s \<Longrightarrow> known s' i = known s i"
  by (metis a_rep_None)

lemma link_abs:
  assumes "valid s" "known s ra" "known s rb" "ra < rb"
    and "pget (s_parent s) ra = ra" "pget (s_parent s) rb = rb"
  defines "s' \<equiv> s\<lparr>s_parent := AList.update rb ra (s_parent s)\<rparr>"
  shows "valid s'" and "a_rep (abs_state s') x =
    (case a_rep (abs_state s) x of None \<Rightarrow> None | Some r \<Rightarrow> Some (if r = rb then ra else r))"
proof -
  let ?m = "s_parent s"
  have d: "descending (keys ?m) (pget ?m)" and k: "ra \<in> keys ?m" "rb \<in> keys ?m"
    using assms(1-3) by (simp_all add: valid_def valid_parent_def known_def map_of_None_iff_keys)
  have v: "valid_parent (AList.update rb ra ?m)" "keys (AList.update rb ra ?m) = keys ?m"
    using valid_parent_update [OF _ k(2) link_descending [OF d k assms(4)]] assms(1)
    by (simp_all add: valid_def)
  then show vs: "valid s'" by (simp add: valid_def s'_def)
  have kn: "known s' y = known s y" for y
    using v(2) by (simp add: known_def s'_def map_of_None_iff_keys)
  show "a_rep (abs_state s') x =
    (case a_rep (abs_state s) x of None \<Rightarrow> None | Some r \<Rightarrow> Some (if r = rb then ra else r))"
  proof (cases "a_rep (abs_state s) x")
    case None
    then have "\<not> known s x" by simp
    then show ?thesis using kn [of x] by (simp add: abs_state_def)
  next
    case (Some r)
    then have "known s x" "root_of (pget ?m) x r" using a_rep_Some [OF assms(1)] by simp_all
    then have "known s' x \<and> root_of (pget (s_parent s')) x (if r = rb then ra else r)"
      using link_root_of [OF d assms(5,6,4)] kn [of x] by (simp add: s'_def pget_update)
    then show ?thesis unfolding Some using a_rep_Some [OF vs] by simp
  qed
qed

lemma union_abs:
  assumes "valid s" "known s a" "known s b"
  shows "valid (union s a b)"
    and "abs_state (union s a b) = (abs_state s)\<lparr>a_rep := merge_rep (a_rep (abs_state s)) a b\<rparr>"
proof -
  let ?R = "a_rep (abs_state s)"
  obtain s1 ra where f1: "find s a = (s1, ra)" by fastforce
  obtain s2 rb where f2: "find s1 b = (s2, rb)" by fastforce
  note A = find_abs [OF assms(1,2) f1]
  have "known s1 b" using assms(3) abs_known [OF A(2)] by simp
  note B = find_abs [OF A(1) this f2]
  have abs: "abs_state s2 = abs_state s" using A(2) B(2) by simp
  have R: "?R a = Some ra" "?R b = Some rb" using A(3) B(3) A(2) by simp_all
  let ?lo = "min ra rb" and ?hi = "max ra rb"
  let ?s' = "s2\<lparr>s_parent := AList.update ?hi ?lo (s_parent s2)\<rparr>"
  have u: "union s a b = (if ra = rb then s2 else ?s')"
    by (auto simp: union_def f1 f2 min_def max_def not_less_iff_gr_or_eq)
  have roots: "pget (s_parent s2) q = q" "known s2 q" if "q \<in> {ra, rb}" for q
  proof -
    have "\<exists>y. a_rep (abs_state s2) y = Some q" using that R abs by auto
    then obtain y where y: "known s2 y" "root_of (pget (s_parent s2)) y q"
      using a_rep_Some [OF B(1)] by blast
    then show "pget (s_parent s2) q = q" using root_of_fixed by blast
    show "known s2 q" using y root_of_in [of "keys (s_parent s2)" "pget (s_parent s2)" y q] B(1)
      by (simp add: known_def valid_def valid_parent_def map_of_None_iff_keys)
  qed
  have lo_hi: "?lo \<in> {ra, rb}" "?hi \<in> {ra, rb}" by (auto simp: min_def max_def)
  have link: "valid ?s'" "a_rep (abs_state ?s') x =
      (case ?R x of None \<Rightarrow> None | Some r \<Rightarrow> Some (if r = ?hi then ?lo else r))" if "ra \<noteq> rb" for x
  proof -
    have "?lo < ?hi" using that by (auto simp: min_def max_def)
    from link_abs [OF B(1) roots(2) [OF lo_hi(1)] roots(2) [OF lo_hi(2)] this
        roots(1) [OF lo_hi(1)] roots(1) [OF lo_hi(2)]]
    show "valid ?s'" "a_rep (abs_state ?s') x =
      (case ?R x of None \<Rightarrow> None | Some r \<Rightarrow> Some (if r = ?hi then ?lo else r))"
      by (simp_all add: abs)
  qed
  show "valid (union s a b)" using link(1) B(1) by (simp add: u)
  show "abs_state (union s a b) = (abs_state s)\<lparr>a_rep := merge_rep ?R a b\<rparr>"
  proof (cases "ra = rb")
    case True
    then have "merge_rep ?R a b = ?R"
      using R by (auto simp: merge_rep_def fun_eq_iff split: option.splits)
    with True show ?thesis by (simp add: u abs)
  next
    case False
    have "a_rep (abs_state ?s') = merge_rep ?R a b"
      using link(2) [OF False] R
      by (auto simp: fun_eq_iff merge_rep_def min_def max_def split: option.splits)
    moreover have "s_claimed s2 = s_claimed s" "s_resolved s2 = s_resolved s"
      using abs abs_state_simps by metis+
    ultimately show ?thesis using False by (simp add: u abs_state_def)
  qed
qed

lemma merge_rep_None [simp]: "merge_rep R a b x = None \<longleftrightarrow> R x = None"
  by (auto simp: merge_rep_def split: option.splits)

lemma a_take_simps [simp]:
  "a_rep (a_take anchor m P) = merge_rep (a_rep P) anchor (m_ID m)"
  "a_resolved (a_take anchor m P) = (a_resolved P)(m_ID m \<mapsto> m_Resolved m)"
  "a_claimed (a_take anchor m P) = (a_claimed P)(m_ID m := True)"
  by (simp_all add: a_take_def)

lemma take_member_abs:
  assumes "valid s" "known s anchor" "known s (m_ID m)"
  shows "valid (take_member anchor m s)"
    and "abs_state (take_member anchor m s) = a_take anchor m (abs_state s)"
proof -
  let ?s = "s\<lparr>s_claimed := (s_claimed s)(m_ID m := True),
              s_resolved := (s_resolved s)(m_ID m \<mapsto> m_Resolved m)\<rparr>"
  have v: "valid ?s" and k: "known ?s i = known s i" for i
    using assms(1) by (simp_all add: valid_def known_def)
  have r: "a_rep (abs_state ?s) = a_rep (abs_state s)"
    by (simp add: abs_state_def k find_def fun_eq_iff split: prod.splits)
  note u = union_abs [OF v, unfolded k, OF assms(2,3)]
  show "valid (take_member anchor m s)" using u(1) by (simp add: take_member_def)
  show "abs_state (take_member anchor m s) = a_take anchor m (abs_state s)"
    using u(2) r by (simp add: take_member_def a_take_def)
qed

lemma fold_take_abs:
  assumes "valid s" "known s anchor" "\<And>m. m \<in> set ms \<Longrightarrow> known s (m_ID m)"
  shows "valid (fold (take_member anchor) ms s)
    \<and> abs_state (fold (take_member anchor) ms s) = fold (a_take anchor) ms (abs_state s)"
  using assms
proof (induction ms arbitrary: s)
  case (Cons m ms)
  note t = take_member_abs [OF Cons.prems(1,2), of m]
  have km: "known s (m_ID m)" using Cons.prems(3) by simp
  have "a_rep (abs_state (take_member anchor m s)) i = None \<longleftrightarrow> \<not> known s i" for i
    using t(2) km by simp
  then have k: "known (take_member anchor m s) i = known s i" for i by simp
  have "valid (fold (take_member anchor) ms (take_member anchor m s))
    \<and> abs_state (fold (take_member anchor) ms (take_member anchor m s))
      = fold (a_take anchor) ms (abs_state (take_member anchor m s))"
    by (rule Cons.IH) (use Cons.prems t(1) km k in auto)
  with t(2) km show ?case by simp
qed simp

lemma Claim_abs:
  assumes "valid s"
  shows "valid (fst (Claim s ms))" "snd (Claim s ms) = snd (a_claim (abs_state s) ms)"
    "abs_state (fst (Claim s ms)) = fst (a_claim (abs_state s) ms)"
proof -
  let ?bad = "list_ex (\<lambda>m. \<not> known s (m_ID m) \<or> s_claimed s (m_ID m)) ms"
  have "valid (fst (Claim s ms)) \<and> snd (Claim s ms) = snd (a_claim (abs_state s) ms)
    \<and> abs_state (fst (Claim s ms)) = fst (a_claim (abs_state s) ms)"
  proof (cases "length ms < 2 \<or> ?bad")
    case True
    with assms show ?thesis by (auto simp: Claim_def a_claim_def list_ex_iff)
  next
    case False
    then have "hd ms \<in> set ms" by (intro hd_in_set) auto
    with False have "known s (m_ID (hd ms))" "\<And>m. m \<in> set ms \<Longrightarrow> known s (m_ID m)"
      by (auto simp: list_ex_iff)
    from fold_take_abs [OF assms this] False show ?thesis
      by (auto simp: Claim_def a_claim_def list_ex_iff)
  qed
  then show "valid (fst (Claim s ms))" "snd (Claim s ms) = snd (a_claim (abs_state s) ms)"
    "abs_state (fst (Claim s ms)) = fst (a_claim (abs_state s) ms)" by simp_all
qed

lemma Attach_abs:
  assumes "valid s"
  shows "valid (fst (Attach s anchor ms))"
    "snd (Attach s anchor ms) = snd (a_attach (abs_state s) anchor ms)"
    "abs_state (fst (Attach s anchor ms)) = fst (a_attach (abs_state s) anchor ms)"
proof -
  let ?bad = "list_ex (\<lambda>m. \<not> known s (m_ID m) \<or> m_ID m = anchor \<or> s_claimed s (m_ID m)) ms"
  have "valid (fst (Attach s anchor ms))
    \<and> snd (Attach s anchor ms) = snd (a_attach (abs_state s) anchor ms)
    \<and> abs_state (fst (Attach s anchor ms)) = fst (a_attach (abs_state s) anchor ms)"
  proof (cases "ms = [] \<or> \<not> known s anchor \<or> ?bad")
    case True
    with assms show ?thesis by (auto simp: Attach_def a_attach_def list_ex_iff)
  next
    case False
    then have "known s anchor" "\<And>m. m \<in> set ms \<Longrightarrow> known s (m_ID m)"
      by (auto simp: list_ex_iff)
    from fold_take_abs [OF assms this] False show ?thesis
      by (auto simp: Attach_def a_attach_def list_ex_iff)
  qed
  then show "valid (fst (Attach s anchor ms))"
    "snd (Attach s anchor ms) = snd (a_attach (abs_state s) anchor ms)"
    "abs_state (fst (Attach s anchor ms)) = fst (a_attach (abs_state s) anchor ms)" by simp_all
qed

lemma Group_of_abs:
  assumes "valid s"
  shows "valid (fst (Group_of s i))" "abs_state (fst (Group_of s i)) = abs_state s"
    "snd (Group_of s i) = a_group (abs_state s) i"
proof -
  obtain s' r where f: "find s i = (s', r)" by fastforce
  show "valid (fst (Group_of s i))" "abs_state (fst (Group_of s i)) = abs_state s"
    "snd (Group_of s i) = a_group (abs_state s) i"
    using find_abs [OF assms _ f] assms f
    by (cases "known s i"; simp add: Group_of_def a_group_def)+
qed

subsection \<open>The contract the rules rely on\<close>

locale partition_store =
  fixes invar :: "'s \<Rightarrow> bool"
    and view :: "'s \<Rightarrow> APart"
    and claim :: "'s \<Rightarrow> Member list \<Rightarrow> 's \<times> bool"
    and attach :: "'s \<Rightarrow> string \<Rightarrow> Member list \<Rightarrow> 's \<times> bool"
    and group :: "'s \<Rightarrow> string \<Rightarrow> 's \<times> string"
    and taken :: "'s \<Rightarrow> string \<Rightarrow> bool"
  assumes claim_invar: "invar s \<Longrightarrow> invar (fst (claim s ms))"
    and claim_view: "invar s \<Longrightarrow> view (fst (claim s ms)) = fst (a_claim (view s) ms)"
    and claim_taken: "invar s \<Longrightarrow> snd (claim s ms) = snd (a_claim (view s) ms)"
    and attach_invar: "invar s \<Longrightarrow> invar (fst (attach s a ms))"
    and attach_view: "invar s \<Longrightarrow> view (fst (attach s a ms)) = fst (a_attach (view s) a ms)"
    and attach_taken: "invar s \<Longrightarrow> snd (attach s a ms) = snd (a_attach (view s) a ms)"
    and group_invar: "invar s \<Longrightarrow> invar (fst (group s i))"
    and group_view: "invar s \<Longrightarrow> view (fst (group s i)) = view s"
    and group_name: "invar s \<Longrightarrow> snd (group s i) = a_group (view s) i"
    and taken_view: "taken s i = a_claimed (view s) i"
begin

lemmas store_laws = claim_invar claim_view claim_taken attach_invar attach_view attach_taken
  group_invar group_view group_name

lemma claims_invar: "invar s \<Longrightarrow> invar (fold (\<lambda>ms s. fst (claim s ms)) mss s)"
  by (induction mss arbitrary: s) (simp_all add: claim_invar)

lemma claims_view:
  "invar s \<Longrightarrow> view (fold (\<lambda>ms s. fst (claim s ms)) mss s) = fold (\<lambda>ms P. fst (a_claim P ms)) mss (view s)"
  by (induction mss arbitrary: s) (simp_all add: claim_invar claim_view)

lemma attaches_invar: "invar s \<Longrightarrow> invar (fold (\<lambda>(a, ms) s. fst (attach s a ms)) ams s)"
  by (induction ams arbitrary: s) (auto simp: attach_invar)

lemma attaches_view:
  "invar s \<Longrightarrow> view (fold (\<lambda>(a, ms) s. fst (attach s a ms)) ams s)
     = fold (\<lambda>(a, ms) P. fst (a_attach P a ms)) ams (view s)"
  by (induction ams arbitrary: s) (auto simp: attach_invar attach_view)

end

interpretation store: partition_store valid abs_state Claim Attach Group_of Taken
  by unfold_locales (simp_all add: Claim_abs Attach_abs Group_of_abs Taken_def)

subsection \<open>What claims and attachments can change\<close>

definition coarser :: "(string \<rightharpoonup> string) \<Rightarrow> (string \<rightharpoonup> string) \<Rightarrow> bool" where
  "coarser R R' \<longleftrightarrow> dom R' = dom R \<and> (\<forall>x y. R x = R y \<longrightarrow> R' x = R' y)"

definition named_by_lowest :: "(string \<rightharpoonup> string) \<Rightarrow> bool" where
  "named_by_lowest R \<longleftrightarrow> (\<forall>i r. R i = Some r \<longrightarrow> r \<le> i \<and> R r = Some r)"

lemma coarser_refl [simp]: "coarser R R"
  by (simp add: coarser_def)

lemma coarserI:
  "dom R' = dom R \<Longrightarrow> (\<And>x y. R x = R y \<Longrightarrow> R' x = R' y) \<Longrightarrow> coarser R R'"
  unfolding coarser_def by blast

lemma coarserD: "coarser R R' \<Longrightarrow> R x = R y \<Longrightarrow> R' x = R' y" "coarser R R' \<Longrightarrow> dom R' = dom R"
  unfolding coarser_def by blast+

lemma coarser_trans: "coarser R R' \<Longrightarrow> coarser R' R'' \<Longrightarrow> coarser R R''"
  by (rule coarserI) (blast dest: coarserD)+

lemma coarser_merge_rep: "coarser R (merge_rep R a b)"
proof -
  have "dom (merge_rep R a b) = dom R" by (auto simp: dom_def merge_rep_def split: option.splits)
  moreover have "merge_rep R a b x = merge_rep R a b y" if "R x = R y" for x y
    using that by (simp add: merge_rep_def)
  ultimately show ?thesis by (rule coarserI)
qed

lemma merge_rep_joins:
  "R a \<noteq> None \<Longrightarrow> R b \<noteq> None \<Longrightarrow> merge_rep R a b a = merge_rep R a b b"
  by (auto simp: merge_rep_def)

lemma merge_rep_refl [simp]: "merge_rep R a a = R"
  by (auto simp: merge_rep_def fun_eq_iff split: option.splits)

lemma named_by_lowest_merge:
  assumes "named_by_lowest R" "R a \<noteq> None" "R b \<noteq> None"
  shows "named_by_lowest (merge_rep R a b)"
proof -
  obtain ra rb where r: "R a = Some ra" "R b = Some rb" using assms(2,3) by blast
  have lo: "R ra = Some ra" "R rb = Some rb" using assms(1) r by (auto simp: named_by_lowest_def)
  have min: "min ra rb \<in> {ra, rb}" by (auto simp: min_def)
  show ?thesis
    unfolding named_by_lowest_def
  proof (intro allI impI)
    fix i q
    assume q: "merge_rep R a b i = Some q"
    then obtain r' where r': "R i = Some r'" by (auto simp: merge_rep_def split: option.splits)
    have "r' \<le> i" "R r' = Some r'" using assms(1) r' by (auto simp: named_by_lowest_def)
    with q r' r lo min show "q \<le> i \<and> merge_rep R a b q = Some q"
      by (auto simp: merge_rep_def min_def split: if_splits)
  qed
qed

lemma fold_take_rep:
  assumes "a_rep P anchor \<noteq> None" "\<And>m. m \<in> set ms \<Longrightarrow> a_rep P (m_ID m) \<noteq> None"
  shows "coarser (a_rep P) (a_rep (fold (a_take anchor) ms P))"
    and "named_by_lowest (a_rep P) \<Longrightarrow> named_by_lowest (a_rep (fold (a_take anchor) ms P))"
    and "m \<in> set ms \<Longrightarrow> a_rep (fold (a_take anchor) ms P) (m_ID m) = a_rep (fold (a_take anchor) ms P) anchor"
proof -
  have "coarser (a_rep P) (a_rep (fold (a_take anchor) ms P))
    \<and> (named_by_lowest (a_rep P) \<longrightarrow> named_by_lowest (a_rep (fold (a_take anchor) ms P)))
    \<and> (\<forall>m \<in> set ms. a_rep (fold (a_take anchor) ms P) (m_ID m) = a_rep (fold (a_take anchor) ms P) anchor)"
    using assms
  proof (induction ms arbitrary: P)
    case (Cons m ms)
    let ?P = "a_take anchor m P" and ?Q = "fold (a_take anchor) ms (a_take anchor m P)"
    have IH: "coarser (a_rep ?P) (a_rep ?Q) \<and> (named_by_lowest (a_rep ?P) \<longrightarrow> named_by_lowest (a_rep ?Q))
      \<and> (\<forall>m \<in> set ms. a_rep ?Q (m_ID m) = a_rep ?Q anchor)"
      by (rule Cons.IH) (use Cons.prems in auto)
    have c: "coarser (a_rep P) (a_rep ?P)" by (simp add: coarser_merge_rep)
    have "a_rep ?P (m_ID m) = a_rep ?P anchor"
      using merge_rep_joins [of "a_rep P" anchor "m_ID m"] Cons.prems by simp
    with IH have "a_rep ?Q (m_ID m) = a_rep ?Q anchor" by (blast intro: coarserD)
    moreover have "coarser (a_rep P) (a_rep ?Q)" using c IH by (blast intro: coarser_trans)
    moreover have "named_by_lowest (a_rep P) \<longrightarrow> named_by_lowest (a_rep ?P)"
      using named_by_lowest_merge [of "a_rep P" anchor "m_ID m"] Cons.prems by simp
    ultimately show ?case using IH by simp
  qed simp
  then show "coarser (a_rep P) (a_rep (fold (a_take anchor) ms P))"
    "named_by_lowest (a_rep P) \<Longrightarrow> named_by_lowest (a_rep (fold (a_take anchor) ms P))"
    "m \<in> set ms \<Longrightarrow> a_rep (fold (a_take anchor) ms P) (m_ID m) = a_rep (fold (a_take anchor) ms P) anchor"
    by auto
qed

lemma fold_take_claimed:
  "a_claimed (fold (a_take anchor) ms P) i \<longleftrightarrow> a_claimed P i \<or> i \<in> m_ID ` set ms"
  by (induction ms arbitrary: P) auto

lemma fold_take_resolved_other:
  "i \<notin> m_ID ` set ms \<Longrightarrow> a_resolved (fold (a_take anchor) ms P) i = a_resolved P i"
  by (induction ms arbitrary: P) auto

lemma fold_take_resolved:
  "i \<in> m_ID ` set ms \<Longrightarrow>
     \<exists>m \<in> set ms. m_ID m = i \<and> a_resolved (fold (a_take anchor) ms P) i = Some (m_Resolved m)"
proof (induction ms arbitrary: P)
  case (Cons m ms)
  show ?case
  proof (cases "i \<in> m_ID ` set ms")
    case True
    with Cons.IH show ?thesis by fastforce
  next
    case False
    with Cons.prems show ?thesis by (auto simp: fold_take_resolved_other)
  qed
qed simp

text \<open>
  One operation of a rule on the partition, with the members a rule may put forward: a posting
  of the neighbourhood, resolved to what its declared set narrows to or admits.
\<close>

definition admissible :: "GroupingPosting list \<Rightarrow> string \<Rightarrow> TxType \<Rightarrow> bool" where
  "admissible ps i t \<longleftrightarrow> (\<exists>p \<in> set ps. p_ID p = i \<and> (t = Resolve (p_Declared p) \<or> MayBe (p_Declared p) [t]))"

inductive a_step :: "GroupingPosting list \<Rightarrow> APart \<Rightarrow> APart \<Rightarrow> bool" for ps where
  claim: "\<forall>m \<in> set ms. admissible ps (m_ID m) (m_Resolved m) \<Longrightarrow> a_step ps P (fst (a_claim P ms))"
| attach: "\<forall>m \<in> set ms. admissible ps (m_ID m) (m_Resolved m) \<Longrightarrow> a_step ps P (fst (a_attach P a ms))"

abbreviation a_steps :: "GroupingPosting list \<Rightarrow> APart \<Rightarrow> APart \<Rightarrow> bool" where
  "a_steps ps \<equiv> (a_step ps)\<^sup>*\<^sup>*"

text \<open>Everything a step keeps: a claim is irrevocable and groups only ever join.\<close>

definition extends :: "APart \<Rightarrow> APart \<Rightarrow> bool" where
  "extends P Q \<longleftrightarrow> coarser (a_rep P) (a_rep Q)
     \<and> (\<forall>i. a_claimed P i \<longrightarrow> a_claimed Q i \<and> a_resolved Q i = a_resolved P i)"

definition well_formed :: "GroupingPosting list \<Rightarrow> APart \<Rightarrow> bool" where
  "well_formed ps P \<longleftrightarrow> named_by_lowest (a_rep P)
     \<and> (\<forall>i. a_claimed P i \<longleftrightarrow> a_resolved P i \<noteq> None)
     \<and> (\<forall>i t. a_resolved P i = Some t \<longrightarrow> admissible ps i t)"

lemma extends_refl [simp]: "extends P P"
  by (simp add: extends_def)

lemma extends_trans: "extends P Q \<Longrightarrow> extends Q R \<Longrightarrow> extends P R"
  unfolding extends_def using coarser_trans by metis

lemma fold_take_extends:
  assumes "a_rep P anchor \<noteq> None"
    and "\<And>m. m \<in> set ms \<Longrightarrow> a_rep P (m_ID m) \<noteq> None \<and> \<not> a_claimed P (m_ID m)"
  shows "extends P (fold (a_take anchor) ms P)"
  unfolding extends_def using assms
  by (auto simp: fold_take_claimed fold_take_rep(1) intro!: fold_take_resolved_other)

lemma fold_take_well_formed:
  assumes "well_formed ps P" "a_rep P anchor \<noteq> None"
    and "\<And>m. m \<in> set ms \<Longrightarrow> a_rep P (m_ID m) \<noteq> None \<and> admissible ps (m_ID m) (m_Resolved m)"
  shows "well_formed ps (fold (a_take anchor) ms P)"
proof -
  let ?Q = "fold (a_take anchor) ms P"
  have "a_claimed ?Q i \<longleftrightarrow> a_resolved ?Q i \<noteq> None" for i
    using assms(1) fold_take_resolved [of i ms anchor P] fold_take_resolved_other [of i ms anchor P]
    by (cases "i \<in> m_ID ` set ms") (auto simp: fold_take_claimed well_formed_def)
  moreover have "admissible ps i t" if t: "a_resolved ?Q i = Some t" for i t
  proof (cases "i \<in> m_ID ` set ms")
    case True
    with fold_take_resolved [OF True, of anchor P] t assms(3) show ?thesis by fastforce
  next
    case False
    with t assms(1) show ?thesis by (auto simp: fold_take_resolved_other well_formed_def)
  qed
  ultimately show ?thesis using assms fold_take_rep(2) by (simp add: well_formed_def)
qed

lemma a_claim_hd:
  "snd (a_claim P ms) \<Longrightarrow> hd ms \<in> set ms \<and> fst (a_claim P ms) = fold (a_take (m_ID (hd ms))) ms P
     \<and> (\<forall>m \<in> set ms. a_rep P (m_ID m) \<noteq> None \<and> \<not> a_claimed P (m_ID m))"
  by (cases ms) (auto simp: a_claim_def split: if_splits)

lemma if_pair_refused: "\<not> snd (if c then (a, False) else (b, True)) \<Longrightarrow> fst (if c then (a, False) else (b, True)) = a"
  by (cases c) simp_all

lemma a_claim_refused: "\<not> snd (a_claim P ms) \<Longrightarrow> fst (a_claim P ms) = P"
  unfolding a_claim_def by (rule if_pair_refused)

lemma a_attach_accepted:
  "snd (a_attach P a ms) \<Longrightarrow> fst (a_attach P a ms) = fold (a_take a) ms P \<and> a_rep P a \<noteq> None
     \<and> (\<forall>m \<in> set ms. a_rep P (m_ID m) \<noteq> None \<and> m_ID m \<noteq> a \<and> \<not> a_claimed P (m_ID m))"
  by (auto simp: a_attach_def split: if_splits)

lemma a_attach_refused: "\<not> snd (a_attach P a ms) \<Longrightarrow> fst (a_attach P a ms) = P"
  unfolding a_attach_def by (rule if_pair_refused)

lemma a_claim_extends: "extends P (fst (a_claim P ms))"
  using a_claim_hd [of P ms] a_claim_refused [of P ms]
  by (cases "snd (a_claim P ms)") (auto intro!: fold_take_extends)

lemma a_attach_extends: "extends P (fst (a_attach P a ms))"
  using a_attach_accepted [of P a ms] a_attach_refused [of P a ms]
  by (cases "snd (a_attach P a ms)") (auto intro!: fold_take_extends)

lemma a_step_extends: "a_step ps P Q \<Longrightarrow> extends P Q"
  by (induction rule: a_step.induct) (rule a_claim_extends a_attach_extends)+

lemma a_step_well_formed: "a_step ps P Q \<Longrightarrow> well_formed ps P \<Longrightarrow> well_formed ps Q"
proof (induction rule: a_step.induct)
  case (claim ms P)
  then show ?case
    using a_claim_hd [of P ms] a_claim_refused [of P ms]
    by (cases "snd (a_claim P ms)") (auto intro!: fold_take_well_formed)
next
  case (attach ms P a)
  then show ?case
    using a_attach_accepted [of P a ms] a_attach_refused [of P a ms]
    by (cases "snd (a_attach P a ms)") (auto intro!: fold_take_well_formed)
qed

lemma a_steps_extends: "a_steps ps P Q \<Longrightarrow> extends P Q"
  by (induction rule: rtranclp.induct) (auto intro: extends_trans a_step_extends)

lemma a_steps_well_formed: "a_steps ps P Q \<Longrightarrow> well_formed ps P \<Longrightarrow> well_formed ps Q"
  by (induction rule: rtranclp.induct) (auto intro: a_step_well_formed)

subsection \<open>The initial state\<close>

abbreviation ids_of :: "GroupingPosting list \<Rightarrow> string set" where
  "ids_of ps \<equiv> p_ID ` set ps"

lemma newState_parent:
  "distinct (map fst m) \<Longrightarrow> (\<forall>k \<in> keys m. pget m k = k) \<Longrightarrow>
   (let m' = fold (\<lambda>p m. AList.update (p_ID p) (p_ID p) m) ps m in
     distinct (map fst m') \<and> keys m' = keys m \<union> ids_of ps \<and> (\<forall>k \<in> keys m'. pget m' k = k))"
proof (induction ps arbitrary: m)
  case (Cons p ps)
  let ?m = "AList.update (p_ID p) (p_ID p) m"
  have "distinct (map fst ?m)" using Cons.prems(1) by (rule distinct_update)
  moreover have "\<forall>k \<in> keys ?m. pget ?m k = k"
    using Cons.prems(2) unfolding keys_update pget_update by auto
  ultimately show ?case using Cons.IH [of ?m] by (simp only: fold_simps keys_update) (auto simp: Let_def)
qed simp

lemma newState_abs:
  "valid (newState ps)"
  "abs_state (newState ps) = \<lparr>a_rep = (\<lambda>i. if i \<in> ids_of ps then Some i else None),
     a_resolved = Map.empty, a_claimed = (\<lambda>_. False)\<rparr>"
proof -
  let ?s = "newState ps"
  have m: "distinct (map fst (s_parent ?s))" "keys (s_parent ?s) = ids_of ps"
    "\<forall>k \<in> ids_of ps. pget (s_parent ?s) k = k"
    using newState_parent [of "[]" ps] unfolding newState_def Let_def
    by (simp, simp, metis (no_types, lifting) State.select_convs(1) empty_iff image_empty list.set(1)
        list.simps(8) distinct.simps(1) sup_bot.left_neutral)
  show v: "valid ?s" using m by (auto simp: valid_def valid_parent_def descending_def)
  have k: "known ?s i \<longleftrightarrow> i \<in> ids_of ps" for i
    using m(2) by (simp add: known_def map_of_None_iff_keys)
  have "a_rep (abs_state ?s) i = (if i \<in> ids_of ps then Some i else None)" for i
  proof (cases "i \<in> ids_of ps")
    case True
    then have "root_of (pget (s_parent ?s)) i i" using m(3) by (intro root_of.here) blast
    with True k show ?thesis using a_rep_Some [OF v] by simp
  qed (use k in simp)
  then have "a_rep (abs_state ?s) = (\<lambda>i. if i \<in> ids_of ps then Some i else None)" by blast
  moreover have "s_resolved ?s = Map.empty" "s_claimed ?s = (\<lambda>_. False)"
    by (simp_all add: newState_def)
  ultimately show "abs_state ?s = \<lparr>a_rep = (\<lambda>i. if i \<in> ids_of ps then Some i else None),
     a_resolved = Map.empty, a_claimed = (\<lambda>_. False)\<rparr>"
    using abs_state_simps [of ?s] by (metis (full_types) APart.surjective unit.exhaust)
qed

lemma newState_well_formed: "well_formed ps (abs_state (newState ps'))"
  by (auto simp: newState_abs well_formed_def named_by_lowest_def)

lemma newState_dom: "dom (a_rep (abs_state (newState ps))) = ids_of ps"
  by (auto simp: newState_abs dom_def)

subsection \<open>Every state the engine can reach\<close>

text \<open>What a sequence of operations, of any rule and in any order, makes of a new partition.\<close>

inductive reachable :: "GroupingPosting list \<Rightarrow> State \<Rightarrow> bool" for ps where
  start: "reachable ps (newState ps)"
| claim: "reachable ps s \<Longrightarrow> reachable ps (fst (Claim s ms))"
| attach: "reachable ps s \<Longrightarrow> reachable ps (fst (Attach s anchor ms))"
| group: "reachable ps s \<Longrightarrow> reachable ps (fst (Group_of s i))"

definition sound_view :: "string set \<Rightarrow> APart \<Rightarrow> bool" where
  "sound_view D P \<longleftrightarrow> dom (a_rep P) = D \<and> named_by_lowest (a_rep P)
     \<and> (\<forall>i. a_claimed P i \<longleftrightarrow> a_resolved P i \<noteq> None) \<and> (\<forall>i. a_claimed P i \<longrightarrow> i \<in> D)"

lemma fold_take_sound:
  assumes "sound_view D P" "a_rep P anchor \<noteq> None" "\<And>m. m \<in> set ms \<Longrightarrow> a_rep P (m_ID m) \<noteq> None"
  shows "sound_view D (fold (a_take anchor) ms P)"
proof -
  let ?Q = "fold (a_take anchor) ms P"
  have c: "coarser (a_rep P) (a_rep ?Q)" by (rule fold_take_rep(1)) (use assms in auto)
  have "dom (a_rep ?Q) = D" using coarserD(2) [OF c] assms(1) by (simp add: sound_view_def)
  moreover have "named_by_lowest (a_rep ?Q)"
    by (rule fold_take_rep(2)) (use assms in \<open>auto simp: sound_view_def\<close>)
  moreover have "a_claimed ?Q i \<longleftrightarrow> a_resolved ?Q i \<noteq> None" for i
    using assms(1) fold_take_resolved [of i ms anchor P] fold_take_resolved_other [of i ms anchor P]
    by (cases "i \<in> m_ID ` set ms") (auto simp: fold_take_claimed sound_view_def)
  moreover have "a_claimed ?Q i \<longrightarrow> i \<in> D" for i
    using assms(1,3) by (auto simp: fold_take_claimed sound_view_def)
  ultimately show ?thesis by (simp add: sound_view_def)
qed

lemma a_claim_sound: "sound_view D P \<Longrightarrow> sound_view D (fst (a_claim P ms))"
  using a_claim_hd [of P ms] a_claim_refused [of P ms] fold_take_sound
  by (cases "snd (a_claim P ms)") auto

lemma a_attach_sound: "sound_view D P \<Longrightarrow> sound_view D (fst (a_attach P a ms))"
  using a_attach_accepted [of P a ms] a_attach_refused [of P a ms] fold_take_sound
  by (cases "snd (a_attach P a ms)") auto

lemma reachable_sound: "reachable ps s \<Longrightarrow> valid s \<and> sound_view (ids_of ps) (abs_state s)"
proof (induction rule: reachable.induct)
  case start
  show ?case by (auto simp: newState_abs sound_view_def dom_def named_by_lowest_def)
qed (auto simp: store.store_laws a_claim_sound a_attach_sound)

lemma reachable_known: "reachable ps s \<Longrightarrow> known s i \<longleftrightarrow> i \<in> ids_of ps"
  using reachable_sound [of ps s] by (metis a_rep_None domIff sound_view_def)

text \<open>
  C9. Every reachable state of the partition is sound: exactly the postings of the
  neighbourhood are known, each group is named by its lowest id, a posting is taken exactly
  when a resolved type was recorded for it, and looking a group up always returns: the code's
  loop, path compression included, ends with the group's name and changes nothing a rule can
  observe.
\<close>

theorem reachable_partition_sound:
  assumes "reachable ps s"
  shows "sound_view (ids_of ps) (abs_state s)
    \<and> (known s i \<longrightarrow> (\<exists>m r. find_loop (s_parent s) i = Some (m, r)
         \<and> find s i = (s\<lparr>s_parent := m\<rparr>, r) \<and> a_rep (abs_state s) i = Some r
         \<and> abs_state (s\<lparr>s_parent := m\<rparr>) = abs_state s))"
proof (intro conjI impI)
  have v: "valid s" using reachable_sound [OF assms] by simp
  show "sound_view (ids_of ps) (abs_state s)" using reachable_sound [OF assms] by simp
  assume k: "known s i"
  obtain s' r where f: "find s i = (s', r)" by fastforce
  note l = find_loop_find [OF _ k f] find_abs [OF v k f]
  have s': "s' = s\<lparr>s_parent := s_parent s'\<rparr>" using f by (auto simp: find_def split: prod.splits)
  with l f v show "\<exists>m r. find_loop (s_parent s) i = Some (m, r)
         \<and> find s i = (s\<lparr>s_parent := m\<rparr>, r) \<and> a_rep (abs_state s) i = Some r
         \<and> abs_state (s\<lparr>s_parent := m\<rparr>) = abs_state s"
    by (metis valid_def)
qed

text \<open>A posting for the examples, and two of its members.\<close>

definition sample :: "string \<Rightarrow> TxType list \<Rightarrow> decimal \<Rightarrow> GroupingPosting" where
  "sample i declared q = \<lparr>p_ID = i, p_UserID = ''u'', p_Broker = BROKER_UNSPECIFIED, p_Account = ''acc'',
     p_OrderDate = 0, p_InstrumentID = ''x'', p_Quantity = q, p_UnitPrice = None,
     p_SettlementAmount = None, p_Declared = declared, p_JobID = '''', p_GroupID = '''',
     p_Resolved = '''', p_Correlations = []\<rparr>"

lemma sample_sel [simp]:
  "p_ID (sample i d q) = i" "p_Declared (sample i d q) = d" "p_Quantity (sample i d q) = q"
  by (simp_all add: sample_def)

abbreviation two_samples :: "GroupingPosting list" where
  "two_samples \<equiv> [sample ''a'' [TRADE_ASSET] 1, sample ''b'' [TRADE_CASH] (- 1)]"

abbreviation two_members :: "Member list" where
  "two_members \<equiv> [\<lparr>m_ID = ''a'', m_Resolved = TRADE_ASSET\<rparr>,
     \<lparr>m_ID = ''b'', m_Resolved = TRADE_CASH\<rparr>]"

theorem reachable_partition_sound_witness:
  "sound_view {''a'', ''b''} (abs_state (fst (Claim (newState two_samples) two_members)))"
  using reachable_partition_sound [OF reachable.claim [OF reachable.start], of two_samples two_members]
  by simp



text \<open>
  \<open>Attach\<close> on a reachable state adds roles to a group without taking one: when it
  succeeds the attached members are taken and end in the anchor's group, and the anchor keeps
  exactly the roles it had; when it is refused nothing observable has changed.
\<close>

theorem Attach_keeps_the_anchor:
  assumes "reachable ps s" "Attach s anchor ms = (s', ok)"
  shows "(ok \<longleftrightarrow> ms \<noteq> [] \<and> known s anchor
            \<and> (\<forall>m \<in> set ms. known s (m_ID m) \<and> m_ID m \<noteq> anchor \<and> \<not> Taken s (m_ID m)))
    \<and> (\<not> ok \<longrightarrow> abs_state s' = abs_state s)
    \<and> (ok \<longrightarrow> extends (abs_state s) (abs_state s')
         \<and> Taken s' anchor = Taken s anchor \<and> s_resolved s' anchor = s_resolved s anchor
         \<and> (\<forall>m \<in> set ms. Taken s' (m_ID m)
              \<and> a_rep (abs_state s') (m_ID m) = a_rep (abs_state s') anchor))"
proof -
  let ?P = "abs_state s"
  have v: "valid s" using reachable_sound [OF assms(1)] by simp
  have s': "abs_state s' = fst (a_attach ?P anchor ms)" "ok = snd (a_attach ?P anchor ms)"
    using Attach_abs [OF v, of anchor ms] assms(2) by simp_all
  have ok: "ok \<longleftrightarrow> ms \<noteq> [] \<and> known s anchor
            \<and> (\<forall>m \<in> set ms. known s (m_ID m) \<and> m_ID m \<noteq> anchor \<and> \<not> Taken s (m_ID m))"
    unfolding s'(2) a_attach_def by (auto simp: Taken_def)
  show ?thesis
  proof (cases ok)
    case False
    then show ?thesis using ok s' a_attach_refused by auto
  next
    case True
    have h: "abs_state s' = fold (a_take anchor) ms ?P" "a_rep ?P anchor \<noteq> None"
      "\<And>m. m \<in> set ms \<Longrightarrow> a_rep ?P (m_ID m) \<noteq> None \<and> m_ID m \<noteq> anchor \<and> \<not> a_claimed ?P (m_ID m)"
      using a_attach_accepted [of ?P anchor ms] s' True by auto
    have S: "s_claimed s' i = a_claimed (fold (a_take anchor) ms ?P) i"
      "s_resolved s' i = a_resolved (fold (a_take anchor) ms ?P) i" for i
      using h(1) abs_state_simps by metis+
    have "anchor \<notin> m_ID ` set ms" using h(3) by blast
    moreover have "extends ?P (abs_state s')"
      unfolding h(1) by (rule fold_take_extends) (use h(2,3) in auto)
    moreover have "a_rep (abs_state s') (m_ID m) = a_rep (abs_state s') anchor" if "m \<in> set ms" for m
      unfolding h(1) by (rule fold_take_rep(3)) (use h(2,3) that in auto)
    moreover have "Taken s' i \<longleftrightarrow> Taken s i \<or> i \<in> m_ID ` set ms" for i
      by (simp add: Taken_def S fold_take_claimed)
    moreover have "s_resolved s' i = s_resolved s i" if "i \<notin> m_ID ` set ms" for i
      using that by (simp add: S fold_take_resolved_other)
    ultimately show ?thesis using True ok by blast
  qed
qed

theorem Attach_keeps_the_anchor_witness:
  "snd (Attach (newState two_samples) ''a'' (tl two_members))
     \<and> \<not> Taken (fst (Attach (newState two_samples) ''a'' (tl two_members))) ''a''"
  using Attach_keeps_the_anchor [OF reachable.start, of two_samples "''a''" "tl two_members", OF surjective_pairing]
  by (simp add: known_def newState_def Taken_def)

end
