(* ===== verification/Rule_Base.thy ===== *)
theory Rule_Base
  imports Grouping_State
begin

text \<open>
  What a grouping rule is: the reads it may make (\<open>TokenQuery\<close>, \<open>DateQuery\<close>,
  \<open>OrdinalQuery\<close>, \<open>GroupingReader\<close> of \<open>src/server/db/db.go\<close>), the \<open>Rule\<close> interface of
  \<open>src/server/grouping/grouping.go\<close> as a record of its four methods, and the locale
  \<open>grouping_rule\<close>: what the engine relies on of every rule's \<open>Apply\<close>. It moves the partition
  only by claims and attachments of admissible members, and what it does depends on neither
  the order of the postings nor anything of the state a rule cannot observe.

  The reader is the store's, so it is a parameter: a record of the three reads, each a function
  of its arguments that may fail with an error message.
\<close>

record TokenQuery =
  tq_Broker :: Broker
  tq_Account :: string
  tq_AnyAccount :: bool
  tq_Label :: string
  tq_Token :: string

record DateQuery =
  dq_Broker :: Broker
  dq_Account :: string
  dq_From :: time
  dq_Before :: time

record OrdinalQuery =
  oq_Broker :: Broker
  oq_Account :: string
  oq_Label :: string
  oq_Low :: int64
  oq_High :: int64

record GroupingReader =
  PostingsByToken :: "string \<Rightarrow> TokenQuery list \<Rightarrow> string list \<Rightarrow> string + GroupingPosting list"
  PostingsByDates :: "string \<Rightarrow> DateQuery list \<Rightarrow> string list \<Rightarrow> string + GroupingPosting list"
  PostingsByOrdinals :: "string \<Rightarrow> OrdinalQuery list \<Rightarrow> string list \<Rightarrow> string + GroupingPosting list"

type_synonym expander =
  "string \<Rightarrow> GroupingPosting list \<Rightarrow> GroupingReader \<Rightarrow> string list \<Rightarrow> string + GroupingPosting list"

type_synonym applier = "GroupingPosting list \<Rightarrow> State \<Rightarrow> Opts \<Rightarrow> State"

record Rule =
  r_Name :: string
  r_Precedence :: int
  r_Expand :: expander
  r_Apply :: applier

text \<open>\<open>distinct\<close> of the code.\<close>

definition distinct_queries :: "'a list \<Rightarrow> 'a list" where
  "distinct_queries xs = first_by (\<lambda>v. v) {} xs"

lemma distinct_queries_set [simp]: "set (distinct_queries xs) = set xs"
  by (simp add: distinct_queries_def set_first_by_inj)

lemma distinct_queries_distinct: "distinct (distinct_queries xs)"
  using distinct_first_by [of "\<lambda>v. v" "{}" xs] by (simp add: distinct_queries_def)

subsection \<open>States a rule cannot tell apart\<close>

definition sim :: "State \<Rightarrow> State \<Rightarrow> bool" where
  "sim s t \<longleftrightarrow> valid s \<and> valid t \<and> abs_state s = abs_state t"

lemma simD: "sim s t \<Longrightarrow> valid s" "sim s t \<Longrightarrow> valid t" "sim s t \<Longrightarrow> abs_state s = abs_state t"
  by (simp_all add: sim_def)

lemma sim_refl: "valid s \<Longrightarrow> sim s s"
  by (simp add: sim_def)

lemma sim_Taken: "sim s t \<Longrightarrow> Taken s i = Taken t i"
  using store.taken_view by (metis sim_def)

lemma sim_Claim: "sim s t \<Longrightarrow> sim (fst (Claim s ms)) (fst (Claim t ms))"
  by (simp add: sim_def store.store_laws)

lemma sim_Attach:
  "sim s t \<Longrightarrow> sim (fst (Attach s a ms)) (fst (Attach t a ms))"
  "sim s t \<Longrightarrow> snd (Attach s a ms) = snd (Attach t a ms)"
  by (simp_all add: sim_def store.store_laws)

lemma sim_Group:
  "sim s t \<Longrightarrow> sim (fst (Group_of s i)) (fst (Group_of t i))"
  "sim s t \<Longrightarrow> snd (Group_of s i) = snd (Group_of t i)"
  by (simp_all add: sim_def store.store_laws)

lemma sim_fold:
  assumes "\<And>x s t. x \<in> set xs \<Longrightarrow> sim s t \<Longrightarrow> sim (f x s) (g x t)" and "sim s t"
  shows "sim (fold f xs s) (fold g xs t)"
  using assms by (induction xs arbitrary: s t) auto

subsection \<open>What a rule may do to the partition\<close>

definition ok_run :: "GroupingPosting list \<Rightarrow> State \<Rightarrow> State \<Rightarrow> bool" where
  "ok_run ps s t \<longleftrightarrow> valid t \<and> a_steps ps (abs_state s) (abs_state t)"

lemma ok_run_refl: "valid s \<Longrightarrow> ok_run ps s s"
  by (simp add: ok_run_def)

lemma ok_run_trans: "ok_run ps s t \<Longrightarrow> ok_run ps t u \<Longrightarrow> ok_run ps s u"
  unfolding ok_run_def by (meson rtranclp_trans)

lemma ok_run_Claim:
  assumes "valid s" "\<And>m. m \<in> set ms \<Longrightarrow> admissible ps (m_ID m) (m_Resolved m)"
  shows "ok_run ps s (fst (Claim s ms))"
  using assms a_step.claim [of ms ps "abs_state s"]
  by (auto simp: ok_run_def store.store_laws intro: r_into_rtranclp)

lemma ok_run_Attach:
  assumes "valid s" "\<And>m. m \<in> set ms \<Longrightarrow> admissible ps (m_ID m) (m_Resolved m)"
  shows "ok_run ps s (fst (Attach s a ms))"
  using assms a_step.attach [of ms ps "abs_state s" a]
  by (auto simp: ok_run_def store.store_laws intro: r_into_rtranclp)

lemma extends_known: "extends (abs_state s) (abs_state t) \<Longrightarrow> known t i = known s i"
proof -
  assume "extends (abs_state s) (abs_state t)"
  then have "i \<in> dom (a_rep (abs_state t)) \<longleftrightarrow> i \<in> dom (a_rep (abs_state s))"
    unfolding extends_def coarser_def by simp
  then show ?thesis by (simp add: domIff)
qed

lemma ok_run_extends: "ok_run ps s t \<Longrightarrow> extends (abs_state s) (abs_state t)"
  unfolding ok_run_def by (blast intro: a_steps_extends)

lemma ok_run_known: "ok_run ps s t \<Longrightarrow> known t i = known s i"
  by (rule extends_known) (rule ok_run_extends)

lemma ok_run_same: "valid t \<Longrightarrow> abs_state t = abs_state s \<Longrightarrow> ok_run ps s t"
  by (simp add: ok_run_def)

lemma ok_run_fold:
  assumes "\<And>x s. x \<in> set xs \<Longrightarrow> valid s \<Longrightarrow> ok_run ps s (f x s)" and "valid s"
  shows "ok_run ps s (fold f xs s)"
  using assms
proof (induction xs arbitrary: s)
  case (Cons x xs)
  then have 1: "ok_run ps s (f x s)" by simp
  then have "ok_run ps (f x s) (fold f xs (f x s))" using Cons by (simp add: ok_run_def)
  with 1 show ?case by (auto intro: ok_run_trans)
qed (simp add: ok_run_refl)

text \<open>Who took a posting: the step of a fold, and the members of the claim beside it.\<close>

lemma fold_newly_taken:
  assumes "\<And>x s. x \<in> set xs \<Longrightarrow> valid s \<Longrightarrow> ok_run ps s (f x s)" "valid s"
    and "Taken (fold f xs s) i" "\<not> Taken s i"
  shows "\<exists>x \<in> set xs. \<exists>t. valid t \<and> ok_run ps s t \<and> \<not> Taken t i \<and> Taken (f x t) i
    \<and> ok_run ps (f x t) (fold f xs s)"
  using assms
proof (induction xs arbitrary: s)
  case (Cons x xs)
  have x: "ok_run ps s (f x s)" using Cons.prems(1,2) by simp
  then have v: "valid (f x s)" by (simp add: ok_run_def)
  show ?case
  proof (cases "Taken (f x s) i")
    case True
    have "ok_run ps (f x s) (fold f xs (f x s))" by (rule ok_run_fold [OF _ v]) (use Cons.prems(1) in auto)
    with True Cons.prems(2,4) show ?thesis by (intro bexI [of _ x] exI [of _ s]) (auto intro: ok_run_refl)
  next
    case False
    then obtain y t where y: "y \<in> set xs" "valid t" "ok_run ps (f x s) t" "\<not> Taken t i" "Taken (f y t) i"
      "ok_run ps (f y t) (fold f xs (f x s))"
      using Cons.IH [of "f x s"] Cons.prems(1,3) v by auto
    then have "ok_run ps s t" using ok_run_trans [OF x] by blast
    with y show ?thesis by auto
  qed
qed simp

lemma Claim_newly_taken:
  assumes "valid s" "Taken (fst (Claim s ms)) i" "\<not> Taken s i"
  shows "i \<in> m_ID ` set ms" "2 \<le> length ms"
    and "\<And>m. m \<in> set ms \<Longrightarrow> \<not> Taken s (m_ID m) \<and> Taken (fst (Claim s ms)) (m_ID m)
      \<and> a_rep (abs_state (fst (Claim s ms))) (m_ID m) = a_rep (abs_state (fst (Claim s ms))) (m_ID (hd ms))"
proof -
  let ?P = "abs_state s" and ?t = "fst (Claim s ms)"
  let ?Q = "fold (a_take (m_ID (hd ms))) ms ?P"
  have view: "abs_state ?t = fst (a_claim ?P ms)" by (simp add: store.claim_view assms(1))
  have ok: "snd (a_claim ?P ms)"
  proof (rule ccontr)
    assume "\<not> snd (a_claim ?P ms)"
    then have "abs_state ?t = ?P" using view a_claim_refused by metis
    with assms(2,3) show False by (simp add: store.taken_view del: abs_state_simps)
  qed
  note h = a_claim_hd [OF ok]
  have Q: "abs_state ?t = ?Q" using h view by simp
  have T: "Taken ?t j \<longleftrightarrow> Taken s j \<or> j \<in> m_ID ` set ms" for j
    using fold_take_claimed [of "m_ID (hd ms)" ms ?P j]
    by (simp add: store.taken_view Q del: abs_state_simps)
  show "i \<in> m_ID ` set ms" using T assms(2,3) by simp
  show "2 \<le> length ms" using ok by (auto simp: a_claim_def not_less split: if_splits)
  show "\<not> Taken s (m_ID m) \<and> Taken ?t (m_ID m) \<and> a_rep (abs_state ?t) (m_ID m) = a_rep (abs_state ?t) (m_ID (hd ms))"
    if "m \<in> set ms" for m
    using that h T fold_take_rep(3) [of ?P "m_ID (hd ms)" ms m]
    by (auto simp: Q store.taken_view simp del: abs_state_simps)
qed

lemma Attach_newly_taken:
  assumes "valid s" "Taken (fst (Attach s a ms)) i" "\<not> Taken s i"
  shows "i \<in> m_ID ` set ms" "known s a"
    and "\<And>m. m \<in> set ms \<Longrightarrow> \<not> Taken s (m_ID m) \<and> Taken (fst (Attach s a ms)) (m_ID m)
      \<and> a_rep (abs_state (fst (Attach s a ms))) (m_ID m) = a_rep (abs_state (fst (Attach s a ms))) a"
proof -
  let ?P = "abs_state s" and ?t = "fst (Attach s a ms)"
  let ?Q = "fold (a_take a) ms ?P"
  have view: "abs_state ?t = fst (a_attach ?P a ms)" by (simp add: store.attach_view assms(1))
  have ok: "snd (a_attach ?P a ms)"
  proof (rule ccontr)
    assume "\<not> snd (a_attach ?P a ms)"
    then have "abs_state ?t = ?P" using view a_attach_refused by metis
    with assms(2,3) show False by (simp add: store.taken_view del: abs_state_simps)
  qed
  note h = a_attach_accepted [OF ok]
  have Q: "abs_state ?t = ?Q" using h view by simp
  have T: "Taken ?t j \<longleftrightarrow> Taken s j \<or> j \<in> m_ID ` set ms" for j
    using fold_take_claimed [of a ms ?P j]
    by (simp add: store.taken_view Q del: abs_state_simps)
  show "i \<in> m_ID ` set ms" using T assms(2,3) by simp
  show "known s a" using h by simp
  show "\<not> Taken s (m_ID m) \<and> Taken ?t (m_ID m) \<and> a_rep (abs_state ?t) (m_ID m) = a_rep (abs_state ?t) a"
    if "m \<in> set ms" for m
    using that h T fold_take_rep(3) [of ?P a ms m]
    by (auto simp: Q store.taken_view simp del: abs_state_simps)
qed

lemma admissible_Resolve: "p \<in> set ps \<Longrightarrow> admissible ps (p_ID p) (Resolve (p_Declared p))"
  by (auto simp: admissible_def)

lemma admissible_MayBe: "p \<in> set ps \<Longrightarrow> MayBe (p_Declared p) [t] \<Longrightarrow> admissible ps (p_ID p) t"
  by (auto simp: admissible_def)

subsection \<open>The contract of a rule\<close>

text \<open>The engine's input: every posting once, under an id of its own that is not empty.\<close>

definition proper :: "GroupingPosting list \<Rightarrow> bool" where
  "proper ps \<longleftrightarrow> distinct (map p_ID ps) \<and> '''' \<notin> ids_of ps"

lemma proper_inj: "proper ps \<Longrightarrow> inj_on p_ID (set ps)"
  by (simp add: proper_def distinct_map)

lemma proper_perm: "mset ps = mset ps' \<Longrightarrow> proper ps = proper ps'"
  by (metis mset_eq_imp_distinct_iff mset_eq_setD mset_map proper_def)

lemma sort_ids_perm:
  assumes "mset xs = mset ys" "inj_on p_ID (set xs)"
  shows "go_sort (\<lambda>a b. p_ID a < p_ID b) xs = go_sort (\<lambda>a b. p_ID a < p_ID b) ys"
  by (rule go_sort_perm [OF assms(1) _ assms(2)]) (rule refl)

locale grouping_rule =
  fixes run :: applier
  assumes run_ok: "valid s \<Longrightarrow> ok_run ps s (run ps s opts)"
    and run_sim: "proper ps \<Longrightarrow> mset ps = mset ps' \<Longrightarrow> sim s t \<Longrightarrow> sim (run ps s opts) (run ps' t opts)"
begin

lemma run_valid: "valid s \<Longrightarrow> valid (run ps s opts)"
  using run_ok by (simp add: ok_run_def)

lemma run_extends: "valid s \<Longrightarrow> extends (abs_state s) (abs_state (run ps s opts))"
  using run_ok by (rule ok_run_extends)

lemma run_keeps_taken:
  "valid s \<Longrightarrow> Taken s i \<Longrightarrow> Taken (run ps s opts) i \<and> s_resolved (run ps s opts) i = s_resolved s i"
  using run_extends [of s ps opts] by (simp add: extends_def Taken_def)

lemma run_keeps_together:
  "valid s \<Longrightarrow> a_rep (abs_state s) i = a_rep (abs_state s) j \<Longrightarrow>
     a_rep (abs_state (run ps s opts)) i = a_rep (abs_state (run ps s opts)) j"
  using run_extends [of s ps opts] by (auto simp: extends_def dest: coarserD)

end

end
