(* ===== verification/Rule_Token.thy ===== *)
theory Rule_Token
  imports Rule_Base
begin

text \<open>
  The two rules that read correlation tokens, \<open>src/server/grouping/exact.go\<close> and
  \<open>src/server/grouping/attaches.go\<close>: \<open>Exact\<close> groups the postings that carry one token,
  \<open>Attaches\<close> adds a posting to the group of the posting its token names. Both compare tokens
  under \<open>keyFor\<close>. A Go \<open>continue\<close> is the condition of a list comprehension, and the loop
  over correlations that \<open>Attaches\<close> leaves with \<open>break\<close> is \<open>attach_first\<close>.
\<close>

definition ExactPrecedence :: int where "ExactPrecedence = 1000"
definition AttachesPrecedence :: int where "AttachesPrecedence = 500"

record tokenKey =
  k_label :: string
  k_token :: string
  k_scope :: string
  k_within :: string

definition tokenKey_less :: "tokenKey \<Rightarrow> tokenKey \<Rightarrow> bool" where
  "tokenKey_less k o' =
     (if k_label k \<noteq> k_label o' then k_label k < k_label o'
      else if k_token k \<noteq> k_token o' then k_token k < k_token o'
      else if k_scope k \<noteq> k_scope o' then k_scope k < k_scope o'
      else k_within k < k_within o')"

definition brokerKey :: "Broker \<Rightarrow> string" where
  "brokerKey b = enum_String Broker_name b"

definition keyFor :: "GroupingPosting \<Rightarrow> string \<Rightarrow> string \<Rightarrow> string \<Rightarrow> tokenKey" where
  "keyFor p label token scope =
     \<lparr>k_label = label, k_token = token, k_scope = scope,
      k_within = (if scope = ScopeFile then p_JobID p
                  else if scope = ScopeAccount then brokerKey (p_Broker p) @ [CHR 0x00] @ p_Account p
                  else if scope = ScopeBroker then brokerKey (p_Broker p)
                  else '''')\<rparr>"

abbreviation corrKey :: "GroupingPosting \<Rightarrow> Correlation \<Rightarrow> tokenKey" where
  "corrKey p c \<equiv> keyFor p (c_Label c) (c_Token c) (c_Scope c)"

definition dedupe :: "GroupingPosting list \<Rightarrow> GroupingPosting list" where
  "dedupe ps = go_sort (\<lambda>a b. p_ID a < p_ID b) (first_by p_ID {} ps)"

text \<open>The reads of both rules: one token query per correlation that declares the match.\<close>

definition token_queries :: "string \<Rightarrow> GroupingPosting list \<Rightarrow> TokenQuery list" where
  "token_queries match ps =
     concat (map (\<lambda>p. map (\<lambda>c. \<lparr>tq_Broker = p_Broker p, tq_Account = p_Account p,
         tq_AnyAccount = (c_Scope c \<noteq> ScopeAccount), tq_Label = c_Label c, tq_Token = c_Token c\<rparr>)
       (filter (\<lambda>c. Declares c match) (p_Correlations p))) ps)"

definition Exact_Expand :: expander where
  "Exact_Expand userID ps r held =
     (let qs = token_queries MatchExact ps in
      if qs = [] then Inr [] else PostingsByToken r userID (distinct_queries qs) held)"

definition Attaches_Expand :: expander where
  "Attaches_Expand userID ps r held =
     (let qs = token_queries MatchAttaches ps in
      if qs = [] then Inr [] else PostingsByToken r userID (distinct_queries qs) held)"

subsection \<open>Exact\<close>

text \<open>Every token of every posting still free, under its key, as \<open>byToken\<close> is filled.\<close>

definition exact_entries :: "GroupingPosting list \<Rightarrow> State \<Rightarrow> (tokenKey \<times> GroupingPosting) list" where
  "exact_entries ps st =
     concat (map (\<lambda>p. map (\<lambda>c. (corrKey p c, p)) (filter (\<lambda>c. Declares c MatchExact) (p_Correlations p)))
       (filter (\<lambda>p. \<not> Taken st (p_ID p)) ps))"

definition claim_group :: "GroupingPosting list \<Rightarrow> State \<Rightarrow> State" where
  "claim_group grp st =
     (if length grp < 2 then st
      else fst (Claim st (map (\<lambda>p. \<lparr>m_ID = p_ID p, m_Resolved = Resolve (p_Declared p)\<rparr>) grp)))"

definition Exact_Apply :: applier where
  "Exact_Apply ps st opts =
     (let byToken = mm_build (exact_entries ps st);
          keys = go_sort tokenKey_less (map fst byToken)
      in fold (\<lambda>k. claim_group (dedupe (mm_get byToken k))) keys st)"

definition Exact :: Rule where
  "Exact = \<lparr>r_Name = ''exact'', r_Precedence = ExactPrecedence, r_Expand = Exact_Expand,
     r_Apply = Exact_Apply\<rparr>"

subsection \<open>Attaches\<close>

definition carrier_entries :: "GroupingPosting list \<Rightarrow> (tokenKey \<times> string) list" where
  "carrier_entries ps =
     concat (map (\<lambda>p. map (\<lambda>c. (corrKey p c, p_ID p)) (filter (\<lambda>c. Declares c MatchExact) (p_Correlations p))) ps)"

fun anchor_loop :: "string list \<Rightarrow> string \<Rightarrow> string \<Rightarrow> string \<Rightarrow> State \<Rightarrow> State \<times> string \<times> bool" where
  "anchor_loop [] bearerID anchor grp st = (st, anchor, anchor \<noteq> '''')"
| "anchor_loop (i # is) bearerID anchor grp st =
     (if i = bearerID then anchor_loop is bearerID anchor grp st
      else let (st, g) = Group_of st i in
        if anchor = '''' then anchor_loop is bearerID i g st
        else if g \<noteq> grp then (st, '''', False)
        else if i < anchor then anchor_loop is bearerID i grp st
        else anchor_loop is bearerID anchor grp st)"

definition anchorOf :: "string list \<Rightarrow> string \<Rightarrow> State \<Rightarrow> State \<times> string \<times> bool" where
  "anchorOf carrierIDs bearerID st = anchor_loop carrierIDs bearerID '''' '''' st"

fun attach_first :: "(tokenKey \<times> string list) list \<Rightarrow> GroupingPosting \<Rightarrow> Correlation list \<Rightarrow> State \<Rightarrow> State" where
  "attach_first carriers p [] st = st"
| "attach_first carriers p (c # cs) st =
     (if \<not> Declares c MatchAttaches then attach_first carriers p cs st
      else let (st, anchor, ok) = anchorOf (mm_get carriers (corrKey p c)) (p_ID p) st in
        if \<not> ok then attach_first carriers p cs st
        else let (st, taken) = Attach st anchor [\<lparr>m_ID = p_ID p, m_Resolved = Resolve (p_Declared p)\<rparr>] in
          if taken then st else attach_first carriers p cs st)"

definition Attaches_Apply :: applier where
  "Attaches_Apply ps st opts =
     (let carriers = mm_build (carrier_entries ps);
          bearers = go_sort (\<lambda>a b. p_ID a < p_ID b) (filter (\<lambda>p. \<not> Taken st (p_ID p)) ps)
      in fold (\<lambda>p. attach_first carriers p (p_Correlations p)) bearers st)"

definition Attaches :: Rule where
  "Attaches = \<lparr>r_Name = ''attaches'', r_Precedence = AttachesPrecedence, r_Expand = Attaches_Expand,
     r_Apply = Attaches_Apply\<rparr>"

subsection \<open>Orders\<close>

lemma tokenKey_less_key:
  "tokenKey_less a b \<longleftrightarrow> (k_label a, k_token a, k_scope a, k_within a) < (k_label b, k_token b, k_scope b, k_within b)"
  by (auto simp: tokenKey_less_def less_prod_def')

lemma tokenKey_key_inj: "inj_on (\<lambda>k :: tokenKey. (k_label k, k_token k, k_scope k, k_within k)) A"
  by (rule inj_onI) (simp add: tokenKey.equality)



lemma dedupe_perm:
  assumes "set xs = set ys" "inj_on p_ID (set xs)"
  shows "dedupe xs = dedupe ys"
proof -
  have s: "set (first_by p_ID {} xs) = set xs" "set (first_by p_ID {} ys) = set ys"
    using assms by (simp_all add: set_first_by_inj)
  moreover have "distinct (first_by p_ID {} xs)" "distinct (first_by p_ID {} ys)"
    using distinct_first_by distinct_map by blast+
  ultimately have "mset (first_by p_ID {} xs) = mset (first_by p_ID {} ys)"
    using assms(1) by (metis set_eq_iff_mset_eq_distinct)
  then show ?thesis unfolding dedupe_def by (rule sort_ids_perm) (simp add: s(1) assms(2))
qed

lemma set_dedupe: "set (dedupe xs) \<subseteq> set xs"
  using set_first_by [of p_ID "{}" xs] by (auto simp: dedupe_def)

lemma set_dedupe_inj: "inj_on p_ID (set xs) \<Longrightarrow> set (dedupe xs) = set xs"
  by (simp add: dedupe_def set_first_by_inj)

lemma distinct_dedupe: "distinct (map p_ID (dedupe xs))"
proof -
  have "mset (map p_ID (dedupe xs)) = mset (map p_ID (first_by p_ID {} xs))"
    by (simp add: dedupe_def)
  then show ?thesis using distinct_first_by mset_eq_imp_distinct_iff by blast
qed

subsection \<open>Exact keeps the contract\<close>

lemma set_exact_entries:
  "(k, p) \<in> set (exact_entries ps st) \<longleftrightarrow> p \<in> set ps \<and> \<not> Taken st (p_ID p)
     \<and> (\<exists>c \<in> set (p_Correlations p). Declares c MatchExact \<and> corrKey p c = k)"
  by (auto simp: exact_entries_def)

lemma set_exact_group:
  "p \<in> set (mm_get (mm_build (exact_entries ps st)) k) \<longleftrightarrow> (k, p) \<in> set (exact_entries ps st)"
  by (force simp: mm_get_build)

lemma claim_group_ok: "set grp \<subseteq> set ps \<Longrightarrow> valid s \<Longrightarrow> ok_run ps s (claim_group grp s)"
proof (cases "length grp < 2")
  case False
  assume sub: "set grp \<subseteq> set ps" and v: "valid s"
  let ?ms = "map (\<lambda>p. \<lparr>m_ID = p_ID p, m_Resolved = Resolve (p_Declared p)\<rparr>) grp"
  have "ok_run ps s (fst (Claim s ?ms))"
  proof (rule ok_run_Claim [OF v])
    fix m assume "m \<in> set ?ms"
    then obtain p where "p \<in> set grp" "m = \<lparr>m_ID = p_ID p, m_Resolved = Resolve (p_Declared p)\<rparr>" by auto
    with sub show "admissible ps (m_ID m) (m_Resolved m)" by (auto simp: admissible_Resolve subsetD)
  qed
  with False show ?thesis by (simp add: claim_group_def)
qed (simp add: claim_group_def ok_run_refl)

lemma claim_group_sim: "sim s t \<Longrightarrow> sim (claim_group grp s) (claim_group grp t)"
  by (simp add: claim_group_def sim_Claim)

lemma exact_entries_perm:
  assumes "mset ps = mset ps'" "sim s t"
  shows "mset (exact_entries ps s) = mset (exact_entries ps' t)"
proof -
  have "mset (filter (\<lambda>p. \<not> Taken s (p_ID p)) ps) = mset (filter (\<lambda>p. \<not> Taken t (p_ID p)) ps')"
    using assms(1) sim_Taken [OF assms(2)] by simp
  then show ?thesis unfolding exact_entries_def by (rule mset_concat_map_perm)
qed

lemma Exact_Apply_sim:
  assumes "proper ps" "mset ps = mset ps'" "sim s t"
  shows "sim (Exact_Apply ps s opts) (Exact_Apply ps' t opts)"
proof -
  let ?m = "mm_build (exact_entries ps s)" and ?m' = "mm_build (exact_entries ps' t)"
  note perm = exact_entries_perm [OF assms(2,3)]
  have keys: "go_sort tokenKey_less (map fst ?m) = go_sort tokenKey_less (map fst ?m')"
    by (rule go_sort_perm [OF mm_keys_perm [OF perm] tokenKey_less_key tokenKey_key_inj])
  have "dedupe (mm_get ?m k) = dedupe (mm_get ?m' k)" for k
  proof (rule dedupe_perm)
    show "set (mm_get ?m k) = set (mm_get ?m' k)" using mset_eq_setD [OF mm_get_perm [OF perm]] .
    have "set (mm_get ?m k) \<subseteq> set ps" by (auto simp: set_exact_group set_exact_entries)
    then show "inj_on p_ID (set (mm_get ?m k))" using proper_inj [OF assms(1)] inj_on_subset by blast
  qed
  then show ?thesis
    unfolding Exact_Apply_def Let_def keys by (intro sim_fold assms(3)) (simp add: claim_group_sim)
qed

lemma Exact_Apply_ok: "valid s \<Longrightarrow> ok_run ps s (Exact_Apply ps s opts)"
  unfolding Exact_Apply_def Let_def
proof (rule ok_run_fold, rule claim_group_ok)
  fix k
  show "set (dedupe (mm_get (mm_build (exact_entries ps s)) k)) \<subseteq> set ps"
    using set_dedupe [of "mm_get (mm_build (exact_entries ps s)) k"]
    by (auto simp: set_exact_group set_exact_entries)
qed

interpretation exact: grouping_rule Exact_Apply
  by unfold_locales (rule Exact_Apply_ok Exact_Apply_sim; assumption)+

subsection \<open>Attaches keeps the contract\<close>

lemma anchor_loop_view:
  "valid st \<Longrightarrow> valid (fst (anchor_loop is b anchor grp st))
     \<and> abs_state (fst (anchor_loop is b anchor grp st)) = abs_state st"
proof (induction "is" arbitrary: anchor grp st)
  case (Cons i "is")
  obtain st' g where G: "Group_of st i = (st', g)" by fastforce
  have v: "valid st'" "abs_state st' = abs_state st"
    using store.group_invar [OF Cons.prems, of i] store.group_view [OF Cons.prems, of i] G by simp_all
  show ?case using Cons.IH [OF v(1)] Cons.IH [OF Cons.prems] v G by simp
qed simp

lemma Min_insert_two:
  fixes a :: "'a::linorder"
  shows "finite S \<Longrightarrow> Min (insert a (insert i S)) = Min (insert (if i < a then i else a) S)"
  by (cases "S = {}") (auto simp: min_def)

lemma anchor_loop_result:
  assumes "valid st" "anchor \<noteq> ''''" "'''' \<notin> set is"
  shows "snd (anchor_loop is b anchor grp st) =
    (if \<forall>i \<in> set is. i \<noteq> b \<longrightarrow> a_group (abs_state st) i = grp
     then (Min (insert anchor {i \<in> set is. i \<noteq> b}), True) else ('''', False))"
  using assms
proof (induction "is" arbitrary: anchor st)
  case (Cons i "is")
  obtain st' g where G: "Group_of st i = (st', g)" by fastforce
  have v: "valid st'" "abs_state st' = abs_state st" "g = a_group (abs_state st) i"
    using store.group_invar [OF Cons.prems(1), of i] store.group_view [OF Cons.prems(1), of i]
      store.group_name [OF Cons.prems(1), of i] G by simp_all
  have i: "i \<noteq> ''''" "'''' \<notin> set is" using Cons.prems(3) by auto
  note IH = Cons.IH [OF v(1) _ i(2)] Cons.IH [OF Cons.prems(1,2) i(2)]
  let ?S = "{j \<in> set is. j \<noteq> b}"

  have min: "Min (insert anchor (insert i ?S)) = Min (insert (if i < anchor then i else anchor) ?S)"
    by (rule Min_insert_two) simp
  show ?case
  proof (cases "i = b")
    case True
    then have "{j \<in> set (i # is). j \<noteq> b} = ?S" by auto
    then show ?thesis using IH(2) True by (simp del: set_simps) auto
  next
    case False
    then have S: "{j \<in> set (i # is). j \<noteq> b} = insert i ?S" by auto
    show ?thesis
      unfolding S min using False Cons.prems(2) IH(1) [of anchor] IH(1) [of i] i(1) v(2,3) G
      by simp blast
  qed
qed simp

lemma anchorOf_view:
  "valid st \<Longrightarrow> valid (fst (anchorOf cs b st))" "valid st \<Longrightarrow> abs_state (fst (anchorOf cs b st)) = abs_state st"
  by (simp_all add: anchorOf_def anchor_loop_view)

text \<open>The pointer's target: the lowest carrier when all the others are in one group.\<close>

definition the_anchor :: "(string \<Rightarrow> string) \<Rightarrow> string set \<Rightarrow> string \<times> bool" where
  "the_anchor G S = (if S = {} \<or> (\<exists>i \<in> S. \<exists>j \<in> S. G i \<noteq> G j) then ('''', False) else (Min S, True))"

lemma anchorOf_result:
  assumes "valid st" "'''' \<notin> set cs"
  shows "snd (anchorOf cs b st) = the_anchor (a_group (abs_state st)) {i \<in> set cs. i \<noteq> b}"
  unfolding anchorOf_def using assms
proof (induction cs arbitrary: st)
  case (Cons i cs)
  let ?S = "{j \<in> set cs. j \<noteq> b}" and ?G = "a_group (abs_state st)"
  show ?case
  proof (cases "i = b")
    case True
    then have "{j \<in> set (i # cs). j \<noteq> b} = ?S" by auto
    then show ?thesis using Cons True by (simp del: set_simps) simp
  next
    case False
    obtain st' g where G: "Group_of st i = (st', g)" by fastforce
    have v: "valid st'" "abs_state st' = abs_state st" "g = ?G i"
      using store.group_invar [OF Cons.prems(1), of i] store.group_view [OF Cons.prems(1), of i]
        store.group_name [OF Cons.prems(1), of i] G by simp_all
    have i: "i \<noteq> ''''" "'''' \<notin> set cs" using Cons.prems(2) by auto
    have set: "{j \<in> set (i # cs). j \<noteq> b} = insert i ?S" using False by auto
    have "snd (anchor_loop (i # cs) b '''' '''' st) = snd (anchor_loop cs b i (?G i) st')"
      using False G v(3) by simp
    also have "\<dots> = the_anchor ?G (insert i ?S)"
      unfolding anchor_loop_result [OF v(1) i] v(2) the_anchor_def by auto
    finally show ?thesis unfolding set .
  qed
qed (simp add: the_anchor_def)

lemma the_anchor_in: "the_anchor G S = (a, True) \<Longrightarrow> finite S \<Longrightarrow> a \<in> S"
  by (metis Min_in Pair_inject the_anchor_def)

lemma attach_first_ok:
  "p \<in> set ps \<Longrightarrow> valid st \<Longrightarrow> ok_run ps st (attach_first carriers p cs st)"
proof (induction cs arbitrary: st)
  case (Cons c cs)
  obtain st1 a ok where A: "anchorOf (mm_get carriers (corrKey p c)) (p_ID p) st = (st1, a, ok)"
    by (metis surj_pair)
  let ?ms = "[\<lparr>m_ID = p_ID p, m_Resolved = Resolve (p_Declared p)\<rparr>]"
  obtain st2 taken where T: "Attach st1 a ?ms = (st2, taken)" by fastforce
  have 1: "valid st1" "ok_run ps st st1"
    using anchorOf_view [OF Cons.prems(2), of "mm_get carriers (corrKey p c)" "p_ID p"] A
    by (auto intro: ok_run_same)
  have 2: "ok_run ps st1 st2"
    using ok_run_Attach [OF 1(1), of ?ms ps a] T Cons.prems(1) by (simp add: admissible_Resolve)
  then have v2: "valid st2" by (simp add: ok_run_def)
  note IH = Cons.IH [OF Cons.prems(1)]
  show ?case
    using A T IH [OF Cons.prems(2)] ok_run_trans [OF 1(2) IH [OF 1(1)]]
      ok_run_trans [OF 1(2) 2] ok_run_trans [OF ok_run_trans [OF 1(2) 2] IH [OF v2]]
    by simp
qed (simp add: ok_run_refl)

lemma anchorOf_sim:
  assumes "sim s t" "set cs = set cs'" "'''' \<notin> set cs"
  shows "sim (fst (anchorOf cs b s)) (fst (anchorOf cs' b t)) \<and> snd (anchorOf cs b s) = snd (anchorOf cs' b t)"
proof -
  note s = simD [OF assms(1)]
  have "snd (anchorOf cs b s) = snd (anchorOf cs' b t)"
    using anchorOf_result [OF s(1), of cs b] anchorOf_result [OF s(2), of cs' b] assms(2,3) s(3) by simp
  moreover have "sim (fst (anchorOf cs b s)) (fst (anchorOf cs' b t))"
    using s anchorOf_view [OF s(1)] anchorOf_view [OF s(2)] by (simp add: sim_def)
  ultimately show ?thesis by simp
qed

lemma attach_first_sim:
  assumes "\<And>k. set (mm_get m k) = set (mm_get m' k)" "\<And>k. '''' \<notin> set (mm_get m k)" "sim s t"
  shows "sim (attach_first m p cs s) (attach_first m' p cs t)"
  using assms(3)
proof (induction cs arbitrary: s t)
  case (Cons c cs)
  let ?k = "corrKey p c" and ?ms = "[\<lparr>m_ID = p_ID p, m_Resolved = Resolve (p_Declared p)\<rparr>]"
  obtain s1 a ok where A: "anchorOf (mm_get m ?k) (p_ID p) s = (s1, a, ok)" by (metis surj_pair)
  obtain t1 a' ok' where B: "anchorOf (mm_get m' ?k) (p_ID p) t = (t1, a', ok')" by (metis surj_pair)
  have 1: "sim s1 t1" "a' = a" "ok' = ok"
    using anchorOf_sim [OF Cons.prems assms(1) assms(2), of ?k "p_ID p"] A B by auto
  note att = sim_Attach [OF 1(1), of a ?ms]
  show ?case
    using A B 1 att Cons.IH [OF Cons.prems] Cons.IH [OF 1(1)] Cons.IH [OF att(1)]
    by (auto split: prod.splits)
qed simp

lemma set_carriers:
  "i \<in> set (mm_get (mm_build (carrier_entries ps)) k) \<longleftrightarrow>
     (\<exists>p \<in> set ps. p_ID p = i \<and> (\<exists>c \<in> set (p_Correlations p). Declares c MatchExact \<and> corrKey p c = k))"
  by (force simp: mm_get_build carrier_entries_def)

lemma Attaches_Apply_sim:
  assumes "proper ps" "mset ps = mset ps'" "sim s t"
  shows "sim (Attaches_Apply ps s opts) (Attaches_Apply ps' t opts)"
proof -
  let ?m = "mm_build (carrier_entries ps)" and ?m' = "mm_build (carrier_entries ps')"
  have set: "set ps = set ps'" using assms(2) by (rule mset_eq_setD)
  let ?fs = "filter (\<lambda>p. \<not> Taken s (p_ID p)) ps" and ?ft = "filter (\<lambda>p. \<not> Taken t (p_ID p)) ps'"
  have "mset ?fs = mset ?ft" using assms(2) sim_Taken [OF assms(3)] by simp
  then have bearers: "go_sort (\<lambda>a b. p_ID a < p_ID b) ?fs = go_sort (\<lambda>a b. p_ID a < p_ID b) ?ft"
    by (rule sort_ids_perm) (use proper_inj [OF assms(1)] in \<open>auto intro: inj_on_subset\<close>)
  have "set (mm_get ?m k) = set (mm_get ?m' k)" "'''' \<notin> set (mm_get ?m k)" for k
    using assms(1) unfolding proper_def by (auto simp: set_carriers set image_iff)
  then show ?thesis
    unfolding Attaches_Apply_def Let_def bearers by (intro sim_fold attach_first_sim assms(3)) auto
qed

lemma Attaches_Apply_ok: "valid s \<Longrightarrow> ok_run ps s (Attaches_Apply ps s opts)"
  unfolding Attaches_Apply_def Let_def by (rule ok_run_fold) (auto intro: attach_first_ok)

interpretation attaches: grouping_rule Attaches_Apply
  by unfold_locales (rule Attaches_Apply_ok Attaches_Apply_sim; assumption)+

subsection \<open>What the rules decide\<close>

lemma a_claim_untouched:
  "i \<notin> m_ID ` set ms \<Longrightarrow> a_claimed (fst (a_claim P ms)) i = a_claimed P i"
  by (auto simp: a_claim_def fold_take_claimed)

lemma claim_group_untouched:
  assumes "valid s" "i \<notin> p_ID ` set grp"
  shows "Taken (claim_group grp s) i = Taken s i"
proof -
  let ?ms = "map (\<lambda>p. \<lparr>m_ID = p_ID p, m_Resolved = Resolve (p_Declared p)\<rparr>) grp"
  have "i \<notin> m_ID ` set ?ms" using assms(2) by auto
  from a_claim_untouched [OF this, of "abs_state s"] show ?thesis
    using store.claim_view [OF assms(1), of ?ms]
    by (simp add: claim_group_def store.taken_view del: abs_state_simps)
qed

lemma claim_groups_untouched:
  assumes "valid s" "\<And>k. k \<in> set ks \<Longrightarrow> i \<notin> p_ID ` set (f k)"
  shows "valid (fold (\<lambda>k. claim_group (f k)) ks s) \<and> Taken (fold (\<lambda>k. claim_group (f k)) ks s) i = Taken s i"
  using assms
proof (induction ks arbitrary: s)
  case (Cons k ks)
  have "valid (claim_group (f k) s)"
    using claim_group_ok [OF subset_refl Cons.prems(1)] by (simp add: ok_run_def)
  from Cons.IH [OF this] show ?case
    using Cons.prems claim_group_untouched [of s i "f k"] by simp
qed simp



lemma two_members_length: "x \<in> set xs \<Longrightarrow> y \<in> set xs \<Longrightarrow> x \<noteq> y \<Longrightarrow> 2 \<le> length xs"
  by (cases xs; cases "tl xs") auto

lemma claim_group_joins:
  assumes "valid s" "2 \<le> length grp" "distinct (map p_ID grp)"
    and "\<And>p. p \<in> set grp \<Longrightarrow> known s (p_ID p) \<and> \<not> Taken s (p_ID p)" "p \<in> set grp" "q \<in> set grp"
  shows "a_rep (abs_state (claim_group grp s)) (p_ID p) = a_rep (abs_state (claim_group grp s)) (p_ID q)
    \<and> Taken (claim_group grp s) (p_ID p) \<and> s_resolved (claim_group grp s) (p_ID p) = Some (Resolve (p_Declared p))"
proof -
  let ?m = "\<lambda>p. \<lparr>m_ID = p_ID p, m_Resolved = Resolve (p_Declared p)\<rparr>" and ?P = "abs_state s"
  let ?ms = "map ?m grp"
  let ?a = "m_ID (hd ?ms)"
  have c: "claim_group grp s = fst (Claim s ?ms)" using assms(2) by (simp add: claim_group_def)
  have free: "\<And>m. m \<in> set ?ms \<Longrightarrow> a_rep ?P (m_ID m) \<noteq> None \<and> \<not> a_claimed ?P (m_ID m)"
    using assms(4) by (auto simp: store.taken_view)
  have "snd (a_claim ?P ?ms)" using free assms(2) by (auto simp: a_claim_def)
  with a_claim_hd [of ?P ?ms] have A: "hd ?ms \<in> set ?ms"
    "abs_state (claim_group grp s) = fold (a_take ?a) ?ms ?P"
    using store.claim_view [OF assms(1), of ?ms] by (simp_all add: c)
  have rep: "a_rep (fold (a_take ?a) ?ms ?P) (p_ID x) = a_rep (fold (a_take ?a) ?ms ?P) ?a"
    if "x \<in> set grp" for x
  proof -
    have "a_rep ?P ?a \<noteq> None" using free [OF A(1)] by simp
    moreover have "?m x \<in> set ?ms" using that by simp
    ultimately have "a_rep (fold (a_take ?a) ?ms ?P) (m_ID (?m x)) = a_rep (fold (a_take ?a) ?ms ?P) ?a"
      using free by (intro fold_take_rep(3)) blast+
    then show ?thesis by simp
  qed
  have id: "p_ID p \<in> m_ID ` set ?ms" using assms(5) by force
  from fold_take_resolved [OF id, of ?a ?P] obtain m where m: "m \<in> set ?ms" "m_ID m = p_ID p"
    "a_resolved (fold (a_take ?a) ?ms ?P) (p_ID p) = Some (m_Resolved m)" by blast
  then obtain x where x: "x \<in> set grp" "m = ?m x" by auto
  with m(2) assms(3,5) have "x = p" by (auto simp: distinct_map dest: inj_onD)
  moreover have "a_claimed (fold (a_take ?a) ?ms ?P) (p_ID p)" using id by (simp only: fold_take_claimed) simp
  ultimately show ?thesis using rep [OF assms(5)] rep [OF assms(6)] m(3) x(2) A(2)
    by (metis Member.select_convs(2) abs_state_simps store.taken_view)
qed

abbreviation exact_keys :: "GroupingPosting \<Rightarrow> tokenKey set" where
  "exact_keys p \<equiv> corrKey p ` {c \<in> set (p_Correlations p). Declares c MatchExact}"

text \<open>
  Where every free posting that carries a comparability key carries no other, and there are two
  or more of them, \<open>Exact\<close> takes them all and joins them.
\<close>

lemma Exact_links:
  assumes "proper ps" "reachable ps s"
    and "p \<in> set ps" "\<not> Taken s (p_ID p)" "k \<in> exact_keys p"
    and "q \<in> set ps" "\<not> Taken s (p_ID q)" "k \<in> exact_keys q" "p_ID p \<noteq> p_ID q"
    and only: "\<And>x. x \<in> set ps \<Longrightarrow> \<not> Taken s (p_ID x) \<Longrightarrow> k \<in> exact_keys x \<Longrightarrow> exact_keys x = {k}"
  shows "a_rep (abs_state (Exact_Apply ps s opts)) (p_ID p) = a_rep (abs_state (Exact_Apply ps s opts)) (p_ID q)
    \<and> Taken (Exact_Apply ps s opts) (p_ID p)
    \<and> s_resolved (Exact_Apply ps s opts) (p_ID p) = Some (Resolve (p_Declared p))"
proof -
  let ?m = "mm_build (exact_entries ps s)"
  let ?f = "\<lambda>k. dedupe (mm_get ?m k)" and ?ks = "go_sort tokenKey_less (map fst ?m)"
  have v: "valid s" and kn: "\<And>x. x \<in> set ps \<Longrightarrow> known s (p_ID x)"
    using reachable_sound [OF assms(2)] reachable_known [OF assms(2)] by auto
  have mem: "x \<in> set (?f k') \<longleftrightarrow> x \<in> set ps \<and> \<not> Taken s (p_ID x) \<and> k' \<in> exact_keys x" for x k'
  proof -
    have "inj_on p_ID (set (mm_get ?m k'))" using proper_inj [OF assms(1)]
      by (rule inj_on_subset) (auto simp: set_exact_group set_exact_entries)
    then show ?thesis by (auto simp: set_dedupe_inj set_exact_group set_exact_entries)
  qed
  have "(k, p) \<in> set (exact_entries ps s)" using assms(3-5) by (auto simp: set_exact_entries)
  then have "k \<in> set ?ks" by (simp only: set_go_sort keys_mm_build) force
  then obtain ks1 ks2 where ks: "?ks = ks1 @ k # ks2" "k \<notin> set ks1"
    by (meson split_list_first)
  define s1 where "s1 = fold (\<lambda>k. claim_group (?f k)) ks1 s"
  have apart: "p_ID x \<notin> p_ID ` set (?f k')" if "x \<in> set (?f k)" "k' \<noteq> k" for x k'
  proof
    assume "p_ID x \<in> p_ID ` set (?f k')"
    then obtain y where y: "y \<in> set (?f k')" "p_ID x = p_ID y" by auto
    then have "x = y" using that(1) inj_onD [OF proper_inj [OF assms(1)] y(2)] by (simp add: mem)
    then have "k' \<in> exact_keys x" using y(1) by (simp only: mem)
    moreover have "exact_keys x = {k}" using that(1) unfolding mem by (intro only) blast+
    ultimately show False using that(2) by simp
  qed
  have free: "Taken s1 (p_ID x) = Taken s (p_ID x)" if "x \<in> set (?f k)" for x
    unfolding s1_def using claim_groups_untouched [OF v, of ks1 "p_ID x" ?f] apart [OF that] ks(2) by metis
  have ok1: "ok_run ps s s1" unfolding s1_def
    by (rule ok_run_fold [OF claim_group_ok v]) (auto simp: mem)
  have pq: "p \<in> set (?f k)" "q \<in> set (?f k)" using assms by (auto simp: mem)
  then have "2 \<le> length (?f k)" using assms(9) by (intro two_members_length [of p _ q]) auto
  then have J: "a_rep (abs_state (claim_group (?f k) s1)) (p_ID p) = a_rep (abs_state (claim_group (?f k) s1)) (p_ID q)
    \<and> Taken (claim_group (?f k) s1) (p_ID p) \<and> s_resolved (claim_group (?f k) s1) (p_ID p) = Some (Resolve (p_Declared p))"
    using ok1 ok_run_known [OF ok1] kn pq free
    by (intro claim_group_joins distinct_dedupe) (auto simp: ok_run_def mem)
  have "ok_run ps (claim_group (?f k) s1) (fold (\<lambda>k. claim_group (?f k)) ks2 (claim_group (?f k) s1))"
    using ok1 claim_group_ok [of "?f k" "?f k" s1]
    by (intro ok_run_fold claim_group_ok) (auto simp: mem ok_run_def)
  moreover have "Exact_Apply ps s opts = fold (\<lambda>k. claim_group (?f k)) ks2 (claim_group (?f k) s1)"
    by (simp add: Exact_Apply_def Let_def ks(1) s1_def)
  ultimately have "extends (abs_state (claim_group (?f k) s1)) (abs_state (Exact_Apply ps s opts))"
    using a_steps_extends by (auto simp: ok_run_def)
  with J show ?thesis by (auto simp: extends_def store.taken_view dest: coarserD)
qed

text \<open>Three postings: the first two share one token, the last two another.\<close>

abbreviation tok :: "string \<Rightarrow> Correlation" where
  "tok t \<equiv> \<lparr>c_Label = ''FITID'', c_Token = t, c_Ordinal = None, c_Scope = ScopeAccount,
     c_Match = [MatchExact], c_OrdinalSpan = None, c_JobID = ''''\<rparr>"

abbreviation with_tokens :: "string \<Rightarrow> string list \<Rightarrow> GroupingPosting" where
  "with_tokens i ts \<equiv> (sample i [TRADE_CASH] 1)\<lparr>p_Correlations := map tok ts\<rparr>"

text \<open>
  A posting that carries two tokens makes the token sets overlap, and then the second set
  is refused whole: the last posting shares a token with the middle one and is left ungrouped.
  The comment on \<open>Apply\<close> calls the sets disjoint by construction.
\<close>

theorem Exact_overlapping_tokens_refused:
  "let ps = [with_tokens ''a'' [''t''], with_tokens ''b'' [''t'', ''u''], with_tokens ''c'' [''u'']];
       s = Exact_Apply ps (newState ps) DefaultOpts in
   snd (Group_of s ''a'') = snd (Group_of s ''b'') \<and> snd (Group_of s ''c'') \<noteq> snd (Group_of s ''b'')
     \<and> \<not> Taken s ''c''"
  by code_simp

text \<open>
  A pointer attaches only where it is unambiguous: over the carriers of its token other than
  the bearer itself, an anchor is found exactly when there is one and all of them sit in one
  group, and then it is the lowest id among them, whatever order they were read in.
\<close>

theorem anchorOf_unambiguous:
  assumes "reachable ps st" "'''' \<notin> set cs" "anchorOf cs b st = (st', a, ok)"
  shows "abs_state st' = abs_state st
    \<and> (ok \<longleftrightarrow> (\<exists>i \<in> set cs. i \<noteq> b)
         \<and> (\<forall>i \<in> set cs. \<forall>j \<in> set cs. i \<noteq> b \<longrightarrow> j \<noteq> b \<longrightarrow> snd (Group_of st i) = snd (Group_of st j)))
    \<and> (ok \<longrightarrow> a = Min {i \<in> set cs. i \<noteq> b})"
proof -
  have v: "valid st" using reachable_sound [OF assms(1)] by simp
  have "(a, ok) = the_anchor (a_group (abs_state st)) {i \<in> set cs. i \<noteq> b}"
    using anchorOf_result [OF v assms(2), of b] assms(3) by simp
  then show ?thesis
    using anchorOf_view [OF v, of cs b] assms(3)
    by (auto simp: the_anchor_def store.group_name [OF v] split: if_splits)
qed

theorem anchorOf_unambiguous_witness:
  "snd (anchorOf [''b'', ''a''] ''b'' (newState two_samples)) = (''a'', True)"
proof -
  obtain st' a ok where A: "anchorOf [''b'', ''a''] ''b'' (newState two_samples) = (st', a, ok)"
    by (metis surj_pair)
  have S: "{i \<in> set [''b'', ''a'']. i \<noteq> ''b''} = {''a''}" by auto
  have "ok \<and> a = ''a''"
    using anchorOf_unambiguous [OF reachable.start _ A] unfolding S by simp
  with A show ?thesis by simp
qed

end
