(* ===== verification/Rule_Trade.thy ===== *)
theory Rule_Trade
  imports Rule_Base
begin

text \<open>
  The pairing rules of \<open>src/server/grouping/trade.go\<close>: \<open>Disposal\<close>, \<open>Acquisition\<close> and
  \<open>CashTrade\<close>. All three collect the feasible pairs of the neighbourhood, rank them and claim
  them best first; what they share is \<open>pairings\<close> and \<open>claim_pairs\<close>, and \<open>trade_stable\<close>
  shows that the result is a stable matching under the ranking.

  \<open>decimal.Div\<close> rounds, so it is the parameter \<open>ddiv\<close>. A bucket is the account and the UTC
  day: the code joins the two with a NUL into one string and only ever compares the strings for
  equality, and a formatted day holds no NUL.
\<close>

definition DisposalPrecedence :: int where "DisposalPrecedence = 900"
definition AcquisitionPrecedence :: int where "AcquisitionPrecedence = 800"
definition CashTradePrecedence :: int where "CashTradePrecedence = 700"

definition isMoney :: "GroupingPosting \<Rightarrow> bool" where
  "isMoney p \<longleftrightarrow> \<not> MayBe (p_Declared p) [TRADE_ASSET]"

definition day_length :: int where "day_length = 86400 * 10 ^ 9"

definition utc_day :: "time \<Rightarrow> int" where "utc_day t = t div day_length"

definition bucket :: "GroupingPosting \<Rightarrow> string \<times> int" where
  "bucket p = (p_Account p, utc_day (p_OrderDate p))"

definition expandByDay :: expander where
  "expandByDay userID ps r held =
     (let qs = map (\<lambda>p. let day = utc_day (p_OrderDate p) * day_length in
            \<lparr>dq_Broker = p_Broker p, dq_Account = p_Account p, dq_From = day,
             dq_Before = day + day_length\<rparr>) ps in
      if qs = [] then Inr [] else PostingsByDates r userID (distinct_queries qs) held)"

definition noOrdinal :: int64 where "noOrdinal = 0x7FFFFFFFFFFFFFFF"

definition ordinalDistance :: "GroupingPosting \<Rightarrow> GroupingPosting \<Rightarrow> int64" where
  "ordinalDistance a b =
     fold (\<lambda>ca best. case c_Ordinal ca of
          None \<Rightarrow> best
        | Some x \<Rightarrow>
            if \<not> Declares ca MatchOrdinal then best
            else fold (\<lambda>cb best. case c_Ordinal cb of
                None \<Rightarrow> best
              | Some y \<Rightarrow>
                  if c_Label cb \<noteq> c_Label ca \<or> \<not> Declares cb MatchOrdinal then best
                  else let d = x - y; d = (if sint d < 0 then - d else d)
                       in if sint d < sint best then d else best)
              (p_Correlations b) best)
       (p_Correlations a) noOrdinal"

record candidate =
  cd_assetID :: string
  cd_cashID :: string
  cd_distance :: int64

definition betterThan :: "candidate \<Rightarrow> candidate \<Rightarrow> bool" where
  "betterThan c o' =
     (if cd_distance c \<noteq> cd_distance o' then sint (cd_distance c) < sint (cd_distance o')
      else if cd_assetID c \<noteq> cd_assetID o' then cd_assetID c < cd_assetID o'
      else cd_cashID c < cd_cashID o')"

text \<open>The double loop over the two sides, with the tests that make a pair feasible.\<close>

definition pairings ::
    "(GroupingPosting \<Rightarrow> GroupingPosting \<Rightarrow> bool) \<Rightarrow> GroupingPosting list \<Rightarrow> GroupingPosting list
     \<Rightarrow> candidate list" where
  "pairings feasible as bs =
     concat (map (\<lambda>a. map (\<lambda>b. \<lparr>cd_assetID = p_ID a, cd_cashID = p_ID b,
         cd_distance = ordinalDistance a b\<rparr>) (filter (feasible a) bs)) as)"

definition claim_pairs :: "TxType \<Rightarrow> TxType \<Rightarrow> candidate list \<Rightarrow> State \<Rightarrow> State" where
  "claim_pairs ta tb cands st =
     fold (\<lambda>c st. fst (Claim st [\<lparr>m_ID = cd_assetID c, m_Resolved = ta\<rparr>,
                                   \<lparr>m_ID = cd_cashID c, m_Resolved = tb\<rparr>]))
       (go_sort betterThan cands) st"

subsection \<open>Disposal and acquisition\<close>

record trade =
  t_name :: string
  t_precedence :: int
  t_acquiring :: bool

definition isAssetLeg :: "trade \<Rightarrow> GroupingPosting \<Rightarrow> bool" where
  "isAssetLeg t p =
     (if isMoney p \<or> p_SettlementAmount p = None then False
      else if \<not> MayBe (p_Declared p) [TRADE_ASSET] then False
      else (p_Quantity p > 0) = t_acquiring t \<and> p_Quantity p \<noteq> 0)"

definition isCashLeg :: "trade \<Rightarrow> GroupingPosting \<Rightarrow> bool" where
  "isCashLeg t p =
     (if \<not> isMoney p then False
      else if \<not> MayBe (p_Declared p) [TRADE_CASH] then False
      else (p_Quantity p < 0) = t_acquiring t \<and> p_Quantity p \<noteq> 0)"

text \<open>Called on asset legs only, which carry a settlement amount; the code would panic on nil.\<close>

definition amountsAgree :: "trade \<Rightarrow> GroupingPosting \<Rightarrow> GroupingPosting \<Rightarrow> Opts \<Rightarrow> bool" where
  "amountsAgree t asset cash opts = (case p_SettlementAmount asset of
       None \<Rightarrow> False
     | Some amount \<Rightarrow>
         let stated = \<bar>amount\<bar>; paid = \<bar>p_Quantity cash\<bar> in
         if t_acquiring t then stated - paid > - o_Money opts
         else \<bar>stated - paid\<bar> < o_Money opts)"

definition consistent ::
    "(decimal \<Rightarrow> decimal \<Rightarrow> decimal) \<Rightarrow> GroupingPosting \<Rightarrow> GroupingPosting \<Rightarrow> Opts \<Rightarrow> bool" where
  "consistent ddiv asset cash opts = (case p_UnitPrice asset of
       None \<Rightarrow> True
     | Some price \<Rightarrow>
         let expected = \<bar>p_Quantity asset * price\<bar> in
         if expected = 0 then True
         else ddiv \<bar>\<bar>p_Quantity cash\<bar> - expected\<bar> expected \<le> o_ConsiderationBand opts)"

definition trade_feasible ::
    "(decimal \<Rightarrow> decimal \<Rightarrow> decimal) \<Rightarrow> trade \<Rightarrow> Opts \<Rightarrow> GroupingPosting \<Rightarrow> GroupingPosting \<Rightarrow> bool" where
  "trade_feasible ddiv t opts a c \<longleftrightarrow>
     bucket a = bucket c \<and> amountsAgree t a c opts \<and> consistent ddiv a c opts"

definition trade_Apply :: "(decimal \<Rightarrow> decimal \<Rightarrow> decimal) \<Rightarrow> trade \<Rightarrow> applier" where
  "trade_Apply ddiv t ps st opts =
     (let free = filter (\<lambda>p. \<not> Taken st (p_ID p)) ps;
          assets = filter (isAssetLeg t) free;
          cash = filter (\<lambda>p. \<not> isAssetLeg t p \<and> isCashLeg t p) free
      in claim_pairs TRADE_ASSET TRADE_CASH (pairings (trade_feasible ddiv t opts) assets cash) st)"

definition trade_rule :: "(decimal \<Rightarrow> decimal \<Rightarrow> decimal) \<Rightarrow> trade \<Rightarrow> Rule" where
  "trade_rule ddiv t = \<lparr>r_Name = t_name t, r_Precedence = t_precedence t, r_Expand = expandByDay,
     r_Apply = trade_Apply ddiv t\<rparr>"

definition disposal :: trade where
  "disposal = \<lparr>t_name = ''disposal'', t_precedence = DisposalPrecedence, t_acquiring = False\<rparr>"

definition acquisition :: trade where
  "acquisition = \<lparr>t_name = ''acquisition'', t_precedence = AcquisitionPrecedence, t_acquiring = True\<rparr>"

definition Disposal :: "(decimal \<Rightarrow> decimal \<Rightarrow> decimal) \<Rightarrow> Rule" where
  "Disposal ddiv = trade_rule ddiv disposal"

definition Acquisition :: "(decimal \<Rightarrow> decimal \<Rightarrow> decimal) \<Rightarrow> Rule" where
  "Acquisition ddiv = trade_rule ddiv acquisition"

subsection \<open>Trades of the account's own cash\<close>

definition cash_feasible :: "GroupingPosting \<Rightarrow> GroupingPosting \<Rightarrow> bool" where
  "cash_feasible a b \<longleftrightarrow> bucket a = bucket b \<and> p_Quantity a + p_Quantity b = 0"

definition cashTrade_Apply :: applier where
  "cashTrade_Apply ps st opts =
     (let legs = filter (\<lambda>p. \<not> Taken st (p_ID p) \<and> isMoney p \<and> p_Quantity p \<noteq> 0
            \<and> MustBe (p_Declared p) [TRADE_CASH]) ps;
          out = filter (\<lambda>p. p_Quantity p < 0) legs;
          inn = filter (\<lambda>p. \<not> p_Quantity p < 0) legs
      in claim_pairs TRADE_CASH TRADE_CASH (pairings cash_feasible out inn) st)"

definition CashTrade :: Rule where
  "CashTrade = \<lparr>r_Name = ''cash_trade'', r_Precedence = CashTradePrecedence, r_Expand = expandByDay,
     r_Apply = cashTrade_Apply\<rparr>"

subsection \<open>Ranking\<close>

abbreviation cand_key :: "candidate \<Rightarrow> int \<times> string \<times> string" where
  "cand_key c \<equiv> (sint (cd_distance c), cd_assetID c, cd_cashID c)"

lemma betterThan_key: "betterThan a b \<longleftrightarrow> cand_key a < cand_key b"
  by (auto simp: betterThan_def less_prod_def' signed_word_eqI)

lemma cand_key_inj: "inj_on cand_key A"
  by (rule inj_onI) (auto intro!: candidate.equality signed_word_eqI)

lemma pairings_perm:
  assumes "mset as = mset as'" "mset bs = mset bs'"
  shows "mset (pairings f as bs) = mset (pairings f as' bs')"
proof -
  let ?c = "\<lambda>bs a. map (\<lambda>b. \<lparr>cd_assetID = p_ID a, cd_cashID = p_ID b,
         cd_distance = ordinalDistance a b\<rparr>) (filter (f a) bs)"
  have "mset (concat (map (?c bs) as)) = mset (concat (map (?c bs) as'))"
    using assms(1) by (rule mset_concat_map_perm)
  also have "\<dots> = mset (concat (map (?c bs') as'))"
    using assms(2) by (induction as') auto
  finally show ?thesis by (simp add: pairings_def)
qed

lemma set_pairings:
  "c \<in> set (pairings f as bs) \<longleftrightarrow> (\<exists>a \<in> set as. \<exists>b \<in> set bs. f a b
     \<and> c = \<lparr>cd_assetID = p_ID a, cd_cashID = p_ID b, cd_distance = ordinalDistance a b\<rparr>)"
  by (auto simp: pairings_def)

lemma claim_pairs_sim:
  assumes "mset cs = mset cs'" "sim s t"
  shows "sim (claim_pairs ta tb cs s) (claim_pairs ta tb cs' t)"
proof -
  have "go_sort betterThan cs = go_sort betterThan cs'"
    by (rule go_sort_perm [OF assms(1) betterThan_key cand_key_inj])
  then show ?thesis using assms(2) unfolding claim_pairs_def by (auto intro!: sim_fold sim_Claim)
qed

lemma claim_pairs_ok:
  assumes "valid s" "\<And>c. c \<in> set cs \<Longrightarrow> admissible ps (cd_assetID c) ta \<and> admissible ps (cd_cashID c) tb"
  shows "ok_run ps s (claim_pairs ta tb cs s)"
  unfolding claim_pairs_def using assms by (auto intro!: ok_run_fold ok_run_Claim)

subsection \<open>The rules keep the contract\<close>

lemma isAssetLeg_MayBe: "isAssetLeg t p \<Longrightarrow> MayBe (p_Declared p) [TRADE_ASSET]"
  by (auto simp: isAssetLeg_def split: if_splits)

lemma isCashLeg_MayBe: "isCashLeg t p \<Longrightarrow> MayBe (p_Declared p) [TRADE_CASH]"
  by (auto simp: isCashLeg_def split: if_splits)

lemma trade_Apply_ok: "valid s \<Longrightarrow> ok_run ps s (trade_Apply ddiv t ps s opts)"
  unfolding trade_Apply_def Let_def
  by (rule claim_pairs_ok)
    (auto simp: set_pairings intro!: admissible_MayBe dest: isAssetLeg_MayBe isCashLeg_MayBe)

lemma trade_Apply_sim:
  assumes "proper ps" "mset ps = mset ps'" "sim s t"
  shows "sim (trade_Apply ddiv r ps s opts) (trade_Apply ddiv r ps' t opts)"
  unfolding trade_Apply_def Let_def
  by (intro claim_pairs_sim pairings_perm assms(3)) (simp_all add: assms(2) sim_Taken [OF assms(3)])

lemma cashTrade_Apply_ok: "valid s \<Longrightarrow> ok_run ps s (cashTrade_Apply ps s opts)"
  unfolding cashTrade_Apply_def Let_def
  by (rule claim_pairs_ok) (auto simp: set_pairings intro!: admissible_MayBe dest: MustBe_MayBe)

lemma cashTrade_Apply_sim:
  assumes "proper ps" "mset ps = mset ps'" "sim s t"
  shows "sim (cashTrade_Apply ps s opts) (cashTrade_Apply ps' t opts)"
  unfolding cashTrade_Apply_def Let_def
  by (intro claim_pairs_sim pairings_perm assms(3)) (simp_all add: assms(2) sim_Taken [OF assms(3)])

interpretation pair_trade: grouping_rule "trade_Apply ddiv t" for ddiv t
  by unfold_locales (rule trade_Apply_ok trade_Apply_sim; assumption)+

interpretation cash_trade: grouping_rule cashTrade_Apply
  by unfold_locales (rule cashTrade_Apply_ok cashTrade_Apply_sim; assumption)+

subsection \<open>Best first is a stable matching\<close>

abbreviation pair_of :: "TxType \<Rightarrow> TxType \<Rightarrow> candidate \<Rightarrow> Member list" where
  "pair_of ta tb c \<equiv> [\<lparr>m_ID = cd_assetID c, m_Resolved = ta\<rparr>, \<lparr>m_ID = cd_cashID c, m_Resolved = tb\<rparr>]"

abbreviation cand_ids :: "candidate \<Rightarrow> string set" where
  "cand_ids c \<equiv> {cd_assetID c, cd_cashID c}"

text \<open>A candidate was claimed: both postings were free, and both are now taken and together.\<close>

definition paired :: "State \<Rightarrow> State \<Rightarrow> candidate \<Rightarrow> bool" where
  "paired s t c \<longleftrightarrow> (\<forall>i \<in> cand_ids c. \<not> Taken s i \<and> Taken t i)
     \<and> a_rep (abs_state t) (cd_assetID c) = a_rep (abs_state t) (cd_cashID c)"

lemma Claim_pair:
  assumes "valid s"
  shows "valid (fst (Claim s (pair_of ta tb c)))"
    and "\<forall>i \<in> cand_ids c. known s i \<and> \<not> Taken s i \<Longrightarrow> paired s (fst (Claim s (pair_of ta tb c))) c"
    and "extends (abs_state s) (abs_state (fst (Claim s (pair_of ta tb c))))"
    and "Taken (fst (Claim s (pair_of ta tb c))) i \<Longrightarrow> \<not> Taken s i \<Longrightarrow>
      i \<in> cand_ids c \<and> paired s (fst (Claim s (pair_of ta tb c))) c"
proof -
  let ?P = "abs_state s" and ?ms = "pair_of ta tb c" and ?t = "fst (Claim s (pair_of ta tb c))"
  let ?Q = "fold (a_take (cd_assetID c)) ?ms ?P"
  show v: "valid ?t" by (simp add: store.claim_invar assms)
  have view: "abs_state ?t = fst (a_claim ?P ?ms)" by (simp add: store.claim_view assms)
  have ok: "snd (a_claim ?P ?ms) \<longleftrightarrow> (\<forall>i \<in> cand_ids c. known s i \<and> \<not> Taken s i)"
    by (auto simp: a_claim_def Taken_def)
  show ext: "extends ?P (abs_state ?t)"
    unfolding view by (rule a_claim_extends)
  have acc: "paired s ?t c" if "snd (a_claim ?P ?ms)"
  proof -
    have Q: "abs_state ?t = ?Q" using a_claim_hd [OF that] view by simp
    have "a_rep ?Q (m_ID (?ms ! 1)) = a_rep ?Q (cd_assetID c)"
      using ok that by (intro fold_take_rep(3)) (auto simp: Taken_def)
    then show ?thesis
      using ok that Q fold_take_claimed [of "cd_assetID c" ?ms ?P]
      by (auto simp: paired_def store.taken_view simp del: fold_simps abs_state_simps)
  qed
  show "paired s ?t c" if "\<forall>i \<in> cand_ids c. known s i \<and> \<not> Taken s i"
    using acc ok that by blast
  show "i \<in> cand_ids c \<and> paired s ?t c" if "Taken ?t i" "\<not> Taken s i"
  proof (cases "snd (a_claim ?P ?ms)")
    case True
    with that a_claim_hd [OF True] view acc fold_take_claimed [of "cd_assetID c" ?ms ?P i]
    show ?thesis by (auto simp: store.taken_view simp del: fold_simps abs_state_simps)
  next
    case False
    then have "abs_state ?t = ?P" using view a_claim_refused by metis
    with that show ?thesis by (simp add: store.taken_view del: abs_state_simps)
  qed
qed

abbreviation claim_all :: "TxType \<Rightarrow> TxType \<Rightarrow> candidate list \<Rightarrow> State \<Rightarrow> State" where
  "claim_all ta tb cs s \<equiv> fold (\<lambda>c st. fst (Claim st (pair_of ta tb c))) cs s"

lemma paired_mono:
  "paired s t c \<Longrightarrow> extends (abs_state t) (abs_state u) \<Longrightarrow> paired s u c"
  unfolding paired_def extends_def store.taken_view by (auto dest: coarserD simp del: abs_state_simps)

lemma claim_all_extends:
  "valid s \<Longrightarrow> valid (claim_all ta tb cs s) \<and> extends (abs_state s) (abs_state (claim_all ta tb cs s))"
proof (induction cs arbitrary: s)
  case (Cons c cs)
  with Claim_pair(1,3) [of s c ta tb] show ?case by (auto intro: extends_trans)
qed simp

lemma claim_all_taken:
  assumes "valid s" "Taken (claim_all ta tb cs s) i" "\<not> Taken s i"
  shows "\<exists>c \<in> set cs. i \<in> cand_ids c \<and> paired s (claim_all ta tb cs s) c"
  using assms
proof (induction cs rule: rev_induct)
  case (snoc c cs)
  let ?t = "claim_all ta tb cs s"
  have t: "valid ?t" "extends (abs_state s) (abs_state ?t)" using claim_all_extends [OF snoc.prems(1)] by auto
  show ?case
  proof (cases "Taken ?t i")
    case True
    with snoc obtain d where "d \<in> set cs" "i \<in> cand_ids d" "paired s ?t d" by blast
    then show ?thesis using paired_mono Claim_pair(3) [OF t(1), of c ta tb] by fastforce
  next
    case False
    with snoc.prems have "i \<in> cand_ids c \<and> paired ?t (fst (Claim ?t (pair_of ta tb c))) c"
      using Claim_pair(4) [OF t(1), of c ta tb i] by simp
    moreover have "\<not> Taken s j" if "\<not> Taken ?t j" for j
      using that t(2) by (auto simp: extends_def store.taken_view simp del: abs_state_simps)
    ultimately show ?thesis by (auto simp: paired_def)
  qed
qed simp

lemma claim_all_stable:
  assumes "valid s" "\<forall>i \<in> cand_ids c. known s i \<and> \<not> Taken s i"
  shows "\<exists>d \<in> set (ds @ [c]). cand_ids d \<inter> cand_ids c \<noteq> {} \<and> paired s (claim_all ta tb (ds @ c # es) s) d"
proof -
  let ?t = "claim_all ta tb ds s" and ?u = "claim_all ta tb (ds @ c # es) s"
  let ?t' = "fst (Claim ?t (pair_of ta tb c))"
  have t: "valid ?t" "extends (abs_state s) (abs_state ?t)" using claim_all_extends [OF assms(1)] by auto
  note C = Claim_pair [OF t(1), of c ta tb]
  have u: "?u = claim_all ta tb es ?t'" by simp
  have eu: "extends (abs_state ?t') (abs_state ?u)" unfolding u using claim_all_extends [OF C(1)] by simp
  show ?thesis
  proof (cases "\<exists>i \<in> cand_ids c. Taken ?t i")
    case True
    then obtain i where i: "i \<in> cand_ids c" "Taken ?t i" by blast
    then obtain d where d: "d \<in> set ds" "i \<in> cand_ids d" "paired s ?t d"
      using claim_all_taken [OF assms(1) i(2)] assms(2) by blast
    have "paired s ?u d" using paired_mono [OF paired_mono [OF d(3) C(3)] eu] .
    with i(1) d(1,2) show ?thesis by (intro bexI [of _ d]) auto
  next
    case False
    moreover have "known ?t i = known s i" for i
      using extends_known [OF t(2)] .
    ultimately have "paired ?t ?t' c" using C(2) assms(2) by simp
    then have "paired s ?t' c" using assms(2) by (simp add: paired_def)
    then show ?thesis using paired_mono [OF _ eu] by (intro bexI [of _ c]) auto
  qed
qed

lemma claim_pairs_stable:
  assumes "valid s" "c \<in> set cs" "\<forall>i \<in> cand_ids c. known s i \<and> \<not> Taken s i"
  shows "\<exists>d \<in> set cs. (d = c \<or> betterThan d c) \<and> cand_ids d \<inter> cand_ids c \<noteq> {}
    \<and> paired s (claim_pairs ta tb cs s) d"
proof -
  let ?L = "go_sort betterThan cs"
  obtain ds es where L: "?L = ds @ c # es" using assms(2) by (metis set_go_sort split_list)
  have "sorted (map cand_key ?L)" by (rule go_sort_sorted) (rule betterThan_key)
  then have "\<forall>d \<in> set ds. cand_key d \<le> cand_key c" unfolding L by (simp add: sorted_append)
  moreover have "cand_key d \<le> cand_key c \<Longrightarrow> d = c \<or> betterThan d c" for d
    using inj_onD [OF cand_key_inj [of UNIV]] unfolding betterThan_key by (metis UNIV_I order_le_less)
  moreover have "set ds \<subseteq> set cs" using L by (metis set_go_sort set_append Un_upper1)
  ultimately show ?thesis
    using claim_all_stable [OF assms(1,3), of ds ta tb es] assms(2)
    unfolding claim_pairs_def L by fastforce
qed

text \<open>
  A trade rule ends in a stable matching: for every pair of an asset leg and a cash leg that
  were free and that the rule's tests admit, either the two were paired, or one of them was
  paired by a feasible pair the ranking prefers (nearer references, then lower ids). So no cash
  row is stranded by the order the postings came in, and no feasible pair is left with both
  sides free.
\<close>

theorem trade_stable:
  assumes "reachable ps s"
    and "a \<in> set ps" "isAssetLeg t a" "\<not> Taken s (p_ID a)"
    and "c \<in> set ps" "isCashLeg t c" "\<not> Taken s (p_ID c)"
    and "trade_feasible ddiv t opts a c"
  shows "\<exists>a' \<in> set ps. \<exists>c' \<in> set ps. isAssetLeg t a' \<and> isCashLeg t c' \<and> trade_feasible ddiv t opts a' c'
    \<and> {p_ID a', p_ID c'} \<inter> {p_ID a, p_ID c} \<noteq> {}
    \<and> ((p_ID a', p_ID c') = (p_ID a, p_ID c)
         \<or> betterThan \<lparr>cd_assetID = p_ID a', cd_cashID = p_ID c', cd_distance = ordinalDistance a' c'\<rparr>
                      \<lparr>cd_assetID = p_ID a, cd_cashID = p_ID c, cd_distance = ordinalDistance a c\<rparr>)
    \<and> paired s (trade_Apply ddiv t ps s opts)
        \<lparr>cd_assetID = p_ID a', cd_cashID = p_ID c', cd_distance = ordinalDistance a' c'\<rparr>"
proof -
  let ?free = "filter (\<lambda>p. \<not> Taken s (p_ID p)) ps"
  let ?cs = "pairings (trade_feasible ddiv t opts) (filter (isAssetLeg t) ?free)
    (filter (\<lambda>p. \<not> isAssetLeg t p \<and> isCashLeg t p) ?free)"
  let ?c = "\<lparr>cd_assetID = p_ID a, cd_cashID = p_ID c, cd_distance = ordinalDistance a c\<rparr>"
  have "\<not> isAssetLeg t c" using assms(6) by (auto simp: isAssetLeg_def isCashLeg_def split: if_splits)
  then have c: "?c \<in> set ?cs" using assms by (auto simp: set_pairings)
  have v: "valid s" "\<forall>i \<in> cand_ids ?c. known s i \<and> \<not> Taken s i"
    using reachable_sound [OF assms(1)] reachable_known [OF assms(1)] assms by auto
  from claim_pairs_stable [OF v(1) c v(2), of TRADE_ASSET TRADE_CASH]
  obtain d where d: "d \<in> set ?cs" "d = ?c \<or> betterThan d ?c" "cand_ids d \<inter> cand_ids ?c \<noteq> {}"
    "paired s (trade_Apply ddiv t ps s opts) d"
    unfolding trade_Apply_def Let_def by blast
  then obtain a' c' where "a' \<in> set ps" "c' \<in> set ps" "isAssetLeg t a'" "isCashLeg t c'"
    "trade_feasible ddiv t opts a' c'"
    "d = \<lparr>cd_assetID = p_ID a', cd_cashID = p_ID c', cd_distance = ordinalDistance a' c'\<rparr>"
    by (auto simp: set_pairings)
  moreover from this(6) d(2) have "(p_ID a', p_ID c') = (p_ID a, p_ID c) \<or> betterThan d ?c" by auto
  moreover from calculation(6) d(3) have "{p_ID a', p_ID c'} \<inter> {p_ID a, p_ID c} \<noteq> {}" by simp
  ultimately show ?thesis using d(4) by blast
qed

text \<open>A sale of ten units stated at 100 and the cash row that settles it.\<close>

definition sale :: GroupingPosting where
  "sale = (sample ''a'' [TRADE_ASSET] (- 10))\<lparr>p_SettlementAmount := Some 100\<rparr>"

definition proceeds :: GroupingPosting where
  "proceeds = sample ''b'' [TRADE_CASH] 100"

lemma sale_proceeds:
  "p_ID sale = ''a''" "p_ID proceeds = ''b''" "isAssetLeg disposal sale" "isCashLeg disposal proceeds"
  "\<not> isAssetLeg disposal proceeds" "\<not> isCashLeg disposal sale"
  "trade_feasible (/) disposal DefaultOpts sale proceeds"
  by (simp_all add: sale_def proceeds_def sample_def disposal_def isAssetLeg_def isCashLeg_def isMoney_def
      MayBe_def trade_feasible_def bucket_def amountsAgree_def consistent_def DefaultOpts_def)

theorem trade_stable_witness:
  "paired (newState [sale, proceeds]) (trade_Apply (/) disposal [sale, proceeds] (newState [sale, proceeds]) DefaultOpts)
     \<lparr>cd_assetID = ''a'', cd_cashID = ''b'', cd_distance = ordinalDistance sale proceeds\<rparr>"
proof -
  have free: "\<not> Taken (newState [sale, proceeds]) i" for i by (simp add: Taken_def newState_def)
  from trade_stable [OF reachable.start _ sale_proceeds(3) free _ sale_proceeds(4) free sale_proceeds(7)]
  show ?thesis by (simp add: sale_proceeds)
qed

text \<open>
  Whatever a trade rule takes it takes as one half of a feasible pair: each posting that was
  free and is now taken is the asset leg or the cash leg of a pair in one account on one day,
  whose amounts agree and whose price is consistent, and the two ended in one group.
\<close>

theorem trade_claims_feasible_pairs:
  assumes "reachable ps s" "Taken (trade_Apply ddiv t ps s opts) i" "\<not> Taken s i"
  shows "\<exists>a \<in> set ps. \<exists>c \<in> set ps. i \<in> {p_ID a, p_ID c} \<and> isAssetLeg t a \<and> isCashLeg t c
    \<and> p_Account a = p_Account c \<and> utc_day (p_OrderDate a) = utc_day (p_OrderDate c)
    \<and> amountsAgree t a c opts \<and> consistent ddiv a c opts
    \<and> paired s (trade_Apply ddiv t ps s opts)
        \<lparr>cd_assetID = p_ID a, cd_cashID = p_ID c, cd_distance = ordinalDistance a c\<rparr>"
proof -
  have v: "valid s" using reachable_sound [OF assms(1)] by simp
  let ?free = "filter (\<lambda>p. \<not> Taken s (p_ID p)) ps"
  let ?cs = "pairings (trade_feasible ddiv t opts) (filter (isAssetLeg t) ?free)
    (filter (\<lambda>p. \<not> isAssetLeg t p \<and> isCashLeg t p) ?free)"
  obtain d where d: "d \<in> set ?cs" "i \<in> cand_ids d" "paired s (trade_Apply ddiv t ps s opts) d"
    using claim_all_taken [OF v assms(2) [unfolded trade_Apply_def Let_def claim_pairs_def] assms(3)]
    unfolding trade_Apply_def Let_def claim_pairs_def set_go_sort by blast
  then obtain a c where "a \<in> set ps" "c \<in> set ps" "isAssetLeg t a" "isCashLeg t c"
    "trade_feasible ddiv t opts a c"
    "d = \<lparr>cd_assetID = p_ID a, cd_cashID = p_ID c, cd_distance = ordinalDistance a c\<rparr>"
    by (auto simp: set_pairings)
  moreover from this(6) d(2) have "i \<in> {p_ID a, p_ID c}" by simp
  ultimately show ?thesis using d(3) unfolding trade_feasible_def bucket_def prod.inject by blast
qed

lemma sale_taken:
  "Taken (trade_Apply (/) disposal [sale, proceeds] (newState [sale, proceeds]) DefaultOpts) ''a''"
  by code_simp

theorem trade_claims_feasible_pairs_witness:
  "let s = trade_Apply (/) disposal [sale, proceeds] (newState [sale, proceeds]) DefaultOpts in
     Taken s ''a'' \<and> a_rep (abs_state s) ''a'' = a_rep (abs_state s) ''b''"
proof -
  have "\<not> Taken (newState [sale, proceeds]) ''a''" by (simp add: Taken_def newState_def)
  from trade_claims_feasible_pairs [OF reachable.start sale_taken this] sale_taken
  show ?thesis by (simp add: sale_proceeds paired_def)
qed

text \<open>
  The bucket two legs must share names the account and the day and not the broker: a sale at
  one broker is paired with the cash row of an account of the same name at another.
\<close>

theorem trade_pairs_across_brokers:
  "let ps = [sale\<lparr>p_Broker := IBKR\<rparr>, proceeds\<lparr>p_Broker := FIDELITY\<rparr>];
       s = trade_Apply (/) disposal ps (newState ps) DefaultOpts in
   Taken s ''a'' \<and> Taken s ''b'' \<and> snd (Group_of s ''a'') = snd (Group_of s ''b'')"
  by code_simp

end
