(* ===== verification/Rule_Deposit.thy ===== *)
theory Rule_Deposit
  imports Rule_Trade
begin

text \<open>
  The deposit rule of \<open>src/server/grouping/deposit.go\<close>: a row that opens a run takes the nearest
  free row of each direction. A loop that returns at its first hit is \<open>first_some\<close>, and the
  \<open>(value, ok)\<close> results of the code are options. \<open>nearest\<close> is the loop of the code;
  \<open>nearest_result\<close> is what it computes, the least eligible row in reference order.
\<close>

definition DepositPrecedence :: int where "DepositPrecedence = 600"

fun first_some :: "('a \<Rightarrow> 'b option) \<Rightarrow> 'a list \<Rightarrow> 'b option" where
  "first_some f [] = None"
| "first_some f (x # xs) = (case f x of None \<Rightarrow> first_some f xs | Some y \<Rightarrow> Some y)"

definition ordinalSpan :: "GroupingPosting \<Rightarrow> int64 option" where
  "ordinalSpan p = first_some (\<lambda>c.
     if Declares c MatchOrdinal \<and> c_Ordinal c \<noteq> None then c_OrdinalSpan c else None) (p_Correlations p)"

definition forwardGap :: "GroupingPosting \<Rightarrow> GroupingPosting \<Rightarrow> int64 option" where
  "forwardGap a b = first_some (\<lambda>ca. case c_Ordinal ca of
       None \<Rightarrow> None
     | Some x \<Rightarrow> if \<not> Declares ca MatchOrdinal then None
         else first_some (\<lambda>cb.
             if c_Label cb \<noteq> c_Label ca \<or> \<not> Declares cb MatchOrdinal then None
             else map_option (\<lambda>y. y - x) (c_Ordinal cb)) (p_Correlations b))
     (p_Correlations a)"

definition firstOrdinal :: "GroupingPosting \<Rightarrow> int64 option" where
  "firstOrdinal p = first_some (\<lambda>c. if Declares c MatchOrdinal then c_Ordinal c else None) (p_Correlations p)"

definition byOrdinal :: "GroupingPosting \<Rightarrow> GroupingPosting \<Rightarrow> bool" where
  "byOrdinal a b = (case (firstOrdinal a, firstOrdinal b) of
       (Some oa, Some ob) \<Rightarrow> if oa \<noteq> ob then sint oa < sint ob else p_ID a < p_ID b
     | (Some _, None) \<Rightarrow> True
     | (None, Some _) \<Rightarrow> False
     | (None, None) \<Rightarrow> p_ID a < p_ID b)"

definition deposit_member :: "GroupingPosting \<Rightarrow> Member" where
  "deposit_member m =
     (if MayBe (p_Declared m) [TRANSFER] then \<lparr>m_ID = p_ID m, m_Resolved = TRANSFER\<rparr>
      else \<lparr>m_ID = p_ID m, m_Resolved = Resolve (p_Declared m)\<rparr>)"

text \<open>The tests of the loop of \<open>nearest\<close> that do not depend on the state.\<close>

definition run_step :: "GroupingPosting \<Rightarrow> int64 \<Rightarrow> Opts \<Rightarrow> bool \<Rightarrow> GroupingPosting \<Rightarrow> bool" where
  "run_step op spn opts spending m \<longleftrightarrow>
     p_ID m \<noteq> p_ID op \<and> p_Account m = p_Account op \<and> p_Broker m = p_Broker op
     \<and> (p_Quantity m < 0) = spending
     \<and> (case forwardGap op m of None \<Rightarrow> False | Some gap \<Rightarrow> 0 < sint gap \<and> sint gap \<le> sint spn)
     \<and> \<not> (\<bar>\<bar>p_Quantity m\<bar> - \<bar>p_Quantity op\<bar>\<bar> \<ge> o_Money opts)"

text \<open>One round of a loop that keeps the best row it has seen.\<close>

definition keep_best :: "('a \<Rightarrow> bool) \<Rightarrow> ('a \<Rightarrow> 'a \<Rightarrow> bool) \<Rightarrow> 'a \<Rightarrow> 'a option \<Rightarrow> 'a option" where
  "keep_best ok better m best =
     (if \<not> ok m then best
      else case best of None \<Rightarrow> Some m | Some b \<Rightarrow> if better m b then Some m else best)"

definition nearest ::
    "GroupingPosting \<Rightarrow> GroupingPosting list \<Rightarrow> State \<Rightarrow> Opts \<Rightarrow> bool \<Rightarrow> GroupingPosting option" where
  "nearest op members st opts spending = (case ordinalSpan op of
       None \<Rightarrow> None
     | Some spn \<Rightarrow>
         fold (keep_best (\<lambda>m. \<not> Taken st (p_ID m) \<and> run_step op spn opts spending m) byOrdinal)
           members None)"

definition deposit_Expand :: expander where
  "deposit_Expand userID ps r held =
     (let qs = concat (map (\<lambda>p. concat (map (\<lambda>c. case (c_Ordinal c, c_OrdinalSpan c) of
            (Some x, Some spn) \<Rightarrow>
              if \<not> Declares c MatchOrdinal then []
              else [\<lparr>oq_Broker = p_Broker p, oq_Account = p_Account p, oq_Label = c_Label c,
                     oq_Low = x - spn, oq_High = x + spn\<rparr>]
          | _ \<Rightarrow> []) (p_Correlations p))) ps)
      in if qs = [] then Inr [] else PostingsByOrdinals r userID (distinct_queries qs) held)"

definition is_opener :: "GroupingPosting \<Rightarrow> bool" where
  "is_opener p \<longleftrightarrow> p_Quantity p > 0 \<and> MustBe (p_Declared p) [TRANSFER]"

definition option_list :: "'a option \<Rightarrow> 'a list" where
  "option_list x = (case x of None \<Rightarrow> [] | Some a \<Rightarrow> [a])"

definition open_run :: "GroupingPosting list \<Rightarrow> Opts \<Rightarrow> GroupingPosting \<Rightarrow> State \<Rightarrow> State" where
  "open_run members opts op st =
     (if Taken st (p_ID op) then st
      else fst (Claim st ([\<lparr>m_ID = p_ID op, m_Resolved = TRANSFER\<rparr>]
             @ map deposit_member (option_list (nearest op members st opts True))
             @ map deposit_member (option_list (nearest op members st opts False)))))"

definition deposit_Apply :: applier where
  "deposit_Apply ps st opts =
     (let rows = filter (\<lambda>p. \<not> (Taken st (p_ID p) \<or> \<not> isMoney p \<or> p_Quantity p = 0)) ps;
          openers = filter is_opener rows;
          members = filter (\<lambda>p. \<not> is_opener p
              \<and> (MayBe (p_Declared p) [TRADE_CASH] \<or> MayBe (p_Declared p) [TRANSFER])) rows
      in fold (open_run members opts) (go_sort byOrdinal openers) st)"

definition Deposit :: Rule where
  "Deposit = \<lparr>r_Name = ''deposit_run'', r_Precedence = DepositPrecedence, r_Expand = deposit_Expand,
     r_Apply = deposit_Apply\<rparr>"

subsection \<open>Reference order\<close>

definition ordinal_key :: "GroupingPosting \<Rightarrow> (bool \<times> int) \<times> string" where
  "ordinal_key p = (case firstOrdinal p of None \<Rightarrow> (True, 0) | Some x \<Rightarrow> (False, sint x), p_ID p)"

lemma byOrdinal_key: "byOrdinal a b \<longleftrightarrow> ordinal_key a < ordinal_key b"
  by (auto simp: byOrdinal_def ordinal_key_def less_prod_def' signed_word_eqI split: option.splits)

lemma ordinal_key_inj: "inj_on p_ID A \<Longrightarrow> inj_on ordinal_key A"
  by (auto simp: inj_on_def ordinal_key_def)

lemma best_fold:
  fixes key :: "'a \<Rightarrow> 'k::linorder" and ok :: "'a \<Rightarrow> bool"
  assumes "\<And>a b. better a b \<longleftrightarrow> key a < key b"
  defines "step \<equiv> keep_best ok better"
  shows "(fold step xs acc = None \<longleftrightarrow> acc = None \<and> (\<forall>x \<in> set xs. \<not> ok x))
    \<and> (\<forall>b. fold step xs acc = Some b \<longrightarrow> b \<in> set_option acc \<union> {x \<in> set xs. ok x}
         \<and> (\<forall>x \<in> set_option acc \<union> {x \<in> set xs. ok x}. key b \<le> key x))"
proof (induction xs arbitrary: acc)
  case (Cons x xs)
  show ?case
  proof (cases "ok x")
    case False
    then have "step x acc = acc" by (simp add: step_def keep_best_def)
    with Cons.IH [of acc] False show ?thesis by auto
  next
    case True
    show ?thesis
    proof (cases acc)
      case None
      with True have "step x acc = Some x" by (simp add: step_def keep_best_def)
      with Cons.IH [of "Some x"] True None show ?thesis by auto
    next
      case (Some a)
      with True have s: "step x acc = Some (if key x < key a then x else a)"
        by (simp add: step_def keep_best_def assms(1))
      have "\<forall>b. fold step xs (step x acc) = Some b \<longrightarrow>
          key b \<le> key x \<and> key b \<le> key a \<and> (b \<in> {x, a} \<or> b \<in> set xs \<and> ok b)
          \<and> (\<forall>y \<in> set xs. ok y \<longrightarrow> key b \<le> key y)"
        using Cons.IH [of "Some (if key x < key a then x else a)"] unfolding s
        by (cases "key x < key a") fastforce+
      with Cons.IH [of "Some (if key x < key a then x else a)"] True Some s show ?thesis by auto
    qed
  qed
qed (auto simp: step_def)

text \<open>\<open>nearest\<close> returns the eligible row that comes first in reference order.\<close>

lemma nearest_result:
  assumes "ordinalSpan op = Some spn"
  shows "nearest op ms st opts sp = None \<longleftrightarrow> (\<forall>m \<in> set ms. Taken st (p_ID m) \<or> \<not> run_step op spn opts sp m)"
    and "nearest op ms st opts sp = Some b \<Longrightarrow>
      b \<in> set ms \<and> \<not> Taken st (p_ID b) \<and> run_step op spn opts sp b
      \<and> (\<forall>m \<in> set ms. \<not> Taken st (p_ID m) \<and> run_step op spn opts sp m \<longrightarrow> ordinal_key b \<le> ordinal_key m)"
proof -
  let ?ok = "\<lambda>m. \<not> Taken st (p_ID m) \<and> run_step op spn opts sp m"
  have n: "nearest op ms st opts sp = fold (keep_best ?ok byOrdinal) ms None"
    by (simp add: nearest_def assms)
  note b = best_fold [where better = byOrdinal and key = ordinal_key and ok = ?ok and xs = ms and acc = None,
      OF byOrdinal_key, folded n]
  show "nearest op ms st opts sp = None \<longleftrightarrow> (\<forall>m \<in> set ms. Taken st (p_ID m) \<or> \<not> run_step op spn opts sp m)"
    using b by auto
  show "b \<in> set ms \<and> \<not> Taken st (p_ID b) \<and> run_step op spn opts sp b
      \<and> (\<forall>m \<in> set ms. \<not> Taken st (p_ID m) \<and> run_step op spn opts sp m \<longrightarrow> ordinal_key b \<le> ordinal_key m)"
    if "nearest op ms st opts sp = Some b"
    using b that by auto
qed

lemma nearest_no_span: "ordinalSpan op = None \<Longrightarrow> nearest op ms st opts sp = None"
  by (simp add: nearest_def)

lemma nearest_Some:
  assumes "nearest op ms st opts sp = Some b"
  obtains spn where "ordinalSpan op = Some spn" "b \<in> set ms" "\<not> Taken st (p_ID b)" "run_step op spn opts sp b"
proof (cases "ordinalSpan op")
  case (Some spn)
  show thesis using that [OF Some] nearest_result(2) [OF Some assms] by blast
qed (use assms in \<open>simp add: nearest_no_span\<close>)

lemma nearest_sim:
  assumes "sim s t" "set ms = set ms'" "inj_on p_ID (set ms)"
  shows "nearest op ms s opts sp = nearest op ms' t opts sp"
proof (cases "ordinalSpan op")
  case (Some spn)
  note T = sim_Taken [OF assms(1)]
  show ?thesis
  proof (cases "nearest op ms s opts sp")
    case None
    then have "nearest op ms' t opts sp = None" using nearest_result(1) [OF Some] T assms(2) by simp
    with None show ?thesis by simp
  next
    case (Some b)
    note b = nearest_result(2) [OF \<open>ordinalSpan op = Some spn\<close> Some]
    then have "nearest op ms' t opts sp \<noteq> None"
      using nearest_result(1) [OF \<open>ordinalSpan op = Some spn\<close>, of ms' t] T assms(2) by blast
    then obtain b' where b': "nearest op ms' t opts sp = Some b'" by blast
    note c = nearest_result(2) [OF \<open>ordinalSpan op = Some spn\<close> b']
    have "ordinal_key b \<le> ordinal_key b'" "ordinal_key b' \<le> ordinal_key b" using b c T assms(2) by auto
    then have "b = b'" using b c assms(2) inj_onD [OF ordinal_key_inj [OF assms(3)], of b b'] by auto
    with Some b' show ?thesis by simp
  qed
qed (simp add: nearest_no_span)

subsection \<open>The rule keeps the contract\<close>

lemma option_list_simps [simp]: "option_list None = []" "option_list (Some x) = [x]"
  by (simp_all add: option_list_def)

lemma set_option_list: "set (option_list x) = set_option x"
  by (cases x) simp_all

lemma deposit_member_ID [simp]: "m_ID (deposit_member m) = p_ID m"
  by (simp add: deposit_member_def)

lemma admissible_deposit_member:
  "m \<in> set ps \<Longrightarrow> admissible ps (p_ID m) (m_Resolved (deposit_member m))"
  by (auto simp: deposit_member_def admissible_Resolve admissible_MayBe)

lemma open_run_ok:
  assumes "valid s" "op \<in> set ps" "is_opener op" "set members \<subseteq> set ps"
  shows "ok_run ps s (open_run members opts op s)"
proof -
  have "admissible ps (p_ID op) TRANSFER"
    using assms(2,3) by (auto simp: is_opener_def intro: admissible_MayBe MustBe_MayBe)
  moreover have "m \<in> set ps" if "nearest op members s opts sp = Some m" for m sp
    using nearest_Some [OF that] assms(4) by blast
  ultimately have "admissible ps (m_ID m) (m_Resolved m)"
    if "m \<in> set ([\<lparr>m_ID = p_ID op, m_Resolved = TRANSFER\<rparr>]
             @ map deposit_member (option_list (nearest op members s opts True))
             @ map deposit_member (option_list (nearest op members s opts False)))" for m
    using that by (auto simp: set_option_list admissible_deposit_member)
  note claim = ok_run_Claim [OF assms(1) this]
  show ?thesis unfolding open_run_def
    by (rule if_split [THEN iffD2]) (blast intro: claim ok_run_refl [OF assms(1)])
qed

lemma open_run_sim:
  assumes "sim s t" "set ms = set ms'" "inj_on p_ID (set ms)"
  shows "sim (open_run ms opts op s) (open_run ms' opts op t)"
  using assms(1) nearest_sim [OF assms] sim_Taken [OF assms(1)] unfolding open_run_def
  by (auto intro!: sim_Claim)

lemma deposit_Apply_ok: "valid s \<Longrightarrow> ok_run ps s (deposit_Apply ps s opts)"
  unfolding deposit_Apply_def Let_def by (rule ok_run_fold) (auto intro!: open_run_ok)

lemma deposit_Apply_sim:
  assumes "proper ps" "mset ps = mset ps'" "sim s t"
  shows "sim (deposit_Apply ps s opts) (deposit_Apply ps' t opts)"
proof -
  let ?rows = "\<lambda>s ps. filter (\<lambda>p. \<not> (Taken s (p_ID p) \<or> \<not> isMoney p \<or> p_Quantity p = 0)) ps"
  let ?mem = "\<lambda>s ps. filter (\<lambda>p. \<not> is_opener p
              \<and> (MayBe (p_Declared p) [TRADE_CASH] \<or> MayBe (p_Declared p) [TRANSFER])) (?rows s ps)"
  have rows: "mset (?rows s ps) = mset (?rows t ps')" using assms(2) sim_Taken [OF assms(3)] by simp
  then have "mset (filter is_opener (?rows s ps)) = mset (filter is_opener (?rows t ps'))"
    using mset_filter by metis
  then have op: "go_sort byOrdinal (filter is_opener (?rows s ps)) = go_sort byOrdinal (filter is_opener (?rows t ps'))"
    by (rule go_sort_perm [OF _ byOrdinal_key ordinal_key_inj])
      (use proper_inj [OF assms(1)] in \<open>auto intro: inj_on_subset\<close>)
  have "set (?mem s ps) = set (?mem t ps')" using mset_eq_setD [OF rows] by auto
  moreover have "inj_on p_ID (set (?mem s ps))"
    using proper_inj [OF assms(1)] by (rule inj_on_subset) auto
  ultimately show ?thesis
    unfolding deposit_Apply_def Let_def op by (intro sim_fold open_run_sim assms(3))
qed

interpretation deposit: grouping_rule deposit_Apply
  by unfold_locales (rule deposit_Apply_ok deposit_Apply_sim; assumption)+

subsection \<open>What a run is\<close>

text \<open>
  \<open>nearest\<close> chooses by reference order and nothing else: over the rows still free that lie in
  the opener's account, move in the direction asked for, agree with its amount to the tolerance
  and follow its reference within the span, it returns nothing exactly when there is no such
  row, and otherwise one of them that no other precedes.
\<close>

theorem nearest_takes_first_free_row:
  assumes "ordinalSpan op = Some spn"
  shows "(nearest op ms st opts sp = None \<longleftrightarrow> (\<forall>m \<in> set ms. Taken st (p_ID m) \<or> \<not> run_step op spn opts sp m))
    \<and> (\<forall>b. nearest op ms st opts sp = Some b \<longrightarrow> b \<in> set ms \<and> \<not> Taken st (p_ID b) \<and> run_step op spn opts sp b
         \<and> (\<forall>m \<in> set ms. \<not> Taken st (p_ID m) \<and> run_step op spn opts sp m \<longrightarrow> \<not> byOrdinal m b))"
  using nearest_result [OF assms] unfolding byOrdinal_key by (simp add: not_less)

lemma open_run_taken:
  assumes "valid s" "Taken (open_run ms opts op s) i" "\<not> Taken s i"
  shows "\<exists>spn. ordinalSpan op = Some spn \<and> \<not> Taken s (p_ID op) \<and> Taken (open_run ms opts op s) (p_ID op)
    \<and> a_rep (abs_state (open_run ms opts op s)) i = a_rep (abs_state (open_run ms opts op s)) (p_ID op)
    \<and> (i = p_ID op \<or> (\<exists>m \<in> set ms. \<exists>sp. p_ID m = i \<and> run_step op spn opts sp m))"
proof -
  let ?n = "\<lambda>sp. nearest op ms s opts sp" and ?o = "\<lparr>m_ID = p_ID op, m_Resolved = TRANSFER\<rparr>"
  let ?ms = "[?o] @ map deposit_member (option_list (?n True)) @ map deposit_member (option_list (?n False))"
  have o: "open_run ms opts op s = fst (Claim s ?ms)"
    using assms(2,3) unfolding open_run_def by (metis (full_types))
  note C = Claim_newly_taken [OF assms(1) assms(2) [unfolded o] assms(3)]
  have "?n True \<noteq> None \<or> ?n False \<noteq> None" using C(2) by (cases "?n True"; cases "?n False") auto
  then obtain spn where spn: "ordinalSpan op = Some spn" using nearest_Some by blast
  from C(1) obtain m where m: "m \<in> set ?ms" "m_ID m = i" by blast
  have "i = p_ID op \<or> (\<exists>m \<in> set ms. \<exists>sp. p_ID m = i \<and> run_step op spn opts sp m)"
  proof (cases "m = ?o")
    case False
    then obtain sp b where b: "?n sp = Some b" "p_ID b = i" using m by (auto simp: set_option_list)
    then show ?thesis using nearest_result(2) [OF spn b(1)] by blast
  qed (use m in simp)
  moreover have "a_rep (abs_state (open_run ms opts op s)) i = a_rep (abs_state (open_run ms opts op s)) (p_ID op)"
    using C(3) [OF m(1)] m(2) unfolding o by simp
  moreover have "\<not> Taken s (p_ID op) \<and> Taken (open_run ms opts op s) (p_ID op)"
    using C(3) [of ?o] unfolding o by simp
  ultimately show ?thesis using spn by blast
qed

text \<open>
  Whatever the deposit rule takes is part of a run: beside every posting it took stands the
  row that opened the run, money arriving that its source calls a transfer under every reading,
  free until then; the posting is that row itself or a money row of the same account and broker
  and of the same amount, whose reference follows the opener's within the span its source
  states; and the two ended in one group.
\<close>

theorem deposit_takes_runs:
  assumes "reachable ps s" "Taken (deposit_Apply ps s opts) i" "\<not> Taken s i"
  shows "\<exists>op \<in> set ps. \<exists>spn. is_opener op \<and> isMoney op \<and> \<not> Taken s (p_ID op) \<and> ordinalSpan op = Some spn
    \<and> Taken (deposit_Apply ps s opts) (p_ID op)
    \<and> a_rep (abs_state (deposit_Apply ps s opts)) i = a_rep (abs_state (deposit_Apply ps s opts)) (p_ID op)
    \<and> (i = p_ID op \<or> (\<exists>m \<in> set ps. \<exists>sp. p_ID m = i \<and> isMoney m \<and> \<not> is_opener m \<and> run_step op spn opts sp m))"
proof -
  let ?rows = "filter (\<lambda>p. \<not> (Taken s (p_ID p) \<or> \<not> isMoney p \<or> p_Quantity p = 0)) ps"
  let ?ms = "filter (\<lambda>p. \<not> is_opener p
              \<and> (MayBe (p_Declared p) [TRADE_CASH] \<or> MayBe (p_Declared p) [TRANSFER])) ?rows"
  let ?t = "deposit_Apply ps s opts"
  have v: "valid s" using reachable_sound [OF assms(1)] by simp
  have t: "?t = fold (open_run ?ms opts) (go_sort byOrdinal (filter is_opener ?rows)) s"
    by (simp only: deposit_Apply_def Let_def)
  have ok: "ok_run ps s' (open_run ?ms opts op s')"
    if "op \<in> set (go_sort byOrdinal (filter is_opener ?rows))" "valid s'" for op s'
    by (rule open_run_ok) (use that in auto)
  from fold_newly_taken [OF ok v assms(2) [unfolded t] assms(3), folded t]
  obtain op u where op: "op \<in> set (filter is_opener ?rows)" "valid u" "\<not> Taken u i"
    "Taken (open_run ?ms opts op u) i" "ok_run ps (open_run ?ms opts op u) ?t"
    unfolding set_go_sort by blast
  from open_run_taken [OF op(2,4,3)] obtain spn where r: "ordinalSpan op = Some spn"
    "Taken (open_run ?ms opts op u) (p_ID op)"
    "a_rep (abs_state (open_run ?ms opts op u)) i = a_rep (abs_state (open_run ?ms opts op u)) (p_ID op)"
    "i = p_ID op \<or> (\<exists>m \<in> set ?ms. \<exists>sp. p_ID m = i \<and> run_step op spn opts sp m)" by blast
  have "Taken ?t (p_ID op) \<and> a_rep (abs_state ?t) i = a_rep (abs_state ?t) (p_ID op)"
    using ok_run_extends [OF op(5)] r(2,3)
    by (auto simp: extends_def store.taken_view dest: coarserD simp del: abs_state_simps)
  with op(1) r show ?thesis by auto
qed

text \<open>A subscription credited, and spent under the next reference.\<close>

abbreviation with_ref :: "string \<Rightarrow> TxType list \<Rightarrow> decimal \<Rightarrow> int64 \<Rightarrow> GroupingPosting" where
  "with_ref i d q n \<equiv> (sample i d q)\<lparr>p_Correlations := [\<lparr>c_Label = ''REF'', c_Token = '''', c_Ordinal = Some n,
     c_Scope = ScopeAccount, c_Match = [MatchOrdinal], c_OrdinalSpan = Some 20, c_JobID = ''''\<rparr>]\<rparr>"

abbreviation deposit_rows :: "GroupingPosting list" where
  "deposit_rows \<equiv> [with_ref ''b'' [TRADE_CASH] (- 500) 7, with_ref ''a'' [TRANSFER] 500 5]"

theorem nearest_takes_first_free_row_witness:
  "map_option p_ID (nearest (deposit_rows ! 1) deposit_rows (newState deposit_rows) DefaultOpts True) = Some ''b''"
proof -
  have "ordinalSpan (deposit_rows ! 1) = Some 20" "run_step (deposit_rows ! 1) 20 DefaultOpts True (deposit_rows ! 0)"
    "\<not> run_step (deposit_rows ! 1) 20 DefaultOpts True (deposit_rows ! 1)"
    by code_simp+
  with nearest_takes_first_free_row [OF this(1), of deposit_rows "newState deposit_rows" DefaultOpts True]
  show ?thesis by (auto simp: Taken_def newState_def)
qed

lemma deposit_rows_taken: "Taken (deposit_Apply deposit_rows (newState deposit_rows) DefaultOpts) ''b''"
  by code_simp

theorem deposit_takes_runs_witness:
  "let t = deposit_Apply deposit_rows (newState deposit_rows) DefaultOpts in
     Taken t ''b'' \<and> Taken t ''a'' \<and> a_rep (abs_state t) ''b'' = a_rep (abs_state t) ''a''"
proof -
  have "\<not> Taken (newState deposit_rows) ''b''" by (simp add: Taken_def newState_def)
  from deposit_takes_runs [OF reachable.start deposit_rows_taken this] deposit_rows_taken
  show ?thesis by (auto simp: is_opener_def)
qed

end
