(* ===== verification/Rule_Charge.thy ===== *)
theory Rule_Charge
  imports Rule_Trade "HOL-Library.Sublist"
begin

text \<open>
  The charge rule of \<open>src/server/grouping/charge.go\<close>: what an acquisition's own figures leave
  unaccounted for (\<open>unexplained\<close>), the bounded search for charges that sum to it
  (\<open>subsetSumming\<close>, with the recursion and the loop of \<open>pick\<close> as two functions over the
  charges still to be tried), and the attachments. \<open>State.Group\<close> compresses paths, so the
  state is threaded through every call of it.
\<close>

definition ChargePrecedence :: int where "ChargePrecedence = 400"

definition maxChargeSubset :: nat where "maxChargeSubset = 3"

definition Charge_Expand :: expander where
  "Charge_Expand userID ps r held = expandByDay userID ps r held"

definition isCharge :: "GroupingPosting \<Rightarrow> bool" where
  "isCharge p \<longleftrightarrow> isMoney p \<and> p_Quantity p \<noteq> 0 \<and> MustBe (p_Declared p) [EXPENSE]"

definition unexplained :: "GroupingPosting \<Rightarrow> GroupingPosting list \<Rightarrow> decimal \<times> bool" where
  "unexplained asset grp =
     (if isMoney asset then (0, False)
      else case p_SettlementAmount asset of
        None \<Rightarrow> (0, False)
      | Some amount \<Rightarrow>
          if \<not> p_Quantity asset > 0 then (0, False)
          else let gap = fold (\<lambda>m gap.
                  if p_ID m = p_ID asset then gap
                  else if isCharge m then gap - \<bar>p_Quantity m\<bar>
                  else if isMoney m \<and> MayBe (p_Declared m) [TRADE_CASH] then gap - \<bar>p_Quantity m\<bar>
                  else gap) grp \<bar>amount\<bar>
               in (gap, gap > 0))"

fun pick :: "decimal \<Rightarrow> GroupingPosting list \<Rightarrow> decimal \<Rightarrow> nat \<Rightarrow> string list \<Rightarrow> string list option"
and pick_from :: "decimal \<Rightarrow> GroupingPosting list \<Rightarrow> decimal \<Rightarrow> nat \<Rightarrow> string list \<Rightarrow> string list option" where
  "pick tol charges left n acc =
     (if \<bar>left\<bar> < tol \<and> length acc > 0 then Some acc
      else case n of 0 \<Rightarrow> None | Suc d \<Rightarrow> pick_from tol charges left d acc)"
| "pick_from tol [] left d acc = None"
| "pick_from tol (c # cs) left d acc =
     (let amount = \<bar>p_Quantity c\<bar> in
      if amount - left > tol then pick_from tol cs left d acc
      else case pick tol cs (left - amount) d (acc @ [p_ID c]) of
          Some got \<Rightarrow> Some got
        | None \<Rightarrow> pick_from tol cs left d acc)"

fun try_sizes :: "nat list \<Rightarrow> GroupingPosting list \<Rightarrow> decimal \<Rightarrow> decimal \<Rightarrow> string list option" where
  "try_sizes [] charges gap tol = None"
| "try_sizes (n # sizes) charges gap tol = (case pick tol charges gap n [] of
       Some got \<Rightarrow> Some got | None \<Rightarrow> try_sizes sizes charges gap tol)"

definition subsetSumming :: "GroupingPosting list \<Rightarrow> decimal \<Rightarrow> decimal \<Rightarrow> string list option" where
  "subsetSumming charges gap tol = try_sizes [1..<Suc maxChargeSubset] charges gap tol"

fun resolvedOfPosting :: "GroupingPosting list \<Rightarrow> string \<Rightarrow> TxType" where
  "resolvedOfPosting [] i = TX_TYPE_UNSPECIFIED"
| "resolvedOfPosting (p # ps) i = (if p_ID p = i then Resolve (p_Declared p) else resolvedOfPosting ps i)"

record chargeCandidate =
  cc_anchorID :: string
  cc_chargeIDs :: "string list"

definition charge_betterThan :: "chargeCandidate \<Rightarrow> chargeCandidate \<Rightarrow> bool" where
  "charge_betterThan c o' =
     (if length (cc_chargeIDs c) \<noteq> length (cc_chargeIDs o')
      then length (cc_chargeIDs c) < length (cc_chargeIDs o')
      else cc_anchorID c < cc_anchorID o')"

text \<open>The three loops that read: groups, free charges per bucket, candidates.\<close>

definition read_groups ::
    "GroupingPosting list \<Rightarrow> State \<Rightarrow> State \<times> (string \<times> GroupingPosting list) list" where
  "read_groups ps st =
     fold (\<lambda>p (st, m). let (st, g) = Group_of st (p_ID p); (st, g') = Group_of st (p_ID p)
             in (st, AList.update g (mm_get m g' @ [p]) m)) ps (st, [])"

definition free_charges ::
    "GroupingPosting list \<Rightarrow> State \<Rightarrow> ((string \<times> int) \<times> GroupingPosting list) list" where
  "free_charges ps st =
     map (\<lambda>(k, cs). (k, go_sort (\<lambda>a b. p_ID a < p_ID b) cs))
       (mm_build (map (\<lambda>p. (bucket p, p))
          (filter (\<lambda>p. \<not> (Taken st (p_ID p) \<or> \<not> isCharge p)) ps)))"

definition charge_candidates ::
    "GroupingPosting list \<Rightarrow> (string \<times> GroupingPosting list) list
     \<Rightarrow> ((string \<times> int) \<times> GroupingPosting list) list \<Rightarrow> Opts \<Rightarrow> State \<Rightarrow> State \<times> chargeCandidate list" where
  "charge_candidates ps byGroup free opts st =
     fold (\<lambda>p (st, cands).
         let (st, g) = Group_of st (p_ID p); (gap, ok) = unexplained p (mm_get byGroup g) in
         if \<not> ok then (st, cands)
         else case subsetSumming (mm_get free (bucket p)) gap (o_Money opts) of
             None \<Rightarrow> (st, cands)
           | Some is \<Rightarrow> (st, cands @ [\<lparr>cc_anchorID = p_ID p, cc_chargeIDs = is\<rparr>])) ps (st, [])"

definition Charge_Apply :: applier where
  "Charge_Apply ps st opts =
     (let (st, byGroup) = read_groups ps st;
          free = free_charges ps st;
          (st, cands) = charge_candidates ps byGroup free opts st
      in fold (\<lambda>c st. fst (Attach st (cc_anchorID c)
             (map (\<lambda>i. \<lparr>m_ID = i, m_Resolved = resolvedOfPosting ps i\<rparr>) (cc_chargeIDs c))))
           (go_sort charge_betterThan cands) st)"

definition Charge :: Rule where
  "Charge = \<lparr>r_Name = ''charge'', r_Precedence = ChargePrecedence, r_Expand = Charge_Expand,
     r_Apply = Charge_Apply\<rparr>"

subsection \<open>The search\<close>

abbreviation amounts :: "GroupingPosting list \<Rightarrow> decimal" where
  "amounts cs \<equiv> (\<Sum>c \<leftarrow> cs. \<bar>p_Quantity c\<bar>)"

declare pick.simps [simp del]

lemma amounts_nonneg: "0 \<le> amounts cs"
  by (rule sum_list_nonneg) auto

lemma pick_sound:
  "pick tol cs left d acc = Some r \<Longrightarrow>
     \<exists>sub. subseq sub cs \<and> r = acc @ map p_ID sub \<and> length sub \<le> d \<and> \<bar>left - amounts sub\<bar> < tol \<and> r \<noteq> []"
  "pick_from tol cs left d acc = Some r \<Longrightarrow>
     \<exists>sub. subseq sub cs \<and> r = acc @ map p_ID sub \<and> length sub \<le> Suc d \<and> \<bar>left - amounts sub\<bar> < tol \<and> r \<noteq> []"
proof (induction tol cs left d acc and tol cs left d acc arbitrary: r and r rule: pick_pick_from.induct)
  case (1 tol cs left d acc)
  then show ?case by (force simp: pick.simps [of tol cs left d acc] split: if_splits nat.splits)
next
  case (3 tol c cs left d acc)
  let ?a = "\<bar>p_Quantity c\<bar>"
  show ?case
  proof (cases "?a - left > tol \<or> pick tol cs (left - ?a) d (acc @ [p_ID c]) = None")
    case True
    then have "pick_from tol cs left d acc = Some r" using 3(4) by (auto simp: Let_def split: if_splits)
    then have "\<exists>sub. subseq sub cs \<and> r = acc @ map p_ID sub \<and> length sub \<le> Suc d \<and> \<bar>left - amounts sub\<bar> < tol \<and> r \<noteq> []"
      using 3(1,3) True by (cases "?a - left > tol") auto
    then show ?thesis using list_emb_Cons [of "(=)" _ cs c] by blast
  next
    case False
    then have "pick tol cs (left - ?a) d (acc @ [p_ID c]) = Some r" using 3(4) by (auto simp: Let_def)
    then obtain sub where s: "subseq sub cs" "r = acc @ [p_ID c] @ map p_ID sub" "length sub \<le> d"
      "\<bar>left - ?a - amounts sub\<bar> < tol" using 3(2) False by fastforce
    then show ?thesis by (intro exI [of _ "c # sub"]) (auto simp: algebra_simps)
  qed
qed simp

lemma pick_complete:
  "subseq sub cs \<Longrightarrow> length sub \<le> d \<Longrightarrow> \<bar>left - amounts sub\<bar> < tol \<Longrightarrow> acc \<noteq> [] \<or> sub \<noteq> [] \<Longrightarrow>
     pick tol cs left d acc \<noteq> None"
  "subseq sub cs \<Longrightarrow> length sub \<le> Suc d \<Longrightarrow> \<bar>left - amounts sub\<bar> < tol \<Longrightarrow> sub \<noteq> [] \<Longrightarrow>
     pick_from tol cs left d acc \<noteq> None"
proof (induction tol cs left d acc and tol cs left d acc arbitrary: sub and sub rule: pick_pick_from.induct)
  case (1 tol cs left d acc)
  show ?case
  proof (cases "\<bar>left\<bar> < tol \<and> acc \<noteq> []")
    case False
    then have "sub \<noteq> []" using 1(4,5) by auto
    with 1(3) obtain d' where "d = Suc d'" by (cases d) auto
    with 1 False \<open>sub \<noteq> []\<close> show ?thesis by (auto simp: pick.simps)
  qed (simp add: pick.simps)
next
  case (3 tol c cs left d acc)
  let ?a = "\<bar>p_Quantity c\<bar>"
  obtain x sub' where sub: "sub = x # sub'" using 3(7) by (cases sub) auto
  show ?case
  proof (cases "x = c \<and> subseq sub' cs")
    case True
    have "0 \<le> amounts sub'" by (rule amounts_nonneg)
    then have "\<not> ?a - left > tol" using 3(6) sub True by (auto simp: abs_less_iff)
    moreover have "pick tol cs (left - ?a) d (acc @ [p_ID c]) \<noteq> None"
      by (rule 3(2) [OF refl calculation]) (use 3(5,6) sub True in \<open>auto simp: algebra_simps\<close>)
    ultimately show ?thesis by (auto simp: Let_def)
  next
    case False
    then have "subseq sub cs" using 3(4) sub by (auto elim: list_emb.cases)
    then have "pick_from tol cs left d acc \<noteq> None" if "?a - left > tol \<or> pick tol cs (left - ?a) d (acc @ [p_ID c]) = None"
      using 3(1,3,5-7) that by (cases "?a - left > tol") auto
    then show ?thesis by (auto simp: Let_def split: option.splits)
  qed
qed simp

lemma try_sizes_Some:
  assumes "try_sizes ns cs gap tol = Some r"
  obtains ms n ks where "ns = ms @ n # ks" "\<forall>m \<in> set ms. pick tol cs gap m [] = None"
    "pick tol cs gap n [] = Some r"
  using assms
proof (induction ns arbitrary: thesis)
  case (Cons n ns)
  show thesis
  proof (cases "pick tol cs gap n []")
    case None
    with Cons.prems(2) have "try_sizes ns cs gap tol = Some r" by simp
    then obtain ms k ks where "ns = ms @ k # ks" "\<forall>m \<in> set ms. pick tol cs gap m [] = None"
      "pick tol cs gap k [] = Some r" using Cons.IH by blast
    then show thesis using None Cons.prems(1) [of "n # ms" k ks] by simp
  next
    case (Some got)
    then show thesis using Cons.prems(1) [of "[]" n ns] Cons.prems(2) by simp
  qed
qed simp

lemma try_sizes_None: "try_sizes ns cs gap tol = None \<longleftrightarrow> (\<forall>n \<in> set ns. pick tol cs gap n [] = None)"
  by (induction ns) (auto split: option.splits)

text \<open>
  C33. The search for charges is exact within its bound: it fails exactly when no one, two or three
  of the charges sum to the gap within the tolerance, and what it returns is the ids of such a
  choice, in the order of the list, of the least size there is. The pruning of charges larger
  than what is left loses nothing.
\<close>

theorem subsetSumming_smallest_explanation:
  "(subsetSumming charges gap tol = None \<longleftrightarrow>
      (\<nexists>sub. subseq sub charges \<and> 1 \<le> length sub \<and> length sub \<le> 3
         \<and> \<bar>gap - (\<Sum>c \<leftarrow> sub. \<bar>p_Quantity c\<bar>)\<bar> < tol))
   \<and> (\<forall>is. subsetSumming charges gap tol = Some is \<longrightarrow>
      (\<exists>sub. subseq sub charges \<and> is = map p_ID sub \<and> 1 \<le> length sub \<and> length sub \<le> 3
         \<and> \<bar>gap - (\<Sum>c \<leftarrow> sub. \<bar>p_Quantity c\<bar>)\<bar> < tol
         \<and> (\<forall>sub'. subseq sub' charges \<and> 1 \<le> length sub'
              \<and> \<bar>gap - (\<Sum>c \<leftarrow> sub'. \<bar>p_Quantity c\<bar>)\<bar> < tol \<longrightarrow> length sub \<le> length sub')))"
proof -
  let ?fits = "\<lambda>sub. subseq sub charges \<and> 1 \<le> length sub \<and> \<bar>gap - amounts sub\<bar> < tol"
  have sizes: "[1..<Suc maxChargeSubset] = [1, 2, 3]" by (simp add: maxChargeSubset_def upt_rec numeral_3_eq_3)
  have none: "pick tol charges gap n [] = None \<longleftrightarrow> (\<nexists>sub. ?fits sub \<and> length sub \<le> n)" for n
  proof
    assume "pick tol charges gap n [] = None"
    then show "\<nexists>sub. ?fits sub \<and> length sub \<le> n" using pick_complete(1) [of _ charges n gap tol "[]"] by fastforce
  next
    assume no: "\<nexists>sub. ?fits sub \<and> length sub \<le> n"
    show "pick tol charges gap n [] = None"
    proof (rule ccontr)
      assume "pick tol charges gap n [] \<noteq> None"
      then obtain r where "pick tol charges gap n [] = Some r" by blast
      from pick_sound(1) [OF this] no show False by (fastforce simp: Suc_le_eq)
    qed
  qed
  have "\<exists>sub. ?fits sub \<and> is = map p_ID sub \<and> length sub \<le> 3 \<and> (\<forall>sub'. ?fits sub' \<longrightarrow> length sub \<le> length sub')"
    if "subsetSumming charges gap tol = Some is" for "is"
  proof -
    from that obtain ms n ks where n: "[1, 2, 3] = ms @ n # ks" "\<forall>m \<in> set ms. pick tol charges gap m [] = None"
      "pick tol charges gap n [] = Some is" unfolding subsetSumming_def sizes by (rule try_sizes_Some)
    from n(1) have cases: "n \<in> {1, 2, 3}" "\<forall>m. 1 \<le> m \<and> m < n \<longrightarrow> m \<in> set ms"
      by (auto simp: Cons_eq_append_conv)
    from pick_sound(1) [OF n(3)] obtain sub where s: "?fits sub" "is = map p_ID sub" "length sub \<le> n"
      by (fastforce simp: Suc_le_eq)
    have "length sub \<le> length sub'" if f: "?fits sub'" for sub'
    proof (rule ccontr)
      assume "\<not> length sub \<le> length sub'"
      then have "length sub' \<in> set ms" using s(3) cases(2) f by auto
      then show False using n(2) none f by blast
    qed
    with s cases(1) show ?thesis by (intro exI [of _ sub]) auto
  qed
  moreover have "subsetSumming charges gap tol = None \<longleftrightarrow> (\<nexists>sub. ?fits sub \<and> length sub \<le> 3)"
    unfolding subsetSumming_def sizes try_sizes_None none by (auto intro: le_trans)
  ultimately show ?thesis by blast
qed

theorem subsetSumming_smallest_explanation_witness:
  "length (the (subsetSumming [sample ''a'' [EXPENSE] (- 2), sample ''b'' [EXPENSE] (- 3),
     sample ''c'' [EXPENSE] (- 5)] 5 (5 / 1000))) = 1"
proof -
  let ?cs = "[sample ''a'' [EXPENSE] (- 2), sample ''b'' [EXPENSE] (- 3), sample ''c'' [EXPENSE] (- 5)]"
  let ?r = "subsetSumming ?cs 5 (5 / 1000)"
  have c: "subseq [sample ''c'' [EXPENSE] (- 5)] ?cs" by (simp add: subseq_singleton_left)
  note S = subsetSumming_smallest_explanation [of ?cs 5 "5 / 1000"]
  have "?r \<noteq> None" using S c by fastforce
  then obtain ids where r: "?r = Some ids" by blast
  from S [THEN conjunct2, rule_format, OF this] show ?thesis
  proof (elim exE conjE)
    fix sub
    assume sub: "ids = map p_ID sub" "1 \<le> length sub"
      and least: "\<forall>sub'. subseq sub' ?cs \<and> 1 \<le> length sub' \<and> \<bar>5 - (\<Sum>c \<leftarrow> sub'. \<bar>p_Quantity c\<bar>)\<bar> < 5 / 1000
       \<longrightarrow> length sub \<le> length sub'"
    have "length sub \<le> length [sample ''c'' [EXPENSE] (- 5)]" by (rule least [rule_format]) (use c in simp)
    with r sub show ?thesis by simp
  qed
qed

subsection \<open>The rule keeps the contract\<close>

definition charge_term :: "GroupingPosting \<Rightarrow> GroupingPosting \<Rightarrow> decimal" where
  "charge_term asset m =
     (if p_ID m \<noteq> p_ID asset \<and> (isCharge m \<or> isMoney m \<and> MayBe (p_Declared m) [TRADE_CASH])
      then \<bar>p_Quantity m\<bar> else 0)"

lemma gap_fold:
  "fold (\<lambda>m gap.
      if p_ID m = p_ID asset then gap
      else if isCharge m then gap - \<bar>p_Quantity m\<bar>
      else if isMoney m \<and> MayBe (p_Declared m) [TRADE_CASH] then gap - \<bar>p_Quantity m\<bar>
      else gap) grp x = x - (\<Sum>m \<leftarrow> grp. charge_term asset m)"
  by (induction grp arbitrary: x) (auto simp: charge_term_def)

lemma unexplained_perm:
  assumes "mset grp = mset grp'"
  shows "unexplained asset grp = unexplained asset grp'"
proof -
  have "(\<Sum>m \<leftarrow> grp. charge_term asset m) = (\<Sum>m \<leftarrow> grp'. charge_term asset m)"
    using assms by (metis mset_map sum_mset_sum_list)
  then show ?thesis by (simp add: unexplained_def gap_fold split: option.splits)
qed

lemma read_groups_view:
  assumes "valid st"
  shows "valid (fst (read_groups ps st))" "abs_state (fst (read_groups ps st)) = abs_state st"
    "mm_get (snd (read_groups ps st)) g = filter (\<lambda>p. a_group (abs_state st) (p_ID p) = g) ps"
proof -
  let ?f = "\<lambda>p (st, m). let (st, g) = Group_of st (p_ID p); (st, g') = Group_of st (p_ID p)
             in (st, AList.update g (mm_get m g' @ [p]) m)"
  have "valid (fst (fold ?f ps (st, m))) \<and> abs_state (fst (fold ?f ps (st, m))) = abs_state st
    \<and> mm_get (snd (fold ?f ps (st, m))) g = mm_get m g @ filter (\<lambda>p. a_group (abs_state st) (p_ID p) = g) ps"
    for m using assms
  proof (induction ps arbitrary: st m)
    case (Cons p ps)
    obtain s1 g1 where 1: "Group_of st (p_ID p) = (s1, g1)" by fastforce
    obtain s2 g2 where 2: "Group_of s1 (p_ID p) = (s2, g2)" by fastforce
    have v1: "valid s1" "abs_state s1 = abs_state st" "g1 = a_group (abs_state st) (p_ID p)"
      using store.store_laws(7-9) [OF Cons.prems, of "p_ID p"] 1 by simp_all
    have v2: "valid s2" "abs_state s2 = abs_state st" "g2 = g1"
      using store.store_laws(7-9) [OF v1(1), of "p_ID p"] 2 v1 by simp_all
    have "?f p (st, m) = (s2, mm_append g1 p m)" using 1 2 v2(3) by (simp add: mm_append_def)
    then show ?case using Cons.IH [OF v2(1), of "mm_append g1 p m"] v1(3) v2(2)
      by (simp add: mm_get_append)
  qed simp
  from this [of "[]"] show "valid (fst (read_groups ps st))" "abs_state (fst (read_groups ps st)) = abs_state st"
    "mm_get (snd (read_groups ps st)) g = filter (\<lambda>p. a_group (abs_state st) (p_ID p) = g) ps"
    by (simp_all add: read_groups_def mm_get_def)
qed

text \<open>The candidates as a function of the partition a rule can observe.\<close>

definition group_gap :: "GroupingPosting list \<Rightarrow> APart \<Rightarrow> GroupingPosting \<Rightarrow> decimal \<times> bool" where
  "group_gap ps P p = unexplained p (filter (\<lambda>q. a_group P (p_ID q) = a_group P (p_ID p)) ps)"

definition bucket_charges :: "GroupingPosting list \<Rightarrow> APart \<Rightarrow> GroupingPosting \<Rightarrow> GroupingPosting list" where
  "bucket_charges ps P p = go_sort (\<lambda>a b. p_ID a < p_ID b)
     (filter (\<lambda>q. \<not> a_claimed P (p_ID q) \<and> isCharge q \<and> bucket q = bucket p) ps)"

definition explanation :: "GroupingPosting list \<Rightarrow> APart \<Rightarrow> Opts \<Rightarrow> GroupingPosting \<Rightarrow> string list option" where
  "explanation ps P opts p = (let (gap, ok) = group_gap ps P p in
     if ok then subsetSumming (bucket_charges ps P p) gap (o_Money opts) else None)"

definition explained :: "GroupingPosting list \<Rightarrow> APart \<Rightarrow> Opts \<Rightarrow> GroupingPosting \<Rightarrow> chargeCandidate list" where
  "explained ps P opts p = (case explanation ps P opts p of
     None \<Rightarrow> [] | Some is \<Rightarrow> [\<lparr>cc_anchorID = p_ID p, cc_chargeIDs = is\<rparr>])"

lemma mm_get_map: "f [] = [] \<Longrightarrow> mm_get (map (\<lambda>(k, v). (k, f v)) m) k = f (mm_get m k)"
  by (induction m) (auto simp: mm_get_def)

lemma free_charges_view:
  "mm_get (free_charges ps st) (bucket p) = bucket_charges ps (abs_state st) p"
proof -
  have "map snd (filter (\<lambda>kv. fst kv = bucket p) (map (\<lambda>p. (bucket p, p)) xs))
      = filter (\<lambda>q. bucket q = bucket p) xs" for xs :: "GroupingPosting list"
    by (induction xs) auto
  then show ?thesis
    by (simp add: free_charges_def bucket_charges_def mm_get_map mm_get_build Taken_def conj_ac)
qed

lemma charge_candidates_view:
  assumes "valid st" "\<And>g. mm_get byGroup g = filter (\<lambda>q. a_group (abs_state st) (p_ID q) = g) ps"
    and "\<And>p. mm_get free (bucket p) = bucket_charges ps (abs_state st) p"
  shows "valid (fst (charge_candidates qs byGroup free opts st))
    \<and> abs_state (fst (charge_candidates qs byGroup free opts st)) = abs_state st
    \<and> snd (charge_candidates qs byGroup free opts st) = concat (map (explained ps (abs_state st) opts) qs)"
proof -
  let ?f = "\<lambda>p (st, cands).
         let (st, g) = Group_of st (p_ID p); (gap, ok) = unexplained p (mm_get byGroup g) in
         if \<not> ok then (st, cands)
         else case subsetSumming (mm_get free (bucket p)) gap (o_Money opts) of
             None \<Rightarrow> (st, cands)
           | Some is \<Rightarrow> (st, cands @ [\<lparr>cc_anchorID = p_ID p, cc_chargeIDs = is\<rparr>])"
  let ?P = "abs_state st"
  have "valid (fst (fold ?f qs (s, cs))) \<and> abs_state (fst (fold ?f qs (s, cs))) = ?P
    \<and> snd (fold ?f qs (s, cs)) = cs @ concat (map (explained ps ?P opts) qs)"
    if "valid s" "abs_state s = ?P" for s cs
    using that
  proof (induction qs arbitrary: s cs)
    case (Cons p qs)
    obtain s1 g where G: "Group_of s (p_ID p) = (s1, g)" by fastforce
    have v: "valid s1" "abs_state s1 = ?P" "g = a_group ?P (p_ID p)"
      using store.store_laws(7-9) [OF Cons.prems(1), of "p_ID p"] G Cons.prems(2) by simp_all
    have "?f p (s, cs) = (s1, cs @ explained ps ?P opts p)"
      using G v(3) unfolding explained_def explanation_def group_gap_def
      by (auto simp: assms(2,3) split: prod.splits option.splits)
    then show ?case using Cons.IH [OF v(1,2), of "cs @ explained ps ?P opts p"] by simp
  qed simp
  from this [OF assms(1) refl, of "[]"] show ?thesis by (simp add: charge_candidates_def)
qed

definition attach_charges :: "GroupingPosting list \<Rightarrow> chargeCandidate \<Rightarrow> State \<Rightarrow> State" where
  "attach_charges ps c st = fst (Attach st (cc_anchorID c)
     (map (\<lambda>i. \<lparr>m_ID = i, m_Resolved = resolvedOfPosting ps i\<rparr>) (cc_chargeIDs c)))"

abbreviation all_explained :: "GroupingPosting list \<Rightarrow> APart \<Rightarrow> Opts \<Rightarrow> chargeCandidate list" where
  "all_explained ps P opts \<equiv> concat (map (explained ps P opts) ps)"

lemma Charge_Apply_view:
  assumes "valid st"
  obtains st' where "valid st'" "abs_state st' = abs_state st"
    "Charge_Apply ps st opts
       = fold (attach_charges ps) (go_sort charge_betterThan (all_explained ps (abs_state st) opts)) st'"
proof -
  obtain s1 byGroup where 1: "read_groups ps st = (s1, byGroup)" by fastforce
  note r = read_groups_view [OF assms, of ps, unfolded 1 fst_conv snd_conv]
  let ?free = "free_charges ps s1"
  obtain s2 cands where 2: "charge_candidates ps byGroup ?free opts s1 = (s2, cands)" by fastforce
  have "valid s2 \<and> abs_state s2 = abs_state s1 \<and> cands = all_explained ps (abs_state s1) opts"
    using charge_candidates_view [OF r(1), of byGroup ps ?free ps opts] r(2,3) free_charges_view 2 by simp
  then show thesis
    using that [of s2] r(2) 1 2 by (simp add: Charge_Apply_def attach_charges_def [abs_def])
qed

lemma subseq_set: "subseq xs ys \<Longrightarrow> set xs \<subseteq> set ys"
  by (induction rule: list_emb.induct) auto

lemma subseq_distinct: "subseq xs ys \<Longrightarrow> distinct (map f ys) \<Longrightarrow> distinct (map f xs)"
  by (induction rule: list_emb.induct) (auto dest: subseq_set)

lemma subsetSumming_sound:
  assumes "subsetSumming charges gap tol = Some is"
  shows "\<exists>sub. subseq sub charges \<and> is = map p_ID sub \<and> is \<noteq> [] \<and> length is \<le> 3 \<and> \<bar>gap - amounts sub\<bar> < tol"
proof -
  have sizes: "[1..<Suc maxChargeSubset] = [1, 2, 3]" by (simp add: maxChargeSubset_def upt_rec numeral_3_eq_3)
  from assms obtain n where "n \<in> {1, 2, 3}" "pick tol charges gap n [] = Some is"
    unfolding subsetSumming_def sizes by (elim try_sizes_Some) (auto simp: Cons_eq_append_conv)
  with pick_sound(1) [OF this(2)] show ?thesis by fastforce
qed

lemma explained_cases:
  assumes "c \<in> set (explained ps P opts p)"
  obtains sub gap where "cc_anchorID c = p_ID p" "cc_chargeIDs c = map p_ID sub" "set sub \<subseteq> set ps"
    "distinct (map p_ID ps) \<Longrightarrow> distinct (map p_ID sub)"
    "\<forall>q \<in> set sub. isCharge q \<and> bucket q = bucket p \<and> \<not> a_claimed P (p_ID q)"
    "group_gap ps P p = (gap, True)" "\<bar>gap - amounts sub\<bar> < o_Money opts" "sub \<noteq> []" "length sub \<le> 3"
proof -
  obtain gap ok where g: "group_gap ps P p = (gap, ok)" by fastforce
  from assms have ok: ok and e: "subsetSumming (bucket_charges ps P p) gap (o_Money opts) = Some (cc_chargeIDs c)"
    "cc_anchorID c = p_ID p"
    by (auto simp: explained_def explanation_def g split: option.splits if_splits)
  from subsetSumming_sound [OF e(1)] obtain sub where s: "subseq sub (bucket_charges ps P p)"
    "cc_chargeIDs c = map p_ID sub" "sub \<noteq> []" "length sub \<le> 3" "\<bar>gap - amounts sub\<bar> < o_Money opts" by fastforce
  have sub: "set sub \<subseteq> set (bucket_charges ps P p)" using s(1) by (rule subseq_set)
  have d: "distinct (map p_ID sub)" if "distinct (map p_ID ps)"
  proof -
    have "distinct (bucket_charges ps P p)" "inj_on p_ID (set (bucket_charges ps P p))"
      using that by (auto simp: bucket_charges_def distinct_map intro: inj_on_subset)
    then show ?thesis using subseq_distinct [OF s(1)] by (simp add: distinct_map)
  qed
  show thesis
    using that [OF e(2) s(2) _ d _ _ s(5,3,4)] sub g ok by (auto simp: bucket_charges_def)
qed

lemma resolvedOfPosting_in:
  "i \<in> ids_of ps \<Longrightarrow> \<exists>p \<in> set ps. p_ID p = i \<and> resolvedOfPosting ps i = Resolve (p_Declared p)"
  by (induction ps) auto

lemma resolvedOfPosting_perm:
  assumes "proper ps" "set ps = set ps'"
  shows "resolvedOfPosting ps i = resolvedOfPosting ps' i"
proof (cases "i \<in> ids_of ps")
  case True
  then obtain p q where "p \<in> set ps" "p_ID p = i" "resolvedOfPosting ps i = Resolve (p_Declared p)"
    "q \<in> set ps'" "p_ID q = i" "resolvedOfPosting ps' i = Resolve (p_Declared q)"
    using resolvedOfPosting_in [of i ps] resolvedOfPosting_in [of i ps'] assms(2) by auto
  then show ?thesis using inj_onD [OF proper_inj [OF assms(1)], of p q] assms(2) by simp
next
  case False
  have "i \<notin> ids_of xs \<Longrightarrow> resolvedOfPosting xs i = TX_TYPE_UNSPECIFIED" for xs
    by (induction xs) auto
  then show ?thesis using False assms(2) by simp
qed

lemma attach_charges_ok:
  assumes "valid s" "set (cc_chargeIDs c) \<subseteq> ids_of ps"
  shows "ok_run ps s (attach_charges ps c s)"
  unfolding attach_charges_def
proof (rule ok_run_Attach [OF assms(1)])
  fix m
  assume "m \<in> set (map (\<lambda>i. \<lparr>m_ID = i, m_Resolved = resolvedOfPosting ps i\<rparr>) (cc_chargeIDs c))"
  then obtain i where "i \<in> ids_of ps" "m = \<lparr>m_ID = i, m_Resolved = resolvedOfPosting ps i\<rparr>"
    using assms(2) by auto
  moreover from resolvedOfPosting_in [OF this(1)] obtain p where "p \<in> set ps" "p_ID p = i"
    "resolvedOfPosting ps i = Resolve (p_Declared p)" by blast
  ultimately show "admissible ps (m_ID m) (m_Resolved m)"
    using admissible_Resolve [of p ps] by simp
qed

lemma all_explained_ids: "c \<in> set (all_explained ps P opts) \<Longrightarrow> set (cc_chargeIDs c) \<subseteq> ids_of ps"
proof -
  assume "c \<in> set (all_explained ps P opts)"
  then obtain p where "c \<in> set (explained ps P opts p)" by auto
  then show ?thesis by (rule explained_cases) (simp add: image_mono)
qed

lemma Charge_Apply_ok:
  assumes "valid s"
  shows "ok_run ps s (Charge_Apply ps s opts)"
proof -
  obtain s' where s': "valid s'" "abs_state s' = abs_state s" "Charge_Apply ps s opts
       = fold (attach_charges ps) (go_sort charge_betterThan (all_explained ps (abs_state s) opts)) s'"
    using Charge_Apply_view [OF assms] by metis
  have "ok_run ps s' (Charge_Apply ps s opts)"
    unfolding s'(3)
    by (rule ok_run_fold [OF _ s'(1)], rule attach_charges_ok) (simp_all only: set_go_sort all_explained_ids)
  then show ?thesis using s'(2) by (simp add: ok_run_def)
qed

abbreviation charge_key :: "chargeCandidate \<Rightarrow> nat \<times> string" where
  "charge_key c \<equiv> (length (cc_chargeIDs c), cc_anchorID c)"

lemma charge_betterThan_key: "charge_betterThan a b \<longleftrightarrow> charge_key a < charge_key b"
  by (auto simp: charge_betterThan_def less_prod_def')

lemma explained_anchor: "c \<in> set (explained ps P opts p) \<Longrightarrow> cc_anchorID c = p_ID p"
  by (auto simp: explained_def split: option.splits)

lemma explained_unique: "c \<in> set (explained ps P opts p) \<Longrightarrow> d \<in> set (explained ps P opts p) \<Longrightarrow> c = d"
  by (cases "explanation ps P opts p") (simp_all add: explained_def)

lemma charge_key_inj:
  assumes "proper ps"
  shows "inj_on charge_key (set (all_explained ps P opts))"
proof (rule inj_onI)
  fix c d
  assume cd: "c \<in> set (all_explained ps P opts)" "d \<in> set (all_explained ps P opts)"
    and eq: "charge_key c = charge_key d"
  from cd obtain p q where "p \<in> set ps" "c \<in> set (explained ps P opts p)" "q \<in> set ps"
    "d \<in> set (explained ps P opts q)" by auto
  moreover from this eq have "p = q"
    using explained_anchor inj_onD [OF proper_inj [OF assms], of p q] by auto
  ultimately show "c = d" using explained_unique by blast
qed

lemma explained_perm:
  assumes "proper ps" "mset ps = mset ps'"
  shows "explained ps P opts p = explained ps' P opts p"
proof -
  have "bucket_charges ps P p = bucket_charges ps' P p"
    unfolding bucket_charges_def
    by (rule sort_ids_perm) (use assms proper_inj [OF assms(1)] in \<open>auto intro: inj_on_subset\<close>)
  moreover have "group_gap ps P p = group_gap ps' P p"
    unfolding group_gap_def by (rule unexplained_perm) (simp add: assms(2))
  ultimately show ?thesis by (simp only: explained_def explanation_def)
qed

lemma Charge_Apply_sim:
  assumes "proper ps" "mset ps = mset ps'" "sim s t"
  shows "sim (Charge_Apply ps s opts) (Charge_Apply ps' t opts)"
proof -
  let ?P = "abs_state s"
  note st = simD [OF assms(3)]
  obtain s' where s': "valid s'" "abs_state s' = ?P" "Charge_Apply ps s opts
       = fold (attach_charges ps) (go_sort charge_betterThan (all_explained ps ?P opts)) s'"
    using Charge_Apply_view [OF st(1)] by metis
  obtain t' where t': "valid t'" "abs_state t' = ?P" "Charge_Apply ps' t opts
       = fold (attach_charges ps') (go_sort charge_betterThan (all_explained ps' ?P opts)) t'"
    using Charge_Apply_view [OF st(2)] st(3) by metis
  have "mset (all_explained ps ?P opts) = mset (all_explained ps' ?P opts)"
    using mset_concat_map_perm [OF assms(2), of "explained ps ?P opts"]
    by (simp only: explained_perm [OF assms(1,2)] cong: map_cong)
  then have sort: "go_sort charge_betterThan (all_explained ps ?P opts) = go_sort charge_betterThan (all_explained ps' ?P opts)"
    by (rule go_sort_perm [OF _ charge_betterThan_key charge_key_inj [OF assms(1)]])
  have "attach_charges ps = attach_charges ps'"
    using resolvedOfPosting_perm [OF assms(1) mset_eq_setD [OF assms(2)]] by (auto simp: attach_charges_def fun_eq_iff)
  moreover have "sim s' t'" using s' t' by (simp add: sim_def)
  ultimately show ?thesis
    unfolding s'(3) t'(3) sort by (auto intro!: sim_fold simp: attach_charges_def sim_Attach)
qed

interpretation charge: grouping_rule Charge_Apply
  by unfold_locales (rule Charge_Apply_ok Charge_Apply_sim; assumption)+

subsection \<open>What the rule attaches\<close>

text \<open>
  A charge is attached only as part of an explanation: every posting the rule takes belongs
  to a set of at most three free charges, in the account and on the day of an acquisition,
  whose amounts sum to within the tolerance of what that acquisition's own figures and the
  charges and cash already in its group left unaccounted for; the whole set was attached, and it
  ended in the acquisition's group.
\<close>

theorem charge_attaches_explanations:
  assumes "proper ps" "reachable ps s" "Taken (Charge_Apply ps s opts) i" "\<not> Taken s i"
  shows "\<exists>a \<in> set ps. \<exists>sub gap.
      unexplained a (filter (\<lambda>q. snd (Group_of s (p_ID q)) = snd (Group_of s (p_ID a))) ps) = (gap, True)
    \<and> set sub \<subseteq> set ps \<and> distinct (map p_ID sub) \<and> length sub \<le> 3 \<and> i \<in> p_ID ` set sub
    \<and> \<bar>gap - (\<Sum>q \<leftarrow> sub. \<bar>p_Quantity q\<bar>)\<bar> < o_Money opts
    \<and> (\<forall>q \<in> set sub. isCharge q \<and> bucket q = bucket a
         \<and> \<not> Taken s (p_ID q) \<and> Taken (Charge_Apply ps s opts) (p_ID q)
         \<and> a_rep (abs_state (Charge_Apply ps s opts)) (p_ID q) = a_rep (abs_state (Charge_Apply ps s opts)) (p_ID a))"
proof -
  let ?P = "abs_state s" and ?t = "Charge_Apply ps s opts"
  have v: "valid s" using reachable_sound [OF assms(2)] by simp
  obtain s' where s': "valid s'" "abs_state s' = ?P" "?t
       = fold (attach_charges ps) (go_sort charge_betterThan (all_explained ps ?P opts)) s'"
    using Charge_Apply_view [OF v] by metis
  have T: "Taken s' j = Taken s j" for j using s'(2) by (simp only: store.taken_view)
  have ok: "ok_run ps u (attach_charges ps c u)"
    if "c \<in> set (go_sort charge_betterThan (all_explained ps ?P opts))" "valid u" for c u
    by (rule attach_charges_ok [OF that(2)]) (use that(1) in \<open>simp only: set_go_sort all_explained_ids\<close>)
  from fold_newly_taken [OF ok s'(1) assms(3) [unfolded s'(3)], folded s'(3)] assms(4) T
  obtain c u where c: "c \<in> set (all_explained ps ?P opts)" "valid u" "\<not> Taken u i"
    "Taken (attach_charges ps c u) i" "ok_run ps (attach_charges ps c u) ?t"
    unfolding set_go_sort by blast
  let ?ms = "map (\<lambda>i. \<lparr>m_ID = i, m_Resolved = resolvedOfPosting ps i\<rparr>) (cc_chargeIDs c)"
  note A = Attach_newly_taken [OF c(2) c(4) [unfolded attach_charges_def] c(3), folded attach_charges_def]
  from c(1) obtain a where a: "a \<in> set ps" "c \<in> set (explained ps ?P opts a)" by auto
  from a(2) obtain sub gap where e: "cc_anchorID c = p_ID a" "cc_chargeIDs c = map p_ID sub" "set sub \<subseteq> set ps"
    "distinct (map p_ID sub)" "\<forall>q \<in> set sub. isCharge q \<and> bucket q = bucket a \<and> \<not> a_claimed ?P (p_ID q)"
    "group_gap ps ?P a = (gap, True)" "\<bar>gap - amounts sub\<bar> < o_Money opts" "length sub \<le> 3"
    using assms(1) by (auto simp: proper_def elim!: explained_cases)
  have gap: "unexplained a (filter (\<lambda>q. snd (Group_of s (p_ID q)) = snd (Group_of s (p_ID a))) ps) = (gap, True)"
    using e(6) by (simp add: group_gap_def store.group_name [OF v])
  have i: "i \<in> p_ID ` set sub" using A(1) e(2) by (auto simp: image_iff)
  have ext: "extends (abs_state (attach_charges ps c u)) (abs_state ?t)" by (rule ok_run_extends [OF c(5)])
  have "Taken ?t (p_ID q) \<and> a_rep (abs_state ?t) (p_ID q) = a_rep (abs_state ?t) (p_ID a)" if "q \<in> set sub" for q
  proof -
    let ?m = "\<lparr>m_ID = p_ID q, m_Resolved = resolvedOfPosting ps (p_ID q)\<rparr>"
    have "?m \<in> set ?ms" using that e(2) by auto
    from A(3) [OF this] ext e(1) show ?thesis
      by (auto simp: extends_def store.taken_view dest: coarserD simp del: abs_state_simps)
  qed
  with gap e i a(1) show ?thesis
    by (intro bexI [of _ a] exI [of _ sub] exI [of _ gap]) (simp_all add: Taken_def)
qed

text \<open>A purchase stated at 110, its cash row of 100 and a fee of 10 that day.\<close>

abbreviation purchase :: "GroupingPosting list" where
  "purchase \<equiv> [(sample ''a'' [TRADE_ASSET] 10)\<lparr>p_SettlementAmount := Some 110\<rparr>,
     sample ''b'' [TRADE_CASH] (- 100), sample ''c'' [TRANSACTION_COST] (- 10)]"

abbreviation traded :: State where
  "traded \<equiv> fst (Claim (newState purchase) [\<lparr>m_ID = ''a'', m_Resolved = TRADE_ASSET\<rparr>, \<lparr>m_ID = ''b'', m_Resolved = TRADE_CASH\<rparr>])"

lemma fee_attached: "Taken (Charge_Apply purchase traded DefaultOpts) ''c''" "\<not> Taken traded ''c''"
  by code_simp+

theorem charge_attaches_explanations_witness:
  "Taken (Charge_Apply purchase traded DefaultOpts) ''c'' \<and>
   a_rep (abs_state (Charge_Apply purchase traded DefaultOpts)) ''c''
     = a_rep (abs_state (Charge_Apply purchase traded DefaultOpts)) ''a''"
proof -
  have p: "proper purchase" by (simp add: proper_def)
  have u: "unexplained (purchase ! 1) g = (0, False)" "unexplained (purchase ! 2) g = (0, False)" for g
    by (simp_all add: unexplained_def isMoney_def MayBe_def)
  have ch: "\<not> isCharge (purchase ! 0)" "\<not> isCharge (purchase ! 1)"
    by (simp_all add: isCharge_def isMoney_def MayBe_def MustBe_def)
  from charge_attaches_explanations [OF p reachable.claim [OF reachable.start] fee_attached] fee_attached(1) u ch
  show ?thesis by (auto simp: image_iff)
qed

end
