(* ===== verification/Partition.thy ===== *)
theory Partition
  imports Rule_Token Rule_Deposit Rule_Charge
begin

text \<open>
  The engine of \<open>src/server/grouping/grouping.go\<close>: the default rule table, \<open>Partition\<close>, which
  runs the rules in precedence order over a new partition, and \<open>groups\<close>, which reads it out.

  The locale \<open>rule_table\<close> is what \<open>Partition\<close> relies on, that every rule of the table keeps the
  contract \<open>grouping_rule\<close>; it is interpreted on \<open>DefaultRules\<close>, and the properties of the
  engine follow for the rules it ships with. \<open>decimal.Div\<close>, which one rule calls, is the
  parameter \<open>ddiv\<close>; nothing is assumed of it.
\<close>

definition DefaultRules :: "(decimal \<Rightarrow> decimal \<Rightarrow> decimal) \<Rightarrow> Rule list" where
  "DefaultRules ddiv = [Exact, Disposal ddiv, Acquisition ddiv, CashTrade, Deposit, Attaches, Charge]"

definition rule_before :: "Rule \<Rightarrow> Rule \<Rightarrow> bool" where
  "rule_before a b =
     (if r_Precedence a \<noteq> r_Precedence b then r_Precedence a > r_Precedence b
      else r_Name a < r_Name b)"

definition groups :: "State \<Rightarrow> GroupingPosting list \<Rightarrow> Group list" where
  "groups s ps =
     (let (s, byRoot) = fold (\<lambda>p (s, m).
            let r = (case s_resolved s (p_ID p) of Some t \<Rightarrow> t | None \<Rightarrow> Resolve (p_Declared p));
                (s, root) = find s (p_ID p)
            in (s, mm_append root \<lparr>m_ID = p_ID p, m_Resolved = r\<rparr> m)) ps (s, []);
          roots = go_sort (<) (map fst byRoot)
      in map (\<lambda>root. \<lparr>g_Members = go_sort (\<lambda>a b. m_ID a < m_ID b) (mm_get byRoot root)\<rparr>) roots)"

definition Partition :: "GroupingPosting list \<Rightarrow> Rule list \<Rightarrow> Opts \<Rightarrow> Group list" where
  "Partition ps rules opts =
     (let ordered = go_sort rule_before rules;
          st = fold (\<lambda>r st. r_Apply r ps st opts) ordered (newState ps)
      in groups st ps)"

subsection \<open>Reading the partition out\<close>

definition member_of :: "APart \<Rightarrow> GroupingPosting \<Rightarrow> Member" where
  "member_of P p = \<lparr>m_ID = p_ID p,
     m_Resolved = (case a_resolved P (p_ID p) of Some t \<Rightarrow> t | None \<Rightarrow> Resolve (p_Declared p))\<rparr>"

definition root_entries :: "APart \<Rightarrow> GroupingPosting list \<Rightarrow> (string \<times> Member) list" where
  "root_entries P ps = map (\<lambda>p. (the (a_rep P (p_ID p)), member_of P p)) ps"

definition a_groups :: "APart \<Rightarrow> GroupingPosting list \<Rightarrow> Group list" where
  "a_groups P ps =
     map (\<lambda>r. \<lparr>g_Members = go_sort (\<lambda>a b. m_ID a < m_ID b)
            (map (member_of P) (filter (\<lambda>p. the (a_rep P (p_ID p)) = r) ps))\<rparr>)
       (sorted_list_of_set ((\<lambda>p. the (a_rep P (p_ID p))) ` set ps))"

lemma m_ID_member_of [simp]: "m_ID (member_of P p) = p_ID p"
  by (simp add: member_of_def)

lemma go_sort_less: "distinct xs \<Longrightarrow> go_sort (<) xs = sorted_list_of_set (set xs)"
proof -
  assume "distinct xs"
  moreover have "go_sort (<) xs = sort_key (\<lambda>x. x) xs" by (rule go_sort_by_key) (rule refl)
  ultimately show ?thesis by (simp add: sorted_list_of_set_sort_remdups distinct_remdups_id)
qed

lemma groups_fold:
  assumes "valid s" "\<And>p. p \<in> set ps \<Longrightarrow> known s (p_ID p)"
  shows "snd (fold (\<lambda>p (s, m).
            let r = (case s_resolved s (p_ID p) of Some t \<Rightarrow> t | None \<Rightarrow> Resolve (p_Declared p));
                (s, root) = find s (p_ID p)
            in (s, mm_append root \<lparr>m_ID = p_ID p, m_Resolved = r\<rparr> m)) ps (s, m))
    = fold (\<lambda>(k, v). mm_append k v) (root_entries (abs_state s) ps) m"
  using assms
proof (induction ps arbitrary: s m)
  case (Cons p ps)
  obtain s' root where f: "find s (p_ID p) = (s', root)" by fastforce
  note v = find_abs [OF Cons.prems(1) _ f]
  have k: "known s (p_ID p)" using Cons.prems(2) by simp
  have "known s' i = known s i" for i using abs_known [OF v(2) [OF k]] .
  with Cons.IH [OF v(1) [OF k]] Cons.prems(2) v(2,3) [OF k] f show ?case
    by (simp add: root_entries_def member_of_def flip: abs_state_simps(1))
qed (simp add: root_entries_def)

lemma groups_view:
  assumes "valid s" "\<And>p. p \<in> set ps \<Longrightarrow> known s (p_ID p)"
  shows "groups s ps = a_groups (abs_state s) ps"
proof -
  let ?es = "root_entries (abs_state s) ps"
  have g: "groups s ps = map (\<lambda>root. \<lparr>g_Members = go_sort (\<lambda>a b. m_ID a < m_ID b) (mm_get (mm_build ?es) root)\<rparr>)
      (go_sort (<) (map fst (mm_build ?es)))"
    using groups_fold [OF assms, of ps "[]"] unfolding groups_def mm_build_def Let_def
    by (simp add: case_prod_beta)
  have "fst ` set ?es = (\<lambda>p. the (a_rep (abs_state s) (p_ID p))) ` set ps"
    by (force simp: root_entries_def)
  then have roots: "go_sort (<) (map fst (mm_build ?es))
      = sorted_list_of_set ((\<lambda>p. the (a_rep (abs_state s) (p_ID p))) ` set ps)"
    using go_sort_less [OF distinct_mm_build, of ?es] keys_mm_build [of ?es] by simp
  have "mm_get (mm_build ?es) r = map (member_of (abs_state s)) (filter (\<lambda>p. the (a_rep (abs_state s) (p_ID p)) = r) ps)" for r
    unfolding mm_get_build root_entries_def by (induction ps) auto
  with g roots show ?thesis by (simp add: a_groups_def)
qed

lemma a_groups_perm:
  assumes "proper ps" "mset ps = mset ps'"
  shows "a_groups P ps = a_groups P ps'"
proof -
  have "go_sort (\<lambda>a b. m_ID a < m_ID b) (map (member_of P) (filter (\<lambda>p. the (a_rep P (p_ID p)) = r) ps))
      = go_sort (\<lambda>a b. m_ID a < m_ID b) (map (member_of P) (filter (\<lambda>p. the (a_rep P (p_ID p)) = r) ps'))" for r
  proof (rule go_sort_perm [where key = m_ID])
    show "inj_on m_ID (set (map (member_of P) (filter (\<lambda>p. the (a_rep P (p_ID p)) = r) ps)))"
      using proper_inj [OF assms(1)] by (auto simp: inj_on_def)
  qed (simp_all add: assms(2))
  then show ?thesis unfolding a_groups_def using mset_eq_setD [OF assms(2)] by simp
qed

text \<open>Two postings are in one group of the output exactly when the partition has them together.\<close>

abbreviation group_ids :: "Group \<Rightarrow> string set" where
  "group_ids g \<equiv> m_ID ` set (g_Members g)"

lemma a_groups_in:
  assumes "p \<in> set ps"
  shows "\<exists>g \<in> set (a_groups P ps). member_of P p \<in> set (g_Members g)
    \<and> group_ids g = {p_ID q | q. q \<in> set ps \<and> the (a_rep P (p_ID q)) = the (a_rep P (p_ID p))}"
proof -
  let ?r = "the (a_rep P (p_ID p))"
  let ?g = "\<lparr>g_Members = go_sort (\<lambda>a b. m_ID a < m_ID b)
            (map (member_of P) (filter (\<lambda>p. the (a_rep P (p_ID p)) = ?r) ps))\<rparr>"
  have "?g \<in> set (a_groups P ps)" using assms by (auto simp: a_groups_def)
  moreover have "member_of P p \<in> set (g_Members ?g)" using assms by simp
  moreover have "group_ids ?g = {p_ID q | q. q \<in> set ps \<and> the (a_rep P (p_ID q)) = ?r}"
    by (auto simp: image_iff)
  ultimately show ?thesis by blast
qed

lemma a_groups_members:
  "g \<in> set (a_groups P ps) \<Longrightarrow> m \<in> set (g_Members g) \<Longrightarrow> \<exists>p \<in> set ps. m = member_of P p"
  by (auto simp: a_groups_def)

lemma concat_by_root:
  assumes "distinct rs" "f ` set ps \<subseteq> set rs"
  shows "mset (concat (map (\<lambda>r. filter (\<lambda>p. f p = r) ps) rs)) = mset ps"
  using assms
proof (induction ps)
  case (Cons p ps)
  obtain as bs where rs: "rs = as @ f p # bs" using Cons.prems(2) by (auto dest: split_list)
  then have "f p \<notin> set as" "f p \<notin> set bs" using Cons.prems(1) by auto
  then have eq: "map (\<lambda>r. filter (\<lambda>q. f q = r) (p # ps)) as = map (\<lambda>r. filter (\<lambda>q. f q = r) ps) as"
    "map (\<lambda>r. filter (\<lambda>q. f q = r) (p # ps)) bs = map (\<lambda>r. filter (\<lambda>q. f q = r) ps) bs"
    by auto
  have "mset (concat (map (\<lambda>r. filter (\<lambda>q. f q = r) ps) rs)) = mset ps" using Cons by simp
  then show ?case unfolding rs map_append list.map(2) eq by simp
qed (induction rs; simp)

lemma mset_concat_map_cong:
  "(\<And>x. x \<in> set xs \<Longrightarrow> mset (f x) = mset (g x)) \<Longrightarrow> mset (concat (map f xs)) = mset (concat (map g xs))"
  by (induction xs) auto

lemma a_groups_cover:
  "mset (concat (map g_Members (a_groups P ps))) = mset (map (member_of P) ps)"
proof -
  let ?f = "\<lambda>p. the (a_rep P (p_ID p))"
  let ?rs = "sorted_list_of_set (?f ` set ps)"
  have "mset (concat (map g_Members (a_groups P ps)))
      = mset (concat (map (\<lambda>r. map (member_of P) (filter (\<lambda>p. ?f p = r) ps)) ?rs))"
    unfolding a_groups_def map_map by (rule mset_concat_map_cong) (simp add: comp_def)
  also have "\<dots> = mset (map (member_of P) (concat (map (\<lambda>r. filter (\<lambda>p. ?f p = r) ps) ?rs)))"
    by (simp add: map_concat comp_def)
  also have "\<dots> = image_mset (member_of P) (mset (concat (map (\<lambda>r. filter (\<lambda>p. ?f p = r) ps) ?rs)))"
    by (simp only: mset_map)
  also have "\<dots> = mset (map (member_of P) ps)"
    by (subst concat_by_root) simp_all
  finally show ?thesis .
qed

lemma a_groups_sorted:
  assumes "proper ps" "g \<in> set (a_groups P ps)"
  shows "g_Members g \<noteq> []" "sorted_wrt (<) (map m_ID (g_Members g))"
proof -
  from assms(2) obtain r where r: "r \<in> (\<lambda>p. the (a_rep P (p_ID p))) ` set ps"
    "g = \<lparr>g_Members = go_sort (\<lambda>a b. m_ID a < m_ID b)
            (map (member_of P) (filter (\<lambda>p. the (a_rep P (p_ID p)) = r) ps))\<rparr>"
    by (auto simp: a_groups_def)
  let ?ms = "map (member_of P) (filter (\<lambda>p. the (a_rep P (p_ID p)) = r) ps)"
  have "?ms \<noteq> []" using r(1) by (auto simp: filter_empty_conv)
  then have "length (g_Members g) \<noteq> 0" by (simp add: r(2))
  then show "g_Members g \<noteq> []" by simp
  have "map m_ID ?ms = map p_ID (filter (\<lambda>p. the (a_rep P (p_ID p)) = r) ps)" by (simp add: comp_def)
  then have "distinct (map m_ID ?ms)" using assms(1) unfolding proper_def by (simp only: distinct_map_filter)
  moreover have "mset (map m_ID (g_Members g)) = mset (map m_ID ?ms)" by (simp only: mset_map r(2) Group.select_convs mset_go_sort)
  ultimately have "distinct (map m_ID (g_Members g))" using mset_eq_imp_distinct_iff by blast
  moreover have "sorted (map m_ID (g_Members g))" unfolding r(2) by (simp add: go_sort_sorted)
  ultimately show "sorted_wrt (<) (map m_ID (g_Members g))" by (simp add: strict_sorted_iff)
qed

lemma sorted_hd_least:
  "sorted_wrt (<) (map f xs) \<Longrightarrow> x \<in> set xs \<Longrightarrow> (\<And>y. y \<in> set xs \<Longrightarrow> f x \<le> f y) \<Longrightarrow> f (hd xs) = (f x :: 'a::linorder)"
  by (cases xs) force+

lemma a_groups_heads:
  assumes "proper ps" "sound_view (ids_of ps) P"
  shows "map (\<lambda>g. m_ID (hd (g_Members g))) (a_groups P ps)
    = sorted_list_of_set ((\<lambda>p. the (a_rep P (p_ID p))) ` set ps)"
proof -
  let ?f = "\<lambda>p. the (a_rep P (p_ID p))"
  let ?g = "\<lambda>r. \<lparr>g_Members = go_sort (\<lambda>a b. m_ID a < m_ID b) (map (member_of P) (filter (\<lambda>p. ?f p = r) ps))\<rparr>"
  have "m_ID (hd (g_Members (?g r))) = r" if "r \<in> ?f ` set ps" for r
  proof -
    have rep: "\<And>p. p \<in> set ps \<Longrightarrow> a_rep P (p_ID p) = Some (?f p)"
    proof -
      fix p assume "p \<in> set ps"
      then have "p_ID p \<in> dom (a_rep P)" using assms(2) by (simp add: sound_view_def)
      then show "a_rep P (p_ID p) = Some (?f p)" by auto
    qed
    from that obtain p where p: "p \<in> set ps" "r = ?f p" by blast
    have root: "a_rep P r = Some r"
      using assms(2) rep [OF p(1)] p(2) by (auto simp: sound_view_def named_by_lowest_def)
    then have "r \<in> dom (a_rep P)" by blast
    then have "r \<in> ids_of ps" using assms(2) by (simp add: sound_view_def)
    then obtain q where q: "q \<in> set ps" "p_ID q = r" by auto
    then have "member_of P q \<in> set (g_Members (?g r))" using root by simp
    moreover have "r \<le> m_ID m" if "m \<in> set (g_Members (?g r))" for m
      using that rep assms(2) by (auto simp: sound_view_def named_by_lowest_def)
    moreover have "sorted_wrt (<) (map m_ID (g_Members (?g r)))"
      by (rule a_groups_sorted(2) [OF assms(1)]) (use that in \<open>auto simp: a_groups_def\<close>)
    ultimately show ?thesis using sorted_hd_least [of m_ID "g_Members (?g r)" "member_of P q"] q(2) by simp
  qed
  then show ?thesis unfolding a_groups_def map_map comp_def by (intro map_idI) simp
qed

subsection \<open>A table of rules that keep the contract\<close>

definition run_rules :: "Rule list \<Rightarrow> GroupingPosting list \<Rightarrow> Opts \<Rightarrow> State" where
  "run_rules rules ps opts = fold (\<lambda>r st. r_Apply r ps st opts) (go_sort rule_before rules) (newState ps)"

locale rule_table =
  fixes rules :: "Rule list"
  assumes table: "r \<in> set rules \<Longrightarrow> grouping_rule (r_Apply r)"
begin

lemma run_rules_ok: "ok_run ps (newState ps) (run_rules rules ps opts)"
  unfolding run_rules_def
  by (rule ok_run_fold [OF _ newState_abs(1)]) (simp add: grouping_rule.run_ok [OF table])

lemma run_rules_sound:
  "valid (run_rules rules ps opts)" "sound_view (ids_of ps) (abs_state (run_rules rules ps opts))"
  "well_formed ps (abs_state (run_rules rules ps opts))"
proof -
  let ?t = "run_rules rules ps opts"
  show "valid ?t" using run_rules_ok by (simp add: ok_run_def)
  show wf: "well_formed ps (abs_state ?t)"
    using run_rules_ok [of ps opts] a_steps_well_formed newState_well_formed unfolding ok_run_def by blast
  have "dom (a_rep (abs_state ?t)) = ids_of ps"
    using ok_run_extends [OF run_rules_ok] newState_dom by (auto simp: extends_def coarser_def)
  moreover have "i \<in> ids_of ps" if "a_claimed (abs_state ?t) i" for i
  proof -
    obtain r where "a_resolved (abs_state ?t) i = Some r" using wf \<open>a_claimed (abs_state ?t) i\<close>
      unfolding well_formed_def by blast
    then have "admissible ps i r" using wf unfolding well_formed_def by blast
    then show ?thesis by (auto simp: admissible_def)
  qed
  ultimately show "sound_view (ids_of ps) (abs_state ?t)"
    using wf unfolding sound_view_def well_formed_def by blast
qed

lemma run_rules_sim:
  assumes "proper ps" "mset ps = mset ps'"
  shows "sim (run_rules rules ps opts) (run_rules rules ps' opts)"
  unfolding run_rules_def
proof (rule sim_fold)
  show "sim (newState ps) (newState ps')"
    using mset_eq_setD [OF assms(2)] by (simp add: sim_def newState_abs)
qed (use grouping_rule.run_sim [OF table assms] in simp)

lemma partition_view: "Partition ps rules opts = a_groups (abs_state (run_rules rules ps opts)) ps"
proof -
  have "known (run_rules rules ps opts) i \<longleftrightarrow> i \<in> ids_of ps" for i
    using run_rules_sound(2) [of ps opts] by (metis a_rep_None domIff sound_view_def)
  then have "groups (run_rules rules ps opts) ps = a_groups (abs_state (run_rules rules ps opts)) ps"
    by (intro groups_view run_rules_sound(1)) simp
  then show ?thesis by (simp add: Partition_def run_rules_def Let_def)
qed

lemma partition_perm:
  assumes "proper ps" "mset ps = mset ps'"
  shows "Partition ps rules opts = Partition ps' rules opts"
  using simD(3) [OF run_rules_sim [OF assms]] a_groups_perm [OF assms] by (simp add: partition_view)

lemma partition_cover: "mset (map m_ID (concat (map g_Members (Partition ps rules opts)))) = mset (map p_ID ps)"
proof -
  have "mset (map m_ID (concat (map g_Members (Partition ps rules opts))))
      = image_mset m_ID (mset (map (member_of (abs_state (run_rules rules ps opts))) ps))"
    unfolding partition_view using a_groups_cover by (metis mset_map)
  then show ?thesis by (simp add: comp_def multiset.map_comp)
qed

lemma partition_resolved:
  assumes "proper ps" "g \<in> set (Partition ps rules opts)" "m \<in> set (g_Members g)" "p \<in> set ps" "p_ID p = m_ID m"
  shows "m_Resolved m = Resolve (p_Declared p) \<or> MayBe (p_Declared p) [m_Resolved m]"
proof -
  let ?P = "abs_state (run_rules rules ps opts)"
  obtain q where q: "q \<in> set ps" "m = member_of ?P q"
    using a_groups_members assms(2,3) unfolding partition_view by blast
  have "q = p" by (rule inj_onD [OF proper_inj [OF assms(1)]]) (use q assms(4,5) in simp_all)
  show ?thesis
  proof (cases "a_resolved ?P (p_ID p)")
    case None
    with q \<open>q = p\<close> show ?thesis by (simp add: member_of_def)
  next
    case (Some t)
    then have "admissible ps (p_ID p) t" using run_rules_sound(3) [of ps opts] unfolding well_formed_def by blast
    then obtain p' where p': "p' \<in> set ps" "p_ID p' = p_ID p" "t = Resolve (p_Declared p') \<or> MayBe (p_Declared p') [t]"
      unfolding admissible_def by blast
    have "p' = p" by (rule inj_onD [OF proper_inj [OF assms(1)]]) (use p' assms(4) in simp_all)
    moreover have "m_Resolved m = t" using Some q \<open>q = p\<close> by (simp add: member_of_def)
    ultimately show ?thesis using p'(3) by simp
  qed
qed

lemma partition_together:
  assumes "p \<in> set ps" "q \<in> set ps"
    and "a_rep (abs_state (run_rules rules ps opts)) (p_ID p) = a_rep (abs_state (run_rules rules ps opts)) (p_ID q)"
  shows "\<exists>g \<in> set (Partition ps rules opts). {p_ID p, p_ID q} \<subseteq> group_ids g"
proof -
  let ?P = "abs_state (run_rules rules ps opts)"
  obtain g where "g \<in> set (a_groups ?P ps)"
    "group_ids g = {p_ID q | q. q \<in> set ps \<and> the (a_rep ?P (p_ID q)) = the (a_rep ?P (p_ID p))}"
    using a_groups_in [OF assms(1), of ?P] by blast
  then show ?thesis using assms unfolding partition_view by (intro bexI [of _ g]) auto
qed

end

lemma DefaultRules_keep_contract: "r \<in> set (DefaultRules ddiv) \<Longrightarrow> grouping_rule (r_Apply r)"
  using exact.grouping_rule_axioms attaches.grouping_rule_axioms pair_trade.grouping_rule_axioms
    cash_trade.grouping_rule_axioms deposit.grouping_rule_axioms charge.grouping_rule_axioms
  by (auto simp: DefaultRules_def Exact_def Attaches_def Disposal_def Acquisition_def trade_rule_def
      CashTrade_def Deposit_def Charge_def)

interpretation default: rule_table "DefaultRules ddiv" for ddiv
  by (rule rule_table.intro) (rule DefaultRules_keep_contract)

subsection \<open>What the engine decides\<close>

text \<open>
  C4. \<open>Partition\<close> with the default rules is a partition: over postings with distinct, non-empty
  ids every posting is a member of exactly one group, no group is empty, the members of a group
  are in ascending id order, and the groups are in ascending order of their lowest id.
\<close>

theorem Partition_is_a_partition:
  assumes "proper ps"
  shows "mset (map m_ID (concat (map g_Members (Partition ps (DefaultRules ddiv) opts)))) = mset (map p_ID ps)
    \<and> (\<forall>g \<in> set (Partition ps (DefaultRules ddiv) opts).
         g_Members g \<noteq> [] \<and> sorted_wrt (<) (map m_ID (g_Members g)))
    \<and> sorted_wrt (<) (map (\<lambda>g. m_ID (hd (g_Members g))) (Partition ps (DefaultRules ddiv) opts))"
proof (intro conjI ballI)
  show "mset (map m_ID (concat (map g_Members (Partition ps (DefaultRules ddiv) opts)))) = mset (map p_ID ps)"
    by (rule default.partition_cover)
  show "g_Members g \<noteq> []" "sorted_wrt (<) (map m_ID (g_Members g))"
    if "g \<in> set (Partition ps (DefaultRules ddiv) opts)" for g
    using a_groups_sorted [OF assms] that unfolding default.partition_view by auto
  show "sorted_wrt (<) (map (\<lambda>g. m_ID (hd (g_Members g))) (Partition ps (DefaultRules ddiv) opts))"
    unfolding default.partition_view a_groups_heads [OF assms default.run_rules_sound(2)]
    by (rule strict_sorted_list_of_set)
qed

theorem Partition_is_a_partition_witness:
  "mset (map m_ID (concat (map g_Members (Partition two_samples (DefaultRules (/)) DefaultOpts)))) = {#''a'', ''b''#}"
  using Partition_is_a_partition [of two_samples "(/)" DefaultOpts] by (simp add: proper_def)

text \<open>
  C5. \<open>Partition\<close> is deterministic in the postings as a set: the same postings in any order give
  the same groups, in the same order, with the same resolved types.
\<close>

theorem Partition_order_independent:
  assumes "proper ps" "mset ps = mset ps'"
  shows "Partition ps (DefaultRules ddiv) opts = Partition ps' (DefaultRules ddiv) opts"
  by (rule default.partition_perm [OF assms])

theorem Partition_order_independent_witness:
  "Partition two_samples (DefaultRules (/)) DefaultOpts = Partition (rev two_samples) (DefaultRules (/)) DefaultOpts"
  by (rule Partition_order_independent) (simp_all add: proper_def)

text \<open>
  What a posting is resolved to never contradicts its source: it is the common ancestor of
  the declared set, or a type the declared set admits.
\<close>

theorem Partition_resolves_within_declaration:
  assumes "proper ps" "g \<in> set (Partition ps (DefaultRules ddiv) opts)" "m \<in> set (g_Members g)"
    and "p \<in> set ps" "p_ID p = m_ID m"
  shows "m_Resolved m = Resolve (p_Declared p) \<or> MayBe (p_Declared p) [m_Resolved m]"
  by (rule default.partition_resolved [OF assms])

lemma sale_partition:
  "Partition [sale, proceeds] (DefaultRules (/)) DefaultOpts = [\<lparr>g_Members =
     [\<lparr>m_ID = ''a'', m_Resolved = TRADE_ASSET\<rparr>, \<lparr>m_ID = ''b'', m_Resolved = TRADE_CASH\<rparr>]\<rparr>]"
  by code_simp

theorem Partition_resolves_within_declaration_witness:
  "TRADE_ASSET = Resolve (p_Declared sale) \<or> MayBe (p_Declared sale) [TRADE_ASSET]"
proof -
  have "proper [sale, proceeds]" by (simp add: proper_def sale_proceeds)
  from Partition_resolves_within_declaration [OF this, of _ "(/)" DefaultOpts "\<lparr>m_ID = ''a'', m_Resolved = TRADE_ASSET\<rparr>" sale]
  show ?thesis by (simp add: sale_partition sale_proceeds)
qed

lemma DefaultRules_order: "go_sort rule_before (DefaultRules ddiv) = DefaultRules ddiv"
  by (simp add: DefaultRules_def rule_before_def Exact_def Disposal_def Acquisition_def trade_rule_def
      disposal_def acquisition_def CashTrade_def Deposit_def Attaches_def Charge_def ExactPrecedence_def
      DisposalPrecedence_def AcquisitionPrecedence_def CashTradePrecedence_def DepositPrecedence_def
      AttachesPrecedence_def ChargePrecedence_def)

text \<open>
  C6. A grouping the source states is never undone: where every posting that carries a token (in
  one comparability partition) carries no other, any two of them end in one group of the default
  engine, whatever the rules of lower precedence go on to do.
\<close>

theorem Partition_keeps_stated_groups:
  assumes "proper ps" "p \<in> set ps" "q \<in> set ps" "k \<in> exact_keys p" "k \<in> exact_keys q"
    and "\<And>x. x \<in> set ps \<Longrightarrow> k \<in> exact_keys x \<Longrightarrow> exact_keys x = {k}"
  shows "\<exists>g \<in> set (Partition ps (DefaultRules ddiv) opts). {p_ID p, p_ID q} \<subseteq> group_ids g"
proof (rule default.partition_together [OF assms(2,3)])
  let ?s = "newState ps"
  let ?e = "Exact_Apply ps ?s opts" and ?t = "run_rules (DefaultRules ddiv) ps opts"
  have free: "\<not> Taken ?s i" for i by (simp add: Taken_def newState_def)
  have e: "a_rep (abs_state ?e) (p_ID p) = a_rep (abs_state ?e) (p_ID q)"
  proof (cases "p_ID p = p_ID q")
    case False
    then show ?thesis
      using Exact_links [OF assms(1) reachable.start assms(2) free assms(4,3) free assms(5) _ assms(6), of opts] by blast
  qed simp
  have v: "valid ?e" by (rule exact.run_valid [OF newState_abs(1)])
  have "?t = fold (\<lambda>r st. r_Apply r ps st opts) (tl (DefaultRules ddiv)) ?e"
    unfolding run_rules_def DefaultRules_order by (simp add: DefaultRules_def Exact_def)
  moreover have "ok_run ps ?e (fold (\<lambda>r st. r_Apply r ps st opts) (tl (DefaultRules ddiv)) ?e)"
    using v by (rule ok_run_fold [rotated]) (auto intro!: grouping_rule.run_ok DefaultRules_keep_contract dest: list.set_sel(2) [rotated] simp: DefaultRules_def)
  ultimately have "extends (abs_state ?e) (abs_state ?t)" using ok_run_extends by simp
  with e show "a_rep (abs_state ?t) (p_ID p) = a_rep (abs_state ?t) (p_ID q)"
    unfolding extends_def by (blast dest: coarserD)
qed

theorem Partition_keeps_stated_groups_witness:
  "\<exists>g \<in> set (Partition [with_tokens ''a'' [''t''], with_tokens ''b'' [''t'']] (DefaultRules (/)) DefaultOpts).
     {''a'', ''b''} \<subseteq> group_ids g"
proof -
  let ?p = "with_tokens ''a'' [''t'']" and ?q = "with_tokens ''b'' [''t'']"
  have "{c \<in> set [tok ''t'']. Declares c MatchExact} = {tok ''t''}" by (auto simp: Declares_def)
  then have ek: "exact_keys (with_tokens i [''t'']) = {corrKey ?p (tok ''t'')}" for i
    by (simp add: keyFor_def sample_def)
  have "\<exists>g \<in> set (Partition [?p, ?q] (DefaultRules (/)) DefaultOpts). {p_ID ?p, p_ID ?q} \<subseteq> group_ids g"
  proof (rule Partition_keeps_stated_groups [where k = "corrKey ?p (tok ''t'')"])
    show "proper [?p, ?q]" by (simp add: proper_def)
    show "corrKey ?p (tok ''t'') \<in> exact_keys ?p" "corrKey ?p (tok ''t'') \<in> exact_keys ?q"
      unfolding ek by simp_all
    fix x assume "x \<in> set [?p, ?q]"
    then have "x = ?p \<or> x = ?q" by simp
    then show "exact_keys x = {corrKey ?p (tok ''t'')}" using ek by fast
  qed simp_all
  then show ?thesis by simp
qed

end
