(* ===== verification/Grouping_Diff.thy ===== *)
theory Grouping_Diff
  imports Partition Go_Text
begin

text \<open>
  What the engine would change, \<open>src/server/grouping/diff.go\<close>, and how a derived partition is
  measured against the stored one, \<open>src/server/grouping/shadow.go\<close>. The changes are those of
  \<open>src/server/db/db.go\<close> (\<open>GroupChange\<close>, \<open>GroupMemberChange\<close>).

  \<open>Diff\<close> reads \<open>ids[0]\<close> of every derived group, which panics on an empty one: its result is an
  option, \<open>None\<close> for the panic. What a change means is \<open>apply_changes\<close>: the moving members of a
  change join a group of their own, and every member takes the resolved type it carries.
\<close>

record GroupMemberChange =
  gm_ID :: string
  gm_FromGroupID :: string
  gm_Resolved :: string
  gm_Moving :: bool

record GroupChange =
  gc_Members :: "GroupMemberChange list"

definition resolvedStr :: "TxType \<Rightarrow> string" where
  "resolvedStr t = (case TxTypeToStr t of Inl _ \<Rightarrow> '''' | Inr v \<Rightarrow> v)"

fun same :: "string list \<Rightarrow> string list \<Rightarrow> bool" where
  "same a b = (if length a \<noteq> length b then False else list_all2 (=) a b)"

text \<open>A Go map of strings, written by a loop over the postings.\<close>

definition str_map :: "(GroupingPosting \<Rightarrow> string) \<Rightarrow> GroupingPosting list \<Rightarrow> string \<Rightarrow> string" where
  "str_map f ps i = (case fold (\<lambda>p m. m(p_ID p \<mapsto> f p)) ps Map.empty i of None \<Rightarrow> '''' | Some v \<Rightarrow> v)"

definition stored_groups :: "GroupingPosting list \<Rightarrow> (string \<times> string list) list" where
  "stored_groups ps = map (\<lambda>(k, v). (k, go_sort (<) v)) (mm_build (map (\<lambda>p. (p_GroupID p, p_ID p)) ps))"

definition diff_group :: "GroupingPosting list \<Rightarrow> Group \<Rightarrow> GroupChange list option" where
  "diff_group ps g =
     (let stored = stored_groups ps; storedOf = str_map p_GroupID ps; resolvedOfStored = str_map p_Resolved ps;
          ids = go_sort (<) (map m_ID (g_Members g))
      in if ids = [] then None
         else if same (mm_get stored (storedOf (hd ids))) ids
         then (let c = map (\<lambda>m. \<lparr>gm_ID = m_ID m, gm_FromGroupID = '''', gm_Resolved = resolvedStr (m_Resolved m),
                            gm_Moving = False\<rparr>)
                      (filter (\<lambda>m. resolvedOfStored (m_ID m) \<noteq> resolvedStr (m_Resolved m)) (g_Members g))
               in Some (if c \<noteq> [] then [\<lparr>gc_Members = c\<rparr>] else []))
         else Some [\<lparr>gc_Members = go_sort (\<lambda>a b. gm_ID a < gm_ID b)
                (map (\<lambda>m. \<lparr>gm_ID = m_ID m, gm_FromGroupID = storedOf (m_ID m),
                           gm_Resolved = resolvedStr (m_Resolved m), gm_Moving = True\<rparr>) (g_Members g))\<rparr>])"

fun Diff :: "GroupingPosting list \<Rightarrow> Group list \<Rightarrow> GroupChange list option" where
  "Diff ps [] = Some []"
| "Diff ps (g # gs) = (case diff_group ps g of
       None \<Rightarrow> None
     | Some c \<Rightarrow> (case Diff ps gs of None \<Rightarrow> None | Some cs \<Rightarrow> Some (c @ cs)))"

subsection \<open>Comparing partitions\<close>

record Divergence =
  d_Groups :: nat
  d_Stored :: nat
  d_Agreed :: nat
  d_Joined :: nat
  d_Split :: nat
  d_Examples :: "string list"

definition Agrees :: "Divergence \<Rightarrow> bool" where
  "Agrees d \<longleftrightarrow> d_Groups d = d_Stored d \<and> d_Agreed d = d_Groups d"

definition maxExamples :: nat where "maxExamples = 5"

definition note_example :: "string \<Rightarrow> Divergence \<Rightarrow> Divergence" where
  "note_example s d = (if length (d_Examples d) < maxExamples then d\<lparr>d_Examples := d_Examples d @ [s]\<rparr> else d)"

fun join_words :: "string list \<Rightarrow> string" where
  "join_words [] = ''''"
| "join_words [w] = w"
| "join_words (w # ws) = w @ '' '' @ join_words ws"

definition memberList :: "Group \<Rightarrow> string" where
  "memberList g = ''['' @ join_words (go_sort (<) (map m_ID (g_Members g))) @ '']''"

definition only :: "string list \<Rightarrow> string" where
  "only m = (case m of [] \<Rightarrow> '''' | k # _ \<Rightarrow> k)"

definition storedSize :: "GroupingPosting list \<Rightarrow> string \<Rightarrow> nat" where
  "storedSize ps k = length (filter (\<lambda>p. p_GroupID p = k) ps)"

text \<open>The stored groups a derived group drew from, each once.\<close>

definition drawn_from :: "GroupingPosting list \<Rightarrow> Group \<Rightarrow> string list" where
  "drawn_from ps g = remdups (map (\<lambda>m. str_map p_GroupID ps (m_ID m)) (g_Members g))"

definition compare_group :: "GroupingPosting list \<Rightarrow> Group \<Rightarrow> Divergence \<Rightarrow> Divergence" where
  "compare_group ps g d =
     (let seen = drawn_from ps g in
      if length seen > 1 then
        note_example (''joined '' @ show_nat (length seen) @ '' stored groups into '' @ memberList g)
          (d\<lparr>d_Joined := d_Joined d + 1\<rparr>)
      else if length seen = 1 \<and> storedSize ps (only seen) = length (g_Members g) then
        d\<lparr>d_Agreed := d_Agreed d + 1\<rparr>
      else
        note_example (''took '' @ memberList g @ '' out of a stored group of '' @ show_nat (storedSize ps (only seen))) d)"

text \<open>How many derived groups drew from each stored group, and how many of those counts exceed one.\<close>

definition split_count :: "GroupingPosting list \<Rightarrow> Group list \<Rightarrow> nat" where
  "split_count ps gs =
     length (filter (\<lambda>s. length (filter (\<lambda>g. s \<in> set (drawn_from ps g)) gs) > 1)
       (remdups (concat (map (drawn_from ps) gs))))"

definition Compare :: "GroupingPosting list \<Rightarrow> Group list \<Rightarrow> Divergence" where
  "Compare ps gs =
     (let d = fold (compare_group ps) gs
            \<lparr>d_Groups = length gs, d_Stored = length (remdups (map p_GroupID ps)), d_Agreed = 0, d_Joined = 0,
             d_Split = 0, d_Examples = []\<rparr>
      in d\<lparr>d_Split := d_Split d + split_count ps gs\<rparr>)"

subsection \<open>The stored partition\<close>

lemma str_map_eq:
  assumes "proper ps" "p \<in> set ps"
  shows "str_map f ps (p_ID p) = f p"
proof -
  have "fold (\<lambda>p m. m(p_ID p \<mapsto> f p)) qs m (p_ID p) = Some (f p)"
    if "distinct (map p_ID qs)" "p \<in> set qs \<or> p_ID p \<notin> ids_of qs \<and> m (p_ID p) = Some (f p)" for qs m
    using that
  proof (induction qs arbitrary: m)
    case (Cons q qs)
    have "p \<in> set qs \<or> p_ID p \<notin> ids_of qs \<and> (m(p_ID q \<mapsto> f q)) (p_ID p) = Some (f p)"
      using Cons.prems by auto
    with Cons.IH [of "m(p_ID q \<mapsto> f q)"] Cons.prems(1) show ?case by simp
  qed simp
  with assms show ?thesis by (simp add: str_map_def proper_def)
qed

text \<open>The ids stored beside a posting.\<close>

abbreviation stored_with :: "GroupingPosting list \<Rightarrow> string \<Rightarrow> string set" where
  "stored_with ps k \<equiv> {p_ID q | q. q \<in> set ps \<and> p_GroupID q = k}"

lemma stored_with_image: "stored_with ps k = p_ID ` set (filter (\<lambda>q. p_GroupID q = k) ps)"
  by auto

lemma stored_group_ids:
  "set (mm_get (stored_groups ps) k) = stored_with ps k"
  "distinct (map p_ID ps) \<Longrightarrow> distinct (mm_get (stored_groups ps) k)"
  "sorted (mm_get (stored_groups ps) k)"
proof -
  have m: "mm_get (stored_groups ps) k = go_sort (<) (map p_ID (filter (\<lambda>p. p_GroupID p = k) ps))"
  proof -
    have "map snd (filter (\<lambda>kv. fst kv = k) (map (\<lambda>p. (p_GroupID p, p_ID p)) xs))
        = map p_ID (filter (\<lambda>p. p_GroupID p = k) xs)" for xs :: "GroupingPosting list"
      by (induction xs) auto
    then show ?thesis by (simp add: stored_groups_def mm_get_map mm_get_build)
  qed
  show "set (mm_get (stored_groups ps) k) = stored_with ps k" by (auto simp: m)
  show "distinct (mm_get (stored_groups ps) k)" if "distinct (map p_ID ps)"
    using distinct_map_filter [OF that] by (simp add: m)
  have "sorted (map (\<lambda>x. x) (go_sort (<) (map p_ID (filter (\<lambda>p. p_GroupID p = k) ps))))"
    by (rule go_sort_sorted) (rule refl)
  then show "sorted (mm_get (stored_groups ps) k)" by (simp add: m)
qed

text \<open>A derived partition of the postings: what \<open>Partition\<close> produces.\<close>

definition partition_of :: "GroupingPosting list \<Rightarrow> Group list \<Rightarrow> bool" where
  "partition_of ps gs \<longleftrightarrow> proper ps \<and> (\<forall>g \<in> set gs. g_Members g \<noteq> [])
     \<and> mset (map m_ID (concat (map g_Members gs))) = mset (map p_ID ps)"

lemma partition_of_Partition: "proper ps \<Longrightarrow> partition_of ps (Partition ps (DefaultRules ddiv) opts)"
  using a_groups_sorted(1) unfolding partition_of_def default.partition_view
  by (metis default.partition_cover default.partition_view)

lemma partition_ofD:
  assumes "partition_of ps gs"
  shows "proper ps" "\<And>g. g \<in> set gs \<Longrightarrow> g_Members g \<noteq> []"
    "distinct (map m_ID (concat (map g_Members gs)))" "\<Union> (group_ids ` set gs) = ids_of ps"
proof -
  have m: "mset (map m_ID (concat (map g_Members gs))) = mset (map p_ID ps)"
    using assms by (simp only: partition_of_def)
  show "proper ps" "\<And>g. g \<in> set gs \<Longrightarrow> g_Members g \<noteq> []" using assms by (auto simp: partition_of_def)
  then show "distinct (map m_ID (concat (map g_Members gs)))"
    using mset_eq_imp_distinct_iff [OF m] by (simp only: proper_def)
  show "\<Union> (group_ids ` set gs) = ids_of ps" using mset_eq_setD [OF m] by (simp add: image_UN)
qed

lemma partition_of_member:
  assumes "partition_of ps gs" "g \<in> set gs" "m \<in> set (g_Members g)"
  obtains p where "p \<in> set ps" "p_ID p = m_ID m"
proof -
  have "m_ID m \<in> \<Union> (group_ids ` set gs)" using assms(2,3) by auto
  then show thesis using partition_ofD(4) [OF assms(1)] that by auto
qed

lemma partition_of_group:
  assumes "partition_of ps gs" "g \<in> set gs"
  shows "distinct (map m_ID (g_Members g))" "group_ids g \<subseteq> ids_of ps" "group_ids g \<noteq> {}"
proof -
  have "distinct (map m_ID (concat (map g_Members gs)))" by (rule partition_ofD [OF assms(1)])
  with assms(2) show "distinct (map m_ID (g_Members g))"
    by (induction gs) auto
  show "group_ids g \<subseteq> ids_of ps" using partition_ofD(4) [OF assms(1)] assms(2) by blast
  show "group_ids g \<noteq> {}" using partition_ofD(2) [OF assms(1,2)] by simp
qed

lemma distinct_concat_nth:
  "distinct (concat xss) \<Longrightarrow> i < length xss \<Longrightarrow> x \<in> set (xss ! i) \<Longrightarrow> j < length xss \<Longrightarrow> x \<in> set (xss ! j) \<Longrightarrow> i = j"
proof (induction xss arbitrary: i j)
  case (Cons xs xss)
  then show ?case
  proof (cases i)
    case 0
    with Cons.prems show ?thesis by (cases j) (auto dest: nth_mem)
  next
    case (Suc i')
    with Cons nth_mem [of i' xss] show ?thesis by (cases j) (auto simp: disjoint_iff)
  qed
qed simp

lemma partition_of_disjoint:
  assumes "partition_of ps gs" "i < length gs" "j < length gs" "x \<in> group_ids (gs ! i)" "x \<in> group_ids (gs ! j)"
  shows "i = j"
proof -
  have "distinct (concat (map (\<lambda>g. map m_ID (g_Members g)) gs))"
    using partition_ofD(3) [OF assms(1)] by (simp add: map_concat comp_def)
  from distinct_concat_nth [OF this, of i x j] show ?thesis using assms(2-5) by simp
qed

definition agrees_with :: "GroupingPosting list \<Rightarrow> Group \<Rightarrow> bool" where
  "agrees_with ps g \<longleftrightarrow> (\<exists>k. stored_with ps k = group_ids g)"

lemma same_eq [simp]: "same a b \<longleftrightarrow> a = b"
  by (auto simp: list_all2_eq list_all2_lengthD)

declare same.simps [simp del]

lemma same_iff_agrees:
  assumes "partition_of ps gs" "g \<in> set gs"
  defines "ids \<equiv> go_sort (<) (map m_ID (g_Members g))"
  shows "ids \<noteq> []" "same (mm_get (stored_groups ps) (str_map p_GroupID ps (hd ids))) ids \<longleftrightarrow> agrees_with ps g"
proof -
  note pr = partition_ofD(1) [OF assms(1)]
  have set: "set ids = group_ids g" by (simp add: ids_def)
  have d: "distinct ids" using partition_of_group(1) [OF assms(1,2)] by (simp add: ids_def)
  have "sorted (map (\<lambda>x. x) ids)" unfolding ids_def by (rule go_sort_sorted) (rule refl)
  then have s: "sorted ids" by simp
  show ne: "ids \<noteq> []" using set partition_of_group(3) [OF assms(1,2)] by auto
  then have "hd ids \<in> group_ids g" using set by (metis hd_in_set)
  then obtain p where p: "p \<in> set ps" "p_ID p = hd ids" using partition_of_group(2) [OF assms(1,2)] by (metis imageE subsetD)
  have of: "str_map p_GroupID ps (hd ids) = p_GroupID p" using str_map_eq [OF pr p(1)] p(2) by simp
  have "mm_get (stored_groups ps) (p_GroupID p) = ids \<longleftrightarrow> stored_with ps (p_GroupID p) = group_ids g"
    using stored_group_ids [of ps "p_GroupID p"] pr d s set
    by (metis proper_def sorted_distinct_set_unique)
  also have "\<dots> \<longleftrightarrow> agrees_with ps g"
  proof
    assume "agrees_with ps g"
    then obtain k where k: "stored_with ps k = group_ids g" by (auto simp: agrees_with_def)
    then have "p_ID p \<in> stored_with ps k" using \<open>hd ids \<in> group_ids g\<close> p(2) by simp
    then obtain q where "q \<in> set ps" "p_GroupID q = k" "p_ID q = p_ID p" by auto
    then have "p_GroupID p = k" using inj_onD [OF proper_inj [OF pr], of q p] p(1) by simp
    with k show "stored_with ps (p_GroupID p) = group_ids g" by simp
  qed (auto simp: agrees_with_def)
  finally show "same (mm_get (stored_groups ps) (str_map p_GroupID ps (hd ids))) ids \<longleftrightarrow> agrees_with ps g"
    by (simp add: of)
qed

definition retypes :: "GroupingPosting list \<Rightarrow> Group \<Rightarrow> GroupMemberChange list" where
  "retypes ps g = map (\<lambda>m. \<lparr>gm_ID = m_ID m, gm_FromGroupID = '''', gm_Resolved = resolvedStr (m_Resolved m), gm_Moving = False\<rparr>)
     (filter (\<lambda>m. str_map p_Resolved ps (m_ID m) \<noteq> resolvedStr (m_Resolved m)) (g_Members g))"

definition moves :: "GroupingPosting list \<Rightarrow> Group \<Rightarrow> GroupMemberChange list" where
  "moves ps g = go_sort (\<lambda>a b. gm_ID a < gm_ID b)
     (map (\<lambda>m. \<lparr>gm_ID = m_ID m, gm_FromGroupID = str_map p_GroupID ps (m_ID m),
                gm_Resolved = resolvedStr (m_Resolved m), gm_Moving = True\<rparr>) (g_Members g))"

lemma diff_group_eq:
  assumes "partition_of ps gs" "g \<in> set gs"
  shows "diff_group ps g = Some (if agrees_with ps g
     then if retypes ps g \<noteq> [] then [\<lparr>gc_Members = retypes ps g\<rparr>] else []
     else [\<lparr>gc_Members = moves ps g\<rparr>])"
  using same_iff_agrees [OF assms] unfolding diff_group_def retypes_def moves_def Let_def
  by (simp del: same_eq)

lemma Diff_eq:
  assumes "partition_of ps gs" "set hs \<subseteq> set gs"
  shows "Diff ps hs = Some (concat (map (\<lambda>g. the (diff_group ps g)) hs))"
  using assms(2) diff_group_eq [OF assms(1)] by (induction hs) auto

text \<open>
  The engine is silent exactly where it agrees: over a derived partition of the postings
  \<open>Diff\<close> never panics, and it returns no change at all if and only if every derived group is a
  stored group and every posting is stored under the type the engine resolved it to.
\<close>

theorem Diff_silent_iff_agreement:
  assumes "partition_of ps gs"
  shows "Diff ps gs \<noteq> None \<and> (Diff ps gs = Some [] \<longleftrightarrow>
    (\<forall>g \<in> set gs. (\<exists>k. group_ids g = {p_ID q | q. q \<in> set ps \<and> p_GroupID q = k})
       \<and> (\<forall>m \<in> set (g_Members g). \<forall>p \<in> set ps. p_ID p = m_ID m \<longrightarrow> p_Resolved p = resolvedStr (m_Resolved m))))"
proof -
  have R: "retypes ps g = [] \<longleftrightarrow>
      (\<forall>m \<in> set (g_Members g). \<forall>p \<in> set ps. p_ID p = m_ID m \<longrightarrow> p_Resolved p = resolvedStr (m_Resolved m))"
    if "g \<in> set gs" for g
  proof -
    have "str_map p_Resolved ps (m_ID m) = resolvedStr (m_Resolved m) \<longleftrightarrow>
        (\<forall>p \<in> set ps. p_ID p = m_ID m \<longrightarrow> p_Resolved p = resolvedStr (m_Resolved m))"
      if "m \<in> set (g_Members g)" for m
    proof -
      obtain p where "p \<in> set ps" "p_ID p = m_ID m" using partition_of_member [OF assms \<open>g \<in> set gs\<close> \<open>m \<in> set (g_Members g)\<close>] .
      then show ?thesis using str_map_eq [OF partition_ofD(1) [OF assms]] by metis
    qed
    then show ?thesis by (auto simp: retypes_def filter_empty_conv)
  qed
  have D: "the (diff_group ps g) = [] \<longleftrightarrow> agrees_with ps g \<and> retypes ps g = []" if "g \<in> set gs" for g
    by (simp add: diff_group_eq [OF assms that])
  have "Diff ps gs = Some [] \<longleftrightarrow> (\<forall>g \<in> set gs. agrees_with ps g \<and> retypes ps g = [])"
    using D by (simp add: Diff_eq [OF assms subset_refl])
  moreover have "agrees_with ps g \<longleftrightarrow> (\<exists>k. group_ids g = {p_ID q | q. q \<in> set ps \<and> p_GroupID q = k})" for g
    unfolding agrees_with_def by (rule iff_exI) (rule eq_commute)
  ultimately show ?thesis using R by (simp add: Diff_eq [OF assms subset_refl])
qed

text \<open>Two postings stored in one group, and the engine's answer over them.\<close>

abbreviation stored_pair :: "GroupingPosting list" where
  "stored_pair \<equiv> [(sample ''a'' [TRADE_ASSET] 1)\<lparr>p_GroupID := ''g'', p_Resolved := ''TRADE_ASSET''\<rparr>,
     (sample ''b'' [TRADE_CASH] (- 1))\<lparr>p_GroupID := ''g'', p_Resolved := ''TRADE_CASH''\<rparr>]"

abbreviation derived_pair :: "Group list" where
  "derived_pair \<equiv> [\<lparr>g_Members = [\<lparr>m_ID = ''a'', m_Resolved = TRADE_ASSET\<rparr>, \<lparr>m_ID = ''b'', m_Resolved = TRADE_CASH\<rparr>]\<rparr>]"

lemma derived_pair_partition: "partition_of stored_pair derived_pair"
  by (simp add: partition_of_def proper_def)

theorem Diff_silent_iff_agreement_witness: "Diff stored_pair derived_pair = Some []"
proof -
  have "\<exists>k. group_ids (hd derived_pair) = {p_ID q | q. q \<in> set stored_pair \<and> p_GroupID q = k}"
    unfolding stored_with_image by (intro exI [of _ "''g''"]) simp
  moreover have "resolvedStr TRADE_ASSET = ''TRADE_ASSET''" "resolvedStr TRADE_CASH = ''TRADE_CASH''"
    by code_simp+
  ultimately show ?thesis using Diff_silent_iff_agreement [OF derived_pair_partition] by simp
qed

subsection \<open>Applying the changes\<close>

text \<open>What the store holds for a posting: the group it is in and the spelling of its type.\<close>

datatype group_key = Stored string | New nat

type_synonym assignment = "string \<Rightarrow> group_key \<times> string"

definition stored_assignment :: "GroupingPosting list \<Rightarrow> assignment" where
  "stored_assignment ps i = (Stored (str_map p_GroupID ps i), str_map p_Resolved ps i)"

definition apply_change :: "nat \<Rightarrow> GroupChange \<Rightarrow> assignment \<Rightarrow> assignment" where
  "apply_change n c A =
     fold (\<lambda>m A. A(gm_ID m := (if gm_Moving m then New n else fst (A (gm_ID m)), gm_Resolved m))) (gc_Members c) A"

fun apply_changes :: "nat \<Rightarrow> GroupChange list \<Rightarrow> assignment \<Rightarrow> assignment" where
  "apply_changes n [] A = A"
| "apply_changes n (c # cs) A = apply_changes (Suc n) cs (apply_change n c A)"

lemma apply_changes_append:
  "apply_changes n (as @ bs) A = apply_changes (n + length as) bs (apply_changes n as A)"
  by (induction as arbitrary: n A) simp_all

lemma apply_change_other: "i \<notin> gm_ID ` set (gc_Members c) \<Longrightarrow> apply_change n c A i = A i"
proof -
  have "i \<notin> gm_ID ` set ms \<Longrightarrow>
    fold (\<lambda>m A. A(gm_ID m := (if gm_Moving m then New n else fst (A (gm_ID m)), gm_Resolved m))) ms A i = A i" for ms
    by (induction ms arbitrary: A) auto
  then show "i \<notin> gm_ID ` set (gc_Members c) \<Longrightarrow> apply_change n c A i = A i" by (simp add: apply_change_def)
qed

lemma apply_change_member:
  assumes "distinct (map gm_ID (gc_Members c))" "m \<in> set (gc_Members c)"
  shows "apply_change n c A (gm_ID m) = (if gm_Moving m then New n else fst (A (gm_ID m)), gm_Resolved m)"
proof -
  obtain as bs where c: "gc_Members c = as @ m # bs" using assms(2) by (auto dest: split_list)
  then have a: "gm_ID m \<notin> gm_ID ` set as" "gm_ID m \<notin> gm_ID ` set bs" using assms(1) by auto
  show ?thesis
    using apply_change_other [of "gm_ID m" "\<lparr>gc_Members = as\<rparr>" n A] a(1)
      apply_change_other [of "gm_ID m" "\<lparr>gc_Members = bs\<rparr>" n] a(2)
    by (simp add: apply_change_def c)
qed

definition changes_of :: "GroupingPosting list \<Rightarrow> Group \<Rightarrow> GroupChange list" where
  "changes_of ps g = (if agrees_with ps g
     then if retypes ps g \<noteq> [] then [\<lparr>gc_Members = retypes ps g\<rparr>] else []
     else [\<lparr>gc_Members = moves ps g\<rparr>])"

text \<open>One group: its members take the resolved type, and move together or not at all.\<close>

lemma apply_group:
  fixes n :: nat
  assumes "distinct (map m_ID (g_Members g))"
    and "\<And>m. m \<in> set (g_Members g) \<Longrightarrow> snd (A (m_ID m)) = str_map p_Resolved ps (m_ID m)"
  defines "A' \<equiv> apply_changes n (changes_of ps g) A"
  shows "i \<notin> group_ids g \<Longrightarrow> A' i = A i"
    and "m \<in> set (g_Members g) \<Longrightarrow>
      A' (m_ID m) = (if agrees_with ps g then fst (A (m_ID m)) else New n, resolvedStr (m_Resolved m))"
proof -
  let ?r = "\<lambda>m. \<lparr>gm_ID = m_ID m, gm_FromGroupID = '''', gm_Resolved = resolvedStr (m_Resolved m), gm_Moving = False\<rparr>"
  let ?v = "\<lambda>m. \<lparr>gm_ID = m_ID m, gm_FromGroupID = str_map p_GroupID ps (m_ID m),
                gm_Resolved = resolvedStr (m_Resolved m), gm_Moving = True\<rparr>"
  have ids: "gm_ID ` set (retypes ps g) \<subseteq> group_ids g" "gm_ID ` set (moves ps g) = group_ids g"
    by (auto simp: retypes_def moves_def image_image)
  show "A' i = A i" if "i \<notin> group_ids g"
  proof -
    have "i \<notin> gm_ID ` set (retypes ps g)" "i \<notin> gm_ID ` set (moves ps g)" using ids that by blast+
    then show ?thesis
      using apply_change_other [of i "\<lparr>gc_Members = retypes ps g\<rparr>"] apply_change_other [of i "\<lparr>gc_Members = moves ps g\<rparr>"]
      by (simp add: A'_def changes_of_def)
  qed
  have d: "distinct (map gm_ID (retypes ps g))" "distinct (map gm_ID (moves ps g))"
  proof -
    show "distinct (map gm_ID (retypes ps g))"
      using distinct_map_filter [OF assms(1)] by (simp add: retypes_def comp_def)
    have "mset (map gm_ID (moves ps g)) = mset (map m_ID (g_Members g))"
      by (simp add: moves_def comp_def multiset.map_comp)
    then show "distinct (map gm_ID (moves ps g))" using assms(1) mset_eq_imp_distinct_iff by blast
  qed
  show "A' (m_ID m) = (if agrees_with ps g then fst (A (m_ID m)) else New n, resolvedStr (m_Resolved m))"
    if m: "m \<in> set (g_Members g)"
  proof (cases "agrees_with ps g")
    case True
    show ?thesis
    proof (cases "str_map p_Resolved ps (m_ID m) = resolvedStr (m_Resolved m)")
      case same: True
      have "m' = m" if "m' \<in> set (g_Members g)" "m_ID m' = m_ID m" for m'
        using that m assms(1) by (auto simp: distinct_map dest: inj_onD)
      then have "m_ID m \<notin> gm_ID ` set (retypes ps g)" using same by (auto simp: retypes_def)
      then have "A' (m_ID m) = A (m_ID m)"
        using True apply_change_other [of "m_ID m" "\<lparr>gc_Members = retypes ps g\<rparr>"] by (auto simp: A'_def changes_of_def)
      with assms(2) [OF m] same True show ?thesis by (simp add: prod_eq_iff)
    next
      case False
      then have r: "?r m \<in> set (retypes ps g)" using m by (simp add: retypes_def)
      then have "changes_of ps g = [\<lparr>gc_Members = retypes ps g\<rparr>]" using True by (auto simp: changes_of_def)
      with apply_change_member [of "\<lparr>gc_Members = retypes ps g\<rparr>" "?r m" n A] d(1) r True show ?thesis by (simp add: A'_def)
    qed
  next
    case False
    have "?v m \<in> set (moves ps g)" using m by (simp add: moves_def)
    with apply_change_member [of "\<lparr>gc_Members = moves ps g\<rparr>" "?v m" n A] d(2) False show ?thesis
      by (simp add: A'_def changes_of_def)
  qed
qed

lemma agrees_stored:
  assumes "partition_of ps gs" "g \<in> set gs" "agrees_with ps g" "i \<in> group_ids g" "j \<in> ids_of ps"
  shows "str_map p_GroupID ps i = str_map p_GroupID ps j \<longleftrightarrow> j \<in> group_ids g"
proof -
  note pr = partition_ofD(1) [OF assms(1)]
  obtain k where k: "stored_with ps k = group_ids g" using assms(3) by (auto simp: agrees_with_def)
  have "i \<in> stored_with ps k" using k assms(4) by blast
  then obtain p where p: "p \<in> set ps" "p_GroupID p = k" "p_ID p = i" by blast
  obtain q where q: "q \<in> set ps" "p_ID q = j" using assms(5) by blast
  have "j \<in> stored_with ps k \<longleftrightarrow> p_GroupID q = k"
    using q inj_onD [OF proper_inj [OF pr]] by blast
  then show ?thesis using str_map_eq [OF pr p(1)] str_map_eq [OF pr q(1)] p q k by auto
qed

text \<open>A run over the groups, one after the other: what each of them leaves behind.\<close>

lemma apply_groups:
  fixes n :: nat
  assumes "distinct (concat (map (\<lambda>g. map m_ID (g_Members g)) gs))"
    and "\<And>g m. g \<in> set gs \<Longrightarrow> m \<in> set (g_Members g) \<Longrightarrow> snd (A (m_ID m)) = str_map p_Resolved ps (m_ID m)"
  defines "A' \<equiv> apply_changes n (concat (map (changes_of ps) gs)) A"
  shows "(\<forall>i. i \<notin> \<Union> (group_ids ` set gs) \<longrightarrow> A' i = A i)
    \<and> (\<forall>g \<in> set gs. \<forall>m \<in> set (g_Members g). snd (A' (m_ID m)) = resolvedStr (m_Resolved m))
    \<and> (\<forall>g \<in> set gs. agrees_with ps g \<longrightarrow> (\<forall>i \<in> group_ids g. fst (A' i) = fst (A i)))
    \<and> (\<forall>g \<in> set gs. \<not> agrees_with ps g \<longrightarrow> (\<exists>k \<ge> n. \<forall>i \<in> group_ids g. fst (A' i) = New k))
    \<and> (\<forall>g \<in> set gs. \<forall>h \<in> set gs. \<not> agrees_with ps g \<longrightarrow> \<not> agrees_with ps h \<longrightarrow>
         (\<forall>i \<in> group_ids g. \<forall>j \<in> group_ids h. fst (A' i) = fst (A' j) \<longrightarrow> g = h))"
  using assms(1,2) unfolding A'_def
proof (induction gs arbitrary: n A)
  case (Cons g gs)
  let ?B = "apply_changes n (changes_of ps g) A" and ?n = "n + length (changes_of ps g)"
  let ?C = "apply_changes ?n (concat (map (changes_of ps) gs)) ?B"
  have C: "apply_changes n (concat (map (changes_of ps) (g # gs))) A = ?C"
    by (simp add: apply_changes_append)
  have dg: "distinct (map m_ID (g_Members g))" and dgs: "distinct (concat (map (\<lambda>g. map m_ID (g_Members g)) gs))"
    and apart: "\<And>h i. h \<in> set gs \<Longrightarrow> i \<in> group_ids h \<Longrightarrow> i \<notin> group_ids g"
    using Cons.prems(1) by auto
  note G = apply_group [OF dg, where A = A and ps = ps and n = n]
  have G1: "i \<notin> group_ids g \<Longrightarrow> ?B i = A i" for i by (rule G(1)) (use Cons.prems(2) in auto)
  have G2: "m \<in> set (g_Members g) \<Longrightarrow>
      ?B (m_ID m) = (if agrees_with ps g then fst (A (m_ID m)) else New n, resolvedStr (m_Resolved m))" for m
    by (rule G(2)) (use Cons.prems(2) in auto)
  have IH: "(\<forall>i. i \<notin> \<Union> (group_ids ` set gs) \<longrightarrow> ?C i = ?B i)
    \<and> (\<forall>g \<in> set gs. \<forall>m \<in> set (g_Members g). snd (?C (m_ID m)) = resolvedStr (m_Resolved m))
    \<and> (\<forall>g \<in> set gs. agrees_with ps g \<longrightarrow> (\<forall>i \<in> group_ids g. fst (?C i) = fst (?B i)))
    \<and> (\<forall>g \<in> set gs. \<not> agrees_with ps g \<longrightarrow> (\<exists>k \<ge> ?n. \<forall>i \<in> group_ids g. fst (?C i) = New k))
    \<and> (\<forall>g \<in> set gs. \<forall>h \<in> set gs. \<not> agrees_with ps g \<longrightarrow> \<not> agrees_with ps h \<longrightarrow>
         (\<forall>i \<in> group_ids g. \<forall>j \<in> group_ids h. fst (?C i) = fst (?C j) \<longrightarrow> g = h))"
    by (rule Cons.IH [OF dgs]) (use Cons.prems(2) G1 apart in auto)
  have Cg: "?C i = ?B i" if "i \<in> group_ids g" for i
  proof -
    have "i \<notin> \<Union> (group_ids ` set gs)" using apart that by blast
    then show ?thesis using conjunct1 [OF IH] by (elim allE) (erule mp)
  qed
  have new: "?n = Suc n" if "\<not> agrees_with ps g" using that by (simp add: changes_of_def)
  have other: "fst (?C j) \<noteq> New n" if "\<not> agrees_with ps g" "h \<in> set gs" "\<not> agrees_with ps h" "j \<in> group_ids h" for h j
    using IH that new by fastforce
  have gn: "fst (?C i) = (if agrees_with ps g then fst (A i) else New n)" if "i \<in> group_ids g" for i
    using Cg [OF that] that G2 by auto
  show ?case
    unfolding C
  proof (intro conjI)
    show "\<forall>i. i \<notin> \<Union> (group_ids ` set (g # gs)) \<longrightarrow> ?C i = A i" using IH G1 by simp
    show "\<forall>g' \<in> set (g # gs). \<forall>m \<in> set (g_Members g'). snd (?C (m_ID m)) = resolvedStr (m_Resolved m)"
      using IH G2 Cg by auto
    show "\<forall>g' \<in> set (g # gs). agrees_with ps g' \<longrightarrow> (\<forall>i \<in> group_ids g'. fst (?C i) = fst (A i))"
      using IH gn G1 apart by (metis set_ConsD)
    show "\<forall>g' \<in> set (g # gs). \<not> agrees_with ps g' \<longrightarrow> (\<exists>k \<ge> n. \<forall>i \<in> group_ids g'. fst (?C i) = New k)"
      using IH gn by (metis add_leD1 order_refl set_ConsD)
    show "\<forall>g' \<in> set (g # gs). \<forall>h \<in> set (g # gs). \<not> agrees_with ps g' \<longrightarrow> \<not> agrees_with ps h \<longrightarrow>
         (\<forall>i \<in> group_ids g'. \<forall>j \<in> group_ids h. fst (?C i) = fst (?C j) \<longrightarrow> g' = h)"
      using IH gn other by (metis set_ConsD)
  qed
qed simp

lemma Diff_changes:
  assumes "partition_of ps gs"
  shows "Diff ps gs = Some (concat (map (changes_of ps) gs))"
proof -
  have "map (\<lambda>g. the (diff_group ps g)) gs = map (changes_of ps) gs"
    by (rule map_cong) (simp_all add: diff_group_eq [OF assms] changes_of_def)
  then show ?thesis by (simp only: Diff_eq [OF assms subset_refl])
qed

text \<open>
  C29. The changes are enough: applied to what is stored, they produce exactly the derived
  partition. Two postings are then in one group if and only if the engine put them in one, and
  every posting carries the type the engine resolved it to; groups the engine agrees with keep
  the group they are stored in.
\<close>

theorem Diff_applied_is_derived_partition:
  assumes "partition_of ps gs" "Diff ps gs = Some cs"
  shows "(\<forall>p \<in> set ps. \<forall>q \<in> set ps.
      fst (apply_changes 0 cs (stored_assignment ps) (p_ID p)) = fst (apply_changes 0 cs (stored_assignment ps) (p_ID q))
        \<longleftrightarrow> (\<exists>g \<in> set gs. {p_ID p, p_ID q} \<subseteq> group_ids g))
    \<and> (\<forall>g \<in> set gs. \<forall>m \<in> set (g_Members g).
         snd (apply_changes 0 cs (stored_assignment ps) (m_ID m)) = resolvedStr (m_Resolved m))"
proof -
  let ?S = "stored_assignment ps"
  let ?A = "apply_changes 0 cs ?S"
  have cs: "cs = concat (map (changes_of ps) gs)" using assms(2) Diff_changes [OF assms(1)] by simp
  have d: "distinct (concat (map (\<lambda>g. map m_ID (g_Members g)) gs))"
    using partition_ofD(3) [OF assms(1)] by (simp add: map_concat comp_def)
  note R = apply_groups [OF d, of ?S ps 0, folded cs]
  have res: "snd (?S i) = str_map p_Resolved ps i" for i by (simp add: stored_assignment_def)
  note R = R [OF res]
  have R1: "\<forall>g \<in> set gs. \<forall>m \<in> set (g_Members g). snd (?A (m_ID m)) = resolvedStr (m_Resolved m)"
    using R by (elim conjE)
  have R2: "fst (?A i) = fst (?S i)" if "g \<in> set gs" "agrees_with ps g" "i \<in> group_ids g" for g i
    using R that by (elim conjE) blast
  have R3: "\<exists>k. \<forall>i \<in> group_ids g. fst (?A i) = New k" if "g \<in> set gs" "\<not> agrees_with ps g" for g
    using R that by (elim conjE) blast
  have R4: "g = h" if "g \<in> set gs" "h \<in> set gs" "\<not> agrees_with ps g" "\<not> agrees_with ps h"
      "i \<in> group_ids g" "j \<in> group_ids h" "fst (?A i) = fst (?A j)" for g h i j
    using R that by (elim conjE) blast
  have in_one: "\<exists>h \<in> set gs. i \<in> group_ids h" if "i \<in> ids_of ps" for i
    using that partition_ofD(4) [OF assms(1)] by blast
  have stored: "fst (?S i) = fst (?S j) \<longleftrightarrow> j \<in> group_ids g" if "g \<in> set gs" "agrees_with ps g" "i \<in> group_ids g" "j \<in> ids_of ps" for g i j
    using agrees_stored [OF assms(1) that] by (simp add: stored_assignment_def)
  have main: "fst (?A i) = fst (?A j) \<longleftrightarrow> j \<in> group_ids g"
    if g: "g \<in> set gs" "i \<in> group_ids g" and j: "j \<in> ids_of ps" for g i j
  proof -
    obtain h where h: "h \<in> set gs" "j \<in> group_ids h" using in_one [OF j] by blast
    have i: "i \<in> ids_of ps" using g partition_of_group(2) [OF assms(1)] by blast
    have gh: "j \<in> group_ids g \<longleftrightarrow> g = h"
      using h g(1) partition_of_disjoint [OF assms(1)] by (metis in_set_conv_nth)
    have S: "\<exists>x. fst (?A y) = Stored x" if "f \<in> set gs" "agrees_with ps f" "y \<in> group_ids f" for f y
      using R2 [OF that] by (simp add: stored_assignment_def)
    show ?thesis
    proof (cases "agrees_with ps g"; cases "agrees_with ps h")
      assume a: "agrees_with ps g" "agrees_with ps h"
      show ?thesis using stored [OF g(1) a(1) g(2) j] R2 [OF g(1) a(1) g(2)] R2 [OF h(1) a(2) h(2)] by simp
    next
      assume a: "\<not> agrees_with ps g" "\<not> agrees_with ps h"
      show ?thesis using R3 [OF g(1) a(1)] R4 [OF g(1) h(1) a g(2) h(2)] gh g(2) h(2) by metis
    next
      assume a: "agrees_with ps g" "\<not> agrees_with ps h"
      then have "g \<noteq> h" by blast
      with S [OF g(1) a(1) g(2)] R3 [OF h(1) a(2)] h(2) gh show ?thesis by fastforce
    next
      assume a: "\<not> agrees_with ps g" "agrees_with ps h"
      then have "g \<noteq> h" by blast
      with S [OF h(1) a(2) h(2)] R3 [OF g(1) a(1)] g(2) gh show ?thesis by fastforce
    qed
  qed
  have "fst (?A (p_ID p)) = fst (?A (p_ID q)) \<longleftrightarrow> (\<exists>g \<in> set gs. {p_ID p, p_ID q} \<subseteq> group_ids g)"
    if "p \<in> set ps" "q \<in> set ps" for p q
  proof -
    have "p_ID p \<in> ids_of ps" using that(1) by simp
    from in_one [OF this] obtain g where "g \<in> set gs" "p_ID p \<in> group_ids g" by (elim bexE)
    moreover from main [OF this] that(2) have "fst (?A (p_ID p)) = fst (?A (p_ID q)) \<longleftrightarrow> p_ID q \<in> group_ids g" by simp
    moreover have "fst (?A (p_ID p)) = fst (?A (p_ID q))" if "h \<in> set gs" "{p_ID p, p_ID q} \<subseteq> group_ids h" for h
      using main [OF that(1), of "p_ID p" "p_ID q"] that(2) \<open>q \<in> set ps\<close> by simp
    ultimately show ?thesis by blast
  qed
  with R1 show ?thesis by blast
qed

theorem Diff_applied_is_derived_partition_witness:
  "\<exists>cs. Diff stored_pair [\<lparr>g_Members = [\<lparr>m_ID = ''a'', m_Resolved = TRADE_ASSET\<rparr>]\<rparr>,
       \<lparr>g_Members = [\<lparr>m_ID = ''b'', m_Resolved = TRADE_CASH\<rparr>]\<rparr>] = Some cs
     \<and> fst (apply_changes 0 cs (stored_assignment stored_pair) ''a'') \<noteq> fst (apply_changes 0 cs (stored_assignment stored_pair) ''b'')"
proof -
  let ?gs = "[\<lparr>g_Members = [\<lparr>m_ID = ''a'', m_Resolved = TRADE_ASSET\<rparr>]\<rparr>,
       \<lparr>g_Members = [\<lparr>m_ID = ''b'', m_Resolved = TRADE_CASH\<rparr>]\<rparr>]"
  have p: "partition_of stored_pair ?gs" by (simp add: partition_of_def proper_def)
  obtain cs where cs: "Diff stored_pair ?gs = Some cs" using Diff_changes [OF p] by blast
  from Diff_applied_is_derived_partition [OF p cs] cs show ?thesis by simp
qed

subsection \<open>Agreement\<close>

definition agreed :: "GroupingPosting list \<Rightarrow> Group \<Rightarrow> bool" where
  "agreed ps g \<longleftrightarrow> length (drawn_from ps g) = 1 \<and> storedSize ps (only (drawn_from ps g)) = length (g_Members g)"

lemma note_example_counts [simp]:
  "d_Groups (note_example s d) = d_Groups d" "d_Stored (note_example s d) = d_Stored d"
  "d_Agreed (note_example s d) = d_Agreed d"
  by (simp_all add: note_example_def)

lemma compare_fold:
  "d_Groups (fold (compare_group ps) gs d) = d_Groups d \<and> d_Stored (fold (compare_group ps) gs d) = d_Stored d
   \<and> d_Agreed (fold (compare_group ps) gs d) = d_Agreed d + length (filter (agreed ps) gs)"
proof (induction gs arbitrary: d)
  case (Cons g gs)
  have "d_Groups (compare_group ps g d) = d_Groups d" "d_Stored (compare_group ps g d) = d_Stored d"
    "d_Agreed (compare_group ps g d) = d_Agreed d + (if agreed ps g then 1 else 0)"
    by (auto simp: compare_group_def agreed_def Let_def)
  then show ?case using Cons.IH [of "compare_group ps g d"] by simp
qed simp

lemma storedSize_card: "proper ps \<Longrightarrow> storedSize ps k = card (stored_with ps k)"
  unfolding stored_with_image storedSize_def proper_def
  by (metis distinct_card distinct_map_filter length_map list.set_map)

lemma agreed_iff:
  assumes "partition_of ps gs" "g \<in> set gs"
  shows "agreed ps g \<longleftrightarrow> agrees_with ps g"
proof -
  note pr = partition_ofD(1) [OF assms(1)] and ne = partition_ofD(2) [OF assms]
  note gr = partition_of_group [OF assms]
  let ?f = "str_map p_GroupID ps"
  have size: "length (g_Members g) = card (group_ids g)" using gr(1) distinct_card by (metis length_map list.set_map)
  have dset: "set (drawn_from ps g) = ?f ` group_ids g" by (auto simp: drawn_from_def)
  have one: "length (drawn_from ps g) = 1 \<longleftrightarrow> (\<exists>k. ?f ` group_ids g = {k})"
  proof -
    have "length (drawn_from ps g) = card (?f ` group_ids g)"
      unfolding dset [symmetric] by (simp add: drawn_from_def length_remdups_card_conv)
    then show ?thesis by (simp add: card_1_singleton_iff)
  qed
  have sub: "group_ids g \<subseteq> stored_with ps k" if "?f ` group_ids g = {k}" for k
  proof
    fix i assume i: "i \<in> group_ids g"
    then have "i \<in> ids_of ps" using gr(2) by (rule subsetD [rotated])
    then obtain p where p: "p \<in> set ps" "p_ID p = i" by (metis imageE)
    have "?f i = k" using that i by (metis imageI singletonD)
    then have "p_GroupID p = k" using str_map_eq [OF pr p(1), of p_GroupID] p(2) by simp
    with p show "i \<in> stored_with ps k" by blast
  qed
  have fin: "finite (stored_with ps k)" for k by (simp add: stored_with_image)
  show ?thesis
  proof
    assume a: "agreed ps g"
    then obtain k where k: "?f ` group_ids g = {k}" using one by (auto simp: agreed_def)
    have "length (drawn_from ps g) = 1" using a by (simp add: agreed_def)
    then have "only (drawn_from ps g) = k"
      using dset k by (cases "drawn_from ps g") (auto simp: only_def)
    then have "card (stored_with ps k) = card (group_ids g)"
      using a storedSize_card [OF pr] size by (simp add: agreed_def)
    then have "group_ids g = stored_with ps k" using card_subset_eq [OF fin sub [OF k]] by simp
    then show "agrees_with ps g" unfolding agrees_with_def by (intro exI [of _ k]) (rule sym)
  next
    assume a: "agrees_with ps g"
    then obtain k where k: "stored_with ps k = group_ids g" by (auto simp: agrees_with_def)
    have "?f i = k" if "i \<in> group_ids g" for i
    proof -
      have "i \<in> stored_with ps k" unfolding k by (rule that)
      then obtain q where q: "q \<in> set ps" "p_GroupID q = k" "p_ID q = i" by blast
      then show ?thesis using str_map_eq [OF pr q(1), of p_GroupID] by simp
    qed
    then have "?f ` group_ids g = (\<lambda>_. k) ` group_ids g" by (intro image_cong refl)
    also have "\<dots> = {k}" by (rule image_constant_conv [THEN trans]) (simp add: ne)
    finally have fk: "?f ` group_ids g = {k}" .
    then have l: "length (drawn_from ps g) = 1" using one by blast
    then have "only (drawn_from ps g) = k" using dset fk by (cases "drawn_from ps g") (auto simp: only_def)
    then show "agreed ps g" using l storedSize_card [OF pr] size k by (simp add: agreed_def)
  qed
qed

lemma all_agree_count:
  assumes "partition_of ps gs" "\<forall>g \<in> set gs. agrees_with ps g"
  shows "length gs = card (p_GroupID ` set ps)"
proof -
  note pr = partition_ofD(1) [OF assms(1)]
  let ?f = "str_map p_GroupID ps" and ?h = "\<lambda>i. m_ID (hd (g_Members (gs ! i)))"
  have hin: "?h i \<in> group_ids (gs ! i)" "?h i \<in> ids_of ps" if "i < length gs" for i
  proof -
    have g: "gs ! i \<in> set gs" using that by simp
    show h: "?h i \<in> group_ids (gs ! i)" using partition_ofD(2) [OF assms(1) g] by simp
    then show "?h i \<in> ids_of ps" using partition_of_group(2) [OF assms(1) g] by blast
  qed
  have mem: "?f (?h i) = ?f j \<longleftrightarrow> j \<in> group_ids (gs ! i)" if "i < length gs" "j \<in> ids_of ps" for i j
    using agrees_stored [OF assms(1) nth_mem [OF that(1)] _ hin(1) [OF that(1)] that(2)] assms(2) nth_mem [OF that(1)] by simp
  have "inj_on (\<lambda>i. ?f (?h i)) {..<length gs}"
  proof (rule inj_onI)
    fix i j assume ij: "i \<in> {..<length gs}" "j \<in> {..<length gs}" "?f (?h i) = ?f (?h j)"
    then have "?h j \<in> group_ids (gs ! i)" using mem [of i "?h j"] hin(2) [of j] by simp
    then show "i = j" using partition_of_disjoint [OF assms(1), of i j "?h j"] hin(1) [of j] ij by simp
  qed
  moreover have "(\<lambda>i. ?f (?h i)) ` {..<length gs} = p_GroupID ` set ps"
  proof (intro equalityI subsetI)
    fix k assume "k \<in> (\<lambda>i. ?f (?h i)) ` {..<length gs}"
    then obtain i where i: "i < length gs" "k = ?f (?h i)" by auto
    then obtain p where "p \<in> set ps" "p_ID p = ?h i" using hin(2) [OF i(1)] by auto
    then show "k \<in> p_GroupID ` set ps" using i(2) str_map_eq [OF pr, of p p_GroupID] by auto
  next
    fix k assume "k \<in> p_GroupID ` set ps"
    then obtain p where p: "p \<in> set ps" "k = p_GroupID p" by blast
    then have pid: "p_ID p \<in> ids_of ps" by simp
    then have "p_ID p \<in> \<Union> (group_ids ` set gs)" using partition_ofD(4) [OF assms(1)] by simp
    then obtain i where i: "i < length gs" "p_ID p \<in> group_ids (gs ! i)" by (metis UN_E in_set_conv_nth)
    then have "?f (?h i) = k" using mem [OF i(1) pid] str_map_eq [OF pr p(1)] p(2) by simp
    with i(1) show "k \<in> (\<lambda>i. ?f (?h i)) ` {..<length gs}" by force
  qed
  ultimately show ?thesis using card_image by (metis card_lessThan)
qed

text \<open>
  The two ways of looking at a disagreement coincide: a shadow run agrees with what is stored
  if and only if every derived group is exactly a stored group, which is if and only if the
  engine would move no posting (it may still retype some).
\<close>

theorem Compare_agrees_iff_nothing_moves:
  assumes "partition_of ps gs" "Diff ps gs = Some cs"
  shows "(Agrees (Compare ps gs) \<longleftrightarrow>
      (\<forall>g \<in> set gs. \<exists>k. {p_ID q | q. q \<in> set ps \<and> p_GroupID q = k} = group_ids g))
    \<and> (Agrees (Compare ps gs) \<longleftrightarrow> (\<forall>c \<in> set cs. \<forall>m \<in> set (gc_Members c). \<not> gm_Moving m))"
proof -
  have "Agrees (Compare ps gs) \<longleftrightarrow>
      length gs = card (p_GroupID ` set ps) \<and> length (filter (agreed ps) gs) = length gs"
    using compare_fold by (simp add: Agrees_def Compare_def Let_def length_remdups_card_conv)
  also have "length (filter (agreed ps) gs) = length gs \<longleftrightarrow> (\<forall>g \<in> set gs. agrees_with ps g)"
    using agreed_iff [OF assms(1)] by (metis filter_True length_filter_less order_less_irrefl)
  finally have A: "Agrees (Compare ps gs) \<longleftrightarrow> (\<forall>g \<in> set gs. agrees_with ps g)"
    using all_agree_count [OF assms(1)] by auto
  have cs: "cs = concat (map (changes_of ps) gs)" using assms(2) Diff_changes [OF assms(1)] by simp
  have "(\<forall>c \<in> set (changes_of ps g). \<forall>m \<in> set (gc_Members c). \<not> gm_Moving m) \<longleftrightarrow> agrees_with ps g"
    if "g \<in> set gs" for g
    using partition_ofD(2) [OF assms(1) that] by (auto simp: changes_of_def retypes_def moves_def)
  then have "(\<forall>c \<in> set cs. \<forall>m \<in> set (gc_Members c). \<not> gm_Moving m) \<longleftrightarrow> (\<forall>g \<in> set gs. agrees_with ps g)"
    unfolding cs by simp
  with A show ?thesis by (simp add: agrees_with_def)
qed

theorem Compare_agrees_iff_nothing_moves_witness: "Agrees (Compare stored_pair derived_pair)"
proof -
  obtain cs where cs: "Diff stored_pair derived_pair = Some cs" using Diff_changes [OF derived_pair_partition] by blast
  have "\<exists>k. {p_ID q | q. q \<in> set stored_pair \<and> p_GroupID q = k} = group_ids (hd derived_pair)"
    unfolding stored_with_image by (intro exI [of _ "''g''"]) simp
  then show ?thesis using Compare_agrees_iff_nothing_moves [OF derived_pair_partition cs] by simp
qed

end
