(* ===== verification/Grouping_Engine.thy ===== *)
theory Grouping_Engine
  imports Grouping_Diff
begin

text \<open>
  How a region is grown and settled: \<open>Neighbourhood\<close>
  (\<open>src/server/grouping/neighbourhood.go\<close>), \<open>Engine.Settle\<close>
  (\<open>src/server/grouping/engine.go\<close>), the grouping cycle (\<open>src/server/grouping/worker.go\<close>), and the
  three reads of \<open>src/server/db/postgres/grouping.go\<close> that answer the rules' queries.

  \<open>Neighbourhood\<close> loops until a round finds nothing new, so it is a partial function: \<open>None\<close>
  would be a loop that never ends. \<open>Inl\<close> is an error of a read. The locale \<open>reach_reader\<close>
  says what the loop relies on of the rules' reads; over the reads of the store it is
  interpreted for the default rules, and the region is then exactly what the seed reaches.

  The rows of the store a read runs over (the transcribed postings of a user, in id order) and
  whether a user id parses are parameters of the reads.
\<close>

subsection \<open>The reads of the store\<close>

definition not_held :: "string list \<Rightarrow> GroupingPosting \<Rightarrow> bool" where
  "not_held held t \<longleftrightarrow> p_ID t \<notin> set held"

definition token_hit :: "TokenQuery \<Rightarrow> GroupingPosting \<Rightarrow> bool" where
  "token_hit r t \<longleftrightarrow> list_ex (\<lambda>c. c_Label c = tq_Label r \<and> c_Token c = tq_Token r) (p_Correlations t)
     \<and> p_Broker t = tq_Broker r \<and> (tq_AnyAccount r \<or> p_Account t = tq_Account r)"

definition date_hit :: "DateQuery \<Rightarrow> GroupingPosting \<Rightarrow> bool" where
  "date_hit r t \<longleftrightarrow> p_Broker t = dq_Broker r \<and> p_Account t = dq_Account r
     \<and> dq_From r \<le> p_OrderDate t \<and> p_OrderDate t < dq_Before r"

definition ordinal_hit :: "OrdinalQuery \<Rightarrow> GroupingPosting \<Rightarrow> bool" where
  "ordinal_hit r t \<longleftrightarrow> list_ex (\<lambda>c. c_Label c = oq_Label r
       \<and> (case c_Ordinal c of None \<Rightarrow> False | Some x \<Rightarrow> sint (oq_Low r) \<le> sint x \<and> sint x \<le> sint (oq_High r)))
       (p_Correlations t)
     \<and> p_Broker t = oq_Broker r \<and> p_Account t = oq_Account r"

definition db_read ::
    "(string \<Rightarrow> bool) \<Rightarrow> (string \<Rightarrow> GroupingPosting list) \<Rightarrow> ('q \<Rightarrow> GroupingPosting \<Rightarrow> bool)
     \<Rightarrow> string \<Rightarrow> 'q list \<Rightarrow> string list \<Rightarrow> string + GroupingPosting list" where
  "db_read uuid_ok rows hit userID qs held =
     (if \<not> uuid_ok userID then Inl ''invalid user id''
      else if qs = [] then Inr []
      else Inr (filter (\<lambda>t. list_ex (\<lambda>r. hit r t) qs \<and> not_held held t) (rows userID)))"

definition postgres_reader :: "(string \<Rightarrow> bool) \<Rightarrow> (string \<Rightarrow> GroupingPosting list) \<Rightarrow> GroupingReader" where
  "postgres_reader uuid_ok rows =
     \<lparr>PostingsByToken = db_read uuid_ok rows token_hit,
      PostingsByDates = db_read uuid_ok rows date_hit,
      PostingsByOrdinals = db_read uuid_ok rows ordinal_hit\<rparr>"

subsection \<open>Growing a region\<close>

type_synonym held = "(string \<times> GroupingPosting) list"

definition held_ids :: "held \<Rightarrow> string list" where
  "held_ids held = go_sort (<) (map fst held)"

definition take_found :: "GroupingPosting \<Rightarrow> held \<times> GroupingPosting list \<Rightarrow> held \<times> GroupingPosting list" where
  "take_found p hf = (let (held, fresh) = hf in
     if map_of held (p_ID p) \<noteq> None then (held, fresh)
     else (AList.update (p_ID p) p held, fresh @ [p]))"

fun expand_round ::
    "string \<Rightarrow> GroupingReader \<Rightarrow> GroupingPosting list \<Rightarrow> Rule list \<Rightarrow> held \<times> GroupingPosting list
     \<Rightarrow> string + held \<times> GroupingPosting list" where
  "expand_round userID r frontier [] hf = Inr hf"
| "expand_round userID r frontier (rule # rules) hf =
     (case r_Expand rule userID frontier r (held_ids (fst hf)) of
        Inl err \<Rightarrow> Inl (r_Name rule @ '': expand neighbourhood: '' @ err)
      | Inr found \<Rightarrow> expand_round userID r frontier rules (fold take_found found hf))"

partial_function (option) grow ::
    "string \<Rightarrow> GroupingReader \<Rightarrow> Rule list \<Rightarrow> held \<Rightarrow> GroupingPosting list \<Rightarrow> (string + held) option" where
  "grow userID r rules held frontier =
     (if frontier = [] then Some (Inr held)
      else case expand_round userID r frontier rules (held, []) of
          Inl err \<Rightarrow> Some (Inl err)
        | Inr (held', fresh) \<Rightarrow> grow userID r rules held' fresh)"

definition Neighbourhood ::
    "string \<Rightarrow> GroupingPosting list \<Rightarrow> Rule list \<Rightarrow> GroupingReader \<Rightarrow> (string + GroupingPosting list) option" where
  "Neighbourhood userID seed rules r =
     map_option (map_sum (\<lambda>err. err) (\<lambda>held. go_sort (\<lambda>a b. p_ID a < p_ID b) (map snd held)))
       (grow userID r rules (fold (\<lambda>p m. AList.update (p_ID p) p m) seed []) seed)"

subsection \<open>Settling a set of seeds\<close>

record Engine =
  e_Rules :: "Rule list"
  e_Opts :: Opts

definition NewEngine :: "(decimal \<Rightarrow> decimal \<Rightarrow> decimal) \<Rightarrow> Engine" where
  "NewEngine ddiv = \<lparr>e_Rules = DefaultRules ddiv, e_Opts = DefaultOpts\<rparr>"

fun settle_seeds ::
    "string \<Rightarrow> GroupingReader \<Rightarrow> Rule list \<Rightarrow> Opts \<Rightarrow> string set \<Rightarrow> GroupChange list \<Rightarrow> GroupingPosting list
     \<Rightarrow> (string + GroupChange list) option" where
  "settle_seeds userID r rules opts dn out [] = Some (Inr out)"
| "settle_seeds userID r rules opts dn out (s # seeds) =
     (if p_ID s \<in> dn then settle_seeds userID r rules opts dn out seeds
      else case Neighbourhood userID [s] rules r of
          None \<Rightarrow> None
        | Some (Inl err) \<Rightarrow> Some (Inl err)
        | Some (Inr ps) \<Rightarrow> (case Diff ps (Partition ps rules opts) of
            None \<Rightarrow> None
          | Some cs \<Rightarrow> settle_seeds userID r rules opts (dn \<union> p_ID ` set ps) (out @ cs) seeds))"

definition Settle ::
    "(decimal \<Rightarrow> decimal \<Rightarrow> decimal) \<Rightarrow> Engine \<Rightarrow> string \<Rightarrow> GroupingPosting list \<Rightarrow> GroupingReader
     \<Rightarrow> (string + GroupChange list) option" where
  "Settle ddiv e userID seed r =
     settle_seeds userID r (if e_Rules e = [] then DefaultRules ddiv else e_Rules e) (e_Opts e) {} [] seed"

subsection \<open>The grouping cycle\<close>

text \<open>
  The store a cycle writes to is a parameter: a state of any type, the reads it answers and
  \<open>ApplyGrouping\<close>. A user's run ends in the new state with an error or the divergence found.
\<close>

definition add_divergence :: "Divergence \<Rightarrow> Divergence \<Rightarrow> Divergence" where
  "add_divergence d tot =
     fold note_example (d_Examples d)
       (tot\<lparr>d_Groups := d_Groups tot + d_Groups d, d_Stored := d_Stored tot + d_Stored d,
              d_Agreed := d_Agreed tot + d_Agreed d, d_Joined := d_Joined tot + d_Joined d,
              d_Split := d_Split tot + d_Split d\<rparr>)"

abbreviation no_divergence :: Divergence where
  "no_divergence \<equiv> \<lparr>d_Groups = 0, d_Stored = 0, d_Agreed = 0, d_Joined = 0, d_Split = 0, d_Examples = []\<rparr>"

fun cycle_seeds ::
    "('w \<Rightarrow> GroupingReader) \<Rightarrow> ('w \<Rightarrow> string \<Rightarrow> GroupChange list \<Rightarrow> 'w \<times> string option) \<Rightarrow> Rule list \<Rightarrow> Opts
     \<Rightarrow> string \<Rightarrow> string set \<Rightarrow> Divergence \<Rightarrow> 'w \<Rightarrow> GroupingPosting list \<Rightarrow> ('w \<times> (string + Divergence)) option" where
  "cycle_seeds rd wr rules opts userID dn tot w [] = Some (w, Inr tot)"
| "cycle_seeds rd wr rules opts userID dn tot w (seed # seeds) =
     (if p_ID seed \<in> dn then cycle_seeds rd wr rules opts userID dn tot w seeds
      else case Neighbourhood userID [seed] rules (rd w) of
          None \<Rightarrow> None
        | Some (Inl err) \<Rightarrow> Some (w, Inl err)
        | Some (Inr ps) \<Rightarrow>
            let gs = Partition ps rules opts; dn' = dn \<union> p_ID ` set ps in
            (case Diff ps gs of
               None \<Rightarrow> None
             | Some changes \<Rightarrow>
                 let (w', err) = (if length changes > 0 then wr w userID changes else (w, None)) in
                 (case err of
                    Some e \<Rightarrow> Some (w', Inl e)
                  | None \<Rightarrow> cycle_seeds rd wr rules opts userID dn' (add_divergence (Compare ps gs) tot) w' seeds)))"

definition cycleUser ::
    "(decimal \<Rightarrow> decimal \<Rightarrow> decimal) \<Rightarrow> ('w \<Rightarrow> GroupingReader) \<Rightarrow> ('w \<Rightarrow> string \<Rightarrow> GroupChange list \<Rightarrow> 'w \<times> string option)
     \<Rightarrow> 'w \<Rightarrow> string \<Rightarrow> GroupingPosting list \<Rightarrow> ('w \<times> (string + Divergence)) option" where
  "cycleUser ddiv rd wr w userID seeds =
     cycle_seeds rd wr (DefaultRules ddiv) DefaultOpts userID {} no_divergence w seeds"

definition usersOf :: "GroupingPosting list \<Rightarrow> string list" where
  "usersOf seeds = map p_UserID (first_by p_UserID {} seeds)"

definition byUser :: "GroupingPosting list \<Rightarrow> string \<Rightarrow> GroupingPosting list" where
  "byUser seeds userID = filter (\<lambda>s. p_UserID s = userID) seeds"

fun cycle_users ::
    "(decimal \<Rightarrow> decimal \<Rightarrow> decimal) \<Rightarrow> ('w \<Rightarrow> GroupingReader) \<Rightarrow> ('w \<Rightarrow> string \<Rightarrow> GroupChange list \<Rightarrow> 'w \<times> string option)
     \<Rightarrow> GroupingPosting list \<Rightarrow> 'w \<Rightarrow> string option \<Rightarrow> Divergence \<Rightarrow> string list
     \<Rightarrow> ('w \<times> string option \<times> Divergence) option" where
  "cycle_users ddiv rd wr seeds w failed tot [] = Some (w, failed, tot)"
| "cycle_users ddiv rd wr seeds w failed tot (u # us) =
     (case cycleUser ddiv rd wr w u (byUser seeds u) of
        None \<Rightarrow> None
      | Some (w', Inl err) \<Rightarrow> cycle_users ddiv rd wr seeds w' (Some err) tot us
      | Some (w', Inr d) \<Rightarrow> cycle_users ddiv rd wr seeds w' failed (add_divergence d tot) us)"

text \<open>\<open>ListGroupingSeeds\<close> is a read of the store; its result or error is an argument.\<close>

definition runCycle ::
    "(decimal \<Rightarrow> decimal \<Rightarrow> decimal) \<Rightarrow> ('w \<Rightarrow> GroupingReader) \<Rightarrow> ('w \<Rightarrow> string \<Rightarrow> GroupChange list \<Rightarrow> 'w \<times> string option)
     \<Rightarrow> 'w \<Rightarrow> string + GroupingPosting list \<Rightarrow> ('w \<times> string option \<times> Divergence) option" where
  "runCycle ddiv rd wr w listed = (case listed of
       Inl err \<Rightarrow> Some (w, Some err, no_divergence)
     | Inr seeds \<Rightarrow>
         if seeds = [] then Some (w, None, no_divergence)
         else cycle_users ddiv rd wr seeds w None no_divergence (usersOf seeds))"

subsection \<open>The region is what the seed reaches\<close>

text \<open>The held postings as a set, and what the map keeps.\<close>

definition held_ok :: "GroupingPosting list \<Rightarrow> held \<Rightarrow> bool" where
  "held_ok rows h \<longleftrightarrow> distinct (map fst h) \<and> (\<forall>(i, p) \<in> set h. i = p_ID p \<and> p \<in> set rows)"

abbreviation postings :: "held \<Rightarrow> GroupingPosting set" where
  "postings h \<equiv> snd ` set h"

lemma held_ok_ids: "held_ok rows h \<Longrightarrow> fst ` set h = p_ID ` postings h"
  unfolding held_ok_def by (force simp: image_iff)

lemma held_ok_rows: "held_ok rows h \<Longrightarrow> postings h \<subseteq> set rows"
  unfolding held_ok_def by force

lemma update_new: "map_of h k = None \<Longrightarrow> set (AList.update k v h) = insert (k, v) (set h)"
  by (induction h) (auto split: if_splits)

lemma take_found_held:
  assumes "held_ok rows h" "p \<in> set rows" "inj_on p_ID (set rows)"
  shows "held_ok rows (fst (take_found p (h, fr)))" "postings (fst (take_found p (h, fr))) = insert p (postings h)"
    "set (snd (take_found p (h, fr))) = set fr \<union> ({p} - postings h)"
proof -
  have iff: "map_of h (p_ID p) = None \<longleftrightarrow> p \<notin> postings h"
  proof -
    have "map_of h (p_ID p) = None \<longleftrightarrow> p_ID p \<notin> p_ID ` postings h"
      by (simp add: map_of_eq_None_iff held_ok_ids [OF assms(1)])
    also have "\<dots> \<longleftrightarrow> p \<notin> postings h"
      using inj_on_image_mem_iff [OF assms(3,2) held_ok_rows [OF assms(1)]] by simp
    finally show ?thesis .
  qed
  show "held_ok rows (fst (take_found p (h, fr)))"
  proof (cases "map_of h (p_ID p)")
    case None
    then have "fst (take_found p (h, fr)) = AList.update (p_ID p) p h" by (simp add: take_found_def)
    then show ?thesis using assms(1,2) update_new [OF None, of p]
      unfolding held_ok_def by (simp add: distinct_update)
  qed (simp add: take_found_def assms(1))
  show "postings (fst (take_found p (h, fr))) = insert p (postings h)"
    using iff update_new [of h "p_ID p" p] by (cases "p \<in> postings h") (auto simp: take_found_def insert_absorb)
  show "set (snd (take_found p (h, fr))) = set fr \<union> ({p} - postings h)"
    using iff by (cases "p \<in> postings h") (auto simp: take_found_def)
qed

lemma take_founds:
  assumes "held_ok rows h" "set ps \<subseteq> set rows" "inj_on p_ID (set rows)"
  shows "held_ok rows (fst (fold take_found ps (h, fr)))
    \<and> postings (fst (fold take_found ps (h, fr))) = postings h \<union> set ps
    \<and> set (snd (fold take_found ps (h, fr))) = set fr \<union> (set ps - postings h)"
  using assms(1,2)
proof (induction ps arbitrary: h fr)
  case (Cons p ps)
  obtain h' fr' where hf: "take_found p (h, fr) = (h', fr')" by fastforce
  note t = take_found_held [OF Cons.prems(1) _ assms(3), of p fr, unfolded hf fst_conv snd_conv]
  have "p \<in> set rows" using Cons.prems(2) by simp
  with Cons.IH [of h' fr'] t Cons.prems(2) hf show ?case by auto
qed simp

locale reach_reader =
  fixes ready :: bool and rows :: "GroupingPosting list" and rd :: GroupingReader and userID :: string
    and rules :: "Rule list" and reach :: "Rule \<Rightarrow> GroupingPosting \<Rightarrow> GroupingPosting \<Rightarrow> bool"
  assumes ids: "ready \<Longrightarrow> inj_on p_ID (set rows)"
    and expand: "ready \<Longrightarrow> rule \<in> set rules \<Longrightarrow> \<exists>found. r_Expand rule userID frontier rd held = Inr found
      \<and> set found = {q \<in> set rows. p_ID q \<notin> set held \<and> (\<exists>p \<in> set frontier. reach rule p q)}"
begin

text \<open>One step of the closure, by any of a list of rules.\<close>

definition linked :: "Rule list \<Rightarrow> GroupingPosting \<Rightarrow> GroupingPosting \<Rightarrow> bool" where
  "linked rs p q \<longleftrightarrow> q \<in> set rows \<and> (\<exists>rule \<in> set rs. reach rule p q)"

lemma expand_round_result:
  assumes ready "held_ok rows h" "set rs \<subseteq> set rules"
  shows "\<exists>h' fr'. expand_round userID rd frontier rs (h, fr) = Inr (h', fr') \<and> held_ok rows h'
    \<and> postings h' = postings h \<union> {q. \<exists>p \<in> set frontier. linked rs p q}
    \<and> set fr' = set fr \<union> (postings h' - postings h)"
  using assms(2,3)
proof (induction rs arbitrary: h fr)
  case Nil
  then show ?case by (auto simp: linked_def)
next
  case (Cons rule rs)
  obtain found where f: "r_Expand rule userID frontier rd (held_ids h) = Inr found"
    "set found = {q \<in> set rows. p_ID q \<notin> set (held_ids h) \<and> (\<exists>p \<in> set frontier. reach rule p q)}"
    using expand [OF assms(1), of rule frontier "held_ids h"] Cons.prems(2) by auto
  obtain h1 fr1 where 1: "fold take_found found (h, fr) = (h1, fr1)" by fastforce
  have sub: "set found \<subseteq> set rows" using f(2) by blast
  note t = take_founds [OF Cons.prems(1) sub ids [OF assms(1)], of fr, unfolded 1 fst_conv snd_conv]
  from Cons.IH [of h1 fr1] t Cons.prems(2) obtain h' fr' where
    2: "expand_round userID rd frontier rs (h1, fr1) = Inr (h', fr')" "held_ok rows h'"
    "postings h' = postings h1 \<union> {q. \<exists>p \<in> set frontier. linked rs p q}"
    "set fr' = set fr1 \<union> (postings h' - postings h1)" by auto
  have held: "q \<in> postings h" if "q \<in> set rows" "p_ID q \<in> set (held_ids h)" for q
  proof -
    have "p_ID q \<in> p_ID ` postings h" using that(2) held_ok_ids [OF Cons.prems(1)] by (simp add: held_ids_def)
    then show ?thesis
      using inj_on_image_mem_iff [OF ids [OF assms(1)] that(1) held_ok_rows [OF Cons.prems(1)]] by simp
  qed
  then have h1: "postings h1 = postings h \<union> {q \<in> set rows. \<exists>p \<in> set frontier. reach rule p q}"
    using t f(2) by auto
  have "expand_round userID rd frontier (rule # rs) (h, fr) = Inr (h', fr')" using f(1) 1 2(1) by simp
  moreover have "postings h' = postings h \<union> {q. \<exists>p \<in> set frontier. linked (rule # rs) p q}"
    unfolding 2(3) h1 linked_def by auto
  moreover have "set fr' = set fr \<union> (postings h' - postings h)"
    using 2(3,4) t by auto
  ultimately show ?case using 2(2) by blast
qed

abbreviation closure :: "GroupingPosting set \<Rightarrow> GroupingPosting set" where
  "closure S \<equiv> {q. \<exists>p \<in> S. (linked rules)\<^sup>*\<^sup>* p q}"

text \<open>The loop ends, because every round but the last adds a posting of the store.\<close>

lemma grow_result:
  assumes ready "held_ok rows h" "set frontier \<subseteq> postings h" "S \<subseteq> postings h" "postings h \<subseteq> closure S"
    and "\<And>p q. p \<in> postings h \<Longrightarrow> p \<notin> set frontier \<Longrightarrow> linked rules p q \<Longrightarrow> q \<in> postings h"
  shows "\<exists>h'. grow userID rd rules h frontier = Some (Inr h') \<and> held_ok rows h' \<and> postings h' = closure S"
  using assms(2-)
proof (induction "card (set rows - postings h)" arbitrary: h frontier rule: less_induct)
  case less
  show ?case
  proof (cases "frontier = []")
    case True
    have "q \<in> postings h" if "p \<in> S" "(linked rules)\<^sup>*\<^sup>* p q" for p q
      using that(2,1) less.prems(3,5) True by (induction rule: rtranclp_induct) auto
    then have "postings h = closure S" using less.prems(4) by blast
    moreover have "grow userID rd rules h frontier = Some (Inr h)" by (subst grow.simps) (simp add: True)
    ultimately show ?thesis using less.prems(1) by blast
  next
    case False
    obtain h' fr where r: "expand_round userID rd frontier rules (h, []) = Inr (h', fr)" "held_ok rows h'"
      "postings h' = postings h \<union> {q. \<exists>p \<in> set frontier. linked rules p q}" "set fr = postings h' - postings h"
      using expand_round_result [OF assms(1) less.prems(1) subset_refl, of frontier "[]"] by auto
    have g: "grow userID rd rules h frontier = grow userID rd rules h' fr"
      by (subst grow.simps) (simp add: False r(1))
    have cl: "postings h' \<subseteq> closure S"
    proof
      fix q assume "q \<in> postings h'"
      then consider "q \<in> postings h" | p where "p \<in> postings h" "linked rules p q" using r(3) less.prems(2) by blast
      then show "q \<in> closure S"
      proof cases
        case 2
        then obtain s where "s \<in> S" "(linked rules)\<^sup>*\<^sup>* s p" using less.prems(4) by blast
        with 2 show ?thesis by (auto intro: rtranclp.rtrancl_into_rtrancl)
      qed (use less.prems(4) in auto)
    qed
    have closed: "q \<in> postings h'" if "p \<in> postings h'" "p \<notin> set fr" "linked rules p q" for p q
      using that r(3,4) less.prems(5) by (cases "p \<in> set frontier") auto
    show ?thesis
    proof (cases "fr = []")
      case True
      have "q \<in> postings h'" if "p \<in> S" "(linked rules)\<^sup>*\<^sup>* p q" for p q
        using that(2,1) less.prems(3) r(3) closed True by (induction rule: rtranclp_induct) auto
      then have "postings h' = closure S" using cl by blast
      moreover have "grow userID rd rules h' fr = Some (Inr h')" by (subst grow.simps) (simp add: True)
      ultimately show ?thesis using r(2) g by metis
    next
      case nonempty: False
      have "hd fr \<in> postings h'" "hd fr \<notin> postings h" using nonempty r(4) hd_in_set by blast+
      then have "set rows - postings h' \<subset> set rows - postings h"
        using held_ok_rows [OF r(2)] r(3) by blast
      then have "card (set rows - postings h') < card (set rows - postings h)" by (simp add: psubset_card_mono)
      moreover have "set fr \<subseteq> postings h'" "S \<subseteq> postings h'" using r(3,4) less.prems(3) by auto
      ultimately show ?thesis unfolding g by (intro less.hyps [OF _ r(2) _ _ cl]) (assumption | rule closed)+
    qed
  qed
qed

lemma neighbourhood_result:
  assumes ready "set seed \<subseteq> set rows"
  shows "\<exists>ps. Neighbourhood userID seed rules rd = Some (Inr ps) \<and> set ps = closure (set seed)
    \<and> sorted_wrt (<) (map p_ID ps)"
proof -
  have init: "held_ok rows (fold (\<lambda>p m. AList.update (p_ID p) p m) qs h)
      \<and> postings (fold (\<lambda>p m. AList.update (p_ID p) p m) qs h) = postings h \<union> set qs"
    if "held_ok rows h" "set qs \<subseteq> set rows" for qs h
    using that
  proof (induction qs arbitrary: h)
    case (Cons p qs)
    have p: "p \<in> set rows" using Cons.prems(2) by simp
    have "AList.update (p_ID p) p h = (if map_of h (p_ID p) = None then fst (take_found p (h, [])) else h)"
    proof (cases "map_of h (p_ID p)")
      case (Some q)
      then have "q \<in> set rows" "p_ID q = p_ID p" using Cons.prems(1) map_of_SomeD [OF Some] by (auto simp: held_ok_def)
      then have "q = p" using inj_onD [OF ids [OF assms(1)]] p by blast
      with Some show ?thesis by (simp add: update_triv)
    qed (simp add: take_found_def)
    moreover have "p \<in> postings h" if "map_of h (p_ID p) \<noteq> None"
      using that Cons.prems(1) inj_onD [OF ids [OF assms(1)] _ _ p] by (force simp: held_ok_def dest: map_of_SomeD)
    ultimately have "held_ok rows (AList.update (p_ID p) p h)" "postings (AList.update (p_ID p) p h) = insert p (postings h)"
      using take_found_held [OF Cons.prems(1) p ids [OF assms(1)], of "[]"] Cons.prems(1) by (auto simp: insert_absorb)
    with Cons.IH [of "AList.update (p_ID p) p h"] Cons.prems(2) show ?case by auto
  qed simp
  let ?h = "fold (\<lambda>p m. AList.update (p_ID p) p m) seed []"
  have h: "held_ok rows ?h" "postings ?h = set seed" using init [of "[]" seed] assms(2) by (auto simp: held_ok_def)
  obtain h' where g: "grow userID rd rules ?h seed = Some (Inr h')" "held_ok rows h'" "postings h' = closure (set seed)"
    using grow_result [OF assms(1) h(1), of seed "set seed"] h(2) by auto
  let ?ps = "go_sort (\<lambda>a b. p_ID a < p_ID b) (map snd h')"
  have "map p_ID (map snd h') = map fst h'" using g(2) by (auto simp: held_ok_def)
  then have "distinct (map p_ID (map snd h'))" using g(2) by (simp only: held_ok_def)
  moreover have "mset (map p_ID ?ps) = mset (map p_ID (map snd h'))" by (simp only: mset_map mset_go_sort)
  ultimately have "distinct (map p_ID ?ps)" using mset_eq_imp_distinct_iff by blast
  moreover have "sorted (map p_ID ?ps)" by (rule go_sort_sorted) (rule refl)
  ultimately have "sorted_wrt (<) (map p_ID ?ps)" by (simp add: strict_sorted_iff)
  moreover have "Neighbourhood userID seed rules rd = Some (Inr ?ps)" by (simp add: Neighbourhood_def g(1))
  ultimately show ?thesis using g(3) by (intro exI [of _ ?ps]) simp
qed

end

subsection \<open>The default rules over the store\<close>

definition same_day :: "GroupingPosting \<Rightarrow> GroupingPosting \<Rightarrow> bool" where
  "same_day p q \<longleftrightarrow> p_Broker q = p_Broker p \<and> p_Account q = p_Account p
     \<and> utc_day (p_OrderDate q) = utc_day (p_OrderDate p)"

definition token_reach :: "string \<Rightarrow> GroupingPosting \<Rightarrow> GroupingPosting \<Rightarrow> bool" where
  "token_reach match p q \<longleftrightarrow> (\<exists>c \<in> set (p_Correlations p). \<exists>d \<in> set (p_Correlations q).
     Declares c match \<and> c_Label d = c_Label c \<and> c_Token d = c_Token c \<and> p_Broker q = p_Broker p
     \<and> (c_Scope c \<noteq> ScopeAccount \<or> p_Account q = p_Account p))"

definition span_reach :: "GroupingPosting \<Rightarrow> GroupingPosting \<Rightarrow> bool" where
  "span_reach p q \<longleftrightarrow> (\<exists>c \<in> set (p_Correlations p). \<exists>d \<in> set (p_Correlations q). \<exists>x w y.
     Declares c MatchOrdinal \<and> c_Ordinal c = Some x \<and> c_OrdinalSpan c = Some w \<and> c_Ordinal d = Some y
     \<and> c_Label d = c_Label c \<and> p_Broker q = p_Broker p \<and> p_Account q = p_Account p
     \<and> sint (x - w) \<le> sint y \<and> sint y \<le> sint (x + w))"

text \<open>What each of the default rules can reach from a posting, by the rule's name.\<close>

definition rule_reach :: "Rule \<Rightarrow> GroupingPosting \<Rightarrow> GroupingPosting \<Rightarrow> bool" where
  "rule_reach rule = (if r_Name rule = ''exact'' then token_reach MatchExact
     else if r_Name rule = ''attaches'' then token_reach MatchAttaches
     else if r_Name rule = ''deposit_run'' then span_reach else same_day)"

lemma read_queries:
  assumes "uuid_ok u"
  shows "\<exists>found. (if qs = [] then Inr [] else db_read uuid_ok rows hit u (distinct_queries qs) held) = Inr found
    \<and> set found = {q \<in> set (rows u). p_ID q \<notin> set held \<and> (\<exists>r \<in> set qs. hit r q)}"
proof (cases "qs = []")
  case False
  then have "distinct_queries qs \<noteq> []" by (metis distinct_queries_set set_empty)
  with False assms show ?thesis by (auto simp: db_read_def not_held_def list_ex_iff)
qed simp

lemma token_expand:
  assumes "uuid_ok u" "E = (\<lambda>userID ps r held. let qs = token_queries m ps in
      if qs = [] then Inr [] else PostingsByToken r userID (distinct_queries qs) held)"
  shows "\<exists>found. E u frontier (postgres_reader uuid_ok rows) held = Inr found
    \<and> set found = {q \<in> set (rows u). p_ID q \<notin> set held \<and> (\<exists>p \<in> set frontier. token_reach m p q)}"
proof -
  let ?qs = "token_queries m frontier"
  have hit: "(\<exists>r \<in> set ?qs. token_hit r q) \<longleftrightarrow> (\<exists>p \<in> set frontier. token_reach m p q)" for q
    by (fastforce simp: token_queries_def token_hit_def token_reach_def list_ex_iff)
  have "E u frontier (postgres_reader uuid_ok rows) held
      = (if ?qs = [] then Inr [] else db_read uuid_ok rows token_hit u (distinct_queries ?qs) held)"
    by (simp only: assms(2) Let_def postgres_reader_def GroupingReader.select_convs)
  then show ?thesis
    using read_queries [where uuid_ok = uuid_ok and u = u and qs = ?qs and hit = token_hit and rows = rows and held = held, OF assms(1)]
    unfolding hit by simp
qed

lemma day_bounds: "d * day_length \<le> t \<and> t < d * day_length + day_length \<longleftrightarrow> utc_day t = d"
proof -
  have L: "0 < day_length" by (simp add: day_length_def)
  have "t div day_length = d" if "d * day_length \<le> t" "t < d * day_length + day_length"
    by (rule int_div_pos_eq [of t day_length d "t - d * day_length"]) (use that in \<open>simp_all add: mult.commute\<close>)
  moreover have "t div day_length * day_length \<le> t \<and> t < t div day_length * day_length + day_length"
    using div_mult_mod_eq [of t day_length] pos_mod_bound [OF L, of t] pos_mod_sign [OF L, of t] by linarith
  ultimately show ?thesis unfolding utc_day_def by blast
qed

lemma day_expand:
  assumes "uuid_ok u"
  shows "\<exists>found. expandByDay u frontier (postgres_reader uuid_ok rows) held = Inr found
    \<and> set found = {q \<in> set (rows u). p_ID q \<notin> set held \<and> (\<exists>p \<in> set frontier. same_day p q)}"
proof -
  let ?qs = "map (\<lambda>p. let day = utc_day (p_OrderDate p) * day_length in
            \<lparr>dq_Broker = p_Broker p, dq_Account = p_Account p, dq_From = day,
             dq_Before = day + day_length\<rparr>) frontier"
  have hit: "(\<exists>r \<in> set ?qs. date_hit r q) \<longleftrightarrow> (\<exists>p \<in> set frontier. same_day p q)" for q
    by (auto simp: date_hit_def same_day_def Let_def day_bounds)
  have "expandByDay u frontier (postgres_reader uuid_ok rows) held
      = (if ?qs = [] then Inr [] else db_read uuid_ok rows date_hit u (distinct_queries ?qs) held)"
    by (simp only: expandByDay_def Let_def postgres_reader_def GroupingReader.select_convs)
  then show ?thesis
    using read_queries [where uuid_ok = uuid_ok and u = u and qs = ?qs and hit = date_hit and rows = rows and held = held, OF assms]
    unfolding hit by simp
qed

lemma span_expand:
  assumes "uuid_ok u"
  shows "\<exists>found. deposit_Expand u frontier (postgres_reader uuid_ok rows) held = Inr found
    \<and> set found = {q \<in> set (rows u). p_ID q \<notin> set held \<and> (\<exists>p \<in> set frontier. span_reach p q)}"
proof -
  let ?qs = "concat (map (\<lambda>p. concat (map (\<lambda>c. case (c_Ordinal c, c_OrdinalSpan c) of
            (Some x, Some spn) \<Rightarrow>
              if \<not> Declares c MatchOrdinal then []
              else [\<lparr>oq_Broker = p_Broker p, oq_Account = p_Account p, oq_Label = c_Label c,
                     oq_Low = x - spn, oq_High = x + spn\<rparr>]
          | _ \<Rightarrow> []) (p_Correlations p))) frontier)"
  have qs: "r \<in> set ?qs \<longleftrightarrow> (\<exists>p \<in> set frontier. \<exists>c \<in> set (p_Correlations p). \<exists>x w. Declares c MatchOrdinal
      \<and> c_Ordinal c = Some x \<and> c_OrdinalSpan c = Some w \<and> r = \<lparr>oq_Broker = p_Broker p, oq_Account = p_Account p,
        oq_Label = c_Label c, oq_Low = x - w, oq_High = x + w\<rparr>)" for r
    by (force split: option.splits if_splits)
  have hit: "(\<exists>r \<in> set ?qs. ordinal_hit r q) \<longleftrightarrow> (\<exists>p \<in> set frontier. span_reach p q)" for q
  proof
    assume "\<exists>r \<in> set ?qs. ordinal_hit r q"
    then show "\<exists>p \<in> set frontier. span_reach p q"
      unfolding Bex_def qs ordinal_hit_def span_reach_def list_ex_iff by (force split: option.splits)
  next
    assume "\<exists>p \<in> set frontier. span_reach p q"
    then obtain p c d x w y where h: "p \<in> set frontier" "c \<in> set (p_Correlations p)" "d \<in> set (p_Correlations q)"
      "Declares c MatchOrdinal" "c_Ordinal c = Some x" "c_OrdinalSpan c = Some w" "c_Ordinal d = Some y"
      "c_Label d = c_Label c" "p_Broker q = p_Broker p" "p_Account q = p_Account p"
      "sint (x - w) \<le> sint y" "sint y \<le> sint (x + w)"
      unfolding span_reach_def by blast
    let ?r = "\<lparr>oq_Broker = p_Broker p, oq_Account = p_Account p, oq_Label = c_Label c, oq_Low = x - w, oq_High = x + w\<rparr>"
    have "ordinal_hit ?r q" using h by (auto simp: ordinal_hit_def list_ex_iff intro!: bexI [of _ d])
    moreover have "?r \<in> set ?qs" unfolding qs
      by (intro bexI [OF _ h(1)] bexI [OF _ h(2)] exI [of _ x] exI [of _ w]) (simp add: h)
    ultimately show "\<exists>r \<in> set ?qs. ordinal_hit r q" by (rule bexI)
  qed
  have "deposit_Expand u frontier (postgres_reader uuid_ok rows) held
      = (if ?qs = [] then Inr [] else db_read uuid_ok rows ordinal_hit u (distinct_queries ?qs) held)"
    by (simp only: deposit_Expand_def Let_def postgres_reader_def GroupingReader.select_convs)
  then show ?thesis
    using read_queries [where uuid_ok = uuid_ok and u = u and qs = ?qs and hit = ordinal_hit and rows = rows and held = held, OF assms]
    unfolding hit by simp
qed

lemma DefaultRules_expand:
  assumes "uuid_ok u" "rule \<in> set (DefaultRules ddiv)"
  shows "\<exists>found. r_Expand rule u frontier (postgres_reader uuid_ok rows) held = Inr found
    \<and> set found = {q \<in> set (rows u). p_ID q \<notin> set held \<and> (\<exists>p \<in> set frontier. rule_reach rule p q)}"
proof -
  consider "rule = Exact" | "rule = Attaches" | "rule = Deposit"
    | "r_Expand rule = expandByDay" "rule_reach rule = same_day"
    using assms(2)
    by (auto simp: DefaultRules_def rule_reach_def Disposal_def Acquisition_def trade_rule_def disposal_def
        acquisition_def CashTrade_def Charge_def Charge_Expand_def [abs_def])
  then show ?thesis
  proof cases
    case 1
    then show ?thesis
      using token_expand [where E = Exact_Expand and m = MatchExact and u = u and uuid_ok = uuid_ok, OF assms(1)]
      by (simp add: Exact_def rule_reach_def Exact_Expand_def [abs_def])
  next
    case 2
    then show ?thesis
      using token_expand [where E = Attaches_Expand and m = MatchAttaches and u = u and uuid_ok = uuid_ok, OF assms(1)]
      by (simp add: Attaches_def rule_reach_def Attaches_Expand_def [abs_def])
  next
    case 3
    then show ?thesis using span_expand [where uuid_ok = uuid_ok and u = u, OF assms(1)] by (simp add: Deposit_def rule_reach_def)
  next
    case 4
    then show ?thesis using day_expand [where uuid_ok = uuid_ok and u = u, OF assms(1)] by simp
  qed
qed

interpretation region: reach_reader "uuid_ok u \<and> inj_on p_ID (set (rows u))" "rows u"
    "postgres_reader uuid_ok rows" u "DefaultRules ddiv" rule_reach for uuid_ok u rows ddiv
  by unfold_locales (auto intro: DefaultRules_expand)

text \<open>One posting can be linked to another of the store by some default rule.\<close>

definition store_link :: "GroupingPosting list \<Rightarrow> GroupingPosting \<Rightarrow> GroupingPosting \<Rightarrow> bool" where
  "store_link rows p q \<longleftrightarrow> q \<in> set rows
     \<and> (token_reach MatchExact p q \<or> token_reach MatchAttaches p q \<or> span_reach p q \<or> same_day p q)"

lemma linked_store_link: "region.linked rows u (DefaultRules ddiv) = store_link (rows u)"
proof (intro ext)
  fix p q
  have n: "r_Name Exact = ''exact''" "r_Name Attaches = ''attaches''" "r_Name Deposit = ''deposit_run''"
    "r_Name (Disposal ddiv) = ''disposal''" "r_Name (Acquisition ddiv) = ''acquisition''"
    "r_Name CashTrade = ''cash_trade''" "r_Name Charge = ''charge''"
    by (simp_all add: Exact_def Attaches_def Deposit_def Disposal_def Acquisition_def trade_rule_def disposal_def
        acquisition_def CashTrade_def Charge_def)
  show "region.linked rows u (DefaultRules ddiv) p q = store_link (rows u) p q"
    unfolding region.linked_def store_link_def by (auto simp: DefaultRules_def rule_reach_def n)
qed

text \<open>
  C30. Growing a region always ends, and the region is exactly what the seed reaches: over the reads
  of the store, with a user id that parses and rows whose ids are distinct, \<open>Neighbourhood\<close>
  returns the reflexive transitive closure of the default rules' links from the seed, each
  posting once and in id order.
\<close>

theorem Neighbourhood_is_the_closure:
  assumes "uuid_ok u" "inj_on p_ID (set (rows u))" "set seed \<subseteq> set (rows u)"
  shows "\<exists>ps. Neighbourhood u seed (DefaultRules ddiv) (postgres_reader uuid_ok rows) = Some (Inr ps)
    \<and> set ps = {q. \<exists>s \<in> set seed. (store_link (rows u))\<^sup>*\<^sup>* s q} \<and> sorted_wrt (<) (map p_ID ps)"
  using region.neighbourhood_result [of uuid_ok u rows seed ddiv] assms by (simp add: linked_store_link)

lemma region_rows:
  assumes "s \<in> set rows" "(store_link rows)\<^sup>*\<^sup>* s q"
  shows "q \<in> set rows"
  using assms(2,1) by (induction rule: rtranclp_induct) (auto simp: store_link_def)

lemma settle_seeds_returns:
  assumes "uuid_ok u" "inj_on p_ID (set (rows u))" "'''' \<notin> ids_of (rows u)" "set seeds \<subseteq> set (rows u)"
  shows "\<exists>cs. settle_seeds u (postgres_reader uuid_ok rows) (DefaultRules ddiv) opts dn out seeds = Some (Inr (out @ cs))"
  using assms(4)
proof (induction seeds arbitrary: dn out)
  case (Cons s seeds)
  note IH = Cons.IH
  have sub: "set seeds \<subseteq> set (rows u)" "set [s] \<subseteq> set (rows u)" using Cons.prems by auto
  obtain ps where ps: "Neighbourhood u [s] (DefaultRules ddiv) (postgres_reader uuid_ok rows) = Some (Inr ps)"
    "set ps = {q. \<exists>x \<in> set [s]. (store_link (rows u))\<^sup>*\<^sup>* x q}" "sorted_wrt (<) (map p_ID ps)"
    using region.neighbourhood_result [of uuid_ok u rows "[s]" ddiv] assms(1,2) sub(2)
    unfolding linked_store_link by blast
  have "set ps \<subseteq> set (rows u)" using ps(2) region_rows sub(2) by auto
  then have "proper ps" using ps(3) assms(3) by (auto simp: proper_def strict_sorted_iff image_iff)
  then obtain cs where cs: "Diff ps (Partition ps (DefaultRules ddiv) opts) = Some cs"
    using Diff_changes partition_of_Partition by blast
  show ?case
    using IH [OF sub(1), of dn out] IH [OF sub(1), of "dn \<union> p_ID ` set ps" "out @ cs"] ps(1) cs by auto
qed simp


abbreviation sale_rows :: "string \<Rightarrow> GroupingPosting list" where
  "sale_rows u \<equiv> [sale, proceeds]"

lemma sale_rows_ok: "inj_on p_ID (set (sale_rows u))" "'''' \<notin> ids_of (sale_rows u)"
  by (auto simp: sale_proceeds inj_on_def)

theorem Neighbourhood_is_the_closure_witness:
  "\<exists>ps. Neighbourhood ''u'' [sale] (DefaultRules (/)) (postgres_reader (\<lambda>_. True) sale_rows) = Some (Inr ps)
     \<and> proceeds \<in> set ps"
proof -
  have "store_link (sale_rows ''u'') sale proceeds"
    by (simp add: store_link_def same_day_def sale_def proceeds_def sample_def)
  then have "(store_link (sale_rows ''u''))\<^sup>*\<^sup>* sale proceeds" by (rule r_into_rtranclp)
  with Neighbourhood_is_the_closure [of "\<lambda>_. True" "''u''" sale_rows "[sale]" "(/)", OF _ sale_rows_ok(1)]
  show ?thesis by auto
qed


text \<open>
  A cycle visits every seed once: the users it walks are distinct, and their seeds together are
  exactly the seeds the store returned.
\<close>

theorem cycle_visits_every_seed:
  "distinct (usersOf seeds) \<and> mset (concat (map (byUser seeds) (usersOf seeds))) = mset seeds"
proof
  show d: "distinct (usersOf seeds)" by (simp add: usersOf_def distinct_first_by)
  have "p_UserID ` set seeds \<subseteq> set (usersOf seeds)"
    using keys_first_by [of p_UserID "{}" seeds] by (simp add: usersOf_def)
  from concat_by_root [OF d this] show "mset (concat (map (byUser seeds) (usersOf seeds))) = mset seeds"
    by (simp add: byUser_def [abs_def])
qed

end
