(* ===== verification/Transfer_Match.thy ===== *)
theory Transfer_Match
  imports Vocab Go_Text
begin

text \<open>
  The transfer matcher of \<open>src/server/transfermatch/match.go\<close> over the sides of
  \<open>src/server/db/db.go\<close> (\<open>TransferSide\<close>, \<open>TransferMatch\<close>), and one cycle of its worker
  (\<open>src/server/transfermatch/worker.go\<close>).

  Sides are named by their index in the slice, as in the code. A \<open>time.Duration\<close> is the number
  of nanoseconds of an \<open>int64\<close>: \<open>Sub\<close> saturates at its ends and negating the least value
  gives it back, which \<open>gap\<close> writes out.
\<close>

subsection \<open>Data\<close>

record TransferSide =
  ts_UserID :: string
  ts_GroupID :: string
  ts_Broker :: Broker
  ts_Account :: string
  ts_InstrumentID :: string
  ts_Amount :: decimal
  ts_OrderDate :: time
  ts_Correlations :: "Correlation list"

record TransferMatch =
  tm_UserID :: string
  tm_FromGroupID :: string
  tm_ToGroupID :: string
  tm_InstrumentID :: string
  tm_Method :: string

definition TransferMatchPointer :: string where "TransferMatchPointer = ''POINTER''"
definition TransferMatchReference :: string where "TransferMatchReference = ''REFERENCE''"

record MatchOpts =
  mo_Window :: int
  mo_RefSpan :: int64

definition matchWindow :: int where "matchWindow = 7 * 24 * 3600 * 10 ^ 9"
definition refSpan :: int64 where "refSpan = 64"

definition DefaultMatchOpts :: MatchOpts where
  "DefaultMatchOpts = \<lparr>mo_Window = matchWindow, mo_RefSpan = refSpan\<rparr>"

record match_candidate =
  mc_from :: nat
  mc_to :: nat
  mc_refDistance :: int64
  mc_dateGap :: int

record partitioned =
  pt_departures :: "nat list"
  pt_arrivals :: "nat list"

subsection \<open>Durations of the standard library\<close>

definition minDuration :: int where "minDuration = - (2 ^ 63)"
definition maxDuration :: int where "maxDuration = 2 ^ 63 - 1"

definition time_Sub :: "time \<Rightarrow> time \<Rightarrow> int" where
  "time_Sub a b = max minDuration (min maxDuration (a - b))"

definition gap :: "time \<Rightarrow> time \<Rightarrow> int" where
  "gap a b = (let d = time_Sub a b in
     if d < 0 then (if d = minDuration then minDuration else - d) else d)"

subsection \<open>The tests of a pair\<close>

definition pairable :: "TransferSide \<Rightarrow> TransferSide \<Rightarrow> MatchOpts \<Rightarrow> bool" where
  "pairable a b opts =
     (if \<not> ts_Amount a + ts_Amount b = 0 then False
      else if ts_Broker a = ts_Broker b \<and> EqualFold (ts_Account a) (ts_Account b) then False
      else gap (ts_OrderDate a) (ts_OrderDate b) \<le> mo_Window opts)"

definition names :: "Correlation list \<Rightarrow> string \<Rightarrow> bool" where
  "names cs account =
     list_ex (\<lambda>c. Declares c MatchAccount \<and> EqualFold (TrimSpace (c_Token c)) (TrimSpace account)) cs"

definition pointerFeasible :: "TransferSide \<Rightarrow> TransferSide \<Rightarrow> MatchOpts \<Rightarrow> bool \<times> int64" where
  "pointerFeasible a b opts =
     (if ts_Broker a \<noteq> ts_Broker b then (False, 0)
      else (names (ts_Correlations a) (ts_Account b) \<or> names (ts_Correlations b) (ts_Account a), 0))"

definition ordinals :: "Correlation list \<Rightarrow> int64 list" where
  "ordinals cs = concat (map (\<lambda>c. case c_Ordinal c of
     None \<Rightarrow> [] | Some x \<Rightarrow> if Declares c MatchOrdinal then [x] else []) cs)"

definition nearest_ordinals :: "int64 list \<Rightarrow> int64 list \<Rightarrow> int64" where
  "nearest_ordinals as bs =
     fold (\<lambda>x. fold (\<lambda>y nearest.
         let d = x - y; d = (if sint d < 0 then - d else d) in
         if sint nearest < 0 \<or> sint d < sint nearest then d else nearest) bs) as (- 1)"

definition referenceFeasible :: "TransferSide \<Rightarrow> TransferSide \<Rightarrow> MatchOpts \<Rightarrow> bool \<times> int64" where
  "referenceFeasible a b opts =
     (if ts_Broker a \<noteq> ts_Broker b then (False, 0)
      else let as = ordinals (ts_Correlations a); bs = ordinals (ts_Correlations b) in
        if as = [] \<or> bs = [] then (False, 0)
        else let nearest = nearest_ordinals as bs in
          if sint nearest > sint (mo_RefSpan opts) then (False, 0) else (True, nearest))"

subsection \<open>One pass\<close>

definition match_betterThan :: "TransferSide list \<Rightarrow> match_candidate \<Rightarrow> match_candidate \<Rightarrow> bool" where
  "match_betterThan sides c o' =
     (if mc_refDistance c \<noteq> mc_refDistance o' then sint (mc_refDistance c) < sint (mc_refDistance o')
      else if mc_dateGap c \<noteq> mc_dateGap o' then mc_dateGap c < mc_dateGap o'
      else if ts_GroupID (sides ! mc_from c) \<noteq> ts_GroupID (sides ! mc_from o')
        then ts_GroupID (sides ! mc_from c) < ts_GroupID (sides ! mc_from o')
      else ts_GroupID (sides ! mc_to c) < ts_GroupID (sides ! mc_to o'))"

definition ties :: "match_candidate \<Rightarrow> match_candidate \<Rightarrow> bool" where
  "ties c o' \<longleftrightarrow> mc_refDistance c = mc_refDistance o' \<and> mc_dateGap c = mc_dateGap o'"

fun ambiguous :: "match_candidate list \<Rightarrow> match_candidate \<Rightarrow> (nat \<Rightarrow> bool) \<Rightarrow> bool" where
  "ambiguous [] best skip = False"
| "ambiguous (c # cs) best skip =
     (if \<not> ties c best then False
      else if skip (mc_from c) \<or> skip (mc_to c) then ambiguous cs best skip
      else if mc_from c = mc_from best \<or> mc_to c = mc_to best then True
      else ambiguous cs best skip)"

text \<open>The body of the double loop over departures and arrivals: the candidate of a pair, if any.\<close>

definition pair_candidate ::
    "TransferSide list \<Rightarrow> MatchOpts \<Rightarrow> (TransferSide \<Rightarrow> TransferSide \<Rightarrow> MatchOpts \<Rightarrow> bool \<times> int64)
     \<Rightarrow> nat \<Rightarrow> nat \<Rightarrow> match_candidate list" where
  "pair_candidate sides opts extra from to =
     (if \<not> pairable (sides ! from) (sides ! to) opts then []
      else let (ok, distance) = extra (sides ! from) (sides ! to) opts in
        if \<not> ok then []
        else [\<lparr>mc_from = from, mc_to = to, mc_refDistance = distance,
               mc_dateGap = gap (ts_OrderDate (sides ! from)) (ts_OrderDate (sides ! to))\<rparr>])"

definition run_candidates ::
    "TransferSide list \<Rightarrow> partitioned \<Rightarrow> MatchOpts \<Rightarrow> nat set
     \<Rightarrow> (TransferSide \<Rightarrow> TransferSide \<Rightarrow> MatchOpts \<Rightarrow> bool \<times> int64) \<Rightarrow> match_candidate list" where
  "run_candidates sides part opts taken extra =
     concat (map (\<lambda>from. concat (map (pair_candidate sides opts extra from)
         (filter (\<lambda>to. to \<notin> taken) (pt_arrivals part))))
       (filter (\<lambda>from. from \<notin> taken) (pt_departures part)))"

definition match_of :: "TransferSide list \<Rightarrow> string \<Rightarrow> match_candidate \<Rightarrow> TransferMatch" where
  "match_of sides how c =
     \<lparr>tm_UserID = ts_UserID (sides ! mc_from c), tm_FromGroupID = ts_GroupID (sides ! mc_from c),
      tm_ToGroupID = ts_GroupID (sides ! mc_to c), tm_InstrumentID = ts_InstrumentID (sides ! mc_from c),
      tm_Method = how\<rparr>"

text \<open>The loop that takes candidates best first; it returns what it took, and the taken sides.\<close>

fun take_best :: "nat set \<Rightarrow> nat set \<Rightarrow> match_candidate list \<Rightarrow> match_candidate list \<times> nat set" where
  "take_best taken blocked [] = ([], taken)"
| "take_best taken blocked (c # cs) =
     (let skip = (\<lambda>i. i \<in> taken \<or> i \<in> blocked) in
      if skip (mc_from c) \<or> skip (mc_to c) then take_best taken blocked cs
      else if ambiguous cs c skip
        then take_best taken (insert (mc_to c) (insert (mc_from c) blocked)) cs
      else let (out, taken') = take_best (insert (mc_to c) (insert (mc_from c) taken)) blocked cs
           in (c # out, taken'))"

definition run ::
    "TransferSide list \<Rightarrow> partitioned \<Rightarrow> MatchOpts \<Rightarrow> nat set \<Rightarrow> string
     \<Rightarrow> (TransferSide \<Rightarrow> TransferSide \<Rightarrow> MatchOpts \<Rightarrow> bool \<times> int64) \<Rightarrow> TransferMatch list \<times> nat set" where
  "run sides part opts taken how extra =
     (let cands = go_sort (match_betterThan sides) (run_candidates sides part opts taken extra);
          (out, taken') = take_best taken {} cands
      in (map (match_of sides how) out, taken'))"

subsection \<open>Matching\<close>

definition side_key :: "TransferSide \<Rightarrow> string" where
  "side_key s = ts_UserID s @ [CHR 0x00] @ ts_InstrumentID s"

definition add_side :: "nat \<times> TransferSide \<Rightarrow> (string \<times> partitioned) list \<Rightarrow> (string \<times> partitioned) list" where
  "add_side is byKey = (let (i, s) = is; key = side_key s;
       p = (case map_of byKey key of None \<Rightarrow> \<lparr>pt_departures = [], pt_arrivals = []\<rparr> | Some p \<Rightarrow> p) in
     AList.update key
       (if ts_Amount s > 0 then p\<lparr>pt_departures := pt_departures p @ [i]\<rparr>
        else if ts_Amount s < 0 then p\<lparr>pt_arrivals := pt_arrivals p @ [i]\<rparr>
        else p) byKey)"

definition partition_sides :: "TransferSide list \<Rightarrow> partitioned list" where
  "partition_sides sides = map snd (fold add_side (enumerate 0 sides) [])"

definition match_part :: "TransferSide list \<Rightarrow> MatchOpts \<Rightarrow> partitioned \<Rightarrow> TransferMatch list" where
  "match_part sides opts part =
     (let (out, taken) = run sides part opts {} TransferMatchPointer pointerFeasible;
          (out', taken') = run sides part opts taken TransferMatchReference referenceFeasible
      in out @ out')"

definition Match :: "TransferSide list \<Rightarrow> MatchOpts \<Rightarrow> TransferMatch list" where
  "Match sides opts = concat (map (match_part sides opts) (partition_sides sides))"

text \<open>
  One cycle of the worker. The read of the unmatched sides and the write of the matches are the
  store's, so they are arguments; the cycle ends with an error or not.
\<close>

definition match_cycle ::
    "string + TransferSide list \<Rightarrow> (TransferMatch list \<Rightarrow> string + nat) \<Rightarrow> string option" where
  "match_cycle listed create = (case listed of
       Inl err \<Rightarrow> Some err
     | Inr sides \<Rightarrow>
         if sides = [] then None
         else let matches = Match sides DefaultMatchOpts in
           if matches = [] then None
           else case create matches of Inl err \<Rightarrow> Some err | Inr written \<Rightarrow> None)"

subsection \<open>The parts\<close>

definition part_ok :: "TransferSide list \<Rightarrow> string \<Rightarrow> partitioned \<Rightarrow> bool" where
  "part_ok sides k p \<longleftrightarrow>
     set (pt_departures p) = {i. i < length sides \<and> side_key (sides ! i) = k \<and> ts_Amount (sides ! i) > 0}
     \<and> set (pt_arrivals p) = {i. i < length sides \<and> side_key (sides ! i) = k \<and> ts_Amount (sides ! i) < 0}
     \<and> distinct (pt_departures p) \<and> distinct (pt_arrivals p)"

lemma set_lt_snoc:
  "{i. i < length (sides @ [s]) \<and> Q ((sides @ [s]) ! i)}
   = {i. i < length sides \<and> Q (sides ! i)} \<union> (if Q s then {length sides} else {})"
  by (auto simp: nth_append less_Suc_eq)

lemma part_ok_snoc:
  assumes "part_ok sides (side_key s) p"
  shows "part_ok (sides @ [s]) (side_key s)
     (if ts_Amount s > 0 then p\<lparr>pt_departures := pt_departures p @ [length sides]\<rparr>
      else if ts_Amount s < 0 then p\<lparr>pt_arrivals := pt_arrivals p @ [length sides]\<rparr> else p)"
  using assms unfolding part_ok_def
  by (simp add: set_lt_snoc [where Q = "\<lambda>r. side_key r = side_key s \<and> 0 < ts_Amount r", simplified]
      set_lt_snoc [where Q = "\<lambda>r. side_key r = side_key s \<and> ts_Amount r < 0", simplified])

lemma part_ok_other:
  "part_ok sides k p \<Longrightarrow> k \<noteq> side_key s \<Longrightarrow> part_ok (sides @ [s]) k p"
  unfolding part_ok_def
  by (simp add: set_lt_snoc [where Q = "\<lambda>r. side_key r = k \<and> 0 < ts_Amount r", simplified]
      set_lt_snoc [where Q = "\<lambda>r. side_key r = k \<and> ts_Amount r < 0", simplified])

lemma partition_sides_parts:
  "distinct (map fst (fold add_side (enumerate 0 sides) []))
   \<and> fst ` set (fold add_side (enumerate 0 sides) []) = side_key ` set sides
   \<and> (\<forall>(k, p) \<in> set (fold add_side (enumerate 0 sides) []). part_ok sides k p)"
proof (induction sides rule: rev_induct)
  case (snoc s sides)
  let ?m = "fold add_side (enumerate 0 sides) []" and ?n = "length sides" and ?k = "side_key s"
  let ?p = "case map_of ?m ?k of None \<Rightarrow> \<lparr>pt_departures = [], pt_arrivals = []\<rparr> | Some p \<Rightarrow> p"
  let ?q = "if ts_Amount s > 0 then ?p\<lparr>pt_departures := pt_departures ?p @ [?n]\<rparr>
        else if ts_Amount s < 0 then ?p\<lparr>pt_arrivals := pt_arrivals ?p @ [?n]\<rparr> else ?p"
  have m': "fold add_side (enumerate 0 (sides @ [s])) [] = AList.update ?k ?q ?m"
    by (simp add: enumerate_append_eq add_side_def Let_def)

  have p: "part_ok sides ?k ?p"
  proof (cases "map_of ?m ?k")
    case None
    then have "?k \<notin> side_key ` set sides" using snoc by (simp add: map_of_eq_None_iff)
    then have "side_key (sides ! i) \<noteq> ?k" if "i < ?n" for i using that by (metis imageI nth_mem)
    with None show ?thesis by (auto simp: part_ok_def)
  next
    case (Some p)
    then show ?thesis using snoc map_of_SomeD [OF Some] by auto
  qed
  have here: "part_ok (sides @ [s]) ?k ?q" using p by (rule part_ok_snoc)
  have upd: "(k, r) \<in> set (AList.update ?k ?q ?m) \<Longrightarrow> (k = ?k \<and> r = ?q) \<or> (k \<noteq> ?k \<and> (k, r) \<in> set ?m)" for k r
  proof -
    assume kr: "(k, r) \<in> set (AList.update ?k ?q ?m)"
    have "distinct (map fst (AList.update ?k ?q ?m))" using snoc by (simp add: distinct_update)
    with kr have "map_of (AList.update ?k ?q ?m) k = Some r" by simp
    then have "((map_of ?m)(?k \<mapsto> ?q)) k = Some r" by (simp add: update_conv')
    then show ?thesis by (cases "k = ?k") (auto dest: map_of_SomeD)
  qed
  have "distinct (map fst (AList.update ?k ?q ?m))" using snoc by (simp add: distinct_update)
  moreover have "fst ` set (AList.update ?k ?q ?m) = side_key ` set (sides @ [s])"
    using snoc by (simp add: dom_update)
  moreover have "\<forall>(k, r) \<in> set (AList.update ?k ?q ?m). part_ok (sides @ [s]) k r"
  proof (rule ballI, rule case_prodI2)
    fix k r x assume x: "x \<in> set (AList.update ?k ?q ?m)" and xkr: "x = (k, r)"
    from upd x xkr consider "k = ?k" "r = ?q" | "k \<noteq> ?k" "(k, r) \<in> set ?m" by blast
    then show "part_ok (sides @ [s]) k r"
    proof cases
      case 2
      then show ?thesis using snoc part_ok_other by blast
    qed (use here in simp)
  qed
  ultimately show ?case unfolding m' by blast
qed simp

subsection \<open>What a pass takes\<close>

abbreviation cand_ends :: "match_candidate \<Rightarrow> nat set" where
  "cand_ends c \<equiv> {mc_from c, mc_to c}"

definition ends_of :: "match_candidate list \<Rightarrow> nat set" where
  "ends_of cs = (\<Union>c \<in> set cs. cand_ends c)"

definition end_list :: "match_candidate list \<Rightarrow> nat list" where
  "end_list cs = concat (map (\<lambda>c. [mc_from c, mc_to c]) cs)"

lemma set_end_list [simp]: "set (end_list cs) = ends_of cs"
  by (auto simp: end_list_def ends_of_def)

lemma end_list_simps [simp]:
  "end_list [] = []" "end_list (c # cs) = mc_from c # mc_to c # end_list cs"
  "end_list (cs @ ds) = end_list cs @ end_list ds"
  by (auto simp: end_list_def)

lemma ends_of_simps [simp]:
  "ends_of [] = {}" "ends_of (c # cs) = cand_ends c \<union> ends_of cs"
  "ends_of (cs @ ds) = ends_of cs \<union> ends_of ds"
  by (auto simp: ends_of_def)

lemma take_best_takes:
  assumes "take_best taken blocked cs = (out, taken')" and "\<And>c. c \<in> set cs \<Longrightarrow> mc_from c \<noteq> mc_to c"
  shows "set out \<subseteq> set cs \<and> taken' = taken \<union> ends_of out
    \<and> distinct (end_list out) \<and> ends_of out \<inter> taken = {}"
  using assms
proof (induction cs arbitrary: taken blocked out taken')
  case (Cons c cs)
  let ?skip = "\<lambda>i. i \<in> taken \<or> i \<in> blocked"
  consider (skip) "?skip (mc_from c) \<or> ?skip (mc_to c)"
    | (amb) "\<not> (?skip (mc_from c) \<or> ?skip (mc_to c))" "ambiguous cs c ?skip"
    | (takes) o' where "\<not> (?skip (mc_from c) \<or> ?skip (mc_to c))" "out = c # o'"
        "take_best (insert (mc_to c) (insert (mc_from c) taken)) blocked cs = (o', taken')"
    using Cons.prems(1) by (auto simp: Let_def split: if_splits prod.splits)
  then show ?case
  proof cases
    case skip
    then have "take_best taken blocked cs = (out, taken')" using Cons.prems(1) by (simp add: Let_def)
    from Cons.IH [OF this] Cons.prems(2) show ?thesis by auto
  next
    case amb
    then have "take_best taken (insert (mc_to c) (insert (mc_from c) blocked)) cs = (out, taken')"
      using Cons.prems(1) by (simp add: Let_def)
    from Cons.IH [OF this] Cons.prems(2) show ?thesis by auto
  next
    case takes
    from Cons.IH [OF takes(3)] Cons.prems(2) takes(1,2) show ?thesis by auto
  qed
qed simp

text \<open>A candidate that shares a side with no other is taken.\<close>

lemma not_ambiguous_if_apart:
  "(\<And>d. d \<in> set cs \<Longrightarrow> mc_from d \<noteq> mc_from c \<and> mc_to d \<noteq> mc_to c) \<Longrightarrow> \<not> ambiguous cs c skip"
  by (induction cs) auto

lemma take_best_takes_sole:
  assumes "c \<in> set cs" "distinct cs" "cand_ends c \<inter> (taken \<union> blocked) = {}"
    and "\<And>d. d \<in> set cs \<Longrightarrow> d \<noteq> c \<Longrightarrow> cand_ends d \<inter> cand_ends c = {}"
  shows "c \<in> set (fst (take_best taken blocked cs))"
  using assms
proof (induction cs arbitrary: taken blocked)
  case (Cons d cs)
  show ?case
  proof (cases "d = c")
    case True
    then have "\<not> ambiguous cs c (\<lambda>i. i \<in> taken \<or> i \<in> blocked)"
      using Cons.prems by (intro not_ambiguous_if_apart) fastforce
    then show ?thesis using True Cons.prems(3) by (simp add: Let_def split: prod.splits)
  next
    case False
    then have apart: "cand_ends d \<inter> cand_ends c = {}" using Cons.prems(4) by simp
    have mem: "c \<in> set (fst (take_best tk bl cs))"
      if "cand_ends c \<inter> (tk \<union> bl) = {}" for tk bl
      using Cons.prems False that by (intro Cons.IH) auto
    have "c \<in> set (fst (take_best taken blocked cs))"
      "c \<in> set (fst (take_best taken (insert (mc_to d) (insert (mc_from d) blocked)) cs))"
      "c \<in> set (fst (take_best (insert (mc_to d) (insert (mc_from d) taken)) blocked cs))"
      using Cons.prems(3) apart by (auto intro!: mem)
    then show ?thesis by (auto simp: Let_def split: prod.splits)
  qed
qed simp

lemma pair_candidate_iff:
  "c \<in> set (pair_candidate sides opts extra from to) \<longleftrightarrow>
     mc_from c = from \<and> mc_to c = to \<and> pairable (sides ! from) (sides ! to) opts
     \<and> extra (sides ! from) (sides ! to) opts = (True, mc_refDistance c)
     \<and> mc_dateGap c = gap (ts_OrderDate (sides ! from)) (ts_OrderDate (sides ! to))"
  by (cases c; cases "extra (sides ! from) (sides ! to) opts") (auto simp: pair_candidate_def)

lemma distinct_pair_candidate: "distinct (pair_candidate sides opts extra from to)"
  by (simp add: pair_candidate_def Let_def split: prod.split)

lemma run_candidates_iff:
  "c \<in> set (run_candidates sides part opts taken extra) \<longleftrightarrow>
     mc_from c \<in> set (pt_departures part) - taken \<and> mc_to c \<in> set (pt_arrivals part) - taken
     \<and> pairable (sides ! mc_from c) (sides ! mc_to c) opts
     \<and> extra (sides ! mc_from c) (sides ! mc_to c) opts = (True, mc_refDistance c)
     \<and> mc_dateGap c = gap (ts_OrderDate (sides ! mc_from c)) (ts_OrderDate (sides ! mc_to c))"
  by (auto simp: run_candidates_def pair_candidate_iff)

lemma distinct_concat_upto_one:
  assumes "distinct xs" "\<And>x y. x \<in> set xs \<Longrightarrow> y \<in> set (f x) \<Longrightarrow> key y = x" "\<And>x. x \<in> set xs \<Longrightarrow> distinct (f x)"
  shows "distinct (concat (map f xs))"
  using assms
proof (induction xs)
  case (Cons x xs)
  have "set (f x) \<inter> \<Union> (set ` f ` set xs) = {}"
  proof (rule ccontr)
    assume "set (f x) \<inter> \<Union> (set ` f ` set xs) \<noteq> {}"
    then obtain y x' where y: "y \<in> set (f x)" "x' \<in> set xs" "y \<in> set (f x')" by blast
    then have "key y = x" "key y = x'" using Cons.prems(2) [of x y] Cons.prems(2) [of x' y] by simp_all
    with y(2) Cons.prems(1) show False by simp
  qed
  then show ?case using Cons by simp
qed simp

lemma distinct_run_candidates:
  assumes "distinct (pt_departures part)" "distinct (pt_arrivals part)"
  shows "distinct (run_candidates sides part opts taken extra)"
proof -
  have inner: "distinct (concat (map (pair_candidate sides opts extra i)
      (filter (\<lambda>to. to \<notin> taken) (pt_arrivals part))))" for i
    by (rule distinct_concat_upto_one [where key = mc_to])
       (use assms in \<open>simp_all add: pair_candidate_iff distinct_pair_candidate\<close>)
  show ?thesis unfolding run_candidates_def
    by (rule distinct_concat_upto_one [where key = mc_from])
       (use assms inner in \<open>auto simp: pair_candidate_iff\<close>)
qed

abbreviation feasible_by :: "string \<Rightarrow> TransferSide \<Rightarrow> TransferSide \<Rightarrow> MatchOpts \<Rightarrow> bool" where
  "feasible_by how a b opts \<equiv> pairable a b opts
     \<and> (how = TransferMatchPointer \<and> fst (pointerFeasible a b opts)
        \<or> how = TransferMatchReference \<and> fst (referenceFeasible a b opts))"

definition justified :: "TransferSide list \<Rightarrow> MatchOpts \<Rightarrow> string \<Rightarrow> string \<times> match_candidate \<Rightarrow> bool" where
  "justified sides opts k = (\<lambda>(how, c).
     mc_from c < length sides \<and> mc_to c < length sides
     \<and> side_key (sides ! mc_from c) = k \<and> side_key (sides ! mc_to c) = k
     \<and> 0 < ts_Amount (sides ! mc_from c) \<and> ts_Amount (sides ! mc_to c) < 0
     \<and> feasible_by how (sides ! mc_from c) (sides ! mc_to c) opts)"

abbreviation link_of :: "TransferSide list \<Rightarrow> string \<times> match_candidate \<Rightarrow> TransferMatch" where
  "link_of sides \<equiv> \<lambda>(how, c). match_of sides how c"

lemma candidate_justified:
  assumes "part_ok sides k part" "c \<in> set (run_candidates sides part opts taken extra)"
    and "how = TransferMatchPointer \<and> extra = pointerFeasible
       \<or> how = TransferMatchReference \<and> extra = referenceFeasible"
  shows "justified sides opts k (how, c)"
proof -
  have "mc_from c \<in> set (pt_departures part)" "mc_to c \<in> set (pt_arrivals part)"
    and "pairable (sides ! mc_from c) (sides ! mc_to c) opts"
    and "fst (extra (sides ! mc_from c) (sides ! mc_to c) opts)"
    using assms(2) by (simp_all add: run_candidates_iff)
  moreover have "set (pt_departures part) = {i. i < length sides \<and> side_key (sides ! i) = k \<and> ts_Amount (sides ! i) > 0}"
    "set (pt_arrivals part) = {i. i < length sides \<and> side_key (sides ! i) = k \<and> ts_Amount (sides ! i) < 0}"
    using assms(1) by (simp_all add: part_ok_def)
  ultimately show ?thesis using assms(3) by (auto simp: justified_def)
qed

lemma run_links:
  assumes part: "part_ok sides k part" and run: "run sides part opts taken how extra = (ms, taken')"
    and pass: "how = TransferMatchPointer \<and> extra = pointerFeasible
       \<or> how = TransferMatchReference \<and> extra = referenceFeasible"
  obtains out where "ms = map (match_of sides how) out" "taken' = taken \<union> ends_of out"
    "distinct (end_list out)" "ends_of out \<inter> taken = {}" "\<forall>c \<in> set out. justified sides opts k (how, c)"
    "set out \<subseteq> set (run_candidates sides part opts taken extra)"
proof -
  let ?cs = "go_sort (match_betterThan sides) (run_candidates sides part opts taken extra)"
  obtain out where tb: "take_best taken {} ?cs = (out, taken')" and ms: "ms = map (match_of sides how) out"
    using run by (auto simp: run_def Let_def split: prod.splits)
  have just: "justified sides opts k (how, c)" if "c \<in> set ?cs" for c
    using that by (intro candidate_justified [OF part _ pass, where taken = taken]) simp
  have "mc_from c \<noteq> mc_to c" if "c \<in> set ?cs" for c
  proof -
    have "0 < ts_Amount (sides ! mc_from c)" "ts_Amount (sides ! mc_to c) < 0"
      using just [OF that] by (simp_all add: justified_def)
    then show ?thesis by (metis order.asym)
  qed
  from take_best_takes [OF tb this]
  have *: "set out \<subseteq> set ?cs" "taken' = taken \<union> ends_of out" "distinct (end_list out)" "ends_of out \<inter> taken = {}"
    by simp_all
  have "\<forall>c \<in> set out. justified sides opts k (how, c)" using *(1) just by blast
  from that [OF ms *(2-4) this] *(1) show thesis by simp
qed

lemma match_part_links:
  assumes part: "part_ok sides k part"
  obtains links where "match_part sides opts part = map (link_of sides) links"
    "distinct (end_list (map snd links))" "\<forall>l \<in> set links. justified sides opts k l"
proof -
  obtain ms taken where p: "run sides part opts {} TransferMatchPointer pointerFeasible = (ms, taken)" by force
  obtain ms' taken' where r: "run sides part opts taken TransferMatchReference referenceFeasible = (ms', taken')" by force
  obtain out where out: "ms = map (match_of sides TransferMatchPointer) out" "taken = {} \<union> ends_of out"
    "distinct (end_list out)" "ends_of out \<inter> {} = {}" "\<forall>c \<in> set out. justified sides opts k (TransferMatchPointer, c)"
    "set out \<subseteq> set (run_candidates sides part opts {} pointerFeasible)"
    by (rule run_links [OF part p]) (rule disjI1, simp)
  obtain out' where out': "ms' = map (match_of sides TransferMatchReference) out'" "taken' = taken \<union> ends_of out'"
    "distinct (end_list out')" "ends_of out' \<inter> taken = {}"
    "\<forall>c \<in> set out'. justified sides opts k (TransferMatchReference, c)"
    "set out' \<subseteq> set (run_candidates sides part opts taken referenceFeasible)"
    by (rule run_links [OF part r]) (rule disjI2, simp)
  let ?links = "map (Pair TransferMatchPointer) out @ map (Pair TransferMatchReference) out'"
  have "match_part sides opts part = map (link_of sides) ?links"
    by (simp add: match_part_def p r out(1) out'(1) o_def)
  moreover have "distinct (end_list (map snd ?links))"
    using out(2,3) out'(3,4) by (simp add: o_def Int_commute)
  moreover have "\<forall>l \<in> set ?links. justified sides opts k l" using out(5) out'(5) by auto
  ultimately show thesis by (rule that)
qed

subsection \<open>Every link is justified, and no side is used twice\<close>

lemma parts_links:
  assumes "distinct (map fst kps)" "\<forall>(k, p) \<in> set kps. part_ok sides k p"
  shows "\<exists>links. concat (map (match_part sides opts) (map snd kps)) = map (link_of sides) links
    \<and> distinct (end_list (map snd links)) \<and> (\<forall>l \<in> set links. \<exists>k \<in> fst ` set kps. justified sides opts k l)"
  using assms
proof (induction kps)
  case (Cons kp kps)
  obtain k p where kp: "kp = (k, p)" by force
  obtain links where l: "concat (map (match_part sides opts) (map snd kps)) = map (link_of sides) links"
    "distinct (end_list (map snd links))" "\<forall>l \<in> set links. \<exists>k \<in> fst ` set kps. justified sides opts k l"
    using Cons by auto
  have "part_ok sides k p" using Cons.prems kp by simp
  then obtain here where h: "match_part sides opts p = map (link_of sides) here"
    "distinct (end_list (map snd here))" "\<forall>l \<in> set here. justified sides opts k l" by (rule match_part_links)
  have keyed: "side_key (sides ! i) = k" if "i \<in> ends_of (map snd here)" for i
    using that h(3) by (auto simp: ends_of_def justified_def)
  have "side_key (sides ! i) \<in> fst ` set kps" if "i \<in> ends_of (map snd links)" for i
    using that l(3) by (fastforce simp: ends_of_def justified_def)
  then have "ends_of (map snd here) \<inter> ends_of (map snd links) = {}"
    using keyed Cons.prems(1) kp by fastforce
  then have "distinct (end_list (map snd (here @ links)))" using h(2) l(2) by simp
  moreover have "concat (map (match_part sides opts) (map snd (kp # kps))) = map (link_of sides) (here @ links)"
    using h(1) l(1) kp by simp
  moreover have "\<forall>l \<in> set (here @ links). \<exists>k \<in> fst ` set (kp # kps). justified sides opts k l"
    using h(3) l(3) kp by auto
  ultimately show ?case by blast
qed simp

lemma side_key_inj:
  assumes "side_key a = side_key b" "CHR 0x00 \<notin> set (ts_UserID a)" "CHR 0x00 \<notin> set (ts_UserID b)"
  shows "ts_UserID a = ts_UserID b \<and> ts_InstrumentID a = ts_InstrumentID b"
proof -
  have "takeWhile (\<lambda>c. c \<noteq> CHR 0x00) (side_key s) = ts_UserID s" if "CHR 0x00 \<notin> set (ts_UserID s)" for s
    unfolding side_key_def by (subst takeWhile_append2) (use that in auto)
  then have "ts_UserID a = ts_UserID b" using assms by metis
  with assms(1) show ?thesis by (simp add: side_key_def)
qed

text \<open>
  C32. Every link of \<open>Match\<close> is a transfer on evidence, and no side is in two of them: there is a
  choice of a departure and an arrival for each link, all these sides different, from which the
  link is read off. The two are sides of one user and one commodity, their amounts cancel to
  exactly nothing with the value leaving the first and arriving at the second, they are not one
  account of one broker, their dates are within the window, and by the link's how one names
  the other's account or their references are near. User ids hold no NUL, the separator of the
  partition key.
\<close>

theorem Match_links_justified:
  assumes "\<forall>s \<in> set sides. CHR 0x00 \<notin> set (ts_UserID s)"
  shows "\<exists>links :: (string \<times> nat \<times> nat) list.
    Match sides opts = map (\<lambda>(how, i, j). \<lparr>tm_UserID = ts_UserID (sides ! i), tm_FromGroupID = ts_GroupID (sides ! i),
        tm_ToGroupID = ts_GroupID (sides ! j), tm_InstrumentID = ts_InstrumentID (sides ! i), tm_Method = how\<rparr>) links
    \<and> distinct (concat (map (\<lambda>(how, i, j). [i, j]) links))
    \<and> (\<forall>(how, i, j) \<in> set links. i < length sides \<and> j < length sides
        \<and> ts_UserID (sides ! i) = ts_UserID (sides ! j) \<and> ts_InstrumentID (sides ! i) = ts_InstrumentID (sides ! j)
        \<and> 0 < ts_Amount (sides ! i) \<and> ts_Amount (sides ! i) + ts_Amount (sides ! j) = 0
        \<and> feasible_by how (sides ! i) (sides ! j) opts)"
proof -
  let ?kps = "fold add_side (enumerate 0 sides) []"
  obtain links where l: "Match sides opts = map (link_of sides) links" "distinct (end_list (map snd links))"
    "\<forall>l \<in> set links. \<exists>k \<in> fst ` set ?kps. justified sides opts k l"
    using parts_links [of ?kps sides opts] partition_sides_parts [of sides]
    by (auto simp: Match_def partition_sides_def)
  let ?f = "\<lambda>(how, c). (how, mc_from c, mc_to c)"
  have good: "case ?f l of (how, i, j) \<Rightarrow> i < length sides \<and> j < length sides
        \<and> ts_UserID (sides ! i) = ts_UserID (sides ! j) \<and> ts_InstrumentID (sides ! i) = ts_InstrumentID (sides ! j)
        \<and> 0 < ts_Amount (sides ! i) \<and> ts_Amount (sides ! i) + ts_Amount (sides ! j) = 0
        \<and> feasible_by how (sides ! i) (sides ! j) opts" if "l \<in> set links" for l
  proof -
    obtain how c where lc: "l = (how, c)" by force
    obtain k where "justified sides opts k (how, c)" using l(3) \<open>l \<in> set links\<close> lc by blast
    then have j: "mc_from c < length sides" "mc_to c < length sides"
      "side_key (sides ! mc_from c) = side_key (sides ! mc_to c)" "0 < ts_Amount (sides ! mc_from c)"
      "feasible_by how (sides ! mc_from c) (sides ! mc_to c) opts" by (simp_all add: justified_def)
    have "ts_Amount (sides ! mc_from c) + ts_Amount (sides ! mc_to c) = 0"
      using j(5) by (simp add: pairable_def split: if_splits)
    then show ?thesis using j lc side_key_inj [OF j(3)] assms by simp
  qed
  show ?thesis
  proof (intro exI [of _ "map ?f links"] conjI)
    show "Match sides opts = map (\<lambda>(how, i, j). \<lparr>tm_UserID = ts_UserID (sides ! i), tm_FromGroupID = ts_GroupID (sides ! i),
        tm_ToGroupID = ts_GroupID (sides ! j), tm_InstrumentID = ts_InstrumentID (sides ! i), tm_Method = how\<rparr>) (map ?f links)"
      by (simp add: l(1) match_of_def o_def split_beta)
    show "distinct (concat (map (\<lambda>(how, i, j). [i, j]) (map ?f links)))"
      using l(2) by (simp add: end_list_def o_def split_beta)
  qed (use good in fastforce)
qed

text \<open>Sides of one broker, for concrete runs.\<close>

definition side :: "string \<Rightarrow> string \<Rightarrow> decimal \<Rightarrow> time \<Rightarrow> int64 \<Rightarrow> TransferSide" where
  "side g account amount t x = \<lparr>ts_UserID = ''u'', ts_GroupID = g, ts_Broker = FIDELITY, ts_Account = account,
     ts_InstrumentID = ''gbp'', ts_Amount = amount, ts_OrderDate = t,
     ts_Correlations = [\<lparr>c_Label = ''ref'', c_Token = ''t'', c_Ordinal = Some x, c_Scope = ScopeBroker,
        c_Match = [MatchOrdinal], c_OrdinalSpan = None, c_JobID = ''j''\<rparr>]\<rparr>"

abbreviation one_transfer :: "TransferSide list" where
  "one_transfer \<equiv> [side ''g1'' ''isa'' 100 0 10, side ''g2'' ''sipp'' (- 100) 0 11]"

lemma one_transfer_matched:
  "Match one_transfer DefaultMatchOpts = [\<lparr>tm_UserID = ''u'', tm_FromGroupID = ''g1'', tm_ToGroupID = ''g2'',
     tm_InstrumentID = ''gbp'', tm_Method = TransferMatchReference\<rparr>]"
  by code_simp

theorem Match_links_justified_witness:
  "\<exists>i j. ts_Amount (one_transfer ! i) + ts_Amount (one_transfer ! j) = 0
     \<and> pairable (one_transfer ! i) (one_transfer ! j) DefaultMatchOpts"
proof -
  have "\<forall>s \<in> set one_transfer. CHR 0x00 \<notin> set (ts_UserID s)" by (simp add: side_def)
  from Match_links_justified [OF this, of DefaultMatchOpts] show ?thesis
  proof (elim exE conjE)
    fix links :: "(string \<times> nat \<times> nat) list"
    assume l: "Match one_transfer DefaultMatchOpts = map (\<lambda>(how, i, j). \<lparr>tm_UserID = ts_UserID (one_transfer ! i),
        tm_FromGroupID = ts_GroupID (one_transfer ! i), tm_ToGroupID = ts_GroupID (one_transfer ! j),
        tm_InstrumentID = ts_InstrumentID (one_transfer ! i), tm_Method = how\<rparr>) links"
      and good: "\<forall>(how, i, j) \<in> set links. i < length one_transfer \<and> j < length one_transfer
        \<and> ts_UserID (one_transfer ! i) = ts_UserID (one_transfer ! j)
        \<and> ts_InstrumentID (one_transfer ! i) = ts_InstrumentID (one_transfer ! j)
        \<and> 0 < ts_Amount (one_transfer ! i) \<and> ts_Amount (one_transfer ! i) + ts_Amount (one_transfer ! j) = 0
        \<and> feasible_by how (one_transfer ! i) (one_transfer ! j) DefaultMatchOpts"
    have "links \<noteq> []"
    proof
      assume "links = []"
      then have "Match one_transfer DefaultMatchOpts = []" unfolding l by (simp only: list.map)
      then show False unfolding one_transfer_matched by (rule list.distinct(2) [THEN notE])
    qed
    then obtain how i j where "(how, i, j) \<in> set links" by (cases links) auto
    with good have "ts_Amount (one_transfer ! i) + ts_Amount (one_transfer ! j) = 0
       \<and> pairable (one_transfer ! i) (one_transfer ! j) DefaultMatchOpts" by blast
    then show ?thesis by blast
  qed
qed

text \<open>
  Sides that cannot be told apart are paired all the same: two departures and two arrivals of
  one amount, one date and equidistant references are indistinguishable, and the pass, having set
  the first pair aside as ambiguous, finds the second pair alone and links it. The comment on
  \<open>run\<close> has neither taken.
\<close>

theorem Match_pairs_a_tie:
  "Match [side ''g1'' ''isa'' 100 0 10, side ''g2'' ''isa'' 100 0 10,
      side ''h1'' ''sipp'' (- 100) 0 11, side ''h2'' ''sipp'' (- 100) 0 11] DefaultMatchOpts
   = [\<lparr>tm_UserID = ''u'', tm_FromGroupID = ''g2'', tm_ToGroupID = ''h2'', tm_InstrumentID = ''gbp'',
       tm_Method = TransferMatchReference\<rparr>]"
  by code_simp

subsection \<open>A pair without a rival is found\<close>

lemma run_takes_sole:
  assumes "part_ok sides k part" and "c \<in> set (run_candidates sides part opts taken extra)"
    and "\<And>d. d \<in> set (run_candidates sides part opts taken extra) \<Longrightarrow> d \<noteq> c \<Longrightarrow> cand_ends d \<inter> cand_ends c = {}"
  shows "match_of sides how c \<in> set (fst (run sides part opts taken how extra))"
proof -
  let ?cs = "go_sort (match_betterThan sides) (run_candidates sides part opts taken extra)"
  have "distinct ?cs" using assms(1) by (simp add: distinct_run_candidates part_ok_def)
  moreover have "cand_ends c \<inter> (taken \<union> {}) = {}" using assms(2) by (simp add: run_candidates_iff)
  ultimately have "c \<in> set (fst (take_best taken {} ?cs))"
    using assms(2,3) by (intro take_best_takes_sole) auto
  then show ?thesis by (auto simp: run_def Let_def split: prod.split)
qed

definition sole_pair :: "TransferSide list \<Rightarrow> MatchOpts \<Rightarrow> nat \<Rightarrow> nat \<Rightarrow> bool" where
  "sole_pair sides opts i j \<longleftrightarrow> i < length sides \<and> j < length sides
     \<and> side_key (sides ! i) = side_key (sides ! j) \<and> 0 < ts_Amount (sides ! i) \<and> ts_Amount (sides ! j) < 0
     \<and> (\<exists>how. feasible_by how (sides ! i) (sides ! j) opts)
     \<and> (\<forall>l < length sides. \<forall>how. feasible_by how (sides ! i) (sides ! l) opts \<longrightarrow> l = j)
     \<and> (\<forall>l < length sides. \<forall>how. feasible_by how (sides ! l) (sides ! j) opts \<longrightarrow> l = i)"

lemma sole_pair_candidates:
  assumes sole: "sole_pair sides opts i j" and part: "part_ok sides k part"
    and pass: "how = TransferMatchPointer \<and> extra = pointerFeasible
       \<or> how = TransferMatchReference \<and> extra = referenceFeasible"
    and d: "d \<in> set (run_candidates sides part opts taken extra)" and hit: "cand_ends d \<inter> {i, j} \<noteq> {}"
  shows "mc_from d = i \<and> mc_to d = j"
proof -
  have "justified sides opts k (how, d)" by (rule candidate_justified [OF part d pass])
  then have *: "mc_from d < length sides" "mc_to d < length sides" "0 < ts_Amount (sides ! mc_from d)"
    "ts_Amount (sides ! mc_to d) < 0" "feasible_by how (sides ! mc_from d) (sides ! mc_to d) opts"
    by (simp_all add: justified_def)
  have "0 < ts_Amount (sides ! i)" "ts_Amount (sides ! j) < 0" using sole by (simp_all add: sole_pair_def)
  then have "mc_from d \<noteq> j" and "mc_to d \<noteq> i" using *(3,4) by (metis order.asym)+
  with hit have "mc_from d = i \<or> mc_to d = j" by blast
  then show ?thesis using * sole unfolding sole_pair_def by metis
qed

lemma match_part_takes_sole:
  assumes sole: "sole_pair sides opts i j" and part: "part_ok sides (side_key (sides ! i)) part"
  shows "\<exists>how c. mc_from c = i \<and> mc_to c = j \<and> match_of sides how c \<in> set (match_part sides opts part)"
proof -
  let ?c = "\<lambda>x. \<lparr>mc_from = i, mc_to = j, mc_refDistance = x, mc_dateGap = gap (ts_OrderDate (sides ! i)) (ts_OrderDate (sides ! j))\<rparr>"
  let ?ptr = "run sides part opts {} TransferMatchPointer pointerFeasible"
  have ij: "i \<in> set (pt_departures part)" "j \<in> set (pt_arrivals part)"
    using sole part by (simp_all add: sole_pair_def part_ok_def)
  have pair: "pairable (sides ! i) (sides ! j) opts" using sole by (auto simp: sole_pair_def)
  have cand: "?c x \<in> set (run_candidates sides part opts taken extra)"
    if "i \<notin> taken" "j \<notin> taken" "extra (sides ! i) (sides ! j) opts = (True, x)" for taken extra x
    using that ij pair by (simp add: run_candidates_iff)
  have only_c: "d = ?c x" if "extra (sides ! i) (sides ! j) opts = (True, x)"
      "d \<in> set (run_candidates sides part opts taken extra)" "mc_from d = i \<and> mc_to d = j" for d taken extra x
    using that by (cases d) (simp add: run_candidates_iff)
  have took: "match_of sides how (?c x) \<in> set (fst (run sides part opts taken how extra))"
    if "i \<notin> taken" "j \<notin> taken" "extra (sides ! i) (sides ! j) opts = (True, x)"
      and pass: "how = TransferMatchPointer \<and> extra = pointerFeasible
       \<or> how = TransferMatchReference \<and> extra = referenceFeasible" for taken how extra x
  proof (rule run_takes_sole [OF part])
    show "?c x \<in> set (run_candidates sides part opts taken extra)"
      by (rule cand) (use that in simp_all)
    fix d assume d: "d \<in> set (run_candidates sides part opts taken extra)" "d \<noteq> ?c x"
    then have "\<not> (mc_from d = i \<and> mc_to d = j)" using only_c [where extra = extra, OF that(3) d(1)] by blast
    then have "cand_ends d \<inter> {i, j} = {}"
      using sole_pair_candidates [OF sole part pass d(1)] by blast
    then show "cand_ends d \<inter> cand_ends (?c x) = {}" by simp
  qed
  show ?thesis
  proof (cases "fst (pointerFeasible (sides ! i) (sides ! j) opts)")
    case True
    then obtain x where "pointerFeasible (sides ! i) (sides ! j) opts = (True, x)" by (metis prod.collapse)
    then have "match_of sides TransferMatchPointer (?c x) \<in> set (fst ?ptr)" by (intro took) simp_all
    then have "match_of sides TransferMatchPointer (?c x) \<in> set (match_part sides opts part)"
      by (simp add: match_part_def split_beta)
    then show ?thesis by (intro exI [of _ TransferMatchPointer] exI [of _ "?c x"]) simp
  next
    case False
    then have ref: "fst (referenceFeasible (sides ! i) (sides ! j) opts)" using sole by (auto simp: sole_pair_def)
    then obtain x where x: "referenceFeasible (sides ! i) (sides ! j) opts = (True, x)" by (metis prod.collapse)
    obtain ms taken where p: "?ptr = (ms, taken)" by force
    obtain out where out: "taken = {} \<union> ends_of out" "set out \<subseteq> set (run_candidates sides part opts {} pointerFeasible)"
      by (rule run_links [OF part p]) (rule disjI1, simp)
    have "\<not> (mc_from d = i \<and> mc_to d = j)" if "d \<in> set out" for d
      using that out(2) False by (auto simp: run_candidates_iff)
    then have "cand_ends d \<inter> {i, j} = {}" if "d \<in> set out" for d
      using that out(2) sole_pair_candidates [OF sole part, of TransferMatchPointer pointerFeasible d "{}"] by blast
    then have "i \<notin> taken" "j \<notin> taken" using out(1) by (auto simp: ends_of_def)
    then have "match_of sides TransferMatchReference (?c x)
        \<in> set (fst (run sides part opts taken TransferMatchReference referenceFeasible))"
      using x by (intro took) simp_all
    then have "match_of sides TransferMatchReference (?c x) \<in> set (match_part sides opts part)"
      by (simp add: match_part_def p split_beta)
    then show ?thesis by (intro exI [of _ TransferMatchReference] exI [of _ "?c x"]) simp
  qed
qed

text \<open>
  A pair without a rival is always linked: where a departure and an arrival of one user and
  commodity pass the tests of either pass, and no other side passes them with the departure or
  with the arrival, \<open>Match\<close> links the two, from the departure's group to the arrival's.
\<close>

theorem Match_finds_sole_pair:
  assumes "sole_pair sides opts i j"
  shows "\<exists>how. \<lparr>tm_UserID = ts_UserID (sides ! i), tm_FromGroupID = ts_GroupID (sides ! i),
      tm_ToGroupID = ts_GroupID (sides ! j), tm_InstrumentID = ts_InstrumentID (sides ! i), tm_Method = how\<rparr>
    \<in> set (Match sides opts)"
proof -
  let ?m = "fold add_side (enumerate 0 sides) []"
  have "i < length sides" using assms by (simp add: sole_pair_def)
  then have "side_key (sides ! i) \<in> fst ` set ?m" using partition_sides_parts [of sides] by simp
  then obtain p where p: "(side_key (sides ! i), p) \<in> set ?m" by auto
  then have "part_ok sides (side_key (sides ! i)) p" using partition_sides_parts [of sides] by blast
  from match_part_takes_sole [OF assms this] obtain how c
    where c: "mc_from c = i" "mc_to c = j" "match_of sides how c \<in> set (match_part sides opts p)" by blast
  have "p \<in> set (partition_sides sides)" using p by (force simp: partition_sides_def)
  with c show ?thesis by (auto simp: Match_def match_of_def)
qed

theorem Match_finds_sole_pair_witness:
  "\<exists>how. \<lparr>tm_UserID = ''u'', tm_FromGroupID = ''g1'', tm_ToGroupID = ''g2'', tm_InstrumentID = ''gbp'', tm_Method = how\<rparr>
    \<in> set (Match one_transfer DefaultMatchOpts)"
proof -
  have "pairable (one_transfer ! 0) (one_transfer ! 1) DefaultMatchOpts"
    "fst (referenceFeasible (one_transfer ! 0) (one_transfer ! 1) DefaultMatchOpts)"
    "side_key (one_transfer ! 0) = side_key (one_transfer ! 1)"
    "0 < ts_Amount (one_transfer ! 0)" "ts_Amount (one_transfer ! 1) < 0"
    "\<not> pairable (one_transfer ! 0) (one_transfer ! 0) DefaultMatchOpts"
    "\<not> pairable (one_transfer ! 1) (one_transfer ! 1) DefaultMatchOpts" by code_simp+
  then have "sole_pair one_transfer DefaultMatchOpts 0 1"
    unfolding sole_pair_def by (simp add: less_Suc_eq_0_disj) metis
  from Match_finds_sole_pair [OF this] show ?thesis by (simp add: side_def)
qed

text \<open>
  The distance of two dates is exact below 292 years and saturates beyond: it is the longest
  duration when the first date is the later one, and otherwise the least \<open>int64\<close>, which negation
  gives back. That one is negative, so no window excludes it: an arrival dated 300 years after
  its departure is pairable within seven days.
\<close>

theorem gap_saturates:
  "gap a b = (if a - b \<le> - (2 ^ 63) then - (2 ^ 63) else if 2 ^ 63 \<le> a - b then 2 ^ 63 - 1 else \<bar>a - b\<bar>)
   \<and> pairable (side ''g1'' ''isa'' 100 0 10) (side ''g2'' ''sipp'' (- 100) (300 * 365 * 86400 * 10 ^ 9) 11) DefaultMatchOpts"
proof
  show "gap a b = (if a - b \<le> - (2 ^ 63) then - (2 ^ 63) else if 2 ^ 63 \<le> a - b then 2 ^ 63 - 1 else \<bar>a - b\<bar>)"
    by (simp add: gap_def time_Sub_def minDuration_def maxDuration_def Let_def)
qed code_simp

end
