(* ===== verification/Ledger.thy ===== *)
theory Ledger
  imports Balance Grouping_Engine Transfer_Match
begin

text \<open>
  The stored ledger: the tables \<open>txs\<close>, \<open>tx_groups\<close> and \<open>transfer_matches\<close> and the transactions
  that write them, \<open>ReplaceTxsInPeriod\<close>, \<open>CreateTxGroup\<close> (\<open>src/server/db/postgres/txs.go\<close>) and
  \<open>ApplyGrouping\<close> (\<open>src/server/db/postgres/grouping_apply.go\<close>), statement by statement.

  What the code takes from outside is a record \<open>Env\<close> of functions: \<open>uuid.Parse\<close> with the spelling
  it gives back, the ids \<open>gen_random_uuid()\<close> hands out one after the other,
  \<open>decimal.NewFromString\<close>, the seeded currency instruments, and the division and the scale of a
  \<open>NUMERIC\<close>. A transaction returns \<open>None\<close> where the code panics or its settler never returns,
  \<open>Some (Inl err)\<close> where it fails and is rolled back, and \<open>Some (Inr l)\<close> with the ledger it
  commits. Columns that triggers fill (the split-adjusted pair, a defaulted share count basis) and
  table constraints other than the balance are outside the model.
\<close>

subsection \<open>Tables\<close>

record Posting =
  t_ID :: string
  t_UserID :: string
  t_Broker :: string
  t_Account :: string
  t_OrderDate :: time
  t_TradeDate :: time
  t_Description :: string
  t_BrokerTxTypes :: "string list"
  t_Resolved :: string
  t_Hint :: "string option"
  t_Quantity :: decimal
  t_TradingCurrency :: "string option"
  t_SettlementCurrency :: "string option"
  t_UnitPrice :: "decimal option"
  t_SettlementAmount :: "decimal option"
  t_InstrumentID :: "string option"
  t_ShareCountBasis :: "time option"
  t_AccountType :: string
  t_Purpose :: "string option"
  t_Weight :: decimal
  t_Commodity :: string
  t_GroupID :: string
  t_Correlations :: "Correlation list"

record TxGroup =
  tg_ID :: string
  tg_UserID :: string
  tg_Timestamp :: time
  tg_JobID :: "string option"

record Ledger =
  l_txs :: "Posting list"
  l_groups :: "TxGroup list"
  l_matches :: "TransferMatch list"
  l_uuids :: nat

record Env =
  env_parse_uuid :: "string \<Rightarrow> string option"
  env_new_uuid :: "nat \<Rightarrow> string"
  env_parse_dec :: "string \<Rightarrow> decimal option"
  env_currency :: "string \<Rightarrow> string option"
  env_div :: "decimal \<Rightarrow> decimal \<Rightarrow> decimal"
  env_scale :: "decimal \<Rightarrow> nat"

definition RoutedPurpose :: string where "RoutedPurpose = ''RESIDUAL''"
definition BoundaryPurpose :: string where "BoundaryPurpose = ''BOUNDARY''"
definition InitializePurpose :: string where "InitializePurpose = ''INITIALIZE''"

definition routedPurpose :: "Posting \<Rightarrow> bool" where
  "routedPurpose t \<longleftrightarrow> t_Purpose t \<in> {Some RoutedPurpose, Some BoundaryPurpose}"

definition nullStr :: "string \<Rightarrow> string option" where
  "nullStr s = (if s = '''' then None else Some s)"

definition parseNullUUID :: "Env \<Rightarrow> string \<Rightarrow> string + string option" where
  "parseNullUUID env s =
     (if s = '''' then Inr None
      else case env_parse_uuid env s of None \<Rightarrow> Inl ''invalid UUID'' | Some u \<Rightarrow> Inr (Some u))"

text \<open>Sequencing of fallible steps, and of fallible steps that may also panic.\<close>

definition sum_then :: "'e + 'a \<Rightarrow> ('a \<Rightarrow> 'e + 'b) \<Rightarrow> 'e + 'b" where
  "sum_then m f = (case m of Inl e \<Rightarrow> Inl e | Inr x \<Rightarrow> f x)"

definition run_then :: "('e + 'a) option \<Rightarrow> ('a \<Rightarrow> ('e + 'b) option) \<Rightarrow> ('e + 'b) option" where
  "run_then m f = (case m of None \<Rightarrow> None | Some (Inl e) \<Rightarrow> Some (Inl e) | Some (Inr x) \<Rightarrow> f x)"

definition with_error :: "string \<Rightarrow> string + 'a \<Rightarrow> string + 'a" where
  "with_error pre m = (case m of Inl e \<Rightarrow> Inl (pre @ e) | Inr x \<Rightarrow> Inr x)"

definition of_option :: "string \<Rightarrow> 'a option \<Rightarrow> string + 'a" where
  "of_option err m = (case m of None \<Rightarrow> Inl err | Some x \<Rightarrow> Inr x)"

subsection \<open>Inserting postings\<close>

fun match_strs :: "Match list \<Rightarrow> string + string list" where
  "match_strs [] = Inr []"
| "match_strs (m # ms) = sum_then (MatchToStr m) (\<lambda>s. sum_then (match_strs ms) (\<lambda>ss. Inr (s # ss)))"

fun insertCorrelations :: "string option \<Rightarrow> wire_Correlation list \<Rightarrow> string + Correlation list" where
  "insertCorrelations job [] = Inr []"
| "insertCorrelations job (c # cs) =
     (let pre = ''correlation '' @ quoted (w_Token c) @ '': '' in
      sum_then (with_error pre (ScopeToStr (w_Scope c))) (\<lambda>scope.
      sum_then (with_error pre (match_strs (w_Match c))) (\<lambda>matches.
      if matches = [] then Inl (pre @ ''no match declared'')
      else sum_then (insertCorrelations job cs) (\<lambda>rest.
        Inr (\<lparr>c_Label = w_Label c, c_Token = w_Token c, c_Ordinal = w_Ordinal c, c_Scope = scope,
               c_Match = matches, c_OrdinalSpan = w_OrdinalSpan c,
               c_JobID = (case job of None \<Rightarrow> '''' | Some j \<Rightarrow> j)\<rparr> # rest)))))"

text \<open>One row of the loop of \<open>insertPostings\<close>: the posting it writes under the given ids.\<close>

definition posting_row ::
    "Env \<Rightarrow> string \<Rightarrow> string \<Rightarrow> string option \<Rightarrow> string \<Rightarrow> Tx \<Rightarrow> string \<Rightarrow> Weight option \<Rightarrow> time option
     \<Rightarrow> string \<Rightarrow> string \<Rightarrow> string + Posting" where
  "posting_row env user broker job account t instID w basis txID groupID =
     sum_then (of_option ''invalid instrument id'' (env_parse_uuid env instID)) (\<lambda>inst.
     sum_then (of_option ''invalid timestamp'' (x_OrderDate t)) (\<lambda>ordered.
     sum_then (of_option ''invalid timestamp'' (x_TradeDate t)) (\<lambda>traded.
     sum_then (TxTypesToStrs (x_BrokerTxType t)) (\<lambda>brokerTypes.
     sum_then (TxTypeToStr (x_ResolvedTxType t)) (\<lambda>resolvedStr.
     sum_then (AccountTypeToStr (x_AccountType t)) (\<lambda>acctTypeStr.
     sum_then (of_option (''invalid quantity '' @ quoted (x_Quantity t)) (env_parse_dec env (x_Quantity t))) (\<lambda>qty.
     sum_then (of_option ''invalid unit price'' (parseOptDec (env_parse_dec env) (x_UnitPrice t))) (\<lambda>price.
     sum_then (of_option ''invalid settlement amount'' (parseOptDec (env_parse_dec env) (x_SettlementAmount t))) (\<lambda>settlement.
     sum_then (insertCorrelations job (x_Correlations t)) (\<lambda>cs.
     let weight = (case w of None \<Rightarrow> \<lparr>wt_Amount = qty, wt_Commodity = InstrumentPrefix @ inst\<rparr> | Some v \<Rightarrow> v) in
     Inr \<lparr>t_ID = txID, t_UserID = user, t_Broker = broker,
          t_Account = (if account \<noteq> '''' then account else x_Account t),
          t_OrderDate = ordered, t_TradeDate = traded, t_Description = x_InstrumentDescription t,
          t_BrokerTxTypes = brokerTypes, t_Resolved = resolvedStr, t_Hint = nullStr (AssetClassToStr (x_AssetClassHint t)),
          t_Quantity = qty, t_TradingCurrency = nullStr (x_TradingCurrency t),
          t_SettlementCurrency = nullStr (x_SettlementCurrency t), t_UnitPrice = price, t_SettlementAmount = settlement,
          t_InstrumentID = Some inst, t_ShareCountBasis = basis, t_AccountType = acctTypeStr,
          t_Purpose = nullStr (x_SyntheticPurpose t), t_Weight = wt_Amount weight, t_Commodity = wt_Commodity weight,
          t_GroupID = groupID, t_Correlations = cs\<rparr>))))))))))"

text \<open>\<open>insertPostingSQL\<close>: a group and its single posting, in one statement.\<close>

definition insert_alone :: "Env \<Rightarrow> string \<Rightarrow> string option \<Rightarrow> Posting \<Rightarrow> Ledger \<Rightarrow> Ledger" where
  "insert_alone env user job row l =
     l\<lparr>l_groups := l_groups l @ [\<lparr>tg_ID = t_GroupID row, tg_UserID = user, tg_Timestamp = t_OrderDate row, tg_JobID = job\<rparr>],
       l_txs := l_txs l @ [row], l_uuids := l_uuids l + 2\<rparr>"

definition entry_at :: "nat \<Rightarrow> 'a list \<Rightarrow> 'a option" where
  "entry_at i xs = (if i < length xs then Some (xs ! i) else None)"

record written =
  wr_postings :: "string list"
  wr_groups :: "string list"

fun insert_loop ::
    "Env \<Rightarrow> string \<Rightarrow> string \<Rightarrow> string option \<Rightarrow> string \<Rightarrow> nat \<Rightarrow> Tx list \<Rightarrow> string list \<Rightarrow> Weight list \<Rightarrow> time option list
     \<Rightarrow> written \<Rightarrow> Ledger \<Rightarrow> (string + Ledger \<times> written) option" where
  "insert_loop env user broker job account i [] ids ws bs out l = Some (Inr (l, out))"
| "insert_loop env user broker job account i (t # txs) ids ws bs out l =
     (case entry_at i ids of
        None \<Rightarrow> None
      | Some instID \<Rightarrow>
          let groupID = env_new_uuid env (l_uuids l); txID = env_new_uuid env (l_uuids l + 1) in
          run_then (Some (posting_row env user broker job account t instID (entry_at i ws)
              (case entry_at i bs of None \<Rightarrow> None | Some b \<Rightarrow> b) txID groupID)) (\<lambda>row.
            insert_loop env user broker job account (i + 1) txs ids ws bs
              \<lparr>wr_postings = wr_postings out @ [txID], wr_groups = wr_groups out @ [groupID]\<rparr>
              (insert_alone env user job row l)))"

definition insertPostings ::
    "Env \<Rightarrow> string \<Rightarrow> string \<Rightarrow> string option \<Rightarrow> Tx list \<Rightarrow> string list \<Rightarrow> Weight list \<Rightarrow> time option list \<Rightarrow> string
     \<Rightarrow> Ledger \<Rightarrow> (string + Ledger \<times> written) option" where
  "insertPostings env user broker job txs ids ws bs account l =
     insert_loop env user broker job account 0 txs ids ws bs \<lparr>wr_postings = [], wr_groups = []\<rparr> l"

subsection \<open>Clearing a period\<close>

definition in_period :: "string \<Rightarrow> time \<Rightarrow> time \<Rightarrow> Posting \<Rightarrow> bool" where
  "in_period broker fromT beforeT t \<longleftrightarrow>
     t_Broker t = broker \<and> fromT \<le> t_OrderDate t \<and> t_OrderDate t < beforeT \<and> t_Purpose t = None"

definition survivorPredicate :: "string \<Rightarrow> time \<Rightarrow> time \<Rightarrow> Posting \<Rightarrow> bool" where
  "survivorPredicate broker fromT beforeT t \<longleftrightarrow> \<not> routedPurpose t \<and> \<not> in_period broker fromT beforeT t"

definition touchedGroups :: "string \<Rightarrow> string \<Rightarrow> time \<Rightarrow> time \<Rightarrow> Ledger \<Rightarrow> string set" where
  "touchedGroups user broker fromT beforeT l =
     t_GroupID ` {t \<in> set (l_txs l). t_UserID t = user \<and> in_period broker fromT beforeT t}"

definition deleteReplacedPostings :: "string \<Rightarrow> string \<Rightarrow> time \<Rightarrow> time \<Rightarrow> Ledger \<Rightarrow> Ledger \<times> string list" where
  "deleteReplacedPostings user broker fromT beforeT l =
     (let gone = (\<lambda>t. t_GroupID t \<in> touchedGroups user broker fromT beforeT l
            \<and> \<not> survivorPredicate broker fromT beforeT t)
      in (l\<lparr>l_txs := filter (\<lambda>t. \<not> gone t) (l_txs l)\<rparr>,
          first_by (\<lambda>g. g) {} (map t_GroupID (filter gone (l_txs l)))))"

definition deleteEmptiedGroups :: "string set \<Rightarrow> Ledger \<Rightarrow> Ledger" where
  "deleteEmptiedGroups ids l =
     (let gone = (\<lambda>g. g \<in> ids \<and> \<not> list_ex (\<lambda>t. t_GroupID t = g) (l_txs l)) in
      l\<lparr>l_groups := filter (\<lambda>g. \<not> gone (tg_ID g)) (l_groups l),
        l_matches := filter (\<lambda>m. \<not> gone (tm_FromGroupID m) \<and> \<not> gone (tm_ToGroupID m)) (l_matches l)\<rparr>)"

definition deleteTouchedMatches :: "string set \<Rightarrow> Ledger \<Rightarrow> Ledger" where
  "deleteTouchedMatches ids l =
     l\<lparr>l_matches := filter (\<lambda>m. tm_FromGroupID m \<notin> ids \<and> tm_ToGroupID m \<notin> ids) (l_matches l)\<rparr>"

definition group_txs :: "Ledger \<Rightarrow> string \<Rightarrow> Posting list" where
  "group_txs l g = filter (\<lambda>t. t_GroupID t = g) (l_txs l)"

definition repointGroupTimestamps :: "string set \<Rightarrow> Ledger \<Rightarrow> Ledger" where
  "repointGroupTimestamps ids l =
     l\<lparr>l_groups := map (\<lambda>g. if tg_ID g \<in> ids \<and> group_txs l (tg_ID g) \<noteq> []
          then g\<lparr>tg_Timestamp := Min (set (map t_OrderDate (group_txs l (tg_ID g))))\<rparr> else g) (l_groups l)\<rparr>"

definition clearPeriod :: "string \<Rightarrow> string \<Rightarrow> time \<Rightarrow> time \<Rightarrow> Ledger \<Rightarrow> Ledger \<times> string list" where
  "clearPeriod user broker fromT beforeT l =
     (let (l1, touched) = deleteReplacedPostings user broker fromT beforeT l; ids = set touched in
      if touched = [] then (l1, [])
      else (repointGroupTimestamps ids (deleteTouchedMatches ids (deleteEmptiedGroups ids l1)), touched))"

subsection \<open>Settling what groups are owed\<close>

abbreviation by_date_id :: "Posting \<Rightarrow> time \<times> string" where
  "by_date_id t \<equiv> (t_OrderDate t, t_ID t)"

text \<open>
  \<open>insertPostingInGroupSQL\<close> as the two routers call it: a leg of an existing group that carries the
  source's attributes of \<open>t\<close>, weighs its own quantity, and names neither price nor correlation.
\<close>

definition routed_leg ::
    "Env \<Rightarrow> string \<Rightarrow> Posting \<Rightarrow> string \<Rightarrow> string \<Rightarrow> string option \<Rightarrow> string option \<Rightarrow> string option \<Rightarrow> string \<Rightarrow> string
     \<Rightarrow> decimal \<Rightarrow> string \<Rightarrow> Ledger \<Rightarrow> Ledger" where
  "routed_leg env user t groupID desc trading settlement instID acctType purpose amount commodity l =
     l\<lparr>l_txs := l_txs l @ [\<lparr>t_ID = env_new_uuid env (l_uuids l), t_UserID = user, t_Broker = t_Broker t,
          t_Account = t_Account t, t_OrderDate = t_OrderDate t, t_TradeDate = t_TradeDate t, t_Description = desc,
          t_BrokerTxTypes = t_BrokerTxTypes t, t_Resolved = t_Resolved t, t_Hint = None, t_Quantity = amount,
          t_TradingCurrency = trading, t_SettlementCurrency = settlement, t_UnitPrice = None, t_SettlementAmount = None,
          t_InstrumentID = instID, t_ShareCountBasis = None, t_AccountType = acctType, t_Purpose = Some purpose,
          t_Weight = amount, t_Commodity = commodity, t_GroupID = groupID, t_Correlations = []\<rparr>],
       l_uuids := l_uuids l + 1\<rparr>"

definition currencyInstrument :: "Env \<Rightarrow> string \<Rightarrow> string + string" where
  "currencyInstrument env code =
     of_option (''no instrument for residual currency '' @ quoted code) (env_currency env code)"

text \<open>
  The description, currencies and instrument of a routed leg: those of the legs it balances, or in
  money the seeded currency instrument with the code for all three.
\<close>

definition leg_names ::
    "Env \<Rightarrow> string \<Rightarrow> string \<times> string option \<times> string option \<times> string option
     \<Rightarrow> string + string \<times> string option \<times> string option \<times> string option" where
  "leg_names env commodity own =
     (let (code, money) = CurrencyOf commodity in
      if money then sum_then (currencyInstrument env code) (\<lambda>i. Inr (code, Some code, Some code, Some i))
      else Inr own)"

definition boundaryCandidates :: "Ledger \<Rightarrow> string set \<Rightarrow> Posting list" where
  "boundaryCandidates l ids = sort_key by_date_id
     (filter (\<lambda>t. t_GroupID t \<in> ids \<and> t_Purpose t = None \<and> t_AccountType t = ''USER'' \<and> t_Weight t \<noteq> 0) (l_txs l))"

fun boundary_loop :: "Env \<Rightarrow> string \<Rightarrow> Posting list \<Rightarrow> Ledger \<Rightarrow> string + Ledger" where
  "boundary_loop env user [] l = Inr l"
| "boundary_loop env user (c # cs) l =
     (let (acct, named) = Boundary (StrToTxType (t_Resolved c)) in
      if \<not> named then boundary_loop env user cs l
      else sum_then (AccountTypeToStr acct) (\<lambda>acctType.
           sum_then (leg_names env (t_Commodity c)
               (t_Description c, t_TradingCurrency c, t_SettlementCurrency c, t_InstrumentID c))
             (\<lambda>(desc, trading, settlement, instID).
              boundary_loop env user cs
                (routed_leg env user c (t_GroupID c) desc trading settlement instID acctType BoundaryPurpose
                   (- t_Weight c) (t_Commodity c) l))))"

definition routeBoundaries :: "Env \<Rightarrow> string \<Rightarrow> string set \<Rightarrow> Ledger \<Rightarrow> string + Ledger" where
  "routeBoundaries env user ids l = boundary_loop env user (boundaryCandidates l ids) l"

text \<open>\<open>groupResidualsSQL\<close>, one column at a time.\<close>

definition weight_sum :: "Posting list \<Rightarrow> string \<Rightarrow> string \<Rightarrow> decimal" where
  "weight_sum ts g c = sum_list (map t_Weight (filter (\<lambda>t. t_GroupID t = g \<and> t_Commodity t = c) ts))"

definition price_rounding :: "Env \<Rightarrow> Posting list \<Rightarrow> decimal" where
  "price_rounding env ts = sum_list (map (\<lambda>t. case t_UnitPrice t of
       None \<Rightarrow> 0
     | Some p \<Rightarrow> if p = 0 \<or> t_Weight t = t_Quantity t then 0
                 else \<bar>env_div env (t_Weight t) p\<bar> * (1 / 2) * (1 / 10 ^ max (env_scale env p) PriceScaleFloor)) ts)"

record groupResidual =
  gr_groupID :: string
  gr_commodity :: string
  gr_amount :: decimal
  gr_priceRounding :: decimal
  gr_resolvedTypes :: "string list"
  gr_first :: Posting
  gr_leg :: Posting

definition groupResiduals :: "Env \<Rightarrow> Ledger \<Rightarrow> string set \<Rightarrow> groupResidual list" where
  "groupResiduals env l ids =
     map (\<lambda>(g, c). \<lparr>gr_groupID = g, gr_commodity = c, gr_amount = weight_sum (l_txs l) g c,
            gr_priceRounding = price_rounding env (group_txs l g),
            gr_resolvedTypes = sort (remdups (map t_Resolved (group_txs l g))),
            gr_first = hd (sort_key by_date_id (group_txs l g)),
            gr_leg = hd (sort_key by_date_id (filter (\<lambda>t. t_Commodity t = c) (group_txs l g)))\<rparr>)
       (filter (\<lambda>(g, c). weight_sum (l_txs l) g c \<noteq> 0)
          (sort (remdups (map (\<lambda>t. (t_GroupID t, t_Commodity t)) (filter (\<lambda>t. t_GroupID t \<in> ids) (l_txs l))))))"

type_synonym residualRule = "string \<Rightarrow> decimal \<Rightarrow> decimal \<Rightarrow> TxType list \<Rightarrow> AccountType"

definition wholeSource :: residualRule where
  "wholeSource commodity amount priceRounding resolved = residual_Type commodity amount priceRounding resolved"

definition legsRemoved :: residualRule where
  "legsRemoved commodity amount priceRounding resolved = SplitType resolved"

fun residual_loop :: "Env \<Rightarrow> string \<Rightarrow> residualRule \<Rightarrow> groupResidual list \<Rightarrow> Ledger \<Rightarrow> string + Ledger" where
  "residual_loop env user rule [] l = Inr l"
| "residual_loop env user rule (r # rs) l =
     (let amount = - gr_amount r; first = gr_first r; leg = gr_leg r in
      sum_then (AccountTypeToStr (rule (gr_commodity r) amount (gr_priceRounding r) (StrsToTxTypes (gr_resolvedTypes r))))
        (\<lambda>acctType.
      sum_then (leg_names env (gr_commodity r)
          (t_Description leg, t_TradingCurrency first, t_SettlementCurrency first, t_InstrumentID leg))
        (\<lambda>(desc, trading, settlement, instID).
         residual_loop env user rule rs
           (routed_leg env user first (gr_groupID r) desc trading settlement instID acctType RoutedPurpose amount (gr_commodity r) l))))"

definition routeResiduals :: "Env \<Rightarrow> string \<Rightarrow> string set \<Rightarrow> residualRule \<Rightarrow> Ledger \<Rightarrow> string + Ledger" where
  "routeResiduals env user ids rule l = residual_loop env user rule (groupResiduals env l ids) l"

definition settle :: "Env \<Rightarrow> string \<Rightarrow> string list \<Rightarrow> residualRule \<Rightarrow> Ledger \<Rightarrow> string + Ledger" where
  "settle env user groupIDs rule l =
     (if groupIDs = [] then Inr l
      else sum_then (routeBoundaries env user (set groupIDs) l) (routeResiduals env user (set groupIDs) rule))"

record settleSet =
  ss_all :: "string list"
  ss_lost :: "string set"

definition ss_empty :: settleSet where "ss_empty = \<lparr>ss_all = [], ss_lost = {}\<rparr>"

definition ss_add :: "string \<Rightarrow> bool \<Rightarrow> settleSet \<Rightarrow> settleSet" where
  "ss_add i lostLegs s =
     \<lparr>ss_all = (if i \<in> set (ss_all s) then ss_all s else ss_all s @ [i]),
      ss_lost = (if lostLegs then insert i (ss_lost s) else ss_lost s)\<rparr>"

definition ss_addAll :: "string list \<Rightarrow> bool \<Rightarrow> settleSet \<Rightarrow> settleSet" where
  "ss_addAll ids lostLegs s = fold (\<lambda>i. ss_add i lostLegs) ids s"

fun ss_split :: "Env \<Rightarrow> settleSet \<Rightarrow> string list \<Rightarrow> string + string list \<times> string list" where
  "ss_split env s [] = Inr ([], [])"
| "ss_split env s (i # is) = (case env_parse_uuid env i of
       None \<Rightarrow> Inl (''invalid group id '' @ quoted i)
     | Some u \<Rightarrow> sum_then (ss_split env s is) (\<lambda>(whole, shortened).
         Inr (if i \<in> ss_lost s then (whole, u # shortened) else (u # whole, shortened))))"

definition ss_settle :: "Env \<Rightarrow> string \<Rightarrow> settleSet \<Rightarrow> Ledger \<Rightarrow> string + Ledger" where
  "ss_settle env user s l =
     sum_then (ss_split env s (ss_all s)) (\<lambda>(whole, shortened).
     sum_then (settle env user whole wholeSource l) (settle env user shortened legsRemoved))"

subsection \<open>Applying a partition\<close>

definition order_dates :: "Ledger \<Rightarrow> string list \<Rightarrow> time list" where
  "order_dates l ids = map t_OrderDate (filter (\<lambda>t. t_ID t \<in> set ids) (l_txs l))"

text \<open>\<open>newGroupSQL\<close>: the timestamp is the earliest of the joining postings, and may not be null.\<close>

definition newGroup :: "Env \<Rightarrow> string \<Rightarrow> string list \<Rightarrow> Ledger \<Rightarrow> string + Ledger \<times> string" where
  "newGroup env user move l =
     (if order_dates l move = [] then Inl ''create group: null timestamp''
      else let g = env_new_uuid env (l_uuids l) in
        Inr (l\<lparr>l_groups := l_groups l @ [\<lparr>tg_ID = g, tg_UserID = user,
                 tg_Timestamp = Min (set (order_dates l move)), tg_JobID = None\<rparr>],
               l_uuids := l_uuids l + 1\<rparr>, g))"

definition moveGroup :: "string \<Rightarrow> string \<Rightarrow> string list \<Rightarrow> Ledger \<Rightarrow> Ledger" where
  "moveGroup g resolved ids l =
     l\<lparr>l_txs := map (\<lambda>t. if t_ID t \<in> set ids then t\<lparr>t_GroupID := g, t_Resolved := resolved\<rparr> else t) (l_txs l)\<rparr>"

definition resolveOnly :: "string \<Rightarrow> string list \<Rightarrow> Ledger \<Rightarrow> Ledger" where
  "resolveOnly resolved ids l =
     l\<lparr>l_txs := map (\<lambda>t. if t_ID t \<in> set ids then t\<lparr>t_Resolved := resolved\<rparr> else t) (l_txs l)\<rparr>"

definition dropResiduals :: "string set \<Rightarrow> Ledger \<Rightarrow> Ledger" where
  "dropResiduals ids l = l\<lparr>l_txs := filter (\<lambda>t. \<not> (t_GroupID t \<in> ids \<and> routedPurpose t)) (l_txs l)\<rparr>"

definition by_type :: "bool \<Rightarrow> GroupChange \<Rightarrow> (string \<times> string list) list" where
  "by_type moving c = mm_build (map (\<lambda>m. (gm_Resolved m, gm_ID m)) (filter (\<lambda>m. gm_Moving m = moving) (gc_Members c)))"

definition touch_from :: "GroupMemberChange \<Rightarrow> settleSet \<Rightarrow> settleSet" where
  "touch_from m touched = (if gm_FromGroupID m \<noteq> '''' then ss_add (gm_FromGroupID m) (gm_Moving m) touched else touched)"

fun change_loop ::
    "Env \<Rightarrow> string \<Rightarrow> GroupChange list \<Rightarrow> nat \<Rightarrow> settleSet \<Rightarrow> Ledger \<Rightarrow> string + Ledger \<times> settleSet \<times> nat" where
  "change_loop env user [] moved touched l = Inr (l, touched, moved)"
| "change_loop env user (c # cs) moved touched l =
     (let move = map gm_ID (filter gm_Moving (gc_Members c));
          l1 = fold (\<lambda>(resolved, ids). resolveOnly resolved ids) (by_type False c) l in
      if move = [] then change_loop env user cs moved touched l1
      else sum_then (newGroup env user move l1) (\<lambda>(l2, g).
        change_loop env user cs (moved + length move) (ss_add g False touched)
          (fold (\<lambda>(resolved, ids). moveGroup g resolved ids) (by_type True c) l2)))"

definition applyChanges ::
    "Env \<Rightarrow> string \<Rightarrow> GroupChange list \<Rightarrow> settleSet \<Rightarrow> Ledger \<Rightarrow> string + Ledger \<times> settleSet \<times> nat" where
  "applyChanges env user changes touched l =
     sum_then (change_loop env user changes 0 (fold touch_from (concat (map gc_Members changes)) touched) l)
       (\<lambda>(l1, touched', moved). let ids = set (ss_all touched') in
          Inr (deleteTouchedMatches ids (repointGroupTimestamps ids (deleteEmptiedGroups ids (dropResiduals ids l1))),
               touched', moved))"

definition ApplyGrouping :: "Env \<Rightarrow> string \<Rightarrow> GroupChange list \<Rightarrow> Ledger \<Rightarrow> string + Ledger \<times> nat" where
  "ApplyGrouping env userID changes l =
     (case env_parse_uuid env userID of
        None \<Rightarrow> Inl ''invalid user id''
      | Some user \<Rightarrow>
          if changes = [] then Inr (l, 0)
          else sum_then (applyChanges env user changes ss_empty l) (\<lambda>(l1, touched, moved).
            sum_then (ss_settle env user touched l1) (\<lambda>l2. Inr (l2, moved))))"

subsection \<open>Grouping what a write put down\<close>

definition job_of :: "Ledger \<Rightarrow> string \<Rightarrow> string" where
  "job_of l g = (case map_of (map (\<lambda>tg. (tg_ID tg, tg_JobID tg)) (l_groups l)) g of
       Some (Some j) \<Rightarrow> j | _ \<Rightarrow> '''')"

definition toDomain :: "Ledger \<Rightarrow> Posting \<Rightarrow> GroupingPosting" where
  "toDomain l t =
     \<lparr>p_ID = t_ID t, p_UserID = t_UserID t, p_Broker = StrToBroker (t_Broker t), p_Account = t_Account t,
      p_OrderDate = t_OrderDate t, p_InstrumentID = (case t_InstrumentID t of None \<Rightarrow> '''' | Some i \<Rightarrow> i),
      p_Quantity = t_Quantity t, p_UnitPrice = t_UnitPrice t, p_SettlementAmount = t_SettlementAmount t,
      p_Declared = StrsToTxTypes (t_BrokerTxTypes t), p_JobID = job_of l (t_GroupID t), p_GroupID = t_GroupID t,
      p_Resolved = t_Resolved t, p_Correlations = map (\<lambda>c. c\<lparr>c_JobID := ''''\<rparr>) (t_Correlations t)\<rparr>"

definition transcribedPostings :: "Ledger \<Rightarrow> string \<Rightarrow> Posting list" where
  "transcribedPostings l user = filter (\<lambda>t. t_UserID t = user \<and> t_Purpose t = None
     \<and> list_ex (\<lambda>g. tg_ID g = t_GroupID t) (l_groups l)
     \<and> \<not> list_ex (\<lambda>s. t_GroupID s = t_GroupID t \<and> t_Purpose s = Some InitializePurpose) (l_txs l)) (l_txs l)"

definition grouping_rows :: "Ledger \<Rightarrow> string \<Rightarrow> GroupingPosting list" where
  "grouping_rows l user = map (toDomain l) (sort_key t_ID (transcribedPostings l user))"

definition groupingPostingsByID :: "Ledger \<Rightarrow> string \<Rightarrow> string list \<Rightarrow> GroupingPosting list" where
  "groupingPostingsByID l user ids = filter (\<lambda>p. p_ID p \<in> set ids) (grouping_rows l user)"

type_synonym settler = "string \<Rightarrow> GroupingPosting list \<Rightarrow> GroupingReader \<Rightarrow> (string + GroupChange list) option"

definition ledger_reader :: "Env \<Rightarrow> Ledger \<Rightarrow> GroupingReader" where
  "ledger_reader env l = postgres_reader (\<lambda>u. env_parse_uuid env u \<noteq> None) (grouping_rows l)"

definition groupWritten ::
    "Env \<Rightarrow> settler option \<Rightarrow> string \<Rightarrow> string list \<Rightarrow> settleSet \<Rightarrow> Ledger \<Rightarrow> (string + Ledger \<times> settleSet) option" where
  "groupWritten env settler user postingIDs touched l =
     (case settler of
        None \<Rightarrow> Some (Inr (l, touched))
      | Some f \<Rightarrow>
          let seed = groupingPostingsByID l user postingIDs in
          if postingIDs = [] \<or> seed = [] then Some (Inr (l, touched))
          else case f user seed (ledger_reader env l) of
              None \<Rightarrow> None
            | Some (Inl err) \<Rightarrow> Some (Inl (''derive groups: '' @ err))
            | Some (Inr changes) \<Rightarrow>
                if changes = [] then Some (Inr (l, touched))
                else Some (sum_then (applyChanges env user changes touched l) (\<lambda>(l1, touched1, moved). Inr (l1, touched1))))"

subsection \<open>The transactions of an ingest\<close>

definition ReplaceTxsInPeriod ::
    "Env \<Rightarrow> settler option \<Rightarrow> string \<Rightarrow> string \<Rightarrow> string \<Rightarrow> time option \<Rightarrow> time option \<Rightarrow> Tx list \<Rightarrow> string list \<Rightarrow> Weight list
     \<Rightarrow> time option list \<Rightarrow> Ledger \<Rightarrow> (string + Ledger) option" where
  "ReplaceTxsInPeriod env settler userID broker jobID periodFrom periodBefore txs ids ws bs l =
     run_then (Some (of_option ''invalid user id'' (env_parse_uuid env userID))) (\<lambda>user.
     run_then (Some (with_error ''invalid job id: '' (parseNullUUID env jobID))) (\<lambda>job.
     if length ids \<noteq> length txs then Some (Inl ''instrumentIDs length != txs length'')
     else run_then (Some (of_option ''period_from: invalid timestamp'' periodFrom)) (\<lambda>fromT.
     run_then (Some (of_option ''period_before: invalid timestamp'' periodBefore)) (\<lambda>beforeT.
     let (l1, cut) = clearPeriod user broker fromT beforeT l in
     run_then (insertPostings env user broker job txs ids ws bs '''' l1) (\<lambda>(l2, w).
     run_then (groupWritten env settler user (wr_postings w)
         (ss_addAll (wr_groups w) False (ss_addAll cut True ss_empty)) l2) (\<lambda>(l3, touched).
     Some (ss_settle env user touched l3)))))))"

definition CreateTxGroup ::
    "Env \<Rightarrow> settler option \<Rightarrow> string \<Rightarrow> string \<Rightarrow> string \<Rightarrow> string \<Rightarrow> Tx list \<Rightarrow> string list \<Rightarrow> Weight list
     \<Rightarrow> time option list \<Rightarrow> Ledger \<Rightarrow> (string + Ledger) option" where
  "CreateTxGroup env settler userID broker account jobID txs ids ws bs l =
     run_then (Some (of_option ''invalid user id'' (env_parse_uuid env userID))) (\<lambda>user.
     run_then (Some (with_error ''invalid job id: '' (parseNullUUID env jobID))) (\<lambda>job.
     run_then (insertPostings env user broker job txs ids ws bs account l) (\<lambda>(l1, w).
     run_then (groupWritten env settler user (wr_postings w) (ss_addAll (wr_groups w) False ss_empty) l1) (\<lambda>(l2, touched).
     Some (ss_settle env user touched l2)))))"

end
