(* ===== verification/Ledger_Invariant.thy ===== *)
theory Ledger_Invariant
  imports Ledger
begin

text \<open>
  The invariant of the stored ledger and its preservation by every transaction: ids are unique and
  handed out by the store, every posting sits in a group of its own user and every group holds a
  posting and is dated by its earliest, every group sums to zero in every commodity, and holds at
  most one routed residual per commodity.

  Within a transaction the invariant is relative to the set of groups touched so far: \<open>mid\<close> is what
  holds between two statements, \<open>ready\<close> what holds when the groups touched can be settled.
\<close>

subsection \<open>The invariant\<close>

definition env_ok :: "Env \<Rightarrow> bool" where
  "env_ok env \<longleftrightarrow> inj (env_new_uuid env) \<and> env_parse_uuid env '''' = None
     \<and> (\<forall>n. env_parse_uuid env (env_new_uuid env n) = Some (env_new_uuid env n))
     \<and> (\<forall>s u. env_parse_uuid env s = Some u \<longrightarrow> env_parse_uuid env u = Some u)"

abbreviation issued :: "Env \<Rightarrow> Ledger \<Rightarrow> string set" where
  "issued env l \<equiv> env_new_uuid env ` {..<l_uuids l}"

definition wf_ledger :: "Env \<Rightarrow> Ledger \<Rightarrow> bool" where
  "wf_ledger env l \<longleftrightarrow> distinct (map t_ID (l_txs l)) \<and> distinct (map tg_ID (l_groups l))
     \<and> t_ID ` set (l_txs l) \<subseteq> issued env l \<and> tg_ID ` set (l_groups l) \<subseteq> issued env l
     \<and> (\<forall>t \<in> set (l_txs l). \<exists>g \<in> set (l_groups l). tg_ID g = t_GroupID t \<and> tg_UserID g = t_UserID t)
     \<and> (\<forall>m \<in> set (l_matches l). tm_FromGroupID m \<in> tg_ID ` set (l_groups l) \<and> tm_ToGroupID m \<in> tg_ID ` set (l_groups l))"

definition dated_off :: "string set \<Rightarrow> Ledger \<Rightarrow> bool" where
  "dated_off S l \<longleftrightarrow> (\<forall>g \<in> set (l_groups l). tg_ID g \<notin> S \<longrightarrow> group_txs l (tg_ID g) \<noteq> []
     \<and> tg_Timestamp g = Min (set (map t_OrderDate (group_txs l (tg_ID g)))))"

definition balanced_off :: "string set \<Rightarrow> Ledger \<Rightarrow> bool" where
  "balanced_off S l \<longleftrightarrow> (\<forall>g c. g \<notin> S \<longrightarrow> weight_sum (l_txs l) g c = 0)"

abbreviation residuals_in :: "Posting list \<Rightarrow> string \<Rightarrow> string \<Rightarrow> Posting list" where
  "residuals_in ts g c \<equiv> filter (\<lambda>t. t_GroupID t = g \<and> t_Commodity t = c \<and> t_Purpose t = Some RoutedPurpose) ts"

definition single_off :: "string set \<Rightarrow> Ledger \<Rightarrow> bool" where
  "single_off S l \<longleftrightarrow> (\<forall>g c. g \<notin> S \<longrightarrow> length (residuals_in (l_txs l) g c) \<le> 1)"

definition owned :: "string \<Rightarrow> string set \<Rightarrow> Ledger \<Rightarrow> bool" where
  "owned user S l \<longleftrightarrow> (\<forall>g \<in> set (l_groups l). tg_ID g \<in> S \<longrightarrow> tg_UserID g = user)"

definition cleared :: "string set \<Rightarrow> Ledger \<Rightarrow> bool" where
  "cleared S l \<longleftrightarrow> (\<forall>t \<in> set (l_txs l). t_GroupID t \<in> S \<longrightarrow> \<not> routedPurpose t)"

definition ledger_ok :: "Env \<Rightarrow> Ledger \<Rightarrow> bool" where
  "ledger_ok env l \<longleftrightarrow> wf_ledger env l \<and> dated_off {} l \<and> balanced_off {} l \<and> single_off {} l"

definition mid :: "Env \<Rightarrow> string \<Rightarrow> string set \<Rightarrow> Ledger \<Rightarrow> bool" where
  "mid env user S l \<longleftrightarrow> wf_ledger env l \<and> dated_off S l \<and> balanced_off S l \<and> single_off S l \<and> owned user S l
     \<and> S \<subseteq> issued env l"

definition ready :: "Env \<Rightarrow> string \<Rightarrow> string set \<Rightarrow> Ledger \<Rightarrow> bool" where
  "ready env user S l \<longleftrightarrow> mid env user S l \<and> dated_off {} l \<and> cleared S l"

lemma mid_start: "ledger_ok env l \<Longrightarrow> ready env user {} l"
  by (simp add: ledger_ok_def ready_def mid_def owned_def cleared_def)

lemma ready_end: "ready env user {} l \<Longrightarrow> ledger_ok env l"
  by (simp add: ledger_ok_def ready_def mid_def)

subsection \<open>Sums over a group\<close>

lemma list_all2_in: "list_all2 P xs ys \<Longrightarrow> y \<in> set ys \<Longrightarrow> \<exists>x \<in> set xs. P x y"
  by (induction rule: list_all2_induct) auto

lemma weight_sum_simps [simp]:
  "weight_sum [] g c = 0"
  "weight_sum (t # ts) g c = (if t_GroupID t = g \<and> t_Commodity t = c then t_Weight t else 0) + weight_sum ts g c"
  "weight_sum (ts @ us) g c = weight_sum ts g c + weight_sum us g c"
  by (simp_all add: weight_sum_def)

lemma weight_sum_none: "(\<And>t. t \<in> set ts \<Longrightarrow> t_GroupID t \<noteq> g) \<Longrightarrow> weight_sum ts g c = 0"
  by (induction ts) auto

lemma weight_sum_group: "filter (\<lambda>t. t_GroupID t = g) ts = filter (\<lambda>t. t_GroupID t = g) us \<Longrightarrow> weight_sum ts g c = weight_sum us g c"
proof -
  assume eq: "filter (\<lambda>t. t_GroupID t = g) ts = filter (\<lambda>t. t_GroupID t = g) us"
  have *: "weight_sum vs g c = weight_sum (filter (\<lambda>t. t_GroupID t = g) vs) g c" for vs by (induction vs) auto
  show ?thesis unfolding * [of ts] * [of us] eq ..
qed

lemma residuals_group: "filter (\<lambda>t. t_GroupID t = g) ts = filter (\<lambda>t. t_GroupID t = g) us \<Longrightarrow> residuals_in ts g c = residuals_in us g c"
proof -
  assume eq: "filter (\<lambda>t. t_GroupID t = g) ts = filter (\<lambda>t. t_GroupID t = g) us"
  have *: "residuals_in vs g c = residuals_in (filter (\<lambda>t. t_GroupID t = g) vs) g c" for vs by (induction vs) auto
  show ?thesis by (subst (1 2) *) (simp only: eq)
qed

text \<open>Groups outside a set keep their standing when their postings do.\<close>

lemma off_cong:
  assumes "\<And>g. g \<notin> S \<Longrightarrow> group_txs l' g = group_txs l g"
  shows "balanced_off S l \<Longrightarrow> balanced_off S l'" and "single_off S l \<Longrightarrow> single_off S l'"
    and "dated_off S l \<Longrightarrow> l_groups l' = l_groups l \<Longrightarrow> dated_off S l'"
proof -
  have *: "weight_sum (l_txs l') g c = weight_sum (l_txs l) g c \<and> residuals_in (l_txs l') g c = residuals_in (l_txs l) g c"
    if "g \<notin> S" for g c
    using weight_sum_group residuals_group assms [OF that] unfolding group_txs_def by blast
  show "balanced_off S l \<Longrightarrow> balanced_off S l'" "single_off S l \<Longrightarrow> single_off S l'"
    using * by (simp_all add: balanced_off_def single_off_def)
  show "dated_off S l \<Longrightarrow> l_groups l' = l_groups l \<Longrightarrow> dated_off S l'"
    using assms by (simp add: dated_off_def)
qed

lemma off_mono:
  "S \<subseteq> T \<Longrightarrow> balanced_off S l \<Longrightarrow> balanced_off T l"
  "S \<subseteq> T \<Longrightarrow> single_off S l \<Longrightarrow> single_off T l"
  "S \<subseteq> T \<Longrightarrow> dated_off S l \<Longrightarrow> dated_off T l"
  by (auto simp: balanced_off_def single_off_def dated_off_def)

subsection \<open>Settling\<close>

text \<open>What a router does to the ledger: it appends legs under fresh ids, in groups that have one already.\<close>

definition appends :: "Env \<Rightarrow> string \<Rightarrow> Posting list \<Rightarrow> Ledger \<Rightarrow> Ledger \<Rightarrow> bool" where
  "appends env user rows l l' \<longleftrightarrow>
     l' = l\<lparr>l_txs := l_txs l @ rows, l_uuids := l_uuids l + length rows\<rparr>
     \<and> map t_ID rows = map (env_new_uuid env) [l_uuids l ..< l_uuids l + length rows]
     \<and> (\<forall>r \<in> set rows. t_UserID r = user)"

lemma appends_Nil [simp]: "appends env user [] l l' \<longleftrightarrow> l' = l"
  by (auto simp: appends_def)

lemma appends_leg:
  assumes "appends env user rows (routed_leg env user t g desc tr st i ac p amount c l) l'"
  shows "\<exists>row. appends env user (row # rows) l l' \<and> t_GroupID row = g \<and> t_Commodity row = c \<and> t_Weight row = amount
    \<and> t_Purpose row = Some p \<and> t_OrderDate row = t_OrderDate t"
proof -
  let ?row = "last (l_txs (routed_leg env user t g desc tr st i ac p amount c l))"
  have "appends env user (?row # rows) l l'"
    using assms by (simp add: appends_def routed_leg_def upt_rec)
  then show ?thesis by (intro exI [of _ ?row]) (simp add: routed_leg_def)
qed

lemma sum_then_Inr: "sum_then m f = Inr y \<longleftrightarrow> (\<exists>x. m = Inr x \<and> f x = Inr y)"
  by (cases m) (auto simp: sum_then_def)

lemma run_then_Inr: "run_then m f = Some (Inr y) \<longleftrightarrow> (\<exists>x. m = Some (Inr x) \<and> f x = Some (Inr y))"
  by (auto simp: run_then_def split: option.splits sum.splits)

lemmas thens = sum_then_Inr run_then_Inr

lemma boundary_loop_appends:
  "boundary_loop env user cs l = Inr l' \<Longrightarrow> \<exists>rows. appends env user rows l l'
     \<and> (\<forall>r \<in> set rows. t_Purpose r = Some BoundaryPurpose
          \<and> (\<exists>c \<in> set cs. t_GroupID r = t_GroupID c \<and> t_OrderDate r = t_OrderDate c))"
proof (induction cs arbitrary: l)
  case (Cons c cs)
  show ?case
  proof (cases "snd (Boundary (StrToTxType (t_Resolved c)))")
    case False
    then have "boundary_loop env user cs l = Inr l'" using Cons.prems by (simp add: split_beta)
    from Cons.IH [OF this] show ?thesis by fastforce
  next
    case True
    then obtain desc tr st i ac where "boundary_loop env user cs
        (routed_leg env user c (t_GroupID c) desc tr st i ac BoundaryPurpose (- t_Weight c) (t_Commodity c) l) = Inr l'"
      using Cons.prems by (auto simp: split_beta sum_then_Inr)
    from Cons.IH [OF this] obtain rows where rows: "appends env user rows
        (routed_leg env user c (t_GroupID c) desc tr st i ac BoundaryPurpose (- t_Weight c) (t_Commodity c) l) l'"
      "\<forall>r \<in> set rows. t_Purpose r = Some BoundaryPurpose
          \<and> (\<exists>c \<in> set cs. t_GroupID r = t_GroupID c \<and> t_OrderDate r = t_OrderDate c)" by blast
    from appends_leg [OF rows(1)] obtain row where "appends env user (row # rows) l l'" "t_GroupID row = t_GroupID c"
      "t_Purpose row = Some BoundaryPurpose" "t_OrderDate row = t_OrderDate c" by blast
    with rows(2) show ?thesis by (intro exI [of _ "row # rows"]) auto
  qed
qed simp

abbreviation settles :: "groupResidual \<Rightarrow> Posting \<Rightarrow> bool" where
  "settles r row \<equiv> t_GroupID row = gr_groupID r \<and> t_Commodity row = gr_commodity r \<and> t_Weight row = - gr_amount r
     \<and> t_Purpose row = Some RoutedPurpose \<and> t_OrderDate row = t_OrderDate (gr_first r)"

lemma residual_loop_appends:
  "residual_loop env user rule rs l = Inr l' \<Longrightarrow> \<exists>rows. appends env user rows l l' \<and> list_all2 settles rs rows"
proof (induction rs arbitrary: l)
  case (Cons r rs)
  then obtain desc tr st i ac where "residual_loop env user rule rs
      (routed_leg env user (gr_first r) (gr_groupID r) desc tr st i ac RoutedPurpose (- gr_amount r) (gr_commodity r) l) = Inr l'"
    by (auto simp: Let_def sum_then_Inr)
  from Cons.IH [OF this] obtain rows where rows: "list_all2 settles rs rows" "appends env user rows
      (routed_leg env user (gr_first r) (gr_groupID r) desc tr st i ac RoutedPurpose (- gr_amount r) (gr_commodity r) l) l'"
    by blast
  from appends_leg [OF rows(2)] obtain row where "appends env user (row # rows) l l'" "settles r row" by blast
  with rows(1) show ?case by (intro exI [of _ "row # rows"]) simp
qed simp

text \<open>A leg appended to a group that holds a posting of its date, by the group's own user.\<close>

definition joins :: "string set \<Rightarrow> Ledger \<Rightarrow> Posting \<Rightarrow> bool" where
  "joins S l r \<longleftrightarrow> t_GroupID r \<in> S \<and> (\<exists>t \<in> set (l_txs l). t_GroupID t = t_GroupID r \<and> t_OrderDate t = t_OrderDate r)"

lemma issued_mono: "l_uuids l \<le> l_uuids l' \<Longrightarrow> issued env l \<subseteq> issued env l'"
  by (intro image_mono) auto

lemma appends_ids:
  assumes "appends env user rows l l'" "inj (env_new_uuid env)"
  shows "distinct (map t_ID rows)" "t_ID ` set rows \<subseteq> issued env l'" "t_ID ` set rows \<inter> issued env l = {}"
proof -
  have ids: "map t_ID rows = map (env_new_uuid env) [l_uuids l ..< l_uuids l + length rows]"
    and n: "l_uuids l' = l_uuids l + length rows" using assms(1) by (simp_all add: appends_def)
  show "distinct (map t_ID rows)" unfolding ids using assms(2) by (simp add: distinct_map) (meson inj_on_subset subset_UNIV)
  have set_ids: "t_ID ` set rows = env_new_uuid env ` {l_uuids l ..< l_uuids l + length rows}"
    using ids by (metis list.set_map set_upt)
  show "t_ID ` set rows \<subseteq> issued env l'" unfolding set_ids n by (intro image_mono) auto
  show "t_ID ` set rows \<inter> issued env l = {}"
    unfolding set_ids using assms(2) by (auto dest: injD)
qed

lemma appends_wf:
  assumes app: "appends env user rows l l'" and env: "env_ok env" and wf: "wf_ledger env l"
    and own: "owned user S l" and joins: "\<forall>r \<in> set rows. joins S l r"
  shows "wf_ledger env l'"
proof -
  have l': "l_txs l' = l_txs l @ rows" "l_groups l' = l_groups l" "l_matches l' = l_matches l" "l_uuids l \<le> l_uuids l'"
    and user: "\<forall>r \<in> set rows. t_UserID r = user"
    using app by (simp_all add: appends_def)
  have inj: "inj (env_new_uuid env)" using env by (simp add: env_ok_def)
  note ids = appends_ids [OF app inj] and mono = issued_mono [OF l'(4), of env]
  have wfs: "distinct (map t_ID (l_txs l))" "distinct (map tg_ID (l_groups l))" "t_ID ` set (l_txs l) \<subseteq> issued env l"
    "tg_ID ` set (l_groups l) \<subseteq> issued env l"
    "\<forall>t \<in> set (l_txs l). \<exists>g \<in> set (l_groups l). tg_ID g = t_GroupID t \<and> tg_UserID g = t_UserID t"
    using wf by (simp_all add: wf_ledger_def)
  have "\<exists>g \<in> set (l_groups l). tg_ID g = t_GroupID r \<and> tg_UserID g = t_UserID r" if r: "r \<in> set rows" for r
  proof -
    obtain t where "t \<in> set (l_txs l)" "t_GroupID t = t_GroupID r" "t_GroupID r \<in> S"
      using joins r unfolding joins_def by blast
    with wfs(5) own user r show ?thesis by (metis owned_def)
  qed
  moreover have "t_ID ` set (l_txs l @ rows) \<subseteq> issued env l'" using subset_trans [OF wfs(3) mono] ids(2) by (simp add: image_Un)
  moreover have "distinct (map t_ID (l_txs l @ rows))" using wfs(1,3) ids(1,3) by auto
  moreover have "tg_ID ` set (l_groups l) \<subseteq> issued env l'" using wfs(4) mono by (rule subset_trans)
  moreover have "\<forall>m \<in> set (l_matches l). tm_FromGroupID m \<in> tg_ID ` set (l_groups l) \<and> tm_ToGroupID m \<in> tg_ID ` set (l_groups l)"
    using wf by (simp add: wf_ledger_def)
  ultimately show ?thesis using wfs(2,5) unfolding wf_ledger_def l' by (simp add: ball_Un)
qed

lemma appends_dated:
  assumes app: "appends env user rows l l'" and dated: "dated_off T l" and joins: "\<forall>r \<in> set rows. joins S l r"
  shows "dated_off T l'"
proof -
  have l': "l_txs l' = l_txs l @ rows" "l_groups l' = l_groups l" using app by (simp_all add: appends_def)
  have "t_OrderDate ` set (group_txs l' g) = t_OrderDate ` set (group_txs l g)" for g
  proof -
    have "t_OrderDate r \<in> t_OrderDate ` set (group_txs l g)" if r: "r \<in> set rows" "t_GroupID r = g" for r
    proof -
      obtain t where "t \<in> set (l_txs l)" "t_GroupID t = g" "t_OrderDate t = t_OrderDate r"
        using joins r unfolding joins_def by blast
      then show ?thesis by (intro image_eqI [of _ _ t]) (simp_all add: group_txs_def)
    qed
    then show ?thesis unfolding group_txs_def l'(1) by auto
  qed
  moreover have "group_txs l' g \<noteq> []" if "group_txs l g \<noteq> []" for g using that l'(1) by (simp add: group_txs_def)
  ultimately show ?thesis using dated l'(2) by (simp add: dated_off_def)
qed

lemma appends_off:
  assumes "appends env user rows l l'" and "\<forall>r \<in> set rows. joins S l r" and "g \<notin> S"
  shows "group_txs l' g = group_txs l g"
  using assms by (auto simp: appends_def group_txs_def joins_def filter_empty_conv)

lemma appends_mid:
  assumes app: "appends env user rows l l'" and env: "env_ok env" and mid: "mid env user S l"
    and joins: "\<forall>r \<in> set rows. joins S l r"
  shows "mid env user S l'"
proof -
  have "l_groups l' = l_groups l" "l_uuids l \<le> l_uuids l'" using app by (simp_all add: appends_def)
  then have "owned user S l'" "S \<subseteq> issued env l'"
    using mid issued_mono [of l l' env] by (auto simp: mid_def owned_def)
  moreover have "wf_ledger env l'" "dated_off S l'" "balanced_off S l'" "single_off S l'"
    using mid appends_wf [OF app env _ _ joins] appends_dated [OF app _ joins] off_cong(1,2) [OF appends_off [OF app joins]]
    by (simp_all add: mid_def)
  ultimately show ?thesis by (simp add: mid_def)
qed

lemma boundaries_mid:
  assumes "routeBoundaries env user ids l = Inr l'" and env: "env_ok env" and ready: "ready env user S l" and sub: "ids \<subseteq> S"
  shows "mid env user S l'" "dated_off {} l'" "single_off S l' \<and> (\<forall>g c. g \<in> S \<longrightarrow> residuals_in (l_txs l') g c = residuals_in (l_txs l) g c)"
    "\<forall>g. g \<notin> ids \<longrightarrow> group_txs l' g = group_txs l g"
proof -
  obtain rows where app: "appends env user rows l l'"
    and rows: "\<forall>r \<in> set rows. t_Purpose r = Some BoundaryPurpose
       \<and> (\<exists>c \<in> set (boundaryCandidates l ids). t_GroupID r = t_GroupID c \<and> t_OrderDate r = t_OrderDate c)"
    using boundary_loop_appends assms(1) unfolding routeBoundaries_def by blast
  have cands: "c \<in> set (l_txs l) \<and> t_GroupID c \<in> ids" if "c \<in> set (boundaryCandidates l ids)" for c
    using that by (simp add: boundaryCandidates_def)
  have joins: "\<forall>r \<in> set rows. joins ids l r"
  proof
    fix r assume "r \<in> set rows"
    then obtain c where c: "c \<in> set (boundaryCandidates l ids)" "t_GroupID r = t_GroupID c" "t_OrderDate r = t_OrderDate c"
      using rows by blast
    with cands [OF c(1)] show "joins ids l r" unfolding joins_def by auto
  qed
  then have joinsS: "\<forall>r \<in> set rows. joins S l r" using sub unfolding joins_def by blast
  have mid: "mid env user S l" and dated: "dated_off {} l" using ready by (simp_all add: ready_def)
  show "mid env user S l'" by (rule appends_mid [OF app env mid joinsS])
  then have "single_off S l'" by (simp add: mid_def)
  moreover have "residuals_in rows g c = []" for g c
    using rows by (auto simp: filter_empty_conv RoutedPurpose_def BoundaryPurpose_def)
  then have "residuals_in (l_txs l') g c = residuals_in (l_txs l) g c" for g c
    using app by (simp add: appends_def)
  ultimately show "single_off S l' \<and> (\<forall>g c. g \<in> S \<longrightarrow> residuals_in (l_txs l') g c = residuals_in (l_txs l) g c)" by simp
  show "dated_off {} l'" by (rule appends_dated [OF app dated joins])
  show "\<forall>g. g \<notin> ids \<longrightarrow> group_txs l' g = group_txs l g" using appends_off [OF app joins] by blast
qed

text \<open>The residuals found are one per group and commodity, and each is the sum it has to cancel.\<close>

lemma groupResiduals_props:
  assumes "r \<in> set (groupResiduals env l ids)"
  shows "gr_groupID r \<in> ids" "gr_amount r = weight_sum (l_txs l) (gr_groupID r) (gr_commodity r)"
    "gr_first r \<in> set (l_txs l)" "t_GroupID (gr_first r) = gr_groupID r"
proof -
  obtain t g c where t: "t \<in> set (l_txs l)" "t_GroupID t = g" "g \<in> ids"
    and r: "gr_groupID r = g" "gr_commodity r = c" "gr_amount r = weight_sum (l_txs l) g c"
      "gr_first r = hd (sort_key by_date_id (group_txs l g))"
    using assms by (auto simp: groupResiduals_def)
  then show "gr_groupID r \<in> ids" "gr_amount r = weight_sum (l_txs l) (gr_groupID r) (gr_commodity r)" using r by simp_all
  have "set (sort_key by_date_id (group_txs l g)) \<noteq> {}" using t by (auto simp: group_txs_def)
  then have "hd (sort_key by_date_id (group_txs l g)) \<in> set (group_txs l g)" by (metis list.set_sel(1) set_empty set_sort)
  then show "gr_first r \<in> set (l_txs l)" "t_GroupID (gr_first r) = gr_groupID r" using r by (simp_all add: group_txs_def)
qed

lemma groupResiduals_keys:
  "distinct (map (\<lambda>r. (gr_groupID r, gr_commodity r)) (groupResiduals env l ids))"
  "(\<exists>r \<in> set (groupResiduals env l ids). gr_groupID r = g \<and> gr_commodity r = c) \<longleftrightarrow> g \<in> ids \<and> weight_sum (l_txs l) g c \<noteq> 0"
proof -
  let ?ps = "filter (\<lambda>(g, c). weight_sum (l_txs l) g c \<noteq> 0)
     (sort (remdups (map (\<lambda>t. (t_GroupID t, t_Commodity t)) (filter (\<lambda>t. t_GroupID t \<in> ids) (l_txs l)))))"
  have keys: "map (\<lambda>r. (gr_groupID r, gr_commodity r)) (groupResiduals env l ids) = ?ps"
    by (simp add: groupResiduals_def o_def split_beta)
  then show "distinct (map (\<lambda>r. (gr_groupID r, gr_commodity r)) (groupResiduals env l ids))" by (simp only:) simp
  have "(\<exists>r \<in> set (groupResiduals env l ids). gr_groupID r = g \<and> gr_commodity r = c)
      \<longleftrightarrow> (g, c) \<in> set (map (\<lambda>r. (gr_groupID r, gr_commodity r)) (groupResiduals env l ids))" by force
  also have "\<dots> \<longleftrightarrow> weight_sum (l_txs l) g c \<noteq> 0 \<and> (\<exists>t \<in> set (l_txs l). t_GroupID t \<in> ids \<and> t_GroupID t = g \<and> t_Commodity t = c)"
    unfolding keys by auto
  also have "\<dots> \<longleftrightarrow> g \<in> ids \<and> weight_sum (l_txs l) g c \<noteq> 0"
  proof -
    have "weight_sum (l_txs l) g c = 0" if "\<not> (\<exists>t \<in> set (l_txs l). t_GroupID t = g \<and> t_Commodity t = c)"
      using that by (induction "l_txs l") (auto simp: weight_sum_def filter_empty_conv)
    then show ?thesis by auto
  qed
  finally show "(\<exists>r \<in> set (groupResiduals env l ids). gr_groupID r = g \<and> gr_commodity r = c) \<longleftrightarrow> g \<in> ids \<and> weight_sum (l_txs l) g c \<noteq> 0" .
qed

abbreviation keyed :: "string \<Rightarrow> string \<Rightarrow> groupResidual \<Rightarrow> bool" where
  "keyed g c r \<equiv> gr_groupID r = g \<and> gr_commodity r = c"

lemma settles_none:
  "list_all2 settles rs rows \<Longrightarrow> \<forall>r \<in> set rs. \<not> keyed g c r \<Longrightarrow> weight_sum rows g c = 0 \<and> residuals_in rows g c = []"
  by (induction rule: list_all2_induct) auto

lemma settles_one:
  "list_all2 settles rs rows \<Longrightarrow> distinct (map (\<lambda>r. (gr_groupID r, gr_commodity r)) rs) \<Longrightarrow> r \<in> set rs \<Longrightarrow> keyed g c r
   \<Longrightarrow> weight_sum rows g c = - gr_amount r \<and> length (residuals_in rows g c) \<le> 1"
proof (induction rule: list_all2_induct)
  case (Cons r' rs row rows)
  show ?case
  proof (cases "keyed g c r'")
    case True
    then have "(g, c) \<notin> (\<lambda>r. (gr_groupID r, gr_commodity r)) ` set rs" using Cons.prems(1) by auto
    then have "\<forall>s \<in> set rs. \<not> keyed g c s" by (auto simp: image_def)
    moreover have "r = r'" using calculation Cons.prems(2,3) by auto
    ultimately show ?thesis using settles_none [OF Cons.hyps(2)] Cons.hyps(1) True by simp
  next
    case False
    then show ?thesis using Cons by auto
  qed
qed simp

lemma residuals_ready:
  assumes "routeResiduals env user ids rule l = Inr l'" and env: "env_ok env" and mid: "mid env user S l"
    and dated: "dated_off {} l" and sub: "ids \<subseteq> S" and none: "\<forall>g c. g \<in> ids \<longrightarrow> residuals_in (l_txs l) g c = []"
  shows "mid env user (S - ids) l' \<and> dated_off {} l' \<and> (\<forall>g. g \<notin> ids \<longrightarrow> group_txs l' g = group_txs l g)"
proof -
  obtain rows where app: "appends env user rows l l'" and rows: "list_all2 settles (groupResiduals env l ids) rows"
    using residual_loop_appends assms(1) unfolding routeResiduals_def by blast
  have joins: "\<forall>r \<in> set rows. joins ids l r"
  proof
    fix row assume "row \<in> set rows"
    then obtain r where r: "r \<in> set (groupResiduals env l ids)" "settles r row" using list_all2_in [OF rows] by blast
    with groupResiduals_props [OF r(1)] show "joins ids l row" unfolding joins_def by auto
  qed
  then have joinsS: "\<forall>r \<in> set rows. joins S l r" using sub unfolding joins_def by blast
  have mid': "mid env user S l'" by (rule appends_mid [OF app env mid joinsS])
  have dated': "dated_off {} l'" by (rule appends_dated [OF app dated joins])
  have txs: "l_txs l' = l_txs l @ rows" using app by (simp add: appends_def)
  have here: "weight_sum (l_txs l') g c = 0 \<and> length (residuals_in (l_txs l') g c) \<le> 1" if "g \<in> ids" for g c
  proof (cases "\<exists>r \<in> set (groupResiduals env l ids). keyed g c r")
    case True
    then obtain r where r: "r \<in> set (groupResiduals env l ids)" "keyed g c r" by blast
    show ?thesis using settles_one [OF rows groupResiduals_keys(1) r] groupResiduals_props(2) [OF r(1)] r(2) none that
      by (simp add: txs)
  next
    case False
    then have "weight_sum (l_txs l) g c = 0" using groupResiduals_keys(2) that by blast
    then show ?thesis using settles_none [OF rows] False none that by (simp add: txs)
  qed
  have "balanced_off (S - ids) l'" "single_off (S - ids) l'"
    using here mid' unfolding balanced_off_def single_off_def mid_def by blast+
  moreover have "dated_off (S - ids) l'" by (rule off_mono(3) [OF _ dated']) simp
  ultimately have "mid env user (S - ids) l'" using mid' by (auto simp: mid_def owned_def)
  with dated' appends_off [OF app joins] show ?thesis by blast
qed

lemma settle_ready:
  assumes "settle env user ids rule l = Inr l'" and env: "env_ok env" and ready: "ready env user S l" and sub: "set ids \<subseteq> S"
  shows "ready env user (S - set ids) l'"
proof (cases "ids = []")
  case True
  then show ?thesis using assms by (simp add: settle_def)
next
  case False
  then obtain l1 where l1: "routeBoundaries env user (set ids) l = Inr l1" "routeResiduals env user (set ids) rule l1 = Inr l'"
    using assms(1) by (auto simp: settle_def sum_then_Inr)
  note b = boundaries_mid [OF l1(1) env ready sub]
  have "residuals_in (l_txs l) g c = []" if "g \<in> S" for g c
    using ready that by (auto simp: ready_def cleared_def routedPurpose_def filter_empty_conv)
  moreover have "residuals_in (l_txs l1) g c = residuals_in (l_txs l) g c" if "g \<in> S" for g c
    by (rule conjunct2 [OF b(3), rule_format, OF that])
  ultimately have "\<forall>g c. g \<in> set ids \<longrightarrow> residuals_in (l_txs l1) g c = []"
    using subsetD [OF sub] by simp
  from residuals_ready [OF l1(2) env b(1,2) sub this]
  have r: "mid env user (S - set ids) l'" "dated_off {} l'" "\<forall>g. g \<notin> set ids \<longrightarrow> group_txs l' g = group_txs l1 g" by blast+
  have "cleared (S - set ids) l'"
  proof -
    have "t \<in> set (l_txs l)" if "t \<in> set (l_txs l')" "t_GroupID t \<in> S - set ids" for t
    proof -
      have "t \<in> set (group_txs l' (t_GroupID t))" using that by (simp add: group_txs_def)
      then have "t \<in> set (group_txs l (t_GroupID t))" using that r(3) b(4) by simp
      then show ?thesis by (simp add: group_txs_def)
    qed
    then show ?thesis using ready by (auto simp: ready_def cleared_def)
  qed
  with r show ?thesis by (simp add: ready_def)
qed

lemma ss_split_ids:
  assumes "\<forall>i \<in> set is. env_parse_uuid env i = Some i" "ss_split env s is = Inr (whole, shortened)"
  shows "set whole = set is - ss_lost s \<and> set shortened = set is \<inter> ss_lost s"
  using assms
proof (induction "is" arbitrary: whole shortened)
  case (Cons i "is")
  then obtain w sh where "ss_split env s is = Inr (w, sh)"
    "(whole, shortened) = (if i \<in> ss_lost s then (w, i # sh) else (i # w, sh))"
    by (auto simp: sum_then_Inr)
  with Cons show ?case by (auto split: if_splits)
qed simp

lemma ss_settle_ok:
  assumes "ss_settle env user s l = Inr l'" and env: "env_ok env" and ready: "ready env user (set (ss_all s)) l"
  shows "ledger_ok env l'"
proof -
  let ?S = "set (ss_all s)"
  have ids: "\<forall>i \<in> ?S. env_parse_uuid env i = Some i"
  proof
    fix i assume "i \<in> ?S"
    moreover have "?S \<subseteq> issued env l" using ready by (simp add: ready_def mid_def)
    ultimately have "i \<in> issued env l" by (rule set_mp [rotated])
    then show "env_parse_uuid env i = Some i" using env by (auto simp: env_ok_def)
  qed
  obtain whole shortened l1 where split: "ss_split env s (ss_all s) = Inr (whole, shortened)"
    and l1: "settle env user whole wholeSource l = Inr l1" and l2: "settle env user shortened legsRemoved l1 = Inr l'"
    using assms(1) by (auto simp: ss_settle_def sum_then_Inr)
  note all = ss_split_ids [OF ids split]
  have "ready env user (?S - set whole) l1" by (rule settle_ready [OF l1 env ready]) (use all in blast)
  moreover have "set shortened \<subseteq> ?S" using all by blast
  ultimately have "ready env user (?S - set whole - set shortened) l'"
    using settle_ready [OF l2 env] all by auto
  moreover have "?S - set whole - set shortened = {}" using all by auto
  ultimately show ?thesis using ready_end by metis
qed

subsection \<open>Statements on touched groups\<close>

lemma filter_txs_mid:
  assumes mid: "mid env user S l" and keep: "\<And>t. t_GroupID t \<notin> S \<Longrightarrow> P t"
  shows "mid env user S (l\<lparr>l_txs := filter P (l_txs l)\<rparr>)"
proof -
  let ?l = "l\<lparr>l_txs := filter P (l_txs l)\<rparr>"
  have wf: "wf_ledger env l" and own: "owned user S l" and ids: "S \<subseteq> issued env l" using mid by (simp_all add: mid_def)
  have "wf_ledger env ?l" using wf by (auto simp: wf_ledger_def distinct_map_filter)
  moreover have "group_txs ?l g = group_txs l g" if "g \<notin> S" for g
    using keep that by (auto simp: group_txs_def intro!: filter_cong)
  then have "balanced_off S ?l" "single_off S ?l" "dated_off S ?l"
    using mid off_cong [of S ?l l] by (simp_all add: mid_def)
  ultimately show ?thesis using own ids by (simp add: mid_def owned_def)
qed

definition inhabited :: "string set \<Rightarrow> Ledger \<Rightarrow> bool" where
  "inhabited S l \<longleftrightarrow> (\<forall>g \<in> set (l_groups l). tg_ID g \<in> S \<longrightarrow> group_txs l (tg_ID g) \<noteq> [])"

lemma deleteEmptied_mid:
  assumes mid: "mid env user S l"
  shows "mid env user S (deleteEmptiedGroups S l)" "inhabited S (deleteEmptiedGroups S l)"
proof -
  let ?l = "deleteEmptiedGroups S l"
  let ?gone = "\<lambda>g. g \<in> S \<and> \<not> list_ex (\<lambda>t. t_GroupID t = g) (l_txs l)"
  have wf: "wf_ledger env l" using mid by (simp add: mid_def)
  have l': "l_txs ?l = l_txs l" "l_uuids ?l = l_uuids l" "l_groups ?l = filter (\<lambda>g. \<not> ?gone (tg_ID g)) (l_groups l)"
    "l_matches ?l = filter (\<lambda>m. \<not> ?gone (tm_FromGroupID m) \<and> \<not> ?gone (tm_ToGroupID m)) (l_matches l)"
    by (simp_all add: deleteEmptiedGroups_def Let_def)
  have "\<exists>g \<in> set (l_groups ?l). tg_ID g = t_GroupID t \<and> tg_UserID g = t_UserID t" if "t \<in> set (l_txs l)" for t
  proof -
    have "\<not> ?gone (t_GroupID t)" using that by (auto simp: list_ex_iff)
    moreover obtain g where "g \<in> set (l_groups l)" "tg_ID g = t_GroupID t" "tg_UserID g = t_UserID t"
      using wf \<open>t \<in> set (l_txs l)\<close> unfolding wf_ledger_def by blast
    ultimately show ?thesis unfolding l'(3) by (intro bexI [of _ g]) auto
  qed
  then have "wf_ledger env ?l"
    using wf unfolding wf_ledger_def l'(1,2) by (auto simp: l'(3,4) distinct_map_filter)
  moreover have "group_txs ?l = group_txs l" by (rule ext) (simp add: group_txs_def l'(1))
  ultimately show "mid env user S ?l" "inhabited S ?l"
    using mid l'(1,2)
    by (auto simp: mid_def dated_off_def balanced_off_def single_off_def owned_def inhabited_def l'(3) group_txs_def
        list_ex_iff filter_empty_conv)
qed

lemma deleteTouchedMatches_mid: "mid env user S l \<Longrightarrow> mid env user S (deleteTouchedMatches T l)"
  by (auto simp: mid_def wf_ledger_def dated_off_def balanced_off_def single_off_def owned_def deleteTouchedMatches_def group_txs_def)

lemma repoint_mid:
  assumes "mid env user S l"
  shows "mid env user S (repointGroupTimestamps S l)" "inhabited S l \<Longrightarrow> dated_off {} (repointGroupTimestamps S l)"
proof -
  let ?f = "\<lambda>g. if tg_ID g \<in> S \<and> group_txs l (tg_ID g) \<noteq> []
      then g\<lparr>tg_Timestamp := Min (set (map t_OrderDate (group_txs l (tg_ID g))))\<rparr> else g"
  let ?l = "repointGroupTimestamps S l"
  have f: "tg_ID (?f g) = tg_ID g" "tg_UserID (?f g) = tg_UserID g" "tg_ID g \<notin> S \<Longrightarrow> ?f g = g" for g by simp_all
  have l': "l_txs ?l = l_txs l" "l_uuids ?l = l_uuids l" "l_matches ?l = l_matches l" "l_groups ?l = map ?f (l_groups l)"
    by (simp_all add: repointGroupTimestamps_def)
  have txs: "group_txs ?l = group_txs l" by (rule ext) (simp add: group_txs_def l'(1))
  have ids: "map tg_ID (l_groups ?l) = map tg_ID (l_groups l)" unfolding l'(4) by simp
  then have ids': "tg_ID ` set (l_groups ?l) = tg_ID ` set (l_groups l)" by (metis list.set_map)
  have "\<exists>g \<in> set (l_groups ?l). tg_ID g = t_GroupID t \<and> tg_UserID g = t_UserID t" if "t \<in> set (l_txs l)" for t
  proof -
    obtain g where g: "g \<in> set (l_groups l)" "tg_ID g = t_GroupID t" "tg_UserID g = t_UserID t"
      using assms \<open>t \<in> set (l_txs l)\<close> unfolding mid_def wf_ledger_def by blast
    have "?f g \<in> set (l_groups ?l)" unfolding l'(4) list.set_map using g(1) by (rule imageI)
    then show ?thesis by (rule bexI [rotated]) (use g(2,3) in simp)
  qed
  then have "wf_ledger env ?l" using assms unfolding mid_def wf_ledger_def l'(1-3) ids ids' by blast
  moreover have "dated_off S ?l" using assms unfolding mid_def dated_off_def l'(4) txs by (auto simp: f)
  ultimately show "mid env user S ?l"
    using assms l'(1,2) by (auto simp: mid_def balanced_off_def single_off_def owned_def l'(4) f)
  show "dated_off {} ?l" if "inhabited S l"
    using assms that unfolding mid_def dated_off_def inhabited_def l'(4) txs by auto
qed

text \<open>The statements that end a change of membership, in either order the code runs them.\<close>

lemma finish_ready:
  assumes mid: "mid env user S l" and "cleared S l"
  shows "ready env user S (repointGroupTimestamps S (deleteTouchedMatches S (deleteEmptiedGroups S l)))"
    and "ready env user S (deleteTouchedMatches S (repointGroupTimestamps S (deleteEmptiedGroups S l)))"
proof -
  let ?e = "deleteEmptiedGroups S l"
  note e = deleteEmptied_mid [OF mid]
  have "inhabited S (deleteTouchedMatches S ?e)" using e(2) by (simp add: inhabited_def deleteTouchedMatches_def group_txs_def)
  then show "ready env user S (repointGroupTimestamps S (deleteTouchedMatches S ?e))"
    using repoint_mid [OF deleteTouchedMatches_mid [OF e(1)]] assms(2)
    by (simp add: ready_def cleared_def repointGroupTimestamps_def deleteTouchedMatches_def deleteEmptiedGroups_def Let_def)
  have "dated_off {} (deleteTouchedMatches S (repointGroupTimestamps S ?e))"
    using repoint_mid(2) [OF e] by (simp add: dated_off_def deleteTouchedMatches_def group_txs_def)
  then show "ready env user S (deleteTouchedMatches S (repointGroupTimestamps S ?e))"
    using deleteTouchedMatches_mid [OF repoint_mid(1) [OF e(1)]] assms(2)
    by (simp add: ready_def cleared_def repointGroupTimestamps_def deleteTouchedMatches_def deleteEmptiedGroups_def Let_def)
qed

subsection \<open>Clearing and inserting\<close>

lemma touched_owned:
  assumes wf: "wf_ledger env l" and S: "\<And>g. g \<in> S \<Longrightarrow> \<exists>t \<in> set (l_txs l). t_GroupID t = g \<and> t_UserID t = user"
  shows "owned user S l" "S \<subseteq> issued env l"
proof -
  have g: "\<exists>h \<in> set (l_groups l). tg_ID h = g \<and> tg_UserID h = user" if "g \<in> S" for g
    using S [OF that] wf unfolding wf_ledger_def by metis
  show "owned user S l" unfolding owned_def
  proof (intro ballI impI)
    fix h assume h: "h \<in> set (l_groups l)" "tg_ID h \<in> S"
    from g [OF h(2)] obtain h' where "h' \<in> set (l_groups l)" "tg_ID h' = tg_ID h" "tg_UserID h' = user" by blast
    moreover have "distinct (map tg_ID (l_groups l))" using wf by (simp add: wf_ledger_def)
    ultimately show "tg_UserID h = user" using h(1) by (auto simp: distinct_map dest: inj_onD)
  qed
  have "tg_ID ` set (l_groups l) \<subseteq> issued env l" using wf by (simp add: wf_ledger_def)
  then show "S \<subseteq> issued env l" using g by blast
qed

lemma clearPeriod_ready:
  assumes ok: "ledger_ok env l" and clear: "clearPeriod user broker fromT beforeT l = (l1, gone_from)"
  shows "ready env user (set gone_from) l1"
proof -
  let ?gone = "\<lambda>t. t_GroupID t \<in> touchedGroups user broker fromT beforeT l \<and> \<not> survivorPredicate broker fromT beforeT t"
  define l0 where "l0 = l\<lparr>l_txs := filter (\<lambda>t. \<not> ?gone t) (l_txs l)\<rparr>"
  define S where "S = t_GroupID ` set (filter ?gone (l_txs l))"
  have dr: "deleteReplacedPostings user broker fromT beforeT l
      = (l0, first_by (\<lambda>g. g) {} (map t_GroupID (filter ?gone (l_txs l))))"
    by (simp add: deleteReplacedPostings_def l0_def Let_def)
  have setS: "set (first_by (\<lambda>g. g) {} (map t_GroupID (filter ?gone (l_txs l)))) = S"
    using keys_first_by [of "\<lambda>g. g" "{}" "map t_GroupID (filter ?gone (l_txs l))"] by (simp add: S_def)
  have wf: "wf_ledger env l" using ok by (simp add: ledger_ok_def)
  have touched: "S \<subseteq> touchedGroups user broker fromT beforeT l" by (auto simp: S_def)
  then have "\<exists>t \<in> set (l_txs l). t_GroupID t = g \<and> t_UserID t = user" if "g \<in> S" for g
    using that unfolding touchedGroups_def by blast
  from touched_owned [OF wf this] have mid0: "mid env user S l"
    using ok off_mono [of "{}" S l] by (simp add: mid_def ledger_ok_def)
  have keep: "filter (\<lambda>t. \<not> ?gone t) (l_txs l) = filter (\<lambda>t. \<not> (?gone t \<and> t_GroupID t \<in> S)) (l_txs l)"
    by (rule filter_cong) (auto simp: S_def)
  have mid: "mid env user S l0" unfolding l0_def keep by (rule filter_txs_mid [OF mid0]) simp
  have cleared: "cleared S l0"
    using touched by (auto simp: cleared_def l0_def survivorPredicate_def)
  show ?thesis
  proof (cases "filter ?gone (l_txs l) = []")
    case True
    then have "gone_from = []" "l1 = l0" "S = {}" using clear by (simp_all add: clearPeriod_def dr S_def)
    then show ?thesis using mid cleared by (simp add: ready_def mid_def)
  next
    case False
    then have ne: "first_by (\<lambda>g. g) {} (map t_GroupID (filter ?gone (l_txs l))) \<noteq> []"
      using setS by (auto simp: S_def)
    then have "set gone_from = S" and "l1 = repointGroupTimestamps S (deleteTouchedMatches S (deleteEmptiedGroups S l0))"
      using clear setS by (auto simp: clearPeriod_def dr Let_def)
    then show ?thesis using finish_ready(1) [OF mid cleared] by simp
  qed
qed

lemma posting_row_fields:
  "posting_row env user broker job account t instID w basis txID groupID = Inr row \<Longrightarrow>
     t_ID row = txID \<and> t_GroupID row = groupID \<and> t_UserID row = user \<and> t_Broker row = broker
     \<and> t_Purpose row = nullStr (x_SyntheticPurpose t) \<and> x_OrderDate t = Some (t_OrderDate row)"
  by (auto simp: posting_row_def sum_then_Inr Let_def of_option_def split: option.splits)

lemma insert_alone_ready:
  assumes env: "env_ok env" and ready: "ready env user S l"
    and row: "t_ID row = env_new_uuid env (l_uuids l + 1)" "t_GroupID row = env_new_uuid env (l_uuids l)"
      "t_UserID row = user" "t_Purpose row = None"
  shows "ready env user (insert (t_GroupID row) S) (insert_alone env user job row l)"
proof -
  let ?l = "insert_alone env user job row l" and ?g = "t_GroupID row"
  have inj: "inj (env_new_uuid env)" using env by (simp add: env_ok_def)
  have wf: "wf_ledger env l" and dated: "dated_off {} l" using ready by (simp_all add: ready_def mid_def)
  have fresh: "env_new_uuid env (l_uuids l + k) \<notin> issued env l" for k using inj by (auto dest: injD)
  have noT: "t_ID row \<notin> t_ID ` set (l_txs l)" and noG: "?g \<notin> tg_ID ` set (l_groups l)"
    using wf fresh [of 1] fresh [of 0] row by (auto simp: wf_ledger_def)
  have noG': "tg_ID h \<noteq> ?g" if "h \<in> set (l_groups l)" for h using noG that by (metis imageI)
  have noM: "t_GroupID t \<noteq> ?g" if "t \<in> set (l_txs l)" for t
    using wf noG that unfolding wf_ledger_def by (metis imageI)
  have sub: "issued env l \<subseteq> issued env ?l" by (rule issued_mono) (simp add: insert_alone_def)
  have new: "t_ID row \<in> issued env ?l" "?g \<in> issued env ?l" using row by (auto simp: insert_alone_def)
  have "wf_ledger env ?l"
    using wf noT noG sub new row(3) by (auto simp: wf_ledger_def insert_alone_def image_Un)
  moreover have txs: "group_txs ?l g = (if g = ?g then [row] else group_txs l g)" for g
    using noM by (auto simp: group_txs_def insert_alone_def filter_empty_conv)
  then have "dated_off {} ?l"
    using dated noG unfolding dated_off_def by (simp add: insert_alone_def image_iff) metis
  moreover have "balanced_off (insert ?g S) ?l" "single_off (insert ?g S) ?l"
    using ready off_mono [of S "insert ?g S" l] off_cong(1,2) [of "insert ?g S" ?l l] txs by (auto simp: ready_def mid_def)
  moreover have "owned user (insert ?g S) ?l" "insert ?g S \<subseteq> issued env ?l" "cleared (insert ?g S) ?l"
    using ready row new sub noG' noM by (auto simp: ready_def mid_def owned_def cleared_def insert_alone_def routedPurpose_def)
  ultimately show ?thesis using off_mono(3) [of "{}" "insert ?g S" ?l] by (simp add: ready_def mid_def)
qed

lemma insert_loop_ready:
  assumes "insert_loop env user broker job account i txs ids ws bs out l = Some (Inr (l', out'))"
    and env: "env_ok env" and ready: "ready env user S l" and stated: "\<forall>t \<in> set txs. x_SyntheticPurpose t = ''''"
  shows "\<exists>gs. wr_groups out' = wr_groups out @ gs \<and> ready env user (S \<union> set gs) l'"
  using assms(1,3,4)
proof (induction txs arbitrary: i out l S)
  case (Cons t txs)
  let ?g = "env_new_uuid env (l_uuids l)" and ?t = "env_new_uuid env (l_uuids l + 1)"
  from Cons.prems(1) obtain instID row where
    row: "posting_row env user broker job account t instID (entry_at i ws)
       (case entry_at i bs of None \<Rightarrow> None | Some b \<Rightarrow> b) ?t ?g = Inr row"
    and rest: "insert_loop env user broker job account (i + 1) txs ids ws bs
       \<lparr>wr_postings = wr_postings out @ [?t], wr_groups = wr_groups out @ [?g]\<rparr> (insert_alone env user job row l) = Some (Inr (l', out'))"
    by (auto simp: Let_def run_then_Inr split: option.splits)
  note f = posting_row_fields [OF row]
  have "t_Purpose row = None" using f Cons.prems(3) by (simp add: nullStr_def)
  then have "ready env user (insert ?g S) (insert_alone env user job row l)"
    using insert_alone_ready [OF env Cons.prems(2), of row job] f by simp
  from Cons.IH [OF rest this] Cons.prems(3) obtain gs where
    "wr_groups out' = wr_groups out @ ?g # gs" "ready env user (insert ?g S \<union> set gs) l'" by auto
  then show ?case by (intro exI [of _ "?g # gs"]) simp
qed auto

lemma insertPostings_ready:
  assumes "insertPostings env user broker job txs ids ws bs account l = Some (Inr (l', w))"
    and "env_ok env" "ready env user S l" "\<forall>t \<in> set txs. x_SyntheticPurpose t = ''''"
  shows "ready env user (S \<union> set (wr_groups w)) l'"
  using insert_loop_ready [OF assms(1) [unfolded insertPostings_def] assms(2-4)] by auto

subsection \<open>Applying changes\<close>

text \<open>
  What the transactions rely on of a settler: every posting it moves is a stated posting of the
  user, and the group it says the posting leaves is the one it is in.
\<close>

definition accurate :: "Ledger \<Rightarrow> string \<Rightarrow> GroupChange list \<Rightarrow> bool" where
  "accurate l user changes \<longleftrightarrow> (\<forall>c \<in> set changes. \<forall>m \<in> set (gc_Members c). gm_Moving m \<longrightarrow>
     (\<exists>t \<in> set (l_txs l). t_ID t = gm_ID m \<and> t_GroupID t = gm_FromGroupID m \<and> t_UserID t = user \<and> t_Purpose t = None))
   \<and> (\<forall>c \<in> set changes. \<forall>m \<in> set (gc_Members c). \<not> gm_Moving m \<longrightarrow> gm_FromGroupID m = '''')"

text \<open>The postings still to be moved sit in touched groups and belong to the user.\<close>

definition movable :: "string \<Rightarrow> string set \<Rightarrow> GroupChange list \<Rightarrow> Ledger \<Rightarrow> bool" where
  "movable user S changes l \<longleftrightarrow> (\<forall>c \<in> set changes. \<forall>m \<in> set (gc_Members c). gm_Moving m \<longrightarrow>
     (\<forall>t \<in> set (l_txs l). t_ID t = gm_ID m \<longrightarrow> t_GroupID t \<in> S \<and> t_UserID t = user))"

text \<open>
  What the updates of one change do to the postings: each keeps everything but its resolved type,
  and those named by \<open>M\<close> may move to group \<open>g\<close>.
\<close>

definition moved :: "string set \<Rightarrow> string \<Rightarrow> Posting \<Rightarrow> Posting \<Rightarrow> bool" where
  "moved M g t t' \<longleftrightarrow> (\<exists>r. t' = t\<lparr>t_Resolved := r\<rparr> \<or> t_ID t \<in> M \<and> t' = t\<lparr>t_GroupID := g, t_Resolved := r\<rparr>)"

definition updates :: "string set \<Rightarrow> string \<Rightarrow> Ledger \<Rightarrow> Ledger \<Rightarrow> bool" where
  "updates M g l l' \<longleftrightarrow> l' = l\<lparr>l_txs := l_txs l'\<rparr> \<and> list_all2 (moved M g) (l_txs l) (l_txs l')"

lemma moved_refl [simp]: "moved M g t t"
  unfolding moved_def by (intro exI [of _ "t_Resolved t"]) simp

lemma moved_trans: "moved M g t u \<Longrightarrow> moved M g u v \<Longrightarrow> moved M g t v"
  by (auto simp: moved_def)

lemma updates_refl [simp]: "updates M g l l"
  by (simp add: updates_def list_all2_same)

lemma updates_trans:
  assumes "updates M g l l1" "updates M g l1 l2"
  shows "updates M g l l2"
proof -
  have "list_all2 (moved M g) (l_txs l) (l_txs l2)"
    by (rule list_all2_trans [where ?P1.0 = "moved M g" and ?P2.0 = "moved M g" and bs = "l_txs l1", OF moved_trans])
       (use assms in \<open>simp_all add: updates_def\<close>)
  moreover have "l2 = l\<lparr>l_txs := l_txs l2\<rparr>" using assms unfolding updates_def by (cases l; cases l1; cases l2) simp
  ultimately show ?thesis by (simp add: updates_def)
qed

lemma updates_map:
  "(\<And>t. moved M g t (f t)) \<Longrightarrow> updates M g l (l\<lparr>l_txs := map f (l_txs l)\<rparr>)"
  by (simp add: updates_def list_all2_map2 list_all2_same)

lemma resolveOnly_updates: "updates M g l (resolveOnly r ids l)"
  unfolding resolveOnly_def by (rule updates_map) (simp, auto simp: moved_def)

lemma moveGroup_updates: "set ids \<subseteq> M \<Longrightarrow> updates M g l (moveGroup g r ids l)"
  unfolding moveGroup_def by (rule updates_map) (simp, auto simp: moved_def)

lemma resolve_fold: "updates M g l (fold (\<lambda>(resolved, ids). resolveOnly resolved ids) rs l)"
proof (induction rs arbitrary: l)
  case (Cons r rs)
  show ?case by (simp add: split_beta)
      (rule updates_trans [OF resolveOnly_updates Cons.IH [unfolded split_beta]])
qed simp

lemma move_fold:
  "\<forall>(r, ids) \<in> set rs. set ids \<subseteq> M \<Longrightarrow> updates M g l (fold (\<lambda>(resolved, ids). moveGroup g resolved ids) rs l)"
proof (induction rs arbitrary: l)
  case (Cons r rs)
  have "set (snd r) \<subseteq> M" using Cons.prems by (simp add: split_beta)
  moreover have "\<forall>(r, ids) \<in> set rs. set ids \<subseteq> M" using Cons.prems by simp
  ultimately show ?case using updates_trans [OF moveGroup_updates Cons.IH] by (simp add: split_beta)
qed simp

lemma moved_fields:
  "moved M g t t' \<Longrightarrow> t_ID t' = t_ID t \<and> t_UserID t' = t_UserID t \<and> t_OrderDate t' = t_OrderDate t \<and> t_Weight t' = t_Weight t
     \<and> t_Commodity t' = t_Commodity t \<and> t_Purpose t' = t_Purpose t
     \<and> (t_GroupID t' = t_GroupID t \<or> t_ID t \<in> M \<and> t_GroupID t' = g)"
  by (auto simp: moved_def)

lemma moved_off:
  assumes "list_all2 (moved M g) ts ts'" "\<forall>t \<in> set ts. t_ID t \<in> M \<longrightarrow> t_GroupID t \<in> S" "M = {} \<or> g \<in> S" "h \<notin> S"
  shows "weight_sum ts' h c = weight_sum ts h c \<and> length (residuals_in ts' h c) = length (residuals_in ts h c)
    \<and> map t_OrderDate (filter (\<lambda>t. t_GroupID t = h) ts') = map t_OrderDate (filter (\<lambda>t. t_GroupID t = h) ts)"
  using assms(1,2)
proof (induction rule: list_all2_induct)
  case (Cons t ts t' ts')
  have "t_GroupID t' = h \<longleftrightarrow> t_GroupID t = h"
    using moved_fields [OF Cons.hyps(1)] Cons.prems assms(3,4) by (metis empty_iff list.set_intros(1))
  then show ?case using Cons.IH Cons.prems moved_fields [OF Cons.hyps(1)] by simp
qed simp

lemma updates_mid:
  assumes mid: "mid env user S l" and upd: "updates M g l l'"
    and group: "M = {} \<or> g \<in> S \<and> (\<exists>h \<in> set (l_groups l). tg_ID h = g \<and> tg_UserID h = user)"
    and M: "\<forall>t \<in> set (l_txs l). t_ID t \<in> M \<longrightarrow> t_GroupID t \<in> S \<and> t_UserID t = user"
  shows "mid env user S l'"
proof -
  have l': "l' = l\<lparr>l_txs := l_txs l'\<rparr>" and ts: "list_all2 (moved M g) (l_txs l) (l_txs l')"
    using upd by (simp_all add: updates_def)
  have same: "l_groups l' = l_groups l" "l_uuids l' = l_uuids l" "l_matches l' = l_matches l"
    by (subst l', simp)+
  have wf: "wf_ledger env l" using mid by (simp add: mid_def)
  have "map t_ID (l_txs l') = map t_ID (l_txs l)"
    using ts by (induction rule: list_all2_induct) (auto dest: moved_fields)
  moreover from this have "t_ID ` set (l_txs l') = t_ID ` set (l_txs l)" by (metis list.set_map)
  moreover have "\<exists>h \<in> set (l_groups l). tg_ID h = t_GroupID t' \<and> tg_UserID h = t_UserID t'" if t': "t' \<in> set (l_txs l')" for t'
  proof -
    obtain t where t: "t \<in> set (l_txs l)" "moved M g t t'" using list_all2_in [OF ts t'] by blast
    have "\<exists>h \<in> set (l_groups l). tg_ID h = t_GroupID t \<and> tg_UserID h = t_UserID t" using wf t(1) by (simp add: wf_ledger_def)
    then show ?thesis using moved_fields [OF t(2)] M t(1) group by (metis empty_iff)
  qed
  ultimately have "wf_ledger env l'" using wf unfolding wf_ledger_def same by metis
  moreover have off: "weight_sum (l_txs l') h c = weight_sum (l_txs l) h c
      \<and> length (residuals_in (l_txs l') h c) = length (residuals_in (l_txs l) h c)
      \<and> map t_OrderDate (group_txs l' h) = map t_OrderDate (group_txs l h)" if "h \<notin> S" for h c
  proof -
    have MS: "\<forall>t \<in> set (l_txs l). t_ID t \<in> M \<longrightarrow> t_GroupID t \<in> S" and gS: "M = {} \<or> g \<in> S" using M group by blast+
    show ?thesis unfolding group_txs_def by (rule moved_off [OF ts MS gS that])
  qed
  have "balanced_off S l" "single_off S l" using mid by (simp_all add: mid_def)
  then have "balanced_off S l'" "single_off S l'" using off by (simp_all add: balanced_off_def single_off_def)
  moreover have "dated_off S l'"
    using mid off unfolding mid_def dated_off_def same by (metis list.map_disc_iff)
  ultimately show ?thesis using mid by (simp add: mid_def owned_def same)
qed

lemma updates_movable:
  assumes "updates M g l l'" "M = {} \<or> g \<in> S" "movable user S cs l"
  shows "movable user S cs l'"
  unfolding movable_def
proof (intro ballI impI)
  fix c m t' assume c: "c \<in> set cs" "m \<in> set (gc_Members c)" "gm_Moving m" and t': "t' \<in> set (l_txs l')" "t_ID t' = gm_ID m"
  obtain t where t: "t \<in> set (l_txs l)" "moved M g t t'"
    using list_all2_in [of "moved M g" "l_txs l" "l_txs l'" t'] assms(1) t'(1) by (auto simp: updates_def)
  note f = moved_fields [OF t(2)]
  have "t_GroupID t \<in> S \<and> t_UserID t = user" using assms(3) c t(1) t'(2) f unfolding movable_def by metis
  then show "t_GroupID t' \<in> S \<and> t_UserID t' = user" using f assms(2) by (metis empty_iff)
qed

lemma newGroup_mid:
  assumes new: "newGroup env user move l = Inr (l', g)" and env: "env_ok env" and mid: "mid env user S l"
  shows "mid env user (insert g S) l'" "l_txs l' = l_txs l" "\<exists>h \<in> set (l_groups l'). tg_ID h = g \<and> tg_UserID h = user"
proof -
  obtain ts where g: "g = env_new_uuid env (l_uuids l)"
    and l': "l' = l\<lparr>l_groups := l_groups l @ [\<lparr>tg_ID = g, tg_UserID = user, tg_Timestamp = ts, tg_JobID = None\<rparr>],
               l_uuids := l_uuids l + 1\<rparr>"
    using new by (auto simp: newGroup_def Let_def split: if_splits)
  have wf: "wf_ledger env l" using mid by (simp add: mid_def)
  have inj: "inj (env_new_uuid env)" using env by (simp add: env_ok_def)
  have "g \<notin> issued env l" unfolding g using inj by (auto dest: injD)
  then have fresh: "g \<notin> tg_ID ` set (l_groups l)" using wf by (auto simp: wf_ledger_def)
  have sub: "issued env l \<subseteq> issued env l'" by (rule issued_mono) (simp add: l')
  have new: "g \<in> issued env l'" by (simp add: l' g)
  have "wf_ledger env l'"
    using wf fresh subset_trans [OF _ sub] new unfolding wf_ledger_def by (auto simp: l')
  moreover have "dated_off (insert g S) l'" "owned user (insert g S) l'" "balanced_off (insert g S) l'" "single_off (insert g S) l'"
    using mid fresh by (auto simp: mid_def dated_off_def balanced_off_def single_off_def owned_def l' group_txs_def)
  moreover have "insert g S \<subseteq> issued env l'" using mid sub new by (auto simp: mid_def)
  ultimately show "mid env user (insert g S) l'" by (simp add: mid_def)
  show "l_txs l' = l_txs l" "\<exists>h \<in> set (l_groups l'). tg_ID h = g \<and> tg_UserID h = user" by (simp_all add: l')
qed

lemma ss_all_add [simp]: "set (ss_all (ss_add i b s)) = insert i (set (ss_all s))"
  by (auto simp: ss_add_def)

lemma by_type_ids: "\<forall>(r, ids) \<in> set (by_type b c). set ids \<subseteq> gm_ID ` {m \<in> set (gc_Members c). gm_Moving m = b}"
proof -
  let ?kvs = "map (\<lambda>m. (gm_Resolved m, gm_ID m)) (filter (\<lambda>m. gm_Moving m = b) (gc_Members c))"
  have "set ids \<subseteq> gm_ID ` {m \<in> set (gc_Members c). gm_Moving m = b}" if "(r, ids) \<in> set (mm_build ?kvs)" for r ids
  proof -
    have "mm_get (mm_build ?kvs) r = ids" using that distinct_mm_build [of ?kvs] by (simp add: mm_get_def)
    then have "ids = map snd (filter (\<lambda>kv. fst kv = r) ?kvs)" using mm_get_build by metis
    then show ?thesis by auto
  qed
  then show ?thesis by (auto simp: by_type_def)
qed

lemma change_loop_mid:
  assumes "change_loop env user cs n touched l = Inr (l', touched', n')" and env: "env_ok env"
    and "mid env user (set (ss_all touched)) l" "movable user (set (ss_all touched)) cs l"
  shows "mid env user (set (ss_all touched')) l'"
  using assms(1,3,4)
proof (induction cs arbitrary: n touched l)
  case (Cons c cs)
  let ?S = "set (ss_all touched)" and ?move = "map gm_ID (filter gm_Moving (gc_Members c))"
  let ?l1 = "fold (\<lambda>(resolved, ids). resolveOnly resolved ids) (by_type False c) l"
  have upd1: "updates {} g l ?l1" for g by (rule resolve_fold)
  have mid1: "mid env user ?S ?l1" by (rule updates_mid [OF Cons.prems(2) upd1]) simp_all
  have mov1: "movable user ?S (c # cs) ?l1" by (rule updates_movable [OF upd1 _ Cons.prems(3)]) simp
  show ?case
  proof (cases "?move = []")
    case True
    then have "change_loop env user cs n touched ?l1 = Inr (l', touched', n')" using Cons.prems(1) by simp
    moreover have "movable user ?S cs ?l1" using mov1 by (simp add: movable_def)
    ultimately show ?thesis by (rule Cons.IH [OF _ mid1])
  next
    case False
    then obtain l2 g where new: "newGroup env user ?move ?l1 = Inr (l2, g)"
      and rest: "change_loop env user cs (n + length ?move) (ss_add g False touched)
        (fold (\<lambda>(resolved, ids). moveGroup g resolved ids) (by_type True c) l2) = Inr (l', touched', n')"
      using Cons.prems(1) by (auto simp: Let_def sum_then_Inr)
    let ?l3 = "fold (\<lambda>(resolved, ids). moveGroup g resolved ids) (by_type True c) l2"
    note ng = newGroup_mid [OF new env mid1]
    have upd: "updates (set ?move) g l2 ?l3"
      by (rule move_fold) (use by_type_ids [of True c] in \<open>auto simp: image_def\<close>)
    have mov2: "movable user (insert g ?S) (c # cs) l2" using mov1 ng(2) unfolding movable_def by auto
    have "mid env user (insert g ?S) ?l3"
      by (rule updates_mid [OF ng(1) upd]) (use ng(3) mov2 in \<open>auto simp: movable_def\<close>)
    moreover have "movable user (insert g ?S) cs ?l3"
      using updates_movable [OF upd _ mov2] by (simp add: movable_def)
    ultimately show ?thesis using Cons.IH [OF rest] by simp
  qed
qed simp

abbreviation left_from :: "GroupMemberChange list \<Rightarrow> string set" where
  "left_from ms \<equiv> {gm_FromGroupID m | m. m \<in> set ms \<and> gm_FromGroupID m \<noteq> ''''}"

lemma set_touch_from: "set (ss_all (fold touch_from ms s)) = set (ss_all s) \<union> left_from ms"
  by (induction ms arbitrary: s) (auto simp: touch_from_def)

lemma issued_not_empty: "env_ok env \<Longrightarrow> g \<in> issued env l \<Longrightarrow> g \<noteq> ''''"
  unfolding env_ok_def by (metis image_iff option.distinct(1))

text \<open>What the groups a change leaves from are, and that nothing else is touched before it runs.\<close>

lemma accurate_touched:
  assumes env: "env_ok env" and mid: "mid env user S l" and acc: "accurate l user changes"
  shows "mid env user (S \<union> left_from (concat (map gc_Members changes))) l"
    and "movable user (S \<union> left_from (concat (map gc_Members changes))) changes l"
proof -
  let ?F = "left_from (concat (map gc_Members changes))"
  have wf: "wf_ledger env l" using mid by (simp add: mid_def)
  have F: "\<exists>t \<in> set (l_txs l). t_GroupID t = g \<and> t_UserID t = user" if "g \<in> ?F" for g
    using that acc unfolding accurate_def by fastforce
  have "owned user ?F l" "?F \<subseteq> issued env l" using touched_owned [OF wf F] by blast+
  then show "mid env user (S \<union> ?F) l"
    using mid off_mono [of S "S \<union> ?F" l] by (auto simp: mid_def owned_def)
  show "movable user (S \<union> ?F) changes l"
    unfolding movable_def
  proof (intro ballI impI)
    fix c m t assume c: "c \<in> set changes" "m \<in> set (gc_Members c)" "gm_Moving m" and t: "t \<in> set (l_txs l)" "t_ID t = gm_ID m"
    obtain t0 where t0: "t0 \<in> set (l_txs l)" "t_ID t0 = gm_ID m" "t_GroupID t0 = gm_FromGroupID m" "t_UserID t0 = user"
      using acc c unfolding accurate_def by blast
    have "distinct (map t_ID (l_txs l))" using wf by (simp add: wf_ledger_def)
    then have tt: "t = t0" using t t0(1,2) by (metis distinct_map inj_onD)
    have "t_GroupID t0 \<in> tg_ID ` set (l_groups l)" using wf t0(1) unfolding wf_ledger_def by (metis imageI)
    then have "t_GroupID t0 \<in> issued env l" using wf unfolding wf_ledger_def by blast
    then have "gm_FromGroupID m \<noteq> ''''" using issued_not_empty [OF env] t0(3) by metis
    then have "gm_FromGroupID m \<in> ?F" using c(1,2) by auto
    then show "t_GroupID t \<in> S \<union> ?F \<and> t_UserID t = user" using t0 tt by simp
  qed
qed

lemma applyChanges_ready:
  assumes "applyChanges env user changes touched l = Inr (l', touched', n)" and env: "env_ok env"
    and mid: "mid env user (set (ss_all touched)) l" and acc: "accurate l user changes"
  shows "ready env user (set (ss_all touched')) l'"
proof -
  let ?t0 = "fold touch_from (concat (map gc_Members changes)) touched"
  obtain l1 where loop: "change_loop env user changes 0 ?t0 l = Inr (l1, touched', n)"
    and l': "l' = deleteTouchedMatches (set (ss_all touched')) (repointGroupTimestamps (set (ss_all touched'))
       (deleteEmptiedGroups (set (ss_all touched')) (dropResiduals (set (ss_all touched')) l1)))"
    using assms(1) by (auto simp: applyChanges_def sum_then_Inr Let_def)
  have "mid env user (set (ss_all touched')) l1"
    by (rule change_loop_mid [OF loop env])
      (use accurate_touched [OF env mid acc] in \<open>simp_all only: set_touch_from\<close>)
  then have "mid env user (set (ss_all touched')) (dropResiduals (set (ss_all touched')) l1)"
    unfolding dropResiduals_def by (rule filter_txs_mid) simp
  moreover have "cleared (set (ss_all touched')) (dropResiduals (set (ss_all touched')) l1)"
    by (auto simp: cleared_def dropResiduals_def)
  ultimately show ?thesis unfolding l' by (rule finish_ready(2))
qed

lemma ApplyGrouping_ok:
  assumes "ApplyGrouping env userID changes l = Inr (l', n)" and env: "env_ok env" and ok: "ledger_ok env l"
    and acc: "\<And>user. env_parse_uuid env userID = Some user \<Longrightarrow> accurate l user changes"
  shows "ledger_ok env l'"
proof -
  obtain user where user: "env_parse_uuid env userID = Some user"
    using assms(1) by (cases "env_parse_uuid env userID") (simp_all add: ApplyGrouping_def)
  show ?thesis
  proof (cases "changes = []")
    case True
    then show ?thesis using assms(1) user ok by (simp add: ApplyGrouping_def)
  next
    case False
    then obtain l1 touched where a: "applyChanges env user changes ss_empty l = Inr (l1, touched, n)"
      and s: "ss_settle env user touched l1 = Inr l'"
      using assms(1) user by (auto simp: ApplyGrouping_def sum_then_Inr)
    have "mid env user (set (ss_all ss_empty)) l" using mid_start [OF ok] by (simp add: ss_empty_def ready_def)
    from ss_settle_ok [OF s env applyChanges_ready [OF a env this acc [OF user]]] show ?thesis .
  qed
qed

end
