(* ===== verification/Ledger_Transactions.thy ===== *)
theory Ledger_Transactions
  imports Ledger_Invariant
begin

text \<open>
  The transactions that write the ledger keep its invariant. What they ask of the settler they run
  inside is the locale \<open>ledger_settler\<close>; the engine with its default rules provides it.
\<close>

subsection \<open>What a transaction asks of its settler\<close>

lemma grouping_row:
  assumes "p \<in> set (grouping_rows l user)"
  obtains t where "t \<in> set (l_txs l)" "t_ID t = p_ID p" "t_GroupID t = p_GroupID p" "t_UserID t = user" "t_Purpose t = None"
  using assms by (auto simp: grouping_rows_def transcribedPostings_def toDomain_def)

lemma ss_all_addAll [simp]: "set (ss_all (ss_addAll ids b s)) = set ids \<union> set (ss_all s)"
proof -
  have "set (ss_all (fold (\<lambda>i. ss_add i b) ids s)) = set ids \<union> set (ss_all s)"
    by (induction ids arbitrary: s) auto
  then show ?thesis by (simp only: ss_addAll_def)
qed

lemma ss_all_empty [simp]: "ss_all ss_empty = []"
  by (simp add: ss_empty_def)

locale ledger_settler =
  fixes env :: Env and f :: settler
  assumes settler_accurate: "env_ok env \<Longrightarrow> wf_ledger env l \<Longrightarrow> env_parse_uuid env user = Some user
    \<Longrightarrow> set seed \<subseteq> set (grouping_rows l user) \<Longrightarrow> f user seed (ledger_reader env l) = Some (Inr changes)
    \<Longrightarrow> accurate l user changes"
begin

lemma groupWritten_ready:
  assumes "groupWritten env (Some f) user ids touched l = Some (Inr (l', touched'))" and env: "env_ok env"
    and user: "env_parse_uuid env user = Some user" and ready: "ready env user (set (ss_all touched)) l"
  shows "ready env user (set (ss_all touched')) l'"
proof -
  have wf: "wf_ledger env l" and mid: "mid env user (set (ss_all touched)) l" using ready by (simp_all add: ready_def mid_def)
  let ?seed = "groupingPostingsByID l user ids"
  have seed: "set ?seed \<subseteq> set (grouping_rows l user)" by (auto simp: groupingPostingsByID_def)
  consider "l' = l" "touched' = touched"
    | cs n where "f user ?seed (ledger_reader env l) = Some (Inr cs)" "applyChanges env user cs touched l = Inr (l', touched', n)"
    using assms(1) by (auto simp: groupWritten_def Let_def sum_then_Inr split: if_splits option.splits sum.splits)
  then show ?thesis
  proof cases
    case 2
    from applyChanges_ready [OF 2(2) env mid settler_accurate [OF env wf user seed 2(1)]] show ?thesis .
  qed (use ready in simp)
qed

lemma replace_ok:
  assumes run: "ReplaceTxsInPeriod env (Some f) userID broker jobID pf pb txs ids ws bs l = Some (Inr l')"
    and env: "env_ok env" and ok: "ledger_ok env l" and stated: "\<forall>t \<in> set txs. x_SyntheticPurpose t = ''''"
  shows "ledger_ok env l'"
proof -
  obtain user job a b where user: "env_parse_uuid env userID = Some user"
    and "pf = Some a" "pb = Some b"
    and run1: "(let (l1, cut) = clearPeriod user broker a b l in
     run_then (insertPostings env user broker job txs ids ws bs '''' l1) (\<lambda>(l2, w).
     run_then (groupWritten env (Some f) user (wr_postings w)
         (ss_addAll (wr_groups w) False (ss_addAll cut True ss_empty)) l2) (\<lambda>(l3, touched).
     Some (ss_settle env user touched l3)))) = Some (Inr l')"
    using run by (auto simp: ReplaceTxsInPeriod_def run_then_Inr of_option_def split: if_splits option.splits)
  obtain l1 cut where clear: "clearPeriod user broker a b l = (l1, cut)" by fastforce
  obtain l2 w l3 touched where ins: "insertPostings env user broker job txs ids ws bs '''' l1 = Some (Inr (l2, w))"
    and gw: "groupWritten env (Some f) user (wr_postings w) (ss_addAll (wr_groups w) False (ss_addAll cut True ss_empty)) l2
      = Some (Inr (l3, touched))"
    and st: "ss_settle env user touched l3 = Inr l'"
    using run1 clear by (auto simp: run_then_Inr)
  have "ready env user (set cut \<union> set (wr_groups w)) l2"
    by (rule insertPostings_ready [OF ins env clearPeriod_ready [OF ok clear] stated])
  then have "ready env user (set (ss_all (ss_addAll (wr_groups w) False (ss_addAll cut True ss_empty)))) l2"
    by (simp add: Un_commute)
  moreover have "env_parse_uuid env user = Some user" using env user by (simp add: env_ok_def)
  ultimately show ?thesis using ss_settle_ok [OF st env] groupWritten_ready [OF gw env] by blast
qed

lemma create_ok:
  assumes run: "CreateTxGroup env (Some f) userID broker account jobID txs ids ws bs l = Some (Inr l')"
    and env: "env_ok env" and ok: "ledger_ok env l" and stated: "\<forall>t \<in> set txs. x_SyntheticPurpose t = ''''"
  shows "ledger_ok env l'"
proof -
  obtain user job l1 w l2 touched where user: "env_parse_uuid env userID = Some user"
    and ins: "insertPostings env user broker job txs ids ws bs account l = Some (Inr (l1, w))"
    and gw: "groupWritten env (Some f) user (wr_postings w) (ss_addAll (wr_groups w) False ss_empty) l1
      = Some (Inr (l2, touched))"
    and st: "ss_settle env user touched l2 = Inr l'"
    using run by (auto simp: CreateTxGroup_def run_then_Inr of_option_def split: option.splits)
  have "ready env user ({} \<union> set (wr_groups w)) l1"
    by (rule insertPostings_ready [OF ins env mid_start [OF ok] stated])
  then have "ready env user (set (ss_all (ss_addAll (wr_groups w) False ss_empty))) l1" by simp
  moreover have "env_parse_uuid env user = Some user" using env user by (simp add: env_ok_def)
  ultimately show ?thesis using ss_settle_ok [OF st env] groupWritten_ready [OF gw env] by blast
qed

end

subsection \<open>The engine as the settler\<close>

lemma Diff_member:
  assumes part: "partition_of ps gs" and Diff: "Diff ps gs = Some cs" and c: "c \<in> set cs" "m \<in> set (gc_Members c)"
  shows "if gm_Moving m then \<exists>p \<in> set ps. p_ID p = gm_ID m \<and> p_GroupID p = gm_FromGroupID m else gm_FromGroupID m = ''''"
proof -
  have "cs = concat (map (\<lambda>g. the (diff_group ps g)) gs)" using Diff Diff_eq [OF part subset_refl] by simp
  then obtain g where g: "g \<in> set gs" "c \<in> set (the (diff_group ps g))" using c(1) by auto
  from g(2) have "gc_Members c = retypes ps g \<or> gc_Members c = moves ps g"
    unfolding diff_group_eq [OF part g(1)] by (auto split: if_splits)
  then consider "m \<in> set (retypes ps g)" | "m \<in> set (moves ps g)" using c(2) by auto
  then show ?thesis
  proof cases
    case 2
    then obtain d where d: "d \<in> set (g_Members g)" "gm_ID m = m_ID d" "gm_FromGroupID m = str_map p_GroupID ps (m_ID d)" "gm_Moving m"
      by (auto simp: moves_def)
    obtain p where p: "p \<in> set ps" "p_ID p = m_ID d" using partition_of_member [OF part g(1) d(1)] .
    then show ?thesis using d str_map_eq [OF partition_ofD(1) [OF part] p(1), of p_GroupID] by auto
  qed (auto simp: retypes_def)
qed

lemma settle_seeds_from_rows:
  assumes "uuid_ok u" "inj_on p_ID (set (rows u))" "'''' \<notin> ids_of (rows u)" "set seeds \<subseteq> set (rows u)"
    and "settle_seeds u (postgres_reader uuid_ok rows) (DefaultRules ddiv) opts dn out seeds = Some (Inr cs)"
    and "c \<in> set cs" "m \<in> set (gc_Members c)"
  shows "c \<in> set out
    \<or> (if gm_Moving m then \<exists>p \<in> set (rows u). p_ID p = gm_ID m \<and> p_GroupID p = gm_FromGroupID m else gm_FromGroupID m = '''')"
  using assms(4,5)
proof (induction seeds arbitrary: dn out)
  case (Cons s seeds)
  have sub: "set seeds \<subseteq> set (rows u)" "set [s] \<subseteq> set (rows u)" using Cons.prems by auto
  show ?case
  proof (cases "p_ID s \<in> dn")
    case True
    then show ?thesis using Cons.IH [OF sub(1)] Cons.prems(2) by simp
  next
    case False
    obtain ps where ps: "Neighbourhood u [s] (DefaultRules ddiv) (postgres_reader uuid_ok rows) = Some (Inr ps)"
      "set ps = {q. \<exists>x \<in> set [s]. (store_link (rows u))\<^sup>*\<^sup>* x q}" "sorted_wrt (<) (map p_ID ps)"
      using region.neighbourhood_result [of uuid_ok u rows "[s]" ddiv] assms(1,2) sub(2)
      unfolding linked_store_link by blast
    have rows: "set ps \<subseteq> set (rows u)" using ps(2) region_rows sub(2) by auto
    then have "proper ps" using ps(3) assms(3) by (auto simp: proper_def strict_sorted_iff image_iff)
    note part = partition_of_Partition [OF this, of ddiv opts]
    obtain ds where ds: "Diff ps (Partition ps (DefaultRules ddiv) opts) = Some ds" using Diff_eq [OF part subset_refl] by blast
    have "settle_seeds u (postgres_reader uuid_ok rows) (DefaultRules ddiv) opts (dn \<union> p_ID ` set ps) (out @ ds) seeds = Some (Inr cs)"
      using Cons.prems(2) False ps(1) ds by simp
    from Cons.IH [OF sub(1) this] have "c \<in> set out \<or> c \<in> set ds
      \<or> (if gm_Moving m then \<exists>p \<in> set (rows u). p_ID p = gm_ID m \<and> p_GroupID p = gm_FromGroupID m else gm_FromGroupID m = '''')" by auto
    then show ?thesis using Diff_member [OF part ds _ assms(7)] rows by (auto split: if_splits)
  qed
qed (use assms(6) in simp)

lemma ledger_rows:
  assumes env: "env_ok env" and wf: "wf_ledger env l"
  shows "inj_on p_ID (set (grouping_rows l user))" "'''' \<notin> ids_of (grouping_rows l user)"
proof -
  have "inj_on t_ID (set (l_txs l))" using wf by (simp add: wf_ledger_def distinct_map)
  then show "inj_on p_ID (set (grouping_rows l user))"
    unfolding grouping_rows_def transcribedPostings_def inj_on_def by (auto simp: toDomain_def)
  have "p_ID p \<noteq> ''''" if p: "p \<in> set (grouping_rows l user)" for p
  proof -
    obtain t where t: "t \<in> set (l_txs l)" "t_ID t = p_ID p" using grouping_row [OF p] .
    have "t_ID t \<in> issued env l" using wf t(1) by (auto simp: wf_ledger_def)
    from issued_not_empty [OF env this] show ?thesis using t(2) by simp
  qed
  then show "'''' \<notin> ids_of (grouping_rows l user)" by (metis imageE)
qed

lemma Settle_accurate:
  assumes env: "env_ok env" and wf: "wf_ledger env l" and user: "env_parse_uuid env user = Some user"
    and seed: "set seed \<subseteq> set (grouping_rows l user)"
    and run: "Settle ddiv (NewEngine ddiv) user seed (ledger_reader env l) = Some (Inr changes)"
  shows "accurate l user changes"
proof -
  have "DefaultRules ddiv \<noteq> []" by (simp add: DefaultRules_def)
  then have run': "settle_seeds user (postgres_reader (\<lambda>u. env_parse_uuid env u \<noteq> None) (grouping_rows l)) (DefaultRules ddiv)
      DefaultOpts {} [] seed = Some (Inr changes)"
    using run by (simp add: Settle_def NewEngine_def ledger_reader_def)
  have *: "if gm_Moving m then \<exists>p \<in> set (grouping_rows l user). p_ID p = gm_ID m \<and> p_GroupID p = gm_FromGroupID m
      else gm_FromGroupID m = ''''" if "c \<in> set changes" "m \<in> set (gc_Members c)" for c m
    using settle_seeds_from_rows [where rows = "grouping_rows l" and u = user, OF _ ledger_rows [OF env wf] seed run' that] user by simp
  show ?thesis unfolding accurate_def
  proof (intro conjI ballI impI)
    fix c m assume cm: "c \<in> set changes" "m \<in> set (gc_Members c)" "gm_Moving m"
    then obtain p where p: "p \<in> set (grouping_rows l user)" "p_ID p = gm_ID m" "p_GroupID p = gm_FromGroupID m"
      using * [OF cm(1,2)] by auto
    obtain t where "t \<in> set (l_txs l)" "t_ID t = p_ID p" "t_GroupID t = p_GroupID p" "t_UserID t = user" "t_Purpose t = None"
      using grouping_row [OF p(1)] .
    then show "\<exists>t \<in> set (l_txs l). t_ID t = gm_ID m \<and> t_GroupID t = gm_FromGroupID m \<and> t_UserID t = user \<and> t_Purpose t = None"
      using p by auto
  qed (use * in force)
qed

interpretation engine: ledger_settler env "Settle ddiv (NewEngine ddiv)" for env ddiv
  by unfold_locales (rule Settle_accurate)

subsection \<open>A write that converts commits\<close>

text \<open>Money is settled in a seeded currency instrument: a commodity is priced when it has one or is no money.\<close>

definition priced :: "Env \<Rightarrow> string \<Rightarrow> bool" where
  "priced env c \<longleftrightarrow> (snd (CurrencyOf c) \<longrightarrow> env_currency env (fst (CurrencyOf c)) \<noteq> None)"

abbreviation priced_ledger :: "Env \<Rightarrow> Ledger \<Rightarrow> bool" where
  "priced_ledger env l \<equiv> \<forall>t \<in> set (l_txs l). priced env (t_Commodity t)"

lemma AccountTypeToStr_total: "\<exists>s. AccountTypeToStr a = Inr s"
  using AccountType_roundtrip [of a] by (cases "AccountTypeToStr a") auto

lemma leg_names_total: "priced env c \<Longrightarrow> \<exists>d tr st i. leg_names env c own = Inr (d, tr, st, i)"
  by (cases own) (auto simp: priced_def leg_names_def split_beta currencyInstrument_def of_option_def sum_then_def)

lemma routed_leg_priced:
  "priced env c \<Longrightarrow> priced_ledger env l \<Longrightarrow> priced_ledger env (routed_leg env user t g d tr st i ac p amount c l)"
  by (auto simp: routed_leg_def)

lemma boundary_loop_total:
  assumes "\<forall>c \<in> set cs. priced env (t_Commodity c)" "priced_ledger env l"
  shows "\<exists>l'. boundary_loop env user cs l = Inr l' \<and> priced_ledger env l'"
  using assms
proof (induction cs arbitrary: l)
  case (Cons c cs)
  show ?case
  proof (cases "snd (Boundary (StrToTxType (t_Resolved c)))")
    case True
    obtain acct where a: "AccountTypeToStr (fst (Boundary (StrToTxType (t_Resolved c)))) = Inr acct"
      using AccountTypeToStr_total by blast
    obtain d tr st i where n: "leg_names env (t_Commodity c)
        (t_Description c, t_TradingCurrency c, t_SettlementCurrency c, t_InstrumentID c) = Inr (d, tr, st, i)"
      using leg_names_total Cons.prems(1) by (metis list.set_intros(1))
    let ?l = "routed_leg env user c (t_GroupID c) d tr st i acct BoundaryPurpose (- t_Weight c) (t_Commodity c) l"
    have "priced_ledger env ?l" using Cons.prems by (intro routed_leg_priced) auto
    then show ?thesis using Cons.IH [of ?l] Cons.prems(1) True a n by (simp add: split_beta sum_then_def)
  qed (use Cons in \<open>simp add: split_beta\<close>)
qed simp

lemma residual_loop_total:
  assumes "\<forall>r \<in> set rs. priced env (gr_commodity r)" "priced_ledger env l"
  shows "\<exists>l'. residual_loop env user rule rs l = Inr l' \<and> priced_ledger env l'"
  using assms
proof (induction rs arbitrary: l)
  case (Cons r rs)
  obtain acct where a: "AccountTypeToStr (rule (gr_commodity r) (- gr_amount r) (gr_priceRounding r)
      (StrsToTxTypes (gr_resolvedTypes r))) = Inr acct"
    using AccountTypeToStr_total by blast
  obtain d tr st i where n: "leg_names env (gr_commodity r) (t_Description (gr_leg r), t_TradingCurrency (gr_first r),
      t_SettlementCurrency (gr_first r), t_InstrumentID (gr_leg r)) = Inr (d, tr, st, i)"
    using leg_names_total Cons.prems(1) by (metis list.set_intros(1))
  let ?l = "routed_leg env user (gr_first r) (gr_groupID r) d tr st i acct RoutedPurpose (- gr_amount r) (gr_commodity r) l"
  have "priced_ledger env ?l" using Cons.prems by (intro routed_leg_priced) auto
  then show ?case using Cons.IH [of ?l] Cons.prems(1) a n by (simp add: Let_def sum_then_def)
qed simp

lemma settle_total:
  assumes "priced_ledger env l"
  shows "\<exists>l'. settle env user ids rule l = Inr l' \<and> priced_ledger env l'"
proof (cases "ids = []")
  case False
  have "\<forall>c \<in> set (boundaryCandidates l (set ids)). priced env (t_Commodity c)"
    using assms by (auto simp: boundaryCandidates_def)
  from boundary_loop_total [OF this assms] obtain l1
    where l1: "boundary_loop env user (boundaryCandidates l (set ids)) l = Inr l1" "priced_ledger env l1" by blast
  have "\<forall>r \<in> set (groupResiduals env l1 (set ids)). priced env (gr_commodity r)"
    using l1(2) by (auto simp: groupResiduals_def)
  from residual_loop_total [OF this l1(2)] l1(1) False show ?thesis
    by (auto simp: settle_def routeBoundaries_def routeResiduals_def sum_then_def)
qed (simp add: settle_def assms)

lemma ss_split_total: "\<forall>i \<in> set is. env_parse_uuid env i \<noteq> None \<Longrightarrow> \<exists>p. ss_split env s is = Inr p"
  by (induction "is") (auto simp: sum_then_def)

lemma ss_settle_total:
  assumes ready: "ready env user (set (ss_all s)) l" and env: "env_ok env" and priced: "priced_ledger env l"
  shows "\<exists>l'. ss_settle env user s l = Inr l' \<and> priced_ledger env l'"
proof -
  have "\<forall>i \<in> set (ss_all s). env_parse_uuid env i \<noteq> None"
    using ready env unfolding ready_def mid_def env_ok_def by (metis image_iff option.distinct(1) subsetD)
  then obtain p where p: "ss_split env s (ss_all s) = Inr p" using ss_split_total by blast
  obtain l1 where l1: "settle env user (fst p) wholeSource l = Inr l1" "priced_ledger env l1" using settle_total [OF priced] by blast
  obtain l2 where "settle env user (snd p) legsRemoved l1 = Inr l2" "priced_ledger env l2" using settle_total [OF l1(2)] by blast
  then show ?thesis using p l1(1) by (simp add: ss_settle_def sum_then_def split_beta)
qed

lemma updates_priced: "updates M g l l' \<Longrightarrow> priced_ledger env l \<Longrightarrow> priced_ledger env l'"
  unfolding updates_def using list_all2_in moved_fields by metis

text \<open>The postings a change moves are there, so its group has a date.\<close>

definition present :: "GroupChange list \<Rightarrow> Ledger \<Rightarrow> bool" where
  "present cs l \<longleftrightarrow> (\<forall>c \<in> set cs. \<forall>m \<in> set (gc_Members c). gm_Moving m \<longrightarrow> gm_ID m \<in> t_ID ` set (l_txs l))"

lemma updates_ids:
  assumes "updates M g l l'"
  shows "t_ID ` set (l_txs l') = t_ID ` set (l_txs l)"
proof -
  have "list_all2 (moved M g) (l_txs l) (l_txs l')" using assms by (simp add: updates_def)
  then have "map t_ID (l_txs l') = map t_ID (l_txs l)"
    by (induction rule: list_all2_induct) (auto dest: moved_fields)
  then show ?thesis by (metis list.set_map)
qed

lemma change_loop_total:
  assumes "present cs l" "priced_ledger env l"
  shows "\<exists>l' touched' n'. change_loop env user cs n touched l = Inr (l', touched', n') \<and> priced_ledger env l'"
  using assms
proof (induction cs arbitrary: n touched l)
  case (Cons c cs)
  let ?move = "map gm_ID (filter gm_Moving (gc_Members c))"
  let ?l1 = "fold (\<lambda>(resolved, ids). resolveOnly resolved ids) (by_type False c) l"
  have upd1: "updates {} ''x'' l ?l1" by (rule resolve_fold)
  note ids1 = updates_ids [OF upd1] and pr1 = updates_priced [OF upd1 Cons.prems(2)]
  show ?case
  proof (cases "?move = []")
    case True
    have "present cs ?l1" using Cons.prems(1) ids1 unfolding present_def by auto
    with Cons.IH [OF this pr1] True show ?thesis by simp
  next
    case False
    then obtain m where m: "m \<in> set (gc_Members c)" "gm_Moving m" by (auto simp: filter_empty_conv)
    then have "gm_ID m \<in> t_ID ` set (l_txs ?l1)" using Cons.prems(1) ids1 unfolding present_def by auto
    moreover have "gm_ID m \<in> set ?move" using m by simp
    ultimately have "order_dates ?l1 ?move \<noteq> []" unfolding order_dates_def by (auto simp only: filter_empty_conv map_is_Nil_conv)
    then obtain l2 g where new: "newGroup env user ?move ?l1 = Inr (l2, g)" "l_txs l2 = l_txs ?l1"
      by (simp add: newGroup_def Let_def)
    let ?l3 = "fold (\<lambda>(resolved, ids). moveGroup g resolved ids) (by_type True c) l2"
    have upd: "updates UNIV g l2 ?l3" by (rule move_fold) simp
    have "present cs ?l3" using Cons.prems(1) ids1 updates_ids [OF upd] new(2) unfolding present_def by auto
    moreover have "priced_ledger env ?l3" using updates_priced [OF upd] pr1 new(2) by simp
    ultimately show ?thesis using Cons.IH [of ?l3] False new(1) by (simp add: sum_then_def Let_def)
  qed
qed simp

lemma applyChanges_total:
  assumes "accurate l user changes" "priced_ledger env l"
  shows "\<exists>l' touched' n. applyChanges env user changes touched l = Inr (l', touched', n) \<and> priced_ledger env l'"
proof -
  have "present changes l" using assms(1) unfolding accurate_def present_def by (metis imageI)
  from change_loop_total [OF this assms(2)] obtain l1 touched' n where
    "change_loop env user changes 0 (fold touch_from (concat (map gc_Members changes)) touched) l = Inr (l1, touched', n)"
    "priced_ledger env l1" by blast
  then show ?thesis
    by (simp add: applyChanges_def sum_then_def Let_def deleteTouchedMatches_def repointGroupTimestamps_def
        deleteEmptiedGroups_def dropResiduals_def)
qed

text \<open>The rows of a batch convert, whatever ids they are given.\<close>

definition converts :: "Env \<Rightarrow> string \<Rightarrow> string \<Rightarrow> string option \<Rightarrow> string \<Rightarrow> nat \<Rightarrow> Tx list \<Rightarrow> string list \<Rightarrow> Weight list
    \<Rightarrow> time option list \<Rightarrow> bool" where
  "converts env user broker job account i txs ids ws bs \<longleftrightarrow> (\<forall>j < length txs. i + j < length ids
     \<and> (\<forall>txID groupID. \<exists>row. posting_row env user broker job account (txs ! j) (ids ! (i + j)) (entry_at (i + j) ws)
          (case entry_at (i + j) bs of None \<Rightarrow> None | Some b \<Rightarrow> b) txID groupID = Inr row))"

lemma converts_Cons:
  assumes "converts env user broker job account i (t # txs) ids ws bs"
  shows "i < length ids"
    and "\<exists>row. posting_row env user broker job account t (ids ! i) (entry_at i ws)
      (case entry_at i bs of None \<Rightarrow> None | Some b \<Rightarrow> b) txID groupID = Inr row"
    and "converts env user broker job account (i + 1) txs ids ws bs"
  using assms unfolding converts_def by (fastforce, fastforce, fastforce)

lemma posting_row_priced:
  assumes "posting_row env user broker job account t instID w basis txID groupID = Inr row"
    and "case w of None \<Rightarrow> True | Some v \<Rightarrow> priced env (wt_Commodity v)"
  shows "priced env (t_Commodity row)"
proof -
  have "priced env (InstrumentPrefix @ x)" for x
    by (simp add: priced_def CurrencyOf_def CutPrefix_def HasPrefix_def InstrumentPrefix_def CurrencyPrefix_def)
  then show ?thesis using assms by (auto simp: posting_row_def sum_then_Inr Let_def split: option.splits)
qed

lemma insert_loop_total:
  assumes "converts env user broker job account i txs ids ws bs" "\<forall>w \<in> set ws. priced env (wt_Commodity w)" "priced_ledger env l"
  shows "\<exists>l' out'. insert_loop env user broker job account i txs ids ws bs out l = Some (Inr (l', out')) \<and> priced_ledger env l'"
  using assms(1,3)
proof (induction txs arbitrary: i out l)
  case (Cons t txs)
  let ?g = "env_new_uuid env (l_uuids l)" and ?t = "env_new_uuid env (l_uuids l + 1)"
  note c = converts_Cons [OF Cons.prems(1)]
  obtain row where row: "posting_row env user broker job account t (ids ! i) (entry_at i ws)
      (case entry_at i bs of None \<Rightarrow> None | Some b \<Rightarrow> b) ?t ?g = Inr row"
    using c(2) by blast
  have "case entry_at i ws of None \<Rightarrow> True | Some v \<Rightarrow> priced env (wt_Commodity v)"
    using assms(2) by (simp add: entry_at_def)
  from posting_row_priced [OF row this] have "priced_ledger env (insert_alone env user job row l)"
    using Cons.prems(2) by (auto simp: insert_alone_def)
  from Cons.IH [OF c(3) this] c(1) row show ?case
    by (simp add: entry_at_def run_then_def Let_def)
qed simp

lemma clearPeriod_priced: "priced_ledger env l \<Longrightarrow> priced_ledger env (fst (clearPeriod user broker a b l))"
  by (auto simp: clearPeriod_def deleteReplacedPostings_def Let_def split_beta repointGroupTimestamps_def
      deleteTouchedMatches_def deleteEmptiedGroups_def)

locale ledger_settler_total = ledger_settler +
  assumes settler_answers: "env_ok env \<Longrightarrow> wf_ledger env l \<Longrightarrow> env_parse_uuid env user = Some user
    \<Longrightarrow> set seed \<subseteq> set (grouping_rows l user) \<Longrightarrow> \<exists>changes. f user seed (ledger_reader env l) = Some (Inr changes)"
begin

lemma groupWritten_total:
  assumes env: "env_ok env" and user: "env_parse_uuid env user = Some user" and wf: "wf_ledger env l" and priced: "priced_ledger env l"
  shows "\<exists>l' touched'. groupWritten env (Some f) user ids touched l = Some (Inr (l', touched')) \<and> priced_ledger env l'"
proof -
  let ?seed = "groupingPostingsByID l user ids"
  have seed: "set ?seed \<subseteq> set (grouping_rows l user)" by (auto simp: groupingPostingsByID_def)
  obtain cs where cs: "f user ?seed (ledger_reader env l) = Some (Inr cs)" using settler_answers [OF env wf user seed] by blast
  obtain l' touched' n where "applyChanges env user cs touched l = Inr (l', touched', n)" "priced_ledger env l'"
    using applyChanges_total [OF settler_accurate [OF env wf user seed cs] priced] by blast
  then show ?thesis using cs priced by (auto simp: groupWritten_def Let_def sum_then_def)
qed

lemma replace_commits:
  assumes env: "env_ok env" and ok: "ledger_ok env l" and priced: "priced_ledger env l"
    and user: "env_parse_uuid env userID = Some user" and job: "parseNullUUID env jobID = Inr job"
    and period: "pf = Some a" "pb = Some b" and len: "length ids = length txs"
    and conv: "converts env user broker job '''' 0 txs ids ws bs" and ws: "\<forall>w \<in> set ws. priced env (wt_Commodity w)"
    and stated: "\<forall>t \<in> set txs. x_SyntheticPurpose t = ''''"
  shows "\<exists>l'. ReplaceTxsInPeriod env (Some f) userID broker jobID pf pb txs ids ws bs l = Some (Inr l') \<and> priced_ledger env l'"
proof -
  obtain l1 cut where clear: "clearPeriod user broker a b l = (l1, cut)" by fastforce
  have "priced_ledger env l1" using clearPeriod_priced [OF priced, of user broker a b] clear by simp
  from insert_loop_total [OF conv ws this] obtain l2 w where
    ins: "insertPostings env user broker job txs ids ws bs '''' l1 = Some (Inr (l2, w))" "priced_ledger env l2"
    unfolding insertPostings_def by blast
  let ?s = "ss_addAll (wr_groups w) False (ss_addAll cut True ss_empty)"
  have "ready env user (set cut \<union> set (wr_groups w)) l2"
    by (rule insertPostings_ready [OF ins(1) env clearPeriod_ready [OF ok clear] stated])
  then have ready: "ready env user (set (ss_all ?s)) l2" by (simp add: Un_commute)
  then have wf: "wf_ledger env l2" by (simp add: ready_def mid_def)
  have user': "env_parse_uuid env user = Some user" using env user by (simp add: env_ok_def)
  obtain l3 touched where gw: "groupWritten env (Some f) user (wr_postings w) ?s l2 = Some (Inr (l3, touched))" "priced_ledger env l3"
    using groupWritten_total [OF env user' wf ins(2)] by blast
  obtain l' where "ss_settle env user touched l3 = Inr l'" "priced_ledger env l'"
    using ss_settle_total [OF groupWritten_ready [OF gw(1) env user' ready] env gw(2)] by blast
  then show ?thesis
    using user job period len clear ins(1) gw(1) by (simp add: ReplaceTxsInPeriod_def run_then_def of_option_def with_error_def)
qed

end

interpretation engine_total: ledger_settler_total env "Settle ddiv (NewEngine ddiv)" for env ddiv
proof
  fix l user seed
  assume a: "env_ok env" "wf_ledger env l" "env_parse_uuid env user = Some user" "set seed \<subseteq> set (grouping_rows l user)"
  have "DefaultRules ddiv \<noteq> []" by (simp add: DefaultRules_def)
  then show "\<exists>changes. Settle ddiv (NewEngine ddiv) user seed (ledger_reader env l) = Some (Inr changes)"
    using settle_seeds_returns [where uuid_ok = "\<lambda>u. env_parse_uuid env u \<noteq> None" and u = user and rows = "grouping_rows l" and ddiv = ddiv
        and opts = DefaultOpts and dn = "{}" and out = "[]" and seeds = seed, OF _ ledger_rows [OF a(1,2)] a(4)] a(3)
    by (auto simp: Settle_def NewEngine_def ledger_reader_def)
qed

subsection \<open>What a write leaves stated\<close>

text \<open>
  A posting without what the engine decides of it, and the postings a source stated (or a
  declaration padded), which is every posting but the routed legs.
\<close>

definition core :: "Posting \<Rightarrow> Posting" where
  "core t = t\<lparr>t_GroupID := '''', t_Resolved := ''''\<rparr>"

definition stated :: "Ledger \<Rightarrow> Posting list" where
  "stated l = map core (filter (\<lambda>t. \<not> routedPurpose t) (l_txs l))"

lemma core_fields [simp]:
  "t_UserID (core t) = t_UserID t" "in_period broker a b (core t) = in_period broker a b t"
  "routedPurpose (core t) = routedPurpose t" "core (core t) = core t"
  by (simp_all add: core_def in_period_def routedPurpose_def)

lemma stated_same [simp]:
  "stated (deleteTouchedMatches S l) = stated l" "stated (repointGroupTimestamps S l) = stated l"
  "stated (deleteEmptiedGroups S l) = stated l"
  by (simp_all add: stated_def deleteTouchedMatches_def repointGroupTimestamps_def deleteEmptiedGroups_def Let_def)

lemma dropResiduals_stated [simp]: "stated (dropResiduals S l) = stated l"
  by (auto simp: stated_def dropResiduals_def intro!: arg_cong [where f = "map core"] filter_cong)

lemma appends_stated:
  assumes "appends env user rows l l'" "\<forall>r \<in> set rows. routedPurpose r"
  shows "stated l' = stated l"
  using assms by (auto simp: appends_def stated_def filter_empty_conv)

lemma boundary_loop_stated: "boundary_loop env user cs l = Inr l' \<Longrightarrow> stated l' = stated l"
  by (drule boundary_loop_appends) (auto intro!: appends_stated simp: routedPurpose_def)

lemma residual_loop_stated:
  assumes "residual_loop env user rule rs l = Inr l'"
  shows "stated l' = stated l"
proof -
  obtain rows where r: "appends env user rows l l'" "list_all2 settles rs rows" using residual_loop_appends [OF assms] by blast
  have "\<forall>r \<in> set rows. routedPurpose r" using list_all2_in [OF r(2)] by (auto simp: routedPurpose_def)
  from appends_stated [OF r(1) this] show ?thesis .
qed

lemma settle_stated: "settle env user ids rule l = Inr l' \<Longrightarrow> stated l' = stated l"
  by (auto simp: settle_def routeBoundaries_def routeResiduals_def sum_then_Inr dest!: boundary_loop_stated residual_loop_stated
      split: if_splits)

lemma ss_settle_stated: "ss_settle env user s l = Inr l' \<Longrightarrow> stated l' = stated l"
  by (auto simp: ss_settle_def sum_then_Inr dest!: settle_stated)

lemma updates_stated:
  assumes "updates M g l l'"
  shows "stated l' = stated l"
proof -
  have "list_all2 (moved M g) (l_txs l) (l_txs l')" using assms by (simp add: updates_def)
  then show ?thesis unfolding stated_def
  proof (induction rule: list_all2_induct)
    case (Cons t ts t' ts')
    have "core t' = core t" "routedPurpose t' = routedPurpose t"
      using Cons.hyps(1) by (auto simp: moved_def core_def routedPurpose_def)
    then show ?case using Cons.IH by simp
  qed simp
qed

lemma change_loop_stated: "change_loop env user cs n touched l = Inr (l', touched', n') \<Longrightarrow> stated l' = stated l"
proof (induction cs arbitrary: n touched l)
  case (Cons c cs)
  let ?move = "map gm_ID (filter gm_Moving (gc_Members c))"
  let ?l1 = "fold (\<lambda>(resolved, ids). resolveOnly resolved ids) (by_type False c) l"
  have l1: "stated ?l1 = stated l" by (rule updates_stated [OF resolve_fold])
  show ?case
  proof (cases "?move = []")
    case True
    then have "change_loop env user cs n touched ?l1 = Inr (l', touched', n')" using Cons.prems by simp
    from Cons.IH [OF this] show ?thesis using l1 by simp
  next
    case False
    then obtain l2 g where new: "newGroup env user ?move ?l1 = Inr (l2, g)"
      and rest: "change_loop env user cs (n + length ?move) (ss_add g False touched)
        (fold (\<lambda>(resolved, ids). moveGroup g resolved ids) (by_type True c) l2) = Inr (l', touched', n')"
      using Cons.prems by (auto simp: Let_def sum_then_Inr)
    have "stated l2 = stated ?l1" using new by (auto simp: newGroup_def Let_def stated_def split: if_splits)
    moreover have "updates UNIV g l2 (fold (\<lambda>(resolved, ids). moveGroup g resolved ids) (by_type True c) l2)"
      by (rule move_fold) simp
    ultimately show ?thesis using Cons.IH [OF rest] updates_stated l1 by metis
  qed
qed simp

lemma applyChanges_stated: "applyChanges env user cs touched l = Inr (l', touched', n) \<Longrightarrow> stated l' = stated l"
  by (auto simp: applyChanges_def sum_then_Inr Let_def dest!: change_loop_stated)

lemma groupWritten_stated: "groupWritten env st user ids touched l = Some (Inr (l', touched')) \<Longrightarrow> stated l' = stated l"
  by (auto simp: groupWritten_def Let_def sum_then_Inr split: if_splits option.splits sum.splits dest: applyChanges_stated)

text \<open>The rows a batch is written as, one per transaction.\<close>

definition rows_of :: "Env \<Rightarrow> string \<Rightarrow> string \<Rightarrow> string option \<Rightarrow> string \<Rightarrow> nat \<Rightarrow> Tx list \<Rightarrow> string list \<Rightarrow> Weight list
    \<Rightarrow> time option list \<Rightarrow> Posting list \<Rightarrow> bool" where
  "rows_of env user broker job account i txs ids ws bs rows \<longleftrightarrow> length rows = length txs
     \<and> (\<forall>j < length txs. \<exists>txID groupID. posting_row env user broker job account (txs ! j) (ids ! (i + j)) (entry_at (i + j) ws)
          (case entry_at (i + j) bs of None \<Rightarrow> None | Some b \<Rightarrow> b) txID groupID = Inr (rows ! j))"

lemma rows_of_Cons:
  assumes "posting_row env user broker job account t (ids ! i) (entry_at i ws)
      (case entry_at i bs of None \<Rightarrow> None | Some b \<Rightarrow> b) txID groupID = Inr row"
    and "rows_of env user broker job account (i + 1) txs ids ws bs rows"
  shows "rows_of env user broker job account i (t # txs) ids ws bs (row # rows)"
  unfolding rows_of_def
proof (intro conjI allI impI)
  fix j assume "j < length (t # txs)"
  then show "\<exists>txID groupID. posting_row env user broker job account ((t # txs) ! j) (ids ! (i + j)) (entry_at (i + j) ws)
      (case entry_at (i + j) bs of None \<Rightarrow> None | Some b \<Rightarrow> b) txID groupID = Inr ((row # rows) ! j)"
    using assms unfolding rows_of_def by (cases j) auto
qed (use assms(2) in \<open>simp add: rows_of_def\<close>)

lemma insert_loop_stated:
  assumes "insert_loop env user broker job account i txs ids ws bs out l = Some (Inr (l', out'))"
    and "\<forall>t \<in> set txs. x_SyntheticPurpose t = ''''"
  shows "\<exists>rows. rows_of env user broker job account i txs ids ws bs rows \<and> stated l' = stated l @ map core rows"
  using assms
proof (induction txs arbitrary: i out l)
  case (Cons t txs)
  let ?g = "env_new_uuid env (l_uuids l)" and ?t = "env_new_uuid env (l_uuids l + 1)"
  from Cons.prems(1) obtain row where
    row: "posting_row env user broker job account t (ids ! i) (entry_at i ws)
       (case entry_at i bs of None \<Rightarrow> None | Some b \<Rightarrow> b) ?t ?g = Inr row"
    and rest: "insert_loop env user broker job account (i + 1) txs ids ws bs
       \<lparr>wr_postings = wr_postings out @ [?t], wr_groups = wr_groups out @ [?g]\<rparr> (insert_alone env user job row l) = Some (Inr (l', out'))"
    by (auto simp: entry_at_def Let_def run_then_Inr split: if_splits option.splits)
  have "\<not> routedPurpose row" using posting_row_fields [OF row] Cons.prems(2) by (simp add: routedPurpose_def nullStr_def)
  then have "stated (insert_alone env user job row l) = stated l @ [core row]" by (simp add: stated_def insert_alone_def)
  moreover obtain rows where "rows_of env user broker job account (i + 1) txs ids ws bs rows"
    "stated l' = stated (insert_alone env user job row l) @ map core rows"
    using Cons.IH [OF rest] Cons.prems(2) by auto
  ultimately show ?case using rows_of_Cons [OF row] by (intro exI [of _ "row # rows"]) simp
qed (auto simp: rows_of_def)

lemma clearPeriod_stated:
  assumes wf: "wf_ledger env l"
  shows "stated (fst (clearPeriod user broker a b l)) = filter (\<lambda>t. \<not> (t_UserID t = user \<and> in_period broker a b t)) (stated l)"
proof -
  have one: "t_UserID t = t_UserID u" if "t \<in> set (l_txs l)" "u \<in> set (l_txs l)" "t_GroupID t = t_GroupID u" for t u
  proof -
    obtain g h where "g \<in> set (l_groups l)" "h \<in> set (l_groups l)" "tg_ID g = t_GroupID t" "tg_UserID g = t_UserID t"
      "tg_ID h = t_GroupID u" "tg_UserID h = t_UserID u"
      using wf \<open>t \<in> set (l_txs l)\<close> \<open>u \<in> set (l_txs l)\<close> unfolding wf_ledger_def by metis
    moreover have "inj_on tg_ID (set (l_groups l))" using wf by (simp add: wf_ledger_def distinct_map)
    ultimately show ?thesis using that(3) by (metis inj_onD)
  qed
  have *: "(\<not> (t_GroupID t \<in> touchedGroups user broker a b l \<and> \<not> survivorPredicate broker a b t) \<and> \<not> routedPurpose t)
      = (\<not> (t_UserID t = user \<and> in_period broker a b t) \<and> \<not> routedPurpose t)" if t: "t \<in> set (l_txs l)" for t
  proof -
    have "t_UserID t = user" if "t_GroupID t \<in> touchedGroups user broker a b l"
      using that one [OF t] by (auto simp: touchedGroups_def)
    moreover have "t_GroupID t \<in> touchedGroups user broker a b l" if "t_UserID t = user" "in_period broker a b t"
      using that t by (simp add: touchedGroups_def)
    ultimately show ?thesis by (simp only: survivorPredicate_def) blast
  qed
  have d: "l_txs (fst (deleteReplacedPostings user broker a b l))
      = filter (\<lambda>t. \<not> (t_GroupID t \<in> touchedGroups user broker a b l \<and> \<not> survivorPredicate broker a b t)) (l_txs l)"
    by (simp add: deleteReplacedPostings_def Let_def)
  have "stated (fst (clearPeriod user broker a b l)) = stated (fst (deleteReplacedPostings user broker a b l))"
    by (simp add: clearPeriod_def split_beta Let_def)
  also have "\<dots> = map core (filter (\<lambda>t. \<not> routedPurpose t \<and> \<not> (t_UserID t = user \<and> in_period broker a b t)) (l_txs l))"
    unfolding stated_def d filter_filter
    by (rule arg_cong [where f = "map core"], rule filter_cong [OF refl]) (use * in blast)
  also have "\<dots> = filter (\<lambda>t. \<not> (t_UserID t = user \<and> in_period broker a b t)) (stated l)"
    by (simp add: stated_def filter_map comp_def conj_commute)
  finally show ?thesis .
qed

end
