(* ===== verification/Ledger_Cycle.thy ===== *)
theory Ledger_Cycle
  imports Ledger_Transactions
begin

text \<open>
  The grouping cycle (\<open>src/server/grouping/worker.go\<close>) run over the stored ledger:
  \<open>ListGroupingSeeds\<close> lists the seeds, each region is read from the ledger as it then stands and
  written by \<open>ApplyGrouping\<close>. A seed is read once, before the first write of the cycle: what makes it
  still a posting of the store when its turn comes is that a write disturbs only the postings of its
  own region.
\<close>

subsection \<open>The cycle over the ledger\<close>

text \<open>\<open>runInTx\<close>: a failed write leaves the ledger as it was.\<close>

definition apply_to :: "Env \<Rightarrow> Ledger \<Rightarrow> string \<Rightarrow> GroupChange list \<Rightarrow> Ledger \<times> string option" where
  "apply_to env l userID changes = (case ApplyGrouping env userID changes l of
       Inl err \<Rightarrow> (l, Some err)
     | Inr (l', n) \<Rightarrow> (l', None))"

record GroupingSeedOpts =
  so_UserID :: string
  so_Residual :: bool
  so_JobID :: string

definition seed_postings :: "Ledger \<Rightarrow> string \<Rightarrow> Posting list" where
  "seed_postings l user = filter (\<lambda>t. (user = '''' \<or> t_UserID t = user) \<and> t_Purpose t = None
     \<and> list_ex (\<lambda>g. tg_ID g = t_GroupID t) (l_groups l)
     \<and> \<not> list_ex (\<lambda>s. t_GroupID s = t_GroupID t \<and> t_Purpose s = Some InitializePurpose) (l_txs l)) (l_txs l)"

definition ListGroupingSeeds :: "Env \<Rightarrow> GroupingSeedOpts \<Rightarrow> Ledger \<Rightarrow> string + GroupingPosting list" where
  "ListGroupingSeeds env opts l =
     sum_then (if so_UserID opts = '''' then Inr ''''
               else of_option ''invalid user id'' (env_parse_uuid env (so_UserID opts))) (\<lambda>user.
     sum_then (with_error ''invalid job id: '' (parseNullUUID env (so_JobID opts))) (\<lambda>job.
     Inr (map (toDomain l) (sort_key (\<lambda>t. (t_UserID t, t_ID t)) (filter (\<lambda>t.
         (so_Residual opts \<longrightarrow> list_ex (\<lambda>r. t_GroupID r = t_GroupID t
            \<and> t_AccountType r \<in> {''IMBALANCE'', ''TRANSFER_CLEARING''}) (l_txs l))
         \<and> (case job of None \<Rightarrow> True | Some j \<Rightarrow> job_of l (t_GroupID t) = j)) (seed_postings l user))))))"

definition ledger_cycle ::
    "Env \<Rightarrow> (decimal \<Rightarrow> decimal \<Rightarrow> decimal) \<Rightarrow> Ledger \<Rightarrow> (Ledger \<times> string option \<times> Divergence) option" where
  "ledger_cycle env ddiv l =
     runCycle ddiv (ledger_reader env) (apply_to env) l
       (ListGroupingSeeds env \<lparr>so_UserID = '''', so_Residual = True, so_JobID = ''''\<rparr> l)"

subsection \<open>What a write leaves alone\<close>

definition undisturbed :: "string set \<Rightarrow> Ledger \<Rightarrow> Ledger \<Rightarrow> bool" where
  "undisturbed X l l' \<longleftrightarrow>
     (\<forall>t \<in> set (l_txs l). \<not> routedPurpose t \<longrightarrow> t_ID t \<notin> X
        \<longrightarrow> t \<in> set (l_txs l') \<and> job_of l' (t_GroupID t) = job_of l (t_GroupID t))
     \<and> (\<forall>t' \<in> set (l_txs l'). t_Purpose t' = Some InitializePurpose
        \<longrightarrow> (\<exists>t \<in> set (l_txs l). t_Purpose t = Some InitializePurpose \<and> t_GroupID t = t_GroupID t'))"

lemma undisturbed_refl [simp]: "undisturbed X l l"
  by (auto simp: undisturbed_def)

lemma undisturbed_trans:
  assumes a: "undisturbed X l1 l2" and b: "undisturbed X l2 l3"
  shows "undisturbed X l1 l3"
  unfolding undisturbed_def
proof (intro conjI ballI impI)
  fix t assume t: "t \<in> set (l_txs l1)" "\<not> routedPurpose t" "t_ID t \<notin> X"
  then have "t \<in> set (l_txs l2)" "job_of l2 (t_GroupID t) = job_of l1 (t_GroupID t)" using a by (auto simp: undisturbed_def)
  with t b show "t \<in> set (l_txs l3)" "job_of l3 (t_GroupID t) = job_of l1 (t_GroupID t)" by (auto simp: undisturbed_def)
next
  fix t' assume "t' \<in> set (l_txs l3)" "t_Purpose t' = Some InitializePurpose"
  then obtain t where "t \<in> set (l_txs l2)" "t_Purpose t = Some InitializePurpose" "t_GroupID t = t_GroupID t'"
    using b unfolding undisturbed_def by blast
  then obtain s where "s \<in> set (l_txs l1)" "t_Purpose s = Some InitializePurpose" "t_GroupID s = t_GroupID t'"
    using a unfolding undisturbed_def by metis
  then show "\<exists>t \<in> set (l_txs l1). t_Purpose t = Some InitializePurpose \<and> t_GroupID t = t_GroupID t'" by blast
qed

lemma undisturbed_mono: "X \<subseteq> Y \<Longrightarrow> undisturbed X l l' \<Longrightarrow> undisturbed Y l l'"
  unfolding undisturbed_def by blast

definition no_pads :: "string set \<Rightarrow> Ledger \<Rightarrow> bool" where
  "no_pads X l \<longleftrightarrow> (\<forall>t \<in> set (l_txs l). t_ID t \<in> X \<longrightarrow> t_Purpose t \<noteq> Some InitializePurpose)"

lemma no_pads_updates:
  assumes "updates M g l l'" "no_pads X l"
  shows "no_pads X l'"
  unfolding no_pads_def
proof (intro ballI impI)
  fix t' assume t': "t' \<in> set (l_txs l')" "t_ID t' \<in> X"
  obtain t where "t \<in> set (l_txs l)" "moved M g t t'"
    using list_all2_in [of "moved M g" "l_txs l" "l_txs l'" t'] assms(1) t'(1) by (auto simp: updates_def)
  then show "t_Purpose t' \<noteq> Some InitializePurpose" using moved_fields [of M g t t'] assms(2) t'(2) by (auto simp: no_pads_def)
qed

lemma job_of_groups: "l_groups l' = l_groups l \<Longrightarrow> job_of l' g = job_of l g"
  by (simp add: job_of_def)

lemma resolveOnly_undisturbed: "set ids \<subseteq> X \<Longrightarrow> undisturbed X l (resolveOnly r ids l)"
  unfolding undisturbed_def resolveOnly_def by (force intro: job_of_groups simp: image_iff)

lemma moveGroup_undisturbed: "set ids \<subseteq> X \<Longrightarrow> no_pads X l \<Longrightarrow> undisturbed X l (moveGroup g r ids l)"
  unfolding undisturbed_def moveGroup_def no_pads_def by (force intro: job_of_groups simp: image_iff)

lemma resolve_fold_undisturbed:
  "\<forall>(r, ids) \<in> set rs. set ids \<subseteq> X \<Longrightarrow> undisturbed X l (fold (\<lambda>(resolved, ids). resolveOnly resolved ids) rs l)"
proof (induction rs arbitrary: l)
  case (Cons r rs)
  then have "set (snd r) \<subseteq> X" "\<forall>(r, ids) \<in> set rs. set ids \<subseteq> X" by (auto simp: split_beta)
  then show ?case using undisturbed_trans [OF resolveOnly_undisturbed Cons.IH] by (simp add: split_beta)
qed simp

lemma move_fold_undisturbed:
  "\<forall>(r, ids) \<in> set rs. set ids \<subseteq> X \<Longrightarrow> no_pads X l \<Longrightarrow> undisturbed X l (fold (\<lambda>(resolved, ids). moveGroup g resolved ids) rs l)"
proof (induction rs arbitrary: l)
  case (Cons r rs)
  then have X: "set (snd r) \<subseteq> X" "\<forall>(r, ids) \<in> set rs. set ids \<subseteq> X" by (auto simp: split_beta)
  have "no_pads X (moveGroup g (fst r) (snd r) l)"
    by (rule no_pads_updates [OF moveGroup_updates [OF subset_UNIV] Cons.prems(2)])
  then show ?case using undisturbed_trans [OF moveGroup_undisturbed [OF X(1) Cons.prems(2)] Cons.IH [OF X(2)]] by (simp add: split_beta)
qed simp

lemma newGroup_undisturbed:
  assumes "newGroup env user move l = Inr (l', g)"
  shows "undisturbed X l l'"
proof -
  have "l_txs l' = l_txs l" "\<exists>h. l_groups l' = l_groups l @ [h] \<and> tg_JobID h = None"
    using assms by (auto simp: newGroup_def Let_def split: if_splits)
  then show ?thesis by (auto simp: undisturbed_def job_of_def map_add_def split: option.splits if_splits)
qed

lemma change_loop_undisturbed:
  assumes "change_loop env user cs n touched l = Inr (l', touched', n')" "no_pads X l"
    and "\<forall>c \<in> set cs. gm_ID ` set (gc_Members c) \<subseteq> X"
  shows "undisturbed X l l'"
  using assms
proof (induction cs arbitrary: n touched l)
  case (Cons c cs)
  let ?move = "map gm_ID (filter gm_Moving (gc_Members c))"
  let ?l1 = "fold (\<lambda>(resolved, ids). resolveOnly resolved ids) (by_type False c) l"
  have ids: "\<forall>(r, ids) \<in> set (by_type b c). set ids \<subseteq> X" for b
  proof -
    have "gm_ID ` {m \<in> set (gc_Members c). gm_Moving m = b} \<subseteq> X" using Cons.prems(3) by auto
    then show ?thesis using by_type_ids [of b c] by fast
  qed
  have l1: "undisturbed X l ?l1" "no_pads X ?l1"
    by (rule resolve_fold_undisturbed [OF ids]) (rule no_pads_updates [OF resolve_fold Cons.prems(2)])
  have rest3: "\<forall>c \<in> set cs. gm_ID ` set (gc_Members c) \<subseteq> X" using Cons.prems(3) by simp
  show ?case
  proof (cases "?move = []")
    case True
    then have "change_loop env user cs n touched ?l1 = Inr (l', touched', n')" using Cons.prems(1) by simp
    from undisturbed_trans [OF l1(1) Cons.IH [OF this l1(2) rest3]] show ?thesis .
  next
    case False
    then obtain l2 g where new: "newGroup env user ?move ?l1 = Inr (l2, g)"
      and rest: "change_loop env user cs (n + length ?move) (ss_add g False touched)
        (fold (\<lambda>(resolved, ids). moveGroup g resolved ids) (by_type True c) l2) = Inr (l', touched', n')"
      using Cons.prems(1) by (auto simp: Let_def sum_then_Inr)
    let ?l3 = "fold (\<lambda>(resolved, ids). moveGroup g resolved ids) (by_type True c) l2"
    have "l_txs l2 = l_txs ?l1" using new by (auto simp: newGroup_def Let_def split: if_splits)
    then have p2: "no_pads X l2" using l1(2) by (simp add: no_pads_def)
    have "updates UNIV g l2 ?l3" by (rule move_fold) simp
    note p3 = no_pads_updates [OF this p2]
    show ?thesis
      by (rule undisturbed_trans [OF l1(1) undisturbed_trans [OF newGroup_undisturbed [OF new]
            undisturbed_trans [OF move_fold_undisturbed [OF ids p2] Cons.IH [OF rest p3 rest3]]]])
  qed
qed simp

lemma appends_undisturbed:
  assumes app: "appends env user rows l l'" and routed: "\<forall>r \<in> set rows. t_Purpose r \<noteq> Some InitializePurpose"
  shows "undisturbed X l l'"
proof -
  have l': "l_txs l' = l_txs l @ rows" "l_groups l' = l_groups l" using app by (simp_all add: appends_def)
  show ?thesis using routed by (auto simp: undisturbed_def l'(1) job_of_groups [OF l'(2)])
qed

lemma purposes_differ: "RoutedPurpose \<noteq> InitializePurpose" "BoundaryPurpose \<noteq> InitializePurpose"
  by (simp_all add: RoutedPurpose_def BoundaryPurpose_def InitializePurpose_def)

lemma settle_undisturbed:
  assumes "settle env user ids rule l = Inr l'"
  shows "undisturbed X l l'"
proof (cases "ids = []")
  case False
  then obtain l1 where b: "boundary_loop env user (boundaryCandidates l (set ids)) l = Inr l1"
    and r: "residual_loop env user rule (groupResiduals env l1 (set ids)) l1 = Inr l'"
    using assms by (auto simp: settle_def routeBoundaries_def routeResiduals_def sum_then_Inr)
  obtain rows where "appends env user rows l l1" "\<forall>r \<in> set rows. t_Purpose r = Some BoundaryPurpose"
    using boundary_loop_appends [OF b] by blast
  then have "undisturbed X l l1" using purposes_differ by (intro appends_undisturbed) auto
  moreover obtain rows' where rows': "appends env user rows' l1 l'" "list_all2 settles (groupResiduals env l1 (set ids)) rows'"
    using residual_loop_appends [OF r] by blast
  have "\<forall>r \<in> set rows'. t_Purpose r = Some RoutedPurpose" using list_all2_in [OF rows'(2)] by blast
  then have "undisturbed X l1 l'" using purposes_differ by (intro appends_undisturbed [OF rows'(1)]) auto
  ultimately show ?thesis by (rule undisturbed_trans)
qed (use assms in \<open>simp add: settle_def\<close>)

lemma ss_settle_undisturbed: "ss_settle env user s l = Inr l' \<Longrightarrow> undisturbed X l l'"
  by (auto simp: ss_settle_def sum_then_Inr intro: undisturbed_trans dest!: settle_undisturbed)

lemma map_of_filter_keys:
  assumes "P k"
  shows "map_of (map (\<lambda>x. (key x, v x)) (filter (\<lambda>x. P (key x)) xs)) k = map_of (map (\<lambda>x. (key x, v x)) xs) k"
  using assms by (induction xs) auto

text \<open>The statements that clean up after a regroup: routed legs go, and with them groups left empty.\<close>

lemma cleanup_undisturbed:
  "undisturbed X l (deleteTouchedMatches S (repointGroupTimestamps S (deleteEmptiedGroups S (dropResiduals S l))))"
proof -
  let ?l1 = "dropResiduals S l"
  let ?l2 = "deleteEmptiedGroups S ?l1"
  have kept: "t \<in> set (l_txs ?l1)" if "t \<in> set (l_txs l)" "\<not> routedPurpose t" for t using that by (auto simp: dropResiduals_def)
  have "l_groups ?l1 = l_groups l" by (simp add: dropResiduals_def)
  note job1 = job_of_groups [OF this]
  have "undisturbed X l ?l1" unfolding undisturbed_def job1 by (auto simp: dropResiduals_def)
  moreover have "undisturbed X ?l1 ?l2"
  proof -
    have "job_of ?l2 (t_GroupID t) = job_of ?l1 (t_GroupID t)" if t: "t \<in> set (l_txs ?l1)" for t
    proof -
      let ?P = "\<lambda>g. \<not> (g \<in> S \<and> \<not> list_ex (\<lambda>t. t_GroupID t = g) (l_txs ?l1))"
      have "?P (t_GroupID t)" using t by (auto simp: list_ex_iff)
      from map_of_filter_keys [where P = ?P, OF this, of tg_ID tg_JobID "l_groups ?l1"]
      show ?thesis unfolding job_of_def by (simp add: deleteEmptiedGroups_def Let_def)
    qed
    then show ?thesis by (auto simp: undisturbed_def deleteEmptiedGroups_def Let_def)
  qed
  moreover have "undisturbed X ?l2 (deleteTouchedMatches S (repointGroupTimestamps S ?l2))"
  proof -
    have "map (\<lambda>tg. (tg_ID tg, tg_JobID tg)) (l_groups (repointGroupTimestamps S ?l2)) = map (\<lambda>tg. (tg_ID tg, tg_JobID tg)) (l_groups ?l2)"
      by (simp add: repointGroupTimestamps_def comp_def if_distrib cong: if_cong)
    then have "job_of (deleteTouchedMatches S (repointGroupTimestamps S ?l2)) g = job_of ?l2 g" for g
      by (simp add: job_of_def deleteTouchedMatches_def)
    then show ?thesis by (auto simp: undisturbed_def deleteTouchedMatches_def repointGroupTimestamps_def)
  qed
  ultimately show ?thesis by (blast intro: undisturbed_trans)
qed

lemma ApplyGrouping_undisturbed:
  assumes run: "ApplyGrouping env userID changes l = Inr (l', n)" and pads: "no_pads X l"
    and ids: "\<forall>c \<in> set changes. gm_ID ` set (gc_Members c) \<subseteq> X"
  shows "undisturbed X l l'"
proof (cases "changes = []")
  case False
  then obtain user l1 touched where a: "applyChanges env user changes ss_empty l = Inr (l1, touched, n)"
    and s: "ss_settle env user touched l1 = Inr l'"
    using run by (auto simp: ApplyGrouping_def sum_then_Inr split: option.splits)
  obtain l0 where "change_loop env user changes 0 (fold touch_from (concat (map gc_Members changes)) ss_empty) l = Inr (l0, touched, n)"
    and l1: "l1 = deleteTouchedMatches (set (ss_all touched)) (repointGroupTimestamps (set (ss_all touched))
       (deleteEmptiedGroups (set (ss_all touched)) (dropResiduals (set (ss_all touched)) l0)))"
    using a by (auto simp: applyChanges_def sum_then_Inr Let_def)
  then have "undisturbed X l l0" using change_loop_undisturbed [OF _ pads ids] by blast
  then have "undisturbed X l l1" unfolding l1 by (rule undisturbed_trans) (rule cleanup_undisturbed)
  then show ?thesis by (rule undisturbed_trans) (rule ss_settle_undisturbed [OF s])
qed (use run in \<open>auto simp: ApplyGrouping_def split: option.splits\<close>)

lemma rows_undisturbed:
  assumes und: "undisturbed X l l'" and wf: "wf_ledger env l'" and p: "p \<in> set (grouping_rows l v)" "p_ID p \<notin> X"
  shows "p \<in> set (grouping_rows l' v)"
proof -
  obtain t where t: "t \<in> set (transcribedPostings l v)" "p = toDomain l t" using p(1) by (auto simp: grouping_rows_def)
  then have t': "t \<in> set (l_txs l)" "t_UserID t = v" "t_Purpose t = None" "t_ID t \<notin> X"
    and alone: "\<And>s. s \<in> set (l_txs l) \<Longrightarrow> t_GroupID s = t_GroupID t \<Longrightarrow> t_Purpose s \<noteq> Some InitializePurpose"
    using p(2) by (auto simp: transcribedPostings_def toDomain_def list_ex_iff)
  then have keep: "t \<in> set (l_txs l')" "job_of l' (t_GroupID t) = job_of l (t_GroupID t)"
    using und by (auto simp: undisturbed_def routedPurpose_def)
  have "\<exists>g \<in> set (l_groups l'). tg_ID g = t_GroupID t" using wf keep(1) unfolding wf_ledger_def by blast
  moreover have "t_Purpose s \<noteq> Some InitializePurpose" if "s \<in> set (l_txs l')" "t_GroupID s = t_GroupID t" for s
    using und alone that unfolding undisturbed_def by metis
  ultimately have "t \<in> set (transcribedPostings l' v)" using keep(1) t' by (auto simp: transcribedPostings_def list_ex_iff)
  moreover have "p = toDomain l' t" using t(2) keep(2) by (simp add: toDomain_def)
  ultimately show ?thesis by (simp add: grouping_rows_def)
qed

subsection \<open>A cycle keeps the invariant\<close>

lemma ApplyGrouping_stated:
  assumes "ApplyGrouping env userID changes l = Inr (l', n)"
  shows "stated l' = stated l"
proof (cases "changes = []")
  case False
  then obtain user l1 touched where "applyChanges env user changes ss_empty l = Inr (l1, touched, n)"
    "ss_settle env user touched l1 = Inr l'"
    using assms by (auto simp: ApplyGrouping_def sum_then_Inr split: option.splits)
  then show ?thesis using applyChanges_stated ss_settle_stated by metis
qed (use assms in \<open>auto simp: ApplyGrouping_def split: option.splits\<close>)

lemma Diff_accurate:
  assumes part: "partition_of ps gs" and rows: "set ps \<subseteq> set (grouping_rows l user)" and Diff: "Diff ps gs = Some cs"
  shows "accurate l user cs"
  unfolding accurate_def
proof (intro conjI ballI impI)
  fix c m assume c: "c \<in> set cs" "m \<in> set (gc_Members c)" "gm_Moving m"
  then obtain p where p: "p \<in> set ps" "p_ID p = gm_ID m" "p_GroupID p = gm_FromGroupID m"
    using Diff_member [OF part Diff c(1,2)] by auto
  obtain t where "t \<in> set (l_txs l)" "t_ID t = p_ID p" "t_GroupID t = p_GroupID p" "t_UserID t = user" "t_Purpose t = None"
    using grouping_row [OF set_mp [OF rows p(1)]] .
  then show "\<exists>t \<in> set (l_txs l). t_ID t = gm_ID m \<and> t_GroupID t = gm_FromGroupID m \<and> t_UserID t = user \<and> t_Purpose t = None"
    using p by auto
qed (use Diff_member [OF part Diff] in force)

lemma Diff_ids:
  assumes part: "partition_of ps gs" and Diff: "Diff ps gs = Some cs"
  shows "\<forall>c \<in> set cs. gm_ID ` set (gc_Members c) \<subseteq> ids_of ps"
proof
  fix c assume "c \<in> set cs"
  moreover have "cs = concat (map (\<lambda>g. the (diff_group ps g)) gs)" using Diff Diff_eq [OF part subset_refl] by simp
  ultimately obtain g where g: "g \<in> set gs" "c \<in> set (the (diff_group ps g))" by auto
  from g(2) have "gc_Members c = retypes ps g \<or> gc_Members c = moves ps g"
    unfolding diff_group_eq [OF part g(1)] by (auto split: if_splits)
  then have "gm_ID ` set (gc_Members c) \<subseteq> group_ids g" by (auto simp: retypes_def moves_def)
  then show "gm_ID ` set (gc_Members c) \<subseteq> ids_of ps" using partition_of_group(2) [OF part g(1)] by (rule subset_trans)
qed

lemma rows_no_pads:
  assumes wf: "wf_ledger env l" and rows: "set ps \<subseteq> set (grouping_rows l user)"
  shows "no_pads (ids_of ps) l"
  unfolding no_pads_def
proof (intro ballI impI)
  fix t assume t: "t \<in> set (l_txs l)" "t_ID t \<in> ids_of ps"
  then obtain p where p: "p \<in> set ps" "p_ID p = t_ID t" by auto
  obtain s where s: "s \<in> set (l_txs l)" "t_ID s = p_ID p" "t_Purpose s = None" using grouping_row [OF set_mp [OF rows p(1)]] .
  have "inj_on t_ID (set (l_txs l))" using wf by (simp add: wf_ledger_def distinct_map)
  then have "t = s" using t(1) s(1,2) p(2) by (metis inj_onD)
  then show "t_Purpose t \<noteq> Some InitializePurpose" using s(3) by simp
qed

abbreviation own_ids :: "string \<Rightarrow> Ledger \<Rightarrow> string set" where
  "own_ids user l \<equiv> t_ID ` {t \<in> set (stated l). t_UserID t = user}"

lemma own_ids_rows: "ids_of (grouping_rows l user) \<subseteq> own_ids user l"
proof
  fix i assume "i \<in> ids_of (grouping_rows l user)"
  then obtain p where p: "p \<in> set (grouping_rows l user)" "i = p_ID p" by auto
  obtain t where t: "t \<in> set (l_txs l)" "t_ID t = p_ID p" "t_UserID t = user" "t_Purpose t = None" using grouping_row [OF p(1)] .
  then have "core t \<in> set (stated l)" by (auto simp: stated_def routedPurpose_def)
  moreover have "t_ID (core t) = i" using t(2) p(2) by (simp add: core_def)
  ultimately show "i \<in> own_ids user l" using t(3) by (intro image_eqI [of i t_ID "core t"]) simp_all
qed

lemma cycle_seeds_ok:
  assumes env: "env_ok env" and user: "env_parse_uuid env u = Some u"
    and "ledger_ok env l" "\<forall>s \<in> set seeds. p_ID s \<in> dn \<or> s \<in> set (grouping_rows l u)"
  shows "\<exists>l' r. cycle_seeds (ledger_reader env) (apply_to env) (DefaultRules ddiv) opts u dn tot l seeds = Some (l', r)
    \<and> ledger_ok env l' \<and> stated l' = stated l \<and> undisturbed (own_ids u l) l l'"
  using assms(3,4)
proof (induction seeds arbitrary: l dn tot)
  case (Cons s seeds)
  show ?case
  proof (cases "p_ID s \<in> dn")
    case True
    then show ?thesis using Cons.IH [OF Cons.prems(1)] Cons.prems(2) by simp
  next
    case False
    have wf: "wf_ledger env l" using Cons.prems(1) by (simp add: ledger_ok_def)
    note lr = ledger_rows [OF env wf, of u]
    have s: "set [s] \<subseteq> set (grouping_rows l u)" using Cons.prems(2) False by auto
    obtain ps where ps: "Neighbourhood u [s] (DefaultRules ddiv) (ledger_reader env l) = Some (Inr ps)"
      "set ps = {q. \<exists>x \<in> set [s]. (store_link (grouping_rows l u))\<^sup>*\<^sup>* x q}" "sorted_wrt (<) (map p_ID ps)"
      using region.neighbourhood_result [of "\<lambda>u. env_parse_uuid env u \<noteq> None" u "grouping_rows l" "[s]" ddiv] user lr(1) s
      unfolding linked_store_link ledger_reader_def by blast
    have rows: "set ps \<subseteq> set (grouping_rows l u)" using ps(2) region_rows s by auto
    then have "proper ps" using ps(3) lr(2) by (auto simp: proper_def strict_sorted_iff image_iff)
    note part = partition_of_Partition [OF this, of ddiv opts]
    obtain cs where cs: "Diff ps (Partition ps (DefaultRules ddiv) opts) = Some cs" using Diff_eq [OF part subset_refl] by blast
    note acc = Diff_accurate [OF part rows cs] and pads = rows_no_pads [OF wf rows] and ids = Diff_ids [OF part cs]
    have own: "ids_of ps \<subseteq> own_ids u l" using own_ids_rows [of l u] rows by (meson image_mono subset_trans)
    let ?tot = "add_divergence (Compare ps (Partition ps (DefaultRules ddiv) opts)) tot"
    obtain w err where w: "(if length cs > 0 then apply_to env l u cs else (l, None)) = (w, err)" by fastforce
    have step: "cycle_seeds (ledger_reader env) (apply_to env) (DefaultRules ddiv) opts u dn tot l (s # seeds) = (case err of
        Some e \<Rightarrow> Some (w, Inl e)
      | None \<Rightarrow> cycle_seeds (ledger_reader env) (apply_to env) (DefaultRules ddiv) opts u (dn \<union> ids_of ps) ?tot w seeds)"
      using False ps(1) cs w by (simp add: Let_def)
    have w_ok: "ledger_ok env w \<and> stated w = stated l \<and> undisturbed (ids_of ps) l w"
    proof (cases "ApplyGrouping env u cs l")
      case (Inr r)
      obtain l1 n where l1: "ApplyGrouping env u cs l = Inr (l1, n)" using Inr by (cases r) simp
      have "ledger_ok env l1" by (rule ApplyGrouping_ok [OF l1 env Cons.prems(1)]) (use acc user in simp)
      with ApplyGrouping_stated [OF l1] ApplyGrouping_undisturbed [OF l1 pads ids] show ?thesis
        using w l1 Cons.prems(1) by (auto simp: apply_to_def split: if_splits)
    qed (use w Cons.prems(1) in \<open>auto simp: apply_to_def split: if_splits\<close>)
    then have und: "undisturbed (own_ids u l) l w" using undisturbed_mono [OF own] by blast
    show ?thesis
    proof (cases err)
      case None
      have "\<forall>s \<in> set seeds. p_ID s \<in> dn \<union> ids_of ps \<or> s \<in> set (grouping_rows w u)"
        using Cons.prems(2) rows_undisturbed [of "ids_of ps" l w env _ u] w_ok by (auto simp: ledger_ok_def)
      from Cons.IH [of w, OF _ this, of ?tot] w_ok obtain l' r where
        "cycle_seeds (ledger_reader env) (apply_to env) (DefaultRules ddiv) opts u (dn \<union> ids_of ps) ?tot w seeds = Some (l', r)"
        "ledger_ok env l'" "stated l' = stated l" "undisturbed (own_ids u l) w l'" by auto
      then show ?thesis using step None undisturbed_trans [OF und] by simp
    qed (use step w_ok und in auto)
  qed
qed auto

text \<open>The stored user ids are written as the store writes an id.\<close>

definition canonical :: "Env \<Rightarrow> Ledger \<Rightarrow> bool" where
  "canonical env l \<longleftrightarrow> (\<forall>t \<in> set (stated l). env_parse_uuid env (t_UserID t) = Some (t_UserID t))"

lemma other_users_rows:
  assumes wf: "wf_ledger env l" and p: "p \<in> set (grouping_rows l v)" and "u \<noteq> v"
  shows "p_ID p \<notin> own_ids u l"
proof
  assume "p_ID p \<in> own_ids u l"
  then obtain s where s: "s \<in> set (l_txs l)" "t_ID s = p_ID p" "t_UserID s = u" by (auto simp: stated_def core_def)
  obtain t where t: "t \<in> set (l_txs l)" "t_ID t = p_ID p" "t_UserID t = v" using grouping_row [OF p] .
  have "inj_on t_ID (set (l_txs l))" using wf by (simp add: wf_ledger_def distinct_map)
  then have "s = t" using s(1,2) t(1,2) by (metis inj_onD)
  then show False using s(3) t(3) \<open>u \<noteq> v\<close> by simp
qed

lemma cycle_users_ok:
  assumes env: "env_ok env" and "ledger_ok env l" "distinct us"
    and "\<forall>v \<in> set us. env_parse_uuid env v = Some v \<and> set (byUser seeds v) \<subseteq> set (grouping_rows l v)"
  shows "\<exists>l' err d. cycle_users ddiv (ledger_reader env) (apply_to env) seeds l failed tot us = Some (l', err, d)
    \<and> ledger_ok env l' \<and> stated l' = stated l"
  using assms(2-4)
proof (induction us arbitrary: l failed tot)
  case (Cons u us)
  have u: "env_parse_uuid env u = Some u" "\<forall>s \<in> set (byUser seeds u). p_ID s \<in> {} \<or> s \<in> set (grouping_rows l u)"
    using Cons.prems(3) by auto
  from cycle_seeds_ok [OF env u(1) Cons.prems(1) u(2)] obtain l1 r where
    c: "cycleUser ddiv (ledger_reader env) (apply_to env) l u (byUser seeds u) = Some (l1, r)"
    and l1: "ledger_ok env l1" "stated l1 = stated l" "undisturbed (own_ids u l) l l1" unfolding cycleUser_def by blast
  have wf: "wf_ledger env l" "wf_ledger env l1" using Cons.prems(1) l1(1) by (simp_all add: ledger_ok_def)
  have "set (byUser seeds v) \<subseteq> set (grouping_rows l1 v)" if v: "v \<in> set us" for v
  proof
    fix p assume "p \<in> set (byUser seeds v)"
    then have p: "p \<in> set (grouping_rows l v)" using Cons.prems(3) v by auto
    have "u \<noteq> v" using Cons.prems(2) v by auto
    from rows_undisturbed [OF l1(3) wf(2) p other_users_rows [OF wf(1) p this]] show "p \<in> set (grouping_rows l1 v)" .
  qed
  then have "\<forall>v \<in> set us. env_parse_uuid env v = Some v \<and> set (byUser seeds v) \<subseteq> set (grouping_rows l1 v)"
    using Cons.prems(3) by simp
  from Cons.IH [OF l1(1) _ this] Cons.prems(2) c l1(2) show ?case by (cases r) auto
qed auto

lemma ListGroupingSeeds_rows:
  assumes "ListGroupingSeeds env opts l = Inr seeds" "s \<in> set seeds"
  shows "s \<in> set (grouping_rows l (p_UserID s))" "\<exists>t \<in> set (stated l). t_UserID t = p_UserID s"
proof -
  obtain user t where t: "t \<in> set (seed_postings l user)" "s = toDomain l t"
    using assms by (auto simp: ListGroupingSeeds_def sum_then_Inr)
  then have "t \<in> set (transcribedPostings l (p_UserID s))" by (simp add: seed_postings_def transcribedPostings_def toDomain_def)
  then show "s \<in> set (grouping_rows l (p_UserID s))" using t(2) by (simp add: grouping_rows_def)
  have "t \<in> set (l_txs l)" "\<not> routedPurpose t" using t(1) by (simp_all add: seed_postings_def routedPurpose_def)
  then have "core t \<in> set (stated l)" by (simp add: stated_def)
  moreover have "t_UserID (core t) = p_UserID s" using t(2) by (simp add: toDomain_def)
  ultimately show "\<exists>t \<in> set (stated l). t_UserID t = p_UserID s" by blast
qed

lemma ledger_cycle_ok:
  assumes env: "env_ok env" and ok: "ledger_ok env l" and users: "canonical env l"
  shows "\<exists>l' err d. ledger_cycle env ddiv l = Some (l', err, d) \<and> ledger_ok env l' \<and> stated l' = stated l"
proof -
  let ?opts = "\<lparr>so_UserID = '''', so_Residual = True, so_JobID = ''''\<rparr>"
  obtain seeds where seeds: "ListGroupingSeeds env ?opts l = Inr seeds"
    by (simp add: ListGroupingSeeds_def sum_then_def parseNullUUID_def with_error_def)
  note rows = ListGroupingSeeds_rows [OF seeds]
  have us: "set (usersOf seeds) \<subseteq> p_UserID ` set seeds" using set_first_by [of p_UserID "{}" seeds] by (auto simp: usersOf_def)
  have "\<forall>v \<in> set (usersOf seeds). env_parse_uuid env v = Some v \<and> set (byUser seeds v) \<subseteq> set (grouping_rows l v)"
  proof
    fix v assume "v \<in> set (usersOf seeds)"
    then obtain s where "s \<in> set seeds" "p_UserID s = v" using us by auto
    then have "env_parse_uuid env v = Some v" using rows(2) users unfolding canonical_def by metis
    moreover have "set (byUser seeds v) \<subseteq> set (grouping_rows l v)" using rows(1) by (auto simp: byUser_def)
    ultimately show "env_parse_uuid env v = Some v \<and> set (byUser seeds v) \<subseteq> set (grouping_rows l v)" by simp
  qed
  moreover have "distinct (usersOf seeds)" by (simp add: usersOf_def distinct_first_by)
  ultimately show ?thesis using cycle_users_ok [OF env ok] ok seeds by (simp add: ledger_cycle_def runCycle_def)
qed

end
