(* ===== verification/Ingest.thy ===== *)
theory Ingest
  imports Ledger_Cycle
begin

text \<open>
  The ingestion of one batch, \<open>ingestBatch\<close> of \<open>src/server/service/ingestion/ingest.go\<close>: validate,
  resolve the declared types, resolve the instruments, check classes and weights, and store. It
  composes the validation and weighing of \<open>Balance\<close> with the transactions of \<open>Ledger\<close>.

  Resolving instruments (\<open>proposeCandidates\<close> and \<open>resolveInstruments\<close>, which call identifier
  plugins) is a parameter: from the batch and the row indices to an error, under the field it is
  reported against, or an instrument id per transaction. So is the store's read of instruments.
  The result is \<open>None\<close> for a panic, and otherwise the ledger left behind, the reporter with the
  problems recorded, and an error or what was stored.
\<close>

subsection \<open>One batch\<close>

record ingestParams =
  ip_UserID :: string
  ip_Broker :: string
  ip_JobID :: string
  ip_Txs :: "Tx option list"
  ip_ShareCountBasis :: "time option list"
  ip_PeriodFrom :: "time option"
  ip_PeriodBefore :: "time option"
  ip_RowIndices :: "int list option"
  ip_TotalDeclared :: bool

record ingestResult =
  ir_Stored :: nat
  ir_InstrumentIDs :: "string list"

record PartReporter =
  rp_errs :: "ValidationError list"
  rp_total :: "nat option"

definition rep_Errs :: "ValidationError list \<Rightarrow> PartReporter \<Rightarrow> PartReporter" where
  "rep_Errs es rep = rep\<lparr>rp_errs := rp_errs rep @ es\<rparr>"

definition rep_Errf :: "int \<Rightarrow> string \<Rightarrow> string \<Rightarrow> PartReporter \<Rightarrow> PartReporter" where
  "rep_Errf row field message rep =
     rep\<lparr>rp_errs := rp_errs rep @ [\<lparr>ve_RowIndex = row, ve_Field = field, ve_Message = message\<rparr>]\<rparr>"

definition rep_Total :: "nat \<Rightarrow> PartReporter \<Rightarrow> PartReporter" where
  "rep_Total n rep = rep\<lparr>rp_total := Some n\<rparr>"

definition errBatchRejected :: string where "errBatchRejected = ''batch rejected''"

definition resolve_type :: "Tx option \<Rightarrow> Tx option" where
  "resolve_type txp = (case txp of
       None \<Rightarrow> None
     | Some tx \<Rightarrow> map_option (\<lambda>r. tx\<lparr>x_ResolvedTxType := r\<rparr>) (Resolve_loop (x_BrokerTxType tx)))"

definition row_indices :: "int list option \<Rightarrow> nat \<Rightarrow> int list" where
  "row_indices given n = map (\<lambda>i. case given of
       None \<Rightarrow> int i | Some is \<Rightarrow> if i < length is then is ! i else int i) [0..<n]"

type_synonym outcome = "Ledger \<times> PartReporter \<times> (string + ingestResult)"

text \<open>What a store call leaves: the ledger it commits, or the one before with the error reported.\<close>

definition stored :: "Ledger \<Rightarrow> PartReporter \<Rightarrow> string \<Rightarrow> ingestResult \<Rightarrow> (string + Ledger) option \<Rightarrow> outcome option" where
  "stored l rep what out m = (case m of
       None \<Rightarrow> None
     | Some (Inl err) \<Rightarrow> Some (l, rep_Errf (- 1) ''txs'' err rep, Inl (what @ err))
     | Some (Inr l') \<Rightarrow> Some (l', rep, Inr out))"

text \<open>The checks between resolution and the store: the reporter, and the rejection or the weights.\<close>

definition check_batch ::
    "Env \<Rightarrow> (string list \<Rightarrow> string + InstrumentRow option list) \<Rightarrow> Tx list \<Rightarrow> int list \<Rightarrow> string list \<Rightarrow> PartReporter
     \<Rightarrow> (PartReporter \<times> (string + Weight list)) option" where
  "check_batch env listed txs rowIdx instrumentIDs rep =
     (case instrumentsByID listed instrumentIDs of
        Inl err \<Rightarrow> Some (rep_Errf (- 1) ''txs'' err rep, Inl (''load instruments: '' @ err))
      | Inr instByID \<Rightarrow> (case validateAssetClasses txs rowIdx instrumentIDs instByID of
          None \<Rightarrow> None
        | Some classErrs \<Rightarrow>
            if classErrs \<noteq> [] then Some (rep_Errs classErrs rep, Inl errBatchRejected)
            else let balanceInsts = balanceInstruments instByID in
              (case validateWeightNeutrality (env_parse_dec env) txs rowIdx instrumentIDs balanceInsts of
                 None \<Rightarrow> None
               | Some wErrs \<Rightarrow>
                   if wErrs \<noteq> [] then Some (rep_Errs wErrs rep, Inl errBatchRejected)
                   else map_option (\<lambda>ws. (rep, Inr ws)) (weights (env_parse_dec env) txs instrumentIDs balanceInsts))))"

definition ingestBatch ::
    "Env \<Rightarrow> settler option \<Rightarrow> (Tx list \<Rightarrow> int list \<Rightarrow> (string \<times> string \<times> string) + string list)
     \<Rightarrow> (string list \<Rightarrow> string + InstrumentRow option list) \<Rightarrow> ingestParams \<Rightarrow> PartReporter \<Rightarrow> Ledger \<Rightarrow> outcome option" where
  "ingestBatch env settler resolve listed p rep l =
     (let errs = ValidateTxs (ip_Txs p) in
      if errs \<noteq> [] then Some (l, rep_Errs errs rep, Inl errBatchRejected)
      else case those (map resolve_type (ip_Txs p)) of
        None \<Rightarrow> None
      | Some txs \<Rightarrow>
          let replacing = ip_PeriodFrom p \<noteq> None \<and> ip_PeriodBefore p \<noteq> None; clearing = replacing \<and> txs = [] in
          if txs = [] \<and> \<not> clearing then Some (l, rep, Inr \<lparr>ir_Stored = 0, ir_InstrumentIDs = []\<rparr>)
          else
            let rep = (if \<not> ip_TotalDeclared p then rep_Total (length txs) rep else rep);
                rowIdx = row_indices (ip_RowIndices p) (length txs) in
            if clearing then
              stored l rep ''clear period: '' \<lparr>ir_Stored = 0, ir_InstrumentIDs = []\<rparr>
                (ReplaceTxsInPeriod env settler (ip_UserID p) (ip_Broker p) (ip_JobID p) (ip_PeriodFrom p) (ip_PeriodBefore p)
                   [] [] [] [] l)
            else case resolve txs rowIdx of
                Inl (field, what, err) \<Rightarrow> Some (l, rep_Errf (- 1) field err rep, Inl (what @ err))
              | Inr instrumentIDs \<Rightarrow> (case check_batch env listed txs rowIdx instrumentIDs rep of
                  None \<Rightarrow> None
                | Some (rep, Inl err) \<Rightarrow> Some (l, rep, Inl err)
                | Some (rep, Inr txWeights) \<Rightarrow>
                    stored l rep ''store postings: '' \<lparr>ir_Stored = length txs, ir_InstrumentIDs = instrumentIDs\<rparr>
                      (if replacing
                       then ReplaceTxsInPeriod env settler (ip_UserID p) (ip_Broker p) (ip_JobID p) (ip_PeriodFrom p)
                              (ip_PeriodBefore p) txs instrumentIDs txWeights (ip_ShareCountBasis p) l
                       else CreateTxGroup env settler (ip_UserID p) (ip_Broker p) (x_Account (hd txs)) (ip_JobID p)
                              txs instrumentIDs txWeights (ip_ShareCountBasis p) l)))"

subsection \<open>What reaches the store\<close>

text \<open>The transactions of a validated batch: resolved, and stated by the source.\<close>

lemma those_set:
  assumes "those xs = Some ys" "y \<in> set ys"
  shows "Some y \<in> set xs"
  using assms
proof (induction xs arbitrary: ys)
  case (Cons x xs)
  then show ?case by (cases x) (auto split: option.splits)
qed simp

lemma those_length: "those xs = Some ys \<Longrightarrow> length ys = length xs"
proof (induction xs arbitrary: ys)
  case (Cons x xs)
  then show ?case by (cases x) (auto split: option.splits)
qed simp

lemma validated_stated:
  assumes "ValidateTxs ps = []" "those (map resolve_type ps) = Some txs"
  shows "\<forall>t \<in> set txs. x_SyntheticPurpose t = ''''"
proof
  fix t assume "t \<in> set txs"
  then have "Some t \<in> resolve_type ` set ps" using those_set [OF assms(2)] by fastforce
  then obtain tx where "Some tx \<in> set ps" "x_SyntheticPurpose t = x_SyntheticPurpose tx"
    by (auto simp: resolve_type_def eq_commute [of "Some t"] split: option.splits)
  moreover from this have "acceptable tx" using assms(1) unfolding ValidateTxs_Nil by fastforce
  ultimately show "x_SyntheticPurpose t = ''''" by (simp add: acceptable_def)
qed

lemma validated_resolves:
  assumes "ValidateTxs ps = []"
  shows "\<exists>txs. those (map resolve_type ps) = Some txs"
proof -
  have "\<forall>p \<in> set ps. resolve_type p \<noteq> None"
  proof
    fix p assume "p \<in> set ps"
    then obtain tx where "p = Some tx" "acceptable tx" using assms unfolding ValidateTxs_Nil by fastforce
    then show "resolve_type p \<noteq> None"
      using Resolve_loop_Resolve [of "x_BrokerTxType tx"] by (simp add: resolve_type_def acceptable_def)
  qed
  then show ?thesis by (induction ps) (auto split: option.splits)
qed

text \<open>The one store call a batch makes, if any.\<close>

inductive stores :: "Env \<Rightarrow> settler option \<Rightarrow> ingestParams \<Rightarrow> Ledger \<Rightarrow> Ledger \<Rightarrow> bool"
  for env settler p l where
  replaces: "ReplaceTxsInPeriod env settler (ip_UserID p) (ip_Broker p) (ip_JobID p) (ip_PeriodFrom p) (ip_PeriodBefore p)
      txs ids ws bs l = Some (Inr l') \<Longrightarrow> \<forall>t \<in> set txs. x_SyntheticPurpose t = '''' \<Longrightarrow> stores env settler p l l'"
| creates: "CreateTxGroup env settler (ip_UserID p) (ip_Broker p) account (ip_JobID p) txs ids ws bs l = Some (Inr l')
    \<Longrightarrow> \<forall>t \<in> set txs. x_SyntheticPurpose t = '''' \<Longrightarrow> stores env settler p l l'"

lemma stored_cases:
  assumes "stored l rep what out m = Some (l', rep', r)"
  obtains err where "l' = l" "r = Inl err" | "m = Some (Inr l')" "r = Inr out"
  using assms by (auto simp: stored_def split: option.splits sum.splits)

lemma ingestBatch_stores:
  assumes "ingestBatch env settler resolve listed p rep l = Some (l', rep', r)"
  shows "l' = l \<or> (\<exists>out. r = Inr out) \<and> stores env settler p l l'"
proof (cases "ValidateTxs (ip_Txs p) = []")
  case True
  obtain txs where txs: "those (map resolve_type (ip_Txs p)) = Some txs" using validated_resolves [OF True] by blast
  note st = validated_stated [OF True txs]
  note run = assms [unfolded ingestBatch_def Let_def, simplified True txs, simplified]
  show ?thesis
  proof (cases "txs = []")
    case Nil: True
    then show ?thesis using run by (auto split: if_splits elim!: stored_cases intro: replaces)
  next
    case False
    then show ?thesis using run st
      by (auto split: sum.splits option.splits prod.splits if_splits elim!: stored_cases intro: replaces creates)
  qed
qed (use assms in \<open>simp add: ingestBatch_def Let_def\<close>)

subsection \<open>Reachable ledgers\<close>

definition empty_ledger :: Ledger where
  "empty_ledger = \<lparr>l_txs = [], l_groups = [], l_matches = [], l_uuids = 0\<rparr>"

definition engine_settler :: "(decimal \<Rightarrow> decimal \<Rightarrow> decimal) \<Rightarrow> settler" where
  "engine_settler ddiv = Settle ddiv (NewEngine ddiv)"

text \<open>The writers of the ledger: a batch, with whatever resolution answers, and a grouping cycle.\<close>

inductive ledger_step :: "Env \<Rightarrow> (decimal \<Rightarrow> decimal \<Rightarrow> decimal) \<Rightarrow> Ledger \<Rightarrow> Ledger \<Rightarrow> bool" for env ddiv where
  batch: "ingestBatch env (Some (engine_settler ddiv)) resolve listed p rep l = Some (l', rep', r) \<Longrightarrow> ledger_step env ddiv l l'"
| cycle: "ledger_cycle env ddiv l = Some (l', err, d) \<Longrightarrow> ledger_step env ddiv l l'"

definition reachable :: "Env \<Rightarrow> (decimal \<Rightarrow> decimal \<Rightarrow> decimal) \<Rightarrow> Ledger \<Rightarrow> bool" where
  "reachable env ddiv l \<longleftrightarrow> (ledger_step env ddiv)\<^sup>*\<^sup>* empty_ledger l"

lemma empty_ok: "ledger_ok env empty_ledger" "canonical env empty_ledger"
  by (simp_all add: ledger_ok_def wf_ledger_def dated_off_def balanced_off_def single_off_def empty_ledger_def canonical_def stated_def)

lemma replace_stated:
  assumes run: "ReplaceTxsInPeriod env st userID broker jobID pf pb txs ids ws bs l = Some (Inr l')"
    and wf: "wf_ledger env l" and stated: "\<forall>t \<in> set txs. x_SyntheticPurpose t = ''''"
  shows "\<exists>user job a b rows. env_parse_uuid env userID = Some user \<and> parseNullUUID env jobID = Inr job \<and> pf = Some a \<and> pb = Some b
    \<and> rows_of env user broker job '''' 0 txs ids ws bs rows
    \<and> stated l' = filter (\<lambda>t. \<not> (t_UserID t = user \<and> in_period broker a b t)) (stated l) @ map core rows"
proof -
  obtain user job a b where user: "env_parse_uuid env userID = Some user" and job: "parseNullUUID env jobID = Inr job"
    and ab: "pf = Some a" "pb = Some b"
    and run1: "(let (l1, cut) = clearPeriod user broker a b l in
     run_then (insertPostings env user broker job txs ids ws bs '''' l1) (\<lambda>(l2, w).
     run_then (groupWritten env st user (wr_postings w)
         (ss_addAll (wr_groups w) False (ss_addAll cut True ss_empty)) l2) (\<lambda>(l3, touched).
     Some (ss_settle env user touched l3)))) = Some (Inr l')"
    using run by (auto simp: ReplaceTxsInPeriod_def run_then_Inr of_option_def with_error_def split: if_splits option.splits sum.splits)
  obtain l1 cut where clear: "clearPeriod user broker a b l = (l1, cut)" by fastforce
  obtain l2 w l3 touched where ins: "insert_loop env user broker job '''' 0 txs ids ws bs \<lparr>wr_postings = [], wr_groups = []\<rparr> l1 = Some (Inr (l2, w))"
    and gw: "groupWritten env st user (wr_postings w) (ss_addAll (wr_groups w) False (ss_addAll cut True ss_empty)) l2
      = Some (Inr (l3, touched))"
    and st: "ss_settle env user touched l3 = Inr l'"
    using run1 clear by (auto simp: run_then_Inr insertPostings_def)
  obtain rows where rows: "rows_of env user broker job '''' 0 txs ids ws bs rows" "stated l2 = stated l1 @ map core rows"
    using insert_loop_stated [OF ins stated] by blast
  have "stated l' = stated l1 @ map core rows" using ss_settle_stated [OF st] groupWritten_stated [OF gw] rows(2) by simp
  also have "stated l1 = filter (\<lambda>t. \<not> (t_UserID t = user \<and> in_period broker a b t)) (stated l)"
    using clearPeriod_stated [OF wf, of user broker a b] clear by simp
  finally show ?thesis using user job ab rows(1) by blast
qed

lemma create_stated:
  assumes run: "CreateTxGroup env st userID broker account jobID txs ids ws bs l = Some (Inr l')"
    and stated: "\<forall>t \<in> set txs. x_SyntheticPurpose t = ''''"
  shows "\<exists>user job rows. env_parse_uuid env userID = Some user \<and> parseNullUUID env jobID = Inr job
    \<and> rows_of env user broker job account 0 txs ids ws bs rows \<and> stated l' = stated l @ map core rows"
proof -
  obtain user job l1 w l2 touched where user: "env_parse_uuid env userID = Some user" and job: "parseNullUUID env jobID = Inr job"
    and ins: "insert_loop env user broker job account 0 txs ids ws bs \<lparr>wr_postings = [], wr_groups = []\<rparr> l = Some (Inr (l1, w))"
    and gw: "groupWritten env st user (wr_postings w) (ss_addAll (wr_groups w) False ss_empty) l1 = Some (Inr (l2, touched))"
    and st: "ss_settle env user touched l2 = Inr l'"
    using run by (auto simp: CreateTxGroup_def run_then_Inr of_option_def with_error_def insertPostings_def split: option.splits sum.splits)
  obtain rows where "rows_of env user broker job account 0 txs ids ws bs rows" "stated l1 = stated l @ map core rows"
    using insert_loop_stated [OF ins stated] by blast
  then show ?thesis using user job ss_settle_stated [OF st] groupWritten_stated [OF gw] by metis
qed

lemma rows_of_user:
  assumes "rows_of env user broker job account i txs ids ws bs rows" "row \<in> set rows"
  shows "t_UserID row = user"
proof -
  obtain j where "j < length rows" "rows ! j = row" using assms(2) by (metis in_set_conv_nth)
  then show ?thesis using assms(1) posting_row_fields unfolding rows_of_def by metis
qed

lemma canonical_append:
  assumes "canonical env l" "set (stated l') \<subseteq> set (stated l) \<union> core ` set rows" "\<forall>r \<in> set rows. t_UserID r = user"
    and "env_parse_uuid env user = Some user"
  shows "canonical env l'"
  unfolding canonical_def
proof
  fix t assume "t \<in> set (stated l')"
  then consider "t \<in> set (stated l)" | r where "r \<in> set rows" "t = core r" using assms(2) by blast
  then show "env_parse_uuid env (t_UserID t) = Some (t_UserID t)"
    using assms(1,3,4) by cases (auto simp: canonical_def)
qed

lemma stores_ok:
  assumes "stores env (Some (engine_settler ddiv)) p l l'" and env: "env_ok env" and ok: "ledger_ok env l" "canonical env l"
  shows "ledger_ok env l' \<and> canonical env l'"
  using assms(1)
proof cases
  case (replaces txs ids ws bs)
  have "wf_ledger env l" using ok(1) by (simp add: ledger_ok_def)
  from replace_stated [OF replaces(1) this replaces(2)] obtain user a b job rows where
    r: "env_parse_uuid env (ip_UserID p) = Some user" "rows_of env user (ip_Broker p) job '''' 0 txs ids ws bs rows"
    "stated l' = filter (\<lambda>t. \<not> (t_UserID t = user \<and> in_period (ip_Broker p) a b t)) (stated l) @ map core rows" by blast
  have "canonical env l'"
    by (rule canonical_append [OF ok(2), where user = user and rows = rows])
      (use r env rows_of_user [OF r(2)] in \<open>auto simp: env_ok_def\<close>)
  then show ?thesis using engine.replace_ok [OF replaces(1) [unfolded engine_settler_def] env ok(1) replaces(2)] by simp
next
  case (creates account txs ids ws bs)
  from create_stated [OF creates] obtain user job rows where
    r: "env_parse_uuid env (ip_UserID p) = Some user" "rows_of env user (ip_Broker p) job account 0 txs ids ws bs rows"
    "stated l' = stated l @ map core rows" by blast
  have "canonical env l'"
    by (rule canonical_append [OF ok(2), where user = user and rows = rows])
      (use r env rows_of_user [OF r(2)] in \<open>auto simp: env_ok_def\<close>)
  then show ?thesis using engine.create_ok [OF creates(1) [unfolded engine_settler_def] env ok(1) creates(2)] by simp
qed

lemma ledger_step_ok:
  assumes "ledger_step env ddiv l l'" and env: "env_ok env" and ok: "ledger_ok env l" "canonical env l"
  shows "ledger_ok env l' \<and> canonical env l'"
  using assms(1)
proof cases
  case (batch resolve listed p rep rep' r)
  from ingestBatch_stores [OF batch] show ?thesis using stores_ok [OF _ env ok] ok by blast
next
  case (cycle err d)
  then show ?thesis using ledger_cycle_ok [OF env ok, of ddiv] ok(2) by (auto simp: canonical_def)
qed

lemma reachable_invariant:
  assumes env: "env_ok env" and "reachable env ddiv l"
  shows "ledger_ok env l \<and> canonical env l"
  using assms(2) unfolding reachable_def
  by (induction rule: rtranclp_induct) (use empty_ok ledger_step_ok [OF _ env] in blast)+

subsection \<open>A batch is stored whole or not at all\<close>

lemma check_batch_reports:
  "check_batch env listed txs idx ids rep = Some (rep', Inl err) \<Longrightarrow> \<exists>e es. rp_errs rep' = rp_errs rep @ e # es"
  by (auto simp: check_batch_def Let_def rep_Errf_def rep_Errs_def neq_Nil_conv split: sum.splits option.splits if_splits)

lemma check_batch_accepts: "check_batch env listed txs idx ids rep = Some (rep', Inr ws) \<Longrightarrow> rep' = rep"
  by (auto simp: check_batch_def Let_def split: sum.splits option.splits if_splits)

lemma stored_reports:
  "stored l rep what out m = Some (l', rep', Inl err) \<Longrightarrow> l' = l \<and> (\<exists>e es. rp_errs rep' = rp_errs rep @ e # es)"
  by (auto simp: stored_def rep_Errf_def split: option.splits sum.splits)

lemma stored_accepts: "stored l rep what out m = Some (l', rep', Inr out') \<Longrightarrow> rep' = rep \<and> out' = out"
  by (auto simp: stored_def split: option.splits sum.splits)

lemma rp_errs_Total [simp]: "rp_errs (rep_Total n rep) = rp_errs rep"
  by (simp add: rep_Total_def)


text \<open>A concrete environment: ids are runs of one letter, every other string names itself, dollars are seeded.\<close>

definition demo_env :: Env where
  "demo_env = \<lparr>env_parse_uuid = (\<lambda>s. if s = '''' then None else Some s), env_new_uuid = (\<lambda>n. replicate (Suc n) CHR ''a''),
     env_parse_dec = map_of [(''10'', 10), (''185.5'', 1855 / 10)], env_currency = (\<lambda>c. if c = ''USD'' then Some ''usd'' else None),
     env_div = (/), env_scale = (\<lambda>_. 2)\<rparr>"

lemma demo_env_ok: "env_ok demo_env"
  by (auto simp: env_ok_def demo_env_def inj_def replicate_eq_replicate split: if_splits)

definition demo_batch :: "Tx option list \<Rightarrow> ingestParams" where
  "demo_batch txs = \<lparr>ip_UserID = ''user'', ip_Broker = ''IBKR'', ip_JobID = '''', ip_Txs = txs, ip_ShareCountBasis = [],
     ip_PeriodFrom = Some 0, ip_PeriodBefore = Some 100, ip_RowIndices = None, ip_TotalDeclared = False\<rparr>"

definition demo_resolve :: "Tx list \<Rightarrow> int list \<Rightarrow> (string \<times> string \<times> string) + string list" where
  "demo_resolve txs idx = Inr (map (\<lambda>_. ''i1'') txs)"

definition demo_listed :: "string list \<Rightarrow> string + InstrumentRow option list" where
  "demo_listed ids = Inr []"

abbreviation no_report :: PartReporter where
  "no_report \<equiv> \<lparr>rp_errs = [], rp_total = None\<rparr>"

abbreviation demo_tx :: Tx where
  "demo_tx \<equiv> plain_tx [TRADE_ASSET] ''10'' (Some ''185.5'') ''usd''"


end
