(* ===== verification/Ledger_Correct.thy ===== *)
theory Ledger_Correct
  imports Ingest
begin

text \<open>
  The properties of the stored ledger: a replace leaves exactly what it should, an upload that
  converts commits, a second upload of the same file changes nothing, and a regroup that only
  retypes leaves every routed leg where it was.
\<close>

subsection \<open>Replacing a period\<close>

text \<open>
  C2. A replace leaves stated exactly what it should: every posting of the user and broker dated in
  the period is gone, one posting per transaction of the batch follows, and every other stated
  posting is as it was but for the group and resolved type the engine gives it.
\<close>

theorem ReplaceTxsInPeriod_exact:
  assumes "ReplaceTxsInPeriod env st userID broker jobID pf pb txs ids ws bs l = Some (Inr l')"
    and "wf_ledger env l" and "\<forall>t \<in> set txs. x_SyntheticPurpose t = ''''"
  shows "\<exists>user job a b rows. env_parse_uuid env userID = Some user \<and> parseNullUUID env jobID = Inr job \<and> pf = Some a \<and> pb = Some b
    \<and> rows_of env user broker job '''' 0 txs ids ws bs rows
    \<and> stated l' = filter (\<lambda>t. \<not> (t_UserID t = user \<and> in_period broker a b t)) (stated l) @ map core rows"
  by (rule replace_stated [OF assms])


subsection \<open>A concrete upload\<close>

abbreviation demo_weight :: Weight where
  "demo_weight \<equiv> \<lparr>wt_Amount = 1855, wt_Commodity = ''cur:USD''\<rparr>"

abbreviation demo_tx' :: Tx where
  "demo_tx' \<equiv> demo_tx\<lparr>x_ResolvedTxType := TRADE_ASSET\<rparr>"

definition demo_row :: "string \<Rightarrow> string \<Rightarrow> Posting" where
  "demo_row txID groupID =
     \<lparr>t_ID = txID, t_UserID = ''user'', t_Broker = ''IBKR'', t_Account = ''isa'', t_OrderDate = 0, t_TradeDate = 0,
      t_Description = ''ACME'', t_BrokerTxTypes = [''TRADE_ASSET''], t_Resolved = ''TRADE_ASSET'', t_Hint = None,
      t_Quantity = 10, t_TradingCurrency = None, t_SettlementCurrency = Some ''usd'', t_UnitPrice = Some (1855 / 10),
      t_SettlementAmount = None, t_InstrumentID = Some ''i1'', t_ShareCountBasis = None, t_AccountType = ''USER'',
      t_Purpose = None, t_Weight = 1855, t_Commodity = ''cur:USD'', t_GroupID = groupID, t_Correlations = []\<rparr>"

lemma demo_posting_row:
  "posting_row demo_env ''user'' ''IBKR'' None '''' demo_tx' ''i1'' (Some demo_weight) None txID groupID = Inr (demo_row txID groupID)"
proof -
  have "TxTypesToStrs [TRADE_ASSET] = Inr [''TRADE_ASSET'']" "TxTypeToStr TRADE_ASSET = Inr ''TRADE_ASSET''"
    "AccountTypeToStr ACCOUNT_TYPE_USER = Inr ''USER''" "AssetClassToStr ASSET_CLASS_UNSPECIFIED = ''''"
    by code_simp+
  then show ?thesis
    by (simp add: posting_row_def plain_tx_def demo_env_def sum_then_def of_option_def parseOptDec_def nullStr_def demo_row_def)
qed

lemma demo_converts: "converts demo_env ''user'' ''IBKR'' None '''' 0 [demo_tx'] [''i1''] [demo_weight] []"
  using demo_posting_row by (simp add: converts_def entry_at_def)

lemma demo_inputs:
  "\<forall>t \<in> set (l_txs empty_ledger). priced demo_env (t_Commodity t)" "env_parse_uuid demo_env ''user'' = Some ''user''"
  "parseNullUUID demo_env '''' = Inr None" "length [''i1''] = length [demo_tx']"
  "\<forall>w \<in> set [demo_weight]. priced demo_env (wt_Commodity w)" "\<forall>t \<in> set [demo_tx']. x_SyntheticPurpose t = ''''"
  by (simp_all add: empty_ledger_def demo_env_def parseNullUUID_def plain_tx_def priced_def CurrencyOf_def CutPrefix_def
      HasPrefix_def CurrencyPrefix_def)


abbreviation demo_upload :: "Ledger \<Rightarrow> (string + Ledger) option" where
  "demo_upload \<equiv> ReplaceTxsInPeriod demo_env (Some (engine_settler (/))) ''user'' ''IBKR'' '''' (Some 0) (Some 100)
     [demo_tx'] [''i1''] [demo_weight] []"

lemma demo_commit:
  assumes "ledger_ok demo_env l" "priced_ledger demo_env l"
  obtains l' where "demo_upload l = Some (Inr l')" "ledger_ok demo_env l'" "priced_ledger demo_env l'"
proof -
  obtain l' where l': "demo_upload l = Some (Inr l')" "priced_ledger demo_env l'"
    using engine_total.replace_commits [OF demo_env_ok assms demo_inputs(2,3) refl refl demo_inputs(4) demo_converts demo_inputs(5,6)]
    unfolding engine_settler_def by blast
  moreover have "ledger_ok demo_env l'"
    by (rule engine.replace_ok [OF l'(1) [unfolded engine_settler_def] demo_env_ok assms(1) demo_inputs(6)])
  ultimately show thesis using that by blast
qed

lemma ledger_ok_wf: "ledger_ok env l \<Longrightarrow> wf_ledger env l"
  by (simp add: ledger_ok_def)

theorem ReplaceTxsInPeriod_exact_witness:
  "\<exists>l' rows. demo_upload empty_ledger = Some (Inr l') \<and> length rows = 1 \<and> stated l' = map core rows"
proof -
  obtain l' where run: "demo_upload empty_ledger = Some (Inr l')" using demo_commit [OF empty_ok(1) demo_inputs(1)] .
  obtain user job rows where "rows_of demo_env user ''IBKR'' job '''' 0 [demo_tx'] [''i1''] [demo_weight] [] rows"
    "stated l' = filter (\<lambda>t. \<not> (t_UserID t = user \<and> in_period ''IBKR'' 0 100 t)) (stated empty_ledger) @ map core rows"
    using ReplaceTxsInPeriod_exact [OF run ledger_ok_wf [OF empty_ok(1)] demo_inputs(6)] by blast
  then show ?thesis using run by (intro exI [of _ l'] exI [of _ rows]) (simp add: rows_of_def stated_def empty_ledger_def)
qed

subsection \<open>Uploading a file again\<close>

text \<open>A stated posting without the id the store gave it.\<close>

definition content :: "Posting \<Rightarrow> Posting" where
  "content t = (core t)\<lparr>t_ID := ''''\<rparr>"

lemma content_core [simp]: "content (core t) = content t"
  by (simp add: content_def)

lemma posting_row_content:
  assumes "posting_row env user broker job account t instID w basis txID groupID = Inr row"
    and "posting_row env user broker job account t instID w basis txID' groupID' = Inr row'"
  shows "content row' = content row"
  using assms by (auto simp: posting_row_def sum_then_Inr Let_def content_def core_def)

lemma rows_of_content:
  assumes "rows_of env user broker job account i txs ids ws bs rows" "rows_of env user broker job account i txs ids ws bs rows'"
  shows "map content rows' = map content rows"
proof (rule nth_equalityI)
  fix j assume "j < length (map content rows')"
  then have "content (rows' ! j) = content (rows ! j)"
    using assms posting_row_content unfolding rows_of_def by (metis length_map)
  then show "map content rows' ! j = map content rows ! j" using assms \<open>j < length (map content rows')\<close> by (simp add: rows_of_def)
qed (use assms in \<open>simp add: rows_of_def\<close>)

lemma rows_of_in_period:
  assumes "rows_of env user broker job account i txs ids ws bs rows" "row \<in> set rows"
    and "\<forall>t \<in> set txs. x_SyntheticPurpose t = '''' \<and> (\<exists>d. x_OrderDate t = Some d \<and> a \<le> d \<and> d < b)"
  shows "t_UserID row = user \<and> in_period broker a b row"
proof -
  obtain j where j: "j < length rows" "rows ! j = row" using assms(2) by (metis in_set_conv_nth)
  then obtain txID g where "posting_row env user broker job account (txs ! j) (ids ! (i + j)) (entry_at (i + j) ws)
      (case entry_at (i + j) bs of None \<Rightarrow> None | Some b \<Rightarrow> b) txID g = Inr row"
    using assms(1) unfolding rows_of_def by metis
  note f = posting_row_fields [OF this]
  have "txs ! j \<in> set txs" using j(1) assms(1) by (simp add: rows_of_def)
  with assms(3) f show ?thesis by (fastforce simp: in_period_def nullStr_def)
qed

text \<open>
  Uploading a file twice is uploading it once: where every transaction is dated inside the
  period the file replaces, a second replace with the same rows leaves the same stated postings,
  but for the ids they are stored under.
\<close>

theorem ReplaceTxsInPeriod_idempotent:
  assumes first: "ReplaceTxsInPeriod env st userID broker jobID (Some a) (Some b) txs ids ws bs l = Some (Inr l1)"
    and again: "ReplaceTxsInPeriod env st' userID broker jobID (Some a) (Some b) txs ids ws bs l1 = Some (Inr l2)"
    and wf: "wf_ledger env l" "wf_ledger env l1"
    and dated: "\<forall>t \<in> set txs. x_SyntheticPurpose t = '''' \<and> (\<exists>d. x_OrderDate t = Some d \<and> a \<le> d \<and> d < b)"
  shows "map content (stated l2) = map content (stated l1)"
proof -
  have src: "\<forall>t \<in> set txs. x_SyntheticPurpose t = ''''" using dated by blast
  obtain user job rows where 1: "env_parse_uuid env userID = Some user" "parseNullUUID env jobID = Inr job"
    "rows_of env user broker job '''' 0 txs ids ws bs rows"
    "stated l1 = filter (\<lambda>t. \<not> (t_UserID t = user \<and> in_period broker a b t)) (stated l) @ map core rows"
    using replace_stated [OF first wf(1) src] by auto
  obtain rows' where 2: "rows_of env user broker job '''' 0 txs ids ws bs rows'"
    "stated l2 = filter (\<lambda>t. \<not> (t_UserID t = user \<and> in_period broker a b t)) (stated l1) @ map core rows'"
    using replace_stated [OF again wf(2) src] 1(1,2) by auto
  have "filter (\<lambda>t. \<not> (t_UserID t = user \<and> in_period broker a b t)) (map core rows) = []"
    using rows_of_in_period [OF 1(3) _ dated] by (auto simp: filter_empty_conv)
  then have "stated l2 = filter (\<lambda>t. \<not> (t_UserID t = user \<and> in_period broker a b t)) (stated l) @ map core rows'"
    unfolding 2(2) 1(4) by simp
  then show ?thesis using rows_of_content [OF 1(3) 2(1)] unfolding 1(4) by (simp add: comp_def)
qed

theorem ReplaceTxsInPeriod_idempotent_witness:
  "\<exists>l1 l2. demo_upload empty_ledger = Some (Inr l1) \<and> demo_upload l1 = Some (Inr l2)
    \<and> map content (stated l2) = map content (stated l1)"
proof -
  obtain l1 where 1: "demo_upload empty_ledger = Some (Inr l1)" "ledger_ok demo_env l1" "priced_ledger demo_env l1"
    using demo_commit [OF empty_ok(1) demo_inputs(1)] .
  obtain l2 where 2: "demo_upload l1 = Some (Inr l2)" using demo_commit [OF 1(2,3)] .
  have "map content (stated l2) = map content (stated l1)"
    by (rule ReplaceTxsInPeriod_idempotent [OF 1(1) 2 ledger_ok_wf [OF empty_ok(1)] ledger_ok_wf [OF 1(2)]])
      (simp add: plain_tx_def)
  with 1(1) 2 show ?thesis by blast
qed

subsection \<open>A regroup that only retypes\<close>

lemma fold_touch_none: "\<forall>m \<in> set ms. gm_FromGroupID m = '''' \<Longrightarrow> fold touch_from ms s = s"
  by (induction ms) (auto simp: touch_from_def)

lemma change_loop_retypes:
  assumes "\<forall>c \<in> set cs. \<forall>m \<in> set (gc_Members c). \<not> gm_Moving m"
  shows "\<exists>l'. change_loop env user cs n s l = Inr (l', s, n) \<and> updates {} g l l'"
  using assms
proof (induction cs arbitrary: l)
  case (Cons c cs)
  let ?l1 = "fold (\<lambda>(resolved, ids). resolveOnly resolved ids) (by_type False c) l"
  obtain l' where "change_loop env user cs n s ?l1 = Inr (l', s, n)" "updates {} g ?l1 l'" using Cons by fastforce
  moreover have "filter gm_Moving (gc_Members c) = []" using Cons.prems by (simp add: filter_empty_conv)
  ultimately show ?case using updates_trans [OF resolve_fold] by auto
qed simp

lemma no_groups_touched:
  "deleteTouchedMatches {} (repointGroupTimestamps {} (deleteEmptiedGroups {} (dropResiduals {} l))) = l"
  by (simp add: deleteTouchedMatches_def repointGroupTimestamps_def deleteEmptiedGroups_def dropResiduals_def Let_def)

text \<open>
  A change that agrees with the stored membership settles nothing: where every member stays, as
  \<open>Diff\<close> writes them without the group they are in, \<open>ApplyGrouping\<close> succeeds with nothing moved and
  only resolved types differ afterwards. Every routed leg keeps its account type and amount, also
  where the new type calls for a boundary leg or another residual account.
\<close>

theorem ApplyGrouping_retype_keeps_legs:
  assumes "env_parse_uuid env userID = Some user"
    and "\<forall>c \<in> set changes. \<forall>m \<in> set (gc_Members c). \<not> gm_Moving m \<and> gm_FromGroupID m = ''''"
  shows "\<exists>l'. ApplyGrouping env userID changes l = Inr (l', 0) \<and> l_groups l' = l_groups l \<and> l_matches l' = l_matches l
    \<and> list_all2 (\<lambda>t t'. \<exists>r. t' = t\<lparr>t_Resolved := r\<rparr>) (l_txs l) (l_txs l')"
proof -
  obtain l' where c: "change_loop env user changes 0 ss_empty l = Inr (l', ss_empty, 0)" and upd: "updates {} '''' l l'"
    using change_loop_retypes [of changes env user 0 ss_empty l] assms(2) by blast
  have "fold touch_from (concat (map gc_Members changes)) ss_empty = ss_empty" using assms(2) by (intro fold_touch_none) auto
  then have "applyChanges env user changes ss_empty l = Inr (l', ss_empty, 0)"
    using c no_groups_touched by (simp add: applyChanges_def sum_then_def)
  moreover have "ss_settle env user ss_empty l' = Inr l'" by (simp add: ss_settle_def sum_then_def settle_def)
  moreover have "l' = l" if "changes = []" using c that by simp
  ultimately have run: "ApplyGrouping env userID changes l = Inr (l', 0)"
    using assms(1) by (auto simp: ApplyGrouping_def sum_then_def)
  have l': "l' = l\<lparr>l_txs := l_txs l'\<rparr>" and ts: "list_all2 (moved {} '''') (l_txs l) (l_txs l')" using upd by (simp_all add: updates_def)
  have "l_groups l' = l_groups l" "l_matches l' = l_matches l" by (subst l', simp)+
  moreover have "list_all2 (\<lambda>t t'. \<exists>r. t' = t\<lparr>t_Resolved := r\<rparr>) (l_txs l) (l_txs l')"
    by (rule list_all2_mono [OF ts]) (auto simp: moved_def)
  ultimately show ?thesis using run by blast
qed

text \<open>Cash stored as a bare transfer, with its residual routed to clearing, and the engine calling it a dividend.\<close>

definition demo_ledger :: Ledger where
  "demo_ledger =
     \<lparr>l_txs = [(demo_row ''aa'' ''a'')\<lparr>t_Resolved := ''TRANSFER''\<rparr>,
        (demo_row ''aaa'' ''a'')\<lparr>t_AccountType := ''TRANSFER_CLEARING'', t_Purpose := Some RoutedPurpose, t_Weight := - 1855\<rparr>],
      l_groups = [\<lparr>tg_ID = ''a'', tg_UserID = ''user'', tg_Timestamp = 0, tg_JobID = None\<rparr>], l_matches = [], l_uuids = 3\<rparr>"

definition demo_retype :: "GroupChange list" where
  "demo_retype = [\<lparr>gc_Members = [\<lparr>gm_ID = ''aa'', gm_FromGroupID = '''', gm_Resolved = ''DIVIDEND'', gm_Moving = False\<rparr>]\<rparr>]"

theorem ApplyGrouping_retype_keeps_legs_witness:
  "\<exists>l'. ApplyGrouping demo_env ''user'' demo_retype demo_ledger = Inr (l', 0)
     \<and> map t_AccountType (l_txs l') = [''USER'', ''TRANSFER_CLEARING'']"
proof -
  obtain l' where run: "ApplyGrouping demo_env ''user'' demo_retype demo_ledger = Inr (l', 0)"
    and ts: "list_all2 (\<lambda>t t'. \<exists>r. t' = t\<lparr>t_Resolved := r\<rparr>) (l_txs demo_ledger) (l_txs l')"
    using ApplyGrouping_retype_keeps_legs [of demo_env "''user''" "''user''" demo_retype demo_ledger]
    by (auto simp: demo_env_def demo_retype_def)
  have "map t_AccountType (l_txs l') = map t_AccountType (l_txs demo_ledger)"
    using ts by (induction rule: list_all2_induct) auto
  with run show ?thesis by (simp add: demo_ledger_def demo_row_def)
qed

subsection \<open>The grouping cycle\<close>

text \<open>
  C8. A grouping cycle always ends and only regroups: over any ledger the writers can reach it
  returns, the ledger it leaves satisfies the invariant, and what is stated is what was stated,
  group and resolved type apart.
\<close>

theorem cycle_only_regroups:
  assumes "env_ok env" and "reachable env ddiv l"
  shows "\<exists>l' err d. ledger_cycle env ddiv l = Some (l', err, d) \<and> ledger_ok env l' \<and> stated l' = stated l"
  using reachable_invariant [OF assms] ledger_cycle_ok [OF assms(1)] by blast

lemma demo_reachable: "demo_upload empty_ledger = Some (Inr l') \<Longrightarrow> reachable demo_env (/) l'"
proof -
  assume run: "demo_upload empty_ledger = Some (Inr l')"
  have v: "ValidateTxs (ip_Txs (demo_batch [Some demo_tx])) = []" by code_simp
  have t: "those (map resolve_type (ip_Txs (demo_batch [Some demo_tx]))) = Some [demo_tx']"
  proof -
    have "Resolve [TRADE_ASSET] = TRADE_ASSET" by code_simp
    then have "Resolve_loop [TRADE_ASSET] = Some TRADE_ASSET" using Resolve_loop_Resolve [of "[TRADE_ASSET]"] by simp
    then show ?thesis by (simp add: demo_batch_def resolve_type_def plain_tx_def)
  qed
  have c: "check_batch demo_env demo_listed [demo_tx'] (row_indices None 1) [''i1''] rep = Some (rep, Inr [demo_weight])" for rep
  proof -
    have "instrumentsByID demo_listed [''i1''] = Inr []" by code_simp
    moreover have "validateAssetClasses [demo_tx'] (row_indices None 1) [''i1''] [] = Some []" by code_simp
    moreover have "validateWeightNeutrality (env_parse_dec demo_env) [demo_tx'] (row_indices None 1) [''i1''] [] = Some []"
      unfolding demo_env_def Env.select_convs by code_simp
    moreover have "weights (env_parse_dec demo_env) [demo_tx'] [''i1''] [] = Some [demo_weight]"
      unfolding demo_env_def Env.select_convs by code_simp
    ultimately show ?thesis by (simp add: check_batch_def balanceInstruments_def)
  qed
  let ?rep = "rep_Total 1 no_report"
  have "ingestBatch demo_env (Some (engine_settler (/))) demo_resolve demo_listed (demo_batch [Some demo_tx]) no_report empty_ledger
      = Some (l', ?rep, Inr \<lparr>ir_Stored = 1, ir_InstrumentIDs = [''i1'']\<rparr>)"
    using v t c [of ?rep] run
    by (simp add: ingestBatch_def Let_def demo_resolve_def stored_def) (simp add: demo_batch_def stored_def)
  from batch [OF this] show "reachable demo_env (/) l'" unfolding reachable_def by (rule r_into_rtranclp)
qed

theorem cycle_only_regroups_witness:
  "\<exists>l l' err d. demo_upload empty_ledger = Some (Inr l) \<and> ledger_cycle demo_env (/) l = Some (l', err, d)
     \<and> stated l' = stated l"
proof -
  obtain l where l: "demo_upload empty_ledger = Some (Inr l)" using demo_commit [OF empty_ok(1) demo_inputs(1)] .
  from cycle_only_regroups [OF demo_env_ok demo_reachable [OF l]] l show ?thesis by blast
qed

end
