(* ===== verification/DateRange.thy ===== *)
theory DateRange
  imports Prelude
begin

text \<open>
  The half-open date ranges of \<open>src/server/db/daterange.go\<close>: \<open>MergeRanges\<close>, which the
  coverage and price caches use to keep a set of days as a sorted list of ranges, and
  \<open>SubtractRanges\<close>, which computes the gaps a fetch still has to fill. \<open>points\<close> is the set
  of instants a list of ranges covers, and both operations are proved against it.
\<close>

record DateRange =
  dr_From :: time
  dr_Before :: time

fun merge_loop :: "DateRange \<Rightarrow> DateRange list \<Rightarrow> DateRange list" where
  "merge_loop cur [] = [cur]"
| "merge_loop cur (r # rs) =
     (if \<not> dr_From r > dr_Before cur
      then merge_loop (if dr_Before r > dr_Before cur then cur\<lparr>dr_Before := dr_Before r\<rparr> else cur) rs
      else cur # merge_loop r rs)"

definition MergeRanges :: "DateRange list \<Rightarrow> DateRange list" where
  "MergeRanges ranges =
     (if length ranges \<le> 1 then ranges
      else case go_sort (\<lambda>a b. dr_From a < dr_From b) ranges of
          [] \<Rightarrow> []
        | r # rs \<Rightarrow> merge_loop r rs)"

text \<open>The inner loop of \<open>SubtractRanges\<close> over the cached ranges from \<open>ci\<close> on.\<close>

fun subtract_inner :: "time \<Rightarrow> DateRange \<Rightarrow> DateRange list \<Rightarrow> DateRange list" where
  "subtract_inner cur n [] =
     (if cur < dr_Before n then [\<lparr>dr_From = cur, dr_Before = dr_Before n\<rparr>] else [])"
| "subtract_inner cur n (c # cs) =
     (if dr_From c < dr_Before n
      then (if dr_From c > cur
            then [\<lparr>dr_From = cur,
                   dr_Before = (if dr_From c < dr_Before n then dr_From c else dr_Before n)\<rparr>]
            else [])
           @ subtract_inner (if dr_Before c > cur then dr_Before c else cur) n cs
      else if cur < dr_Before n then [\<lparr>dr_From = cur, dr_Before = dr_Before n\<rparr>] else [])"

fun subtract_loop :: "DateRange list \<Rightarrow> DateRange list \<Rightarrow> DateRange list" where
  "subtract_loop [] cached = []"
| "subtract_loop (n # ns) cached =
     (let cached' = dropWhile (\<lambda>c. \<not> dr_Before c > dr_From n) cached
      in subtract_inner (dr_From n) n cached' @ subtract_loop ns cached')"

definition SubtractRanges :: "DateRange list \<Rightarrow> DateRange list \<Rightarrow> DateRange list" where
  "SubtractRanges needed cached = (if cached = [] then needed else subtract_loop needed cached)"

subsection \<open>What a list of ranges covers\<close>

definition covers :: "DateRange \<Rightarrow> time set" where
  "covers r = {dr_From r ..< dr_Before r}"

definition points :: "DateRange list \<Rightarrow> time set" where
  "points rs = (\<Union>r \<in> set rs. covers r)"

lemma points_simps [simp]:
  "points [] = {}" "points (r # rs) = covers r \<union> points rs"
  "points (rs @ rs') = points rs \<union> points rs'"
  by (auto simp: points_def)

lemma points_mset: "mset rs = mset rs' \<Longrightarrow> points rs = points rs'"
  by (auto simp: points_def dest: mset_eq_setD)

text \<open>Sorted by start; separated by a gap; and holding no empty range.\<close>

definition by_from :: "DateRange list \<Rightarrow> bool" where
  "by_from rs \<longleftrightarrow> sorted (map dr_From rs)"

definition separated :: "DateRange list \<Rightarrow> bool" where
  "separated rs \<longleftrightarrow> sorted_wrt (\<lambda>a b. dr_Before a < dr_From b) rs"

definition disjoint_ascending :: "DateRange list \<Rightarrow> bool" where
  "disjoint_ascending rs \<longleftrightarrow> sorted_wrt (\<lambda>a b. dr_Before a \<le> dr_From b) rs"

definition nonempty :: "DateRange list \<Rightarrow> bool" where
  "nonempty rs \<longleftrightarrow> (\<forall>r \<in> set rs. dr_From r < dr_Before r)"

lemma by_from_simps [simp]:
  "by_from []" "by_from (r # rs) \<longleftrightarrow> (\<forall>x \<in> set rs. dr_From r \<le> dr_From x) \<and> by_from rs"
  by (auto simp: by_from_def)

lemma nonempty_simps [simp]:
  "nonempty []" "nonempty (r # rs) \<longleftrightarrow> dr_From r < dr_Before r \<and> nonempty rs"
  "nonempty (rs @ rs') \<longleftrightarrow> nonempty rs \<and> nonempty rs'"
  by (auto simp: nonempty_def)

subsection \<open>Merging\<close>

lemma points_merge_loop:
  "by_from (r # rs) \<Longrightarrow> points (merge_loop r rs) = points (r # rs)"
proof (induction rs arbitrary: r)
  case (Cons s rs)
  show ?case
  proof (cases "dr_From s > dr_Before r")
    case True
    with Cons show ?thesis by simp
  next
    case False
    let ?r = "if dr_Before s > dr_Before r then r\<lparr>dr_Before := dr_Before s\<rparr> else r"
    have "by_from (?r # rs)" using Cons.prems by auto
    then have "points (merge_loop ?r rs) = points (?r # rs)" by (rule Cons.IH)
    moreover have "covers ?r = covers r \<union> covers s"
      using False Cons.prems by (auto simp: covers_def)
    ultimately show ?thesis using False by auto
  qed
qed simp

lemma merge_loop_From_ge:
  assumes "by_from (r # rs)" "x \<in> set (merge_loop r rs)"
  shows "dr_From r \<le> dr_From x"
  using assms
proof (induction rs arbitrary: r)
  case (Cons s rs)
  show ?case
  proof (cases "dr_From s > dr_Before r")
    case True
    with Cons.prems Cons.IH [of s] show ?thesis by (fastforce simp: by_from_def)
  next
    case False
    let ?r = "if dr_Before s > dr_Before r then r\<lparr>dr_Before := dr_Before s\<rparr> else r"
    have "dr_From ?r \<le> dr_From x" by (rule Cons.IH) (use Cons.prems False in auto)
    then show ?thesis by (auto split: if_splits)
  qed
qed auto

lemma separated_merge_loop:
  assumes "by_from (r # rs)" "nonempty (r # rs)"
  shows "separated (merge_loop r rs) \<and> nonempty (merge_loop r rs)"
  using assms
proof (induction rs arbitrary: r)
  case (Cons s rs)
  show ?case
  proof (cases "dr_From s > dr_Before r")
    case True
    have "separated (merge_loop s rs) \<and> nonempty (merge_loop s rs)"
      by (rule Cons.IH) (use Cons.prems in auto)
    moreover have "\<forall>x \<in> set (merge_loop s rs). dr_From s \<le> dr_From x"
      using merge_loop_From_ge Cons.prems by auto
    ultimately show ?thesis using True Cons.prems by (fastforce simp: separated_def)
  next
    case False
    with Cons show ?thesis by auto
  qed
qed (simp add: separated_def)

lemma MergeRanges_cases:
  obtains (short) "length ranges \<le> 1" "MergeRanges ranges = ranges"
  | (merged) r rs where "go_sort (\<lambda>a b. dr_From a < dr_From b) ranges = r # rs"
      "MergeRanges ranges = merge_loop r rs" "by_from (r # rs)"
proof (cases "length ranges \<le> 1")
  case True
  with short show thesis by (simp add: MergeRanges_def)
next
  case False
  let ?s = "go_sort (\<lambda>a b. dr_From a < dr_From b) ranges"
  have "?s \<noteq> []" using False by (metis le0 length_go_sort list.size(3))
  moreover have "by_from ?s" unfolding by_from_def by (rule go_sort_sorted) simp
  ultimately show thesis using False merged by (cases ?s) (auto simp: MergeRanges_def)
qed

lemma points_MergeRanges: "points (MergeRanges ranges) = points ranges"
proof (cases ranges rule: MergeRanges_cases)
  case (merged r rs)
  then have "points (MergeRanges ranges) = points (r # rs)"
    by (simp only: points_merge_loop)
  also have "\<dots> = points ranges"
    unfolding merged(1) [symmetric] by (rule points_mset) simp
  finally show ?thesis .
qed simp

lemma separated_MergeRanges:
  assumes "nonempty ranges"
  shows "separated (MergeRanges ranges) \<and> nonempty (MergeRanges ranges)"
proof (cases ranges rule: MergeRanges_cases)
  case short
  with assms show ?thesis by (cases ranges) (auto simp: separated_def)
next
  case (merged r rs)
  from merged(1) have "set (r # rs) = set ranges" by (metis set_go_sort)
  with assms have "nonempty (r # rs)" by (simp add: nonempty_def)
  with merged separated_merge_loop show ?thesis by simp
qed

lemma by_from_merge_loop: "by_from (r # rs) \<Longrightarrow> by_from (merge_loop r rs)"
proof (induction rs arbitrary: r)
  case (Cons s rs)
  then show ?case using merge_loop_From_ge [of s rs] by (fastforce simp: by_from_def)
qed simp

lemma by_from_MergeRanges: "by_from (MergeRanges ranges)"
proof (cases ranges rule: MergeRanges_cases)
  case short
  then show ?thesis by (cases ranges) (auto simp: by_from_def)
next
  case (merged r rs)
  then show ?thesis by (simp only: by_from_merge_loop)
qed

subsection \<open>Subtracting\<close>

lemma points_subtract_inner:
  "by_from cs \<Longrightarrow> points (subtract_inner cur n cs) = {cur ..< dr_Before n} - points cs"
proof (induction cs arbitrary: cur)
  case (Cons c cs)
  show ?case
  proof (cases "dr_From c < dr_Before n")
    case True
    let ?cur = "if dr_Before c > cur then dr_Before c else cur"
    have IH: "points (subtract_inner ?cur n cs) = {?cur ..< dr_Before n} - points cs"
      by (rule Cons.IH) (use Cons.prems in simp)
    have late: "x \<notin> points cs" if "x < dr_From c" for x
      using that Cons.prems by (fastforce simp: points_def covers_def)
    show ?thesis using True late by (auto simp: IH covers_def)
  next
    case False
    then have "x \<notin> points (c # cs)" if "x < dr_Before n" for x
      using that Cons.prems by (fastforce simp: points_def covers_def)
    with False show ?thesis by (auto simp: covers_def)
  qed
qed (simp add: covers_def)

lemma points_dropWhile_ended:
  assumes "\<And>x. x \<in> S \<Longrightarrow> lo \<le> x"
  shows "S - points (dropWhile (\<lambda>c. \<not> dr_Before c > lo) cs) = S - points cs"
  using assms by (induction cs) (force simp: covers_def)+

lemma by_from_dropWhile: "by_from cs \<Longrightarrow> by_from (dropWhile P cs)"
  unfolding by_from_def by (induction cs) auto

lemma points_subtract_loop:
  "by_from ns \<Longrightarrow> by_from cs \<Longrightarrow> points (subtract_loop ns cs) = points ns - points cs"
proof (induction ns arbitrary: cs)
  case (Cons n ns)
  let ?cs = "dropWhile (\<lambda>c. \<not> dr_Before c > dr_From n) cs"
  have "points ns - points ?cs = points ns - points cs"
    by (rule points_dropWhile_ended) (use Cons.prems(1) in \<open>fastforce simp: points_def covers_def\<close>)
  moreover have "covers n - points ?cs = covers n - points cs"
    by (rule points_dropWhile_ended) (simp add: covers_def)
  ultimately show ?case
    using Cons by (auto simp: Let_def by_from_dropWhile points_subtract_inner covers_def)
qed simp

lemma points_SubtractRanges:
  "by_from needed \<Longrightarrow> by_from cached \<Longrightarrow> points (SubtractRanges needed cached) = points needed - points cached"
  by (simp add: SubtractRanges_def points_subtract_loop)

lemma subtract_inner_bounds:
  "r \<in> set (subtract_inner cur n cs) \<Longrightarrow> cur \<le> dr_From r \<and> dr_Before r \<le> dr_Before n"
  by (induction cs arbitrary: cur) (auto split: if_splits, fastforce+)

lemma nonempty_subtract_inner: "nonempty (subtract_inner cur n cs)"
  by (induction cs arbitrary: cur) auto

lemma disjoint_ascending_append:
  "disjoint_ascending (xs @ ys) \<longleftrightarrow> disjoint_ascending xs \<and> disjoint_ascending ys
     \<and> (\<forall>x \<in> set xs. \<forall>y \<in> set ys. dr_Before x \<le> dr_From y)"
  by (simp add: disjoint_ascending_def sorted_wrt_append)

lemma ascending_subtract_inner:
  "nonempty cs \<Longrightarrow> disjoint_ascending (subtract_inner cur n cs)"
proof (induction cs arbitrary: cur)
  case (Cons c cs)
  then show ?case
    by (auto simp: disjoint_ascending_append dest!: subtract_inner_bounds)
       (auto simp: disjoint_ascending_def)
qed (simp add: disjoint_ascending_def)

lemma subtract_loop_bounds:
  assumes "disjoint_ascending (n # ns)" "nonempty (n # ns)" "r \<in> set (subtract_loop ns cs)"
  shows "dr_Before n \<le> dr_From r"
  using assms
proof (induction ns arbitrary: cs)
  case (Cons m ns)
  then have "disjoint_ascending (n # ns)" "nonempty (n # ns)" "dr_Before n \<le> dr_From m"
    by (auto simp: disjoint_ascending_def)
  with Cons show ?case by (auto simp: Let_def dest!: subtract_inner_bounds)
qed simp

lemma nonempty_dropWhile: "nonempty cs \<Longrightarrow> nonempty (dropWhile P cs)"
  by (auto simp: nonempty_def dest: set_dropWhileD)

lemma ascending_subtract_loop:
  assumes "disjoint_ascending ns" "nonempty ns" "nonempty cs"
  shows "disjoint_ascending (subtract_loop ns cs) \<and> nonempty (subtract_loop ns cs)"
  using assms
proof (induction ns arbitrary: cs)
  case (Cons n ns)
  let ?cs = "dropWhile (\<lambda>c. \<not> dr_Before c > dr_From n) cs"
  have cs: "nonempty ?cs" using Cons.prems(3) by (rule nonempty_dropWhile)
  with Cons have "disjoint_ascending (subtract_loop ns ?cs) \<and> nonempty (subtract_loop ns ?cs)"
    by (auto simp: disjoint_ascending_def)
  moreover have "\<forall>x \<in> set (subtract_inner (dr_From n) n ?cs). \<forall>y \<in> set (subtract_loop ns ?cs).
      dr_Before x \<le> dr_From y"
    using subtract_loop_bounds [OF Cons.prems(1,2)] subtract_inner_bounds by fastforce
  ultimately show ?case
    using cs by (simp add: Let_def disjoint_ascending_append ascending_subtract_inner
        nonempty_subtract_inner)
qed (simp add: disjoint_ascending_def)

lemma separated_ascending: "separated rs \<Longrightarrow> disjoint_ascending rs"
  unfolding separated_def disjoint_ascending_def
  by (erule sorted_wrt_mono_rel [rotated]) simp

text \<open>
  Merging keeps the instants covered, whatever ranges it is given, and when every range
  given holds at least one instant the result is in normal form: ascending, every two
  neighbours separated by a gap, no range empty.
\<close>

theorem MergeRanges_normalises:
  "points (MergeRanges ranges) = points ranges
   \<and> (separated (MergeRanges ranges) \<and> nonempty (MergeRanges ranges)
      \<or> (\<exists>r \<in> set ranges. dr_Before r \<le> dr_From r))"
  using points_MergeRanges separated_MergeRanges by (force simp: nonempty_def)

text \<open>
  The gaps between what is needed and what is cached are computed exactly: over merged
  inputs the result covers the needed instants that no cached range covers and nothing else.
\<close>

theorem SubtractRanges_is_difference:
  "points (SubtractRanges (MergeRanges needed) (MergeRanges cached)) = points needed - points cached"
  by (simp add: points_SubtractRanges by_from_MergeRanges points_MergeRanges)

text \<open>
  The gaps come out ascending, pairwise disjoint and non-empty, so a fetch is never asked
  for an instant twice or for an empty range.
\<close>

theorem SubtractRanges_gaps_are_disjoint:
  assumes "\<forall>r \<in> set needed. dr_From r < dr_Before r" and "\<forall>r \<in> set cached. dr_From r < dr_Before r"
  shows "disjoint_ascending (SubtractRanges (MergeRanges needed) (MergeRanges cached))
    \<and> nonempty (SubtractRanges (MergeRanges needed) (MergeRanges cached))"
proof -
  have "nonempty needed" "nonempty cached" using assms by (simp_all add: nonempty_def)
  then have "separated (MergeRanges needed)" "nonempty (MergeRanges needed)" "nonempty (MergeRanges cached)"
    by (simp_all add: separated_MergeRanges)
  then show ?thesis
    by (auto simp: SubtractRanges_def ascending_subtract_loop separated_ascending)
qed

theorem SubtractRanges_gaps_are_disjoint_witness:
  "SubtractRanges (MergeRanges [\<lparr>dr_From = 5, dr_Before = 10\<rparr>, \<lparr>dr_From = 0, dr_Before = 5\<rparr>])
     (MergeRanges [\<lparr>dr_From = 2, dr_Before = 4\<rparr>])
   = [\<lparr>dr_From = 0, dr_Before = 2\<rparr>, \<lparr>dr_From = 4, dr_Before = 10\<rparr>]
   \<and> disjoint_ascending [\<lparr>dr_From = 0, dr_Before = 2\<rparr>, \<lparr>dr_From = 4, dr_Before = 10\<rparr>]"
proof -
  let ?n = "[\<lparr>dr_From = 5, dr_Before = 10\<rparr>, \<lparr>dr_From = 0, dr_Before = 5\<rparr>]"
  let ?c = "[\<lparr>dr_From = 2, dr_Before = 4\<rparr>]"
  have "SubtractRanges (MergeRanges ?n) (MergeRanges ?c)
      = [\<lparr>dr_From = 0, dr_Before = 2\<rparr>, \<lparr>dr_From = 4, dr_Before = 10\<rparr>]"
    by (simp add: SubtractRanges_def MergeRanges_def)
  then show ?thesis using SubtractRanges_gaps_are_disjoint [of ?n ?c] by simp
qed

end
