(* ===== verification/Derivative.thy ===== *)
theory Derivative
  imports Go_Text "HOL-Library.Word"
begin

text \<open>
  Option symbols, \<open>src/server/derivative/parse.go\<close>: the three formats \<open>ParseOptionTicker\<close> reads, the
  OCC symbol in its compact and padded forms, and its construction. Each anchored regular expression
  is a matcher that returns its submatches; the character classes make every match unique.

  A time is the civil date it falls on, as the code only ever makes midnights: \<open>time_Date\<close> carries a
  day or month out of range into the neighbouring ones, as \<open>time.Date\<close> does. \<open>decimal.NewFromString\<close>
  is a parameter.
\<close>

subsection \<open>Civil dates\<close>

record Civil =
  cd_year :: int
  cd_month :: int
  cd_day :: int

definition leap :: "int \<Rightarrow> bool" where
  "leap y \<longleftrightarrow> 4 dvd y \<and> (\<not> 100 dvd y \<or> 400 dvd y)"

definition days_in :: "int \<Rightarrow> int \<Rightarrow> int" where
  "days_in y m = (if m = 2 then (if leap y then 29 else 28) else if m \<in> {4, 6, 9, 11} then 30 else 31)"

lemma days_in_pos: "28 \<le> days_in y m" "days_in y m \<le> 31"
  by (simp_all add: days_in_def)

lemma days_in_gt0 [simp]: "0 < days_in y m"
  using days_in_pos(1) [of y m] by linarith

function carry_days :: "int \<Rightarrow> int \<Rightarrow> int \<Rightarrow> Civil" where
  "carry_days y m d =
     (if d > days_in y m then (if m = 12 then carry_days (y + 1) 1 (d - days_in y m) else carry_days y (m + 1) (d - days_in y m))
      else \<lparr>cd_year = y, cd_month = m, cd_day = d\<rparr>)"
  by pat_completeness auto
termination
  by (relation "measure (\<lambda>(y, m, d). nat d)") (auto intro: order.strict_trans [OF days_in_gt0])

function borrow_days :: "int \<Rightarrow> int \<Rightarrow> int \<Rightarrow> Civil" where
  "borrow_days y m d =
     (if d < 1 then (if m = 1 then borrow_days (y - 1) 12 (d + days_in (y - 1) 12) else borrow_days y (m - 1) (d + days_in y (m - 1)))
      else \<lparr>cd_year = y, cd_month = m, cd_day = d\<rparr>)"
  by pat_completeness auto
termination
  by (relation "measure (\<lambda>(y, m, d). nat (1 - d))") auto

definition time_Date :: "int \<Rightarrow> int \<Rightarrow> int \<Rightarrow> Civil" where
  "time_Date y m d =
     (let y' = y + (m - 1) div 12; m' = (m - 1) mod 12 + 1 in
      if d < 1 then borrow_days y' m' d else carry_days y' m' d)"

definition IsZero :: "Civil \<Rightarrow> bool" where
  "IsZero t \<longleftrightarrow> t = \<lparr>cd_year = 1, cd_month = 1, cd_day = 1\<rparr>"

subsection \<open>Matching\<close>

definition FormatOCC :: string where "FormatOCC = ''OCC''"
definition FormatClassic :: string where "FormatClassic = ''Classic''"
definition FormatCompact :: string where "FormatCompact = ''Compact''"

record ParsedOption =
  po_Format :: string
  po_Symbol :: string
  po_ExchangeHint :: string
  po_Expiry :: Civil
  po_PutCall :: string
  po_Strike :: decimal

text \<open>The class \<open>\s\<close> of a regular expression, narrower than what \<open>TrimSpace\<close> removes.\<close>

definition re_space :: "char \<Rightarrow> bool" where
  "re_space c \<longleftrightarrow> (of_char c :: nat) \<in> {9, 10, 12, 13, 32}"

definition put_call :: "char \<Rightarrow> bool" where
  "put_call c \<longleftrightarrow> c = CHR ''C'' \<or> c = CHR ''P''"

definition occRe :: "string \<Rightarrow> (string \<times> string \<times> char \<times> string) option" where
  "occRe s =
     (if length s = 21 \<and> list_all (\<lambda>c. is_upper c \<or> is_digit c \<or> re_space c) (take 6 s)
         \<and> list_all is_digit (take 6 (drop 6 s)) \<and> put_call (s ! 12) \<and> list_all is_digit (drop 13 s)
      then Some (take 6 s, take 6 (drop 6 s), s ! 12, drop 13 s) else None)"

definition strikeRe :: "string \<Rightarrow> bool" where
  "strikeRe s \<longleftrightarrow> (let r = dropWhile is_digit s in
     takeWhile is_digit s \<noteq> [] \<and> (r = [] \<or> hd r = CHR ''.'' \<and> tl r \<noteq> [] \<and> list_all is_digit (tl r)))"

definition classicRe :: "string \<Rightarrow> (string \<times> string \<times> string \<times> string \<times> char \<times> string) option" where
  "classicRe s =
     (let sym = takeWhile is_upper s; r1 = dropWhile is_upper s; r2 = dropWhile re_space r1;
          mm = takeWhile is_digit r2; r3 = dropWhile is_digit r2;
          dd = takeWhile is_digit (tl r3); r4 = dropWhile is_digit (tl r3);
          yy = takeWhile is_digit (tl r4); r5 = dropWhile is_digit (tl r4); r6 = dropWhile re_space r5;
          strike = dropWhile re_space (tl r6) in
      if 1 \<le> length sym \<and> length sym \<le> 5 \<and> takeWhile re_space r1 \<noteq> []
         \<and> 1 \<le> length mm \<and> length mm \<le> 2 \<and> r3 \<noteq> [] \<and> hd r3 = CHR ''/''
         \<and> 1 \<le> length dd \<and> length dd \<le> 2 \<and> r4 \<noteq> [] \<and> hd r4 = CHR ''/''
         \<and> length yy = 2 \<and> takeWhile re_space r5 \<noteq> [] \<and> r6 \<noteq> [] \<and> put_call (hd r6) \<and> strikeRe strike
      then Some (sym, mm, dd, yy, hd r6, strike) else None)"

definition compactRe :: "string \<Rightarrow> (string \<times> string \<times> char \<times> string) option" where
  "compactRe s =
     (let sym = takeWhile is_upper s; r1 = dropWhile is_upper s; ymd = takeWhile is_digit r1; r2 = dropWhile is_digit r1 in
      if 1 \<le> length sym \<and> length sym \<le> 5 \<and> length ymd = 8 \<and> r2 \<noteq> [] \<and> put_call (hd r2) \<and> strikeRe (tl r2)
      then Some (sym, ymd, hd r2, tl r2) else None)"

definition occSuffixLen :: nat where "occSuffixLen = 15"
definition StrikeScale :: nat where "StrikeScale = 3"
definition maxOCCStrike :: int where "maxOCCStrike = 99999999"

definition occSuffixRe :: "string \<Rightarrow> bool" where
  "occSuffixRe s \<longleftrightarrow> length s = 15 \<and> list_all is_digit (take 6 s) \<and> put_call (s ! 6) \<and> list_all is_digit (drop 7 s)"

subsection \<open>Dates in symbols\<close>

definition in_calendar :: "int \<Rightarrow> int \<Rightarrow> bool" where
  "in_calendar mm dd \<longleftrightarrow> \<not> (mm < 1 \<or> mm > 12 \<or> dd < 1 \<or> dd > 31)"

definition parseYYMMDD :: "string \<Rightarrow> Civil option" where
  "parseYYMMDD s =
     (if length s \<noteq> 6 then None
      else case (Atoi (take 2 s), Atoi (take 2 (drop 2 s)), Atoi (take 2 (drop 4 s))) of
          (Some yy, Some mm, Some dd) \<Rightarrow>
            (let year = (if yy \<ge> 50 then 1900 + yy else 2000 + yy) in
             if in_calendar mm dd then Some (time_Date year mm dd) else None)
        | _ \<Rightarrow> None)"

definition parseYYYYMMDD :: "string \<Rightarrow> Civil option" where
  "parseYYYYMMDD s =
     (if length s \<noteq> 8 then None
      else case (Atoi (take 4 s), Atoi (take 2 (drop 4 s)), Atoi (take 2 (drop 6 s))) of
          (Some yyyy, Some mm, Some dd) \<Rightarrow> if in_calendar mm dd then Some (time_Date yyyy mm dd) else None
        | _ \<Rightarrow> None)"

subsection \<open>OCC symbols\<close>

definition thousandths :: "int \<Rightarrow> decimal" where
  "thousandths n = of_int n / 10 ^ StrikeScale"

definition OCCCompact :: "string \<Rightarrow> string option" where
  "OCCCompact occ =
     (let body = filter (\<lambda>c. c \<noteq> CHR '' '') (ToUpper (TrimSpace occ)) in
      if length body < occSuffixLen + 1 \<or> length body > occSuffixLen + 6 then None
      else if \<not> occSuffixRe (drop (length body - occSuffixLen) body) then None
      else Some body)"

definition OCCExpiry :: "string \<Rightarrow> Civil option" where
  "OCCExpiry occ = (case OCCCompact occ of
       None \<Rightarrow> None
     | Some body \<Rightarrow> parseYYMMDD (take 6 (drop (length body - occSuffixLen) body)))"

definition OCCPadded :: "string \<Rightarrow> string option" where
  "OCCPadded occ = map_option (\<lambda>body.
     let rt = take (length body - occSuffixLen) body in
     rt @ replicate (6 - length rt) CHR '' '' @ drop (length body - occSuffixLen) body) (OCCCompact occ)"

text \<open>Rounding of a decimal to an integer, half away from zero; \<open>IntPart\<close> keeps 64 bits.\<close>

definition round_half_away :: "decimal \<Rightarrow> int" where
  "round_half_away x = (if x < 0 then - \<lfloor>- x + 1 / 2\<rfloor> else \<lfloor>x + 1 / 2\<rfloor>)"

definition strike_cents :: "decimal \<Rightarrow> int" where
  "strike_cents strike = sint (word_of_int (round_half_away (strike * 10 ^ StrikeScale)) :: int64)"

text \<open>The remainder of Go, with the sign of the dividend.\<close>

definition go_rem :: "int \<Rightarrow> int \<Rightarrow> int" where
  "go_rem a b = (if a < 0 then - ((- a) mod b) else a mod b)"

definition BuildOCCCompact :: "string \<Rightarrow> Civil \<Rightarrow> string \<Rightarrow> decimal \<Rightarrow> string option" where
  "BuildOCCCompact symbol expiry putCall strike =
     (let sym = TrimSpace (ToUpper symbol); pc = ToUpper putCall in
      if length sym < 1 \<or> length sym > 6 then None
      else if pc \<noteq> ''C'' \<and> pc \<noteq> ''P'' then None
      else if IsZero expiry \<or> strike < 0 then None
      else if strike_cents strike > maxOCCStrike then None
      else Some (sym @ zero_padded 2 (go_rem (cd_year expiry) 100) @ zero_padded 2 (cd_month expiry)
                 @ zero_padded 2 (cd_day expiry) @ pc @ zero_padded 8 (strike_cents strike)))"

definition AdjustStrike :: "decimal \<Rightarrow> decimal \<Rightarrow> decimal \<Rightarrow> decimal" where
  "AdjustStrike strike num den =
     (if num = 0 then strike else thousandths (round_half_away (strike * den / num * 10 ^ StrikeScale)))"

subsection \<open>Parsing a ticker\<close>

definition dec_or_zero :: "(string \<Rightarrow> decimal option) \<Rightarrow> string \<Rightarrow> decimal" where
  "dec_or_zero pd s = (case pd s of None \<Rightarrow> 0 | Some x \<Rightarrow> x)"

definition occ_option :: "string \<Rightarrow> Civil \<Rightarrow> char \<Rightarrow> int \<Rightarrow> ParsedOption" where
  "occ_option rt expiry pc cents =
     \<lparr>po_Format = FormatOCC, po_Symbol = rt, po_ExchangeHint = '''', po_Expiry = expiry, po_PutCall = [pc],
      po_Strike = thousandths cents\<rparr>"

definition parse_compact_occ :: "string \<Rightarrow> ParsedOption option" where
  "parse_compact_occ upper = (case OCCCompact upper of
       None \<Rightarrow> None
     | Some body \<Rightarrow>
         let rt = take (length body - occSuffixLen) body; suffix = drop (length body - occSuffixLen) body in
         case (parseYYMMDD (take 6 suffix), Atoi (drop 7 suffix)) of
           (Some expiry, Some cents) \<Rightarrow> Some (occ_option rt expiry (suffix ! 6) cents)
         | _ \<Rightarrow> None)"

definition parse_classic :: "(string \<Rightarrow> decimal option) \<Rightarrow> string \<times> string \<times> string \<times> string \<times> char \<times> string \<Rightarrow> ParsedOption" where
  "parse_classic pd = (\<lambda>(sym, m, d, y, pc, strike).
     let num = (\<lambda>s. case Atoi s of None \<Rightarrow> 0 | Some n \<Rightarrow> n);
         year = (case Atoi y of None \<Rightarrow> 2000 | Some n \<Rightarrow>
           if 0 \<le> n \<and> n \<le> 99 then (if n \<ge> 50 then 1900 + n else 2000 + n) else 2000) in
     \<lparr>po_Format = FormatClassic, po_Symbol = sym, po_ExchangeHint = '''', po_Expiry = time_Date year (num m) (num d),
      po_PutCall = [pc], po_Strike = dec_or_zero pd strike\<rparr>)"

definition ParseOptionTicker :: "(string \<Rightarrow> decimal option) \<Rightarrow> string \<Rightarrow> ParsedOption option" where
  "ParseOptionTicker pd optionTicker =
     (let s = TrimSpace optionTicker; upper = ToUpper s in
      if s = '''' then None
      else case occRe upper of
          Some (m1, m2, m3, m4) \<Rightarrow>
            (let rt = TrimSpace m1 in
             if rt = '''' then None
             else case parseYYMMDD m2 of
                 None \<Rightarrow> None
               | Some expiry \<Rightarrow> (case Atoi m4 of None \<Rightarrow> None | Some cents \<Rightarrow> Some (occ_option rt expiry m3 cents)))
        | None \<Rightarrow> (case parse_compact_occ upper of
            Some p \<Rightarrow> Some p
          | None \<Rightarrow> (case classicRe upper of
              Some m \<Rightarrow> Some (parse_classic pd m)
            | None \<Rightarrow> (case compactRe upper of
                Some (ticker, ymd, pc, strike) \<Rightarrow>
                  (case parseYYYYMMDD ymd of
                     None \<Rightarrow> None
                   | Some expiry \<Rightarrow> Some \<lparr>po_Format = FormatCompact, po_Symbol = ticker, po_ExchangeHint = '''', po_Expiry = expiry,
                       po_PutCall = [pc], po_Strike = dec_or_zero pd strike\<rparr>)
              | None \<Rightarrow> None))))"

declare carry_days.simps [simp del] borrow_days.simps [simp del]

subsection \<open>Printing and reading an OCC symbol\<close>

text \<open>A date of the calendar, in the hundred years an OCC symbol can name.\<close>

definition occ_date :: "Civil \<Rightarrow> bool" where
  "occ_date t \<longleftrightarrow> 1950 \<le> cd_year t \<and> cd_year t \<le> 2049 \<and> 1 \<le> cd_month t \<and> cd_month t \<le> 12
     \<and> 1 \<le> cd_day t \<and> cd_day t \<le> days_in (cd_year t) (cd_month t)"

definition yymmdd :: "Civil \<Rightarrow> string" where
  "yymmdd t = zero_padded 2 (go_rem (cd_year t) 100) @ zero_padded 2 (cd_month t) @ zero_padded 2 (cd_day t)"

lemma Atoi_padded: "0 \<le> n \<Longrightarrow> n < 10 ^ w \<Longrightarrow> 0 < w \<Longrightarrow> w \<le> 8 \<Longrightarrow> Atoi (zero_padded w n) = Some n"
proof -
  assume n: "0 \<le> n" "n < 10 ^ w" "0 < w" "w \<le> 8"
  note f = zero_padded_facts [OF n(1-3)]
  have "(10 :: int) ^ w \<le> 10 ^ 8" using n(4) by (intro power_increasing) auto
  then have "nat n < 2 ^ 63" using n(1,2) by (simp add: nat_less_iff)
  moreover have "zero_padded w n \<noteq> []" using f(1) n(3) by auto
  ultimately show ?thesis using Atoi_digits [OF f(2)] f(3) n(1) by simp
qed

lemma occ_date_parts:
  assumes "occ_date t"
  shows "0 \<le> go_rem (cd_year t) 100" "go_rem (cd_year t) 100 < 10 ^ 2" "0 \<le> cd_month t" "cd_month t < 10 ^ 2"
    "0 \<le> cd_day t" "cd_day t < 10 ^ 2"
  using assms days_in_pos(2) [of "cd_year t" "cd_month t"] by (auto simp: occ_date_def go_rem_def)

lemma yymmdd_shape: "occ_date t \<Longrightarrow> length (yymmdd t) = 6 \<and> list_all is_digit (yymmdd t)"
  using zero_padded_facts(1,2) [of _ 2] occ_date_parts [of t] by (simp add: yymmdd_def)

lemma time_Date_valid: "occ_date t \<Longrightarrow> time_Date (cd_year t) (cd_month t) (cd_day t) = t"
  by (simp add: time_Date_def Let_def occ_date_def carry_days.simps)

lemma parseYYMMDD_yymmdd:
  assumes "occ_date t"
  shows "parseYYMMDD (yymmdd t) = Some t"
proof -
  note p = occ_date_parts [OF assms]
  have len: "length (zero_padded 2 (go_rem (cd_year t) 100)) = 2" "length (zero_padded 2 (cd_month t)) = 2"
    "length (zero_padded 2 (cd_day t)) = 2"
    using zero_padded_facts(1) p by simp_all
  have "Atoi (zero_padded 2 (go_rem (cd_year t) 100)) = Some (go_rem (cd_year t) 100)"
    "Atoi (zero_padded 2 (cd_month t)) = Some (cd_month t)" "Atoi (zero_padded 2 (cd_day t)) = Some (cd_day t)"
    using Atoi_padded p by simp_all
  moreover have "(if go_rem (cd_year t) 100 \<ge> 50 then 1900 + go_rem (cd_year t) 100 else 2000 + go_rem (cd_year t) 100) = cd_year t"
  proof -
    have "(if y mod 100 \<ge> 50 then 1900 + y mod 100 else 2000 + y mod 100) = y" if "1950 \<le> y" "y \<le> 2049" for y :: int
      using that by presburger
    from this [of "cd_year t"] show ?thesis using assms by (auto simp: occ_date_def go_rem_def split: if_splits)
  qed
  moreover have "in_calendar (cd_month t) (cd_day t)"
    using assms days_in_pos(2) [of "cd_year t" "cd_month t"] by (auto simp: occ_date_def in_calendar_def)
  ultimately show ?thesis using len time_Date_valid [OF assms] by (simp add: parseYYMMDD_def yymmdd_def)
qed

lemma digits_upper: "list_all is_digit s \<Longrightarrow> list_all (\<lambda>c. is_upper c \<or> is_digit c) s"
  by (simp add: list_all_iff)

lemma put_call_upper: "put_call c \<Longrightarrow> is_upper c"
  by (auto simp: put_call_def is_upper_def)

text \<open>A well formed suffix, and what every reader finds in it.\<close>

definition occ_suffix :: "Civil \<Rightarrow> char \<Rightarrow> int \<Rightarrow> string" where
  "occ_suffix t pc cents = yymmdd t @ [pc] @ zero_padded 8 cents"

lemma occ_suffix_facts:
  assumes "occ_date t" "put_call pc" "0 \<le> cents" "cents \<le> maxOCCStrike"
  shows "length (occ_suffix t pc cents) = 15" "list_all (\<lambda>c. is_upper c \<or> is_digit c) (occ_suffix t pc cents)"
    "occSuffixRe (occ_suffix t pc cents)" "take 6 (occ_suffix t pc cents) = yymmdd t" "occ_suffix t pc cents ! 6 = pc"
    "drop 7 (occ_suffix t pc cents) = zero_padded 8 cents" "Atoi (zero_padded 8 cents) = Some cents"
proof -
  note d = yymmdd_shape [OF assms(1)]
  have c: "cents < 10 ^ 8" using assms(4) by (simp add: maxOCCStrike_def)
  note z = zero_padded_facts [OF assms(3) c]
  show "length (occ_suffix t pc cents) = 15" "list_all (\<lambda>c. is_upper c \<or> is_digit c) (occ_suffix t pc cents)"
    "take 6 (occ_suffix t pc cents) = yymmdd t" "occ_suffix t pc cents ! 6 = pc" "drop 7 (occ_suffix t pc cents) = zero_padded 8 cents"
    using d z(1,2) put_call_upper [OF assms(2)] digits_upper by (simp_all add: occ_suffix_def nth_append)
  then show "occSuffixRe (occ_suffix t pc cents)" using d z(2) assms(2) by (simp add: occSuffixRe_def)
  show "Atoi (zero_padded 8 cents) = Some cents" by (rule Atoi_padded [OF assms(3) c]) simp_all
qed

abbreviation wordly :: "string \<Rightarrow> bool" where
  "wordly s \<equiv> list_all (\<lambda>c. is_upper c \<or> is_digit c) s"

lemma no_blanks: "wordly s \<Longrightarrow> filter (\<lambda>c. c \<noteq> CHR '' '') s = s"
  by (induction s) (auto simp: is_upper_def is_digit_def)

lemma OCCCompact_word:
  assumes "wordly s" "occSuffixRe suffix" "s = rt @ suffix" "1 \<le> length rt" "length rt \<le> 6"
  shows "OCCCompact s = Some s"
proof -
  have "length suffix = 15" using assms(2) by (simp add: occSuffixRe_def)
  then show ?thesis
    using assms by (auto simp: OCCCompact_def Let_def TrimSpace_word ToUpper_id no_blanks occSuffixLen_def)
qed

lemma occRe_word:
  assumes "occ_date t" "put_call pc" "0 \<le> cents" "cents \<le> maxOCCStrike" "wordly rt" "length rt \<le> 6"
  shows "occRe (rt @ occ_suffix t pc cents) =
    (if length rt = 6 then Some (rt, yymmdd t, pc, zero_padded 8 cents) else None)"
proof (cases "length rt = 6")
  case True
  note f = occ_suffix_facts [OF assms(1-4)]
  have s: "take 6 (rt @ occ_suffix t pc cents) = rt" "take 6 (drop 6 (rt @ occ_suffix t pc cents)) = yymmdd t"
    "(rt @ occ_suffix t pc cents) ! 12 = pc" "drop 13 (rt @ occ_suffix t pc cents) = zero_padded 8 cents"
    using True f(4-6) by (simp_all add: nth_append)
  have "list_all is_digit (zero_padded 8 cents)" using f(3,6) by (simp add: occSuffixRe_def)
  moreover have "list_all (\<lambda>c. is_upper c \<or> is_digit c \<or> re_space c) rt" using assms(5) by (auto simp: list_all_iff)
  ultimately show ?thesis
    unfolding occRe_def s using True f(1) yymmdd_shape [OF assms(1)] assms(2) by simp
next
  case False
  then show ?thesis using occ_suffix_facts(1) [OF assms(1-4)] by (simp add: occRe_def)
qed

lemma ParseOptionTicker_occ:
  assumes "occ_date t" "put_call pc" "0 \<le> cents" "cents \<le> maxOCCStrike" "wordly rt" "1 \<le> length rt" "length rt \<le> 6"
  shows "ParseOptionTicker pd (rt @ occ_suffix t pc cents) = Some (occ_option rt t pc cents)"
proof -
  let ?s = "rt @ occ_suffix t pc cents"
  note f = occ_suffix_facts [OF assms(1-4)]
  have w: "wordly ?s" using f(2) assms(5) by simp
  have up: "TrimSpace ?s = ?s" "ToUpper ?s = ?s" using TrimSpace_word [OF w] ToUpper_id [OF w] by simp_all
  have ne: "?s \<noteq> ''''" "rt \<noteq> ''''" using assms(6) by auto
  note y = parseYYMMDD_yymmdd [OF assms(1)]
  have c: "parse_compact_occ ?s = Some (occ_option rt t pc cents)"
    unfolding parse_compact_occ_def OCCCompact_word [OF w f(3) refl assms(6,7)]
    using f(1,4,5,6,7) y by (simp add: occSuffixLen_def Let_def)
  show ?thesis
    unfolding ParseOptionTicker_def Let_def up occRe_word [OF assms(1-5,7)]
    using ne c y f(7) TrimSpace_word [OF assms(5)] by simp
qed

lemma BuildOCCCompact_occ:
  assumes "wordly rt" "1 \<le> length rt" "length rt \<le> 6" "occ_date expiry" "put_call pc" "strike = thousandths n" "0 \<le> n" "n \<le> maxOCCStrike"
  shows "BuildOCCCompact rt expiry [pc] strike = Some (rt @ occ_suffix expiry pc n)"
proof -
  have "strike * 10 ^ StrikeScale = of_int n" using assms(6) by (simp add: thousandths_def)
  moreover have "\<lfloor>of_int n + 1 / 2 :: rat\<rfloor> = n" by (simp add: floor_eq_iff)
  ultimately have "round_half_away (strike * 10 ^ StrikeScale) = n" using assms(7) by (simp add: round_half_away_def)
  then have cents: "strike_cents strike = n"
    using assms(7,8) by (simp add: strike_cents_def maxOCCStrike_def int_word_sint)
  have pos: "\<not> strike < 0" using assms(6,7) by (simp add: thousandths_def not_less)
  have zero: "\<not> IsZero expiry" using assms(4) by (auto simp: IsZero_def occ_date_def)
  have pc: "ToUpper [pc] = [pc]" "[pc] = ''C'' \<or> [pc] = ''P''"
    using assms(5) by (auto simp: put_call_def ToUpper_def upper_char_def)
  show ?thesis
    using assms(2,3,8) pos zero pc cents
    by (auto simp: BuildOCCCompact_def Let_def ToUpper_id [OF assms(1)] TrimSpace_word [OF assms(1)] occ_suffix_def yymmdd_def)
qed

text \<open>
  C35. An OCC symbol reads back what it was built from: a contract with a root of up to six capitals
  and digits, an expiry from 1950 to 2049 and a strike of whole thousandths below 100000 always has
  a symbol, and \<open>ParseOptionTicker\<close> returns exactly its root, expiry, side and strike.
\<close>

theorem occ_symbol_roundtrip:
  assumes "wordly rt" and "1 \<le> length rt" and "length rt \<le> 6" and "occ_date expiry" and "put_call pc"
    and "strike = thousandths n" and "0 \<le> n" and "n \<le> maxOCCStrike"
  shows "\<exists>occ. BuildOCCCompact rt expiry [pc] strike = Some occ
    \<and> ParseOptionTicker pd occ = Some \<lparr>po_Format = FormatOCC, po_Symbol = rt, po_ExchangeHint = '''', po_Expiry = expiry,
        po_PutCall = [pc], po_Strike = strike\<rparr>"
  using BuildOCCCompact_occ [OF assms] ParseOptionTicker_occ [OF assms(4,5,7,8,1,2,3), of pd]
  by (simp add: occ_option_def assms(6))

theorem occ_symbol_roundtrip_witness:
  "\<exists>occ. BuildOCCCompact ''AAPL'' \<lparr>cd_year = 2025, cd_month = 1, cd_day = 17\<rparr> ''C'' 150 = Some occ
     \<and> ParseOptionTicker (\<lambda>_. None) occ
         = Some \<lparr>po_Format = FormatOCC, po_Symbol = ''AAPL'', po_ExchangeHint = '''',
             po_Expiry = \<lparr>cd_year = 2025, cd_month = 1, cd_day = 17\<rparr>, po_PutCall = ''C'', po_Strike = 150\<rparr>"
proof -
  let ?t = "\<lparr>cd_year = 2025, cd_month = 1, cd_day = 17\<rparr>"
  have "wordly ''AAPL''" "occ_date ?t" "put_call CHR ''C''" "0 \<le> (150000 :: int)" "(150000 :: int) \<le> maxOCCStrike"
    "150 = thousandths 150000"
    by (simp_all add: is_upper_def occ_date_def days_in_def put_call_def maxOCCStrike_def thousandths_def StrikeScale_def)
  from occ_symbol_roundtrip [OF this(1) _ _ this(2,3,6,4,5), of "\<lambda>_. None"] show ?thesis by simp
qed

subsection \<open>The padded form\<close>

lemma is_space_upper: "is_space (upper_char c) = is_space c"
proof (cases "97 \<le> (of_char c :: nat) \<and> (of_char c :: nat) \<le> 122")
  case True
  then have "(of_char c :: nat) - 32 < 256" by linarith
  then have "(of_char (upper_char c) :: nat) = of_char c - 32" using True by (simp add: upper_char_def)
  then show ?thesis using True unfolding is_space_def by (simp only:) auto
qed (auto simp: upper_char_def Let_def)

lemma hd_filter: "xs \<noteq> [] \<Longrightarrow> P (hd xs) \<Longrightarrow> hd (filter P xs) = hd xs"
  by (cases xs) auto

lemma OCCCompact_body:
  assumes "OCCCompact s = Some body"
  shows "ToUpper body = body" "filter (\<lambda>c. c \<noteq> CHR '' '') body = body" "\<not> is_space (hd body)"
    "16 \<le> length body" "length body \<le> 21" "occSuffixRe (drop (length body - 15) body)"
proof -
  let ?u = "ToUpper (TrimSpace s)"
  have b: "body = filter (\<lambda>c. c \<noteq> CHR '' '') ?u" and len: "16 \<le> length body" "length body \<le> 21"
    and suf: "occSuffixRe (drop (length body - 15) body)"
    using assms by (auto simp: OCCCompact_def Let_def occSuffixLen_def split: if_splits)
  show "filter (\<lambda>c. c \<noteq> CHR '' '') body = body" "16 \<le> length body" "length body \<le> 21" "occSuffixRe (drop (length body - 15) body)"
    using len suf by (simp_all add: b)
  have "\<forall>c \<in> set ?u. upper_char c = c" by (auto simp: ToUpper_def)
  then show "ToUpper body = body" unfolding b by (intro map_idI [of _ upper_char, folded ToUpper_def]) simp
  have ne: "TrimSpace s \<noteq> []" using len b by (auto simp: ToUpper_def)
  then have "\<not> is_space (hd ?u)" using TrimSpace_ends(1) [OF ne] by (simp add: ToUpper_def list.map_sel is_space_upper)
  moreover from this have "hd ?u \<noteq> CHR '' ''" by (auto simp: is_space_def)
  ultimately show "\<not> is_space (hd body)" using ne unfolding b by (subst hd_filter) (auto simp: ToUpper_def)
qed

text \<open>
  The padded form is a normal form: it is 21 characters long, padding it again changes nothing,
  and it names the same symbol as the spelling it was made from.
\<close>

theorem OCCPadded_normal_form:
  assumes "OCCPadded s = Some p"
  shows "length p = 21 \<and> OCCPadded p = Some p \<and> OCCCompact p = OCCCompact s"
proof -
  obtain body where body: "OCCCompact s = Some body" using assms by (auto simp: OCCPadded_def)
  note b = OCCCompact_body [OF body]
  let ?rt = "take (length body - 15) body" and ?suf = "drop (length body - 15) body"
  have p: "p = ?rt @ replicate (6 - length ?rt) CHR '' '' @ ?suf"
    using assms body by (simp add: OCCPadded_def Let_def occSuffixLen_def)
  have len: "length p = 21" using b(4,5) unfolding p by simp
  have blank: "upper_char CHR '' '' = CHR '' ''" by (simp add: upper_char_def)
  have "hd p = hd body" using b(4) by (cases body) (simp_all add: p hd_append)
  moreover have "is_digit (last p)"
  proof -
    have "?suf \<noteq> []" using b(4) by (auto simp: drop_eq_Nil2)
    then have "last p = last ?suf" by (simp add: p last_append)
    also have "\<dots> = last (drop 7 ?suf)" using b(4) by simp
    finally have "last p = last (drop 7 ?suf)" .
    moreover have "drop 7 ?suf \<noteq> []" "list_all is_digit (drop 7 ?suf)" using b(4,6) by (simp_all add: occSuffixRe_def)
    ultimately show ?thesis by (metis last_in_set list_all_iff)
  qed
  ultimately have "TrimSpace p = p" using b(3) not_space [of "last p"] by (intro TrimSpace_id) simp
  moreover have "ToUpper p = p"
  proof -
    have "map upper_char ?rt = ?rt" "map upper_char ?suf = ?suf"
      using b(1) unfolding ToUpper_def by (metis take_map, metis drop_map)
    then show ?thesis by (simp add: p ToUpper_def blank)
  qed
  moreover have "filter (\<lambda>c. c \<noteq> CHR '' '') p = body"
  proof -
    have "filter (\<lambda>c. c \<noteq> CHR '' '') ?rt @ filter (\<lambda>c. c \<noteq> CHR '' '') ?suf = body"
      using b(2) by (metis append_take_drop_id filter_append)
    then show ?thesis by (simp add: p)
  qed
  ultimately have "OCCCompact p = Some body"
    using b(4-6) by (simp add: OCCCompact_def Let_def occSuffixLen_def)
  then show ?thesis using assms body len by (simp add: OCCPadded_def)
qed

theorem OCCPadded_normal_form_witness:
  "OCCPadded ''AAPL  250117C00150000'' = Some ''AAPL  250117C00150000''"
proof -
  have "OCCPadded ''aapl250117c00150000'' = Some ''AAPL  250117C00150000''" by code_simp
  from OCCPadded_normal_form [OF this] show ?thesis by simp
qed

subsection \<open>Dates that do not exist\<close>

text \<open>
  A day past the end of its month is read as one of the next: the symbol of an option expiring
  on 30 February parses, as 2 March, and the symbol built from the result is another one.
\<close>

theorem ParseOptionTicker_moves_the_expiry:
  "map_option po_Expiry (ParseOptionTicker pd ''AAPL250230C00150000'') = Some \<lparr>cd_year = 2025, cd_month = 3, cd_day = 2\<rparr>
   \<and> OCCExpiry ''AAPL250230C00150000'' = OCCExpiry ''AAPL250302C00150000''"
proof -
  let ?s = "''AAPL250230C00150000''" and ?t = "\<lparr>cd_year = 2025, cd_month = 3, cd_day = 2\<rparr>"
  have n: "Atoi ''25'' = Some 25" "Atoi ''02'' = Some 2" "Atoi ''03'' = Some 3" "Atoi ''30'' = Some 30" "Atoi ''00150000'' = Some 150000"
    by (simp_all add: Atoi_def digit_value_def is_digit_def)
  have f: "days_in 2025 2 = 28" "days_in 2025 3 = 31" by (simp_all add: days_in_def leap_def)
  have "carry_days 2025 2 30 = ?t" "carry_days 2025 3 2 = ?t"
    by (subst carry_days.simps, simp add: f, subst carry_days.simps, simp add: f) (subst carry_days.simps, simp add: f)
  then have "time_Date 2025 2 30 = ?t" "time_Date 2025 3 2 = ?t" by (simp_all add: time_Date_def)
  then have d: "parseYYMMDD ''250230'' = Some ?t" "parseYYMMDD ''250302'' = Some ?t"
    by (simp_all add: parseYYMMDD_def n in_calendar_def)
  have c: "OCCCompact ?s = Some ?s" "OCCCompact ''AAPL250302C00150000'' = Some ''AAPL250302C00150000''" by code_simp+
  have p: "parse_compact_occ ?s = Some (occ_option ''AAPL'' ?t CHR ''C'' 150000)"
    unfolding parse_compact_occ_def c using d n(5) by (simp add: occSuffixLen_def)
  have u: "TrimSpace ?s = ?s" "ToUpper ?s = ?s" "occRe ?s = None" by code_simp+
  have "ParseOptionTicker pd ?s = Some (occ_option ''AAPL'' ?t CHR ''C'' 150000)"
    unfolding ParseOptionTicker_def Let_def u p by simp
  then show ?thesis using d(1,2) by (simp add: OCCExpiry_def c occSuffixLen_def occ_option_def)
qed

end
