(* ===== verification/Security_Master.thy ===== *)
theory Security_Master
  imports Ledger_Invariant
begin

text \<open>
  The security master, \<open>src/server/db/postgres/instruments.go\<close>: instruments, the names they carry
  over half-open intervals of dates, the lookups by name, and the writes: \<open>EnsureInstrument\<close>,
  \<open>mergeInstruments\<close>, \<open>MergeInstrumentFromArchive\<close>, \<open>InsertInstrumentIdentifier\<close>.

  A table is the list of its rows in the order the store reads them where a query states none. The
  constraints of \<open>src/server/migrations/001_initial.sql\<close> on these tables are part of the writes:
  a row the schema refuses makes the statement fail, and a failed statement rolls its transaction
  back. A stored \<open>NULL\<close> domain is the empty domain, which the code never stores otherwise. The
  columns \<open>name\<close> and \<open>exchange\<close>, which a trigger derives, and the rows a deletion cascades to
  in the tables of prices, dividends and coverage are outside the model.
\<close>

subsection \<open>Tables\<close>

record InstrumentRef =
  ref_Type :: string
  ref_Value :: string
  ref_Domain :: string

record IdentifierInput =
  ii_Ref :: InstrumentRef
  ii_Canonical :: bool
  ii_ValidFrom :: "time option"
  ii_ValidBefore :: "time option"

text \<open>A row of \<open>instrument_identifiers\<close>: who carries the name.\<close>

record Identifier =
  ix_InstrumentID :: string
  ix_Name :: IdentifierInput

record Instrument =
  in_ID :: string
  in_AssetClass :: "string option"
  in_ExchangeMIC :: "string option"
  in_Currency :: "string option"
  in_UnderlyingID :: "string option"
  in_ValidFrom :: "time option"
  in_ValidBefore :: "time option"
  in_CIK :: "string option"
  in_SICCode :: "string option"
  in_Strike :: "decimal option"
  in_Expiry :: "time option"
  in_PutCall :: "string option"
  in_ContractMultiplier :: decimal
  in_CreatedAt :: time

record StockSplit =
  sp_InstrumentID :: string
  sp_ExDate :: time
  sp_SplitFrom :: string
  sp_SplitTo :: string
  sp_DataProvider :: string
  sp_FirstKnownAt :: time

text \<open>The JSON an unhandled event carries: the split's ratio, and the options or the underlying it concerns.\<close>

datatype event_data = UnderlyingData string string "string list" | OptionData string string string

record UnhandledCorporateEvent =
  ue_InstrumentID :: string
  ue_EventType :: string
  ue_ExDate :: "time option"
  ue_Detail :: string
  ue_Data :: event_data
  ue_Resolved :: bool

record Master =
  sm_instruments :: "Instrument list"
  sm_idents :: "Identifier list"
  sm_exchanges :: "(string \<times> string) list"
  sm_splits :: "StockSplit list"
  sm_events :: "UnhandledCorporateEvent list"
  sm_declared :: "string list"
  sm_ledger :: Ledger
  sm_now :: time

abbreviation instrument_ids :: "Master \<Rightarrow> string set" where
  "instrument_ids m \<equiv> in_ID ` set (sm_instruments m)"

definition ValidAssetClasses :: "string list" where
  "ValidAssetClasses = [''STOCK'', ''ETF'', ''FIXED_INCOME'', ''MUTUAL_FUND'', ''OPTION'', ''FUTURE'', ''CASH'', ''FX'', ''UNKNOWN'']"

definition AssetClassOption :: string where "AssetClassOption = ''OPTION''"
definition AssetClassFuture :: string where "AssetClassFuture = ''FUTURE''"

subsection \<open>Intervals and names\<close>

text \<open>Whether a start precedes an end, where an absent bound is unbounded.\<close>

definition starts_before :: "time option \<Rightarrow> time option \<Rightarrow> bool" where
  "starts_before f b \<longleftrightarrow> (case (f, b) of (Some x, Some y) \<Rightarrow> x < y | _ \<Rightarrow> True)"

text \<open>\<open>chk_instrument_identifiers_interval\<close>, and \<open>daterange(..) && daterange(..)\<close>.\<close>

definition interval_ok :: "IdentifierInput \<Rightarrow> bool" where
  "interval_ok n \<longleftrightarrow> starts_before (ii_ValidFrom n) (ii_ValidBefore n)"

definition overlapping :: "IdentifierInput \<Rightarrow> IdentifierInput \<Rightarrow> bool" where
  "overlapping a b \<longleftrightarrow> interval_ok a \<and> interval_ok b
     \<and> starts_before (ii_ValidFrom a) (ii_ValidBefore b) \<and> starts_before (ii_ValidFrom b) (ii_ValidBefore a)"

text \<open>\<open>excl_instrument_identifiers_overlap\<close>: one name denotes one instrument at a time.\<close>

definition clash :: "IdentifierInput \<Rightarrow> IdentifierInput \<Rightarrow> bool" where
  "clash a b \<longleftrightarrow> ii_Ref a = ii_Ref b \<and> overlapping a b"

datatype pq_error = Conflict | Refused

definition insertIdentifierRow :: "string \<Rightarrow> IdentifierInput \<Rightarrow> Master \<Rightarrow> pq_error + Master" where
  "insertIdentifierRow inst idn m =
     (if \<not> interval_ok idn then Inl Refused
      else if list_ex (\<lambda>x. clash (ix_Name x) idn) (sm_idents m) then Inl Conflict
      else if inst \<notin> instrument_ids m then Inl Refused
      else Inr (m\<lparr>sm_idents := sm_idents m @ [\<lparr>ix_InstrumentID = inst, ix_Name = idn\<rparr>]\<rparr>))"

text \<open>What the schema asks of a row of \<open>instruments\<close>: its checks and its foreign keys.\<close>

definition row_allowed :: "Master \<Rightarrow> Instrument \<Rightarrow> bool" where
  "row_allowed m i \<longleftrightarrow>
     (case in_AssetClass i of None \<Rightarrow> True | Some c \<Rightarrow> c \<in> set ValidAssetClasses)
     \<and> (in_AssetClass i \<in> {Some AssetClassOption, Some AssetClassFuture} \<longrightarrow> in_UnderlyingID i \<noteq> None)
     \<and> (in_AssetClass i = Some AssetClassOption \<longrightarrow> in_Strike i \<noteq> None \<and> in_Expiry i \<noteq> None \<and> in_PutCall i \<noteq> None)
     \<and> in_PutCall i \<in> {None, Some ''C'', Some ''P''}
     \<and> (case in_ExchangeMIC i of None \<Rightarrow> True | Some c \<Rightarrow> c \<in> fst ` set (sm_exchanges m))
     \<and> (case in_UnderlyingID i of None \<Rightarrow> True | Some u \<Rightarrow> u \<in> instrument_ids m)"

text \<open>\<open>UPDATE instruments SET .. WHERE id = $1 AND guard\<close>.\<close>

definition update_instrument :: "string \<Rightarrow> (Instrument \<Rightarrow> bool) \<Rightarrow> (Instrument \<Rightarrow> Instrument) \<Rightarrow> Master \<Rightarrow> string + Master" where
  "update_instrument inst guard f m =
     (let hit = (\<lambda>i. in_ID i = inst \<and> guard i) in
      if list_all (\<lambda>i. hit i \<longrightarrow> row_allowed m (f i)) (sm_instruments m)
      then Inr (m\<lparr>sm_instruments := map (\<lambda>i. if hit i then f i else i) (sm_instruments m)\<rparr>)
      else Inl ''violates check constraint'')"

subsection \<open>Lookups\<close>

text \<open>\<open>ORDER BY valid_before IS NULL DESC, valid_before DESC\<close>.\<close>

definition in_force_first :: "Identifier \<Rightarrow> Identifier \<Rightarrow> bool" where
  "in_force_first x y \<longleftrightarrow> (case (ii_ValidBefore (ix_Name x), ii_ValidBefore (ix_Name y)) of
       (None, Some _) \<Rightarrow> True | (Some p, Some q) \<Rightarrow> p > q | _ \<Rightarrow> False)"

definition first_holder :: "Identifier list \<Rightarrow> string" where
  "first_holder xs = (case go_sort in_force_first xs of [] \<Rightarrow> '''' | x # _ \<Rightarrow> ix_InstrumentID x)"

definition named :: "InstrumentRef \<Rightarrow> Identifier \<Rightarrow> bool" where
  "named r x \<longleftrightarrow> ii_Ref (ix_Name x) = r"

definition FindInstrumentByIdentifier :: "InstrumentRef \<Rightarrow> Master \<Rightarrow> string" where
  "FindInstrumentByIdentifier r m = first_holder (filter (named r) (sm_idents m))"

definition or_empty :: "string option \<Rightarrow> string" where
  "or_empty x = (case x of None \<Rightarrow> '''' | Some s \<Rightarrow> s)"

definition FindInstrumentWithMetaByIdentifier :: "InstrumentRef \<Rightarrow> Master \<Rightarrow> string \<times> string \<times> string \<times> string" where
  "FindInstrumentWithMetaByIdentifier r m =
     (let inst = first_holder (filter (\<lambda>x. named r x \<and> ix_InstrumentID x \<in> instrument_ids m) (sm_idents m)) in
      case List.find (\<lambda>i. in_ID i = inst) (sm_instruments m) of
        None \<Rightarrow> ('''', '''', '''', '''')
      | Some i \<Rightarrow> (inst, or_empty (in_AssetClass i), or_empty (in_ExchangeMIC i), or_empty (in_Currency i)))"

text \<open>The sole holder of the rows a query returns, or none when there is none or more than one.\<close>

definition sole_holder :: "Identifier list \<Rightarrow> string" where
  "sole_holder xs = (case first_by ix_InstrumentID {} xs of [x] \<Rightarrow> ix_InstrumentID x | _ \<Rightarrow> '''')"

definition without_separators :: "string \<Rightarrow> string" where
  "without_separators s = filter (\<lambda>c. c \<notin> {CHR ''.'', CHR ''/'', CHR ''-'', CHR '' ''}) s"

definition FindInstrumentByTickerIgnoringSeparators :: "string \<Rightarrow> Master \<Rightarrow> string" where
  "FindInstrumentByTickerIgnoringSeparators v m = sole_holder
     (filter (\<lambda>x. ref_Type (ii_Ref (ix_Name x)) = ''MIC_TICKER''
        \<and> without_separators (ref_Value (ii_Ref (ix_Name x))) = without_separators v) (sm_idents m))"

definition FindInstrumentByTypeAndValue :: "string \<Rightarrow> string \<Rightarrow> Master \<Rightarrow> string" where
  "FindInstrumentByTypeAndValue ty v m = sole_holder
     (filter (\<lambda>x. ref_Type (ii_Ref (ix_Name x)) = ty \<and> ref_Value (ii_Ref (ix_Name x)) = v) (sm_idents m))"

definition description_ref :: "string \<Rightarrow> string \<Rightarrow> InstrumentRef" where
  "description_ref source desc = \<lparr>ref_Type = ''BROKER_DESCRIPTION'', ref_Value = desc, ref_Domain = source\<rparr>"

definition FindInstrumentBySourceDescription :: "string \<Rightarrow> string \<Rightarrow> Master \<Rightarrow> string" where
  "FindInstrumentBySourceDescription source desc m = FindInstrumentByIdentifier (description_ref source desc) m"

definition holdsNoCanonicalIdentifier :: "string \<Rightarrow> Master \<Rightarrow> bool" where
  "holdsNoCanonicalIdentifier inst m \<longleftrightarrow> \<not> list_ex (\<lambda>x. ix_InstrumentID x = inst \<and> ii_Canonical (ix_Name x)) (sm_idents m)"

definition FindDescriptionOnlyInstrument :: "string \<Rightarrow> string \<Rightarrow> Master \<Rightarrow> string" where
  "FindDescriptionOnlyInstrument source desc m = first_holder
     (filter (\<lambda>x. named (description_ref source desc) x \<and> holdsNoCanonicalIdentifier (ix_InstrumentID x) m) (sm_idents m))"

definition LookupOperatingMIC :: "string \<Rightarrow> Master \<Rightarrow> string + string" where
  "LookupOperatingMIC mic m = of_option (''lookup operating mic: unknown MIC '' @ quoted mic) (map_of (sm_exchanges m) mic)"

definition normalizeToOperatingMIC :: "string \<Rightarrow> Master \<Rightarrow> string" where
  "normalizeToOperatingMIC mic m =
     (if mic = '''' then mic else case LookupOperatingMIC mic m of Inl _ \<Rightarrow> mic | Inr op \<Rightarrow> op)"

definition normalize_name :: "Master \<Rightarrow> IdentifierInput \<Rightarrow> IdentifierInput" where
  "normalize_name m n =
     (if ref_Type (ii_Ref n) = ''MIC_TICKER'' \<and> ref_Domain (ii_Ref n) \<noteq> ''''
      then n\<lparr>ii_Ref := (ii_Ref n)\<lparr>ref_Domain := normalizeToOperatingMIC (ref_Domain (ii_Ref n)) m\<rparr>\<rparr> else n)"

subsection \<open>Merging\<close>

definition instrument_commodity :: "string \<Rightarrow> string" where
  "instrument_commodity inst = InstrumentPrefix @ inst"

definition move_posting :: "string \<Rightarrow> string \<Rightarrow> Posting \<Rightarrow> Posting" where
  "move_posting survivor mergedAway t =
     (if t_InstrumentID t = Some mergedAway
      then t\<lparr>t_InstrumentID := Some survivor,
             t_Commodity := (if t_Commodity t = instrument_commodity mergedAway then instrument_commodity survivor else t_Commodity t)\<rparr>
      else t)"

definition move_match :: "string \<Rightarrow> string \<Rightarrow> TransferMatch \<Rightarrow> TransferMatch" where
  "move_match survivor mergedAway x = (if tm_InstrumentID x = mergedAway then x\<lparr>tm_InstrumentID := survivor\<rparr> else x)"

text \<open>\<open>idx_transfer_matches_from\<close> and \<open>idx_transfer_matches_to\<close>.\<close>

definition matches_unique :: "TransferMatch list \<Rightarrow> bool" where
  "matches_unique xs \<longleftrightarrow> distinct (map (\<lambda>x. (tm_FromGroupID x, tm_InstrumentID x)) xs)
     \<and> distinct (map (\<lambda>x. (tm_ToGroupID x, tm_InstrumentID x)) xs)"

text \<open>
  The loop that writes the names of the instrument merged away under the survivor. On a conflict the
  code goes on to the next row, but the store has aborted the transaction, and every statement that
  follows in it fails.
\<close>

fun reinsert :: "string \<Rightarrow> IdentifierInput list \<Rightarrow> Master \<Rightarrow> string + Master" where
  "reinsert survivor [] m = Inr m"
| "reinsert survivor (idn # rest) m = (case insertIdentifierRow survivor idn m of
       Inl Conflict \<Rightarrow> Inl ''current transaction is aborted''
     | Inl Refused \<Rightarrow> Inl ''insert identifier''
     | Inr m' \<Rightarrow> reinsert survivor rest m')"

text \<open>
  \<open>DELETE FROM instruments\<close>: refused while a holding declaration, a posting, a match or another
  instrument refers to the row, and cascading to its splits and events.
\<close>

definition delete_instrument :: "string \<Rightarrow> Master \<Rightarrow> string + Master" where
  "delete_instrument inst m =
     (if inst \<in> set (sm_declared m) \<or> Some inst \<in> t_InstrumentID ` set (l_txs (sm_ledger m))
         \<or> inst \<in> tm_InstrumentID ` set (l_matches (sm_ledger m))
         \<or> list_ex (\<lambda>i. in_UnderlyingID i = Some inst \<and> in_ID i \<noteq> inst) (sm_instruments m)
      then Inl ''violates foreign key constraint''
      else Inr (m\<lparr>sm_instruments := filter (\<lambda>i. in_ID i \<noteq> inst) (sm_instruments m),
                  sm_idents := filter (\<lambda>x. ix_InstrumentID x \<noteq> inst) (sm_idents m),
                  sm_splits := filter (\<lambda>s. sp_InstrumentID s \<noteq> inst) (sm_splits m),
                  sm_events := filter (\<lambda>e. ue_InstrumentID e \<noteq> inst) (sm_events m)\<rparr>))"

definition move_txs :: "string \<Rightarrow> string \<Rightarrow> Ledger \<Rightarrow> Ledger" where
  "move_txs survivor mergedAway l =
     l\<lparr>l_txs := map (move_posting survivor mergedAway) (l_txs l), l_matches := map (move_match survivor mergedAway) (l_matches l)\<rparr>"

definition names_of :: "string \<Rightarrow> Master \<Rightarrow> IdentifierInput list" where
  "names_of inst m = map ix_Name (filter (\<lambda>x. ix_InstrumentID x = inst) (sm_idents m))"

definition repoint_underlying :: "string \<Rightarrow> string \<Rightarrow> Instrument \<Rightarrow> Instrument" where
  "repoint_underlying survivor mergedAway i =
     (if in_UnderlyingID i = Some mergedAway then i\<lparr>in_UnderlyingID := Some survivor\<rparr> else i)"

definition mergeInstruments :: "string \<Rightarrow> string \<Rightarrow> Master \<Rightarrow> string + Master" where
  "mergeInstruments survivor mergedAway m =
     (if survivor = mergedAway then Inr m
      else let l = move_txs survivor mergedAway (sm_ledger m) in
        if \<not> matches_unique (l_matches l) then Inl ''update transfer matches''
        else
          let toInsert = names_of mergedAway m;
              without = m\<lparr>sm_ledger := l, sm_idents := filter (\<lambda>x. ix_InstrumentID x \<noteq> mergedAway) (sm_idents m)\<rparr> in
          sum_then (reinsert survivor toInsert without) (\<lambda>m1.
            delete_instrument mergedAway
              (m1\<lparr>sm_instruments := map (repoint_underlying survivor mergedAway) (sm_instruments m1)\<rparr>)))"

record survivor_candidate =
  sc_id :: string
  sc_createdAt :: time
  sc_n :: nat

definition candidate_of :: "Master \<Rightarrow> Instrument \<Rightarrow> survivor_candidate" where
  "candidate_of m i = \<lparr>sc_id = in_ID i, sc_createdAt = in_CreatedAt i, sc_n = length (names_of (in_ID i) m)\<rparr>"

definition better_survivor :: "survivor_candidate \<Rightarrow> survivor_candidate \<Rightarrow> bool" where
  "better_survivor a b \<longleftrightarrow>
     (if sc_n a \<noteq> sc_n b then sc_n a > sc_n b
      else if sc_createdAt a \<noteq> sc_createdAt b then sc_createdAt a < sc_createdAt b
      else sc_id a < sc_id b)"

definition pickSurvivor :: "string list \<Rightarrow> Master \<Rightarrow> string + string" where
  "pickSurvivor ids m = (case ids of
       [] \<Rightarrow> Inl ''pickSurvivor requires at least one id''
     | [x] \<Rightarrow> Inr x
     | _ \<Rightarrow> (case go_sort better_survivor (map (candidate_of m) (filter (\<lambda>i. in_ID i \<in> set ids) (sm_instruments m))) of
               [] \<Rightarrow> Inl ''no instruments found for ids''
             | c # _ \<Rightarrow> Inr (sc_id c)))"

subsection \<open>Ensuring an instrument\<close>

record OptionFields =
  of_Strike :: decimal
  of_Expiry :: time
  of_PutCall :: string

record InstrumentMerge =
  im_AssetClass :: string
  im_ExchangeMIC :: string
  im_Currency :: string
  im_CIK :: string
  im_SICCode :: string
  im_ValidFrom :: "time option"
  im_ValidBefore :: "time option"
  im_Identifiers :: "IdentifierInput list"

definition COALESCE :: "'a option \<Rightarrow> 'a option \<Rightarrow> 'a option" where
  "COALESCE a b = (case a of None \<Rightarrow> b | Some x \<Rightarrow> Some x)"

definition matched_fields :: "string option \<Rightarrow> OptionFields option \<Rightarrow> Instrument \<Rightarrow> Instrument" where
  "matched_fields underlying opt i =
     (let j = i\<lparr>in_UnderlyingID := COALESCE underlying (in_UnderlyingID i)\<rparr> in
      case opt of None \<Rightarrow> j
      | Some f \<Rightarrow> j\<lparr>in_Strike := Some (of_Strike f), in_Expiry := Some (of_Expiry f), in_PutCall := Some (of_PutCall f)\<rparr>)"

definition updateInstrumentOnMatch :: "string \<Rightarrow> string option \<Rightarrow> OptionFields option \<Rightarrow> Master \<Rightarrow> string + Master" where
  "updateInstrumentOnMatch inst underlying opt m = update_instrument inst (\<lambda>_. True) (matched_fields underlying opt) m"

text \<open>\<open>INSERT INTO instrument_identifiers .. ON CONFLICT DO NOTHING\<close>, for each name.\<close>

fun add_missing :: "string \<Rightarrow> IdentifierInput list \<Rightarrow> Master \<Rightarrow> string + Master" where
  "add_missing inst [] m = Inr m"
| "add_missing inst (idn # rest) m = (case insertIdentifierRow inst idn m of
       Inl Conflict \<Rightarrow> add_missing inst rest m
     | Inl Refused \<Rightarrow> Inl ''merge identifier''
     | Inr m' \<Rightarrow> add_missing inst rest m')"

definition has_blank :: "Instrument \<Rightarrow> bool" where
  "has_blank i \<longleftrightarrow> in_AssetClass i = None \<or> in_ExchangeMIC i = None \<or> in_Currency i = None \<or> in_CIK i = None
     \<or> in_SICCode i = None \<or> in_ValidFrom i = None \<or> in_ValidBefore i = None"

definition fill_blanks :: "InstrumentMerge \<Rightarrow> Instrument \<Rightarrow> Instrument" where
  "fill_blanks d i = i\<lparr>in_AssetClass := COALESCE (in_AssetClass i) (nullStr (im_AssetClass d)),
     in_ExchangeMIC := COALESCE (in_ExchangeMIC i) (nullStr (im_ExchangeMIC d)),
     in_Currency := COALESCE (in_Currency i) (nullStr (im_Currency d)),
     in_CIK := COALESCE (in_CIK i) (nullStr (im_CIK d)), in_SICCode := COALESCE (in_SICCode i) (nullStr (im_SICCode d)),
     in_ValidFrom := COALESCE (in_ValidFrom i) (im_ValidFrom d), in_ValidBefore := COALESCE (in_ValidBefore i) (im_ValidBefore d)\<rparr>"

definition mergeIntoInstrument :: "string \<Rightarrow> InstrumentMerge \<Rightarrow> Master \<Rightarrow> string + Master" where
  "mergeIntoInstrument inst d m =
     sum_then (add_missing inst (im_Identifiers d) m) (update_instrument inst has_blank (fill_blanks d))"

definition MergeInstrumentFromArchive :: "Env \<Rightarrow> string \<Rightarrow> InstrumentMerge \<Rightarrow> Master \<Rightarrow> string + Master" where
  "MergeInstrumentFromArchive env inst d m =
     sum_then (of_option ''merge instrument: invalid id'' (env_parse_uuid env inst)) (\<lambda>uid.
       mergeIntoInstrument uid (d\<lparr>im_ExchangeMIC := normalizeToOperatingMIC (im_ExchangeMIC d) m,
         im_Identifiers := map (normalize_name m) (im_Identifiers d)\<rparr>) m)"

definition InsertInstrumentIdentifier :: "Env \<Rightarrow> string \<Rightarrow> IdentifierInput \<Rightarrow> Master \<Rightarrow> string + Master" where
  "InsertInstrumentIdentifier env inst idn m =
     sum_then (of_option ''insert instrument identifier: invalid id'' (env_parse_uuid env inst)) (\<lambda>uid.
       case insertIdentifierRow uid (normalize_name m idn) m of Inl _ \<Rightarrow> Inl ''insert instrument identifier'' | Inr m' \<Rightarrow> Inr m')"

definition UpdateInstrumentStrike :: "Env \<Rightarrow> string \<Rightarrow> decimal \<Rightarrow> Master \<Rightarrow> string + Master" where
  "UpdateInstrumentStrike env inst strike m =
     sum_then (of_option ''update instrument strike: invalid id'' (env_parse_uuid env inst)) (\<lambda>uid.
       update_instrument uid (\<lambda>_. True) (\<lambda>i. i\<lparr>in_Strike := Some strike\<rparr>) m)"

definition SetContractMultiplier :: "Env \<Rightarrow> string \<Rightarrow> decimal \<Rightarrow> Master \<Rightarrow> string + Master" where
  "SetContractMultiplier env inst x m =
     sum_then (of_option ''invalid instrument id'' (env_parse_uuid env inst)) (\<lambda>uid.
       update_instrument uid (\<lambda>_. True) (\<lambda>i. i\<lparr>in_ContractMultiplier := x\<rparr>) m)"

fun merge_all :: "string \<Rightarrow> string list \<Rightarrow> Master \<Rightarrow> string + Master" where
  "merge_all survivor [] m = Inr m"
| "merge_all survivor (x # xs) m =
     (if x = survivor then merge_all survivor xs m
      else sum_then (mergeInstruments survivor x m) (merge_all survivor xs))"

text \<open>The instruments the names are known under, each once, in the order they are found.\<close>

definition distinct_holders :: "IdentifierInput list \<Rightarrow> Master \<Rightarrow> string list" where
  "distinct_holders idns m =
     first_by id {} (filter (\<lambda>x. x \<noteq> '''') (map (\<lambda>n. FindInstrumentByIdentifier (ii_Ref n) m) idns))"

definition new_instrument ::
    "string \<Rightarrow> string \<Rightarrow> string \<Rightarrow> string \<Rightarrow> string \<Rightarrow> string \<Rightarrow> string option \<Rightarrow> time option \<Rightarrow> time option \<Rightarrow> OptionFields option
     \<Rightarrow> time \<Rightarrow> Instrument" where
  "new_instrument newID assetClass mic currency cik sic underlying validFrom validBefore opt now =
     \<lparr>in_ID = newID, in_AssetClass = nullStr assetClass, in_ExchangeMIC = nullStr mic, in_Currency = nullStr currency,
      in_UnderlyingID = underlying, in_ValidFrom = validFrom, in_ValidBefore = validBefore, in_CIK = nullStr cik,
      in_SICCode = nullStr sic, in_Strike = map_option of_Strike opt, in_Expiry = map_option of_Expiry opt,
      in_PutCall = map_option of_PutCall opt, in_ContractMultiplier = 1, in_CreatedAt = now\<rparr>"

definition errIdentifierExists :: string where
  "errIdentifierExists = ''identifier already exists for another instrument''"

fun insert_names :: "string \<Rightarrow> IdentifierInput list \<Rightarrow> Master \<Rightarrow> string + Master" where
  "insert_names inst [] m = Inr m"
| "insert_names inst (idn # rest) m = (case insertIdentifierRow inst idn m of
       Inl Conflict \<Rightarrow> Inl errIdentifierExists
     | Inl Refused \<Rightarrow> Inl ''insert identifier''
     | Inr m' \<Rightarrow> insert_names inst rest m')"

text \<open>The transaction that creates an instrument: \<open>gen_random_uuid()\<close> gives the next id.\<close>

definition create_instrument ::
    "Env \<Rightarrow> (string \<Rightarrow> Instrument) \<Rightarrow> IdentifierInput list \<Rightarrow> Master \<Rightarrow> string + Master \<times> string" where
  "create_instrument env row idns m =
     (let l = sm_ledger m; newID = env_new_uuid env (l_uuids l);
          m1 = m\<lparr>sm_instruments := sm_instruments m @ [row newID], sm_ledger := l\<lparr>l_uuids := l_uuids l + 1\<rparr>\<rparr> in
      if \<not> row_allowed m1 (row newID) then Inl ''violates check constraint''
      else sum_then (insert_names newID idns m1) (\<lambda>m2. Inr (m2, newID)))"

definition complete_instrument ::
    "string \<Rightarrow> string option \<Rightarrow> OptionFields option \<Rightarrow> InstrumentMerge \<Rightarrow> Master \<Rightarrow> string + Master \<times> string" where
  "complete_instrument inst underlying opt d m =
     (if holdsNoCanonicalIdentifier inst m
      then sum_then (mergeIntoInstrument inst d m) (\<lambda>m1.
           sum_then (updateInstrumentOnMatch inst underlying opt m1) (\<lambda>m2. Inr (m2, inst)))
      else sum_then (updateInstrumentOnMatch inst underlying opt m) (\<lambda>m2. Inr (m2, inst)))"

definition merge_found :: "string list \<Rightarrow> string option \<Rightarrow> OptionFields option \<Rightarrow> Master \<Rightarrow> string + Master \<times> string" where
  "merge_found ids underlying opt m =
     sum_then (pickSurvivor ids m) (\<lambda>survivor.
     sum_then (merge_all survivor ids m) (\<lambda>m1.
     sum_then (updateInstrumentOnMatch survivor underlying opt m1) (\<lambda>m2. Inr (m2, survivor))))"

definition EnsureInstrument ::
    "Env \<Rightarrow> string \<Rightarrow> string \<Rightarrow> string \<Rightarrow> string \<Rightarrow> string \<Rightarrow> IdentifierInput list \<Rightarrow> string \<Rightarrow> time option \<Rightarrow> time option
     \<Rightarrow> OptionFields option \<Rightarrow> Master \<Rightarrow> string + Master \<times> string" where
  "EnsureInstrument env assetClass exchangeMIC currency cik sic identifiers underlyingID validFrom validBefore opt m =
     (if identifiers = [] then Inl ''at least one identifier required''
      else if assetClass \<noteq> '''' \<and> assetClass \<notin> set ValidAssetClasses then Inl (''invalid asset_class '' @ quoted assetClass)
      else if assetClass \<in> {AssetClassOption, AssetClassFuture} \<and> underlyingID = ''''
      then Inl (''underlying_id required when asset_class is '' @ assetClass)
      else
        let mic = normalizeToOperatingMIC exchangeMIC m; idns = map (normalize_name m) identifiers in
        sum_then (with_error ''invalid underlying_id: '' (parseNullUUID env underlyingID)) (\<lambda>underlying.
        case distinct_holders idns m of
          [] \<Rightarrow>
            (case create_instrument env (\<lambda>newID. new_instrument newID assetClass mic currency cik sic underlying validFrom validBefore opt (sm_now m)) idns m of
               Inl e \<Rightarrow>
                 (if e = errIdentifierExists
                  then (case filter (\<lambda>x. x \<noteq> '''') (map (\<lambda>n. FindInstrumentByIdentifier (ii_Ref n) m) idns) of
                          [] \<Rightarrow> Inl e | existing # _ \<Rightarrow> Inr (m, existing))
                  else Inl e)
             | Inr r \<Rightarrow> Inr r)
        | [x] \<Rightarrow> complete_instrument x underlying opt
            \<lparr>im_AssetClass = assetClass, im_ExchangeMIC = mic, im_Currency = currency, im_CIK = cik, im_SICCode = sic,
             im_ValidFrom = validFrom, im_ValidBefore = validBefore, im_Identifiers = idns\<rparr> m
        | ids \<Rightarrow> merge_found ids underlying opt m))"

end
