(* ===== verification/Security_Master_Correct.thy ===== *)
theory Security_Master_Correct
  imports Security_Master Ingest
begin

text \<open>
  What the security master keeps: one name denotes one instrument at a time, and every reference to
  an instrument is to a stored one. A merge moves every name, posting and match to the survivor and
  loses none; ensuring an instrument leaves the names it was given with the instrument it returns.
\<close>

subsection \<open>The invariant\<close>

definition names_ok :: "Identifier list \<Rightarrow> bool" where
  "names_ok xs \<longleftrightarrow> list_all (\<lambda>x. interval_ok (ix_Name x)) xs \<and> sorted_wrt (\<lambda>x y. \<not> clash (ix_Name x) (ix_Name y)) xs"

definition refs_ok :: "Master \<Rightarrow> bool" where
  "refs_ok m \<longleftrightarrow> ix_InstrumentID ` set (sm_idents m) \<subseteq> instrument_ids m \<and> set (sm_declared m) \<subseteq> instrument_ids m
     \<and> sp_InstrumentID ` set (sm_splits m) \<subseteq> instrument_ids m \<and> ue_InstrumentID ` set (sm_events m) \<subseteq> instrument_ids m
     \<and> (\<forall>t \<in> set (l_txs (sm_ledger m)). \<forall>i. t_InstrumentID t = Some i \<longrightarrow> i \<in> instrument_ids m)
     \<and> tm_InstrumentID ` set (l_matches (sm_ledger m)) \<subseteq> instrument_ids m"

definition master_ok :: "Env \<Rightarrow> Master \<Rightarrow> bool" where
  "master_ok env m \<longleftrightarrow> distinct (map in_ID (sm_instruments m)) \<and> instrument_ids m \<subseteq> issued env (sm_ledger m)
     \<and> list_all (row_allowed m) (sm_instruments m) \<and> names_ok (sm_idents m) \<and> refs_ok m
     \<and> matches_unique (l_matches (sm_ledger m))"

lemma clash_sym: "clash a b \<longleftrightarrow> clash b a"
  by (auto simp: clash_def overlapping_def)

lemma clash_refl: "interval_ok a \<Longrightarrow> clash a a"
  by (simp add: clash_def overlapping_def) (simp add: interval_ok_def)

lemma names_ok_append:
  "names_ok (xs @ ys) \<longleftrightarrow> names_ok xs \<and> names_ok ys \<and> (\<forall>x \<in> set xs. \<forall>y \<in> set ys. \<not> clash (ix_Name x) (ix_Name y))"
  by (auto simp: names_ok_def sorted_wrt_append)

lemma names_ok_Cons:
  "names_ok (x # xs) \<longleftrightarrow> interval_ok (ix_Name x) \<and> names_ok xs \<and> (\<forall>y \<in> set xs. \<not> clash (ix_Name x) (ix_Name y))"
  by (auto simp: names_ok_def)

lemma names_ok_Nil [simp]: "names_ok []"
  by (simp add: names_ok_def)

lemma names_ok_filter: "names_ok xs \<Longrightarrow> names_ok (filter P xs)"
  by (auto simp: names_ok_def list_all_iff sorted_wrt_filter)

text \<open>Only the names matter, and not their order.\<close>

lemma names_ok_perm:
  assumes "names_ok xs" "mset (map ix_Name xs) = mset (map ix_Name ys)"
  shows "names_ok ys"
  using assms
proof (induction ys arbitrary: xs)
  case (Cons y ys)
  then have "ix_Name y \<in># mset (map ix_Name xs)" by simp
  then obtain x as bs where x: "xs = as @ x # bs" "ix_Name x = ix_Name y"
    by (metis in_set_conv_decomp in_set_conv_nth set_mset_mset length_map nth_map nth_mem)
  have eq: "mset (map ix_Name (as @ bs)) = mset (map ix_Name ys)" using Cons.prems(2) by (simp add: x)
  have "names_ok (as @ bs)" using Cons.prems(1) by (simp add: x names_ok_append names_ok_Cons)
  then have "names_ok ys" using Cons.IH eq by blast
  moreover have "\<not> clash (ix_Name y) (ix_Name z)" if "z \<in> set ys" for z
  proof -
    have "ix_Name z \<in> set (map ix_Name (as @ bs))" using that mset_eq_setD [OF eq] by auto
    then show ?thesis using Cons.prems(1) clash_sym by (fastforce simp: x names_ok_append names_ok_Cons)
  qed
  moreover have "interval_ok (ix_Name y)" using Cons.prems(1) by (simp add: x names_ok_append names_ok_Cons flip: x(2))
  ultimately show ?case by (simp add: names_ok_Cons)
qed simp

subsection \<open>Inserting names\<close>

lemma insertIdentifierRow_Inr:
  "insertIdentifierRow inst idn m = Inr m' \<longleftrightarrow> interval_ok idn \<and> (\<forall>x \<in> set (sm_idents m). \<not> clash (ix_Name x) idn)
     \<and> inst \<in> instrument_ids m \<and> m' = m\<lparr>sm_idents := sm_idents m @ [\<lparr>ix_InstrumentID = inst, ix_Name = idn\<rparr>]\<rparr>"
  by (auto simp: insertIdentifierRow_def list_ex_iff)

lemma row_allowed_frame [simp]:
  "row_allowed (m\<lparr>sm_idents := a\<rparr>) = row_allowed m" "row_allowed (m\<lparr>sm_ledger := l\<rparr>) = row_allowed m"
  "row_allowed (m\<lparr>sm_splits := b\<rparr>) = row_allowed m" "row_allowed (m\<lparr>sm_events := c\<rparr>) = row_allowed m"
  by (simp_all add: row_allowed_def fun_eq_iff cong: option.case_cong)

lemma master_ok_names:
  assumes "master_ok env m" "names_ok xs" "ix_InstrumentID ` set xs \<subseteq> instrument_ids m"
  shows "master_ok env (m\<lparr>sm_idents := xs\<rparr>)"
  using assms by (simp add: master_ok_def refs_ok_def)

text \<open>
  The three loops that write names differ in what a conflict means; what every insertion keeps, each
  of them keeps.
\<close>

locale name_writer =
  fixes P :: "Master \<Rightarrow> bool"
  assumes insertion: "P m \<Longrightarrow> insertIdentifierRow inst idn m = Inr m' \<Longrightarrow> P m'"
begin

lemma reinsert_keeps: "P m \<Longrightarrow> reinsert inst idns m = Inr m' \<Longrightarrow> P m'"
  by (induction idns arbitrary: m) (auto split: sum.splits pq_error.splits intro: insertion)

lemma add_missing_keeps: "P m \<Longrightarrow> add_missing inst idns m = Inr m' \<Longrightarrow> P m'"
  by (induction idns arbitrary: m) (auto split: sum.splits pq_error.splits intro: insertion)

lemma insert_names_keeps: "P m \<Longrightarrow> insert_names inst idns m = Inr m' \<Longrightarrow> P m'"
  by (induction idns arbitrary: m) (auto split: sum.splits pq_error.splits intro: insertion)

end

lemma insertion_ok:
  assumes "master_ok env m" "insertIdentifierRow inst idn m = Inr m'"
  shows "master_ok env m'"
proof -
  from assms(2) have i: "interval_ok idn" "\<forall>x \<in> set (sm_idents m). \<not> clash (ix_Name x) idn" "inst \<in> instrument_ids m"
    and m': "m' = m\<lparr>sm_idents := sm_idents m @ [\<lparr>ix_InstrumentID = inst, ix_Name = idn\<rparr>]\<rparr>"
    by (simp_all add: insertIdentifierRow_Inr)
  show ?thesis unfolding m'
    by (rule master_ok_names) (use assms(1) i in \<open>auto simp: master_ok_def refs_ok_def names_ok_append names_ok_Cons\<close>)
qed

interpretation ok_writer: name_writer "master_ok env" for env
  by unfold_locales (rule insertion_ok)

text \<open>An insertion touches nothing but the table of names, and only appends to it.\<close>

definition only_names :: "Master \<Rightarrow> Master \<Rightarrow> bool" where
  "only_names m m' \<longleftrightarrow> (\<exists>xs. m' = m\<lparr>sm_idents := sm_idents m @ xs\<rparr>)"

lemma only_names_refl [simp]: "only_names m m"
  unfolding only_names_def by (rule exI [of _ "[]"]) simp

lemma only_names_insert:
  assumes "only_names m0 m" "insertIdentifierRow inst idn m = Inr m'"
  shows "only_names m0 m'"
proof -
  from assms(1) obtain xs where "m = m0\<lparr>sm_idents := sm_idents m0 @ xs\<rparr>" unfolding only_names_def ..
  then show ?thesis using assms(2) unfolding only_names_def insertIdentifierRow_Inr
    by (intro exI [of _ "xs @ [\<lparr>ix_InstrumentID = inst, ix_Name = idn\<rparr>]"]) simp
qed

interpretation only_names_writer: name_writer "only_names m" for m
  by unfold_locales (rule only_names_insert)

subsection \<open>Merging\<close>

definition carried :: "string \<Rightarrow> IdentifierInput list \<Rightarrow> Identifier list" where
  "carried inst ns = map (\<lambda>n. \<lparr>ix_InstrumentID = inst, ix_Name = n\<rparr>) ns"

lemma carried_simps [simp]:
  "carried inst [] = []" "carried inst (n # ns) = \<lparr>ix_InstrumentID = inst, ix_Name = n\<rparr> # carried inst ns"
  "map ix_Name (carried inst ns) = ns" "ix_InstrumentID ` set (carried inst ns) \<subseteq> {inst}"
  "filter (\<lambda>x. ix_InstrumentID x \<noteq> a) (carried inst ns) = (if inst = a then [] else carried inst ns)"
  by (auto simp: carried_def filter_map comp_def)

lemma reinsert_total:
  assumes "inst \<in> instrument_ids m" "names_ok (sm_idents m @ carried inst ns)"
  shows "reinsert inst ns m = Inr (m\<lparr>sm_idents := sm_idents m @ carried inst ns\<rparr>)"
  using assms
proof (induction ns arbitrary: m)
  case (Cons n ns)
  let ?m = "m\<lparr>sm_idents := sm_idents m @ [\<lparr>ix_InstrumentID = inst, ix_Name = n\<rparr>]\<rparr>"
  have "insertIdentifierRow inst n m = Inr ?m"
    using Cons.prems by (auto simp: insertIdentifierRow_Inr names_ok_append names_ok_Cons)
  moreover have "reinsert inst ns ?m = Inr (?m\<lparr>sm_idents := sm_idents ?m @ carried inst ns\<rparr>)"
    using Cons.prems by (intro Cons.IH) simp_all
  ultimately show ?case by simp
qed simp

text \<open>The store a merge leaves: every name, posting, match and derivative of one instrument with the other.\<close>

definition merged :: "string \<Rightarrow> string \<Rightarrow> Master \<Rightarrow> Master" where
  "merged survivor away m =
     m\<lparr>sm_instruments := filter (\<lambda>i. in_ID i \<noteq> away) (map (repoint_underlying survivor away) (sm_instruments m)),
       sm_idents := filter (\<lambda>x. ix_InstrumentID x \<noteq> away) (sm_idents m) @ carried survivor (names_of away m),
       sm_splits := filter (\<lambda>s. sp_InstrumentID s \<noteq> away) (sm_splits m),
       sm_events := filter (\<lambda>e. ue_InstrumentID e \<noteq> away) (sm_events m),
       sm_ledger := move_txs survivor away (sm_ledger m)\<rparr>"

lemma names_partition: "mset (map ix_Name (filter P xs)) + mset (map ix_Name (filter (\<lambda>x. \<not> P x) xs)) = mset (map ix_Name xs)"
  by (induction xs) auto

lemma merged_names: "mset (map ix_Name (sm_idents (merged s a m))) = mset (map ix_Name (sm_idents m))"
  using names_partition [of "\<lambda>x. ix_InstrumentID x \<noteq> a" "sm_idents m"] by (simp add: merged_def names_of_def)

lemma repoint_id [simp]: "in_ID (repoint_underlying s a i) = in_ID i"
  by (simp add: repoint_underlying_def)

lemma ids_merged_list:
  "map in_ID (sm_instruments (merged s a m)) = filter (\<lambda>i. i \<noteq> a) (map in_ID (sm_instruments m))"
  by (simp add: merged_def filter_map comp_def)

lemma ids_merged: "instrument_ids (merged s a m) = instrument_ids m - {a}"
proof -
  have "set (map in_ID (sm_instruments (merged s a m))) = set (filter (\<lambda>i. i \<noteq> a) (map in_ID (sm_instruments m)))"
    by (simp only: ids_merged_list)
  then show ?thesis by auto
qed

lemma mergeInstruments_Inr:
  assumes ok: "master_ok env m" and s: "s \<in> instrument_ids m" "s \<noteq> a"
  shows "mergeInstruments s a m = Inr m' \<longleftrightarrow> a \<notin> set (sm_declared m)
    \<and> matches_unique (map (move_match s a) (l_matches (sm_ledger m))) \<and> m' = merged s a m"
proof -
  let ?l = "move_txs s a (sm_ledger m)"
  let ?without = "m\<lparr>sm_ledger := ?l, sm_idents := filter (\<lambda>x. ix_InstrumentID x \<noteq> a) (sm_idents m)\<rparr>"
  have "names_ok (sm_idents (merged s a m))" using ok merged_names names_ok_perm by (metis master_ok_def)
  then have re: "reinsert s (names_of a m) ?without = Inr (?without\<lparr>sm_idents := sm_idents (merged s a m)\<rparr>)"
    using reinsert_total [of s ?without "names_of a m"] s by (simp add: merged_def)
  have "Some a \<notin> t_InstrumentID ` set (l_txs ?l)" "a \<notin> tm_InstrumentID ` set (l_matches ?l)"
    using s(2) by (auto simp: move_txs_def move_posting_def move_match_def)
  moreover have "\<not> list_ex (\<lambda>i. in_UnderlyingID i = Some a \<and> in_ID i \<noteq> a) (map (repoint_underlying s a) (sm_instruments m))"
    using s(2) by (auto simp: list_ex_iff repoint_underlying_def)
  ultimately show ?thesis
    using s(2) re by (auto simp: mergeInstruments_def Let_def sum_then_def delete_instrument_def merged_def move_txs_def)
qed

lemma merged_ok:
  assumes ok: "master_ok env m" and s: "s \<in> instrument_ids m" "s \<noteq> a"
    and decl: "a \<notin> set (sm_declared m)" and uniq: "matches_unique (map (move_match s a) (l_matches (sm_ledger m)))"
  shows "master_ok env (merged s a m)"
proof -
  have "names_ok (sm_idents (merged s a m))" using ok merged_names names_ok_perm by (metis master_ok_def)
  moreover have "distinct (map in_ID (sm_instruments (merged s a m)))"
    using ok unfolding ids_merged_list by (simp add: master_ok_def)
  moreover have "row_allowed (merged s a m) (repoint_underlying s a i)" if "row_allowed m i" for i
  proof -
    have "sm_exchanges (merged s a m) = sm_exchanges m" by (simp add: merged_def)
    then show ?thesis using that s unfolding row_allowed_def ids_merged
      by (auto simp: repoint_underlying_def split: option.splits)
  qed
  then have "list_all (row_allowed (merged s a m)) (sm_instruments (merged s a m))"
    using ok by (auto simp: merged_def list_all_iff master_ok_def)
  moreover have "refs_ok (merged s a m)"
    using ok s decl unfolding refs_ok_def ids_merged master_ok_def
    by (auto simp: merged_def carried_def move_txs_def move_posting_def move_match_def)
  moreover have "matches_unique (l_matches (sm_ledger (merged s a m)))" using uniq by (simp add: merged_def move_txs_def)
  moreover have "instrument_ids (merged s a m) \<subseteq> issued env (sm_ledger (merged s a m))"
    using ok unfolding ids_merged by (auto simp: master_ok_def merged_def move_txs_def)
  ultimately show ?thesis by (simp add: master_ok_def)
qed

text \<open>A posting that weighs in an instrument is of that instrument, as ingestion writes it.\<close>

definition commodities_named :: "Ledger \<Rightarrow> bool" where
  "commodities_named l \<longleftrightarrow> (\<forall>t \<in> set (l_txs l). \<forall>i. t_Commodity t = instrument_commodity i \<longrightarrow> t_InstrumentID t = Some i)"

lemma instrument_commodity_inj [simp]: "instrument_commodity a = instrument_commodity b \<longleftrightarrow> a = b"
  by (simp add: instrument_commodity_def)

lemma move_posting_simps [simp]:
  "t_GroupID (move_posting s a t) = t_GroupID t" "t_Weight (move_posting s a t) = t_Weight t"
  by (simp_all add: move_posting_def)

lemma weight_sum_moved:
  assumes "\<And>t i. t \<in> set ts \<Longrightarrow> t_Commodity t = instrument_commodity i \<Longrightarrow> t_InstrumentID t = Some i" "s \<noteq> a"
  shows "weight_sum (map (move_posting s a) ts) g c =
    (if c = instrument_commodity s then weight_sum ts g (instrument_commodity s) + weight_sum ts g (instrument_commodity a)
     else if c = instrument_commodity a then 0 else weight_sum ts g c)"
  using assms(1)
proof (induction ts)
  case (Cons t ts)
  have t: "t_Commodity (move_posting s a t) = (if t_Commodity t = instrument_commodity a then instrument_commodity s else t_Commodity t)"
    using Cons.prems [of t a] by (simp add: move_posting_def)
  show ?case using Cons assms(2) by (simp add: t)
qed simp

lemma names_of_append:
  "names_of i (m\<lparr>sm_idents := xs @ carried s ns\<rparr>) = names_of i (m\<lparr>sm_idents := xs\<rparr>) @ (if i = s then ns else [])"
  by (simp add: names_of_def carried_def filter_map comp_def)

lemma names_of_dropped:
  "names_of i (m\<lparr>sm_idents := filter (\<lambda>x. ix_InstrumentID x \<noteq> a) (sm_idents m)\<rparr>) = (if i = a then [] else names_of i m)"
proof -
  have "filter (\<lambda>x. ix_InstrumentID x \<noteq> a \<and> ix_InstrumentID x = i) (sm_idents m)
      = filter (\<lambda>x. i \<noteq> a \<and> ix_InstrumentID x = i) (sm_idents m)"
    by (rule filter_cong) auto
  then show ?thesis by (simp add: names_of_def)
qed

lemma names_of_merged:
  assumes "s \<noteq> a"
  shows "names_of i (merged s a m) = (if i = s then names_of s m @ names_of a m else if i = a then [] else names_of i m)"
proof -
  have "names_of i (merged s a m)
      = names_of i (m\<lparr>sm_idents := filter (\<lambda>x. ix_InstrumentID x \<noteq> a) (sm_idents m) @ carried s (names_of a m)\<rparr>)"
    by (simp add: names_of_def merged_def)
  then show ?thesis using assms by (simp add: names_of_append names_of_dropped)
qed

lemma move_txs_balanced:
  assumes "balanced_off {} l" "commodities_named l" "s \<noteq> a"
  shows "balanced_off {} (move_txs s a l)" "commodities_named (move_txs s a l)"
proof -
  show "balanced_off {} (move_txs s a l)"
    using assms by (simp add: balanced_off_def commodities_named_def move_txs_def weight_sum_moved)
  show "commodities_named (move_txs s a l)"
    unfolding commodities_named_def
  proof (intro ballI allI impI)
    fix t i assume "t \<in> set (l_txs (move_txs s a l))" and c: "t_Commodity t = instrument_commodity i"
    then obtain u where u: "u \<in> set (l_txs l)" "t = move_posting s a u" by (auto simp: move_txs_def)
    show "t_InstrumentID t = Some i"
    proof (cases "t_InstrumentID u = Some a \<and> t_Commodity u = instrument_commodity a")
      case True
      then show ?thesis using c by (simp add: u(2) move_posting_def)
    next
      case False
      then have "t_Commodity u = instrument_commodity i" using c by (auto simp: u(2) move_posting_def split: if_splits)
      then have "t_InstrumentID u = Some i" using assms(2) u(1) by (simp add: commodities_named_def)
      moreover have "i \<noteq> a" using False \<open>t_Commodity u = instrument_commodity i\<close> calculation by blast
      ultimately show ?thesis by (simp add: u(2) move_posting_def)
    qed
  qed
qed


text \<open>
  A holding declaration of an instrument blocks every merge that would remove it: the merge
  repoints postings, matches and derivatives and not declarations, so the deletion is refused and
  the whole transaction with it.
\<close>

theorem declaration_blocks_merge:
  assumes "master_ok env m" "survivor \<in> instrument_ids m" "survivor \<noteq> away" "away \<in> set (sm_declared m)"
  shows "mergeInstruments survivor away m \<noteq> Inr m'"
  using mergeInstruments_Inr [OF assms(1-3)] assms(4) by simp

subsection \<open>Which instrument a name finds\<close>

definition force_key :: "Identifier \<Rightarrow> int \<times> int" where
  "force_key x = (case ii_ValidBefore (ix_Name x) of None \<Rightarrow> (0, 0) | Some p \<Rightarrow> (1, - p))"

lemma in_force_first_key [go_sort_key]: "in_force_first x y \<longleftrightarrow> force_key x < force_key y"
  by (auto simp: in_force_first_def force_key_def less_prod_def split: option.splits)

lemma go_sort_force: "go_sort in_force_first xs = sort_key force_key xs"
  by (rule go_sort_by_key) (simp add: in_force_first_key)

text \<open>Rows of one name end at different times, so the row a lookup takes does not depend on their order.\<close>

lemma same_end_clash:
  assumes "ii_Ref a = ii_Ref b" "ii_ValidBefore a = ii_ValidBefore b" "interval_ok a" "interval_ok b"
  shows "clash a b"
  using assms by (simp add: clash_def overlapping_def) (simp add: interval_ok_def)

lemma force_key_inj:
  assumes "names_ok xs" "\<forall>x \<in> set xs. named r x"
  shows "inj_on force_key (set xs)"
  using assms
proof (induction xs)
  case (Cons x xs)
  have "force_key x \<noteq> force_key y" if "y \<in> set xs" for y
  proof
    assume "force_key x = force_key y"
    then have "ii_ValidBefore (ix_Name x) = ii_ValidBefore (ix_Name y)" by (auto simp: force_key_def split: option.splits)
    moreover have "interval_ok (ix_Name y)" using that Cons.prems(1) by (auto simp: names_ok_def list_all_iff)
    ultimately have "clash (ix_Name x) (ix_Name y)"
      using Cons.prems that by (intro same_end_clash) (auto simp: named_def names_ok_Cons)
    then show False using Cons.prems(1) that by (simp add: names_ok_Cons)
  qed
  then show ?case using Cons by (auto simp: names_ok_Cons)
qed simp

definition relabel :: "string \<Rightarrow> string set \<Rightarrow> Identifier \<Rightarrow> Identifier" where
  "relabel s A x = (if ix_InstrumentID x \<in> A then x\<lparr>ix_InstrumentID := s\<rparr> else x)"

lemma relabel_simps [simp]:
  "ix_Name (relabel s A x) = ix_Name x" "force_key (relabel s A x) = force_key x" "named r (relabel s A x) = named r x"
  "relabel s {} = (\<lambda>x. x)" "ix_InstrumentID (relabel s A x) = (if ix_InstrumentID x \<in> A then s else ix_InstrumentID x)"
  by (simp_all add: relabel_def force_key_def named_def fun_eq_iff)

lemma relabel_relabel: "relabel s B (relabel s {a} x) = relabel s (insert a B) x"
  by (simp add: relabel_def)

lemma sort_key_map_inv:
  assumes "\<And>x. key (f x) = key x"
  shows "sort_key key (map f xs) = map f (sort_key key xs)"
proof -
  have "insort_key key (f x) (map f ys) = map f (insort_key key x ys)" for x ys by (induction ys) (simp_all add: assms)
  then show ?thesis by (induction xs) simp_all
qed

lemma first_holder_relabel:
  assumes ok: "names_ok xs" "\<forall>x \<in> set xs. named r x" and ys: "mset ys = image_mset (relabel s A) (mset xs)"
    and "'''' \<notin> A"
  shows "first_holder ys = (if first_holder xs \<in> A then s else first_holder xs)"
proof -
  have "inj_on force_key (set ys)"
  proof (rule force_key_inj)
    have "image_mset ix_Name (mset ys) = image_mset ix_Name (mset xs)" by (simp add: ys image_mset.compositionality comp_def)
    then show "names_ok ys" using names_ok_perm [OF ok(1)] by simp
    have "set ys = relabel s A ` set xs" using ys by (metis set_image_mset set_mset_mset)
    then show "\<forall>x \<in> set ys. named r x" using ok(2) by auto
  qed
  then have "sort_key force_key ys = sort_key force_key (map (relabel s A) xs)" using ys by (intro sort_key_perm) simp_all
  then have "go_sort in_force_first ys = map (relabel s A) (go_sort in_force_first xs)"
    by (simp add: go_sort_force sort_key_map_inv)
  then show ?thesis using assms(4) by (cases "go_sort in_force_first xs") (simp_all add: first_holder_def)
qed

lemma FindInstrumentByIdentifier_relabel:
  assumes "names_ok (sm_idents m)" "mset (sm_idents m') = image_mset (relabel s A) (mset (sm_idents m))" "'''' \<notin> A"
  shows "FindInstrumentByIdentifier r m' = (if FindInstrumentByIdentifier r m \<in> A then s else FindInstrumentByIdentifier r m)"
  unfolding FindInstrumentByIdentifier_def
proof (rule first_holder_relabel [where r = r])
  show "mset (filter (named r) (sm_idents m')) = image_mset (relabel s A) (mset (filter (named r) (sm_idents m)))"
    by (simp add: assms(2) filter_mset_image_mset comp_def)
qed (use assms in \<open>simp_all add: names_ok_filter\<close>)

lemma merged_relabel: "mset (sm_idents (merged s a m)) = image_mset (relabel s {a}) (mset (sm_idents m))"
proof -
  have "mset (filter (\<lambda>x. ix_InstrumentID x \<noteq> a) xs) + mset (carried s (map ix_Name (filter (\<lambda>x. ix_InstrumentID x = a) xs)))
      = image_mset (relabel s {a}) (mset xs)" for xs
    by (induction xs) (auto simp: relabel_def)
  then show ?thesis by (simp add: merged_def names_of_def)
qed

lemma merge_all_ok:
  assumes "merge_all s xs m = Inr m'" "master_ok env m" "s \<in> instrument_ids m"
  shows "master_ok env m' \<and> s \<in> instrument_ids m' \<and> sm_exchanges m' = sm_exchanges m
    \<and> mset (sm_idents m') = image_mset (relabel s (set xs)) (mset (sm_idents m))"
  using assms
proof (induction xs arbitrary: m)
  case (Cons x xs)
  show ?case
  proof (cases "x = s")
    case True
    have "relabel s (insert s A) = relabel s A" for A by (rule ext) (simp add: relabel_def)
    then show ?thesis using Cons.IH [OF _ Cons.prems(2,3)] Cons.prems(1) by (simp add: True)
  next
    case False
    with Cons.prems(1) obtain m1 where m1: "mergeInstruments s x m = Inr m1" "merge_all s xs m1 = Inr m'"
      by (auto simp: sum_then_Inr)
    from mergeInstruments_Inr [OF Cons.prems(2,3) False [symmetric], of m1] m1(1)
    have mm: "x \<notin> set (sm_declared m)" "matches_unique (map (move_match s x) (l_matches (sm_ledger m)))" "m1 = merged s x m"
      by simp_all
    have "master_ok env m1" using merged_ok [OF Cons.prems(2,3) False [symmetric] mm(1,2)] by (simp add: mm(3))
    moreover have "s \<in> instrument_ids m1" using Cons.prems(3) False unfolding mm(3) ids_merged by simp
    ultimately have "master_ok env m' \<and> s \<in> instrument_ids m' \<and> sm_exchanges m' = sm_exchanges m1
      \<and> mset (sm_idents m') = image_mset (relabel s (set xs)) (mset (sm_idents m1))" by (rule Cons.IH [OF m1(2)])
    moreover have "sm_exchanges m1 = sm_exchanges m" by (simp add: mm(3) merged_def)
    ultimately show ?thesis by (simp add: mm(3) merged_relabel image_mset.compositionality comp_def relabel_relabel)
  qed
qed simp

text \<open>The rows of a name are found in table order of nothing: a lookup finds a holder exactly when there is a row.\<close>

lemma first_holder_in: "xs \<noteq> [] \<Longrightarrow> first_holder xs \<in> ix_InstrumentID ` set xs"
proof -
  assume "xs \<noteq> []"
  then obtain y ys where y: "go_sort in_force_first xs = y # ys"
    by (metis length_go_sort length_greater_0_conv list.exhaust list.size(3))
  then have "y \<in> set xs" by (metis list.set_intros(1) set_go_sort)
  then show ?thesis by (simp add: first_holder_def y)
qed

lemma FindInstrumentByIdentifier_owner:
  assumes "FindInstrumentByIdentifier r m \<noteq> ''''"
  shows "\<exists>x \<in> set (sm_idents m). named r x \<and> ix_InstrumentID x = FindInstrumentByIdentifier r m"
proof -
  have "filter (named r) (sm_idents m) \<noteq> []" using assms by (auto simp: FindInstrumentByIdentifier_def first_holder_def)
  from first_holder_in [OF this] show ?thesis by (auto simp: FindInstrumentByIdentifier_def)
qed

lemma FindInstrumentByIdentifier_none:
  assumes "FindInstrumentByIdentifier r m = ''''" "'''' \<notin> ix_InstrumentID ` set (sm_idents m)"
  shows "filter (named r) (sm_idents m) = []"
proof (rule ccontr)
  assume "filter (named r) (sm_idents m) \<noteq> []"
  from first_holder_in [OF this] show False using assms by (auto simp: FindInstrumentByIdentifier_def)
qed

lemma FindInstrumentByIdentifier_sole:
  assumes "\<forall>x \<in> set (sm_idents m). named r x \<longrightarrow> ix_InstrumentID x = i" "\<exists>x \<in> set (sm_idents m). named r x"
  shows "FindInstrumentByIdentifier r m = i"
proof -
  have "filter (named r) (sm_idents m) \<noteq> []" using assms(2) by (auto simp: filter_empty_conv)
  from first_holder_in [OF this] show ?thesis using assms(1) by (auto simp: FindInstrumentByIdentifier_def)
qed

subsection \<open>Ensuring an instrument\<close>

lemma row_allowed_cong:
  "instrument_ids m' = instrument_ids m \<Longrightarrow> sm_exchanges m' = sm_exchanges m \<Longrightarrow> row_allowed m' = row_allowed m"
  by (rule ext) (simp add: row_allowed_def cong: option.case_cong)

lemma update_instrument_ok:
  assumes "update_instrument inst g f m = Inr m'" "master_ok env m" "\<And>i. in_ID (f i) = in_ID i"
  shows "master_ok env m' \<and> sm_idents m' = sm_idents m \<and> sm_exchanges m' = sm_exchanges m \<and> instrument_ids m' = instrument_ids m"
proof -
  let ?f = "\<lambda>i. if in_ID i = inst \<and> g i then f i else i"
  from assms(1) have m': "m' = m\<lparr>sm_instruments := map ?f (sm_instruments m)\<rparr>"
    and allowed: "\<And>i. i \<in> set (sm_instruments m) \<Longrightarrow> in_ID i = inst \<Longrightarrow> g i \<Longrightarrow> row_allowed m (f i)"
    by (auto simp: update_instrument_def list_all_iff Let_def split: if_splits)
  have ids: "map in_ID (sm_instruments m') = map in_ID (sm_instruments m)" by (simp add: m' assms(3))
  then have ids': "instrument_ids m' = instrument_ids m" by (metis list.set_map)
  have "row_allowed m' = row_allowed m" by (rule row_allowed_cong [OF ids']) (simp add: m')
  then have "list_all (row_allowed m') (sm_instruments m')"
    using assms(2) allowed by (auto simp: m' list_all_iff master_ok_def)
  then have "master_ok env m'" using assms(2) unfolding master_ok_def refs_ok_def ids ids' by (simp add: m')
  then show ?thesis using ids' by (simp add: m')
qed

lemma updateInstrumentOnMatch_ok:
  assumes "updateInstrumentOnMatch inst u opt m = Inr m'" "master_ok env m"
  shows "master_ok env m' \<and> sm_idents m' = sm_idents m \<and> sm_exchanges m' = sm_exchanges m \<and> instrument_ids m' = instrument_ids m"
  using assms(1) unfolding updateInstrumentOnMatch_def
  by (rule update_instrument_ok [OF _ assms(2)]) (simp add: matched_fields_def Let_def split: option.splits)

lemma mergeIntoInstrument_ok:
  assumes "mergeIntoInstrument inst d m = Inr m'" "master_ok env m"
  shows "master_ok env m' \<and> (\<exists>m1. add_missing inst (im_Identifiers d) m = Inr m1 \<and> sm_idents m' = sm_idents m1)
    \<and> sm_exchanges m' = sm_exchanges m \<and> instrument_ids m' = instrument_ids m"
proof -
  from assms(1) obtain m1 where m1: "add_missing inst (im_Identifiers d) m = Inr m1"
    and up: "update_instrument inst has_blank (fill_blanks d) m1 = Inr m'"
    by (auto simp: mergeIntoInstrument_def sum_then_Inr)
  have ok: "master_ok env m1" using ok_writer.add_missing_keeps m1 assms(2) by blast
  have "only_names m m1" using only_names_writer.add_missing_keeps m1 only_names_refl by blast
  then have "sm_exchanges m1 = sm_exchanges m" "instrument_ids m1 = instrument_ids m" by (auto simp: only_names_def)
  with update_instrument_ok [OF up ok] m1 show ?thesis by (simp add: fill_blanks_def)
qed

text \<open>
  After \<open>add_missing\<close> every name given has a row, and rows are added for the instrument only under
  the names given.
\<close>

lemma add_missing_rows:
  assumes "add_missing inst idns m = Inr m'"
  shows "\<exists>ns. sm_idents m' = sm_idents m @ carried inst ns \<and> set ns \<subseteq> set idns
    \<and> (\<forall>n \<in> set idns. \<exists>x \<in> set (sm_idents m'). named (ii_Ref n) x)"
  using assms
proof (induction idns arbitrary: m)
  case Nil
  then show ?case by (intro exI [of _ "[]"]) simp
next
  case (Cons n idns)
  consider (skip) "insertIdentifierRow inst n m = Inl Conflict" "add_missing inst idns m = Inr m'"
    | (add) m1 where "insertIdentifierRow inst n m = Inr m1" "add_missing inst idns m1 = Inr m'"
    using Cons.prems by (auto split: sum.splits pq_error.splits)
  then show ?case
  proof cases
    case skip
    then have ex: "\<exists>x \<in> set (sm_idents m). named (ii_Ref n) x"
      by (auto simp: insertIdentifierRow_def list_ex_iff clash_def named_def split: if_splits)
    from Cons.IH [OF skip(2)] obtain ns where ns: "sm_idents m' = sm_idents m @ carried inst ns" "set ns \<subseteq> set idns"
      "\<forall>n \<in> set idns. \<exists>x \<in> set (sm_idents m'). named (ii_Ref n) x" by blast
    then show ?thesis using ex by (intro exI [of _ ns]) auto
  next
    case add
    from add(1) have i: "sm_idents m1 = sm_idents m @ carried inst [n]" by (simp add: insertIdentifierRow_Inr)
    from Cons.IH [OF add(2)] obtain ns where ns: "sm_idents m' = sm_idents m1 @ carried inst ns" "set ns \<subseteq> set idns"
      "\<forall>n \<in> set idns. \<exists>x \<in> set (sm_idents m'). named (ii_Ref n) x" by blast
    then show ?thesis using i by (intro exI [of _ "n # ns"]) (auto simp: named_def)
  qed
qed

lemma insert_names_rows:
  "insert_names inst idns m = Inr m' \<Longrightarrow> sm_idents m' = sm_idents m @ carried inst idns"
proof (induction idns arbitrary: m)
  case (Cons n idns)
  then obtain m1 where "insertIdentifierRow inst n m = Inr m1" "insert_names inst idns m1 = Inr m'"
    by (auto split: sum.splits pq_error.splits)
  then show ?case using Cons.IH by (simp add: insertIdentifierRow_Inr)
qed simp

lemma distinct_one:
  assumes d: "distinct xs" and s: "set xs = {i}"
  shows "xs = [i]"
proof -
  have "length xs = Suc 0" using distinct_card [OF d] s by simp
  then obtain y where "xs = [y]" by (metis length_0_conv length_Suc_conv)
  then show ?thesis using s by simp
qed

lemma set_distinct_others: "set (first_by id {} (filter (\<lambda>x. x \<noteq> e) xs)) = set xs - {e}"
  using keys_first_by [of id "{}" "filter (\<lambda>x. x \<noteq> e) xs"] by auto

lemma minus_one: "A - {e} = {i} \<longleftrightarrow> i \<noteq> e \<and> A \<subseteq> {e, i} \<and> i \<in> A"
  by blast

lemma distinct_holders_set:
  "set (distinct_holders idns m) = (\<lambda>n. FindInstrumentByIdentifier (ii_Ref n) m) ` set idns - {''''}"
  unfolding distinct_holders_def set_distinct_others by simp

lemma distinct_holders_single:
  "distinct_holders idns m = [i] \<longleftrightarrow>
     i \<noteq> '''' \<and> (\<forall>n \<in> set idns. FindInstrumentByIdentifier (ii_Ref n) m \<in> {'''', i})
     \<and> (\<exists>n \<in> set idns. i = FindInstrumentByIdentifier (ii_Ref n) m)"
proof -
  have "distinct (distinct_holders idns m)"
    using distinct_first_by [of id "{}"] unfolding distinct_holders_def by (metis list.map_id)
  then have "distinct_holders idns m = [i] \<longleftrightarrow> set (distinct_holders idns m) = {i}" using distinct_one by force
  also have "\<dots> \<longleftrightarrow> i \<noteq> '''' \<and> (\<lambda>n. FindInstrumentByIdentifier (ii_Ref n) m) ` set idns \<subseteq> {'''', i}
      \<and> i \<in> (\<lambda>n. FindInstrumentByIdentifier (ii_Ref n) m) ` set idns"
    unfolding distinct_holders_set by (rule minus_one)
  finally show ?thesis by (simp only: image_subset_iff image_iff)
qed

lemma row_allowed_mono:
  assumes "instrument_ids m \<subseteq> instrument_ids m'" "sm_exchanges m' = sm_exchanges m" "row_allowed m i"
  shows "row_allowed m' i"
  using assms by (auto simp: row_allowed_def split: option.splits)

lemma issued_nonempty: "env_ok env \<Longrightarrow> '''' \<notin> issued env l"
  unfolding env_ok_def by (metis (no_types, lifting) imageE option.distinct(1))

lemma create_instrument_ok:
  assumes "create_instrument env row idns m = Inr (m', i)" "env_ok env" "master_ok env m" "\<And>x. in_ID (row x) = x"
  shows "master_ok env m' \<and> i \<in> instrument_ids m' \<and> sm_exchanges m' = sm_exchanges m
    \<and> sm_idents m' = sm_idents m @ carried i idns"
proof -
  let ?l = "sm_ledger m"
  let ?new = "env_new_uuid env (l_uuids ?l)"
  let ?m1 = "m\<lparr>sm_instruments := sm_instruments m @ [row ?new], sm_ledger := ?l\<lparr>l_uuids := l_uuids ?l + 1\<rparr>\<rparr>"
  from assms(1) have allowed: "row_allowed ?m1 (row ?new)" and ins: "insert_names ?new idns ?m1 = Inr m'" and i: "i = ?new"
    by (auto simp: create_instrument_def Let_def sum_then_Inr split: if_splits)
  have ids: "instrument_ids ?m1 = insert ?new (instrument_ids m)" by (simp add: assms(4))
  have fresh: "?new \<notin> instrument_ids m"
    using assms(2,3) by (auto simp: env_ok_def master_ok_def inj_eq)
  have "list_all (row_allowed ?m1) (sm_instruments m)"
    using assms(3) row_allowed_mono [of m ?m1] unfolding ids by (auto simp: list_all_iff master_ok_def)
  then have "master_ok env ?m1"
    using assms(3) allowed fresh unfolding master_ok_def refs_ok_def ids by (auto simp: assms(4) lessThan_Suc)
  then have "master_ok env m'" using ok_writer.insert_names_keeps ins by blast
  moreover have "only_names ?m1 m'" using only_names_writer.insert_names_keeps ins only_names_refl by blast
  then have "instrument_ids m' = instrument_ids ?m1" "sm_exchanges m' = sm_exchanges m" by (auto simp: only_names_def)
  ultimately show ?thesis using insert_names_rows [OF ins] ids by (simp add: i)
qed

lemma owners_nonempty:
  assumes "env_ok env" "master_ok env m"
  shows "'''' \<notin> ix_InstrumentID ` set (sm_idents m)"
proof -
  have "ix_InstrumentID ` set (sm_idents m) \<subseteq> issued env (sm_ledger m)"
    using assms(2) unfolding master_ok_def refs_ok_def by (elim conjE) (rule order_trans)
  then show ?thesis using issued_nonempty [OF assms(1)] by blast
qed

lemma first_holder_least:
  assumes "xs \<noteq> []"
  shows "\<exists>z \<in> set xs. (\<forall>w \<in> set xs. force_key z \<le> force_key w) \<and> first_holder xs = ix_InstrumentID z"
proof -
  obtain z zs where z: "sort_key force_key xs = z # zs" using assms by (metis length_0_conv length_sort list.exhaust)
  have "sorted (map force_key (z # zs))" using sorted_sort_key [of force_key xs] by (simp add: z)
  then have "\<forall>w \<in> set (z # zs). force_key z \<le> force_key w" by auto
  moreover have "set (z # zs) = set xs" by (metis set_sort z)
  ultimately show ?thesis by (intro bexI [of _ z]) (auto simp: first_holder_def go_sort_force z)
qed

text \<open>The names given are with the instrument, when it is the only holder found and new rows are its own.\<close>

lemma holders_after:
  assumes env: "env_ok env" "master_ok env m"
    and rows: "sm_idents m' = sm_idents m @ carried i ns"
    and before: "FindInstrumentByIdentifier (ii_Ref n) m \<in> {'''', i}"
    and ok: "names_ok (sm_idents m')"
    and row: "\<exists>x \<in> set (sm_idents m'). named (ii_Ref n) x"
  shows "FindInstrumentByIdentifier (ii_Ref n) m' = i"
proof (cases "FindInstrumentByIdentifier (ii_Ref n) m = ''''")
  case True
  from FindInstrumentByIdentifier_none [OF this owners_nonempty [OF env]]
  have "\<forall>x \<in> set (sm_idents m). \<not> named (ii_Ref n) x" by (simp add: filter_empty_conv)
  then have "\<forall>x \<in> set (sm_idents m'). named (ii_Ref n) x \<longrightarrow> ix_InstrumentID x = i" by (auto simp: rows carried_def)
  then show ?thesis using row by (rule FindInstrumentByIdentifier_sole)
next
  case False
  let ?xs = "filter (named (ii_Ref n)) (sm_idents m)" and ?all = "filter (named (ii_Ref n)) (sm_idents m')"
  have found: "first_holder ?xs = i" using False before by (simp add: FindInstrumentByIdentifier_def)
  then have "?xs \<noteq> []" using False by (auto simp: FindInstrumentByIdentifier_def first_holder_def)
  from first_holder_least [OF this] obtain z where z: "z \<in> set ?xs" "\<forall>w \<in> set ?xs. force_key z \<le> force_key w" "ix_InstrumentID z = i"
    using found by auto
  have "?all \<noteq> []" using row by (simp add: filter_empty_conv)
  from first_holder_least [OF this] obtain y where y: "y \<in> set ?all" "\<forall>w \<in> set ?all. force_key y \<le> force_key w"
    "first_holder ?all = ix_InstrumentID y" by blast
  have inj: "inj_on force_key (set ?all)" by (rule force_key_inj [OF names_ok_filter [OF ok], of _ "ii_Ref n"]) simp
  have sub: "set ?xs \<subseteq> set ?all" by (auto simp: rows)
  have "ix_InstrumentID y = i"
  proof (cases "y \<in> set ?xs")
    case True
    then have "force_key y = force_key z" using z(1,2) y(2) sub by (meson antisym subsetD)
    then show ?thesis using inj y(1) z(1,3) sub by (metis inj_onD subsetD)
  next
    case False
    then show ?thesis using y(1) by (auto simp: rows carried_def)
  qed
  then show ?thesis using y(3) by (simp add: FindInstrumentByIdentifier_def)
qed

lemma normalize_name_frame: "sm_exchanges m' = sm_exchanges m \<Longrightarrow> normalize_name m' = normalize_name m"
  by (rule ext) (simp add: normalize_name_def normalizeToOperatingMIC_def LookupOperatingMIC_def)

lemma FindInstrumentByIdentifier_frame:
  "sm_idents m' = sm_idents m \<Longrightarrow> FindInstrumentByIdentifier r m' = FindInstrumentByIdentifier r m"
  by (simp add: FindInstrumentByIdentifier_def)

lemma holder_stored:
  assumes "master_ok env m" "FindInstrumentByIdentifier r m \<noteq> ''''"
  shows "FindInstrumentByIdentifier r m \<in> instrument_ids m"
proof -
  from FindInstrumentByIdentifier_owner [OF assms(2)] obtain x where "x \<in> set (sm_idents m)" "ix_InstrumentID x = FindInstrumentByIdentifier r m"
    by blast
  moreover have "ix_InstrumentID ` set (sm_idents m) \<subseteq> instrument_ids m" using assms(1) by (simp add: master_ok_def refs_ok_def)
  ultimately show ?thesis by (metis imageI subsetD)
qed

lemma distinct_holders_stored:
  assumes "master_ok env m"
  shows "set (distinct_holders idns m) \<subseteq> instrument_ids m"
  unfolding distinct_holders_set using holder_stored [OF assms] by (intro subsetI) (elim DiffE imageE, simp)

text \<open>What a call settles: the instrument it returns is stored and is the one the names given lead to.\<close>

definition settled :: "Env \<Rightarrow> IdentifierInput list \<Rightarrow> Master \<Rightarrow> Master \<Rightarrow> string \<Rightarrow> bool" where
  "settled env idns m m' i \<longleftrightarrow> master_ok env m' \<and> i \<in> instrument_ids m' \<and> sm_exchanges m' = sm_exchanges m \<and> distinct_holders idns m' = [i]"

lemma master_okD: "master_ok env m \<Longrightarrow> names_ok (sm_idents m)"
  by (simp add: master_ok_def)

lemma id_nonempty:
  assumes "env_ok env" "master_ok env m" "i \<in> instrument_ids m"
  shows "i \<noteq> ''''"
proof -
  have "instrument_ids m \<subseteq> issued env (sm_ledger m)" using assms(2) by (simp add: master_ok_def)
  then have "i \<in> issued env (sm_ledger m)" using assms(3) by (rule subsetD)
  then show ?thesis using issued_nonempty [OF assms(1)] by metis
qed

lemma create_settles:
  assumes "create_instrument env row idns m = Inr (m', i)" "env_ok env" "master_ok env m" "\<And>x. in_ID (row x) = x"
    and none: "distinct_holders idns m = []" and "idns \<noteq> []"
  shows "settled env idns m m' i"
proof -
  note c = create_instrument_ok [OF assms(1-4)]
  then have i: "i \<noteq> ''''" using id_nonempty [OF assms(2)] by blast
  have "(\<lambda>n. FindInstrumentByIdentifier (ii_Ref n) m) ` set idns - {''''} = {}"
    unfolding distinct_holders_set [symmetric] using none by simp
  then have before: "FindInstrumentByIdentifier (ii_Ref n) m \<in> {'''', i}" if "n \<in> set idns" for n using that by (simp add: image_subset_iff)
  have "FindInstrumentByIdentifier (ii_Ref n) m' = i" if "n \<in> set idns" for n
  proof (rule holders_after [OF assms(2,3) _ before [OF that]])
    show "sm_idents m' = sm_idents m @ carried i idns" using c by blast
    show "names_ok (sm_idents m')" using c master_okD by blast
    show "\<exists>x \<in> set (sm_idents m'). named (ii_Ref n) x" using that c
      by (intro bexI [of _ "\<lparr>ix_InstrumentID = i, ix_Name = n\<rparr>"]) (simp_all add: carried_def named_def)
  qed
  then show ?thesis using c i hd_in_set [OF \<open>idns \<noteq> []\<close>] unfolding settled_def distinct_holders_single by auto
qed

lemma complete_settles:
  assumes run: "complete_instrument x u opt d m = Inr (m', i)" and env: "env_ok env" and ok: "master_ok env m"
    and one: "distinct_holders (im_Identifiers d) m = [x]"
  shows "settled env (im_Identifiers d) m m' i"
proof -
  let ?idns = "im_Identifiers d"
  from one have x: "x \<noteq> ''''" and before: "\<And>n. n \<in> set ?idns \<Longrightarrow> FindInstrumentByIdentifier (ii_Ref n) m \<in> {'''', x}"
    and some: "\<exists>n \<in> set ?idns. x = FindInstrumentByIdentifier (ii_Ref n) m" by (auto simp: distinct_holders_single)
  have stored: "x \<in> instrument_ids m" using distinct_holders_stored [OF ok, of ?idns] one by simp
  show ?thesis
  proof (cases "holdsNoCanonicalIdentifier x m")
    case True
    with run obtain m1 where m1: "mergeIntoInstrument x d m = Inr m1" "updateInstrumentOnMatch x u opt m1 = Inr m'" and i: "i = x"
      by (auto simp: complete_instrument_def sum_then_Inr)
    from mergeIntoInstrument_ok [OF m1(1) ok] obtain m2 where ok1: "master_ok env m1" and m2: "add_missing x ?idns m = Inr m2"
      "sm_idents m1 = sm_idents m2" and f: "sm_exchanges m1 = sm_exchanges m" "instrument_ids m1 = instrument_ids m" by blast
    note up = updateInstrumentOnMatch_ok [OF m1(2) ok1]
    from add_missing_rows [OF m2(1)] obtain ns where ns: "sm_idents m2 = sm_idents m @ carried x ns"
      "\<forall>n \<in> set ?idns. \<exists>y \<in> set (sm_idents m2). named (ii_Ref n) y" by blast
    have "FindInstrumentByIdentifier (ii_Ref n) m' = x" if "n \<in> set ?idns" for n
    proof (rule holders_after [OF env ok _ before [OF that]])
      show "sm_idents m' = sm_idents m @ carried x ns" using up m2(2) ns(1) by simp
      show "names_ok (sm_idents m')" using up master_okD by blast
      show "\<exists>y \<in> set (sm_idents m'). named (ii_Ref n) y" using up m2(2) ns(2) that by simp
    qed
    then show ?thesis using x up f stored some unfolding settled_def distinct_holders_single i by auto
  next
    case False
    with run have "updateInstrumentOnMatch x u opt m = Inr m'" and i: "i = x" by (auto simp: complete_instrument_def sum_then_Inr)
    note up = updateInstrumentOnMatch_ok [OF this(1) ok]
    then show ?thesis using one stored FindInstrumentByIdentifier_frame [of m' m]
      unfolding settled_def i by (simp add: distinct_holders_def)
  qed
qed

lemma pickSurvivor_in:
  assumes "pickSurvivor ids m = Inr s" "set ids \<subseteq> instrument_ids m"
  shows "s \<in> set ids"
proof (cases "\<exists>x. ids = [x]")
  case True
  then show ?thesis using assms(1) by (auto simp: pickSurvivor_def)
next
  case False
  let ?cs = "map (candidate_of m) (filter (\<lambda>i. in_ID i \<in> set ids) (sm_instruments m))"
  from False assms(1) obtain c cs where c: "go_sort better_survivor ?cs = c # cs" "s = sc_id c"
    by (auto simp: pickSurvivor_def split: list.splits)
  then have "c \<in> set ?cs" by (metis list.set_intros(1) set_go_sort)
  then show ?thesis using c(2) by (auto simp: candidate_of_def)
qed

lemma merge_settles:
  assumes run: "merge_found (distinct_holders idns m) u opt m = Inr (m', i)" and env: "env_ok env" and ok: "master_ok env m"
  shows "settled env idns m m' i"
proof -
  let ?ids = "distinct_holders idns m"
  from run obtain m1 where pick: "pickSurvivor ?ids m = Inr i" and all: "merge_all i ?ids m = Inr m1"
    and up: "updateInstrumentOnMatch i u opt m1 = Inr m'" by (auto simp: merge_found_def sum_then_Inr)
  have ids: "set ?ids \<subseteq> instrument_ids m" by (rule distinct_holders_stored [OF ok])
  have i: "i \<in> set ?ids" by (rule pickSurvivor_in [OF pick ids])
  then have "i \<in> instrument_ids m" using ids by blast
  note mm = merge_all_ok [OF all ok this]
  then have ok1: "master_ok env m1" by simp
  note upd = updateInstrumentOnMatch_ok [OF up ok1]
  have e: "'''' \<notin> set ?ids" by (simp add: distinct_holders_set)
  have find: "FindInstrumentByIdentifier r m' = (if FindInstrumentByIdentifier r m \<in> set ?ids then i else FindInstrumentByIdentifier r m)" for r
    by (rule FindInstrumentByIdentifier_relabel) (use ok mm upd e in \<open>simp_all add: master_ok_def\<close>)
  have holder: "FindInstrumentByIdentifier (ii_Ref n) m \<in> insert '''' (set ?ids)" if "n \<in> set idns" for n
    using that by (auto simp: distinct_holders_set)
  have "\<exists>n \<in> set idns. i = FindInstrumentByIdentifier (ii_Ref n) m" using i by (auto simp: distinct_holders_set)
  then have "distinct_holders idns m' = [i]"
    unfolding distinct_holders_single find using holder i e by (metis insertCI insertE)
  then show ?thesis using mm upd by (simp add: settled_def)
qed

lemma new_instrument_ID [simp]: "in_ID (new_instrument newID ac mic cur cik sic underlying vf vb opt now) = newID"
  by (simp add: new_instrument_def)

lemma EnsureInstrument_settled:
  assumes run: "EnsureInstrument env ac mic cur cik sic identifiers uid vf vb opt m = Inr (m', i)"
    and env: "env_ok env" and ok: "master_ok env m"
  shows "settled env (map (normalize_name m) identifiers) m m' i"
proof -
  let ?idns = "map (normalize_name m) identifiers"
  from run obtain underlying where u: "parseNullUUID env uid = Inr underlying" and ne: "?idns \<noteq> []"
    by (auto simp: EnsureInstrument_def with_error_def sum_then_def split: if_splits sum.splits)
  consider (none) "distinct_holders ?idns m = []" | (one) x where "distinct_holders ?idns m = [x]"
    | (more) x y zs where "distinct_holders ?idns m = x # y # zs" by (metis list.exhaust)
  then show ?thesis
  proof cases
    case none
    then have nil: "filter (\<lambda>x. x \<noteq> '''') (map (\<lambda>n. FindInstrumentByIdentifier (ii_Ref n) m) ?idns) = []"
      unfolding distinct_holders_def by (metis keys_first_by Diff_empty image_is_empty set_empty)
    let ?row = "\<lambda>newID. new_instrument newID ac (normalizeToOperatingMIC mic m) cur cik sic underlying vf vb opt (sm_now m)"
    have "create_instrument env ?row ?idns m = Inr (m', i)"
      using run none nil u by (auto simp: EnsureInstrument_def with_error_def sum_then_def Let_def split: if_splits sum.splits)
    then show ?thesis using env ok new_instrument_ID none ne by (rule create_settles)
  next
    case one
    let ?d = "\<lparr>im_AssetClass = ac, im_ExchangeMIC = normalizeToOperatingMIC mic m, im_Currency = cur, im_CIK = cik, im_SICCode = sic,
             im_ValidFrom = vf, im_ValidBefore = vb, im_Identifiers = ?idns\<rparr>"
    have "complete_instrument x underlying opt ?d m = Inr (m', i)"
      using run one u by (auto simp: EnsureInstrument_def with_error_def sum_then_def Let_def split: if_splits)
    then show ?thesis using complete_settles [of x underlying opt ?d m m' i env] one env ok by simp
  next
    case more
    then have "merge_found (distinct_holders ?idns m) underlying opt m = Inr (m', i)"
      using run u by (auto simp: EnsureInstrument_def with_error_def sum_then_def Let_def split: if_splits)
    then show ?thesis using env ok by (rule merge_settles)
  qed
qed

text \<open>
  C13. Ensuring an instrument settles its names: when the call succeeds, the instrument it returns is
  stored, one name still denotes one instrument at a time, and a second call with the same names
  finds that instrument and no other, so it neither creates nor merges anything.
\<close>

theorem EnsureInstrument_settles_names:
  assumes "EnsureInstrument env ac mic cur cik sic identifiers uid vf vb opt m = Inr (m', i)"
    and "env_ok env" "master_ok env m"
  shows "master_ok env m' \<and> i \<in> instrument_ids m' \<and> distinct_holders (map (normalize_name m') identifiers) m' = [i]"
proof -
  from EnsureInstrument_settled [OF assms] have s: "settled env (map (normalize_name m) identifiers) m m' i" .
  then have "normalize_name m' = normalize_name m" by (intro normalize_name_frame) (simp add: settled_def)
  then show ?thesis using s by (simp add: settled_def)
qed

subsection \<open>Every store the writes can reach\<close>

inductive master_step :: "Env \<Rightarrow> Master \<Rightarrow> Master \<Rightarrow> bool" for env where
  ensure: "EnsureInstrument env ac mic cur cik sic idns uid vf vb opt m = Inr (m', i) \<Longrightarrow> master_step env m m'"
| archive: "MergeInstrumentFromArchive env i d m = Inr m' \<Longrightarrow> master_step env m m'"
| identify: "InsertInstrumentIdentifier env i idn m = Inr m' \<Longrightarrow> master_step env m m'"
| strike: "UpdateInstrumentStrike env i x m = Inr m' \<Longrightarrow> master_step env m m'"
| multiplier: "SetContractMultiplier env i x m = Inr m' \<Longrightarrow> master_step env m m'"

lemma master_step_ok:
  assumes "master_step env m m'" "env_ok env" "master_ok env m"
  shows "master_ok env m'"
  using assms(1)
proof cases
  case ensure
  then show ?thesis using EnsureInstrument_settled assms(2,3) by (auto simp: settled_def)
next
  case archive
  then show ?thesis using mergeIntoInstrument_ok assms(3) by (auto simp: MergeInstrumentFromArchive_def sum_then_Inr)
next
  case (identify i idn)
  then obtain u where u: "(case insertIdentifierRow u (normalize_name m idn) m of
      Inl _ \<Rightarrow> Inl ''insert instrument identifier'' | Inr m' \<Rightarrow> Inr m') = Inr m'"
    by (auto simp: InsertInstrumentIdentifier_def sum_then_Inr)
  then have "insertIdentifierRow u (normalize_name m idn) m = Inr m'" by (simp split: sum.splits)
  then show ?thesis by (rule insertion_ok [OF assms(3)])
next
  case strike
  then show ?thesis unfolding UpdateInstrumentStrike_def sum_then_Inr
    using update_instrument_ok assms(3) by fastforce
next
  case multiplier
  then show ?thesis unfolding SetContractMultiplier_def sum_then_Inr
    using update_instrument_ok assms(3) by fastforce
qed

definition names_on :: "time \<Rightarrow> IdentifierInput \<Rightarrow> bool" where
  "names_on d n \<longleftrightarrow> (case ii_ValidFrom n of None \<Rightarrow> True | Some f \<Rightarrow> f \<le> d) \<and> (case ii_ValidBefore n of None \<Rightarrow> True | Some b \<Rightarrow> d < b)"

lemma names_on_clash: "ii_Ref a = ii_Ref b \<Longrightarrow> names_on d a \<Longrightarrow> names_on d b \<Longrightarrow> clash a b"
  by (auto simp: clash_def overlapping_def interval_ok_def starts_before_def names_on_def split: option.splits)

lemma names_ok_unique:
  assumes "names_ok xs" "x \<in> set xs" "y \<in> set xs" "clash (ix_Name x) (ix_Name y)"
  shows "x = y"
  using assms
proof (induction xs)
  case (Cons z zs)
  then show ?case using clash_sym by (fastforce simp: names_ok_Cons)
qed simp


subsection \<open>Completing an option known by its description\<close>

text \<open>
  An instrument known only by a broker's description is never completed as an option: the columns
  are filled one statement before the underlying and the option's terms are written, and a row whose
  asset class is an option's without them is refused, so ensuring it fails whatever terms are given.
\<close>

theorem description_only_option_never_completed:
  assumes "distinct_holders (map (normalize_name m) identifiers) m = [x]" "holdsNoCanonicalIdentifier x m"
    and "i \<in> set (sm_instruments m)" "in_ID i = x" "in_AssetClass i = None" "in_UnderlyingID i = None"
  shows "EnsureInstrument env AssetClassOption mic cur cik sic identifiers uid vf vb opt m \<noteq> Inr r"
proof
  let ?idns = "map (normalize_name m) identifiers"
  assume "EnsureInstrument env AssetClassOption mic cur cik sic identifiers uid vf vb opt m = Inr r"
  moreover define d where "d = \<lparr>im_AssetClass = AssetClassOption, im_ExchangeMIC = normalizeToOperatingMIC mic m, im_Currency = cur,
    im_CIK = cik, im_SICCode = sic, im_ValidFrom = vf, im_ValidBefore = vb, im_Identifiers = ?idns\<rparr>"
  ultimately obtain m1 where "mergeIntoInstrument x d m = Inr m1"
    using assms(1,2)
    by (auto simp: EnsureInstrument_def complete_instrument_def with_error_def sum_then_def Let_def
        split: if_splits sum.splits)
  moreover have d: "im_AssetClass d = AssetClassOption" by (simp add: d_def)
  ultimately obtain m2 where m2: "add_missing x (im_Identifiers d) m = Inr m2" "update_instrument x has_blank (fill_blanks d) m2 = Inr m1"
    by (auto simp: mergeIntoInstrument_def sum_then_Inr)
  have "only_names m m2" using only_names_writer.add_missing_keeps m2(1) only_names_refl by blast
  then have "i \<in> set (sm_instruments m2)" using assms(3) by (auto simp: only_names_def)
  then have "row_allowed m2 (fill_blanks d i)"
    using m2(2) assms(4,5) by (auto simp: update_instrument_def Let_def list_all_iff has_blank_def split: if_splits)
  then show False using assms(5,6) d
    by (simp add: row_allowed_def fill_blanks_def COALESCE_def nullStr_def AssetClassOption_def)
qed

subsection \<open>A concrete store\<close>

text \<open>Two instruments, one known by its ISIN and one by its ticker, the latter bought and sold in one group.\<close>

definition plain_instrument :: "string \<Rightarrow> Instrument" where
  "plain_instrument i = new_instrument i ''STOCK'' '''' ''USD'' '''' '''' None None None None 0"

definition open_name :: "string \<Rightarrow> string \<Rightarrow> IdentifierInput" where
  "open_name ty v = \<lparr>ii_Ref = \<lparr>ref_Type = ty, ref_Value = v, ref_Domain = ''''\<rparr>, ii_Canonical = True, ii_ValidFrom = None, ii_ValidBefore = None\<rparr>"

definition demo_leg :: "string \<Rightarrow> decimal \<Rightarrow> Posting" where
  "demo_leg i q = \<lparr>t_ID = i, t_UserID = ''user'', t_Broker = ''IBKR'', t_Account = '''', t_OrderDate = 0, t_TradeDate = 0, t_Description = ''d'',
     t_BrokerTxTypes = [], t_Resolved = '''', t_Hint = None, t_Quantity = q, t_TradingCurrency = None, t_SettlementCurrency = None,
     t_UnitPrice = None, t_SettlementAmount = None, t_InstrumentID = Some ''aa'', t_ShareCountBasis = None, t_AccountType = ''USER'',
     t_Purpose = None, t_Weight = q, t_Commodity = ''inst:aa'', t_GroupID = ''g'', t_Correlations = []\<rparr>"

definition demo_master :: "string list \<Rightarrow> Master" where
  "demo_master declared = \<lparr>sm_instruments = [plain_instrument ''a'', plain_instrument ''aa''],
     sm_idents = [\<lparr>ix_InstrumentID = ''a'', ix_Name = open_name ''ISIN'' ''US1''\<rparr>, \<lparr>ix_InstrumentID = ''aa'', ix_Name = open_name ''MIC_TICKER'' ''T''\<rparr>],
     sm_exchanges = [], sm_splits = [], sm_events = [], sm_declared = declared,
     sm_ledger = \<lparr>l_txs = [demo_leg ''x'' 5, demo_leg ''y'' (- 5)], l_groups = [], l_matches = [], l_uuids = 2\<rparr>, sm_now = 0\<rparr>"

lemmas demo_master_defs = demo_master_def plain_instrument_def new_instrument_def open_name_def demo_leg_def nullStr_def

lemma demo_master_ok: "set declared \<subseteq> {''a'', ''aa''} \<Longrightarrow> master_ok demo_env (demo_master declared)"
proof -
  assume d: "set declared \<subseteq> {''a'', ''aa''}"
  have "{..<2 :: nat} = {0, 1}" by auto
  then have "issued demo_env (sm_ledger (demo_master declared)) = {''a'', ''aa''}" by (simp add: demo_master_def demo_env_def)
  moreover have ids: "instrument_ids (demo_master declared) = {''a'', ''aa''}" by (simp add: demo_master_defs)
  moreover have "list_all (row_allowed (demo_master declared)) (sm_instruments (demo_master declared))"
    by (simp add: demo_master_defs row_allowed_def ValidAssetClasses_def AssetClassOption_def AssetClassFuture_def)
  moreover have "names_ok (sm_idents (demo_master declared))"
    by (simp add: demo_master_defs names_ok_def clash_def interval_ok_def starts_before_def)
  moreover have "refs_ok (demo_master declared)" using d unfolding refs_ok_def ids by (simp add: demo_master_defs)
  moreover have "matches_unique (l_matches (sm_ledger (demo_master declared)))" by (simp add: demo_master_def matches_unique_def)
  moreover have "distinct (map in_ID (sm_instruments (demo_master declared)))" by (simp add: demo_master_defs)
  ultimately show ?thesis unfolding master_ok_def by (metis order_refl)
qed

lemma demo_master_ledger:
  "balanced_off {} (sm_ledger (demo_master d))" "commodities_named (sm_ledger (demo_master d))"
  by (simp_all add: balanced_off_def weight_sum_def demo_master_defs commodities_named_def instrument_commodity_def InstrumentPrefix_def)


theorem declaration_blocks_merge_witness:
  "mergeInstruments ''a'' ''aa'' (demo_master [''aa'']) \<noteq> Inr (demo_master [])"
  using declaration_blocks_merge [of demo_env "demo_master [''aa'']" "''a''" "''aa''"] demo_master_ok [of "[''aa'']"]
  by (simp add: demo_master_defs)

abbreviation demo_ensure :: "Master \<Rightarrow> string + Master \<times> string" where
  "demo_ensure \<equiv> EnsureInstrument demo_env ''STOCK'' '''' ''USD'' '''' '''' [open_name ''ISIN'' ''US1'', open_name ''ISIN'' ''US2''] '''' None None None"

lemma demo_ensure_runs: "\<exists>m' i. demo_ensure (demo_master []) = Inr (m', i)"
  by (simp add: EnsureInstrument_def ValidAssetClasses_def AssetClassOption_def AssetClassFuture_def parseNullUUID_def with_error_def
      sum_then_def normalize_name_def distinct_holders_def FindInstrumentByIdentifier_def named_def first_holder_def
      demo_master_defs complete_instrument_def holdsNoCanonicalIdentifier_def updateInstrumentOnMatch_def update_instrument_def
      matched_fields_def row_allowed_def COALESCE_def Let_def in_force_first_def)

theorem EnsureInstrument_settles_names_witness:
  "\<exists>m' i. demo_ensure (demo_master []) = Inr (m', i) \<and> i \<in> instrument_ids m'"
proof -
  from demo_ensure_runs obtain m' i where run: "demo_ensure (demo_master []) = Inr (m', i)" by blast
  from EnsureInstrument_settles_names [OF run demo_env_ok demo_master_ok] show ?thesis using run by simp
qed


definition described :: Master where
  "described = (demo_master [])\<lparr>sm_instruments := [(plain_instrument ''a'')\<lparr>in_AssetClass := None\<rparr>],
     sm_idents := [\<lparr>ix_InstrumentID = ''a'', ix_Name = (open_name ''BROKER_DESCRIPTION'' ''AAPL CALL'')\<lparr>ii_Canonical := False\<rparr>\<rparr>]\<rparr>"

theorem description_only_option_never_completed_witness:
  "EnsureInstrument demo_env AssetClassOption '''' ''USD'' '''' '''' [open_name ''BROKER_DESCRIPTION'' ''AAPL CALL'', open_name ''OCC'' ''AAPL250117C00150000'']
     ''u'' None None (Some \<lparr>of_Strike = 150, of_Expiry = 0, of_PutCall = ''C''\<rparr>) described \<noteq> Inr (described, ''a'')"
  by (rule description_only_option_never_completed [where x = "''a''" and i = "hd (sm_instruments described)"])
    (simp_all add: described_def demo_master_defs distinct_holders_def FindInstrumentByIdentifier_def named_def first_holder_def
      normalize_name_def holdsNoCanonicalIdentifier_def)

end
