(* ===== verification/Option_Splits.thy ===== *)
theory Option_Splits
  imports Security_Master_Correct Derivative
begin

text \<open>
  The restatement of option contracts after a stock split,
  \<open>src/server/corporateevents/option_splits.go\<close>, with the store operations it runs on,
  \<open>src/server/db/postgres/corporate_events.go\<close>: the work list, the transaction that closes the symbol
  in force and mints the new ones, the absorption of whoever holds a minted symbol, and the events
  raised for what cannot be applied.

  A date is the time it starts at. \<open>CURRENT_DATE\<close> is read off the clock of the store. What the pass
  logs, and the split-adjusted columns \<open>RecomputeSplitAdjustments\<close> rewrites, are outside the model;
  \<open>decimal.NewFromString\<close> and the text of a \<open>decimal\<close> are parameters.
\<close>

subsection \<open>The work list\<close>

definition date_of :: "time \<Rightarrow> time" where
  "date_of t = utc_day t * day_length"

definition CURRENT_DATE :: "Master \<Rightarrow> time" where
  "CURRENT_DATE m = date_of (sm_now m)"

definition least_of :: "time list \<Rightarrow> time option" where
  "least_of ds = (if ds = [] then None else Some (Min (set ds)))"

definition latest_of :: "time list \<Rightarrow> time option" where
  "latest_of ds = (if ds = [] then None else Some (Max (set ds)))"

definition is_OCC :: "IdentifierInput \<Rightarrow> bool" where
  "is_OCC n \<longleftrightarrow> ref_Type (ii_Ref n) = ''OCC''"

text \<open>The lateral read: the latest start among the OCC symbols in force, where a missing one comes last.\<close>

definition occ_valid_from :: "string \<Rightarrow> Master \<Rightarrow> time option" where
  "occ_valid_from opt m = latest_of (List.map_filter ii_ValidFrom
     (filter (\<lambda>n. is_OCC n \<and> ii_ValidBefore n = None) (names_of opt m)))"

definition first_trade :: "string \<Rightarrow> Master \<Rightarrow> time option" where
  "first_trade opt m = map_option date_of
     (least_of (map t_TradeDate (filter (\<lambda>t. t_InstrumentID t = Some opt) (l_txs (sm_ledger m)))))"

definition split_pending :: "Master \<Rightarrow> Instrument \<Rightarrow> StockSplit \<Rightarrow> bool" where
  "split_pending m i s \<longleftrightarrow> in_AssetClass i = Some AssetClassOption \<and> in_UnderlyingID i = Some (sp_InstrumentID s)
     \<and> sp_ExDate s \<le> CURRENT_DATE m \<and> (case in_Expiry i of None \<Rightarrow> False | Some e \<Rightarrow> sp_ExDate s \<le> e)
     \<and> (case COALESCE (occ_valid_from (in_ID i) m) (first_trade (in_ID i) m) of None \<Rightarrow> True | Some f \<Rightarrow> f < sp_ExDate s)"

record PendingOptionSplits =
  ps_Option :: Instrument
  ps_Identifiers :: "IdentifierInput list"
  ps_Splits :: "StockSplit list"

definition loadIdentifiers :: "string \<Rightarrow> Master \<Rightarrow> IdentifierInput list" where
  "loadIdentifiers inst m = map ix_Name (go_sort in_force_first (filter (\<lambda>x. ix_InstrumentID x = inst) (sm_idents m)))"

text \<open>The joined rows of the query in its order, by option and then by date.\<close>

definition pending_rows :: "(Instrument \<Rightarrow> bool) \<Rightarrow> Master \<Rightarrow> (string \<times> StockSplit) list" where
  "pending_rows inScope m = go_sort (\<lambda>a b. (fst a, sp_ExDate (snd a)) < (fst b, sp_ExDate (snd b)))
     (concat (map (\<lambda>i. map (Pair (in_ID i)) (filter (split_pending m i) (sm_splits m))) (filter inScope (sm_instruments m))))"

definition ListPendingOptionSplits :: "Env \<Rightarrow> string \<Rightarrow> Master \<Rightarrow> string + PendingOptionSplits list" where
  "ListPendingOptionSplits env underlyingID m =
     sum_then (with_error ''list pending option splits: '' (parseNullUUID env underlyingID)) (\<lambda>u.
       let inScope = (\<lambda>i. case u of None \<Rightarrow> True | Some x \<Rightarrow> in_UnderlyingID i = Some x);
           byOption = mm_build (pending_rows inScope m) in
       Inr (List.map_filter (\<lambda>(opt, splits). map_option
              (\<lambda>i. \<lparr>ps_Option = i, ps_Identifiers = loadIdentifiers opt m, ps_Splits = splits\<rparr>)
              (List.find (\<lambda>i. in_ID i = opt) (sm_instruments m))) byOption))"

subsection \<open>The transaction\<close>

record OptionMint =
  om_ExDate :: time
  om_OCC :: IdentifierInput
  om_Strike :: decimal

record OptionSplitParams =
  op_InstrumentID :: string
  op_OldOCCValue :: string
  op_Mints :: "OptionMint list"

text \<open>Each minted name holds from its own date up to the next one's.\<close>

fun dated_mints :: "OptionMint list \<Rightarrow> IdentifierInput list" where
  "dated_mints [] = []"
| "dated_mints [x] = [(om_OCC x)\<lparr>ii_ValidFrom := Some (om_ExDate x)\<rparr>]"
| "dated_mints (x # y # zs) =
     (om_OCC x)\<lparr>ii_ValidFrom := Some (om_ExDate x), ii_ValidBefore := Some (om_ExDate y)\<rparr> # dated_mints (y # zs)"

text \<open>A range whose start is after its end is an error of the store, not an empty range.\<close>

definition identifierHolder :: "IdentifierInput \<Rightarrow> Master \<Rightarrow> string + string option" where
  "identifierHolder idn m =
     (if (case (ii_ValidFrom idn, ii_ValidBefore idn) of (Some f, Some b) \<Rightarrow> b < f | _ \<Rightarrow> False)
      then Inl ''range lower bound must be less than or equal to range upper bound''
      else Inr (map_option ix_InstrumentID (List.find (\<lambda>x. clash (ix_Name x) idn) (sm_idents m))))"

definition absorbDuplicateHolder :: "string \<Rightarrow> IdentifierInput \<Rightarrow> Master \<Rightarrow> string + Master" where
  "absorbDuplicateHolder inst idn m = sum_then (identifierHolder idn m) (\<lambda>holder.
     case holder of None \<Rightarrow> Inr m
     | Some h \<Rightarrow> if h = inst then Inr m else with_error (''absorb duplicate '' @ h @ '': '') (mergeInstruments inst h m))"

fun absorb_all :: "string \<Rightarrow> IdentifierInput list \<Rightarrow> Master \<Rightarrow> string + Master" where
  "absorb_all inst [] m = Inr m"
| "absorb_all inst (n # ns) m = sum_then (absorbDuplicateHolder inst n m) (absorb_all inst ns)"

definition own_OCC :: "string \<Rightarrow> Identifier \<Rightarrow> bool" where
  "own_OCC inst x \<longleftrightarrow> ix_InstrumentID x = inst \<and> is_OCC (ix_Name x)"

text \<open>
  The window from the first date onwards is cleared, and what is still in force closed at that date.
  Closing shortens an interval that starts before the date, so no constraint can refuse it.
\<close>

definition clear_window :: "string \<Rightarrow> time \<Rightarrow> Master \<Rightarrow> Master" where
  "clear_window inst start m = m\<lparr>sm_idents := filter (\<lambda>x. \<not> (own_OCC inst x
     \<and> (case ii_ValidFrom (ix_Name x) of None \<Rightarrow> False | Some f \<Rightarrow> start \<le> f))) (sm_idents m)\<rparr>"

definition close_row :: "string \<Rightarrow> time \<Rightarrow> Identifier \<Rightarrow> Identifier" where
  "close_row inst start x = (if own_OCC inst x \<and> ii_ValidBefore (ix_Name x) = None
     then x\<lparr>ix_Name := (ix_Name x)\<lparr>ii_ValidBefore := Some start\<rparr>\<rparr> else x)"

definition close_open :: "string \<Rightarrow> time \<Rightarrow> Master \<Rightarrow> Master" where
  "close_open inst start m = m\<lparr>sm_idents := map (close_row inst start) (sm_idents m)\<rparr>"

fun mint_names :: "string \<Rightarrow> IdentifierInput list \<Rightarrow> Master \<Rightarrow> string + Master" where
  "mint_names inst [] m = Inr m"
| "mint_names inst (n # ns) m = (case insertIdentifierRow inst n m of
       Inl _ \<Rightarrow> Inl (''apply option split: mint '' @ ref_Value (ii_Ref n))
     | Inr m' \<Rightarrow> mint_names inst ns m')"

definition ApplyOptionSplit :: "Env \<Rightarrow> OptionSplitParams \<Rightarrow> Master \<Rightarrow> string + Master" where
  "ApplyOptionSplit env params m =
     (let mints = op_Mints params in
      if mints = [] then Inl ''apply option split: no mints''
      else sum_then (of_option ''apply option split: invalid instrument id'' (env_parse_uuid env (op_InstrumentID params))) (\<lambda>uid.
        let start = om_ExDate (hd mints); names = dated_mints mints in
        sum_then (with_error ''apply option split: '' (absorb_all uid names m)) (\<lambda>m1.
        sum_then (mint_names uid names (close_open uid start (clear_window uid start m1))) (\<lambda>m2.
        UpdateInstrumentStrike env (op_InstrumentID params) (om_Strike (last mints)) m2))))"

definition InsertUnhandledCorporateEvent :: "Env \<Rightarrow> UnhandledCorporateEvent \<Rightarrow> Master \<Rightarrow> string + Master" where
  "InsertUnhandledCorporateEvent env e m =
     sum_then (of_option ''insert unhandled corporate event: invalid instrument id'' (env_parse_uuid env (ue_InstrumentID e))) (\<lambda>uid.
       if ue_ExDate e \<noteq> None \<and> list_ex (\<lambda>x. \<not> ue_Resolved x \<and> ue_InstrumentID x = uid \<and> ue_EventType x = ue_EventType e \<and> ue_ExDate x = ue_ExDate e) (sm_events m)
       then Inr m
       else if uid \<notin> instrument_ids m then Inl ''violates foreign key constraint''
       else Inr (m\<lparr>sm_events := sm_events m @ [e\<lparr>ue_InstrumentID := uid, ue_Resolved := False\<rparr>]\<rparr>))"

subsection \<open>The pass\<close>

text \<open>\<open>big.Rat.SetString\<close> on the text of a \<open>NUMERIC\<close>: an optional sign, digits, and an optional fraction.\<close>

definition Rat_SetString :: "string \<Rightarrow> rat option" where
  "Rat_SetString s =
     (let neg = (s \<noteq> [] \<and> hd s = CHR ''-''); ds = (if s \<noteq> [] \<and> hd s \<in> {CHR ''-'', CHR ''+''} then tl s else s);
          whole = takeWhile is_digit ds; rest = dropWhile is_digit ds; frac = tl rest;
          v = of_nat (digit_value (whole @ frac)) / 10 ^ length frac in
      if (rest = [] \<and> whole \<noteq> []) \<or> (rest \<noteq> [] \<and> hd rest = CHR ''.'' \<and> list_all is_digit frac \<and> whole @ frac \<noteq> [])
      then Some (if neg then - v else v) else None)"

definition IsWholeForwardSplit :: "string \<Rightarrow> string \<Rightarrow> bool" where
  "IsWholeForwardSplit splitFrom splitTo = (case (Rat_SetString splitFrom, Rat_SetString splitTo) of
       (Some f, Some t) \<Rightarrow> f > 0 \<and> t > 0 \<and> of_int \<lfloor>t / f\<rfloor> = t / f \<and> t / f > 1
     | _ \<Rightarrow> False)"

record factor =
  fc_split :: StockSplit
  fc_num :: decimal
  fc_den :: decimal

record blockedSplit =
  bs_split :: StockSplit
  bs_options :: "Instrument list"

type_synonym blocked = "((string \<times> time) \<times> blockedSplit) list"

definition block :: "StockSplit \<Rightarrow> Instrument \<Rightarrow> blocked \<Rightarrow> blocked" where
  "block s opt bl =
     (let k = (sp_InstrumentID s, sp_ExDate s) in
      case map_of bl k of None \<Rightarrow> bl @ [(k, \<lparr>bs_split = s, bs_options = [opt]\<rparr>)]
      | Some b \<Rightarrow> AList.update k (b\<lparr>bs_options := bs_options b @ [opt]\<rparr>) bl)"

fun scan_splits ::
    "(string \<Rightarrow> decimal option) \<Rightarrow> Instrument \<Rightarrow> StockSplit list \<Rightarrow> decimal \<Rightarrow> decimal \<Rightarrow> factor list \<Rightarrow> bool \<Rightarrow> blocked
     \<Rightarrow> factor list \<times> bool \<times> blocked" where
  "scan_splits pd opt [] num den factors unhandled bl = (factors, unhandled, bl)"
| "scan_splits pd opt (s # ss) num den factors unhandled bl =
     (if \<not> IsWholeForwardSplit (sp_SplitFrom s) (sp_SplitTo s) then scan_splits pd opt ss num den factors True (block s opt bl)
      else let num' = num * dec_or_zero pd (sp_SplitTo s); den' = den * dec_or_zero pd (sp_SplitFrom s) in
        scan_splits pd opt ss num' den' (factors @ [\<lparr>fc_split = s, fc_num = num', fc_den = den'\<rparr>]) unhandled bl)"

definition split_event_type :: "StockSplit \<Rightarrow> string" where
  "split_event_type s = (case (Rat_SetString (sp_SplitFrom s), Rat_SetString (sp_SplitTo s)) of
       (Some f, Some t) \<Rightarrow> if t < f then ''REVERSE_SPLIT'' else ''NON_WHOLE_SPLIT''
     | _ \<Rightarrow> ''NON_WHOLE_SPLIT'')"

text \<open>An event that cannot be inserted is only logged.\<close>

definition raise_event :: "Env \<Rightarrow> UnhandledCorporateEvent \<Rightarrow> Master \<Rightarrow> Master" where
  "raise_event env e m = (case InsertUnhandledCorporateEvent env e m of Inl _ \<Rightarrow> m | Inr m' \<Rightarrow> m')"

definition insertUnhandledUnderlyingSplit :: "Env \<Rightarrow> string \<Rightarrow> Instrument list \<Rightarrow> StockSplit \<Rightarrow> string \<Rightarrow> Master \<Rightarrow> Master" where
  "insertUnhandledUnderlyingSplit env underlyingID options s reason m = raise_event env
     \<lparr>ue_InstrumentID = underlyingID, ue_EventType = split_event_type s, ue_ExDate = Some (sp_ExDate s),
      ue_Detail = ''Underlying '' @ underlyingID @ '': '' @ reason @ '' (split '' @ sp_SplitFrom s @ '':'' @ sp_SplitTo s
        @ '') affects '' @ show_nat (length options) @ '' options'',
      ue_Data = UnderlyingData (sp_SplitFrom s) (sp_SplitTo s) (map in_ID options), ue_Resolved = False\<rparr> m"

definition insertUnhandledOptionSplit :: "Env \<Rightarrow> Instrument \<Rightarrow> StockSplit \<Rightarrow> string \<Rightarrow> Master \<Rightarrow> Master" where
  "insertUnhandledOptionSplit env opt s reason m = raise_event env
     \<lparr>ue_InstrumentID = in_ID opt, ue_EventType = split_event_type s, ue_ExDate = Some (sp_ExDate s),
      ue_Detail = ''Option '' @ in_ID opt @ '': '' @ reason @ '' (split '' @ sp_SplitFrom s @ '':'' @ sp_SplitTo s @ '' on underlying)'',
      ue_Data = OptionData (sp_SplitFrom s) (sp_SplitTo s) (sp_InstrumentID s), ue_Resolved = False\<rparr> m"

definition occ_name :: "string \<Rightarrow> IdentifierInput" where
  "occ_name v = \<lparr>ii_Ref = \<lparr>ref_Type = ''OCC'', ref_Value = v, ref_Domain = ''''\<rparr>, ii_Canonical = True, ii_ValidFrom = None, ii_ValidBefore = None\<rparr>"

text \<open>One symbol per factor from the stored strike; the first that cannot be built ends the loop.\<close>

fun mint_loop :: "decimal \<Rightarrow> ParsedOption \<Rightarrow> factor list \<Rightarrow> (StockSplit \<times> decimal) + OptionMint list" where
  "mint_loop strike parsed [] = Inr []"
| "mint_loop strike parsed (f # fs) =
     (let adjusted = AdjustStrike strike (fc_num f) (fc_den f) in
      case BuildOCCCompact (po_Symbol parsed) (po_Expiry parsed) (po_PutCall parsed) adjusted of
        None \<Rightarrow> Inl (fc_split f, adjusted)
      | Some occ \<Rightarrow> sum_then (mint_loop strike parsed fs) (\<lambda>ms.
          Inr (\<lparr>om_ExDate = sp_ExDate (fc_split f), om_OCC = occ_name occ, om_Strike = adjusted\<rparr> # ms)))"

definition currentOCC :: "IdentifierInput list \<Rightarrow> string" where
  "currentOCC ns = (case List.find (\<lambda>n. is_OCC n \<and> ii_ValidBefore n = None) ns of None \<Rightarrow> '''' | Some n \<Rightarrow> ref_Value (ii_Ref n))"

definition applyOptionSplits ::
    "Env \<Rightarrow> (decimal \<Rightarrow> string) \<Rightarrow> Instrument \<Rightarrow> IdentifierInput list \<Rightarrow> factor list \<Rightarrow> Master \<Rightarrow> (Master \<times> bool) option" where
  "applyOptionSplits env shown opt idents factors m =
     (if factors = [] then None
      else let s = fc_split (last factors); occ = currentOCC idents in
        case (in_Strike opt, in_Expiry opt, in_PutCall opt) of
          (Some strike, Some _, Some _) \<Rightarrow>
            if occ = '''' then Some (m, False)
            else (case ParseOptionTicker (env_parse_dec env) occ of
                None \<Rightarrow> Some (insertUnhandledOptionSplit env opt s (''unparseable OCC identifier '' @ quoted occ) m, False)
              | Some parsed \<Rightarrow> (case mint_loop strike parsed factors of
                    Inl (s', x) \<Rightarrow> Some (insertUnhandledOptionSplit env opt s' (''cannot build OCC with adjusted strike '' @ shown x) m, False)
                  | Inr mints \<Rightarrow> (case ApplyOptionSplit env \<lparr>op_InstrumentID = in_ID opt, op_OldOCCValue = occ, op_Mints = mints\<rparr> m of
                        Inl _ \<Rightarrow> Some (m, False)
                      | Inr m' \<Rightarrow> Some (m', True))))
        | _ \<Rightarrow> Some (m, False))"

fun process_loop ::
    "Env \<Rightarrow> (decimal \<Rightarrow> string) \<Rightarrow> PendingOptionSplits list \<Rightarrow> blocked \<Rightarrow> Instrument list \<Rightarrow> Master
     \<Rightarrow> (Master \<times> Instrument list \<times> blocked) option" where
  "process_loop env shown [] bl adjusted m = Some (m, adjusted, bl)"
| "process_loop env shown (p # ps) bl adjusted m =
     (let (factors, unhandled, bl') = scan_splits (env_parse_dec env) (ps_Option p) (ps_Splits p) 1 1 [] False bl in
      if unhandled then process_loop env shown ps bl' adjusted m
      else (case applyOptionSplits env shown (ps_Option p) (ps_Identifiers p) factors m of
          None \<Rightarrow> None
        | Some (m', ok) \<Rightarrow> process_loop env shown ps bl' (if ok then adjusted @ [ps_Option p] else adjusted) m'))"

definition ProcessPendingOptionSplits ::
    "Env \<Rightarrow> (decimal \<Rightarrow> string) \<Rightarrow> string \<Rightarrow> Master \<Rightarrow> (Master \<times> Instrument list) option" where
  "ProcessPendingOptionSplits env shown underlyingID m = (case ListPendingOptionSplits env underlyingID m of
       Inl _ \<Rightarrow> Some (m, [])
     | Inr pending \<Rightarrow> (case process_loop env shown pending [] [] m of
           None \<Rightarrow> None
         | Some (m', adjusted, bl) \<Rightarrow>
             Some (fold (\<lambda>(_, b). insertUnhandledUnderlyingSplit env (sp_InstrumentID (bs_split b)) (bs_options b) (bs_split b) ''non-standard split ratio'') bl m',
                   adjusted)))"

end
