(* ===== verification/Option_Splits_Correct.thy ===== *)
theory Option_Splits_Correct
  imports Option_Splits
begin

text \<open>
  What the restatement of options promises: the pass always returns and keeps the constraints of the
  store; an option it restates carries exactly one symbol in force, dated at the last split, has a
  strike one rounding away from the exact one, and is off the work list. And what it does to others:
  whoever holds a symbol about to be minted is merged away, be it a contract of its own.
\<close>

subsection \<open>Rounding\<close>

lemma round_half_away_within: "\<bar>of_int (round_half_away x) - x\<bar> \<le> 1 / 2"
proof (cases "x < 0")
  case True
  have "of_int \<lfloor>- x + 1 / 2\<rfloor> \<le> - x + 1 / 2" "- x + 1 / 2 < of_int \<lfloor>- x + 1 / 2\<rfloor> + 1"
    using floor_correct [of "- x + 1 / 2"] by simp_all
  then have "- of_int \<lfloor>- x + 1 / 2\<rfloor> - x \<le> 1 / 2" "- (- of_int \<lfloor>- x + 1 / 2\<rfloor> - x) \<le> 1 / 2" by linarith+
  then show ?thesis using True unfolding round_half_away_def abs_le_iff by simp
next
  case False
  have "of_int \<lfloor>x + 1 / 2\<rfloor> \<le> x + 1 / 2" "x + 1 / 2 < of_int \<lfloor>x + 1 / 2\<rfloor> + 1"
    using floor_correct [of "x + 1 / 2"] by simp_all
  then have "of_int \<lfloor>x + 1 / 2\<rfloor> - x \<le> 1 / 2" "- (of_int \<lfloor>x + 1 / 2\<rfloor> - x) \<le> 1 / 2" by linarith+
  then show ?thesis using False unfolding round_half_away_def abs_le_iff by simp
qed

lemma AdjustStrike_within:
  assumes "num \<noteq> 0"
  shows "\<bar>AdjustStrike strike num den - strike * den / num\<bar> \<le> 1 / 2000"
proof -
  let ?x = "strike * den / num * 10 ^ StrikeScale"
  define e where "e = of_int (round_half_away ?x) - ?x"
  have "AdjustStrike strike num den - strike * den / num = e / 1000"
    using assms by (simp add: e_def AdjustStrike_def thousandths_def StrikeScale_def field_simps)
  moreover have "\<bar>e\<bar> \<le> 1 / 2" unfolding e_def by (rule round_half_away_within)
  then have "\<bar>e / 1000\<bar> \<le> 1 / 2000" by (simp add: abs_divide)
  ultimately show ?thesis by (simp only:)
qed

subsection \<open>The work list\<close>

lemma mm_build_entry:
  assumes "(k, vs) \<in> set (mm_build kvs)"
  shows "vs = map snd (filter (\<lambda>kv. fst kv = k) kvs)" "k \<in> fst ` set kvs"
proof -
  have "map_of (mm_build kvs) k = Some vs" using assms distinct_mm_build by (rule map_of_is_SomeI [rotated])
  then have "mm_get (mm_build kvs) k = vs" by (simp add: mm_get_def)
  then show "vs = map snd (filter (\<lambda>kv. fst kv = k) kvs)" by (simp add: mm_get_build)
  show "k \<in> fst ` set kvs" using assms keys_mm_build [of kvs] by force
qed

definition listed :: "Master \<Rightarrow> PendingOptionSplits \<Rightarrow> bool" where
  "listed m p \<longleftrightarrow> ps_Option p \<in> set (sm_instruments m) \<and> ps_Identifiers p = loadIdentifiers (in_ID (ps_Option p)) m
     \<and> set (ps_Splits p) = {s \<in> set (sm_splits m). split_pending m (ps_Option p) s}
     \<and> sorted (map sp_ExDate (ps_Splits p)) \<and> ps_Splits p \<noteq> []"

lemma pending_rows_set:
  "set (pending_rows inScope m) = {(in_ID i, s) | i s. i \<in> set (sm_instruments m) \<and> inScope i \<and> s \<in> set (sm_splits m) \<and> split_pending m i s}"
  by (auto simp: pending_rows_def)

lemma sorted_rows_filter:
  assumes "sorted (map (\<lambda>r. (fst r, sp_ExDate (snd r))) rows)"
  shows "sorted (map sp_ExDate (map snd (filter (\<lambda>r. fst r = k) rows)))"
  using assms by (induction rows) (auto simp: less_eq_prod_def)

lemma find_by_id:
  assumes "distinct (map in_ID xs)" "i \<in> set xs"
  shows "List.find (\<lambda>j. in_ID j = in_ID i) xs = Some i"
  using assms by (induction xs) auto

lemma ListPendingOptionSplits_listed:
  assumes "ListPendingOptionSplits env u m = Inr ps" "p \<in> set ps" "distinct (map in_ID (sm_instruments m))"
  shows "listed m p"
proof -
  from assms(1) obtain sc where ps: "ps = List.map_filter (\<lambda>(opt, splits). map_option
      (\<lambda>i. \<lparr>ps_Option = i, ps_Identifiers = loadIdentifiers opt m, ps_Splits = splits\<rparr>)
      (List.find (\<lambda>i. in_ID i = opt) (sm_instruments m))) (mm_build (pending_rows sc m))"
    by (auto simp: ListPendingOptionSplits_def sum_then_Inr Let_def)
  then obtain opt splits i where e: "(opt, splits) \<in> set (mm_build (pending_rows sc m))"
    and f: "List.find (\<lambda>i. in_ID i = opt) (sm_instruments m) = Some i"
    and p: "p = \<lparr>ps_Option = i, ps_Identifiers = loadIdentifiers opt m, ps_Splits = splits\<rparr>"
    using assms(2) by (auto simp: List.map_filter_def split: option.splits)
  note entry = mm_build_entry [OF e]
  from entry(2) obtain j where j: "j \<in> set (sm_instruments m)" "in_ID j = opt" "sc j"
    unfolding pending_rows_set by auto
  with find_by_id [OF assms(3) j(1)] f have i: "i = j" by simp
  have "set splits = {s. (opt, s) \<in> set (pending_rows sc m)}" unfolding entry(1) by force
  also have "\<dots> = {s \<in> set (sm_splits m). split_pending m i s}"
    unfolding pending_rows_set using j i assms(3) by (auto simp: distinct_map inj_on_def)
  finally have set: "set splits = {s \<in> set (sm_splits m). split_pending m i s}" .
  have "sorted (map (\<lambda>r. (fst r, sp_ExDate (snd r))) (pending_rows sc m))"
    unfolding pending_rows_def by (rule go_sort_sorted) simp
  then have "sorted (map sp_ExDate splits)" unfolding entry(1) by (rule sorted_rows_filter)
  moreover have "splits \<noteq> []" unfolding entry(1) using entry(2) by (auto simp: filter_empty_conv)
  ultimately show ?thesis using set j i by (simp add: listed_def p)
qed

subsection \<open>The transaction\<close>

text \<open>What every merge into an instrument keeps, the absorption of all holders keeps.\<close>

locale merge_keeper =
  fixes uid :: string and P :: "Master \<Rightarrow> bool"
  assumes merge: "P m \<Longrightarrow> h \<noteq> uid \<Longrightarrow> mergeInstruments uid h m = Inr m' \<Longrightarrow> P m'"
begin

lemma absorbDuplicateHolder_keeps:
  assumes "P m" "absorbDuplicateHolder uid idn m = Inr m'"
  shows "P m'"
proof -
  from assms(2) obtain holder where "(case holder of None \<Rightarrow> Inr m
      | Some h \<Rightarrow> if h = uid then Inr m else with_error (''absorb duplicate '' @ h @ '': '') (mergeInstruments uid h m)) = Inr m'"
    by (auto simp: absorbDuplicateHolder_def sum_then_Inr)
  then have "m' = m \<or> (\<exists>h. h \<noteq> uid \<and> mergeInstruments uid h m = Inr m')"
    by (cases holder) (auto simp: with_error_def split: if_splits sum.splits)
  then show ?thesis using assms(1) merge by blast
qed

lemma absorb_all_keeps: "P m \<Longrightarrow> absorb_all uid ns m = Inr m' \<Longrightarrow> P m'"
  by (induction ns arbitrary: m) (auto simp: sum_then_Inr intro: absorbDuplicateHolder_keeps)

end

text \<open>
  While holders are absorbed: the store keeps its constraints, instruments and splits only go away,
  those that stay keep their names, and the option keeps its terms.
\<close>

definition same_terms :: "Instrument \<Rightarrow> Instrument \<Rightarrow> bool" where
  "same_terms i j \<longleftrightarrow> in_AssetClass i = in_AssetClass j \<and> in_Expiry i = in_Expiry j"

definition absorbing :: "Env \<Rightarrow> Master \<Rightarrow> string \<Rightarrow> Master \<Rightarrow> bool" where
  "absorbing env m0 uid m \<longleftrightarrow> master_ok env m \<and> uid \<in> instrument_ids m \<and> instrument_ids m \<subseteq> instrument_ids m0
     \<and> sm_now m = sm_now m0 \<and> set (sm_splits m) \<subseteq> set (sm_splits m0)
     \<and> (\<forall>h \<in> instrument_ids m. h \<noteq> uid \<longrightarrow> names_of h m = names_of h m0)
     \<and> (\<forall>i \<in> set (sm_instruments m). \<exists>j \<in> set (sm_instruments m0). in_ID j = in_ID i \<and> same_terms i j)"

lemma absorbing_start: "master_ok env m \<Longrightarrow> uid \<in> instrument_ids m \<Longrightarrow> absorbing env m uid m"
  by (auto simp: absorbing_def same_terms_def)

lemma absorbing_merge:
  assumes a: "absorbing env m0 uid m" and h: "h \<noteq> uid" and run: "mergeInstruments uid h m = Inr m'"
  shows "absorbing env m0 uid m'"
proof -
  from a have ok: "master_ok env m" "uid \<in> instrument_ids m" by (simp_all add: absorbing_def)
  from mergeInstruments_Inr [OF ok h [symmetric], of m'] run
  have m': "h \<notin> set (sm_declared m)" "matches_unique (map (move_match uid h) (l_matches (sm_ledger m)))" "m' = merged uid h m" by simp_all
  have ok': "master_ok env m'" using merged_ok [OF ok h [symmetric] m'(1,2)] by (simp add: m'(3))
  have ids: "instrument_ids m' = instrument_ids m - {h}" by (simp only: m'(3) ids_merged)
  have names: "names_of k m' = names_of k m0" if "k \<in> instrument_ids m'" "k \<noteq> uid" for k
  proof -
    have "k \<in> instrument_ids m" "k \<noteq> h" using that(1) unfolding ids by blast+
    then have "names_of k m = names_of k m0" using a that(2) unfolding absorbing_def by blast
    then show ?thesis using that(2) \<open>k \<noteq> h\<close> by (simp add: m'(3) names_of_merged [OF h [symmetric]])
  qed
  have terms: "\<exists>j \<in> set (sm_instruments m0). in_ID j = in_ID i \<and> same_terms i j" if "i \<in> set (sm_instruments m')" for i
  proof -
    from that obtain i0 where i0: "i0 \<in> set (sm_instruments m)" "i = repoint_underlying uid h i0" by (auto simp: m'(3) merged_def)
    with a obtain j where "j \<in> set (sm_instruments m0)" "in_ID j = in_ID i0" "same_terms i0 j" by (auto simp: absorbing_def)
    then show ?thesis by (intro bexI [of _ j]) (simp_all add: i0(2) same_terms_def repoint_underlying_def)
  qed
  have frame: "sm_now m' = sm_now m" "set (sm_splits m') \<subseteq> set (sm_splits m)" by (auto simp: m'(3) merged_def)
  have "uid \<in> instrument_ids m'" using ok(2) h unfolding ids by blast
  moreover have "instrument_ids m' \<subseteq> instrument_ids m0" using a unfolding ids absorbing_def by blast
  moreover have "sm_now m' = sm_now m0" using frame(1) a by (simp add: absorbing_def)
  moreover have "set (sm_splits m') \<subseteq> set (sm_splits m0)" using frame(2) a by (auto simp: absorbing_def)
  ultimately show ?thesis unfolding absorbing_def using ok' names terms by blast
qed

interpretation absorbing: merge_keeper uid "absorbing env m0 uid" for env m0 uid
  by unfold_locales (rule absorbing_merge)

lemma clash_shorter:
  assumes "clash (ix_Name (close_row uid d x)) (ix_Name (close_row uid d y))"
    and "interval_ok (ix_Name x)" "interval_ok (ix_Name y)"
  shows "clash (ix_Name x) (ix_Name y)"
  using assms unfolding close_row_def clash_def overlapping_def starts_before_def
  by (auto split: if_splits option.splits)

lemma interval_closed:
  assumes "interval_ok (ix_Name x)" "\<not> (own_OCC uid x \<and> (case ii_ValidFrom (ix_Name x) of None \<Rightarrow> False | Some f \<Rightarrow> d \<le> f))"
  shows "interval_ok (ix_Name (close_row uid d x))"
  using assms by (auto simp: close_row_def interval_ok_def starts_before_def split: option.splits)

lemma names_ok_closed:
  assumes "names_ok xs" "\<forall>x \<in> set xs. \<not> (own_OCC uid x \<and> (case ii_ValidFrom (ix_Name x) of None \<Rightarrow> False | Some f \<Rightarrow> d \<le> f))"
  shows "names_ok (map (close_row uid d) xs)"
  using assms
proof (induction xs)
  case (Cons x xs)
  have "\<not> clash (ix_Name (close_row uid d x)) (ix_Name (close_row uid d y))" if "y \<in> set xs" for y
  proof -
    have "interval_ok (ix_Name y)" using that Cons.prems(1) by (simp add: names_ok_def list_all_iff)
    then show ?thesis using that Cons.prems(1) clash_shorter by (auto simp: names_ok_Cons)
  qed
  moreover have "interval_ok (ix_Name (close_row uid d x))"
    using Cons.prems interval_closed [of x uid d] by (simp add: names_ok_Cons)
  moreover have "names_ok (map (close_row uid d) xs)" using Cons by (simp add: names_ok_Cons)
  ultimately show ?case by (simp add: names_ok_Cons)
qed simp

definition closed_off :: "string \<Rightarrow> time \<Rightarrow> Master \<Rightarrow> Master" where
  "closed_off uid d m = close_open uid d (clear_window uid d m)"

lemma closed_off_frame [simp]:
  "sm_instruments (closed_off uid d m) = sm_instruments m" "sm_splits (closed_off uid d m) = sm_splits m"
  "sm_now (closed_off uid d m) = sm_now m" "sm_ledger (closed_off uid d m) = sm_ledger m"
  by (simp_all add: closed_off_def close_open_def clear_window_def)

lemma closed_off_ok:
  assumes "master_ok env m"
  shows "master_ok env (closed_off uid d m)"
proof -
  let ?ys = "filter (\<lambda>x. \<not> (own_OCC uid x \<and> (case ii_ValidFrom (ix_Name x) of None \<Rightarrow> False | Some f \<Rightarrow> d \<le> f))) (sm_idents m)"
  have eq: "closed_off uid d m = m\<lparr>sm_idents := map (close_row uid d) ?ys\<rparr>"
    by (simp add: closed_off_def close_open_def clear_window_def)
  have "names_ok ?ys" using assms by (intro names_ok_filter master_okD)
  then have "names_ok (map (close_row uid d) ?ys)" by (rule names_ok_closed) simp
  moreover have "ix_InstrumentID ` set (map (close_row uid d) ?ys) \<subseteq> ix_InstrumentID ` set (sm_idents m)"
    by (auto simp: close_row_def)
  moreover have "ix_InstrumentID ` set (sm_idents m) \<subseteq> instrument_ids m" using assms by (simp add: master_ok_def refs_ok_def)
  ultimately show ?thesis unfolding eq by (intro master_ok_names [OF assms]) (blast intro: order_trans)+
qed

lemma mint_names_rows:
  assumes "mint_names uid ns m = Inr m'"
  shows "m' = m\<lparr>sm_idents := sm_idents m @ carried uid ns\<rparr>" "ns \<noteq> [] \<longrightarrow> uid \<in> instrument_ids m"
    "\<forall>n \<in> set ns. \<forall>x \<in> set (sm_idents m). \<not> clash (ix_Name x) n"
  using assms
proof (induction ns arbitrary: m)
  case (Cons n ns)
  {
    case 1
    then obtain m1 where "insertIdentifierRow uid n m = Inr m1" "mint_names uid ns m1 = Inr m'" by (auto split: sum.splits)
    then show ?case using Cons.IH(1) [of m1] by (simp add: insertIdentifierRow_Inr)
  next
    case 2
    then show ?case by (auto simp: insertIdentifierRow_Inr split: sum.splits)
  next
    case 3
    then obtain m1 where "insertIdentifierRow uid n m = Inr m1" "mint_names uid ns m1 = Inr m'" by (auto split: sum.splits)
    then show ?case using Cons.IH(3) [of m1] by (auto simp: insertIdentifierRow_Inr)
  }
qed simp_all

lemma mint_names_ok: "mint_names uid ns m = Inr m' \<Longrightarrow> master_ok env m \<Longrightarrow> master_ok env m'"
  by (induction ns arbitrary: m) (auto split: sum.splits intro: insertion_ok)

lemma mergeInstruments_ids:
  assumes "mergeInstruments s a m = Inr m'"
  shows "instrument_ids m' \<subseteq> instrument_ids m"
proof (cases "s = a")
  case True
  then show ?thesis using assms by (simp add: mergeInstruments_def)
next
  case False
  let ?w = "m\<lparr>sm_ledger := move_txs s a (sm_ledger m), sm_idents := filter (\<lambda>x. ix_InstrumentID x \<noteq> a) (sm_idents m)\<rparr>"
  from assms False obtain m1 where re: "reinsert s (names_of a m) ?w = Inr m1"
    and del: "delete_instrument a (m1\<lparr>sm_instruments := map (repoint_underlying s a) (sm_instruments m1)\<rparr>) = Inr m'"
    by (auto simp: mergeInstruments_def Let_def sum_then_Inr split: if_splits)
  have "only_names ?w m1" using only_names_writer.reinsert_keeps re only_names_refl by blast
  then have i: "sm_instruments m1 = sm_instruments m" by (auto simp: only_names_def)
  from del have "sm_instruments m' = filter (\<lambda>i. in_ID i \<noteq> a) (map (repoint_underlying s a) (sm_instruments m))"
    by (auto simp: delete_instrument_def i split: if_splits)
  then show ?thesis by auto
qed

interpretation absent: merge_keeper uid "\<lambda>m. uid \<notin> instrument_ids m" for uid
proof unfold_locales
  fix m h m'
  assume "uid \<notin> instrument_ids m" "mergeInstruments uid h m = Inr m'"
  then show "uid \<notin> instrument_ids m'" using contra_subsetD [OF mergeInstruments_ids] by simp
qed

definition open_OCC :: "string \<Rightarrow> Master \<Rightarrow> IdentifierInput list" where
  "open_OCC uid m = filter (\<lambda>n. is_OCC n \<and> ii_ValidBefore n = None) (names_of uid m)"

lemma close_row_own [simp]: "own_OCC uid (close_row uid d x) = own_OCC uid x"
  by (simp add: close_row_def own_OCC_def is_OCC_def)

lemma close_row_closed: "own_OCC uid x \<Longrightarrow> ii_ValidBefore (ix_Name (close_row uid d x)) \<noteq> None"
  by (simp add: close_row_def)

lemma names_of_closed_off: "open_OCC uid (closed_off uid d m) = []"
proof -
  have "\<not> (own_OCC uid x \<and> ii_ValidBefore (ix_Name x) = None)" if "x \<in> set (sm_idents (closed_off uid d m))" for x
  proof -
    from that obtain y where "x = close_row uid d y" by (auto simp: closed_off_def close_open_def)
    then show ?thesis using close_row_closed [of uid y d] by auto
  qed
  then show ?thesis by (auto simp: open_OCC_def names_of_def own_OCC_def filter_empty_conv)
qed

lemma names_of_carried: "sm_idents m' = sm_idents m @ carried uid ns \<Longrightarrow> names_of uid m' = names_of uid m @ ns"
  by (simp add: names_of_def carried_def filter_map comp_def)

lemma is_OCC_dated [simp]: "is_OCC (n\<lparr>ii_ValidFrom := f\<rparr>) = is_OCC n" "is_OCC (n\<lparr>ii_ValidBefore := f\<rparr>) = is_OCC n"
  by (simp_all add: is_OCC_def)

definition fresh_mint :: "OptionMint \<Rightarrow> bool" where
  "fresh_mint x \<longleftrightarrow> is_OCC (om_OCC x) \<and> ii_ValidBefore (om_OCC x) = None"

lemma open_mints:
  "list_all fresh_mint mints \<Longrightarrow> mints \<noteq> [] \<Longrightarrow> filter (\<lambda>n. is_OCC n \<and> ii_ValidBefore n = None) (dated_mints mints)
     = [(om_OCC (last mints))\<lparr>ii_ValidFrom := Some (om_ExDate (last mints))\<rparr>]"
  by (induction mints rule: dated_mints.induct) (simp_all add: fresh_mint_def)

lemma length_dated_mints [simp]: "length (dated_mints mints) = length mints"
  by (induction mints rule: dated_mints.induct) simp_all

lemma dated_mints_Nil [simp]: "dated_mints mints = [] \<longleftrightarrow> mints = []"
  by (cases mints rule: dated_mints.cases) simp_all

lemma ApplyOptionSplit_steps:
  assumes run: "ApplyOptionSplit env params m = Inr m'" and uid: "env_parse_uuid env (op_InstrumentID params) = Some uid"
    and ok: "master_ok env m"
  obtains m1 m2 where "absorbing env m uid m1"
    "mint_names uid (dated_mints (op_Mints params)) (closed_off uid (om_ExDate (hd (op_Mints params))) m1) = Inr m2"
    "update_instrument uid (\<lambda>_. True) (\<lambda>i. i\<lparr>in_Strike := Some (om_Strike (last (op_Mints params)))\<rparr>) m2 = Inr m'"
    "op_Mints params \<noteq> []"
proof -
  from run uid obtain m1 m2 where ne: "op_Mints params \<noteq> []" and ab: "absorb_all uid (dated_mints (op_Mints params)) m = Inr m1"
    and mint: "mint_names uid (dated_mints (op_Mints params)) (closed_off uid (om_ExDate (hd (op_Mints params))) m1) = Inr m2"
    and up: "update_instrument uid (\<lambda>_. True) (\<lambda>i. i\<lparr>in_Strike := Some (om_Strike (last (op_Mints params)))\<rparr>) m2 = Inr m'"
    by (auto simp: ApplyOptionSplit_def Let_def sum_then_Inr of_option_def with_error_def UpdateInstrumentStrike_def closed_off_def
        split: if_splits sum.splits)
  have "uid \<in> instrument_ids m1" using mint_names_rows(2) [OF mint] ne by simp
  then have "uid \<in> instrument_ids m" using absent.absorb_all_keeps ab by blast
  then have "absorbing env m uid m1" using absorbing.absorb_all_keeps ab absorbing_start ok by blast
  then show thesis using that mint up ne by blast
qed

lemma closed_off_others:
  assumes "x \<in> set (sm_idents m)" "ix_InstrumentID x \<noteq> uid"
  shows "x \<in> set (sm_idents (closed_off uid d m))"
proof -
  have "\<not> own_OCC uid x" using assms(2) by (simp add: own_OCC_def)
  then have "close_row uid d x = x" "x \<in> set (sm_idents (clear_window uid d m))" using assms(1) by (simp_all add: close_row_def clear_window_def)
  then show ?thesis unfolding closed_off_def close_open_def by (auto intro: rev_image_eqI)
qed

lemma names_of_row: "x \<in> set (sm_idents m) \<longleftrightarrow> ix_Name x \<in> set (names_of (ix_InstrumentID x) m)"
proof
  assume "ix_Name x \<in> set (names_of (ix_InstrumentID x) m)"
  then obtain y where "y \<in> set (sm_idents m)" "ix_InstrumentID y = ix_InstrumentID x" "ix_Name y = ix_Name x" by (auto simp: names_of_def)
  then show "x \<in> set (sm_idents m)" by (metis Identifier.equality unit.exhaust)
qed (auto simp: names_of_def)

lemma ApplyOptionSplit_ok:
  assumes run: "ApplyOptionSplit env params m = Inr m'" and uid: "env_parse_uuid env (op_InstrumentID params) = Some uid"
    and ok: "master_ok env m"
  shows "master_ok env m'" "uid \<in> instrument_ids m'" "sm_now m' = sm_now m" "set (sm_splits m') \<subseteq> set (sm_splits m)"
    "instrument_ids m' \<subseteq> instrument_ids m"
    "open_OCC uid m' = filter (\<lambda>n. is_OCC n \<and> ii_ValidBefore n = None) (dated_mints (op_Mints params))"
    "\<And>i. i \<in> set (sm_instruments m') \<Longrightarrow> in_ID i = uid \<Longrightarrow> in_Strike i = Some (om_Strike (last (op_Mints params)))
      \<and> (\<exists>j \<in> set (sm_instruments m). in_ID j = uid \<and> same_terms i j)"
    "\<And>x n. x \<in> set (sm_idents m) \<Longrightarrow> n \<in> set (dated_mints (op_Mints params)) \<Longrightarrow> clash (ix_Name x) n
      \<Longrightarrow> ix_InstrumentID x \<noteq> uid \<Longrightarrow> ix_InstrumentID x \<notin> instrument_ids m'"
proof -
  let ?d = "om_ExDate (hd (op_Mints params))" and ?ns = "dated_mints (op_Mints params)"
  let ?f = "\<lambda>i. i\<lparr>in_Strike := Some (om_Strike (last (op_Mints params)))\<rparr>"
  obtain m1 m2 where ab: "absorbing env m uid m1" and mint: "mint_names uid ?ns (closed_off uid ?d m1) = Inr m2"
    and up: "update_instrument uid (\<lambda>_. True) ?f m2 = Inr m'" using ApplyOptionSplit_steps [OF run uid ok] by blast
  have "master_ok env m1" using ab by (simp add: absorbing_def)
  then have ok2: "master_ok env m2" using mint_names_ok mint closed_off_ok by blast
  note u = update_instrument_ok [OF up ok2]
  note rows = mint_names_rows [OF mint]
  have m2: "sm_instruments m2 = sm_instruments m1" "sm_splits m2 = sm_splits m1" "sm_now m2 = sm_now m1" by (simp_all add: rows(1))
  have m': "m' = m2\<lparr>sm_instruments := map (\<lambda>i. if in_ID i = uid then ?f i else i) (sm_instruments m2)\<rparr>"
    using up by (auto simp: update_instrument_def Let_def split: if_splits)
  have ids: "instrument_ids m' = instrument_ids m1" using u m2 by simp
  show "master_ok env m'" using u by simp
  show "uid \<in> instrument_ids m'" "instrument_ids m' \<subseteq> instrument_ids m" unfolding ids using ab by (simp_all add: absorbing_def)
  show "sm_now m' = sm_now m" "set (sm_splits m') \<subseteq> set (sm_splits m)" using ab by (simp_all add: m' m2 absorbing_def)
  have "names_of uid m' = names_of uid (closed_off uid ?d m1) @ ?ns" by (rule names_of_carried) (simp add: m' rows(1))
  then show "open_OCC uid m' = filter (\<lambda>n. is_OCC n \<and> ii_ValidBefore n = None) ?ns"
    using names_of_closed_off [of uid ?d m1] by (simp add: open_OCC_def)
  show "in_Strike i = Some (om_Strike (last (op_Mints params))) \<and> (\<exists>j \<in> set (sm_instruments m). in_ID j = uid \<and> same_terms i j)"
    if "i \<in> set (sm_instruments m')" "in_ID i = uid" for i
  proof -
    from that obtain k where k: "k \<in> set (sm_instruments m1)" "in_ID k = uid" "i = ?f k" by (auto simp: m' m2 split: if_splits)
    have "\<forall>k \<in> set (sm_instruments m1). \<exists>j \<in> set (sm_instruments m). in_ID j = in_ID k \<and> same_terms k j"
      using ab unfolding absorbing_def by (elim conjE)
    with k(1,2) obtain j where j: "j \<in> set (sm_instruments m)" "in_ID j = uid" "same_terms k j" by metis
    then have "same_terms i j" using k(3) by (simp add: same_terms_def)
    then show ?thesis using k(3) j by auto
  qed
  show "ix_InstrumentID x \<notin> instrument_ids m'"
    if x: "x \<in> set (sm_idents m)" and n: "n \<in> set ?ns" "clash (ix_Name x) n" and o: "ix_InstrumentID x \<noteq> uid" for x n
  proof
    assume "ix_InstrumentID x \<in> instrument_ids m'"
    then have "ix_InstrumentID x \<in> instrument_ids m1" unfolding ids .
    then have "names_of (ix_InstrumentID x) m1 = names_of (ix_InstrumentID x) m" using ab o unfolding absorbing_def by blast
    then have "x \<in> set (sm_idents m1)" using x unfolding names_of_row [of x m] names_of_row [of x m1] by (simp only:)
    then have "x \<in> set (sm_idents (closed_off uid ?d m1))" using o by (rule closed_off_others)
    then show False using rows(3) n by blast
  qed
qed

subsection \<open>Factors and mints\<close>

abbreviation whole :: "StockSplit \<Rightarrow> bool" where
  "whole s \<equiv> IsWholeForwardSplit (sp_SplitFrom s) (sp_SplitTo s)"

fun cumulative :: "(string \<Rightarrow> decimal option) \<Rightarrow> decimal \<Rightarrow> decimal \<Rightarrow> StockSplit list \<Rightarrow> factor list" where
  "cumulative pd num den [] = []"
| "cumulative pd num den (s # ss) =
     (let num' = num * dec_or_zero pd (sp_SplitTo s); den' = den * dec_or_zero pd (sp_SplitFrom s) in
      \<lparr>fc_split = s, fc_num = num', fc_den = den'\<rparr> # cumulative pd num' den' ss)"

lemma scan_splits_unhandled:
  "fst (snd (scan_splits pd opt ss num den fs unhandled bl)) \<longleftrightarrow> unhandled \<or> \<not> list_all whole ss"
  by (induction ss arbitrary: num den fs unhandled bl) (auto simp: Let_def)

lemma scan_splits_whole:
  "list_all whole ss \<Longrightarrow> scan_splits pd opt ss num den fs unhandled bl = (fs @ cumulative pd num den ss, unhandled, bl)"
  by (induction ss arbitrary: num den fs) (auto simp: Let_def)

lemma scan_splits_handled:
  assumes "scan_splits pd opt ss 1 1 [] False bl = (fs, False, bl')"
  shows "list_all whole ss \<and> fs = cumulative pd 1 1 ss \<and> bl' = bl"
proof -
  have "list_all whole ss" using scan_splits_unhandled [of pd opt ss 1 1 "[]" False bl] assms by simp
  then show ?thesis using scan_splits_whole [of ss pd opt 1 1 "[]" False bl] assms by simp
qed

lemma cumulative_splits [simp]: "map fc_split (cumulative pd num den ss) = ss"
  by (induction ss arbitrary: num den) (auto simp: Let_def)

lemma cumulative_Nil [simp]: "cumulative pd num den ss = [] \<longleftrightarrow> ss = []"
  by (cases ss) (auto simp: Let_def)

lemma cumulative_last:
  "ss \<noteq> [] \<Longrightarrow> fc_num (last (cumulative pd num den ss)) = num * prod_list (map (\<lambda>s. dec_or_zero pd (sp_SplitTo s)) ss)
     \<and> fc_den (last (cumulative pd num den ss)) = den * prod_list (map (\<lambda>s. dec_or_zero pd (sp_SplitFrom s)) ss)"
  by (induction ss arbitrary: num den) (auto simp: Let_def mult.assoc)

lemma mint_loop_mints:
  "mint_loop strike parsed fs = Inr mints \<Longrightarrow> list_all fresh_mint mints
     \<and> map om_ExDate mints = map (\<lambda>f. sp_ExDate (fc_split f)) fs \<and> map om_Strike mints = map (\<lambda>f. AdjustStrike strike (fc_num f) (fc_den f)) fs"
proof (induction fs arbitrary: mints)
  case (Cons f fs)
  from Cons.prems obtain occ ms where "mint_loop strike parsed fs = Inr ms"
    "mints = \<lparr>om_ExDate = sp_ExDate (fc_split f), om_OCC = occ_name occ, om_Strike = AdjustStrike strike (fc_num f) (fc_den f)\<rparr> # ms"
    by (auto simp: Let_def sum_then_Inr split: option.splits)
  then show ?case using Cons.IH by (simp add: fresh_mint_def occ_name_def is_OCC_def)
qed simp

lemma sorted_le_last: "sorted (map f xs) \<Longrightarrow> x \<in> set xs \<Longrightarrow> f x \<le> f (last xs)"
  by (induction xs rule: rev_induct) (auto simp: sorted_append)

text \<open>What a restatement that succeeds has run.\<close>

lemma restated_run:
  assumes "applyOptionSplits env shown opt idents fs m = Some (m', True)"
  obtains strike parsed mints where "in_Strike opt = Some strike" "mint_loop strike parsed fs = Inr mints"
    "ApplyOptionSplit env \<lparr>op_InstrumentID = in_ID opt, op_OldOCCValue = currentOCC idents, op_Mints = mints\<rparr> m = Inr m'" "fs \<noteq> []"
proof -
  from assms obtain strike parsed where "fs \<noteq> []" "in_Strike opt = Some strike"
    and run: "(case mint_loop strike parsed fs of
                    Inl (s', x) \<Rightarrow> Some (insertUnhandledOptionSplit env opt s' (''cannot build OCC with adjusted strike '' @ shown x) m, False)
                  | Inr mints \<Rightarrow> (case ApplyOptionSplit env \<lparr>op_InstrumentID = in_ID opt, op_OldOCCValue = currentOCC idents, op_Mints = mints\<rparr> m of
                        Inl _ \<Rightarrow> Some (m, False)
                      | Inr m' \<Rightarrow> Some (m', True))) = Some (m', True)"
    by (auto simp: applyOptionSplits_def Let_def split: if_splits option.splits)
  then show thesis using that by (auto split: sum.splits)
qed

lemma stored_id_parses:
  assumes "env_ok env" "master_ok env m" "i \<in> instrument_ids m"
  shows "env_parse_uuid env i = Some i"
proof -
  have "instrument_ids m \<subseteq> issued env (sm_ledger m)" using assms(2) by (simp add: master_ok_def)
  then have "i \<in> issued env (sm_ledger m)" using assms(3) by (rule subsetD)
  then show ?thesis using assms(1) by (auto simp: env_ok_def)
qed

text \<open>
  C15. An option that is restated is off the work list: it carries exactly one OCC symbol in force,
  valid from the date of its last pending split, the store keeps its constraints, and no split of its
  underlying is pending for it any more.
\<close>

theorem restated_option_off_the_work_list:
  assumes env: "env_ok env" and ok: "master_ok env m"
    and "ListPendingOptionSplits env u m = Inr ps" "p \<in> set ps"
    and scan: "scan_splits (env_parse_dec env) (ps_Option p) (ps_Splits p) 1 1 [] False bl = (factors, False, bl')"
    and run: "applyOptionSplits env shown (ps_Option p) (ps_Identifiers p) factors m = Some (m', True)"
  shows "master_ok env m' \<and> (\<exists>n. open_OCC (in_ID (ps_Option p)) m' = [n] \<and> ii_ValidFrom n = Some (sp_ExDate (last (ps_Splits p))))
    \<and> (\<forall>i \<in> set (sm_instruments m'). \<forall>s \<in> set (sm_splits m'). in_ID i = in_ID (ps_Option p)
         \<longrightarrow> in_UnderlyingID (ps_Option p) = Some (sp_InstrumentID s) \<longrightarrow> \<not> split_pending m' i s)"
proof -
  let ?o = "ps_Option p"
  let ?uid = "in_ID ?o" and ?last = "sp_ExDate (last (ps_Splits p))"
  have distinct: "distinct (map in_ID (sm_instruments m))" using ok by (simp add: master_ok_def)
  from ListPendingOptionSplits_listed [OF assms(3,4) this] have l: "listed m p" .
  from restated_run [OF run] obtain strike parsed mints where mints: "mint_loop strike parsed factors = Inr mints"
    and app: "ApplyOptionSplit env \<lparr>op_InstrumentID = ?uid, op_OldOCCValue = currentOCC (ps_Identifiers p), op_Mints = mints\<rparr> m = Inr m'"
    by metis
  have fs: "factors = cumulative (env_parse_dec env) 1 1 (ps_Splits p)" using scan_splits_handled [OF scan] by simp
  note mm = mint_loop_mints [OF mints]
  have "map (\<lambda>f. sp_ExDate (fc_split f)) factors = map sp_ExDate (map fc_split factors)" by simp
  then have dates: "map om_ExDate mints = map sp_ExDate (ps_Splits p)" using mm by (simp add: fs del: map_map)
  have ne: "mints \<noteq> []" using l dates by (auto simp: listed_def)
  have last: "om_ExDate (last mints) = ?last"
    using dates ne l by (metis last_map listed_def)
  have "?uid \<in> instrument_ids m" using l by (simp add: listed_def)
  then have uid: "env_parse_uuid env ?uid = Some ?uid" by (rule stored_id_parses [OF env ok])
  note facts = ApplyOptionSplit_ok [OF app _ ok, of ?uid, simplified, OF uid]
  have occ: "open_OCC ?uid m' = [(om_OCC (last mints))\<lparr>ii_ValidFrom := Some ?last\<rparr>]"
    using facts(6) open_mints [of mints] mm ne last by simp
  then have vf: "occ_valid_from ?uid m' = Some ?last"
    unfolding occ_valid_from_def open_OCC_def [symmetric] by (simp add: List.map_filter_def latest_of_def)
  have "\<not> split_pending m' i s"
    if i: "i \<in> set (sm_instruments m')" "in_ID i = ?uid" and s: "s \<in> set (sm_splits m')" "in_UnderlyingID ?o = Some (sp_InstrumentID s)" for i s
  proof
    assume pend: "split_pending m' i s"
    then have later: "?last < sp_ExDate s" by (simp add: split_pending_def vf COALESCE_def i(2))
    from facts(7) [OF i] obtain j where j: "j \<in> set (sm_instruments m)" "in_ID j = ?uid" "same_terms i j" by blast
    then have "j = ?o" using distinct l by (auto simp: listed_def distinct_map inj_on_def)
    then have terms: "in_AssetClass ?o = in_AssetClass i" "in_Expiry ?o = in_Expiry i" using j(3) by (simp_all add: same_terms_def)
    have "last (ps_Splits p) \<in> set (ps_Splits p)" using l unfolding listed_def by (intro last_in_set) (elim conjE)
    then have "split_pending m ?o (last (ps_Splits p))" using l by (auto simp: listed_def)
    then have "split_pending m ?o s" using pend later terms s(2) facts(3)
      by (auto simp: split_pending_def CURRENT_DATE_def split: option.splits)
    then have "s \<in> set (ps_Splits p)" using l s(1) facts(4) by (auto simp: listed_def)
    then have "sp_ExDate s \<le> ?last" using l sorted_le_last by (metis listed_def)
    then show False using later by simp
  qed
  then show ?thesis using facts(1) occ by auto
qed

definition shares_ratio :: "StockSplit \<Rightarrow> decimal" where
  "shares_ratio s = dec_or_zero Rat_SetString (sp_SplitTo s) / dec_or_zero Rat_SetString (sp_SplitFrom s)"

lemma whole_positive: "whole s \<Longrightarrow> 0 < dec_or_zero Rat_SetString (sp_SplitTo s) \<and> 0 < dec_or_zero Rat_SetString (sp_SplitFrom s)"
  by (auto simp: IsWholeForwardSplit_def dec_or_zero_def split: option.splits)

lemma prod_ratio:
  assumes "list_all whole ss"
  shows "prod_list (map (\<lambda>s. dec_or_zero Rat_SetString (sp_SplitTo s)) ss) > 0
    \<and> prod_list (map shares_ratio ss) = prod_list (map (\<lambda>s. dec_or_zero Rat_SetString (sp_SplitTo s)) ss)
        / prod_list (map (\<lambda>s. dec_or_zero Rat_SetString (sp_SplitFrom s)) ss)"
  using assms
proof (induction ss)
  case (Cons s ss)
  then show ?case using whole_positive [of s] by (simp add: shares_ratio_def)
qed simp

text \<open>
  A restated strike is one rounding away from the exact one, however many splits are pending: where
  \<open>decimal\<close> and \<open>big.Rat\<close> read the ratios alike, the strike an option ends with is within half a
  thousandth of its stored strike divided by the product of the ratios.
\<close>

theorem restated_strike_is_rounded_once:
  assumes env: "env_ok env" and ok: "master_ok env m" and opt: "in_ID opt \<in> instrument_ids m" and "in_Strike opt = Some strike"
    and read: "\<forall>s \<in> set splits. env_parse_dec env (sp_SplitTo s) = Rat_SetString (sp_SplitTo s)
      \<and> env_parse_dec env (sp_SplitFrom s) = Rat_SetString (sp_SplitFrom s)"
    and scan: "scan_splits (env_parse_dec env) opt splits 1 1 [] False bl = (factors, False, bl')"
    and run: "applyOptionSplits env shown opt idents factors m = Some (m', True)"
    and "i \<in> set (sm_instruments m')" "in_ID i = in_ID opt"
  shows "\<exists>x. in_Strike i = Some x \<and> \<bar>x - strike / prod_list (map shares_ratio splits)\<bar> \<le> 1 / 2000"
proof -
  from restated_run [OF run] assms(4) obtain parsed mints where mints: "mint_loop strike parsed factors = Inr mints"
    and app: "ApplyOptionSplit env \<lparr>op_InstrumentID = in_ID opt, op_OldOCCValue = currentOCC idents, op_Mints = mints\<rparr> m = Inr m'"
    and ne: "factors \<noteq> []" by (metis option.inject)
  have fs: "list_all whole splits" "factors = cumulative (env_parse_dec env) 1 1 splits" using scan_splits_handled [OF scan] by simp_all
  have ss: "splits \<noteq> []" using ne fs(2) by simp
  let ?n = "prod_list (map (\<lambda>s. dec_or_zero Rat_SetString (sp_SplitTo s)) splits)"
  let ?d = "prod_list (map (\<lambda>s. dec_or_zero Rat_SetString (sp_SplitFrom s)) splits)"
  have agree: "map (\<lambda>s. dec_or_zero (env_parse_dec env) (sp_SplitTo s)) splits = map (\<lambda>s. dec_or_zero Rat_SetString (sp_SplitTo s)) splits"
    "map (\<lambda>s. dec_or_zero (env_parse_dec env) (sp_SplitFrom s)) splits = map (\<lambda>s. dec_or_zero Rat_SetString (sp_SplitFrom s)) splits"
    using read by (simp_all add: dec_or_zero_def)
  have last: "fc_num (last factors) = ?n" "fc_den (last factors) = ?d"
    using cumulative_last [OF ss, of "env_parse_dec env" 1 1] unfolding fs(2) agree by simp_all
  have "om_Strike (last mints) = AdjustStrike strike (fc_num (last factors)) (fc_den (last factors))"
    using mint_loop_mints [OF mints] ne by (metis (no_types, lifting) last_map list.map_disc_iff)
  then have strike: "om_Strike (last mints) = AdjustStrike strike ?n ?d" by (simp add: last)
  have "env_parse_uuid env (in_ID opt) = Some (in_ID opt)" by (rule stored_id_parses [OF env ok opt])
  from ApplyOptionSplit_ok(7) [OF app _ ok, of "in_ID opt" i] this assms(8,9) have "in_Strike i = Some (AdjustStrike strike ?n ?d)"
    by (simp add: strike)
  moreover have "\<bar>AdjustStrike strike ?n ?d - strike * ?d / ?n\<bar> \<le> 1 / 2000"
    using prod_ratio [OF fs(1)] by (intro AdjustStrike_within) simp
  ultimately show ?thesis using prod_ratio [OF fs(1)] by simp
qed

text \<open>
  Restating an option takes every symbol it mints from whoever carries it: an instrument that holds
  a minted symbol over part of the minted interval is gone afterwards, merged into the option. The
  holder may be another contract of the same underlying whose own restatement is still to come.
\<close>

theorem restatement_absorbs_every_holder:
  assumes "ApplyOptionSplit env params m = Inr m'" "env_parse_uuid env (op_InstrumentID params) = Some uid" "master_ok env m"
    and "x \<in> set (sm_idents m)" "n \<in> set (dated_mints (op_Mints params))" "ii_Ref (ix_Name x) = ii_Ref n"
    and "names_on d (ix_Name x)" "names_on d n" "ix_InstrumentID x \<noteq> uid"
  shows "ix_InstrumentID x \<in> instrument_ids m \<and> ix_InstrumentID x \<notin> instrument_ids m'"
proof -
  have "clash (ix_Name x) n" using names_on_clash assms(6-8) by blast
  from ApplyOptionSplit_ok(8) [OF assms(1-5) this assms(9)] have "ix_InstrumentID x \<notin> instrument_ids m'" .
  moreover have "ix_InstrumentID ` set (sm_idents m) \<subseteq> instrument_ids m" using assms(3) by (simp add: master_ok_def refs_ok_def)
  ultimately show ?thesis using assms(4) by (metis imageI subsetD)
qed

subsection \<open>The whole pass\<close>

lemma raise_event_ok: "master_ok env m \<Longrightarrow> master_ok env (raise_event e e' m)"
proof -
  assume ok: "master_ok env m"
  have "master_ok env m'" if ins: "InsertUnhandledCorporateEvent e e' m = Inr m'" for m'
  proof -
    from ins have "m' = m \<or> (\<exists>u. u \<in> instrument_ids m \<and> m' = m\<lparr>sm_events := sm_events m @ [e'\<lparr>ue_InstrumentID := u, ue_Resolved := False\<rparr>]\<rparr>)"
      by (auto simp: InsertUnhandledCorporateEvent_def sum_then_Inr split: if_splits)
    then show ?thesis using ok by (elim disjE exE conjE) (simp_all add: master_ok_def refs_ok_def)
  qed
  then show ?thesis using ok by (simp add: raise_event_def split: sum.splits)
qed

lemma raise_all_ok:
  "master_ok env m \<Longrightarrow> master_ok env (fold (\<lambda>(_, b). insertUnhandledUnderlyingSplit env (sp_InstrumentID (bs_split b)) (bs_options b) (bs_split b) r) bl m)"
proof (induction bl arbitrary: m)
  case (Cons e bl)
  have "master_ok env (insertUnhandledUnderlyingSplit env u os s r m)" for u os s
    unfolding insertUnhandledUnderlyingSplit_def by (rule raise_event_ok [OF Cons.prems])
  then show ?case using Cons.IH by (simp add: split_beta)
qed simp

lemma applyOptionSplits_ok:
  assumes "fs \<noteq> []" "master_ok env m"
  shows "\<exists>m' ok. applyOptionSplits env shown opt idents fs m = Some (m', ok) \<and> master_ok env m'"
proof -
  have "master_ok env m'" if app: "ApplyOptionSplit env \<lparr>op_InstrumentID = in_ID opt, op_OldOCCValue = occ, op_Mints = mints\<rparr> m = Inr m'" for occ mints m'
  proof -
    from app obtain uid where "env_parse_uuid env (in_ID opt) = Some uid"
      by (auto simp: ApplyOptionSplit_def Let_def sum_then_Inr of_option_def split: if_splits option.splits)
    then show ?thesis using ApplyOptionSplit_ok(1) [OF app _ assms(2)] by simp
  qed
  then show ?thesis using assms
    by (auto simp: applyOptionSplits_def Let_def insertUnhandledOptionSplit_def raise_event_ok split: option.splits sum.splits)
qed

lemma process_loop_ok:
  assumes "\<forall>p \<in> set ps. ps_Splits p \<noteq> []" "master_ok env m"
  shows "\<exists>m' adj bl'. process_loop env shown ps bl adjusted m = Some (m', adj, bl') \<and> master_ok env m'"
  using assms
proof (induction ps arbitrary: bl adjusted m)
  case (Cons p ps)
  obtain fs unhandled bl' where scan: "scan_splits (env_parse_dec env) (ps_Option p) (ps_Splits p) 1 1 [] False bl = (fs, unhandled, bl')"
    by (metis prod_cases3)
  show ?case
  proof (cases unhandled)
    case True
    then show ?thesis using Cons scan by simp
  next
    case False
    with scan have "fs = cumulative (env_parse_dec env) 1 1 (ps_Splits p)"
      using scan_splits_handled [of "env_parse_dec env" "ps_Option p" "ps_Splits p" bl fs bl'] by simp
    then have "fs \<noteq> []" using Cons.prems(1) by simp
    from applyOptionSplits_ok [OF this Cons.prems(2)] obtain m1 ok where
      "applyOptionSplits env shown (ps_Option p) (ps_Identifiers p) fs m = Some (m1, ok)" "master_ok env m1" by blast
    then show ?thesis using Cons False scan by simp
  qed
qed simp

text \<open>
  C14. The pass over the pending options always returns, and leaves a store that satisfies its
  constraints: whatever the splits, names and texts are, it neither panics nor leaves two
  instruments under one name, and every event it raises is on a stored instrument.
\<close>

theorem ProcessPendingOptionSplits_returns:
  assumes "master_ok env m"
  shows "\<exists>m' adjusted. ProcessPendingOptionSplits env shown underlyingID m = Some (m', adjusted) \<and> master_ok env m'"
proof (cases "ListPendingOptionSplits env underlyingID m")
  case (Inr ps)
  have "distinct (map in_ID (sm_instruments m))" using assms by (simp add: master_ok_def)
  then have "\<forall>p \<in> set ps. ps_Splits p \<noteq> []" using ListPendingOptionSplits_listed [OF Inr] by (simp add: listed_def)
  from process_loop_ok [OF this assms] obtain m1 adj bl where
    m1: "process_loop env shown ps [] [] m = Some (m1, adj, bl)" "master_ok env m1" by blast
  then show ?thesis using Inr by (simp add: ProcessPendingOptionSplits_def raise_all_ok)
qed (use assms in \<open>simp add: ProcessPendingOptionSplits_def\<close>)

subsection \<open>A strike ladder\<close>

text \<open>
  Two calls of one underlying and one expiry, at 200 and at 100, and a 2:1 split in effect. What the
  first is renamed to is the name the second still carries.
\<close>

definition split_env :: Env where
  "split_env = demo_env\<lparr>env_parse_dec := Rat_SetString\<rparr>"

lemma split_env_ok: "env_ok split_env"
  using demo_env_ok by (simp add: env_ok_def split_env_def)

definition call_on :: "int \<Rightarrow> string" where
  "call_on cents = ''X'' @ occ_suffix \<lparr>cd_year = 2025, cd_month = 1, cd_day = 17\<rparr> CHR ''C'' cents"

definition ladder_option :: "string \<Rightarrow> decimal \<Rightarrow> Instrument" where
  "ladder_option i strike = new_instrument i ''OPTION'' '''' ''USD'' '''' '''' (Some ''aaa'') None None
     (Some \<lparr>of_Strike = strike, of_Expiry = 30 * day_length, of_PutCall = ''C''\<rparr>) 0"

definition ladder_split :: StockSplit where
  "ladder_split = \<lparr>sp_InstrumentID = ''aaa'', sp_ExDate = 10 * day_length, sp_SplitFrom = ''1'', sp_SplitTo = ''2'',
     sp_DataProvider = ''p'', sp_FirstKnownAt = 0\<rparr>"

definition ladder :: Master where
  "ladder = \<lparr>sm_instruments = [ladder_option ''a'' 200, ladder_option ''aa'' 100, plain_instrument ''aaa''],
     sm_idents = [\<lparr>ix_InstrumentID = ''a'', ix_Name = occ_name (call_on 200000)\<rparr>, \<lparr>ix_InstrumentID = ''aa'', ix_Name = occ_name (call_on 100000)\<rparr>],
     sm_exchanges = [], sm_splits = [ladder_split], sm_events = [], sm_declared = [],
     sm_ledger = \<lparr>l_txs = [demo_leg ''x'' 5], l_groups = [], l_matches = [], l_uuids = 3\<rparr>, sm_now = 20 * day_length\<rparr>"

lemma call_on_facts:
  "ParseOptionTicker pd (call_on 200000) = Some (occ_option ''X'' \<lparr>cd_year = 2025, cd_month = 1, cd_day = 17\<rparr> CHR ''C'' 200000)"
  "BuildOCCCompact ''X'' \<lparr>cd_year = 2025, cd_month = 1, cd_day = 17\<rparr> ''C'' 100 = Some (call_on 100000)"
  "call_on 200000 \<noteq> call_on 100000" "call_on 200000 \<noteq> ''''"
proof -
  let ?t = "\<lparr>cd_year = 2025, cd_month = 1, cd_day = 17\<rparr>"
  have h: "occ_date ?t" "put_call CHR ''C''" "wordly ''X''" "100 = thousandths 100000"
    "(200000 :: int) \<le> maxOCCStrike" "(100000 :: int) \<le> maxOCCStrike"
    by (simp_all add: is_upper_def occ_date_def days_in_def put_call_def maxOCCStrike_def thousandths_def StrikeScale_def)
  show "ParseOptionTicker pd (call_on 200000) = Some (occ_option ''X'' ?t CHR ''C'' 200000)"
    unfolding call_on_def by (rule ParseOptionTicker_occ [OF h(1,2) _ h(5,3)]) simp_all
  show "BuildOCCCompact ''X'' ?t ''C'' 100 = Some (call_on 100000)"
    unfolding call_on_def by (rule BuildOCCCompact_occ [OF h(3) _ _ h(1,2,4) _ h(6)]) simp_all
  have "digit_value (zero_padded 8 200000) \<noteq> digit_value (zero_padded 8 100000)"
    using zero_padded_facts(3) [of 200000 8] zero_padded_facts(3) [of 100000 8] by simp
  then show "call_on 200000 \<noteq> call_on 100000" by (auto simp: call_on_def occ_suffix_def)
  show "call_on 200000 \<noteq> ''''" by (simp add: call_on_def)
qed

lemmas ladder_defs = ladder_def ladder_option_def plain_instrument_def new_instrument_def nullStr_def demo_leg_def occ_name_def
  ladder_split_def

lemma ladder_ok: "master_ok split_env ladder"
proof -
  have "{..<3 :: nat} = {0, 1, 2}" by auto
  then have "issued split_env (sm_ledger ladder) = {''a'', ''aa'', ''aaa''}"
    by (simp add: ladder_def split_env_def demo_env_def numeral_2_eq_2)
  moreover have ids: "instrument_ids ladder = {''a'', ''aa'', ''aaa''}" by (simp add: ladder_defs)
  moreover have "list_all (row_allowed ladder) (sm_instruments ladder)" unfolding row_allowed_def ids
    by (simp add: ladder_defs ValidAssetClasses_def AssetClassOption_def AssetClassFuture_def)
  moreover have "names_ok (sm_idents ladder)"
    using call_on_facts(3) by (simp add: ladder_defs names_ok_def clash_def interval_ok_def starts_before_def)
  moreover have "refs_ok ladder" unfolding refs_ok_def ids by (simp add: ladder_defs)
  moreover have "matches_unique (l_matches (sm_ledger ladder))" by (simp add: ladder_def matches_unique_def)
  moreover have "distinct (map in_ID (sm_instruments ladder))" by (simp add: ladder_defs)
  ultimately show ?thesis unfolding master_ok_def by (metis order_refl)
qed

definition ladder_params :: OptionSplitParams where
  "ladder_params = \<lparr>op_InstrumentID = ''a'', op_OldOCCValue = call_on 200000,
     op_Mints = [\<lparr>om_ExDate = 10 * day_length, om_OCC = occ_name (call_on 100000), om_Strike = 100\<rparr>]\<rparr>"

lemma ladder_merge: "mergeInstruments ''a'' ''aa'' ladder = Inr (merged ''a'' ''aa'' ladder)"
proof -
  have "''a'' \<in> instrument_ids ladder" "''a'' \<noteq> ''aa''" "''aa'' \<notin> set (sm_declared ladder)"
    "matches_unique (map (move_match ''a'' ''aa'') (l_matches (sm_ledger ladder)))"
    by (simp_all add: ladder_defs matches_unique_def)
  then show ?thesis using mergeInstruments_Inr [OF ladder_ok] by blast
qed

lemma ladder_applies: "\<exists>m'. ApplyOptionSplit split_env ladder_params ladder = Inr m'"
proof -
  let ?n = "(occ_name (call_on 100000))\<lparr>ii_ValidFrom := Some (10 * day_length)\<rparr>"
  have "identifierHolder ?n ladder = Inr (Some ''aa'')"
    using call_on_facts(3) by (simp add: identifierHolder_def ladder_defs clash_def overlapping_def interval_ok_def starts_before_def)
  then have ab: "absorb_all ''a'' [?n] ladder = Inr (merged ''a'' ''aa'' ladder)"
    by (simp add: absorbDuplicateHolder_def sum_then_def with_error_def ladder_merge)
  have idents: "sm_idents (merged ''a'' ''aa'' ladder) = carried ''a'' [occ_name (call_on 200000), occ_name (call_on 100000)]"
    by (simp add: merged_def ladder_defs names_of_def)
  have insts: "sm_instruments (merged ''a'' ''aa'' ladder) = [ladder_option ''a'' 200, plain_instrument ''aaa'']"
    by (simp add: merged_def ladder_defs repoint_underlying_def)
  let ?m = "closed_off ''a'' (10 * day_length) (merged ''a'' ''aa'' ladder)"
  have "\<forall>x \<in> set (sm_idents ?m). \<not> clash (ix_Name x) ?n"
    by (simp add: closed_off_def close_open_def clear_window_def idents close_row_def own_OCC_def is_OCC_def occ_name_def
        clash_def overlapping_def interval_ok_def starts_before_def)
  moreover have "interval_ok ?n" by (simp add: interval_ok_def starts_before_def occ_name_def)
  moreover have "''a'' \<in> instrument_ids ?m" by (simp add: insts ladder_option_def)
  ultimately have "\<exists>m2. insertIdentifierRow ''a'' ?n ?m = Inr m2" unfolding insertIdentifierRow_Inr by blast
  then obtain m2 where m2: "insertIdentifierRow ''a'' ?n ?m = Inr m2" ..
  then have i2: "sm_instruments m2 = [ladder_option ''a'' 200, plain_instrument ''aaa'']" by (simp add: insertIdentifierRow_Inr insts)
  have "\<exists>m'. UpdateInstrumentStrike split_env ''a'' 100 m2 = Inr m'"
    by (simp add: UpdateInstrumentStrike_def sum_then_def of_option_def split_env_def demo_env_def update_instrument_def i2
        row_allowed_def ladder_option_def plain_instrument_def new_instrument_def nullStr_def ValidAssetClasses_def AssetClassOption_def AssetClassFuture_def)
  then show ?thesis
    using ab m2 by (simp add: ApplyOptionSplit_def ladder_params_def Let_def sum_then_def of_option_def split_env_def demo_env_def with_error_def closed_off_def)
qed

theorem restatement_absorbs_every_holder_witness:
  "split_pending ladder (ladder_option ''aa'' 100) ladder_split
   \<and> (\<exists>m'. ApplyOptionSplit split_env ladder_params ladder = Inr m' \<and> ''aa'' \<in> instrument_ids ladder \<and> ''aa'' \<notin> instrument_ids m')"
proof
  show "split_pending ladder (ladder_option ''aa'' 100) ladder_split"
    by (simp add: split_pending_def ladder_defs AssetClassOption_def CURRENT_DATE_def date_of_def utc_day_def day_length_def occ_valid_from_def
        names_of_def is_OCC_def List.map_filter_def latest_of_def first_trade_def least_of_def COALESCE_def)
  from ladder_applies obtain m' where run: "ApplyOptionSplit split_env ladder_params ladder = Inr m'" ..
  have "ix_InstrumentID (sm_idents ladder ! 1) \<in> instrument_ids ladder \<and> ix_InstrumentID (sm_idents ladder ! 1) \<notin> instrument_ids m'"
    by (rule restatement_absorbs_every_holder [OF run _ ladder_ok, of "''a''" _ "(occ_name (call_on 100000))\<lparr>ii_ValidFrom := Some (10 * day_length)\<rparr>" "10 * day_length"])
      (simp_all add: ladder_params_def split_env_def demo_env_def ladder_def names_on_def occ_name_def)
  then show "\<exists>m'. ApplyOptionSplit split_env ladder_params ladder = Inr m' \<and> ''aa'' \<in> instrument_ids ladder \<and> ''aa'' \<notin> instrument_ids m'"
    using run by (intro exI [of _ m']) (simp add: ladder_def)
qed

theorem ProcessPendingOptionSplits_returns_witness:
  "\<exists>m' adjusted. ProcessPendingOptionSplits split_env (\<lambda>_. '''') '''' ladder = Some (m', adjusted) \<and> master_ok split_env m'"
  by (rule ProcessPendingOptionSplits_returns [OF ladder_ok])

lemma ladder_pending:
  "split_pending ladder (ladder_option ''a'' 200) ladder_split" "split_pending ladder (ladder_option ''aa'' 100) ladder_split"
  "\<not> split_pending ladder (plain_instrument ''aaa'') ladder_split"
  by (simp_all add: split_pending_def ladder_defs AssetClassOption_def CURRENT_DATE_def date_of_def utc_day_def day_length_def occ_valid_from_def
      names_of_def is_OCC_def List.map_filter_def latest_of_def first_trade_def least_of_def COALESCE_def)

definition ladder_top :: PendingOptionSplits where
  "ladder_top = \<lparr>ps_Option = ladder_option ''a'' 200, ps_Identifiers = [occ_name (call_on 200000)], ps_Splits = [ladder_split]\<rparr>"

lemma ladder_listed: "\<exists>p. ListPendingOptionSplits split_env '''' ladder = Inr [ladder_top, p]"
proof -
  have rows: "pending_rows (\<lambda>i. True) ladder = [(''a'', ladder_split), (''aa'', ladder_split)]"
    using ladder_pending by (simp add: pending_rows_def ladder_def ladder_option_def plain_instrument_def less_prod_def)
  have ids: "loadIdentifiers ''a'' ladder = [occ_name (call_on 200000)]" by (simp add: loadIdentifiers_def ladder_def)
  have insts: "List.find (\<lambda>i. in_ID i = ''a'') (sm_instruments ladder) = Some (ladder_option ''a'' 200)"
    "List.find (\<lambda>i. in_ID i = ''aa'') (sm_instruments ladder) = Some (ladder_option ''aa'' 100)"
    by (simp_all add: ladder_def ladder_option_def)
  show ?thesis by (simp add: ListPendingOptionSplits_def parseNullUUID_def with_error_def sum_then_def rows mm_build_def mm_append_def mm_get_def
      List.map_filter_def insts ids ladder_top_def)
qed

lemma ladder_scan:
  "scan_splits (env_parse_dec split_env) (ladder_option ''a'' 200) [ladder_split] 1 1 [] False [] = ([\<lparr>fc_split = ladder_split, fc_num = 2, fc_den = 1\<rparr>], False, [])"
proof -
  have r: "Rat_SetString ''1'' = Some 1" "Rat_SetString ''2'' = Some 2" by (simp_all add: Rat_SetString_def is_digit_def digit_value_def)
  then show ?thesis by (simp add: ladder_split_def IsWholeForwardSplit_def split_env_def dec_or_zero_def)
qed

lemma ladder_restated:
  "\<exists>m'. applyOptionSplits split_env (\<lambda>_. '''') (ladder_option ''a'' 200) [occ_name (call_on 200000)]
     [\<lparr>fc_split = ladder_split, fc_num = 2, fc_den = 1\<rparr>] ladder = Some (m', True)"
proof -
  have "\<lfloor>100000 + 1 / 2 :: rat\<rfloor> = 100000" by (rule floor_unique) simp_all
  then have "AdjustStrike 200 2 1 = 100" by (simp add: AdjustStrike_def round_half_away_def thousandths_def StrikeScale_def)
  then have "mint_loop 200 (occ_option ''X'' \<lparr>cd_year = 2025, cd_month = 1, cd_day = 17\<rparr> CHR ''C'' 200000) [\<lparr>fc_split = ladder_split, fc_num = 2, fc_den = 1\<rparr>]
      = Inr (op_Mints ladder_params)"
    using call_on_facts(2) by (simp add: occ_option_def sum_then_def ladder_params_def ladder_split_def)
  moreover have "currentOCC [occ_name (call_on 200000)] = call_on 200000" by (simp add: currentOCC_def occ_name_def is_OCC_def)
  moreover have "\<lparr>op_InstrumentID = ''a'', op_OldOCCValue = call_on 200000, op_Mints = op_Mints ladder_params\<rparr> = ladder_params"
    by (simp add: ladder_params_def)
  ultimately show ?thesis using ladder_applies call_on_facts(1,4)
    by (auto simp: applyOptionSplits_def ladder_option_def new_instrument_def)
qed

theorem restated_option_off_the_work_list_witness:
  "\<exists>ps m'. ListPendingOptionSplits split_env '''' ladder = Inr ps \<and> ladder_top \<in> set ps
     \<and> applyOptionSplits split_env (\<lambda>_. '''') (ps_Option ladder_top) (ps_Identifiers ladder_top) [\<lparr>fc_split = ladder_split, fc_num = 2, fc_den = 1\<rparr>] ladder = Some (m', True)
     \<and> (\<exists>n. open_OCC ''a'' m' = [n] \<and> ii_ValidFrom n = Some (10 * day_length))"
proof -
  obtain p where l: "ListPendingOptionSplits split_env '''' ladder = Inr [ladder_top, p]" using ladder_listed by blast
  obtain m' where run: "applyOptionSplits split_env (\<lambda>_. '''') (ps_Option ladder_top) (ps_Identifiers ladder_top)
      [\<lparr>fc_split = ladder_split, fc_num = 2, fc_den = 1\<rparr>] ladder = Some (m', True)" using ladder_restated by (auto simp: ladder_top_def)
  from restated_option_off_the_work_list [OF split_env_ok ladder_ok l _ _ run, of "[]" "[]"] ladder_scan
  have "\<exists>n. open_OCC ''a'' m' = [n] \<and> ii_ValidFrom n = Some (10 * day_length)"
    by (simp add: ladder_top_def ladder_option_def) (simp add: ladder_split_def)
  then show ?thesis using l run by (intro exI [of _ "[ladder_top, p]"] exI [of _ m']) simp
qed

theorem restated_strike_is_rounded_once_witness:
  "\<exists>m'. applyOptionSplits split_env (\<lambda>_. '''') (ladder_option ''a'' 200) [occ_name (call_on 200000)] [\<lparr>fc_split = ladder_split, fc_num = 2, fc_den = 1\<rparr>] ladder = Some (m', True)
     \<and> (\<forall>i \<in> set (sm_instruments m'). in_ID i = ''a'' \<longrightarrow> (\<exists>x. in_Strike i = Some x \<and> \<bar>x - 200 / prod_list (map shares_ratio [ladder_split])\<bar> \<le> 1 / 2000))"
proof -
  obtain m' where run: "applyOptionSplits split_env (\<lambda>_. '''') (ladder_option ''a'' 200) [occ_name (call_on 200000)]
      [\<lparr>fc_split = ladder_split, fc_num = 2, fc_den = 1\<rparr>] ladder = Some (m', True)" using ladder_restated by blast
  have o: "in_ID (ladder_option ''a'' 200) \<in> instrument_ids ladder" "in_Strike (ladder_option ''a'' 200) = Some 200"
    by (simp_all add: ladder_def) (simp add: ladder_option_def new_instrument_def)
  show ?thesis
    using restated_strike_is_rounded_once [OF split_env_ok ladder_ok o _ ladder_scan run] run
    by (intro exI [of _ m']) (simp add: split_env_def ladder_option_def)
qed

end
