(* ===== verification/Declarations.thy ===== *)
theory Declarations
  imports Option_Splits
begin

text \<open>
  Holding declarations, what a user states a holding to be at a date, and the opening balances derived
  from them: the table and its writes (\<open>src/server/db/postgres/declarations.go\<close>), the handlers
  (\<open>src/server/service/api/declarations.go\<close>) and the recalculation of every opening balance of a user
  (\<open>src/server/service/api/recalc.go\<close>).

  The table stands beside the security master and the ledger, whose \<open>sm_declared\<close> is kept in step
  with it. Two things come from outside: the text a \<open>NUMERIC\<close> column gives back for a text written to
  it, and the order in which \<open>range\<close> visits the keys of a map. Dates are the midnights they start at
  and the session of the store runs in UTC. The counts of a check are unbounded, where the store has
  32 bits; the text of an error of a handler is outside the model, its status code is not.
\<close>

subsection \<open>Numbers and dates of the standard library\<close>

definition lower_char :: "char \<Rightarrow> char" where
  "lower_char c = (if c \<in> set ''ABCDEFGHIJKLMNOPQRSTUVWXYZ'' then char_of (of_char c + 32 :: nat) else c)"

definition hex_digit :: "char \<Rightarrow> nat option" where
  "hex_digit c = (let l = lower_char c in
     if is_digit c then Some (of_char c - 48)
     else if l \<in> set ''abcdef'' then Some (of_char l - 87) else None)"

definition base_digit :: "bool \<Rightarrow> char \<Rightarrow> nat option" where
  "base_digit hex c = (if hex \<or> is_digit c then hex_digit c else None)"

text \<open>\<open>underscoreOK\<close>, with the class of the character last seen.\<close>

datatype seen = Start | Digit | Underscore | Other

fun underscore_loop :: "bool \<Rightarrow> seen \<Rightarrow> string \<Rightarrow> bool" where
  "underscore_loop hex i [] \<longleftrightarrow> i \<noteq> Underscore"
| "underscore_loop hex i (c # cs) \<longleftrightarrow>
     (if base_digit hex c \<noteq> None then underscore_loop hex Digit cs
      else if c = CHR ''_'' then i = Digit \<and> underscore_loop hex Underscore cs
      else i \<noteq> Underscore \<and> underscore_loop hex Other cs)"

definition unsigned :: "string \<Rightarrow> string" where
  "unsigned s = (case s of [] \<Rightarrow> [] | c # cs \<Rightarrow> if c \<in> {CHR ''+'', CHR ''-''} then cs else s)"

definition underscoreOK :: "string \<Rightarrow> bool" where
  "underscoreOK s = (case unsigned s of
       CHR ''0'' # c # cs \<Rightarrow> if lower_char c \<in> {CHR ''b'', CHR ''o'', CHR ''x''}
         then underscore_loop (lower_char c = CHR ''x'') Digit cs else underscore_loop False Start (CHR ''0'' # c # cs)
     | u \<Rightarrow> underscore_loop False Start u)"

text \<open>The digits of a mantissa, how many of them follow the point, and what is left.\<close>

fun mantissa_loop :: "bool \<Rightarrow> bool \<Rightarrow> nat list \<Rightarrow> nat \<Rightarrow> string \<Rightarrow> nat list \<times> nat \<times> string" where
  "mantissa_loop hex sawdot ds decimals [] = (ds, decimals, [])"
| "mantissa_loop hex sawdot ds decimals (c # cs) =
     (if c = CHR ''_'' then mantissa_loop hex sawdot ds decimals cs
      else if c = CHR ''.'' then if sawdot then (ds, decimals, c # cs) else mantissa_loop hex True ds decimals cs
      else case base_digit hex c of
          None \<Rightarrow> (ds, decimals, c # cs)
        | Some d \<Rightarrow> mantissa_loop hex sawdot (ds @ [d]) (if sawdot then decimals + 1 else decimals) cs)"

fun exponent_loop :: "nat \<Rightarrow> string \<Rightarrow> nat \<times> string" where
  "exponent_loop e [] = (e, [])"
| "exponent_loop e (c # cs) =
     (if c = CHR ''_'' then exponent_loop e cs
      else if is_digit c then exponent_loop (if e < 10000 then e * 10 + (of_char c - 48) else e) cs
      else (e, c # cs))"

definition power_at :: "rat \<Rightarrow> int \<Rightarrow> rat" where
  "power_at b e = (if 0 \<le> e then b ^ nat e else 1 / b ^ nat (- e))"

text \<open>\<open>readFloat\<close> on the whole text: the magnitude it denotes.\<close>

definition readFloat :: "string \<Rightarrow> rat option" where
  "readFloat s =
     (let u = unsigned s;
          hex = (length u > 2 \<and> u ! 0 = CHR ''0'' \<and> lower_char (u ! 1) = CHR ''x'');
          base = (if hex then 16 else 10);
          (ds, decimals, rest) = mantissa_loop hex False [] 0 (if hex then drop 2 u else u);
          mant = of_nat (foldl (\<lambda>v d. v * base + d) 0 ds) / of_nat base ^ decimals in
      if ds = [] then None
      else if CHR ''_'' \<in> set s \<and> \<not> underscoreOK s then None
      else case rest of
          [] \<Rightarrow> if hex then None else Some mant
        | c # cs \<Rightarrow>
            if lower_char c \<noteq> (if hex then CHR ''p'' else CHR ''e'') then None
            else (case unsigned cs of
                [] \<Rightarrow> None
              | d # _ \<Rightarrow> if \<not> is_digit d then None
                  else (let (e, rest') = exponent_loop 0 (unsigned cs) in
                    if rest' \<noteq> [] then None
                    else Some (mant * power_at (if hex then 2 else 10) (if hd cs = CHR ''-'' then - int e else int e)))))"

definition special :: "string \<Rightarrow> bool" where
  "special s \<longleftrightarrow> map lower_char s = ''nan'' \<or> map lower_char (unsigned s) \<in> {''inf'', ''infinity''}"

text \<open>
  Whether \<open>strconv.ParseFloat(s, 64)\<close> returns no error: a magnitude that rounds past the largest
  finite value is out of range.
\<close>

definition ParseFloat_ok :: "string \<Rightarrow> bool" where
  "ParseFloat_ok s \<longleftrightarrow> special s \<or> (case readFloat s of None \<Rightarrow> False | Some v \<Rightarrow> v < of_int (2 ^ 1024 - 2 ^ 970))"

record Date =
  dt_Year :: int
  dt_Month :: int
  dt_Day :: int

definition leap :: "int \<Rightarrow> bool" where
  "leap y \<longleftrightarrow> y mod 4 = 0 \<and> (y mod 100 \<noteq> 0 \<or> y mod 400 = 0)"

definition month_lengths :: "int \<Rightarrow> int list" where
  "month_lengths y = [31, if leap y then 29 else 28, 31, 30, 31, 30, 31, 31, 30, 31, 30, 31]"

text \<open>\<open>time.Date\<close> at midnight in UTC: the month is carried into the year, the day counted on from the first.\<close>

definition time_at :: "int \<Rightarrow> int \<Rightarrow> int \<Rightarrow> time" where
  "time_at y m d =
     (let y' = y + (m - 1) div 12; k = nat ((m - 1) mod 12); z = y' - 1 in
      (365 * z + z div 4 - z div 100 + z div 400 + sum_list (take k (month_lengths y')) + d - 1 - 719162) * day_length)"

definition zero_time :: time where "zero_time = time_at 1 1 1"

definition dateToTime :: "Date option \<Rightarrow> time" where
  "dateToTime d = (case d of None \<Rightarrow> zero_time
     | Some x \<Rightarrow> if dt_Year x = 0 then zero_time else time_at (dt_Year x) (dt_Month x) (dt_Day x))"

subsection \<open>The table\<close>

record Declaration =
  dc_ID :: string
  dc_UserID :: string
  dc_Broker :: string
  dc_Account :: string
  dc_InstrumentID :: string
  dc_DeclaredQty :: string
  dc_AsOfDate :: time
  dc_ShareCountBasis :: time

record DeclarationCheck =
  ck_ComputedQty :: decimal
  ck_PostingCount :: nat
  ck_InexactBases :: nat

datatype DeclarationKind = KIND_UNSPECIFIED | KIND_PAD | KIND_ASSERT

record HoldingDeclarationRow =
  hr_Decl :: Declaration
  hr_Kind :: DeclarationKind
  hr_Verified :: "DeclarationCheck option"

record InitializeTx =
  it_Timestamp :: time
  it_Quantity :: decimal
  it_ShareCountBasis :: time

record Store =
  ds_master :: Master
  ds_decls :: "Declaration list"

type_synonym holdingKey = "string \<times> string \<times> string"

abbreviation ds_ledger :: "Store \<Rightarrow> Ledger" where
  "ds_ledger s \<equiv> sm_ledger (ds_master s)"

definition keyOf :: "Declaration \<Rightarrow> holdingKey" where
  "keyOf d = (dc_Broker d, dc_Account d, dc_InstrumentID d)"

definition set_decls :: "Declaration list \<Rightarrow> Store \<Rightarrow> Store" where
  "set_decls ds s = s\<lparr>ds_decls := ds, ds_master := (ds_master s)\<lparr>sm_declared := map dc_InstrumentID ds\<rparr>\<rparr>"

definition set_ledger :: "Ledger \<Rightarrow> Store \<Rightarrow> Store" where
  "set_ledger l s = s\<lparr>ds_master := (ds_master s)\<lparr>sm_ledger := l\<rparr>\<rparr>"

text \<open>The unique key: one declaration of a holding at a date.\<close>

definition same_statement :: "Declaration \<Rightarrow> Declaration \<Rightarrow> bool" where
  "same_statement d e \<longleftrightarrow> dc_UserID d = dc_UserID e \<and> keyOf d = keyOf e \<and> dc_AsOfDate d = dc_AsOfDate e"

subsection \<open>Quantities in one share count\<close>

definition split_factor_at :: "Env \<Rightarrow> Master \<Rightarrow> string \<Rightarrow> time \<Rightarrow> decimal \<times> decimal" where
  "split_factor_at env m inst ref =
     (let own = inst # List.map_filter (\<lambda>i. if in_ID i = inst then in_UnderlyingID i else None) (sm_instruments m);
          ss = filter (\<lambda>s. sp_InstrumentID s \<in> set own \<and> ref < sp_ExDate s \<and> sp_ExDate s \<le> CURRENT_DATE m) (sm_splits m) in
      (prod_list (map (\<lambda>s. dec_or_zero (env_parse_dec env) (sp_SplitTo s)) ss),
       prod_list (map (\<lambda>s. dec_or_zero (env_parse_dec env) (sp_SplitFrom s)) ss)))"

text \<open>The basis of a posting, which a trigger sets to its trade date where the insert names none.\<close>

definition posting_basis :: "Posting \<Rightarrow> time" where
  "posting_basis t = date_of (case t_ShareCountBasis t of None \<Rightarrow> t_TradeDate t | Some b \<Rightarrow> b)"

definition of_holding :: "string \<Rightarrow> holdingKey \<Rightarrow> Posting \<Rightarrow> bool" where
  "of_holding user h t \<longleftrightarrow> t_UserID t = user \<and> t_Broker t = fst h \<and> t_Account t = fst (snd h) \<and> t_InstrumentID t = Some (snd (snd h))"

definition counted ::
    "string \<Rightarrow> holdingKey \<Rightarrow> time option \<Rightarrow> time option \<Rightarrow> bool \<Rightarrow> Posting \<Rightarrow> bool" where
  "counted user h fromT beforeT synthetic t \<longleftrightarrow> of_holding user h t \<and> t_AccountType t = ''USER''
     \<and> (synthetic \<or> t_Purpose t = None)
     \<and> (case fromT of None \<Rightarrow> True | Some f \<Rightarrow> f \<le> t_OrderDate t)
     \<and> (case beforeT of None \<Rightarrow> True | Some b \<Rightarrow> t_OrderDate t < b)"

definition basis_sum :: "Posting list \<Rightarrow> time \<Rightarrow> decimal" where
  "basis_sum ts b = sum_list (map t_Quantity (filter (\<lambda>t. posting_basis t = b) ts))"

definition converted :: "Env \<Rightarrow> Master \<Rightarrow> string \<Rightarrow> time \<Rightarrow> time \<Rightarrow> decimal \<Rightarrow> decimal" where
  "converted env m inst b basis q =
     (let (bn, bd) = split_factor_at env m inst b; (dn, dd) = split_factor_at env m inst basis in
      env_div env (q * bn * dd) (bd * dn))"

definition inexact_basis :: "Env \<Rightarrow> Master \<Rightarrow> string \<Rightarrow> time \<Rightarrow> time \<Rightarrow> bool" where
  "inexact_basis env m inst basis b \<longleftrightarrow>
     (let (bn, bd) = split_factor_at env m inst b; (dn, dd) = split_factor_at env m inst basis in bn * dd \<noteq> bd * dn)"

definition holding_qty_in_basis ::
    "Env \<Rightarrow> Master \<Rightarrow> string \<Rightarrow> holdingKey \<Rightarrow> time option \<Rightarrow> time option \<Rightarrow> time \<Rightarrow> bool \<Rightarrow> DeclarationCheck" where
  "holding_qty_in_basis env m user h fromT beforeT basis synthetic =
     (let ts = filter (counted user h fromT beforeT synthetic) (l_txs (sm_ledger m));
          bs = remdups (map posting_basis ts); inst = snd (snd h) in
      \<lparr>ck_ComputedQty = sum_list (map (\<lambda>b. converted env m inst b basis (basis_sum ts b)) bs),
       ck_PostingCount = length ts,
       ck_InexactBases = length (filter (inexact_basis env m inst basis) bs)\<rparr>)"

subsection \<open>Reading declarations\<close>

definition declarationKind :: "Declaration list \<Rightarrow> Declaration \<Rightarrow> DeclarationKind" where
  "declarationKind ds d =
     (if list_all (\<lambda>e. dc_UserID e = dc_UserID d \<and> keyOf e = keyOf d \<longrightarrow> dc_AsOfDate d \<le> dc_AsOfDate e) ds
      then KIND_PAD else KIND_ASSERT)"

definition declarationVerify :: "Env \<Rightarrow> Store \<Rightarrow> Declaration \<Rightarrow> DeclarationCheck" where
  "declarationVerify env s d = holding_qty_in_basis env (ds_master s) (dc_UserID d) (keyOf d)
     None (Some (dc_AsOfDate d + day_length)) (dc_ShareCountBasis d) True"

definition read_row :: "Env \<Rightarrow> Store \<Rightarrow> Declaration \<Rightarrow> HoldingDeclarationRow" where
  "read_row env s d = \<lparr>hr_Decl = d, hr_Kind = declarationKind (ds_decls s) d, hr_Verified = Some (declarationVerify env s d)\<rparr>"

text \<open>What the write paths give back: neither a kind nor a check.\<close>

definition written_row :: "Declaration \<Rightarrow> HoldingDeclarationRow" where
  "written_row d = \<lparr>hr_Decl = d, hr_Kind = KIND_UNSPECIFIED, hr_Verified = None\<rparr>"

definition GetHoldingDeclaration :: "Env \<Rightarrow> string \<Rightarrow> Store \<Rightarrow> string + HoldingDeclarationRow" where
  "GetHoldingDeclaration env i s =
     sum_then (of_option ''invalid declaration id'' (env_parse_uuid env i)) (\<lambda>declID.
       of_option ''get holding declaration: no rows'' (map_option (read_row env s) (List.find (\<lambda>d. dc_ID d = declID) (ds_decls s))))"

definition ListHoldingDeclarations :: "Env \<Rightarrow> string \<Rightarrow> Store \<Rightarrow> string + HoldingDeclarationRow list" where
  "ListHoldingDeclarations env userID s =
     sum_then (of_option ''invalid user id'' (env_parse_uuid env userID)) (\<lambda>user.
       Inr (map (read_row env s) (sort_key (\<lambda>d. (keyOf d, dc_AsOfDate d)) (filter (\<lambda>d. dc_UserID d = user) (ds_decls s)))))"

definition GetPortfolioStartDate :: "Env \<Rightarrow> string \<Rightarrow> Store \<Rightarrow> string + time option" where
  "GetPortfolioStartDate env userID s =
     sum_then (of_option ''invalid user id'' (env_parse_uuid env userID)) (\<lambda>user.
       Inr (least_of (map t_OrderDate (filter (\<lambda>t. t_UserID t = user \<and> t_Purpose t = None \<and> t_AccountType t = ''USER'') (l_txs (ds_ledger s))))))"

definition ComputeRunningBalance ::
    "Env \<Rightarrow> string \<Rightarrow> string \<Rightarrow> string \<Rightarrow> string \<Rightarrow> time \<Rightarrow> time \<Rightarrow> time \<Rightarrow> Store \<Rightarrow> string + decimal" where
  "ComputeRunningBalance env userID broker account instID fromT toT basis s =
     sum_then (of_option ''invalid user id'' (env_parse_uuid env userID)) (\<lambda>user.
     sum_then (of_option ''invalid instrument id'' (env_parse_uuid env instID)) (\<lambda>inst.
       Inr (ck_ComputedQty (holding_qty_in_basis env (ds_master s) user (broker, account, inst) (Some fromT) (Some toT) (date_of basis) False))))"

subsection \<open>Writing declarations\<close>

datatype db_error = ErrDuplicate | ErrOther string

definition or_other :: "string + 'a \<Rightarrow> db_error + 'a" where
  "or_other m = (case m of Inl e \<Rightarrow> Inl (ErrOther e) | Inr x \<Rightarrow> Inr x)"

text \<open>
  The row an insert of the given columns stores: the column's reading of the quantity, and the date of
  the statement where the denomination is left out. \<open>num\<close> is the text a \<open>NUMERIC\<close> gives back.
\<close>

definition declaration_row ::
    "Env \<Rightarrow> (string \<Rightarrow> string option) \<Rightarrow> string \<Rightarrow> string \<Rightarrow> string \<Rightarrow> string \<Rightarrow> string \<Rightarrow> time \<Rightarrow> time \<Rightarrow> Store
     \<Rightarrow> db_error + Declaration" where
  "declaration_row env num userID broker account instID qty asOf basis s =
     sum_then (or_other (of_option ''invalid user id'' (env_parse_uuid env userID))) (\<lambda>user.
     sum_then (or_other (of_option ''invalid instrument id'' (env_parse_uuid env instID))) (\<lambda>inst.
     sum_then (or_other (of_option ''invalid input syntax for type numeric'' (num qty))) (\<lambda>q.
       Inr \<lparr>dc_ID = env_new_uuid env (l_uuids (ds_ledger s)), dc_UserID = user, dc_Broker = broker, dc_Account = account,
            dc_InstrumentID = inst, dc_DeclaredQty = q, dc_AsOfDate = date_of asOf,
            dc_ShareCountBasis = date_of (if basis = zero_time then asOf else basis)\<rparr>)))"

definition insert_declaration :: "Declaration \<Rightarrow> Store \<Rightarrow> string + Store" where
  "insert_declaration d s =
     (if dc_InstrumentID d \<notin> instrument_ids (ds_master s) then Inl ''violates foreign key constraint''
      else Inr (set_decls (ds_decls s @ [d]) (set_ledger ((ds_ledger s)\<lparr>l_uuids := l_uuids (ds_ledger s) + 1\<rparr>) s)))"

definition CreateHoldingDeclaration ::
    "Env \<Rightarrow> (string \<Rightarrow> string option) \<Rightarrow> string \<Rightarrow> string \<Rightarrow> string \<Rightarrow> string \<Rightarrow> string \<Rightarrow> time \<Rightarrow> time \<Rightarrow> Store
     \<Rightarrow> db_error + Store \<times> HoldingDeclarationRow" where
  "CreateHoldingDeclaration env num userID broker account instID qty asOf basis s =
     sum_then (declaration_row env num userID broker account instID qty asOf basis s) (\<lambda>d.
       if list_ex (same_statement d) (ds_decls s) then Inl ErrDuplicate
       else sum_then (or_other (insert_declaration d s)) (\<lambda>s'. Inr (s', written_row d)))"

text \<open>The \<open>SET\<close> clause of an update: a denomination left out stays as it is.\<close>

definition restated :: "string \<Rightarrow> time \<Rightarrow> time \<Rightarrow> Declaration \<Rightarrow> Declaration" where
  "restated q asOf basis d = d\<lparr>dc_DeclaredQty := q, dc_AsOfDate := date_of asOf,
     dc_ShareCountBasis := (if basis = zero_time then dc_ShareCountBasis d else date_of basis)\<rparr>"

definition UpdateHoldingDeclaration ::
    "Env \<Rightarrow> (string \<Rightarrow> string option) \<Rightarrow> string \<Rightarrow> string \<Rightarrow> time \<Rightarrow> time \<Rightarrow> Store \<Rightarrow> db_error + Store \<times> HoldingDeclarationRow" where
  "UpdateHoldingDeclaration env num i qty asOf basis s =
     sum_then (or_other (of_option ''invalid declaration id'' (env_parse_uuid env i))) (\<lambda>declID.
     sum_then (or_other (of_option ''invalid input syntax for type numeric'' (num qty))) (\<lambda>q.
     sum_then (or_other (of_option ''update holding declaration: no rows'' (List.find (\<lambda>d. dc_ID d = declID) (ds_decls s)))) (\<lambda>old.
       let d = restated q asOf basis old in
       if list_ex (\<lambda>e. dc_ID e \<noteq> declID \<and> same_statement d e) (ds_decls s) then Inl ErrDuplicate
       else Inr (set_decls (map (\<lambda>e. if dc_ID e = declID then d else e) (ds_decls s)) s, written_row d))))"

definition DeleteHoldingDeclaration :: "Env \<Rightarrow> string \<Rightarrow> Store \<Rightarrow> string + Store" where
  "DeleteHoldingDeclaration env i s =
     sum_then (of_option ''invalid declaration id'' (env_parse_uuid env i)) (\<lambda>declID.
       if list_ex (\<lambda>d. dc_ID d = declID) (ds_decls s)
       then Inr (set_decls (filter (\<lambda>d. dc_ID d \<noteq> declID) (ds_decls s)) s)
       else Inl ''no rows'')"

definition UpsertHoldingDeclaration ::
    "Env \<Rightarrow> (string \<Rightarrow> string option) \<Rightarrow> string \<Rightarrow> string \<Rightarrow> string \<Rightarrow> string \<Rightarrow> string \<Rightarrow> time \<Rightarrow> time \<Rightarrow> Store
     \<Rightarrow> db_error + Store" where
  "UpsertHoldingDeclaration env num userID broker account instID qty asOf basis s =
     sum_then (declaration_row env num userID broker account instID qty asOf basis s) (\<lambda>d.
       if list_ex (same_statement d) (ds_decls s)
       then Inr (set_decls (map (\<lambda>e. if same_statement d e
              then e\<lparr>dc_DeclaredQty := dc_DeclaredQty d, dc_ShareCountBasis := dc_ShareCountBasis d\<rparr> else e) (ds_decls s)) s)
       else or_other (insert_declaration d s))"

subsection \<open>The opening balance of a holding\<close>

definition pad_of :: "string \<Rightarrow> holdingKey \<Rightarrow> string \<Rightarrow> Posting \<Rightarrow> bool" where
  "pad_of user h acct t \<longleftrightarrow> of_holding user h t \<and> t_Purpose t = Some InitializePurpose \<and> t_AccountType t = acct"

definition pad_commodity :: "Instrument \<Rightarrow> string" where
  "pad_commodity i = (case in_Currency i of
       Some c \<Rightarrow> if in_AssetClass i = Some ''CASH'' then ''cur:'' @ ToUpper c else ''inst:'' @ in_ID i
     | None \<Rightarrow> ''inst:'' @ in_ID i)"

text \<open>One leg: the columns of the conflict clause where the leg is there already, a new row where it is not.\<close>

definition restated_leg :: "string \<Rightarrow> decimal \<Rightarrow> InitializeTx \<Rightarrow> Posting \<Rightarrow> Posting" where
  "restated_leg commodity q init t = t\<lparr>t_OrderDate := it_Timestamp init, t_TradeDate := it_Timestamp init, t_Quantity := q,
     t_Weight := q, t_Commodity := commodity, t_ShareCountBasis := Some (date_of (it_ShareCountBasis init))\<rparr>"

definition new_leg :: "Env \<Rightarrow> string \<Rightarrow> holdingKey \<Rightarrow> string \<Rightarrow> string \<Rightarrow> string \<Rightarrow> decimal \<Rightarrow> InitializeTx \<Rightarrow> Ledger \<Rightarrow> Posting" where
  "new_leg env user h commodity groupID acct q init l =
     \<lparr>t_ID = env_new_uuid env (l_uuids l), t_UserID = user, t_Broker = fst h, t_Account = fst (snd h),
      t_OrderDate = it_Timestamp init, t_TradeDate = it_Timestamp init, t_Description = ''INITIALIZE'',
      t_BrokerTxTypes = [''TRANSFER_EXTERNAL''], t_Resolved = ''TRANSFER_EXTERNAL'', t_Hint = None, t_Quantity = q,
      t_TradingCurrency = None, t_SettlementCurrency = None, t_UnitPrice = None, t_SettlementAmount = None,
      t_InstrumentID = Some (snd (snd h)), t_ShareCountBasis = Some (date_of (it_ShareCountBasis init)), t_AccountType = acct,
      t_Purpose = Some InitializePurpose, t_Weight = q, t_Commodity = commodity, t_GroupID = groupID, t_Correlations = []\<rparr>"

definition upsert_leg ::
    "Env \<Rightarrow> string \<Rightarrow> holdingKey \<Rightarrow> string \<Rightarrow> string \<Rightarrow> string \<Rightarrow> decimal \<Rightarrow> InitializeTx \<Rightarrow> Ledger \<Rightarrow> Ledger" where
  "upsert_leg env user h commodity groupID acct q init l =
     (if list_ex (pad_of user h acct) (l_txs l)
      then l\<lparr>l_txs := map (\<lambda>t. if pad_of user h acct t then restated_leg commodity q init t else t) (l_txs l)\<rparr>
      else l\<lparr>l_txs := l_txs l @ [new_leg env user h commodity groupID acct q init l], l_uuids := l_uuids l + 1\<rparr>)"

text \<open>The group of the opening balance the holding has, or a new one.\<close>

definition pad_group :: "Env \<Rightarrow> string \<Rightarrow> holdingKey \<Rightarrow> time \<Rightarrow> Ledger \<Rightarrow> Ledger \<times> string" where
  "pad_group env user h ts l = (case List.find (pad_of user h ''USER'') (l_txs l) of
       Some t \<Rightarrow> (l, t_GroupID t)
     | None \<Rightarrow> (let g = env_new_uuid env (l_uuids l) in
         (l\<lparr>l_groups := l_groups l @ [\<lparr>tg_ID = g, tg_UserID = user, tg_Timestamp = ts, tg_JobID = None\<rparr>], l_uuids := l_uuids l + 1\<rparr>, g)))"

definition date_group :: "string \<Rightarrow> time \<Rightarrow> Ledger \<Rightarrow> Ledger" where
  "date_group g ts l = l\<lparr>l_groups := map (\<lambda>x. if tg_ID x = g then x\<lparr>tg_Timestamp := ts\<rparr> else x) (l_groups l)\<rparr>"

definition UpsertInitializeTx ::
    "Env \<Rightarrow> string \<Rightarrow> string \<Rightarrow> string \<Rightarrow> string \<Rightarrow> InitializeTx \<Rightarrow> Store \<Rightarrow> string + Store" where
  "UpsertInitializeTx env userID broker account instID init s =
     sum_then (of_option ''invalid user id'' (env_parse_uuid env userID)) (\<lambda>user.
     sum_then (of_option ''invalid instrument id'' (env_parse_uuid env instID)) (\<lambda>inst.
       let h = (broker, account, inst); (l1, g) = pad_group env user h (it_Timestamp init) (ds_ledger s);
           l2 = (case List.find (\<lambda>i. in_ID i = inst) (sm_instruments (ds_master s)) of
               None \<Rightarrow> l1
             | Some i \<Rightarrow> upsert_leg env user h (pad_commodity i) g ''EQUITY'' (- it_Quantity init) init
                 (upsert_leg env user h (pad_commodity i) g ''USER'' (it_Quantity init) init l1)) in
       Inr (set_ledger (date_group g (it_Timestamp init) l2) s)))"

text \<open>The groups go, and with them the postings and the matches that refer to them.\<close>

definition delete_groups :: "(string \<Rightarrow> bool) \<Rightarrow> Ledger \<Rightarrow> Ledger" where
  "delete_groups gone l = l\<lparr>l_groups := filter (\<lambda>g. \<not> gone (tg_ID g)) (l_groups l),
     l_txs := filter (\<lambda>t. \<not> gone (t_GroupID t)) (l_txs l),
     l_matches := filter (\<lambda>m. \<not> gone (tm_FromGroupID m) \<and> \<not> gone (tm_ToGroupID m)) (l_matches l)\<rparr>"

definition pad_groups :: "string \<Rightarrow> holdingKey \<Rightarrow> Ledger \<Rightarrow> string list" where
  "pad_groups user h l = map tg_ID (filter (\<lambda>g. tg_UserID g = user \<and> list_ex (\<lambda>t. t_GroupID t = tg_ID g
     \<and> t_Broker t = fst h \<and> t_Account t = fst (snd h) \<and> t_InstrumentID t = Some (snd (snd h))
     \<and> t_Purpose t = Some InitializePurpose) (l_txs l)) (l_groups l))"

definition DeleteInitializeTx :: "Env \<Rightarrow> string \<Rightarrow> string \<Rightarrow> string \<Rightarrow> string \<Rightarrow> Store \<Rightarrow> string + Store" where
  "DeleteInitializeTx env userID broker account instID s =
     sum_then (of_option ''invalid user id'' (env_parse_uuid env userID)) (\<lambda>user.
     sum_then (of_option ''invalid instrument id'' (env_parse_uuid env instID)) (\<lambda>inst.
       Inr (set_ledger (delete_groups (\<lambda>g. g \<in> set (pad_groups user (broker, account, inst) (ds_ledger s))) (ds_ledger s)) s)))"

definition CreateDeclarationWithInitializeTx ::
    "Env \<Rightarrow> (string \<Rightarrow> string option) \<Rightarrow> string \<Rightarrow> string \<Rightarrow> string \<Rightarrow> string \<Rightarrow> string \<Rightarrow> time \<Rightarrow> time \<Rightarrow> InitializeTx \<Rightarrow> Store
     \<Rightarrow> db_error + Store \<times> HoldingDeclarationRow" where
  "CreateDeclarationWithInitializeTx env num userID broker account instID qty asOf basis init s =
     sum_then (CreateHoldingDeclaration env num userID broker account instID qty asOf basis s) (\<lambda>(s1, row).
     sum_then (or_other (UpsertInitializeTx env userID broker account instID init s1)) (\<lambda>s2. Inr (s2, row)))"

definition UpdateDeclarationWithInitializeTx ::
    "Env \<Rightarrow> (string \<Rightarrow> string option) \<Rightarrow> string \<Rightarrow> string \<Rightarrow> time \<Rightarrow> time \<Rightarrow> string \<Rightarrow> string \<Rightarrow> string \<Rightarrow> string \<Rightarrow> InitializeTx \<Rightarrow> Store
     \<Rightarrow> db_error + Store \<times> HoldingDeclarationRow" where
  "UpdateDeclarationWithInitializeTx env num i qty asOf basis userID broker account instID init s =
     sum_then (UpdateHoldingDeclaration env num i qty asOf basis s) (\<lambda>(s1, row).
     sum_then (or_other (UpsertInitializeTx env userID broker account instID init s1)) (\<lambda>s2. Inr (s2, row)))"

definition DeleteDeclarationWithInitializeTx ::
    "Env \<Rightarrow> string \<Rightarrow> string \<Rightarrow> string \<Rightarrow> string \<Rightarrow> string \<Rightarrow> InitializeTx option \<Rightarrow> Store \<Rightarrow> string + Store" where
  "DeleteDeclarationWithInitializeTx env i userID broker account instID init s =
     sum_then (DeleteHoldingDeclaration env i s) (\<lambda>s1.
       case init of None \<Rightarrow> DeleteInitializeTx env userID broker account instID s1
       | Some x \<Rightarrow> UpsertInitializeTx env userID broker account instID x s1)"

subsection \<open>The handlers\<close>

datatype code = Unauthenticated | InvalidArgument | FailedPrecondition | NotFound | AlreadyExists | Internal

definition or_code :: "code \<Rightarrow> 'e + 'a \<Rightarrow> code + 'a" where
  "or_code c m = (case m of Inl _ \<Rightarrow> Inl c | Inr x \<Rightarrow> Inr x)"

definition write_code :: "db_error + 'a \<Rightarrow> code + 'a" where
  "write_code m = (case m of Inl ErrDuplicate \<Rightarrow> Inl AlreadyExists | Inl (ErrOther _) \<Rightarrow> Inl Internal | Inr x \<Rightarrow> Inr x)"

fun padDeclaration_from :: "Declaration option \<Rightarrow> Declaration list \<Rightarrow> Declaration option" where
  "padDeclaration_from pad [] = pad"
| "padDeclaration_from pad (d # ds) = padDeclaration_from
     (case pad of None \<Rightarrow> Some d | Some p \<Rightarrow> if dc_AsOfDate d < dc_AsOfDate p then Some d else pad) ds"

definition padDeclaration :: "Declaration list \<Rightarrow> Declaration option" where
  "padDeclaration ds = padDeclaration_from None ds"

definition holdingDeclarations :: "Declaration list \<Rightarrow> holdingKey \<Rightarrow> string \<Rightarrow> Declaration list" where
  "holdingDeclarations ds h excludeID = filter (\<lambda>d. keyOf d = h \<and> dc_ID d \<noteq> excludeID) ds"

record holdingPad =
  hp_init :: "InitializeTx option"
  hp_asOf :: time

definition computeInitializeValues ::
    "Env \<Rightarrow> string \<Rightarrow> holdingKey \<Rightarrow> string \<Rightarrow> time \<Rightarrow> time \<Rightarrow> time \<Rightarrow> Store \<Rightarrow> string + InitializeTx" where
  "computeInitializeValues env userID h qty asOf basis startDate s =
     sum_then (of_option ''parse declared_qty'' (env_parse_dec env qty)) (\<lambda>declared.
     sum_then (ComputeRunningBalance env userID (fst h) (fst (snd h)) (snd (snd h)) (date_of startDate) (asOf + day_length) basis s) (\<lambda>balance.
       Inr \<lparr>it_Timestamp = date_of startDate, it_Quantity = declared - balance, it_ShareCountBasis = basis\<rparr>))"

text \<open>The pending row has no id; what names its holding is the holding the pad is computed for.\<close>

definition pending_row :: "string \<Rightarrow> time \<Rightarrow> time \<Rightarrow> Declaration" where
  "pending_row qty asOf basis = \<lparr>dc_ID = '''', dc_UserID = '''', dc_Broker = '''', dc_Account = '''', dc_InstrumentID = '''',
     dc_DeclaredQty = qty, dc_AsOfDate = asOf, dc_ShareCountBasis = basis\<rparr>"

definition padAfterWrite ::
    "Env \<Rightarrow> string \<Rightarrow> holdingKey \<Rightarrow> string \<Rightarrow> Declaration option \<Rightarrow> time \<Rightarrow> Store \<Rightarrow> string + holdingPad" where
  "padAfterWrite env userID h excludeID pending startDate s =
     sum_then (ListHoldingDeclarations env userID s) (\<lambda>rows.
       let ds = holdingDeclarations (map hr_Decl rows) h excludeID @ (case pending of None \<Rightarrow> [] | Some p \<Rightarrow> [p]) in
       case padDeclaration ds of
         None \<Rightarrow> Inr \<lparr>hp_init = None, hp_asOf = zero_time\<rparr>
       | Some pad \<Rightarrow> sum_then (computeInitializeValues env userID h (dc_DeclaredQty pad) (dc_AsOfDate pad) (dc_ShareCountBasis pad) startDate s)
           (\<lambda>init. Inr \<lparr>hp_init = Some init, hp_asOf = dc_AsOfDate pad\<rparr>))"

definition kindOf :: "holdingPad \<Rightarrow> time \<Rightarrow> DeclarationKind" where
  "kindOf p asOf = (if hp_init p \<noteq> None \<and> asOf = hp_asOf p then KIND_PAD else KIND_ASSERT)"

definition shareCountBasis :: "Date option \<Rightarrow> time \<Rightarrow> time" where
  "shareCountBasis d asOf = (case d of None \<Rightarrow> asOf | Some _ \<Rightarrow> dateToTime d)"

record DeclarationProto =
  dp_Decl :: Declaration
  dp_Kind :: DeclarationKind
  dp_Verdict :: "(decimal \<times> decimal \<times> decimal \<times> nat \<times> bool) option"

definition declarationToProto :: "Env \<Rightarrow> HoldingDeclarationRow \<Rightarrow> DeclarationProto" where
  "declarationToProto env r = \<lparr>dp_Decl = hr_Decl r, dp_Kind = hr_Kind r, dp_Verdict =
     (case (hr_Verified r, env_parse_dec env (dc_DeclaredQty (hr_Decl r))) of
        (Some v, Some declared) \<Rightarrow>
          (let tolerance = of_nat (ck_InexactBases v) / 10 ^ 12; delta = ck_ComputedQty v - declared in
           Some (ck_ComputedQty v, delta, tolerance, ck_PostingCount v, hr_Kind r = KIND_PAD \<or> \<bar>delta\<bar> \<le> tolerance))
      | _ \<Rightarrow> None)\<rparr>"

record CreateRequest =
  cr_Broker :: string
  cr_Account :: string
  cr_InstrumentID :: string
  cr_DeclaredQty :: string
  cr_AsOfDate :: "Date option"
  cr_ShareCountBasis :: "Date option"

record UpdateRequest =
  ur_ID :: string
  ur_DeclaredQty :: string
  ur_AsOfDate :: "Date option"
  ur_ShareCountBasis :: "Date option"

text \<open>The start date both writes need, and the day the statement may not precede.\<close>

definition start_for :: "Env \<Rightarrow> string \<Rightarrow> time \<Rightarrow> Store \<Rightarrow> code + time" where
  "start_for env user asOf s =
     sum_then (or_code Internal (GetPortfolioStartDate env user s)) (\<lambda>start. case start of
         None \<Rightarrow> Inl FailedPrecondition
       | Some t \<Rightarrow> if asOf < date_of t then Inl InvalidArgument else Inr t)"

definition set_kind :: "holdingPad \<Rightarrow> HoldingDeclarationRow \<Rightarrow> HoldingDeclarationRow" where
  "set_kind pad row = row\<lparr>hr_Kind := kindOf pad (dc_AsOfDate (hr_Decl row))\<rparr>"

definition RequireUser :: "string option \<Rightarrow> code + string" where
  "RequireUser u = (case u of None \<Rightarrow> Inl Unauthenticated | Some i \<Rightarrow> if i = '''' then Inl Unauthenticated else Inr i)"

text \<open>A handler that would dereference a missing opening balance panics: \<open>None\<close>.\<close>

definition api_CreateHoldingDeclaration ::
    "Env \<Rightarrow> (string \<Rightarrow> string option) \<Rightarrow> string option \<Rightarrow> CreateRequest \<Rightarrow> Store \<Rightarrow> (code + Store \<times> DeclarationProto) option" where
  "api_CreateHoldingDeclaration env num u req s = run_then (Some (RequireUser u)) (\<lambda>user.
     let asOf = dateToTime (cr_AsOfDate req); basis = shareCountBasis (cr_ShareCountBasis req) asOf;
         h = (cr_Broker req, cr_Account req, cr_InstrumentID req) in
     if \<not> ParseFloat_ok (cr_DeclaredQty req) then Some (Inl InvalidArgument)
     else run_then (Some (start_for env user asOf s)) (\<lambda>start.
          run_then (Some (or_code Internal (padAfterWrite env user h '''' (Some (pending_row (cr_DeclaredQty req) asOf basis)) start s))) (\<lambda>pad.
          case hp_init pad of None \<Rightarrow> None | Some init \<Rightarrow>
            Some (sum_then (write_code (CreateDeclarationWithInitializeTx env num user (cr_Broker req) (cr_Account req) (cr_InstrumentID req)
                (cr_DeclaredQty req) asOf basis init s)) (\<lambda>(s', row). Inr (s', declarationToProto env (set_kind pad row)))))))"

definition owned_declaration :: "Env \<Rightarrow> string \<Rightarrow> string \<Rightarrow> Store \<Rightarrow> code + Declaration" where
  "owned_declaration env user i s = sum_then (or_code NotFound (GetHoldingDeclaration env i s)) (\<lambda>row.
     if dc_UserID (hr_Decl row) \<noteq> user then Inl NotFound else Inr (hr_Decl row))"

definition api_UpdateHoldingDeclaration ::
    "Env \<Rightarrow> (string \<Rightarrow> string option) \<Rightarrow> string option \<Rightarrow> UpdateRequest \<Rightarrow> Store \<Rightarrow> (code + Store \<times> DeclarationProto) option" where
  "api_UpdateHoldingDeclaration env num u req s = run_then (Some (RequireUser u)) (\<lambda>user.
     let asOf = dateToTime (ur_AsOfDate req) in
     if \<not> ParseFloat_ok (ur_DeclaredQty req) then Some (Inl InvalidArgument)
     else run_then (Some (owned_declaration env user (ur_ID req) s)) (\<lambda>old.
          run_then (Some (start_for env user asOf s)) (\<lambda>start.
          let basis = shareCountBasis (ur_ShareCountBasis req) (dc_ShareCountBasis old) in
          run_then (Some (or_code Internal (padAfterWrite env user (keyOf old) (dc_ID old) (Some (pending_row (ur_DeclaredQty req) asOf basis)) start s))) (\<lambda>pad.
          case hp_init pad of None \<Rightarrow> None | Some init \<Rightarrow>
            Some (sum_then (write_code (UpdateDeclarationWithInitializeTx env num (ur_ID req) (ur_DeclaredQty req) asOf basis user
                (dc_Broker old) (dc_Account old) (dc_InstrumentID old) init s)) (\<lambda>(s', row). Inr (s', declarationToProto env (set_kind pad row))))))))"

definition api_DeleteHoldingDeclaration :: "Env \<Rightarrow> string option \<Rightarrow> string \<Rightarrow> Store \<Rightarrow> code + Store" where
  "api_DeleteHoldingDeclaration env u i s = sum_then (RequireUser u) (\<lambda>user.
     if i = '''' then Inl InvalidArgument
     else sum_then (owned_declaration env user i s) (\<lambda>old.
       sum_then (or_code Internal (GetPortfolioStartDate env user s)) (\<lambda>start.
       sum_then (case start of None \<Rightarrow> Inr \<lparr>hp_init = None, hp_asOf = zero_time\<rparr>
           | Some t \<Rightarrow> or_code Internal (padAfterWrite env user (keyOf old) (dc_ID old) None t s)) (\<lambda>pad.
       or_code Internal (DeleteDeclarationWithInitializeTx env i user (dc_Broker old) (dc_Account old) (dc_InstrumentID old) (hp_init pad) s)))))"

subsection \<open>Recalculating every opening balance of a user\<close>

definition byHolding :: "Declaration list \<Rightarrow> (holdingKey \<times> Declaration list) list" where
  "byHolding ds = mm_build (map (\<lambda>d. (keyOf d, d)) ds)"

text \<open>A loop over calls that each commit or fail on their own: what was committed stays.\<close>

fun each_commits :: "('a \<Rightarrow> Store \<Rightarrow> string + Store) \<Rightarrow> 'a list \<Rightarrow> Store \<Rightarrow> Store \<times> string option" where
  "each_commits f [] s = (s, None)"
| "each_commits f (x # xs) s = (case f x s of Inl e \<Rightarrow> (s, Some e) | Inr s' \<Rightarrow> each_commits f xs s')"

definition delete_pad :: "Env \<Rightarrow> string \<Rightarrow> holdingKey \<Rightarrow> Store \<Rightarrow> string + Store" where
  "delete_pad env userID h s = DeleteInitializeTx env userID (fst h) (fst (snd h)) (snd (snd h)) s"

definition pruneBeforeStart :: "Env \<Rightarrow> Declaration list \<Rightarrow> time \<Rightarrow> Store \<Rightarrow> (Store \<times> string option) \<times> Declaration list" where
  "pruneBeforeStart env ds startDay s =
     (each_commits (\<lambda>d. DeleteHoldingDeclaration env (dc_ID d)) (filter (\<lambda>d. dc_AsOfDate d < startDay) ds) s,
      filter (\<lambda>d. \<not> dc_AsOfDate d < startDay) ds)"

definition recalcHoldingPad :: "Env \<Rightarrow> time \<Rightarrow> Declaration \<Rightarrow> Store \<Rightarrow> string + Store" where
  "recalcHoldingPad env startDay d s =
     sum_then (of_option ''parse declared_qty'' (env_parse_dec env (dc_DeclaredQty d))) (\<lambda>declared.
     sum_then (ComputeRunningBalance env (dc_UserID d) (dc_Broker d) (dc_Account d) (dc_InstrumentID d) startDay
         (dc_AsOfDate d + day_length) (dc_ShareCountBasis d) s) (\<lambda>balance.
       UpsertInitializeTx env (dc_UserID d) (dc_Broker d) (dc_Account d) (dc_InstrumentID d)
         \<lparr>it_Timestamp = startDay, it_Quantity = declared - balance, it_ShareCountBasis = dc_ShareCountBasis d\<rparr> s))"

text \<open>\<open>visit\<close> is the order \<open>range\<close> takes the entries of a map in: a permutation of them.\<close>

definition RecalcAllInitializeTxs ::
    "Env \<Rightarrow> ((holdingKey \<times> Declaration list) list \<Rightarrow> (holdingKey \<times> Declaration list) list) \<Rightarrow> string \<Rightarrow> Store
     \<Rightarrow> Store \<times> string option" where
  "RecalcAllInitializeTxs env visit userID s = (case ListHoldingDeclarations env userID s of
       Inl e \<Rightarrow> (s, Some e)
     | Inr rows \<Rightarrow> (let ds = map hr_Decl rows in
         if ds = [] then (s, None)
         else case GetPortfolioStartDate env userID s of
             Inl e \<Rightarrow> (s, Some e)
           | Inr None \<Rightarrow> each_commits (delete_pad env userID) (map fst (visit (byHolding ds))) s
           | Inr (Some start) \<Rightarrow>
               (let startDay = date_of start; (pruned, kept) = pruneBeforeStart env ds startDay s in
                case pruned of (s1, Some e) \<Rightarrow> (s1, Some e)
                | (s1, None) \<Rightarrow> (case each_commits (delete_pad env userID)
                      (filter (\<lambda>h. mm_get (byHolding kept) h = []) (map fst (visit (byHolding ds)))) s1 of
                    (s2, Some e) \<Rightarrow> (s2, Some e)
                  | (s2, None) \<Rightarrow> each_commits (recalcHoldingPad env startDay)
                      (List.map_filter (\<lambda>(h, ds). padDeclaration ds) (visit (byHolding kept))) s2))))"
end
