(* ===== verification/Opening_Balance.thy ===== *)
theory Opening_Balance
  imports Declarations
begin

text \<open>
  Opening balances in the ledger: what writing or deleting one does to the tables, that the ledger stays
  balanced and dated, that a holding has at most one opening balance, two legs alone in their group, and
  that no other posting and no other holding's opening balance is touched. Then the same on the store of
  declarations, with the invariant that the writes of declarations keep.
\<close>

subsection \<open>Opening balances in the ledger\<close>

abbreviation is_pad :: "Posting \<Rightarrow> bool" where
  "is_pad t \<equiv> t_Purpose t = Some InitializePurpose"

definition pad_owner :: "Posting \<Rightarrow> string \<times> string \<times> string \<times> string option" where
  "pad_owner t = (t_UserID t, t_Broker t, t_Account t, t_InstrumentID t)"

definition owner :: "string \<Rightarrow> holdingKey \<Rightarrow> string \<times> string \<times> string \<times> string option" where
  "owner user h = (user, fst h, fst (snd h), Some (snd (snd h)))"

lemma of_holding_owner: "of_holding user h t \<longleftrightarrow> pad_owner t = owner user h"
  by (auto simp: of_holding_def pad_owner_def owner_def)

lemma owner_inj [simp]: "owner user h = owner user' h' \<longleftrightarrow> user = user' \<and> h = h'"
  by (cases h, cases h') (auto simp: owner_def)

text \<open>
  The legs of an opening balance: of a holding, one per side, in a group that holds nothing else, with
  the user's own side among them.
\<close>

definition sides :: "string set" where "sides = {''USER'', ''EQUITY''}"
definition user_side :: string where "user_side = ''USER''"

definition pad_ok :: "Posting set \<Rightarrow> Posting \<Rightarrow> bool" where
  "pad_ok T t \<longleftrightarrow> t_AccountType t \<in> sides \<and> t_InstrumentID t \<noteq> None
     \<and> (\<forall>u \<in> T. is_pad u \<longrightarrow> pad_owner u = pad_owner t \<longrightarrow> t_AccountType u = t_AccountType t \<longrightarrow> u = t)
     \<and> (\<forall>u \<in> T. t_GroupID u = t_GroupID t \<longrightarrow> is_pad u \<and> pad_owner u = pad_owner t)
     \<and> (\<exists>u \<in> T. is_pad u \<and> pad_owner u = pad_owner t \<and> t_AccountType u = user_side \<and> t_GroupID u = t_GroupID t)"

definition pads_ok :: "Posting set \<Rightarrow> bool" where
  "pads_ok T \<longleftrightarrow> (\<forall>t \<in> T. is_pad t \<longrightarrow> pad_ok T t)"

lemma pads_okD:
  assumes "pads_ok T" "t \<in> T" "is_pad t"
  shows "t_AccountType t \<in> sides" "t_InstrumentID t \<noteq> None"
    and "u \<in> T \<Longrightarrow> is_pad u \<Longrightarrow> pad_owner u = pad_owner t \<Longrightarrow> t_AccountType u = t_AccountType t \<Longrightarrow> u = t"
    and "u \<in> T \<Longrightarrow> t_GroupID u = t_GroupID t \<Longrightarrow> is_pad u \<and> pad_owner u = pad_owner t"
    and "\<exists>u \<in> T. is_pad u \<and> pad_owner u = pad_owner t \<and> t_AccountType u = user_side \<and> t_GroupID u = t_GroupID t"
  using assms unfolding pads_ok_def pad_ok_def by blast+

lemma pads_ok_part:
  assumes "pads_ok T" and "\<And>t u. t \<in> T \<Longrightarrow> u \<in> T \<Longrightarrow> P t \<Longrightarrow> is_pad t \<Longrightarrow> is_pad u \<Longrightarrow> pad_owner u = pad_owner t \<Longrightarrow> P u"
  shows "pads_ok {t \<in> T. P t}"
  unfolding pads_ok_def
proof (intro ballI impI)
  fix t assume t: "t \<in> {t \<in> T. P t}" "is_pad t"
  then have "pad_ok T t" using assms(1) by (simp add: pads_ok_def)
  then show "pad_ok {t \<in> T. P t} t" unfolding pad_ok_def using t assms(2) [of t] by (elim conjE bexE) (intro conjI ballI impI; blast)
qed

lemma pads_ok_Un:
  assumes "pads_ok A" "pads_ok B" and "\<And>a b. a \<in> A \<Longrightarrow> b \<in> B \<Longrightarrow> t_GroupID a \<noteq> t_GroupID b \<and> \<not> (is_pad a \<and> is_pad b \<and> pad_owner a = pad_owner b)"
  shows "pads_ok (A \<union> B)"
proof -
  have "pad_ok (A \<union> B) t" if "t \<in> A" "is_pad t" for t
    using pads_okD [OF assms(1) that] assms(3) [OF that(1)] that(2) unfolding pad_ok_def by (metis UnE UnI1)
  moreover have "pad_ok (A \<union> B) t" if "t \<in> B" "is_pad t" for t
    using pads_okD [OF assms(2) that] assms(3) [OF _ that(1)] that(2) unfolding pad_ok_def by (metis UnE UnI2)
  ultimately show ?thesis unfolding pads_ok_def by blast
qed

lemma pads_one_group:
  assumes ok: "pads_ok T" and t: "t \<in> T" "is_pad t" and u: "u \<in> T" "is_pad u" and eq: "pad_owner u = pad_owner t"
  shows "t_GroupID u = t_GroupID t"
proof -
  obtain t' where t': "t' \<in> T" "is_pad t'" "pad_owner t' = pad_owner t" "t_AccountType t' = user_side" "t_GroupID t' = t_GroupID t"
    using pads_okD(5) [OF ok t] by blast
  obtain u' where u': "u' \<in> T" "is_pad u'" "pad_owner u' = pad_owner u" "t_AccountType u' = user_side" "t_GroupID u' = t_GroupID u"
    using pads_okD(5) [OF ok u] by blast
  have "u' = t'" using pads_okD(3) [OF ok t'(1,2) u'(1,2)] t' u' eq by simp
  then show ?thesis using t'(5) u'(5) by simp
qed

abbreviation pads_at :: "string \<Rightarrow> holdingKey \<Rightarrow> Ledger \<Rightarrow> Posting set" where
  "pads_at user h l \<equiv> {t \<in> set (l_txs l). is_pad t \<and> pad_owner t = owner user h}"

abbreviation plain :: "Ledger \<Rightarrow> Posting list" where
  "plain l \<equiv> filter (\<lambda>t. \<not> is_pad t) (l_txs l)"

lemma pad_of_iff: "pad_of user h acct t \<longleftrightarrow> is_pad t \<and> pad_owner t = owner user h \<and> t_AccountType t = acct"
  by (auto simp: pad_of_def of_holding_owner)

text \<open>What a leg is once it is written.\<close>

definition leg_is :: "string \<Rightarrow> holdingKey \<Rightarrow> string \<Rightarrow> string \<Rightarrow> string \<Rightarrow> decimal \<Rightarrow> InitializeTx \<Rightarrow> Posting \<Rightarrow> bool" where
  "leg_is user h c g acct q init t \<longleftrightarrow> pad_of user h acct t \<and> t_GroupID t = g \<and> t_Commodity t = c \<and> t_Weight t = q \<and> t_Quantity t = q
     \<and> t_OrderDate t = it_Timestamp init \<and> t_TradeDate t = it_Timestamp init
     \<and> t_ShareCountBasis t = Some (date_of (it_ShareCountBasis init))"

lemma restated_leg_simps [simp]:
  "t_ID (restated_leg c q init t) = t_ID t" "t_GroupID (restated_leg c q init t) = t_GroupID t"
  "t_UserID (restated_leg c q init t) = t_UserID t" "t_Purpose (restated_leg c q init t) = t_Purpose t"
  "pad_owner (restated_leg c q init t) = pad_owner t" "t_AccountType (restated_leg c q init t) = t_AccountType t"
  by (simp_all add: restated_leg_def pad_owner_def)

lemma upsert_leg_fields [simp]:
  "l_groups (upsert_leg env user h c g acct q init l) = l_groups l"
  "l_matches (upsert_leg env user h c g acct q init l) = l_matches l"
  by (simp_all add: upsert_leg_def)

lemma new_leg_is: "leg_is user h c g acct q init (new_leg env user h c g acct q init l)"
  by (simp add: leg_is_def new_leg_def pad_of_iff pad_owner_def owner_def)

lemma restated_leg_is: "pad_of user h acct t \<Longrightarrow> leg_is user h c (t_GroupID t) acct q init (restated_leg c q init t)"
  by (simp add: leg_is_def pad_of_iff) (simp add: restated_leg_def)

lemma upsert_leg_plain: "plain (upsert_leg env user h c g acct q init l) = plain l"
proof -
  have "filter (\<lambda>t. \<not> is_pad t) (map (\<lambda>t. if pad_of user h acct t then restated_leg c q init t else t) ts) = filter (\<lambda>t. \<not> is_pad t) ts" for ts
    by (induction ts) (auto simp: pad_of_iff)
  then show ?thesis by (simp add: upsert_leg_def new_leg_def)
qed

lemma upsert_leg_group:
  assumes grp: "\<And>t. t \<in> set (l_txs l) \<Longrightarrow> pad_of user h acct t \<Longrightarrow> t_GroupID t = g" and "g' \<noteq> g"
  shows "group_txs (upsert_leg env user h c g acct q init l) g' = group_txs l g'"
proof -
  have "filter (\<lambda>t. t_GroupID t = g') (map (\<lambda>t. if pad_of user h acct t then restated_leg c q init t else t) ts) = filter (\<lambda>t. t_GroupID t = g') ts"
    if "set ts \<subseteq> set (l_txs l)" for ts
    using that grp assms(2) by (induction ts) auto
  then show ?thesis using assms(2) by (simp add: upsert_leg_def group_txs_def new_leg_def)
qed

text \<open>One leg of the opening balance is written, the others keep their rows.\<close>

lemma upsert_leg_set:
  assumes one: "\<And>t u. t \<in> set (l_txs l) \<Longrightarrow> u \<in> set (l_txs l) \<Longrightarrow> pad_of user h acct t \<Longrightarrow> pad_of user h acct u \<Longrightarrow> t = u"
    and grp: "\<And>t. t \<in> set (l_txs l) \<Longrightarrow> pad_of user h acct t \<Longrightarrow> t_GroupID t = g"
  shows "\<exists>r. leg_is user h c g acct q init r
    \<and> set (l_txs (upsert_leg env user h c g acct q init l)) = insert r {t \<in> set (l_txs l). \<not> pad_of user h acct t}"
proof (cases "list_ex (pad_of user h acct) (l_txs l)")
  case True
  then obtain t where t: "t \<in> set (l_txs l)" "pad_of user h acct t" by (auto simp: list_ex_iff)
  have "set (l_txs (upsert_leg env user h c g acct q init l)) = insert (restated_leg c q init t) {t \<in> set (l_txs l). \<not> pad_of user h acct t}"
    using True t one by (auto simp: upsert_leg_def)
  then show ?thesis using restated_leg_is [OF t(2), of c q init] grp [OF t] by blast
next
  case False
  then have "set (l_txs (upsert_leg env user h c g acct q init l))
      = insert (new_leg env user h c g acct q init l) {t \<in> set (l_txs l). \<not> pad_of user h acct t}"
    by (auto simp: upsert_leg_def list_ex_iff)
  then show ?thesis using new_leg_is by blast
qed

text \<open>The ledger after \<open>UpsertInitializeTx\<close>, whose instrument decides the commodity.\<close>

definition write_pad :: "Env \<Rightarrow> string \<Rightarrow> holdingKey \<Rightarrow> string \<Rightarrow> InitializeTx \<Rightarrow> Ledger \<Rightarrow> Ledger" where
  "write_pad env user h c init l =
     (let (l1, g) = pad_group env user h (it_Timestamp init) l in
      date_group g (it_Timestamp init) (upsert_leg env user h c g ''EQUITY'' (- it_Quantity init) init
        (upsert_leg env user h c g ''USER'' (it_Quantity init) init l1)))"

lemma pad_group_keeps:
  assumes "pad_group env user h ts l = (l1, g)"
  shows "l_txs l1 = l_txs l" "l_matches l1 = l_matches l" "l_uuids l \<le> l_uuids l1"
  using assms by (auto simp: pad_group_def Let_def split: option.splits)

lemma find_pad_None:
  assumes ok: "pads_ok (set (l_txs l))" and none: "List.find (pad_of user h ''USER'') (l_txs l) = None"
  shows "pads_at user h l = {}"
proof -
  have "False" if "t \<in> set (l_txs l)" "is_pad t" "pad_owner t = owner user h" for t
    using pads_okD(5) [OF ok that(1,2)] that(3) none by (auto simp: find_None_iff pad_of_iff user_side_def)
  then show ?thesis by blast
qed

lemma find_pad_Some:
  assumes "List.find (pad_of user h ''USER'') (l_txs l) = Some t"
  shows "t \<in> pads_at user h l" "t_AccountType t = ''USER''"
  using assms by (auto simp: find_Some_iff pad_of_iff)

lemma fresh_group:
  assumes "env_ok env" "wf_ledger env l"
  shows "env_new_uuid env (l_uuids l) \<notin> tg_ID ` set (l_groups l)" "env_new_uuid env (l_uuids l) \<notin> t_ID ` set (l_txs l)"
    "env_new_uuid env (l_uuids l) \<notin> t_GroupID ` set (l_txs l)"
proof -
  have inj: "inj (env_new_uuid env)" using assms(1) by (simp add: env_ok_def)
  have new: "env_new_uuid env (l_uuids l) \<notin> issued env l" using inj by (auto dest: injD)
  have "t_GroupID t \<in> tg_ID ` set (l_groups l)" if "t \<in> set (l_txs l)" for t
    using assms(2) that unfolding wf_ledger_def by (metis imageI)
  then have groups: "t_GroupID ` set (l_txs l) \<subseteq> tg_ID ` set (l_groups l)" by (rule image_subsetI)
  have "tg_ID ` set (l_groups l) \<subseteq> issued env l" "t_ID ` set (l_txs l) \<subseteq> issued env l" using assms(2) by (simp_all add: wf_ledger_def)
  then show "env_new_uuid env (l_uuids l) \<notin> tg_ID ` set (l_groups l)" "env_new_uuid env (l_uuids l) \<notin> t_ID ` set (l_txs l)"
    using new by (metis subsetD)+
  then show "env_new_uuid env (l_uuids l) \<notin> t_GroupID ` set (l_txs l)" using groups by (metis subsetD)
qed

lemma pad_group_holds:
  assumes ok: "pads_ok (set (l_txs l))" and env: "env_ok env" and wf: "wf_ledger env l" and pg: "pad_group env user h ts l = (l1, g)"
  shows "{t \<in> set (l_txs l). t_GroupID t = g} = pads_at user h l"
proof (cases "List.find (pad_of user h ''USER'') (l_txs l)")
  case None
  then have "g = env_new_uuid env (l_uuids l)" using pg by (auto simp: pad_group_def Let_def)
  then have "{t \<in> set (l_txs l). t_GroupID t = g} = {}" using fresh_group(3) [OF env wf] by (force simp: image_iff)
  then show ?thesis unfolding find_pad_None [OF ok None] .
next
  case (Some t)
  then have g: "g = t_GroupID t" using pg by (auto simp: pad_group_def)
  have t: "t \<in> set (l_txs l)" "is_pad t" "pad_owner t = owner user h" using find_pad_Some(1) [OF Some] by auto
  show ?thesis using pads_okD(4) [OF ok t(1,2)] pads_one_group [OF ok t(1,2)] t(3) unfolding g by auto
qed

lemma pad_group_wf:
  assumes "env_ok env" "wf_ledger env l" "pad_group env user h ts l = (l1, g)"
  shows "wf_ledger env l1" "\<exists>x \<in> set (l_groups l1). tg_ID x = g \<and> tg_UserID x = user" "g \<in> issued env l1"
proof -
  note fresh = fresh_group [OF assms(1,2)]
  have user: "t_UserID t = user" if "List.find (pad_of user h ''USER'') (l_txs l) = Some t" for t
    using that by (auto simp: find_Some_iff pad_of_def of_holding_def)
  show wf1: "wf_ledger env l1"
  proof (cases "List.find (pad_of user h ''USER'') (l_txs l)")
    case None
    then have l1: "l1 = l\<lparr>l_groups := l_groups l @ [\<lparr>tg_ID = g, tg_UserID = user, tg_Timestamp = ts, tg_JobID = None\<rparr>], l_uuids := l_uuids l + 1\<rparr>"
      and g: "g = env_new_uuid env (l_uuids l)" using assms(3) by (auto simp: pad_group_def Let_def)
    have sub: "issued env l \<subseteq> issued env l1" by (rule issued_mono) (simp add: l1)
    have new: "g \<in> issued env l1" by (simp add: l1 g)
    show ?thesis using assms(2) fresh(1) subset_trans [OF _ sub] new unfolding wf_ledger_def g [symmetric] by (auto simp: l1)
  next
    case (Some t)
    then show ?thesis using assms(2,3) by (auto simp: pad_group_def)
  qed
  show x: "\<exists>x \<in> set (l_groups l1). tg_ID x = g \<and> tg_UserID x = user"
  proof (cases "List.find (pad_of user h ''USER'') (l_txs l)")
    case None
    then show ?thesis using assms(3) by (auto simp: pad_group_def Let_def)
  next
    case (Some t)
    then have "g = t_GroupID t" "l1 = l" "t \<in> set (l_txs l)" using assms(3) find_pad_Some(1) [OF Some] by (auto simp: pad_group_def)
    then show ?thesis using assms(2) user [OF Some] unfolding wf_ledger_def by blast
  qed
  have "tg_ID ` set (l_groups l1) \<subseteq> issued env l1" using wf1 by (simp add: wf_ledger_def)
  then show "g \<in> issued env l1" using x by (metis imageI subsetD)
qed

lemma wf_map_txs:
  assumes "\<And>t. t_ID (f t) = t_ID t" "\<And>t. t_GroupID (f t) = t_GroupID t" "\<And>t. t_UserID (f t) = t_UserID t"
  shows "wf_ledger env (l\<lparr>l_txs := map f (l_txs l)\<rparr>) = wf_ledger env l"
proof -
  have "t_ID \<circ> f = t_ID" using assms(1) by auto
  then show ?thesis using assms by (simp add: wf_ledger_def image_image)
qed

lemma upsert_leg_wf:
  assumes env: "env_ok env" and wf: "wf_ledger env l" and g: "\<exists>x \<in> set (l_groups l). tg_ID x = g \<and> tg_UserID x = user"
  shows "wf_ledger env (upsert_leg env user h c g acct q init l)"
proof (cases "list_ex (pad_of user h acct) (l_txs l)")
  case True
  then show ?thesis using wf by (simp add: upsert_leg_def wf_map_txs)
next
  case False
  have ids: "t_ID ` set (l_txs l) \<subseteq> issued env l" "tg_ID ` set (l_groups l) \<subseteq> issued env l" using wf by (simp_all add: wf_ledger_def)
  have mono: "issued env l \<subseteq> issued env (l\<lparr>l_txs := ts, l_uuids := l_uuids l + 1\<rparr>)" for ts by auto
  have new: "t_ID (new_leg env user h c g acct q init l) = env_new_uuid env (l_uuids l)" "t_GroupID (new_leg env user h c g acct q init l) = g"
    "t_UserID (new_leg env user h c g acct q init l) = user" by (simp_all add: new_leg_def)
  show ?thesis using False wf fresh_group(2) [OF env wf] order_trans [OF ids(1) mono] order_trans [OF ids(2) mono] g
    unfolding wf_ledger_def upsert_leg_def by (simp add: new)
qed

lemma date_group_txs: "l_txs (date_group g ts l) = l_txs l"
  by (simp add: date_group_def)

lemma date_group_wf [simp]: "wf_ledger env (date_group g ts l) = wf_ledger env l"
proof -
  define f where "f x = (if tg_ID x = g then x\<lparr>tg_Timestamp := ts\<rparr> else x)" for x :: TxGroup
  have f: "tg_ID (f x) = tg_ID x" "tg_UserID (f x) = tg_UserID x" for x by (simp_all add: f_def)
  have "tg_ID \<circ> f = tg_ID" using f by auto
  then show ?thesis unfolding date_group_def f_def [symmetric] by (simp add: wf_ledger_def image_image f)
qed

text \<open>What writing an opening balance comes to: its two legs alone in a group of their own.\<close>

definition padded :: "Env \<Rightarrow> string \<Rightarrow> holdingKey \<Rightarrow> string \<Rightarrow> InitializeTx \<Rightarrow> Ledger \<Rightarrow> Ledger \<Rightarrow> string \<Rightarrow> Posting \<Rightarrow> Posting \<Rightarrow> bool" where
  "padded env user h c init l l' g U E \<longleftrightarrow>
     leg_is user h c g ''USER'' (it_Quantity init) init U \<and> leg_is user h c g ''EQUITY'' (- it_Quantity init) init E
     \<and> set (l_txs l') = insert E (insert U (set (l_txs l) - pads_at user h l))
     \<and> {t \<in> set (l_txs l). t_GroupID t = g} = pads_at user h l \<and> plain l' = plain l
     \<and> (\<forall>g'. g' \<noteq> g \<longrightarrow> group_txs l' g' = group_txs l g')
     \<and> (\<forall>x \<in> set (l_groups l'). if tg_ID x = g then tg_Timestamp x = it_Timestamp init else x \<in> set (l_groups l))"

lemma group_pads_ok:
  assumes ok: "pads_ok (set (l_txs l))" and g: "{t \<in> set (l_txs l). t_GroupID t = g} = pads_at user h l"
    and t: "t \<in> set (l_txs l)" "pad_of user h acct t"
  shows "t_GroupID t = g" "u \<in> set (l_txs l) \<Longrightarrow> pad_of user h acct u \<Longrightarrow> t = u"
proof -
  have "t \<in> {t \<in> set (l_txs l). t_GroupID t = g}" unfolding g using t by (simp add: pad_of_iff)
  then show "t_GroupID t = g" by simp
  show "t = u" if "u \<in> set (l_txs l)" "pad_of user h acct u"
    using pads_okD(3) [OF ok that(1)] t that(2) by (simp add: pad_of_iff)
qed

lemma write_pad_padded:
  assumes ok: "pads_ok (set (l_txs l))" and env: "env_ok env" and wf: "wf_ledger env l"
  shows "wf_ledger env (write_pad env user h c init l)"
    and "\<exists>g U E. padded env user h c init l (write_pad env user h c init l) g U E"
proof -
  obtain l1 g where pg: "pad_group env user h (it_Timestamp init) l = (l1, g)" by fastforce
  note keep = pad_group_keeps [OF pg] and wf1 = pad_group_wf [OF env wf pg] and hold = pad_group_holds [OF ok env wf pg]
  note only = group_pads_ok [OF ok hold]
  let ?l2 = "upsert_leg env user h c g ''USER'' (it_Quantity init) init l1"
  let ?l3 = "upsert_leg env user h c g ''EQUITY'' (- it_Quantity init) init ?l2"
  have l': "write_pad env user h c init l = date_group g (it_Timestamp init) ?l3" by (simp add: write_pad_def pg)
  have wf2: "wf_ledger env ?l2" using upsert_leg_wf [OF env wf1(1,2)] .
  show "wf_ledger env (write_pad env user h c init l)" unfolding l' date_group_wf by (rule upsert_leg_wf [OF env wf2]) (simp add: wf1(2))
  obtain U where U: "leg_is user h c g ''USER'' (it_Quantity init) init U"
      "set (l_txs ?l2) = insert U {t \<in> set (l_txs l). \<not> pad_of user h ''USER'' t}"
    using upsert_leg_set [of l1 user h "''USER''" g c "it_Quantity init" init env] only unfolding keep(1) by blast
  have nU: "\<not> pad_of user h ''EQUITY'' U" using U(1) by (simp add: leg_is_def pad_of_iff)
  have old: "t \<in> set (l_txs l)" if "t \<in> set (l_txs ?l2)" "pad_of user h ''EQUITY'' t" for t using that nU unfolding U(2) by blast
  have one: "t = u" if "t \<in> set (l_txs ?l2)" "u \<in> set (l_txs ?l2)" "pad_of user h ''EQUITY'' t" "pad_of user h ''EQUITY'' u" for t u
    using only(2) [OF old [OF that(1,3)] that(3) old [OF that(2,4)] that(4)] .
  obtain E where E: "leg_is user h c g ''EQUITY'' (- it_Quantity init) init E"
      "set (l_txs ?l3) = insert E {t \<in> set (l_txs ?l2). \<not> pad_of user h ''EQUITY'' t}"
    using upsert_leg_set [of ?l2 user h "''EQUITY''" g c "- it_Quantity init" init env] one only(1) [OF old] by blast
  have acct: "pad_of user h ''USER'' t \<or> pad_of user h ''EQUITY'' t \<longleftrightarrow> is_pad t \<and> pad_owner t = owner user h" if "t \<in> set (l_txs l)" for t
    using pads_okD(1) [OF ok that] by (auto simp: pad_of_iff sides_def)
  have "set (l_txs (date_group g (it_Timestamp init) ?l3)) = insert E (insert U (set (l_txs l) - pads_at user h l))"
    unfolding date_group_txs E(2) U(2) using nU acct by blast
  moreover have "\<forall>x \<in> set (l_groups (date_group g (it_Timestamp init) ?l3)). if tg_ID x = g then tg_Timestamp x = it_Timestamp init else x \<in> set (l_groups l)"
    using pg by (auto simp: date_group_def pad_group_def Let_def split: option.splits)
  moreover have "plain (date_group g (it_Timestamp init) ?l3) = plain l" unfolding date_group_txs upsert_leg_plain keep(1) ..
  moreover have "group_txs (date_group g (it_Timestamp init) ?l3) g' = group_txs l g'" if "g' \<noteq> g" for g'
    using upsert_leg_group [of ?l2 user h "''EQUITY''" g g', OF only(1) [OF old] that] upsert_leg_group [of l1 user h "''USER''" g g', OF _ that] only(1)
    by (simp add: group_txs_def date_group_txs keep(1))
  ultimately have "padded env user h c init l (write_pad env user h c init l) g U E"
    unfolding l' padded_def by (intro conjI U(1) E(1) hold allI impI)
  then show "\<exists>g U E. padded env user h c init l (write_pad env user h c init l) g U E" by blast
qed

lemma padded_legs:
  assumes p: "padded env user h c init l l' g U E"
  shows "leg_is user h c g ''USER'' (it_Quantity init) init U" "leg_is user h c g ''EQUITY'' (- it_Quantity init) init E"
    and "pads_at user h l' = {U, E}" "U \<noteq> E" "set (group_txs l' g) = {U, E}"
    and "t \<in> set (l_txs l') \<Longrightarrow> t \<noteq> U \<Longrightarrow> t \<noteq> E \<Longrightarrow> t \<in> set (l_txs l) \<and> \<not> (is_pad t \<and> pad_owner t = owner user h) \<and> t_GroupID t \<noteq> g"
proof -
  note d = p [unfolded padded_def]
  show legs: "leg_is user h c g ''USER'' (it_Quantity init) init U" "leg_is user h c g ''EQUITY'' (- it_Quantity init) init E" using d by blast+
  have own: "is_pad U" "pad_owner U = owner user h" "t_AccountType U = ''USER''" "is_pad E" "pad_owner E = owner user h" "t_AccountType E = ''EQUITY''"
    and grp: "t_GroupID U = g" "t_GroupID E = g" using legs by (simp_all add: leg_is_def pad_of_iff)
  have txs: "set (l_txs l') = insert E (insert U (set (l_txs l) - pads_at user h l))" and g: "{t \<in> set (l_txs l). t_GroupID t = g} = pads_at user h l"
    using d by blast+
  show "pads_at user h l' = {U, E}" unfolding txs using own by auto
  show "U \<noteq> E" using own(3,6) by (intro notI) simp
  show "set (group_txs l' g) = {U, E}" unfolding group_txs_def set_filter txs using g grp by blast
  show "t \<in> set (l_txs l) \<and> \<not> (is_pad t \<and> pad_owner t = owner user h) \<and> t_GroupID t \<noteq> g"
    if "t \<in> set (l_txs l')" "t \<noteq> U" "t \<noteq> E" using that txs g by blast
qed

lemma padded_group_zero:
  assumes p: "padded env user h c init l l' g U E" and wf: "wf_ledger env l'"
  shows "weight_sum (l_txs l') g k = 0"
proof -
  have dist: "distinct (l_txs l')" using wf by (simp add: wf_ledger_def distinct_map)
  have w: "t_Weight U = it_Quantity init" "t_Weight E = - it_Quantity init" "t_Commodity U = c" "t_Commodity E = c"
    using padded_legs(1,2) [OF p] by (simp_all add: leg_is_def)
  have "weight_sum (l_txs l') g k = sum_list (map t_Weight (filter (\<lambda>t. t_Commodity t = k) (group_txs l' g)))"
    by (simp add: weight_sum_def group_txs_def conj_commute)
  also have "\<dots> = sum t_Weight {t \<in> {U, E}. t_Commodity t = k}"
    using dist by (subst sum_list_distinct_conv_sum_set) (simp_all add: group_txs_def padded_legs(5) [OF p, unfolded group_txs_def, symmetric])
  also have "\<dots> = 0"
  proof (cases "k = c")
    case True
    then have "{t \<in> {U, E}. t_Commodity t = k} = {U, E}" using w by auto
    then show ?thesis using padded_legs(4) [OF p] w by simp
  next
    case False
    then have "{t \<in> {U, E}. t_Commodity t = k} = {}" using w by auto
    then show ?thesis by (simp only: sum.empty)
  qed
  finally show ?thesis .
qed

lemma padded_ledger_ok:
  assumes p: "padded env user h c init l l' g U E" and wf: "wf_ledger env l'" and ok: "ledger_ok env l"
  shows "ledger_ok env l'"
proof -
  note d = p [unfolded padded_def]
  have same: "group_txs l' g' = group_txs l g'" if "g' \<noteq> g" for g' using d that by blast
  have legs: "t_OrderDate U = it_Timestamp init" "t_OrderDate E = it_Timestamp init" "\<not> t_Purpose U = Some RoutedPurpose" "\<not> t_Purpose E = Some RoutedPurpose"
    using padded_legs(1,2) [OF p] by (simp_all add: leg_is_def pad_of_iff InitializePurpose_def RoutedPurpose_def)
  have off: "balanced_off {g} l'" "single_off {g} l'"
    using off_cong(1,2) [of "{g}" l' l] same off_mono(1,2) [of "{}" "{g}" l] ok unfolding ledger_ok_def by auto
  have "residuals_in (l_txs l') g k = []" for k
    using padded_legs(5) [OF p] legs by (auto simp: filter_empty_conv group_txs_def)
  then have "length (residuals_in (l_txs l') g' k) \<le> 1" for g' k using off(2) by (cases "g' = g") (simp_all add: single_off_def)
  then have "single_off {} l'" by (simp add: single_off_def)
  moreover have "balanced_off {} l'" using off(1) padded_group_zero [OF p wf] unfolding balanced_off_def by (metis singletonD)
  moreover have "dated_off {} l'"
    unfolding dated_off_def
  proof (intro ballI impI)
    fix x assume x: "x \<in> set (l_groups l')"
    have xg: "if tg_ID x = g then tg_Timestamp x = it_Timestamp init else x \<in> set (l_groups l)" using d x by blast
    show "group_txs l' (tg_ID x) \<noteq> [] \<and> tg_Timestamp x = Min (set (map t_OrderDate (group_txs l' (tg_ID x))))"
    proof (cases "tg_ID x = g")
      case True
      have "t_OrderDate ` set (group_txs l' g) = {it_Timestamp init}" unfolding padded_legs(5) [OF p] using legs by simp
      moreover have "group_txs l' g \<noteq> []" using padded_legs(5) [OF p] by (metis empty_set insert_not_empty)
      ultimately show ?thesis using True xg by simp
    next
      case False
      then show ?thesis using xg same ok by (simp add: ledger_ok_def dated_off_def)
    qed
  qed
  ultimately show ?thesis using wf by (simp add: ledger_ok_def)
qed

lemma two_legs_ok:
  assumes "leg_is user h c g ''USER'' q init U" "leg_is user h c g ''EQUITY'' q' init E"
  shows "pads_ok {U, E}"
proof -
  have U: "is_pad U" "pad_owner U = owner user h" "t_AccountType U = ''USER''" "t_GroupID U = g" "t_InstrumentID U \<noteq> None"
    using assms(1) by (simp_all add: leg_is_def pad_of_def of_holding_owner of_holding_def) (auto simp: pad_owner_def owner_def)
  have E: "is_pad E" "pad_owner E = owner user h" "t_AccountType E = ''EQUITY''" "t_GroupID E = g" "t_InstrumentID E \<noteq> None"
    using assms(2) by (simp_all add: leg_is_def pad_of_def of_holding_owner of_holding_def) (auto simp: pad_owner_def owner_def)
  show ?thesis unfolding pads_ok_def pad_ok_def sides_def user_side_def using U E by simp
qed

lemma padded_pads_ok:
  assumes p: "padded env user h c init l l' g U E" and ok: "pads_ok (set (l_txs l))"
  shows "pads_ok (set (l_txs l'))"
proof -
  let ?rest = "{t \<in> set (l_txs l). \<not> (is_pad t \<and> pad_owner t = owner user h)}"
  have txs: "set (l_txs l') = {U, E} \<union> ?rest" and g: "{t \<in> set (l_txs l). t_GroupID t = g} = pads_at user h l"
    using p unfolding padded_def by blast+
  have mine: "pad_owner t = owner user h \<and> t_GroupID t = g" if "t \<in> {U, E}" for t
    using padded_legs(1,2) [OF p] that by (auto simp: leg_is_def pad_of_iff)
  have "t_GroupID t \<noteq> g" if "t \<in> ?rest" for t using g that by blast
  then have "t_GroupID a \<noteq> t_GroupID b \<and> \<not> (is_pad a \<and> is_pad b \<and> pad_owner a = pad_owner b)" if "a \<in> {U, E}" "b \<in> ?rest" for a b
    using mine [OF that(1)] that(2) by (metis (mono_tags, lifting) mem_Collect_eq)
  moreover have "pads_ok ?rest" using ok by (rule pads_ok_part) simp
  ultimately show ?thesis unfolding txs using two_legs_ok [OF padded_legs(1,2) [OF p]] by (intro pads_ok_Un)
qed

text \<open>Deleting an opening balance takes its two legs and their group, and nothing else.\<close>

lemma pad_groups_iff:
  assumes "wf_ledger env l"
  shows "g \<in> set (pad_groups user h l) \<longleftrightarrow> (\<exists>t \<in> pads_at user h l. t_GroupID t = g)"
proof
  assume "g \<in> set (pad_groups user h l)"
  then obtain x t where x: "x \<in> set (l_groups l)" "tg_ID x = g" "tg_UserID x = user"
    and t: "t \<in> set (l_txs l)" "t_GroupID t = g" "t_Broker t = fst h" "t_Account t = fst (snd h)" "t_InstrumentID t = Some (snd (snd h))" "is_pad t"
    unfolding pad_groups_def by (auto simp: list_ex_iff)
  obtain y where y: "y \<in> set (l_groups l)" "tg_ID y = t_GroupID t" "tg_UserID y = t_UserID t" using assms t(1) unfolding wf_ledger_def by metis
  have "distinct (map tg_ID (l_groups l))" using assms by (simp add: wf_ledger_def)
  then have "y = x" using x y t(2) by (metis distinct_map inj_onD)
  then show "\<exists>t \<in> pads_at user h l. t_GroupID t = g" using t x y by (auto simp: pad_owner_def owner_def)
next
  assume "\<exists>t \<in> pads_at user h l. t_GroupID t = g"
  then obtain t where t: "t \<in> set (l_txs l)" "is_pad t" "pad_owner t = owner user h" "t_GroupID t = g" by blast
  obtain y where y: "y \<in> set (l_groups l)" "tg_ID y = t_GroupID t" "tg_UserID y = t_UserID t" using assms t(1) unfolding wf_ledger_def by metis
  show "g \<in> set (pad_groups user h l)"
    unfolding pad_groups_def using t y by (auto simp: list_ex_iff pad_owner_def owner_def intro!: image_eqI [of _ _ y])
qed

definition drop_pad :: "string \<Rightarrow> holdingKey \<Rightarrow> Ledger \<Rightarrow> Ledger" where
  "drop_pad user h l = delete_groups (\<lambda>g. g \<in> set (pad_groups user h l)) l"

lemma drop_pad_txs:
  assumes wf: "wf_ledger env l" and ok: "pads_ok (set (l_txs l))"
  shows "l_txs (drop_pad user h l) = filter (\<lambda>t. \<not> (is_pad t \<and> pad_owner t = owner user h)) (l_txs l)"
proof -
  have "t_GroupID t \<in> set (pad_groups user h l) \<longleftrightarrow> is_pad t \<and> pad_owner t = owner user h" if t: "t \<in> set (l_txs l)" for t
  proof -
    have "is_pad t \<and> pad_owner t = owner user h" if "u \<in> pads_at user h l" "t_GroupID u = t_GroupID t" for u
      using pads_okD(4) [OF ok _ _ t, of u] that by simp
    then show ?thesis unfolding pad_groups_iff [OF wf] using t by blast
  qed
  then show ?thesis unfolding drop_pad_def delete_groups_def by (simp cong: filter_cong)
qed

lemma drop_pad_group:
  assumes "g \<notin> set (pad_groups user h l)"
  shows "group_txs (drop_pad user h l) g = group_txs l g"
  using assms unfolding drop_pad_def delete_groups_def group_txs_def by (simp, intro filter_cong) auto

lemma drop_pad_ledger_ok:
  assumes ok: "ledger_ok env l"
  shows "ledger_ok env (drop_pad user h l)"
proof -
  let ?G = "set (pad_groups user h l)" and ?l = "drop_pad user h l"
  have wf: "wf_ledger env l" using ok by (simp add: ledger_ok_def)
  have groups: "l_groups ?l = filter (\<lambda>g. tg_ID g \<notin> ?G) (l_groups l)" by (simp add: drop_pad_def delete_groups_def)
  have none: "group_txs ?l g = []" if "g \<in> ?G" for g using that by (auto simp: drop_pad_def delete_groups_def group_txs_def filter_empty_conv)
  have off: "balanced_off ?G ?l" "single_off ?G ?l"
    using off_cong(1,2) [of ?G ?l l, OF drop_pad_group] off_mono(1,2) [of "{}" ?G l] ok unfolding ledger_ok_def by auto
  have zero: "weight_sum (l_txs ?l) g c = 0 \<and> residuals_in (l_txs ?l) g c = []" if "g \<in> ?G" for g c
    using none [OF that] by (auto simp: group_txs_def filter_empty_conv intro: weight_sum_none)
  have "balanced_off {} ?l" using off(1) zero unfolding balanced_off_def by blast
  moreover have "single_off {} ?l" unfolding single_off_def
  proof (intro allI impI)
    fix g c show "length (residuals_in (l_txs ?l) g c) \<le> 1" using off(2) zero [of g c] by (cases "g \<in> ?G") (simp_all add: single_off_def)
  qed
  moreover have "dated_off {} ?l" using ok drop_pad_group unfolding ledger_ok_def dated_off_def groups by simp
  moreover have "wf_ledger env ?l"
  proof -
    have sub: "set (l_txs ?l) \<subseteq> set (l_txs l)" "set (l_groups ?l) \<subseteq> set (l_groups l)" "l_uuids ?l = l_uuids l" by (auto simp: drop_pad_def delete_groups_def)
    have "distinct (map t_ID (l_txs ?l))" "distinct (map tg_ID (l_groups ?l))"
      using wf by (simp_all add: wf_ledger_def drop_pad_def delete_groups_def distinct_map_filter)
    moreover have "t_ID ` set (l_txs ?l) \<subseteq> issued env ?l" "tg_ID ` set (l_groups ?l) \<subseteq> issued env ?l"
      using wf image_mono [OF sub(1), of t_ID] image_mono [OF sub(2), of tg_ID] unfolding wf_ledger_def sub(3) by (metis order_trans)+
    moreover have "\<exists>g \<in> set (l_groups ?l). tg_ID g = t_GroupID t \<and> tg_UserID g = t_UserID t" if "t \<in> set (l_txs ?l)" for t
    proof -
      have "t \<in> set (l_txs l)" "t_GroupID t \<notin> ?G" using that by (auto simp: drop_pad_def delete_groups_def)
      moreover obtain y where "y \<in> set (l_groups l)" "tg_ID y = t_GroupID t" "tg_UserID y = t_UserID t"
        using wf calculation(1) unfolding wf_ledger_def by metis
      ultimately show ?thesis unfolding groups by (intro bexI [of _ y]) simp_all
    qed
    moreover have "tm_FromGroupID m \<in> tg_ID ` set (l_groups ?l) \<and> tm_ToGroupID m \<in> tg_ID ` set (l_groups ?l)" if "m \<in> set (l_matches ?l)" for m
      using wf that unfolding wf_ledger_def by (auto simp: drop_pad_def delete_groups_def)
    ultimately show ?thesis unfolding wf_ledger_def by blast
  qed
  ultimately show ?thesis by (simp add: ledger_ok_def)
qed

lemma drop_pad_pads_ok:
  assumes "wf_ledger env l" "pads_ok (set (l_txs l))"
  shows "pads_ok (set (l_txs (drop_pad user h l)))"
  unfolding drop_pad_txs [OF assms] set_filter using assms(2) by (rule pads_ok_part) simp

subsection \<open>The store\<close>

definition decl_ok :: "Env \<Rightarrow> Store \<Rightarrow> Declaration \<Rightarrow> bool" where
  "decl_ok env s d \<longleftrightarrow> dc_InstrumentID d \<in> instrument_ids (ds_master s) \<and> env_parse_uuid env (dc_UserID d) = Some (dc_UserID d)
     \<and> env_parse_uuid env (dc_InstrumentID d) = Some (dc_InstrumentID d) \<and> env_parse_uuid env (dc_ID d) = Some (dc_ID d)
     \<and> date_of (dc_AsOfDate d) = dc_AsOfDate d \<and> date_of (dc_ShareCountBasis d) = dc_ShareCountBasis d"

definition decls_ok :: "Env \<Rightarrow> Store \<Rightarrow> bool" where
  "decls_ok env s \<longleftrightarrow> distinct (map dc_ID (ds_decls s)) \<and> dc_ID ` set (ds_decls s) \<subseteq> issued env (ds_ledger s)
     \<and> (\<forall>d \<in> set (ds_decls s). \<forall>e \<in> set (ds_decls s). same_statement d e \<longrightarrow> d = e)
     \<and> (\<forall>d \<in> set (ds_decls s). decl_ok env s d) \<and> sm_declared (ds_master s) = map dc_InstrumentID (ds_decls s)"

text \<open>The postings the user holds are the ones a source reported and the opening balances.\<close>

definition holdings_real :: "Ledger \<Rightarrow> bool" where
  "holdings_real l \<longleftrightarrow> (\<forall>t \<in> set (l_txs l). t_AccountType t = user_side \<longrightarrow> t_Purpose t \<noteq> None \<longrightarrow> is_pad t)"

definition core_ok :: "Env \<Rightarrow> Store \<Rightarrow> bool" where
  "core_ok env s \<longleftrightarrow> ledger_ok env (ds_ledger s) \<and> pads_ok (set (l_txs (ds_ledger s))) \<and> holdings_real (ds_ledger s) \<and> decls_ok env s"

definition declared_for :: "string \<Rightarrow> holdingKey \<Rightarrow> Store \<Rightarrow> Declaration set" where
  "declared_for user h s = {d \<in> set (ds_decls s). dc_UserID d = user \<and> keyOf d = h}"

definition pads_declared :: "Store \<Rightarrow> bool" where
  "pads_declared s \<longleftrightarrow> (\<forall>user h. pads_at user h (ds_ledger s) \<noteq> {} \<longrightarrow> declared_for user h s \<noteq> {})"

definition store_ok :: "Env \<Rightarrow> Store \<Rightarrow> bool" where
  "store_ok env s \<longleftrightarrow> core_ok env s \<and> pads_declared s"

text \<open>A step that writes the opening balances of some holdings and nothing else.\<close>

definition pads_only :: "(string \<times> holdingKey) set \<Rightarrow> Store \<Rightarrow> Store \<Rightarrow> bool" where
  "pads_only H s s' \<longleftrightarrow> s' = set_ledger (ds_ledger s') s \<and> plain (ds_ledger s') = plain (ds_ledger s)
     \<and> l_uuids (ds_ledger s) \<le> l_uuids (ds_ledger s')
     \<and> (\<forall>user h. (user, h) \<notin> H \<longrightarrow> pads_at user h (ds_ledger s') = pads_at user h (ds_ledger s))"

lemma set_ledger_simps [simp]:
  "ds_ledger (set_ledger l s) = l" "ds_decls (set_ledger l s) = ds_decls s" "set_ledger (ds_ledger s) s = s"
  "set_ledger l (set_ledger l' s) = set_ledger l s" "sm_instruments (ds_master (set_ledger l s)) = sm_instruments (ds_master s)"
  "sm_splits (ds_master (set_ledger l s)) = sm_splits (ds_master s)" "sm_now (ds_master (set_ledger l s)) = sm_now (ds_master s)"
  "sm_declared (ds_master (set_ledger l s)) = sm_declared (ds_master s)"
  by (simp_all add: set_ledger_def)

lemma set_decls_simps [simp]:
  "ds_ledger (set_decls ds s) = ds_ledger s" "ds_decls (set_decls ds s) = ds"
  "sm_instruments (ds_master (set_decls ds s)) = sm_instruments (ds_master s)" "sm_splits (ds_master (set_decls ds s)) = sm_splits (ds_master s)"
  "sm_now (ds_master (set_decls ds s)) = sm_now (ds_master s)" "sm_declared (ds_master (set_decls ds s)) = map dc_InstrumentID ds"
  by (simp_all add: set_decls_def)

lemma pads_only_at: "pads_only H s s' \<Longrightarrow> (user, h) \<notin> H \<Longrightarrow> pads_at user h (ds_ledger s') = pads_at user h (ds_ledger s)"
  unfolding pads_only_def by (elim conjE) blast

lemma pads_only_refl: "pads_only H s s"
  by (simp add: pads_only_def)

lemma pads_only_trans: "pads_only H s s1 \<Longrightarrow> pads_only H' s1 s2 \<Longrightarrow> pads_only (H \<union> H') s s2"
proof -
  assume a: "pads_only H s s1" and b: "pads_only H' s1 s2"
  have "s2 = set_ledger (ds_ledger s2) (set_ledger (ds_ledger s1) s)" using a b unfolding pads_only_def by (elim conjE) (erule subst, assumption)
  then have "s2 = set_ledger (ds_ledger s2) s" by (simp only: set_ledger_simps(4))
  moreover have "l_uuids (ds_ledger s) \<le> l_uuids (ds_ledger s2)" using a b unfolding pads_only_def by (elim conjE) (rule order_trans)
  moreover have "pads_at user h (ds_ledger s2) = pads_at user h (ds_ledger s)" if "(user, h) \<notin> H \<union> H'" for user h
    using pads_only_at [OF a, of user h] pads_only_at [OF b, of user h] that by simp
  ultimately show ?thesis using a b unfolding pads_only_def by simp
qed

lemma pads_only_mono: "pads_only H s s' \<Longrightarrow> H \<subseteq> H' \<Longrightarrow> pads_only H' s s'"
  unfolding pads_only_def by (elim conjE) (intro conjI allI impI; blast)

lemma pads_only_store:
  assumes "pads_only H s s'"
  shows "ds_decls s' = ds_decls s" "sm_instruments (ds_master s') = sm_instruments (ds_master s)"
    "sm_splits (ds_master s') = sm_splits (ds_master s)" "sm_now (ds_master s') = sm_now (ds_master s)"
    "sm_declared (ds_master s') = sm_declared (ds_master s)"
  using assms unfolding pads_only_def by (metis set_ledger_simps)+

lemma pads_only_decls_ok:
  assumes p: "pads_only H s s'" and ok: "decls_ok env s"
  shows "decls_ok env s'"
proof -
  note same = pads_only_store [OF p]
  have "decl_ok env s' d = decl_ok env s d" for d by (simp add: decl_ok_def same)
  moreover have "dc_ID ` set (ds_decls s) \<subseteq> issued env (ds_ledger s')"
    using ok issued_mono [of "ds_ledger s" "ds_ledger s'" env] p unfolding decls_ok_def pads_only_def by (metis order_trans)
  ultimately show ?thesis using ok by (simp add: decls_ok_def same)
qed

lemma write_pad_uuids: "l_uuids l \<le> l_uuids (write_pad env user h c init l)"
proof -
  obtain l1 g where pg: "pad_group env user h (it_Timestamp init) l = (l1, g)" by fastforce
  show ?thesis using pad_group_keeps(3) [OF pg] by (simp add: write_pad_def pg date_group_def upsert_leg_def)
qed

text \<open>Both ways an opening balance is settled, on the store.\<close>

lemma UpsertInitializeTx_writes:
  assumes "UpsertInitializeTx env userID broker account instID init s = Inr s'"
    and "env_parse_uuid env userID = Some user" "env_parse_uuid env instID = Some inst" "inst \<in> instrument_ids (ds_master s)"
  shows "\<exists>i. List.find (\<lambda>i. in_ID i = inst) (sm_instruments (ds_master s)) = Some i
    \<and> s' = set_ledger (write_pad env user (broker, account, inst) (pad_commodity i) init (ds_ledger s)) s"
proof -
  obtain i where i: "List.find (\<lambda>i. in_ID i = inst) (sm_instruments (ds_master s)) = Some i"
    using assms(4) by (cases "List.find (\<lambda>i. in_ID i = inst) (sm_instruments (ds_master s))") (auto simp: find_None_iff)
  then have "s' = set_ledger (write_pad env user (broker, account, inst) (pad_commodity i) init (ds_ledger s)) s"
    using assms(1-3) by (simp add: UpsertInitializeTx_def of_option_def sum_then_def write_pad_def Let_def split: prod.splits)
  then show ?thesis using i by blast
qed

lemma UpsertInitializeTx_settles:
  assumes up: "UpsertInitializeTx env userID broker account instID init s = Inr s'" and env: "env_ok env" and ok: "core_ok env s"
    and ids: "env_parse_uuid env userID = Some user" "env_parse_uuid env instID = Some inst" "inst \<in> instrument_ids (ds_master s)"
  shows "core_ok env s'" "pads_only {(user, broker, account, inst)} s s'"
    and "\<exists>i g U E. List.find (\<lambda>i. in_ID i = inst) (sm_instruments (ds_master s)) = Some i
      \<and> padded env user (broker, account, inst) (pad_commodity i) init (ds_ledger s) (ds_ledger s') g U E"
proof -
  let ?h = "(broker, account, inst)"
  obtain i where i: "List.find (\<lambda>i. in_ID i = inst) (sm_instruments (ds_master s)) = Some i" and s': "s' = set_ledger (write_pad env user ?h (pad_commodity i) init (ds_ledger s)) s"
    using UpsertInitializeTx_writes [OF up ids] by blast
  have pk: "pads_ok (set (l_txs (ds_ledger s)))" and lk: "ledger_ok env (ds_ledger s)" and hk: "holdings_real (ds_ledger s)" and dk: "decls_ok env s"
    using ok by (simp_all add: core_ok_def)
  then have wf: "wf_ledger env (ds_ledger s)" by (simp add: ledger_ok_def)
  note w = write_pad_padded [OF pk env wf, of user ?h "pad_commodity i" init]
  obtain g U E where p: "padded env user ?h (pad_commodity i) init (ds_ledger s) (ds_ledger s') g U E" using w(2) unfolding s' by auto
  then show "\<exists>i g U E. List.find (\<lambda>i. in_ID i = inst) (sm_instruments (ds_master s)) = Some i
    \<and> padded env user ?h (pad_commodity i) init (ds_ledger s) (ds_ledger s') g U E" using i by blast
  have wf': "wf_ledger env (ds_ledger s')" using w(1) by (simp add: s')
  have txs: "set (l_txs (ds_ledger s')) = insert E (insert U (set (l_txs (ds_ledger s)) - pads_at user ?h (ds_ledger s)))"
    and plain: "plain (ds_ledger s') = plain (ds_ledger s)" using p unfolding padded_def by blast+
  have mine: "is_pad U" "is_pad E" "pad_owner U = owner user ?h" "pad_owner E = owner user ?h"
    using padded_legs(1,2) [OF p] by (simp_all add: leg_is_def pad_of_iff)
  have "pads_at u h' (ds_ledger s') = pads_at u h' (ds_ledger s)" if "(u, h') \<noteq> (user, ?h)" for u h'
  proof -
    have "owner u h' \<noteq> owner user ?h" using that by simp
    then show ?thesis unfolding txs using mine by auto
  qed
  then show only: "pads_only {(user, ?h)} s s'"
    unfolding pads_only_def using plain write_pad_uuids [of "ds_ledger s" env user ?h "pad_commodity i" init] by (simp add: s')
  have "holdings_real (ds_ledger s')" using hk mine unfolding holdings_real_def txs by auto
  then show "core_ok env s'"
    using padded_ledger_ok [OF p wf' lk] padded_pads_ok [OF p pk] pads_only_decls_ok [OF only dk] by (simp add: core_ok_def)
qed

lemma DeleteInitializeTx_settles:
  assumes del: "DeleteInitializeTx env userID broker account instID s = Inr s'" and ok: "core_ok env s"
    and ids: "env_parse_uuid env userID = Some user" "env_parse_uuid env instID = Some inst"
  shows "core_ok env s'" "pads_only {(user, broker, account, inst)} s s'" "pads_at user (broker, account, inst) (ds_ledger s') = {}"
proof -
  let ?h = "(broker, account, inst)" and ?l = "ds_ledger s"
  have s': "s' = set_ledger (drop_pad user ?h ?l) s"
    using del ids by (simp add: DeleteInitializeTx_def of_option_def sum_then_def drop_pad_def)
  have pk: "pads_ok (set (l_txs ?l))" and lk: "ledger_ok env ?l" and hk: "holdings_real ?l" and dk: "decls_ok env s"
    using ok by (simp_all add: core_ok_def)
  then have wf: "wf_ledger env ?l" by (simp add: ledger_ok_def)
  note txs = drop_pad_txs [OF wf pk, of user ?h]
  have "pads_at u h' (drop_pad user ?h ?l) = pads_at u h' ?l" if "(u, h') \<noteq> (user, ?h)" for u h'
    unfolding txs using that owner_inj [of u h' user ?h] by (auto simp del: owner_inj)
  moreover have "plain (drop_pad user ?h ?l) = plain ?l" unfolding txs by (simp, intro filter_cong) auto
  moreover have "l_uuids (drop_pad user ?h ?l) = l_uuids ?l" by (simp add: drop_pad_def delete_groups_def)
  ultimately show only: "pads_only {(user, ?h)} s s'" unfolding pads_only_def by (simp add: s')
  show "pads_at user ?h (ds_ledger s') = {}" unfolding s' by (simp add: txs)
  have "holdings_real (ds_ledger s')" using hk unfolding s' holdings_real_def by (simp add: txs)
  then show "core_ok env s'"
    using drop_pad_ledger_ok [OF lk] drop_pad_pads_ok [OF wf pk] pads_only_decls_ok [OF only dk] by (simp add: core_ok_def s')
qed

end
