(* ===== verification/Declarations_Correct.thy ===== *)
theory Declarations_Correct
  imports Opening_Balance
begin

text \<open>
  What the writes of declarations and the recalculation keep and achieve: the invariant of the store,
  the opening balance that makes the earliest declaration of a holding true, exactly and after every
  write, and the recalculation that settles every holding of a user and changes nothing when it is run
  again. Then what the check of the later declarations allows, what a quantity that only one of the two
  parsers reads does, and what an instrument id in another spelling does.
\<close>

subsection \<open>Quantities\<close>

text \<open>What the store's division is relied on for: a product divided by a factor gives the other one.\<close>

definition exact_div :: "Env \<Rightarrow> bool" where
  "exact_div env \<longleftrightarrow> (\<forall>a b. b \<noteq> 0 \<longrightarrow> env_div env (a * b) b = a)"

text \<open>The checks of \<open>stock_splits\<close>, on the columns as they are read.\<close>

definition splits_ok :: "Env \<Rightarrow> Master \<Rightarrow> bool" where
  "splits_ok env m \<longleftrightarrow> (\<forall>s \<in> set (sm_splits m). 0 < dec_or_zero (env_parse_dec env) (sp_SplitTo s) \<and> 0 < dec_or_zero (env_parse_dec env) (sp_SplitFrom s))"

lemma prod_list_pos: "(\<And>x. x \<in> set xs \<Longrightarrow> 0 < f x) \<Longrightarrow> 0 < prod_list (map f xs)" for f :: "'a \<Rightarrow> rat"
  by (induction xs) auto

lemma split_factor_pos:
  assumes "splits_ok env m" "split_factor_at env m inst b = (n, d)"
  shows "0 < n" "0 < d"
  using assms unfolding split_factor_at_def splits_ok_def by (auto simp: Let_def intro!: prod_list_pos)

lemma converted_same: "exact_div env \<Longrightarrow> splits_ok env m \<Longrightarrow> converted env m inst b b q = q"
proof -
  assume e: "exact_div env" and p: "splits_ok env m"
  obtain n d where nd: "split_factor_at env m inst b = (n, d)" by fastforce
  have "d * n \<noteq> 0" using split_factor_pos [OF p nd] by simp
  then have "env_div env (q * (d * n)) (d * n) = q" using e unfolding exact_div_def by blast
  then show ?thesis by (simp add: converted_def nd ac_simps)
qed

text \<open>The total over the bases, and what one more posting in the target basis adds to it.\<close>

lemma total_insert:
  fixes q :: "'a \<Rightarrow> decimal" and conv :: "'b \<Rightarrow> decimal \<Rightarrow> decimal"
  assumes fin: "finite R" and U: "U \<notin> R" and same: "\<And>x. conv (pb U) x = x"
  defines "amount \<equiv> \<lambda>T. \<Sum>b \<in> pb ` T. conv b (sum q {t \<in> T. pb t = b})"
  shows "amount (insert U R) = amount R + q U"
proof -
  let ?B = "pb U" and ?S = "\<lambda>b. sum q {t \<in> R. pb t = b}"
  have other: "{t \<in> insert U R. pb t = b} = {t \<in> R. pb t = b}" if "b \<noteq> ?B" for b using that by auto
  have own: "sum q {t \<in> insert U R. pb t = ?B} = ?S ?B + q U"
  proof -
    have "{t \<in> insert U R. pb t = ?B} = insert U {t \<in> R. pb t = ?B}" by auto
    then show ?thesis using fin U by simp
  qed
  have "amount (insert U R) = conv ?B (?S ?B + q U) + (\<Sum>b \<in> pb ` R - {?B}. conv b (?S b))"
    unfolding amount_def image_insert using fin other own by (simp add: sum.insert_remove)
  moreover have "amount R = ?S ?B + (\<Sum>b \<in> pb ` R - {?B}. conv b (?S b))"
  proof (cases "?B \<in> pb ` R")
    case True
    then show ?thesis unfolding amount_def using fin same by (simp add: sum.remove)
  next
    case False
    then have "{t \<in> R. pb t = ?B} = {}" by (metis (mono_tags, lifting) Collect_empty_eq imageI)
    then have "?S ?B = 0" by (simp only: sum.empty)
    then show ?thesis unfolding amount_def using False by simp
  qed
  ultimately show ?thesis using same by simp
qed

lemma basis_sum_set:
  "distinct ts \<Longrightarrow> basis_sum (filter P ts) x = sum t_Quantity {t \<in> {t \<in> set ts. P t}. posting_basis t = x}"
  unfolding basis_sum_def by (subst sum_list_distinct_conv_sum_set) (simp_all add: conj_assoc)

lemma computed_as_sum:
  assumes "distinct (l_txs (sm_ledger m))"
  shows "ck_ComputedQty (holding_qty_in_basis env m user h f b basis syn) =
    (let T = {t \<in> set (l_txs (sm_ledger m)). counted user h f b syn t} in
     \<Sum>x \<in> posting_basis ` T. converted env m (snd (snd h)) x basis (sum t_Quantity {t \<in> T. posting_basis t = x}))"
  using basis_sum_set [OF assms] assms by (simp add: holding_qty_in_basis_def Let_def sum_list_distinct_conv_sum_set)

lemma split_factor_frame:
  assumes "sm_instruments m' = sm_instruments m" "sm_splits m' = sm_splits m" "sm_now m' = sm_now m"
  shows "split_factor_at env m' inst b = split_factor_at env m inst b"
  by (simp add: split_factor_at_def assms CURRENT_DATE_def)

definition same_world :: "Master \<Rightarrow> Master \<Rightarrow> bool" where
  "same_world m m' \<longleftrightarrow> sm_instruments m' = sm_instruments m \<and> sm_splits m' = sm_splits m \<and> sm_now m' = sm_now m
     \<and> plain (sm_ledger m') = plain (sm_ledger m)"

lemma counted_plain: "filter (counted user h f b False) (l_txs l) = filter (counted user h f b False) (plain l)"
  by (simp, intro filter_cong) (auto simp: counted_def)

lemma real_quantity_frame:
  assumes "same_world m m'"
  shows "holding_qty_in_basis env m' user h f b basis False = holding_qty_in_basis env m user h f b basis False"
proof -
  have "split_factor_at env m' inst x = split_factor_at env m inst x" for inst x
    using assms by (intro split_factor_frame) (simp_all add: same_world_def)
  moreover have "filter (counted user h f b False) (l_txs (sm_ledger m')) = filter (counted user h f b False) (l_txs (sm_ledger m))"
    using assms counted_plain [of user h f b "sm_ledger m"] counted_plain [of user h f b "sm_ledger m'"] by (simp add: same_world_def)
  moreover from calculation(1) have "converted env m' = converted env m" "inexact_basis env m' = inexact_basis env m"
    by (auto simp: fun_eq_iff converted_def inexact_basis_def)
  ultimately show ?thesis by (simp only: holding_qty_in_basis_def)
qed

lemma splits_ok_frame: "same_world m m' \<Longrightarrow> splits_ok env m' = splits_ok env m"
  by (simp add: same_world_def splits_ok_def)

definition started :: "string \<Rightarrow> Store \<Rightarrow> time option" where
  "started user s = least_of (map t_OrderDate (filter (\<lambda>t. t_UserID t = user \<and> t_Purpose t = None \<and> t_AccountType t = ''USER'') (l_txs (ds_ledger s))))"

lemma GetPortfolioStartDate_started:
  "GetPortfolioStartDate env userID s = Inr start \<longleftrightarrow> (\<exists>user. env_parse_uuid env userID = Some user \<and> start = started user s)"
  by (auto simp: GetPortfolioStartDate_def started_def sum_then_def of_option_def split: option.splits)

lemma started_frame: "same_world (ds_master s) (ds_master s') \<Longrightarrow> started user s' = started user s"
proof -
  have *: "filter (\<lambda>t. t_UserID t = user \<and> t_Purpose t = None \<and> t_AccountType t = ''USER'') (l_txs l)
      = filter (\<lambda>t. t_UserID t = user \<and> t_Purpose t = None \<and> t_AccountType t = ''USER'') (plain l)" for l
    by (simp, intro filter_cong) auto
  assume "same_world (ds_master s) (ds_master s')"
  then show ?thesis unfolding started_def * by (simp add: same_world_def)
qed

lemma started_first:
  assumes "started user s = Some start" "t \<in> set (l_txs (ds_ledger s))" "t_UserID t = user" "t_Purpose t = None" "t_AccountType t = ''USER''"
  shows "start \<le> t_OrderDate t"
proof -
  let ?D = "map t_OrderDate (filter (\<lambda>t. t_UserID t = user \<and> t_Purpose t = None \<and> t_AccountType t = ''USER'') (l_txs (ds_ledger s)))"
  have "t_OrderDate t \<in> set ?D" using assms(2-5) by auto
  moreover have "start = Min (set ?D)" using assms(1) unfolding started_def least_of_def by (auto split: if_splits)
  ultimately show ?thesis by (simp only: Min_le List.finite_set)
qed

lemma date_of_le: "date_of t \<le> t"
  by (simp add: date_of_def utc_day_def day_length_def)

lemma date_of_mult [simp]: "date_of (k * day_length) = k * day_length"
  by (simp add: date_of_def utc_day_def day_length_def)

lemma date_of_date_of [simp]: "date_of (date_of t) = date_of t"
  by (simp add: date_of_def [of t])

lemma dateToTime_midnight [simp]: "date_of (dateToTime d) = dateToTime d"
proof -
  have "date_of (time_at y m d) = time_at y m d" for y m d by (simp only: time_at_def Let_def date_of_mult)
  then show ?thesis by (simp add: dateToTime_def zero_time_def split: option.split)
qed

subsection \<open>The opening balance makes the earliest declaration true\<close>

definition running :: "Env \<Rightarrow> Store \<Rightarrow> time \<Rightarrow> Declaration \<Rightarrow> decimal" where
  "running env s day d = ck_ComputedQty (holding_qty_in_basis env (ds_master s) (dc_UserID d) (keyOf d) (Some day)
     (Some (dc_AsOfDate d + day_length)) (dc_ShareCountBasis d) False)"

definition pad_for :: "Env \<Rightarrow> Store \<Rightarrow> time \<Rightarrow> Declaration \<Rightarrow> decimal \<Rightarrow> InitializeTx" where
  "pad_for env s day d q = \<lparr>it_Timestamp = day, it_Quantity = q - running env s day d, it_ShareCountBasis = dc_ShareCountBasis d\<rparr>"

text \<open>The holding of a declaration has the opening balance the declaration asks for.\<close>

definition pad_settles :: "Env \<Rightarrow> time \<Rightarrow> Declaration \<Rightarrow> Store \<Rightarrow> bool" where
  "pad_settles env day d s \<longleftrightarrow> (\<exists>q i g U E. env_parse_dec env (dc_DeclaredQty d) = Some q
     \<and> List.find (\<lambda>i. in_ID i = dc_InstrumentID d) (sm_instruments (ds_master s)) = Some i \<and> pads_at (dc_UserID d) (keyOf d) (ds_ledger s) = {U, E}
     \<and> leg_is (dc_UserID d) (keyOf d) (pad_commodity i) g ''USER'' (it_Quantity (pad_for env s day d q)) (pad_for env s day d q) U
     \<and> leg_is (dc_UserID d) (keyOf d) (pad_commodity i) g ''EQUITY'' (- it_Quantity (pad_for env s day d q)) (pad_for env s day d q) E)"

definition declaration_true :: "Env \<Rightarrow> Store \<Rightarrow> Declaration \<Rightarrow> bool" where
  "declaration_true env s d \<longleftrightarrow> env_parse_dec env (dc_DeclaredQty d) = Some (ck_ComputedQty (declarationVerify env s d))"

lemma counted_with_pad:
  assumes real: "holdings_real (ds_ledger s)" and at: "pads_at user h (ds_ledger s) = {U, E}"
    and U: "t_AccountType U = ''USER''" "t_Purpose U = Some InitializePurpose" "pad_owner U = owner user h" "t_OrderDate U < b" and E: "t_AccountType E = ''EQUITY''"
    and start: "\<And>t. t \<in> set (l_txs (ds_ledger s)) \<Longrightarrow> t_UserID t = user \<Longrightarrow> t_Purpose t = None \<Longrightarrow> t_AccountType t = ''USER'' \<Longrightarrow> day \<le> t_OrderDate t"
  shows "{t \<in> set (l_txs (ds_ledger s)). counted user h None (Some b) True t}
    = insert U {t \<in> set (l_txs (ds_ledger s)). counted user h (Some day) (Some b) False t}" (is "?A = insert U ?B")
proof (intro set_eqI iffI)
  fix t assume "t \<in> ?A"
  then have t: "t \<in> set (l_txs (ds_ledger s))" "of_holding user h t" "t_AccountType t = ''USER''" "t_OrderDate t < b" by (simp_all add: counted_def)
  show "t \<in> insert U ?B"
  proof (cases "t_Purpose t = None")
    case True
    then show ?thesis using t start [OF t(1)] by (simp add: counted_def of_holding_def)
  next
    case False
    then have "is_pad t" using real t(1,3) unfolding holdings_real_def user_side_def by blast
    then have "t \<in> {U, E}" unfolding at [symmetric] using t(1,2) by (simp add: of_holding_owner)
    then have "t = U" using t(3) E by (elim insertE emptyE) simp_all
    then show ?thesis by simp
  qed
next
  fix t assume "t \<in> insert U ?B"
  moreover have "U \<in> ?A"
  proof -
    have "U \<in> pads_at user h (ds_ledger s)" unfolding at by simp
    then show ?thesis using U by (simp add: counted_def of_holding_owner)
  qed
  moreover have "t \<in> ?A" if "t \<in> ?B" using that by (simp add: counted_def)
  ultimately show "t \<in> ?A" by blast
qed

lemma pad_settles_true:
  assumes settles: "pad_settles env day d s" and ok: "core_ok env s" and d: "decl_ok env s d"
    and div: "exact_div env" "splits_ok env (ds_master s)" and day: "day \<le> dc_AsOfDate d"
    and start: "\<And>t. t \<in> set (l_txs (ds_ledger s)) \<Longrightarrow> t_UserID t = dc_UserID d \<Longrightarrow> t_Purpose t = None \<Longrightarrow> t_AccountType t = ''USER'' \<Longrightarrow> day \<le> t_OrderDate t"
  shows "declaration_true env s d"
proof -
  let ?u = "dc_UserID d" and ?h = "keyOf d" and ?l = "ds_ledger s" and ?b = "dc_AsOfDate d + day_length" and ?m = "ds_master s" and ?s = "dc_ShareCountBasis d"
  obtain q c g U E where q: "env_parse_dec env (dc_DeclaredQty d) = Some q" and at: "pads_at ?u ?h ?l = {U, E}"
    and U: "leg_is ?u ?h c g ''USER'' (it_Quantity (pad_for env s day d q)) (pad_for env s day d q) U"
    and E: "leg_is ?u ?h c g ''EQUITY'' (- it_Quantity (pad_for env s day d q)) (pad_for env s day d q) E"
    using settles unfolding pad_settles_def by blast
  have u: "t_AccountType U = ''USER''" "is_pad U" "pad_owner U = owner ?u ?h" "t_OrderDate U = day" "t_Quantity U = q - running env s day d"
    "posting_basis U = ?s" and e: "t_AccountType E = ''EQUITY''"
    using U E d by (simp_all add: leg_is_def pad_of_iff pad_for_def posting_basis_def decl_ok_def)
  have before: "t_OrderDate U < ?b" using u(4) day by (simp add: day_length_def)
  have dist: "distinct (l_txs ?l)" using ok by (simp add: core_ok_def ledger_ok_def wf_ledger_def distinct_map)
  let ?R = "{t \<in> set (l_txs ?l). counted ?u ?h (Some day) (Some ?b) False t}"
  let ?conv = "\<lambda>x. converted env ?m (snd (snd ?h)) x ?s"
  have real: "holdings_real ?l" using ok by (simp add: core_ok_def)
  have sets: "{t \<in> set (l_txs ?l). counted ?u ?h None (Some ?b) True t} = insert U ?R"
    by (rule counted_with_pad [OF real at u(1-3) before e]) (rule start)
  have notin: "U \<notin> ?R" using u(2) by (simp add: counted_def)
  have same: "?conv (posting_basis U) x = x" for x unfolding u(6) by (rule converted_same [OF div])
  have "ck_ComputedQty (declarationVerify env s d) = (\<Sum>x \<in> posting_basis ` insert U ?R. ?conv x (sum t_Quantity {t \<in> insert U ?R. posting_basis t = x}))"
    unfolding declarationVerify_def computed_as_sum [OF dist] Let_def sets ..
  also have "\<dots> = (\<Sum>x \<in> posting_basis ` ?R. ?conv x (sum t_Quantity {t \<in> ?R. posting_basis t = x})) + t_Quantity U"
    by (rule total_insert [of ?R U ?conv posting_basis t_Quantity]) (simp_all only: notin same finite_filter not_False_eq_True, simp)
  also have "\<dots> = q" unfolding u(5) running_def computed_as_sum [OF dist] Let_def by simp
  finally show ?thesis using q by (simp add: declaration_true_def)
qed

lemma padDeclaration_from_least:
  "padDeclaration_from pad ds = Some p \<Longrightarrow> (p \<in> set ds \<or> pad = Some p) \<and> (\<forall>e \<in> set ds. dc_AsOfDate p \<le> dc_AsOfDate e)
     \<and> (\<forall>x. pad = Some x \<longrightarrow> dc_AsOfDate p \<le> dc_AsOfDate x)"
proof (induction ds arbitrary: pad)
  case (Cons d ds)
  show ?case using Cons.IH [OF Cons.prems [unfolded padDeclaration_from.simps]] by (cases pad) (auto split: if_splits)
qed simp

lemma padDeclaration_least:
  assumes "padDeclaration ds = Some p"
  shows "p \<in> set ds" "e \<in> set ds \<Longrightarrow> dc_AsOfDate p \<le> dc_AsOfDate e"
  using padDeclaration_from_least [OF assms [unfolded padDeclaration_def]] by auto

lemma padDeclaration_None: "padDeclaration ds = None \<longleftrightarrow> ds = []"
proof -
  have "padDeclaration_from (Some p) ds \<noteq> None" for p ds by (induction ds arbitrary: p) auto
  then show ?thesis by (cases ds) (simp_all add: padDeclaration_def)
qed

text \<open>The rows the handler chooses among stand for the rows the store will hold.\<close>

definition agrees :: "Env \<Rightarrow> Declaration \<Rightarrow> Declaration \<Rightarrow> bool" where
  "agrees env x y \<longleftrightarrow> dc_AsOfDate x = dc_AsOfDate y \<and> date_of (dc_ShareCountBasis x) = dc_ShareCountBasis y
     \<and> (\<forall>q. env_parse_dec env (dc_DeclaredQty x) = Some q \<longrightarrow> env_parse_dec env (dc_DeclaredQty y) = Some q)"

lemma kind_pad_least:
  assumes "declarationKind (ds_decls s) d = KIND_PAD" "e \<in> declared_for (dc_UserID d) (keyOf d) s"
  shows "dc_AsOfDate d \<le> dc_AsOfDate e"
  using assms by (auto simp: declarationKind_def declared_for_def list_all_iff split: if_splits)

lemma pad_choice:
  assumes p: "padDeclaration ds = Some p" and d: "d \<in> declared_for user h s" "declarationKind (ds_decls s) d = KIND_PAD"
    and ok: "decls_ok env s" and to: "\<And>x. x \<in> set ds \<Longrightarrow> \<exists>y \<in> declared_for user h s. agrees env x y"
    and onto: "\<And>y. y \<in> declared_for user h s \<Longrightarrow> \<exists>x \<in> set ds. agrees env x y"
  shows "agrees env p d"
proof -
  have dd: "dc_UserID d = user" "keyOf d = h" "d \<in> set (ds_decls s)" using d(1) by (simp_all add: declared_for_def)
  obtain y where y: "y \<in> declared_for user h s" "agrees env p y" using to [OF padDeclaration_least(1) [OF p]] by blast
  obtain x where x: "x \<in> set ds" "agrees env x d" using onto [OF d(1)] by blast
  have "dc_AsOfDate d \<le> dc_AsOfDate y" using kind_pad_least [OF d(2)] y(1) dd by simp
  moreover have "dc_AsOfDate p \<le> dc_AsOfDate x" by (rule padDeclaration_least(2) [OF p x(1)])
  ultimately have "dc_AsOfDate d = dc_AsOfDate y" using x(2) y(2) by (simp add: agrees_def)
  then have "same_statement d y" using y(1) dd by (simp add: same_statement_def declared_for_def)
  then have "d = y" using ok dd(3) y(1) unfolding decls_ok_def declared_for_def by blast
  then show ?thesis using y(2) by simp
qed

lemma pads_only_same_world: "pads_only H s s' \<Longrightarrow> same_world (ds_master s) (ds_master s')"
  using pads_only_store [of H s s'] unfolding same_world_def by (simp add: pads_only_def)

lemma same_world_trans: "same_world m m1 \<Longrightarrow> same_world m1 m2 \<Longrightarrow> same_world m m2"
  by (simp add: same_world_def)

lemma leg_is_cong:
  "leg_is user h c g acct q init t \<Longrightarrow> it_Timestamp init' = it_Timestamp init
     \<Longrightarrow> date_of (it_ShareCountBasis init') = date_of (it_ShareCountBasis init) \<Longrightarrow> leg_is user h c g acct q init' t"
  by (simp add: leg_is_def)

lemma upsert_pad_settles:
  assumes comp: "computeInitializeValues env userID h (dc_DeclaredQty p) (dc_AsOfDate p) (dc_ShareCountBasis p) start s = Inr init"
    and up: "UpsertInitializeTx env userID (fst h) (fst (snd h)) (snd (snd h)) init s1 = Inr s'"
    and world: "same_world (ds_master s) (ds_master s1)" and env: "env_ok env" and ok: "core_ok env s1"
    and user: "env_parse_uuid env userID = Some (dc_UserID d)" and h: "keyOf d = h" and d: "decl_ok env s1 d" and agree: "agrees env p d"
  shows "pad_settles env (date_of start) d s'"
proof -
  let ?u = "dc_UserID d" and ?day = "date_of start"
  have hh: "(fst h, fst (snd h), snd (snd h)) = h" "dc_InstrumentID d = snd (snd h)" using h by (auto simp: keyOf_def)
  have inst: "env_parse_uuid env (snd (snd h)) = Some (snd (snd h))" "snd (snd h) \<in> instrument_ids (ds_master s1)"
    using d unfolding decl_ok_def hh(2) by blast+
  have ag: "dc_AsOfDate p = dc_AsOfDate d" "date_of (dc_ShareCountBasis p) = dc_ShareCountBasis d" "date_of (dc_ShareCountBasis d) = dc_ShareCountBasis d"
    using agree by (simp_all add: agrees_def) (metis date_of_date_of)
  obtain q where q: "env_parse_dec env (dc_DeclaredQty p) = Some q" and init: "it_Timestamp init = ?day" "it_ShareCountBasis init = dc_ShareCountBasis p"
    "it_Quantity init = q - running env s ?day d"
    using comp user inst(1) by (auto simp: computeInitializeValues_def ComputeRunningBalance_def sum_then_def of_option_def running_def ag h split: option.splits)
  have q': "env_parse_dec env (dc_DeclaredQty d) = Some q" using agree q by (simp add: agrees_def)
  note s' = UpsertInitializeTx_settles [OF up env ok user inst, unfolded hh(1)]
  obtain i g U E where i: "List.find (\<lambda>i. in_ID i = snd (snd h)) (sm_instruments (ds_master s1)) = Some i"
    and p: "padded env ?u h (pad_commodity i) init (ds_ledger s1) (ds_ledger s') g U E" using s'(3) by blast
  have i': "List.find (\<lambda>i. in_ID i = dc_InstrumentID d) (sm_instruments (ds_master s')) = Some i"
    using i by (simp add: pads_only_store(2) [OF s'(2)] hh(2))
  have "same_world (ds_master s) (ds_master s')" using same_world_trans [OF world pads_only_same_world [OF s'(2)]] .
  then have "running env s' ?day d = running env s ?day d" unfolding running_def by (simp add: real_quantity_frame)
  then have pf: "it_Quantity (pad_for env s' ?day d q) = it_Quantity init" "it_Timestamp (pad_for env s' ?day d q) = it_Timestamp init"
    "date_of (it_ShareCountBasis (pad_for env s' ?day d q)) = date_of (it_ShareCountBasis init)"
    using init ag by (simp_all add: pad_for_def)
  note legs = leg_is_cong [OF padded_legs(1) [OF p] pf(2,3)] leg_is_cong [OF padded_legs(2) [OF p] pf(2,3)]
  show ?thesis unfolding pad_settles_def h
    by (intro exI conjI, rule q', rule i', rule padded_legs(3) [OF p]) (use legs in \<open>simp_all only: pf(1)\<close>)
qed

subsection \<open>Writes of declarations keep the store\<close>

lemma decl_ok_frame [simp]: "decl_ok env (set_decls ds s) d = decl_ok env s d" "decl_ok env (set_ledger l s) d = decl_ok env s d"
  by (simp_all add: decl_ok_def)

definition bumped :: "Store \<Rightarrow> Store" where
  "bumped s = set_ledger ((ds_ledger s)\<lparr>l_uuids := l_uuids (ds_ledger s) + 1\<rparr>) s"

lemma bumped_simps [simp]:
  "l_txs (ds_ledger (bumped s)) = l_txs (ds_ledger s)" "ds_decls (bumped s) = ds_decls s" "l_uuids (ds_ledger (bumped s)) = Suc (l_uuids (ds_ledger s))"
  "decl_ok env (bumped s) d = decl_ok env s d"
  by (simp_all add: bumped_def)

lemma bumped_ok: "core_ok env s \<Longrightarrow> core_ok env (bumped s)"
proof -
  let ?l = "ds_ledger s" and ?l' = "(ds_ledger s)\<lparr>l_uuids := Suc (l_uuids (ds_ledger s))\<rparr>"
  assume ok: "core_ok env s"
  have sub: "issued env ?l \<subseteq> issued env ?l'" by (rule issued_mono) simp
  have "wf_ledger env ?l'"
    using ok subset_trans [OF _ sub] unfolding core_ok_def ledger_ok_def wf_ledger_def by simp
  moreover have "dated_off {} ?l' = dated_off {} ?l" "balanced_off {} ?l' = balanced_off {} ?l" "single_off {} ?l' = single_off {} ?l"
    "holdings_real ?l' = holdings_real ?l"
    by (simp_all add: dated_off_def balanced_off_def single_off_def group_txs_def holdings_real_def)
  moreover have "decls_ok env (bumped s)"
    using ok subset_trans [OF _ sub] unfolding core_ok_def decls_ok_def by (simp add: bumped_def)
  ultimately show ?thesis using ok by (simp add: core_ok_def ledger_ok_def bumped_def)
qed

lemma set_decls_ok:
  assumes "core_ok env s" "distinct (map dc_ID ds)" "dc_ID ` set ds \<subseteq> issued env (ds_ledger s)"
    and "\<And>d e. d \<in> set ds \<Longrightarrow> e \<in> set ds \<Longrightarrow> same_statement d e \<Longrightarrow> d = e" "\<And>d. d \<in> set ds \<Longrightarrow> decl_ok env s d"
  shows "core_ok env (set_decls ds s)"
  using assms unfolding core_ok_def decls_ok_def by simp

lemma core_okD:
  assumes "core_ok env s"
  shows "distinct (map dc_ID (ds_decls s))" "dc_ID ` set (ds_decls s) \<subseteq> issued env (ds_ledger s)"
    and "d \<in> set (ds_decls s) \<Longrightarrow> e \<in> set (ds_decls s) \<Longrightarrow> same_statement d e \<Longrightarrow> d = e"
    and "d \<in> set (ds_decls s) \<Longrightarrow> decl_ok env s d"
  using assms unfolding core_ok_def decls_ok_def by blast+

lemma same_world_decls: "same_world (ds_master s) (ds_master (set_decls ds s))" "same_world (ds_master s) (ds_master (set_decls ds (bumped s)))"
  by (simp_all add: same_world_def bumped_def)

text \<open>The row an insert stores.\<close>

lemma declaration_row_ok:
  assumes row: "declaration_row env num userID broker account instID qty asOf basis s = Inr d" and env: "env_ok env"
  shows "dc_ID d = env_new_uuid env (l_uuids (ds_ledger s))" "env_parse_uuid env userID = Some (dc_UserID d)"
    "dc_Broker d = broker" "dc_Account d = account" "env_parse_uuid env instID = Some (dc_InstrumentID d)" "num qty = Some (dc_DeclaredQty d)"
    "dc_AsOfDate d = date_of asOf" "dc_ShareCountBasis d = date_of (if basis = zero_time then asOf else basis)"
    and "dc_InstrumentID d \<in> instrument_ids (ds_master s) \<Longrightarrow> decl_ok env s d"
proof -
  show f: "dc_ID d = env_new_uuid env (l_uuids (ds_ledger s))" "env_parse_uuid env userID = Some (dc_UserID d)"
    "dc_Broker d = broker" "dc_Account d = account" "env_parse_uuid env instID = Some (dc_InstrumentID d)" "num qty = Some (dc_DeclaredQty d)"
    "dc_AsOfDate d = date_of asOf" "dc_ShareCountBasis d = date_of (if basis = zero_time then asOf else basis)"
    using row by (auto simp: declaration_row_def sum_then_def or_other_def of_option_def split: option.splits)
  show "decl_ok env s d" if "dc_InstrumentID d \<in> instrument_ids (ds_master s)"
    using env f that unfolding decl_ok_def env_ok_def by (metis date_of_date_of)
qed

lemma insert_declaration_ok:
  assumes row: "declaration_row env num userID broker account instID qty asOf basis s = Inr d" and env: "env_ok env" and ok: "core_ok env s"
    and new: "\<not> list_ex (same_statement d) (ds_decls s)" and ins: "insert_declaration d s = Inr s1"
  shows "core_ok env s1" "s1 = set_decls (ds_decls s @ [d]) (bumped s)" "decl_ok env s d"
proof -
  show s1: "s1 = set_decls (ds_decls s @ [d]) (bumped s)" and dk: "decl_ok env s d"
    using ins declaration_row_ok(9) [OF row env] by (auto simp: insert_declaration_def bumped_def split: if_splits)
  have id: "dc_ID d \<notin> issued env (ds_ledger s)" using env declaration_row_ok(1) [OF row env] by (auto simp: env_ok_def dest: injD)
  have sub: "issued env (ds_ledger s) \<subseteq> issued env (ds_ledger (bumped s))" by (rule issued_mono) simp
  have fresh: "dc_ID d \<notin> dc_ID ` set (ds_decls s)" using id core_okD(2) [OF ok] by (metis subsetD)
  have "dc_ID d \<in> issued env (ds_ledger (bumped s))" using declaration_row_ok(1) [OF row env] by simp
  then have "dc_ID ` set (ds_decls s @ [d]) \<subseteq> issued env (ds_ledger (bumped s))" using subset_trans [OF core_okD(2) [OF ok] sub] by simp
  moreover have "x = y" if "x \<in> set (ds_decls s @ [d])" "y \<in> set (ds_decls s @ [d])" "same_statement x y" for x y
  proof -
    have "\<not> same_statement d z" "\<not> same_statement z d" if "z \<in> set (ds_decls s)" for z
      using new that by (auto simp: list_ex_iff same_statement_def)
    then show ?thesis using that core_okD(3) [OF ok] by auto
  qed
  ultimately show "core_ok env s1" unfolding s1
    using core_okD(1,4) [OF ok] fresh dk by (intro set_decls_ok bumped_ok ok) auto
qed

lemma CreateHoldingDeclaration_ok:
  assumes "CreateHoldingDeclaration env num userID broker account instID qty asOf basis s = Inr (s1, row)" "env_ok env" "core_ok env s"
  shows "\<exists>d. declaration_row env num userID broker account instID qty asOf basis s = Inr d \<and> row = written_row d
    \<and> core_ok env s1 \<and> s1 = set_decls (ds_decls s @ [d]) (bumped s) \<and> decl_ok env s d"
proof -
  obtain d where d: "declaration_row env num userID broker account instID qty asOf basis s = Inr d" "\<not> list_ex (same_statement d) (ds_decls s)"
    "insert_declaration d s = Inr s1" "row = written_row d"
    using assms(1) unfolding CreateHoldingDeclaration_def by (auto simp: sum_then_Inr or_other_def split: if_splits sum.splits)
  then show ?thesis using insert_declaration_ok [OF d(1) assms(2,3) d(2,3)] by blast
qed

lemma map_decls_ok:
  assumes ok: "core_ok env s" and id: "\<And>e. dc_ID (f e) = dc_ID e"
    and one: "\<And>d e. d \<in> set (ds_decls s) \<Longrightarrow> e \<in> set (ds_decls s) \<Longrightarrow> same_statement (f d) (f e) \<Longrightarrow> dc_ID d = dc_ID e"
    and dk: "\<And>d. d \<in> set (ds_decls s) \<Longrightarrow> decl_ok env s (f d)"
  shows "core_ok env (set_decls (map f (ds_decls s)) s)"
proof -
  have "dc_ID \<circ> f = dc_ID" using id by auto
  moreover have "d = e" if "d \<in> set (ds_decls s)" "e \<in> set (ds_decls s)" "dc_ID d = dc_ID e" for d e
    using core_okD(1) [OF ok] that by (metis distinct_map inj_onD)
  moreover from this have "f d = f e" if "d \<in> set (ds_decls s)" "e \<in> set (ds_decls s)" "same_statement (f d) (f e)" for d e
    using one [OF that] that(1,2) by metis
  ultimately show ?thesis using core_okD(1,2) [OF ok] dk by (intro set_decls_ok ok) (auto simp: image_image id)
qed

lemma UpdateHoldingDeclaration_ok:
  assumes up: "UpdateHoldingDeclaration env num i qty asOf basis s = Inr (s1, row)" and ok: "core_ok env s"
  shows "\<exists>old q d. env_parse_uuid env i = Some (dc_ID old) \<and> old \<in> set (ds_decls s) \<and> num qty = Some q
    \<and> d = restated q asOf basis old \<and> row = written_row d \<and> core_ok env s1 \<and> decl_ok env s d
    \<and> s1 = set_decls (map (\<lambda>e. if dc_ID e = dc_ID old then d else e) (ds_decls s)) s"
proof -
  obtain declID q old d where *: "env_parse_uuid env i = Some declID" "num qty = Some q" "List.find (\<lambda>d. dc_ID d = declID) (ds_decls s) = Some old"
    and d: "d = restated q asOf basis old"
    and new: "\<not> list_ex (\<lambda>e. dc_ID e \<noteq> declID \<and> same_statement d e) (ds_decls s)"
    and s1: "s1 = set_decls (map (\<lambda>e. if dc_ID e = declID then d else e) (ds_decls s)) s" "row = written_row d"
    using up unfolding UpdateHoldingDeclaration_def
    by (auto simp: sum_then_Inr or_other_def of_option_def Let_def split: if_splits sum.splits option.splits)
  have old: "old \<in> set (ds_decls s)" "dc_ID old = declID" using *(3) by (auto simp: find_Some_iff)
  have dk: "decl_ok env s d" using core_okD(4) [OF ok old(1)] by (simp add: d decl_ok_def restated_def)
  have id: "dc_ID d = declID" by (simp add: d old(2) restated_def)
  have none: "dc_ID e = declID" if "e \<in> set (ds_decls s)" "same_statement d e \<or> same_statement e d" for e
    using new that by (auto simp: list_ex_iff same_statement_def)
  have "core_ok env s1" unfolding s1(1)
  proof (rule map_decls_ok [OF ok])
    fix x y assume "x \<in> set (ds_decls s)" "y \<in> set (ds_decls s)"
      "same_statement (if dc_ID x = declID then d else x) (if dc_ID y = declID then d else y)"
    then show "dc_ID x = dc_ID y" using none core_okD(3) [OF ok] by (auto split: if_splits)
  qed (use id dk core_okD(4) [OF ok] in auto)
  then show ?thesis using * d s1 old dk by blast
qed

lemma DeleteHoldingDeclaration_ok:
  assumes "DeleteHoldingDeclaration env i s = Inr s1" "core_ok env s"
  shows "\<exists>old \<in> set (ds_decls s). env_parse_uuid env i = Some (dc_ID old) \<and> core_ok env s1
    \<and> s1 = set_decls (filter (\<lambda>d. dc_ID d \<noteq> dc_ID old) (ds_decls s)) s"
proof -
  obtain old where old: "old \<in> set (ds_decls s)" "env_parse_uuid env i = Some (dc_ID old)"
    and s1: "s1 = set_decls (filter (\<lambda>d. dc_ID d \<noteq> dc_ID old) (ds_decls s)) s"
    using assms(1) unfolding DeleteHoldingDeclaration_def by (auto simp: sum_then_Inr of_option_def list_ex_iff split: if_splits option.splits)
  have "dc_ID ` set (filter (\<lambda>d. dc_ID d \<noteq> dc_ID old) (ds_decls s)) \<subseteq> issued env (ds_ledger s)"
    by (rule subset_trans [OF image_mono core_okD(2) [OF assms(2)]]) auto
  then have "core_ok env s1" unfolding s1
    using core_okD(1,3,4) [OF assms(2)] by (intro set_decls_ok assms(2)) (auto simp: distinct_map_filter)
  then show ?thesis using old s1 by blast
qed

lemma pads_declaredD: "pads_declared s \<Longrightarrow> pads_at user h (ds_ledger s) \<noteq> {} \<Longrightarrow> declared_for user h s \<noteq> {}"
  unfolding pads_declared_def by blast

lemma pads_declared_step:
  assumes only: "pads_only H s1 s'"
    and off: "\<And>user h. (user, h) \<notin> H \<Longrightarrow> pads_at user h (ds_ledger s1) \<noteq> {} \<Longrightarrow> declared_for user h s1 \<noteq> {}"
    and on: "\<And>user h. (user, h) \<in> H \<Longrightarrow> pads_at user h (ds_ledger s') \<noteq> {} \<Longrightarrow> declared_for user h s1 \<noteq> {}"
  shows "pads_declared s'"
proof -
  have "declared_for user h s' = declared_for user h s1" for user h by (simp add: declared_for_def pads_only_store(1) [OF only])
  then show ?thesis unfolding pads_declared_def
  proof (intro allI impI)
    fix user h assume "pads_at user h (ds_ledger s') \<noteq> {}"
    then have "declared_for user h s1 \<noteq> {}" using off [of user h] on [of user h] pads_only_at [OF only, of user h] by (cases "(user, h) \<in> H") simp_all
    then show "declared_for user h s' \<noteq> {}" by (simp add: declared_for_def pads_only_store(1) [OF only])
  qed
qed

subsection \<open>The handlers\<close>

lemma padAfterWrite_picks:
  assumes pad: "padAfterWrite env userID h excl pending start s = Inr pad" and init: "hp_init pad = Some init"
  shows "\<exists>user ds p. env_parse_uuid env userID = Some user \<and> padDeclaration ds = Some p
    \<and> set ds = {d \<in> declared_for user h s. dc_ID d \<noteq> excl} \<union> set_option pending
    \<and> computeInitializeValues env userID h (dc_DeclaredQty p) (dc_AsOfDate p) (dc_ShareCountBasis p) start s = Inr init \<and> hp_asOf pad = dc_AsOfDate p"
proof -
  obtain rows where rows: "ListHoldingDeclarations env userID s = Inr rows" using pad by (auto simp: padAfterWrite_def sum_then_Inr)
  then obtain user where user: "env_parse_uuid env userID = Some user"
    and r: "map hr_Decl rows = sort_key (\<lambda>d. (keyOf d, dc_AsOfDate d)) (filter (\<lambda>d. dc_UserID d = user) (ds_decls s))"
    by (auto simp: ListHoldingDeclarations_def sum_then_Inr of_option_def comp_def read_row_def split: option.splits)
  let ?ds = "holdingDeclarations (map hr_Decl rows) h excl @ (case pending of None \<Rightarrow> [] | Some p \<Rightarrow> [p])"
  obtain p where p: "padDeclaration ?ds = Some p"
    "computeInitializeValues env userID h (dc_DeclaredQty p) (dc_AsOfDate p) (dc_ShareCountBasis p) start s = Inr init" "hp_asOf pad = dc_AsOfDate p"
    using pad init rows by (auto simp: padAfterWrite_def sum_then_Inr Let_def split: option.splits)
  have "set ?ds = {d \<in> declared_for user h s. dc_ID d \<noteq> excl} \<union> set_option pending"
    unfolding r by (auto simp: holdingDeclarations_def declared_for_def split: option.splits)
  then show ?thesis using user p by blast
qed

text \<open>A handler's transaction that rewrites the opening balance after changing the declarations.\<close>

lemma settle_after_write:
  assumes env: "env_ok env" and ok: "core_ok env s1" and world: "same_world (ds_master s) (ds_master s1)"
    and pad: "padAfterWrite env userID h excl pending start s = Inr pad" "hp_init pad = Some init"
    and up: "UpsertInitializeTx env userID (fst h) (fst (snd h)) (snd (snd h)) init s1 = Inr s'"
    and user: "env_parse_uuid env userID = Some user" and ne: "declared_for user h s1 \<noteq> {}"
    and to: "\<forall>x \<in> {d \<in> declared_for user h s. dc_ID d \<noteq> excl} \<union> set_option pending. \<exists>y \<in> declared_for user h s1. agrees env x y"
    and onto: "\<forall>y \<in> declared_for user h s1. \<exists>x \<in> {d \<in> declared_for user h s. dc_ID d \<noteq> excl} \<union> set_option pending. agrees env x y"
  shows "core_ok env s'" "pads_only {(user, h)} s1 s'"
    and "\<And>d. d \<in> declared_for user h s' \<Longrightarrow> declarationKind (ds_decls s') d = KIND_PAD \<Longrightarrow> pad_settles env (date_of start) d s'"
proof -
  obtain ds p where p: "padDeclaration ds = Some p" and ds: "set ds = {d \<in> declared_for user h s. dc_ID d \<noteq> excl} \<union> set_option pending"
    and comp: "computeInitializeValues env userID h (dc_DeclaredQty p) (dc_AsOfDate p) (dc_ShareCountBasis p) start s = Inr init"
    using padAfterWrite_picks [OF pad] user by auto
  have dok: "decl_ok env s1 d" if "d \<in> declared_for user h s1" for d using that core_okD(4) [OF ok] by (simp add: declared_for_def)
  obtain d0 where d0: "d0 \<in> declared_for user h s1" using ne by blast
  have key: "(fst h, fst (snd h), snd (snd h)) = h" "dc_InstrumentID d0 = snd (snd h)" using d0 by (auto simp: declared_for_def keyOf_def)
  have inst: "env_parse_uuid env (snd (snd h)) = Some (snd (snd h))" "snd (snd h) \<in> instrument_ids (ds_master s1)"
    using dok [OF d0] unfolding decl_ok_def key(2) by blast+
  note settled = UpsertInitializeTx_settles [OF up env ok user inst, unfolded key(1)]
  show "core_ok env s'" by (rule settled(1))
  show only: "pads_only {(user, h)} s1 s'" by (rule settled(2))
  fix d assume d: "d \<in> declared_for user h s'" "declarationKind (ds_decls s') d = KIND_PAD"
  have d1: "d \<in> declared_for user h s1" "declarationKind (ds_decls s1) d = KIND_PAD"
    using d pads_only_store(1) [OF only] by (simp_all add: declared_for_def)
  have "decls_ok env s1" using ok by (simp add: core_ok_def)
  then have "agrees env p d" by (rule pad_choice [OF p d1]) (use to onto ds in simp_all)
  then show "pad_settles env (date_of start) d s'"
    using d1(1) user by (intro upsert_pad_settles [OF comp up world env ok _ _ dok [OF d1(1)]]) (simp_all add: declared_for_def)
qed

text \<open>The text a column gives back reads as what was written.\<close>

definition numeric_ok :: "Env \<Rightarrow> (string \<Rightarrow> string option) \<Rightarrow> bool" where
  "numeric_ok env num \<longleftrightarrow> (\<forall>x t q. num x = Some t \<longrightarrow> env_parse_dec env x = Some q \<longrightarrow> env_parse_dec env t = Some q)"

lemma agrees_refl: "decl_ok env s d \<Longrightarrow> agrees env d d"
  by (simp add: agrees_def decl_ok_def)

lemma start_for_Inr:
  "start_for env user asOf s = Inr start \<longleftrightarrow> (\<exists>u. env_parse_uuid env user = Some u \<and> started u s = Some start \<and> date_of start \<le> asOf)"
  by (cases "env_parse_uuid env user")
    (auto simp: start_for_def GetPortfolioStartDate_def started_def [symmetric] sum_then_def or_code_def of_option_def split: option.splits)

lemma code_Inr:
  "or_code c m = Inr x \<longleftrightarrow> m = Inr x" "or_other m' = Inr y \<longleftrightarrow> m' = Inr y" "write_code m'' = Inr z \<longleftrightarrow> m'' = Inr z"
  "RequireUser u = Inr user \<longleftrightarrow> u = Some user \<and> user \<noteq> ''''" "of_option e v = Inr w \<longleftrightarrow> v = Some w"
  by (auto simp: or_code_def or_other_def write_code_def RequireUser_def of_option_def split: sum.splits db_error.splits option.splits)

text \<open>What a successful call of each handler ran.\<close>

lemma api_Create_ran:
  assumes "api_CreateHoldingDeclaration env num u req s = Some (Inr (s', p))"
  shows "\<exists>user start pad init s1 row. u = Some user \<and> ParseFloat_ok (cr_DeclaredQty req)
    \<and> start_for env user (dateToTime (cr_AsOfDate req)) s = Inr start
    \<and> padAfterWrite env user (cr_Broker req, cr_Account req, cr_InstrumentID req) '''' (Some (pending_row (cr_DeclaredQty req) (dateToTime (cr_AsOfDate req))
        (shareCountBasis (cr_ShareCountBasis req) (dateToTime (cr_AsOfDate req))))) start s = Inr pad
    \<and> hp_init pad = Some init
    \<and> CreateHoldingDeclaration env num user (cr_Broker req) (cr_Account req) (cr_InstrumentID req) (cr_DeclaredQty req) (dateToTime (cr_AsOfDate req))
        (shareCountBasis (cr_ShareCountBasis req) (dateToTime (cr_AsOfDate req))) s = Inr (s1, row)
    \<and> UpsertInitializeTx env user (cr_Broker req) (cr_Account req) (cr_InstrumentID req) init s1 = Inr s'"
  using assms unfolding api_CreateHoldingDeclaration_def CreateDeclarationWithInitializeTx_def Let_def
  by (auto simp: thens code_Inr split: option.splits if_splits)

lemma api_Update_ran:
  assumes "api_UpdateHoldingDeclaration env num u req s = Some (Inr (s', p))"
  shows "\<exists>user old start pad init s1 row. u = Some user \<and> owned_declaration env user (ur_ID req) s = Inr old
    \<and> start_for env user (dateToTime (ur_AsOfDate req)) s = Inr start
    \<and> padAfterWrite env user (keyOf old) (dc_ID old) (Some (pending_row (ur_DeclaredQty req) (dateToTime (ur_AsOfDate req))
        (shareCountBasis (ur_ShareCountBasis req) (dc_ShareCountBasis old)))) start s = Inr pad
    \<and> hp_init pad = Some init
    \<and> UpdateHoldingDeclaration env num (ur_ID req) (ur_DeclaredQty req) (dateToTime (ur_AsOfDate req))
        (shareCountBasis (ur_ShareCountBasis req) (dc_ShareCountBasis old)) s = Inr (s1, row)
    \<and> UpsertInitializeTx env user (dc_Broker old) (dc_Account old) (dc_InstrumentID old) init s1 = Inr s'"
  using assms unfolding api_UpdateHoldingDeclaration_def UpdateDeclarationWithInitializeTx_def Let_def
  by (auto simp: thens code_Inr split: option.splits if_splits)

lemma api_Delete_ran:
  assumes "api_DeleteHoldingDeclaration env u i s = Inr s'"
  shows "\<exists>user old start pad s1. u = Some user \<and> owned_declaration env user i s = Inr old
    \<and> GetPortfolioStartDate env user s = Inr start
    \<and> (case start of None \<Rightarrow> hp_init pad = None | Some t \<Rightarrow> padAfterWrite env user (keyOf old) (dc_ID old) None t s = Inr pad)
    \<and> DeleteHoldingDeclaration env i s = Inr s1
    \<and> (case hp_init pad of None \<Rightarrow> DeleteInitializeTx env user (dc_Broker old) (dc_Account old) (dc_InstrumentID old) s1 = Inr s'
       | Some init \<Rightarrow> UpsertInitializeTx env user (dc_Broker old) (dc_Account old) (dc_InstrumentID old) init s1 = Inr s')"
proof -
  obtain user old start pad where a: "u = Some user" "owned_declaration env user i s = Inr old" "GetPortfolioStartDate env user s = Inr start"
    and b: "(case start of None \<Rightarrow> Inr \<lparr>hp_init = None, hp_asOf = zero_time\<rparr> | Some t \<Rightarrow> or_code Internal (padAfterWrite env user (keyOf old) (dc_ID old) None t s)) = Inr pad"
    and c: "DeleteDeclarationWithInitializeTx env i user (dc_Broker old) (dc_Account old) (dc_InstrumentID old) (hp_init pad) s = Inr s'"
    using assms unfolding api_DeleteHoldingDeclaration_def by (auto simp: thens code_Inr split: if_splits)
  have "case start of None \<Rightarrow> hp_init pad = None | Some t \<Rightarrow> padAfterWrite env user (keyOf old) (dc_ID old) None t s = Inr pad"
    using b by (auto simp: code_Inr split: option.splits)
  moreover obtain s1 where "DeleteHoldingDeclaration env i s = Inr s1"
    "case hp_init pad of None \<Rightarrow> DeleteInitializeTx env user (dc_Broker old) (dc_Account old) (dc_InstrumentID old) s1 = Inr s'
     | Some init \<Rightarrow> UpsertInitializeTx env user (dc_Broker old) (dc_Account old) (dc_InstrumentID old) init s1 = Inr s'"
    using c unfolding DeleteDeclarationWithInitializeTx_def by (auto simp: thens split: option.splits)
  ultimately show ?thesis using a by blast
qed

lemma owned_declaration_in:
  assumes "owned_declaration env user i s = Inr old"
  shows "old \<in> set (ds_decls s)" "dc_UserID old = user" "env_parse_uuid env i = Some (dc_ID old)"
  using assms unfolding owned_declaration_def GetHoldingDeclaration_def
  by (auto simp: sum_then_Inr or_code_def of_option_def read_row_def find_Some_iff split: sum.splits if_splits option.splits)

lemma write_then_upsert_ok:
  assumes up: "UpsertInitializeTx env userID broker account instID init s1 = Inr s'" and env: "env_ok env" and ok: "core_ok env s1"
    and ids: "env_parse_uuid env userID = Some user" "env_parse_uuid env instID = Some inst"
    and d: "d \<in> declared_for user (broker, account, inst) s1"
    and off: "\<And>u h. (u, h) \<noteq> (user, broker, account, inst) \<Longrightarrow> pads_at u h (ds_ledger s1) \<noteq> {} \<Longrightarrow> declared_for u h s1 \<noteq> {}"
  shows "store_ok env s'"
proof -
  have "decl_ok env s1 d" "dc_InstrumentID d = inst" using d core_okD(4) [OF ok] by (auto simp: declared_for_def keyOf_def)
  then have inst: "inst \<in> instrument_ids (ds_master s1)" unfolding decl_ok_def by blast
  note settled = UpsertInitializeTx_settles [OF up env ok ids inst]
  have "pads_declared s'"
    by (rule pads_declared_step [OF settled(2)]) (use off d in auto)
  then show ?thesis using settled(1) by (simp add: store_ok_def)
qed

lemma declared_for_decls [simp]: "declared_for user h (set_decls ds s) = {d \<in> set ds. dc_UserID d = user \<and> keyOf d = h}"
  by (simp add: declared_for_def)

lemma api_Create_keeps:
  assumes run: "api_CreateHoldingDeclaration env num u req s = Some (Inr (s', p))" and env: "env_ok env" and ok: "store_ok env s"
  shows "store_ok env s'"
proof -
  obtain user init s1 row asOf basis
    where create: "CreateHoldingDeclaration env num user (cr_Broker req) (cr_Account req) (cr_InstrumentID req) (cr_DeclaredQty req) asOf basis s = Inr (s1, row)"
    and up: "UpsertInitializeTx env user (cr_Broker req) (cr_Account req) (cr_InstrumentID req) init s1 = Inr s'"
    using api_Create_ran [OF run] by blast
  have core: "core_ok env s" and decl: "pads_declared s" using ok by (simp_all add: store_ok_def)
  obtain d where row: "declaration_row env num user (cr_Broker req) (cr_Account req) (cr_InstrumentID req) (cr_DeclaredQty req) asOf basis s = Inr d"
    and s1: "core_ok env s1" "s1 = set_decls (ds_decls s @ [d]) (bumped s)"
    using CreateHoldingDeclaration_ok [OF create env core] by blast
  note f = declaration_row_ok [OF row env]
  show ?thesis
  proof (rule write_then_upsert_ok [OF up env s1(1) f(2,5)])
    show "d \<in> declared_for (dc_UserID d) (cr_Broker req, cr_Account req, dc_InstrumentID d) s1" unfolding s1(2) by (simp add: keyOf_def f)
    show "declared_for v h s1 \<noteq> {}" if "pads_at v h (ds_ledger s1) \<noteq> {}" for v h
      using pads_declaredD [OF decl, of v h] that unfolding s1(2) by (auto simp: declared_for_def)
  qed
qed

lemma api_Update_keeps:
  assumes run: "api_UpdateHoldingDeclaration env num u req s = Some (Inr (s', p))" and env: "env_ok env" and ok: "store_ok env s"
  shows "store_ok env s'"
proof -
  obtain user old init s1 row asOf basis where own: "owned_declaration env user (ur_ID req) s = Inr old"
    and upd: "UpdateHoldingDeclaration env num (ur_ID req) (ur_DeclaredQty req) asOf basis s = Inr (s1, row)"
    and up: "UpsertInitializeTx env user (dc_Broker old) (dc_Account old) (dc_InstrumentID old) init s1 = Inr s'"
    using api_Update_ran [OF run] by blast
  have core: "core_ok env s" and decl: "pads_declared s" using ok by (simp_all add: store_ok_def)
  note own1 = owned_declaration_in [OF own]
  obtain old' d where *: "old' \<in> set (ds_decls s)" "env_parse_uuid env (ur_ID req) = Some (dc_ID old')" and s1: "core_ok env s1"
    "s1 = set_decls (map (\<lambda>e. if dc_ID e = dc_ID old' then d else e) (ds_decls s)) s" and d: "dc_UserID d = dc_UserID old'" "keyOf d = keyOf old'"
    using UpdateHoldingDeclaration_ok [OF upd core] by (auto simp: restated_def keyOf_def)
  have same: "old' = old" using * own1 core_okD(1) [OF core] by (metis distinct_map inj_onD option.inject)
  have ids: "env_parse_uuid env user = Some user" "env_parse_uuid env (dc_InstrumentID old) = Some (dc_InstrumentID old)"
    using core_okD(4) [OF core own1(1)] own1(2) unfolding decl_ok_def by blast+
  have keep: "declared_for v h s1 \<noteq> {}" if ne: "declared_for v h s \<noteq> {}" for v h
  proof -
    obtain x where x: "x \<in> set (ds_decls s)" "dc_UserID x = v" "keyOf x = h" using ne by (auto simp: declared_for_def)
    have "dc_ID x = dc_ID old \<Longrightarrow> x = old" using x(1) own1(1) core_okD(1) [OF core] by (metis distinct_map inj_onD)
    then have "(if dc_ID x = dc_ID old then d else x) \<in> declared_for v h s1" using x d unfolding s1(2) same by auto
    then show ?thesis by blast
  qed
  show ?thesis
  proof (rule write_then_upsert_ok [OF up env s1(1) ids])
    show "d \<in> declared_for user (dc_Broker old, dc_Account old, dc_InstrumentID old) s1"
      using d own1 unfolding s1(2) same by (auto simp: keyOf_def)
    show "declared_for v h s1 \<noteq> {}" if "pads_at v h (ds_ledger s1) \<noteq> {}" for v h
      using keep [OF pads_declaredD [OF decl, of v h]] that unfolding s1(2) by simp
  qed
qed

lemma api_Delete_keeps:
  assumes run: "api_DeleteHoldingDeclaration env u i s = Inr s'" and env: "env_ok env" and ok: "store_ok env s"
  shows "store_ok env s'"
proof -
  obtain user old start pad s1 where own: "owned_declaration env user i s = Inr old"
    and start: "case start of None \<Rightarrow> hp_init pad = None | Some t \<Rightarrow> padAfterWrite env user (keyOf old) (dc_ID old) None t s = Inr pad"
    and del: "DeleteHoldingDeclaration env i s = Inr s1"
    and settle: "case hp_init pad of None \<Rightarrow> DeleteInitializeTx env user (dc_Broker old) (dc_Account old) (dc_InstrumentID old) s1 = Inr s'
       | Some init \<Rightarrow> UpsertInitializeTx env user (dc_Broker old) (dc_Account old) (dc_InstrumentID old) init s1 = Inr s'"
    using api_Delete_ran [OF run] by blast
  let ?h = "(dc_Broker old, dc_Account old, dc_InstrumentID old)"
  have core: "core_ok env s" and decl: "pads_declared s" using ok by (simp_all add: store_ok_def)
  note own1 = owned_declaration_in [OF own]
  have ids: "env_parse_uuid env user = Some user" "env_parse_uuid env (dc_InstrumentID old) = Some (dc_InstrumentID old)"
    using core_okD(4) [OF core own1(1)] own1(2) unfolding decl_ok_def by blast+
  obtain old' :: Declaration where "env_parse_uuid env i = Some (dc_ID old')" and s1: "core_ok env s1" "s1 = set_decls (filter (\<lambda>d. dc_ID d \<noteq> dc_ID old') (ds_decls s)) s"
    using DeleteHoldingDeclaration_ok [OF del core] by (elim bexE conjE)
  then have same: "dc_ID old' = dc_ID old" using own1(3) by simp
  have left: "declared_for v h s1 = {d \<in> declared_for v h s. dc_ID d \<noteq> dc_ID old}" for v h unfolding s1(2) same by (auto simp: declared_for_def)
  have keep: "declared_for v h s1 \<noteq> {}" if other: "(v, h) \<noteq> (user, ?h)" and ne: "pads_at v h (ds_ledger s1) \<noteq> {}" for v h
  proof -
    have "pads_at v h (ds_ledger s) \<noteq> {}" using ne unfolding s1(2) by simp
    then obtain x where x: "x \<in> declared_for v h s" using pads_declaredD [OF decl] by blast
    then have "x \<noteq> old" using other own1(2) by (auto simp: declared_for_def keyOf_def)
    then have "dc_ID x \<noteq> dc_ID old" using x own1(1) core_okD(1) [OF core] by (metis (mono_tags, lifting) declared_for_def distinct_map inj_onD mem_Collect_eq)
    then show ?thesis unfolding left using x by blast
  qed
  show ?thesis
  proof (cases "hp_init pad")
    case None
    then have del': "DeleteInitializeTx env user (dc_Broker old) (dc_Account old) (dc_InstrumentID old) s1 = Inr s'" using settle by simp
    note settled = DeleteInitializeTx_settles [OF del' s1(1) ids]
    have "pads_declared s'" by (rule pads_declared_step [OF settled(2)]) (use keep settled(3) in auto)
    then show ?thesis using settled(1) by (simp add: store_ok_def)
  next
    case (Some init)
    then obtain t where "padAfterWrite env user (keyOf old) (dc_ID old) None t s = Inr pad" using start by (cases start) auto
    then obtain ds p where p: "padDeclaration ds = Some p" "set ds = {d \<in> declared_for user (keyOf old) s. dc_ID d \<noteq> dc_ID old}"
      using padAfterWrite_picks [of env user "keyOf old" "dc_ID old" None t s pad init] Some ids(1) by auto
    have d: "p \<in> declared_for user ?h s1" using padDeclaration_least(1) [OF p(1)] unfolding p(2) left by (simp add: keyOf_def)
    have up: "UpsertInitializeTx env user (dc_Broker old) (dc_Account old) (dc_InstrumentID old) init s1 = Inr s'" using settle Some by simp
    show ?thesis by (rule write_then_upsert_ok [OF up env s1(1) ids d keep])
  qed
qed

subsection \<open>The earliest declaration is true after every write\<close>

definition in_history :: "string \<Rightarrow> Store \<Rightarrow> bool" where
  "in_history user s \<longleftrightarrow> (case started user s of None \<Rightarrow> True
     | Some start \<Rightarrow> list_all (\<lambda>d. dc_UserID d = user \<longrightarrow> date_of start \<le> dc_AsOfDate d) (ds_decls s))"

lemma settled_true:
  assumes "pad_settles env (date_of start) d s" "core_ok env s" "d \<in> set (ds_decls s)" "exact_div env" "splits_ok env (ds_master s)"
    and start: "started (dc_UserID d) s = Some start" and "date_of start \<le> dc_AsOfDate d"
  shows "declaration_true env s d"
  by (rule pad_settles_true [OF assms(1,2) core_okD(4) [OF assms(2,3)] assms(4,5,7)])
    (rule order_trans [OF date_of_le started_first [OF start]])

text \<open>The common end of the writes that leave the holding declared.\<close>

lemma settled_after_write_true:
  assumes env: "env_ok env" and core: "core_ok env s" "core_ok env s1" and world: "same_world (ds_master s) (ds_master s1)"
    and pad: "padAfterWrite env userID h excl pending start s = Inr pad" "hp_init pad = Some init"
    and up: "UpsertInitializeTx env userID (fst h) (fst (snd h)) (snd (snd h)) init s1 = Inr s'"
    and user: "env_parse_uuid env userID = Some user" and div: "exact_div env" "splits_ok env (ds_master s)"
    and new: "declared_for user h s1 = new \<union> {x \<in> declared_for user h s. dc_ID x \<noteq> excl}"
    and pend: "rel_set (agrees env) (set_option pending) new"
    and started: "started user s = Some start" and late: "\<forall>x \<in> declared_for user h s1. date_of start \<le> dc_AsOfDate x"
    and d: "d \<in> declared_for user h s'" "declarationKind (ds_decls s') d = KIND_PAD"
  shows "declaration_true env s' d"
proof -
  have refl: "agrees env x x" if "x \<in> declared_for user h s" for x
    using agrees_refl [OF core_okD(4) [OF core(1), of x]] that by (simp add: declared_for_def)
  obtain ds p where p: "padDeclaration ds = Some p" "set ds = {d \<in> declared_for user h s. dc_ID d \<noteq> excl} \<union> set_option pending"
    using padAfterWrite_picks [OF pad] user by auto
  have to: "\<forall>x \<in> {d \<in> declared_for user h s. dc_ID d \<noteq> excl} \<union> set_option pending. \<exists>y \<in> declared_for user h s1. agrees env x y"
    and onto: "\<forall>y \<in> declared_for user h s1. \<exists>x \<in> {d \<in> declared_for user h s. dc_ID d \<noteq> excl} \<union> set_option pending. agrees env x y"
    unfolding new using pend refl by (fastforce simp: rel_set_def)+
  have ne: "declared_for user h s1 \<noteq> {}" using to padDeclaration_least(1) [OF p(1)] unfolding p(2) by blast
  note settled = settle_after_write [OF env core(2) world pad up user ne to onto]
  note st = settled(1,2) settled(3) [OF d]
  have same: "same_world (ds_master s) (ds_master s')" using same_world_trans [OF world pads_only_same_world [OF st(2)]] .
  have du: "d \<in> set (ds_decls s')" "dc_UserID d = user" "d \<in> declared_for user h s1"
    using d(1) pads_only_store(1) [OF st(2)] by (auto simp: declared_for_def)
  show ?thesis
    using settled_true [OF st(3,1) du(1) div(1)] div(2) started started_frame [OF same] splits_ok_frame [OF same] du late by simp
qed

lemma in_historyD: "in_history user s \<Longrightarrow> started user s = Some start \<Longrightarrow> d \<in> declared_for user h s \<Longrightarrow> date_of start \<le> dc_AsOfDate d"
  by (auto simp: in_history_def declared_for_def list_all_iff)

lemma api_Create_true:
  assumes run: "api_CreateHoldingDeclaration env num (Some userID) req s = Some (Inr (s', p))" and env: "env_ok env" and ok: "store_ok env s"
    and num: "numeric_ok env num" and div: "exact_div env" "splits_ok env (ds_master s)"
    and user: "env_parse_uuid env userID = Some user" and hist: "in_history user s"
    and spelled: "env_parse_uuid env (cr_InstrumentID req) = Some (cr_InstrumentID req)"
    and basis: "shareCountBasis (cr_ShareCountBasis req) (dateToTime (cr_AsOfDate req)) \<noteq> zero_time"
    and d: "d \<in> declared_for user (cr_Broker req, cr_Account req, cr_InstrumentID req) s'" "declarationKind (ds_decls s') d = KIND_PAD"
  shows "declaration_true env s' d"
proof -
  let ?asOf = "dateToTime (cr_AsOfDate req)" and ?h = "(cr_Broker req, cr_Account req, cr_InstrumentID req)"
  let ?basis = "shareCountBasis (cr_ShareCountBasis req) ?asOf"
  let ?pend = "pending_row (cr_DeclaredQty req) ?asOf ?basis"
  obtain start pad init s1 row where start: "start_for env userID ?asOf s = Inr start"
    and pad: "padAfterWrite env userID ?h '''' (Some ?pend) start s = Inr pad" "hp_init pad = Some init"
    and create: "CreateHoldingDeclaration env num userID (cr_Broker req) (cr_Account req) (cr_InstrumentID req) (cr_DeclaredQty req) ?asOf ?basis s = Inr (s1, row)"
    and up: "UpsertInitializeTx env userID (fst ?h) (fst (snd ?h)) (snd (snd ?h)) init s1 = Inr s'"
    using api_Create_ran [OF run] by auto
  have core: "core_ok env s" using ok by (simp add: store_ok_def)
  obtain r where rowr: "declaration_row env num userID (cr_Broker req) (cr_Account req) (cr_InstrumentID req) (cr_DeclaredQty req) ?asOf ?basis s = Inr r"
    and s1: "core_ok env s1" "s1 = set_decls (ds_decls s @ [r]) (bumped s)" "decl_ok env s r"
    using CreateHoldingDeclaration_ok [OF create env core] by blast
  note f = declaration_row_ok [OF rowr env]
  have r: "dc_UserID r = user" "keyOf r = ?h" using f user spelled by (simp_all add: keyOf_def)
  have pend: "agrees env ?pend r"
    using f num basis unfolding agrees_def pending_row_def numeric_ok_def by simp
  have id: "dc_ID x \<noteq> ''''" if "x \<in> declared_for user ?h s" for x
    using core_okD(4) [OF core, of x] that env by (auto simp: declared_for_def decl_ok_def env_ok_def)
  have new: "declared_for user ?h s1 = {r} \<union> {x \<in> declared_for user ?h s. dc_ID x \<noteq> ''''}"
    unfolding s1(2) using r id by (auto simp: declared_for_def)
  have world: "same_world (ds_master s) (ds_master s1)" unfolding s1(2) by (rule same_world_decls(2))
  have sd: "started user s = Some start" "date_of start \<le> ?asOf" using start user by (auto simp: start_for_Inr)
  have late: "\<forall>x \<in> declared_for user ?h s1. date_of start \<le> dc_AsOfDate x"
    unfolding new using in_historyD [OF hist sd(1)] sd(2) f(7) by auto
  show ?thesis
    by (rule settled_after_write_true [OF env core s1(1) world pad up user div new _ sd(1) late d]) (simp add: rel_set_def pend)
qed

lemma api_Delete_true:
  assumes run: "api_DeleteHoldingDeclaration env (Some user) i s = Inr s'" and env: "env_ok env" and ok: "store_ok env s"
    and div: "exact_div env" "splits_ok env (ds_master s)" and hist: "in_history user s" and txs: "started user s \<noteq> None"
    and old: "old \<in> set (ds_decls s)" "env_parse_uuid env i = Some (dc_ID old)"
    and d: "d \<in> declared_for user (keyOf old) s'" "declarationKind (ds_decls s') d = KIND_PAD"
  shows "declaration_true env s' d"
proof -
  obtain old2 start pad s1 where own: "owned_declaration env user i s = Inr old2" and gs: "GetPortfolioStartDate env user s = Inr start"
    and start: "case start of None \<Rightarrow> hp_init pad = None | Some t \<Rightarrow> padAfterWrite env user (keyOf old2) (dc_ID old2) None t s = Inr pad"
    and del: "DeleteHoldingDeclaration env i s = Inr s1"
    and settle: "case hp_init pad of None \<Rightarrow> DeleteInitializeTx env user (dc_Broker old2) (dc_Account old2) (dc_InstrumentID old2) s1 = Inr s'
       | Some init \<Rightarrow> UpsertInitializeTx env user (dc_Broker old2) (dc_Account old2) (dc_InstrumentID old2) init s1 = Inr s'"
    using api_Delete_ran [OF run] by blast
  have core: "core_ok env s" using ok by (simp add: store_ok_def)
  note own1 = owned_declaration_in [OF own]
  have o2: "old2 = old" using own1 old core_okD(1) [OF core] by (metis distinct_map inj_onD option.inject)
  have user: "env_parse_uuid env user = Some user" "env_parse_uuid env (dc_InstrumentID old) = Some (dc_InstrumentID old)"
    using core_okD(4) [OF core old(1)] own1(2) unfolding decl_ok_def o2 by blast+
  obtain old' :: Declaration where "env_parse_uuid env i = Some (dc_ID old')" and s1: "core_ok env s1" "s1 = set_decls (filter (\<lambda>d. dc_ID d \<noteq> dc_ID old') (ds_decls s)) s"
    using DeleteHoldingDeclaration_ok [OF del core] by (elim bexE conjE)
  then have same: "dc_ID old' = dc_ID old" using old(2) by simp
  have left: "declared_for user (keyOf old) s1 = {} \<union> {x \<in> declared_for user (keyOf old) s. dc_ID x \<noteq> dc_ID old}"
    unfolding s1(2) same by (auto simp: declared_for_def)
  obtain t where t: "start = Some t" "started user s = Some t" using gs txs user(1) by (auto simp: GetPortfolioStartDate_started)
  have pad: "padAfterWrite env user (keyOf old) (dc_ID old) None t s = Inr pad" using start by (simp add: t o2)
  have world: "same_world (ds_master s) (ds_master s1)" unfolding s1(2) by (rule same_world_decls(1))
  obtain init where init: "hp_init pad = Some init"
  proof (cases "hp_init pad")
    case None
    have "pads_only {(user, keyOf old)} s1 s'"
      using settle None DeleteInitializeTx_settles(2) [OF _ s1(1) user] by (simp add: o2 keyOf_def)
    then have "d \<in> declared_for user (keyOf old) s1" using d(1) by (simp add: declared_for_def pads_only_store(1))
    moreover have "padAfterWrite env user (keyOf old) (dc_ID old) None t s \<noteq> Inr pad" if "declared_for user (keyOf old) s1 \<noteq> {}"
      using that None user(1) unfolding left
      by (auto simp: padAfterWrite_def sum_then_Inr ListHoldingDeclarations_def code_Inr padDeclaration_None holdingDeclarations_def declared_for_def
          read_row_def comp_def filter_empty_conv Let_def split: option.splits)
    ultimately show ?thesis using pad by blast
  next
    case (Some init)
    then show ?thesis by (rule that)
  qed
  have up: "UpsertInitializeTx env user (fst (keyOf old)) (fst (snd (keyOf old))) (snd (snd (keyOf old))) init s1 = Inr s'"
    using settle init by (simp add: keyOf_def o2)
  have late: "\<forall>x \<in> declared_for user (keyOf old) s1. date_of t \<le> dc_AsOfDate x" unfolding left using in_historyD [OF hist t(2)] by blast
  show ?thesis
    by (rule settled_after_write_true [OF env core s1(1) world pad init up user(1) div left _ t(2) late d]) (simp add: rel_set_def)
qed

lemma api_Update_true:
  assumes run: "api_UpdateHoldingDeclaration env num (Some user) req s = Some (Inr (s', p))" and env: "env_ok env" and ok: "store_ok env s"
    and num: "numeric_ok env num" and div: "exact_div env" "splits_ok env (ds_master s)" and hist: "in_history user s"
    and old: "old \<in> set (ds_decls s)" "env_parse_uuid env (ur_ID req) = Some (dc_ID old)"
    and basis: "shareCountBasis (ur_ShareCountBasis req) (dc_ShareCountBasis old) \<noteq> zero_time"
    and d: "d \<in> declared_for user (keyOf old) s'" "declarationKind (ds_decls s') d = KIND_PAD"
  shows "declaration_true env s' d"
proof -
  let ?asOf = "dateToTime (ur_AsOfDate req)" and ?h = "keyOf old"
  obtain old2 start pad init s1 row where own: "owned_declaration env user (ur_ID req) s = Inr old2" and start: "start_for env user ?asOf s = Inr start"
    and pad: "padAfterWrite env user (keyOf old2) (dc_ID old2) (Some (pending_row (ur_DeclaredQty req) ?asOf
        (shareCountBasis (ur_ShareCountBasis req) (dc_ShareCountBasis old2)))) start s = Inr pad" "hp_init pad = Some init"
    and upd: "UpdateHoldingDeclaration env num (ur_ID req) (ur_DeclaredQty req) ?asOf (shareCountBasis (ur_ShareCountBasis req) (dc_ShareCountBasis old2)) s = Inr (s1, row)"
    and up: "UpsertInitializeTx env user (dc_Broker old2) (dc_Account old2) (dc_InstrumentID old2) init s1 = Inr s'"
    using api_Update_ran [OF run] by blast
  have core: "core_ok env s" using ok by (simp add: store_ok_def)
  note own1 = owned_declaration_in [OF own]
  have one: "x = y" if "x \<in> set (ds_decls s)" "y \<in> set (ds_decls s)" "dc_ID x = dc_ID y" for x y
    using core_okD(1) [OF core] that by (metis distinct_map inj_onD)
  have o2: "old2 = old" using one [OF own1(1) old(1)] own1(3) old(2) by simp
  let ?basis = "shareCountBasis (ur_ShareCountBasis req) (dc_ShareCountBasis old)"
  obtain old3 q r where o3: "env_parse_uuid env (ur_ID req) = Some (dc_ID old3)" "old3 \<in> set (ds_decls s)" and q: "num (ur_DeclaredQty req) = Some q"
    and r: "r = restated q ?asOf ?basis old3" and s1: "core_ok env s1" "s1 = set_decls (map (\<lambda>e. if dc_ID e = dc_ID old3 then r else e) (ds_decls s)) s"
    using UpdateHoldingDeclaration_ok [OF upd [unfolded o2] core] by (elim exE conjE) simp
  have o3': "old3 = old" using one [OF o3(2) old(1)] o3(1) old(2) by simp
  have user: "env_parse_uuid env user = Some user" using core_okD(4) [OF core old(1)] own1(2) unfolding decl_ok_def o2 by blast
  have rk: "dc_UserID r = user" "keyOf r = ?h" using own1(2) by (simp_all add: r restated_def keyOf_def o2 o3')
  have new: "declared_for user ?h s1 = {r} \<union> {x \<in> declared_for user ?h s. dc_ID x \<noteq> dc_ID old}"
    unfolding s1(2) o3' using rk old(1) own1(2) by (auto simp: declared_for_def o2)
  have pend: "agrees env (pending_row (ur_DeclaredQty req) ?asOf ?basis) r"
    using num q basis unfolding agrees_def pending_row_def numeric_ok_def r restated_def by simp
  have world: "same_world (ds_master s) (ds_master s1)" unfolding s1(2) by (rule same_world_decls(1))
  have sd: "started user s = Some start" "date_of start \<le> ?asOf" using start user by (auto simp: start_for_Inr)
  have late: "\<forall>x \<in> declared_for user ?h s1. date_of start \<le> dc_AsOfDate x"
    unfolding new using in_historyD [OF hist sd(1), of _ ?h] sd(2) by (auto simp: r restated_def)
  have up': "UpsertInitializeTx env user (fst ?h) (fst (snd ?h)) (snd (snd ?h)) init s1 = Inr s'" using up by (simp add: keyOf_def o2)
  show ?thesis
    by (rule settled_after_write_true [OF env core s1(1) world pad [unfolded o2] up' user div new _ sd(1) late d]) (simp add: rel_set_def pend)
qed

lemma UpsertHoldingDeclaration_keeps:
  assumes run: "UpsertHoldingDeclaration env num userID broker account instID qty asOf basis s = Inr s'" and env: "env_ok env" and ok: "store_ok env s"
  shows "store_ok env s'"
proof -
  have core: "core_ok env s" and decl: "pads_declared s" using ok by (simp_all add: store_ok_def)
  obtain d where row: "declaration_row env num userID broker account instID qty asOf basis s = Inr d"
    and s': "if list_ex (same_statement d) (ds_decls s)
       then s' = set_decls (map (\<lambda>e. if same_statement d e then e\<lparr>dc_DeclaredQty := dc_DeclaredQty d, dc_ShareCountBasis := dc_ShareCountBasis d\<rparr> else e) (ds_decls s)) s
       else insert_declaration d s = Inr s'"
    using run unfolding UpsertHoldingDeclaration_def by (auto simp: sum_then_Inr code_Inr split: if_splits)
  show ?thesis
  proof (cases "list_ex (same_statement d) (ds_decls s)")
    case True
    let ?f = "\<lambda>e. if same_statement d e then e\<lparr>dc_DeclaredQty := dc_DeclaredQty d, dc_ShareCountBasis := dc_ShareCountBasis d\<rparr> else e"
    have basis: "date_of (dc_ShareCountBasis d) = dc_ShareCountBasis d" using declaration_row_ok(8) [OF row env] by simp
    have same: "dc_ID (?f e) = dc_ID e" "dc_UserID (?f e) = dc_UserID e" "keyOf (?f e) = keyOf e" "dc_AsOfDate (?f e) = dc_AsOfDate e" for e
      by (simp_all add: keyOf_def)
    have stm: "same_statement (?f x) (?f y) \<longleftrightarrow> same_statement x y" for x y
      unfolding same_statement_def [of "?f x" "?f y"] same same_statement_def [of x y] ..
    have "core_ok env (set_decls (map ?f (ds_decls s)) s)"
    proof (rule map_decls_ok [OF core])
      show "dc_ID x = dc_ID y" if "x \<in> set (ds_decls s)" "y \<in> set (ds_decls s)" "same_statement (?f x) (?f y)" for x y
        using core_okD(3) [OF core that(1,2)] that(3) unfolding stm by blast
      show "decl_ok env s (?f e)" if "e \<in> set (ds_decls s)" for e using core_okD(4) [OF core that] basis by (simp add: decl_ok_def)
    qed (rule same(1))
    moreover have "declared_for v h (set_decls (map ?f (ds_decls s)) s) \<noteq> {}" if "declared_for v h s \<noteq> {}" for v h
    proof -
      obtain x where "x \<in> declared_for v h s" using \<open>declared_for v h s \<noteq> {}\<close> by blast
      then have "?f x \<in> declared_for v h (set_decls (map ?f (ds_decls s)) s)" using same [of x] by (simp add: declared_for_def)
      then show ?thesis by blast
    qed
    then have "pads_declared (set_decls (map ?f (ds_decls s)) s)" using pads_declaredD [OF decl] unfolding pads_declared_def by simp
    ultimately show ?thesis using s' True by (simp add: store_ok_def)
  next
    case False
    then have "insert_declaration d s = Inr s'" using s' by simp
    note ins = insert_declaration_ok [OF row env core False this]
    have "pads_declared s'" unfolding pads_declared_def
    proof (intro allI impI)
      fix v h assume "pads_at v h (ds_ledger s') \<noteq> {}"
      then have "declared_for v h s \<noteq> {}" using pads_declaredD [OF decl, of v h] unfolding ins(2) by simp
      then show "declared_for v h s' \<noteq> {}" unfolding ins(2) by (auto simp: declared_for_def)
    qed
    then show ?thesis using ins(1) by (simp add: store_ok_def)
  qed
qed

subsection \<open>What the check of a declaration allows\<close>

text \<open>The quantity the postings of a holding come to in the basis of a declaration, with nothing rounded.\<close>

definition factor_between :: "Env \<Rightarrow> Master \<Rightarrow> string \<Rightarrow> time \<Rightarrow> time \<Rightarrow> decimal" where
  "factor_between env m inst b basis =
     (let (bn, bd) = split_factor_at env m inst b; (dn, dd) = split_factor_at env m inst basis in (bn * dd) / (bd * dn))"

definition exact_quantity :: "Env \<Rightarrow> Store \<Rightarrow> Declaration \<Rightarrow> decimal" where
  "exact_quantity env s d = (\<Sum>t \<in> {t \<in> set (l_txs (ds_ledger s)). counted (dc_UserID d) (keyOf d) None (Some (dc_AsOfDate d + day_length)) True t}.
     t_Quantity t * factor_between env (ds_master s) (dc_InstrumentID d) (posting_basis t) (dc_ShareCountBasis d))"

text \<open>
  A \<open>NUMERIC\<close> division keeps sixteen significant digits or more, counted in digits to the base ten
  thousand: twelve decimals for a quotient below a hundred million, fewer for a larger one.
\<close>

definition fine_div :: "Env \<Rightarrow> bool" where
  "fine_div env \<longleftrightarrow> (\<forall>a b. \<bar>a / b\<bar> < 10 ^ 8 \<longrightarrow> \<bar>env_div env a b - a / b\<bar> \<le> 1 / 10 ^ 12)"

definition modest :: "Env \<Rightarrow> Store \<Rightarrow> Declaration \<Rightarrow> bool" where
  "modest env s d \<longleftrightarrow>
     (let ts = filter (counted (dc_UserID d) (keyOf d) None (Some (dc_AsOfDate d + day_length)) True) (l_txs (ds_ledger s)) in
      list_all (\<lambda>t. \<bar>basis_sum ts (posting_basis t)
        * factor_between env (ds_master s) (dc_InstrumentID d) (posting_basis t) (dc_ShareCountBasis d)\<bar> < 10 ^ 8) ts)"

lemma converted_close:
  assumes "exact_div env" "fine_div env" "splits_ok env m" and small: "\<bar>q * factor_between env m inst b basis\<bar> < 10 ^ 8"
  shows "\<bar>converted env m inst b basis q - q * factor_between env m inst b basis\<bar> \<le> (if inexact_basis env m inst basis b then 1 / 10 ^ 12 else 0)"
proof -
  obtain bn bd dn dd where f: "split_factor_at env m inst b = (bn, bd)" "split_factor_at env m inst basis = (dn, dd)" by fastforce
  have pos: "bd * dn \<noteq> 0" using split_factor_pos [OF assms(3) f(1)] split_factor_pos [OF assms(3) f(2)] by simp
  show ?thesis
  proof (cases "bn * dd = bd * dn")
    case True
    have "env_div env (q * bn * dd) (bd * dn) = q" using assms(1) pos unfolding exact_div_def True [symmetric] by (simp add: mult.assoc)
    then show ?thesis using True pos by (simp add: converted_def factor_between_def inexact_basis_def f)
  next
    case False
    have "\<bar>q * bn * dd / (bd * dn)\<bar> < 10 ^ 8" using small by (simp add: factor_between_def f mult.assoc)
    then have "\<bar>env_div env (q * bn * dd) (bd * dn) - q * bn * dd / (bd * dn)\<bar> \<le> 1 / 10 ^ 12" using assms(2) unfolding fine_div_def by blast
    then show ?thesis using False by (simp add: converted_def factor_between_def inexact_basis_def f mult.assoc)
  qed
qed

lemma computed_close:
  assumes div: "exact_div env" "fine_div env" "splits_ok env (ds_master s)" and ok: "core_ok env s" and small: "modest env s d"
  shows "\<bar>ck_ComputedQty (declarationVerify env s d) - exact_quantity env s d\<bar> \<le> of_nat (ck_InexactBases (declarationVerify env s d)) / 10 ^ 12"
proof -
  let ?m = "ds_master s" and ?i = "dc_InstrumentID d" and ?b = "dc_ShareCountBasis d"
  let ?T = "{t \<in> set (l_txs (ds_ledger s)). counted (dc_UserID d) (keyOf d) None (Some (dc_AsOfDate d + day_length)) True t}"
  let ?B = "posting_basis ` ?T" and ?S = "\<lambda>x. sum t_Quantity {t \<in> ?T. posting_basis t = x}"
  have dist: "distinct (l_txs (ds_ledger s))" using ok by (simp add: core_ok_def ledger_ok_def wf_ledger_def distinct_map)
  have i: "snd (snd (keyOf d)) = ?i" by (simp add: keyOf_def)
  have fin: "finite ?T" by simp
  have computed: "ck_ComputedQty (declarationVerify env s d) = (\<Sum>x \<in> ?B. converted env ?m ?i x ?b (?S x))"
    unfolding declarationVerify_def computed_as_sum [OF dist] Let_def i ..
  have "exact_quantity env s d = (\<Sum>x \<in> ?B. \<Sum>t \<in> {t \<in> ?T. posting_basis t = x}. t_Quantity t * factor_between env ?m ?i (posting_basis t) ?b)"
    unfolding exact_quantity_def by (rule sum.image_gen [OF fin])
  also have "\<dots> = (\<Sum>x \<in> ?B. ?S x * factor_between env ?m ?i x ?b)" by (intro sum.cong refl) (simp add: sum_distrib_right)
  finally have exact: "exact_quantity env s d = (\<Sum>x \<in> ?B. ?S x * factor_between env ?m ?i x ?b)" .
  have "\<bar>ck_ComputedQty (declarationVerify env s d) - exact_quantity env s d\<bar>
      \<le> (\<Sum>x \<in> ?B. \<bar>converted env ?m ?i x ?b (?S x) - ?S x * factor_between env ?m ?i x ?b\<bar>)"
    unfolding computed exact sum_subtractf [symmetric] by (rule sum_abs)
  also have "\<dots> \<le> (\<Sum>x \<in> ?B. if inexact_basis env ?m ?i ?b x then 1 / 10 ^ 12 else 0)"
  proof (rule sum_mono)
    fix x assume "x \<in> ?B"
    then have "\<bar>?S x * factor_between env ?m ?i x ?b\<bar> < 10 ^ 8"
      using small by (auto simp: modest_def Let_def list_all_iff basis_sum_set [OF dist])
    then show "\<bar>converted env ?m ?i x ?b (?S x) - ?S x * factor_between env ?m ?i x ?b\<bar> \<le> (if inexact_basis env ?m ?i ?b x then 1 / 10 ^ 12 else 0)"
      by (rule converted_close [OF div])
  qed
  also have "\<dots> = of_nat (card {x \<in> ?B. inexact_basis env ?m ?i ?b x}) / 10 ^ 12" using fin by (simp add: sum.If_cases Int_def)
  also have "card {x \<in> ?B. inexact_basis env ?m ?i ?b x} = ck_InexactBases (declarationVerify env s d)"
    by (simp add: declarationVerify_def holding_qty_in_basis_def Let_def i distinct_card [symmetric])
  finally show ?thesis .
qed

end
