(* ===== verification/Recalculation.thy ===== *)
theory Recalculation
  imports Declarations_Correct
begin

text \<open>
  The recalculation of every opening balance of a user, \<open>src/server/service/api/recalc.go\<close>: the two
  loops over holdings that each commit on their own, what a successful run leaves, and that running it
  again changes nothing. The loops share one contract, \<open>pad_setter\<close>: a step settles the opening balance
  of one holding and leaves everything else as it was.
\<close>

subsection \<open>Loops that settle holdings one after the other\<close>

locale pad_setter =
  fixes env :: Env and f :: "'a \<Rightarrow> Store \<Rightarrow> string + Store" and holding :: "'a \<Rightarrow> string \<times> holdingKey"
    and allowed :: "Store \<Rightarrow> 'a \<Rightarrow> bool" and settled :: "'a \<Rightarrow> Store \<Rightarrow> bool"
  assumes sets: "env_ok env \<Longrightarrow> f x s = Inr s' \<Longrightarrow> core_ok env s \<Longrightarrow> allowed s x \<Longrightarrow> core_ok env s' \<and> pads_only {holding x} s s' \<and> settled x s'"
    and keeps: "pads_only H s s' \<Longrightarrow> allowed s x \<Longrightarrow> allowed s' x"
    and stays: "pads_only H s s' \<Longrightarrow> holding x \<notin> H \<Longrightarrow> settled x s \<Longrightarrow> settled x s'"
begin

lemma loop_keeps:
  assumes "env_ok env" "core_ok env s" "\<forall>x \<in> set xs. allowed s x" "each_commits f xs s = (s', e)"
  shows "core_ok env s' \<and> pads_only (holding ` set xs) s s'"
  using assms(2-4)
proof (induction xs arbitrary: s)
  case Nil
  then show ?case by (simp add: pads_only_refl)
next
  case (Cons x xs)
  show ?case
  proof (cases "f x s")
    case (Inl err)
    then show ?thesis using Cons.prems by (simp add: pads_only_refl)
  next
    case (Inr s1)
    note step = sets [OF assms(1) Inr Cons.prems(1)]
    have s1: "core_ok env s1" "pads_only {holding x} s s1" using step Cons.prems(2) by auto
    have "\<forall>y \<in> set xs. allowed s1 y" using keeps [OF s1(2)] Cons.prems(2) by simp
    then have "core_ok env s' \<and> pads_only (holding ` set xs) s1 s'" using Cons.IH [OF s1(1)] Cons.prems(3) Inr by simp
    then show ?thesis using pads_only_trans [OF s1(2)] by simp
  qed
qed

lemma loop_settles:
  assumes "env_ok env" "core_ok env s" "\<forall>x \<in> set xs. allowed s x" "each_commits f xs s = (s', None)" "distinct (map holding xs)"
  shows "\<forall>x \<in> set xs. settled x s'"
  using assms(2-5)
proof (induction xs arbitrary: s)
  case (Cons x xs)
  obtain s1 where run: "f x s = Inr s1" "each_commits f xs s1 = (s', None)" using Cons.prems(3) by (auto split: sum.splits)
  have s1: "core_ok env s1" "pads_only {holding x} s s1" "settled x s1" using sets [OF assms(1) run(1) Cons.prems(1)] Cons.prems(2) by auto
  have ok: "\<forall>y \<in> set xs. allowed s1 y" using keeps [OF s1(2)] Cons.prems(2) by simp
  have "pads_only (holding ` set xs) s1 s'" using loop_keeps [OF assms(1) s1(1) ok run(2)] by blast
  then have "settled x s'" using stays s1(3) Cons.prems(4) by auto
  then show ?case using Cons.IH [OF s1(1) ok run(2)] Cons.prems(4) by simp
qed simp

end

interpretation deleting: pad_setter env "delete_pad env userID" "Pair user"
    "\<lambda>s h. env_parse_uuid env userID = Some user \<and> env_parse_uuid env (snd (snd h)) = Some (snd (snd h))"
    "\<lambda>h s. pads_at user h (ds_ledger s) = {}" for env userID user
proof unfold_locales
  fix h s s'
  assume "delete_pad env userID h s = Inr s'" "core_ok env s"
    "env_parse_uuid env userID = Some user \<and> env_parse_uuid env (snd (snd h)) = Some (snd (snd h))"
  then show "core_ok env s' \<and> pads_only {(user, h)} s s' \<and> pads_at user h (ds_ledger s') = {}"
    using DeleteInitializeTx_settles [of env userID "fst h" "fst (snd h)" "snd (snd h)" s s' user "snd (snd h)"] by (simp add: delete_pad_def)
qed (simp_all add: pads_only_at)

lemma recalcHoldingPad_computes:
  "recalcHoldingPad env (date_of start) d s =
     sum_then (computeInitializeValues env (dc_UserID d) (keyOf d) (dc_DeclaredQty d) (dc_AsOfDate d) (dc_ShareCountBasis d) start s)
       (\<lambda>init. UpsertInitializeTx env (dc_UserID d) (fst (keyOf d)) (fst (snd (keyOf d))) (snd (snd (keyOf d))) init s)"
  by (simp add: recalcHoldingPad_def computeInitializeValues_def keyOf_def sum_then_def split: sum.splits)

lemma pad_settles_frame:
  assumes only: "pads_only H s s'" and other: "(dc_UserID d, keyOf d) \<notin> H" and settles: "pad_settles env day d s"
  shows "pad_settles env day d s'"
proof -
  have "pad_for env s' day d q = pad_for env s day d q" for q
    using real_quantity_frame [OF pads_only_same_world [OF only]] by (simp add: pad_for_def running_def)
  then show ?thesis using settles pads_only_at [OF only other] by (simp add: pad_settles_def pads_only_store(2) [OF only])
qed

interpretation recalculating: pad_setter env "recalcHoldingPad env (date_of start)" "\<lambda>d. (dc_UserID d, keyOf d)" "decl_ok env"
    "pad_settles env (date_of start)" for env start
proof unfold_locales
  fix d s s'
  assume a: "env_ok env" "recalcHoldingPad env (date_of start) d s = Inr s'" "core_ok env s" "decl_ok env s d"
  obtain init where comp: "computeInitializeValues env (dc_UserID d) (keyOf d) (dc_DeclaredQty d) (dc_AsOfDate d) (dc_ShareCountBasis d) start s = Inr init"
    and up: "UpsertInitializeTx env (dc_UserID d) (fst (keyOf d)) (fst (snd (keyOf d))) (snd (snd (keyOf d))) init s = Inr s'"
    using a(2) unfolding recalcHoldingPad_computes by (auto simp: sum_then_Inr)
  have ids: "env_parse_uuid env (dc_UserID d) = Some (dc_UserID d)" "env_parse_uuid env (snd (snd (keyOf d))) = Some (snd (snd (keyOf d)))"
    "snd (snd (keyOf d)) \<in> instrument_ids (ds_master s)" using a(4) by (simp_all add: decl_ok_def keyOf_def)
  have refl: "same_world (ds_master s) (ds_master s)" by (simp add: same_world_def)
  show "core_ok env s' \<and> pads_only {(dc_UserID d, keyOf d)} s s' \<and> pad_settles env (date_of start) d s'"
    using UpsertInitializeTx_settles(1,2) [OF up a(1,3) ids] upsert_pad_settles [OF comp up refl a(1,3) ids(1) HOL.refl a(4) agrees_refl [OF a(4)]] by simp
next
  fix H s s' d
  assume "pads_only H s s'" "decl_ok env s d"
  then show "decl_ok env s' d" by (simp add: decl_ok_def pads_only_store)
qed (rule pad_settles_frame)

subsection \<open>The steps of the recalculation\<close>

lemma byHolding_facts:
  "set (map fst (byHolding ds)) = keyOf ` set ds" "distinct (map fst (byHolding ds))" "mm_get (byHolding ds) h = filter (\<lambda>d. keyOf d = h) ds"
  "(h, vs) \<in> set (byHolding ds) \<Longrightarrow> vs = filter (\<lambda>d. keyOf d = h) ds \<and> vs \<noteq> []"
proof -
  show keys: "set (map fst (byHolding ds)) = keyOf ` set ds" by (simp only: byHolding_def keys_mm_build) (simp add: image_image)
  show dist: "distinct (map fst (byHolding ds))" by (simp only: byHolding_def distinct_mm_build)
  show get: "mm_get (byHolding ds) h = filter (\<lambda>d. keyOf d = h) ds" for h
    by (simp add: byHolding_def mm_get_build filter_map comp_def)
  assume in': "(h, vs) \<in> set (byHolding ds)"
  then have "vs = filter (\<lambda>d. keyOf d = h) ds" using dist get [of h] by (simp add: mm_get_def map_of_is_SomeI)
  moreover have "h \<in> keyOf ` set ds" using in' keys by (metis fst_conv image_eqI set_map)
  ultimately show "vs = filter (\<lambda>d. keyOf d = h) ds \<and> vs \<noteq> []" by (auto simp: filter_empty_conv)
qed

definition order_ok :: "((holdingKey \<times> Declaration list) list \<Rightarrow> (holdingKey \<times> Declaration list) list) \<Rightarrow> bool" where
  "order_ok visit \<longleftrightarrow> (\<forall>xs. mset (visit xs) = mset xs)"

lemma order_okD:
  assumes "order_ok visit"
  shows "set (visit xs) = set xs" "set (map fst (visit xs)) = set (map fst xs)" "distinct (map fst xs) \<Longrightarrow> distinct (map fst (visit xs))"
proof -
  have m: "mset (visit xs) = mset xs" using assms by (simp add: order_ok_def)
  then show "set (visit xs) = set xs" by (rule mset_eq_setD)
  then show "set (map fst (visit xs)) = set (map fst xs)" by simp
  have "mset (map fst (visit xs)) = mset (map fst xs)" using m by simp
  then show "distinct (map fst xs) \<Longrightarrow> distinct (map fst (visit xs))" by (metis mset_eq_imp_distinct_iff)
qed

text \<open>The declaration that pads each holding, in the order the holdings are visited.\<close>

definition pads_of :: "((holdingKey \<times> Declaration list) list \<Rightarrow> (holdingKey \<times> Declaration list) list) \<Rightarrow> Declaration list \<Rightarrow> Declaration list" where
  "pads_of visit ds = List.map_filter (\<lambda>(h, ds). padDeclaration ds) (visit (byHolding ds))"

lemma map_filter_keys:
  assumes "\<And>h vs. (h, vs) \<in> set xs \<Longrightarrow> \<exists>p. padDeclaration vs = Some p \<and> keyOf p = h"
  shows "map keyOf (List.map_filter (\<lambda>(h, ds). padDeclaration ds) xs) = map fst xs"
  using assms
proof (induction xs)
  case (Cons x xs)
  obtain h vs where x: "x = (h, vs)" by fastforce
  obtain p where "padDeclaration vs = Some p" "keyOf p = h" using Cons.prems [of h vs] x by auto
  then show ?case using Cons.IH Cons.prems x by (simp add: map_filter_simps)
qed (simp add: map_filter_simps)

lemma pads_of_facts:
  assumes v: "order_ok visit"
  shows "map keyOf (pads_of visit ds) = map fst (visit (byHolding ds))"
    and "p \<in> set (pads_of visit ds) \<Longrightarrow> p \<in> set ds \<and> (\<forall>d \<in> set ds. keyOf d = keyOf p \<longrightarrow> dc_AsOfDate p \<le> dc_AsOfDate d)"
    and "d \<in> set ds \<Longrightarrow> \<exists>p \<in> set (pads_of visit ds). keyOf p = keyOf d"
    and "distinct (map keyOf (pads_of visit ds))"
proof -
  have pick: "\<exists>p. padDeclaration vs = Some p \<and> keyOf p = h \<and> p \<in> set ds \<and> (\<forall>d \<in> set ds. keyOf d = h \<longrightarrow> dc_AsOfDate p \<le> dc_AsOfDate d)"
    if in': "(h, vs) \<in> set (visit (byHolding ds))" for h vs
  proof -
    have vs: "vs = filter (\<lambda>d. keyOf d = h) ds" "vs \<noteq> []" using in' byHolding_facts(4) [of h vs ds] order_okD(1) [OF v] by auto
    then obtain p where p: "padDeclaration vs = Some p" using padDeclaration_None [of vs] by auto
    then show ?thesis using padDeclaration_least [OF p] vs(1) by auto
  qed
  show keys: "map keyOf (pads_of visit ds) = map fst (visit (byHolding ds))" unfolding pads_of_def by (rule map_filter_keys) (use pick in blast)
  show "p \<in> set (pads_of visit ds) \<Longrightarrow> p \<in> set ds \<and> (\<forall>d \<in> set ds. keyOf d = keyOf p \<longrightarrow> dc_AsOfDate p \<le> dc_AsOfDate d)"
    using pick unfolding pads_of_def by (fastforce simp: List.map_filter_def)
  show "distinct (map keyOf (pads_of visit ds))" unfolding keys by (rule order_okD(3) [OF v byHolding_facts(2)])
  show "\<exists>p \<in> set (pads_of visit ds). keyOf p = keyOf d" if "d \<in> set ds"
  proof -
    have "keyOf d \<in> set (map keyOf (pads_of visit ds))" unfolding keys order_okD(2) [OF v] byHolding_facts(1) using that by blast
    then show ?thesis by auto
  qed
qed

lemma set_decls_again [simp]: "set_decls ds (set_decls ds' s) = set_decls ds s"
  by (simp add: set_decls_def)

lemma set_decls_same: "core_ok env s \<Longrightarrow> set_decls (ds_decls s) s = s"
  by (simp add: set_decls_def core_ok_def decls_ok_def)

lemma prune_commits:
  assumes "core_ok env s" "set xs \<subseteq> set (ds_decls s)" "distinct xs"
  shows "each_commits (\<lambda>d. DeleteHoldingDeclaration env (dc_ID d)) xs s = (set_decls (filter (\<lambda>d. d \<notin> set xs) (ds_decls s)) s, None)
    \<and> core_ok env (set_decls (filter (\<lambda>d. d \<notin> set xs) (ds_decls s)) s)"
  using assms
proof (induction xs arbitrary: s)
  case Nil
  then show ?case by (simp add: set_decls_same)
next
  case (Cons x xs)
  let ?s = "set_decls (filter (\<lambda>d. dc_ID d \<noteq> dc_ID x) (ds_decls s)) s"
  have x: "x \<in> set (ds_decls s)" "env_parse_uuid env (dc_ID x) = Some (dc_ID x)" using Cons.prems core_okD(4) [of env s x] by (auto simp: decl_ok_def)
  have one: "dc_ID d = dc_ID x \<longleftrightarrow> d = x" if "d \<in> set (ds_decls s)" for d
    using core_okD(1) [OF Cons.prems(1)] that x(1) by (metis distinct_map inj_onD)
  have del: "DeleteHoldingDeclaration env (dc_ID x) s = Inr ?s"
    using x by (auto simp: DeleteHoldingDeclaration_def of_option_def sum_then_def list_ex_iff)
  then have ok: "core_ok env ?s" using DeleteHoldingDeclaration_ok [OF del Cons.prems(1)] by blast
  have "set xs \<subseteq> set (ds_decls ?s)" using Cons.prems(2,3) one by auto
  note rest = Cons.IH [OF ok this] 
  have "filter (\<lambda>d. d \<notin> set xs) (ds_decls ?s) = filter (\<lambda>d. d \<notin> set (x # xs)) (ds_decls s)"
    using one by (auto intro: filter_cong)
  then show ?case using rest Cons.prems(3) del by simp
qed

lemma each_commits_total: "\<forall>x \<in> set xs. \<forall>s. \<exists>s'. f x s = Inr s' \<Longrightarrow> snd (each_commits f xs s) = None"
proof (induction xs arbitrary: s)
  case (Cons x xs)
  then obtain s' where "f x s = Inr s'" by (meson list.set_intros(1))
  then show ?case using Cons by simp
qed simp

lemma delete_pad_total:
  assumes "env_parse_uuid env userID = Some user" "env_parse_uuid env (snd (snd h)) = Some (snd (snd h))"
  shows "\<exists>s'. delete_pad env userID h s = Inr s'"
  using assms by (simp add: delete_pad_def DeleteInitializeTx_def of_option_def sum_then_def)

definition mine :: "string \<Rightarrow> Store \<Rightarrow> Declaration list" where
  "mine user s = sort_key (\<lambda>d. (keyOf d, dc_AsOfDate d)) (filter (\<lambda>d. dc_UserID d = user) (ds_decls s))"

definition pruned :: "string \<Rightarrow> time \<Rightarrow> Store \<Rightarrow> Store" where
  "pruned user day s = set_decls (filter (\<lambda>d. \<not> (dc_UserID d = user \<and> dc_AsOfDate d < day)) (ds_decls s)) s"

abbreviation still :: "string \<Rightarrow> time \<Rightarrow> Store \<Rightarrow> Declaration list" where
  "still user day s \<equiv> filter (\<lambda>d. \<not> dc_AsOfDate d < day) (mine user s)"

definition orphans :: "((holdingKey \<times> Declaration list) list \<Rightarrow> (holdingKey \<times> Declaration list) list) \<Rightarrow> string \<Rightarrow> time \<Rightarrow> Store \<Rightarrow> holdingKey list" where
  "orphans visit user day s = filter (\<lambda>h. mm_get (byHolding (still user day s)) h = []) (map fst (visit (byHolding (mine user s))))"

lemma mine_set: "set (mine user s) = {d \<in> set (ds_decls s). dc_UserID d = user}"
  by (simp add: mine_def)

lemma still_declared: "{d \<in> set (still user day s). keyOf d = h} = declared_for user h (pruned user day s)"
  by (auto simp: mine_set pruned_def declared_for_def)

lemma prune_is:
  assumes "core_ok env s"
  shows "fst (pruneBeforeStart env (mine user s) day s) = (pruned user day s, None)" "snd (pruneBeforeStart env (mine user s) day s) = still user day s"
    "core_ok env (pruned user day s)"
proof -
  let ?xs = "filter (\<lambda>d. dc_AsOfDate d < day) (mine user s)"
  have dist: "distinct (ds_decls s)" using core_okD(1) [OF assms] by (simp add: distinct_map)
  have "filter (\<lambda>d. d \<notin> set ?xs) (ds_decls s) = filter (\<lambda>d. \<not> (dc_UserID d = user \<and> dc_AsOfDate d < day)) (ds_decls s)"
    by (intro filter_cong) (auto simp: mine_set)
  then show "fst (pruneBeforeStart env (mine user s) day s) = (pruned user day s, None)" "core_ok env (pruned user day s)"
    using prune_commits [OF assms, of ?xs] dist by (auto simp: pruneBeforeStart_def pruned_def mine_def)
  show "snd (pruneBeforeStart env (mine user s) day s) = still user day s" by (simp add: pruneBeforeStart_def)
qed

lemma Recalc_unfold:
  assumes user: "env_parse_uuid env userID = Some user" and ok: "core_ok env s"
  shows "RecalcAllInitializeTxs env visit userID s = (if mine user s = [] then (s, None) else case started user s of
      None \<Rightarrow> each_commits (delete_pad env userID) (map fst (visit (byHolding (mine user s)))) s
    | Some start \<Rightarrow> (case each_commits (delete_pad env userID) (orphans visit user (date_of start) s) (pruned user (date_of start) s) of
        (s2, Some e) \<Rightarrow> (s2, Some e)
      | (s2, None) \<Rightarrow> each_commits (recalcHoldingPad env (date_of start)) (pads_of visit (still user (date_of start) s)) s2))"
proof -
  have list: "ListHoldingDeclarations env userID s = Inr (map (read_row env s) (mine user s))"
    using user by (simp add: ListHoldingDeclarations_def of_option_def sum_then_def mine_def)
  have ds: "map hr_Decl (map (read_row env s) (mine user s)) = mine user s" by (simp add: read_row_def comp_def)
  have start: "GetPortfolioStartDate env userID s = Inr (started user s)" using user by (simp add: GetPortfolioStartDate_started)
  have pr: "pruneBeforeStart env (mine user s) day s = ((pruned user day s, None), still user day s)" for day
    using prune_is(1,2) [OF ok, of user day] by (metis prod.collapse)
  show ?thesis
    unfolding RecalcAllInitializeTxs_def list sum.case Let_def ds start
    by (simp add: pr orphans_def pads_of_def split: option.split)
qed

text \<open>What a run leaves behind, on every outcome.\<close>

lemma in_keys: "h \<in> set (map fst (visit (byHolding ds))) \<longleftrightarrow> (\<exists>d \<in> set ds. keyOf d = h)" if "order_ok visit"
  unfolding order_okD(2) [OF that] byHolding_facts(1) by auto

lemma keys_parse:
  assumes "core_ok env s" "order_ok visit" "h \<in> set (map fst (visit (byHolding (mine user s))))"
  shows "env_parse_uuid env (snd (snd h)) = Some (snd (snd h))"
  using assms(3) core_okD(4) [OF assms(1)] unfolding in_keys [OF assms(2)] by (auto simp: mine_set decl_ok_def keyOf_def)

lemma deleted_store:
  assumes env: "env_ok env" and ok: "core_ok env s" and user: "env_parse_uuid env userID = Some user"
    and ids: "\<forall>h \<in> set hs. env_parse_uuid env (snd (snd h)) = Some (snd (snd h))" and dist: "distinct hs"
  shows "\<exists>s'. each_commits (delete_pad env userID) hs s = (s', None) \<and> core_ok env s' \<and> pads_only (Pair user ` set hs) s s'
    \<and> (\<forall>h \<in> set hs. pads_at user h (ds_ledger s') = {})"
proof -
  obtain s' e where run: "each_commits (delete_pad env userID) hs s = (s', e)" by fastforce
  have "e = None" using each_commits_total [of hs "delete_pad env userID" s] delete_pad_total [OF user] ids run by auto
  then have run: "each_commits (delete_pad env userID) hs s = (s', None)" using run by simp
  have al: "\<forall>h \<in> set hs. env_parse_uuid env userID = Some user \<and> env_parse_uuid env (snd (snd h)) = Some (snd (snd h))" using user ids by blast
  have "distinct (map (Pair user) hs)" using dist by (simp add: distinct_map inj_on_def)
  then show ?thesis using run deleting.loop_keeps [OF env ok al run] deleting.loop_settles [OF env ok al run] by blast
qed

lemma same_ledger_pads: "ds_ledger (pruned user day s) = ds_ledger s"
  by (simp add: pruned_def)

lemma orphans_iff:
  assumes "order_ok visit"
  shows "h \<in> set (orphans visit user day s) \<longleftrightarrow> declared_for user h s \<noteq> {} \<and> declared_for user h (pruned user day s) = {}"
proof -
  have "mm_get (byHolding (still user day s)) h = [] \<longleftrightarrow> declared_for user h (pruned user day s) = {}"
    unfolding byHolding_facts(3) still_declared [symmetric] by (auto simp: filter_empty_conv)
  moreover have "h \<in> set (map fst (visit (byHolding (mine user s)))) \<longleftrightarrow> declared_for user h s \<noteq> {}"
    unfolding in_keys [OF assms] mine_set by (auto simp: declared_for_def)
  ultimately show ?thesis unfolding orphans_def by auto
qed

lemma orphaned_store:
  assumes env: "env_ok env" and ok: "store_ok env s" and user: "env_parse_uuid env userID = Some user" and v: "order_ok visit"
  shows "\<exists>s2. each_commits (delete_pad env userID) (orphans visit user day s) (pruned user day s) = (s2, None)
    \<and> core_ok env s2 \<and> pads_declared s2 \<and> pads_only (Pair user ` set (orphans visit user day s)) (pruned user day s) s2"
proof -
  let ?s1 = "pruned user day s" and ?os = "orphans visit user day s"
  have core: "core_ok env s" and decl: "pads_declared s" using ok by (simp_all add: store_ok_def)
  have dist: "distinct ?os" unfolding orphans_def using order_okD(3) [OF v byHolding_facts(2)] by simp
  have ids: "\<forall>h \<in> set ?os. env_parse_uuid env (snd (snd h)) = Some (snd (snd h))" using keys_parse [OF core v, of _ user] by (simp add: orphans_def del: set_map)
  obtain s2 where s2: "each_commits (delete_pad env userID) ?os ?s1 = (s2, None)" "core_ok env s2" "pads_only (Pair user ` set ?os) ?s1 s2"
    "\<forall>h \<in> set ?os. pads_at user h (ds_ledger s2) = {}"
    using deleted_store [OF env prune_is(3) [OF core] user ids dist] by blast
  have "pads_declared s2"
  proof (rule pads_declared_step [OF s2(3)])
    fix w h assume other: "(w, h) \<notin> Pair user ` set ?os" and "pads_at w h (ds_ledger ?s1) \<noteq> {}"
    then have ne: "declared_for w h s \<noteq> {}" using pads_declaredD [OF decl] unfolding same_ledger_pads by blast
    show "declared_for w h ?s1 \<noteq> {}"
    proof (cases "w = user")
      case True
      then have "h \<notin> set ?os" using other by blast
      then show ?thesis using True ne orphans_iff [OF v, of h user day s] by simp
    next
      case False
      then have "declared_for w h ?s1 = declared_for w h s" by (auto simp: pruned_def declared_for_def)
      then show ?thesis using ne by simp
    qed
  qed (use s2(4) in auto)
  then show ?thesis using s2 by blast
qed

lemma unstarted_store:
  assumes env: "env_ok env" and ok: "store_ok env s" and user: "env_parse_uuid env userID = Some user" and v: "order_ok visit"
    and run: "each_commits (delete_pad env userID) (map fst (visit (byHolding (mine user s)))) s = (s', e)"
  shows "store_ok env s'" "same_world (ds_master s) (ds_master s')" "ds_decls s' = ds_decls s"
proof -
  let ?hs = "map fst (visit (byHolding (mine user s)))"
  have core: "core_ok env s" and decl: "pads_declared s" using ok by (simp_all add: store_ok_def)
  have ids: "\<forall>h \<in> set ?hs. env_parse_uuid env (snd (snd h)) = Some (snd (snd h))" using keys_parse [OF core v, of _ user] by blast
  obtain s2 where s2: "each_commits (delete_pad env userID) ?hs s = (s2, None)" "core_ok env s2" "pads_only (Pair user ` set ?hs) s s2"
    using deleted_store [OF env core user ids order_okD(3) [OF v byHolding_facts(2)]] by blast
  have s': "s' = s2" using run s2(1) by simp
  have "pads_declared s2"
  proof (rule pads_declared_step [OF s2(3)])
    show "declared_for w h s \<noteq> {}" if "(w, h) \<in> Pair user ` set ?hs" for w h
    proof -
      have "w = user" "h \<in> set ?hs" using that by auto
      then show ?thesis unfolding in_keys [OF v] mine_set by (auto simp: declared_for_def)
    qed
  qed (rule pads_declaredD [OF decl])
  then show "store_ok env s'" using s2(2) by (simp add: store_ok_def s')
  show "same_world (ds_master s) (ds_master s')" "ds_decls s' = ds_decls s"
    unfolding s' by (rule pads_only_same_world [OF s2(3)], rule pads_only_store(1) [OF s2(3)])
qed

lemma restarted_store:
  assumes env: "env_ok env" and ok: "core_ok env s2" and decl: "pads_declared s2" and v: "order_ok visit"
    and ps: "\<forall>p \<in> set ps. p \<in> set (ds_decls s2) \<and> dc_UserID p = user" and dist: "distinct (map keyOf ps)"
    and run: "each_commits (recalcHoldingPad env (date_of start)) ps s2 = (s', e)"
  shows "store_ok env s'" "same_world (ds_master s2) (ds_master s')" "ds_decls s' = ds_decls s2"
    and "e = None \<Longrightarrow> \<forall>p \<in> set ps. pad_settles env (date_of start) p s'"
proof -
  have al: "\<forall>p \<in> set ps. decl_ok env s2 p" using core_okD(4) [OF ok] ps by blast
  have "map (\<lambda>d. (dc_UserID d, keyOf d)) ps = map (Pair user) (map keyOf ps)" using ps by simp
  then have dist': "distinct (map (\<lambda>d. (dc_UserID d, keyOf d)) ps)" using dist by (simp add: distinct_map inj_on_def)
  have s3: "core_ok env s'" "pads_only ((\<lambda>d. (dc_UserID d, keyOf d)) ` set ps) s2 s'" using recalculating.loop_keeps [OF env ok al run] by blast+
  have "pads_declared s'"
  proof (rule pads_declared_step [OF s3(2)])
    show "declared_for w h s2 \<noteq> {}" if "(w, h) \<in> (\<lambda>d. (dc_UserID d, keyOf d)) ` set ps" for w h
      using that ps unfolding declared_for_def by blast
  qed (rule pads_declaredD [OF decl])
  then show "store_ok env s'" using s3(1) by (simp add: store_ok_def)
  show "same_world (ds_master s2) (ds_master s')" "ds_decls s' = ds_decls s2"
    by (rule pads_only_same_world [OF s3(2)], rule pads_only_store(1) [OF s3(2)])
  show "\<forall>p \<in> set ps. pad_settles env (date_of start) p s'" if "e = None"
    using recalculating.loop_settles [OF env ok al _ dist'] run that by blast
qed

lemma recalculated_store:
  assumes env: "env_ok env" and ok: "store_ok env s" and user: "env_parse_uuid env userID = Some user" and v: "order_ok visit"
    and run: "RecalcAllInitializeTxs env visit userID s = (s', e)"
  shows "store_ok env s' \<and> same_world (ds_master s) (ds_master s')
    \<and> (started user s = None \<longrightarrow> ds_decls s' = ds_decls s)
    \<and> (\<forall>start. started user s = Some start \<longrightarrow> ds_decls s' = ds_decls (pruned user (date_of start) s)
         \<and> (e = None \<longrightarrow> (\<forall>p \<in> set (pads_of visit (still user (date_of start) s)). pad_settles env (date_of start) p s')))"
proof -
  have core: "core_ok env s" using ok by (simp add: store_ok_def)
  note run' = run [unfolded Recalc_unfold [OF user core]]
  consider "mine user s = []" | "mine user s \<noteq> []" "started user s = None" | start where "mine user s \<noteq> []" "started user s = Some start" by blast
  then show ?thesis
  proof cases
    case 1
    then have no: "filter (\<lambda>d. \<not> (dc_UserID d = user \<and> dc_AsOfDate d < day)) (ds_decls s) = ds_decls s" for day
      using mine_set [of user s] by (intro filter_True) auto
    have "p \<notin> set (pads_of visit (still user day s))" for day p using pads_of_facts(2) [OF v, of p "[]"] 1 by auto
    then have "\<forall>p \<in> set (pads_of visit (still user day s)). pad_settles env day p s'" for day by blast
    then show ?thesis using 1 run' ok no by (simp add: pruned_def same_world_def)
  next
    case 2
    then have "each_commits (delete_pad env userID) (map fst (visit (byHolding (mine user s)))) s = (s', e)" using run' by simp
    from unstarted_store [OF env ok user v this] show ?thesis using 2 by simp
  next
    case (3 start)
    let ?day = "date_of start" and ?ps = "pads_of visit (still user (date_of start) s)"
    obtain s2 where s2: "each_commits (delete_pad env userID) (orphans visit user ?day s) (pruned user ?day s) = (s2, None)" "core_ok env s2" "pads_declared s2"
      "pads_only (Pair user ` set (orphans visit user ?day s)) (pruned user ?day s) s2"
      using orphaned_store [OF env ok user v] by blast
    have run3: "each_commits (recalcHoldingPad env ?day) ?ps s2 = (s', e)" using run' 3 s2(1) by simp
    have decls: "ds_decls s2 = ds_decls (pruned user ?day s)" using pads_only_store(1) [OF s2(4)] .
    have "\<forall>p \<in> set ?ps. p \<in> set (ds_decls s2) \<and> dc_UserID p = user"
    proof
      fix p assume "p \<in> set ?ps"
      then have "p \<in> set (still user ?day s)" using pads_of_facts(2) [OF v] by blast
      then show "p \<in> set (ds_decls s2) \<and> dc_UserID p = user" unfolding decls by (simp add: mine_set pruned_def)
    qed
    note s3 = restarted_store [OF env s2(2,3) v this pads_of_facts(4) [OF v] run3]
    have "same_world (ds_master s) (ds_master (pruned user ?day s))" unfolding pruned_def by (rule same_world_decls(1))
    then have "same_world (ds_master s) (ds_master s')" using same_world_trans pads_only_same_world [OF s2(4)] s3(2) by blast
    then show ?thesis using s3 decls 3 by simp
  qed
qed

subsection \<open>What a successful run achieves\<close>

lemma kind_pad_chosen:
  assumes v: "order_ok visit" and ok: "core_ok env s'" and decls: "ds_decls s' = ds_decls (pruned user day s)"
    and d: "d \<in> set (ds_decls s')" "dc_UserID d = user" "declarationKind (ds_decls s') d = KIND_PAD"
  shows "d \<in> set (pads_of visit (still user day s))" "\<not> dc_AsOfDate d < day"
proof -
  have st: "x \<in> set (still user day s) \<longleftrightarrow> x \<in> set (ds_decls s') \<and> dc_UserID x = user" for x
    unfolding decls by (auto simp: mine_set pruned_def)
  have ds: "d \<in> set (still user day s)" using d st by blast
  then show "\<not> dc_AsOfDate d < day" by simp
  obtain p where p: "p \<in> set (pads_of visit (still user day s))" "keyOf p = keyOf d" using pads_of_facts(3) [OF v ds] by blast
  note least = pads_of_facts(2) [OF v p(1)]
  have pin: "p \<in> set (ds_decls s')" "dc_UserID p = user" using least st by blast+
  have "dc_AsOfDate p \<le> dc_AsOfDate d" using least ds p(2) by simp
  moreover have "dc_AsOfDate d \<le> dc_AsOfDate p" using kind_pad_least [OF d(3)] pin p(2) d(2) by (simp add: declared_for_def)
  ultimately have "same_statement d p" using pin(2) p(2) d(2) by (simp add: same_statement_def)
  then have "d = p" using core_okD(3) [OF ok d(1) pin(1)] by blast
  then show "d \<in> set (pads_of visit (still user day s))" using p(1) by simp
qed

lemma recalculated_true:
  assumes env: "env_ok env" and ok: "store_ok env s" and user: "env_parse_uuid env userID = Some user" and v: "order_ok visit"
    and div: "exact_div env" "splits_ok env (ds_master s)"
    and run: "RecalcAllInitializeTxs env visit userID s = (s', None)" and start: "started user s \<noteq> None"
    and d: "d \<in> set (ds_decls s')" "dc_UserID d = user" "declarationKind (ds_decls s') d = KIND_PAD"
  shows "declaration_true env s' d"
proof -
  obtain t where t: "started user s = Some t" using start by blast
  have r: "core_ok env s'" "same_world (ds_master s) (ds_master s')" "ds_decls s' = ds_decls (pruned user (date_of t) s)"
    "\<forall>p \<in> set (pads_of visit (still user (date_of t) s)). pad_settles env (date_of t) p s'"
    using recalculated_store [OF env ok user v run] t by (simp_all add: store_ok_def)
  note c = kind_pad_chosen [OF v r(1,3) d]
  have "splits_ok env (ds_master s')" "started user s' = Some t" using splits_ok_frame [OF r(2)] started_frame [OF r(2)] div(2) t by simp_all
  then show ?thesis using settled_true [of env t, OF _ r(1) d(1) div(1)] r(4) c d(2) by simp
qed

subsection \<open>Running it again\<close>

text \<open>Restating a leg to what it is leaves the ledger as it is.\<close>

lemma restated_same: "leg_is user h c g acct q init t \<Longrightarrow> restated_leg c q init t = t"
  by (simp add: leg_is_def restated_leg_def)

lemma upsert_leg_same:
  assumes "t \<in> set (l_txs l)" "leg_is user h c g acct q init t" "\<And>u. u \<in> set (l_txs l) \<Longrightarrow> pad_of user h acct u \<Longrightarrow> u = t"
  shows "upsert_leg env user h c g' acct q init l = l"
proof -
  have "pad_of user h acct t" using assms(2) by (simp add: leg_is_def)
  then have "list_ex (pad_of user h acct) (l_txs l)" using assms(1) by (auto simp: list_ex_iff)
  moreover have "map (\<lambda>u. if pad_of user h acct u then restated_leg c q init u else u) (l_txs l) = l_txs l"
    using assms(3) restated_same [OF assms(2)] by (intro map_idI) auto
  ultimately show ?thesis by (simp add: upsert_leg_def)
qed

lemma date_group_same: "(\<And>x. x \<in> set (l_groups l) \<Longrightarrow> tg_ID x = g \<Longrightarrow> tg_Timestamp x = ts) \<Longrightarrow> date_group g ts l = l"
  unfolding date_group_def by (simp add: map_idI)

lemma write_pad_same:
  assumes ok: "ledger_ok env l" "pads_ok (set (l_txs l))" and at: "pads_at user h l = {U, E}"
    and U: "leg_is user h c g ''USER'' (it_Quantity init) init U" and E: "leg_is user h c g ''EQUITY'' (- it_Quantity init) init E"
  shows "write_pad env user h c init l = l"
proof -
  have mine: "U \<in> set (l_txs l)" "E \<in> set (l_txs l)" using at by blast+
  have acct: "t_AccountType U = ''USER''" "t_AccountType E = ''EQUITY''" "t_OrderDate U = it_Timestamp init" "t_OrderDate E = it_Timestamp init"
    "t_GroupID U = g" "t_GroupID E = g" "is_pad U" "pad_owner U = owner user h" using U E by (simp_all add: leg_is_def pad_of_iff)
  have pads: "u \<in> {U, E}" if "u \<in> set (l_txs l)" "pad_of user h a u" for u a using at that by (auto simp: pad_of_iff)
  have onlyU: "u = U" if "u \<in> set (l_txs l)" "pad_of user h ''USER'' u" for u
    using pads [OF that] that(2) acct(2) by (elim insertE emptyE) (simp_all add: pad_of_iff)
  have onlyE: "u = E" if "u \<in> set (l_txs l)" "pad_of user h ''EQUITY'' u" for u
    using pads [OF that] that(2) acct(1) by (elim insertE emptyE) (simp_all add: pad_of_iff)
  have "List.find (pad_of user h ''USER'') (l_txs l) \<noteq> None" using mine(1) U by (auto simp: find_None_iff leg_is_def)
  then obtain t where t: "List.find (pad_of user h ''USER'') (l_txs l) = Some t" by blast
  then have "t = U" using onlyU find_pad_Some [OF t] by (auto simp: find_Some_iff)
  then have pg: "pad_group env user h (it_Timestamp init) l = (l, g)" using t acct(5) by (simp add: pad_group_def)
  have grp: "set (group_txs l g) = {U, E}"
  proof -
    have "t \<in> {U, E}" if "t \<in> set (l_txs l)" "t_GroupID t = g" for t
      using pads_okD(4) [OF ok(2) mine(1) acct(7) that(1)] that(2) acct(5,8) at that(1) by auto
    then show ?thesis using mine acct(5,6) by (auto simp: group_txs_def)
  qed
  have "tg_Timestamp x = it_Timestamp init" if "x \<in> set (l_groups l)" "tg_ID x = g" for x
  proof -
    have "tg_Timestamp x = Min (t_OrderDate ` set (group_txs l g))" using ok(1) that by (simp add: ledger_ok_def dated_off_def)
    then show ?thesis unfolding grp using acct(3,4) by simp
  qed
  then show ?thesis
    using upsert_leg_same [OF mine(1) U onlyU, of env g] upsert_leg_same [OF mine(2) E onlyE, of env g] date_group_same [of l g]
    by (simp add: write_pad_def pg)
qed

lemma recalc_same:
  assumes settles: "pad_settles env (date_of start) d s" and ok: "core_ok env s" and d: "decl_ok env s d"
  shows "recalcHoldingPad env (date_of start) d s = Inr s"
proof -
  let ?day = "date_of start"
  obtain q i g U E where q: "env_parse_dec env (dc_DeclaredQty d) = Some q"
    and i: "List.find (\<lambda>i. in_ID i = dc_InstrumentID d) (sm_instruments (ds_master s)) = Some i"
    and at: "pads_at (dc_UserID d) (keyOf d) (ds_ledger s) = {U, E}"
    and U: "leg_is (dc_UserID d) (keyOf d) (pad_commodity i) g ''USER'' (it_Quantity (pad_for env s ?day d q)) (pad_for env s ?day d q) U"
    and E: "leg_is (dc_UserID d) (keyOf d) (pad_commodity i) g ''EQUITY'' (- it_Quantity (pad_for env s ?day d q)) (pad_for env s ?day d q) E"
    using settles unfolding pad_settles_def by blast
  have ids: "env_parse_uuid env (dc_UserID d) = Some (dc_UserID d)" "env_parse_uuid env (dc_InstrumentID d) = Some (dc_InstrumentID d)"
    "date_of (dc_ShareCountBasis d) = dc_ShareCountBasis d" using d by (simp_all add: decl_ok_def)
  have lk: "ledger_ok env (ds_ledger s)" "pads_ok (set (l_txs (ds_ledger s)))" using ok by (simp_all add: core_ok_def)
  have "recalcHoldingPad env ?day d s = UpsertInitializeTx env (dc_UserID d) (dc_Broker d) (dc_Account d) (dc_InstrumentID d) (pad_for env s ?day d q) s"
    using q ids by (simp add: recalcHoldingPad_def ComputeRunningBalance_def of_option_def sum_then_def pad_for_def running_def keyOf_def)
  also have "\<dots> = Inr (set_ledger (write_pad env (dc_UserID d) (keyOf d) (pad_commodity i) (pad_for env s ?day d q) (ds_ledger s)) s)"
    using ids i by (simp add: UpsertInitializeTx_def of_option_def sum_then_def write_pad_def keyOf_def Let_def split: prod.splits)
  also have "\<dots> = Inr s" unfolding write_pad_same [OF lk at U E] by simp
  finally show ?thesis .
qed

lemma each_commits_same: "\<forall>x \<in> set xs. f x s = Inr s \<Longrightarrow> each_commits f xs s = (s, None)"
  by (induction xs) auto

lemma delete_same:
  assumes user: "env_parse_uuid env userID = Some user" "env_parse_uuid env (snd (snd h)) = Some (snd (snd h))"
    and ok: "core_ok env s" and none: "pads_at user h (ds_ledger s) = {}"
  shows "delete_pad env userID h s = Inr s"
proof -
  have wf: "wf_ledger env (ds_ledger s)" using ok by (simp add: core_ok_def ledger_ok_def)
  have "g \<notin> set (pad_groups user h (ds_ledger s))" for g unfolding pad_groups_iff [OF wf] none by blast
  then have "delete_groups (\<lambda>g. g \<in> set (pad_groups user h (ds_ledger s))) (ds_ledger s) = ds_ledger s" by (simp add: delete_groups_def)
  then show ?thesis using user by (simp add: delete_pad_def DeleteInitializeTx_def of_option_def sum_then_def)
qed

lemma started_none_pads:
  assumes env: "env_ok env" and ok: "store_ok env s" and user: "env_parse_uuid env userID = Some user" and v: "order_ok visit"
    and run: "each_commits (delete_pad env userID) (map fst (visit (byHolding (mine user s)))) s = (s', None)" and d: "d \<in> set (mine user s)"
  shows "pads_at user (keyOf d) (ds_ledger s') = {}"
proof -
  have core: "core_ok env s" using ok by (simp add: store_ok_def)
  have ids: "\<forall>h \<in> set (map fst (visit (byHolding (mine user s)))). env_parse_uuid env (snd (snd h)) = Some (snd (snd h))" using keys_parse [OF core v, of _ user] by blast
  have "\<forall>h \<in> set (map fst (visit (byHolding (mine user s)))). pads_at user h (ds_ledger s') = {}"
    using deleted_store [OF env core user ids order_okD(3) [OF v byHolding_facts(2)]] run by auto
  then show ?thesis using d in_keys [OF v, of "keyOf d" "mine user s"] by blast
qed

lemma pruned_twice:
  assumes "core_ok env s'" "ds_decls s' = ds_decls (pruned user day s)"
  shows "pruned user day s' = s'" "set (mine user s') = set (still user day s)"
proof -
  have "filter (\<lambda>d. \<not> (dc_UserID d = user \<and> dc_AsOfDate d < day)) (ds_decls s') = ds_decls s'"
    unfolding assms(2) by (simp add: pruned_def)
  then show "pruned user day s' = s'" using set_decls_same [OF assms(1)] by (simp add: pruned_def)
  show "set (mine user s') = set (still user day s)" unfolding mine_set assms(2) by (auto simp: pruned_def mine_set)
qed

lemma recalculated_again:
  assumes env: "env_ok env" and ok: "store_ok env s" and user: "env_parse_uuid env userID = Some user" and v: "order_ok visit" "order_ok visit'"
    and run: "RecalcAllInitializeTxs env visit userID s = (s', None)"
  shows "RecalcAllInitializeTxs env visit' userID s' = (s', None)"
proof -
  note r = recalculated_store [OF env ok user v(1) run]
  have core: "core_ok env s" "core_ok env s'" using ok r by (simp_all add: store_ok_def)
  have st: "started user s' = started user s" using started_frame r by blast
  show ?thesis
  proof (cases "started user s")
    case None
    have decls: "mine user s' = mine user s" using r None by (simp add: mine_def)
    have "delete_pad env userID h s' = Inr s'" if h: "h \<in> set (map fst (visit' (byHolding (mine user s))))" "mine user s \<noteq> []" for h
    proof -
      obtain d where d: "d \<in> set (mine user s)" "keyOf d = h" using h(1) in_keys [OF v(2)] by blast
      have "pads_at user h (ds_ledger s') = {}"
        using started_none_pads [OF env ok user v(1) _ d(1)] run h(2) None d(2) by (simp add: Recalc_unfold [OF user core(1)])
      then show ?thesis using delete_same [OF user _ core(2)] keys_parse [OF core(1) v(2) h(1)] by blast
    qed
    then show ?thesis using st None decls each_commits_same [of "map fst (visit' (byHolding (mine user s)))" "delete_pad env userID" s']
      by (auto simp: Recalc_unfold [OF user core(2)] simp del: set_map)
  next
    case (Some start)
    let ?day = "date_of start"
    have decls: "ds_decls s' = ds_decls (pruned user ?day s)" and pads: "\<forall>p \<in> set (pads_of visit (still user ?day s)). pad_settles env ?day p s'"
      using r Some by simp_all
    note twice = pruned_twice [OF core(2) decls]
    have all: "still user ?day s' = mine user s'" using twice(2) by (intro filter_True) auto
    have none: "orphans visit' user ?day s' = []" using orphans_iff [OF v(2), of _ user ?day s'] twice(1) by (metis empty_iff empty_set list.set_intros(1) neq_Nil_conv)
    have same: "recalcHoldingPad env ?day p s' = Inr s'" if "p \<in> set (pads_of visit' (mine user s'))" for p
    proof -
      note pk = pads_of_facts(2) [OF v(2) that]
      have p: "p \<in> set (ds_decls s')" "dc_UserID p = user" using pk by (simp_all add: mine_set)
      have "declarationKind (ds_decls s') p = KIND_PAD"
        using pk p(2) by (auto simp: declarationKind_def list_all_iff mine_set)
      then have "pad_settles env ?day p s'" using kind_pad_chosen(1) [OF v(1) core(2) decls p] pads by blast
      then show ?thesis using recalc_same core(2) core_okD(4) [OF core(2) p(1)] by blast
    qed
    show ?thesis using each_commits_same [of "pads_of visit' (mine user s')" "recalcHoldingPad env ?day" s'] same
      by (simp add: Recalc_unfold [OF user core(2)] st Some twice(1) none all)
  qed
qed

end
