(* ===== verification/Declared_Holdings.thy ===== *)
theory Declared_Holdings
  imports Recalculation
begin

text \<open>
  What the declarations promise their user, over the handlers and the recalculation together: the store
  stays well formed under every sequence of calls, the earliest declaration of a holding is true after
  every write, a declaration that can be read is accepted, a mismatch the check reports is one, and what
  goes wrong where a quantity is accepted that cannot be computed with, or an instrument is named in
  another spelling of its id.
\<close>

subsection \<open>Calls that commit\<close>

lemma padAfterWrite_computes:
  assumes user: "env_parse_uuid env userID = Some user" and inst: "env_parse_uuid env (snd (snd h)) = Some inst"
    and ne: "{d \<in> declared_for user h s. dc_ID d \<noteq> excl} \<union> set_option pending \<noteq> {}"
    and reads: "\<forall>d \<in> {d \<in> declared_for user h s. dc_ID d \<noteq> excl} \<union> set_option pending.
        (\<forall>e \<in> {d \<in> declared_for user h s. dc_ID d \<noteq> excl} \<union> set_option pending. dc_AsOfDate d \<le> dc_AsOfDate e)
        \<longrightarrow> env_parse_dec env (dc_DeclaredQty d) \<noteq> None"
  shows "\<exists>pad init. padAfterWrite env userID h excl pending start s = Inr pad \<and> hp_init pad = Some init"
proof -
  let ?ds = "holdingDeclarations (mine user s) h excl @ (case pending of None \<Rightarrow> [] | Some p \<Rightarrow> [p])"
  have list: "ListHoldingDeclarations env userID s = Inr (map (read_row env s) (mine user s))"
    using user by (simp add: ListHoldingDeclarations_def of_option_def sum_then_def mine_def)
  have ds: "map hr_Decl (map (read_row env s) (mine user s)) = mine user s" by (simp add: read_row_def comp_def)
  have set: "set ?ds = {d \<in> declared_for user h s. dc_ID d \<noteq> excl} \<union> set_option pending"
    by (auto simp: holdingDeclarations_def declared_for_def mine_set split: option.splits)
  have "?ds \<noteq> []" using ne set by (metis empty_set)
  then obtain p where p: "padDeclaration ?ds = Some p" using padDeclaration_None [of ?ds] by blast
  have "p \<in> {d \<in> declared_for user h s. dc_ID d \<noteq> excl} \<union> set_option pending"
    "\<forall>e \<in> {d \<in> declared_for user h s. dc_ID d \<noteq> excl} \<union> set_option pending. dc_AsOfDate p \<le> dc_AsOfDate e"
    using padDeclaration_least [OF p] unfolding set by blast+
  then obtain q where q: "env_parse_dec env (dc_DeclaredQty p) = Some q" using reads by blast
  show ?thesis using p q user inst
    by (auto simp: padAfterWrite_def list sum_then_def ds [unfolded map_map] computeInitializeValues_def ComputeRunningBalance_def of_option_def Let_def)
qed

lemma UpsertInitializeTx_commits:
  assumes "env_parse_uuid env userID = Some user" "env_parse_uuid env instID = Some inst"
  shows "\<exists>s'. UpsertInitializeTx env userID broker account instID init s = Inr s'"
  using assms by (simp add: UpsertInitializeTx_def of_option_def sum_then_def Let_def split: prod.splits)

text \<open>A declaration is accepted when the earliest of the holding, itself or another, has a quantity to compute with.\<close>

lemma api_Create_accepts:
  assumes user: "userID \<noteq> ''''" "env_parse_uuid env userID = Some user" and inst: "env_parse_uuid env (cr_InstrumentID req) = Some inst"
    "inst \<in> instrument_ids (ds_master s)" and qty: "ParseFloat_ok (cr_DeclaredQty req)" "num (cr_DeclaredQty req) = Some t"
    and start: "started user s = Some start" "date_of start \<le> dateToTime (cr_AsOfDate req)"
    and new: "\<forall>d \<in> declared_for user (cr_Broker req, cr_Account req, inst) s. dc_AsOfDate d \<noteq> dateToTime (cr_AsOfDate req)"
    and pend: "env_parse_dec env (cr_DeclaredQty req) \<noteq> None
        \<or> (\<exists>d \<in> declared_for user (cr_Broker req, cr_Account req, cr_InstrumentID req) s. dc_ID d \<noteq> '''' \<and> dc_AsOfDate d < dateToTime (cr_AsOfDate req))"
    and reads: "\<forall>d \<in> declared_for user (cr_Broker req, cr_Account req, cr_InstrumentID req) s. env_parse_dec env (dc_DeclaredQty d) \<noteq> None"
  shows "\<exists>s' p. api_CreateHoldingDeclaration env num (Some userID) req s = Some (Inr (s', p))"
proof -
  let ?asOf = "dateToTime (cr_AsOfDate req)" and ?h = "(cr_Broker req, cr_Account req, cr_InstrumentID req)"
  let ?basis = "shareCountBasis (cr_ShareCountBasis req) ?asOf"
  let ?pend = "pending_row (cr_DeclaredQty req) ?asOf ?basis"
  have sf: "start_for env userID ?asOf s = Inr start" using start user(2) by (auto simp: start_for_Inr)
  let ?S = "{d \<in> declared_for user ?h s. dc_ID d \<noteq> ''''} \<union> set_option (Some ?pend)"
  have "env_parse_dec env (dc_DeclaredQty d) \<noteq> None" if "d \<in> ?S" "\<forall>e \<in> ?S. dc_AsOfDate d \<le> dc_AsOfDate e" for d
  proof (cases "d = ?pend")
    case True
    then have "\<not> (\<exists>e \<in> declared_for user ?h s. dc_ID e \<noteq> '''' \<and> dc_AsOfDate e < ?asOf)" using that(2) by (fastforce simp: pending_row_def)
    then have "env_parse_dec env (cr_DeclaredQty req) \<noteq> None" using pend by blast
    then show ?thesis unfolding True by (simp add: pending_row_def)
  next
    case False
    then show ?thesis using that(1) reads by simp
  qed
  then obtain pad init where pad: "padAfterWrite env userID ?h '''' (Some ?pend) start s = Inr pad" "hp_init pad = Some init"
    using padAfterWrite_computes [of env userID user ?h inst s "''''" "Some ?pend" start] user(2) inst(1) by auto
  obtain d where row: "declaration_row env num userID (cr_Broker req) (cr_Account req) (cr_InstrumentID req) (cr_DeclaredQty req) ?asOf ?basis s = Inr d"
    and d: "dc_UserID d = user" "keyOf d = (cr_Broker req, cr_Account req, inst)" "dc_AsOfDate d = ?asOf"
    using user(2) inst(1) qty(2) by (simp add: declaration_row_def of_option_def or_other_def sum_then_def keyOf_def)
  have "\<not> list_ex (same_statement d) (ds_decls s)" using new d by (auto simp: list_ex_iff same_statement_def declared_for_def)
  moreover have "dc_InstrumentID d = inst" using d(2) by (simp add: keyOf_def)
  ultimately obtain s1 where create: "CreateHoldingDeclaration env num userID (cr_Broker req) (cr_Account req) (cr_InstrumentID req) (cr_DeclaredQty req) ?asOf ?basis s
      = Inr (s1, written_row d)" using row inst(2) by (auto simp: CreateHoldingDeclaration_def sum_then_def or_other_def insert_declaration_def)
  obtain s' where "UpsertInitializeTx env userID (cr_Broker req) (cr_Account req) (cr_InstrumentID req) init s1 = Inr s'"
    using UpsertInitializeTx_commits [OF user(2) inst(1)] by blast
  then show ?thesis using user(1) qty(1) sf pad create
    by (simp add: api_CreateHoldingDeclaration_def RequireUser_def run_then_def or_code_def write_code_def CreateDeclarationWithInitializeTx_def
        sum_then_def or_other_def Let_def)
qed

lemmas api_Create_commits = api_Create_accepts [OF _ _ _ _ _ _ _ _ _ disjI1]

subsection \<open>A concrete store\<close>

definition decl_env :: Env where
  "decl_env = demo_env\<lparr>env_parse_uuid := (\<lambda>s. if s = '''' then None else if s = ''I1'' then Some ''i1'' else Some s),
     env_parse_dec := map_of [(''25'', 25), (''20'', 20), (''12'', 12)]\<rparr>"

definition decl_num :: "string \<Rightarrow> string option" where
  "decl_num s = (if s \<in> {''25'', ''20'', ''12'', ''NaN''} then Some s else None)"

definition bought :: "string \<Rightarrow> string \<Rightarrow> string option \<Rightarrow> decimal \<Rightarrow> Posting" where
  "bought i acct purpose q = \<lparr>t_ID = i, t_UserID = ''user'', t_Broker = ''IBKR'', t_Account = ''isa'', t_OrderDate = 0, t_TradeDate = 0,
     t_Description = ''ACME'', t_BrokerTxTypes = [''TRANSFER''], t_Resolved = ''TRANSFER'', t_Hint = None, t_Quantity = q,
     t_TradingCurrency = None, t_SettlementCurrency = None, t_UnitPrice = None, t_SettlementAmount = None, t_InstrumentID = Some ''i1'',
     t_ShareCountBasis = None, t_AccountType = acct, t_Purpose = purpose, t_Weight = q, t_Commodity = ''inst:i1'', t_GroupID = ''a'', t_Correlations = []\<rparr>"

definition decl_ledger :: Ledger where
  "decl_ledger = \<lparr>l_txs = [bought ''aa'' ''USER'' None 10, bought ''aaa'' ''TRANSFER_CLEARING'' (Some RoutedPurpose) (- 10)],
     l_groups = [\<lparr>tg_ID = ''a'', tg_UserID = ''user'', tg_Timestamp = 0, tg_JobID = None\<rparr>], l_matches = [], l_uuids = 3\<rparr>"

definition decl_store :: Store where
  "decl_store = \<lparr>ds_master = \<lparr>sm_instruments = [plain_instrument ''i1''], sm_idents = [], sm_exchanges = [], sm_splits = [], sm_events = [],
     sm_declared = [], sm_ledger = decl_ledger, sm_now = 0\<rparr>, ds_decls = []\<rparr>"

definition declare_at :: "string \<Rightarrow> string \<Rightarrow> int \<Rightarrow> CreateRequest" where
  "declare_at inst q d = \<lparr>cr_Broker = ''IBKR'', cr_Account = ''isa'', cr_InstrumentID = inst, cr_DeclaredQty = q,
     cr_AsOfDate = Some \<lparr>dt_Year = 1970, dt_Month = 1, dt_Day = d\<rparr>, cr_ShareCountBasis = None\<rparr>"

lemma reads_as_float: "ParseFloat_ok ''25''" "ParseFloat_ok ''12''" "ParseFloat_ok ''20''"
  by (simp_all add: ParseFloat_ok_def special_def readFloat_def unsigned_def base_digit_def hex_digit_def is_digit_def lower_char_def)

lemma nan_reads_as_float: "ParseFloat_ok ''NaN''"
proof -
  have "map lower_char ''NaN'' = ''nan''" by code_simp
  then show ?thesis by (simp add: ParseFloat_ok_def special_def)
qed

lemma decl_env_ok: "env_ok decl_env"
proof -
  have "replicate (Suc n) CHR ''a'' \<noteq> ''I1''" for n by (simp add: replicate_Suc)
  then show ?thesis using demo_env_ok by (auto simp: env_ok_def decl_env_def demo_env_def)
qed

lemma decl_env_facts: "exact_div decl_env" "fine_div decl_env" "numeric_ok decl_env decl_num" "splits_ok decl_env (ds_master decl_store)"
  by (auto simp: exact_div_def fine_div_def numeric_ok_def splits_ok_def decl_env_def demo_env_def decl_num_def decl_store_def)

lemma decl_ledger_ok: "ledger_ok decl_env decl_ledger"
proof -
  have i: "issued decl_env decl_ledger = {''a'', ''aa'', ''aaa''}"
    by (simp add: decl_env_def demo_env_def decl_ledger_def lessThan_Suc eval_nat_numeral insert_commute)
  have "wf_ledger decl_env decl_ledger" unfolding wf_ledger_def i by (simp add: decl_ledger_def bought_def)
  moreover have "dated_off {} decl_ledger" by (simp add: dated_off_def decl_ledger_def group_txs_def bought_def)
  moreover have "balanced_off {} decl_ledger" by (simp add: balanced_off_def decl_ledger_def bought_def)
  moreover have "single_off {} decl_ledger" by (simp add: single_off_def decl_ledger_def bought_def)
  ultimately show ?thesis by (simp add: ledger_ok_def)
qed

lemma decl_store_ok: "store_ok decl_env decl_store"
proof -
  have "\<not> is_pad t" if "t \<in> set (l_txs decl_ledger)" for t
    using that by (auto simp: decl_ledger_def bought_def RoutedPurpose_def InitializePurpose_def)
  then have pads: "pads_ok (set (l_txs decl_ledger))" "pads_at user h decl_ledger = {}" for user h by (auto simp: pads_ok_def)
  have "holdings_real decl_ledger" by (simp add: holdings_real_def decl_ledger_def bought_def user_side_def)
  then show ?thesis using decl_ledger_ok pads
    by (simp add: store_ok_def core_ok_def pads_declared_def decls_ok_def decl_store_def)
qed

lemma decl_started: "started ''user'' decl_store = Some 0" "in_history ''user'' decl_store"
  by (simp_all add: started_def in_history_def decl_store_def decl_ledger_def bought_def least_of_def)

lemma in_1970: "dateToTime (Some \<lparr>dt_Year = 1970, dt_Month = 1, dt_Day = d\<rparr>) = (d - 1) * day_length" "zero_time = - 719162 * day_length"
  by (simp_all add: dateToTime_def time_at_def zero_time_def)

text \<open>A first declaration of the holding: 25 units on the eleventh, where the postings come to 10.\<close>

lemma first_declaration:
  "\<exists>s' p. api_CreateHoldingDeclaration decl_env decl_num (Some ''user'') (declare_at ''i1'' ''25'' 11) decl_store = Some (Inr (s', p))"
proof (rule api_Create_commits)
  show "env_parse_uuid decl_env ''user'' = Some ''user''" "env_parse_uuid decl_env (cr_InstrumentID (declare_at ''i1'' ''25'' 11)) = Some ''i1''"
    "env_parse_dec decl_env (cr_DeclaredQty (declare_at ''i1'' ''25'' 11)) \<noteq> None" by (simp_all add: decl_env_def declare_at_def)
  show "''i1'' \<in> instrument_ids (ds_master decl_store)" by (simp add: decl_store_def plain_instrument_def new_instrument_def)
  show "decl_num (cr_DeclaredQty (declare_at ''i1'' ''25'' 11)) = Some ''25''" "ParseFloat_ok (cr_DeclaredQty (declare_at ''i1'' ''25'' 11))"
    using reads_as_float by (simp_all add: decl_num_def declare_at_def)
  show "started ''user'' decl_store = Some 0" by (rule decl_started)
  show "date_of 0 \<le> dateToTime (cr_AsOfDate (declare_at ''i1'' ''25'' 11))" by (simp add: declare_at_def in_1970 date_of_def utc_day_def day_length_def)
qed (simp_all add: declared_for_def decl_store_def)

subsection \<open>Sequences of calls\<close>

text \<open>
  The calls that write declarations, each an atomic step: the three handlers, the row an archive import
  upserts, and the recalculation, which may also stop half way.
\<close>

inductive declaration_step :: "Env \<Rightarrow> (string \<Rightarrow> string option) \<Rightarrow> Store \<Rightarrow> Store \<Rightarrow> bool" for env num where
  created: "api_CreateHoldingDeclaration env num u req s = Some (Inr (s', p)) \<Longrightarrow> declaration_step env num s s'"
| updated: "api_UpdateHoldingDeclaration env num u req' s = Some (Inr (s', p)) \<Longrightarrow> declaration_step env num s s'"
| deleted: "api_DeleteHoldingDeclaration env u i s = Inr s' \<Longrightarrow> declaration_step env num s s'"
| imported: "UpsertHoldingDeclaration env num userID broker account instID qty asOf basis s = Inr s' \<Longrightarrow> declaration_step env num s s'"
| recalculated: "order_ok visit \<Longrightarrow> RecalcAllInitializeTxs env visit userID s = (s', e) \<Longrightarrow> declaration_step env num s s'"

lemma declaration_step_keeps: "declaration_step env num s s' \<Longrightarrow> env_ok env \<Longrightarrow> store_ok env s \<Longrightarrow> store_ok env s'"
proof (induction rule: declaration_step.induct)
  case (recalculated visit userID s s' e)
  show ?case
  proof (cases "env_parse_uuid env userID")
    case None
    then have "s' = s" using recalculated(2) by (simp add: RecalcAllInitializeTxs_def ListHoldingDeclarations_def of_option_def sum_then_def)
    then show ?thesis using recalculated(4) by simp
  next
    case (Some user)
    then show ?thesis using recalculated_store [OF recalculated(3,4) Some recalculated(1,2)] by blast
  qed
qed (blast intro: api_Create_keeps api_Update_keeps api_Delete_keeps UpsertHoldingDeclaration_keeps)+

lemma one_pad_a_side:
  assumes "store_ok env s" "t \<in> pads_at user h (ds_ledger s)" "u \<in> pads_at user h (ds_ledger s)" "t_AccountType t = t_AccountType u"
  shows "t = u"
  using assms pads_okD(3) [of "set (l_txs (ds_ledger s))" u t] by (simp add: store_ok_def core_ok_def)

lemma recalculation_commits:
  assumes env: "env_ok env" and ok: "store_ok env s" and user: "env_parse_uuid env userID = Some user" and v: "order_ok visit"
    and reads: "\<forall>d \<in> set (ds_decls s). dc_UserID d = user \<longrightarrow> env_parse_dec env (dc_DeclaredQty d) \<noteq> None"
  shows "\<exists>s'. RecalcAllInitializeTxs env visit userID s = (s', None)"
proof -
  have core: "core_ok env s" using ok by (simp add: store_ok_def)
  have del: "snd (each_commits (delete_pad env userID) (map fst (visit (byHolding (mine user s)))) s) = None"
    by (rule each_commits_total) (use delete_pad_total [OF user] keys_parse [OF core v] in blast)
  have recalc: "\<exists>x'. recalcHoldingPad env day p x = Inr x'" if p: "p \<in> set (pads_of visit (still user day s))" for p day x
  proof -
    have d: "p \<in> set (ds_decls s)" "dc_UserID p = user" using pads_of_facts(2) [OF v p] by (auto simp: mine_set)
    have ids: "env_parse_uuid env (dc_UserID p) = Some (dc_UserID p)" "env_parse_uuid env (dc_InstrumentID p) = Some (dc_InstrumentID p)"
      using core_okD(4) [OF core d(1)] unfolding decl_ok_def by blast+
    obtain q where "env_parse_dec env (dc_DeclaredQty p) = Some q" using reads d by blast
    then show ?thesis using ids UpsertInitializeTx_commits [OF ids] by (simp add: recalcHoldingPad_def ComputeRunningBalance_def of_option_def sum_then_def)
  qed
  show ?thesis
  proof (cases "mine user s = []")
    case True
    then show ?thesis by (simp add: Recalc_unfold [OF user core])
  next
    case False
    show ?thesis
    proof (cases "started user s")
      case None
      then show ?thesis using False del by (simp add: Recalc_unfold [OF user core] prod_eq_iff)
    next
      case (Some start)
      let ?day = "date_of start"
      obtain s2 where s2: "each_commits (delete_pad env userID) (orphans visit user ?day s) (pruned user ?day s) = (s2, None)"
        using orphaned_store [OF env ok user v] by blast
      have "snd (each_commits (recalcHoldingPad env ?day) (pads_of visit (still user ?day s)) s2) = None"
        by (rule each_commits_total) (use recalc in blast)
      then obtain s3 where "each_commits (recalcHoldingPad env ?day) (pads_of visit (still user ?day s)) s2 = (s3, None)" by (metis prod.collapse)
      then show ?thesis using False Some s2 by (simp add: Recalc_unfold [OF user core])
    qed
  qed
qed

lemma owned_by_id:
  assumes core: "core_ok env s" and old: "old \<in> set (ds_decls s)" "dc_UserID old = user" and i: "env_parse_uuid env i = Some (dc_ID old)"
  shows "owned_declaration env user i s = Inr old"
proof (cases "List.find (\<lambda>d. dc_ID d = dc_ID old) (ds_decls s)")
  case None
  then show ?thesis using old(1) by (auto simp: find_None_iff)
next
  case (Some x)
  then have "x \<in> set (ds_decls s)" "dc_ID x = dc_ID old" by (auto simp: find_Some_iff)
  then have "x = old" using core_okD(1) [OF core] old(1) by (metis distinct_map inj_onD)
  then show ?thesis using Some i old(2) by (simp add: owned_declaration_def GetHoldingDeclaration_def of_option_def sum_then_def or_code_def read_row_def)
qed

lemma api_Delete_commits:
  assumes ok: "store_ok env s" and user: "user \<noteq> ''''" and i: "i \<noteq> ''''" "env_parse_uuid env i = Some (dc_ID old)"
    and old: "old \<in> set (ds_decls s)" "dc_UserID old = user"
    and reads: "\<forall>d \<in> declared_for user (keyOf old) s - {old}. env_parse_dec env (dc_DeclaredQty d) \<noteq> None"
  shows "\<exists>s'. api_DeleteHoldingDeclaration env (Some user) i s = Inr s'"
proof -
  have core: "core_ok env s" using ok by (simp add: store_ok_def)
  have ids: "env_parse_uuid env user = Some user" "env_parse_uuid env (dc_InstrumentID old) = Some (dc_InstrumentID old)"
    using core_okD(4) [OF core old(1)] old(2) unfolding decl_ok_def by blast+
  note own = owned_by_id [OF core old i(2)]
  have del: "\<exists>s'. DeleteDeclarationWithInitializeTx env i user (dc_Broker old) (dc_Account old) (dc_InstrumentID old) init s = Inr s'" for init
  proof -
    have "list_ex (\<lambda>d. dc_ID d = dc_ID old) (ds_decls s)" using old(1) by (auto simp: list_ex_iff)
    then obtain s1 where s1: "DeleteHoldingDeclaration env i s = Inr s1"
      using i(2) by (simp add: DeleteHoldingDeclaration_def of_option_def sum_then_def)
    show ?thesis
    proof (cases init)
      case None
      then show ?thesis using s1 ids by (simp add: DeleteDeclarationWithInitializeTx_def sum_then_def DeleteInitializeTx_def of_option_def)
    next
      case (Some x)
      then show ?thesis using s1 UpsertInitializeTx_commits [OF ids] by (simp add: DeleteDeclarationWithInitializeTx_def sum_then_def)
    qed
  qed
  have pad: "\<exists>pad. padAfterWrite env user (keyOf old) (dc_ID old) None t s = Inr pad" for t
  proof (cases "{d \<in> declared_for user (keyOf old) s. dc_ID d \<noteq> dc_ID old} = {}")
    case True
    then have "holdingDeclarations (mine user s) (keyOf old) (dc_ID old) = []"
      by (auto simp: holdingDeclarations_def filter_empty_conv mine_set declared_for_def)
    then show ?thesis using ids(1)
      by (simp add: padAfterWrite_def ListHoldingDeclarations_def of_option_def sum_then_def read_row_def comp_def mine_def padDeclaration_def Let_def)
  next
    case False
    have "\<forall>d \<in> {d \<in> declared_for user (keyOf old) s. dc_ID d \<noteq> dc_ID old}. env_parse_dec env (dc_DeclaredQty d) \<noteq> None" using reads by auto
    then show ?thesis using padAfterWrite_computes [OF ids(1), of "keyOf old" "dc_InstrumentID old" s "dc_ID old" None t] ids(2) False
      by (auto simp: keyOf_def)
  qed
  have start: "GetPortfolioStartDate env user s = Inr (started user s)" using ids(1) by (simp add: GetPortfolioStartDate_started)
  show ?thesis
  proof (cases "started user s")
    case None
    then show ?thesis using user i(1) own start del [of None] by (auto simp: api_DeleteHoldingDeclaration_def RequireUser_def sum_then_def or_code_def)
  next
    case (Some t)
    obtain pad where "padAfterWrite env user (keyOf old) (dc_ID old) None t s = Inr pad" using pad by blast
    then show ?thesis using user i(1) own start Some del [of "hp_init pad"]
      by (auto simp: api_DeleteHoldingDeclaration_def RequireUser_def sum_then_def or_code_def)
  qed
qed

subsection \<open>What the declarations promise\<close>



text \<open>A store into which an import has written a declaration, with no opening balance yet.\<close>

definition imported_row :: Declaration where
  "imported_row = \<lparr>dc_ID = ''aaaa'', dc_UserID = ''user'', dc_Broker = ''IBKR'', dc_Account = ''isa'', dc_InstrumentID = ''i1'',
     dc_DeclaredQty = ''25'', dc_AsOfDate = 10 * day_length, dc_ShareCountBasis = 10 * day_length\<rparr>"

definition imported_store :: Store where
  "imported_store = set_decls [imported_row] (bumped decl_store)"

lemma imported_ok: "store_ok decl_env imported_store"
proof -
  have day: "10 * day_length \<noteq> zero_time" by (simp add: in_1970 day_length_def)
  have ids: "env_parse_uuid decl_env ''user'' = Some ''user''" "env_parse_uuid decl_env ''i1'' = Some ''i1''" "decl_num ''25'' = Some ''25''"
    "env_new_uuid decl_env (l_uuids (ds_ledger decl_store)) = ''aaaa''" "''i1'' \<in> instrument_ids (ds_master decl_store)" "ds_decls decl_store = []"
    by (simp_all add: decl_env_def decl_num_def decl_store_def decl_ledger_def demo_env_def plain_instrument_def new_instrument_def eval_nat_numeral)
  have "declaration_row decl_env decl_num ''user'' ''IBKR'' ''isa'' ''i1'' ''25'' (10 * day_length) (10 * day_length) decl_store = Inr imported_row"
    unfolding declaration_row_def ids by (simp add: or_other_def of_option_def sum_then_def imported_row_def)
  then have "UpsertHoldingDeclaration decl_env decl_num ''user'' ''IBKR'' ''isa'' ''i1'' ''25'' (10 * day_length) (10 * day_length) decl_store = Inr imported_store"
    using ids by (simp add: UpsertHoldingDeclaration_def insert_declaration_def imported_row_def imported_store_def bumped_def sum_then_def or_other_def)
  then show ?thesis using UpsertHoldingDeclaration_keeps decl_env_ok decl_store_ok by blast
qed

lemma imported_facts: "splits_ok decl_env (ds_master imported_store)" "started ''user'' imported_store = Some 0" "in_history ''user'' imported_store"
  "ds_decls imported_store = [imported_row]"
  using decl_env_facts(4) decl_started
  by (simp_all add: imported_store_def imported_row_def splits_ok_def started_def in_history_def bumped_def date_of_def utc_day_def day_length_def)



lemma pad_calls_keep_decls:
  "UpsertInitializeTx env userID broker account instID init s = Inr s' \<Longrightarrow> ds_decls s' = ds_decls s"
  "DeleteInitializeTx env userID broker account instID s = Inr s' \<Longrightarrow> ds_decls s' = ds_decls s"
  by (auto simp: UpsertInitializeTx_def DeleteInitializeTx_def sum_then_Inr Let_def case_prod_unfold)

lemma api_Create_adds:
  assumes run: "api_CreateHoldingDeclaration env num (Some userID) req s = Some (Inr (s', p))" and env: "env_ok env" and ok: "store_ok env s"
  shows "\<exists>d. ds_decls s' = ds_decls s @ [d] \<and> env_parse_uuid env userID = Some (dc_UserID d) \<and> dc_Broker d = cr_Broker req \<and> dc_Account d = cr_Account req
    \<and> env_parse_uuid env (cr_InstrumentID req) = Some (dc_InstrumentID d) \<and> dc_AsOfDate d = dateToTime (cr_AsOfDate req)
    \<and> num (cr_DeclaredQty req) = Some (dc_DeclaredQty d)"
proof -
  obtain init s1 row basis
    where create: "CreateHoldingDeclaration env num userID (cr_Broker req) (cr_Account req) (cr_InstrumentID req) (cr_DeclaredQty req) (dateToTime (cr_AsOfDate req)) basis s = Inr (s1, row)"
    and up: "UpsertInitializeTx env userID (cr_Broker req) (cr_Account req) (cr_InstrumentID req) init s1 = Inr s'"
    using api_Create_ran [OF run] by blast
  have core: "core_ok env s" using ok by (simp add: store_ok_def)
  obtain d where row: "declaration_row env num userID (cr_Broker req) (cr_Account req) (cr_InstrumentID req) (cr_DeclaredQty req) (dateToTime (cr_AsOfDate req)) basis s = Inr d"
    and s1: "s1 = set_decls (ds_decls s @ [d]) (bumped s)"
    using CreateHoldingDeclaration_ok [OF create env core] by blast
  have "ds_decls s' = ds_decls s @ [d]" using pad_calls_keep_decls(1) [OF up] s1 by simp
  then show ?thesis using row by (auto simp: declaration_row_def sum_then_Inr code_Inr of_option_def split: option.splits)
qed


lemma first_request: "dateToTime (cr_AsOfDate (declare_at i q d)) = (d - 1) * day_length" "cr_InstrumentID (declare_at i q d) = i"
  "cr_DeclaredQty (declare_at i q d) = q" "cr_ShareCountBasis (declare_at i q d) = None" "cr_Broker (declare_at i q d) = ''IBKR''" "cr_Account (declare_at i q d) = ''isa''"
  by (simp_all add: declare_at_def in_1970)


lemma api_Delete_removes:
  assumes "api_DeleteHoldingDeclaration env (Some user) i s = Inr s'" "env_parse_uuid env i = Some k"
  shows "ds_decls s' = filter (\<lambda>d. dc_ID d \<noteq> k) (ds_decls s)"
proof -
  obtain old :: Declaration and pad :: holdingPad and s1 where del: "DeleteHoldingDeclaration env i s = Inr s1"
    and settle: "case hp_init pad of None \<Rightarrow> DeleteInitializeTx env user (dc_Broker old) (dc_Account old) (dc_InstrumentID old) s1 = Inr s'
       | Some init \<Rightarrow> UpsertInitializeTx env user (dc_Broker old) (dc_Account old) (dc_InstrumentID old) init s1 = Inr s'"
    using api_Delete_ran [OF assms(1)] by blast
  have "ds_decls s1 = filter (\<lambda>d. dc_ID d \<noteq> k) (ds_decls s)"
    using del assms(2) by (auto simp: DeleteHoldingDeclaration_def of_option_def sum_then_def split: if_splits)
  then show ?thesis using settle pad_calls_keep_decls by (auto split: option.splits)
qed

text \<open>
  A user may delete a declaration of theirs wherever the ones left for the holding can be read: the
  row goes and no other, the earliest of those left is true afterwards, and a holding with none left
  has no opening balance either.
\<close>

theorem deleting_promotes_the_next:
  assumes "env_ok env" "store_ok env s" "exact_div env" "splits_ok env (ds_master s)" "in_history user s" "started user s \<noteq> None"
    and "user \<noteq> ''''" "i \<noteq> ''''" "env_parse_uuid env i = Some (dc_ID old)" "old \<in> set (ds_decls s)" "dc_UserID old = user"
    and "\<forall>d \<in> declared_for user (keyOf old) s - {old}. env_parse_dec env (dc_DeclaredQty d) \<noteq> None"
  shows "\<exists>s'. api_DeleteHoldingDeclaration env (Some user) i s = Inr s' \<and> store_ok env s'
    \<and> ds_decls s' = filter (\<lambda>d. dc_ID d \<noteq> dc_ID old) (ds_decls s)
    \<and> (\<forall>d \<in> declared_for user (keyOf old) s'. declarationKind (ds_decls s') d = KIND_PAD \<longrightarrow> declaration_true env s' d)
    \<and> (declared_for user (keyOf old) s' = {} \<longrightarrow> pads_at user (keyOf old) (ds_ledger s') = {})"
proof -
  obtain s' where run: "api_DeleteHoldingDeclaration env (Some user) i s = Inr s'" using api_Delete_commits [OF assms(2,7-12)] by blast
  have ok: "store_ok env s'" by (rule api_Delete_keeps [OF run assms(1,2)])
  have "\<forall>d \<in> declared_for user (keyOf old) s'. declarationKind (ds_decls s') d = KIND_PAD \<longrightarrow> declaration_true env s' d"
    using api_Delete_true [OF run assms(1-6,10,9)] by blast
  moreover have "declared_for user (keyOf old) s' = {} \<longrightarrow> pads_at user (keyOf old) (ds_ledger s') = {}"
    using ok pads_declaredD [of s' user "keyOf old"] unfolding store_ok_def by blast
  ultimately show ?thesis using run ok api_Delete_removes [OF run assms(9)] by blast
qed

theorem deleting_promotes_the_next_witness:
  "\<exists>s'. api_DeleteHoldingDeclaration decl_env (Some ''user'') ''aaaa'' imported_store = Inr s' \<and> ds_decls s' = []
     \<and> pads_at ''user'' (keyOf imported_row) (ds_ledger s') = {}"
proof -
  have id: "env_parse_uuid decl_env ''aaaa'' = Some (dc_ID imported_row)" "dc_UserID imported_row = ''user''" by (simp_all add: decl_env_def imported_row_def)
  have no: "declared_for ''user'' (keyOf imported_row) imported_store - {imported_row} = {}" by (auto simp: declared_for_def imported_facts(4))
  have mem: "imported_row \<in> set (ds_decls imported_store)" by (simp add: imported_facts(4))
  obtain s' where s': "api_DeleteHoldingDeclaration decl_env (Some ''user'') ''aaaa'' imported_store = Inr s'"
    "ds_decls s' = filter (\<lambda>d. dc_ID d \<noteq> dc_ID imported_row) (ds_decls imported_store)"
    "declared_for ''user'' (keyOf imported_row) s' = {} \<longrightarrow> pads_at ''user'' (keyOf imported_row) (ds_ledger s') = {}"
    using deleting_promotes_the_next [OF decl_env_ok imported_ok decl_env_facts(1) imported_facts(1,3) _ _ _ id(1) mem id(2)] no imported_facts(2) by auto
  have "ds_decls s' = []" unfolding s'(2) imported_facts(4) by simp
  moreover from this have "declared_for ''user'' (keyOf imported_row) s' = {}" by (simp add: declared_for_def)
  ultimately show ?thesis using s'(1,3) by blast
qed



subsection \<open>What they do not\<close>

lemma api_Create_started:
  assumes run: "api_CreateHoldingDeclaration env num (Some userID) req s = Some (Inr (s', p))" and env: "env_ok env" and ok: "store_ok env s"
  shows "started user s' = started user s"
proof -
  obtain init s1 row basis asOf
    where create: "CreateHoldingDeclaration env num userID (cr_Broker req) (cr_Account req) (cr_InstrumentID req) (cr_DeclaredQty req) asOf basis s = Inr (s1, row)"
    and up: "UpsertInitializeTx env userID (cr_Broker req) (cr_Account req) (cr_InstrumentID req) init s1 = Inr s'"
    using api_Create_ran [OF run] by blast
  obtain d where row: "declaration_row env num userID (cr_Broker req) (cr_Account req) (cr_InstrumentID req) (cr_DeclaredQty req) asOf basis s = Inr d"
    and s1: "core_ok env s1" "s1 = set_decls (ds_decls s @ [d]) (bumped s)" "decl_ok env s d"
    using CreateHoldingDeclaration_ok [OF create env] ok unfolding store_ok_def by blast
  note f = declaration_row_ok [OF row env]
  have "dc_InstrumentID d \<in> instrument_ids (ds_master s1)" using s1(3) unfolding s1(2) by (simp add: decl_ok_def bumped_def)
  note settled = UpsertInitializeTx_settles [OF up env s1(1) f(2,5) this]
  have "same_world (ds_master s) (ds_master s1)" unfolding s1(2) by (rule same_world_decls(2))
  then show ?thesis using started_frame same_world_trans pads_only_same_world [OF settled(2)] by blast
qed

text \<open>
  C36. A quantity is accepted as text that reads as a floating point number, but computed with as a
  decimal, and only where its declaration is the earliest. One that reads as the former only, such as
  NaN, is accepted as a later declaration of the holding; from then on the earlier one cannot be
  deleted, since what would be the next opening balance cannot be computed.
\<close>

theorem unreadable_quantity_pins_the_pad:
  assumes "env_ok env" "store_ok env s" "env_parse_dec env t = None" "user \<noteq> ''''" "env_parse_uuid env user = Some user"
    and "env_parse_uuid env (cr_InstrumentID req) = Some (cr_InstrumentID req)" "cr_InstrumentID req \<in> instrument_ids (ds_master s)"
    and "ParseFloat_ok (cr_DeclaredQty req)" "num (cr_DeclaredQty req) = Some t"
    and "started user s = Some start" "date_of start \<le> dateToTime (cr_AsOfDate req)"
    and "declared_for user (cr_Broker req, cr_Account req, cr_InstrumentID req) s = {old}" "env_parse_dec env (dc_DeclaredQty old) \<noteq> None"
    and "dc_AsOfDate old < dateToTime (cr_AsOfDate req)"
  shows "\<exists>s' p. api_CreateHoldingDeclaration env num (Some user) req s = Some (Inr (s', p))
    \<and> api_DeleteHoldingDeclaration env (Some user) (dc_ID old) s' = Inl Internal"
proof -
  let ?h = "(cr_Broker req, cr_Account req, cr_InstrumentID req)"
  have old: "old \<in> set (ds_decls s)" "dc_UserID old = user" "keyOf old = ?h" using assms(12) by (auto simp: declared_for_def)
  have core: "core_ok env s" using assms(2) by (simp add: store_ok_def)
  have id: "env_parse_uuid env (dc_ID old) = Some (dc_ID old)" using core_okD(4) [OF core old(1)] unfolding decl_ok_def by blast
  have ne: "dc_ID old \<noteq> ''''" using id assms(1) by (auto simp: env_ok_def)
  obtain s' p where run: "api_CreateHoldingDeclaration env num (Some user) req s = Some (Inr (s', p))"
    using api_Create_accepts [of user env user req "cr_InstrumentID req" s num t start] assms ne by auto
  have ok': "core_ok env s'" using api_Create_keeps [OF run assms(1,2)] by (simp add: store_ok_def)
  obtain d where d: "ds_decls s' = ds_decls s @ [d]" "dc_UserID d = user" "keyOf d = ?h" "dc_DeclaredQty d = t"
    using api_Create_adds [OF run assms(1,2)] assms(5,6,9) by (auto simp: keyOf_def)
  have dn: "dc_ID d \<noteq> dc_ID old" using core_okD(1) [OF ok'] d(1) old(1) by auto
  have start: "GetPortfolioStartDate env user s' = Inr (Some start)"
    using api_Create_started [OF run assms(1,2)] assms(5,10) by (simp add: GetPortfolioStartDate_started)
  have mine: "x = d" if "x \<in> declared_for user ?h s'" "dc_ID x \<noteq> dc_ID old" for x
    using that assms(12) d by (auto simp: declared_for_def)
  have "env_parse_dec env (dc_DeclaredQty d) = None" using assms(3) d(4) by simp
  moreover have "set (holdingDeclarations (mine user s') ?h (dc_ID old)) = {d}"
    using mine d dn by (auto simp: holdingDeclarations_def mine_set declared_for_def)
  ultimately have "padAfterWrite env user (keyOf old) (dc_ID old) None start s' = Inl ''parse declared_qty''"
    using padDeclaration_least(1) padDeclaration_None [of "holdingDeclarations (mine user s') ?h (dc_ID old)"] assms(5) old(3)
    by (force simp: padAfterWrite_def ListHoldingDeclarations_def of_option_def sum_then_def read_row_def comp_def mine_def [symmetric]
        computeInitializeValues_def Let_def split: option.splits)
  moreover have "owned_declaration env user (dc_ID old) s' = Inr old"
    by (rule owned_by_id [OF ok' _ old(2) id]) (simp add: d(1) old(1))
  ultimately have "api_DeleteHoldingDeclaration env (Some user) (dc_ID old) s' = Inl Internal"
    using assms(4) ne start by (simp add: api_DeleteHoldingDeclaration_def RequireUser_def sum_then_def or_code_def)
  then show ?thesis using run by blast
qed

theorem unreadable_quantity_pins_the_pad_witness:
  "\<exists>s' p. api_CreateHoldingDeclaration decl_env decl_num (Some ''user'') (declare_at ''i1'' ''NaN'' 21) imported_store = Some (Inr (s', p))
     \<and> api_DeleteHoldingDeclaration decl_env (Some ''user'') ''aaaa'' s' = Inl Internal"
proof -
  let ?r = "declare_at ''i1'' ''NaN'' 21"
  have env: "env_parse_dec decl_env ''NaN'' = None" "env_parse_uuid decl_env ''user'' = Some ''user''"
    "env_parse_uuid decl_env (cr_InstrumentID ?r) = Some (cr_InstrumentID ?r)" "env_parse_dec decl_env (dc_DeclaredQty imported_row) \<noteq> None"
    by (simp_all add: decl_env_def first_request imported_row_def)
  have inst: "cr_InstrumentID ?r \<in> instrument_ids (ds_master imported_store)"
    by (simp add: imported_store_def decl_store_def plain_instrument_def new_instrument_def first_request bumped_def)
  have qty: "ParseFloat_ok (cr_DeclaredQty ?r)" "decl_num (cr_DeclaredQty ?r) = Some ''NaN''" using nan_reads_as_float by (simp_all add: first_request decl_num_def)
  have day: "date_of 0 \<le> dateToTime (cr_AsOfDate ?r)" "dc_AsOfDate imported_row < dateToTime (cr_AsOfDate ?r)"
    by (simp_all add: first_request imported_row_def date_of_def utc_day_def day_length_def)
  have one: "declared_for ''user'' (cr_Broker ?r, cr_Account ?r, cr_InstrumentID ?r) imported_store = {imported_row}"
    by (auto simp: declared_for_def imported_facts(4) imported_row_def keyOf_def first_request)
  have id: "dc_ID imported_row = ''aaaa''" by (simp add: imported_row_def)
  show ?thesis
    using unreadable_quantity_pins_the_pad [of decl_env imported_store "''NaN''" "''user''" ?r decl_num 0 imported_row, OF decl_env_ok imported_ok env(1) _ env(2,3) inst qty imported_facts(2) day(1) one env(4) day(2)] unfolding id by blast
qed

lemma respelled_calls:
  assumes "env_parse_uuid env raw = Some inst" "env_parse_uuid env inst = Some inst"
  shows "computeInitializeValues env userID (b, a, raw) q asOf basis start s = computeInitializeValues env userID (b, a, inst) q asOf basis start s"
    "UpsertInitializeTx env userID b a raw init s = UpsertInitializeTx env userID b a inst init s"
  using assms by (simp_all add: computeInitializeValues_def ComputeRunningBalance_def UpsertInitializeTx_def)

text \<open>
  The declarations of a holding are looked up by the instrument id as the request spells it, where
  the row and the opening balance are written under the id it denotes. Under another spelling the
  earlier declarations are not found, and the opening balance follows the new declaration although an
  earlier one of the holding stands.
\<close>

theorem other_spelling_moves_the_pad:
  assumes run: "api_CreateHoldingDeclaration env num (Some userID) req s = Some (Inr (s', p))"
    and env: "env_ok env" and ok: "store_ok env s" and num: "numeric_ok env num" and user: "env_parse_uuid env userID = Some user"
    and inst: "env_parse_uuid env (cr_InstrumentID req) = Some inst" "cr_InstrumentID req \<noteq> inst"
    and basis: "shareCountBasis (cr_ShareCountBasis req) (dateToTime (cr_AsOfDate req)) \<noteq> zero_time" and started: "started user s = Some start"
  shows "\<exists>d U q. ds_decls s' = ds_decls s @ [d] \<and> U \<in> pads_at user (cr_Broker req, cr_Account req, inst) (ds_ledger s')
    \<and> t_AccountType U = ''USER'' \<and> env_parse_dec env (cr_DeclaredQty req) = Some q \<and> t_Quantity U = q - running env s (date_of start) d
    \<and> (\<forall>e \<in> declared_for user (cr_Broker req, cr_Account req, inst) s.
          dc_AsOfDate e < dateToTime (cr_AsOfDate req) \<longrightarrow> declarationKind (ds_decls s') d = KIND_ASSERT)"
proof -
  let ?asOf = "dateToTime (cr_AsOfDate req)" and ?h = "(cr_Broker req, cr_Account req, inst)"
  let ?raw = "(cr_Broker req, cr_Account req, cr_InstrumentID req)" and ?basis = "shareCountBasis (cr_ShareCountBasis req) (dateToTime (cr_AsOfDate req))"
  let ?pend = "pending_row (cr_DeclaredQty req) ?asOf ?basis"
  obtain start' pad init s1 row where start: "start_for env userID ?asOf s = Inr start'"
    and pad: "padAfterWrite env userID ?raw '''' (Some ?pend) start' s = Inr pad" "hp_init pad = Some init"
    and create: "CreateHoldingDeclaration env num userID (cr_Broker req) (cr_Account req) (cr_InstrumentID req) (cr_DeclaredQty req) ?asOf ?basis s = Inr (s1, row)"
    and up: "UpsertInitializeTx env userID (cr_Broker req) (cr_Account req) (cr_InstrumentID req) init s1 = Inr s'"
    using api_Create_ran [OF run] by auto
  have st: "start' = start" using start started user by (auto simp: start_for_Inr)
  have core: "core_ok env s" using ok by (simp add: store_ok_def)
  obtain r where rowr: "declaration_row env num userID (cr_Broker req) (cr_Account req) (cr_InstrumentID req) (cr_DeclaredQty req) ?asOf ?basis s = Inr r"
    and s1: "core_ok env s1" "s1 = set_decls (ds_decls s @ [r]) (bumped s)" "decl_ok env s r"
    using CreateHoldingDeclaration_ok [OF create env core] by blast
  note f = declaration_row_ok [OF rowr env]
  have r: "dc_UserID r = user" "keyOf r = ?h" "dc_InstrumentID r = inst" using f user inst by (simp_all add: keyOf_def)
  have canon: "env_parse_uuid env inst = Some inst" using s1(3) r(3) unfolding decl_ok_def by simp
  have "env_parse_uuid env (dc_InstrumentID x) = Some (dc_InstrumentID x)" if "x \<in> set (ds_decls s)" for x
    using core_okD(4) [OF core that] unfolding decl_ok_def by blast
  then have "declared_for user ?raw s = {}" using inst by (force simp: declared_for_def keyOf_def)
  then obtain ds q where q: "padDeclaration ds = Some q" "set ds = {?pend}"
    and comp: "computeInitializeValues env userID ?raw (dc_DeclaredQty q) (dc_AsOfDate q) (dc_ShareCountBasis q) start s = Inr init"
    using padAfterWrite_picks [OF pad] user st by auto
  have qp: "q = ?pend" using padDeclaration_least(1) [OF q(1)] q(2) by simp
  have agree: "agrees env q r" using f num basis unfolding qp agrees_def pending_row_def numeric_ok_def by simp
  have world: "same_world (ds_master s) (ds_master s1)" unfolding s1(2) by (rule same_world_decls(2))
  have dok: "decl_ok env s1 r" using s1(3) unfolding s1(2) by (simp add: decl_ok_def bumped_def)
  have up': "UpsertInitializeTx env userID (fst ?h) (fst (snd ?h)) (snd (snd ?h)) init s1 = Inr s'" using up respelled_calls(2) [OF inst(1) canon] by simp
  have settles: "pad_settles env (date_of start) r s'"
    using upsert_pad_settles [OF comp [unfolded respelled_calls(1) [OF inst(1) canon]] up' world env s1(1) _ r(2) dok agree] user r(1) by simp
  have "inst \<in> instrument_ids (ds_master s1)" using dok r(3) by (simp add: decl_ok_def)
  then have only: "pads_only {(user, ?h)} s1 s'" using UpsertInitializeTx_settles(2) [OF up' env s1(1) user, of inst] canon by simp
  have same: "running env s' day r = running env s day r" for day
    using same_world_trans [OF world pads_only_same_world [OF only]] unfolding running_def by (simp add: real_quantity_frame)
  obtain q' U where U: "env_parse_dec env (dc_DeclaredQty r) = Some q'" "U \<in> pads_at user ?h (ds_ledger s')" "t_AccountType U = ''USER''"
    "t_Quantity U = q' - running env s (date_of start) r"
  proof -
    obtain q i g U E where *: "env_parse_dec env (dc_DeclaredQty r) = Some q" "pads_at user ?h (ds_ledger s') = {U, E}"
      "leg_is user ?h (pad_commodity i) g ''USER'' (it_Quantity (pad_for env s' (date_of start) r q)) (pad_for env s' (date_of start) r q) U"
      using settles unfolding pad_settles_def r by blast
    have "U \<in> pads_at user ?h (ds_ledger s')" unfolding *(2) by simp
    moreover have "t_AccountType U = ''USER''" "t_Quantity U = q - running env s (date_of start) r"
      using *(3) by (simp_all add: leg_is_def pad_of_iff pad_for_def same)
    ultimately show ?thesis using that *(1) by blast
  qed
  have q': "env_parse_dec env (cr_DeclaredQty req) = Some q'"
    using agree U(1) comp by (auto simp: agrees_def qp pending_row_def computeInitializeValues_def of_option_def sum_then_def split: option.splits)
  have decls: "ds_decls s' = ds_decls s @ [r]" using pads_only_store(1) [OF only] s1(2) by simp
  have "declarationKind (ds_decls s') r = KIND_ASSERT" if "e \<in> declared_for user ?h s" "dc_AsOfDate e < ?asOf" for e
    using that f(7) r unfolding decls by (auto simp: declarationKind_def list_all_iff declared_for_def)
  then show ?thesis using decls U q' by blast
qed

theorem other_spelling_moves_the_pad_witness:
  "\<exists>s' p d U. api_CreateHoldingDeclaration decl_env decl_num (Some ''user'') (declare_at ''I1'' ''12'' 21) imported_store = Some (Inr (s', p))
     \<and> ds_decls s' = [imported_row, d] \<and> declarationKind (ds_decls s') d = KIND_ASSERT
     \<and> U \<in> pads_at ''user'' (keyOf imported_row) (ds_ledger s') \<and> t_AccountType U = ''USER'' \<and> t_Quantity U = 12 - running decl_env imported_store 0 d"
proof -
  let ?r = "declare_at ''I1'' ''12'' 21"
  have env: "env_parse_uuid decl_env ''user'' = Some ''user''" "env_parse_uuid decl_env (cr_InstrumentID ?r) = Some ''i1''" "cr_InstrumentID ?r \<noteq> ''i1''"
    "env_parse_dec decl_env (cr_DeclaredQty ?r) = Some 12"
    by (simp_all add: decl_env_def first_request)
  have inst: "''i1'' \<in> instrument_ids (ds_master imported_store)"
    by (simp add: imported_store_def decl_store_def plain_instrument_def new_instrument_def bumped_def)
  have qty: "ParseFloat_ok (cr_DeclaredQty ?r)" "decl_num (cr_DeclaredQty ?r) = Some ''12''" using reads_as_float by (simp_all add: first_request decl_num_def)
  have day: "date_of 0 \<le> dateToTime (cr_AsOfDate ?r)" "date_of 0 = 0" "dc_AsOfDate imported_row < dateToTime (cr_AsOfDate ?r)"
    "shareCountBasis (cr_ShareCountBasis ?r) (dateToTime (cr_AsOfDate ?r)) \<noteq> zero_time"
    by (simp_all add: first_request imported_row_def date_of_def utc_day_def day_length_def shareCountBasis_def in_1970)
  have here: "declared_for ''user'' (cr_Broker ?r, cr_Account ?r, ''i1'') imported_store = {imported_row}"
    "declared_for ''user'' (cr_Broker ?r, cr_Account ?r, cr_InstrumentID ?r) imported_store = {}" "(cr_Broker ?r, cr_Account ?r, ''i1'') = keyOf imported_row"
    by (auto simp: declared_for_def imported_facts(4) imported_row_def keyOf_def first_request)
  obtain s' p where run: "api_CreateHoldingDeclaration decl_env decl_num (Some ''user'') ?r imported_store = Some (Inr (s', p))"
    using api_Create_commits [of "''user''" decl_env "''user''" ?r "''i1''" imported_store decl_num "''12''" 0] env inst qty imported_facts(2) day here by auto
  obtain d U q where d: "ds_decls s' = [imported_row] @ [d]" "U \<in> pads_at ''user'' (keyOf imported_row) (ds_ledger s')" "t_AccountType U = ''USER''"
    "Some 12 = Some q" "t_Quantity U = q - running decl_env imported_store 0 d"
    "\<forall>e \<in> {imported_row}. dc_AsOfDate e < dateToTime (cr_AsOfDate ?r) \<longrightarrow> declarationKind (ds_decls s') d = KIND_ASSERT"
    using other_spelling_moves_the_pad [OF run decl_env_ok imported_ok decl_env_facts(3) env(1-3) day(4) imported_facts(2)]
    unfolding here(3) here(1) [unfolded here(3)] imported_facts(4) env(4) day(2) by (elim exE conjE) rule
  have "declarationKind (ds_decls s') d = KIND_ASSERT" using d(6) day(3) by simp
  moreover have "ds_decls s' = [imported_row, d]" "t_Quantity U = 12 - running decl_env imported_store 0 d" using d(1,4,5) by simp_all
  ultimately show ?thesis using run d(2,3) by blast
qed

end
