(* ===== verification/Price_Cache.thy ===== *)
theory Price_Cache
  imports Option_Splits DateRange
begin

text \<open>
  The price cache (\<open>src/server/db/postgres/price_cache.go\<close>) and the coverage spans it keeps
  (\<open>coverage.go\<close>): prices as providers report them, the spans of days each plugin has answered for, and
  the gaps between the days an instrument is held and the days anyone has answered for.

  The two tables stand beside the security master and the ledger; dates are the midnights they start
  at. The columns a trigger adjusts for splits are outside the model. Where a statement orders nothing
  its rows come in the order of the table, and the order in which \<open>range\<close> visits the keys of a map is
  an argument. A \<open>uuid\<close> parameter is read as \<open>uuid.Parse\<close> reads it.
\<close>

subsection \<open>The tables\<close>

record Coverage =
  cv_InstrumentID :: string
  cv_PluginID :: string
  cv_From :: time
  cv_Before :: time
  cv_FetchedAt :: time

record EODPrice =
  ep_InstrumentID :: string
  ep_PriceDate :: time
  ep_Open :: "decimal option"
  ep_High :: "decimal option"
  ep_Low :: "decimal option"
  ep_Close :: decimal
  ep_Volume :: "int64 option"
  ep_DataProvider :: string
  ep_AdjustedClose :: "decimal option"
  ep_LastFetchedAt :: "time option"
  ep_ShareCountBasis :: "time option"

text \<open>A row of \<open>eod_prices\<close>, whose fetch time and denomination are always stated.\<close>

record PriceRow =
  pr_InstrumentID :: string
  pr_PriceDate :: time
  pr_Open :: "decimal option"
  pr_High :: "decimal option"
  pr_Low :: "decimal option"
  pr_Close :: decimal
  pr_Volume :: "int64 option"
  pr_DataProvider :: string
  pr_AdjustedClose :: "decimal option"
  pr_LastFetchedAt :: time
  pr_ShareCountBasis :: time

record PriceFetchBlock =
  fb_InstrumentID :: string
  fb_PluginID :: string
  fb_Reason :: string

record ProviderIdentifier =
  pi_InstrumentID :: string
  pi_Provider :: string
  pi_Ref :: InstrumentRef

text \<open>The rows of \<open>plugin_config\<close> that are enabled and of the category of prices.\<close>

record PluginConfigRow =
  pg_PluginID :: string
  pg_Precedence :: int
  pg_Config :: string
  pg_MaxHistoryDays :: "int option"

record Cache =
  pc_master :: Master
  pc_prices :: "PriceRow list"
  pc_coverage :: "Coverage list"
  pc_blocks :: "PriceFetchBlock list"
  pc_providers :: "ProviderIdentifier list"
  pc_configs :: "PluginConfigRow list"
  pc_display :: "string list"

record InstrumentDateRanges =
  idr_InstrumentID :: string
  idr_Ranges :: "DateRange list"

text \<open>A loop inside a transaction, which the first failure rolls back.\<close>

fun try_each :: "('a \<Rightarrow> 's \<Rightarrow> string + 's) \<Rightarrow> 'a list \<Rightarrow> 's \<Rightarrow> string + 's" where
  "try_each f [] s = Inr s"
| "try_each f (x # xs) s = sum_then (f x s) (try_each f xs)"

subsection \<open>Coverage spans\<close>

definition touching :: "string \<Rightarrow> string \<Rightarrow> time \<Rightarrow> time \<Rightarrow> Coverage \<Rightarrow> bool" where
  "touching inst plugin fromD beforeD c \<longleftrightarrow> cv_InstrumentID c = inst \<and> cv_PluginID c = plugin
     \<and> cv_From c \<le> beforeD \<and> fromD \<le> cv_Before c"

definition merged_span :: "string \<Rightarrow> string \<Rightarrow> time \<Rightarrow> time \<Rightarrow> time \<Rightarrow> Coverage list \<Rightarrow> Coverage" where
  "merged_span inst plugin fromD beforeD fetched ts = \<lparr>cv_InstrumentID = inst, cv_PluginID = plugin,
     cv_From = fold min (map cv_From ts) fromD, cv_Before = fold max (map cv_Before ts) beforeD,
     cv_FetchedAt = fold min (map cv_FetchedAt ts) fetched\<rparr>"

definition insert_span :: "Coverage \<Rightarrow> Coverage list \<Rightarrow> Master \<Rightarrow> string + Coverage list" where
  "insert_span c cs m =
     (if \<not> cv_Before c > cv_From c then Inl ''violates check constraint''
      else if cv_InstrumentID c \<notin> instrument_ids m then Inl ''violates foreign key constraint''
      else if list_ex (\<lambda>x. cv_InstrumentID x = cv_InstrumentID c \<and> cv_PluginID x = cv_PluginID c \<and> cv_From x = cv_From c) cs
      then Inl ''duplicate key'' else Inr (cs @ [c]))"

definition upsertCoverageSpan ::
    "Env \<Rightarrow> string \<Rightarrow> string \<Rightarrow> time \<Rightarrow> time \<Rightarrow> time option \<Rightarrow> Cache \<Rightarrow> string + Cache" where
  "upsertCoverageSpan env instrumentID pluginID fromT beforeT lastFetchedAt s =
     (if \<not> beforeT > fromT then Inl ''covered_before not after covered_from''
      else sum_then (of_option ''invalid instrument id'' (env_parse_uuid env instrumentID)) (\<lambda>inst.
        let touch = touching inst pluginID (date_of fromT) (date_of beforeT);
            fetched = (case lastFetchedAt of None \<Rightarrow> sm_now (pc_master s) | Some t \<Rightarrow> t);
            c = merged_span inst pluginID (date_of fromT) (date_of beforeT) fetched (filter touch (pc_coverage s)) in
        sum_then (insert_span c (filter (\<lambda>x. \<not> touch x) (pc_coverage s)) (pc_master s)) (\<lambda>cs. Inr (s\<lparr>pc_coverage := cs\<rparr>))))"

subsection \<open>Prices\<close>

definition price_key :: "EODPrice \<Rightarrow> string \<times> time" where
  "price_key p = (ep_InstrumentID p, date_of (ep_PriceDate p))"

fun dedupe_loop :: "EODPrice list \<Rightarrow> EODPrice list \<Rightarrow> EODPrice list" where
  "dedupe_loop out [] = out"
| "dedupe_loop out (p # ps) =
     dedupe_loop (if list_ex (\<lambda>o'. price_key o' = price_key p) out
       then map (\<lambda>o'. if price_key o' = price_key p then p else o') out else out @ [p]) ps"

definition dedupeByInstrumentDate :: "EODPrice list \<Rightarrow> EODPrice list" where
  "dedupeByInstrumentDate prices = dedupe_loop [] prices"

definition price_row :: "Env \<Rightarrow> time \<Rightarrow> EODPrice \<Rightarrow> string + PriceRow" where
  "price_row env now p =
     sum_then (of_option ''invalid input syntax for type uuid'' (env_parse_uuid env (ep_InstrumentID p))) (\<lambda>inst.
       Inr \<lparr>pr_InstrumentID = inst, pr_PriceDate = date_of (ep_PriceDate p), pr_Open = ep_Open p, pr_High = ep_High p, pr_Low = ep_Low p,
            pr_Close = ep_Close p, pr_Volume = ep_Volume p, pr_DataProvider = ep_DataProvider p, pr_AdjustedClose = ep_AdjustedClose p,
            pr_LastFetchedAt = (case ep_LastFetchedAt p of None \<Rightarrow> now | Some t \<Rightarrow> t),
            pr_ShareCountBasis = date_of (case ep_ShareCountBasis p of None \<Rightarrow> ep_PriceDate p | Some b \<Rightarrow> b)\<rparr>)"

fun price_rows :: "Env \<Rightarrow> time \<Rightarrow> EODPrice list \<Rightarrow> string + PriceRow list" where
  "price_rows env now [] = Inr []"
| "price_rows env now (p # ps) = sum_then (price_row env now p) (\<lambda>r. sum_then (price_rows env now ps) (\<lambda>rs. Inr (r # rs)))"

definition row_key :: "PriceRow \<Rightarrow> string \<times> time" where
  "row_key r = (pr_InstrumentID r, pr_PriceDate r)"

definition put_price :: "PriceRow list \<Rightarrow> PriceRow \<Rightarrow> PriceRow list" where
  "put_price ps r = (if list_ex (\<lambda>p. row_key p = row_key r) ps
     then map (\<lambda>p. if row_key p = row_key r then r else p) ps else ps @ [r])"

text \<open>One statement: it may not touch a row twice, and every instrument must exist.\<close>

definition upsertPrices :: "Env \<Rightarrow> EODPrice list \<Rightarrow> Cache \<Rightarrow> string + Cache" where
  "upsertPrices env prices s =
     sum_then (price_rows env (sm_now (pc_master s)) (dedupeByInstrumentDate prices)) (\<lambda>rows.
       if \<not> distinct (map row_key rows) then Inl ''cannot affect row a second time''
       else if \<not> list_all (\<lambda>r. pr_InstrumentID r \<in> instrument_ids (pc_master s)) rows then Inl ''violates foreign key constraint''
       else Inr (s\<lparr>pc_prices := foldl put_price (pc_prices s) rows\<rparr>))"

text \<open>\<open>visit\<close> is the order in which \<open>range\<close> takes the keys of the map.\<close>

type_synonym span_order = "((string \<times> string) \<times> DateRange list) list \<Rightarrow> ((string \<times> string) \<times> DateRange list) list"

definition supplied_days :: "EODPrice list \<Rightarrow> ((string \<times> string) \<times> DateRange list) list" where
  "supplied_days prices = mm_build (map (\<lambda>p. ((ep_InstrumentID p, ep_DataProvider p),
     \<lparr>dr_From = ep_PriceDate p, dr_Before = ep_PriceDate p + day_length\<rparr>)) prices)"

definition coverSuppliedDates :: "Env \<Rightarrow> span_order \<Rightarrow> EODPrice list \<Rightarrow> Cache \<Rightarrow> string + Cache" where
  "coverSuppliedDates env visit prices s =
     try_each (\<lambda>(k, r). upsertCoverageSpan env (fst k) (snd k) (dr_From r) (dr_Before r) None)
       (concat (map (\<lambda>(k, rs). map (Pair k) (MergeRanges rs)) (visit (supplied_days prices)))) s"

definition UpsertPrices :: "Env \<Rightarrow> span_order \<Rightarrow> EODPrice list \<Rightarrow> Cache \<Rightarrow> string + Cache" where
  "UpsertPrices env visit prices s = (if prices = [] then Inr s
     else sum_then (upsertPrices env prices s) (coverSuppliedDates env visit prices))"

definition attributed :: "string \<Rightarrow> string \<Rightarrow> time option \<Rightarrow> EODPrice \<Rightarrow> EODPrice" where
  "attributed instrumentID provider fetchedAt b = b\<lparr>ep_InstrumentID := instrumentID, ep_DataProvider := provider,
     ep_LastFetchedAt := (case ep_LastFetchedAt b of None \<Rightarrow> fetchedAt | Some t \<Rightarrow> Some t)\<rparr>"

definition UpsertPricesForRange ::
    "Env \<Rightarrow> string \<Rightarrow> string \<Rightarrow> EODPrice list \<Rightarrow> time \<Rightarrow> time \<Rightarrow> time option \<Rightarrow> Cache \<Rightarrow> string + Cache" where
  "UpsertPricesForRange env instrumentID provider bars fromT beforeT fetchedAt s =
     sum_then (if bars = [] then Inr s else upsertPrices env (map (attributed instrumentID provider fetchedAt) bars) s)
       (upsertCoverageSpan env instrumentID provider fromT beforeT fetchedAt)"

subsection \<open>Held ranges\<close>

definition held_postings :: "string \<Rightarrow> Ledger \<Rightarrow> Posting list" where
  "held_postings inst l = filter (\<lambda>t. t_InstrumentID t = Some inst \<and> t_AccountType t = ''USER'') (l_txs l)"

definition held_instruments :: "Ledger \<Rightarrow> string list" where
  "held_instruments l = sort (remdups (List.map_filter (\<lambda>t. if t_AccountType t = ''USER'' then t_InstrumentID t else None) (l_txs l)))"

definition eod_pos :: "string \<Rightarrow> time \<Rightarrow> Ledger \<Rightarrow> decimal" where
  "eod_pos inst d l = sum_list (map t_Quantity (filter (\<lambda>t. date_of (t_OrderDate t) \<le> d) (held_postings inst l)))"

definition held_rows :: "Ledger \<Rightarrow> (string \<times> time \<times> decimal) list" where
  "held_rows l = concat (map (\<lambda>i. map (\<lambda>d. (i, d, eod_pos i d l))
     (sort (remdups (map (\<lambda>t. date_of (t_OrderDate t)) (held_postings i l))))) (held_instruments l))"

record held_state =
  hs_result :: "InstrumentDateRanges list"
  hs_curInst :: string
  hs_ranges :: "DateRange list"
  hs_rangeStart :: time
  hs_inRange :: bool

definition held_flush :: "held_state \<Rightarrow> held_state" where
  "held_flush h = (if hs_ranges h = [] then h
     else h\<lparr>hs_result := hs_result h @ [\<lparr>idr_InstrumentID = hs_curInst h, idr_Ranges = hs_ranges h\<rparr>]\<rparr>)"

definition held_close :: "bool \<Rightarrow> time \<Rightarrow> held_state \<Rightarrow> held_state" where
  "held_close toToday today h = (if \<not> hs_inRange h then h
     else h\<lparr>hs_ranges := hs_ranges h @ [\<lparr>dr_From = hs_rangeStart h,
         dr_Before = (if toToday then today else hs_rangeStart h) + day_length\<rparr>], hs_inRange := False\<rparr>)"

definition held_step :: "bool \<Rightarrow> time \<Rightarrow> held_state \<Rightarrow> string \<times> time \<times> decimal \<Rightarrow> held_state" where
  "held_step toToday today h row = (case row of (inst, d, pos) \<Rightarrow>
     let h = (if inst \<noteq> hs_curInst h then (held_flush (held_close toToday today h))\<lparr>hs_curInst := inst, hs_ranges := []\<rparr> else h) in
     if pos \<noteq> 0 \<and> \<not> hs_inRange h then h\<lparr>hs_rangeStart := d, hs_inRange := True\<rparr>
     else if pos = 0 \<and> hs_inRange h then h\<lparr>hs_ranges := hs_ranges h @ [\<lparr>dr_From = hs_rangeStart h, dr_Before = d\<rparr>], hs_inRange := False\<rparr>
     else h)"

definition uuid_Nil :: string where "uuid_Nil = ''00000000-0000-0000-0000-000000000000''"

definition HeldRanges :: "bool \<Rightarrow> Cache \<Rightarrow> InstrumentDateRanges list" where
  "HeldRanges toToday s = (let m = pc_master s; today = CURRENT_DATE m in
     hs_result (held_flush (held_close toToday today (foldl (held_step toToday today)
       \<lparr>hs_result = [], hs_curInst = uuid_Nil, hs_ranges = [], hs_rangeStart = 0, hs_inRange = False\<rparr> (held_rows (sm_ledger m))))))"

subsection \<open>Coverage read back\<close>

fun coverageFilter :: "Env \<Rightarrow> string list \<Rightarrow> string + string list" where
  "coverageFilter env [] = Inr []"
| "coverageFilter env (i # ids) =
     sum_then (of_option ''invalid instrument id'' (env_parse_uuid env i)) (\<lambda>u. sum_then (coverageFilter env ids) (\<lambda>us. Inr (u # us)))"

definition span_of :: "Coverage \<Rightarrow> DateRange" where
  "span_of c = \<lparr>dr_From = cv_From c, dr_Before = cv_Before c\<rparr>"

text \<open>
  The view \<open>merged_price_coverage\<close>: \<open>range_agg\<close> gives the fewest spans that cover the same days, which is
  what \<open>MergeRanges\<close> computes.
\<close>

definition merged_price_coverage :: "string \<Rightarrow> Cache \<Rightarrow> DateRange list" where
  "merged_price_coverage inst s = MergeRanges (map span_of (filter (\<lambda>c. cv_InstrumentID c = inst) (pc_coverage s)))"

definition wanted :: "string list \<Rightarrow> string \<Rightarrow> bool" where
  "wanted filt i \<longleftrightarrow> filt = [] \<or> i \<in> set filt"

definition PriceCoverage :: "Env \<Rightarrow> string list \<Rightarrow> Cache \<Rightarrow> string + InstrumentDateRanges list" where
  "PriceCoverage env instrumentIDs s = sum_then (coverageFilter env instrumentIDs) (\<lambda>filt.
     Inr (map (\<lambda>i. \<lparr>idr_InstrumentID = i, idr_Ranges = merged_price_coverage i s\<rparr>)
       (sort (remdups (filter (wanted filt) (map cv_InstrumentID (pc_coverage s)))))))"

definition PriceCoverageByPlugin :: "Env \<Rightarrow> string list \<Rightarrow> Cache \<Rightarrow> string + (string \<Rightarrow> string \<Rightarrow> DateRange list)" where
  "PriceCoverageByPlugin env instrumentIDs s = sum_then (coverageFilter env instrumentIDs) (\<lambda>filt.
     Inr (\<lambda>i plugin. if wanted filt i then map span_of (sort_key cv_From
       (filter (\<lambda>c. cv_InstrumentID c = i \<and> cv_PluginID c = plugin) (pc_coverage s))) else []))"

text \<open>A map of ranges by instrument, as both gap computations index the coverage.\<close>

definition ranges_of :: "InstrumentDateRanges list \<Rightarrow> string \<Rightarrow> DateRange list" where
  "ranges_of cs i = (case map_of (rev (map (\<lambda>c. (idr_InstrumentID c, idr_Ranges c)) cs)) i of None \<Rightarrow> [] | Some rs \<Rightarrow> rs)"

definition gaps_of :: "(string \<Rightarrow> DateRange list) \<Rightarrow> InstrumentDateRanges list \<Rightarrow> InstrumentDateRanges list" where
  "gaps_of covered needed = filter (\<lambda>g. idr_Ranges g \<noteq> [])
     (map (\<lambda>h. h\<lparr>idr_Ranges := SubtractRanges (idr_Ranges h) (covered (idr_InstrumentID h))\<rparr>) needed)"

definition PriceGaps :: "Env \<Rightarrow> bool \<Rightarrow> Cache \<Rightarrow> string + InstrumentDateRanges list" where
  "PriceGaps env toToday s = (let held = HeldRanges toToday s in
     if held = [] then Inr []
     else sum_then (PriceCoverage env (map idr_InstrumentID held) s) (\<lambda>cov. Inr (gaps_of (ranges_of cov) held)))"

subsection \<open>Exchange rates\<close>

definition fx_pair :: "string \<Rightarrow> Identifier \<Rightarrow> bool" where
  "fx_pair v x \<longleftrightarrow> ref_Type (ii_Ref (ix_Name x)) = ''FX_PAIR'' \<and> ref_Value (ii_Ref (ix_Name x)) = v \<and> ii_ValidBefore (ix_Name x) = None"

text \<open>The joined rows: the instrument, its currency, and who carries the pair of that currency.\<close>

definition currency_rows :: "string list \<Rightarrow> Master \<Rightarrow> (string \<times> string \<times> string) list" where
  "currency_rows heldIDs m = concat (map (\<lambda>i. case in_Currency i of
       None \<Rightarrow> []
     | Some c \<Rightarrow> if in_ID i \<in> set heldIDs \<and> c \<noteq> ''USD''
         then map (\<lambda>x. (in_ID i, c, ix_InstrumentID x)) (filter (fx_pair (c @ ''USD'')) (sm_idents m)) else []) (sm_instruments m))"

type_synonym needs = "(string \<times> DateRange list) list"

definition add_needs :: "string \<Rightarrow> DateRange list \<Rightarrow> needs \<Rightarrow> needs" where
  "add_needs k rs m = (if k \<in> fst ` set m then map (\<lambda>(k', v). (k', if k' = k then v @ rs else v)) m else m @ [(k, rs)])"

definition displayCurrencyFXValues :: "string list \<Rightarrow> string list" where
  "displayCurrencyFXValues cs = map (\<lambda>c. c @ ''USD'') cs"

definition addDisplayCurrencyNeeds :: "InstrumentDateRanges list \<Rightarrow> (string \<rightharpoonup> string) \<Rightarrow> Cache \<Rightarrow> needs \<Rightarrow> needs" where
  "addDisplayCurrencyNeeds held heldToCurrency s fxNeeded =
     (let dcs = remdups (filter (\<lambda>c. c \<noteq> ''USD'') (pc_display s));
          fx = filter (\<lambda>x. \<exists>v \<in> set (displayCurrencyFXValues dcs). fx_pair v x) (sm_idents (pc_master s));
          dcFXMap = map_of (rev (map (\<lambda>x. (ref_Value (ii_Ref (ix_Name x)), ix_InstrumentID x)) fx)) in
      foldl (\<lambda>m dc. case dcFXMap (dc @ ''USD'') of
          None \<Rightarrow> m
        | Some fxID \<Rightarrow> foldl (\<lambda>m h. if heldToCurrency (idr_InstrumentID h) = Some dc then m else add_needs fxID (idr_Ranges h) m) m held)
        fxNeeded dcs)"

definition FXGaps :: "Env \<Rightarrow> (needs \<Rightarrow> needs) \<Rightarrow> bool \<Rightarrow> Cache \<Rightarrow> string + InstrumentDateRanges list" where
  "FXGaps env visit toToday s = (let held = HeldRanges toToday s in
     if held = [] then Inr []
     else let rows = currency_rows (map idr_InstrumentID held) (pc_master s);
              heldToFX = map_of (rev (map (\<lambda>(h, c, fx). (h, fx)) rows));
              heldToCurrency = map_of (rev (map (\<lambda>(h, c, fx). (h, c)) rows));
              own = foldl (\<lambda>m h. case heldToFX (idr_InstrumentID h) of None \<Rightarrow> m | Some fx \<Rightarrow> add_needs fx (idr_Ranges h) m) [] held;
              needed = addDisplayCurrencyNeeds held heldToCurrency s own in
       if needed = [] then Inr []
       else let merged = map (\<lambda>(k, rs). \<lparr>idr_InstrumentID = k, idr_Ranges = MergeRanges rs\<rparr>) (visit needed) in
         sum_then (PriceCoverage env (map idr_InstrumentID merged) s) (\<lambda>cov. Inr (gaps_of (ranges_of cov) merged)))"

subsection \<open>Fetch blocks and plugin settings\<close>

definition BlockedPluginsForInstruments :: "string list \<Rightarrow> Cache \<Rightarrow> string \<Rightarrow> string \<Rightarrow> bool" where
  "BlockedPluginsForInstruments ids s i plugin \<longleftrightarrow>
     list_ex (\<lambda>b. fb_InstrumentID b \<in> set ids \<and> fb_InstrumentID b = i \<and> fb_PluginID b = plugin) (pc_blocks s)"

definition CreatePriceFetchBlock :: "Env \<Rightarrow> string \<Rightarrow> string \<Rightarrow> string \<Rightarrow> Cache \<Rightarrow> string + Cache" where
  "CreatePriceFetchBlock env instrumentID pluginID reason s =
     sum_then (of_option ''invalid input syntax for type uuid'' (env_parse_uuid env instrumentID)) (\<lambda>inst.
       if inst \<notin> instrument_ids (pc_master s) then Inl ''violates foreign key constraint''
       else let b = \<lparr>fb_InstrumentID = inst, fb_PluginID = pluginID, fb_Reason = reason\<rparr>;
                same = (\<lambda>x. fb_InstrumentID x = inst \<and> fb_PluginID x = pluginID) in
         Inr (s\<lparr>pc_blocks := (if list_ex same (pc_blocks s) then map (\<lambda>x. if same x then x\<lparr>fb_Reason := reason\<rparr> else x) (pc_blocks s)
           else pc_blocks s @ [b])\<rparr>))"

definition DeletePriceFetchBlock :: "Env \<Rightarrow> string \<Rightarrow> string \<Rightarrow> Cache \<Rightarrow> string + Cache" where
  "DeletePriceFetchBlock env instrumentID pluginID s =
     sum_then (of_option ''invalid input syntax for type uuid'' (env_parse_uuid env instrumentID)) (\<lambda>inst.
       Inr (s\<lparr>pc_blocks := filter (\<lambda>x. \<not> (fb_InstrumentID x = inst \<and> fb_PluginID x = pluginID)) (pc_blocks s)\<rparr>))"

definition ListEnabledPluginConfigs :: "Cache \<Rightarrow> PluginConfigRow list" where
  "ListEnabledPluginConfigs s = go_sort (\<lambda>a b. pg_Precedence b < pg_Precedence a) (pc_configs s)"

end
