(* ===== verification/Price_Fetch.thy ===== *)
theory Price_Fetch
  imports Price_Cache
begin

text \<open>
  A cycle of the price fetcher (\<open>src/server/pricefetcher/worker.go\<close>, \<open>telemetry.go\<close>, \<open>plugin.go\<close> and the
  filters of \<open>src/server/pluginutil\<close>): the gaps of the price cache put to the configured plugins in order
  of precedence, and what is recorded of their answers.

  A plugin is the data it declares and its answers, which may depend on how often plugins were asked
  before in the cycle; that a context is cancelled is an argument. The clock does not advance within a
  cycle. Telemetry is the list of rows written; the worker's trigger loop is outside the model.
\<close>

subsection \<open>Plugins\<close>

datatype fetch_error = ErrPermanent string | ErrNoData | ErrDeadlineExceeded | ErrOther string

record DailyBar =
  bar_Date :: time
  bar_Open :: "decimal option"
  bar_High :: "decimal option"
  bar_Low :: "decimal option"
  bar_Close :: decimal
  bar_Volume :: "int64 option"
  bar_AdjustedClose :: "decimal option"

datatype ShareCountBasis = AsTraded | AsOfFetch

record FetchResult =
  fr_Bars :: "DailyBar list"
  fr_ShareCountBasis :: ShareCountBasis

record Plugin =
  pl_SupportedIdentifierTypes :: "string list"
  pl_AcceptableAssetClasses :: "(string \<times> bool) list"
  pl_AcceptableExchanges :: "(string \<times> bool) list"
  pl_AcceptableCurrencies :: "(string \<times> bool) list"
  pl_FetchPrices :: "nat \<Rightarrow> string \<Rightarrow> InstrumentRef list \<Rightarrow> string \<Rightarrow> time \<Rightarrow> time \<Rightarrow> fetch_error + FetchResult"

definition DerivedFXPairs :: "(string \<times> string \<times> int) list" where
  "DerivedFXPairs = [(''GBXUSD'', ''GBPUSD'', - 2)]"

definition RewriteFXPair :: "string \<Rightarrow> string \<times> int" where
  "RewriteFXPair v = (case map_of DerivedFXPairs v of Some (src, e) \<Rightarrow> (src, e) | None \<Rightarrow> (v, 0))"

definition Shift :: "int \<Rightarrow> decimal \<Rightarrow> decimal" where
  "Shift e d = (if 0 \<le> e then d * 10 ^ nat e else d / 10 ^ nat (- e))"

definition ScaleBars :: "DailyBar list \<Rightarrow> int \<Rightarrow> DailyBar list" where
  "ScaleBars bars e = map (\<lambda>b. \<lparr>bar_Date = bar_Date b, bar_Open = map_option (Shift e) (bar_Open b), bar_High = map_option (Shift e) (bar_High b),
     bar_Low = map_option (Shift e) (bar_Low b), bar_Close = Shift e (bar_Close b), bar_Volume = bar_Volume b, bar_AdjustedClose = None\<rparr>) bars"

record InstrumentRow =
  ir_Instrument :: Instrument
  ir_Identifiers :: "IdentifierInput list"
  ir_ProviderIdentifiers :: "ProviderIdentifier list"

definition loadProviderIdentifiers :: "string \<Rightarrow> Cache \<Rightarrow> ProviderIdentifier list" where
  "loadProviderIdentifiers i s = filter (\<lambda>x. pi_InstrumentID x = i) (pc_providers s)"

definition ListInstrumentsByIDs :: "Env \<Rightarrow> string list \<Rightarrow> Cache \<Rightarrow> InstrumentRow list" where
  "ListInstrumentsByIDs env ids s = (let uuids = List.map_filter (env_parse_uuid env) ids in
     map (\<lambda>i. \<lparr>ir_Instrument = i, ir_Identifiers = loadIdentifiers (in_ID i) (pc_master s), ir_ProviderIdentifiers = loadProviderIdentifiers (in_ID i) s\<rparr>)
       (filter (\<lambda>i. in_ID i \<in> set uuids) (sm_instruments (pc_master s))))"

text \<open>A filter of a plugin: it passes what has no value, and everything where it is empty.\<close>

definition admits :: "(string \<times> bool) list \<Rightarrow> (string \<Rightarrow> string) \<Rightarrow> string option \<Rightarrow> bool" where
  "admits f canon v = (case v of None \<Rightarrow> True | Some x \<Rightarrow> f = [] \<or> x = '''' \<or> map_of f (canon x) = Some True)"

definition PluginAccepts :: "(string \<times> bool) list \<Rightarrow> (string \<times> bool) list \<Rightarrow> (string \<times> bool) list \<Rightarrow> Instrument \<Rightarrow> bool" where
  "PluginAccepts ac ex cu inst \<longleftrightarrow> admits ac id (in_AssetClass inst) \<and> admits ex id (in_ExchangeMIC inst) \<and> admits cu ToUpper (in_Currency inst)"

definition FilterIdentifiers :: "string list \<Rightarrow> IdentifierInput list \<Rightarrow> IdentifierInput list" where
  "FilterIdentifiers supported ids = filter (\<lambda>x. ref_Type (ii_Ref x) \<in> set supported) ids"

definition ToIdentifiers :: "IdentifierInput list \<Rightarrow> InstrumentRef list" where
  "ToIdentifiers ids = map ii_Ref ids"

record pluginEntry =
  pe_id :: string
  pe_plugin :: Plugin
  pe_config :: string
  pe_precedence :: int
  pe_maxHistDays :: "int option"

subsection \<open>What a cycle records\<close>

datatype CallOutcome = CallBarsReturned | CallNoData | CallHistoryLimit | CallPermanentBlock | CallTimeout | CallError | CallUpsertFailed

datatype GapOutcome = GapFilled | GapSettledEmpty | GapNoEligiblePlugin | GapAllPluginsFailed | GapInstrumentMissing

record PricePluginCall =
  ca_Gap :: nat
  ca_PluginID :: string
  ca_Precedence :: int
  ca_From :: time
  ca_Before :: time
  ca_Bars :: nat
  ca_Outcome :: CallOutcome

record PriceGapRow =
  gr_InstrumentID :: string
  gr_IsFX :: bool
  gr_DaysOutstanding :: int
  gr_AssetClass :: string
  gr_Currency :: string
  gr_Exchange :: string

record fetch_state =
  fs_cache :: Cache
  fs_asked :: nat
  fs_gaps :: "PriceGapRow list"
  fs_calls :: "PricePluginCall list"
  fs_ends :: "(nat \<times> GapOutcome) list"

definition rangesDays :: "DateRange list \<Rightarrow> int" where
  "rangesDays rs = sum_list (map (\<lambda>r. if dr_Before r > dr_From r then (dr_Before r - dr_From r) div day_length else 0) rs)"

definition or_blank :: "string option \<Rightarrow> string" where
  "or_blank v = (case v of None \<Rightarrow> '''' | Some x \<Rightarrow> x)"

definition newPriceGaps :: "InstrumentDateRanges list \<Rightarrow> nat \<Rightarrow> (string \<Rightarrow> InstrumentRow option) \<Rightarrow> PriceGapRow list" where
  "newPriceGaps gaps fxFrom instByID = map (\<lambda>(i, ig).
     let inst = map_option ir_Instrument (instByID (idr_InstrumentID ig));
         col = (\<lambda>f. case inst of None \<Rightarrow> '''' | Some x \<Rightarrow> or_blank (f x)) in
     \<lparr>gr_InstrumentID = idr_InstrumentID ig, gr_IsFX = (i \<ge> fxFrom), gr_DaysOutstanding = rangesDays (idr_Ranges ig),
      gr_AssetClass = col in_AssetClass, gr_Currency = col in_Currency, gr_Exchange = col in_ExchangeMIC\<rparr>) (enumerate 0 gaps)"

definition gapsTel_end :: "nat \<Rightarrow> GapOutcome \<Rightarrow> fetch_state \<Rightarrow> fetch_state" where
  "gapsTel_end i out st = st\<lparr>fs_ends := fs_ends st @ [(i, out)]\<rparr>"

definition gapsTel_endAll :: "nat \<Rightarrow> GapOutcome \<Rightarrow> fetch_state \<Rightarrow> fetch_state" where
  "gapsTel_endAll n out st = foldl (\<lambda>st i. gapsTel_end i out st) st [0..<n]"

definition gapsTel_call :: "PricePluginCall \<Rightarrow> fetch_state \<Rightarrow> fetch_state" where
  "gapsTel_call c st = st\<lparr>fs_calls := fs_calls st @ [c]\<rparr>"

definition gapsTel_called :: "nat \<Rightarrow> fetch_state \<Rightarrow> bool" where
  "gapsTel_called i st \<longleftrightarrow> list_ex (\<lambda>c. ca_Gap c = i) (fs_calls st)"

definition priceCall :: "nat \<Rightarrow> pluginEntry \<Rightarrow> DateRange \<Rightarrow> nat \<Rightarrow> CallOutcome \<Rightarrow> PricePluginCall" where
  "priceCall i pe r bars out = \<lparr>ca_Gap = i, ca_PluginID = pe_id pe, ca_Precedence = pe_precedence pe, ca_From = dr_From r, ca_Before = dr_Before r,
     ca_Bars = bars, ca_Outcome = out\<rparr>"

definition gapOutcome :: "bool \<Rightarrow> nat \<Rightarrow> bool \<Rightarrow> bool \<Rightarrow> GapOutcome" where
  "gapOutcome fetched bars reached called =
     (if fetched \<and> bars > 0 then GapFilled
      else if fetched then GapSettledEmpty
      else if \<not> reached then GapNoEligiblePlugin
      else if \<not> called then GapSettledEmpty
      else GapAllPluginsFailed)"

subsection \<open>Putting a range to a plugin\<close>

definition barsToEODPrices :: "string \<Rightarrow> string \<Rightarrow> DailyBar list \<Rightarrow> ShareCountBasis \<Rightarrow> time \<Rightarrow> EODPrice list" where
  "barsToEODPrices instrumentID provider bars basis fetchedAt = map (\<lambda>b.
     \<lparr>ep_InstrumentID = instrumentID, ep_PriceDate = bar_Date b, ep_Open = bar_Open b, ep_High = bar_High b, ep_Low = bar_Low b,
      ep_Close = bar_Close b, ep_Volume = bar_Volume b, ep_DataProvider = provider, ep_AdjustedClose = bar_AdjustedClose b,
      ep_LastFetchedAt = None, ep_ShareCountBasis = Some (if basis = AsOfFetch then fetchedAt else bar_Date b)\<rparr>) bars"

definition with_cache :: "string + Cache \<Rightarrow> fetch_state \<Rightarrow> fetch_state" where
  "with_cache r st = (case r of Inl _ \<Rightarrow> st | Inr c \<Rightarrow> st\<lparr>fs_cache := c\<rparr>)"

text \<open>A failure to record is logged and nothing else.\<close>

definition coverRange :: "Env \<Rightarrow> string \<Rightarrow> string \<Rightarrow> DateRange \<Rightarrow> fetch_state \<Rightarrow> fetch_state" where
  "coverRange env instrumentID pluginID r st = (if \<not> dr_Before r > dr_From r then st
     else with_cache (UpsertPricesForRange env instrumentID pluginID [] (dr_From r) (dr_Before r) None (fs_cache st)) st)"

text \<open>What of a range lies before the history a plugin reaches, and what is left to ask it.\<close>

definition history_split :: "pluginEntry \<Rightarrow> time \<Rightarrow> DateRange \<Rightarrow> DateRange option \<times> DateRange option" where
  "history_split pe today rg = (case pe_maxHistDays pe of
       None \<Rightarrow> (None, Some rg)
     | Some days \<Rightarrow> if \<not> days > 0 then (None, Some rg)
         else let cutoff = today - days * day_length in
           if \<not> dr_Before rg > cutoff then (Some rg, None)
           else if dr_From rg < cutoff then (Some (rg\<lparr>dr_Before := cutoff\<rparr>), Some (rg\<lparr>dr_From := cutoff\<rparr>))
           else (None, Some rg))"

definition settle_head :: "Env \<Rightarrow> nat \<Rightarrow> string \<Rightarrow> pluginEntry \<Rightarrow> DateRange option \<Rightarrow> fetch_state \<Rightarrow> fetch_state" where
  "settle_head env i instID pe headR st = (case headR of None \<Rightarrow> st
     | Some r \<Rightarrow> gapsTel_call (priceCall i pe r 0 CallHistoryLimit) (coverRange env instID (pe_id pe) r st))"

text \<open>The answer to one question: the state after it, and the bars it brought unless it ends the turn of the plugin.\<close>

definition ask_plugin ::
    "Env \<Rightarrow> nat \<Rightarrow> string \<Rightarrow> pluginEntry \<Rightarrow> InstrumentRef list \<Rightarrow> string \<Rightarrow> DateRange \<Rightarrow> fetch_state \<Rightarrow> fetch_state \<times> nat option" where
  "ask_plugin env i instID pe ids assetClass rg st0 =
     (let st = st0\<lparr>fs_asked := fs_asked st0 + 1\<rparr>; note = (\<lambda>n out. gapsTel_call (priceCall i pe rg n out)) in
      case pl_FetchPrices (pe_plugin pe) (fs_asked st0) (pe_config pe) ids assetClass (dr_From rg) (dr_Before rg) of
        Inl (ErrPermanent reason) \<Rightarrow>
          (note 0 CallPermanentBlock (with_cache (CreatePriceFetchBlock env instID (pe_id pe) reason (fs_cache st)) st), None)
      | Inl ErrNoData \<Rightarrow> (note 0 CallNoData (coverRange env instID (pe_id pe) rg st), Some 0)
      | Inl ErrDeadlineExceeded \<Rightarrow> (note 0 CallTimeout st, None)
      | Inl (ErrOther _) \<Rightarrow> (note 0 CallError st, None)
      | Inr r \<Rightarrow>
          (case UpsertPricesForRange env instID (pe_id pe)
              (barsToEODPrices instID (pe_id pe) (fr_Bars r) (fr_ShareCountBasis r) (sm_now (pc_master (fs_cache st))))
              (dr_From rg) (dr_Before rg) None (fs_cache st) of
             Inl _ \<Rightarrow> (note 0 CallUpsertFailed st, None)
           | Inr c \<Rightarrow> (note (length (fr_Bars r)) CallBarsReturned (st\<lparr>fs_cache := c\<rparr>), Some (length (fr_Bars r)))))"

fun fetch_ranges ::
    "Env \<Rightarrow> nat \<Rightarrow> string \<Rightarrow> pluginEntry \<Rightarrow> InstrumentRef list \<Rightarrow> string \<Rightarrow> nat \<Rightarrow> DateRange list \<Rightarrow> fetch_state \<Rightarrow> fetch_state \<times> nat \<times> bool" where
  "fetch_ranges env i instID pe ids assetClass bars [] st = (st, bars, True)"
| "fetch_ranges env i instID pe ids assetClass bars (rg # gaps) st =
     (let (headR, tailR) = history_split pe (CURRENT_DATE (pc_master (fs_cache st))) rg; st1 = settle_head env i instID pe headR st in
      case tailR of
        None \<Rightarrow> fetch_ranges env i instID pe ids assetClass bars gaps st1
      | Some r \<Rightarrow> (case ask_plugin env i instID pe ids assetClass r st1 of
            (st2, None) \<Rightarrow> (st2, bars, False)
          | (st2, Some n) \<Rightarrow> fetch_ranges env i instID pe ids assetClass (bars + n) gaps st2))"

subsection \<open>A cycle\<close>

definition offered_ids :: "pluginEntry \<Rightarrow> InstrumentRow \<Rightarrow> IdentifierInput list" where
  "offered_ids pe inst = (let sup = pl_SupportedIdentifierTypes (pe_plugin pe) in
     FilterIdentifiers sup (FilterIdentifiers sup (ir_Identifiers inst)
       @ map (\<lambda>x. \<lparr>ii_Ref = pi_Ref x, ii_Canonical = False, ii_ValidFrom = None, ii_ValidBefore = None\<rparr>)
           (filter (\<lambda>x. pi_Provider x = pe_id pe) (ir_ProviderIdentifiers inst))))"

definition eligible :: "(string \<Rightarrow> string \<Rightarrow> bool) \<Rightarrow> string \<Rightarrow> InstrumentRow \<Rightarrow> pluginEntry \<Rightarrow> bool" where
  "eligible blocked instID inst pe \<longleftrightarrow>
     PluginAccepts (pl_AcceptableAssetClasses (pe_plugin pe)) (pl_AcceptableExchanges (pe_plugin pe)) (pl_AcceptableCurrencies (pe_plugin pe)) (ir_Instrument inst)
     \<and> \<not> blocked instID (pe_id pe) \<and> offered_ids pe inst \<noteq> []"

fun try_plugins ::
    "Env \<Rightarrow> nat \<Rightarrow> InstrumentDateRanges \<Rightarrow> InstrumentRow \<Rightarrow> (string \<Rightarrow> string \<Rightarrow> bool) \<Rightarrow> (string \<Rightarrow> string \<Rightarrow> DateRange list)
     \<Rightarrow> pluginEntry list \<Rightarrow> bool \<Rightarrow> nat \<Rightarrow> fetch_state \<Rightarrow> fetch_state \<times> bool \<times> nat \<times> bool" where
  "try_plugins env i ig inst blocked coverage [] reached bars st = (st, False, bars, reached)"
| "try_plugins env i ig inst blocked coverage (pe # pes) reached bars st =
     (if \<not> eligible blocked (idr_InstrumentID ig) inst pe then try_plugins env i ig inst blocked coverage pes reached bars st
      else let outstanding = SubtractRanges (idr_Ranges ig) (coverage (idr_InstrumentID ig) (pe_id pe)) in
        if outstanding = [] then try_plugins env i ig inst blocked coverage pes True bars st
        else case fetch_ranges env i (idr_InstrumentID ig) pe (ToIdentifiers (offered_ids pe inst)) (or_blank (in_AssetClass (ir_Instrument inst)))
            bars outstanding st of
          (st', bars', True) \<Rightarrow> (st', True, bars', True)
        | (st', bars', False) \<Rightarrow> try_plugins env i ig inst blocked coverage pes True bars' st')"

definition process_gap ::
    "Env \<Rightarrow> pluginEntry list \<Rightarrow> (string \<Rightarrow> InstrumentRow option) \<Rightarrow> (string \<Rightarrow> string \<Rightarrow> bool) \<Rightarrow> (string \<Rightarrow> string \<Rightarrow> DateRange list)
     \<Rightarrow> nat \<Rightarrow> InstrumentDateRanges \<Rightarrow> fetch_state \<Rightarrow> fetch_state" where
  "process_gap env plugins instByID blocked coverage i ig st = (case instByID (idr_InstrumentID ig) of
       None \<Rightarrow> gapsTel_end i GapInstrumentMissing st
     | Some inst \<Rightarrow> (case try_plugins env i ig inst blocked coverage plugins False 0 st of
           (st', fetched, bars, reached) \<Rightarrow> gapsTel_end i (gapOutcome fetched bars reached (gapsTel_called i st')) st'))"

fun processGaps ::
    "Env \<Rightarrow> (nat \<Rightarrow> bool) \<Rightarrow> pluginEntry list \<Rightarrow> (string \<Rightarrow> InstrumentRow option) \<Rightarrow> (string \<Rightarrow> string \<Rightarrow> bool) \<Rightarrow> (string \<Rightarrow> string \<Rightarrow> DateRange list)
     \<Rightarrow> nat \<Rightarrow> InstrumentDateRanges list \<Rightarrow> fetch_state \<Rightarrow> fetch_state \<times> string option" where
  "processGaps env cancelled plugins instByID blocked coverage i [] st = (st, None)"
| "processGaps env cancelled plugins instByID blocked coverage i (ig # igs) st =
     (if cancelled i then (st, Some ''context canceled'')
      else processGaps env cancelled plugins instByID blocked coverage (i + 1) igs
        (process_gap env plugins instByID blocked coverage i ig st))"

definition extractInstrumentIDs :: "InstrumentDateRanges list \<Rightarrow> string list" where
  "extractInstrumentIDs gaps = map idr_InstrumentID gaps"

definition entries :: "(string \<Rightarrow> Plugin option) \<Rightarrow> PluginConfigRow list \<Rightarrow> pluginEntry list" where
  "entries registry cfgs = List.map_filter (\<lambda>c. map_option (\<lambda>p. \<lparr>pe_id = pg_PluginID c, pe_plugin = p, pe_config = pg_Config c,
     pe_precedence = pg_Precedence c, pe_maxHistDays = pg_MaxHistoryDays c\<rparr>) (registry (pg_PluginID c))) cfgs"

definition started_with :: "Cache \<Rightarrow> PriceGapRow list \<Rightarrow> fetch_state" where
  "started_with s rows = \<lparr>fs_cache = s, fs_asked = 0, fs_gaps = rows, fs_calls = [], fs_ends = []\<rparr>"

definition runCycle ::
    "Env \<Rightarrow> (needs \<Rightarrow> needs) \<Rightarrow> (string \<Rightarrow> Plugin option) \<Rightarrow> (nat \<Rightarrow> bool) \<Rightarrow> Cache \<Rightarrow> fetch_state \<times> string option" where
  "runCycle env visit registry cancelled s = (case PriceGaps env True s of
       Inl e \<Rightarrow> (started_with s [], Some e)
     | Inr gaps \<Rightarrow> (case FXGaps env visit True s of
         Inl e \<Rightarrow> (started_with s [], Some e)
       | Inr fxGaps \<Rightarrow>
           (let allGaps = gaps @ fxGaps; plugins = entries registry (ListEnabledPluginConfigs s); ids = extractInstrumentIDs allGaps in
            if allGaps = [] then (started_with s [], None)
            else if plugins = [] then
              (gapsTel_endAll (length allGaps) GapNoEligiblePlugin (started_with s (newPriceGaps allGaps (length gaps) (\<lambda>_. None))), None)
            else (case PriceCoverageByPlugin env ids s of
                Inl e \<Rightarrow> (started_with s [], Some e)
              | Inr coverage \<Rightarrow>
                  (let instByID = map_of (rev (map (\<lambda>r. (in_ID (ir_Instrument r), r)) (ListInstrumentsByIDs env ids s))) in
                   processGaps env cancelled plugins instByID (BlockedPluginsForInstruments ids s) coverage 0 allGaps
                     (started_with s (newPriceGaps allGaps (length gaps) instByID)))))))"

end
