(* ===== verification/Price_Coverage.thy ===== *)
theory Price_Coverage
  imports Price_Fetch
begin

text \<open>
  Facts on the price cache: the spans of a plugin stay apart and cover what they covered and the span
  recorded, every price lies in a span of its provider, and the gaps are the days an instrument is held
  that no plugin has answered for.
\<close>

subsection \<open>Days\<close>

lemma date_of_midnight: "date_of (date_of t) = date_of t"
  by (simp add: date_of_def utc_day_def day_length_def)

lemma date_of_bounds: "date_of t \<le> t" "t < date_of t + day_length"
  using mult_div_mod_eq [of day_length t] pos_mod_bound [of day_length t] pos_mod_sign [of day_length t]
  by (simp_all add: date_of_def utc_day_def mult.commute day_length_def)

lemma date_of_mono: "a \<le> b \<Longrightarrow> date_of a \<le> date_of b"
  by (simp add: date_of_def utc_day_def day_length_def zdiv_mono1)

lemma date_of_next: "date_of (t + day_length) = date_of t + day_length"
  by (simp add: date_of_def utc_day_def day_length_def algebra_simps)

subsection \<open>Spans\<close>

definition covered_by :: "string \<Rightarrow> string \<Rightarrow> Coverage list \<Rightarrow> time set" where
  "covered_by inst plugin cs = {x. \<exists>c \<in> set cs. cv_InstrumentID c = inst \<and> cv_PluginID c = plugin \<and> cv_From c \<le> x \<and> x < cv_Before c}"

definition covered :: "string \<Rightarrow> Coverage list \<Rightarrow> time set" where
  "covered inst cs = {x. \<exists>c \<in> set cs. cv_InstrumentID c = inst \<and> cv_From c \<le> x \<and> x < cv_Before c}"

lemma covered_any: "covered inst cs = (\<Union>plugin. covered_by inst plugin cs)"
  by (auto simp: covered_def covered_by_def)

text \<open>Two spans of one plugin on one instrument have a day between them.\<close>

definition apart :: "Coverage \<Rightarrow> Coverage \<Rightarrow> bool" where
  "apart c d \<longleftrightarrow> cv_InstrumentID c = cv_InstrumentID d \<and> cv_PluginID c = cv_PluginID d \<longrightarrow> cv_Before c < cv_From d \<or> cv_Before d < cv_From c"

definition spans_ok :: "Coverage list \<Rightarrow> bool" where
  "spans_ok cs \<longleftrightarrow> pairwise apart (set cs) \<and> distinct cs
     \<and> (\<forall>c \<in> set cs. cv_From c < cv_Before c \<and> date_of (cv_From c) = cv_From c \<and> date_of (cv_Before c) = cv_Before c)"

lemma fold_min:
  fixes a :: "'a :: linorder"
  shows "fold min xs a \<le> a" "x \<in> set xs \<Longrightarrow> fold min xs a \<le> x" "fold min xs a \<in> insert a (set xs)"
    "fold max xs a \<ge> a" "x \<in> set xs \<Longrightarrow> fold max xs a \<ge> x" "fold max xs a \<in> insert a (set xs)"
proof -
  have "fold min xs a = Min (insert a (set xs))" "fold max xs a = Max (insert a (set xs))"
    by (simp_all add: Min.set_eq_fold [symmetric] Max.set_eq_fold [symmetric])
  then show "fold min xs a \<le> a" "x \<in> set xs \<Longrightarrow> fold min xs a \<le> x" "fold min xs a \<in> insert a (set xs)"
    "fold max xs a \<ge> a" "x \<in> set xs \<Longrightarrow> fold max xs a \<ge> x" "fold max xs a \<in> insert a (set xs)"
    using Min_in [of "insert a (set xs)"] Max_in [of "insert a (set xs)"] by (simp_all del: Min_insert Max_insert)
qed

lemma merged_span_covers:
  fixes fromD beforeD fetched :: time
  assumes "fromD < beforeD" and touch: "\<And>t. t \<in> set ts \<Longrightarrow> touching inst plugin fromD beforeD t"
  defines "m \<equiv> merged_span inst plugin fromD beforeD fetched ts"
  shows "cv_From m \<le> x \<and> x < cv_Before m \<longleftrightarrow> (fromD \<le> x \<and> x < beforeD) \<or> (\<exists>t \<in> set ts. cv_From t \<le> x \<and> x < cv_Before t)"
proof
  assume x: "cv_From m \<le> x \<and> x < cv_Before m"
  show "(fromD \<le> x \<and> x < beforeD) \<or> (\<exists>t \<in> set ts. cv_From t \<le> x \<and> x < cv_Before t)"
  proof (rule ccontr)
    assume no: "\<not> ?thesis"
    then consider "x < fromD" | "beforeD \<le> x" by linarith
    then show False
    proof cases
      case 1
      then obtain t where t: "t \<in> set ts" "cv_From t = cv_From m" using fold_min(3) [of "map cv_From ts" fromD] x by (auto simp: m_def merged_span_def)
      then have "x < cv_Before t" using touch [OF t(1)] 1 by (simp add: touching_def)
      then show False using no t x by auto
    next
      case 2
      then obtain t where t: "t \<in> set ts" "cv_Before t = cv_Before m" using fold_min(6) [of "map cv_Before ts" beforeD] x by (auto simp: m_def merged_span_def)
      then have "cv_From t \<le> x" using touch [OF t(1)] 2 by (simp add: touching_def)
      then show False using no t x by auto
    qed
  qed
next
  assume "(fromD \<le> x \<and> x < beforeD) \<or> (\<exists>t \<in> set ts. cv_From t \<le> x \<and> x < cv_Before t)"
  then show "cv_From m \<le> x \<and> x < cv_Before m"
    using fold_min(1,2) [where xs = "map cv_From ts" and a = fromD] fold_min(4,5) [where xs = "map cv_Before ts" and a = beforeD]
    by (fastforce simp: m_def merged_span_def)
qed

lemma merged_span_apart:
  fixes fromD beforeD fetched :: time
  assumes ok: "spans_ok cs" and lt: "fromD < beforeD" and r: "r \<in> set cs" "\<not> touching inst plugin fromD beforeD r"
  shows "apart r (merged_span inst plugin fromD beforeD fetched (filter (touching inst plugin fromD beforeD) cs))"
proof -
  let ?ts = "filter (touching inst plugin fromD beforeD) cs"
  let ?m = "merged_span inst plugin fromD beforeD fetched ?ts"
  have "cv_Before r < cv_From ?m \<or> cv_Before ?m < cv_From r" if key: "cv_InstrumentID r = inst" "cv_PluginID r = plugin"
  proof -
    have sep: "cv_Before r < cv_From t \<or> cv_Before t < cv_From r" "cv_From t \<le> beforeD" "fromD \<le> cv_Before t" if "t \<in> set ?ts" for t
    proof -
      have t: "t \<in> set cs" "touching inst plugin fromD beforeD t" using that by simp_all
      then have "r \<noteq> t" using r(2) by blast
      then have "apart r t" using ok r(1) t(1) by (auto simp: spans_ok_def pairwise_def)
      then show "cv_Before r < cv_From t \<or> cv_Before t < cv_From r" using t(2) key by (simp add: apart_def touching_def)
      show "cv_From t \<le> beforeD" "fromD \<le> cv_Before t" using t(2) by (simp_all add: touching_def)
    qed
    have own: "cv_From r < cv_Before r" using ok r(1) by (simp add: spans_ok_def)
    consider "cv_From r > beforeD" | "cv_Before r < fromD" using r(2) key by (auto simp: touching_def)
    then show ?thesis
    proof cases
      case 1
      have "cv_Before t < cv_From r" if "t \<in> set ?ts" for t using sep [OF that] own 1 by linarith
      then have "cv_Before ?m < cv_From r" using fold_min(6) [of "map cv_Before ?ts" beforeD] 1 by (auto simp: merged_span_def)
      then show ?thesis ..
    next
      case 2
      have "cv_Before r < cv_From t" if "t \<in> set ?ts" for t using sep [OF that] own 2 by linarith
      then have "cv_Before r < cv_From ?m" using fold_min(3) [of "map cv_From ?ts" fromD] 2 by (auto simp: merged_span_def)
      then show ?thesis ..
    qed
  qed
  then show ?thesis by (simp add: apart_def merged_span_def)
qed

definition ids_ok :: "Env \<Rightarrow> Cache \<Rightarrow> bool" where
  "ids_ok env s \<longleftrightarrow> (\<forall>i \<in> instrument_ids (pc_master s). env_parse_uuid env i = Some i)"

lemma upsertCoverageSpan_Inr:
  "upsertCoverageSpan env instID plugin f b at' s = Inr s' \<longleftrightarrow> f < b \<and> (\<exists>inst. env_parse_uuid env instID = Some inst
     \<and> (let m = merged_span inst plugin (date_of f) (date_of b) (case at' of None \<Rightarrow> sm_now (pc_master s) | Some t \<Rightarrow> t)
            (filter (touching inst plugin (date_of f) (date_of b)) (pc_coverage s));
          rest = filter (\<lambda>x. \<not> touching inst plugin (date_of f) (date_of b) x) (pc_coverage s) in
        cv_From m < cv_Before m \<and> inst \<in> instrument_ids (pc_master s)
        \<and> \<not> list_ex (\<lambda>x. cv_InstrumentID x = inst \<and> cv_PluginID x = plugin \<and> cv_From x = cv_From m) rest
        \<and> s' = s\<lparr>pc_coverage := rest @ [m]\<rparr>))"
  by (auto simp: upsertCoverageSpan_def Let_def sum_then_Inr of_option_def insert_span_def split: option.splits if_splits)
     (auto simp: merged_span_def)

text \<open>A recorded span is added to what its plugin covers, and the spans stay apart.\<close>

lemma upsertCoverageSpan_adds:
  assumes run: "upsertCoverageSpan env instID plugin f b at' s = Inr s'" and ok: "spans_ok (pc_coverage s)" and days: "date_of f < date_of b"
    and inst: "env_parse_uuid env instID = Some inst"
  shows "s' = s\<lparr>pc_coverage := pc_coverage s'\<rparr>" "spans_ok (pc_coverage s')" "inst \<in> instrument_ids (pc_master s)"
    "covered_by i p (pc_coverage s') = covered_by i p (pc_coverage s) \<union> (if i = inst \<and> p = plugin then {date_of f ..< date_of b} else {})"
proof -
  let ?touch = "touching inst plugin (date_of f) (date_of b)"
  define m where "m = merged_span inst plugin (date_of f) (date_of b) (case at' of None \<Rightarrow> sm_now (pc_master s) | Some t \<Rightarrow> t) (filter ?touch (pc_coverage s))"
  let ?rest = "filter (\<lambda>x. \<not> ?touch x) (pc_coverage s)"
  have s': "s' = s\<lparr>pc_coverage := ?rest @ [m]\<rparr>" and lt: "cv_From m < cv_Before m" and "inst \<in> instrument_ids (pc_master s)"
    using run inst unfolding upsertCoverageSpan_Inr m_def Let_def by auto
  then show "s' = s\<lparr>pc_coverage := pc_coverage s'\<rparr>" "inst \<in> instrument_ids (pc_master s)" by simp_all
  have key: "cv_InstrumentID m = inst" "cv_PluginID m = plugin" by (simp_all add: m_def merged_span_def)
  have cov: "cv_From m \<le> x \<and> x < cv_Before m \<longleftrightarrow> (date_of f \<le> x \<and> x < date_of b) \<or> (\<exists>t \<in> set (filter ?touch (pc_coverage s)). cv_From t \<le> x \<and> x < cv_Before t)" for x
    unfolding m_def by (rule merged_span_covers [OF days]) simp
  have tk: "cv_InstrumentID t = inst \<and> cv_PluginID t = plugin" if "?touch t" for t using that by (simp add: touching_def)
  have cs: "pc_coverage s' = ?rest @ [m]" using s' by simp
  show "covered_by i p (pc_coverage s') = covered_by i p (pc_coverage s) \<union> (if i = inst \<and> p = plugin then {date_of f ..< date_of b} else {})"
  proof (rule set_eqI)
    fix x
    let ?in = "\<lambda>c. cv_InstrumentID c = i \<and> cv_PluginID c = p \<and> cv_From c \<le> x \<and> x < cv_Before c"
    have old: "x \<in> covered_by i p (pc_coverage s) \<longleftrightarrow> (\<exists>c \<in> set ?rest. ?in c) \<or> (\<exists>c \<in> set (filter ?touch (pc_coverage s)). ?in c)"
      unfolding covered_by_def mem_Collect_eq set_filter by blast
    have touched: "(\<exists>c \<in> set (filter ?touch (pc_coverage s)). ?in c) \<longleftrightarrow>
        i = inst \<and> p = plugin \<and> (\<exists>c \<in> set (filter ?touch (pc_coverage s)). cv_From c \<le> x \<and> x < cv_Before c)" using tk by auto
    have "x \<in> covered_by i p (pc_coverage s') \<longleftrightarrow> (\<exists>c \<in> set ?rest. ?in c) \<or> (i = inst \<and> p = plugin \<and> cv_From m \<le> x \<and> x < cv_Before m)"
      unfolding cs covered_by_def mem_Collect_eq using key by (simp add: bex_Un) blast
    then show "x \<in> covered_by i p (pc_coverage s') \<longleftrightarrow>
        x \<in> covered_by i p (pc_coverage s) \<union> (if i = inst \<and> p = plugin then {date_of f ..< date_of b} else {})"
      unfolding Un_iff old touched cov by (cases "i = inst \<and> p = plugin") auto
  qed
  have part: "apart r m" if "r \<in> set ?rest" for r using that merged_span_apart [OF ok days, of r inst plugin] by (auto simp: m_def)
  have sym: "apart m r" if "r \<in> set ?rest" for r using part [OF that] by (auto simp: apart_def)
  have new: "m \<notin> set ?rest" using part [of m] lt by (auto simp: apart_def)
  have dates: "date_of (cv_From m) = cv_From m \<and> date_of (cv_Before m) = cv_Before m"
  proof -
    have "cv_From m \<in> insert (date_of f) (cv_From ` set (pc_coverage s))" "cv_Before m \<in> insert (date_of b) (cv_Before ` set (pc_coverage s))"
      using fold_min(3) [of "map cv_From (filter ?touch (pc_coverage s))" "date_of f"] fold_min(6) [of "map cv_Before (filter ?touch (pc_coverage s))" "date_of b"]
      by (auto simp: m_def merged_span_def)
    then show ?thesis using ok by (auto simp: spans_ok_def date_of_midnight)
  qed
  have rest: "pairwise apart (set ?rest)" "distinct ?rest" using ok by (auto simp: spans_ok_def pairwise_def)
  show "spans_ok (pc_coverage s')" unfolding cs spans_ok_def
    using rest part sym new dates lt ok by (simp add: pairwise_insert spans_ok_def)
qed

lemma upsertCoverageSpan_commits:
  assumes ok: "spans_ok (pc_coverage s)" and days: "date_of f < date_of b"
    and inst: "env_parse_uuid env instID = Some inst" "inst \<in> instrument_ids (pc_master s)"
  shows "\<exists>s'. upsertCoverageSpan env instID plugin f b at' s = Inr s'"
proof -
  let ?touch = "touching inst plugin (date_of f) (date_of b)"
  let ?m = "merged_span inst plugin (date_of f) (date_of b) (case at' of None \<Rightarrow> sm_now (pc_master s) | Some t \<Rightarrow> t) (filter ?touch (pc_coverage s))"
  have "f < b" using days date_of_mono [of b f] by linarith
  moreover have lt: "cv_From ?m < cv_Before ?m"
    using fold_min(1) [of "map cv_From (filter ?touch (pc_coverage s))" "date_of f"] fold_min(4) [of "date_of b" "map cv_Before (filter ?touch (pc_coverage s))"] days
    by (simp add: merged_span_def)
  moreover have "\<not> list_ex (\<lambda>x. cv_InstrumentID x = inst \<and> cv_PluginID x = plugin \<and> cv_From x = cv_From ?m) (filter (\<lambda>x. \<not> ?touch x) (pc_coverage s))"
  proof -
    have "False" if x: "x \<in> set (pc_coverage s)" "\<not> ?touch x" "cv_InstrumentID x = inst" "cv_PluginID x = plugin" "cv_From x = cv_From ?m" for x
    proof -
      have "cv_From x < cv_Before x" using ok x(1) by (simp add: spans_ok_def)
      then show False using merged_span_apart [OF ok days x(1,2)] x(3-5) lt by (fastforce simp: apart_def merged_span_def)
    qed
    then show ?thesis by (auto simp: list_ex_iff)
  qed
  ultimately show ?thesis using inst unfolding upsertCoverageSpan_Inr Let_def by blast
qed

subsection \<open>Prices\<close>

definition prices_ok :: "Cache \<Rightarrow> bool" where
  "prices_ok s \<longleftrightarrow> distinct (map row_key (pc_prices s))
     \<and> (\<forall>r \<in> set (pc_prices s). pr_PriceDate r \<in> covered_by (pr_InstrumentID r) (pr_DataProvider r) (pc_coverage s))"

lemma put_price_keys: "distinct (map row_key ps) \<Longrightarrow> distinct (map row_key (put_price ps r))"
proof -
  assume d: "distinct (map row_key ps)"
  show ?thesis
  proof (cases "list_ex (\<lambda>p. row_key p = row_key r) ps")
    case True
    then have "map row_key (put_price ps r) = map row_key ps" by (simp add: put_price_def)
    then show ?thesis using d by simp
  next
    case False
    then show ?thesis using d by (auto simp: put_price_def list_ex_iff)
  qed
qed

lemma put_price_set: "set (put_price ps r) = {p \<in> set ps. row_key p \<noteq> row_key r} \<union> {r}"
  by (auto simp: put_price_def list_ex_iff)

lemma put_prices:
  assumes "distinct (map row_key ps)" "distinct (map row_key rows)"
  shows "distinct (map row_key (foldl put_price ps rows))
    \<and> set (foldl put_price ps rows) = {p \<in> set ps. row_key p \<notin> row_key ` set rows} \<union> set rows"
  using assms
proof (induction rows arbitrary: ps)
  case (Cons r rows)
  have IH: "distinct (map row_key (foldl put_price (put_price ps r) rows))"
    "set (foldl put_price (put_price ps r) rows) = {p \<in> set (put_price ps r). row_key p \<notin> row_key ` set rows} \<union> set rows"
    using Cons put_price_keys by simp_all
  show ?case using IH Cons.prems(2) by (auto simp: put_price_set)
qed simp

lemma price_rows_Inr:
  "price_rows env now ps = Inr rows \<Longrightarrow> list_all2 (\<lambda>p r. price_row env now p = Inr r) ps rows"
  by (induction ps arbitrary: rows) (auto simp: sum_then_Inr)

lemma price_row_Inr:
  "price_row env now p = Inr r \<Longrightarrow> env_parse_uuid env (ep_InstrumentID p) = Some (pr_InstrumentID r)
     \<and> pr_PriceDate r = date_of (ep_PriceDate p) \<and> pr_DataProvider r = ep_DataProvider p \<and> pr_Close r = ep_Close p"
  by (auto simp: price_row_def sum_then_Inr of_option_def split: option.splits)

text \<open>Of the bars supplied for a day the last is kept, and no other is lost.\<close>

lemma dedupe_loop_spec:
  assumes "distinct (map price_key acc)"
  shows "distinct (map price_key (dedupe_loop acc ps)) \<and> set (dedupe_loop acc ps) \<subseteq> set acc \<union> set ps
    \<and> price_key ` set (dedupe_loop acc ps) = price_key ` (set acc \<union> set ps)"
  using assms
proof (induction ps arbitrary: acc)
  case (Cons p ps)
  let ?acc = "if list_ex (\<lambda>o'. price_key o' = price_key p) acc then map (\<lambda>o'. if price_key o' = price_key p then p else o') acc else acc @ [p]"
  have "map price_key ?acc = (if list_ex (\<lambda>o'. price_key o' = price_key p) acc then map price_key acc else map price_key acc @ [price_key p])" by simp
  moreover have "list_ex (\<lambda>o'. price_key o' = price_key p) acc \<longleftrightarrow> price_key p \<in> set (map price_key acc)"
    unfolding list_ex_iff set_map image_iff by metis
  ultimately have keys: "map price_key ?acc = (if price_key p \<in> set (map price_key acc) then map price_key acc else map price_key acc @ [price_key p])"
    by presburger
  have "distinct (map price_key ?acc)" unfolding keys using Cons.prems by simp
  note IH = Cons.IH [OF this]
  have sub: "set ?acc \<subseteq> set acc \<union> {p}" by auto
  have img: "price_key ` set ?acc = price_key ` (set acc \<union> {p})" using arg_cong [OF keys, of set] by auto
  have "price_key ` set (dedupe_loop acc (p # ps)) = price_key ` (set ?acc \<union> set ps)" using IH by simp
  also have "\<dots> = price_key ` (set acc \<union> set (p # ps))" using img by (simp add: image_Un)
  finally show ?case using IH sub by auto
qed simp

lemma upsertPrices_Inr:
  assumes "upsertPrices env prices s = Inr s'"
  shows "\<exists>rows. s' = s\<lparr>pc_prices := foldl put_price (pc_prices s) rows\<rparr> \<and> distinct (map row_key rows)
    \<and> (\<forall>r \<in> set rows. pr_InstrumentID r \<in> instrument_ids (pc_master s) \<and> (\<exists>p \<in> set prices. price_row env (sm_now (pc_master s)) p = Inr r))
    \<and> (\<forall>p \<in> set prices. \<exists>r \<in> set rows. env_parse_uuid env (ep_InstrumentID p) = Some (pr_InstrumentID r) \<and> pr_PriceDate r = date_of (ep_PriceDate p))"
proof -
  obtain rows where rows: "price_rows env (sm_now (pc_master s)) (dedupeByInstrumentDate prices) = Inr rows" "distinct (map row_key rows)"
    "\<forall>r \<in> set rows. pr_InstrumentID r \<in> instrument_ids (pc_master s)" "s' = s\<lparr>pc_prices := foldl put_price (pc_prices s) rows\<rparr>"
    using assms by (auto simp: upsertPrices_def sum_then_Inr list_all_iff split: if_splits)
  note rel = price_rows_Inr [OF rows(1)]
  have dd: "set (dedupeByInstrumentDate prices) \<subseteq> set prices" "price_key ` set (dedupeByInstrumentDate prices) = price_key ` set prices"
    using dedupe_loop_spec [of "[]" prices] by (simp_all add: dedupeByInstrumentDate_def)
  have "\<exists>p \<in> set prices. price_row env (sm_now (pc_master s)) p = Inr r" if "r \<in> set rows" for r
    using list_all2_nthD2 [OF rel] that dd(1) by (metis in_set_conv_nth list_all2_lengthD [OF rel] subsetD)
  moreover have "\<exists>r \<in> set rows. env_parse_uuid env (ep_InstrumentID p) = Some (pr_InstrumentID r) \<and> pr_PriceDate r = date_of (ep_PriceDate p)" if p: "p \<in> set prices" for p
  proof -
    obtain p' where p': "p' \<in> set (dedupeByInstrumentDate prices)" "price_key p' = price_key p" using dd(2) p by (metis imageE imageI)
    then obtain r where "r \<in> set rows" "price_row env (sm_now (pc_master s)) p' = Inr r"
      using list_all2_nthD [OF rel] by (metis in_set_conv_nth list_all2_lengthD [OF rel])
    then show ?thesis using price_row_Inr [of env _ p' r] p'(2) by (auto simp: price_key_def)
  qed
  ultimately show ?thesis using rows by blast
qed

subsection \<open>The writes keep the cache\<close>

definition cache_ok :: "Env \<Rightarrow> Cache \<Rightarrow> bool" where
  "cache_ok env s \<longleftrightarrow> spans_ok (pc_coverage s) \<and> prices_ok s \<and> ids_ok env s
     \<and> (\<forall>c \<in> set (pc_coverage s). cv_InstrumentID c \<in> instrument_ids (pc_master s))
     \<and> (\<forall>t \<in> set (l_txs (sm_ledger (pc_master s))). \<forall>i. t_InstrumentID t = Some i \<longrightarrow> i \<in> instrument_ids (pc_master s))"

lemma cache_okD:
  assumes "cache_ok env s"
  shows "spans_ok (pc_coverage s)" "prices_ok s" "ids_ok env s"
  using assms by (simp_all add: cache_ok_def)

lemma covered_ids: "x \<in> covered_by i p cs \<Longrightarrow> i \<in> cv_InstrumentID ` set cs"
  by (auto simp: covered_by_def)

lemma prices_ok_grows:
  assumes "prices_ok s" "pc_prices s' = pc_prices s" "\<And>i p. covered_by i p (pc_coverage s) \<subseteq> covered_by i p (pc_coverage s')"
  shows "prices_ok s'"
  using assms by (auto simp: prices_ok_def)

text \<open>Only the tables of the cache change, and what is covered only grows.\<close>

definition cache_grows :: "Cache \<Rightarrow> Cache \<Rightarrow> bool" where
  "cache_grows s s' \<longleftrightarrow> pc_master s' = pc_master s \<and> pc_providers s' = pc_providers s \<and> pc_configs s' = pc_configs s \<and> pc_display s' = pc_display s
     \<and> (\<forall>i p. covered_by i p (pc_coverage s) \<subseteq> covered_by i p (pc_coverage s'))"

lemma cache_grows_refl: "cache_grows s s"
  by (simp add: cache_grows_def)

lemma cache_grows_trans: "cache_grows s s1 \<Longrightarrow> cache_grows s1 s2 \<Longrightarrow> cache_grows s s2"
  unfolding cache_grows_def by (elim conjE, intro conjI) (simp_all, blast)

lemma cache_grows_master: "cache_grows s s' \<Longrightarrow> pc_master s' = pc_master s"
  by (simp add: cache_grows_def)

lemma upsertCoverageSpan_keeps:
  assumes run: "upsertCoverageSpan env instID plugin f b at' s = Inr s'" and ok: "spans_ok (pc_coverage s)" "ids_ok env s"
    "\<forall>c \<in> set (pc_coverage s). cv_InstrumentID c \<in> instrument_ids (pc_master s)"
    and days: "date_of f < date_of b" and inst: "env_parse_uuid env instID = Some inst"
  shows "spans_ok (pc_coverage s')" "ids_ok env s'" "\<forall>c \<in> set (pc_coverage s'). cv_InstrumentID c \<in> instrument_ids (pc_master s')"
    "cache_grows s s'" "pc_prices s' = pc_prices s" "{date_of f ..< date_of b} \<subseteq> covered_by inst plugin (pc_coverage s')"
proof -
  note adds = upsertCoverageSpan_adds [OF run ok(1) days inst]
  obtain cs where cs: "s' = s\<lparr>pc_coverage := cs\<rparr>" using adds(1) by blast
  have m: "pc_master s' = pc_master s" and p: "pc_prices s' = pc_prices s" unfolding cs by simp_all
  show "spans_ok (pc_coverage s')" "pc_prices s' = pc_prices s" by (rule adds(2), rule p)
  show "ids_ok env s'" using ok(2) m by (simp add: ids_ok_def)
  show "cache_grows s s'" unfolding cache_grows_def adds(4) by (simp add: cs)
  show "{date_of f ..< date_of b} \<subseteq> covered_by inst plugin (pc_coverage s')" using adds(4) [of inst plugin] by simp
  have "cv_InstrumentID c \<in> instrument_ids (pc_master s)" if c: "c \<in> set (pc_coverage s')" for c
  proof -
    have "cv_From c \<in> covered_by (cv_InstrumentID c) (cv_PluginID c) (pc_coverage s')"
      using c bspec [OF conjunct2 [OF conjunct2 [OF adds(2) [unfolded spans_ok_def]]] c] unfolding covered_by_def mem_Collect_eq by (intro bexI [OF _ c]) simp
    then have "cv_From c \<in> covered_by (cv_InstrumentID c) (cv_PluginID c) (pc_coverage s) \<or> cv_InstrumentID c = inst"
      unfolding adds(4) by (auto split: if_splits)
    then show ?thesis
    proof
      assume "cv_From c \<in> covered_by (cv_InstrumentID c) (cv_PluginID c) (pc_coverage s)"
      from covered_ids [OF this] obtain e where "e \<in> set (pc_coverage s)" "cv_InstrumentID c = cv_InstrumentID e" by (rule imageE)
      then show ?thesis using ok(3) by simp
    next
      assume "cv_InstrumentID c = inst"
      then show ?thesis using adds(3) by simp
    qed
  qed
  then show "\<forall>c \<in> set (pc_coverage s'). cv_InstrumentID c \<in> instrument_ids (pc_master s')" unfolding m by blast
qed

lemma prices_stored_ok:
  assumes "prices_ok s" "distinct (map row_key rows)" "\<And>i p. covered_by i p (pc_coverage s) \<subseteq> covered_by i p (pc_coverage s')"
    and "\<And>r. r \<in> set rows \<Longrightarrow> pr_PriceDate r \<in> covered_by (pr_InstrumentID r) (pr_DataProvider r) (pc_coverage s')"
    and "pc_prices s' = foldl put_price (pc_prices s) rows"
  shows "prices_ok s'"
proof -
  have d: "distinct (map row_key (pc_prices s))" using assms(1) by (simp add: prices_ok_def)
  have put: "distinct (map row_key (pc_prices s'))" "set (pc_prices s') \<subseteq> set (pc_prices s) \<union> set rows"
    unfolding assms(5) using put_prices [OF d assms(2)] by auto
  have "pr_PriceDate r \<in> covered_by (pr_InstrumentID r) (pr_DataProvider r) (pc_coverage s')" if "r \<in> set (pc_prices s)" for r
    using assms(1,3) that unfolding prices_ok_def by blast
  then show ?thesis using put assms(4) unfolding prices_ok_def by blast
qed

text \<open>The bars lie on days of the range they were asked for.\<close>

definition bars_within :: "time \<Rightarrow> time \<Rightarrow> EODPrice list \<Rightarrow> bool" where
  "bars_within f b bars \<longleftrightarrow> list_all (\<lambda>p. date_of f \<le> date_of (ep_PriceDate p) \<and> date_of (ep_PriceDate p) < date_of b) bars"

lemma UpsertPricesForRange_keeps:
  assumes run: "UpsertPricesForRange env instID plugin bars f b at' s = Inr s'" and ok: "cache_ok env s"
    and days: "date_of f < date_of b" and inst: "env_parse_uuid env instID = Some inst" and bars_in: "bars_within f b bars"
  shows "cache_ok env s'" "cache_grows s s'" "{date_of f ..< date_of b} \<subseteq> covered_by inst plugin (pc_coverage s')"
proof -
  let ?ps = "map (attributed instID plugin at') bars"
  obtain s1 where s1: "(if bars = [] then Inr s else upsertPrices env ?ps s) = Inr s1" and up: "upsertCoverageSpan env instID plugin f b at' s1 = Inr s'"
    using run by (auto simp: UpsertPricesForRange_def sum_then_Inr)
  obtain rows where rows: "s1 = s\<lparr>pc_prices := foldl put_price (pc_prices s) rows\<rparr>" "distinct (map row_key rows)"
    "\<forall>r \<in> set rows. \<exists>p \<in> set ?ps. price_row env (sm_now (pc_master s)) p = Inr r"
  proof (cases "bars = []")
    case True
    then have "s1 = s\<lparr>pc_prices := foldl put_price (pc_prices s) []\<rparr>" using s1 by simp
    then show ?thesis using that [of "[]"] by simp
  next
    case False
    then show ?thesis using upsertPrices_Inr [of env ?ps s s1] s1 that by auto
  qed
  have c1: "pc_coverage s1 = pc_coverage s" "pc_master s1 = pc_master s" "ids_ok env s1"
    "\<forall>c \<in> set (pc_coverage s1). cv_InstrumentID c \<in> instrument_ids (pc_master s1)"
    using ok unfolding rows(1) by (simp_all add: cache_ok_def ids_ok_def)
  have sp: "spans_ok (pc_coverage s1)" using ok unfolding c1 by (simp add: cache_ok_def)
  note k = upsertCoverageSpan_keeps [OF up sp c1(3,4) days inst]
  have grow: "cache_grows s s1" unfolding rows(1) cache_grows_def by simp
  show g: "cache_grows s s'" by (rule cache_grows_trans [OF grow k(4)])
  show cov: "{date_of f ..< date_of b} \<subseteq> covered_by inst plugin (pc_coverage s')" by (rule k(6))
  have "prices_ok s'"
  proof (rule prices_stored_ok [OF _ rows(2)])
    show "prices_ok s" using ok by (simp add: cache_ok_def)
    show "covered_by i p (pc_coverage s) \<subseteq> covered_by i p (pc_coverage s')" for i p using g by (simp add: cache_grows_def)
    show "pc_prices s' = foldl put_price (pc_prices s) rows" unfolding k(5) rows(1) by simp
    show "pr_PriceDate r \<in> covered_by (pr_InstrumentID r) (pr_DataProvider r) (pc_coverage s')" if r: "r \<in> set rows" for r
    proof -
      obtain p where p: "p \<in> set bars" "price_row env (sm_now (pc_master s)) (attributed instID plugin at' p) = Inr r" using rows(3) r by auto
      have "pr_InstrumentID r = inst" "pr_DataProvider r = plugin" "pr_PriceDate r = date_of (ep_PriceDate p)"
        using price_row_Inr [OF p(2)] inst by (simp_all add: attributed_def)
      moreover have "date_of (ep_PriceDate p) \<in> {date_of f ..< date_of b}" using bars_in p(1) by (auto simp: bars_within_def list_all_iff)
      ultimately show ?thesis using cov by auto
    qed
  qed
  moreover have "pc_master s' = pc_master s" using g by (rule cache_grows_master)
  ultimately show "cache_ok env s'" using k(1-3) ok by (simp add: cache_ok_def)
qed

lemma UpsertPricesForRange_commits:
  assumes ok: "cache_ok env s" and days: "date_of f < date_of b" and inst: "env_parse_uuid env instID = Some inst" "inst \<in> instrument_ids (pc_master s)"
  shows "\<exists>s'. UpsertPricesForRange env instID plugin bars f b at' s = Inr s'"
proof -
  let ?ps = "map (attributed instID plugin at') bars" and ?now = "sm_now (pc_master s)"
  have row: "\<exists>r. price_row env ?now p = Inr r \<and> pr_InstrumentID r = inst \<and> pr_PriceDate r = snd (price_key p)" if "ep_InstrumentID p = instID" for p
    using that inst(1) by (simp add: price_row_def of_option_def sum_then_def price_key_def)
  have "\<exists>rows. price_rows env ?now ps = Inr rows \<and> (\<forall>r \<in> set rows. pr_InstrumentID r = inst) \<and> map pr_PriceDate rows = map (snd \<circ> price_key) ps"
    if "\<forall>p \<in> set ps. ep_InstrumentID p = instID" for ps
    using that
  proof (induction ps)
    case (Cons p ps)
    then obtain r rows where "price_row env ?now p = Inr r" "pr_InstrumentID r = inst" "pr_PriceDate r = snd (price_key p)"
      "price_rows env ?now ps = Inr rows" "\<forall>r \<in> set rows. pr_InstrumentID r = inst" "map pr_PriceDate rows = map (snd \<circ> price_key) ps"
      using row [of p] by auto
    then show ?case by (simp add: sum_then_def)
  qed simp
  moreover have dd: "distinct (map price_key (dedupeByInstrumentDate ?ps))" "\<forall>p \<in> set (dedupeByInstrumentDate ?ps). ep_InstrumentID p = instID"
    using dedupe_loop_spec [of "[]" ?ps] by (auto simp: dedupeByInstrumentDate_def attributed_def)
  ultimately obtain rows where rows: "price_rows env ?now (dedupeByInstrumentDate ?ps) = Inr rows" "\<forall>r \<in> set rows. pr_InstrumentID r = inst"
    "map pr_PriceDate rows = map (snd \<circ> price_key) (dedupeByInstrumentDate ?ps)" by blast
  have "map price_key (dedupeByInstrumentDate ?ps) = map (Pair instID) (map (snd \<circ> price_key) (dedupeByInstrumentDate ?ps))"
    using dd(2) by (simp add: price_key_def)
  then have "distinct (map pr_PriceDate rows)" using dd(1) unfolding rows(3) by (metis distinct_map)
  moreover have "map row_key rows = map (Pair inst) (map pr_PriceDate rows)" using rows(2) by (simp add: row_key_def)
  ultimately have "distinct (map row_key rows)" by (simp add: distinct_map inj_on_def)
  then have "\<exists>s1. (if bars = [] then Inr s else upsertPrices env ?ps s) = Inr s1 \<and> pc_coverage s1 = pc_coverage s \<and> pc_master s1 = pc_master s"
    using rows(1,2) inst(2) by (simp add: upsertPrices_def sum_then_def list_all_iff)
  then obtain s1 where s1: "(if bars = [] then Inr s else upsertPrices env ?ps s) = Inr s1" "pc_coverage s1 = pc_coverage s" "pc_master s1 = pc_master s" by blast
  have "\<exists>s'. upsertCoverageSpan env instID plugin f b at' s1 = Inr s'"
    by (rule upsertCoverageSpan_commits [OF _ days inst(1)]) (use ok inst(2) s1 in \<open>simp_all add: cache_ok_def\<close>)
  then show ?thesis using s1(1) unfolding UpsertPricesForRange_def sum_then_def by simp
qed

text \<open>Merging loses no range: each lies in one of the result, which starts where one of them does.\<close>

lemma merge_loop_contains:
  assumes "by_from (r # rs)"
  shows "\<forall>n \<in> set (r # rs). \<exists>m \<in> set (merge_loop r rs). dr_From m \<le> dr_From n \<and> dr_Before n \<le> dr_Before m"
    and "\<forall>m \<in> set (merge_loop r rs). \<exists>n \<in> set (r # rs). dr_From m = dr_From n \<and> dr_Before n \<le> dr_Before m"
  using assms
proof (induction rs arbitrary: r)
  case (Cons s rs)
  {
    case (1 r)
    let ?r = "if dr_Before s > dr_Before r then r\<lparr>dr_Before := dr_Before s\<rparr> else r"
    show ?case
    proof (cases "dr_From s > dr_Before r")
      case True
      then show ?thesis using Cons.IH(1) [of s] 1 by auto
    next
      case False
      have "by_from (?r # rs)" using 1 by (cases "dr_Before s > dr_Before r") simp_all
      then have IH: "\<forall>n \<in> set (?r # rs). \<exists>m \<in> set (merge_loop ?r rs). dr_From m \<le> dr_From n \<and> dr_Before n \<le> dr_Before m" by (rule Cons.IH(1))
      obtain m where m: "m \<in> set (merge_loop ?r rs)" "dr_From m \<le> dr_From ?r" "dr_Before ?r \<le> dr_Before m" using IH by auto
      have "dr_From m \<le> dr_From r" "dr_Before r \<le> dr_Before m" "dr_From m \<le> dr_From s" "dr_Before s \<le> dr_Before m"
        using m(2,3) 1 by (auto split: if_splits)
      then show ?thesis using IH m(1) False by auto
    qed
  next
    case (2 r)
    let ?r = "if dr_Before s > dr_Before r then r\<lparr>dr_Before := dr_Before s\<rparr> else r"
    show ?case
    proof (cases "dr_From s > dr_Before r")
      case True
      then show ?thesis using Cons.IH(2) [of s] 2 by auto
    next
      case False
      have "by_from (?r # rs)" using 2 by (cases "dr_Before s > dr_Before r") simp_all
      then have IH: "\<forall>m \<in> set (merge_loop ?r rs). \<exists>n \<in> set (?r # rs). dr_From m = dr_From n \<and> dr_Before n \<le> dr_Before m" by (rule Cons.IH(2))
      have "\<exists>n \<in> set (r # s # rs). dr_From m = dr_From n \<and> dr_Before n \<le> dr_Before m" if "m \<in> set (merge_loop ?r rs)" for m
        using bspec [OF IH that] by (auto split: if_splits)
      then show ?thesis using False by simp
    qed
  }
qed auto

lemma MergeRanges_contains:
  shows "n \<in> set rs \<Longrightarrow> \<exists>m \<in> set (MergeRanges rs). dr_From m \<le> dr_From n \<and> dr_Before n \<le> dr_Before m"
    and "m \<in> set (MergeRanges rs) \<Longrightarrow> \<exists>n \<in> set rs. dr_From m = dr_From n \<and> dr_Before n \<le> dr_Before m"
proof -
  have "(n \<in> set rs \<longrightarrow> (\<exists>m \<in> set (MergeRanges rs). dr_From m \<le> dr_From n \<and> dr_Before n \<le> dr_Before m))
    \<and> (m \<in> set (MergeRanges rs) \<longrightarrow> (\<exists>n \<in> set rs. dr_From m = dr_From n \<and> dr_Before n \<le> dr_Before m))"
  proof (cases rs rule: MergeRanges_cases)
    case (merged q qs)
    then have "set (q # qs) = set rs" by (metis set_go_sort)
    then show ?thesis using merge_loop_contains [OF merged(3)] unfolding merged(2) by blast
  qed auto
  then show "n \<in> set rs \<Longrightarrow> \<exists>m \<in> set (MergeRanges rs). dr_From m \<le> dr_From n \<and> dr_Before n \<le> dr_Before m"
    and "m \<in> set (MergeRanges rs) \<Longrightarrow> \<exists>n \<in> set rs. dr_From m = dr_From n \<and> dr_Before n \<le> dr_Before m" by blast+
qed

text \<open>The loop over the merged days of every instrument and provider.\<close>

lemma cover_each:
  assumes "try_each (\<lambda>(k, r). upsertCoverageSpan env (fst k) (snd k) (dr_From r) (dr_Before r) None) xs s = Inr s'"
    and "spans_ok (pc_coverage s)" "ids_ok env s" "\<forall>c \<in> set (pc_coverage s). cv_InstrumentID c \<in> instrument_ids (pc_master s)"
    and "\<forall>(k, r) \<in> set xs. date_of (dr_From r) < date_of (dr_Before r)"
  shows "spans_ok (pc_coverage s') \<and> ids_ok env s' \<and> (\<forall>c \<in> set (pc_coverage s'). cv_InstrumentID c \<in> instrument_ids (pc_master s'))
    \<and> cache_grows s s' \<and> pc_prices s' = pc_prices s
    \<and> (\<forall>(k, r) \<in> set xs. \<forall>inst. env_parse_uuid env (fst k) = Some inst \<longrightarrow>
         {date_of (dr_From r) ..< date_of (dr_Before r)} \<subseteq> covered_by inst (snd k) (pc_coverage s'))"
  using assms
proof (induction xs arbitrary: s)
  case (Cons x xs)
  obtain k r where x: "x = (k, r)" by (cases x)
  obtain s1 where s1: "upsertCoverageSpan env (fst k) (snd k) (dr_From r) (dr_Before r) None s = Inr s1"
    and rest: "try_each (\<lambda>(k, r). upsertCoverageSpan env (fst k) (snd k) (dr_From r) (dr_Before r) None) xs s1 = Inr s'"
    using Cons.prems(1) by (auto simp: x sum_then_Inr)
  obtain inst where inst: "env_parse_uuid env (fst k) = Some inst" using s1 unfolding upsertCoverageSpan_Inr by blast
  have days: "date_of (dr_From r) < date_of (dr_Before r)" using Cons.prems(5) by (simp add: x)
  note st = upsertCoverageSpan_keeps [OF s1 Cons.prems(2-4) days inst]
  have "\<forall>(k, r) \<in> set xs. date_of (dr_From r) < date_of (dr_Before r)" using Cons.prems(5) by simp
  note IH = Cons.IH [OF rest st(1-3) this]
  have grow: "cache_grows s1 s'" using IH by blast
  then have "covered_by inst (snd k) (pc_coverage s1) \<subseteq> covered_by inst (snd k) (pc_coverage s')" by (simp add: cache_grows_def)
  then have own: "{date_of (dr_From r) ..< date_of (dr_Before r)} \<subseteq> covered_by inst (snd k) (pc_coverage s')" using st(6) by (rule order_trans [rotated])
  have "cache_grows s s'" by (rule cache_grows_trans [OF st(4) grow])
  then show ?case using IH st(5) own inst by (simp add: x)
qed (simp add: cache_grows_refl)

lemma UpsertPrices_keeps:
  assumes run: "UpsertPrices env visit prices s = Inr s'" and ok: "cache_ok env s" and visit: "\<And>xs. set (visit xs) = set xs"
  shows "cache_ok env s'" "cache_grows s s'"
proof -
  have "cache_ok env s' \<and> cache_grows s s'"
  proof (cases "prices = []")
    case True
    then show ?thesis using run ok by (simp add: UpsertPrices_def cache_grows_refl)
  next
    case False
    let ?xs = "concat (map (\<lambda>(k, rs). map (Pair k) (MergeRanges rs)) (visit (supplied_days prices)))"
    obtain s1 where s1: "upsertPrices env prices s = Inr s1" and cov: "coverSuppliedDates env visit prices s1 = Inr s'"
      using run False by (auto simp: UpsertPrices_def sum_then_Inr)
    obtain rows where rows: "s1 = s\<lparr>pc_prices := foldl put_price (pc_prices s) rows\<rparr>" "distinct (map row_key rows)"
      "\<forall>r \<in> set rows. \<exists>p \<in> set prices. price_row env (sm_now (pc_master s)) p = Inr r"
      using upsertPrices_Inr [OF s1] by blast
    have own: "mm_get (supplied_days prices) k = map (\<lambda>p. \<lparr>dr_From = ep_PriceDate p, dr_Before = ep_PriceDate p + day_length\<rparr>)
        (filter (\<lambda>p. (ep_InstrumentID p, ep_DataProvider p) = k) prices)" for k
      by (simp add: supplied_days_def mm_get_build filter_map comp_def)
    have entry: "(k, mm_get (supplied_days prices) k) \<in> set (supplied_days prices)" if "k \<in> (\<lambda>p. (ep_InstrumentID p, ep_DataProvider p)) ` set prices" for k
    proof -
      have "k \<in> set (map fst (supplied_days prices))" using that by (simp only: supplied_days_def keys_mm_build) force
      then obtain rs where "map_of (supplied_days prices) k = Some rs" by (metis map_of_eq_None_iff not_None_eq set_map)
      then show ?thesis using map_of_SomeD by (fastforce simp: mm_get_def)
    qed
    have vals: "rs = mm_get (supplied_days prices) k" if "(k, rs) \<in> set (supplied_days prices)" for k rs
      using that distinct_mm_build [of "map (\<lambda>p. ((ep_InstrumentID p, ep_DataProvider p), \<lparr>dr_From = ep_PriceDate p, dr_Before = ep_PriceDate p + day_length\<rparr>)) prices"]
      by (simp add: supplied_days_def mm_get_def map_of_is_SomeI)
    have days: "\<forall>(k, r) \<in> set ?xs. date_of (dr_From r) < date_of (dr_Before r)"
    proof clarify
      fix k r assume "(k, r) \<in> set ?xs"
      then obtain rs where rs: "(k, rs) \<in> set (supplied_days prices)" "r \<in> set (MergeRanges rs)" by (auto simp: visit)
      obtain n where "n \<in> set rs" "dr_From r = dr_From n" "dr_Before n \<le> dr_Before r" using MergeRanges_contains(2) [OF rs(2)] by blast
      moreover from this(1) have "dr_Before n = dr_From n + day_length" unfolding vals [OF rs(1)] own by auto
      ultimately show "date_of (dr_From r) < date_of (dr_Before r)"
        using date_of_mono [of "dr_From n + day_length" "dr_Before r"] date_of_next [of "dr_From n"] by (simp add: day_length_def)
    qed
    have c1: "spans_ok (pc_coverage s1)" "ids_ok env s1" "\<forall>c \<in> set (pc_coverage s1). cv_InstrumentID c \<in> instrument_ids (pc_master s1)" "cache_grows s s1"
      using ok unfolding rows(1) by (simp_all add: cache_ok_def ids_ok_def cache_grows_def)
    note k = cover_each [OF cov [unfolded coverSuppliedDates_def] c1(1-3) days]
    have g: "cache_grows s s'" using cache_grows_trans [OF c1(4)] k by blast
    have "prices_ok s'"
    proof (rule prices_stored_ok [OF _ rows(2)])
      show "prices_ok s" using ok by (simp add: cache_ok_def)
      show "covered_by i p (pc_coverage s) \<subseteq> covered_by i p (pc_coverage s')" for i p using g by (simp add: cache_grows_def)
      show "pc_prices s' = foldl put_price (pc_prices s) rows" using k unfolding rows(1) by simp
      show "pr_PriceDate r \<in> covered_by (pr_InstrumentID r) (pr_DataProvider r) (pc_coverage s')" if r: "r \<in> set rows" for r
      proof -
        obtain p where p: "p \<in> set prices" "price_row env (sm_now (pc_master s)) p = Inr r" using rows(3) r by blast
        note pr = price_row_Inr [OF p(2)]
        let ?k = "(ep_InstrumentID p, ep_DataProvider p)"
        have "\<lparr>dr_From = ep_PriceDate p, dr_Before = ep_PriceDate p + day_length\<rparr> \<in> set (mm_get (supplied_days prices) ?k)" unfolding own using p(1) by auto
        then obtain m where m: "m \<in> set (MergeRanges (mm_get (supplied_days prices) ?k))" "dr_From m \<le> ep_PriceDate p" "ep_PriceDate p + day_length \<le> dr_Before m"
          using MergeRanges_contains(1) by fastforce
        have "(?k, m) \<in> set ?xs" using entry [of ?k] p(1) m(1) by (fastforce simp: visit)
        then have "{date_of (dr_From m) ..< date_of (dr_Before m)} \<subseteq> covered_by (pr_InstrumentID r) (pr_DataProvider r) (pc_coverage s')" using k pr by fastforce
        moreover have "pr_PriceDate r \<in> {date_of (dr_From m) ..< date_of (dr_Before m)}"
          using pr date_of_mono [OF m(2)] date_of_mono [OF m(3)] date_of_next [of "ep_PriceDate p"] by (simp add: day_length_def)
        ultimately show ?thesis by blast
      qed
    qed
    then show ?thesis using k g ok cache_grows_master [OF g] by (simp add: cache_ok_def)
  qed
  then show "cache_ok env s'" "cache_grows s s'" by simp_all
qed

end
