(* ===== verification/Price_Gaps.thy ===== *)
theory Price_Gaps
  imports Price_Coverage
begin

text \<open>
  The scan behind \<open>HeldRanges\<close> against what it computes, the days on which the net position of an
  instrument is not zero, and the gaps that follow from it.
\<close>

subsection \<open>The scan of one instrument\<close>

type_synonym scan = "DateRange list \<times> time \<times> bool"

fun scan_step :: "scan \<Rightarrow> time \<times> decimal \<Rightarrow> scan" where
  "scan_step (rs, st, b) (d, p) =
     (if p \<noteq> 0 \<and> \<not> b then (rs, d, True)
      else if p = 0 \<and> b then (rs @ [\<lparr>dr_From = st, dr_Before = d\<rparr>], st, False)
      else (rs, st, b))"

fun scan_close :: "bool \<Rightarrow> time \<Rightarrow> scan \<Rightarrow> DateRange list" where
  "scan_close toToday today (rs, st, b) = (if b then rs @ [\<lparr>dr_From = st, dr_Before = (if toToday then today else st) + day_length\<rparr>] else rs)"

text \<open>The position the rows state for a moment: the one of the last row up to it.\<close>

definition pos_at :: "(time \<times> decimal) list \<Rightarrow> time \<Rightarrow> decimal" where
  "pos_at ps x = (let qs = filter (\<lambda>q. fst q \<le> x) ps in if qs = [] then 0 else snd (last qs))"

lemma pos_at_snoc: "pos_at (ps @ [(d, p)]) x = (if d \<le> x then p else pos_at ps x)"
  by (simp add: pos_at_def)

lemma scan_spec:
  assumes "sorted_wrt (<) (map fst ps)" "foldl scan_step ([], st0, False) ps = (rs, st, b)"
  shows "(\<forall>x. x \<in> points rs \<or> (b \<and> st \<le> x) \<longleftrightarrow> pos_at ps x \<noteq> 0) \<and> by_from rs
    \<and> (\<forall>r \<in> set rs. \<forall>q. (\<forall>d \<in> fst ` set ps. d \<le> q) \<longrightarrow> dr_From r < dr_Before r \<and> dr_Before r \<le> q)
    \<and> (b \<longrightarrow> st \<in> fst ` set ps \<and> (\<forall>r \<in> set rs. dr_Before r \<le> st))"
  using assms
proof (induction ps arbitrary: rs st b rule: rev_induct)
  case (snoc y ps)
  obtain d p where y: "y = (d, p)" by (cases y)
  obtain rs1 st1 b1 where f: "foldl scan_step ([], st0, False) ps = (rs1, st1, b1)" by (metis prod_cases3)
  have lt: "\<forall>q \<in> fst ` set ps. q < d" and srt: "sorted_wrt (<) (map fst ps)" using snoc.prems(1) by (auto simp: y sorted_wrt_append)
  note IH = snoc.IH [OF srt f]
  have ends: "dr_From r < dr_Before r" "dr_Before r \<le> d" if "r \<in> set rs1" for r
    using IH that lt by (meson less_imp_le)+
  have early: "x < d" if "x \<in> points rs1" for x
  proof -
    obtain r where r: "r \<in> set rs1" "x < dr_Before r" using \<open>x \<in> points rs1\<close> by (auto simp: points_def covers_def)
    then show ?thesis using ends(2) [OF r(1)] by linarith
  qed
  have st: "st1 < d" if b1 using IH that lt by blast
  have step: "scan_step (rs1, st1, b1) (d, p) = (rs, st, b)" using snoc.prems(2) f by (simp add: y)
  have pos: "pos_at (ps @ [y]) x = (if d \<le> x then p else pos_at ps x)" for x by (simp add: y pos_at_snoc)
  have day: "d \<le> q" if "\<forall>d' \<in> fst ` set (ps @ [y]). d' \<le> q" for q using that by (simp add: y)
  have old: "x \<in> points rs1 \<or> (b1 \<and> st1 \<le> x) \<longleftrightarrow> pos_at ps x \<noteq> 0" for x using IH by blast
  consider (open') "p \<noteq> 0" "\<not> b1" | (close') "p = 0" "b1" | (stay') "p \<noteq> 0 \<longleftrightarrow> b1" by blast
  then show ?case
  proof cases
    case open'
    then have opens: "p \<noteq> 0" "\<not> b1" "rs = rs1" "st = d" "b" using step by simp_all
    have "x \<in> points rs \<or> (b \<and> st \<le> x) \<longleftrightarrow> pos_at (ps @ [y]) x \<noteq> 0" for x using old [of x] opens unfolding pos by auto
    moreover have "\<forall>r \<in> set rs. dr_Before r \<le> st" using ends opens by simp
    ultimately show ?thesis using IH opens ends(1) day by (force simp: y)
  next
    case close'
    then have closes: "p = 0" "b1" "rs = rs1 @ [\<lparr>dr_From = st1, dr_Before = d\<rparr>]" "st = st1" "\<not> b" using step by auto
    have "x \<in> points rs \<or> (b \<and> st \<le> x) \<longleftrightarrow> pos_at (ps @ [y]) x \<noteq> 0" for x
      using old [of x] early [of x] closes unfolding pos by (auto simp: covers_def)
    moreover have "by_from rs" using IH closes ends by (fastforce simp: by_from_def sorted_append)
    moreover have "\<forall>r \<in> set rs. dr_From r < dr_Before r \<and> dr_Before r \<le> d" using ends st closes by auto
    ultimately show ?thesis using closes day by (meson order_trans)
  next
    case stay'
    then have stays: "p \<noteq> 0 \<longleftrightarrow> b1" "rs = rs1" "st = st1" "b = b1" using step by (simp_all split: if_splits)
    have "x \<in> points rs \<or> (b \<and> st \<le> x) \<longleftrightarrow> pos_at (ps @ [y]) x \<noteq> 0" for x
    proof (cases "d \<le> x")
      case True
      then show ?thesis using early [of x] st stays unfolding pos by auto
    next
      case False
      then show ?thesis using old [of x] stays unfolding pos by simp
    qed
    then show ?thesis using IH stays ends day by (auto simp: y)
  qed
qed (simp add: pos_at_def)

lemma scan_close_points:
  assumes "sorted_wrt (<) (map fst ps)" and x: "x < today + day_length"
  shows "x \<in> points (scan_close True today (foldl scan_step ([], st0, False) ps)) \<longleftrightarrow> pos_at ps x \<noteq> 0"
    and "by_from (scan_close True today (foldl scan_step ([], st0, False) ps))"
proof -
  obtain rs st b where f: "foldl scan_step ([], st0, False) ps = (rs, st, b)" by (metis prod_cases3)
  note spec = scan_spec [OF assms(1) f]
  have "x \<in> points (scan_close True today (rs, st, b)) \<longleftrightarrow> x \<in> points rs \<or> (b \<and> st \<le> x)" using x by (auto simp: covers_def)
  then show "x \<in> points (scan_close True today (foldl scan_step ([], st0, False) ps)) \<longleftrightarrow> pos_at ps x \<noteq> 0" unfolding f using spec by blast
  have "dr_From r \<le> st" if "b" "r \<in> set rs" for r
  proof -
    have "\<forall>d \<in> fst ` set ps. d \<le> Max (fst ` set ps)" by simp
    then have "dr_From r < dr_Before r" using spec that(2) by blast
    moreover have "dr_Before r \<le> st" using spec that by blast
    ultimately show ?thesis by linarith
  qed
  then show "by_from (scan_close True today (foldl scan_step ([], st0, False) ps))" unfolding f using spec by (auto simp: by_from_def sorted_append)
qed

subsection \<open>All instruments\<close>

definition entered :: "bool \<Rightarrow> time \<Rightarrow> string \<Rightarrow> held_state \<Rightarrow> held_state" where
  "entered toToday today i h = (if i \<noteq> hs_curInst h then (held_flush (held_close toToday today h))\<lparr>hs_curInst := i, hs_ranges := []\<rparr> else h)"

definition held_final :: "bool \<Rightarrow> time \<Rightarrow> held_state \<Rightarrow> InstrumentDateRanges list" where
  "held_final toToday today h = hs_result (held_flush (held_close toToday today h))"

definition with_scan :: "scan \<Rightarrow> held_state \<Rightarrow> held_state" where
  "with_scan sc h = h\<lparr>hs_ranges := fst sc, hs_rangeStart := fst (snd sc), hs_inRange := snd (snd sc)\<rparr>"

lemma held_step_scan:
  "hs_curInst h = i \<Longrightarrow> held_step toToday today h (i, d, p) = with_scan (scan_step (hs_ranges h, hs_rangeStart h, hs_inRange h) (d, p)) h"
  by (cases h) (auto simp: held_step_def with_scan_def Let_def)

lemma held_step_entered: "held_step toToday today h (i, dp) = held_step toToday today (entered toToday today i h) (i, dp)"
  by (cases dp) (simp add: held_step_def entered_def Let_def)

lemma held_fold_scan:
  "hs_curInst h = i \<Longrightarrow> foldl (held_step toToday today) h (map (Pair i) ps)
     = with_scan (foldl scan_step (hs_ranges h, hs_rangeStart h, hs_inRange h) ps) h"
proof (induction ps arbitrary: h)
  case Nil
  then show ?case by (cases h) (simp add: with_scan_def)
next
  case (Cons q ps)
  obtain d p where q: "q = (d, p)" by (cases q)
  let ?sc = "scan_step (hs_ranges h, hs_rangeStart h, hs_inRange h) (d, p)"
  have "foldl (held_step toToday today) (with_scan ?sc h) (map (Pair i) ps) = with_scan (foldl scan_step ?sc ps) (with_scan ?sc h)"
    using Cons.IH [of "with_scan ?sc h"] Cons.prems by (simp add: with_scan_def)
  then show ?case using held_step_scan [OF Cons.prems] by (simp add: q with_scan_def)
qed

lemma entered_fresh:
  assumes "i \<noteq> hs_curInst h \<or> (hs_ranges h = [] \<and> \<not> hs_inRange h)"
  shows "hs_curInst (entered toToday today i h) = i" "hs_ranges (entered toToday today i h) = []" "\<not> hs_inRange (entered toToday today i h)"
    "hs_result (entered toToday today i h) = held_final toToday today h"
  using assms by (auto simp: entered_def held_flush_def held_close_def held_final_def)

lemma held_final_scan:
  "held_final toToday today (with_scan sc h) = hs_result h @ (if scan_close toToday today sc = [] then []
     else [\<lparr>idr_InstrumentID = hs_curInst h, idr_Ranges = scan_close toToday today sc\<rparr>])"
  by (cases sc) (auto simp: held_final_def held_flush_def held_close_def with_scan_def)

text \<open>The ranges of the instruments in turn: each scanned from an empty state, and left out where it has none.\<close>

lemma held_fold:
  assumes "distinct is'" "\<forall>i \<in> set is'. rows i \<noteq> []" "hs_curInst h \<notin> set is' \<or> (hs_ranges h = [] \<and> \<not> hs_inRange h)"
  shows "\<exists>R. (\<forall>i. \<exists>st0. R i = scan_close toToday today (foldl scan_step ([], st0, False) (rows i)))
    \<and> held_final toToday today (foldl (held_step toToday today) h (concat (map (\<lambda>i. map (Pair i) (rows i)) is')))
      = held_final toToday today h @ map (\<lambda>i. \<lparr>idr_InstrumentID = i, idr_Ranges = R i\<rparr>) (filter (\<lambda>i. R i \<noteq> []) is')"
  using assms
proof (induction is' arbitrary: h)
  case Nil
  then show ?case by (intro exI [of _ "\<lambda>i. scan_close toToday today (foldl scan_step ([], 0, False) (rows i))"]) auto
next
  case (Cons i is')
  let ?e = "entered toToday today i h"
  have fresh: "i \<noteq> hs_curInst h \<or> (hs_ranges h = [] \<and> \<not> hs_inRange h)" using Cons.prems(3) by auto
  note e = entered_fresh [OF fresh, of toToday today]
  let ?sc = "foldl scan_step ([], hs_rangeStart ?e, False) (rows i)" and ?h = "foldl (held_step toToday today) h (map (Pair i) (rows i))"
  obtain q qs where q: "rows i = q # qs" using Cons.prems(2) by (cases "rows i") auto
  have "?h = foldl (held_step toToday today) ?e (map (Pair i) (rows i))"
    unfolding q by (simp add: held_step_entered [of toToday today h i q])
  then have h: "?h = with_scan ?sc ?e" using held_fold_scan [OF e(1), of toToday today "rows i"] e(2,3) by simp
  have "hs_curInst ?h = i" unfolding h with_scan_def by (simp add: e(1))
  then have "hs_curInst ?h \<notin> set is' \<or> (hs_ranges ?h = [] \<and> \<not> hs_inRange ?h)" using Cons.prems(1) by simp
  then obtain R where R: "\<forall>j. \<exists>st0. R j = scan_close toToday today (foldl scan_step ([], st0, False) (rows j))"
    "held_final toToday today (foldl (held_step toToday today) ?h (concat (map (\<lambda>i. map (Pair i) (rows i)) is')))
      = held_final toToday today ?h @ map (\<lambda>i. \<lparr>idr_InstrumentID = i, idr_Ranges = R i\<rparr>) (filter (\<lambda>i. R i \<noteq> []) is')"
    using Cons.IH [of ?h] Cons.prems by auto
  let ?R = "R(i := scan_close toToday today ?sc)"
  have tail: "map (\<lambda>i. \<lparr>idr_InstrumentID = i, idr_Ranges = ?R i\<rparr>) (filter (\<lambda>i. ?R i \<noteq> []) is')
      = map (\<lambda>i. \<lparr>idr_InstrumentID = i, idr_Ranges = R i\<rparr>) (filter (\<lambda>i. R i \<noteq> []) is')"
    using Cons.prems(1) by (auto intro!: map_cong filter_cong)
  have own: "held_final toToday today ?h = held_final toToday today h @ (if ?R i = [] then [] else [\<lparr>idr_InstrumentID = i, idr_Ranges = ?R i\<rparr>])"
    unfolding h held_final_scan e by simp
  have "\<forall>j. \<exists>st0. ?R j = scan_close toToday today (foldl scan_step ([], st0, False) (rows j))" using R(1) by auto
  moreover have "held_final toToday today (foldl (held_step toToday today) h (concat (map (\<lambda>i. map (Pair i) (rows i)) (i # is'))))
      = held_final toToday today h @ map (\<lambda>i. \<lparr>idr_InstrumentID = i, idr_Ranges = ?R i\<rparr>) (filter (\<lambda>i. ?R i \<noteq> []) (i # is'))"
    using R(2) own tail by simp
  ultimately show ?case by blast
qed

subsection \<open>Held days\<close>

definition day_rows :: "Ledger \<Rightarrow> string \<Rightarrow> (time \<times> decimal) list" where
  "day_rows l i = map (\<lambda>d. (d, eod_pos i d l)) (sort (remdups (map (\<lambda>t. date_of (t_OrderDate t)) (held_postings i l))))"

lemma held_rows_by_instrument: "held_rows l = concat (map (\<lambda>i. map (Pair i) (day_rows l i)) (held_instruments l))"
  by (simp add: held_rows_def day_rows_def comp_def)

lemma held_instruments_iff: "i \<in> set (held_instruments l) \<longleftrightarrow> held_postings i l \<noteq> []" "distinct (held_instruments l)"
proof -
  have mf: "y \<in> set (List.map_filter f xs) \<longleftrightarrow> (\<exists>x \<in> set xs. f x = Some y)" for f :: "Posting \<Rightarrow> string option" and xs y
    by (induction xs) (auto simp: map_filter_simps split: option.splits)
  show "i \<in> set (held_instruments l) \<longleftrightarrow> held_postings i l \<noteq> []"
    unfolding held_instruments_def held_postings_def set_sort set_remdups mf filter_empty_conv by auto
  show "distinct (held_instruments l)" by (simp add: held_instruments_def)
qed

lemma sorted_strict: "sorted xs \<Longrightarrow> distinct xs \<Longrightarrow> sorted_wrt (<) (xs :: time list)"
  using strict_sorted_iff by blast

lemma last_upto:
  fixes xs :: "time list"
  assumes "sorted xs" "filter (\<lambda>d. d \<le> x) xs \<noteq> []"
  shows "last (filter (\<lambda>d. d \<le> x) xs) \<le> x" "d \<in> set xs \<Longrightarrow> d \<le> x \<longleftrightarrow> d \<le> last (filter (\<lambda>d. d \<le> x) xs)"
proof -
  let ?f = "filter (\<lambda>d. d \<le> x) xs"
  have "last ?f \<in> set ?f" using assms(2) by (rule last_in_set)
  then show le: "last ?f \<le> x" by simp
  have "sorted ?f" using assms(1) by (rule sorted_filter [where f = id, simplified])
  moreover have snoc: "?f = butlast ?f @ [last ?f]" using assms(2) by simp
  ultimately have "\<forall>d \<in> set (butlast ?f). d \<le> last ?f" by (metis sorted_append list.set_intros(1))
  moreover have "set ?f = set (butlast ?f) \<union> {last ?f}" by (subst snoc) simp
  ultimately have "d \<le> last ?f" if "d \<in> set ?f" for d using that by auto
  then show "d \<in> set xs \<Longrightarrow> d \<le> x \<longleftrightarrow> d \<le> last ?f" using le by auto
qed

lemma pos_at_day_rows: "pos_at (day_rows l i) x = eod_pos i x l"
proof -
  let ?ds = "sort (remdups (map (\<lambda>t. date_of (t_OrderDate t)) (held_postings i l)))"
  let ?f = "filter (\<lambda>d. d \<le> x) ?ds"
  have f: "filter (\<lambda>q. fst q \<le> x) (day_rows l i) = map (\<lambda>d. (d, eod_pos i d l)) ?f"
    by (simp add: day_rows_def filter_map comp_def)
  have ds: "date_of (t_OrderDate t) \<in> set ?ds" if "t \<in> set (held_postings i l)" for t using that by simp
  show ?thesis
  proof (cases "?f = []")
    case True
    then have "filter (\<lambda>t. date_of (t_OrderDate t) \<le> x) (held_postings i l) = []" using ds by (auto simp: filter_empty_conv)
    then have "eod_pos i x l = 0" by (simp add: eod_pos_def)
    moreover have "filter (\<lambda>q. fst q \<le> x) (day_rows l i) = []" unfolding f True by simp
    ultimately show ?thesis by (simp add: pos_at_def)
  next
    case False
    note last = last_upto [OF sorted_sort False]
    have "filter (\<lambda>t. date_of (t_OrderDate t) \<le> last ?f) (held_postings i l) = filter (\<lambda>t. date_of (t_OrderDate t) \<le> x) (held_postings i l)"
      by (intro filter_cong refl) (rule last(2) [OF ds, symmetric])
    then have "eod_pos i (last ?f) l = eod_pos i x l" by (simp add: eod_pos_def)
    then show ?thesis using False unfolding pos_at_def Let_def f by (simp add: last_map)
  qed
qed

lemma ranges_of_distinct:
  assumes "distinct (map idr_InstrumentID gs)"
  shows "g \<in> set gs \<Longrightarrow> ranges_of gs (idr_InstrumentID g) = idr_Ranges g" "i \<notin> idr_InstrumentID ` set gs \<Longrightarrow> ranges_of gs i = []"
proof -
  let ?m = "rev (map (\<lambda>c. (idr_InstrumentID c, idr_Ranges c)) gs)"
  have keys: "map fst ?m = rev (map idr_InstrumentID gs)" by (simp add: rev_map comp_def)
  show "ranges_of gs (idr_InstrumentID g) = idr_Ranges g" if "g \<in> set gs"
  proof -
    have "(idr_InstrumentID g, idr_Ranges g) \<in> set ?m" using that by auto
    moreover have "distinct (map fst ?m)" unfolding keys using assms by simp
    ultimately show ?thesis by (simp add: ranges_of_def map_of_is_SomeI)
  qed
  show "ranges_of gs i = []" if "i \<notin> idr_InstrumentID ` set gs"
  proof -
    have "i \<notin> fst ` set ?m" using that by auto
    then have "map_of ?m i = None" by (simp add: map_of_eq_None_iff)
    then show ?thesis by (simp add: ranges_of_def)
  qed
qed

text \<open>A moment of a day up to today lies in a held range exactly when the net position at its end is not zero.\<close>

lemma HeldRanges_exact:
  shows "distinct (map idr_InstrumentID (HeldRanges True s))" "set (map idr_InstrumentID (HeldRanges True s)) \<subseteq> set (held_instruments (sm_ledger (pc_master s)))"
    and "by_from (ranges_of (HeldRanges True s) i)"
    and "x < CURRENT_DATE (pc_master s) + day_length \<Longrightarrow> x \<in> points (ranges_of (HeldRanges True s) i) \<longleftrightarrow> eod_pos i x (sm_ledger (pc_master s)) \<noteq> 0"
proof -
  let ?l = "sm_ledger (pc_master s)" and ?today = "CURRENT_DATE (pc_master s)"
  let ?h = "\<lparr>hs_result = [], hs_curInst = uuid_Nil, hs_ranges = [], hs_rangeStart = 0, hs_inRange = False\<rparr>"
  have sort_ne: "sort xs \<noteq> []" if "xs \<noteq> []" for xs :: "time list" using that by (metis length_0_conv length_sort)
  have ne: "\<forall>i \<in> set (held_instruments ?l). day_rows ?l i \<noteq> []"
    unfolding day_rows_def map_is_Nil_conv by (intro ballI sort_ne) (simp add: held_instruments_iff(1))
  have fresh: "hs_curInst ?h \<notin> set (held_instruments ?l) \<or> (hs_ranges ?h = [] \<and> \<not> hs_inRange ?h)" by simp
  obtain R where R: "\<forall>i. \<exists>st0. R i = scan_close True ?today (foldl scan_step ([], st0, False) (day_rows ?l i))"
    and eq: "held_final True ?today (foldl (held_step True ?today) ?h (held_rows ?l))
      = held_final True ?today ?h @ map (\<lambda>i. \<lparr>idr_InstrumentID = i, idr_Ranges = R i\<rparr>) (filter (\<lambda>i. R i \<noteq> []) (held_instruments ?l))"
    using held_fold [OF held_instruments_iff(2) ne fresh, of True ?today] unfolding held_rows_by_instrument by blast
  have "held_final True ?today ?h = []" by (simp add: held_final_def held_flush_def held_close_def)
  then have held: "HeldRanges True s = map (\<lambda>i. \<lparr>idr_InstrumentID = i, idr_Ranges = R i\<rparr>) (filter (\<lambda>i. R i \<noteq> []) (held_instruments ?l))"
    using eq by (simp add: HeldRanges_def Let_def held_final_def)
  have ids: "map idr_InstrumentID (HeldRanges True s) = filter (\<lambda>i. R i \<noteq> []) (held_instruments ?l)" unfolding held by (simp add: comp_def)
  show dist: "distinct (map idr_InstrumentID (HeldRanges True s))" unfolding ids using held_instruments_iff(2) by simp
  show "set (map idr_InstrumentID (HeldRanges True s)) \<subseteq> set (held_instruments ?l)" unfolding ids by auto
  have sorted: "sorted_wrt (<) (map fst (day_rows ?l i))" for i
    using sorted_strict by (simp add: day_rows_def comp_def)
  have own: "ranges_of (HeldRanges True s) i = R i"
  proof (cases "i \<in> set (held_instruments ?l) \<and> R i \<noteq> []")
    case True
    then have "\<lparr>idr_InstrumentID = i, idr_Ranges = R i\<rparr> \<in> set (HeldRanges True s)" unfolding held by auto
    from ranges_of_distinct(1) [OF dist this] show ?thesis by simp
  next
    case False
    then have "i \<notin> idr_InstrumentID ` set (HeldRanges True s)" unfolding set_map [symmetric] ids by auto
    then have none: "ranges_of (HeldRanges True s) i = []" using ranges_of_distinct(2) [OF dist] by blast
    have "day_rows ?l i = []" if "i \<notin> set (held_instruments ?l)" using that held_instruments_iff(1) by (simp add: day_rows_def)
    moreover obtain st0 where "R i = scan_close True ?today (foldl scan_step ([], st0, False) (day_rows ?l i))" using R by blast
    ultimately have "R i = []" using False by auto
    then show ?thesis using none by simp
  qed
  obtain st0 where st0: "R i = scan_close True ?today (foldl scan_step ([], st0, False) (day_rows ?l i))" using R by blast
  have now: "?today < ?today + day_length" by (simp add: day_length_def)
  show "by_from (ranges_of (HeldRanges True s) i)" unfolding own st0 by (rule scan_close_points(2) [OF sorted now])
  show "x \<in> points (ranges_of (HeldRanges True s) i) \<longleftrightarrow> eod_pos i x ?l \<noteq> 0" if "x < ?today + day_length"
    unfolding own st0 scan_close_points(1) [OF sorted that] pos_at_day_rows ..
qed

subsection \<open>Gaps\<close>

lemma coverageFilter_known: "\<forall>i \<in> set ids. env_parse_uuid env i = Some i \<Longrightarrow> coverageFilter env ids = Inr ids"
  by (induction ids) (simp_all add: of_option_def sum_then_def)

lemma merged_points: "points (merged_price_coverage i s) = covered i (pc_coverage s)" "by_from (merged_price_coverage i s)"
proof -
  have "points (map span_of cs) = {x. \<exists>c \<in> set cs. cv_From c \<le> x \<and> x < cv_Before c}" for cs
    by (auto simp: points_def covers_def span_of_def)
  then show "points (merged_price_coverage i s) = covered i (pc_coverage s)"
    unfolding merged_price_coverage_def points_MergeRanges covered_def by auto
  show "by_from (merged_price_coverage i s)" unfolding merged_price_coverage_def by (rule by_from_MergeRanges)
qed

lemma PriceCoverage_known:
  assumes "\<forall>i \<in> set ids. env_parse_uuid env i = Some i"
  shows "\<exists>cov. PriceCoverage env ids s = Inr cov \<and> (\<forall>i \<in> set ids. ranges_of cov i = merged_price_coverage i s)"
proof -
  let ?is = "sort (remdups (filter (wanted ids) (map cv_InstrumentID (pc_coverage s))))"
  let ?cov = "map (\<lambda>i. \<lparr>idr_InstrumentID = i, idr_Ranges = merged_price_coverage i s\<rparr>) ?is"
  have ids: "map idr_InstrumentID ?cov = ?is" by (simp add: comp_def)
  have dist: "distinct (map idr_InstrumentID ?cov)" unfolding ids by simp
  have idset: "idr_InstrumentID ` set ?cov = set ?is" by (simp add: image_image)
  have "ranges_of ?cov i = merged_price_coverage i s" if "i \<in> set ids" for i
  proof (cases "i \<in> set ?is")
    case True
    then have "\<lparr>idr_InstrumentID = i, idr_Ranges = merged_price_coverage i s\<rparr> \<in> set ?cov" by auto
    from ranges_of_distinct(1) [OF dist this] show ?thesis by simp
  next
    case False
    then have "i \<notin> cv_InstrumentID ` set (pc_coverage s)" using that by (simp add: wanted_def)
    then have "\<forall>c \<in> set (pc_coverage s). cv_InstrumentID c \<noteq> i" by blast
    then have "filter (\<lambda>c. cv_InstrumentID c = i) (pc_coverage s) = []" by (simp add: filter_empty_conv)
    then have "merged_price_coverage i s = []" by (simp add: merged_price_coverage_def MergeRanges_def)
    moreover have "i \<notin> idr_InstrumentID ` set ?cov" using False unfolding idset .
    then have "ranges_of ?cov i = []" by (rule ranges_of_distinct(2) [OF dist])
    ultimately show ?thesis by simp
  qed
  moreover have "PriceCoverage env ids s = Inr ?cov" by (simp add: PriceCoverage_def coverageFilter_known [OF assms] sum_then_def)
  ultimately show ?thesis by blast
qed

lemma held_ids_known:
  assumes "cache_ok env s" "i \<in> idr_InstrumentID ` set (HeldRanges True s)"
  shows "i \<in> instrument_ids (pc_master s)" "env_parse_uuid env i = Some i"
proof -
  have "held_postings i (sm_ledger (pc_master s)) \<noteq> []" using HeldRanges_exact(2) [of s] assms(2) held_instruments_iff(1) by (auto simp del: set_map simp: set_map [symmetric])
  then obtain t where "t \<in> set (l_txs (sm_ledger (pc_master s)))" "t_InstrumentID t = Some i" by (auto simp: held_postings_def filter_empty_conv)
  then show "i \<in> instrument_ids (pc_master s)" using assms(1) unfolding cache_ok_def by blast
  then show "env_parse_uuid env i = Some i" using assms(1) by (auto simp: cache_ok_def ids_ok_def)
qed

lemma gaps_of_spec:
  assumes "distinct (map idr_InstrumentID needed)"
  shows "distinct (map idr_InstrumentID (gaps_of cov needed))"
    "g \<in> set (gaps_of cov needed) \<longleftrightarrow> (\<exists>h \<in> set needed. idr_InstrumentID g = idr_InstrumentID h \<and> idr_Ranges g = SubtractRanges (idr_Ranges h) (cov (idr_InstrumentID h))
       \<and> idr_Ranges g \<noteq> [])"
proof -
  let ?f = "\<lambda>h. h\<lparr>idr_Ranges := SubtractRanges (idr_Ranges h) (cov (idr_InstrumentID h))\<rparr>"
  have "map idr_InstrumentID (map ?f needed) = map idr_InstrumentID needed" by simp
  then have "distinct (map idr_InstrumentID (map ?f needed))" using assms by metis
  then show "distinct (map idr_InstrumentID (gaps_of cov needed))" unfolding gaps_of_def by (rule distinct_map_filter)
  show "g \<in> set (gaps_of cov needed) \<longleftrightarrow> (\<exists>h \<in> set needed. idr_InstrumentID g = idr_InstrumentID h \<and> idr_Ranges g = SubtractRanges (idr_Ranges h) (cov (idr_InstrumentID h))
       \<and> idr_Ranges g \<noteq> [])"
  proof -
    have "g = ?f h \<longleftrightarrow> idr_InstrumentID g = idr_InstrumentID h \<and> idr_Ranges g = SubtractRanges (idr_Ranges h) (cov (idr_InstrumentID h))" for h :: InstrumentDateRanges
      by (cases g; cases h) auto
    then show ?thesis unfolding gaps_of_def set_filter set_map image_iff mem_Collect_eq by metis
  qed
qed

text \<open>The gaps of a needed list are what it covers that nobody has answered for.\<close>

lemma gaps_points:
  assumes dist: "distinct (map idr_InstrumentID needed)" and sorted: "\<forall>h \<in> set needed. by_from (idr_Ranges h)"
    and cov: "\<forall>i \<in> idr_InstrumentID ` set needed. cov i = merged_price_coverage i s"
  shows "(\<exists>g \<in> set (gaps_of cov needed). idr_InstrumentID g = i \<and> x \<in> points (idr_Ranges g))
    \<longleftrightarrow> x \<in> points (ranges_of needed i) \<and> x \<notin> covered i (pc_coverage s)"
proof (cases "i \<in> idr_InstrumentID ` set needed")
  case True
  then obtain h where h: "h \<in> set needed" "idr_InstrumentID h = i" by auto
  have one: "h' = h" if "h' \<in> set needed" "idr_InstrumentID h' = i" for h' using dist that h by (metis distinct_map inj_onD)
  have pts: "points (SubtractRanges (idr_Ranges h) (cov i)) = points (idr_Ranges h) - covered i (pc_coverage s)"
  proof -
    have "cov i = merged_price_coverage i s" using cov True by blast
    then show ?thesis using points_SubtractRanges [of "idr_Ranges h" "cov i"] sorted h merged_points by simp
  qed
  have "(\<exists>g \<in> set (gaps_of cov needed). idr_InstrumentID g = i \<and> x \<in> points (idr_Ranges g)) \<longleftrightarrow> x \<in> points (SubtractRanges (idr_Ranges h) (cov i))"
  proof
    assume "\<exists>g \<in> set (gaps_of cov needed). idr_InstrumentID g = i \<and> x \<in> points (idr_Ranges g)"
    then obtain g where g: "g \<in> set (gaps_of cov needed)" "idr_InstrumentID g = i" "x \<in> points (idr_Ranges g)" by blast
    obtain h' where h': "h' \<in> set needed" "idr_InstrumentID g = idr_InstrumentID h'" "idr_Ranges g = SubtractRanges (idr_Ranges h') (cov (idr_InstrumentID h'))"
      using g(1) unfolding gaps_of_spec(2) [OF dist] by blast
    then show "x \<in> points (SubtractRanges (idr_Ranges h) (cov i))" using one [OF h'(1)] g(2,3) by simp
  next
    assume x: "x \<in> points (SubtractRanges (idr_Ranges h) (cov i))"
    let ?g = "h\<lparr>idr_Ranges := SubtractRanges (idr_Ranges h) (cov i)\<rparr>"
    have "SubtractRanges (idr_Ranges h) (cov i) \<noteq> []" using x by auto
    then have "?g \<in> set (gaps_of cov needed)" unfolding gaps_of_spec(2) [OF dist] using h by (intro bexI [of _ h]) simp_all
    moreover have "idr_InstrumentID ?g = i" "x \<in> points (idr_Ranges ?g)" using h(2) x by simp_all
    ultimately show "\<exists>g \<in> set (gaps_of cov needed). idr_InstrumentID g = i \<and> x \<in> points (idr_Ranges g)" by blast
  qed
  then show ?thesis using pts ranges_of_distinct(1) [OF dist h(1)] h(2) by simp
next
  case False
  then have "ranges_of needed i = []" by (rule ranges_of_distinct(2) [OF dist])
  moreover have "\<not> (\<exists>g \<in> set (gaps_of cov needed). idr_InstrumentID g = i)"
  proof
    assume "\<exists>g \<in> set (gaps_of cov needed). idr_InstrumentID g = i"
    then obtain g where "g \<in> set (gaps_of cov needed)" "idr_InstrumentID g = i" by blast
    then show False using False unfolding gaps_of_spec(2) [OF dist] by auto
  qed
  ultimately show ?thesis by auto
qed

lemma PriceGaps_spec:
  assumes ok: "cache_ok env s"
  shows "\<exists>gaps. PriceGaps env True s = Inr gaps \<and> distinct (map idr_InstrumentID gaps)
    \<and> set (map idr_InstrumentID gaps) \<subseteq> instrument_ids (pc_master s)
    \<and> (\<forall>i x. x < CURRENT_DATE (pc_master s) + day_length \<longrightarrow>
         (\<exists>g \<in> set gaps. idr_InstrumentID g = i \<and> x \<in> points (idr_Ranges g))
         \<longleftrightarrow> eod_pos i x (sm_ledger (pc_master s)) \<noteq> 0 \<and> x \<notin> covered i (pc_coverage s))"
proof -
  let ?held = "HeldRanges True s"
  note held = HeldRanges_exact [where s = s]
  have known: "\<forall>i \<in> set (map idr_InstrumentID ?held). env_parse_uuid env i = Some i" using held_ids_known(2) [OF ok] by simp
  obtain cov where cov: "PriceCoverage env (map idr_InstrumentID ?held) s = Inr cov" "\<forall>i \<in> set (map idr_InstrumentID ?held). ranges_of cov i = merged_price_coverage i s"
    using PriceCoverage_known [OF known] by blast
  have srt: "\<forall>h \<in> set ?held. by_from (idr_Ranges h)" using held(3) ranges_of_distinct(1) [OF held(1)] by metis
  have gaps: "PriceGaps env True s = Inr (gaps_of (ranges_of cov) ?held)" using cov(1) by (simp add: PriceGaps_def Let_def sum_then_def gaps_of_def)
  have "idr_InstrumentID ` set (gaps_of (ranges_of cov) ?held) \<subseteq> instrument_ids (pc_master s)"
  proof (rule image_subsetI)
    fix g assume "g \<in> set (gaps_of (ranges_of cov) ?held)"
    then obtain h where "h \<in> set ?held" "idr_InstrumentID g = idr_InstrumentID h" unfolding gaps_of_spec(2) [OF held(1)] by blast
    then show "idr_InstrumentID g \<in> instrument_ids (pc_master s)" using held_ids_known(1) [OF ok, of "idr_InstrumentID h"] by (simp add: image_eqI)
  qed
  then have sub: "set (map idr_InstrumentID (gaps_of (ranges_of cov) ?held)) \<subseteq> instrument_ids (pc_master s)" unfolding set_map .
  have pts: "(\<exists>g \<in> set (gaps_of (ranges_of cov) ?held). idr_InstrumentID g = i \<and> x \<in> points (idr_Ranges g))
      \<longleftrightarrow> eod_pos i x (sm_ledger (pc_master s)) \<noteq> 0 \<and> x \<notin> covered i (pc_coverage s)"
    if "x < CURRENT_DATE (pc_master s) + day_length" for i x
    unfolding gaps_points [OF held(1) srt cov(2) [unfolded set_map]] held(4) [OF that] ..
  show ?thesis
  proof (intro exI conjI allI impI)
    show "PriceGaps env True s = Inr (gaps_of (ranges_of cov) ?held)" by (rule gaps)
  qed (use gaps_of_spec(1) [OF held(1)] sub pts in blast)+
qed

end
