(* ===== verification/Price_Cycle.thy ===== *)
theory Price_Cycle
  imports Price_Gaps
begin

text \<open>
  What a cycle of the price fetcher keeps and what it settles: the cache stays well formed whatever the
  plugins answer within the days asked for, and a range a plugin has answered is covered afterwards.
\<close>

subsection \<open>Ranges of whole days\<close>

definition on_days :: "DateRange list \<Rightarrow> bool" where
  "on_days rs \<longleftrightarrow> (\<forall>r \<in> set rs. date_of (dr_From r) = dr_From r \<and> date_of (dr_Before r) = dr_Before r)"

lemma on_days_simps [simp]:
  "on_days []" "on_days (r # rs) \<longleftrightarrow> date_of (dr_From r) = dr_From r \<and> date_of (dr_Before r) = dr_Before r \<and> on_days rs"
  "on_days (rs @ rs') \<longleftrightarrow> on_days rs \<and> on_days rs'"
  by (auto simp: on_days_def)

lemma on_days_subset: "on_days rs \<Longrightarrow> set rs' \<subseteq> set rs \<Longrightarrow> on_days rs'"
  by (auto simp: on_days_def)

lemma date_of_shift: "date_of (t - k * day_length) = date_of t - k * day_length"
  using div_mult_self1 [of day_length t "- k"] by (simp add: date_of_def utc_day_def day_length_def algebra_simps)

lemma CURRENT_DATE_midnight: "date_of (CURRENT_DATE m) = CURRENT_DATE m"
  by (simp add: CURRENT_DATE_def date_of_midnight)

lemma on_days_SubtractRanges:
  assumes "on_days ns" "on_days cs"
  shows "on_days (SubtractRanges ns cs)"
proof -
  have inner: "on_days (subtract_inner cur n cs)" if "date_of cur = cur" "date_of (dr_Before n) = dr_Before n" "on_days cs" for cur n cs
    using that by (induction cs arbitrary: cur) simp_all
  have "on_days (subtract_loop ns cs)" if "on_days ns" "on_days cs" for ns cs
    using that
  proof (induction ns arbitrary: cs)
    case (Cons n ns)
    have "on_days (dropWhile P cs)" for P using Cons.prems(2) by (rule on_days_subset) (rule set_dropWhileD [THEN subsetI])
    then show ?case using Cons by (simp add: Let_def inner)
  qed simp
  then show ?thesis using assms by (simp add: SubtractRanges_def)
qed

lemma on_days_MergeRanges:
  assumes "on_days rs"
  shows "on_days (MergeRanges rs)"
proof -
  have loop: "on_days (merge_loop r rs)" if "on_days (r # rs)" for r rs
    using that by (induction rs arbitrary: r) simp_all
  show ?thesis
  proof (cases rs rule: MergeRanges_cases)
    case (merged q qs)
    then have "set (q # qs) = set rs" by (metis set_go_sort)
    then have "on_days (q # qs)" using assms on_days_subset by blast
    then show ?thesis unfolding merged(2) by (rule loop)
  qed (use assms in simp)
qed

text \<open>Subtracting loses no moment that the subtracted ranges do not cover.\<close>

lemma SubtractRanges_keeps: "points ns \<subseteq> points (SubtractRanges ns cs) \<union> points cs"
proof -
  have inner: "{cur ..< dr_Before n} \<subseteq> points (subtract_inner cur n cs) \<union> points cs" for cur n cs
  proof (induction cs arbitrary: cur)
    case (Cons c cs)
    let ?cur = "if dr_Before c > cur then dr_Before c else cur"
    have "x \<in> points (subtract_inner cur n (c # cs)) \<union> points (c # cs)" if x: "cur \<le> x" "x < dr_Before n" for x
    proof (cases "?cur \<le> x")
      case True
      then have "x \<in> points (subtract_inner ?cur n cs) \<union> points cs" using Cons.IH [of ?cur] x(2) by auto
      then show ?thesis using x by (auto simp: covers_def)
    next
      case False
      then show ?thesis using x by (auto simp: covers_def split: if_splits)
    qed
    then show ?case by (intro subsetI) (simp only: atLeastLessThan_iff)
  qed (simp add: covers_def)
  have "points ns \<subseteq> points (subtract_loop ns cs) \<union> points cs" for ns cs
  proof (induction ns arbitrary: cs)
    case (Cons n ns)
    let ?cs = "dropWhile (\<lambda>c. \<not> dr_Before c > dr_From n) cs"
    have "points ?cs \<subseteq> points cs" unfolding points_def by (rule UN_mono) (auto dest: set_dropWhileD)
    moreover have "covers n \<subseteq> points (subtract_inner (dr_From n) n ?cs) \<union> points ?cs" unfolding covers_def by (rule inner)
    moreover have "points ns \<subseteq> points (subtract_loop ns ?cs) \<union> points ?cs" by (rule Cons.IH)
    ultimately show ?case by (auto simp: Let_def)
  qed simp
  then show ?thesis by (simp add: SubtractRanges_def)
qed

lemma on_days_held: "h \<in> set (HeldRanges toToday s) \<Longrightarrow> on_days (idr_Ranges h)"
proof -
  let ?today = "CURRENT_DATE (pc_master s)" and ?l = "sm_ledger (pc_master s)"
  let ?ok = "\<lambda>h. (\<forall>g \<in> set (hs_result h). on_days (idr_Ranges g)) \<and> on_days (hs_ranges h) \<and> date_of (hs_rangeStart h) = hs_rangeStart h"
  have flush: "?ok (held_flush h)" if "?ok h" for h using that by (auto simp: held_flush_def)
  have close: "?ok (held_close toToday ?today h)" if "?ok h" for h
    using that by (auto simp: held_close_def date_of_next CURRENT_DATE_midnight)
  have step: "?ok (held_step toToday ?today h (i, d, p))" if "?ok h" "date_of d = d" for h i d p
    using that flush [OF close [OF that(1)]] by (simp add: held_step_def Let_def)
  have scan: "?ok (foldl (held_step toToday ?today) h rows)" if "?ok h" "\<forall>(i, d, p) \<in> set rows. date_of d = d" for h rows
    using that
  proof (induction rows arbitrary: h)
    case (Cons x rows)
    obtain i d p where x: "x = (i, d, p)" by (cases x)
    have "?ok (held_step toToday ?today h x)" unfolding x by (rule step) (use Cons.prems x in simp_all)
    from Cons.IH [OF this] show ?case using Cons.prems(2) by simp
  qed simp
  have rows: "\<forall>(i, d, p) \<in> set (held_rows ?l). date_of d = d" by (auto simp: held_rows_def date_of_midnight)
  have "?ok (foldl (held_step toToday ?today) \<lparr>hs_result = [], hs_curInst = uuid_Nil, hs_ranges = [], hs_rangeStart = 0, hs_inRange = False\<rparr> (held_rows ?l))"
    by (rule scan [OF _ rows]) (simp add: date_of_def utc_day_def)
  from flush [OF close [OF this]] show "h \<in> set (HeldRanges toToday s) \<Longrightarrow> on_days (idr_Ranges h)"
    unfolding HeldRanges_def Let_def by blast
qed

lemma on_days_coverage:
  assumes "spans_ok (pc_coverage s)"
  shows "on_days (merged_price_coverage i s)" "on_days (map span_of (sort_key cv_From (filter P (pc_coverage s))))"
proof -
  have "on_days (map span_of cs)" if "set cs \<subseteq> set (pc_coverage s)" for cs
    using assms that by (fastforce simp: on_days_def spans_ok_def span_of_def)
  then show "on_days (merged_price_coverage i s)" "on_days (map span_of (sort_key cv_From (filter P (pc_coverage s))))"
    unfolding merged_price_coverage_def by (auto intro!: on_days_MergeRanges)
qed

lemma covered_mono: "cache_grows s s' \<Longrightarrow> covered i (pc_coverage s) \<subseteq> covered i (pc_coverage s')"
  unfolding covered_any cache_grows_def by blast

lemma covered_by_covered: "covered_by i p cs \<subseteq> covered i cs"
  unfolding covered_any by blast

subsection \<open>One plugin\<close>

text \<open>A plugin that keeps to the question: its bars lie on days of the range it was asked for.\<close>

definition answers_within :: "Plugin \<Rightarrow> bool" where
  "answers_within p \<longleftrightarrow> (\<forall>n cfg ids ac f b r. pl_FetchPrices p n cfg ids ac f b = Inr r \<longrightarrow>
     (\<forall>bar \<in> set (fr_Bars r). date_of f \<le> date_of (bar_Date bar) \<and> date_of (bar_Date bar) < date_of b))"

text \<open>An instrument whose identifier is stored, as a gap names it.\<close>

definition fetchable :: "Env \<Rightarrow> string \<Rightarrow> fetch_state \<Rightarrow> bool" where
  "fetchable env i st \<longleftrightarrow> cache_ok env (fs_cache st) \<and> i \<in> instrument_ids (pc_master (fs_cache st))"

definition carries_on :: "nat \<Rightarrow> fetch_state \<Rightarrow> fetch_state \<Rightarrow> bool" where
  "carries_on i st st' \<longleftrightarrow> cache_grows (fs_cache st) (fs_cache st') \<and> fs_ends st' = fs_ends st \<and> fs_gaps st' = fs_gaps st
     \<and> (\<exists>cs. fs_calls st' = fs_calls st @ cs \<and> (\<forall>c \<in> set cs. ca_Gap c = i))"

lemma carries_on_refl: "carries_on i st st"
  by (simp add: carries_on_def cache_grows_refl)

lemma carries_on_trans: "carries_on i st st1 \<Longrightarrow> carries_on i st1 st2 \<Longrightarrow> carries_on i st st2"
  unfolding carries_on_def by (auto intro: cache_grows_trans)

lemma carries_on_called: "carries_on i st st' \<Longrightarrow> gapsTel_called k st \<Longrightarrow> gapsTel_called k st'"
  by (auto simp: carries_on_def gapsTel_called_def)

lemma carries_on_covered: "carries_on i st st' \<Longrightarrow> covered k (pc_coverage (fs_cache st)) \<subseteq> covered k (pc_coverage (fs_cache st'))"
  unfolding carries_on_def using covered_mono by blast

lemma carries_on_call: "carries_on i st st' \<Longrightarrow> ca_Gap c = i \<Longrightarrow> carries_on i st (gapsTel_call c st')"
  by (auto simp: carries_on_def gapsTel_call_def)

lemma known_call: "fetchable env k (gapsTel_call c st) \<longleftrightarrow> fetchable env k st" "fs_cache (gapsTel_call c st) = fs_cache st"
  by (simp_all add: fetchable_def gapsTel_call_def)

lemma known_parse: "fetchable env i st \<Longrightarrow> env_parse_uuid env i = Some i"
  unfolding fetchable_def cache_ok_def ids_ok_def by blast

lemma ca_Gap_priceCall [simp]: "ca_Gap (priceCall i pe r n out) = i"
  by (simp add: priceCall_def)

text \<open>What a write of a range does, and the failure where the range is empty.\<close>

lemma UpsertPricesForRange_known:
  assumes k: "fetchable env inst st" and on: "on_days [r]" and bars_in: "bars_within (dr_From r) (dr_Before r) bars"
    and run: "UpsertPricesForRange env inst plugin bars (dr_From r) (dr_Before r) at' (fs_cache st) = Inr c"
  shows "fetchable env inst (st\<lparr>fs_cache := c\<rparr>)" "cache_grows (fs_cache st) c" "covers r \<subseteq> covered inst (pc_coverage c)"
proof -
  have "dr_From r < dr_Before r" using run by (auto simp: UpsertPricesForRange_def sum_then_Inr upsertCoverageSpan_Inr)
  then have days: "date_of (dr_From r) < date_of (dr_Before r)" using on by simp
  note w = UpsertPricesForRange_keeps [OF run _ days known_parse [OF k] bars_in]
  have ok: "cache_ok env (fs_cache st)" using k by (simp add: fetchable_def)
  show "cache_grows (fs_cache st) c" by (rule w(2) [OF ok])
  from cache_grows_master [OF this] show "fetchable env inst (st\<lparr>fs_cache := c\<rparr>)" using k w(1) [OF ok] by (simp add: fetchable_def)
  have "covers r = {date_of (dr_From r) ..< date_of (dr_Before r)}" using on by (simp add: covers_def)
  then show "covers r \<subseteq> covered inst (pc_coverage c)" using w(3) [OF ok] covered_by_covered by blast
qed

lemma coverRange_covers:
  assumes k: "fetchable env inst st" and on: "on_days [r]"
  shows "fetchable env inst (coverRange env inst plugin r st)" "carries_on i st (coverRange env inst plugin r st)"
    "covers r \<subseteq> covered inst (pc_coverage (fs_cache (coverRange env inst plugin r st)))"
proof -
  let ?st = "coverRange env inst plugin r st"
  have "fetchable env inst ?st \<and> carries_on i st ?st \<and> covers r \<subseteq> covered inst (pc_coverage (fs_cache ?st))"
  proof (cases "dr_From r < dr_Before r")
    case True
    have "\<exists>c. UpsertPricesForRange env inst plugin [] (dr_From r) (dr_Before r) None (fs_cache st) = Inr c"
      by (rule UpsertPricesForRange_commits [OF _ _ known_parse [OF k]]) (use k on True in \<open>simp_all add: fetchable_def\<close>)
    then obtain c where c: "UpsertPricesForRange env inst plugin [] (dr_From r) (dr_Before r) None (fs_cache st) = Inr c" ..
    note w = UpsertPricesForRange_known [OF k on _ c]
    have st: "?st = st\<lparr>fs_cache := c\<rparr>" using True c by (simp add: coverRange_def with_cache_def)
    show ?thesis unfolding st using w by (simp add: bars_within_def carries_on_def)
  next
    case False
    then show ?thesis using k by (simp add: coverRange_def carries_on_refl covers_def)
  qed
  then show "fetchable env inst ?st" "carries_on i st ?st" "covers r \<subseteq> covered inst (pc_coverage (fs_cache ?st))" by simp_all
qed

lemma history_split_parts:
  assumes "history_split pe today rg = (headR, tailR)" "on_days [rg]" "date_of today = today"
  shows "covers rg \<subseteq> (case headR of None \<Rightarrow> {} | Some r \<Rightarrow> covers r) \<union> (case tailR of None \<Rightarrow> {} | Some r \<Rightarrow> covers r)"
    "\<forall>r. headR = Some r \<longrightarrow> on_days [r]" "\<forall>r. tailR = Some r \<longrightarrow> on_days [r]" "headR = None \<Longrightarrow> tailR \<noteq> None"
  using assms by (auto simp: history_split_def Let_def covers_def date_of_shift split: option.splits if_splits)

lemma CreatePriceFetchBlock_keeps:
  assumes "fetchable env inst st" "CreatePriceFetchBlock env k plugin reason (fs_cache st) = Inr c"
  shows "fetchable env inst (st\<lparr>fs_cache := c\<rparr>)" "cache_grows (fs_cache st) c"
proof -
  obtain bs where c: "c = fs_cache st\<lparr>pc_blocks := bs\<rparr>" using assms(2) by (auto simp: CreatePriceFetchBlock_def sum_then_Inr Let_def split: if_splits)
  show "fetchable env inst (st\<lparr>fs_cache := c\<rparr>)" using assms(1) unfolding c by (simp add: fetchable_def cache_ok_def ids_ok_def prices_ok_def)
  show "cache_grows (fs_cache st) c" unfolding c by (simp add: cache_grows_def)
qed

lemma bars_of_answer:
  assumes "answers_within (pe_plugin pe)" "pl_FetchPrices (pe_plugin pe) n cfg ids ac f b = Inr r"
  shows "bars_within f b (barsToEODPrices i p (fr_Bars r) basis at')"
  using assms unfolding answers_within_def bars_within_def barsToEODPrices_def list_all_iff by fastforce

lemma ask_plugin_settles:
  assumes k: "fetchable env inst st" and on: "on_days [rg]" and within: "answers_within (pe_plugin pe)"
    and run: "ask_plugin env i inst pe ids ac rg st = (st', res)"
  shows "fetchable env inst st'" "carries_on i st st'" "gapsTel_called i st'" "res \<noteq> None \<Longrightarrow> covers rg \<subseteq> covered inst (pc_coverage (fs_cache st'))"
proof -
  define s1 where "s1 = st\<lparr>fs_asked := fs_asked st + 1\<rparr>"
  have k1: "fetchable env inst s1" using k by (simp add: s1_def fetchable_def)
  have c1: "carries_on i st s1" by (simp add: s1_def carries_on_def cache_grows_refl)
  let ?good = "\<lambda>st2 res. fetchable env inst st2 \<and> carries_on i s1 st2 \<and> (res \<noteq> None \<longrightarrow> covers rg \<subseteq> covered inst (pc_coverage (fs_cache st2)))"
  have asked: "\<exists>st2 n out. st' = gapsTel_call (priceCall i pe rg n out) st2 \<and> ?good st2 res"
    if "?good st2 res2" "(st', res) = (gapsTel_call (priceCall i pe rg n out) st2, res2)" for st2 n out res2 using that by auto
  have "\<exists>st2 n out. st' = gapsTel_call (priceCall i pe rg n out) st2 \<and> ?good st2 res"
  proof (cases "pl_FetchPrices (pe_plugin pe) (fs_asked st) (pe_config pe) ids ac (dr_From rg) (dr_Before rg)")
    case (Inl e)
    show ?thesis
    proof (cases e)
      case (ErrPermanent reason)
      let ?st2 = "with_cache (CreatePriceFetchBlock env inst (pe_id pe) reason (fs_cache s1)) s1"
      have "?good ?st2 None"
        using CreatePriceFetchBlock_keeps [OF k1, of inst "pe_id pe" reason] k1
        by (auto simp: with_cache_def carries_on_refl carries_on_def cache_grows_refl split: sum.splits)
      moreover have "(st', res) = (gapsTel_call (priceCall i pe rg 0 CallPermanentBlock) ?st2, None)"
        using run by (simp add: ask_plugin_def Inl ErrPermanent s1_def)
      ultimately show ?thesis by (rule asked)
    next
      case ErrNoData
      have "?good (coverRange env inst (pe_id pe) rg s1) (Some 0)" using coverRange_covers [OF k1 on] by simp
      moreover have "(st', res) = (gapsTel_call (priceCall i pe rg 0 CallNoData) (coverRange env inst (pe_id pe) rg s1), Some 0)"
        using run by (simp add: ask_plugin_def Inl ErrNoData s1_def)
      ultimately show ?thesis by (rule asked)
    next
      case ErrDeadlineExceeded
      have "(st', res) = (gapsTel_call (priceCall i pe rg 0 CallTimeout) s1, None)" using run by (simp add: ask_plugin_def Inl ErrDeadlineExceeded s1_def)
      then show ?thesis by (rule asked [rotated]) (simp add: k1 carries_on_refl)
    next
      case (ErrOther m)
      have "(st', res) = (gapsTel_call (priceCall i pe rg 0 CallError) s1, None)" using run by (simp add: ask_plugin_def Inl ErrOther s1_def)
      then show ?thesis by (rule asked [rotated]) (simp add: k1 carries_on_refl)
    qed
  next
    case (Inr r)
    let ?bars = "barsToEODPrices inst (pe_id pe) (fr_Bars r) (fr_ShareCountBasis r) (sm_now (pc_master (fs_cache s1)))"
    show ?thesis
    proof (cases "UpsertPricesForRange env inst (pe_id pe) ?bars (dr_From rg) (dr_Before rg) None (fs_cache s1)")
      case (Inl e)
      have "(st', res) = (gapsTel_call (priceCall i pe rg 0 CallUpsertFailed) s1, None)" using run Inl by (simp add: ask_plugin_def Inr s1_def)
      then show ?thesis by (rule asked [rotated]) (simp add: k1 carries_on_refl)
    next
      case up: (Inr c)
      have "?good (s1\<lparr>fs_cache := c\<rparr>) (Some (length (fr_Bars r)))"
        using UpsertPricesForRange_known [OF k1 on bars_of_answer [OF within Inr] up] by (simp add: carries_on_def)
      moreover have "(st', res) = (gapsTel_call (priceCall i pe rg (length (fr_Bars r)) CallBarsReturned) (s1\<lparr>fs_cache := c\<rparr>), Some (length (fr_Bars r)))"
        using run up by (simp add: ask_plugin_def Inr s1_def)
      ultimately show ?thesis by (rule asked)
    qed
  qed
  then obtain st2 n out where st': "st' = gapsTel_call (priceCall i pe rg n out) st2" and g: "?good st2 res" by blast
  show "fetchable env inst st'" unfolding st' known_call using g by simp
  have "carries_on i s1 st'" unfolding st' by (rule carries_on_call) (use g in simp_all)
  then show "carries_on i st st'" by (rule carries_on_trans [OF c1])
  show "gapsTel_called i st'" unfolding st' by (simp add: gapsTel_called_def gapsTel_call_def)
  show "res \<noteq> None \<Longrightarrow> covers rg \<subseteq> covered inst (pc_coverage (fs_cache st'))" unfolding st' known_call using g by simp
qed

lemma settle_head_settles:
  assumes k: "fetchable env inst st" and on: "\<forall>r. headR = Some r \<longrightarrow> on_days [r]"
  shows "fetchable env inst (settle_head env i inst pe headR st)" "carries_on i st (settle_head env i inst pe headR st)"
    "headR = Some r \<Longrightarrow> covers r \<subseteq> covered inst (pc_coverage (fs_cache (settle_head env i inst pe headR st)))"
    "headR \<noteq> None \<Longrightarrow> gapsTel_called i (settle_head env i inst pe headR st)"
proof -
  have "fetchable env inst (settle_head env i inst pe headR st) \<and> carries_on i st (settle_head env i inst pe headR st)
    \<and> (\<forall>r. headR = Some r \<longrightarrow> covers r \<subseteq> covered inst (pc_coverage (fs_cache (settle_head env i inst pe headR st))))
    \<and> (headR \<noteq> None \<longrightarrow> gapsTel_called i (settle_head env i inst pe headR st))"
  proof (cases headR)
    case (Some r)
    have r: "on_days [r]" using on Some by blast
    note cr = coverRange_covers [OF k r, where plugin = "pe_id pe"]
    show ?thesis using cr carries_on_call [OF cr(2) [where i = i]] unfolding Some settle_head_def
      by (simp add: known_call) (simp add: gapsTel_called_def gapsTel_call_def)
  qed (use k in \<open>simp add: settle_head_def carries_on_refl\<close>)
  then show "fetchable env inst (settle_head env i inst pe headR st)" "carries_on i st (settle_head env i inst pe headR st)"
    "headR = Some r \<Longrightarrow> covers r \<subseteq> covered inst (pc_coverage (fs_cache (settle_head env i inst pe headR st)))"
    "headR \<noteq> None \<Longrightarrow> gapsTel_called i (settle_head env i inst pe headR st)" by simp_all
qed

lemma fetch_ranges_settles:
  assumes "fetchable env inst st" "on_days gaps" "answers_within (pe_plugin pe)" "fetch_ranges env i inst pe ids ac bars gaps st = (st', bars', ok)"
  shows "fetchable env inst st' \<and> carries_on i st st' \<and> (ok \<longrightarrow> points gaps \<subseteq> covered inst (pc_coverage (fs_cache st'))) \<and> (gaps \<noteq> [] \<longrightarrow> gapsTel_called i st')"
  using assms
proof (induction gaps arbitrary: bars st)
  case Nil
  then show ?case by (simp add: carries_on_refl)
next
  case (Cons rg gaps)
  let ?today = "CURRENT_DATE (pc_master (fs_cache st))"
  obtain headR tailR where hs: "history_split pe ?today rg = (headR, tailR)" by force
  have on: "on_days [rg]" "on_days gaps" using Cons.prems(2) by simp_all
  note parts = history_split_parts [OF hs on(1) CURRENT_DATE_midnight]
  define s1 where "s1 = settle_head env i inst pe headR st"
  note h = settle_head_settles [OF Cons.prems(1) parts(2), where i = i and pe = pe, folded s1_def]
  let ?cov = "\<lambda>s. covered inst (pc_coverage (fs_cache s))"
  have head_in: "(case headR of None \<Rightarrow> {} | Some r \<Rightarrow> covers r) \<subseteq> ?cov s1" using h(3) by (cases headR) simp_all
  have rest: "fetchable env inst st' \<and> carries_on i st st' \<and> (ok \<longrightarrow> points (rg # gaps) \<subseteq> ?cov st') \<and> (rg # gaps \<noteq> [] \<longrightarrow> gapsTel_called i st')"
    if s2: "fetchable env inst s2" "carries_on i s1 s2" "gapsTel_called i s2" "(case tailR of None \<Rightarrow> {} | Some r \<Rightarrow> covers r) \<subseteq> ?cov s2"
      and run: "fetch_ranges env i inst pe ids ac b2 gaps s2 = (st', bars', ok)" for s2 b2
  proof -
    note IH = Cons.IH [OF s2(1) on(2) Cons.prems(3) run]
    have c: "carries_on i s2 st'" using IH by blast
    have "covers rg \<subseteq> ?cov st'"
      using parts(1) head_in s2(4) carries_on_covered [OF s2(2), of inst] carries_on_covered [OF c, of inst] by blast
    then show ?thesis using IH carries_on_trans [OF carries_on_trans [OF h(2) s2(2)] c] carries_on_called [OF c s2(3)] by simp
  qed
  show ?case
  proof (cases tailR)
    case None
    then have "gapsTel_called i s1" using parts(4) h(4) by blast
    moreover have "fetch_ranges env i inst pe ids ac bars gaps s1 = (st', bars', ok)" using Cons.prems(4) None by (simp add: hs s1_def)
    ultimately show ?thesis using rest [of s1 bars] h(1) carries_on_refl None by simp
  next
    case (Some r)
    obtain s2 res where ask: "ask_plugin env i inst pe ids ac r s1 = (s2, res)" by force
    have r: "on_days [r]" using parts(3) Some by blast
    note a = ask_plugin_settles [OF h(1) r Cons.prems(3) ask]
    show ?thesis
    proof (cases res)
      case None
      then have "st' = s2" "\<not> ok" using Cons.prems(4) Some ask by (simp_all add: hs s1_def)
      then show ?thesis using a carries_on_trans [OF h(2) a(2)] by simp
    next
      case (Some n)
      then have run: "fetch_ranges env i inst pe ids ac (bars + n) gaps s2 = (st', bars', ok)" using Cons.prems(4) \<open>tailR = Some r\<close> ask by (simp add: hs s1_def)
      show ?thesis by (rule rest [OF a(1-3) _ run]) (use a(4) Some \<open>tailR = Some r\<close> in simp)
    qed
  qed
qed

subsection \<open>The plugins in turn\<close>

text \<open>What the cycle knows of the plugins' own coverage: ranges of whole days that are covered.\<close>

definition knows_coverage :: "(string \<Rightarrow> string \<Rightarrow> DateRange list) \<Rightarrow> Cache \<Rightarrow> bool" where
  "knows_coverage coverage s \<longleftrightarrow> (\<forall>i p. on_days (coverage i p) \<and> points (coverage i p) \<subseteq> covered i (pc_coverage s))"

lemma knows_coverage_mono: "knows_coverage coverage s \<Longrightarrow> cache_grows s s' \<Longrightarrow> knows_coverage coverage s'"
  unfolding knows_coverage_def using covered_mono by blast

lemma try_plugins_settles:
  assumes "fetchable env (idr_InstrumentID ig) st" "on_days (idr_Ranges ig)" "\<forall>pe \<in> set pes. answers_within (pe_plugin pe)"
    and "knows_coverage coverage (fs_cache st)"
    and "reached \<Longrightarrow> points (idr_Ranges ig) \<subseteq> covered (idr_InstrumentID ig) (pc_coverage (fs_cache st)) \<or> gapsTel_called i st"
    and "try_plugins env i ig inst blocked coverage pes reached bars st = (st', fetched, bars', reached')"
  shows "fetchable env (idr_InstrumentID ig) st' \<and> carries_on i st st'
    \<and> (fetched \<longrightarrow> points (idr_Ranges ig) \<subseteq> covered (idr_InstrumentID ig) (pc_coverage (fs_cache st')))
    \<and> (reached' \<longrightarrow> points (idr_Ranges ig) \<subseteq> covered (idr_InstrumentID ig) (pc_coverage (fs_cache st')) \<or> gapsTel_called i st')"
  using assms
proof (induction pes arbitrary: reached bars st)
  case Nil
  then show ?case by (auto simp: carries_on_refl)
next
  case (Cons pe pes)
  let ?i = "idr_InstrumentID ig"
  let ?out = "SubtractRanges (idr_Ranges ig) (coverage ?i (pe_id pe))"
  let ?cov = "\<lambda>s. covered ?i (pc_coverage (fs_cache s))"
  have w: "answers_within (pe_plugin pe)" "\<forall>pe \<in> set pes. answers_within (pe_plugin pe)" using Cons.prems(3) by simp_all
  have own: "on_days (coverage ?i (pe_id pe))" "points (coverage ?i (pe_id pe)) \<subseteq> ?cov st" using Cons.prems(4) by (simp_all add: knows_coverage_def)
  have all: "points (idr_Ranges ig) \<subseteq> points ?out \<union> ?cov st" using SubtractRanges_keeps [of "idr_Ranges ig" "coverage ?i (pe_id pe)"] own(2) by blast
  show ?case
  proof (cases "eligible blocked ?i inst pe")
    case False
    then have run: "try_plugins env i ig inst blocked coverage pes reached bars st = (st', fetched, bars', reached')" using Cons.prems(6) by simp
    show ?thesis by (rule Cons.IH [OF Cons.prems(1,2) w(2) Cons.prems(4,5) run])
  next
    case el: True
    show ?thesis
    proof (cases "?out = []")
      case True
      then have "points (idr_Ranges ig) \<subseteq> ?cov st" using all by simp
      moreover have "try_plugins env i ig inst blocked coverage pes True bars st = (st', fetched, bars', reached')" using Cons.prems(6) el True by simp
      ultimately show ?thesis using Cons.IH [OF Cons.prems(1,2) w(2) Cons.prems(4), of True] by blast
    next
      case False
      obtain s1 b1 ok where f: "fetch_ranges env i ?i pe (ToIdentifiers (offered_ids pe inst)) (or_blank (in_AssetClass (ir_Instrument inst))) bars ?out st = (s1, b1, ok)"
        by (metis prod_cases3)
      note r = fetch_ranges_settles [OF Cons.prems(1) on_days_SubtractRanges [OF Cons.prems(2) own(1)] w(1) f]
      then have s1: "fetchable env ?i s1" "carries_on i st s1" "gapsTel_called i s1" "ok \<longrightarrow> points ?out \<subseteq> ?cov s1" using False by blast+
      show ?thesis
      proof (cases ok)
        case True
        then have "st' = s1" "fetched" using Cons.prems(6) el False f by auto
        moreover have "points (idr_Ranges ig) \<subseteq> ?cov s1" using all s1(4) True carries_on_covered [OF s1(2), of ?i] by blast
        ultimately show ?thesis using s1 by simp
      next
        case no: False
        then have run: "try_plugins env i ig inst blocked coverage pes True b1 s1 = (st', fetched, bars', reached')" using Cons.prems(6) el False f by simp
        have "knows_coverage coverage (fs_cache s1)" using Cons.prems(4) s1(2) knows_coverage_mono unfolding carries_on_def by blast
        from Cons.IH [OF s1(1) Cons.prems(2) w(2) this _ run] show ?thesis using s1(3) carries_on_trans [OF s1(2)] by blast
      qed
    qed
  qed
qed

subsection \<open>The cycle\<close>

definition gap_settled :: "GapOutcome \<Rightarrow> bool" where
  "gap_settled out \<longleftrightarrow> out = GapFilled \<or> out = GapSettledEmpty"

lemma gap_settled_gapOutcome: "gap_settled (gapOutcome fetched bars reached called) \<longleftrightarrow> fetched \<or> (reached \<and> \<not> called)"
  by (simp add: gap_settled_def gapOutcome_def)

lemma process_gap_settles:
  assumes ok: "cache_ok env (fs_cache st)" and on: "on_days (idr_Ranges ig)" and w: "\<forall>pe \<in> set plugins. answers_within (pe_plugin pe)"
    and cov: "knows_coverage coverage (fs_cache st)"
    and insts: "\<forall>k. instByID k \<noteq> None \<longrightarrow> k \<in> instrument_ids (pc_master (fs_cache st))"
    and st'_def: "st' = process_gap env plugins instByID blocked coverage i ig st"
  shows "cache_ok env (fs_cache st')" "cache_grows (fs_cache st) (fs_cache st')"
    "\<exists>out. fs_ends st' = fs_ends st @ [(i, out)] \<and> (gap_settled out \<longrightarrow> points (idr_Ranges ig) \<subseteq> covered (idr_InstrumentID ig) (pc_coverage (fs_cache st')))"
proof -
  have "cache_ok env (fs_cache st') \<and> cache_grows (fs_cache st) (fs_cache st')
    \<and> (\<exists>out. fs_ends st' = fs_ends st @ [(i, out)] \<and> (gap_settled out \<longrightarrow> points (idr_Ranges ig) \<subseteq> covered (idr_InstrumentID ig) (pc_coverage (fs_cache st'))))"
  proof (cases "instByID (idr_InstrumentID ig)")
    case None
    then have "st' = gapsTel_end i GapInstrumentMissing st" by (simp add: st'_def process_gap_def)
    then show ?thesis using ok by (simp add: gapsTel_end_def cache_grows_refl gap_settled_def)
  next
    case (Some r)
    obtain s1 fetched bars reached where t: "try_plugins env i ig r blocked coverage plugins False 0 st = (s1, fetched, bars, reached)" by (metis prod_cases4)
    have k: "fetchable env (idr_InstrumentID ig) st" using ok insts Some by (simp add: fetchable_def del: not_None_eq)
    note p = try_plugins_settles [OF k on w cov _ t]
    have st': "st' = gapsTel_end i (gapOutcome fetched bars reached (gapsTel_called i s1)) s1" by (simp add: st'_def process_gap_def Some t)
    have cache: "fs_cache st' = fs_cache s1" "fs_ends st' = fs_ends s1 @ [(i, gapOutcome fetched bars reached (gapsTel_called i s1))]" by (simp_all add: st' gapsTel_end_def)
    show ?thesis unfolding cache using p by (auto simp: fetchable_def carries_on_def gap_settled_gapOutcome)
  qed
  then show "cache_ok env (fs_cache st')" "cache_grows (fs_cache st) (fs_cache st')"
    "\<exists>out. fs_ends st' = fs_ends st @ [(i, out)] \<and> (gap_settled out \<longrightarrow> points (idr_Ranges ig) \<subseteq> covered (idr_InstrumentID ig) (pc_coverage (fs_cache st')))" by simp_all
qed

lemma processGaps_settles:
  assumes "cache_ok env (fs_cache st)" "\<forall>ig \<in> set igs. on_days (idr_Ranges ig)" "\<forall>pe \<in> set plugins. answers_within (pe_plugin pe)"
    and "knows_coverage coverage (fs_cache st)"
    and "\<forall>k. instByID k \<noteq> None \<longrightarrow> k \<in> instrument_ids (pc_master (fs_cache st))"
    and "processGaps env cancelled plugins instByID blocked coverage i igs st = (st', e)"
  shows "cache_ok env (fs_cache st') \<and> cache_grows (fs_cache st) (fs_cache st')
    \<and> (\<exists>ends. fs_ends st' = fs_ends st @ ends \<and> (\<forall>(k, out) \<in> set ends. i \<le> k \<and> k < i + length igs
         \<and> (gap_settled out \<longrightarrow> points (idr_Ranges (igs ! (k - i))) \<subseteq> covered (idr_InstrumentID (igs ! (k - i))) (pc_coverage (fs_cache st')))))"
  using assms
proof (induction igs arbitrary: i st)
  case Nil
  then show ?case by (simp add: cache_grows_refl)
next
  case (Cons ig igs)
  show ?case
  proof (cases "cancelled i")
    case True
    then show ?thesis using Cons.prems by (simp add: cache_grows_refl)
  next
    case False
    define s1 where "s1 = process_gap env plugins instByID blocked coverage i ig st"
    have on: "on_days (idr_Ranges ig)" "\<forall>ig \<in> set igs. on_days (idr_Ranges ig)" using Cons.prems(2) by simp_all
    note p = process_gap_settles [OF Cons.prems(1) on(1) Cons.prems(3,4,5) s1_def]
    obtain out where out: "fs_ends s1 = fs_ends st @ [(i, out)]"
      "gap_settled out \<longrightarrow> points (idr_Ranges ig) \<subseteq> covered (idr_InstrumentID ig) (pc_coverage (fs_cache s1))" using p(3) by blast
    have "\<forall>k. instByID k \<noteq> None \<longrightarrow> k \<in> instrument_ids (pc_master (fs_cache s1))" using Cons.prems(5) cache_grows_master [OF p(2)] by simp
    moreover have "processGaps env cancelled plugins instByID blocked coverage (i + 1) igs s1 = (st', e)" using Cons.prems(6) False by (simp add: s1_def)
    ultimately have IH: "cache_ok env (fs_cache st') \<and> cache_grows (fs_cache s1) (fs_cache st')
      \<and> (\<exists>ends. fs_ends st' = fs_ends s1 @ ends \<and> (\<forall>(k, out) \<in> set ends. i + 1 \<le> k \<and> k < i + 1 + length igs
         \<and> (gap_settled out \<longrightarrow> points (idr_Ranges (igs ! (k - (i + 1)))) \<subseteq> covered (idr_InstrumentID (igs ! (k - (i + 1)))) (pc_coverage (fs_cache st')))))"
      by (rule Cons.IH [OF p(1) on(2) Cons.prems(3) knows_coverage_mono [OF Cons.prems(4) p(2)]])
    then obtain ends where ends: "fs_ends st' = fs_ends s1 @ ends" and rest: "\<forall>(k, out) \<in> set ends. i + 1 \<le> k \<and> k < i + 1 + length igs
         \<and> (gap_settled out \<longrightarrow> points (idr_Ranges (igs ! (k - (i + 1)))) \<subseteq> covered (idr_InstrumentID (igs ! (k - (i + 1)))) (pc_coverage (fs_cache st')))" by blast
    let ?good = "\<lambda>(k, out). i \<le> k \<and> k < i + length (ig # igs)
         \<and> (gap_settled out \<longrightarrow> points (idr_Ranges ((ig # igs) ! (k - i))) \<subseteq> covered (idr_InstrumentID ((ig # igs) ! (k - i))) (pc_coverage (fs_cache st')))"
    have "?good x" if "x \<in> set ends" for x
    proof -
      obtain k o' where x: "x = (k, o')" by (cases x)
      have "(ig # igs) ! (k - i) = igs ! (k - (i + 1))" if "i + 1 \<le> k" using that by (simp add: nth_Cons' )
      then show ?thesis using bspec [OF rest that] by (auto simp: x)
    qed
    moreover have "?good (i, out)" using out(2) covered_mono [of "fs_cache s1" "fs_cache st'" "idr_InstrumentID ig"] IH by auto
    ultimately have "\<forall>x \<in> set ((i, out) # ends). ?good x" by (simp only: set_simps ball_simps) blast
    moreover have "fs_ends st' = fs_ends st @ ((i, out) # ends)" using ends out(1) by simp
    moreover have "cache_grows (fs_cache st) (fs_cache st')" using cache_grows_trans [OF p(2)] IH by blast
    ultimately show ?thesis using IH by blast
  qed
qed

lemma on_days_gaps:
  assumes "spans_ok (pc_coverage s)" "g \<in> set (gaps_of (ranges_of cov) needed)" "\<forall>h \<in> set needed. on_days (idr_Ranges h)"
    and cov: "PriceCoverage env ids s = Inr cov"
  shows "on_days (idr_Ranges g)"
proof -
  have "on_days (ranges_of cov i)" for i
  proof -
    have "\<forall>c \<in> set cov. on_days (idr_Ranges c)" using cov on_days_coverage(1) [OF assms(1)] by (auto simp: PriceCoverage_def sum_then_Inr)
    then show ?thesis by (auto simp: ranges_of_def split: option.splits dest!: map_of_SomeD)
  qed
  then show ?thesis using assms(2,3) on_days_SubtractRanges by (auto simp: gaps_of_def)
qed

lemma on_days_PriceGaps:
  assumes "spans_ok (pc_coverage s)" "PriceGaps env toToday s = Inr gaps" "g \<in> set gaps"
  shows "on_days (idr_Ranges g)"
  using assms(2,3) on_days_gaps [OF assms(1) _ _ , of g] on_days_held
  by (auto simp: PriceGaps_def Let_def sum_then_Inr split: if_splits)

definition needs_on_days :: "needs \<Rightarrow> bool" where
  "needs_on_days m \<longleftrightarrow> (\<forall>(k, v) \<in> set m. on_days v)"

lemma on_days_add_needs: "on_days rs \<Longrightarrow> needs_on_days m \<Longrightarrow> needs_on_days (add_needs j rs m)"
  by (auto simp: add_needs_def needs_on_days_def)

lemma on_days_fold_needs:
  assumes "\<And>m h. h \<in> set hs \<Longrightarrow> needs_on_days m \<Longrightarrow> needs_on_days (f m h)" "needs_on_days m"
  shows "needs_on_days (foldl f m hs)"
  using assms by (induction hs arbitrary: m) simp_all

lemma on_days_FXGaps:
  assumes sp: "spans_ok (pc_coverage s)" and visit: "\<And>xs. set (visit xs) = set xs" and run: "FXGaps env visit toToday s = Inr gaps" and g: "g \<in> set gaps"
  shows "on_days (idr_Ranges g)"
proof -
  let ?held = "HeldRanges toToday s"
  define heldToFX :: "string \<rightharpoonup> string" where "heldToFX = map_of (rev (map (\<lambda>(h, c, fx). (h, fx)) (currency_rows (map idr_InstrumentID ?held) (pc_master s))))"
  define heldToCurrency :: "string \<rightharpoonup> string" where "heldToCurrency = map_of (rev (map (\<lambda>(h, c, fx). (h, c)) (currency_rows (map idr_InstrumentID ?held) (pc_master s))))"
  define own where "own = foldl (\<lambda>m h. case heldToFX (idr_InstrumentID h) of None \<Rightarrow> m | Some fx \<Rightarrow> add_needs fx (idr_Ranges h) m) [] ?held"
  define needed where "needed = addDisplayCurrencyNeeds ?held heldToCurrency s own"
  let ?merged = "map (\<lambda>(k, rs). \<lparr>idr_InstrumentID = k, idr_Ranges = MergeRanges rs\<rparr>) (visit needed)"
  have "needs_on_days own" unfolding own_def
    by (rule on_days_fold_needs) (simp_all add: on_days_add_needs on_days_held needs_on_days_def [of "[]"] split: option.split)
  moreover have "needs_on_days (foldl (\<lambda>m h. if c h then m else add_needs j (idr_Ranges h) m) m ?held)" if "needs_on_days m" for c j m
    by (rule on_days_fold_needs [OF _ that]) (simp add: on_days_add_needs on_days_held)
  ultimately have "needs_on_days needed" unfolding needed_def addDisplayCurrencyNeeds_def Let_def
    by (intro on_days_fold_needs) (simp_all split: option.split)
  then have merged: "\<forall>h \<in> set ?merged. on_days (idr_Ranges h)" using visit on_days_MergeRanges unfolding needs_on_days_def by fastforce
  have "\<exists>ids cov. PriceCoverage env ids s = Inr cov \<and> g \<in> set (gaps_of (ranges_of cov) ?merged)"
    using run g unfolding FXGaps_def Let_def heldToFX_def [symmetric] heldToCurrency_def [symmetric] own_def [symmetric] needed_def [symmetric]
    by (auto simp: sum_then_Inr split: if_splits)
  then show ?thesis using on_days_gaps [OF sp _ merged] by blast
qed

text \<open>A cycle is either over before any plugin is asked, or the loop over all gaps.\<close>

lemma runCycle_cases:
  assumes "runCycle env visit registry cancelled s = (st, e)"
  obtains (idle) "fs_cache st = s" "\<forall>(k, out) \<in> set (fs_ends st). out = GapNoEligiblePlugin"
  | (loop) gaps fx coverage instByID blocked rows where "PriceGaps env True s = Inr gaps" "FXGaps env visit True s = Inr fx"
      "PriceCoverageByPlugin env (extractInstrumentIDs (gaps @ fx)) s = Inr coverage"
      "instByID = map_of (rev (map (\<lambda>r. (in_ID (ir_Instrument r), r)) (ListInstrumentsByIDs env (extractInstrumentIDs (gaps @ fx)) s)))"
      "processGaps env cancelled (entries registry (ListEnabledPluginConfigs s)) instByID blocked coverage 0 (gaps @ fx) (started_with s rows) = (st, e)"
proof -
  have none: "fs_cache (gapsTel_endAll n out st0) = fs_cache st0 \<and> (\<forall>(k, o') \<in> set (fs_ends (gapsTel_endAll n out st0)). o' = out \<or> (k, o') \<in> set (fs_ends st0))" for n out st0
  proof (induction n)
    case 0
    then show ?case by (auto simp: gapsTel_endAll_def)
  next
    case (Suc n)
    have "gapsTel_endAll (Suc n) out st0 = gapsTel_end n out (gapsTel_endAll n out st0)" by (simp add: gapsTel_endAll_def)
    then show ?case using Suc by (auto simp: gapsTel_end_def)
  qed
  show thesis
  proof (cases "PriceGaps env True s")
    case (Inl m)
    then show thesis using assms by (intro idle) (auto simp: runCycle_def started_with_def)
  next
    case gaps: (Inr gaps)
    show thesis
    proof (cases "FXGaps env visit True s")
      case (Inl m)
      then show thesis using assms gaps by (intro idle) (auto simp: runCycle_def started_with_def)
    next
      case fx: (Inr fx)
      consider "gaps @ fx = []" | "gaps @ fx \<noteq> []" "entries registry (ListEnabledPluginConfigs s) = []" | "gaps @ fx \<noteq> []" "entries registry (ListEnabledPluginConfigs s) \<noteq> []" by blast
      then show thesis
      proof cases
        case 1
        then show thesis using assms gaps fx by (intro idle) (auto simp: runCycle_def started_with_def Let_def)
      next
        case 2
        then have st: "st = gapsTel_endAll (length (gaps @ fx)) GapNoEligiblePlugin (started_with s (newPriceGaps (gaps @ fx) (length gaps) (\<lambda>_. None)))"
          using assms gaps fx by (auto simp: runCycle_def Let_def)
        show thesis by (rule idle; unfold st) (use none in \<open>fastforce simp: started_with_def\<close>)+
      next
        case 3
        show thesis
        proof (cases "PriceCoverageByPlugin env (extractInstrumentIDs (gaps @ fx)) s")
          case (Inl m)
          then show thesis using assms gaps fx 3 by (intro idle) (auto simp: runCycle_def started_with_def Let_def)
        next
          case (Inr coverage)
          let ?inst = "map_of (rev (map (\<lambda>r. (in_ID (ir_Instrument r), r)) (ListInstrumentsByIDs env (extractInstrumentIDs (gaps @ fx)) s)))"
          have "processGaps env cancelled (entries registry (ListEnabledPluginConfigs s)) ?inst (BlockedPluginsForInstruments (extractInstrumentIDs (gaps @ fx)) s) coverage 0
              (gaps @ fx) (started_with s (newPriceGaps (gaps @ fx) (length gaps) ?inst)) = (st, e)"
            using assms unfolding runCycle_def gaps fx sum.case Let_def if_not_P [OF 3(1)] if_not_P [OF 3(2)] Inr .
          then show thesis by (rule loop [OF gaps fx Inr refl])
        qed
      qed
    qed
  qed
qed

lemma ListInstrumentsByIDs_known:
  assumes "map_of (rev (map (\<lambda>r. (in_ID (ir_Instrument r), r)) (ListInstrumentsByIDs env ids s))) k \<noteq> None"
  shows "k \<in> instrument_ids (pc_master s)"
proof -
  have "k \<in> fst ` set (rev (map (\<lambda>r. (in_ID (ir_Instrument r), r)) (ListInstrumentsByIDs env ids s)))" using assms unfolding map_of_eq_None_iff by blast
  then show ?thesis by (auto simp: ListInstrumentsByIDs_def Let_def)
qed

lemma PriceCoverageByPlugin_known:
  assumes "spans_ok (pc_coverage s)" "PriceCoverageByPlugin env ids s = Inr coverage"
  shows "knows_coverage coverage s"
proof -
  have "on_days (coverage i p) \<and> points (coverage i p) \<subseteq> covered i (pc_coverage s)" for i p
  proof -
    obtain filt where c: "coverage i p = (if wanted filt i then map span_of (sort_key cv_From (filter (\<lambda>c. cv_InstrumentID c = i \<and> cv_PluginID c = p) (pc_coverage s))) else [])"
      using assms(2) by (auto simp: PriceCoverageByPlugin_def sum_then_Inr)
    have "points (map span_of (sort_key cv_From (filter (\<lambda>c. cv_InstrumentID c = i \<and> cv_PluginID c = p) (pc_coverage s)))) \<subseteq> covered i (pc_coverage s)"
      by (auto simp: points_def covers_def span_of_def covered_def)
    then show ?thesis unfolding c using on_days_coverage(2) [OF assms(1)] by simp
  qed
  then show ?thesis by (simp add: knows_coverage_def)
qed

lemma entries_registered: "pe \<in> set (entries registry cfgs) \<Longrightarrow> \<exists>k. registry k = Some (pe_plugin pe)"
  by (induction cfgs) (auto simp: entries_def map_filter_simps split: option.splits)

text \<open>A whole cycle, over plugins that keep to the days they are asked for.\<close>

lemma runCycle_settles:
  assumes ok: "cache_ok env s" and w: "\<forall>k p. registry k = Some p \<longrightarrow> answers_within p" and visit: "\<And>xs. set (visit xs) = set xs"
    and run: "runCycle env visit registry cancelled s = (st, e)"
  shows "cache_ok env (fs_cache st)" "cache_grows s (fs_cache st)"
    "PriceGaps env True s = Inr gaps \<Longrightarrow> FXGaps env visit True s = Inr fx \<Longrightarrow> (k, out) \<in> set (fs_ends st) \<Longrightarrow> gap_settled out
       \<Longrightarrow> k < length (gaps @ fx) \<and> points (idr_Ranges ((gaps @ fx) ! k)) \<subseteq> covered (idr_InstrumentID ((gaps @ fx) ! k)) (pc_coverage (fs_cache st))"
proof -
  have sp: "spans_ok (pc_coverage s)" using ok by (simp add: cache_ok_def)
  have "cache_ok env (fs_cache st) \<and> cache_grows s (fs_cache st)
    \<and> (\<forall>gaps fx. PriceGaps env True s = Inr gaps \<longrightarrow> FXGaps env visit True s = Inr fx \<longrightarrow> (\<forall>(k, out) \<in> set (fs_ends st). gap_settled out
       \<longrightarrow> k < length (gaps @ fx) \<and> points (idr_Ranges ((gaps @ fx) ! k)) \<subseteq> covered (idr_InstrumentID ((gaps @ fx) ! k)) (pc_coverage (fs_cache st))))"
    using run
  proof (cases rule: runCycle_cases)
    case idle
    then show ?thesis using ok by (fastforce simp: cache_grows_refl gap_settled_def)
  next
    case (loop gaps fx coverage instByID blocked rows)
    let ?s0 = "started_with s rows"
    have c0: "fs_cache ?s0 = s" "fs_ends ?s0 = []" by (simp_all add: started_with_def)
    have "\<forall>ig \<in> set (gaps @ fx). on_days (idr_Ranges ig)" using on_days_PriceGaps [OF sp loop(1)] on_days_FXGaps [OF sp visit loop(2)] by auto
    moreover have "\<forall>pe \<in> set (entries registry (ListEnabledPluginConfigs s)). answers_within (pe_plugin pe)" using entries_registered w by blast
    moreover have "\<forall>k. instByID k \<noteq> None \<longrightarrow> k \<in> instrument_ids (pc_master s)" unfolding loop(4) using ListInstrumentsByIDs_known by blast
    moreover have "knows_coverage coverage s" by (rule PriceCoverageByPlugin_known [OF sp loop(3)])
    ultimately have "cache_ok env (fs_cache st) \<and> cache_grows s (fs_cache st)
      \<and> (\<exists>ends. fs_ends st = [] @ ends \<and> (\<forall>(k, out) \<in> set ends. 0 \<le> k \<and> k < 0 + length (gaps @ fx)
         \<and> (gap_settled out \<longrightarrow> points (idr_Ranges ((gaps @ fx) ! (k - 0))) \<subseteq> covered (idr_InstrumentID ((gaps @ fx) ! (k - 0))) (pc_coverage (fs_cache st)))))"
      using processGaps_settles [OF _ _ _ _ _ loop(5)] ok unfolding c0 by blast
    then show ?thesis using loop(1,2) by auto
  qed
  then show "cache_ok env (fs_cache st)" "cache_grows s (fs_cache st)"
    "PriceGaps env True s = Inr gaps \<Longrightarrow> FXGaps env visit True s = Inr fx \<Longrightarrow> (k, out) \<in> set (fs_ends st) \<Longrightarrow> gap_settled out
       \<Longrightarrow> k < length (gaps @ fx) \<and> points (idr_Ranges ((gaps @ fx) ! k)) \<subseteq> covered (idr_InstrumentID ((gaps @ fx) ! k)) (pc_coverage (fs_cache st))"
    by blast+
qed

end
