(* ===== verification/Prices_Correct.thy ===== *)
theory Prices_Correct
  imports Price_Cycle Security_Master_Correct
begin

text \<open>
  The properties of the price cache and of the price fetcher: what recording a span does to what a plugin
  covers, that every stored price lies in a span of its provider, which days are gaps, that a settled gap
  is not met again, and what an empty answer keeps from the other plugins.
\<close>

subsection \<open>A plugin with nothing to give\<close>

text \<open>Whatever a plugin has no data for and whatever lies before its history settles its turn without a bar.\<close>

lemma fetch_ranges_no_data:
  assumes "\<And>n f b. pl_FetchPrices (pe_plugin pe) n (pe_config pe) ids ac f b = Inl ErrNoData"
  shows "\<exists>st'. fetch_ranges env i inst pe ids ac bars gaps st = (st', bars, True)"
proof (induction gaps arbitrary: st)
  case (Cons rg gaps)
  obtain headR tailR where hs: "history_split pe (CURRENT_DATE (pc_master (fs_cache st))) rg = (headR, tailR)" by force
  let ?s1 = "settle_head env i inst pe headR st"
  show ?case
  proof (cases tailR)
    case None
    then show ?thesis using Cons.IH [of ?s1] by (simp add: hs)
  next
    case (Some r)
    obtain s2 where "ask_plugin env i inst pe ids ac r ?s1 = (s2, Some 0)" by (simp add: ask_plugin_def assms)
    then show ?thesis using Cons.IH [of s2] Some by (simp add: hs)
  qed
qed simp

lemma coverRange_tables:
  "fs_asked (coverRange env inst plugin r st) = fs_asked st"
  "pc_master (fs_cache (coverRange env inst plugin r st)) = pc_master (fs_cache st)"
  by (auto simp: coverRange_def with_cache_def UpsertPricesForRange_def sum_then_Inr upsertCoverageSpan_Inr Let_def split: sum.splits)

lemma fetch_ranges_beyond_history:
  assumes "pe_maxHistDays pe = Some days" "0 < days" "\<forall>r \<in> set gaps. dr_Before r \<le> CURRENT_DATE (pc_master (fs_cache st)) - days * day_length"
  shows "\<exists>st'. fetch_ranges env i inst pe ids ac bars gaps st = (st', bars, True) \<and> fs_asked st' = fs_asked st"
  using assms(3)
proof (induction gaps arbitrary: st)
  case (Cons rg gaps)
  have hs: "history_split pe (CURRENT_DATE (pc_master (fs_cache st))) rg = (Some rg, None)"
    using assms(1,2) Cons.prems by (simp add: history_split_def Let_def)
  let ?s1 = "settle_head env i inst pe (Some rg) st"
  have s1: "fs_asked ?s1 = fs_asked st" "pc_master (fs_cache ?s1) = pc_master (fs_cache st)"
    by (simp_all add: settle_head_def gapsTel_call_def coverRange_tables)
  then have "\<forall>r \<in> set gaps. dr_Before r \<le> CURRENT_DATE (pc_master (fs_cache ?s1)) - days * day_length" using Cons.prems by simp
  from Cons.IH [OF this] show ?case using s1(1) by (simp add: hs)
qed simp

text \<open>A plugin that is asked for ranges and answers them all is the last one of the gap.\<close>

lemma process_gap_first_answers:
  assumes ok: "cache_ok env (fs_cache st)" "on_days (idr_Ranges ig)" "knows_coverage coverage (fs_cache st)" "\<forall>k. instByID k \<noteq> None \<longrightarrow> k \<in> instrument_ids (pc_master (fs_cache st))"
    and inst: "instByID (idr_InstrumentID ig) = Some r" and el: "eligible blocked (idr_InstrumentID ig) r pe"
    and out: "SubtractRanges (idr_Ranges ig) (coverage (idr_InstrumentID ig) (pe_id pe)) \<noteq> []" and w: "answers_within (pe_plugin pe)"
    and f: "fetch_ranges env i (idr_InstrumentID ig) pe (ToIdentifiers (offered_ids pe r)) (or_blank (in_AssetClass (ir_Instrument r))) 0
      (SubtractRanges (idr_Ranges ig) (coverage (idr_InstrumentID ig) (pe_id pe))) st = (s1, 0, True)"
  shows "\<exists>st'. (\<forall>pes. process_gap env (pe # pes) instByID blocked coverage i ig st = st') \<and> fs_asked st' = fs_asked s1
    \<and> fs_ends st' = fs_ends st @ [(i, GapSettledEmpty)] \<and> points (idr_Ranges ig) \<subseteq> covered (idr_InstrumentID ig) (pc_coverage (fs_cache st'))"
proof -
  let ?st = "gapsTel_end i GapSettledEmpty s1"
  have same: "process_gap env (pe # pes) instByID blocked coverage i ig st = ?st" for pes
    using inst el out f by (simp add: process_gap_def gapOutcome_def)
  have ws: "\<forall>pe' \<in> set [pe]. answers_within (pe_plugin pe')" using w by simp
  obtain o' where ends: "fs_ends ?st = fs_ends st @ [(i, o')]"
    and cov: "gap_settled o' \<longrightarrow> points (idr_Ranges ig) \<subseteq> covered (idr_InstrumentID ig) (pc_coverage (fs_cache ?st))"
    using process_gap_settles(3) [OF ok(1,2) ws ok(3,4) same [of "[]", symmetric]] by blast
  have "o' = GapSettledEmpty" using ends by (simp add: gapsTel_end_def)
  then show ?thesis using same ends cov by (intro exI [of _ ?st]) (simp add: gap_settled_def gapsTel_end_def)
qed

subsection \<open>Coverage and prices\<close>

text \<open>
  Recording that a plugin answered for a span of whole days of a stored instrument always succeeds and
  adds exactly those days to what that plugin covers of that instrument: nothing else a plugin covers
  changes, and its spans stay a day apart, none empty.
\<close>

theorem recorded_span_is_added:
  assumes "spans_ok (pc_coverage s)" "date_of f < date_of b" "env_parse_uuid env instID = Some inst" "inst \<in> instrument_ids (pc_master s)"
  shows "\<exists>cs. upsertCoverageSpan env instID plugin f b at' s = Inr (s\<lparr>pc_coverage := cs\<rparr>) \<and> spans_ok cs
    \<and> (\<forall>i p. covered_by i p cs = covered_by i p (pc_coverage s) \<union> (if i = inst \<and> p = plugin then {date_of f ..< date_of b} else {}))"
proof -
  obtain s' where run: "upsertCoverageSpan env instID plugin f b at' s = Inr s'" using upsertCoverageSpan_commits [OF assms] by blast
  note adds = upsertCoverageSpan_adds [OF run assms(1-3)]
  from run have "upsertCoverageSpan env instID plugin f b at' s = Inr (s\<lparr>pc_coverage := pc_coverage s'\<rparr>)" unfolding adds(1) [symmetric] .
  then show ?thesis using adds(2,4) by blast
qed


subsection \<open>Gaps\<close>

text \<open>
  C21. \<open>PriceGaps\<close> succeeds and is exact up to the end of today: a moment lies in a gap of an instrument if
  and only if the net quantity of its user-side postings dated up to that day is not zero and no plugin
  has answered for the day. Each instrument has one entry, and every entry names a stored instrument.
\<close>

theorem PriceGaps_exact:
  assumes "cache_ok env s"
  shows "\<exists>gaps. PriceGaps env True s = Inr gaps \<and> distinct (map idr_InstrumentID gaps)
    \<and> set (map idr_InstrumentID gaps) \<subseteq> instrument_ids (pc_master s)
    \<and> (\<forall>i x. x < CURRENT_DATE (pc_master s) + day_length \<longrightarrow>
         (\<exists>g \<in> set gaps. idr_InstrumentID g = i \<and> x \<in> points (idr_Ranges g))
         \<longleftrightarrow> eod_pos i x (sm_ledger (pc_master s)) \<noteq> 0 \<and> x \<notin> covered i (pc_coverage s))"
  by (rule PriceGaps_spec [OF assms])


text \<open>
  C37. A gap that the first eligible plugin has no data for ends with that plugin: the others, whatever they
  hold, are not asked, the gap is reported settled empty, and all its days are covered from then on.
\<close>

theorem no_data_ends_the_search:
  assumes "cache_ok env (fs_cache st)" "on_days (idr_Ranges ig)" "knows_coverage coverage (fs_cache st)" "\<forall>k. instByID k \<noteq> None \<longrightarrow> k \<in> instrument_ids (pc_master (fs_cache st))"
    and inst: "instByID (idr_InstrumentID ig) = Some r" and el: "eligible blocked (idr_InstrumentID ig) r pe"
    and out: "SubtractRanges (idr_Ranges ig) (coverage (idr_InstrumentID ig) (pe_id pe)) \<noteq> []"
    and empty: "\<And>n cfg ids ac f b. pl_FetchPrices (pe_plugin pe) n cfg ids ac f b = Inl ErrNoData"
  shows "\<exists>st'. (\<forall>pes. process_gap env (pe # pes) instByID blocked coverage i ig st = st') \<and> fs_ends st' = fs_ends st @ [(i, GapSettledEmpty)]
    \<and> points (idr_Ranges ig) \<subseteq> covered (idr_InstrumentID ig) (pc_coverage (fs_cache st'))"
proof -
  have w: "answers_within (pe_plugin pe)" using empty by (simp add: answers_within_def)
  obtain s1 where f: "fetch_ranges env i (idr_InstrumentID ig) pe (ToIdentifiers (offered_ids pe r)) (or_blank (in_AssetClass (ir_Instrument r))) 0
      (SubtractRanges (idr_Ranges ig) (coverage (idr_InstrumentID ig) (pe_id pe))) st = (s1, 0, True)"
    using fetch_ranges_no_data [OF empty] by blast
  show ?thesis using process_gap_first_answers [where blocked = blocked and coverage = coverage and instByID = instByID, OF assms(1-4) inst el out w f] by blast
qed

text \<open>
  C38. A gap that lies before the history the first eligible plugin reaches ends with that plugin too: no
  plugin is asked for any of it, and all its days are covered from then on, so a plugin further down
  that reaches back to them is not offered them in this cycle or in a later one.
\<close>

theorem short_history_hides_the_past:
  assumes "cache_ok env (fs_cache st)" "on_days (idr_Ranges ig)" "knows_coverage coverage (fs_cache st)" "\<forall>k. instByID k \<noteq> None \<longrightarrow> k \<in> instrument_ids (pc_master (fs_cache st))"
    and inst: "instByID (idr_InstrumentID ig) = Some r" and el: "eligible blocked (idr_InstrumentID ig) r pe"
    and out: "SubtractRanges (idr_Ranges ig) (coverage (idr_InstrumentID ig) (pe_id pe)) \<noteq> []"
    and hist: "pe_maxHistDays pe = Some days" "0 < days"
    and old: "\<forall>g \<in> set (SubtractRanges (idr_Ranges ig) (coverage (idr_InstrumentID ig) (pe_id pe))). dr_Before g \<le> CURRENT_DATE (pc_master (fs_cache st)) - days * day_length"
    and w: "answers_within (pe_plugin pe)"
  shows "\<exists>st'. (\<forall>pes. process_gap env (pe # pes) instByID blocked coverage i ig st = st') \<and> fs_asked st' = fs_asked st
    \<and> points (idr_Ranges ig) \<subseteq> covered (idr_InstrumentID ig) (pc_coverage (fs_cache st'))"
proof -
  obtain s1 where f: "fetch_ranges env i (idr_InstrumentID ig) pe (ToIdentifiers (offered_ids pe r)) (or_blank (in_AssetClass (ir_Instrument r))) 0
      (SubtractRanges (idr_Ranges ig) (coverage (idr_InstrumentID ig) (pe_id pe))) st = (s1, 0, True)" and a: "fs_asked s1 = fs_asked st"
    using fetch_ranges_beyond_history [OF hist old] by blast
  show ?thesis
    using process_gap_first_answers [where blocked = blocked and coverage = coverage and instByID = instByID, OF assms(1-4) inst el out w f] unfolding a by blast
qed

text \<open>
  An instrument held only from a day after tomorrow's start on has a gap that ends before it starts: it
  is put to the plugins, and no answer settles it, since the cache refuses a range that is not one.
\<close>

theorem future_holding_is_asked_backwards:
  assumes "l_txs (sm_ledger (pc_master s)) = [t]" "t_InstrumentID t = Some i" "t_AccountType t = ''USER''" "t_Quantity t \<noteq> 0"
    and future: "CURRENT_DATE (pc_master s) + day_length \<le> date_of (t_OrderDate t)" and id: "env_parse_uuid env i = Some i"
    and none: "\<forall>c \<in> set (pc_coverage s). cv_InstrumentID c \<noteq> i"
  shows "PriceGaps env True s = Inr [\<lparr>idr_InstrumentID = i, idr_Ranges = [\<lparr>dr_From = date_of (t_OrderDate t), dr_Before = CURRENT_DATE (pc_master s) + day_length\<rparr>]\<rparr>]
    \<and> (\<forall>plugin bars at'. \<exists>e. UpsertPricesForRange env i plugin bars (date_of (t_OrderDate t)) (CURRENT_DATE (pc_master s) + day_length) at' s = Inl e)"
proof
  let ?g = "\<lparr>idr_InstrumentID = i, idr_Ranges = [\<lparr>dr_From = date_of (t_OrderDate t), dr_Before = CURRENT_DATE (pc_master s) + day_length\<rparr>]\<rparr>"
  have rows: "held_rows (sm_ledger (pc_master s)) = [(i, date_of (t_OrderDate t), t_Quantity t)]"
    using assms(1-4) by (simp add: held_rows_def held_instruments_def held_postings_def eod_pos_def map_filter_simps)
  have held: "HeldRanges True s = [?g]" using assms(4) by (simp add: HeldRanges_def Let_def rows held_step_def held_flush_def held_close_def)
  have "filter (\<lambda>c. cv_InstrumentID c = i) (pc_coverage s) = []" using none by (simp add: filter_empty_conv)
  then have mc: "merged_price_coverage i s = []" by (simp add: merged_price_coverage_def MergeRanges_def)
  have "\<forall>k \<in> set [i]. env_parse_uuid env k = Some k" using id by simp
  from PriceCoverage_known [OF this, of s] obtain cov where "PriceCoverage env [i] s = Inr cov" "ranges_of cov i = []" unfolding mc [symmetric] by auto
  then show "PriceGaps env True s = Inr [?g]" by (simp add: PriceGaps_def held sum_then_def gaps_of_def SubtractRanges_def)
  show "\<forall>plugin bars at'. \<exists>e. UpsertPricesForRange env i plugin bars (date_of (t_OrderDate t)) (CURRENT_DATE (pc_master s) + day_length) at' s = Inl e"
    using future by (auto simp: UpsertPricesForRange_def upsertCoverageSpan_def sum_then_def split: sum.splits)
qed

subsection \<open>A cache and its plugins\<close>

text \<open>Five shares held since day 0, priced for that day by one plugin, on day 2; and two plugins that take any ticker.\<close>

definition price_cache :: Cache where
  "price_cache = \<lparr>pc_master = (demo_master [])\<lparr>sm_ledger := \<lparr>l_txs = [demo_leg ''x'' 5], l_groups = [], l_matches = [], l_uuids = 2\<rparr>, sm_now := 2 * day_length\<rparr>,
     pc_prices = [\<lparr>pr_InstrumentID = ''aa'', pr_PriceDate = 0, pr_Open = None, pr_High = None, pr_Low = None, pr_Close = 7, pr_Volume = None,
       pr_DataProvider = ''eodhd'', pr_AdjustedClose = None, pr_LastFetchedAt = 0, pr_ShareCountBasis = 0\<rparr>],
     pc_coverage = [\<lparr>cv_InstrumentID = ''aa'', cv_PluginID = ''eodhd'', cv_From = 0, cv_Before = day_length, cv_FetchedAt = 0\<rparr>],
     pc_blocks = [], pc_providers = [],
     pc_configs = [\<lparr>pg_PluginID = ''massive'', pg_Precedence = 1, pg_Config = '''', pg_MaxHistoryDays = None\<rparr>,
       \<lparr>pg_PluginID = ''eodhd'', pg_Precedence = 2, pg_Config = '''', pg_MaxHistoryDays = None\<rparr>],
     pc_display = [''USD'']\<rparr>"

definition ticker_plugin :: "(time \<Rightarrow> time \<Rightarrow> fetch_error + FetchResult) \<Rightarrow> Plugin" where
  "ticker_plugin ans = \<lparr>pl_SupportedIdentifierTypes = [''MIC_TICKER''], pl_AcceptableAssetClasses = [], pl_AcceptableExchanges = [], pl_AcceptableCurrencies = [],
     pl_FetchPrices = (\<lambda>n cfg ids ac f b. ans f b)\<rparr>"

definition first_day :: "time \<Rightarrow> time \<Rightarrow> fetch_error + FetchResult" where
  "first_day f b = Inr \<lparr>fr_Bars = (if date_of f < date_of b then [\<lparr>bar_Date = f, bar_Open = None, bar_High = None, bar_Low = None, bar_Close = 8,
     bar_Volume = None, bar_AdjustedClose = None\<rparr>] else []), fr_ShareCountBasis = AsTraded\<rparr>"

definition price_registry :: "string \<Rightarrow> Plugin option" where
  "price_registry k = (if k = ''eodhd'' then Some (ticker_plugin first_day) else if k = ''massive'' then Some (ticker_plugin (\<lambda>f b. Inl ErrNoData)) else None)"

lemma price_registry_within: "\<forall>k p. price_registry k = Some p \<longrightarrow> answers_within p"
  by (auto simp: price_registry_def answers_within_def ticker_plugin_def first_day_def split: if_splits)

lemma price_cache_ok: "cache_ok demo_env price_cache"
  by (simp add: cache_ok_def spans_ok_def prices_ok_def ids_ok_def price_cache_def demo_env_def demo_master_defs covered_by_def pairwise_def
      date_of_def utc_day_def day_length_def)

lemma price_cycle_run:
  "runCycle demo_env id price_registry (\<lambda>_. False) price_cache = (fst (runCycle demo_env id price_registry (\<lambda>_. False) price_cache), None)"
  "PriceGaps demo_env True price_cache = Inr [\<lparr>idr_InstrumentID = ''aa'', idr_Ranges = [\<lparr>dr_From = day_length, dr_Before = 3 * day_length\<rparr>]\<rparr>]"
  "FXGaps demo_env id True price_cache = Inr []"
  "fs_ends (fst (runCycle demo_env id price_registry (\<lambda>_. False) price_cache)) = [(0, GapFilled)]"
  by code_simp+

theorem recorded_span_is_added_witness:
  "\<exists>cs. upsertCoverageSpan demo_env ''aa'' ''eodhd'' day_length (3 * day_length) None price_cache = Inr (price_cache\<lparr>pc_coverage := cs\<rparr>) \<and> spans_ok cs
    \<and> covered_by ''aa'' ''eodhd'' cs = {0 ..< 3 * day_length}"
proof -
  have ok: "spans_ok (pc_coverage price_cache)" using price_cache_ok by (simp add: cache_ok_def)
  have days: "date_of day_length = day_length" "date_of (3 * day_length) = 3 * day_length" by (simp_all add: date_of_def utc_day_def day_length_def)
  obtain cs where cs: "upsertCoverageSpan demo_env ''aa'' ''eodhd'' day_length (3 * day_length) None price_cache = Inr (price_cache\<lparr>pc_coverage := cs\<rparr>)" "spans_ok cs"
    "covered_by ''aa'' ''eodhd'' cs = covered_by ''aa'' ''eodhd'' (pc_coverage price_cache) \<union> {day_length ..< 3 * day_length}"
    using recorded_span_is_added [OF ok, of day_length "3 * day_length" demo_env "''aa''" "''aa''" "''eodhd''" None] unfolding days
    by (auto simp: day_length_def demo_env_def price_cache_def demo_master_defs)
  have "covered_by ''aa'' ''eodhd'' (pc_coverage price_cache) = {0 ..< day_length}" by (auto simp: covered_by_def price_cache_def)
  then have "covered_by ''aa'' ''eodhd'' cs = {0 ..< 3 * day_length}" using cs(3) ivl_disj_un_two(3) [of 0 day_length "3 * day_length"] by (simp add: day_length_def)
  then show ?thesis using cs(1,2) by blast
qed


theorem PriceGaps_exact_witness:
  "cache_ok demo_env price_cache \<and> eod_pos ''aa'' day_length (sm_ledger (pc_master price_cache)) \<noteq> 0 \<and> day_length \<notin> covered ''aa'' (pc_coverage price_cache)"
proof
  have now: "CURRENT_DATE (pc_master price_cache) + day_length = 3 * day_length"
    by (simp add: price_cache_def CURRENT_DATE_def date_of_def utc_day_def day_length_def)
  obtain gaps where gaps: "PriceGaps demo_env True price_cache = Inr gaps"
    and all: "\<forall>i x. x < 3 * day_length \<longrightarrow> (\<exists>g \<in> set gaps. idr_InstrumentID g = i \<and> x \<in> points (idr_Ranges g))
         \<longleftrightarrow> eod_pos i x (sm_ledger (pc_master price_cache)) \<noteq> 0 \<and> x \<notin> covered i (pc_coverage price_cache)"
    using PriceGaps_exact [OF price_cache_ok] unfolding now by blast
  have "gaps = [\<lparr>idr_InstrumentID = ''aa'', idr_Ranges = [\<lparr>dr_From = day_length, dr_Before = 3 * day_length\<rparr>]\<rparr>]" using gaps price_cycle_run(2) by simp
  then have "\<exists>g \<in> set gaps. idr_InstrumentID g = ''aa'' \<and> day_length \<in> points (idr_Ranges g)" by (simp add: covers_def day_length_def)
  moreover have "day_length < 3 * day_length" by (simp add: day_length_def)
  ultimately show "eod_pos ''aa'' day_length (sm_ledger (pc_master price_cache)) \<noteq> 0 \<and> day_length \<notin> covered ''aa'' (pc_coverage price_cache)" using all by blast
qed (rule price_cache_ok)


text \<open>The gap of the cache above put to the plugin that has nothing, and the days before it to one that reaches back a day.\<close>

definition empty_handed :: "int option \<Rightarrow> pluginEntry" where
  "empty_handed days = \<lparr>pe_id = ''massive'', pe_plugin = ticker_plugin (\<lambda>f b. Inl ErrNoData), pe_config = '''', pe_precedence = 1, pe_maxHistDays = days\<rparr>"

definition price_row_of :: "string \<Rightarrow> InstrumentRow option" where
  "price_row_of k = (if k = ''aa'' then Some \<lparr>ir_Instrument = plain_instrument ''aa'', ir_Identifiers = [open_name ''MIC_TICKER'' ''T''], ir_ProviderIdentifiers = []\<rparr> else None)"

lemma empty_handed_ready:
  "eligible (\<lambda>_ _. False) ''aa'' \<lparr>ir_Instrument = plain_instrument ''aa'', ir_Identifiers = [open_name ''MIC_TICKER'' ''T''], ir_ProviderIdentifiers = []\<rparr> (empty_handed days)"
  "knows_coverage (\<lambda>_ _. []) s" "\<forall>k. price_row_of k \<noteq> None \<longrightarrow> k \<in> instrument_ids (pc_master price_cache)"
  by (auto simp: eligible_def empty_handed_def ticker_plugin_def PluginAccepts_def admits_def offered_ids_def FilterIdentifiers_def open_name_def
      knows_coverage_def price_row_of_def price_cache_def demo_master_defs split: option.splits)

theorem no_data_ends_the_search_witness:
  "\<exists>st'. (\<forall>pes. process_gap demo_env (empty_handed None # pes) price_row_of (\<lambda>_ _. False) (\<lambda>_ _. []) 0
       \<lparr>idr_InstrumentID = ''aa'', idr_Ranges = [\<lparr>dr_From = day_length, dr_Before = 3 * day_length\<rparr>]\<rparr> (started_with price_cache []) = st')
     \<and> {day_length ..< 3 * day_length} \<subseteq> covered ''aa'' (pc_coverage (fs_cache st'))"
proof -
  let ?ig = "\<lparr>idr_InstrumentID = ''aa'', idr_Ranges = [\<lparr>dr_From = day_length, dr_Before = 3 * day_length\<rparr>]\<rparr>"
  have "\<exists>st'. (\<forall>pes. process_gap demo_env (empty_handed None # pes) price_row_of (\<lambda>_ _. False) (\<lambda>_ _. []) 0 ?ig (started_with price_cache []) = st')
      \<and> fs_ends st' = fs_ends (started_with price_cache []) @ [(0, GapSettledEmpty)] \<and> points (idr_Ranges ?ig) \<subseteq> covered (idr_InstrumentID ?ig) (pc_coverage (fs_cache st'))"
    by (rule no_data_ends_the_search [where r = "\<lparr>ir_Instrument = plain_instrument ''aa'', ir_Identifiers = [open_name ''MIC_TICKER'' ''T''], ir_ProviderIdentifiers = []\<rparr>"])
       (use price_cache_ok empty_handed_ready in \<open>simp_all add: started_with_def price_row_of_def SubtractRanges_def empty_handed_def ticker_plugin_def
          date_of_def utc_day_def day_length_def\<close>)
  then show ?thesis by (auto simp: covers_def)
qed

theorem short_history_hides_the_past_witness:
  "\<exists>st'. (\<forall>pes. process_gap demo_env (empty_handed (Some 1) # pes) price_row_of (\<lambda>_ _. False) (\<lambda>_ _. []) 0
       \<lparr>idr_InstrumentID = ''aa'', idr_Ranges = [\<lparr>dr_From = - day_length, dr_Before = day_length\<rparr>]\<rparr> (started_with price_cache []) = st')
     \<and> fs_asked st' = 0 \<and> {- day_length ..< day_length} \<subseteq> covered ''aa'' (pc_coverage (fs_cache st'))"
proof -
  let ?ig = "\<lparr>idr_InstrumentID = ''aa'', idr_Ranges = [\<lparr>dr_From = - day_length, dr_Before = day_length\<rparr>]\<rparr>"
  have w: "answers_within (pe_plugin (empty_handed (Some 1)))" by (simp add: answers_within_def empty_handed_def ticker_plugin_def)
  have "\<exists>st'. (\<forall>pes. process_gap demo_env (empty_handed (Some 1) # pes) price_row_of (\<lambda>_ _. False) (\<lambda>_ _. []) 0 ?ig (started_with price_cache []) = st')
      \<and> fs_asked st' = fs_asked (started_with price_cache []) \<and> points (idr_Ranges ?ig) \<subseteq> covered (idr_InstrumentID ?ig) (pc_coverage (fs_cache st'))"
    by (rule short_history_hides_the_past [where days = 1 and r = "\<lparr>ir_Instrument = plain_instrument ''aa'', ir_Identifiers = [open_name ''MIC_TICKER'' ''T''], ir_ProviderIdentifiers = []\<rparr>"])
       (use price_cache_ok empty_handed_ready w in \<open>simp_all add: started_with_def price_row_of_def SubtractRanges_def empty_handed_def price_cache_def CURRENT_DATE_def
          date_of_def utc_day_def day_length_def\<close>)
  then show ?thesis by (auto simp: covers_def started_with_def)
qed

theorem future_holding_is_asked_backwards_witness:
  "PriceGaps demo_env True (price_cache\<lparr>pc_master := (pc_master price_cache)\<lparr>sm_now := - 2 * day_length\<rparr>, pc_coverage := [], pc_prices := []\<rparr>)
     = Inr [\<lparr>idr_InstrumentID = ''aa'', idr_Ranges = [\<lparr>dr_From = 0, dr_Before = - day_length\<rparr>]\<rparr>]"
  using future_holding_is_asked_backwards [of "price_cache\<lparr>pc_master := (pc_master price_cache)\<lparr>sm_now := - 2 * day_length\<rparr>, pc_coverage := [], pc_prices := []\<rparr>"
      "demo_leg ''x'' 5" "''aa''" demo_env]
  by (simp add: price_cache_def demo_leg_def demo_env_def CURRENT_DATE_def date_of_def utc_day_def day_length_def)

end
