(* ===== verification/Identification.thy ===== *)
theory Identification
  imports Declarations Price_Cache
begin

text \<open>
  Identification of instruments, \<open>src/server/service/identification/resolve.go\<close> and
  \<open>src/server/identifier\<close>: what a source stated and a plugin proposed about a security is looked up in the
  security master, put to the identifier plugins, and the answers that describe one security are merged
  into one instrument.

  An identifier is an \<open>InstrumentRef\<close>. What an invocation of a plugin ends with, its one retry included, is
  an argument: the retry loop is a library's. The plugins run concurrently and their answers are taken
  by their place in the list, so no order among them enters. The store is the security master with the
  countries of its exchanges, the provider identifiers and the attempts recorded; a lookup does not
  fail. Log lines, durations and the caches of exchange lookups are outside the model.
\<close>

subsection \<open>Identifier types\<close>

datatype Scope = ScopeUnknown | ScopeGlobal | ScopeBroker | ScopeDescription
datatype Reassignment = ReassignUnknown | ReassignRare | ReassignRoutine
datatype Grain = GrainUnknown | GrainSecurity | GrainListing

record TypeProps =
  tp_Scope :: Scope
  tp_Reassignment :: Reassignment
  tp_Grain :: Grain

abbreviation props_of :: "Scope \<Rightarrow> Reassignment \<Rightarrow> Grain \<Rightarrow> TypeProps" where
  "props_of s r g \<equiv> \<lparr>tp_Scope = s, tp_Reassignment = r, tp_Grain = g\<rparr>"

definition idTypes :: "(string \<times> TypeProps) list" where
  "idTypes =
    [(''ISIN'', props_of ScopeGlobal ReassignRare GrainSecurity), (''CUSIP'', props_of ScopeGlobal ReassignRare GrainSecurity),
     (''SEDOL'', props_of ScopeGlobal ReassignRare GrainSecurity), (''CINS'', props_of ScopeGlobal ReassignRare GrainSecurity),
     (''WERTPAPIER'', props_of ScopeGlobal ReassignRare GrainSecurity), (''OPENFIGI_SHARE_CLASS'', props_of ScopeGlobal ReassignRare GrainSecurity),
     (''OPENFIGI_COMPOSITE'', props_of ScopeGlobal ReassignRare GrainSecurity), (''MIC_TICKER'', props_of ScopeGlobal ReassignRoutine GrainListing),
     (''OPENFIGI_TICKER'', props_of ScopeGlobal ReassignRoutine GrainListing), (''OCC'', props_of ScopeGlobal ReassignRoutine GrainSecurity),
     (''OPRA'', props_of ScopeGlobal ReassignRoutine GrainSecurity), (''FUT_OPT'', props_of ScopeGlobal ReassignRoutine GrainSecurity),
     (''CURRENCY'', props_of ScopeGlobal ReassignRoutine GrainSecurity), (''FX_PAIR'', props_of ScopeGlobal ReassignRoutine GrainSecurity),
     (''BROKER_DESCRIPTION'', props_of ScopeDescription ReassignRoutine GrainSecurity)]"

definition Props :: "string \<Rightarrow> TypeProps option" where
  "Props t = map_of idTypes t"

definition Known :: "string \<Rightarrow> bool" where
  "Known t \<longleftrightarrow> Props t \<noteq> None"

definition NamesAListing :: "string \<Rightarrow> bool" where
  "NamesAListing t \<longleftrightarrow> (case Props t of None \<Rightarrow> False | Some p \<Rightarrow> tp_Grain p = GrainListing)"

definition MayMediate :: "string \<Rightarrow> bool \<Rightarrow> bool" where
  "MayMediate t systemOwned \<longleftrightarrow> systemOwned \<and> (case Props t of None \<Rightarrow> False | Some p \<Rightarrow> tp_Reassignment p = ReassignRare)"

subsection \<open>What is known of an instrument\<close>

record Venue =
  vn_MIC :: string
  vn_Country :: string

definition Venue_Known :: "Venue \<Rightarrow> bool" where
  "Venue_Known v \<longleftrightarrow> vn_MIC v \<noteq> '''' \<or> vn_Country v \<noteq> ''''"

definition Permits :: "(string \<Rightarrow> string) \<Rightarrow> Venue \<Rightarrow> string \<Rightarrow> bool" where
  "Permits countryOf v mic \<longleftrightarrow>
     (if \<not> Venue_Known v \<or> mic = '''' then True
      else if vn_MIC v \<noteq> '''' then EqualFold (vn_MIC v) mic
      else let c = countryOf mic in c = '''' \<or> EqualFold (vn_Country v) c)"

definition Agrees :: "(string \<Rightarrow> string) \<Rightarrow> Venue \<Rightarrow> Venue \<Rightarrow> bool" where
  "Agrees countryOf v other \<longleftrightarrow>
     (if \<not> Permits countryOf v (vn_MIC other) \<or> \<not> Permits countryOf other (vn_MIC v) then False
      else if vn_Country v \<noteq> '''' \<and> vn_Country other \<noteq> '''' then EqualFold (vn_Country v) (vn_Country other)
      else True)"

record ProviderRef =
  pv_Provider :: string
  pv_Ref :: InstrumentRef

text \<open>\<open>identifier.Instrument\<close>, what a plugin says the instrument is.\<close>

record Described =
  ds_AssetClass :: string
  ds_Venue :: Venue
  ds_Currency :: string
  ds_Name :: string
  ds_CIK :: string
  ds_SICCode :: string
  ds_UnderlyingIdentifiers :: "InstrumentRef list"
  ds_ProviderIdentifiers :: "ProviderRef list"
  ds_ValidFrom :: "time option"
  ds_ValidBefore :: "time option"

record Hints =
  hi_Currency :: string
  hi_InstrumentKind :: string
  hi_SecurityTypeHint :: string

record Identity =
  iy_Stated :: "InstrumentRef list"
  iy_Proposed :: "InstrumentRef list"
  iy_Hints :: Hints

record HintDiff =
  hd_Field :: string
  hd_HintValue :: string
  hd_ResolvedValue :: string

definition AssetClassUnknown :: string where "AssetClassUnknown = ''UNKNOWN''"

definition UnderlyingSecTypeHint :: "string \<Rightarrow> string" where
  "UnderlyingSecTypeHint ac = (if ac \<in> {AssetClassOption, AssetClassFuture} then ''STOCK'' else '''')"

definition ShouldAttemptPlugin :: "(string \<times> bool) list \<Rightarrow> (string \<times> bool) list \<Rightarrow> string \<Rightarrow> string \<Rightarrow> bool" where
  "ShouldAttemptPlugin kinds types kind secType \<longleftrightarrow>
     \<not> (kinds \<noteq> [] \<and> kind \<noteq> '''' \<and> map_of kinds kind \<noteq> Some True)
     \<and> \<not> (types \<noteq> [] \<and> secType \<noteq> '''' \<and> secType \<noteq> AssetClassUnknown \<and> map_of types secType \<noteq> Some True)"

definition FilterIdentifierHints :: "InstrumentRef list \<Rightarrow> InstrumentRef list" where
  "FilterIdentifierHints hints = filter (\<lambda>h. TrimSpace (ref_Type h) \<noteq> '''' \<and> Known (TrimSpace (ref_Type h))) hints"

definition ValidateMIC :: "string \<Rightarrow> Master \<Rightarrow> bool" where
  "ValidateMIC mic m \<longleftrightarrow> mic \<in> fst ` set (sm_exchanges m)"

definition operatingMIC :: "Master \<Rightarrow> string \<Rightarrow> string" where
  "operatingMIC m mic = (if \<not> ValidateMIC mic m then ''''
     else case LookupOperatingMIC mic m of Inr op \<Rightarrow> (if op \<noteq> '''' then op else mic) | Inl _ \<Rightarrow> mic)"

definition NewProposalFilter :: "Master \<Rightarrow> InstrumentRef \<Rightarrow> InstrumentRef option" where
  "NewProposalFilter m h = (case FilterIdentifierHints [h] of
       [] \<Rightarrow> None
     | idn # _ \<Rightarrow> if ref_Type idn \<noteq> ''MIC_TICKER'' \<or> ref_Domain idn = '''' then Some idn
         else Some (idn\<lparr>ref_Domain := operatingMIC m (ref_Domain idn)\<rparr>))"

subsection \<open>Looking hints up\<close>

record ResolvedInstrument =
  ri_ID :: string
  ri_AssetClass :: string
  ri_Exchange :: string
  ri_Currency :: string

text \<open>A stored option symbol is in compact form.\<close>

definition stored_value :: "InstrumentRef \<Rightarrow> string" where
  "stored_value h = (if ref_Type h = ''OCC'' then (case OCCCompact (ref_Value h) of Some c \<Rightarrow> c | None \<Rightarrow> ref_Value h) else ref_Value h)"

text \<open>The lookups that leave the domain out, and the one that leaves out the separators of a ticker.\<close>

definition bare_lookup :: "string \<Rightarrow> string \<Rightarrow> Master \<Rightarrow> string" where
  "bare_lookup ty v m = (let i = FindInstrumentByTypeAndValue ty v m in
     if i = '''' \<and> ty = ''MIC_TICKER'' then FindInstrumentByTickerIgnoringSeparators v m else i)"

definition look_up :: "Master \<Rightarrow> InstrumentRef \<Rightarrow> ResolvedInstrument" where
  "look_up m h = (let v = stored_value h in
     case FindInstrumentWithMetaByIdentifier (h\<lparr>ref_Value := v\<rparr>) m of (i, ac, exch, cur) \<Rightarrow>
       if i = '''' \<and> ref_Domain h = ''''
       then \<lparr>ri_ID = bare_lookup (ref_Type h) v m, ri_AssetClass = '''', ri_Exchange = '''', ri_Currency = ''''\<rparr>
       else \<lparr>ri_ID = i, ri_AssetClass = ac, ri_Exchange = exch, ri_Currency = cur\<rparr>)"

fun by_hints :: "Master \<Rightarrow> ResolvedInstrument list \<Rightarrow> InstrumentRef list \<Rightarrow> ResolvedInstrument list" where
  "by_hints m acc [] = acc"
| "by_hints m acc (h # hs) =
     (if ref_Type h = '''' \<or> ref_Value h = '''' then by_hints m acc hs
      else let r = look_up m h in
        by_hints m (if ri_ID r \<noteq> '''' \<and> \<not> list_ex (\<lambda>x. ri_ID x = ri_ID r) acc then acc @ [r] else acc) hs)"

definition ResolveByHintsDBOnly :: "Master \<Rightarrow> InstrumentRef list \<Rightarrow> ResolvedInstrument list" where
  "ResolveByHintsDBOnly m hints = by_hints m [] hints"

definition look_up_id :: "Master \<Rightarrow> InstrumentRef \<Rightarrow> string" where
  "look_up_id m h = (let v = stored_value h; i = FindInstrumentByIdentifier (h\<lparr>ref_Value := v\<rparr>) m in
     if i = '''' \<and> ref_Domain h = '''' then bare_lookup (ref_Type h) v m else i)"

fun ids_by_hints :: "Master \<Rightarrow> string list \<Rightarrow> InstrumentRef list \<Rightarrow> string list" where
  "ids_by_hints m acc [] = acc"
| "ids_by_hints m acc (h # hs) =
     (if ref_Type h = '''' \<or> ref_Value h = '''' then ids_by_hints m acc hs
      else let i = look_up_id m h in ids_by_hints m (if i \<noteq> '''' \<and> i \<notin> set acc then acc @ [i] else acc) hs)"

definition ResolveIDsByHintsDBOnly :: "Master \<Rightarrow> InstrumentRef list \<Rightarrow> string list" where
  "ResolveIDsByHintsDBOnly m hints = ids_by_hints m [] hints"

subsection \<open>Comparing answers\<close>

datatype id_error = ErrNotIdentified | DeadlineExceeded | OtherError

record pluginResult =
  rs_inst :: "Described option"
  rs_ids :: "InstrumentRef list"
  rs_filtered :: "InstrumentRef list"
  rs_Outcome :: string
  rs_Retries :: nat
  rs_err :: "id_error option"

record ClaimedIdentifier =
  cl_Ref :: InstrumentRef
  cl_Role :: string

type_synonym IdentityClaim = "ClaimedIdentifier list"

definition claimed :: "string \<Rightarrow> InstrumentRef \<Rightarrow> ClaimedIdentifier" where
  "claimed role r = \<lparr>cl_Ref = r, cl_Role = role\<rparr>"

definition claim :: "pluginResult \<Rightarrow> IdentityClaim" where
  "claim r = map (claimed ''returned'') (rs_ids r) @ map (claimed ''filtered'') (rs_filtered r)"

fun flatten_loop :: "InstrumentRef list \<Rightarrow> ClaimedIdentifier list \<Rightarrow> InstrumentRef list" where
  "flatten_loop out [] = out"
| "flatten_loop out (c # cs) =
     (if cl_Role c \<noteq> ''returned'' \<or> list_ex (\<lambda>x. ref_Type x = ref_Type (cl_Ref c)) out then flatten_loop out cs
      else flatten_loop (out @ [cl_Ref c]) cs)"

definition flattenClaims :: "IdentityClaim list \<Rightarrow> InstrumentRef list" where
  "flattenClaims claims = flatten_loop [] (concat claims)"

text \<open>The normaliser is what \<open>NewDBMICNormalizer\<close> makes of a store.\<close>

definition NewDBMICNormalizer :: "Master \<Rightarrow> string \<Rightarrow> string" where
  "NewDBMICNormalizer m mic = (if mic = '''' then mic else case LookupOperatingMIC mic m of Inl _ \<Rightarrow> mic | Inr op \<Rightarrow> op)"

definition normalizeMICValue :: "(string \<Rightarrow> string) \<Rightarrow> string \<Rightarrow> string" where
  "normalizeMICValue nrm mic = (if mic = '''' then mic else nrm mic)"

definition normalizeVenue :: "(string \<Rightarrow> string) \<Rightarrow> Venue \<Rightarrow> Venue" where
  "normalizeVenue nrm v = v\<lparr>vn_MIC := normalizeMICValue nrm (vn_MIC v)\<rparr>"

definition domainOf :: "(string \<Rightarrow> string) \<Rightarrow> InstrumentRef \<Rightarrow> string" where
  "domainOf nrm r = (if ref_Type r = ''MIC_TICKER'' then normalizeMICValue nrm (ref_Domain r) else ref_Domain r)"

definition sameSubject :: "(string \<Rightarrow> string) \<Rightarrow> InstrumentRef \<Rightarrow> InstrumentRef \<Rightarrow> bool" where
  "sameSubject nrm a b \<longleftrightarrow> ref_Type a = ref_Type b \<and> EqualFold (domainOf nrm a) (domainOf nrm b)"

definition contradicts :: "(string \<Rightarrow> string) \<Rightarrow> InstrumentRef \<Rightarrow> InstrumentRef \<Rightarrow> bool" where
  "contradicts nrm a b \<longleftrightarrow>
     (if ref_Type a \<noteq> ref_Type b then False
      else if NamesAListing (ref_Type a) \<and> ref_Domain a \<noteq> '''' \<and> ref_Domain b \<noteq> '''' \<and> \<not> EqualFold (domainOf nrm a) (domainOf nrm b) then True
      else sameSubject nrm a b \<and> ref_Value a \<noteq> ref_Value b)"

text \<open>The loop over what the winner named, until something agrees: whether it did, and whether anything conflicted.\<close>

fun scan_winner :: "(string \<Rightarrow> string) \<Rightarrow> InstrumentRef \<Rightarrow> bool \<Rightarrow> InstrumentRef list \<Rightarrow> bool \<times> bool" where
  "scan_winner nrm o' found [] = (False, found)"
| "scan_winner nrm o' found (w # ws) =
     (if sameSubject nrm w o' \<and> ref_Value w = ref_Value o' then (True, found)
      else scan_winner nrm o' (found \<or> contradicts nrm w o') ws)"

definition consistentWith :: "(string \<Rightarrow> string) \<Rightarrow> (string \<Rightarrow> string) \<Rightarrow> Described \<times> InstrumentRef list \<Rightarrow> Described \<times> InstrumentRef list \<Rightarrow> bool" where
  "consistentWith nrm countryOf winner other \<longleftrightarrow> (case (winner, other) of ((wi, wids), (oi, oids)) \<Rightarrow>
     \<not> (ds_Currency wi \<noteq> '''' \<and> ds_Currency oi \<noteq> '''' \<and> \<not> EqualFold (ds_Currency wi) (ds_Currency oi))
     \<and> Agrees countryOf (normalizeVenue nrm (ds_Venue wi)) (normalizeVenue nrm (ds_Venue oi))
     \<and> list_all (\<lambda>o'. case scan_winner nrm o' False wids of (eq, found) \<Rightarrow> eq \<or> \<not> found) oids)"

definition fillBlanks :: "(string \<Rightarrow> string) \<Rightarrow> (string \<Rightarrow> string) \<Rightarrow> Described \<Rightarrow> Described \<Rightarrow> Described" where
  "fillBlanks nrm countryOf dst src =
     (let v = ds_Venue dst;
          v1 = (if vn_MIC v = '''' \<and> vn_MIC (ds_Venue src) \<noteq> '''' \<and> Permits countryOf v (normalizeMICValue nrm (vn_MIC (ds_Venue src)))
                then v\<lparr>vn_MIC := vn_MIC (ds_Venue src)\<rparr> else v);
          v2 = (if vn_Country v1 = '''' then v1\<lparr>vn_Country := vn_Country (ds_Venue src)\<rparr> else v1);
          cur = (if ds_Currency dst = '''' \<and> ds_Currency src \<noteq> ''''
                   \<and> (vn_MIC v2 = '''' \<or> EqualFold (normalizeMICValue nrm (vn_MIC v2)) (normalizeMICValue nrm (vn_MIC (ds_Venue src))))
                 then ds_Currency src else ds_Currency dst) in
      dst\<lparr>ds_Venue := v2, ds_Currency := cur,
          ds_Name := (if ds_Name dst = '''' then ds_Name src else ds_Name dst),
          ds_CIK := (if ds_CIK dst = '''' then ds_CIK src else ds_CIK dst),
          ds_SICCode := (if ds_SICCode dst = '''' then ds_SICCode src else ds_SICCode dst)\<rparr>)"

subsection \<open>Comparing an answer with what was given\<close>

definition type_known :: "string \<Rightarrow> bool" where
  "type_known t \<longleftrightarrow> t \<noteq> '''' \<and> t \<noteq> AssetClassUnknown"

definition currency_diff :: "Hints \<Rightarrow> Described \<Rightarrow> HintDiff list" where
  "currency_diff hints inst =
     (if hi_Currency hints \<noteq> '''' \<and> ds_Currency inst \<noteq> '''' \<and> \<not> EqualFold (hi_Currency hints) (ds_Currency inst)
      then [\<lparr>hd_Field = ''Currency'', hd_HintValue = hi_Currency hints, hd_ResolvedValue = ds_Currency inst\<rparr>] else [])"

definition type_diff :: "Hints \<Rightarrow> Described \<Rightarrow> HintDiff list" where
  "type_diff hints inst =
     (if type_known (hi_SecurityTypeHint hints) \<and> type_known (ds_AssetClass inst) \<and> \<not> EqualFold (hi_SecurityTypeHint hints) (ds_AssetClass inst)
      then [\<lparr>hd_Field = ''SecurityType'', hd_HintValue = hi_SecurityTypeHint hints, hd_ResolvedValue = ds_AssetClass inst\<rparr>] else [])"

definition named_venues :: "InstrumentRef list \<Rightarrow> InstrumentRef list" where
  "named_venues hs = filter (\<lambda>h. ref_Type h = ''MIC_TICKER'' \<and> ref_Domain h \<noteq> '''') hs"

definition on_venue :: "(string \<Rightarrow> string) \<Rightarrow> Described \<Rightarrow> InstrumentRef \<Rightarrow> bool" where
  "on_venue nrm inst h \<longleftrightarrow> EqualFold (normalizeMICValue nrm (ref_Domain h)) (normalizeMICValue nrm (vn_MIC (ds_Venue inst)))"

definition exchange_diff :: "(string \<Rightarrow> string) \<Rightarrow> InstrumentRef list \<Rightarrow> Described \<Rightarrow> HintDiff list" where
  "exchange_diff nrm hs inst =
     (if vn_MIC (ds_Venue inst) = '''' \<or> list_ex (on_venue nrm inst) (named_venues hs) then []
      else case named_venues hs of [] \<Rightarrow> []
        | h # _ \<Rightarrow> [\<lparr>hd_Field = ''Exchange'', hd_HintValue = ref_Domain h, hd_ResolvedValue = vn_MIC (ds_Venue inst)\<rparr>])"

definition identifier_diff :: "(string \<Rightarrow> string) \<Rightarrow> InstrumentRef list \<Rightarrow> InstrumentRef \<Rightarrow> HintDiff list" where
  "identifier_diff nrm resolved h =
     (if ref_Value h = '''' then []
      else case List.find (\<lambda>r. ref_Value r \<noteq> '''' \<and> sameSubject nrm h r) resolved of
        None \<Rightarrow> []
      | Some r \<Rightarrow> if ref_Value r \<noteq> ref_Value h
          then [\<lparr>hd_Field = ref_Type h, hd_HintValue = ref_Value h, hd_ResolvedValue = ref_Value r\<rparr>] else [])"

definition CompareHints :: "(string \<Rightarrow> string) \<Rightarrow> Hints \<Rightarrow> InstrumentRef list \<Rightarrow> Described \<Rightarrow> InstrumentRef list \<Rightarrow> HintDiff list" where
  "CompareHints nrm hints hs inst resolved =
     currency_diff hints inst @ type_diff hints inst @ exchange_diff nrm hs inst @ concat (map (identifier_diff nrm resolved) hs)"

text \<open>Something was given, the answer says something about it, and they do not differ.\<close>

definition resultMatchesHints :: "(string \<Rightarrow> string) \<Rightarrow> Hints \<Rightarrow> InstrumentRef list \<Rightarrow> Described \<Rightarrow> InstrumentRef list \<Rightarrow> bool" where
  "resultMatchesHints nrm hints hs inst ids \<longleftrightarrow> CompareHints nrm hints hs inst ids = []
     \<and> (hi_Currency hints \<noteq> '''' \<and> ds_Currency inst \<noteq> ''''
        \<or> type_known (hi_SecurityTypeHint hints) \<and> type_known (ds_AssetClass inst)
        \<or> vn_MIC (ds_Venue inst) \<noteq> '''' \<and> named_venues hs \<noteq> []
        \<or> list_ex (\<lambda>h. ref_Value h \<noteq> '''' \<and> list_ex (\<lambda>r. ref_Value r \<noteq> '''' \<and> sameSubject nrm h r) ids) hs)"

definition confirmedFields :: "(string \<Rightarrow> string) \<Rightarrow> Hints \<Rightarrow> InstrumentRef list \<Rightarrow> Described \<Rightarrow> InstrumentRef list \<Rightarrow> string list" where
  "confirmedFields nrm hints hs inst resolved =
     (if hi_Currency hints \<noteq> '''' \<and> ds_Currency inst \<noteq> '''' \<and> EqualFold (hi_Currency hints) (ds_Currency inst) then [''Currency''] else [])
     @ (if type_known (hi_SecurityTypeHint hints) \<and> type_known (ds_AssetClass inst) \<and> EqualFold (hi_SecurityTypeHint hints) (ds_AssetClass inst)
        then [''SecurityType''] else [])
     @ (if vn_MIC (ds_Venue inst) \<noteq> '''' \<and> list_ex (on_venue nrm inst) (named_venues hs) then [''Exchange''] else [])
     @ map ref_Type (filter (\<lambda>h. ref_Value h \<noteq> '''' \<and> list_ex (\<lambda>r. ref_Value r = ref_Value h \<and> sameSubject nrm h r) resolved) hs)"

definition proposalOutcome :: "(string \<Rightarrow> string) \<Rightarrow> Described \<Rightarrow> (string \<rightharpoonup> string) \<Rightarrow> InstrumentRef \<Rightarrow> string" where
  "proposalOutcome nrm inst byType p =
     (if ref_Type p = ''CURRENCY''
      then (if ds_Currency inst = '''' then ''untested'' else if EqualFold (ds_Currency inst) (ref_Value p) then ''confirmed'' else ''contradicted'')
      else (case byType (ref_Type p) of
          Some v \<Rightarrow>
            if \<not> EqualFold v (ref_Value p) then ''contradicted''
            else if ref_Domain p \<noteq> '''' \<and> vn_MIC (ds_Venue inst) \<noteq> '''' \<and> \<not> on_venue nrm inst p then ''contradicted''
            else ''confirmed''
        | None \<Rightarrow>
            if ref_Domain p \<noteq> '''' \<and> vn_MIC (ds_Venue inst) \<noteq> '''' \<and> \<not> on_venue nrm inst p then ''contradicted''
            else ''untested''))"

definition proposalOutcomes :: "(string \<Rightarrow> string) \<Rightarrow> InstrumentRef list \<Rightarrow> (Described \<times> InstrumentRef list) option \<Rightarrow> (InstrumentRef \<times> string) list" where
  "proposalOutcomes nrm proposed answer = (case answer of
       None \<Rightarrow> map (\<lambda>p. (p, ''unused'')) proposed
     | Some (inst, ids) \<Rightarrow>
         (let byType = map_of (rev (map (\<lambda>r. (ref_Type r, ref_Value r)) (filter (\<lambda>r. ref_Value r \<noteq> '''') ids))) in
          map (\<lambda>p. (p, proposalOutcome nrm inst byType p)) proposed))"

end
