(* ===== verification/Resolution.thy ===== *)
theory Resolution
  imports Identification
begin

text \<open>
  \<open>ResolveWithPlugins\<close> of \<open>src/server/service/identification/resolve.go\<close>: the lookup that comes first, the
  plugins asked, the answer chosen among theirs, the answers merged into it, the underlying of a
  derivative resolved by the same function one level down, and the instrument ensured. A run ends in
  a store and either an error or a result, because what was written before an error stays written.

  The exchange table is not written, so the normaliser is made once. What is handed to
  \<open>SaveProviderIdentifiers\<close> and the attempts recorded are kept as lists; neither is read again here.
\<close>

subsection \<open>State\<close>

record Attempt =
  at_DB :: bool
  at_KeyID :: string
  at_Purpose :: string

record CallRow =
  ca_PluginID :: string
  ca_Outcome :: string
  ca_Retries :: nat
  ca_Claims :: IdentityClaim

record AttemptRow =
  aw_KeyID :: string
  aw_Purpose :: string
  aw_Depth :: nat
  aw_Outcome :: string
  aw_SecurityTypeHint :: string
  aw_AssetClass :: string
  aw_HadIdentifierHints :: bool
  aw_Calls :: "CallRow list"

record Directory =
  dy_master :: Master
  dy_countries :: "(string \<times> string) list"
  dy_configs :: "PluginConfigRow list"
  dy_saved :: "(string \<times> ProviderRef list) list"
  dy_attempts :: "AttemptRow list"

text \<open>A plugin, with what an invocation of it ends with: its configuration, broker, source, description and identity given.\<close>

record IdPlugin =
  idp_Kinds :: "(string \<times> bool) list"
  idp_Types :: "(string \<times> bool) list"
  idp_Identify :: "string \<Rightarrow> string \<Rightarrow> string \<Rightarrow> string \<Rightarrow> Identity \<Rightarrow> pluginResult"

record ResolveResult =
  rv_InstrumentID :: string
  rv_HadTimeout :: bool
  rv_HadError :: bool
  rv_Identified :: bool
  rv_HintDiffs :: "HintDiff list"
  rv_Unconfirmed :: bool
  rv_Confirmed :: "string list"
  rv_ProposalOutcomes :: "(InstrumentRef \<times> string) list"

text \<open>The arguments of a call.\<close>

record Request =
  rq_Broker :: string
  rq_Source :: string
  rq_Description :: string
  rq_Ident :: Identity
  rq_Bind :: bool
  rq_Tel :: Attempt
  rq_Depth :: nat
  rq_HintsValidAt :: "time option"

type_synonym registry = "string \<Rightarrow> IdPlugin option"
type_synonym 'a run = "Directory \<times> (string + 'a)"
type_synonym FallbackFunc = "Directory \<Rightarrow> string run"

definition MaxResolveDepth :: nat where "MaxResolveDepth = 2"

definition LookupMICCountry :: "string \<Rightarrow> Directory \<Rightarrow> string" where
  "LookupMICCountry mic d = (case map_of (dy_countries d) mic of None \<Rightarrow> '''' | Some c \<Rightarrow> c)"

definition NewDBMICCountry :: "Directory \<Rightarrow> string \<Rightarrow> string" where
  "NewDBMICCountry d mic = (if mic = '''' then '''' else LookupMICCountry mic d)"

definition VintageDate :: "time option \<Rightarrow> time option" where
  "VintageDate t = map_option date_of t"

subsection \<open>What is looked up, and who is asked\<close>

definition guessedKey :: "Identity \<Rightarrow> bool" where
  "guessedKey ident \<longleftrightarrow> iy_Stated ident = [] \<and> iy_Proposed ident \<noteq> []"

definition keyed_identity :: "Identity \<Rightarrow> Identity" where
  "keyed_identity ident = (if guessedKey ident then ident\<lparr>iy_Stated := iy_Proposed ident, iy_Proposed := []\<rparr> else ident)"

definition lookupIDs :: "Identity \<Rightarrow> InstrumentRef list" where
  "lookupIDs ident =
     (if guessedKey ident then map (\<lambda>h. if ref_Type h = ''MIC_TICKER'' then h\<lparr>ref_Domain := ''''\<rparr> else h) (iy_Stated (keyed_identity ident))
      else iy_Stated (keyed_identity ident))"

definition enabled_identifiers :: "Directory \<Rightarrow> PluginConfigRow list" where
  "enabled_identifiers d = go_sort (\<lambda>a b. pg_Precedence b < pg_Precedence a) (dy_configs d)"

definition plugin_inputs :: "registry \<Rightarrow> PluginConfigRow list \<Rightarrow> Hints \<Rightarrow> (PluginConfigRow \<times> IdPlugin) list" where
  "plugin_inputs registry configs hints = List.map_filter (\<lambda>c. case registry (pg_PluginID c) of
       None \<Rightarrow> None
     | Some p \<Rightarrow> if ShouldAttemptPlugin (idp_Kinds p) (idp_Types p) (hi_InstrumentKind hints) (hi_SecurityTypeHint hints) then Some (c, p) else None)
     configs"

definition call_plugins :: "(PluginConfigRow \<times> IdPlugin) list \<Rightarrow> Request \<Rightarrow> pluginResult list" where
  "call_plugins inputs rq = map (\<lambda>(c, p). idp_Identify p (pg_Config c) (rq_Broker rq) (rq_Source rq) (rq_Description rq) (keyed_identity (rq_Ident rq))) inputs"

subsection \<open>The answer chosen\<close>

definition answer :: "pluginResult \<Rightarrow> (Described \<times> InstrumentRef list) option" where
  "answer r = (case (rs_err r, rs_inst r) of (None, Some inst) \<Rightarrow> Some (inst, rs_ids r) | _ \<Rightarrow> None)"

fun first_index :: "('a \<Rightarrow> bool) \<Rightarrow> 'a list \<Rightarrow> nat option" where
  "first_index P [] = None"
| "first_index P (x # xs) = (if P x then Some 0 else map_option Suc (first_index P xs))"

definition hasStated :: "Hints \<Rightarrow> InstrumentRef list \<Rightarrow> bool" where
  "hasStated hints hs \<longleftrightarrow> hi_Currency hints \<noteq> '''' \<or> type_known (hi_SecurityTypeHint hints) \<or> hs \<noteq> []"

definition no_hints :: Hints where
  "no_hints = \<lparr>hi_Currency = '''', hi_InstrumentKind = '''', hi_SecurityTypeHint = ''''\<rparr>"

definition agrees_stated :: "(string \<Rightarrow> string) \<Rightarrow> Identity \<Rightarrow> pluginResult \<Rightarrow> bool" where
  "agrees_stated nrm ident r \<longleftrightarrow> (case answer r of None \<Rightarrow> False
     | Some (inst, ids) \<Rightarrow> hasStated (iy_Hints ident) (iy_Stated ident) \<and> resultMatchesHints nrm (iy_Hints ident) (iy_Stated ident) inst ids)"

definition agrees_proposed :: "(string \<Rightarrow> string) \<Rightarrow> Identity \<Rightarrow> pluginResult \<Rightarrow> bool" where
  "agrees_proposed nrm ident r \<longleftrightarrow> (case answer r of None \<Rightarrow> False
     | Some (inst, ids) \<Rightarrow> iy_Proposed (keyed_identity ident) \<noteq> [] \<and> CompareHints nrm (iy_Hints ident) (iy_Stated ident) inst ids = []
         \<and> resultMatchesHints nrm no_hints (iy_Proposed (keyed_identity ident)) inst ids)"

definition winnerIdx :: "(string \<Rightarrow> string) \<Rightarrow> Identity \<Rightarrow> pluginResult list \<Rightarrow> nat option" where
  "winnerIdx nrm ident results = (case first_index (agrees_stated nrm ident) results of
       Some i \<Rightarrow> Some i
     | None \<Rightarrow> (case first_index (agrees_proposed nrm ident) results of
         Some i \<Rightarrow> Some i
       | None \<Rightarrow> first_index (\<lambda>r. answer r \<noteq> None) results))"

definition hadTimeout :: "pluginResult list \<Rightarrow> bool" where
  "hadTimeout results \<longleftrightarrow> list_ex (\<lambda>r. answer r = None \<and> rs_err r = Some DeadlineExceeded) results"

definition hadOtherErr :: "pluginResult list \<Rightarrow> bool" where
  "hadOtherErr results \<longleftrightarrow> list_ex (\<lambda>r. answer r = None \<and> rs_err r \<noteq> Some ErrNotIdentified \<and> rs_err r \<noteq> Some DeadlineExceeded) results"

subsection \<open>The answers merged\<close>

definition taken :: "(string \<Rightarrow> string) \<Rightarrow> (string \<Rightarrow> string) \<Rightarrow> pluginResult list \<Rightarrow> nat \<Rightarrow> nat \<Rightarrow> bool" where
  "taken nrm countryOf results w i \<longleftrightarrow> (case (answer (results ! w), answer (results ! i)) of
       (Some win, Some other) \<Rightarrow> i = w \<or> consistentWith nrm countryOf win other
     | _ \<Rightarrow> False)"

definition contributors :: "(string \<Rightarrow> string) \<Rightarrow> (string \<Rightarrow> string) \<Rightarrow> pluginResult list \<Rightarrow> nat \<Rightarrow> nat list" where
  "contributors nrm countryOf results w = filter (taken nrm countryOf results w) [0..<length results]"

definition mergedIds :: "(string \<Rightarrow> string) \<Rightarrow> (string \<Rightarrow> string) \<Rightarrow> pluginResult list \<Rightarrow> nat \<Rightarrow> InstrumentRef list" where
  "mergedIds nrm countryOf results w = flattenClaims (map (\<lambda>i. claim (results ! i)) (contributors nrm countryOf results w))"

definition merged_instrument :: "(string \<Rightarrow> string) \<Rightarrow> (string \<Rightarrow> string) \<Rightarrow> pluginResult list \<Rightarrow> nat \<Rightarrow> Described \<Rightarrow> Described" where
  "merged_instrument nrm countryOf results w inst = foldl (fillBlanks nrm countryOf) inst
     (List.map_filter (\<lambda>i. if i = w then None else rs_inst (results ! i)) (contributors nrm countryOf results w))"

definition providerIDs :: "(string \<Rightarrow> string) \<Rightarrow> (string \<Rightarrow> string) \<Rightarrow> pluginResult list \<Rightarrow> nat \<Rightarrow> ProviderRef list" where
  "providerIDs nrm countryOf results w = concat (map (\<lambda>i. case rs_inst (results ! i) of None \<Rightarrow> [] | Some inst \<Rightarrow> ds_ProviderIdentifiers inst)
     (contributors nrm countryOf results w))"

definition callOutcome :: "(string \<Rightarrow> string) \<Rightarrow> (string \<Rightarrow> string) \<Rightarrow> pluginResult list \<Rightarrow> nat option \<Rightarrow> nat \<Rightarrow> string" where
  "callOutcome nrm countryOf results winner i = (case winner of
       None \<Rightarrow> rs_Outcome (results ! i)
     | Some w \<Rightarrow> if answer (results ! i) = None then rs_Outcome (results ! i)
         else if i = w then ''won'' else if taken nrm countryOf results w i then ''superseded'' else ''discarded_inconsistent'')"

definition identifier_inputs :: "time option \<Rightarrow> InstrumentRef list \<Rightarrow> bool \<Rightarrow> InstrumentRef \<Rightarrow> IdentifierInput list" where
  "identifier_inputs nameFrom ids bind description =
     map (\<lambda>r. \<lparr>ii_Ref = r, ii_Canonical = True, ii_ValidFrom = nameFrom, ii_ValidBefore = None\<rparr>) ids
     @ (if bind \<and> description \<notin> set ids
        then [\<lparr>ii_Ref = description, ii_Canonical = False, ii_ValidFrom = nameFrom, ii_ValidBefore = None\<rparr>] else [])"

definition option_fields :: "Env \<Rightarrow> InstrumentRef \<Rightarrow> OptionFields option" where
  "option_fields env r =
     (if ref_Type r \<noteq> ''OCC'' then None
      else case OCCPadded (ref_Value r) of None \<Rightarrow> None
        | Some padded \<Rightarrow> (case ParseOptionTicker (env_parse_dec env) padded of None \<Rightarrow> None
            | Some p \<Rightarrow> if po_Strike p \<le> 0 \<or> IsZero (po_Expiry p) \<or> po_PutCall p = '''' then None
                else Some \<lparr>of_Strike = po_Strike p,
                  of_Expiry = time_at (cd_year (po_Expiry p)) (cd_month (po_Expiry p)) (cd_day (po_Expiry p)), of_PutCall = po_PutCall p\<rparr>))"

fun optionFieldsFromIdentifiers :: "Env \<Rightarrow> InstrumentRef list \<Rightarrow> OptionFields option" where
  "optionFieldsFromIdentifiers env [] = None"
| "optionFieldsFromIdentifiers env (r # rs) = (case option_fields env r of None \<Rightarrow> optionFieldsFromIdentifiers env rs | Some f \<Rightarrow> Some f)"

subsection \<open>What is recorded\<close>

definition Attempt_write :: "Attempt \<Rightarrow> AttemptRow \<Rightarrow> Directory \<Rightarrow> Directory" where
  "Attempt_write tel row d = (if \<not> at_DB tel \<or> at_KeyID tel = '''' then d
     else d\<lparr>dy_attempts := dy_attempts d @ [row\<lparr>aw_KeyID := at_KeyID tel, aw_Purpose := at_Purpose tel\<rparr>]\<rparr>)"

definition writeCall :: "PluginConfigRow \<Rightarrow> string \<Rightarrow> pluginResult \<Rightarrow> CallRow" where
  "writeCall c outcome r = \<lparr>ca_PluginID = pg_PluginID c,
     ca_Outcome = (if outcome = ''identified'' then ''not_identified'' else outcome), ca_Retries = rs_Retries r,
     ca_Claims = (if rs_inst r = None then [] else claim r)\<rparr>"

definition attempt_row :: "Request \<Rightarrow> string \<Rightarrow> string \<Rightarrow> CallRow list \<Rightarrow> AttemptRow" where
  "attempt_row rq outcome assetClass calls = \<lparr>aw_KeyID = '''', aw_Purpose = '''', aw_Depth = rq_Depth rq, aw_Outcome = outcome,
     aw_SecurityTypeHint = hi_SecurityTypeHint (iy_Hints (rq_Ident rq)), aw_AssetClass = assetClass,
     aw_HadIdentifierHints = (iy_Stated (keyed_identity (rq_Ident rq)) \<noteq> []), aw_Calls = calls\<rparr>"

definition writeAttempt :: "Request \<Rightarrow> (PluginConfigRow \<times> IdPlugin) list \<Rightarrow> pluginResult list \<Rightarrow> nat option \<Rightarrow> string \<Rightarrow> string \<Rightarrow> Directory \<Rightarrow> Directory" where
  "writeAttempt rq inputs results winner outcome assetClass d =
     Attempt_write (rq_Tel rq) (attempt_row rq outcome assetClass
       (map (\<lambda>i. writeCall (fst (inputs ! i))
          (callOutcome (NewDBMICNormalizer (dy_master d)) (NewDBMICCountry d) results winner i) (results ! i)) [0..<length results])) d"

subsection \<open>One level\<close>

definition underlying_identity :: "Described \<Rightarrow> Identity" where
  "underlying_identity inst = \<lparr>iy_Stated = ds_UnderlyingIdentifiers inst, iy_Proposed = [],
     iy_Hints = no_hints\<lparr>hi_SecurityTypeHint := UnderlyingSecTypeHint (ds_AssetClass inst)\<rparr>\<rparr>"

definition resolve_underlying :: "(Identity \<Rightarrow> Directory \<Rightarrow> ResolveResult run) option \<Rightarrow> Described \<Rightarrow> Directory \<Rightarrow> Directory \<times> string" where
  "resolve_underlying below inst d = (case below of
       None \<Rightarrow> (d, '''')
     | Some f \<Rightarrow> if ds_UnderlyingIdentifiers inst = [] then (d, '''')
         else (case f (underlying_identity inst) d of
             (d', Inl _) \<Rightarrow> (d', '''')
           | (d', Inr r) \<Rightarrow> (d', rv_InstrumentID r)))"

definition no_result :: ResolveResult where
  "no_result = \<lparr>rv_InstrumentID = '''', rv_HadTimeout = False, rv_HadError = False, rv_Identified = False, rv_HintDiffs = [],
     rv_Unconfirmed = False, rv_Confirmed = [], rv_ProposalOutcomes = []\<rparr>"

definition SaveProviderIdentifiers :: "string \<Rightarrow> ProviderRef list \<Rightarrow> Directory \<Rightarrow> Directory" where
  "SaveProviderIdentifiers i ps d = (if ps = [] then d else d\<lparr>dy_saved := dy_saved d @ [(i, ps)]\<rparr>)"

definition ensure_in :: "Env \<Rightarrow> Described \<Rightarrow> IdentifierInput list \<Rightarrow> string \<Rightarrow> OptionFields option \<Rightarrow> Directory \<Rightarrow> string run" where
  "ensure_in env inst idns underlyingID opt d =
     (case EnsureInstrument env (ds_AssetClass inst) (vn_MIC (ds_Venue inst)) (ds_Currency inst) (ds_CIK inst) (ds_SICCode inst)
        idns underlyingID (ds_ValidFrom inst) (ds_ValidBefore inst) opt (dy_master d) of
        Inl e \<Rightarrow> (d, Inl e)
      | Inr (m, i) \<Rightarrow> (d\<lparr>dy_master := m\<rparr>, Inr i))"

definition then_run :: "'a run \<Rightarrow> ('a \<Rightarrow> Directory \<Rightarrow> 'b run) \<Rightarrow> 'b run" where
  "then_run r f = (case r of (d, Inl e) \<Rightarrow> (d, Inl e) | (d, Inr x) \<Rightarrow> f x d)"

definition resolve_won :: "Env \<Rightarrow> Request \<Rightarrow> FallbackFunc option \<Rightarrow> (Identity \<Rightarrow> Directory \<Rightarrow> ResolveResult run) option
    \<Rightarrow> (PluginConfigRow \<times> IdPlugin) list \<Rightarrow> pluginResult list \<Rightarrow> nat \<Rightarrow> Described \<Rightarrow> Directory \<Rightarrow> ResolveResult run" where
  "resolve_won env rq fallback below inputs results w won d =
     (let nrm = NewDBMICNormalizer (dy_master d); countryOf = NewDBMICCountry d; ident = rq_Ident rq;
          ids = mergedIds nrm countryOf results w;
          inst = merged_instrument nrm countryOf results w won;
          nameFrom = VintageDate (Some (case rq_HintsValidAt rq of None \<Rightarrow> sm_now (dy_master d) | Some t \<Rightarrow> t));
          idns = identifier_inputs nameFrom ids (rq_Bind rq) (description_ref (rq_Source rq) (rq_Description rq));
          below_ran = resolve_underlying below inst d;
          opt = (if ds_AssetClass inst = AssetClassOption then optionFieldsFromIdentifiers env ids else None);
          diffs = CompareHints nrm (iy_Hints ident) (iy_Stated ident) inst ids;
          confirmed = confirmedFields nrm (iy_Hints ident) (iy_Stated ident) inst ids;
          outcomes = proposalOutcomes nrm (iy_Proposed ident) (Some (inst, ids)) in
      case (guessedKey ident \<and> confirmed = [], fallback) of
        (True, Some fb) \<Rightarrow> then_run (fb (fst below_ran)) (\<lambda>i d'.
          (writeAttempt rq inputs results (Some w) ''proposal_unconfirmed'' '''' d',
           Inr (no_result\<lparr>rv_InstrumentID := i, rv_Unconfirmed := True, rv_HintDiffs := diffs, rv_ProposalOutcomes := outcomes\<rparr>)))
      | _ \<Rightarrow> then_run (ensure_in env inst idns (snd below_ran) opt (fst below_ran)) (\<lambda>i d'.
          (writeAttempt rq inputs results (Some w) ''identified'' (ds_AssetClass inst) (SaveProviderIdentifiers i (providerIDs nrm countryOf results w) d'),
           Inr (no_result\<lparr>rv_InstrumentID := i, rv_Identified := True, rv_HintDiffs := diffs, rv_Confirmed := confirmed,
             rv_ProposalOutcomes := outcomes\<rparr>))))"

definition unresolved_outcome :: "pluginResult list \<Rightarrow> string" where
  "unresolved_outcome results =
     (if results = [] then ''no_eligible_plugins'' else if hadTimeout results then ''plugin_timeout''
      else if hadOtherErr results then ''plugin_error'' else ''not_identified'')"

definition resolve_unidentified :: "Request \<Rightarrow> FallbackFunc option \<Rightarrow> (PluginConfigRow \<times> IdPlugin) list \<Rightarrow> pluginResult list \<Rightarrow> Directory \<Rightarrow> ResolveResult run" where
  "resolve_unidentified rq fallback inputs results d =
     (let r = no_result\<lparr>rv_HadTimeout := hadTimeout results, rv_HadError := hadOtherErr results,
            rv_ProposalOutcomes := proposalOutcomes (NewDBMICNormalizer (dy_master d)) (iy_Proposed (rq_Ident rq)) None\<rparr>;
          d' = writeAttempt rq inputs results None (unresolved_outcome results) '''' d in
      case fallback of
        None \<Rightarrow> (d', Inr r)
      | Some fb \<Rightarrow> then_run (fb d') (\<lambda>i d''. (d'', Inr (r\<lparr>rv_InstrumentID := i\<rparr>))))"

definition short_circuit :: "Request \<Rightarrow> ResolvedInstrument \<Rightarrow> Directory \<Rightarrow> ResolveResult run" where
  "short_circuit rq x d =
     (let nrm = NewDBMICNormalizer (dy_master d); ident = rq_Ident rq;
          inst = \<lparr>ds_AssetClass = ri_AssetClass x, ds_Venue = \<lparr>vn_MIC = ri_Exchange x, vn_Country = ''''\<rparr>, ds_Currency = ri_Currency x,
            ds_Name = '''', ds_CIK = '''', ds_SICCode = '''', ds_UnderlyingIdentifiers = [], ds_ProviderIdentifiers = [],
            ds_ValidFrom = None, ds_ValidBefore = None\<rparr> in
      (Attempt_write (rq_Tel rq) (attempt_row rq ''db_short_circuit'' (ri_AssetClass x) []) d,
       Inr (no_result\<lparr>rv_InstrumentID := ri_ID x, rv_Identified := True,
         rv_HintDiffs := CompareHints nrm (iy_Hints ident) (iy_Stated ident) inst [],
         rv_Confirmed := confirmedFields nrm (iy_Hints ident) (iy_Stated ident) inst [],
         rv_ProposalOutcomes := proposalOutcomes nrm (iy_Proposed ident) None\<rparr>)))"

definition resolve_once :: "Env \<Rightarrow> registry \<Rightarrow> Request \<Rightarrow> FallbackFunc option \<Rightarrow> (Identity \<Rightarrow> Directory \<Rightarrow> ResolveResult run) option
    \<Rightarrow> Directory \<Rightarrow> ResolveResult run" where
  "resolve_once env registry rq fallback below d =
     (case ResolveByHintsDBOnly (dy_master d) (lookupIDs (rq_Ident rq)) of
        [x] \<Rightarrow> short_circuit rq x d
      | _ \<Rightarrow>
          (let inputs = plugin_inputs registry (enabled_identifiers d) (iy_Hints (rq_Ident rq)); results = call_plugins inputs rq in
           case winnerIdx (NewDBMICNormalizer (dy_master d)) (rq_Ident rq) results of
             None \<Rightarrow> resolve_unidentified rq fallback inputs results d
           | Some w \<Rightarrow> (case answer (results ! w) of
               None \<Rightarrow> resolve_unidentified rq fallback inputs results d
             | Some (inst, _) \<Rightarrow> resolve_won env rq fallback below inputs results w inst d)))"

subsection \<open>Every level\<close>

definition underlying_request :: "Request \<Rightarrow> Identity \<Rightarrow> Request" where
  "underlying_request rq ident = rq\<lparr>rq_Description := '''', rq_Ident := ident, rq_Bind := False,
     rq_Tel := (rq_Tel rq)\<lparr>at_Purpose := ''underlying''\<rparr>, rq_Depth := rq_Depth rq + 1, rq_HintsValidAt := None\<rparr>"

function ResolveWithPlugins :: "Env \<Rightarrow> registry \<Rightarrow> Request \<Rightarrow> FallbackFunc option \<Rightarrow> Directory \<Rightarrow> ResolveResult run" where
  "ResolveWithPlugins env registry rq fallback d = resolve_once env registry rq fallback
     (if rq_Depth rq < MaxResolveDepth then Some (\<lambda>ident. ResolveWithPlugins env registry (underlying_request rq ident) None) else None) d"
  by pat_completeness auto
termination
  by (relation "measure (\<lambda>(env, registry, rq, fallback, d). MaxResolveDepth - rq_Depth rq)") (auto simp: underlying_request_def)

declare ResolveWithPlugins.simps [simp del]

end
