(* ===== verification/Batch_Resolve.thy ===== *)
theory Batch_Resolve
  imports Resolution Balance
begin

text \<open>
  Resolving the instruments of a batch of postings, \<open>src/server/service/ingestion/resolve.go\<close>, the pre-pass
  and the loop of \<open>worker.go\<close>, and the ledger of \<open>resolution_telemetry.go\<close>. A posting's key is its
  source, its description and the identifiers it states; each key is looked up once, put to the
  candidate plugins when the lookup leaves it open, and resolved at the first posting that carries it.

  A posting comes with the hints the caller read off it. The candidate plugins, the short hash that
  names a key to them, and the ids of the rows telemetry writes are arguments. A Go map is an
  association list whose first entry for a key counts; nothing here depends on the order of one but
  the list of identification errors, which is a range over a map and has no order in the source.
  Token counts, durations and the counts a new key row carries are left out.
\<close>

subsection \<open>Keys\<close>

definition zero_byte :: char where "zero_byte = CHR 0x00"

definition cacheKey :: "string \<Rightarrow> string \<Rightarrow> string" where
  "cacheKey source desc = source @ zero_byte # desc"

definition hint_order :: "InstrumentRef \<Rightarrow> InstrumentRef \<Rightarrow> bool" where
  "hint_order a b \<longleftrightarrow> ref_Type a < ref_Type b \<or> ref_Type a = ref_Type b \<and> ref_Value a < ref_Value b"

definition cacheKeyWithHints :: "string \<Rightarrow> string \<Rightarrow> InstrumentRef list \<Rightarrow> string" where
  "cacheKeyWithHints source desc hs =
     (if hs = [] then cacheKey source desc
      else cacheKey source desc @ concat (map (\<lambda>h. zero_byte # ref_Type h @ '':'' @ ref_Value h) (go_sort hint_order hs)))"

definition identityComplete :: "InstrumentRef list \<Rightarrow> bool" where
  "identityComplete hs \<longleftrightarrow> list_ex (\<lambda>h.
     ref_Type h \<in> {''CURRENCY'', ''FX_PAIR'', ''OCC'', ''OPRA'', ''FUT_OPT'', ''OPENFIGI_SHARE_CLASS'', ''OPENFIGI_COMPOSITE''}
     \<or> ref_Type h \<in> {''MIC_TICKER'', ''OPENFIGI_TICKER''} \<and> TrimSpace (ref_Domain h) \<noteq> '''') hs"

definition HintsFromTx :: "Tx \<Rightarrow> Hints" where
  "HintsFromTx tx = \<lparr>hi_Currency = x_TradingCurrency tx,
     hi_InstrumentKind = (if x_AssetClassHint tx = CASH then ''CASH'' else ''SECURITY''),
     hi_SecurityTypeHint = (if x_AssetClassHint tx = ASSET_CLASS_UNSPECIFIED then '''' else AssetClassToStr (x_AssetClassHint tx))\<rparr>"

definition hintsByType :: "InstrumentRef list \<Rightarrow> string \<Rightarrow> InstrumentRef list" where
  "hintsByType hs t = filter (\<lambda>h. ref_Type h = t) hs"

subsection \<open>Candidate plugins\<close>

record Proposal =
  pp_Field :: string
  pp_Identifier :: InstrumentRef
  pp_Confidence :: decimal

record keyProposals =
  kp_CallID :: string
  kp_Proposals :: "Proposal list"

record BatchItem =
  bi_ID :: string
  bi_InstrumentDescription :: string
  bi_Stated :: "InstrumentRef list"
  bi_Hints :: Hints

text \<open>The outcome a plugin reports, and an error or what it proposes for each item.\<close>

record CandidatePlugin =
  cp_Kinds :: "(string \<times> bool) list"
  cp_Types :: "(string \<times> bool) list"
  cp_ProposeBatch :: "string \<Rightarrow> string \<Rightarrow> string \<Rightarrow> BatchItem list \<Rightarrow> string \<times> (string + (string \<times> Proposal list) list)"

record CandidateCall =
  cc_PluginID :: string
  cc_Precedence :: int
  cc_BatchSize :: nat
  cc_ItemsCompleted :: nat
  cc_FieldsProposed :: nat
  cc_Outcome :: string

record ingestDeps =
  de_Registry :: registry
  de_CandidateRegistry :: "(string \<Rightarrow> CandidatePlugin option) option"
  de_CandidateConfigs :: "PluginConfigRow list"
  de_Telemetry :: bool
  de_RunID :: string
  de_RunKind :: string
  de_hash :: "string \<Rightarrow> string"
  de_call_id :: "nat \<Rightarrow> string"
  de_key_id :: "string \<Rightarrow> string"

definition completesPartialIdentity :: "ingestDeps \<Rightarrow> bool" where
  "completesPartialIdentity deps \<longleftrightarrow> de_RunKind deps = ''tx_import''"

record Candidates =
  cs_resolved :: "string list"
  cs_attempted :: "string list"
  cs_anyPlugin :: bool
  cs_merged :: "(string \<times> keyProposals) list"
  cs_calls :: "CandidateCall list"

definition kept_proposals :: "Master \<Rightarrow> (string \<times> Proposal list) list \<Rightarrow> (string \<times> Proposal list) list" where
  "kept_proposals m proposed = filter (\<lambda>(_, ps). ps \<noteq> []) (map (\<lambda>(i, ps).
     (i, List.map_filter (\<lambda>p. map_option (\<lambda>r. p\<lparr>pp_Identifier := r\<rparr>) (NewProposalFilter m (pp_Identifier p))) ps)) proposed)"

definition writeCandidatePluginCall :: "ingestDeps \<Rightarrow> CandidateCall \<Rightarrow> Candidates \<Rightarrow> Candidates \<times> string" where
  "writeCandidatePluginCall deps c cs = (if \<not> de_Telemetry deps \<or> de_RunID deps = '''' then (cs, '''')
     else (cs\<lparr>cs_calls := cs_calls cs @ [c]\<rparr>, de_call_id deps (length (cs_calls cs))))"

definition candidate_step :: "ingestDeps \<Rightarrow> Master \<Rightarrow> string \<Rightarrow> string \<Rightarrow> BatchItem list \<Rightarrow> PluginConfigRow \<Rightarrow> CandidatePlugin \<Rightarrow> Candidates \<Rightarrow> Candidates" where
  "candidate_step deps m broker source items c p cs0 =
     (let offered = filter (\<lambda>it. bi_ID it \<notin> set (cs_resolved cs0)
            \<and> ShouldAttemptPlugin (cp_Kinds p) (cp_Types p) (hi_InstrumentKind (bi_Hints it)) (hi_SecurityTypeHint (bi_Hints it))) items;
          cs = cs0\<lparr>cs_anyPlugin := True, cs_attempted := cs_attempted cs0 @ map bi_ID offered\<rparr>;
          call = \<lparr>cc_PluginID = pg_PluginID c, cc_Precedence = pg_Precedence c, cc_BatchSize = length offered,
            cc_ItemsCompleted = 0, cc_FieldsProposed = 0, cc_Outcome = ''''\<rparr> in
      if offered = [] then cs
      else case cp_ProposeBatch p (pg_Config c) broker source offered of
          (outcome, Inl _) \<Rightarrow> fst (writeCandidatePluginCall deps (call\<lparr>cc_Outcome := (if outcome = '''' then ''error'' else outcome)\<rparr>) cs)
        | (outcome, Inr proposed) \<Rightarrow>
            (let kept = kept_proposals m proposed in
             case writeCandidatePluginCall deps (call\<lparr>cc_Outcome := outcome, cc_ItemsCompleted := length kept,
                 cc_FieldsProposed := sum_list (map (\<lambda>(_, ps). length ps) kept)\<rparr>) (cs\<lparr>cs_resolved := cs_resolved cs @ map fst kept\<rparr>) of
               (cs', callID) \<Rightarrow> cs'\<lparr>cs_merged := map (\<lambda>(i, ps). (i, \<lparr>kp_CallID = callID, kp_Proposals = ps\<rparr>)) kept @ cs_merged cs'\<rparr>))"

fun candidate_loop :: "ingestDeps \<Rightarrow> (string \<Rightarrow> CandidatePlugin option) \<Rightarrow> Master \<Rightarrow> string \<Rightarrow> string \<Rightarrow> BatchItem list \<Rightarrow> PluginConfigRow list \<Rightarrow> Candidates \<Rightarrow> Candidates" where
  "candidate_loop deps registry m broker source items [] cs = cs"
| "candidate_loop deps registry m broker source items (c # rest) cs = candidate_loop deps registry m broker source items rest
     (case registry (pg_PluginID c) of None \<Rightarrow> cs | Some p \<Rightarrow> candidate_step deps m broker source items c p cs)"

definition no_candidates :: Candidates where
  "no_candidates = \<lparr>cs_resolved = [], cs_attempted = [], cs_anyPlugin = False, cs_merged = [], cs_calls = []\<rparr>"

definition item_outcome :: "Candidates \<Rightarrow> BatchItem \<Rightarrow> string" where
  "item_outcome cs it =
     (if \<not> cs_anyPlugin cs then ''not_attempted_no_plugins'' else if bi_ID it \<in> set (cs_resolved cs) then ''fields_proposed''
      else if bi_ID it \<in> set (cs_attempted cs) then ''nothing_proposed'' else ''not_attempted_type_filter'')"

definition runCandidatePluginsBatch :: "ingestDeps \<Rightarrow> Master \<Rightarrow> string \<Rightarrow> string \<Rightarrow> BatchItem list \<Rightarrow> Candidates \<times> (string \<times> string) list" where
  "runCandidatePluginsBatch deps m broker source items =
     (let cs = (case de_CandidateRegistry deps of
            None \<Rightarrow> no_candidates
          | Some registry \<Rightarrow> if items = [] then no_candidates else candidate_loop deps registry m broker source items
              (go_sort (\<lambda>a b. pg_Precedence b < pg_Precedence a) (de_CandidateConfigs deps)) no_candidates) in
      (cs, map (\<lambda>it. (bi_ID it, item_outcome cs it)) items))"

subsection \<open>The pre-pass\<close>

record IdentificationError =
  ie_RowIndex :: int
  ie_InstrumentDescription :: string
  ie_Message :: string

record resolveResult =
  rr_InstrumentID :: string
  rr_IdErr :: "IdentificationError option"
  rr_FirstRowIndex :: int
  rr_DBHitOutcome :: string

record prePass =
  pre_resolved :: "(string \<times> resolveResult) list"
  pre_conflicts :: "string list"
  pre_proposed :: "(string \<times> keyProposals) list"
  pre_descOnly :: "(string \<times> string) list"
  pre_outcome :: "(string \<times> string) list"

definition db_hit :: "string \<Rightarrow> string \<Rightarrow> resolveResult" where
  "db_hit i how = \<lparr>rr_InstrumentID = i, rr_IdErr = None, rr_FirstRowIndex = 0, rr_DBHitOutcome = how\<rparr>"

definition item_for :: "ingestDeps \<Rightarrow> string \<Rightarrow> Tx \<Rightarrow> InstrumentRef list \<Rightarrow> BatchItem" where
  "item_for deps key tx hs = \<lparr>bi_ID = de_hash deps key, bi_InstrumentDescription = x_InstrumentDescription tx, bi_Stated = hs, bi_Hints = HintsFromTx tx\<rparr>"

text \<open>What the lookups say of one key, and the items left to the candidate plugins.\<close>

definition pre_key :: "ingestDeps \<Rightarrow> Master \<Rightarrow> string \<Rightarrow> string \<Rightarrow> Tx \<Rightarrow> InstrumentRef list \<Rightarrow> prePass \<times> (string \<times> BatchItem) list \<Rightarrow> prePass \<times> (string \<times> BatchItem) list" where
  "pre_key deps m source key tx hs st = (case st of (pre, items) \<Rightarrow>
     let put = (\<lambda>o' p. p\<lparr>pre_outcome := (key, o') # pre_outcome p\<rparr>); item = (key, item_for deps key tx hs) in
     if hs = [] then
       (let i = FindInstrumentBySourceDescription source (x_InstrumentDescription tx) m in
        if i \<noteq> '''' then (put ''not_attempted_db_hit'' (pre\<lparr>pre_resolved := (key, db_hit i ''db_source_description'') # pre_resolved pre\<rparr>), items)
        else (pre, items @ [item]))
     else (case ResolveIDsByHintsDBOnly m hs of
         [] \<Rightarrow>
           (let i = FindDescriptionOnlyInstrument source (x_InstrumentDescription tx) m;
                p = (if i \<noteq> '''' then pre\<lparr>pre_descOnly := (key, i) # pre_descOnly pre\<rparr> else pre) in
            if \<not> completesPartialIdentity deps then (put ''not_attempted_run_kind'' p, items)
            else if identityComplete hs then (put ''not_attempted_identity_complete'' p, items)
            else (p, items @ [item]))
       | [i] \<Rightarrow> (put ''not_attempted_db_hit'' (pre\<lparr>pre_resolved := (key, db_hit i ''db_identifier_hints'') # pre_resolved pre\<rparr>), items)
       | _ \<Rightarrow> (put ''not_attempted_conflicting_hints'' (pre\<lparr>pre_conflicts := key # pre_conflicts pre\<rparr>), items)))"

fun pre_loop :: "ingestDeps \<Rightarrow> Master \<Rightarrow> string \<Rightarrow> string list \<Rightarrow> (Tx \<times> InstrumentRef list) list \<Rightarrow> prePass \<times> (string \<times> BatchItem) list \<Rightarrow> prePass \<times> (string \<times> BatchItem) list" where
  "pre_loop deps m source seen [] st = st"
| "pre_loop deps m source seen ((tx, hs) # rest) st =
     (let key = cacheKeyWithHints source (x_InstrumentDescription tx) hs in
      if key \<in> set seen then pre_loop deps m source seen rest st
      else pre_loop deps m source (key # seen) rest (pre_key deps m source key tx hs st))"

definition no_pass :: prePass where
  "no_pass = \<lparr>pre_resolved = [], pre_conflicts = [], pre_proposed = [], pre_descOnly = [], pre_outcome = []\<rparr>"

definition proposeCandidates :: "ingestDeps \<Rightarrow> Master \<Rightarrow> string \<Rightarrow> string \<Rightarrow> (Tx \<times> InstrumentRef list) list \<Rightarrow> prePass \<times> CandidateCall list" where
  "proposeCandidates deps m source broker rows =
     (case pre_loop deps m source [] rows (no_pass, []) of (pre, items) \<Rightarrow>
        case runCandidatePluginsBatch deps m broker source (map snd items) of (cs, outcomes) \<Rightarrow>
          (pre\<lparr>pre_proposed := List.map_filter (\<lambda>(key, it). map_option (Pair key) (map_of (cs_merged cs) (bi_ID it))) items,
               pre_outcome := map (\<lambda>(key, it). (key, case map_of outcomes (bi_ID it) of None \<Rightarrow> '''' | Some o' \<Rightarrow> o')) items @ pre_outcome pre\<rparr>,
           cs_calls cs))"

subsection \<open>The ledger of keys\<close>

record KeyOutcome =
  ko_KeyID :: string
  ko_CandidateOutcome :: string
  ko_Outcome :: string
  ko_MismatchDetected :: string
  ko_HintDiffs :: string
  ko_InstrumentID :: string

record FieldRow =
  fr_KeyID :: string
  fr_CallID :: string
  fr_Field :: string
  fr_Value :: string
  fr_Confidence :: "decimal option"
  fr_Outcome :: string

text \<open>The last two fields hold the rows written.\<close>

record resolutionKeys =
  rk_ids :: "(string \<times> string) list"
  rk_candidate :: "(string \<times> string) list"
  rk_proposed :: "(string \<times> keyProposals) list"
  rk_fieldOutcomes :: "(string \<times> (InstrumentRef \<times> string) list) list"
  rk_mismatched :: "(string \<times> string) list"
  rk_hintDiffs :: "(string \<times> string) list"
  rk_stamped :: "string list"
  rk_ended :: "KeyOutcome list"
  rk_fields :: "FieldRow list"

definition or_blank :: "(string \<times> string) list \<Rightarrow> string \<Rightarrow> string" where
  "or_blank kvs k = (case map_of kvs k of None \<Rightarrow> '''' | Some v \<Rightarrow> v)"

definition newResolutionKeys :: "ingestDeps \<Rightarrow> string \<Rightarrow> (Tx \<times> InstrumentRef list) list \<Rightarrow> prePass \<Rightarrow> resolutionKeys option" where
  "newResolutionKeys deps source rows pre =
     (if \<not> de_Telemetry deps \<or> de_RunID deps = '''' then None
      else let order = first_by id {} (map (\<lambda>(tx, hs). cacheKeyWithHints source (x_InstrumentDescription tx) hs) rows) in
        Some \<lparr>rk_ids = map (\<lambda>key. (key, de_key_id deps key)) order,
          rk_candidate = map (\<lambda>key. (key, or_blank (pre_outcome pre) key)) order,
          rk_proposed = List.map_filter (\<lambda>key. map_option (Pair key) (map_of (pre_proposed pre) key)) order,
          rk_fieldOutcomes = [], rk_mismatched = [], rk_hintDiffs = [], rk_stamped = [], rk_ended = [], rk_fields = []\<rparr>)"

definition rk_mismatch :: "string \<Rightarrow> string \<Rightarrow> resolutionKeys \<Rightarrow> resolutionKeys" where
  "rk_mismatch key which k = (if which = '''' \<or> or_blank (rk_mismatched k) key \<noteq> '''' then k
     else k\<lparr>rk_mismatched := (key, which) # rk_mismatched k\<rparr>)"

definition rk_hintDiff :: "string \<Rightarrow> string \<Rightarrow> resolutionKeys \<Rightarrow> resolutionKeys" where
  "rk_hintDiff key summary k = (if summary = '''' then k else k\<lparr>rk_hintDiffs := (key, summary) # rk_hintDiffs k\<rparr>)"

definition rk_outcomes :: "string \<Rightarrow> (InstrumentRef \<times> string) list \<Rightarrow> resolutionKeys \<Rightarrow> resolutionKeys" where
  "rk_outcomes key outs k = (if outs = [] \<or> map_of (rk_fieldOutcomes k) key \<noteq> None then k
     else k\<lparr>rk_fieldOutcomes := (key, outs) # rk_fieldOutcomes k\<rparr>)"

definition field_row :: "resolutionKeys \<Rightarrow> string \<Rightarrow> string \<Rightarrow> Proposal \<Rightarrow> FieldRow" where
  "field_row k key callID p =
     (let outs = (case map_of (rk_fieldOutcomes k) key of None \<Rightarrow> [] | Some os \<Rightarrow> os);
          outcome = (case map_of (rev outs) (pp_Identifier p) of None \<Rightarrow> '''' | Some x \<Rightarrow> x) in
      \<lparr>fr_KeyID = or_blank (rk_ids k) key, fr_CallID = callID, fr_Field = pp_Field p, fr_Value = ref_Value (pp_Identifier p),
       fr_Confidence = (if pp_Confidence p > 0 then Some (pp_Confidence p) else None),
       fr_Outcome = (if outcome = '''' then ''unused'' else outcome)\<rparr>)"

definition rk_writeFields :: "string \<Rightarrow> resolutionKeys \<Rightarrow> resolutionKeys" where
  "rk_writeFields key k = (case map_of (rk_proposed k) key of
       None \<Rightarrow> k
     | Some kp \<Rightarrow> if kp_CallID kp = '''' then k
         else k\<lparr>rk_fields := rk_fields k @ map (field_row k key (kp_CallID kp)) (kp_Proposals kp)\<rparr>)"

definition rk_end :: "string \<Rightarrow> string \<Rightarrow> string \<Rightarrow> resolutionKeys \<Rightarrow> resolutionKeys" where
  "rk_end key outcome instrumentID k = (if key \<in> set (rk_stamped k) then k
     else rk_writeFields key (k\<lparr>rk_stamped := key # rk_stamped k,
       rk_ended := rk_ended k @ [\<lparr>ko_KeyID = or_blank (rk_ids k) key, ko_CandidateOutcome = or_blank (rk_candidate k) key, ko_Outcome = outcome,
         ko_MismatchDetected = or_blank (rk_mismatched k) key, ko_HintDiffs = or_blank (rk_hintDiffs k) key, ko_InstrumentID = instrumentID\<rparr>]\<rparr>))"

definition rk_attempt :: "string \<Rightarrow> string \<Rightarrow> resolutionKeys option \<Rightarrow> Attempt" where
  "rk_attempt key purpose ks = (case ks of
       None \<Rightarrow> \<lparr>at_DB = False, at_KeyID = '''', at_Purpose = ''''\<rparr>
     | Some k \<Rightarrow> \<lparr>at_DB = True, at_KeyID = or_blank (rk_ids k) key, at_Purpose = purpose\<rparr>)"

definition resolutionOutcome :: "ResolveResult \<Rightarrow> string" where
  "resolutionOutcome r =
     (if rv_Identified r then ''identified'' else if rv_Unconfirmed r then ''proposal_unconfirmed'' else if rv_HadTimeout r then ''plugin_timeout''
      else if rv_HadError r then ''plugin_unavailable'' else ''broker_description_only'')"

subsection \<open>Resolving one posting\<close>

record Upload =
  up_dir :: Directory
  up_cache :: "(string \<times> resolveResult) list"
  up_keys :: "resolutionKeys option"

definition on_keys :: "(resolutionKeys \<Rightarrow> resolutionKeys) \<Rightarrow> Upload \<Rightarrow> Upload" where
  "on_keys f u = u\<lparr>up_keys := map_option f (up_keys u)\<rparr>"

text \<open>The instrument known by the broker's description and nothing else.\<close>

definition description_only :: "Env \<Rightarrow> string \<Rightarrow> string \<Rightarrow> FallbackFunc" where
  "description_only env source desc d =
     (case EnsureInstrument env '''' '''' '''' '''' ''''
        [\<lparr>ii_Ref = description_ref source desc, ii_Canonical = False, ii_ValidFrom = None, ii_ValidBefore = None\<rparr>] '''' None None None (dy_master d) of
        Inl e \<Rightarrow> (d, Inl e)
      | Inr (m, i) \<Rightarrow> (d\<lparr>dy_master := m\<rparr>, Inr i))"

definition diff_text :: "HintDiff \<Rightarrow> string" where
  "diff_text x = hd_Field x @ '': '' @ hd_HintValue x @ ''->'' @ hd_ResolvedValue x"

fun hintDiffsSummary :: "HintDiff list \<Rightarrow> string" where
  "hintDiffsSummary [] = ''''"
| "hintDiffsSummary [x] = diff_text x"
| "hintDiffsSummary (x # y # xs) = diff_text x @ '', '' @ hintDiffsSummary (y # xs)"

definition fallback_message :: "ResolveResult \<Rightarrow> string" where
  "fallback_message r =
     (if rv_Unconfirmed r then ''proposed identifier unconfirmed'' else if rv_HadTimeout r then ''plugin timeout''
      else if rv_HadError r then ''plugin unavailable'' else ''broker description only'')"

record Posting_Key =
  pk_Broker :: string
  pk_Source :: string
  pk_Description :: string
  pk_Key :: string
  pk_RowIndex :: int
  pk_HintsValidAt :: "time option"

definition finish_key :: "Posting_Key \<Rightarrow> bool \<Rightarrow> string \<Rightarrow> ResolveResult \<Rightarrow> Upload \<Rightarrow> Upload \<times> (string + resolveResult)" where
  "finish_key pk caching purpose result u =
     (let key = pk_Key pk; primary = (purpose = ''primary'');
          u1 = (if primary \<and> rv_HintDiffs result \<noteq> [] then on_keys (rk_hintDiff key (hintDiffsSummary (rv_HintDiffs result))) u else u);
          u2 = (if primary then on_keys (rk_outcomes key (rv_ProposalOutcomes result)) u1 else u1);
          r = \<lparr>rr_InstrumentID = rv_InstrumentID result,
            rr_IdErr = (if rv_Identified result then None
              else Some \<lparr>ie_RowIndex = pk_RowIndex pk, ie_InstrumentDescription = pk_Description pk, ie_Message = fallback_message result\<rparr>),
            rr_FirstRowIndex = pk_RowIndex pk, rr_DBHitOutcome = ''''\<rparr>;
          u3 = (if caching then u2\<lparr>up_cache := (key, r) # up_cache u2\<rparr> else u2) in
      (if primary then on_keys (rk_end key (resolutionOutcome result) (rr_InstrumentID r)) u3 else u3, Inr r))"

definition resolveWithIdentifierPlugins :: "Env \<Rightarrow> registry \<Rightarrow> Posting_Key \<Rightarrow> Identity \<Rightarrow> bool \<Rightarrow> bool \<Rightarrow> string \<Rightarrow> Upload \<Rightarrow> Upload \<times> (string + resolveResult)" where
  "resolveWithIdentifierPlugins env registry pk ident caching bind purpose u =
     (let rq = \<lparr>rq_Broker = pk_Broker pk, rq_Source = pk_Source pk, rq_Description = pk_Description pk, rq_Ident = ident, rq_Bind = bind,
            rq_Tel = rk_attempt (pk_Key pk) purpose (up_keys u), rq_Depth = 0, rq_HintsValidAt = pk_HintsValidAt pk\<rparr> in
      case ResolveWithPlugins env registry rq (Some (description_only env (pk_Source pk) (pk_Description pk))) (up_dir u) of
        (d, Inl e) \<Rightarrow> (u\<lparr>up_dir := d\<rparr>, Inl e)
      | (d, Inr result) \<Rightarrow> finish_key pk caching purpose result (u\<lparr>up_dir := d\<rparr>))"

definition proposals_for :: "prePass \<Rightarrow> string \<Rightarrow> InstrumentRef list" where
  "proposals_for pre key = (case map_of (pre_proposed pre) key of None \<Rightarrow> [] | Some kp \<Rightarrow> map pp_Identifier (kp_Proposals kp))"

definition found_ID :: "string + resolveResult \<Rightarrow> string" where
  "found_ID r = (case r of Inl _ \<Rightarrow> '''' | Inr x \<Rightarrow> rr_InstrumentID x)"

text \<open>The two probes, run when both kinds of identifier were proposed, and the proposals they leave to use.\<close>

definition mismatch_check :: "Env \<Rightarrow> registry \<Rightarrow> Posting_Key \<Rightarrow> Hints \<Rightarrow> InstrumentRef list \<Rightarrow> Upload \<Rightarrow> Upload \<times> InstrumentRef list" where
  "mismatch_check env registry pk hints extracted u =
     (let tickers = hintsByType extracted ''MIC_TICKER''; figis = hintsByType extracted ''OPENFIGI_SHARE_CLASS'';
          probe = (\<lambda>hs. resolveWithIdentifierPlugins env registry pk \<lparr>iy_Stated = [], iy_Proposed = hs, iy_Hints = hints\<rparr> False True ''mismatch_check'') in
      if tickers = [] \<or> figis = [] then (u, extracted)
      else case probe tickers u of (u1, r1) \<Rightarrow> case probe figis u1 of (u2, r2) \<Rightarrow>
        if found_ID r1 \<noteq> '''' \<and> found_ID r2 \<noteq> '''' \<and> found_ID r1 \<noteq> found_ID r2
        then (on_keys (rk_mismatch (pk_Key pk) ''figi_vs_ticker'') u2, tickers) else (u2, extracted))"

definition extraction_failed :: "Env \<Rightarrow> Posting_Key \<Rightarrow> Upload \<Rightarrow> Upload \<times> (string + resolveResult)" where
  "extraction_failed env pk u = (case description_only env (pk_Source pk) (pk_Description pk) (up_dir u) of
       (d, Inl e) \<Rightarrow> (u\<lparr>up_dir := d\<rparr>, Inl e)
     | (d, Inr i) \<Rightarrow>
         (let r = \<lparr>rr_InstrumentID = i,
                rr_IdErr = Some \<lparr>ie_RowIndex = pk_RowIndex pk, ie_InstrumentDescription = pk_Description pk, ie_Message = ''description extraction failed''\<rparr>,
                rr_FirstRowIndex = pk_RowIndex pk, rr_DBHitOutcome = ''''\<rparr> in
          (on_keys (rk_end (pk_Key pk) ''extraction_failed'' i) (u\<lparr>up_dir := d, up_cache := (pk_Key pk, r) # up_cache u\<rparr>), Inr r)))"

definition Resolve_instrument :: "Env \<Rightarrow> registry \<Rightarrow> Posting_Key \<Rightarrow> Hints \<Rightarrow> InstrumentRef list \<Rightarrow> prePass \<Rightarrow> Upload \<Rightarrow> Upload \<times> (string + resolveResult)" where
  "Resolve_instrument env registry pk hints hs pre u =
     (let key = pk_Key pk; proposed = proposals_for pre key in
      case map_of (up_cache u) key of
        Some r \<Rightarrow> (on_keys (rk_end key (if rr_DBHitOutcome r = '''' then ''db_source_description'' else rr_DBHitOutcome r) (rr_InstrumentID r)) u, Inr r)
      | None \<Rightarrow>
          if hs \<noteq> [] then
            (if key \<in> set (pre_conflicts pre)
             then (on_keys (rk_end key ''conflicting_hints'' '''') u, Inl ''conflicting identifier hints resolve to different instruments'')
             else resolveWithIdentifierPlugins env registry pk \<lparr>iy_Stated = hs, iy_Proposed = proposed, iy_Hints = hints\<rparr> True
               (or_blank (pre_descOnly pre) key \<noteq> '''') ''primary'' u)
          else if proposed = [] then extraction_failed env pk u
          else (case mismatch_check env registry pk hints proposed u of (u1, use) \<Rightarrow>
            resolveWithIdentifierPlugins env registry pk \<lparr>iy_Stated = [], iy_Proposed = use, iy_Hints = hints\<rparr> True True ''primary'' u1))"

subsection \<open>Resolving a batch\<close>

definition int_text :: "int \<Rightarrow> string" where
  "int_text i = (if i < 0 then ''-'' else '''') @ show_nat (nat \<bar>i\<bar>)"

definition posting_key :: "string \<Rightarrow> string \<Rightarrow> time option \<Rightarrow> int \<Rightarrow> Tx \<Rightarrow> InstrumentRef list \<Rightarrow> Posting_Key" where
  "posting_key broker source validAt rowIndex tx hs =
     \<lparr>pk_Broker = broker, pk_Source = source, pk_Description = x_InstrumentDescription tx,
      pk_Key = cacheKeyWithHints source (x_InstrumentDescription tx) hs, pk_RowIndex = rowIndex, pk_HintsValidAt = validAt\<rparr>"

fun resolve_rows :: "Env \<Rightarrow> registry \<Rightarrow> string \<Rightarrow> string \<Rightarrow> time option \<Rightarrow> prePass \<Rightarrow> (int \<times> Tx \<times> InstrumentRef list) list \<Rightarrow> string list \<Rightarrow> Upload \<Rightarrow> Upload \<times> (string + string list)" where
  "resolve_rows env registry broker source validAt pre [] ids u = (u, Inr ids)"
| "resolve_rows env registry broker source validAt pre ((rowIndex, tx, hs) # rest) ids u =
     (case Resolve_instrument env registry (posting_key broker source validAt rowIndex tx hs) (HintsFromTx tx) hs pre u of
        (u', Inl e) \<Rightarrow> (u', Inl (''row '' @ int_text rowIndex @ '': '' @ e))
      | (u', Inr r) \<Rightarrow> resolve_rows env registry broker source validAt pre rest (ids @ [rr_InstrumentID r]) u')"

definition resolveInstruments :: "Env \<Rightarrow> ingestDeps \<Rightarrow> string \<Rightarrow> string \<Rightarrow> time option \<Rightarrow> prePass \<Rightarrow> (int \<times> Tx \<times> InstrumentRef list) list \<Rightarrow> Directory
    \<Rightarrow> Upload \<times> (string + string list \<times> IdentificationError list)" where
  "resolveInstruments env deps broker source exportedAt pre rows d =
     (case resolve_rows env (de_Registry deps) broker source exportedAt pre rows []
         \<lparr>up_dir = d, up_cache = pre_resolved pre, up_keys = newResolutionKeys deps source (map snd rows) pre\<rparr> of
        (u, Inl e) \<Rightarrow> (u, Inl e)
      | (u, Inr ids) \<Rightarrow> (u, Inr (ids, List.map_filter (\<lambda>(_, r). rr_IdErr r) (up_cache u))))"

end
