(* ===== verification/Identification_Correct.thy ===== *)
theory Identification_Correct
  imports Batch_Resolve Security_Master_Correct
begin

text \<open>
  What identification keeps: the store's constraints, which answer is chosen among the plugins' and
  what of the others is merged into it, what a proposed identifier alone may decide, and what a batch
  does with the keys its postings share. The last section holds concrete stores on which the
  resolution does what its comments say it does not.
\<close>

subsection \<open>Lookups\<close>

lemma find_stored: "List.find (\<lambda>i. in_ID i = x) (sm_instruments m) = None \<longleftrightarrow> x \<notin> instrument_ids m"
  by (auto simp: find_None_iff)

lemma find_ID: "List.find (\<lambda>i. in_ID i = x) xs = Some i \<Longrightarrow> in_ID i = x"
  by (auto simp: find_Some_iff)

lemma first_holder_Nil [simp]: "first_holder [] = ''''"
  by (simp add: first_holder_def)

lemma refs_okD: "refs_ok m \<Longrightarrow> x \<in> set (sm_idents m) \<Longrightarrow> ix_InstrumentID x \<in> instrument_ids m"
  unfolding refs_ok_def by (meson imageI subsetD)

lemma holder_in: "first_holder xs = '''' \<or> first_holder xs \<in> ix_InstrumentID ` set xs"
  using first_holder_in [of xs] by (cases "xs = []") simp_all

text \<open>The join of the lookup with metadata drops no row of a store whose references hold.\<close>

lemma with_meta_ID:
  assumes "refs_ok m"
  shows "fst (FindInstrumentWithMetaByIdentifier r m) = FindInstrumentByIdentifier r m"
proof -
  have "filter (\<lambda>x. named r x \<and> ix_InstrumentID x \<in> instrument_ids m) (sm_idents m) = filter (named r) (sm_idents m)"
    using refs_okD [OF assms] by (intro filter_cong refl) auto
  moreover have "FindInstrumentByIdentifier r m = '''' \<or> FindInstrumentByIdentifier r m \<in> instrument_ids m"
    using holder_in [of "filter (named r) (sm_idents m)"] refs_okD [OF assms] unfolding FindInstrumentByIdentifier_def
    by (elim disjE imageE) simp_all
  ultimately show ?thesis using find_stored [of "FindInstrumentByIdentifier r m" m]
    by (auto simp: FindInstrumentWithMetaByIdentifier_def FindInstrumentByIdentifier_def Let_def split: option.splits)
qed

lemma look_up_ID: "refs_ok m \<Longrightarrow> ri_ID (look_up m h) = look_up_id m h"
  using with_meta_ID [of m "h\<lparr>ref_Value := stored_value h\<rparr>"]
  by (auto simp: look_up_def look_up_id_def Let_def split: prod.splits)

lemma by_hints_IDs:
  assumes "refs_ok m"
  shows "ids_by_hints m (map ri_ID acc) hs = map ri_ID (by_hints m acc hs)"
proof (induction hs arbitrary: acc)
  case (Cons h hs)
  have "list_ex (\<lambda>x. ri_ID x = look_up_id m h) acc \<longleftrightarrow> look_up_id m h \<in> set (map ri_ID acc)"
    by (induction acc) auto
  then show ?case using Cons.IH [of acc] Cons.IH [of "acc @ [look_up m h]"]
    by (simp add: look_up_ID [OF assms] Let_def)
qed simp

text \<open>
  C27. The two lookups of the same hints name the same instruments: on a store whose references hold,
  \<open>ResolveIDsByHintsDBOnly\<close>, which the pre-pass uses, returns exactly the ids of what
  \<open>ResolveByHintsDBOnly\<close>, which resolution uses, returns, in the same order. So a key the pre-pass found
  ambiguous is ambiguous to the resolver, and one it missed is missed there.
\<close>

theorem hint_lookups_agree:
  assumes "refs_ok m"
  shows "ResolveIDsByHintsDBOnly m hs = map ri_ID (ResolveByHintsDBOnly m hs)"
  using by_hints_IDs [OF assms, of "[]" hs] by (simp add: ResolveIDsByHintsDBOnly_def ResolveByHintsDBOnly_def)

lemma sole_holder_in: "sole_holder xs = '''' \<or> sole_holder xs \<in> ix_InstrumentID ` set xs"
proof -
  have "\<forall>x. first_by ix_InstrumentID {} xs = [x] \<longrightarrow> ix_InstrumentID x \<in> ix_InstrumentID ` set xs"
    using keys_first_by [of ix_InstrumentID "{}" xs] by auto
  then show ?thesis unfolding sole_holder_def by (auto split: list.split)
qed

lemma look_up_id_stored:
  assumes "refs_ok m"
  shows "look_up_id m h = '''' \<or> look_up_id m h \<in> instrument_ids m"
proof -
  have sub: "ix_InstrumentID ` set (filter P (sm_idents m)) \<subseteq> instrument_ids m" for P
    using refs_okD [OF assms] by (intro image_subsetI) simp
  have "i = '''' \<or> i \<in> instrument_ids m" if "i = '''' \<or> i \<in> ix_InstrumentID ` set (filter P (sm_idents m))" for i P
    using that subsetD [OF sub] by blast
  note this [OF holder_in] this [OF sole_holder_in]
  then show ?thesis unfolding look_up_id_def bare_lookup_def FindInstrumentByIdentifier_def FindInstrumentByTypeAndValue_def
      FindInstrumentByTickerIgnoringSeparators_def Let_def by (simp split: if_split)
qed

lemma by_hints_stored:
  assumes "refs_ok m"
  shows "ri_ID ` set (by_hints m acc hs) \<subseteq> ri_ID ` set acc \<union> (instrument_ids m - {''''})"
proof (induction hs arbitrary: acc)
  case (Cons h hs)
  have "look_up_id m h = '''' \<or> look_up_id m h \<in> instrument_ids m" by (rule look_up_id_stored [OF assms])
  then show ?case using Cons.IH [of acc] Cons.IH [of "acc @ [look_up m h]"] look_up_ID [OF assms, of h]
    by (auto simp: Let_def split: if_splits)
qed simp

lemma found_stored:
  assumes "refs_ok m" "r \<in> set (ResolveByHintsDBOnly m hs)"
  shows "ri_ID r \<in> instrument_ids m" "ri_ID r \<noteq> ''''"
proof -
  have "ri_ID ` set (ResolveByHintsDBOnly m hs) \<subseteq> instrument_ids m - {''''}"
    using by_hints_stored [OF assms(1), of "[]" hs] by (simp add: ResolveByHintsDBOnly_def)
  then have "ri_ID r \<in> instrument_ids m - {''''}" using assms(2) by (rule subsetD [OF _ imageI])
  then show "ri_ID r \<in> instrument_ids m" "ri_ID r \<noteq> ''''" by simp_all
qed

subsection \<open>The answer chosen\<close>

lemma first_index_Some:
  "first_index P xs = Some i \<longleftrightarrow> i < length xs \<and> P (xs ! i) \<and> (\<forall>j < i. \<not> P (xs ! j))"
proof (induction xs arbitrary: i)
  case (Cons x xs)
  show ?case by (cases i) (auto simp: Cons.IH All_less_Suc2 nth_Cons split: nat.splits)
qed simp

lemma first_index_None: "first_index P xs = None \<longleftrightarrow> (\<forall>j < length xs. \<not> P (xs ! j))"
  by (induction xs) (auto simp: All_less_Suc2)

text \<open>The tier a result is in: it agrees with what a source stated, with what a plugin proposed, or it only answered.\<close>

definition tier :: "(string \<Rightarrow> string) \<Rightarrow> Identity \<Rightarrow> pluginResult \<Rightarrow> nat" where
  "tier nrm ident r = (if agrees_stated nrm ident r then 0 else if agrees_proposed nrm ident r then 1 else 2)"

lemma agreeing_answers: "agrees_stated nrm ident r \<Longrightarrow> answer r \<noteq> None" "agrees_proposed nrm ident r \<Longrightarrow> answer r \<noteq> None"
  by (auto simp: agrees_stated_def agrees_proposed_def split: option.splits)

lemma tier_0: "tier nrm ident r = 0 \<longleftrightarrow> agrees_stated nrm ident r"
  by (simp add: tier_def)

lemma tier_le: "(t :: nat, w :: nat) \<le> (t', i) \<longleftrightarrow> t < t' \<or> t = t' \<and> w \<le> i"
  by auto

definition ranked :: "(string \<Rightarrow> string) \<Rightarrow> Identity \<Rightarrow> pluginResult list \<Rightarrow> (nat \<times> nat) set" where
  "ranked nrm ident results = (\<lambda>i. (tier nrm ident (results ! i), i)) ` {i. i < length results \<and> answer (results ! i) \<noteq> None}"

lemma ranked_iff:
  "(t, i) \<in> ranked nrm ident results \<longleftrightarrow> i < length results \<and> answer (results ! i) \<noteq> None \<and> t = tier nrm ident (results ! i)"
  by (auto simp: ranked_def)

lemma finite_ranked: "finite (ranked nrm ident results)"
  by (simp add: ranked_def)

lemma winner_ranked:
  assumes "winnerIdx nrm ident results = Some w"
  shows "(tier nrm ident (results ! w), w) \<in> ranked nrm ident results"
    and "(t, i) \<in> ranked nrm ident results \<Longrightarrow> (tier nrm ident (results ! w), w) \<le> (t, i)"
proof -
  consider (stated) "first_index (agrees_stated nrm ident) results = Some w"
    | (proposed) "first_index (agrees_stated nrm ident) results = None" "first_index (agrees_proposed nrm ident) results = Some w"
    | (any) "first_index (agrees_stated nrm ident) results = None" "first_index (agrees_proposed nrm ident) results = None"
        "first_index (\<lambda>r. answer r \<noteq> None) results = Some w"
    using assms by (auto simp: winnerIdx_def split: option.splits)
  then have "(tier nrm ident (results ! w), w) \<in> ranked nrm ident results \<and>
    ((t, i) \<in> ranked nrm ident results \<longrightarrow> (tier nrm ident (results ! w), w) \<le> (t, i))"
  proof cases
    case stated
    then have w: "w < length results" "agrees_stated nrm ident (results ! w)" "\<And>j. j < w \<Longrightarrow> \<not> agrees_stated nrm ident (results ! j)"
      by (simp_all add: first_index_Some)
    then have "tier nrm ident (results ! w) = 0" by (simp add: tier_0)
    moreover have "w \<le> i" if "tier nrm ident (results ! i) = 0" using that w(3) unfolding tier_0 by (meson leI)
    ultimately show ?thesis unfolding ranked_iff tier_le using w(1) agreeing_answers(1) [OF w(2)] by auto
  next
    case proposed
    then have w: "w < length results" "agrees_proposed nrm ident (results ! w)" "\<And>j. j < w \<Longrightarrow> \<not> agrees_proposed nrm ident (results ! j)"
      and s: "\<And>j. j < length results \<Longrightarrow> \<not> agrees_stated nrm ident (results ! j)"
      by (simp_all add: first_index_Some first_index_None)
    then have "tier nrm ident (results ! w) = 1" by (simp add: tier_def)
    moreover have "w \<le> i" if "agrees_proposed nrm ident (results ! i)" using that w(3) by (meson leI)
    moreover have "1 < t \<or> t = 1 \<and> agrees_proposed nrm ident (results ! i)" if "(t, i) \<in> ranked nrm ident results"
      using that s [of i] by (simp add: ranked_iff tier_def)
    ultimately show ?thesis unfolding tier_le using w(1) agreeing_answers(2) [OF w(2)] by (metis ranked_iff)
  next
    case any
    then have w: "w < length results" "answer (results ! w) \<noteq> None" "\<And>j. j < w \<Longrightarrow> answer (results ! j) = None"
      and s: "\<And>j. j < length results \<Longrightarrow> tier nrm ident (results ! j) = 2"
      by (simp_all add: first_index_Some first_index_None tier_def del: not_None_eq)
    moreover have "w \<le> i" if "answer (results ! i) \<noteq> None" using that w(3) by (meson leI)
    ultimately show ?thesis unfolding tier_le by (metis ranked_iff)
  qed
  then show "(tier nrm ident (results ! w), w) \<in> ranked nrm ident results"
    and "(t, i) \<in> ranked nrm ident results \<Longrightarrow> (tier nrm ident (results ! w), w) \<le> (t, i)" by blast+
qed

lemma no_winner: "winnerIdx nrm ident results = None \<longleftrightarrow> ranked nrm ident results = {}"
  using agreeing_answers by (fastforce simp: winnerIdx_def first_index_None first_index_Some ranked_def split: option.splits)

text \<open>
  C24. The winner is the least answer by tier and then by precedence: among the plugins that answered, in
  descending precedence, the one chosen agrees with what a source stated if any does, otherwise with
  a proposal if any does without arguing with the source, and is the first of its tier; there is none
  exactly when no plugin answered.
\<close>

theorem winner_is_least:
  "map_option (\<lambda>w. (tier nrm ident (results ! w), w)) (winnerIdx nrm ident results)
     = (if ranked nrm ident results = {} then None else Some (Min (ranked nrm ident results)))"
proof (cases "winnerIdx nrm ident results")
  case None
  then show ?thesis using no_winner by simp
next
  case (Some w)
  have "Min (ranked nrm ident results) = (tier nrm ident (results ! w), w)"
    using winner_ranked [OF Some] finite_ranked by (intro Min_eqI) auto
  then show ?thesis using Some winner_ranked(1) [OF Some] by auto
qed

subsection \<open>The answers merged\<close>

lemma set_flatten_loop: "r \<in> set (flatten_loop out cs) \<Longrightarrow> r \<in> set out \<or> claimed ''returned'' r \<in> set cs"
  by (induction out cs rule: flatten_loop.induct) (auto simp: claimed_def split: if_splits)

lemma type_seen: "list_ex (\<lambda>x. ref_Type x = t) out \<longleftrightarrow> t \<in> ref_Type ` set out"
  by (induction out) auto

lemma distinct_flatten_loop: "distinct (map ref_Type out) \<Longrightarrow> distinct (map ref_Type (flatten_loop out cs))"
  by (induction out cs rule: flatten_loop.induct) (auto simp: type_seen)

lemma types_flatten_loop:
  "ref_Type ` set out \<subseteq> ref_Type ` set (flatten_loop out cs)
   \<and> (\<forall>r. claimed ''returned'' r \<in> set cs \<longrightarrow> ref_Type r \<in> ref_Type ` set (flatten_loop out cs))"
proof (induction out cs rule: flatten_loop.induct)
  case (2 out c cs)
  show ?case
  proof (cases "cl_Role c \<noteq> ''returned'' \<or> list_ex (\<lambda>x. ref_Type x = ref_Type (cl_Ref c)) out")
    case True
    then have "cl_Role c = ''returned'' \<longrightarrow> ref_Type (cl_Ref c) \<in> ref_Type ` set (flatten_loop out cs)"
      using "2.IH"(1) [OF True] unfolding type_seen by blast
    moreover have "flatten_loop out (c # cs) = flatten_loop out cs" using True by simp
    ultimately show ?thesis using "2.IH"(1) [OF True] by (auto simp: claimed_def)
  next
    case False
    then show ?thesis using "2.IH"(2) [OF False] by (auto simp: claimed_def)
  qed
qed simp

lemma returned_claims: "claimed ''returned'' r \<in> set (claim x) \<longleftrightarrow> r \<in> set (rs_ids x)"
  by (auto simp: claim_def claimed_def)

lemma EqualFold_refl [simp]: "EqualFold s s"
  by (simp add: EqualFold_def)

lemma sameSubject_refl [simp]: "sameSubject nrm r r"
  by (simp add: sameSubject_def)

text \<open>A name agrees with an answer when the answer holds it, and may stand beside it when nothing there contradicts it.\<close>

definition compatible :: "(string \<Rightarrow> string) \<Rightarrow> InstrumentRef list \<Rightarrow> InstrumentRef \<Rightarrow> bool" where
  "compatible nrm ws n \<longleftrightarrow> list_ex (\<lambda>v. sameSubject nrm v n \<and> ref_Value v = ref_Value n) ws \<or> list_all (\<lambda>v. \<not> contradicts nrm v n) ws"

lemma scan_winner_compatible:
  "(case scan_winner nrm n found ws of (eq, fnd) \<Rightarrow> eq \<or> \<not> fnd) \<Longrightarrow> compatible nrm ws n"
proof (induction ws arbitrary: found)
  case (Cons v ws)
  show ?case
  proof (cases "sameSubject nrm v n \<and> ref_Value v = ref_Value n")
    case False
    have keeps: "snd (scan_winner nrm n True us) \<and> (fst (scan_winner nrm n True us) \<longrightarrow> list_ex (\<lambda>v. sameSubject nrm v n \<and> ref_Value v = ref_Value n) us)" for us
      by (induction us) auto
    show ?thesis using False Cons.IH [of "found \<or> contradicts nrm v n"] Cons.prems keeps [of ws]
      by (cases "contradicts nrm v n") (auto simp: compatible_def split: prod.splits)
  qed (simp add: compatible_def)
qed (simp add: compatible_def)

lemma answer_Some: "answer r = Some (inst, ids) \<longleftrightarrow> rs_err r = None \<and> rs_inst r = Some inst \<and> rs_ids r = ids"
  by (auto simp: answer_def split: option.splits)

text \<open>
  C25. What the merge stores agrees with the answer chosen: the merged identifiers have distinct types,
  every type the winner named is among them, and each of them was returned by the winner or by an
  answer consistent with it, so that it is one of the winner's identifiers or contradicts none of them.
\<close>

theorem merged_names_fit_the_winner:
  assumes "answer (results ! w) = Some (inst, ids)" "w < length results"
  shows "distinct (map ref_Type (mergedIds nrm countryOf results w))
    \<and> ref_Type ` set ids \<subseteq> ref_Type ` set (mergedIds nrm countryOf results w)
    \<and> list_all (compatible nrm ids) (mergedIds nrm countryOf results w)"
proof -
  let ?cs = "concat (map (\<lambda>i. claim (results ! i)) (contributors nrm countryOf results w))"
  have dist: "distinct (map ref_Type (mergedIds nrm countryOf results w))"
    using distinct_flatten_loop [of "[]"] by (simp add: mergedIds_def flattenClaims_def)
  have w: "w \<in> set (contributors nrm countryOf results w)" using assms by (simp add: contributors_def taken_def)
  have ids: "rs_ids (results ! w) = ids" using assms(1) by (simp add: answer_Some)
  have "claimed ''returned'' r \<in> set ?cs" if "r \<in> set ids" for r
    using that w ids returned_claims [of r "results ! w"] by (simp only: set_concat set_map) blast
  then have types: "ref_Type ` set ids \<subseteq> ref_Type ` set (mergedIds nrm countryOf results w)"
    using types_flatten_loop [of "[]" ?cs] unfolding mergedIds_def flattenClaims_def by blast
  have "compatible nrm ids n" if n: "n \<in> set (mergedIds nrm countryOf results w)" for n
  proof -
    from n have "claimed ''returned'' n \<in> set ?cs" using set_flatten_loop [of n "[]" ?cs] by (simp only: mergedIds_def flattenClaims_def set_simps) blast
    then obtain i where i: "taken nrm countryOf results w i" "n \<in> set (rs_ids (results ! i))"
      by (auto simp: contributors_def returned_claims)
    then obtain oi oids where a: "answer (results ! i) = Some (oi, oids)" "n \<in> set oids" "i = w \<or> consistentWith nrm countryOf (inst, ids) (oi, oids)"
      using assms(1) by (auto simp: taken_def answer_Some split: option.splits)
    show ?thesis
    proof (cases "i = w")
      case True
      then have "n \<in> set ids" using i(2) ids by simp
      then have "list_ex (\<lambda>v. sameSubject nrm v n \<and> ref_Value v = ref_Value n) ids" unfolding list_ex_iff by (rule bexI [rotated]) simp
      then show ?thesis by (simp add: compatible_def)
    next
      case False
      then have "case scan_winner nrm n False ids of (eq, fnd) \<Rightarrow> eq \<or> \<not> fnd" using a by (simp add: consistentWith_def list_all_iff)
      then show ?thesis by (rule scan_winner_compatible)
    qed
  qed
  then show ?thesis using dist types by (simp add: list_all_iff)
qed

subsection \<open>A concrete directory\<close>

text \<open>The two instruments of the concrete store, one enabled plugin, and a plugin that answers by what it is asked.\<close>

definition bare_ref :: "string \<Rightarrow> string \<Rightarrow> InstrumentRef" where
  "bare_ref ty v = \<lparr>ref_Type = ty, ref_Value = v, ref_Domain = ''''\<rparr>"

definition described_as :: "string \<Rightarrow> string \<Rightarrow> InstrumentRef list \<Rightarrow> Described" where
  "described_as ac cur us = \<lparr>ds_AssetClass = ac, ds_Venue = \<lparr>vn_MIC = '''', vn_Country = ''''\<rparr>, ds_Currency = cur, ds_Name = '''', ds_CIK = '''',
     ds_SICCode = '''', ds_UnderlyingIdentifiers = us, ds_ProviderIdentifiers = [], ds_ValidFrom = None, ds_ValidBefore = None\<rparr>"

definition answered_with :: "(Described \<times> InstrumentRef list) option \<Rightarrow> pluginResult" where
  "answered_with a = (case a of
      None \<Rightarrow> \<lparr>rs_inst = None, rs_ids = [], rs_filtered = [], rs_Outcome = ''not_identified'', rs_Retries = 0, rs_err = Some ErrNotIdentified\<rparr>
    | Some (inst, ids) \<Rightarrow> \<lparr>rs_inst = Some inst, rs_ids = ids, rs_filtered = [], rs_Outcome = ''identified'', rs_Retries = 0, rs_err = None\<rparr>)"

definition answering :: "(InstrumentRef list \<Rightarrow> (Described \<times> InstrumentRef list) option) \<Rightarrow> registry" where
  "answering f = (\<lambda>_. Some \<lparr>idp_Kinds = [], idp_Types = [], idp_Identify = (\<lambda>_ _ _ _ ident. answered_with (f (iy_Stated ident)))\<rparr>)"

definition demo_config :: PluginConfigRow where
  "demo_config = \<lparr>pg_PluginID = ''p'', pg_Precedence = 1, pg_Config = '''', pg_MaxHistoryDays = None\<rparr>"

definition demo_dir :: Directory where
  "demo_dir = \<lparr>dy_master = demo_master [], dy_countries = [], dy_configs = [demo_config], dy_saved = [], dy_attempts = []\<rparr>"

definition demo_request :: "Identity \<Rightarrow> Request" where
  "demo_request ident = \<lparr>rq_Broker = ''IBKR'', rq_Source = ''src'', rq_Description = ''D'', rq_Ident = ident, rq_Bind = True,
     rq_Tel = \<lparr>at_DB = True, at_KeyID = ''k'', at_Purpose = ''primary''\<rparr>, rq_Depth = 0, rq_HintsValidAt = None\<rparr>"

lemma demo_dir_ok: "master_ok demo_env (dy_master demo_dir)"
  using demo_master_ok [of "[]"] by (simp add: demo_dir_def)

theorem hint_lookups_agree_witness:
  "ResolveIDsByHintsDBOnly (demo_master []) [bare_ref ''ISIN'' ''US1'', bare_ref ''MIC_TICKER'' ''T'']
     = map ri_ID (ResolveByHintsDBOnly (demo_master []) [bare_ref ''ISIN'' ''US1'', bare_ref ''MIC_TICKER'' ''T''])"
  by (rule hint_lookups_agree) (use demo_dir_ok in \<open>simp add: master_ok_def demo_dir_def\<close>)

text \<open>Two answers about one security: the second names its ticker and loses, and its name is kept beside the winner's ISIN.\<close>

definition demo_results :: "pluginResult list" where
  "demo_results = [answered_with (Some (described_as ''STOCK'' ''USD'' [], [bare_ref ''ISIN'' ''US1''])),
     answered_with (Some (described_as ''STOCK'' '''' [], [bare_ref ''ISIN'' ''US1'', bare_ref ''MIC_TICKER'' ''T'']))]"

theorem merged_names_fit_the_winner_witness:
  "mergedIds (\<lambda>x. x) (\<lambda>_. '''') demo_results 0 = [bare_ref ''ISIN'' ''US1'', bare_ref ''MIC_TICKER'' ''T'']
   \<and> list_all (compatible (\<lambda>x. x) [bare_ref ''ISIN'' ''US1'']) (mergedIds (\<lambda>x. x) (\<lambda>_. '''') demo_results 0)"
proof -
  have "mergedIds (\<lambda>x. x) (\<lambda>_. '''') demo_results 0 = [bare_ref ''ISIN'' ''US1'', bare_ref ''MIC_TICKER'' ''T'']" by code_simp
  moreover have "answer (demo_results ! 0) = Some (described_as ''STOCK'' ''USD'' [], [bare_ref ''ISIN'' ''US1''])" by code_simp
  moreover have "0 < length demo_results" by (simp add: demo_results_def)
  ultimately show ?thesis using merged_names_fit_the_winner by blast
qed

end
