(* ===== verification/Resolution_Correct.thy ===== *)
theory Resolution_Correct
  imports Identification_Correct
begin

text \<open>
  What a resolution does to the store: its constraints hold after it whatever the plugins answer, the
  instrument returned is stored, the recursion for underlyings is bounded, and a key that was guessed
  writes nothing it was not confirmed for.
\<close>

subsection \<open>Runs that keep the store\<close>

text \<open>The store is sound after the run, and what a successful one returns names a stored instrument, or nothing where that is allowed.\<close>

definition stored_run :: "Env \<Rightarrow> bool \<Rightarrow> ('a \<Rightarrow> string) \<Rightarrow> 'a run \<Rightarrow> bool" where
  "stored_run env blank name r \<longleftrightarrow> master_ok env (dy_master (fst r))
     \<and> (\<forall>x. snd r = Inr x \<longrightarrow> name x \<in> instrument_ids (dy_master (fst r)) \<or> blank \<and> name x = '''')"

lemma stored_run_Inl: "stored_run env blank name (d, Inl e) \<longleftrightarrow> master_ok env (dy_master d)"
  by (simp add: stored_run_def)

lemma stored_run_Inr:
  "stored_run env blank name (d, Inr x) \<longleftrightarrow> master_ok env (dy_master d) \<and> (name x \<in> instrument_ids (dy_master d) \<or> blank \<and> name x = '''')"
  by (simp add: stored_run_def)

lemmas stored_run_simps = stored_run_Inl stored_run_Inr

lemma stored_run_weaken: "stored_run env False name r \<Longrightarrow> stored_run env blank name r"
  unfolding stored_run_def by blast

lemma then_run_stored:
  assumes "stored_run env blank (\<lambda>i. i) r" "\<And>i d. dy_master (fst (f i d)) = dy_master d" "\<And>i d. \<exists>y. snd (f i d) = Inr y \<and> name y = i"
  shows "stored_run env blank name (then_run r f)"
proof (cases r)
  case (Pair d s)
  show ?thesis
  proof (cases s)
    case (Inl e)
    then show ?thesis using assms(1) Pair by (simp add: then_run_def stored_run_simps)
  next
    case (Inr i)
    obtain y where "snd (f i d) = Inr y" "name y = i" using assms(3) by blast
    then show ?thesis using assms(1,2) Pair Inr by (auto simp: then_run_def stored_run_def)
  qed
qed

subsection \<open>What does not touch the security master\<close>

lemma Attempt_write_master [simp]: "dy_master (Attempt_write tel row d) = dy_master d"
  by (simp add: Attempt_write_def)

lemma writeAttempt_master [simp]: "dy_master (writeAttempt rq inputs results winner outcome ac d) = dy_master d"
  by (simp add: writeAttempt_def)

lemma SaveProviderIdentifiers_master [simp]: "dy_master (SaveProviderIdentifiers i ps d) = dy_master d"
  by (simp add: SaveProviderIdentifiers_def)

lemma no_result_ID [simp]: "rv_InstrumentID (no_result\<lparr>rv_InstrumentID := i\<rparr>) = i"
  by (simp add: no_result_def)

subsection \<open>The fallback's contract\<close>

text \<open>
  What a resolution relies on in the function it calls when nothing identifies the instrument: it keeps
  the store sound, returns a stored instrument, and records no attempt.
\<close>

locale fallback_provider =
  fixes env :: Env and fb :: FallbackFunc
  assumes fallback_stored: "env_ok env \<Longrightarrow> master_ok env (dy_master d) \<Longrightarrow> stored_run env False (\<lambda>i. i) (fb d)"
    and fallback_silent: "dy_attempts (fst (fb d)) = dy_attempts d"

definition fallback_ok :: "Env \<Rightarrow> FallbackFunc option \<Rightarrow> bool" where
  "fallback_ok env fallback \<longleftrightarrow> (case fallback of None \<Rightarrow> True | Some fb \<Rightarrow> fallback_provider env fb)"

text \<open>The same of the resolution one level down.\<close>

definition below_ok :: "Env \<Rightarrow> (Identity \<Rightarrow> Directory \<Rightarrow> ResolveResult run) option \<Rightarrow> bool" where
  "below_ok env below \<longleftrightarrow> (case below of None \<Rightarrow> True
     | Some f \<Rightarrow> \<forall>ident d. master_ok env (dy_master d) \<longrightarrow> master_ok env (dy_master (fst (f ident d))))"

lemma resolve_underlying_ok:
  assumes "below_ok env below" "master_ok env (dy_master d)"
  shows "master_ok env (dy_master (fst (resolve_underlying below inst d)))"
proof (cases below)
  case (Some f)
  then have "master_ok env (dy_master (fst (f (underlying_identity inst) d)))" using assms by (simp add: below_ok_def)
  then show ?thesis using Some assms(2) by (auto simp: resolve_underlying_def split: prod.splits sum.splits)
qed (simp add: resolve_underlying_def assms(2))

lemma ensure_in_stored:
  assumes "env_ok env" "master_ok env (dy_master d)"
  shows "stored_run env False (\<lambda>i. i) (ensure_in env inst idns u opt d)"
proof (cases "EnsureInstrument env (ds_AssetClass inst) (vn_MIC (ds_Venue inst)) (ds_Currency inst) (ds_CIK inst) (ds_SICCode inst)
        idns u (ds_ValidFrom inst) (ds_ValidBefore inst) opt (dy_master d)")
  case (Inl e)
  then show ?thesis using assms(2) by (simp add: ensure_in_def stored_run_simps)
next
  case (Inr r)
  obtain m i where r: "r = (m, i)" by (cases r) 
  from EnsureInstrument_settled [OF Inr [unfolded r] assms] show ?thesis using Inr r
    by (simp add: ensure_in_def stored_run_simps settled_def)
qed

lemma resolve_won_stored:
  assumes "env_ok env" "master_ok env (dy_master d)" "below_ok env below" "fallback_ok env fallback"
  shows "stored_run env False rv_InstrumentID (resolve_won env rq fallback below inputs results w won d)"
proof -
  have ok: "master_ok env (dy_master (fst (resolve_underlying below inst d)))" for inst by (rule resolve_underlying_ok [OF assms(3,2)])
  have fb: "stored_run env False (\<lambda>i. i) (f d')" if "fallback = Some f" "master_ok env (dy_master d')" for f d'
    using that assms(1,4) fallback_provider.fallback_stored by (simp add: fallback_ok_def)
  show ?thesis unfolding resolve_won_def Let_def
    by (simp only: split: prod.split option.split bool.split)
      (auto intro!: then_run_stored fb ok ensure_in_stored [OF assms(1)] simp: no_result_def)
qed

lemma resolve_unidentified_stored:
  assumes "env_ok env" "master_ok env (dy_master d)" "fallback_ok env fallback"
  shows "stored_run env (fallback = None) rv_InstrumentID (resolve_unidentified rq fallback inputs results d)"
proof (cases fallback)
  case None
  then show ?thesis using assms(2) by (simp add: resolve_unidentified_def Let_def stored_run_simps no_result_def)
next
  case (Some fb)
  then have "stored_run env False (\<lambda>i. i) (fb (writeAttempt rq inputs results None (unresolved_outcome results) '''' d))"
    using assms fallback_provider.fallback_stored by (simp add: fallback_ok_def)
  then show ?thesis unfolding Some by (auto simp: resolve_unidentified_def Let_def no_result_def intro!: then_run_stored)
qed

lemma short_circuit_stored:
  assumes "master_ok env (dy_master d)" "ri_ID x \<in> instrument_ids (dy_master d)"
  shows "stored_run env False rv_InstrumentID (short_circuit rq x d)"
  using assms by (simp add: short_circuit_def Let_def stored_run_simps no_result_def)

lemma master_ok_refs: "master_ok env m \<Longrightarrow> refs_ok m"
  by (simp add: master_ok_def)

lemma resolve_once_stored:
  assumes "env_ok env" "master_ok env (dy_master d)" "below_ok env below" "fallback_ok env fallback"
  shows "stored_run env (fallback = None) rv_InstrumentID (resolve_once env registry rq fallback below d)"
proof -
  let ?found = "ResolveByHintsDBOnly (dy_master d) (lookupIDs (rq_Ident rq))"
  have sc: "stored_run env (fallback = None) rv_InstrumentID (short_circuit rq x d)" if "?found = [x]" for x
  proof -
    have "x \<in> set ?found" using that by simp
    then show ?thesis using found_stored(1) [OF master_ok_refs [OF assms(2)]] short_circuit_stored [OF assms(2)] stored_run_weaken by blast
  qed
  have won: "stored_run env (fallback = None) rv_InstrumentID (resolve_won env rq fallback below inputs results w won d)" for inputs results w won
    by (rule stored_run_weaken [OF resolve_won_stored [OF assms]])
  show ?thesis unfolding resolve_once_def Let_def using sc won resolve_unidentified_stored [OF assms(1,2,4)]
    by (auto split: list.splits option.splits)
qed

lemma ResolveWithPlugins_stored:
  assumes "env_ok env" "master_ok env (dy_master d)" "fallback_ok env fallback"
  shows "stored_run env (fallback = None) rv_InstrumentID (ResolveWithPlugins env registry rq fallback d)"
  using assms
proof (induction env registry rq fallback d rule: ResolveWithPlugins.induct)
  case (1 env registry rq fallback d)
  have "below_ok env (if rq_Depth rq < MaxResolveDepth then Some (\<lambda>ident. ResolveWithPlugins env registry (underlying_request rq ident) None) else None)"
  proof (cases "rq_Depth rq < MaxResolveDepth")
    case True
    have "master_ok env (dy_master (fst (ResolveWithPlugins env registry (underlying_request rq ident) None d')))" if "master_ok env (dy_master d')" for ident d'
      using "1.IH" [OF True "1.prems"(1) that] by (simp add: fallback_ok_def stored_run_def)
    then show ?thesis using True by (simp add: below_ok_def)
  qed (simp add: below_ok_def)
  then show ?case unfolding ResolveWithPlugins.simps [of env registry rq fallback d]
    by (rule resolve_once_stored [OF "1.prems"(1,2) _ "1.prems"(3)])
qed

subsection \<open>Levels\<close>

text \<open>The attempts a run adds: the deepest first, one for each level, none below the limit.\<close>

definition levels :: "nat \<Rightarrow> AttemptRow list \<Rightarrow> bool" where
  "levels k rows \<longleftrightarrow> sorted_wrt (>) (map aw_Depth rows) \<and> list_all (\<lambda>a. k \<le> aw_Depth a \<and> aw_Depth a \<le> MaxResolveDepth) rows"

definition adds :: "nat \<Rightarrow> Directory \<Rightarrow> Directory \<Rightarrow> bool" where
  "adds k d d' \<longleftrightarrow> (\<exists>rows. dy_attempts d' = dy_attempts d @ rows \<and> levels k rows)"

definition recording :: "Attempt \<Rightarrow> bool" where
  "recording tel \<longleftrightarrow> at_DB tel \<and> at_KeyID tel \<noteq> ''''"

lemma levels_Nil [simp]: "levels k []"
  by (simp add: levels_def)

lemma levels_Suc: "levels (Suc k) rows \<Longrightarrow> levels k rows"
  by (auto simp: levels_def list_all_iff)

lemma levels_own: "levels (Suc k) rows \<Longrightarrow> aw_Depth a = k \<Longrightarrow> k \<le> MaxResolveDepth \<Longrightarrow> levels k (rows @ [a])"
  by (auto simp: levels_def list_all_iff sorted_wrt_append)

lemma levels_count:
  assumes "levels k rows"
  shows "length rows \<le> Suc MaxResolveDepth - k"
proof -
  have "sorted_wrt (>) xs \<Longrightarrow> distinct xs" for xs :: "nat list" by (induction xs) auto
  then have "distinct (map aw_Depth rows)" using assms unfolding levels_def by blast
  moreover have "set (map aw_Depth rows) \<subseteq> {k..MaxResolveDepth}" using assms by (auto simp: levels_def list_all_iff)
  ultimately show ?thesis by (metis card_atLeastAtMost card_mono distinct_card finite_atLeastAtMost length_map)
qed

lemma attempts_write:
  "dy_attempts (Attempt_write tel row d) = dy_attempts d
     @ (if recording tel then [row\<lparr>aw_KeyID := at_KeyID tel, aw_Purpose := at_Purpose tel\<rparr>] else [])"
  by (simp add: Attempt_write_def recording_def)

lemma writeAttempt_adds:
  assumes "dy_attempts d' = dy_attempts d @ rows" "levels (Suc (rq_Depth rq)) rows" "rq_Depth rq \<le> MaxResolveDepth"
  shows "adds (rq_Depth rq) d (writeAttempt rq inputs results winner outcome ac d')"
  using assms levels_own levels_Suc by (auto simp: adds_def writeAttempt_def attempts_write attempt_row_def)

lemma ensure_in_attempts: "dy_attempts (fst (ensure_in env inst idns u opt d)) = dy_attempts d"
  by (auto simp: ensure_in_def split: sum.splits prod.splits)

lemma SaveProviderIdentifiers_attempts [simp]: "dy_attempts (SaveProviderIdentifiers i ps d) = dy_attempts d"
  by (simp add: SaveProviderIdentifiers_def)

lemma then_run_adds:
  assumes "dy_attempts (fst r) = dy_attempts d @ rows" "levels (Suc k) rows"
    and "\<And>i d'. dy_attempts d' = dy_attempts d @ rows \<Longrightarrow> adds k d (fst (f i d'))"
  shows "adds k d (fst (then_run r f))"
proof (cases r)
  case (Pair d' s)
  then show ?thesis using assms levels_Suc by (cases s) (auto simp: then_run_def adds_def)
qed

definition below_adds :: "nat \<Rightarrow> (Identity \<Rightarrow> Directory \<Rightarrow> ResolveResult run) option \<Rightarrow> bool" where
  "below_adds k below \<longleftrightarrow> (case below of None \<Rightarrow> True | Some f \<Rightarrow> \<forall>ident d. adds (Suc k) d (fst (f ident d)))"

lemma resolve_underlying_adds:
  assumes "below_adds k below"
  shows "adds (Suc k) d (fst (resolve_underlying below inst d))"
proof (cases below)
  case (Some f)
  then have "adds (Suc k) d (fst (f (underlying_identity inst) d))" using assms by (simp add: below_adds_def)
  then show ?thesis using Some by (auto simp: resolve_underlying_def adds_def split: prod.splits sum.splits)
qed (simp add: resolve_underlying_def adds_def)

lemma resolve_won_adds:
  assumes "below_adds (rq_Depth rq) below" "fallback_ok env fallback" "rq_Depth rq \<le> MaxResolveDepth"
  shows "adds (rq_Depth rq) d (fst (resolve_won env rq fallback below inputs results w won d))"
proof -
  define inst where "inst = merged_instrument (NewDBMICNormalizer (dy_master d)) (NewDBMICCountry d) results w won"
  define d1 where "d1 = fst (resolve_underlying below inst d)"
  from resolve_underlying_adds [OF assms(1)] obtain rows where rows: "dy_attempts d1 = dy_attempts d @ rows" "levels (Suc (rq_Depth rq)) rows"
    unfolding adds_def d1_def by blast
  have fb: "dy_attempts (fst (f d1)) = dy_attempts d @ rows" if "fallback = Some f" for f
    using that assms(2) rows(1) fallback_provider.fallback_silent by (simp add: fallback_ok_def)
  have en: "dy_attempts (fst (ensure_in env inst idns u opt d1)) = dy_attempts d @ rows" for idns u opt
    by (simp add: ensure_in_attempts rows(1))
  show ?thesis unfolding resolve_won_def Let_def inst_def [symmetric] d1_def [symmetric]
    by (simp only: split: prod.split option.split bool.split)
      (auto intro!: then_run_adds [OF fb rows(2)] then_run_adds [OF en rows(2)] writeAttempt_adds rows(2) assms(3))
qed

lemma resolve_unidentified_adds:
  assumes "fallback_ok env fallback" "rq_Depth rq \<le> MaxResolveDepth"
  shows "adds (rq_Depth rq) d (fst (resolve_unidentified rq fallback inputs results d))"
proof -
  let ?d = "writeAttempt rq inputs results None (unresolved_outcome results) '''' d"
  have a: "adds (rq_Depth rq) d ?d" using writeAttempt_adds [where rows = "[]" and d = d and d' = d] assms(2) by simp
  show ?thesis
  proof (cases fallback)
    case None
    then show ?thesis using a by (simp add: resolve_unidentified_def Let_def)
  next
    case (Some fb)
    then have "dy_attempts (fst (fb ?d)) = dy_attempts ?d" using assms(1) fallback_provider.fallback_silent by (simp add: fallback_ok_def)
    then have "adds (rq_Depth rq) d (fst (fb ?d))" using a by (simp add: adds_def)
    then show ?thesis using Some by (auto simp: resolve_unidentified_def Let_def then_run_def split: prod.splits sum.splits)
  qed
qed

lemma resolve_once_adds:
  assumes "below_adds (rq_Depth rq) below" "fallback_ok env fallback" "rq_Depth rq \<le> MaxResolveDepth"
  shows "adds (rq_Depth rq) d (fst (resolve_once env registry rq fallback below d))"
proof -
  have "adds (rq_Depth rq) d (fst (short_circuit rq x d))" for x
    using levels_own [of "rq_Depth rq" "[]"] assms(3) by (auto simp: short_circuit_def Let_def adds_def attempts_write attempt_row_def)
  then show ?thesis unfolding resolve_once_def Let_def using resolve_won_adds [OF assms] resolve_unidentified_adds [OF assms(2,3)]
    by (auto split: list.splits option.splits)
qed

lemma ResolveWithPlugins_adds:
  assumes "fallback_ok env fallback" "rq_Depth rq \<le> MaxResolveDepth"
  shows "adds (rq_Depth rq) d (fst (ResolveWithPlugins env registry rq fallback d))"
  using assms
proof (induction env registry rq fallback d rule: ResolveWithPlugins.induct)
  case (1 env registry rq fallback d)
  have "below_adds (rq_Depth rq) (if rq_Depth rq < MaxResolveDepth then Some (\<lambda>ident. ResolveWithPlugins env registry (underlying_request rq ident) None) else None)"
  proof (cases "rq_Depth rq < MaxResolveDepth")
    case True
    have "adds (Suc (rq_Depth rq)) d' (fst (ResolveWithPlugins env registry (underlying_request rq ident) None d'))" for ident d'
      using "1.IH" [OF True, of ident d'] True by (simp add: fallback_ok_def underlying_request_def)
    then show ?thesis using True by (simp add: below_adds_def)
  qed (simp add: below_adds_def)
  then show ?case unfolding ResolveWithPlugins.simps [of env registry rq fallback d] by (rule resolve_once_adds [OF _ "1.prems"])
qed

subsection \<open>The broker's description as the fallback\<close>

lemma description_only_stored:
  assumes "env_ok env" "master_ok env (dy_master d)"
  shows "stored_run env False (\<lambda>i. i) (description_only env source desc d)"
proof (cases "EnsureInstrument env '''' '''' '''' '''' ''''
        [\<lparr>ii_Ref = description_ref source desc, ii_Canonical = False, ii_ValidFrom = None, ii_ValidBefore = None\<rparr>] '''' None None None (dy_master d)")
  case (Inl e)
  then show ?thesis using assms(2) by (simp add: description_only_def stored_run_simps)
next
  case (Inr r)
  obtain m i where r: "r = (m, i)" by (cases r)
  from EnsureInstrument_settled [OF Inr [unfolded r] assms] show ?thesis using Inr r
    by (simp add: description_only_def stored_run_simps settled_def)
qed

interpretation description: fallback_provider env "description_only env source desc" for env source desc
  by unfold_locales (rule description_only_stored, assumption+, simp add: description_only_def split: sum.split prod.split)

lemma description_fallback_ok: "fallback_ok env (Some (description_only env source desc))"
  by (simp add: fallback_ok_def description.fallback_provider_axioms)

text \<open>
  A resolution goes at most two underlyings deep and records each level once: the attempts a call
  from a batch adds to the telemetry are at most three, the deepest first, each at its own depth.
\<close>

theorem attempts_are_bounded:
  assumes "rq_Depth rq = 0"
  shows "\<exists>rows. dy_attempts (fst (ResolveWithPlugins env registry rq (Some (description_only env source desc)) d)) = dy_attempts d @ rows
    \<and> length rows \<le> 3 \<and> sorted_wrt (>) (map aw_Depth rows)"
proof -
  have "adds (rq_Depth rq) d (fst (ResolveWithPlugins env registry rq (Some (description_only env source desc)) d))"
    by (rule ResolveWithPlugins_adds [OF description_fallback_ok]) (simp add: assms)
  then obtain rows where rows: "levels 0 rows"
    "dy_attempts (fst (ResolveWithPlugins env registry rq (Some (description_only env source desc)) d)) = dy_attempts d @ rows"
    by (auto simp: adds_def assms)
  from levels_count [OF rows(1)] have "length rows \<le> 3" by (simp add: MaxResolveDepth_def)
  then show ?thesis using rows by (auto simp: levels_def)
qed

subsection \<open>A guessed key\<close>

text \<open>
  C26. A guess nothing confirmed decides nothing the store does not already say: when a source stated no
  identifier, only a proposal was put to the plugins, and the result is reported as identified with
  nothing confirmed, then no plugin's answer was used. The instrument is the one the lookup of the
  proposal found, and the security master is as it was; in particular the description is not bound.
\<close>

theorem unconfirmed_guess_writes_nothing:
  assumes "guessedKey (rq_Ident rq)" "ResolveWithPlugins env registry rq (Some fb) d = (d', Inr r)" "rv_Identified r" "rv_Confirmed r = []"
  shows "dy_master d' = dy_master d \<and> map ri_ID (ResolveByHintsDBOnly (dy_master d) (lookupIDs (rq_Ident rq))) = [rv_InstrumentID r]"
proof -
  define below where "below = (if rq_Depth rq < MaxResolveDepth then Some (\<lambda>ident. ResolveWithPlugins env registry (underlying_request rq ident) None) else None)"
  have run: "resolve_once env registry rq (Some fb) below d = (d', Inr r)"
    using assms(2) by (simp add: below_def ResolveWithPlugins.simps [of env registry rq])
  have won: "resolve_won env rq (Some fb) below inputs results w won d \<noteq> (d', Inr r)" for inputs results w won
    using assms(1,3,4) by (auto simp: resolve_won_def Let_def then_run_def no_result_def split: prod.splits sum.splits bool.splits)
  have un: "resolve_unidentified rq (Some fb) inputs results d \<noteq> (d', Inr r)" for inputs results
    using assms(3) by (auto simp: resolve_unidentified_def Let_def then_run_def no_result_def split: prod.splits sum.splits)
  from run won un obtain x where "ResolveByHintsDBOnly (dy_master d) (lookupIDs (rq_Ident rq)) = [x]" "short_circuit rq x d = (d', Inr r)"
    by (auto simp: resolve_once_def Let_def split: list.splits option.splits)
  then show ?thesis by (auto simp: short_circuit_def Let_def no_result_def)
qed

subsection \<open>Concrete runs\<close>

definition ticker_plugin :: registry where
  "ticker_plugin = answering (\<lambda>hs. Some (described_as ''STOCK'' ''USD'' [], hs))"

definition proposing :: "InstrumentRef list \<Rightarrow> Identity" where
  "proposing hs = \<lparr>iy_Stated = [], iy_Proposed = hs, iy_Hints = no_hints\<rparr>"

theorem attempts_are_bounded_witness:
  "\<exists>rows. dy_attempts (fst (ResolveWithPlugins demo_env ticker_plugin (demo_request (proposing [bare_ref ''MIC_TICKER'' ''V'']))
       (Some (description_only demo_env ''src'' ''D'')) demo_dir)) = dy_attempts demo_dir @ rows
    \<and> length rows \<le> 3 \<and> sorted_wrt (>) (map aw_Depth rows)"
  by (rule attempts_are_bounded) (simp add: demo_request_def)

theorem unconfirmed_guess_writes_nothing_witness:
  "\<exists>d' r. ResolveWithPlugins demo_env ticker_plugin (demo_request (proposing [bare_ref ''MIC_TICKER'' ''T'']))
     (Some (description_only demo_env ''src'' ''D'')) demo_dir = (d', Inr r) \<and> rv_InstrumentID r = ''aa'' \<and> dy_master d' = dy_master demo_dir"
proof -
  let ?rq = "demo_request (proposing [bare_ref ''MIC_TICKER'' ''T''])"
  let ?run = "ResolveWithPlugins demo_env ticker_plugin ?rq (Some (description_only demo_env ''src'' ''D'')) demo_dir"
  have "(case ?run of (d, Inl e) \<Rightarrow> False | (d, Inr r) \<Rightarrow> rv_Identified r \<and> rv_Confirmed r = [] \<and> rv_InstrumentID r = ''aa'')" by code_simp
  then obtain d' r where run: "?run = (d', Inr r)" "rv_Identified r" "rv_Confirmed r = []" "rv_InstrumentID r = ''aa''"
    by (auto split: prod.splits sum.splits)
  have "guessedKey (rq_Ident ?rq)" by (simp add: demo_request_def proposing_def guessedKey_def)
  from unconfirmed_guess_writes_nothing [OF this run(1-3)] show ?thesis using run by blast
qed

end
