(* ===== verification/Batch_Correct.thy ===== *)
theory Batch_Correct
  imports Resolution_Correct
begin

text \<open>
  Resolving a batch: the store stays sound whatever the plugins answer, a posting resolved here gets a
  stored instrument, and postings that share a key share it. The last section evaluates concrete
  batches in which the resolution ends where its comments say it does not.
\<close>

subsection \<open>The store\<close>

abbreviation up_master :: "Upload \<Rightarrow> Master" where
  "up_master u \<equiv> dy_master (up_dir u)"

lemma on_keys_simps [simp]: "up_dir (on_keys f u) = up_dir u" "up_cache (on_keys f u) = up_cache u"
  by (simp_all add: on_keys_def)

lemma finish_key_simps:
  "up_dir (fst (finish_key pk caching purpose result u)) = up_dir u"
  "up_cache (fst (finish_key pk caching purpose result u)) =
     (if caching then [(pk_Key pk, the (Some (projr (snd (finish_key pk caching purpose result u)))))] else []) @ up_cache u"
  "\<exists>r. snd (finish_key pk caching purpose result u) = Inr r \<and> rr_InstrumentID r = rv_InstrumentID result"
  by (simp_all add: finish_key_def Let_def)

definition stored_step :: "Env \<Rightarrow> Upload \<times> (string + resolveResult) \<Rightarrow> bool" where
  "stored_step env s \<longleftrightarrow> master_ok env (up_master (fst s)) \<and> (\<forall>r. snd s = Inr r \<longrightarrow> rr_InstrumentID r \<in> instrument_ids (up_master (fst s)))"

lemma plugins_stored:
  assumes "env_ok env" "master_ok env (up_master u)"
  shows "stored_step env (resolveWithIdentifierPlugins env registry pk ident caching bind purpose u)"
proof -
  define rq where "rq = \<lparr>rq_Broker = pk_Broker pk, rq_Source = pk_Source pk, rq_Description = pk_Description pk, rq_Ident = ident, rq_Bind = bind,
    rq_Tel = rk_attempt (pk_Key pk) purpose (up_keys u), rq_Depth = 0, rq_HintsValidAt = pk_HintsValidAt pk\<rparr>"
  have run: "stored_run env False rv_InstrumentID (ResolveWithPlugins env registry rq (Some (description_only env (pk_Source pk) (pk_Description pk))) (up_dir u))"
    using ResolveWithPlugins_stored [OF assms description_fallback_ok] by simp
  obtain d s where ds: "ResolveWithPlugins env registry rq (Some (description_only env (pk_Source pk) (pk_Description pk))) (up_dir u) = (d, s)"
    by (cases "ResolveWithPlugins env registry rq (Some (description_only env (pk_Source pk) (pk_Description pk))) (up_dir u)")
  show ?thesis
  proof (cases s)
    case (Inl e)
    then show ?thesis using run ds
      by (simp add: resolveWithIdentifierPlugins_def Let_def rq_def [symmetric] stored_run_simps stored_step_def)
  next
    case (Inr result)
    obtain r where "snd (finish_key pk caching purpose result (u\<lparr>up_dir := d\<rparr>)) = Inr r" "rr_InstrumentID r = rv_InstrumentID result"
      using finish_key_simps(3) by blast
    then show ?thesis using run ds Inr
      by (simp add: resolveWithIdentifierPlugins_def Let_def rq_def [symmetric] stored_run_simps stored_step_def finish_key_simps(1))
  qed
qed

lemma mismatch_check_stored:
  assumes "env_ok env" "master_ok env (up_master u)"
  shows "master_ok env (up_master (fst (mismatch_check env registry pk hints extracted u)))"
proof -
  have "master_ok env (up_master (fst (resolveWithIdentifierPlugins env registry pk ident False True purpose u')))" if "master_ok env (up_master u')" for ident purpose u'
    using plugins_stored [OF assms(1) that] by (simp add: stored_step_def)
  then show ?thesis using assms(2) by (auto simp: mismatch_check_def Let_def split: prod.splits) (metis fst_conv)+
qed

lemma extraction_failed_stored:
  assumes "env_ok env" "master_ok env (up_master u)"
  shows "stored_step env (extraction_failed env pk u)"
  using description_only_stored [OF assms, of "pk_Source pk" "pk_Description pk"]
  by (auto simp: extraction_failed_def Let_def stored_step_def stored_run_def split: prod.splits sum.splits)

text \<open>The ways a key that is not cached is resolved.\<close>

lemma Resolve_cases [consumes 2, case_names conflict plugins failed proposed]:
  assumes "map_of (up_cache u) (pk_Key pk) = None" "Resolve_instrument env registry pk hints hs pre u = (u', r)"
  obtains (conflict) e where "r = Inl e" "up_dir u' = up_dir u" "up_cache u' = up_cache u"
  | (plugins) ident bind where "(u', r) = resolveWithIdentifierPlugins env registry pk ident True bind ''primary'' u"
  | (failed) "(u', r) = extraction_failed env pk u"
  | (proposed) e u1 offered where "mismatch_check env registry pk hints e u = (u1, offered)"
      "(u', r) = resolveWithIdentifierPlugins env registry pk \<lparr>iy_Stated = [], iy_Proposed = offered, iy_Hints = hints\<rparr> True True ''primary'' u1"
proof (cases "hs = []")
  case True
  then show ?thesis using assms failed proposed
    by (cases "mismatch_check env registry pk hints (proposals_for pre (pk_Key pk)) u") (auto simp: Resolve_instrument_def Let_def split: if_splits)
next
  case False
  show ?thesis
  proof (cases "pk_Key pk \<in> set (pre_conflicts pre)")
    case True
    then show ?thesis using False assms conflict by (auto simp: Resolve_instrument_def Let_def)
  next
    case ok: False
    let ?ident = "\<lparr>iy_Stated = hs, iy_Proposed = proposals_for pre (pk_Key pk), iy_Hints = hints\<rparr>"
    have "resolveWithIdentifierPlugins env registry pk ?ident True (or_blank (pre_descOnly pre) (pk_Key pk) \<noteq> '''') ''primary'' u = (u', r)"
      using False ok assms by (simp add: Resolve_instrument_def Let_def)
    then show ?thesis by (rule plugins [OF sym])
  qed
qed

lemma resolution_stored:
  assumes "env_ok env" "master_ok env (up_master u)" "Resolve_instrument env registry pk hints hs pre u = (u', r)"
    and None: "map_of (up_cache u) (pk_Key pk) = None"
  shows "stored_step env (u', r)"
  using None assms(3)
proof (cases rule: Resolve_cases)
  case (conflict e)
  then show ?thesis using assms(2) by (simp add: stored_step_def)
next
  case (plugins ident bind)
  show ?thesis unfolding plugins by (rule plugins_stored [OF assms(1,2)])
next
  case failed
  show ?thesis unfolding failed by (rule extraction_failed_stored [OF assms(1,2)])
next
  case (proposed e u1 offered)
  then have "master_ok env (up_master u1)" using mismatch_check_stored [OF assms(1,2)] by (metis fst_conv)
  then show ?thesis unfolding proposed(2) by (rule plugins_stored [OF assms(1)])
qed

lemma resolution_step_ok:
  assumes "env_ok env" "master_ok env (up_master u)" "Resolve_instrument env registry pk hints hs pre u = (u', r)"
  shows "master_ok env (up_master u')"
proof (cases "map_of (up_cache u) (pk_Key pk)")
  case (Some x)
  then show ?thesis using assms(2,3) by (auto simp: Resolve_instrument_def Let_def)
qed (use resolution_stored [OF assms] in \<open>simp add: stored_step_def\<close>)

text \<open>
  C23. Resolving a posting keeps the security master sound, whatever the identifier plugins answer: every
  constraint of its tables holds afterwards, on the error paths too, and where the posting's key was
  not already answered the instrument it is given is stored.
\<close>

theorem resolution_keeps_the_store:
  assumes "env_ok env" "master_ok env (up_master u)" "Resolve_instrument env registry pk hints hs pre u = (u', r)"
  shows "master_ok env (up_master u')
    \<and> (map_of (up_cache u) (pk_Key pk) = None \<longrightarrow> (\<forall>x. r = Inr x \<longrightarrow> rr_InstrumentID x \<in> instrument_ids (up_master u')))"
  using resolution_step_ok [OF assms] resolution_stored [OF assms] by (simp add: stored_step_def)

subsection \<open>The cache\<close>

lemma plugins_cache:
  assumes "resolveWithIdentifierPlugins env registry pk ident caching bind purpose u = (u', Inr r)"
  shows "up_cache u' = (if caching then (pk_Key pk, r) # up_cache u else up_cache u)"
  using assms by (auto simp: resolveWithIdentifierPlugins_def finish_key_def Let_def split: prod.splits sum.splits)

lemma plugins_cache_Inl: "resolveWithIdentifierPlugins env registry pk ident caching bind purpose u = (u', Inl e) \<Longrightarrow> up_cache u' = up_cache u"
  by (auto simp: resolveWithIdentifierPlugins_def finish_key_def Let_def split: prod.splits sum.splits)

lemma probe_cache: "up_cache (fst (resolveWithIdentifierPlugins env registry pk ident False bind purpose u)) = up_cache u"
proof (cases "resolveWithIdentifierPlugins env registry pk ident False bind purpose u")
  case (Pair u' s)
  then show ?thesis using plugins_cache [of env registry pk ident False bind purpose u] plugins_cache_Inl [of env registry pk ident False bind purpose u]
    by (cases s) auto
qed

lemma mismatch_check_cache: "up_cache (fst (mismatch_check env registry pk hints e u)) = up_cache u"
  using probe_cache by (auto simp: mismatch_check_def Let_def split: prod.splits) (metis fst_conv)+

lemma Resolve_cached:
  assumes "Resolve_instrument env registry pk hints hs pre u = (u', Inr r)"
  shows "map_of (up_cache u') (pk_Key pk) = Some r" "map_of (up_cache u) \<subseteq>\<^sub>m map_of (up_cache u')"
proof -
  have "map_of (up_cache u') (pk_Key pk) = Some r \<and> map_of (up_cache u) \<subseteq>\<^sub>m map_of (up_cache u')"
  proof (cases "map_of (up_cache u) (pk_Key pk)")
    case (Some x)
    then show ?thesis using assms by (auto simp: Resolve_instrument_def Let_def)
  next
    case None
    have new: "?thesis" if "up_cache u' = (pk_Key pk, r) # up_cache u" using that None by (auto simp: map_le_def)
    from None assms show ?thesis
    proof (cases rule: Resolve_cases)
      case (plugins ident bind)
      then show ?thesis using plugins_cache [OF plugins [symmetric]] new by simp
    next
      case failed
      then show ?thesis using new by (auto simp: extraction_failed_def Let_def split: prod.splits sum.splits)
    next
      case (proposed e u1 offered)
      have "up_cache u1 = up_cache u" using mismatch_check_cache [of env registry pk hints e u] proposed(1) by simp
      then show ?thesis using plugins_cache [OF proposed(2) [symmetric]] new by simp
    qed simp
  qed
  then show "map_of (up_cache u') (pk_Key pk) = Some r" "map_of (up_cache u) \<subseteq>\<^sub>m map_of (up_cache u')" by blast+
qed

definition key_of_row :: "string \<Rightarrow> int \<times> Tx \<times> InstrumentRef list \<Rightarrow> string" where
  "key_of_row source row = (case row of (_, tx, hs) \<Rightarrow> cacheKeyWithHints source (x_InstrumentDescription tx) hs)"

lemma resolve_rows_cached:
  assumes "resolve_rows env registry broker source validAt pre rows ids u = (u', Inr out)"
  shows "\<exists>new. out = ids @ new \<and> length new = length rows \<and> map_of (up_cache u) \<subseteq>\<^sub>m map_of (up_cache u')
    \<and> (\<forall>k < length rows. map_option rr_InstrumentID (map_of (up_cache u') (key_of_row source (rows ! k))) = Some (new ! k))"
  using assms
proof (induction env registry broker source validAt pre rows ids u rule: resolve_rows.induct)
  case (2 env registry broker source validAt pre rowIndex tx hs rest ids u)
  let ?pk = "posting_key broker source validAt rowIndex tx hs"
  obtain u1 r where r: "Resolve_instrument env registry ?pk (HintsFromTx tx) hs pre u = (u1, Inr r)"
    "resolve_rows env registry broker source validAt pre rest (ids @ [rr_InstrumentID r]) u1 = (u', Inr out)"
    using "2.prems" by (auto split: prod.splits sum.splits)
  have key: "pk_Key ?pk = key_of_row source (rowIndex, tx, hs)" by (simp add: posting_key_def key_of_row_def)
  obtain new where new: "out = (ids @ [rr_InstrumentID r]) @ new" "length new = length rest" "map_of (up_cache u1) \<subseteq>\<^sub>m map_of (up_cache u')"
    "\<forall>k < length rest. map_option rr_InstrumentID (map_of (up_cache u') (key_of_row source (rest ! k))) = Some (new ! k)"
    using "2.IH" [OF r(1) [symmetric] refl r(2)] by blast
  have here: "map_of (up_cache u') (key_of_row source (rowIndex, tx, hs)) = Some r"
    using Resolve_cached(1) [OF r(1)] new(3) unfolding key by (metis domI map_le_def)
  show ?case
  proof (intro exI [of _ "rr_InstrumentID r # new"] conjI)
    show "map_of (up_cache u) \<subseteq>\<^sub>m map_of (up_cache u')" using Resolve_cached(2) [OF r(1)] new(3) by (rule map_le_trans)
    show "\<forall>k < length ((rowIndex, tx, hs) # rest). map_option rr_InstrumentID (map_of (up_cache u') (key_of_row source (((rowIndex, tx, hs) # rest) ! k)))
       = Some ((rr_InstrumentID r # new) ! k)"
      using here new(4) by (simp add: All_less_Suc2)
  qed (use new in simp_all)
qed simp

lemma resolve_rows_stored:
  assumes "env_ok env" "master_ok env (up_master u)"
  shows "master_ok env (up_master (fst (resolve_rows env registry broker source validAt pre rows ids u)))"
  using assms
proof (induction env registry broker source validAt pre rows ids u rule: resolve_rows.induct)
  case (2 env registry broker source validAt pre rowIndex tx hs rest ids u)
  obtain u1 s where s: "Resolve_instrument env registry (posting_key broker source validAt rowIndex tx hs) (HintsFromTx tx) hs pre u = (u1, s)"
    by (cases "Resolve_instrument env registry (posting_key broker source validAt rowIndex tx hs) (HintsFromTx tx) hs pre u")
  have ok: "master_ok env (up_master u1)" using resolution_step_ok [OF "2.prems" s] .
  show ?case
  proof (cases s)
    case (Inl e)
    then show ?thesis using s ok by simp
  next
    case (Inr r)
    then show ?thesis using s "2.IH" [OF s [symmetric] Inr "2.prems"(1) ok] by simp
  qed
qed simp

text \<open>
  Resolving the instruments of a batch keeps the security master sound, whether it succeeds or stops
  at a row, and when it succeeds it gives one instrument to every posting, in order.
\<close>

theorem batch_keeps_the_store:
  assumes "env_ok env" "master_ok env (dy_master d)" "resolveInstruments env deps broker source exportedAt pre rows d = (u, r)"
  shows "master_ok env (up_master u) \<and> (\<forall>ids errs. r = Inr (ids, errs) \<longrightarrow> length ids = length rows)"
proof -
  define u0 where "u0 = \<lparr>up_dir = d, up_cache = pre_resolved pre, up_keys = newResolutionKeys deps source (map snd rows) pre\<rparr>"
  obtain s where s: "resolve_rows env (de_Registry deps) broker source exportedAt pre rows [] u0 = (u, s)"
    "r = (case s of Inl e \<Rightarrow> Inl e | Inr ids \<Rightarrow> Inr (ids, List.map_filter (\<lambda>(_, r). rr_IdErr r) (up_cache u)))"
    using assms(3) unfolding resolveInstruments_def u0_def by (auto split: prod.splits sum.splits)
  have "master_ok env (up_master u)"
    using resolve_rows_stored [OF assms(1), of u0 "de_Registry deps" broker source exportedAt pre rows "[]"] s(1) assms(2) by (simp add: u0_def)
  moreover have "length ids = length rows" if "s = Inr ids" for ids
    using resolve_rows_cached [OF s(1) [unfolded that]] by auto
  ultimately show ?thesis using s(2) by (auto split: sum.splits)
qed

subsection \<open>Keys\<close>

lemma go_insert_map: "(\<And>a b. lt a b \<longleftrightarrow> lt' (f a) (f b)) \<Longrightarrow> map f (go_insert lt x xs) = go_insert lt' (f x) (map f xs)"
  by (induction xs) auto

lemma go_sort_map: "(\<And>a b. lt a b \<longleftrightarrow> lt' (f a) (f b)) \<Longrightarrow> map f (go_sort lt xs) = go_sort lt' (map f xs)"
  by (induction xs) (simp_all add: go_insert_map [where lt' = lt'])

text \<open>The key is made of the types and the values of the hints, and nothing else of them.\<close>

definition type_value :: "InstrumentRef \<Rightarrow> string \<times> string" where
  "type_value h = (ref_Type h, ref_Value h)"

lemma key_of_pairs:
  assumes "map type_value hs = map type_value hs'"
  shows "cacheKeyWithHints source desc hs = cacheKeyWithHints source desc hs'"
proof -
  let ?lt = "\<lambda>p q :: string \<times> string. fst p < fst q \<or> fst p = fst q \<and> snd p < snd q"
  have "hint_order a b \<longleftrightarrow> ?lt (type_value a) (type_value b)" for a b by (simp add: hint_order_def type_value_def)
  then have s: "map type_value (go_sort hint_order xs) = go_sort ?lt (map type_value xs)" for xs by (rule go_sort_map)
  have t: "map (\<lambda>h. zero_byte # ref_Type h @ '':'' @ ref_Value h) xs = map (\<lambda>p. zero_byte # fst p @ '':'' @ snd p) (map type_value xs)" for xs
    by (simp add: type_value_def)
  have "hs = [] \<longleftrightarrow> hs' = []" using assms by (metis list.map_disc_iff)
  then show ?thesis unfolding cacheKeyWithHints_def t s by (simp only: assms)
qed

text \<open>
  C28. Two postings of a batch that share a description, and whose identifiers have the same types and
  values in the same order, are given the same instrument. For a posting repeated that is the purpose
  of the batch cache; but the key leaves out the domain, so it holds of one symbol stated on two
  venues too, and the second listing is recorded against the instrument of the first.
\<close>

theorem equal_symbols_share_an_instrument:
  assumes "resolveInstruments env deps broker source exportedAt pre rows d = (u, Inr (ids, errs))"
    and "i < length rows" "j < length rows" "rows ! i = (ri, tx, hs)" "rows ! j = (rj, tx', hs')"
    and "x_InstrumentDescription tx = x_InstrumentDescription tx'" "map type_value hs = map type_value hs'"
  shows "ids ! i = ids ! j"
proof -
  define u0 where "u0 = \<lparr>up_dir = d, up_cache = pre_resolved pre, up_keys = newResolutionKeys deps source (map snd rows) pre\<rparr>"
  have "resolve_rows env (de_Registry deps) broker source exportedAt pre rows [] u0 = (u, Inr ids)"
    using assms(1) unfolding resolveInstruments_def u0_def by (auto split: prod.splits sum.splits)
  from resolve_rows_cached [OF this] have k: "\<forall>k < length rows. map_option rr_InstrumentID (map_of (up_cache u) (key_of_row source (rows ! k))) = Some (ids ! k)"
    by auto
  have "key_of_row source (rows ! i) = key_of_row source (rows ! j)"
    using key_of_pairs [OF assms(7)] by (simp add: key_of_row_def assms(4-6))
  then show ?thesis using k assms(2,3) by (metis option.inject)
qed

subsection \<open>Concrete batches\<close>

text \<open>A candidate plugin that proposes the same identifiers for every item put to it.\<close>

definition proposer :: "InstrumentRef list \<Rightarrow> string \<Rightarrow> CandidatePlugin option" where
  "proposer hs = (\<lambda>_. Some \<lparr>cp_Kinds = [], cp_Types = [], cp_ProposeBatch = (\<lambda>_ _ _ items. (''hints_returned'',
     Inr (map (\<lambda>it. (bi_ID it, map (\<lambda>h. \<lparr>pp_Field = ''key'', pp_Identifier = h, pp_Confidence = 1\<rparr>) hs)) items)))\<rparr>)"

definition demo_deps :: "registry \<Rightarrow> InstrumentRef list \<Rightarrow> ingestDeps" where
  "demo_deps registry offered = \<lparr>de_Registry = registry, de_CandidateRegistry = Some (proposer offered), de_CandidateConfigs = [demo_config],
     de_Telemetry = True, de_RunID = ''run'', de_RunKind = ''tx_import'', de_hash = (\<lambda>k. k), de_call_id = (\<lambda>_. ''c''), de_key_id = (\<lambda>k. k)\<rparr>"

definition demo_pre :: "ingestDeps \<Rightarrow> (int \<times> Tx \<times> InstrumentRef list) list \<Rightarrow> prePass" where
  "demo_pre deps rows = fst (proposeCandidates deps (dy_master demo_dir) ''src'' ''IBKR'' (map snd rows))"

definition demo_batch :: "registry \<Rightarrow> InstrumentRef list \<Rightarrow> (int \<times> Tx \<times> InstrumentRef list) list \<Rightarrow> Upload \<times> (string + string list \<times> IdentificationError list)" where
  "demo_batch registry offered rows = (let deps = demo_deps registry offered in
     resolveInstruments demo_env deps ''IBKR'' ''src'' None (demo_pre deps rows) rows demo_dir)"

definition demo_posting :: Tx where
  "demo_posting = (plain_tx [] ''1'' None '''')\<lparr>x_TradingCurrency := ''USD''\<rparr>"

lemma batch_cases:
  assumes "case r of (u, Inl _) \<Rightarrow> False | (u, Inr (ids, errs)) \<Rightarrow> P u ids errs"
  shows "\<exists>u ids errs. r = (u, Inr (ids, errs)) \<and> P u ids errs"
  using assms by (auto split: prod.splits sum.splits)

definition echo :: registry where
  "echo = answering (\<lambda>hs. Some (described_as ''STOCK'' ''USD'' [], hs))"

theorem resolution_keeps_the_store_witness:
  "\<exists>u' x. Resolve_instrument demo_env echo (posting_key ''IBKR'' ''src'' None 0 demo_posting [bare_ref ''CUSIP'' ''C1'']) (HintsFromTx demo_posting)
       [bare_ref ''CUSIP'' ''C1''] no_pass \<lparr>up_dir = demo_dir, up_cache = [], up_keys = None\<rparr> = (u', Inr x)
     \<and> master_ok demo_env (up_master u') \<and> rr_InstrumentID x \<in> instrument_ids (up_master u')"
proof -
  let ?u = "\<lparr>up_dir = demo_dir, up_cache = [], up_keys = None\<rparr>"
  let ?run = "Resolve_instrument demo_env echo (posting_key ''IBKR'' ''src'' None 0 demo_posting [bare_ref ''CUSIP'' ''C1'']) (HintsFromTx demo_posting)
       [bare_ref ''CUSIP'' ''C1''] no_pass ?u"
  have "(case snd ?run of Inl _ \<Rightarrow> False | Inr _ \<Rightarrow> True)" by code_simp
  then obtain u' x where run: "?run = (u', Inr x)" by (cases ?run) (auto split: sum.splits)
  have "master_ok demo_env (up_master ?u)" using demo_dir_ok by simp
  from resolution_keeps_the_store [OF demo_env_ok this run] show ?thesis using run by simp
qed

text \<open>One symbol on two venues, of which the plugin knows a security each.\<close>

definition listed :: "string \<Rightarrow> InstrumentRef" where
  "listed mic = \<lparr>ref_Type = ''MIC_TICKER'', ref_Value = ''V'', ref_Domain = mic\<rparr>"

definition two_listings :: "(int \<times> Tx \<times> InstrumentRef list) list" where
  "two_listings = [(0, demo_posting, [listed ''XNAS'']), (1, demo_posting, [listed ''XLON''])]"

definition two_securities :: registry where
  "two_securities = answering (\<lambda>hs. Some (described_as ''STOCK'' ''USD'' [], bare_ref ''ISIN'' (ref_Domain (hd hs)) # hs))"

lemma two_listings_run: "\<exists>u ids errs. demo_batch two_securities [] two_listings = (u, Inr (ids, errs)) \<and> ids = [''aaa'', ''aaa'']"
  by (rule batch_cases) code_simp

theorem batch_keeps_the_store_witness:
  "\<exists>u ids errs. demo_batch two_securities [] two_listings = (u, Inr (ids, errs)) \<and> master_ok demo_env (up_master u) \<and> length ids = 2"
proof -
  from two_listings_run obtain u ids errs where run: "demo_batch two_securities [] two_listings = (u, Inr (ids, errs))" by blast
  from batch_keeps_the_store [OF demo_env_ok demo_dir_ok run [unfolded demo_batch_def Let_def]] show ?thesis using run by (simp add: two_listings_def)
qed

theorem equal_symbols_share_an_instrument_witness:
  "\<exists>u ids errs. demo_batch two_securities [] two_listings = (u, Inr (ids, errs)) \<and> ids ! 0 = ids ! 1"
proof -
  from two_listings_run obtain u ids errs where run: "demo_batch two_securities [] two_listings = (u, Inr (ids, errs))" by blast
  have "ids ! 0 = ids ! 1"
    by (rule equal_symbols_share_an_instrument [OF run [unfolded demo_batch_def Let_def], where tx = demo_posting and tx' = demo_posting
          and hs = "[listed ''XNAS'']" and hs' = "[listed ''XLON'']" and ri = 0 and rj = 1])
      (simp_all add: two_listings_def listed_def type_value_def)
  then show ?thesis using run by blast
qed



text \<open>
  A guess that is dropped still writes its underlying: the proposed contract resolves to a future
  nothing the source stated agrees with, so the posting is left with the instrument of its
  description, but by then the future's underlying has been resolved and a new instrument stored for it.
\<close>

theorem dropped_guess_writes_its_underlying:
  "\<exists>u ids errs. demo_batch (answering (\<lambda>hs. if ref_Type (hd hs) = ''FUT_OPT'' then Some (described_as ''FUTURE'' '''' [bare_ref ''MIC_TICKER'' ''U''], hs)
         else Some (described_as ''STOCK'' ''USD'' [], hs)))
       [bare_ref ''FUT_OPT'' ''UZ5''] [(0, demo_posting, [])] = (u, Inr (ids, errs))
     \<and> map ie_Message errs = [''proposed identifier unconfirmed''] \<and> ids = [''aaaa'']
     \<and> FindInstrumentByIdentifier (bare_ref ''MIC_TICKER'' ''U'') (up_master u) = ''aaa''"
  by (rule batch_cases) code_simp

end
