(* ===== verification/Spec2Isabelle.thy ===== *)
theory Spec2Isabelle
  imports Ledger_Correct Transfer_Match Residual DateRange Derivative Option_Splits_Correct Declared_Holdings Prices_Correct Batch_Correct
begin

text \<open>
  A verification development of PortfolioDB, a server that ingests broker statements into a
  double-entry ledger of postings, groups them into events, balances every group, and matches the
  transfers between accounts. The sources are the Go files under \<open>src/server\<close>, with the enums and
  messages of \<open>src/proto\<close>.

  \<^bold>\<open>How the program fits together.\<close> An upload is a batch of transactions over a period
  (\<open>service/ingestion/ingest.go\<close>). The batch is validated, each declared type set is resolved to a
  common ancestor, instruments are identified, each posting is given the weight it brings to its
  group's balance, and the store replaces the period in one transaction
  (\<open>db/postgres/txs.go\<close>): it deletes what the period held, inserts each posting in a group of its
  own, lets the grouping engine (\<open>grouping/\<close>) derive which postings are one event, moves them
  together (\<open>db/postgres/grouping_apply.go\<close>), and routes to every group it touched the boundary and
  residual legs that make it sum to zero (\<open>residual/\<close>). A grouping cycle re-derives regions that
  hold a residual, and a matching cycle pairs departures with arrivals (\<open>transfermatch/\<close>).

  \<^bold>\<open>Theories, in the order they build on each other.\<close>

  \<^item> \<open>Prelude\<close>: association lists read as Go maps, insertion sort with a Go comparison
    (\<open>go_sort\<close>), first occurrences, and the named collections the components extend.
  \<^item> \<open>Go_Text\<close>: the string operations of the standard library the sources use, over ASCII.
  \<^item> \<open>TxType\<close> (\<open>txtype/txtype.go\<close>): the hierarchy of transaction types and its predicates.
  \<^item> \<open>Vocab\<close> (\<open>db/db.go\<close>): enums as stored strings and back, correlations.
  \<^item> \<open>Residual\<close> (\<open>residual/residual.go\<close>): where a residual and a boundary leg go.
  \<^item> \<open>DateRange\<close> (\<open>db/daterange.go\<close>): merging and subtracting half-open ranges.
  \<^item> \<open>Derivative\<close> (\<open>derivative/parse.go\<close>): option symbols parsed, built and normalised.
  \<^item> \<open>Security_Master\<close>, \<open>Security_Master_Correct\<close> (\<open>db/postgres/instruments.go\<close>): instruments and the names
    they carry over intervals of dates, with the constraints of the schema; lookups, merging,
    ensuring an instrument.
  \<^item> \<open>Option_Splits\<close>, \<open>Option_Splits_Correct\<close> (\<open>corporateevents/option_splits.go\<close>,
    \<open>db/postgres/corporate_events.go\<close>): options restated after a split of their underlying.
  \<^item> \<open>Declarations\<close> (\<open>db/postgres/declarations.go\<close>, \<open>service/api/declarations.go\<close>, \<open>recalc.go\<close>):
    what users declare their holdings to be and the opening balances derived from it, from the
    handlers to the statements, with the SQL that converts quantities between share counts.
    \<open>Opening_Balance\<close> shows the writes of an opening balance keep the ledger, \<open>Declarations_Correct\<close>
    what each handler does, \<open>Recalculation\<close> the recalculation (the locale \<open>pad_setter\<close> is a loop over
    calls that each settle one holding), \<open>Declared_Holdings\<close> the properties over all of them.
  \<^item> \<open>Price_Cache\<close> (\<open>db/postgres/price_cache.go\<close>, \<open>coverage.go\<close>, \<open>price_fetch_blocks.go\<close>): the tables of
    prices and of the spans plugins have answered for, their writes, held ranges and gaps.
    \<open>Price_Fetch\<close> (\<open>pricefetcher/\<close>, \<open>pluginutil/\<close>): a cycle of the price fetcher over plugins that are an
    argument. \<open>Price_Coverage\<close> shows what the writes keep, \<open>Price_Gaps\<close> what the scan behind the held
    ranges computes, \<open>Price_Cycle\<close> what a cycle keeps and settles, \<open>Prices_Correct\<close> the properties.
  \<^item> \<open>Identification\<close> (\<open>identifier/\<close>, \<open>service/identification/resolve.go\<close>): identifier types and venues, the
    lookups of hints, and the comparisons of answers with each other and with what was stated.
    \<open>Resolution\<close> (\<open>resolve.go\<close>): \<open>ResolveWithPlugins\<close> over plugins that are an argument, recursive over
    underlyings with the depth limit as its measure. \<open>Batch_Resolve\<close> (\<open>service/ingestion/resolve.go\<close>,
    \<open>worker.go\<close>, \<open>resolution_telemetry.go\<close>): the pre-pass, the candidate plugins, the cache and the loop over
    a batch. \<open>Identification_Correct\<close> shows which answer is chosen and what is merged into it,
    \<open>Resolution_Correct\<close> what a run does to the store (the locale \<open>fallback_provider\<close> is what a resolution
    asks of its fallback, interpreted on the broker's description), \<open>Batch_Correct\<close> the batch, with
    concrete batches evaluated.
  \<^item> \<open>Grouping_State\<close> (\<open>grouping/grouping.go\<close>): the union-find the rules work on. The locale of
    reachable states gives every rule the laws of \<open>Claim\<close> and \<open>Attach\<close>; they are proved against an
    abstract partition.
  \<^item> \<open>Rule_Base\<close>, \<open>Rule_Token\<close>, \<open>Rule_Trade\<close>, \<open>Rule_Deposit\<close>, \<open>Rule_Charge\<close>: the seven grouping rules,
    each with the queries it widens a region by and what it claims.
  \<^item> \<open>Partition\<close>: the rules run in precedence order, and the groups read off.
  \<^item> \<open>Grouping_Diff\<close> (\<open>diff.go\<close>, \<open>shadow.go\<close>): the changes against what is stored.
  \<^item> \<open>Grouping_Engine\<close> (\<open>neighbourhood.go\<close>, \<open>engine.go\<close>, \<open>worker.go\<close>): growing a region to a
    fixpoint over the store's reads, settling seeds, and the cycle over any store.
  \<^item> \<open>Transfer_Match\<close> (\<open>transfermatch/match.go\<close>, \<open>worker.go\<close>): both passes of the matcher.
  \<^item> \<open>Balance\<close> (\<open>service/ingestion/validate.go\<close>, \<open>balance.go\<close>): validation and weights.
  \<^item> \<open>Ledger\<close> (\<open>db/postgres/txs.go\<close>, \<open>grouping_apply.go\<close>): the tables and the three transactions
    that write them, statement by statement.
  \<^item> \<open>Ledger_Invariant\<close>, \<open>Ledger_Transactions\<close>: the invariant of the ledger and its relative form
    between two statements; that each statement, and so each transaction, keeps it; that a
    transaction which converts commits; what a transaction leaves stated. The locales
    \<open>ledger_settler\<close> and \<open>ledger_settler_total\<close> are what a transaction asks of the engine it runs.
  \<^item> \<open>Ledger_Cycle\<close>: \<open>ListGroupingSeeds\<close> and the grouping cycle over the ledger, with the frame
    property that makes seeds listed before the first write still good after it.
  \<^item> \<open>Ingest\<close> (\<open>service/ingestion/ingest.go\<close>): one batch from validation to the store, and the step
    relation of the whole store.
  \<^item> \<open>Ledger_Correct\<close> and this theory: the properties that span components.

  \<^bold>\<open>State and effects.\<close> Go structs are records, enums are datatypes, maps are association lists or
  functions, \<open>int64\<close> and \<open>time.Duration\<close> are 64-bit words, decimals are rationals, and times are
  integers (nanoseconds). A store transaction is a function on the ledger: \<open>None\<close> where the code
  panics or never returns, \<open>Some (Inl err)\<close> where it fails and is rolled back, \<open>Some (Inr l)\<close> where it
  commits. Loops that the source writes without a bound (\<open>Resolve\<close>, \<open>Neighbourhood\<close>) are partial
  functions into an option, so that returning is itself a theorem; loops with an evident measure are
  recursive functions. No fuel is used, except the four steps of the total form of \<open>Resolve\<close>, which
  are shown to be enough because the type tree is three deep.

  \<^bold>\<open>What is shown.\<close> Every reachable ledger balances, in every group and commodity, and is well
  formed. A replace leaves exactly the postings it should, commits whenever its rows convert, and is
  idempotent for rows dated inside its period. A batch is stored whole or not at all and never fails
  silently. The engine's partition is a partition, does not depend on the order of its input, keeps
  what the source states, and resolves within what was declared; applying its changes gives exactly
  its partition, and it is silent exactly where it agrees. Regions and cycles terminate. Each rule
  takes only what its evidence allows, and the pruned searches agree with their specifications. The
  names of instruments denote one instrument at a date, whatever is merged. Whatever is declared, and
  however a recalculation ends, the ledger stays in balance and a holding has at most one opening
  balance, which makes its earliest declaration true. Every stored price lies in a span its provider has
  answered for, the gaps put to the price plugins are exactly the days held that none has answered for,
  and a gap reported settled is never met again. Whatever the identifier plugins answer, resolving a
  posting keeps the security master sound and names a stored instrument; the answer chosen is the least
  by what it agrees with and then by precedence, nothing merged into it contradicts it, and a guess
  that nothing confirms writes no instrument of its own. Some
  theorems show where the code does not do what its comments say: a type set with an unspecified
  member, a retyped group that is not settled again, tied transfers, a saturated date gap, accounts
  of one name at two brokers, prices that a plugin with no data or a short history keeps the other
  plugins from being asked for, an instrument merged away within the batch that was given it, two
  securities the mismatch check takes for one, and a venue left out of the key of a posting.

  \<^bold>\<open>Parameters.\<close> Code outside the repository enters as arguments: \<open>uuid.Parse\<close> and
  \<open>gen_random_uuid\<close>, \<open>decimal.NewFromString\<close> and \<open>decimal.Div\<close>, and the scale of a \<open>NUMERIC\<close>, in the
  record \<open>Env\<close>, with the hypothesis \<open>env_ok\<close> that fresh ids are distinct, non-empty and parse to
  themselves, as does every id once parsed. Instrument resolution is an argument of \<open>ingestBatch\<close>, whose
  theorems hold for any answer of it; it is modelled on its own, with what an invocation of an
  identifier or candidate plugin returns as an argument and no hypothesis on it. Price plugins are an argument of the fetch cycle, with the hypothesis
  \<open>answers_within\<close> that the bars of an answer lie in the range asked for, as the interface documents.

  \<^bold>\<open>Not modelled.\<close> Plugins (HTTP clients of third-party services), the fetch workers of corporate events and
  inflation, the archive codec, authentication, the gRPC handlers other than those of declarations,
  telemetry other than the records of a resolution and process wiring, the client; the listing and
  export reads, the table of provider identifiers (what is handed to its write is kept as a list), and
  the tables of jobs and portfolios; the columns a trigger keeps adjusted for
  splits. Text outside ASCII is not given the Unicode case folding of Go.
\<close>

section \<open>The ledger at every moment\<close>



end
